(* ===== verification/Prelude.thy ===== *)
theory Prelude
  imports Main "HOL-Library.Word" "HOL-Library.Monad_Syntax"
begin

text \<open>
  Shared vocabulary of the development.

  \<^item> machine integers: \<open>uint8_t\<close>, \<open>uint32_t\<close>, \<open>ap_uint<N>\<close> are words of their width;
    \<open>int32_t\<close> and \<open>ap_int<N>\<close> are words read with \<open>sint\<close>;
  \<^item> bit fields: \<open>bits hi lo w\<close> is \<open>w.range(hi, lo)\<close> read, \<open>field lo n v\<close> is the contribution
    of the assignment \<open>w.range(lo+n-1, lo) = v\<close> to a word that starts at 0;
  \<^item> lane loops: a C++ loop over the lanes (or slots, ports, units) that updates one row per
    iteration is a \<open>fold\<close> over \<open>[0..<n]\<close>; the lemmas here give its closed form;
  \<^item> collections of rewrite rules that the component theories extend.
\<close>

unbundle bit_operations_syntax

named_theorems bitfield \<open>bit-field extraction from packed words\<close>
named_theorems lane_simps \<open>closed forms of loops over lanes\<close>

type_synonym u8 = "8 word"
type_synonym u16 = "16 word"
type_synonym u32 = "32 word"
type_synonym u64 = "64 word"

section \<open>Bit fields\<close>

definition bits :: "nat \<Rightarrow> nat \<Rightarrow> 'a::len word \<Rightarrow> 'a word" where
  "bits hi lo w = take_bit (hi + 1 - lo) (drop_bit lo w)"

definition field :: "nat \<Rightarrow> nat \<Rightarrow> 'a::len word \<Rightarrow> 'a word" where
  "field lo n v = push_bit lo (take_bit n v)"

lemma bit_bits [bit_simps]:
  "bit (bits hi lo w) n \<longleftrightarrow> n < hi + 1 - lo \<and> bit w (lo + n)"
  by (simp add: bits_def bit_simps)

lemma bit_field [bit_simps]:
  "bit (field lo n (v :: 'a::len word)) k \<longleftrightarrow>
     lo \<le> k \<and> k < LENGTH('a) \<and> k - lo < n \<and> bit v (k - lo)"
  by (auto simp: field_def bit_simps)

lemma bits_or [bitfield]: "bits hi lo (a OR b) = bits hi lo a OR bits hi lo b"
  by (simp add: bits_def)

lemma bits_field_same [bitfield]:
  "hi < LENGTH('a) \<Longrightarrow> n = hi + 1 - lo \<Longrightarrow> lo \<le> hi \<Longrightarrow>
   bits hi lo (field lo n (v :: 'a::len word)) = take_bit n v"
  by (rule bit_word_eqI) (auto simp: bit_simps)

lemma bits_field_below [bitfield]:
  "lo' + n \<le> lo \<Longrightarrow> bits hi lo (field lo' n (v :: 'a::len word)) = 0"
  by (rule bit_word_eqI) (auto simp: bit_simps)

lemma bits_field_above [bitfield]:
  "hi < lo' \<Longrightarrow> bits hi lo (field lo' n (v :: 'a::len word)) = 0"
  by (rule bit_word_eqI) (auto simp: bit_simps)

lemma bits_zero [simp, bitfield]: "bits hi lo 0 = 0"
  by (simp add: bits_def)

lemma field_zero [simp, bitfield]: "field lo n 0 = 0"
  by (simp add: field_def)

lemma field_take_bit [bitfield]: "field lo n (take_bit n v) = field lo n v"
  by (simp add: field_def)

lemma field_join:
  "field lo m (bits (lo2 + m - 1) lo2 (v :: 'a::len word)) = field lo m (drop_bit lo2 v)"
  if "0 < m"
  using that by (intro bit_word_eqI) (auto simp: bit_simps)

lemma unat_take_bit_less: "unat (take_bit n (w :: 'a::len word)) < 2 ^ n"
  by (simp add: unsigned_take_bit_eq)

section \<open>Loops over lanes\<close>

text \<open>A loop whose iteration \<open>t\<close> rewrites row \<open>t\<close> only, guarded by \<open>p t\<close>.\<close>

definition lane_loop :: "nat \<Rightarrow> (nat \<Rightarrow> bool) \<Rightarrow> (nat \<Rightarrow> 'a \<Rightarrow> 'a) \<Rightarrow> 'a list \<Rightarrow> 'a list" where
  "lane_loop n p f xs = fold (\<lambda>t xs. if p t then xs[t := f t (xs ! t)] else xs) [0..<n] xs"

lemma length_lane_loop [simp]: "length (lane_loop n p f xs) = length xs"
  by (induction n) (auto simp: lane_loop_def)

lemma lane_loop_Suc:
  "lane_loop (Suc n) p f xs =
     (let ys = lane_loop n p f xs in if p n then ys[n := f n (ys ! n)] else ys)"
  by (simp add: lane_loop_def Let_def)

lemma lane_loop_nth [lane_simps]:
  "t < length xs \<Longrightarrow>
   lane_loop n p f xs ! t = (if t < n \<and> p t then f t (xs ! t) else xs ! t)"
proof (induction n)
  case 0
  then show ?case by (simp add: lane_loop_def)
next
  case (Suc n)
  then show ?case
    by (cases "t = n") (auto simp: lane_loop_Suc Let_def nth_list_update less_Suc_eq)
qed

lemma lane_loop_cong:
  assumes "\<And>t x. t < n \<Longrightarrow> p t = q t" "\<And>t x. t < n \<Longrightarrow> p t \<Longrightarrow> f t x = g t x"
  shows "lane_loop n p f xs = lane_loop n q g xs"
  using assms by (induction n) (auto simp: lane_loop_Suc lane_loop_def)

lemma lane_loop_id: "(\<And>t. t < n \<Longrightarrow> \<not> p t) \<Longrightarrow> lane_loop n p f xs = xs"
  by (rule nth_equalityI) (auto simp: lane_simps)

section \<open>Lists\<close>

lemma list_all_update:
  "list_all P xs \<Longrightarrow> P y \<Longrightarrow> list_all P (xs[i := y])"
  unfolding list_all_length
  by (metis length_list_update nth_list_update_eq nth_list_update_neq)

lemma list_all_lane_loop:
  assumes "list_all P xs" "\<And>t x. t < n \<Longrightarrow> p t \<Longrightarrow> P x \<Longrightarrow> P (f t x)"
  shows "list_all P (lane_loop n p f xs)"
  using assms(1) unfolding list_all_length
  by (simp add: lane_loop_nth assms(2))

lemma fold_invariant_nat:
  assumes "P s" "\<And>i s. i \<in> set xs \<Longrightarrow> P s \<Longrightarrow> P (f i s)"
  shows "P (fold f xs s)"
  using assms by (induction xs arbitrary: s) auto

section \<open>Lane masks\<close>

text \<open>\<open>mask_of n c\<close>: the mask built by a loop that sets bit \<open>t\<close> when \<open>c t\<close> holds.\<close>

definition mask_of :: "nat \<Rightarrow> (nat \<Rightarrow> bool) \<Rightarrow> 'a::len word" where
  "mask_of n c = fold (\<lambda>t m. if c t then Bit_Operations.set_bit t m else m) [0..<n] 0"

lemma bit_mask_of [bit_simps, simp]:
  "bit (mask_of n c :: 'a::len word) k \<longleftrightarrow> k < n \<and> k < LENGTH('a) \<and> c k"
proof (induction n)
  case 0
  then show ?case by (simp add: mask_of_def)
next
  case (Suc n)
  have "mask_of (Suc n) c =
      (if c n then Bit_Operations.set_bit n (mask_of n c) else mask_of n c :: 'a word)"
    by (simp add: mask_of_def)
  with Suc show ?case by (auto simp: bit_simps less_Suc_eq)
qed

lemma mask_of_or_shift:
  "fold (\<lambda>t m. if c t then m OR push_bit t 1 else m) [0..<n] 0 = (mask_of n c :: 'a::len word)"
proof -
  have "(\<lambda>t (m :: 'a word). if c t then m OR push_bit t 1 else m)
      = (\<lambda>t m. if c t then Bit_Operations.set_bit t m else m)"
    by (intro ext) (simp add: set_bit_def)
  then show ?thesis by (simp add: mask_of_def)
qed

lemma mask_of_eq_0_iff:
  "(mask_of n c :: 'a::len word) = 0 \<longleftrightarrow> (\<forall>k. k < n \<and> k < LENGTH('a) \<longrightarrow> \<not> c k)"
  by (auto simp: bit_eq_iff)

text \<open>\<open>popcount\<close> as the loop the hardware unrolls, and as a count of set bits.\<close>

definition popcount_loop :: "u32 \<Rightarrow> u32" where
  "popcount_loop m = fold (\<lambda>t c. c + of_bool (bit m t)) [0..<32] 0"

definition popcount :: "u32 \<Rightarrow> u32" where
  "popcount m = of_nat (length (filter (bit m) [0..<32]))"

lemma popcount_loop_eq: "popcount_loop m = popcount m"
proof -
  have "fold (\<lambda>t c. c + of_bool (bit m t)) ts c0 = c0 + of_nat (length (filter (bit m) ts))"
    for ts and c0 :: u32
    by (induction ts arbitrary: c0) auto
  then show ?thesis by (simp only: popcount_loop_def popcount_def add_0)
qed

section \<open>\<open>std::vector\<close>\<close>

text \<open>\<open>v.resize(n, x)\<close>.\<close>

definition resize :: "nat \<Rightarrow> 'a \<Rightarrow> 'a list \<Rightarrow> 'a list" where
  "resize n x xs = take n xs @ replicate (n - length xs) x"

lemma length_resize [simp]: "length (resize n x xs) = n"
  by (simp add: resize_def)

lemma resize_nth_old [simp]: "i < length xs \<Longrightarrow> i < n \<Longrightarrow> resize n x xs ! i = xs ! i"
  by (simp add: resize_def nth_append)

lemma resize_nth_new [simp]: "length xs \<le> i \<Longrightarrow> i < n \<Longrightarrow> resize n x xs ! i = x"
  by (simp add: resize_def nth_append)

lemma resize_same [simp]: "resize (length xs) x xs = xs"
  by (simp add: resize_def)

end
