(* ===== verification/HlsTypes.thy ===== *)
theory HlsTypes
  imports Prelude
begin

text \<open>
  The data of the synthesizable design: \<open>hls/src/common/hls_config.h\<close> and
  \<open>hls/src/common/hls_types.h\<close>. Constants keep the values of the default build (no board macro:
  8 compute units of 8 warp slots, 32 lanes, 32 registers per lane). Structs are records with a
  short field prefix; the default member initialisers are the constants \<open>..._default\<close>.
\<close>

section \<open>Constants\<close>

definition MAX_THREADS_PER_WARP :: nat where [simp]: "MAX_THREADS_PER_WARP = 32"
definition NUM_REGS_PER_THREAD :: nat where [simp]: "NUM_REGS_PER_THREAD = 32"
definition MAX_PROGRAM_LEN :: nat where [simp]: "MAX_PROGRAM_LEN = 256"
definition MAX_DIVERGENCE_DEPTH :: nat where [simp]: "MAX_DIVERGENCE_DEPTH = 8"
definition CACHE_LINE_BYTES :: nat where [simp]: "CACHE_LINE_BYTES = 128"
definition WORDS_PER_LINE :: nat where [simp]: "WORDS_PER_LINE = CACHE_LINE_BYTES div 4"
definition L1_WAYS :: nat where [simp]: "L1_WAYS = 4"
definition L1_SIZE_BYTES :: nat where [simp]: "L1_SIZE_BYTES = 32 * 1024"
definition L1_LINES_TOTAL :: nat where [simp]: "L1_LINES_TOTAL = L1_SIZE_BYTES div CACHE_LINE_BYTES"
definition L1_SETS_PER_WAY :: nat where [simp]: "L1_SETS_PER_WAY = L1_LINES_TOTAL div L1_WAYS"
definition L2_WAYS :: nat where [simp]: "L2_WAYS = 4"
definition L2_SIZE_BYTES :: nat where [simp]: "L2_SIZE_BYTES = 256 * 1024"
definition L2_LINES_TOTAL :: nat where [simp]: "L2_LINES_TOTAL = L2_SIZE_BYTES div CACHE_LINE_BYTES"
definition L2_SETS_PER_WAY :: nat where [simp]: "L2_SETS_PER_WAY = L2_LINES_TOTAL div L2_WAYS"
definition NUM_CUS :: nat where [simp]: "NUM_CUS = 8"
definition CLUSTER_SIZE :: nat where
  [simp]: "CLUSTER_SIZE = (if NUM_CUS \<ge> 13 then NUM_CUS div 2 else NUM_CUS)"
definition NUM_CLUSTERS :: nat where [simp]: "NUM_CLUSTERS = (if NUM_CUS \<ge> 13 then 2 else 1)"
definition SHARED_MEM_SIZE_BYTES :: nat where [simp]: "SHARED_MEM_SIZE_BYTES = 32 * 1024"
definition SHARED_MEM_WORDS_PER_CU :: nat where
  [simp]: "SHARED_MEM_WORDS_PER_CU = SHARED_MEM_SIZE_BYTES div 4"
definition MAX_WARPS_PER_CU :: nat where [simp]: "MAX_WARPS_PER_CU = 8"

section \<open>Primitive aliases\<close>

type_synonym warp_id_t = u32
type_synonym cu_id_t = "3 word"
type_synonym lane_id_t = "6 word"
type_synonym thread_mask_t = u32
type_synonym reg_t = u32
type_synonym addr_t = u32
type_synonym imm_t = u32
type_synonym barrier_id_t = u32
type_synonym slot_id_t = "4 word"
type_synonym raw_instr_t = u32
type_synonym instr_word_t = raw_instr_t

section \<open>Opcodes\<close>

datatype Opcode =
    Op_ADD | Op_SUB | Op_AND | Op_OR | Op_XOR | Op_SLT | Op_FADD | Op_FMUL
  | Op_ADDI | Op_LUI | Op_LW | Op_SW | Op_BEQ | Op_BNE | Op_VBRANCH | Op_VJOIN
  | Op_VADD | Op_VSUB | Op_VMUL | Op_VFMADD | Op_VFADD | Op_VFSUB | Op_VFMUL | Op_VFFMADD
  | Op_JAL | Op_JALR | Op_BARRIER | Op_HALT

fun opcode_value :: "Opcode \<Rightarrow> u8" where
  "opcode_value Op_ADD = 0x00" | "opcode_value Op_SUB = 0x01" | "opcode_value Op_AND = 0x02"
| "opcode_value Op_OR = 0x03" | "opcode_value Op_XOR = 0x04" | "opcode_value Op_SLT = 0x05"
| "opcode_value Op_FADD = 0x06" | "opcode_value Op_FMUL = 0x08"
| "opcode_value Op_ADDI = 0x10" | "opcode_value Op_LUI = 0x11"
| "opcode_value Op_LW = 0x20" | "opcode_value Op_SW = 0x21"
| "opcode_value Op_BEQ = 0x30" | "opcode_value Op_BNE = 0x31"
| "opcode_value Op_VBRANCH = 0x32" | "opcode_value Op_VJOIN = 0x33"
| "opcode_value Op_VADD = 0x40" | "opcode_value Op_VSUB = 0x41"
| "opcode_value Op_VMUL = 0x42" | "opcode_value Op_VFMADD = 0x43"
| "opcode_value Op_VFADD = 0x48" | "opcode_value Op_VFSUB = 0x49"
| "opcode_value Op_VFMUL = 0x4A" | "opcode_value Op_VFFMADD = 0x4B"
| "opcode_value Op_JAL = 0x60" | "opcode_value Op_JALR = 0x61"
| "opcode_value Op_BARRIER = 0x70" | "opcode_value Op_HALT = 0xFF"

text \<open>\<open>enum class Opcode\<close> is ordered by its values.\<close>

lemma opcode_value_inj: "opcode_value a = opcode_value b \<Longrightarrow> a = b"
  by (cases a; cases b) simp_all

instantiation Opcode :: linorder
begin
definition less_eq_Opcode :: "Opcode \<Rightarrow> Opcode \<Rightarrow> bool" where
  "less_eq_Opcode a b = (opcode_value a \<le> opcode_value b)"
definition less_Opcode :: "Opcode \<Rightarrow> Opcode \<Rightarrow> bool" where
  "less_Opcode a b = (opcode_value a < opcode_value b)"
instance
  by standard (auto simp: less_eq_Opcode_def less_Opcode_def opcode_value_inj)
end

definition isVectorOp :: "Opcode \<Rightarrow> bool" where
  "isVectorOp opc = (let o' = opcode_value opc in o' \<ge> 0x40 \<and> o' < 0x60)"
definition isMemoryOp :: "Opcode \<Rightarrow> bool" where
  "isMemoryOp opc = (let o' = opcode_value opc in o' \<ge> 0x20 \<and> o' < 0x30)"
definition isBranchOp :: "Opcode \<Rightarrow> bool" where
  "isBranchOp opc = (let o' = opcode_value opc in o' \<ge> 0x30 \<and> o' < 0x40)"

lemmas op_class_defs = isVectorOp_def isMemoryOp_def isBranchOp_def

lemma isMemoryOp_iff [simp]: "isMemoryOp opc \<longleftrightarrow> opc = Op_LW \<or> opc = Op_SW"
  by (cases opc) (simp_all add: isMemoryOp_def word_le_nat_alt word_less_nat_alt)

lemma isBranchOp_iff [simp]:
  "isBranchOp opc \<longleftrightarrow> opc \<in> {Op_BEQ, Op_BNE, Op_VBRANCH, Op_VJOIN}"
  by (cases opc) (simp_all add: isBranchOp_def word_le_nat_alt word_less_nat_alt)

lemma isVectorOp_iff [simp]:
  "isVectorOp opc \<longleftrightarrow> opc \<in> {Op_VADD, Op_VSUB, Op_VMUL, Op_VFMADD,
                            Op_VFADD, Op_VFSUB, Op_VFMUL, Op_VFFMADD}"
  by (cases opc) (simp_all add: isVectorOp_def word_le_nat_alt word_less_nat_alt)

section \<open>Records\<close>

record Instruction =
  i_pc :: u32
  i_opcode :: Opcode
  i_rs1 :: u8
  i_rs2 :: u8
  i_rd :: u8
  i_imm :: imm_t
  i_is_vector :: bool
  i_is_memory :: bool
  i_is_branch :: bool

definition Instruction_default :: Instruction where
  "Instruction_default = \<lparr> i_pc = 0, i_opcode = Op_HALT, i_rs1 = 0, i_rs2 = 0, i_rd = 0, i_imm = 0,
     i_is_vector = False, i_is_memory = False, i_is_branch = False \<rparr>"

type_synonym RegRow = "reg_t list"
type_synonym RegisterFile = "RegRow list"

record mem_req_t =
  rq_cu_id :: cu_id_t
  rq_warp_id :: warp_id_t
  rq_lane_id :: lane_id_t
  rq_address :: addr_t
  rq_is_write :: bool
  rq_write_data :: reg_t

record mem_resp_t =
  rp_cu_id :: cu_id_t
  rp_warp_id :: warp_id_t
  rp_lane_id :: lane_id_t
  rp_data :: reg_t

datatype WarpStatusCode = COMPLETE | STALLED_AT_BARRIER

record warp_status_t =
  ws_code :: WarpStatusCode
  ws_barrier_id :: barrier_id_t
  ws_slot_id :: slot_id_t
  ws_resume_pc :: u16
  ws_instr_count :: u32

definition warp_status_default :: warp_status_t where
  "warp_status_default = \<lparr> ws_code = COMPLETE, ws_barrier_id = 0, ws_slot_id = 0,
     ws_resume_pc = 0, ws_instr_count = 0 \<rparr>"

datatype SlotState = EMPTY | READY | STALLED | DONE

record WarpSlot =
  sl_warp_id :: warp_id_t
  sl_resume_pc :: u16
  sl_barrier_id :: barrier_id_t
  sl_state :: SlotState
  sl_fresh :: bool

definition WarpSlot_default :: WarpSlot where
  "WarpSlot_default = \<lparr> sl_warp_id = 0, sl_resume_pc = 0, sl_barrier_id = 0,
     sl_state = EMPTY, sl_fresh = False \<rparr>"

record reg_seed_t =
  sd_slot_id :: slot_id_t
  sd_flat_i :: "10 word"
  sd_value :: reg_t

record warp_dispatch_t =
  wd_slot_id :: slot_id_t
  wd_warp_id :: warp_id_t
  wd_active_mask_init :: thread_mask_t
  wd_resume_pc :: u16
  wd_fresh_launch :: bool

definition wf_regs :: "RegisterFile \<Rightarrow> bool" where
  "wf_regs rf \<longleftrightarrow> length rf = MAX_THREADS_PER_WARP \<and>
     list_all (\<lambda>row. length row = NUM_REGS_PER_THREAD) rf"

lemma wf_regs_row: "wf_regs rf \<Longrightarrow> t < 32 \<Longrightarrow> length (rf ! t) = 32"
  by (simp add: wf_regs_def list_all_length)

end
