(* ===== verification/Codec.thy ===== *)
theory Codec
  imports HlsTypes
begin

text \<open>
  The instruction codec of \<open>hls/src/compute_unit/rv32i_codec.h\<close>: \<open>encodeInstruction\<close>,
  \<open>encodeInstructionExpanded\<close> and \<open>decodeInstruction\<close>. A pack lambda of the source assigns disjoint
  ranges of a word that starts at 0, so its result is the OR of the fields.
\<close>

section \<open>Packing\<close>

definition rv_OP :: u32 where [simp]: "rv_OP = 0x33"
definition rv_OP_IMM :: u32 where [simp]: "rv_OP_IMM = 0x13"
definition rv_LUI_OP :: u32 where [simp]: "rv_LUI_OP = 0x37"
definition rv_LOAD_OP :: u32 where [simp]: "rv_LOAD_OP = 0x03"
definition rv_STORE_OP :: u32 where [simp]: "rv_STORE_OP = 0x23"
definition rv_BRANCH_OP :: u32 where [simp]: "rv_BRANCH_OP = 0x63"
definition rv_JAL_OP :: u32 where [simp]: "rv_JAL_OP = 0x6F"
definition rv_JALR_OP :: u32 where [simp]: "rv_JALR_OP = 0x67"
definition rv_CUSTOM0 :: u32 where [simp]: "rv_CUSTOM0 = 0x0B"
definition rv_CUSTOM1 :: u32 where [simp]: "rv_CUSTOM1 = 0x2B"
definition rv_OP_FP :: u32 where [simp]: "rv_OP_FP = 0x53"

definition packR :: "u8 \<Rightarrow> u8 \<Rightarrow> u8 \<Rightarrow> u32 \<Rightarrow> u32 \<Rightarrow> u32 \<Rightarrow> raw_instr_t" where
  "packR rd rs1 rs2 opc f3 f7 =
     field 25 7 f7 OR field 20 5 (ucast rs2) OR field 15 5 (ucast rs1)
     OR field 12 3 f3 OR field 7 5 (ucast rd) OR field 0 7 opc"

definition packI :: "u8 \<Rightarrow> u8 \<Rightarrow> imm_t \<Rightarrow> u32 \<Rightarrow> u32 \<Rightarrow> raw_instr_t" where
  "packI rd rs1 im opc f3 =
     field 20 12 im OR field 15 5 (ucast rs1) OR field 12 3 f3 OR field 7 5 (ucast rd)
     OR field 0 7 opc"

definition packS :: "u8 \<Rightarrow> u8 \<Rightarrow> imm_t \<Rightarrow> u32 \<Rightarrow> u32 \<Rightarrow> raw_instr_t" where
  "packS rs1 rs2 im opc f3 =
     field 25 7 (bits 11 5 im) OR field 20 5 (ucast rs2) OR field 15 5 (ucast rs1)
     OR field 12 3 f3 OR field 7 5 (bits 4 0 im) OR field 0 7 opc"

definition packB :: "u8 \<Rightarrow> u8 \<Rightarrow> imm_t \<Rightarrow> u32 \<Rightarrow> u32 \<Rightarrow> raw_instr_t" where
  "packB rs1 rs2 im opc f3 =
     field 31 1 (bits 12 12 im) OR field 25 6 (bits 10 5 im) OR field 20 5 (ucast rs2)
     OR field 15 5 (ucast rs1) OR field 12 3 f3 OR field 8 4 (bits 4 1 im)
     OR field 7 1 (bits 11 11 im) OR field 0 7 opc"

definition packU :: "u8 \<Rightarrow> imm_t \<Rightarrow> u32 \<Rightarrow> raw_instr_t" where
  "packU rd im opc = field 12 20 im OR field 7 5 (ucast rd) OR field 0 7 opc"

definition packJ :: "u8 \<Rightarrow> imm_t \<Rightarrow> u32 \<Rightarrow> raw_instr_t" where
  "packJ rd im opc =
     field 31 1 (bits 20 20 im) OR field 21 10 (bits 10 1 im) OR field 20 1 (bits 11 11 im)
     OR field 12 8 (bits 19 12 im) OR field 7 5 (ucast rd) OR field 0 7 opc"

lemmas pack_defs = packR_def packI_def packS_def packB_def packU_def packJ_def

section \<open>Encoding\<close>

definition encodeInstruction :: "Opcode \<Rightarrow> u8 \<Rightarrow> u8 \<Rightarrow> u8 \<Rightarrow> imm_t \<Rightarrow> raw_instr_t" where
  "encodeInstruction opc rd rs1 rs2 im = (case opc of
       Op_ADD \<Rightarrow> packR rd rs1 rs2 rv_OP 0 0
     | Op_SUB \<Rightarrow> packR rd rs1 rs2 rv_OP 0 0x20
     | Op_AND \<Rightarrow> packR rd rs1 rs2 rv_OP 7 0
     | Op_OR \<Rightarrow> packR rd rs1 rs2 rv_OP 6 0
     | Op_XOR \<Rightarrow> packR rd rs1 rs2 rv_OP 4 0
     | Op_SLT \<Rightarrow> packR rd rs1 rs2 rv_OP 2 0
     | Op_ADDI \<Rightarrow> packI rd rs1 im rv_OP_IMM 0
     | Op_LUI \<Rightarrow> packU rd im rv_LUI_OP
     | Op_LW \<Rightarrow> packI rd rs1 im rv_LOAD_OP 2
     | Op_SW \<Rightarrow> packS rs1 rs2 im rv_STORE_OP 2
     | Op_BEQ \<Rightarrow> packB rs1 rs2 im rv_BRANCH_OP 0
     | Op_BNE \<Rightarrow> packB rs1 rs2 im rv_BRANCH_OP 1
     | Op_JAL \<Rightarrow> packJ rd im rv_JAL_OP
     | Op_JALR \<Rightarrow> packI rd rs1 im rv_JALR_OP 0
     | Op_VADD \<Rightarrow> packR rd rs1 rs2 rv_CUSTOM0 0 0
     | Op_VSUB \<Rightarrow> packR rd rs1 rs2 rv_CUSTOM0 1 0
     | Op_VMUL \<Rightarrow> packR rd rs1 rs2 rv_CUSTOM0 2 0
     | Op_VFMADD \<Rightarrow> packR rd rs1 rs2 rv_CUSTOM0 3 0
     | Op_VFADD \<Rightarrow> packR rd rs1 rs2 rv_CUSTOM0 4 0
     | Op_VFSUB \<Rightarrow> packR rd rs1 rs2 rv_CUSTOM0 5 0
     | Op_VFMUL \<Rightarrow> packR rd rs1 rs2 rv_CUSTOM0 6 0
     | Op_VFFMADD \<Rightarrow> packR rd rs1 rs2 rv_CUSTOM0 7 0
     | Op_FADD \<Rightarrow> packR rd rs1 rs2 rv_CUSTOM0 0 1
     | Op_FMUL \<Rightarrow> packR rd rs1 rs2 rv_CUSTOM0 1 1
     | Op_VBRANCH \<Rightarrow> packR rd rs1 rs2 rv_CUSTOM1 0 0
     | Op_VJOIN \<Rightarrow> packR rd rs1 rs2 rv_CUSTOM1 1 0
     | Op_BARRIER \<Rightarrow> packI rd rs1 im rv_CUSTOM1 2
     | Op_HALT \<Rightarrow> packR rd rs1 rs2 rv_CUSTOM1 3 0)"

text \<open>The two-word expansion of \<open>ADDI rd, x0, imm\<close>. \<open>imm + 0x800\<close> and the subtraction are 32-bit
  wrap-around, the shift right is arithmetic.\<close>

definition needsExpansion :: "Opcode \<Rightarrow> u8 \<Rightarrow> imm_t \<Rightarrow> bool" where
  "needsExpansion opc rs1 im \<longleftrightarrow> opc = Op_ADDI \<and> rs1 = 0 \<and> (sint im < -2048 \<or> sint im > 2047)"

definition encodeInstructionExpanded ::
  "Opcode \<Rightarrow> u8 \<Rightarrow> u8 \<Rightarrow> u8 \<Rightarrow> imm_t \<Rightarrow> raw_instr_t list" where
  "encodeInstructionExpanded opc rd rs1 rs2 im =
     (if \<not> needsExpansion opc rs1 im then [encodeInstruction opc rd rs1 rs2 im]
      else let hi20 = signed_drop_bit 12 (im + 0x800);
               lo12 = im - push_bit 12 hi20
           in [encodeInstruction Op_LUI rd 0 0 hi20, encodeInstruction Op_ADDI rd rd 0 lo12])"

section \<open>Decoding\<close>

definition dec_iimm :: "raw_instr_t \<Rightarrow> imm_t" where
  "dec_iimm w = signed_take_bit 11 (bits 31 20 w)"
definition dec_simm :: "raw_instr_t \<Rightarrow> imm_t" where
  "dec_simm w = signed_take_bit 11 (field 5 7 (bits 31 25 w) OR field 0 5 (bits 11 7 w))"
definition dec_bimm :: "raw_instr_t \<Rightarrow> imm_t" where
  "dec_bimm w = signed_take_bit 12
     (field 12 1 (bits 31 31 w) OR field 5 6 (bits 30 25 w) OR field 1 4 (bits 11 8 w)
      OR field 11 1 (bits 7 7 w))"
definition dec_uimm :: "raw_instr_t \<Rightarrow> imm_t" where
  "dec_uimm w = bits 31 12 w"
definition dec_jimm :: "raw_instr_t \<Rightarrow> imm_t" where
  "dec_jimm w = signed_take_bit 20
     (field 20 1 (bits 31 31 w) OR field 1 10 (bits 30 21 w) OR field 11 1 (bits 20 20 w)
      OR field 12 8 (bits 19 12 w))"

definition dec_opcode :: "raw_instr_t \<Rightarrow> Opcode" where
  "dec_opcode w = (let opc = bits 6 0 w; f3 = bits 14 12 w; f7 = bits 31 25 w in
     if opc = rv_OP then
       (if f3 = 0 then (if f7 = 0x20 then Op_SUB else Op_ADD)
        else if f3 = 7 then Op_AND else if f3 = 6 then Op_OR else if f3 = 4 then Op_XOR
        else Op_SLT)
     else if opc = rv_OP_IMM then Op_ADDI
     else if opc = rv_LUI_OP then Op_LUI
     else if opc = rv_LOAD_OP then Op_LW
     else if opc = rv_STORE_OP then Op_SW
     else if opc = rv_BRANCH_OP then (if f3 = 0 then Op_BEQ else Op_BNE)
     else if opc = rv_JAL_OP then Op_JAL
     else if opc = rv_JALR_OP then Op_JALR
     else if opc = rv_OP_FP then
       (if f7 = 0 then Op_FADD else if f7 = 0x08 then Op_FMUL else Op_HALT)
     else if opc = rv_CUSTOM0 then
       (if f7 = 0 then
          (if f3 = 0 then Op_VADD else if f3 = 1 then Op_VSUB else if f3 = 2 then Op_VMUL
           else if f3 = 3 then Op_VFMADD else if f3 = 4 then Op_VFADD
           else if f3 = 5 then Op_VFSUB else if f3 = 6 then Op_VFMUL else Op_VFFMADD)
        else if f3 = 0 then Op_FADD else Op_FMUL)
     else if opc = rv_CUSTOM1 then
       (if f3 = 0 then Op_VBRANCH else if f3 = 1 then Op_VJOIN
        else if f3 = 2 then Op_BARRIER else Op_HALT)
     else Op_HALT)"

definition decodeInstruction :: "raw_instr_t \<Rightarrow> Instruction" where
  "decodeInstruction w = (let
     opc = bits 6 0 w; f3 = bits 14 12 w;
     rd5 = ucast (bits 11 7 w) :: u8; rs15 = ucast (bits 19 15 w) :: u8;
     rs25 = ucast (bits 24 20 w) :: u8;
     opcode = dec_opcode w;
     ins = (\<lambda>rd rs1 rs2 im. \<lparr> i_pc = 0, i_opcode = opcode, i_rs1 = rs1, i_rs2 = rs2, i_rd = rd,
       i_imm = im, i_is_vector = isVectorOp opcode, i_is_memory = isMemoryOp opcode,
       i_is_branch = isBranchOp opcode \<rparr>)
     in
     if opc = rv_OP then ins rd5 rs15 rs25 0
     else if opc = rv_OP_IMM then ins rd5 rs15 0 (dec_iimm w)
     else if opc = rv_LUI_OP then ins rd5 0 0 (dec_uimm w)
     else if opc = rv_LOAD_OP then ins rd5 rs15 0 (dec_iimm w)
     else if opc = rv_STORE_OP then ins 0 rs15 rs25 (dec_simm w)
     else if opc = rv_BRANCH_OP then ins 0 rs15 rs25 (dec_bimm w)
     else if opc = rv_JAL_OP then ins rd5 0 0 (dec_jimm w)
     else if opc = rv_JALR_OP then ins rd5 rs15 0 (dec_iimm w)
     else if opc = rv_OP_FP then ins rd5 rs15 rs25 0
     else if opc = rv_CUSTOM0 then ins rd5 rs15 rs25 0
     else if opc = rv_CUSTOM1 then
       (if f3 = 0 then ins rd5 rs15 rs25 0
        else if f3 = 1 then ins 0 0 0 0
        else if f3 = 2 then ins rd5 rs15 0 (dec_iimm w)
        else ins 0 0 0 0)
     else ins 0 0 0 0)"

section \<open>Field algebra of the packed words\<close>

lemma signed_take_bit_field_join5:
  "signed_take_bit 11 (field 5 7 (bits 11 5 im) OR field 0 5 (bits 4 0 im)) = signed_take_bit 11 (im :: 32 word)"
proof -
  have "field 5 7 (bits 11 5 im) OR field 0 5 (bits 4 0 im) = take_bit 12 im"
    by (rule bit_word_eqI) (auto simp: bit_simps)
  then show ?thesis by (simp add: signed_take_bit_take_bit)
qed

lemma signed_take_bit_take_bit_Suc [bitfield]:
  "m = Suc n \<Longrightarrow> signed_take_bit n (take_bit m w) = signed_take_bit n (w :: 'a::len word)"
  by (simp add: signed_take_bit_take_bit)

lemma word32_eqI:
  "list_all (\<lambda>n. bit x n = bit y n) 
     [0,1,2,3,4,5,6,7,8,9,10,11,12,13,14,15,16,17,18,19,20,21,22,23,24,25,26,27,28,29,30,31]
   \<Longrightarrow> x = (y :: 32 word)"
proof -
  have "[0,1,2,3,4,5,6,7,8,9,10,11,12,13,14,15,16,17,18,19,20,21,22,23,24,25,26,27,28,29,30,31]
    = [0..<32]" by (simp add: upt_rec)
  then show "list_all (\<lambda>n. bit x n = bit y n)
     [0,1,2,3,4,5,6,7,8,9,10,11,12,13,14,15,16,17,18,19,20,21,22,23,24,25,26,27,28,29,30,31]
   \<Longrightarrow> x = y"
    by (simp only:) (rule bit_word_eqI, simp add: list_all_iff)
qed

lemma take_bit_bits [bitfield]: "hi + 1 - lo \<le> n \<Longrightarrow> take_bit n (bits hi lo w) = bits hi lo w"
  by (simp add: bits_def)

lemma bits_mod_2 [bitfield]: "bits k k w mod 2 = bits k k (w :: 'a::len word)"
  using take_bit_bits [of k k 1 w] by (simp add: take_bit_eq_mod)

lemma bimm_join:
  "field 12 1 (bits 12 12 im) OR field 5 6 (bits 10 5 im) OR field 1 4 (bits 4 1 im)
     OR field 11 1 (bits 11 11 im) = take_bit 13 (im :: 32 word) AND NOT 1"
  by (rule word32_eqI) (simp add: bit_simps flip: numeral_2_eq_2)
lemma jimm_join:
  "field 20 1 (bits 20 20 im) OR field 1 10 (bits 10 1 im) OR field 11 1 (bits 11 11 im)
     OR field 12 8 (bits 19 12 im) = take_bit 21 (im :: 32 word) AND NOT 1"
  by (rule word32_eqI) (simp add: bit_simps flip: numeral_2_eq_2)

lemma bits_packR [bitfield]:
  "bits 31 25 (packR rd rs1 rs2 opc f3 f7) = take_bit 7 f7"
  "bits 24 20 (packR rd rs1 rs2 opc f3 f7) = take_bit 5 (ucast rs2)"
  "bits 19 15 (packR rd rs1 rs2 opc f3 f7) = take_bit 5 (ucast rs1)"
  "bits 14 12 (packR rd rs1 rs2 opc f3 f7) = take_bit 3 f3"
  "bits 11 7 (packR rd rs1 rs2 opc f3 f7) = take_bit 5 (ucast rd)"
  "bits 6 0 (packR rd rs1 rs2 opc f3 f7) = take_bit 7 opc"
  by (simp_all add: packR_def bitfield)

lemma bits_packI [bitfield]:
  "bits 31 20 (packI rd rs1 im opc f3) = take_bit 12 im"
  "bits 19 15 (packI rd rs1 im opc f3) = take_bit 5 (ucast rs1)"
  "bits 14 12 (packI rd rs1 im opc f3) = take_bit 3 f3"
  "bits 11 7 (packI rd rs1 im opc f3) = take_bit 5 (ucast rd)"
  "bits 6 0 (packI rd rs1 im opc f3) = take_bit 7 opc"
  by (simp_all add: packI_def bitfield)

lemma bits_packS [bitfield]:
  "bits 31 25 (packS rs1 rs2 im opc f3) = bits 11 5 im"
  "bits 24 20 (packS rs1 rs2 im opc f3) = take_bit 5 (ucast rs2)"
  "bits 19 15 (packS rs1 rs2 im opc f3) = take_bit 5 (ucast rs1)"
  "bits 14 12 (packS rs1 rs2 im opc f3) = take_bit 3 f3"
  "bits 11 7 (packS rs1 rs2 im opc f3) = bits 4 0 im"
  "bits 6 0 (packS rs1 rs2 im opc f3) = take_bit 7 opc"
  by (simp_all add: packS_def bitfield)

lemma bits_packB [bitfield]:
  "bits 31 31 (packB rs1 rs2 im opc f3) = bits 12 12 im"
  "bits 30 25 (packB rs1 rs2 im opc f3) = bits 10 5 im"
  "bits 24 20 (packB rs1 rs2 im opc f3) = take_bit 5 (ucast rs2)"
  "bits 19 15 (packB rs1 rs2 im opc f3) = take_bit 5 (ucast rs1)"
  "bits 14 12 (packB rs1 rs2 im opc f3) = take_bit 3 f3"
  "bits 11 8 (packB rs1 rs2 im opc f3) = bits 4 1 im"
  "bits 7 7 (packB rs1 rs2 im opc f3) = bits 11 11 im"
  "bits 6 0 (packB rs1 rs2 im opc f3) = take_bit 7 opc"
  by (simp_all add: packB_def bitfield)

lemma bits_packU [bitfield]:
  "bits 31 12 (packU rd im opc) = take_bit 20 im"
  "bits 11 7 (packU rd im opc) = take_bit 5 (ucast rd)"
  "bits 6 0 (packU rd im opc) = take_bit 7 opc"
  by (simp_all add: packU_def bitfield)

lemma bits_packJ [bitfield]:
  "bits 31 31 (packJ rd im opc) = bits 20 20 im"
  "bits 30 21 (packJ rd im opc) = bits 10 1 im"
  "bits 20 20 (packJ rd im opc) = bits 11 11 im"
  "bits 19 12 (packJ rd im opc) = bits 19 12 im"
  "bits 11 7 (packJ rd im opc) = take_bit 5 (ucast rd)"
  "bits 6 0 (packJ rd im opc) = take_bit 7 opc"
  by (simp_all add: packJ_def bitfield)

lemma dec_imm_pack [bitfield]:
  "dec_iimm (packI rd rs1 im opc f3) = signed_take_bit 11 im"
  "dec_simm (packS rs1 rs2 im opc f3) = signed_take_bit 11 im"
  "dec_uimm (packU rd im opc) = take_bit 20 im"
  by (simp_all add: dec_iimm_def dec_simm_def dec_uimm_def bitfield signed_take_bit_field_join5)

lemma dec_bimm_pack [bitfield]:
  "dec_bimm (packB rs1 rs2 im opc f3) = signed_take_bit 12 im AND NOT 1"
proof -
  have "signed_take_bit 12 (take_bit 13 im AND NOT 1) = signed_take_bit 12 im AND NOT 1"
    by (rule bit_word_eqI) (auto simp: bit_simps)
  then show ?thesis by (simp only: dec_bimm_def bits_packB bimm_join)
qed

lemma dec_jimm_pack [bitfield]:
  "dec_jimm (packJ rd im opc) = signed_take_bit 20 im AND NOT 1"
proof -
  have "signed_take_bit 20 (take_bit 21 im AND NOT 1) = signed_take_bit 20 im AND NOT 1"
    by (rule bit_word_eqI) (auto simp: bit_simps)
  then show ?thesis by (simp only: dec_jimm_def bits_packJ jimm_join)
qed

section \<open>Round trip\<close>

text \<open>The fields that survive an encoding: the operands of the format, truncated to its widths.\<close>

definition reg5 :: "u8 \<Rightarrow> u8" where "reg5 r = take_bit 5 r"

lemma ucast_take5 [bitfield]: "ucast (take_bit 5 (ucast r :: 32 word)) = reg5 r"
  unfolding reg5_def by (rule bit_word_eqI) (auto simp: bit_simps)

datatype fmt = FmtR | FmtI | FmtS | FmtB | FmtU | FmtJ | FmtN

fun fmt_of :: "Opcode \<Rightarrow> fmt" where
  "fmt_of Op_ADDI = FmtI" | "fmt_of Op_LW = FmtI" | "fmt_of Op_JALR = FmtI"
| "fmt_of Op_BARRIER = FmtI" | "fmt_of Op_SW = FmtS" | "fmt_of Op_BEQ = FmtB"
| "fmt_of Op_BNE = FmtB" | "fmt_of Op_LUI = FmtU" | "fmt_of Op_JAL = FmtJ"
| "fmt_of Op_VJOIN = FmtN" | "fmt_of Op_HALT = FmtN" | "fmt_of _ = FmtR"

definition mk_instr :: "Opcode \<Rightarrow> u8 \<Rightarrow> u8 \<Rightarrow> u8 \<Rightarrow> imm_t \<Rightarrow> Instruction" where
  "mk_instr opc rd rs1 rs2 im = \<lparr> i_pc = 0, i_opcode = opc, i_rs1 = rs1, i_rs2 = rs2, i_rd = rd,
     i_imm = im, i_is_vector = isVectorOp opc, i_is_memory = isMemoryOp opc,
     i_is_branch = isBranchOp opc \<rparr>"

definition carried :: "Opcode \<Rightarrow> u8 \<Rightarrow> u8 \<Rightarrow> u8 \<Rightarrow> imm_t \<Rightarrow> Instruction" where
  "carried opc rd rs1 rs2 im = (case fmt_of opc of
       FmtR \<Rightarrow> mk_instr opc (reg5 rd) (reg5 rs1) (reg5 rs2) 0
     | FmtI \<Rightarrow> mk_instr opc (reg5 rd) (reg5 rs1) 0 (signed_take_bit 11 im)
     | FmtS \<Rightarrow> mk_instr opc 0 (reg5 rs1) (reg5 rs2) (signed_take_bit 11 im)
     | FmtB \<Rightarrow> mk_instr opc 0 (reg5 rs1) (reg5 rs2) (signed_take_bit 12 im AND NOT 1)
     | FmtU \<Rightarrow> mk_instr opc (reg5 rd) 0 0 (take_bit 20 im)
     | FmtJ \<Rightarrow> mk_instr opc (reg5 rd) 0 0 (signed_take_bit 20 im AND NOT 1)
     | FmtN \<Rightarrow> mk_instr opc 0 0 0 0)"

lemma decode_encode:
  "decodeInstruction (encodeInstruction opc rd rs1 rs2 im) = carried opc rd rs1 rs2 im"
  by (cases opc)
     (simp_all add: encodeInstruction_def decodeInstruction_def dec_opcode_def carried_def
        mk_instr_def bitfield Let_def)

lemma fold_mk_instr:
  "\<lparr> i_pc = 0, i_opcode = opc, i_rs1 = rs1, i_rs2 = rs2, i_rd = rd,
     i_imm = im, i_is_vector = isVectorOp opc, i_is_memory = isMemoryOp opc,
     i_is_branch = isBranchOp opc \<rparr> = mk_instr opc rd rs1 rs2 im"
  by (simp add: mk_instr_def)

definition encodable :: "Opcode \<Rightarrow> u8 \<Rightarrow> u8 \<Rightarrow> u8 \<Rightarrow> imm_t \<Rightarrow> bool" where
  "encodable opc rd rs1 rs2 im = (let reg = (\<lambda>r. r < 32); s = sint im in case fmt_of opc of
       FmtR \<Rightarrow> reg rd \<and> reg rs1 \<and> reg rs2 \<and> im = 0
     | FmtI \<Rightarrow> reg rd \<and> reg rs1 \<and> rs2 = 0 \<and> -2048 \<le> s \<and> s \<le> 2047
     | FmtS \<Rightarrow> rd = 0 \<and> reg rs1 \<and> reg rs2 \<and> -2048 \<le> s \<and> s \<le> 2047
     | FmtB \<Rightarrow> rd = 0 \<and> reg rs1 \<and> reg rs2 \<and> -4096 \<le> s \<and> s \<le> 4094 \<and> even s
     | FmtU \<Rightarrow> reg rd \<and> rs1 = 0 \<and> rs2 = 0 \<and> 0 \<le> s \<and> s < 2 ^ 20
     | FmtJ \<Rightarrow> reg rd \<and> rs1 = 0 \<and> rs2 = 0 \<and> -(2 ^ 20) \<le> s \<and> s \<le> 2 ^ 20 - 2 \<and> even s
     | FmtN \<Rightarrow> rd = 0 \<and> rs1 = 0 \<and> rs2 = 0 \<and> im = 0)"

lemma reg5_id [bitfield]: "r < 32 \<Longrightarrow> reg5 r = r"
  unfolding reg5_def
  by (rule word_uint_eqI) (simp add: unsigned_take_bit_eq take_bit_int_eq_self word_less_def)

lemma signed_take_bit_id:
  fixes w :: u32
  assumes "-(2 ^ n) \<le> sint w" "sint w < 2 ^ n" "n < 32"
  shows "signed_take_bit n w = w"
proof -
  have "signed_take_bit n w = (word_of_int (signed_take_bit n (sint w)) :: u32)"
    using assms(3) by (intro bit_word_eqI, cases "n = 31") (auto simp: bit_simps min_def)
  also have "signed_take_bit n (sint w) = sint w"
    using assms by (simp add: signed_take_bit_int_eq_self)
  finally show ?thesis by simp
qed

lemma and_not_1_even: "even (sint (w :: u32)) \<Longrightarrow> w AND NOT 1 = w"
proof (rule bit_word_eqI)
  fix n assume "even (sint w)"
  then have "\<not> bit w 0" using bit_sint_iff [of w 0] by (simp add: bit_0)
  then show "bit (w AND NOT 1) n = bit w n" if "n < LENGTH(32)"
    using that by (cases n) (auto simp: bit_simps)
qed

lemma take_bit_20_id:
  assumes "0 \<le> sint (w :: u32)" "sint w < 2 ^ 20" shows "take_bit 20 w = w"
proof -
  have "take_bit 20 w = (word_of_int (take_bit 20 (sint w)) :: u32)"
    by (intro bit_word_eqI) (auto simp: bit_simps min_def)
  also have "take_bit 20 (sint w) = sint w" using assms by (simp add: take_bit_int_eq_self)
  finally show ?thesis by simp
qed

lemma and_minus_2_even: "even (sint (w :: u32)) \<Longrightarrow> w AND - 2 = w"
  using and_not_1_even [of w] by simp

text \<open>C11: for every opcode and every operand tuple that its RV32I format can carry, decoding the
  encoded word gives back exactly the instruction that was encoded, class flags included.\<close>

theorem decode_encode_id:
  assumes "encodable opc rd rs1 rs2 im"
  shows "decodeInstruction (encodeInstruction opc rd rs1 rs2 im) = mk_instr opc rd rs1 rs2 im"
  unfolding decode_encode carried_def using assms
  by (auto simp: encodable_def Let_def reg5_id signed_take_bit_id and_minus_2_even take_bit_20_id
      split: fmt.splits)

lemma li_split:
  fixes im :: u32
  defines "hi \<equiv> signed_drop_bit 12 (im + 0x800)"
  shows "push_bit 12 (take_bit 20 hi) + signed_take_bit 11 (im - push_bit 12 hi) = im"
proof -
  let ?x = "im + 0x800"
  define k where "k = uint (take_bit 12 ?x)"
  have P: "push_bit 12 hi = push_bit 12 (drop_bit 12 ?x)"
    "push_bit 12 (take_bit 20 hi) = push_bit 12 (drop_bit 12 ?x)"
    unfolding hi_def by (rule bit_word_eqI; auto simp: bit_simps min_def)+
  have x: "?x = push_bit 12 (drop_bit 12 ?x) + take_bit 12 ?x"
    by (metis add.commute bits_ident)
  have k: "0 \<le> k" "k < 4096" unfolding k_def
    using take_bit_int_less_exp [of 12] by (simp_all add: unsigned_take_bit_eq)
  have lo: "im - push_bit 12 hi = word_of_int (k - 2048)"
    using x by (simp add: P k_def algebra_simps)
  have "sint (word_of_int (k - 2048) :: u32) = k - 2048"
    using k unfolding sint_sbintrunc' by (intro signed_take_bit_int_eq_self) simp_all
  then have "signed_take_bit 11 (im - push_bit 12 hi) = im - push_bit 12 hi"
    unfolding lo using k by (intro signed_take_bit_id) simp_all
  then show ?thesis by (simp add: P)
qed

section \<open>Witness\<close>

theorem decode_encode_id_witness:
  "decodeInstruction (encodeInstruction Op_SW 0 2 3 (- 4)) = mk_instr Op_SW 0 2 3 (- 4)"
  by (rule decode_encode_id) code_simp

end
