(* ===== verification/RV32.thy ===== *)
theory RV32
  imports Codec
begin

text \<open>
  The RV32IMF decoder and the compressed-instruction expander of the golden model's binary mode:
  \<open>decodeRV32\<close> and \<open>expandRVC\<close> of \<open>models/systemc/integration/riscv_isa.h\<close>. A \<open>switch\<close> is a table
  (\<open>select_op\<close>), one definition per major opcode; \<open>(x >> k) & m\<close> is \<open>bits\<close> or \<open>drop_bit\<close> and \<open>AND\<close>.
\<close>

section \<open>Decoded instructions\<close>

datatype RVOp =
    RV_ADD | RV_SUB | RV_SLL | RV_SLT | RV_SLTU | RV_XOR | RV_SRL | RV_SRA | RV_OR | RV_AND
  | RV_MUL | RV_MULH | RV_MULHSU | RV_MULHU | RV_DIV | RV_DIVU | RV_REM | RV_REMU
  | RV_ADDI | RV_SLTI | RV_SLTIU | RV_XORI | RV_ORI | RV_ANDI | RV_SLLI | RV_SRLI | RV_SRAI
  | RV_LB | RV_LH | RV_LW | RV_LBU | RV_LHU
  | RV_JALR
  | RV_SB | RV_SH | RV_SW
  | RV_BEQ | RV_BNE | RV_BLT | RV_BGE | RV_BLTU | RV_BGEU
  | RV_LUI | RV_AUIPC
  | RV_JAL
  | RV_ECALL | RV_EBREAK | RV_FENCE | RV_BAR_SYNC
  | RV_FLW | RV_FSW
  | RV_FADD_S | RV_FSUB_S | RV_FMUL_S | RV_FDIV_S | RV_FSQRT_S
  | RV_FMADD_S | RV_FMSUB_S | RV_FNMADD_S | RV_FNMSUB_S
  | RV_FEQ_S | RV_FLT_S | RV_FLE_S
  | RV_FCVT_W_S | RV_FCVT_WU_S | RV_FCVT_S_W | RV_FCVT_S_WU
  | RV_FMV_X_W | RV_FMV_W_X
  | RV_UNKNOWN

record RV32Instr =
  rv_op :: RVOp
  rv_rd :: u8
  rv_rs1 :: u8
  rv_rs2 :: u8
  rv_rs3 :: u8
  rv_imm :: u32

definition RV32Instr_default :: RV32Instr where
  "RV32Instr_default = \<lparr> rv_op = RV_UNKNOWN, rv_rd = 0, rv_rs1 = 0, rv_rs2 = 0, rv_rs3 = 0, rv_imm = 0 \<rparr>"

section \<open>Immediates\<close>

definition signExtend12 :: "u32 \<Rightarrow> u32" where
  "signExtend12 v = (if v AND 0x800 \<noteq> 0 then v OR 0xFFFFF000 else v)"
definition signExtend13 :: "u32 \<Rightarrow> u32" where
  "signExtend13 v = (if v AND 0x1000 \<noteq> 0 then v OR 0xFFFFE000 else v)"
definition signExtend21 :: "u32 \<Rightarrow> u32" where
  "signExtend21 v = (if v AND 0x100000 \<noteq> 0 then v OR 0xFFE00000 else v)"

definition rv_imm_i :: "u32 \<Rightarrow> u32" where
  "rv_imm_i instr = signExtend12 (bits 31 20 instr)"
definition rv_imm_s :: "u32 \<Rightarrow> u32" where
  "rv_imm_s instr = signExtend12 (push_bit 5 (drop_bit 25 instr) OR bits 11 7 instr)"
definition rv_imm_b :: "u32 \<Rightarrow> u32" where
  "rv_imm_b instr = signExtend13 (push_bit 12 (bits 31 31 instr) OR push_bit 11 (bits 7 7 instr)
     OR push_bit 5 (bits 30 25 instr) OR push_bit 1 (bits 11 8 instr))"
definition rv_imm_u :: "u32 \<Rightarrow> u32" where
  "rv_imm_u instr = instr AND 0xFFFFF000"
definition rv_imm_j :: "u32 \<Rightarrow> u32" where
  "rv_imm_j instr = signExtend21 (push_bit 20 (bits 31 31 instr) OR push_bit 12 (bits 19 12 instr)
     OR push_bit 11 (bits 20 20 instr) OR push_bit 1 (bits 30 21 instr))"

section \<open>The decoder\<close>

definition select_op :: "(u32 \<times> RVOp) list \<Rightarrow> u32 \<Rightarrow> RVOp" where
  "select_op table k = (case map_of table k of Some opc \<Rightarrow> opc | None \<Rightarrow> RV_UNKNOWN)"

definition decode_OP :: "u32 \<Rightarrow> u32 \<Rightarrow> RVOp" where
  "decode_OP f3 f7 =
     (if f7 = 0x01 then
        select_op [(0, RV_MUL), (1, RV_MULH), (2, RV_MULHSU), (3, RV_MULHU), (4, RV_DIV), (5, RV_DIVU),
                   (6, RV_REM), (7, RV_REMU)] f3
      else
        select_op [(0, if f7 = 0x20 then RV_SUB else RV_ADD), (1, RV_SLL), (2, RV_SLT), (3, RV_SLTU),
                   (4, RV_XOR), (5, if f7 = 0x20 then RV_SRA else RV_SRL), (6, RV_OR), (7, RV_AND)] f3)"

definition decode_OP_IMM :: "u32 \<Rightarrow> u32 \<Rightarrow> u32 \<Rightarrow> RVOp \<times> u32" where
  "decode_OP_IMM instr f3 f7 =
     (if f3 = 1 then (RV_SLLI, bits 24 20 instr)
      else if f3 = 5 then (if f7 = 0x20 then RV_SRAI else RV_SRLI, bits 24 20 instr)
      else (select_op [(0, RV_ADDI), (2, RV_SLTI), (3, RV_SLTIU), (4, RV_XORI), (6, RV_ORI), (7, RV_ANDI)] f3,
            rv_imm_i instr))"

definition decode_LOAD :: "u32 \<Rightarrow> RVOp" where
  "decode_LOAD = select_op [(0, RV_LB), (1, RV_LH), (2, RV_LW), (4, RV_LBU), (5, RV_LHU)]"
definition decode_STORE :: "u32 \<Rightarrow> RVOp" where
  "decode_STORE = select_op [(0, RV_SB), (1, RV_SH), (2, RV_SW)]"
definition decode_BRANCH :: "u32 \<Rightarrow> RVOp" where
  "decode_BRANCH = select_op [(0, RV_BEQ), (1, RV_BNE), (4, RV_BLT), (5, RV_BGE), (6, RV_BLTU), (7, RV_BGEU)]"

definition decode_SYSTEM :: "u32 \<Rightarrow> RVOp" where
  "decode_SYSTEM instr = (if drop_bit 20 instr = 0 then RV_ECALL else if drop_bit 20 instr = 1 then RV_EBREAK
     else RV_FENCE)"

definition decode_FUSED :: "u32 \<Rightarrow> u32 \<Rightarrow> RVOp" where
  "decode_FUSED instr opcode =
     (if bits 26 25 instr = 0 then
        select_op [(0x43, RV_FMADD_S), (0x47, RV_FMSUB_S), (0x4B, RV_FNMSUB_S), (0x4F, RV_FNMADD_S)] opcode
      else RV_UNKNOWN)"

definition decode_OP_FP :: "u32 \<Rightarrow> u32 \<Rightarrow> u8 \<Rightarrow> RVOp" where
  "decode_OP_FP f3 f7 rs2 =
     select_op [(0x00, RV_FADD_S), (0x04, RV_FSUB_S), (0x08, RV_FMUL_S), (0x0C, RV_FDIV_S), (0x2C, RV_FSQRT_S),
       (0x50, select_op [(0, RV_FLE_S), (1, RV_FLT_S), (2, RV_FEQ_S)] f3),
       (0x60, if rs2 = 0 then RV_FCVT_W_S else RV_FCVT_WU_S),
       (0x68, if rs2 = 0 then RV_FCVT_S_W else RV_FCVT_S_WU),
       (0x70, if f3 = 0 then RV_FMV_X_W else RV_UNKNOWN),
       (0x78, if f3 = 0 then RV_FMV_W_X else RV_UNKNOWN)] f7"

definition decodeRV32 :: "u32 \<Rightarrow> RV32Instr" where
  "decodeRV32 instr =
     (if instr = 0 then RV32Instr_default
      else let opcode = bits 6 0 instr; f3 = bits 14 12 instr; f7 = bits 31 25 instr;
        rd = ucast (bits 11 7 instr); rs1 = ucast (bits 19 15 instr); rs2 = ucast (bits 24 20 instr);
        d = RV32Instr_default\<lparr> rv_rd := rd, rv_rs1 := rs1, rv_rs2 := rs2 \<rparr>
      in
      if opcode = 0x33 then d\<lparr> rv_op := decode_OP f3 f7 \<rparr>
      else if opcode = 0x13 then
        (let (opc, im) = decode_OP_IMM instr f3 f7 in d\<lparr> rv_op := opc, rv_imm := im \<rparr>)
      else if opcode = 0x03 then d\<lparr> rv_op := decode_LOAD f3, rv_imm := rv_imm_i instr \<rparr>
      else if opcode = 0x67 then d\<lparr> rv_op := RV_JALR, rv_imm := rv_imm_i instr \<rparr>
      else if opcode = 0x23 then d\<lparr> rv_op := decode_STORE f3, rv_imm := rv_imm_s instr \<rparr>
      else if opcode = 0x63 then d\<lparr> rv_op := decode_BRANCH f3, rv_imm := rv_imm_b instr \<rparr>
      else if opcode = 0x37 then d\<lparr> rv_op := RV_LUI, rv_imm := rv_imm_u instr \<rparr>
      else if opcode = 0x17 then d\<lparr> rv_op := RV_AUIPC, rv_imm := rv_imm_u instr \<rparr>
      else if opcode = 0x6F then d\<lparr> rv_op := RV_JAL, rv_imm := rv_imm_j instr \<rparr>
      else if opcode = 0x73 then d\<lparr> rv_op := decode_SYSTEM instr \<rparr>
      else if opcode = 0x0F then d\<lparr> rv_op := RV_FENCE \<rparr>
      else if opcode = 0x0B then
        (if f3 = 0 \<and> rd = 0 \<and> rs1 = 0 then d\<lparr> rv_op := RV_BAR_SYNC, rv_imm := bits 31 20 instr \<rparr> else d)
      else if opcode = 0x07 then
        d\<lparr> rv_op := (if f3 = 2 then RV_FLW else RV_UNKNOWN), rv_imm := rv_imm_i instr \<rparr>
      else if opcode = 0x27 then
        d\<lparr> rv_op := (if f3 = 2 then RV_FSW else RV_UNKNOWN), rv_imm := rv_imm_s instr \<rparr>
      else if opcode \<in> {0x43, 0x47, 0x4B, 0x4F} then
        d\<lparr> rv_rs3 := ucast (bits 31 27 instr), rv_op := decode_FUSED instr opcode \<rparr>
      else if opcode = 0x53 then d\<lparr> rv_op := decode_OP_FP f3 f7 rs2 \<rparr>
      else d)"

section \<open>Compressed instructions\<close>

text \<open>\<open>cinstr\<close> is widened to \<open>int\<close> by every shift, so the model widens it once.\<close>

definition creg :: "u32 \<Rightarrow> u32" where
  "creg r3 = 8 + (r3 AND 7)"

definition rvc_imm6 :: "u32 \<Rightarrow> u32" where
  "rvc_imm6 c = (if bits 12 12 c \<noteq> 0 then 0xFFFFFFC0 else 0) OR bits 6 2 c"

definition rvc_addi :: "u32 \<Rightarrow> u32" where
  "rvc_addi c = (let rd = bits 11 7 c in
     if rd = 0 then 0x13
     else push_bit 20 (rvc_imm6 c AND 0xFFF) OR push_bit 15 rd OR push_bit 7 rd OR 0x13)"

definition rvc_j :: "u32 \<Rightarrow> u32" where
  "rvc_j c =
     (let im = push_bit 11 (bits 12 12 c) OR push_bit 4 (bits 11 11 c) OR push_bit 8 (bits 10 9 c)
            OR push_bit 10 (bits 8 8 c) OR push_bit 6 (bits 7 7 c) OR push_bit 7 (bits 6 6 c)
            OR push_bit 1 (bits 5 3 c) OR push_bit 5 (bits 2 2 c);
          im = (if im AND 0x800 \<noteq> 0 then im OR 0xFFFFF000 else im)
      in push_bit 11 (im AND 0x100000) OR push_bit 20 (im AND 0x7FE) OR push_bit 9 (im AND 0x800)
         OR (im AND 0xFF000) OR 0x6F)"

definition rvc_li :: "u32 \<Rightarrow> u32" where
  "rvc_li c = (let rd = bits 11 7 c in
     if rd \<noteq> 0 then push_bit 20 (rvc_imm6 c AND 0xFFF) OR push_bit 7 rd OR 0x13 else 0)"

definition rvc_branch :: "u32 \<Rightarrow> u32 \<Rightarrow> u32" where
  "rvc_branch c f3 =
     (let rs1r = creg (bits 9 7 c);
          im = push_bit 8 (bits 12 12 c) OR push_bit 3 (bits 11 10 c) OR push_bit 6 (bits 6 5 c)
            OR push_bit 1 (bits 4 3 c) OR push_bit 5 (bits 2 2 c);
          im = (if im AND 0x100 \<noteq> 0 then im OR 0xFFFFFE00 else im);
          f3' = (if f3 = 6 then 0 else 1)
      in push_bit 19 (im AND 0x1000) OR push_bit 20 (im AND 0x7E0) OR push_bit 15 rs1r OR push_bit 12 f3'
         OR push_bit 7 (im AND 0x1E) OR drop_bit 4 (im AND 0x800) OR 0x63)"

definition rvc_slli :: "u32 \<Rightarrow> u32" where
  "rvc_slli c = (let rd = bits 11 7 c; shamt = push_bit 5 (bits 12 12 c) OR bits 6 2 c in
     if rd \<noteq> 0 then push_bit 20 shamt OR push_bit 15 rd OR push_bit 12 1 OR push_bit 7 rd OR 0x13 else 0)"

definition rvc_cr :: "u32 \<Rightarrow> u32" where
  "rvc_cr c = (let rd = bits 11 7 c; rs2 = bits 6 2 c in
     if bits 12 12 c \<noteq> 0 then
       (if rs2 = 0 then (if rd \<noteq> 0 then push_bit 15 rd OR push_bit 7 1 OR 0x67 else 0)
        else push_bit 20 rs2 OR push_bit 15 rd OR push_bit 7 rd OR 0x33)
     else if rs2 = 0 \<and> rd \<noteq> 0 then push_bit 15 rd OR 0x67
     else if rs2 \<noteq> 0 then push_bit 20 rs2 OR push_bit 7 rd OR 0x33
     else 0)"

definition rvc_lwsp :: "u32 \<Rightarrow> u32" where
  "rvc_lwsp c = (let rd = bits 11 7 c;
     im = push_bit 5 (bits 12 12 c) OR push_bit 2 (bits 6 4 c) OR push_bit 6 (bits 3 2 c)
   in push_bit 20 im OR push_bit 15 2 OR push_bit 12 2 OR push_bit 7 rd OR 0x03)"

definition rvc_swsp :: "u32 \<Rightarrow> u32" where
  "rvc_swsp c = (let rs2v = bits 6 2 c; im = push_bit 2 (bits 12 9 c) OR push_bit 6 (bits 8 7 c)
   in push_bit 20 (im AND 0xFE0) OR push_bit 20 rs2v OR push_bit 15 2 OR push_bit 12 2
      OR push_bit 7 (im AND 0x1F) OR 0x23)"

definition rvc_imm_w :: "u32 \<Rightarrow> u32" where
  "rvc_imm_w c = push_bit 6 (bits 5 5 c) OR push_bit 3 (bits 12 10 c) OR push_bit 2 (bits 6 6 c)"

definition rvc_lw :: "u32 \<Rightarrow> u32" where
  "rvc_lw c = push_bit 20 (rvc_imm_w c) OR push_bit 15 (creg (bits 9 7 c)) OR push_bit 12 2
     OR push_bit 7 (creg (bits 4 2 c)) OR 0x03"

definition rvc_sw :: "u32 \<Rightarrow> u32" where
  "rvc_sw c = push_bit 20 (rvc_imm_w c AND 0xFE0) OR push_bit 20 (creg (bits 4 2 c))
     OR push_bit 15 (creg (bits 9 7 c)) OR push_bit 12 2 OR push_bit 7 (rvc_imm_w c AND 0x1F) OR 0x23"

definition rvc_addi4spn :: "u32 \<Rightarrow> u32" where
  "rvc_addi4spn c = (let im = push_bit 2 (bits 6 6 c) OR push_bit 3 (bits 5 5 c) OR push_bit 4 (bits 12 11 c)
       OR push_bit 6 (bits 10 7 c)
   in push_bit 20 im OR push_bit 15 2 OR push_bit 7 (creg (bits 4 2 c)) OR 0x13)"

definition expandRVC :: "u16 \<Rightarrow> u32" where
  "expandRVC cinstr =
     (let c = ucast cinstr :: u32; opc = bits 1 0 c; f3 = bits 15 13 c in
      if opc = 1 \<and> f3 = 0 then rvc_addi c
      else if opc = 1 \<and> f3 = 5 then rvc_j c
      else if opc = 1 \<and> f3 = 2 then rvc_li c
      else if opc = 1 \<and> (f3 = 6 \<or> f3 = 7) then rvc_branch c f3
      else if opc = 2 \<and> f3 = 0 then rvc_slli c
      else if opc = 2 \<and> f3 = 4 then rvc_cr c
      else if opc = 2 \<and> f3 = 2 then rvc_lwsp c
      else if opc = 2 \<and> f3 = 6 then rvc_swsp c
      else if opc = 0 \<and> f3 = 2 then rvc_lw c
      else if opc = 0 \<and> f3 = 6 then rvc_sw c
      else if opc = 0 \<and> f3 = 0 \<and> cinstr \<noteq> 0 then rvc_addi4spn c
      else 0)"

section \<open>Immediates as signed fields\<close>

lemma signExtend_bits:
  "signExtend12 v = (if bit v 11 then v OR NOT (mask 12) else v)"
  "signExtend13 v = (if bit v 12 then v OR NOT (mask 13) else v)"
  "signExtend21 v = (if bit v 20 then v OR NOT (mask 21) else v)"
proof -
  have "(0x800 :: u32) = 2 ^ 11" "(0x1000 :: u32) = 2 ^ 12" "(0x100000 :: u32) = 2 ^ 20"
    "(0xFFFFF000 :: u32) = NOT (mask 12)" "(0xFFFFE000 :: u32) = NOT (mask 13)"
    "(0xFFE00000 :: u32) = NOT (mask 21)"
    by (simp_all add: mask_eq_exp_minus_1)
  note n = this
  show "signExtend12 v = (if bit v 11 then v OR NOT (mask 12) else v)"
    "signExtend13 v = (if bit v 12 then v OR NOT (mask 13) else v)"
    "signExtend21 v = (if bit v 20 then v OR NOT (mask 21) else v)"
    unfolding signExtend12_def signExtend13_def signExtend21_def n and_exp_eq_0_iff_not_bit by simp_all
qed

lemma sext_word:
  fixes v :: "'a::len word"
  assumes "m = Suc n"
  shows "(if bit v n then take_bit m v OR NOT (mask m) else take_bit m v) = signed_take_bit n v"
  using assms by (intro bit_word_eqI) (auto simp: bit_simps min_def less_Suc_eq)

lemma signExtend_take:
  "signExtend12 (take_bit 12 v) = signed_take_bit 11 v"
  "signExtend13 (take_bit 13 v) = signed_take_bit 12 v"
  "signExtend21 (take_bit 21 v) = signed_take_bit 20 v"
  using sext_word [of 12 11 v] sext_word [of 13 12 v] sext_word [of 21 20 v]
  by (simp_all add: signExtend_bits bit_take_bit_iff del: mask_numeral)

lemma signExtend_even:
  "signExtend13 (take_bit 13 v AND NOT 1) = signed_take_bit 12 v AND NOT 1"
  "signExtend21 (take_bit 21 v AND NOT 1) = signed_take_bit 20 v AND NOT 1"
proof -
  have ev: "(x OR NOT (mask k)) AND NOT 1 = (x AND NOT 1) OR NOT (mask k)" if "0 < k" for x :: u32 and k
    using that by (intro bit_word_eqI) (auto simp: bit_simps)
  have b: "bit (take_bit m v AND NOT 1) k = bit v k" if "0 < k" "k < 32" "k < m" for k m
    using that by (simp add: bit_simps)
  show "signExtend13 (take_bit 13 v AND NOT 1) = signed_take_bit 12 v AND NOT 1"
    using sext_word [of 13 12 v, symmetric] ev [of 13 "take_bit 13 v"] b [of 12 13]
    by (simp add: signExtend_bits del: mask_numeral)
  show "signExtend21 (take_bit 21 v AND NOT 1) = signed_take_bit 20 v AND NOT 1"
    using sext_word [of 21 20 v, symmetric] ev [of 21 "take_bit 21 v"] b [of 20 21]
    by (simp add: signExtend_bits del: mask_numeral)
qed

lemma rv_imm_pack:
  "rv_imm_i (packI rd rs1 im opc f3) = signed_take_bit 11 im"
  "rv_imm_s (packS rs1 rs2 im opc f3) = signed_take_bit 11 im"
  "rv_imm_b (packB rs1 rs2 im opc f3) = signed_take_bit 12 im AND NOT 1"
  "rv_imm_u (packU rd im opc) = push_bit 12 im"
  "rv_imm_j (packJ rd im opc) = signed_take_bit 20 im AND NOT 1"
proof -
  show "rv_imm_i (packI rd rs1 im opc f3) = signed_take_bit 11 im"
    by (simp add: rv_imm_i_def bitfield signExtend_take)
  have "drop_bit 25 w = bits 31 25 w" for w :: u32 by (rule bit_word_eqI) (auto simp: bit_simps dest: bit_imp_le_length)
  moreover have "push_bit 5 (bits 11 5 im) OR bits 4 0 im = take_bit 12 im"
    by (rule bit_word_eqI) (auto simp: bit_simps)
  ultimately show "rv_imm_s (packS rs1 rs2 im opc f3) = signed_take_bit 11 im"
    by (simp add: rv_imm_s_def bitfield signExtend_take)
  have pf: "push_bit k (bits hi lo w) = field k n (bits hi lo w)" if "n = hi + 1 - lo" for k n hi lo and w :: u32
    using that by (simp add: field_def take_bit_bits)
  have ps: "push_bit 12 (bits 12 12 im) = field 12 1 (bits 12 12 im)"
    "push_bit 11 (bits 11 11 im) = field 11 1 (bits 11 11 im)"
    "push_bit 5 (bits 10 5 im) = field 5 6 (bits 10 5 im)"
    "push_bit 1 (bits 4 1 im) = field 1 4 (bits 4 1 im)"
    "push_bit 20 (bits 20 20 im) = field 20 1 (bits 20 20 im)"
    "push_bit 12 (bits 19 12 im) = field 12 8 (bits 19 12 im)"
    "push_bit 1 (bits 10 1 im) = field 1 10 (bits 10 1 im)"
    by (rule pf; simp)+
  have "push_bit 12 (bits 12 12 im) OR push_bit 11 (bits 11 11 im) OR push_bit 5 (bits 10 5 im)
      OR push_bit 1 (bits 4 1 im) = take_bit 13 im AND NOT 1"
    unfolding bimm_join [symmetric] ps
    by (simp only: ac_simps)
  then show "rv_imm_b (packB rs1 rs2 im opc f3) = signed_take_bit 12 im AND NOT 1"
    by (simp only: rv_imm_b_def bits_packB signExtend_even)
  have "push_bit 20 (bits 20 20 im) OR push_bit 12 (bits 19 12 im) OR push_bit 11 (bits 11 11 im)
      OR push_bit 1 (bits 10 1 im) = take_bit 21 im AND NOT 1"
    unfolding jimm_join [symmetric] ps by (simp only: ac_simps)
  then show "rv_imm_j (packJ rd im opc) = signed_take_bit 20 im AND NOT 1"
    by (simp only: rv_imm_j_def bits_packJ signExtend_even)
  have m: "(0xFFFFF000 :: u32) = NOT (mask 12)" by (simp add: mask_eq_exp_minus_1)
  show "rv_imm_u (packU rd im opc) = push_bit 12 im"
    unfolding rv_imm_u_def m by (rule bit_word_eqI) (auto simp: packU_def bit_simps simp del: mask_numeral)
qed

section \<open>The two decoders\<close>

fun rv_op_of :: "Opcode \<Rightarrow> RVOp option" where
  "rv_op_of Op_ADD = Some RV_ADD" | "rv_op_of Op_SUB = Some RV_SUB" | "rv_op_of Op_AND = Some RV_AND"
| "rv_op_of Op_OR = Some RV_OR" | "rv_op_of Op_XOR = Some RV_XOR" | "rv_op_of Op_SLT = Some RV_SLT"
| "rv_op_of Op_ADDI = Some RV_ADDI" | "rv_op_of Op_LUI = Some RV_LUI" | "rv_op_of Op_LW = Some RV_LW"
| "rv_op_of Op_SW = Some RV_SW" | "rv_op_of Op_BEQ = Some RV_BEQ" | "rv_op_of Op_BNE = Some RV_BNE"
| "rv_op_of Op_JAL = Some RV_JAL" | "rv_op_of Op_JALR = Some RV_JALR" | "rv_op_of _ = None"

lemma select_op_simps [simp]:
  "select_op [] k = RV_UNKNOWN"
  "select_op ((j, opc) # table) k = (if k = j then opc else select_op table k)"
  by (simp_all add: select_op_def)

lemma decode_nonzero: "bits 6 0 instr \<noteq> 0 \<Longrightarrow> instr \<noteq> 0"
  by auto

lemma push_take_20: "push_bit 12 (take_bit 20 im) = push_bit 12 (im :: u32)"
  by (rule bit_word_eqI) (auto simp: bit_simps)

lemma decodeRV32_encode:
  "rv_op_of opc = Some rvop \<Longrightarrow>
   (let d = decodeRV32 (encodeInstruction opc rd rs1 rs2 im); i = carried opc rd rs1 rs2 im in
    rv_op d = rvop \<and>
    (fmt_of opc \<in> {FmtR, FmtI, FmtU, FmtJ} \<longrightarrow> rv_rd d = i_rd i) \<and>
    (fmt_of opc \<in> {FmtR, FmtI, FmtS, FmtB} \<longrightarrow> rv_rs1 d = i_rs1 i) \<and>
    (fmt_of opc \<in> {FmtR, FmtS, FmtB} \<longrightarrow> rv_rs2 d = i_rs2 i) \<and>
    rv_imm d = (if opc = Op_LUI then push_bit 12 (i_imm i) else i_imm i))"
  by (cases opc)
    (auto simp: encodeInstruction_def decodeRV32_def bitfield carried_def mk_instr_def Let_def rv_imm_pack
      decode_OP_def decode_OP_IMM_def decode_LOAD_def decode_STORE_def decode_BRANCH_def RV32Instr_default_def push_take_20
      dest!: arg_cong [of _ 0 "bits 6 0"])

text \<open>The word for an I-type instruction, and what the decoder makes of it.\<close>

lemma decodeRV32_addi:
  "decodeRV32 (packI rd rs1 im 0x13 0) = \<lparr> rv_op = RV_ADDI, rv_rd = reg5 rd, rv_rs1 = reg5 rs1,
     rv_rs2 = ucast (bits 24 20 (packI rd rs1 im 0x13 0)), rv_rs3 = 0, rv_imm = signed_take_bit 11 im \<rparr>"
proof -
  have "packI rd rs1 im 0x13 0 \<noteq> 0"
    by (rule decode_nonzero) (simp add: bitfield)
  then show ?thesis
    by (simp add: decodeRV32_def bitfield Let_def decode_OP_IMM_def rv_imm_pack RV32Instr_default_def)
qed

section \<open>Compressed immediates\<close>

text \<open>The 16-bit encoding of the CI format: \<open>funct3\<close>, sign bit, register, five low immediate bits, quadrant 1.\<close>

definition ci_bits :: "u32 \<Rightarrow> u8 \<Rightarrow> u32 \<Rightarrow> u32" where
  "ci_bits f3 rd im = field 13 3 f3 OR field 12 1 (bits 5 5 im) OR field 7 5 (ucast rd) OR field 2 5 im OR field 0 2 1"

definition ci_word :: "u32 \<Rightarrow> u8 \<Rightarrow> u32 \<Rightarrow> u16" where
  "ci_word f3 rd im = ucast (ci_bits f3 rd im)"

lemma ci_widen: "ucast (ci_word f3 rd im) = ci_bits f3 rd im"
  unfolding ci_word_def by (rule bit_word_eqI) (auto simp: ci_bits_def bit_simps)

lemma bits_ci:
  "bits 15 13 (ci_bits f3 rd im) = take_bit 3 f3" "bits 12 12 (ci_bits f3 rd im) = bits 5 5 im"
  "bits 11 7 (ci_bits f3 rd im) = take_bit 5 (ucast rd)" "bits 6 2 (ci_bits f3 rd im) = take_bit 5 im"
  "bits (Suc 0) 0 (ci_bits f3 rd im) = 1"
  by (simp_all add: ci_bits_def bitfield)

definition ci_imm :: "u32 \<Rightarrow> u32" where
  "ci_imm im = (if bit im 5 then 0xFFFFFFC0 else 0) OR take_bit 5 im"

lemma bit5: "bits 5 5 (im :: u32) = 0 \<longleftrightarrow> \<not> bit im 5"
proof -
  have "bits 5 5 im = of_bool (bit im 5)" by (rule bit_word_eqI) (auto simp: bit_simps)
  then show ?thesis by simp
qed

lemma rvc_imm6_ci: "rvc_imm6 (ci_bits f3 rd im) = ci_imm im"
  by (simp add: rvc_imm6_def ci_imm_def bits_ci bit5)

lemma minus_64: "(0xFFFFFFC0 :: u32) = NOT (mask 6)"
  by (simp add: mask_eq_exp_minus_1)

lemma ci_imm_sext: "signed_take_bit 11 (ci_imm im) = ci_imm im"
  unfolding ci_imm_def minus_64
  by (rule bit_word_eqI) (auto simp: bit_simps min_def simp del: mask_numeral)

lemma ci_imm_value: "ci_imm im = signed_take_bit 5 im - (if bit im 5 then 32 else 0)"
proof (cases "bit im 5")
  case False
  then have "signed_take_bit 5 im = take_bit 5 im"
    by (intro bit_word_eqI) (auto simp: bit_simps min_def not_le split: if_splits)
  with False show ?thesis by (simp add: ci_imm_def)
next
  case True
  have s: "signed_take_bit 5 im = NOT (mask 5) OR take_bit 5 im"
    using True by (intro bit_word_eqI) (auto simp: bit_simps min_def simp del: mask_numeral)
  have dis: "NOT (mask k) OR take_bit 5 im = NOT (mask k) + take_bit 5 im" if "5 \<le> k" for k
    using that by (intro disjunctive_add [symmetric]) (auto simp: bit_simps)
  have "ci_imm im = NOT (mask 6) + take_bit 5 im" using True dis [of 6] by (simp add: ci_imm_def minus_64)
  moreover have "(NOT (mask 6) :: u32) = NOT (mask 5) - 32" by (simp add: mask_eq_exp_minus_1)
  ultimately show ?thesis using True dis [of 5] by (simp add: s)
qed

lemma and_0xFFF: "x AND 0xFFF = take_bit 12 (x :: u32)"
  by (simp add: take_bit_eq_mask mask_eq_exp_minus_1)

lemma rvc_li_word:
  assumes "reg5 rd \<noteq> 0"
  shows "rvc_li (ci_bits f3 rd im) = packI rd 0 (ci_imm im) 0x13 0"
    "rvc_addi (ci_bits f3 rd im) = packI rd rd (ci_imm im) 0x13 0"
proof -
  have rd: "take_bit 5 (ucast rd :: u32) \<noteq> 0"
    using assms ucast_take5 [of rd] by auto
  then show "rvc_li (ci_bits f3 rd im) = packI rd 0 (ci_imm im) 0x13 0"
    by (simp add: rvc_li_def bits_ci Let_def rvc_imm6_ci and_0xFFF packI_def field_def)
  from rd show "rvc_addi (ci_bits f3 rd im) = packI rd rd (ci_imm im) 0x13 0"
    by (simp add: rvc_addi_def bits_ci Let_def rvc_imm6_ci and_0xFFF packI_def field_def)
qed

section \<open>Properties\<close>

text \<open>C38: every word the synthesizable codec emits for a scalar integer, memory, branch or jump operation is the
  same RISC-V instruction for the golden decoder: same operation, registers and immediate (the upper
  immediate of LUI in its shifted form).\<close>

theorem decoders_agree:
  assumes "rv_op_of opc = Some rvop"
  shows "let d = decodeRV32 (encodeInstruction opc rd rs1 rs2 im);
             i = decodeInstruction (encodeInstruction opc rd rs1 rs2 im) in
    rv_op d = rvop \<and>
    (fmt_of opc \<in> {FmtR, FmtI, FmtU, FmtJ} \<longrightarrow> rv_rd d = i_rd i) \<and>
    (fmt_of opc \<in> {FmtR, FmtI, FmtS, FmtB} \<longrightarrow> rv_rs1 d = i_rs1 i) \<and>
    (fmt_of opc \<in> {FmtR, FmtS, FmtB} \<longrightarrow> rv_rs2 d = i_rs2 i) \<and>
    rv_imm d = (if opc = Op_LUI then push_bit 12 (i_imm i) else i_imm i)"
  using decodeRV32_encode [OF assms] by (simp add: decode_encode)

text \<open>The expander of compressed instructions gives C.LI and C.ADDI their immediate exactly when it is not
  negative; a negative immediate comes out 32 too small (C.LI of -1 loads -33).\<close>

theorem compressed_negative_immediate:
  assumes "reg5 rd \<noteq> 0"
  shows "decodeRV32 (expandRVC (ci_word 2 rd im))
      = (decodeRV32 (packI rd 0 (ci_imm im) 0x13 0))\<lparr> rv_op := RV_ADDI, rv_rd := reg5 rd, rv_rs1 := 0,
          rv_imm := signed_take_bit 5 im - (if bit im 5 then 32 else 0) \<rparr> \<and>
    decodeRV32 (expandRVC (ci_word 0 rd im))
      = (decodeRV32 (packI rd rd (ci_imm im) 0x13 0))\<lparr> rv_op := RV_ADDI, rv_rd := reg5 rd, rv_rs1 := reg5 rd,
          rv_imm := signed_take_bit 5 im - (if bit im 5 then 32 else 0) \<rparr>"
proof -
  have "expandRVC (ci_word 2 rd im) = packI rd 0 (ci_imm im) 0x13 0"
    "expandRVC (ci_word 0 rd im) = packI rd rd (ci_imm im) 0x13 0"
    using rvc_li_word [OF assms] by (simp_all add: expandRVC_def ci_widen bits_ci Let_def)
  then show ?thesis
    by (simp add: decodeRV32_addi ci_imm_sext ci_imm_value [symmetric] reg5_def)
qed

section \<open>Witnesses\<close>

theorem decoders_agree_witness:
  "rv_op (decodeRV32 (encodeInstruction Op_BNE 0 3 4 (- 8))) = RV_BNE"
  using decoders_agree [of Op_BNE RV_BNE 0 3 4 "- 8"] by (simp add: Let_def)

theorem compressed_negative_immediate_witness:
  "rv_imm (decodeRV32 (expandRVC (ci_word 2 5 0x3F))) = - 33"
  using compressed_negative_immediate [of 5 "0x3F"] by (simp add: reg5_def)

end
