(* ===== verification/CacheBank.thy ===== *)
theory CacheBank
  imports HlsTypes
begin

text \<open>
  The set-associative cache of \<open>hls/src/memory/cache_bank.h\<close>. The template parameters are the record
  \<open>cache_cfg\<close> (\<open>WAYS\<close>, \<open>SETS_PER_WAY\<close>); the line is 32 words of 4 bytes and addresses have 32 bits.
  The static arrays are functions of their indices: every index is below its dimension by the
  lemmas \<open>setIndex_less\<close> and \<open>lineWordIndex_less\<close>.

  Results: what a lookup finds, and that residence with unique tags and agreement with the backing
  memory survive every operation under the conditions in which the memory pipeline calls it.
\<close>

section \<open>Model\<close>

fun clog2 :: "nat \<Rightarrow> nat" where
  "clog2 n = (if n \<le> 1 then 0 else 1 + clog2 (n div 2))"

declare clog2.simps [simp del]

record cache_cfg =
  WAYS :: nat
  SETS_PER_WAY :: nat

definition LINE_OFFSET_BITS :: nat where "LINE_OFFSET_BITS = clog2 (WORDS_PER_LINE * 4)"
definition SET_BITS :: "cache_cfg \<Rightarrow> nat" where "SET_BITS cfg = clog2 (SETS_PER_WAY cfg)"

definition L1Cache :: cache_cfg where "L1Cache = \<lparr> WAYS = L1_WAYS, SETS_PER_WAY = L1_SETS_PER_WAY \<rparr>"
definition L2Cache :: cache_cfg where "L2Cache = \<lparr> WAYS = L2_WAYS, SETS_PER_WAY = L2_SETS_PER_WAY \<rparr>"

record SetAssocCache =
  ca_tag :: "nat \<Rightarrow> nat \<Rightarrow> u32"
  ca_valid :: "nat \<Rightarrow> nat \<Rightarrow> bool"
  ca_data :: "nat \<Rightarrow> nat \<Rightarrow> nat \<Rightarrow> u32"
  ca_next_victim :: "nat \<Rightarrow> nat"

record LookupResult =
  lr_hit :: bool
  lr_way :: nat
  lr_data :: u32

definition setIndex :: "cache_cfg \<Rightarrow> addr_t \<Rightarrow> nat" where
  "setIndex cfg a = unat (bits (LINE_OFFSET_BITS + SET_BITS cfg - 1) LINE_OFFSET_BITS a)"

definition tagOf :: "cache_cfg \<Rightarrow> addr_t \<Rightarrow> u32" where
  "tagOf cfg a = bits 31 (LINE_OFFSET_BITS + SET_BITS cfg) a"

definition lineWordIndex :: "addr_t \<Rightarrow> nat" where
  "lineWordIndex a = unat (bits (LINE_OFFSET_BITS - 1) 2 a)"

definition lineBaseAddr :: "addr_t \<Rightarrow> addr_t" where
  "lineBaseAddr a = push_bit LINE_OFFSET_BITS (drop_bit LINE_OFFSET_BITS a)"

definition cache_reset :: "cache_cfg \<Rightarrow> SetAssocCache \<Rightarrow> SetAssocCache" where
  "cache_reset cfg c = c\<lparr>
     ca_valid := (\<lambda>w s. if w < WAYS cfg \<and> s < SETS_PER_WAY cfg then False else ca_valid c w s),
     ca_next_victim := (\<lambda>s. if s < SETS_PER_WAY cfg then 0 else ca_next_victim c s) \<rparr>"

definition lookup :: "cache_cfg \<Rightarrow> addr_t \<Rightarrow> SetAssocCache \<Rightarrow> LookupResult" where
  "lookup cfg a c =
     (let set = setIndex cfg a; tag = tagOf cfg a; widx = lineWordIndex a in
      fold (\<lambda>w r. if ca_valid c w set \<and> ca_tag c w set = tag
                  then r\<lparr> lr_hit := True, lr_way := w, lr_data := ca_data c w set widx \<rparr> else r)
        [0..<WAYS cfg] \<lparr> lr_hit = False, lr_way = 0, lr_data = 0 \<rparr>)"

definition readLine :: "cache_cfg \<Rightarrow> nat \<Rightarrow> addr_t \<Rightarrow> SetAssocCache \<Rightarrow> u32 list" where
  "readLine cfg way a c = map (\<lambda>i. ca_data c way (setIndex cfg a) i) [0..<WORDS_PER_LINE]"

definition writeWord :: "cache_cfg \<Rightarrow> nat \<Rightarrow> addr_t \<Rightarrow> u32 \<Rightarrow> SetAssocCache \<Rightarrow> SetAssocCache" where
  "writeWord cfg way a v c =
     (let set = setIndex cfg a; widx = lineWordIndex a in
      c\<lparr> ca_data := (ca_data c)(way := (ca_data c way)(set := (ca_data c way set)(widx := v))) \<rparr>)"

definition fillLine :: "cache_cfg \<Rightarrow> addr_t \<Rightarrow> u32 list \<Rightarrow> SetAssocCache \<Rightarrow> SetAssocCache" where
  "fillLine cfg a line c =
     (let set = setIndex cfg a; tag = tagOf cfg a; victim = ca_next_victim c set in
      c\<lparr> ca_data := (ca_data c)(victim := (ca_data c victim)(set :=
           (\<lambda>i. if i < WORDS_PER_LINE then line ! i else ca_data c victim set i))),
         ca_tag := (ca_tag c)(victim := (ca_tag c victim)(set := tag)),
         ca_valid := (ca_valid c)(victim := (ca_valid c victim)(set := True)),
         ca_next_victim := (ca_next_victim c)(set :=
           (if victim = WAYS cfg - 1 then 0 else victim + 1)) \<rparr>)"

section \<open>Address fields\<close>

lemma clog2_powers: "clog2 128 = 7" "clog2 64 = 6" "clog2 512 = 9" "clog2 32 = 5"
  by (simp_all add: clog2.simps)

lemma LINE_OFFSET_BITS_eq [simp]: "LINE_OFFSET_BITS = 7"
  by (simp add: LINE_OFFSET_BITS_def clog2_powers)

text \<open>The configurations the code instantiates: a power-of-two number of sets.\<close>

definition good_cfg :: "cache_cfg \<Rightarrow> bool" where
  "good_cfg cfg \<longleftrightarrow> 0 < WAYS cfg \<and> 0 < SET_BITS cfg \<and> SET_BITS cfg < 20 \<and>
     SETS_PER_WAY cfg = 2 ^ SET_BITS cfg"

lemma good_L1 [simp]: "good_cfg L1Cache"
  by (simp add: good_cfg_def L1Cache_def SET_BITS_def clog2_powers)

lemma good_L2 [simp]: "good_cfg L2Cache"
  by (simp add: good_cfg_def L2Cache_def SET_BITS_def clog2_powers)

lemma setIndex_less: "good_cfg cfg \<Longrightarrow> setIndex cfg a < SETS_PER_WAY cfg"
  unfolding setIndex_def bits_def good_cfg_def
  using unat_take_bit_less [of "SET_BITS cfg"] by simp

lemma lineWordIndex_less: "lineWordIndex a < WORDS_PER_LINE"
  unfolding lineWordIndex_def bits_def
  using unat_take_bit_less [of 5 "drop_bit 2 a"] by simp

definition line_of :: "addr_t \<Rightarrow> u32" where "line_of a = drop_bit 7 a"

lemma word_split_eq:
  "take_bit n x = take_bit n y \<Longrightarrow> drop_bit n x = drop_bit n y \<Longrightarrow> x = (y :: u32)"
  by (metis bits_ident)

lemma setIndex_take: "good_cfg cfg \<Longrightarrow> setIndex cfg a = unat (take_bit (SET_BITS cfg) (line_of a))"
  by (simp add: setIndex_def bits_def good_cfg_def line_of_def)

lemma tagOf_drop: "good_cfg cfg \<Longrightarrow> tagOf cfg a = drop_bit (SET_BITS cfg) (line_of a)"
  unfolding tagOf_def line_of_def good_cfg_def
  by (rule bit_word_eqI) (auto simp: bit_simps ac_simps dest: bit_imp_le_length)

lemma same_line:
  assumes "good_cfg cfg"
  shows "setIndex cfg a = setIndex cfg b \<and> tagOf cfg a = tagOf cfg b \<longleftrightarrow> line_of a = line_of b"
  unfolding setIndex_take [OF assms] tagOf_drop [OF assms] word_unat_eq_iff [symmetric]
  using word_split_eq [of "SET_BITS cfg" "line_of a" "line_of b"] by auto

lemma lineWordIndex_take: "lineWordIndex a = unat (take_bit 5 (drop_bit 2 a))"
  by (simp add: lineWordIndex_def bits_def)

lemma same_word:
  "line_of a = line_of b \<and> lineWordIndex a = lineWordIndex b \<longleftrightarrow> drop_bit 2 a = drop_bit 2 b"
proof -
  have l: "line_of x = drop_bit 5 (drop_bit 2 x)" for x by (simp add: line_of_def)
  show ?thesis
    unfolding l lineWordIndex_take word_unat_eq_iff [symmetric]
    using word_split_eq [of 5 "drop_bit 2 a" "drop_bit 2 b"] by metis
qed

lemma line_of_base [simp]: "line_of (lineBaseAddr a) = line_of a"
  unfolding line_of_def lineBaseAddr_def by (rule bit_word_eqI) (auto simp: bit_simps dest: bit_imp_le_length)

text \<open>The word index of a line's word \<open>i\<close> in the backing memory.\<close>

lemma line_word_address:
  "drop_bit 2 (lineBaseAddr a) + of_nat (lineWordIndex b) = drop_bit 2 b" if "line_of a = line_of b"
proof -
  have "lineBaseAddr a = push_bit 7 (drop_bit 7 b)"
    using that by (simp add: lineBaseAddr_def line_of_def)
  moreover have "drop_bit 2 (push_bit 7 (drop_bit 7 b)) = push_bit 5 (drop_bit 5 (drop_bit 2 b))"
    by (rule bit_word_eqI) (auto simp: bit_simps dest: bit_imp_le_length)
  ultimately have b: "drop_bit 2 (lineBaseAddr a) = push_bit 5 (drop_bit 5 (drop_bit 2 b))"
    by simp
  have "drop_bit 2 (lineBaseAddr a) + take_bit 5 (drop_bit 2 b) = drop_bit 2 b"
    unfolding b using bits_ident [of 5 "drop_bit 2 b"] by (simp add: add.commute)
  then show ?thesis by (simp add: lineWordIndex_take)
qed

section \<open>Residence and agreement with the backing memory\<close>

definition holds :: "cache_cfg \<Rightarrow> SetAssocCache \<Rightarrow> nat \<Rightarrow> addr_t \<Rightarrow> bool" where
  "holds cfg c w a \<longleftrightarrow> w < WAYS cfg \<and> ca_valid c w (setIndex cfg a) \<and>
     ca_tag c w (setIndex cfg a) = tagOf cfg a"

definition cached_word :: "cache_cfg \<Rightarrow> SetAssocCache \<Rightarrow> nat \<Rightarrow> addr_t \<Rightarrow> u32" where
  "cached_word cfg c w a = ca_data c w (setIndex cfg a) (lineWordIndex a)"

text \<open>No line is resident in two ways, and victims are ways.\<close>

definition wf_cache :: "cache_cfg \<Rightarrow> SetAssocCache \<Rightarrow> bool" where
  "wf_cache cfg c \<longleftrightarrow> (\<forall>a w w'. holds cfg c w a \<longrightarrow> holds cfg c w' a \<longrightarrow> w = w') \<and>
     (\<forall>a. ca_next_victim c (setIndex cfg a) < WAYS cfg)"

text \<open>Every resident word outside the lines \<open>L\<close> is the word of the backing memory.\<close>

definition agrees :: "cache_cfg \<Rightarrow> (u32 \<Rightarrow> u32) \<Rightarrow> u32 set \<Rightarrow> SetAssocCache \<Rightarrow> bool" where
  "agrees cfg gm L c \<longleftrightarrow>
     (\<forall>a w. holds cfg c w a \<longrightarrow> line_of a \<notin> L \<longrightarrow> cached_word cfg c w a = gm (drop_bit 2 a))"

lemma lookup_cases:
  "(lr_hit (lookup cfg a c) \<and> holds cfg c (lr_way (lookup cfg a c)) a \<and>
      lr_data (lookup cfg a c) = cached_word cfg c (lr_way (lookup cfg a c)) a) \<or>
   (\<not> lr_hit (lookup cfg a c) \<and> (\<forall>w. \<not> holds cfg c w a))"
proof -
  let ?f = "\<lambda>w r. if ca_valid c w (setIndex cfg a) \<and> ca_tag c w (setIndex cfg a) = tagOf cfg a
      then r\<lparr> lr_hit := True, lr_way := w,
              lr_data := ca_data c w (setIndex cfg a) (lineWordIndex a) \<rparr> else r"
  define res where "res n = fold ?f [0..<n] \<lparr> lr_hit = False, lr_way = 0, lr_data = 0 \<rparr>" for n
  have "n \<le> WAYS cfg \<Longrightarrow>
     (lr_hit (res n) \<and> holds cfg c (lr_way (res n)) a \<and>
      lr_data (res n) = cached_word cfg c (lr_way (res n)) a) \<or>
     (\<not> lr_hit (res n) \<and> (\<forall>w<n. \<not> holds cfg c w a))" for n
    by (induction n) (auto simp: res_def holds_def cached_word_def less_Suc_eq)
  from this [of "WAYS cfg"] show ?thesis
    by (auto simp: lookup_def Let_def res_def holds_def)
qed

lemma lookup_hit:
  assumes "lr_hit (lookup cfg a c)"
  shows "holds cfg c (lr_way (lookup cfg a c)) a"
    "lr_data (lookup cfg a c) = cached_word cfg c (lr_way (lookup cfg a c)) a"
  using lookup_cases [of cfg a c] assms by auto

lemma lookup_miss: "\<not> lr_hit (lookup cfg a c) \<Longrightarrow> \<not> holds cfg c w a"
  using lookup_cases [of cfg a c] by auto

lemma lookup_agrees:
  "agrees cfg gm L c \<Longrightarrow> lr_hit (lookup cfg a c) \<Longrightarrow> line_of a \<notin> L \<Longrightarrow>
   lr_data (lookup cfg a c) = gm (drop_bit 2 a)"
  using lookup_hit [of cfg a c] by (simp add: agrees_def)

lemma holds_same_line:
  assumes "good_cfg cfg" "line_of a = line_of b" shows "holds cfg c w a = holds cfg c w b"
  using same_line [OF assms(1), of a b] assms(2) by (simp add: holds_def)

lemma holds_unique_line:
  assumes "good_cfg cfg" "holds cfg c w a" "holds cfg c w b" "setIndex cfg a = setIndex cfg b"
  shows "line_of a = line_of b"
  using assms same_line [OF assms(1), of a b] by (simp add: holds_def)

lemma readLine_agrees:
  assumes "good_cfg cfg" "agrees cfg gm L c" "holds cfg c w a" "line_of a \<notin> L" "line_of b = line_of a"
  shows "readLine cfg w a c ! lineWordIndex b = gm (drop_bit 2 b)"
proof -
  have "holds cfg c w b" using holds_same_line [OF assms(1,5)] assms(3) by simp
  then have "cached_word cfg c w b = gm (drop_bit 2 b)" using assms(2,4,5) by (simp add: agrees_def)
  moreover have "setIndex cfg b = setIndex cfg a" using same_line [OF assms(1)] assms(5) by blast
  ultimately show ?thesis
    using lineWordIndex_less [of b] by (simp add: readLine_def cached_word_def)
qed

subsection \<open>Reset\<close>

lemma reset_empty: "good_cfg cfg \<Longrightarrow> \<not> holds cfg (cache_reset cfg c) w a"
  using setIndex_less by (auto simp: holds_def cache_reset_def)

lemma reset_wf: "good_cfg cfg \<Longrightarrow> wf_cache cfg (cache_reset cfg c)"
  using setIndex_less [of cfg] reset_empty [of cfg c]
  by (auto simp: wf_cache_def) (auto simp: cache_reset_def good_cfg_def)

lemma reset_agrees: "good_cfg cfg \<Longrightarrow> agrees cfg gm L (cache_reset cfg c)"
  by (simp add: agrees_def reset_empty)

subsection \<open>Writing a word\<close>

lemma writeWord_holds [simp]: "holds cfg (writeWord cfg w a v c) w' b = holds cfg c w' b"
  by (simp add: holds_def writeWord_def Let_def)

lemma writeWord_wf [simp]: "wf_cache cfg (writeWord cfg w a v c) = wf_cache cfg c"
  by (simp add: wf_cache_def) (simp add: writeWord_def Let_def)

lemma writeWord_word:
  assumes "good_cfg cfg" "holds cfg c w a" "holds cfg c w' b"
  shows "cached_word cfg (writeWord cfg w a v c) w' b
    = (if w' = w \<and> drop_bit 2 b = drop_bit 2 a then v else cached_word cfg c w' b)"
proof (cases "w' = w \<and> setIndex cfg b = setIndex cfg a")
  case True
  then have "line_of b = line_of a" using holds_unique_line [OF assms(1), of c w b a] assms by simp
  then show ?thesis using True same_word [of b a]
    by (auto simp: cached_word_def writeWord_def Let_def)
next
  case False
  then have "\<not> (w' = w \<and> drop_bit 2 b = drop_bit 2 a)"
    using same_word [of b a] same_line [OF assms(1), of b a] by auto
  with False show ?thesis by (auto simp: cached_word_def writeWord_def Let_def)
qed

text \<open>A write-through store: update the resident copy, if any, and the memory.\<close>

definition store_through :: "cache_cfg \<Rightarrow> addr_t \<Rightarrow> u32 \<Rightarrow> SetAssocCache \<Rightarrow> SetAssocCache" where
  "store_through cfg a v c =
     (let r = lookup cfg a c in if lr_hit r then writeWord cfg (lr_way r) a v c else c)"

lemma store_through_wf [simp]: "wf_cache cfg (store_through cfg a v c) = wf_cache cfg c"
  by (simp add: store_through_def Let_def)

lemma store_through_agrees:
  assumes "good_cfg cfg" "wf_cache cfg c" "agrees cfg gm L c"
  shows "agrees cfg (gm(drop_bit 2 a := v)) L (store_through cfg a v c)"
  unfolding agrees_def
proof (intro allI impI)
  fix b w assume h: "holds cfg (store_through cfg a v c) w b" and b: "line_of b \<notin> L"
  have hb: "holds cfg c w b" using h by (auto simp: store_through_def Let_def split: if_splits)
  have old: "cached_word cfg c w b = gm (drop_bit 2 b)" using assms(3) hb b by (simp add: agrees_def)
  show "cached_word cfg (store_through cfg a v c) w b = (gm(drop_bit 2 a := v)) (drop_bit 2 b)"
  proof (cases "lr_hit (lookup cfg a c)")
    case True
    note hit = lookup_hit(1) [OF True]
    have "drop_bit 2 b = drop_bit 2 a \<Longrightarrow> w = lr_way (lookup cfg a c)"
      using assms(2) hit hb same_word [of b a] holds_same_line [OF assms(1), of b a]
      unfolding wf_cache_def by blast
    then show ?thesis
      using True old writeWord_word [OF assms(1) hit hb, of v] by (auto simp: store_through_def Let_def)
  next
    case False
    then have "line_of b \<noteq> line_of a"
      using lookup_miss [OF False] hb holds_same_line [OF assms(1), of b a] by auto
    then have "drop_bit 2 b \<noteq> drop_bit 2 a" using same_word [of b a] by auto
    with False old show ?thesis by (simp add: store_through_def Let_def)
  qed
qed

lemma agrees_mono: "agrees cfg gm L c \<Longrightarrow> L \<subseteq> L' \<Longrightarrow> agrees cfg gm L' c"
  by (auto simp: agrees_def)

text \<open>A store made behind the cache's back spoils the line it hits and no other.\<close>

lemma agrees_remote_store:
  assumes "agrees cfg gm L c"
  shows "agrees cfg (gm(drop_bit 2 a := v)) (insert (line_of a) L) c"
  using assms same_word [of _ a] by (auto simp: agrees_def)

subsection \<open>Filling a line\<close>

lemma fillLine_holds:
  assumes "good_cfg cfg" "wf_cache cfg c"
  shows "holds cfg (fillLine cfg a line c) w b \<longleftrightarrow>
    (if w = ca_next_victim c (setIndex cfg a) \<and> setIndex cfg b = setIndex cfg a
     then line_of b = line_of a else holds cfg c w b)"
  using assms same_line [OF assms(1), of b a]
  by (auto simp: holds_def fillLine_def Let_def wf_cache_def)

lemma fillLine_word:
  "cached_word cfg (fillLine cfg a line c) w b =
    (if w = ca_next_victim c (setIndex cfg a) \<and> setIndex cfg b = setIndex cfg a
     then line ! lineWordIndex b else cached_word cfg c w b)"
  using lineWordIndex_less [of b] by (auto simp: cached_word_def fillLine_def Let_def)

lemma fillLine_wf:
  assumes "good_cfg cfg" "wf_cache cfg c" "\<And>w. \<not> holds cfg c w a"
  shows "wf_cache cfg (fillLine cfg a line c)"
proof -
  let ?v = "ca_next_victim c (setIndex cfg a)"
  have ways: "0 < WAYS cfg" using assms(1) by (simp add: good_cfg_def)
  have uniq: "w = w'" if "holds cfg (fillLine cfg a line c) w b" "holds cfg (fillLine cfg a line c) w' b"
    for b w w'
  proof -
    show ?thesis
    proof (cases "line_of b = line_of a")
      case True
      then have "\<not> holds cfg c x b" for x
        using assms(3) holds_same_line [OF assms(1) True] by simp
      with that show ?thesis by (auto simp: fillLine_holds [OF assms(1,2)] split: if_splits)
    next
      case False
      with that have "holds cfg c w b" "holds cfg c w' b"
        by (auto simp: fillLine_holds [OF assms(1,2)] split: if_splits)
      with assms(2) show ?thesis unfolding wf_cache_def by blast
    qed
  qed
  moreover have "ca_next_victim (fillLine cfg a line c) (setIndex cfg b) < WAYS cfg" for b
  proof -
    have "?v < WAYS cfg" "ca_next_victim c (setIndex cfg b) < WAYS cfg"
      using assms(2) by (auto simp: wf_cache_def)
    with ways show ?thesis by (auto simp: fillLine_def Let_def)
  qed
  ultimately show ?thesis unfolding wf_cache_def by blast
qed

lemma fillLine_agrees:
  assumes "good_cfg cfg" "wf_cache cfg c" "agrees cfg gm L c"
    and "\<And>b. line_of b = line_of a \<Longrightarrow> line ! lineWordIndex b = gm (drop_bit 2 b)"
    and "\<And>w. \<not> holds cfg c w a"
  shows "agrees cfg gm (L - {line_of a}) (fillLine cfg a line c)"
  unfolding agrees_def
proof (intro allI impI)
  fix b w
  assume h: "holds cfg (fillLine cfg a line c) w b" and b: "line_of b \<notin> L - {line_of a}"
  show "cached_word cfg (fillLine cfg a line c) w b = gm (drop_bit 2 b)"
  proof (cases "w = ca_next_victim c (setIndex cfg a) \<and> setIndex cfg b = setIndex cfg a")
    case True
    then have "line_of b = line_of a" using h by (simp add: fillLine_holds [OF assms(1,2)])
    with True show ?thesis by (simp add: fillLine_word assms(4))
  next
    case False
    then have hb: "holds cfg c w b" using h by (simp add: fillLine_holds [OF assms(1,2)] split: if_splits)
    then have "line_of b \<noteq> line_of a" using assms(5) holds_same_line [OF assms(1), of b a] by auto
    with hb b assms(3) False show ?thesis by (auto simp: fillLine_word agrees_def)
  qed
qed

lemma lookup_fillLine:
  assumes "good_cfg cfg" "wf_cache cfg c" "\<not> lr_hit (lookup cfg a c)" "line_of b = line_of a"
  shows "lr_hit (lookup cfg b (fillLine cfg a line c)) \<and>
         lr_data (lookup cfg b (fillLine cfg a line c)) = line ! lineWordIndex b"
proof -
  let ?c = "fillLine cfg a line c" and ?v = "ca_next_victim c (setIndex cfg a)"
  have set: "setIndex cfg b = setIndex cfg a" using same_line [OF assms(1), of b a] assms(4) by simp
  then have h: "holds cfg ?c ?v b" by (simp add: fillLine_holds [OF assms(1,2)] assms(4))
  then have hit: "lr_hit (lookup cfg b ?c)" using lookup_miss by blast
  have "wf_cache cfg ?c" using assms(1-3) lookup_miss by (intro fillLine_wf) auto
  then have "lr_way (lookup cfg b ?c) = ?v"
    using h lookup_hit(1) [OF hit] unfolding wf_cache_def by blast
  then show ?thesis using hit lookup_hit(2) [OF hit] set by (simp add: fillLine_word)
qed

text \<open>After a fill of a missing line every word of it is found and is the word of the line, and no
  other resident line is found with a different value.\<close>

theorem fill_then_lookup:
  assumes "good_cfg cfg" "wf_cache cfg c" "\<not> lr_hit (lookup cfg a c)" "line_of b = line_of a"
  shows "lr_hit (lookup cfg b (fillLine cfg a line c)) \<and>
         lr_data (lookup cfg b (fillLine cfg a line c)) = line ! lineWordIndex b"
  by (rule lookup_fillLine [OF assms])

definition cache0 :: SetAssocCache where
  "cache0 = \<lparr> ca_tag = (\<lambda>_ _. 0), ca_valid = (\<lambda>_ _. False), ca_data = (\<lambda>_ _ _. 0),
     ca_next_victim = (\<lambda>_. 0) \<rparr>"

lemma cache0_empty: "\<not> holds cfg cache0 w a"
  by (simp add: holds_def cache0_def)

lemma cache0_wf: "good_cfg cfg \<Longrightarrow> wf_cache cfg cache0"
  by (simp add: wf_cache_def cache0_empty) (simp add: cache0_def good_cfg_def)

theorem fill_then_lookup_witness:
  "lr_data (lookup L1Cache 0x8004 (fillLine L1Cache 0x8000 (map of_nat [0..<32]) cache0)) = 1"
proof -
  have "\<not> lr_hit (lookup L1Cache 0x8000 cache0)"
    using lookup_hit(1) [of L1Cache "0x8000" cache0] cache0_empty by blast
  moreover have "line_of 0x8004 = line_of 0x8000" "lineWordIndex 0x8004 = 1" by code_simp+
  ultimately show ?thesis
    using fill_then_lookup [OF good_L1 cache0_wf [OF good_L1],
        where a = "0x8000" and b = "0x8004" and line = "map of_nat [0..<32]"] by simp
qed

end
