(* ===== verification/WordMemory.thy ===== *)
theory WordMemory
  imports HlsTypes
begin

text \<open>
  The interface between the units that execute loads and stores and a memory of 32-bit words: what a
  load returns after any sequence of loads and stores. The synthesizable memory pipeline and the
  golden memory hierarchy are both instances; a client that only relies on this interface sees the
  same values from either.
\<close>

datatype mem_op = Load addr_t | Store addr_t u32

fun run_ops ::
  "(addr_t \<Rightarrow> 's \<Rightarrow> u32 \<times> 's) \<Rightarrow> (addr_t \<Rightarrow> u32 \<Rightarrow> 's \<Rightarrow> 's) \<Rightarrow> mem_op list \<Rightarrow> 's \<Rightarrow> u32 list \<times> 's"
where
  "run_ops ld st [] s = ([], s)"
| "run_ops ld st (Load a # ops) s =
     (let (v, s1) = ld a s; (vs, s2) = run_ops ld st ops s1 in (v # vs, s2))"
| "run_ops ld st (Store a v # ops) s = run_ops ld st ops (st a v s)"

primrec op_addr :: "mem_op \<Rightarrow> addr_t" where
  "op_addr (Load a) = a"
| "op_addr (Store a v) = a"

text \<open>The reference: one word per aligned address.\<close>

definition alignAddress :: "addr_t \<Rightarrow> addr_t" where
  "alignAddress a = a AND NOT 3"

fun flat_run :: "mem_op list \<Rightarrow> (addr_t \<Rightarrow> u32) \<Rightarrow> u32 list \<times> (addr_t \<Rightarrow> u32)" where
  "flat_run [] f = ([], f)"
| "flat_run (Load a # ops) f = (let (vs, f') = flat_run ops f in (f (alignAddress a) # vs, f'))"
| "flat_run (Store a v # ops) f = flat_run ops (f(alignAddress a := v))"

lemma align_idem [simp]: "alignAddress (alignAddress a) = alignAddress a"
  by (simp add: alignAddress_def and.assoc)

lemma flat_run_last_store:
  "fst (flat_run [Store a v, Load b] f) = [if alignAddress a = alignAddress b then v else f (alignAddress b)]"
  by simp

text \<open>
  A memory need not hold every address: \<open>backed s a\<close> says that the word of \<open>a\<close> has storage behind it,
  and the laws are about those. An operation neither adds nor removes storage.
\<close>

locale word_memory =
  fixes ld :: "addr_t \<Rightarrow> 's \<Rightarrow> u32 \<times> 's" and st :: "addr_t \<Rightarrow> u32 \<Rightarrow> 's \<Rightarrow> 's"
    and view :: "'s \<Rightarrow> addr_t \<Rightarrow> u32" and inv :: "'s \<Rightarrow> bool" and backed :: "'s \<Rightarrow> addr_t \<Rightarrow> bool"
  assumes ld_value: "inv s \<Longrightarrow> backed s a \<Longrightarrow> fst (ld a s) = view s (alignAddress a)"
    and ld_view: "inv s \<Longrightarrow> view (snd (ld a s)) (alignAddress b) = view s (alignAddress b)"
    and st_view: "inv s \<Longrightarrow> backed s a \<Longrightarrow> view (st a v s) (alignAddress b)
                    = (if alignAddress b = alignAddress a then v else view s (alignAddress b))"
    and ld_inv: "inv s \<Longrightarrow> inv (snd (ld a s))"
    and st_inv: "inv s \<Longrightarrow> inv (st a v s)"
    and ld_backed: "inv s \<Longrightarrow> backed (snd (ld a s)) b = backed s b"
    and st_backed: "inv s \<Longrightarrow> backed (st a v s) b = backed s b"
begin

lemma run_refines_flat:
  assumes "inv s" "\<forall>x \<in> set ops. backed s (op_addr x)"
    and "\<And>b. backed s b \<Longrightarrow> f (alignAddress b) = view s (alignAddress b)"
  shows "fst (run_ops ld st ops s) = fst (flat_run ops f) \<and> inv (snd (run_ops ld st ops s)) \<and>
    (\<forall>b. backed s b \<longrightarrow> snd (flat_run ops f) (alignAddress b)
        = view (snd (run_ops ld st ops s)) (alignAddress b))"
  using assms
proof (induction ops arbitrary: s f)
  case Nil
  then show ?case by simp
next
  case (Cons x ops)
  show ?case
  proof (cases x)
    case (Load a)
    then show ?thesis
      using Cons.IH [of "snd (ld a s)" f] Cons.prems ld_inv ld_view ld_value ld_backed
      by (simp add: split_def Let_def)
  next
    case (Store a v)
    have b: "backed (st a v s) b = backed s b" for b using Cons.prems(1) by (rule st_backed)
    have f: "(f(alignAddress a := v)) (alignAddress b) = view (st a v s) (alignAddress b)" if "backed (st a v s) b" for b
      using Cons.prems st_view that by (simp add: Store b)
    have "\<forall>x \<in> set ops. backed (st a v s) (op_addr x)" using Cons.prems(2) by (simp add: b)
    from Cons.IH [OF st_inv [OF Cons.prems(1)] this f] show ?thesis
      unfolding Store run_ops.simps flat_run.simps b .
  qed
qed

lemma run_values:
  "inv s \<Longrightarrow> \<forall>x \<in> set ops. backed s (op_addr x) \<Longrightarrow> fst (run_ops ld st ops s) = fst (flat_run ops (view s))"
  using run_refines_flat [of s ops "view s"] by simp

end

end
