(* ===== verification/MemPipeline.thy ===== *)
theory MemPipeline
  imports CacheBank WordMemory
begin

text \<open>
  The memory side of the synthesizable design: \<open>MemorySubsystem\<close> of
  \<open>hls/src/memory/memory_pipeline.h\<close> (shared memories, one L1 per compute unit, one shared L2) and
  the service loop of \<open>memory_pipeline.cpp\<close>. \<open>gm\<close> is the word array behind the \<open>m_axi\<close> port,
  indexed by word; the request and response streams are lists.
\<close>

section \<open>Model\<close>

record MemorySubsystem =
  ms_shared_mem :: "nat \<Rightarrow> nat \<Rightarrow> reg_t"
  ms_l1_caches :: "nat \<Rightarrow> SetAssocCache"
  ms_l2_cache :: SetAssocCache
  ms_l1_hits :: u64
  ms_l1_misses :: u64
  ms_l2_hits :: u64
  ms_l2_misses :: u64
  ms_global_writes :: u64

type_synonym gmem = "u32 \<Rightarrow> u32"

definition mem_reset :: "MemorySubsystem \<Rightarrow> MemorySubsystem" where
  "mem_reset m = m\<lparr>
     ms_l1_caches := (\<lambda>c. if c < NUM_CUS then cache_reset L1Cache (ms_l1_caches m c) else ms_l1_caches m c),
     ms_shared_mem := (\<lambda>c w. if c < NUM_CUS \<and> w < SHARED_MEM_WORDS_PER_CU then 0 else ms_shared_mem m c w),
     ms_l2_cache := cache_reset L2Cache (ms_l2_cache m),
     ms_l1_hits := 0, ms_l1_misses := 0, ms_l2_hits := 0, ms_l2_misses := 0, ms_global_writes := 0 \<rparr>"

definition invalidateCache :: "MemorySubsystem \<Rightarrow> MemorySubsystem" where
  "invalidateCache m = m\<lparr>
     ms_l1_caches := (\<lambda>c. if c < NUM_CUS then cache_reset L1Cache (ms_l1_caches m c) else ms_l1_caches m c),
     ms_l2_cache := cache_reset L2Cache (ms_l2_cache m) \<rparr>"

definition isSharedMemoryAddress :: "addr_t \<Rightarrow> bool" where
  "isSharedMemoryAddress a \<longleftrightarrow> a < of_nat SHARED_MEM_SIZE_BYTES"

definition fillBothCaches :: "nat \<Rightarrow> addr_t \<Rightarrow> u32 list \<Rightarrow> MemorySubsystem \<Rightarrow> MemorySubsystem" where
  "fillBothCaches cu line_base line m = m\<lparr>
     ms_l2_cache := fillLine L2Cache line_base line (ms_l2_cache m),
     ms_l1_caches := (ms_l1_caches m)(cu := fillLine L1Cache line_base line (ms_l1_caches m cu)) \<rparr>"

definition loadWord :: "addr_t \<Rightarrow> nat \<Rightarrow> gmem \<Rightarrow> MemorySubsystem \<Rightarrow> reg_t \<times> MemorySubsystem" where
  "loadWord aligned cu gm m =
     (let l1r = lookup L1Cache aligned (ms_l1_caches m cu) in
      if lr_hit l1r then (lr_data l1r, m\<lparr> ms_l1_hits := ms_l1_hits m + 1 \<rparr>)
      else
        let m1 = m\<lparr> ms_l1_misses := ms_l1_misses m + 1 \<rparr>;
            l2r = lookup L2Cache aligned (ms_l2_cache m1)
        in if lr_hit l2r then
             let m2 = m1\<lparr> ms_l2_hits := ms_l2_hits m1 + 1 \<rparr>;
                 line = readLine L2Cache (lr_way l2r) aligned (ms_l2_cache m2)
             in (lr_data l2r,
                 m2\<lparr> ms_l1_caches := (ms_l1_caches m2)(cu :=
                       fillLine L1Cache (lineBaseAddr aligned) line (ms_l1_caches m2 cu)) \<rparr>)
           else
             let m2 = m1\<lparr> ms_l2_misses := ms_l2_misses m1 + 1 \<rparr>;
                 line_base = lineBaseAddr aligned;
                 base_word_idx = drop_bit 2 line_base;
                 line = map (\<lambda>i. gm (base_word_idx + of_nat i)) [0..<WORDS_PER_LINE]
             in (line ! lineWordIndex aligned, fillBothCaches cu line_base line m2))"

definition storeWord ::
  "addr_t \<Rightarrow> reg_t \<Rightarrow> nat \<Rightarrow> gmem \<Rightarrow> MemorySubsystem \<Rightarrow> MemorySubsystem \<times> gmem" where
  "storeWord aligned v cu gm m =
     (m\<lparr> ms_l1_caches := (ms_l1_caches m)(cu := store_through L1Cache aligned v (ms_l1_caches m cu)),
         ms_l2_cache := store_through L2Cache aligned v (ms_l2_cache m),
         ms_global_writes := ms_global_writes m + 1 \<rparr>,
      gm(drop_bit 2 aligned := v))"

definition mem_response :: "mem_req_t \<Rightarrow> reg_t \<Rightarrow> mem_resp_t" where
  "mem_response req v = \<lparr> rp_cu_id = rq_cu_id req, rp_warp_id = rq_warp_id req,
     rp_lane_id = rq_lane_id req, rp_data = v \<rparr>"

definition handleRequest ::
  "mem_req_t \<Rightarrow> MemorySubsystem \<times> gmem \<Rightarrow> mem_resp_t \<times> MemorySubsystem \<times> gmem" where
  "handleRequest req = (\<lambda>(m, gm).
     let aligned = alignAddress (rq_address req); cu = unat (rq_cu_id req) in
     if isSharedMemoryAddress aligned then
       let word_idx = unat (drop_bit 2 aligned) in
       if rq_is_write req then
         (mem_response req 0,
          m\<lparr> ms_shared_mem := (ms_shared_mem m)(cu := (ms_shared_mem m cu)(word_idx := rq_write_data req)) \<rparr>,
          gm)
       else (mem_response req (ms_shared_mem m cu word_idx), m, gm)
     else if rq_is_write req then
       let (m', gm') = storeWord aligned (rq_write_data req) cu gm m in (mem_response req 0, m', gm')
     else
       let (v, m') = loadWord aligned cu gm m in (mem_response req v, m', gm))"

text \<open>The service loop: \<open>memory_pipeline\<close> on the requests that have arrived.\<close>

fun memory_pipeline ::
  "mem_req_t list \<Rightarrow> MemorySubsystem \<times> gmem \<Rightarrow> mem_resp_t list \<times> MemorySubsystem \<times> gmem" where
  "memory_pipeline [] s = ([], s)"
| "memory_pipeline (req # reqs) s =
     (let (resp, s1) = handleRequest req s; (resps, s2) = memory_pipeline reqs s1
      in (resp # resps, s2))"

section \<open>The view of one compute unit\<close>

definition l1_ok :: "gmem \<Rightarrow> u32 set \<Rightarrow> nat \<Rightarrow> MemorySubsystem \<Rightarrow> bool" where
  "l1_ok gm L cu m \<longleftrightarrow> wf_cache L1Cache (ms_l1_caches m cu) \<and> agrees L1Cache gm L (ms_l1_caches m cu)"

definition l2_ok :: "gmem \<Rightarrow> MemorySubsystem \<Rightarrow> bool" where
  "l2_ok gm m \<longleftrightarrow> wf_cache L2Cache (ms_l2_cache m) \<and> agrees L2Cache gm {} (ms_l2_cache m)"

lemma bit_3: "bit (3 :: u32) n \<longleftrightarrow> n < 2"
  using bit_mask_iff [of 2 n, where 'a = u32] by (auto simp: mask_eq_exp_minus_1)

lemma bit_align: "bit (alignAddress x) n \<longleftrightarrow> 2 \<le> n \<and> bit x n"
proof -
  have "bit (alignAddress x) n \<longleftrightarrow> bit x n \<and> n < 32 \<and> \<not> n < 2"
    unfolding alignAddress_def
    by (simp only: bit_and_iff bit_not_iff_eq possible_bit_word bit_3) (simp add: not_le)
  then show ?thesis using bit_imp_le_length [of x n] by auto
qed

lemma align_push: "alignAddress x = push_bit 2 (drop_bit 2 x)"
  by (rule bit_word_eqI)
     (auto simp: bit_align bit_push_bit_iff bit_drop_bit_eq simp flip: add_2_eq_Suc)

lemma drop2_align [simp]: "drop_bit 2 (alignAddress a) = drop_bit 2 a"
  by (rule bit_word_eqI) (simp add: bit_align bit_drop_bit_eq)

lemma align_eq_iff: "alignAddress a = alignAddress b \<longleftrightarrow> drop_bit 2 a = drop_bit 2 b"
  using drop2_align by (metis align_push)

lemma line_of_align [simp]: "line_of (alignAddress a) = line_of a"
  using same_word [of "alignAddress a" a] by simp

lemma fetched_line:
  assumes "line_of b = line_of a"
  shows "map (\<lambda>i. gm (drop_bit 2 (lineBaseAddr a) + of_nat i)) [0..<WORDS_PER_LINE] ! lineWordIndex b
    = gm (drop_bit 2 b)"
  using lineWordIndex_less [of b] line_word_address [of a b] assms by simp

lemma loadWord_spec:
  assumes l1: "l1_ok gm L cu m" and l2: "l2_ok gm m"
  shows "l1_ok gm L cu (snd (loadWord a cu gm m))" "l2_ok gm (snd (loadWord a cu gm m))"
    "line_of a \<notin> L \<Longrightarrow> fst (loadWord a cu gm m) = gm (drop_bit 2 a)"
    "ms_shared_mem (snd (loadWord a cu gm m)) = ms_shared_mem m"
    "\<And>c. c \<noteq> cu \<Longrightarrow> ms_l1_caches (snd (loadWord a cu gm m)) c = ms_l1_caches m c"
proof -
  let ?c1 = "ms_l1_caches m cu" and ?c2 = "ms_l2_cache m"
  have w1: "wf_cache L1Cache ?c1" "agrees L1Cache gm L ?c1" using l1 by (auto simp: l1_ok_def)
  have w2: "wf_cache L2Cache ?c2" "agrees L2Cache gm {} ?c2" using l2 by (auto simp: l2_ok_def)
  have miss1: "\<not> holds L1Cache ?c1 w (lineBaseAddr a)" if "\<not> lr_hit (lookup L1Cache a ?c1)" for w
    using lookup_miss [OF that, of w] holds_same_line [OF good_L1, of "lineBaseAddr a" a ?c1 w] by simp
  have miss2: "\<not> holds L2Cache ?c2 w (lineBaseAddr a)" if "\<not> lr_hit (lookup L2Cache a ?c2)" for w
    using lookup_miss [OF that, of w] holds_same_line [OF good_L2, of "lineBaseAddr a" a ?c2 w] by simp
  have fill: "wf_cache cfg (fillLine cfg (lineBaseAddr a) line c) \<and>
      agrees cfg gm L' (fillLine cfg (lineBaseAddr a) line c)"
    if "good_cfg cfg" "wf_cache cfg c" "agrees cfg gm L' c" "\<And>w. \<not> holds cfg c w (lineBaseAddr a)"
      "\<And>b. line_of b = line_of a \<Longrightarrow> line ! lineWordIndex b = gm (drop_bit 2 b)" for cfg c L' line
    using fillLine_wf [OF that(1,2), of "lineBaseAddr a" line]
      fillLine_agrees [OF that(1-3), of "lineBaseAddr a" line] that(4,5)
    by (auto intro: agrees_mono)
  have line2: "readLine L2Cache (lr_way (lookup L2Cache a ?c2)) a ?c2 ! lineWordIndex b = gm (drop_bit 2 b)"
    if "lr_hit (lookup L2Cache a ?c2)" "line_of b = line_of a" for b
    using readLine_agrees [OF good_L2 w2(2) lookup_hit(1) [OF that(1)] _ that(2)] by simp
  consider (h1) "lr_hit (lookup L1Cache a ?c1)"
    | (h2) "\<not> lr_hit (lookup L1Cache a ?c1)" "lr_hit (lookup L2Cache a ?c2)"
    | (miss) "\<not> lr_hit (lookup L1Cache a ?c1)" "\<not> lr_hit (lookup L2Cache a ?c2)" by blast
  note cases = this
  show "l1_ok gm L cu (snd (loadWord a cu gm m))"
  proof (cases rule: cases)
    case h2
    then show ?thesis using fill [OF good_L1 w1 miss1 line2] by (simp add: loadWord_def Let_def l1_ok_def)
  next
    case miss
    then show ?thesis using fill [OF good_L1 w1 miss1 fetched_line]
      by (simp add: loadWord_def Let_def l1_ok_def fillBothCaches_def)
  qed (use l1 in \<open>simp add: loadWord_def l1_ok_def\<close>)
  show "l2_ok gm (snd (loadWord a cu gm m))"
  proof (cases rule: cases)
    case miss
    then show ?thesis using fill [OF good_L2 w2 miss2 fetched_line]
      by (simp add: loadWord_def Let_def l2_ok_def fillBothCaches_def)
  qed (use l2 in \<open>simp_all add: loadWord_def Let_def l2_ok_def\<close>)
  show "fst (loadWord a cu gm m) = gm (drop_bit 2 a)" if "line_of a \<notin> L"
    using lookup_agrees [OF w1(2)] lookup_agrees [OF w2(2)] that fetched_line [OF refl, of gm a]
    by (simp add: loadWord_def Let_def)
qed (simp_all add: loadWord_def Let_def fillBothCaches_def)

lemma storeWord_spec:
  assumes "l2_ok gm m"
  shows "l1_ok gm L cu m \<Longrightarrow>
      l1_ok (snd (storeWord a v cu gm m)) L cu (fst (storeWord a v cu gm m))"
    "l2_ok (snd (storeWord a v cu gm m)) (fst (storeWord a v cu gm m))"
    "snd (storeWord a v cu gm m) = gm(drop_bit 2 a := v)"
    "ms_shared_mem (fst (storeWord a v cu gm m)) = ms_shared_mem m"
    "c \<noteq> cu \<Longrightarrow> l1_ok gm L c m \<Longrightarrow>
      l1_ok (snd (storeWord a v cu gm m)) (insert (line_of a) L) c (fst (storeWord a v cu gm m))"
  using assms
  by (simp_all add: storeWord_def l1_ok_def l2_ok_def store_through_agrees agrees_remote_store)

section \<open>One unit sees a flat memory\<close>

definition cu_req :: "nat \<Rightarrow> addr_t \<Rightarrow> bool \<Rightarrow> u32 \<Rightarrow> mem_req_t" where
  "cu_req c a w v = \<lparr> rq_cu_id = of_nat c, rq_warp_id = 0, rq_lane_id = 0, rq_address = a,
     rq_is_write = w, rq_write_data = v \<rparr>"

definition cu_load :: "nat \<Rightarrow> addr_t \<Rightarrow> MemorySubsystem \<times> gmem \<Rightarrow> u32 \<times> MemorySubsystem \<times> gmem" where
  "cu_load c a s = (let (r, s') = handleRequest (cu_req c a False 0) s in (rp_data r, s'))"

definition cu_store :: "nat \<Rightarrow> addr_t \<Rightarrow> u32 \<Rightarrow> MemorySubsystem \<times> gmem \<Rightarrow> MemorySubsystem \<times> gmem" where
  "cu_store c a v s = snd (handleRequest (cu_req c a True v) s)"

text \<open>The memory as the flat reference sees it: shared words of the unit, then global words.\<close>

definition flat_view :: "nat \<Rightarrow> (nat \<Rightarrow> nat \<Rightarrow> u32) \<times> gmem \<Rightarrow> addr_t \<Rightarrow> u32" where
  "flat_view c = (\<lambda>(shm, gm) a.
     if isSharedMemoryAddress a then shm c (unat (drop_bit 2 a)) else gm (drop_bit 2 a))"

definition cu_view :: "nat \<Rightarrow> MemorySubsystem \<times> gmem \<Rightarrow> addr_t \<Rightarrow> u32" where
  "cu_view c = (\<lambda>(m, gm). flat_view c (ms_shared_mem m, gm))"

definition cu_inv :: "nat \<Rightarrow> MemorySubsystem \<times> gmem \<Rightarrow> bool" where
  "cu_inv c = (\<lambda>(m, gm). l1_ok gm {} c m \<and> l2_ok gm m \<and> c < NUM_CUS)"

lemma cu_of_nat [simp]: "c < NUM_CUS \<Longrightarrow> unat (of_nat c :: cu_id_t) = c"
  by (simp add: unat_of_nat)

text \<open>Every address is backed: an address in the shared window reaches the unit's own block RAM.\<close>

interpretation hls_memory: word_memory "cu_load c" "cu_store c" "cu_view c" "cu_inv c" "\<lambda>_ _. True" for c
proof
  fix s :: "MemorySubsystem \<times> gmem" and a b :: addr_t and v :: u32
  obtain m gm where s: "s = (m, gm)" by (cases s)
  assume inv: "cu_inv c s"
  then have ok: "l1_ok gm {} c m" "l2_ok gm m" "c < NUM_CUS" by (auto simp: cu_inv_def s)
  note ld = loadWord_spec [OF ok(1,2)] and st = storeWord_spec [OF ok(2)]
  note defs = cu_load_def cu_store_def cu_view_def flat_view_def handleRequest_def cu_req_def
    mem_response_def Let_def split_def s cu_of_nat [OF ok(3)]
  show "fst (cu_load c a s) = cu_view c s (alignAddress a)"
    using ld(3) by (simp add: defs)
  show "cu_view c (snd (cu_load c a s)) (alignAddress b) = cu_view c s (alignAddress b)"
    using ld(4) by (simp add: defs)
  have "drop_bit 2 b = drop_bit 2 a \<Longrightarrow>
      isSharedMemoryAddress (alignAddress b) = isSharedMemoryAddress (alignAddress a)"
    by (metis align_eq_iff)
  then show "cu_view c (cu_store c a v s) (alignAddress b)
      = (if alignAddress b = alignAddress a then v else cu_view c s (alignAddress b))"
    using st(3,4) by (auto simp: defs align_eq_iff word_unat_eq_iff [symmetric])
  show "cu_inv c (snd (cu_load c a s))"
    using ld(1,2) ok by (simp add: defs cu_inv_def l1_ok_def l2_ok_def)
  show "cu_inv c (cu_store c a v s)"
    using st(1) [OF ok(1), of "alignAddress a" v] st(2) [of "alignAddress a" v c] ok
    by (auto simp: defs cu_inv_def l1_ok_def l2_ok_def)
qed simp_all

text \<open>C5: through L1, L2 and shared memory, a compute unit that is alone on the memory reads exactly what
  a flat word memory would return, for every sequence of loads and stores.\<close>

theorem caches_transparent_for_one_unit:
  assumes "cu_inv c s"
  shows "fst (run_ops (cu_load c) (cu_store c) ops s) = fst (flat_run ops (cu_view c s))"
  using assms by (intro hls_memory.run_values) simp_all

section \<open>Several units\<close>

text \<open>The effect of a request on the flat memory, and the global line it writes.\<close>

definition flat_request :: "mem_req_t \<Rightarrow> (nat \<Rightarrow> nat \<Rightarrow> u32) \<times> gmem \<Rightarrow> (nat \<Rightarrow> nat \<Rightarrow> u32) \<times> gmem" where
  "flat_request req = (\<lambda>(shm, gm).
     let a = alignAddress (rq_address req); c = unat (rq_cu_id req); w = drop_bit 2 a in
     if \<not> rq_is_write req then (shm, gm)
     else if isSharedMemoryAddress a then
       (shm(c := (shm c)(unat w := rq_write_data req)), gm)
     else (shm, gm(w := rq_write_data req)))"

definition written_line :: "mem_req_t \<Rightarrow> u32 set" where
  "written_line req =
     (if rq_is_write req \<and> \<not> isSharedMemoryAddress (alignAddress (rq_address req))
      then {line_of (rq_address req)} else {})"

fun remote_lines :: "nat \<Rightarrow> mem_req_t list \<Rightarrow> u32 set" where
  "remote_lines c [] = {}"
| "remote_lines c (req # reqs) =
     (if unat (rq_cu_id req) = c then {} else written_line req) \<union> remote_lines c reqs"

definition mem_inv :: "gmem \<Rightarrow> (nat \<Rightarrow> u32 set) \<Rightarrow> MemorySubsystem \<Rightarrow> bool" where
  "mem_inv gm D m \<longleftrightarrow> l2_ok gm m \<and> (\<forall>c<NUM_CUS. l1_ok gm (D c) c m)"

lemma cu_id_less: "unat (c :: cu_id_t) < NUM_CUS"
proof -
  have "unat c < 2 ^ LENGTH(3)" by (rule unsigned_less)
  then show ?thesis by simp
qed

lemma l1_ok_frame:
  "ms_l1_caches m' c = ms_l1_caches m c \<Longrightarrow> l1_ok gm L c m' = l1_ok gm L c m"
  by (simp add: l1_ok_def)

lemma handleRequest_step:
  assumes inv: "mem_inv gm D m" and step: "handleRequest req (m, gm) = (resp, m', gm')"
  shows "mem_inv gm' (\<lambda>c. D c \<union> (if unat (rq_cu_id req) = c then {} else written_line req)) m'"
    "(ms_shared_mem m', gm') = flat_request req (ms_shared_mem m, gm)"
    "\<not> rq_is_write req \<Longrightarrow> line_of (rq_address req) \<notin> D (unat (rq_cu_id req)) \<Longrightarrow>
     rp_data resp = flat_view (unat (rq_cu_id req)) (ms_shared_mem m, gm) (alignAddress (rq_address req))"
    "(rp_cu_id resp, rp_warp_id resp, rp_lane_id resp) = (rq_cu_id req, rq_warp_id req, rq_lane_id req)"
proof -
  let ?c = "unat (rq_cu_id req)" and ?a = "alignAddress (rq_address req)"
  have l2: "l2_ok gm m" and l1: "\<And>c. c < NUM_CUS \<Longrightarrow> l1_ok gm (D c) c m"
    using inv by (auto simp: mem_inv_def)
  note ld = loadWord_spec [OF l1 [OF cu_id_less [of "rq_cu_id req"]] l2, where a = ?a]
  note st = storeWord_spec [OF l2, where a = ?a and v = "rq_write_data req" and cu = ?c]
  note defs = handleRequest_def mem_response_def Let_def split_def flat_request_def flat_view_def
    written_line_def
  consider (shared) "isSharedMemoryAddress ?a"
    | (store) "\<not> isSharedMemoryAddress ?a" "rq_is_write req"
    | (load) "\<not> isSharedMemoryAddress ?a" "\<not> rq_is_write req" by blast
  note cases = this
  show "(ms_shared_mem m', gm') = flat_request req (ms_shared_mem m, gm)"
    using step st(3,4) ld(4) by (cases rule: cases) (auto simp: defs split: if_splits)
  show "(rp_cu_id resp, rp_warp_id resp, rp_lane_id resp)
      = (rq_cu_id req, rq_warp_id req, rq_lane_id req)"
    using step by (cases rule: cases) (auto simp: defs split: if_splits)
  show "rp_data resp = flat_view ?c (ms_shared_mem m, gm) ?a"
    if "\<not> rq_is_write req" "line_of (rq_address req) \<notin> D ?c"
    using step that ld(3) by (cases rule: cases) (auto simp: defs split: if_splits)
  show "mem_inv gm' (\<lambda>c. D c \<union> (if ?c = c then {} else written_line req)) m'"
  proof (cases rule: cases)
    case shared
    then have "gm' = gm" "ms_l1_caches m' = ms_l1_caches m" "ms_l2_cache m' = ms_l2_cache m"
      "written_line req = {}"
      using step by (auto simp: defs split: if_splits)
    then show ?thesis using inv by (simp add: mem_inv_def l1_ok_def l2_ok_def)
  next
    case store
    then have e: "m' = fst (storeWord ?a (rq_write_data req) ?c gm m)"
      "gm' = snd (storeWord ?a (rq_write_data req) ?c gm m)"
      "written_line req = {line_of (rq_address req)}"
      using step by (auto simp: defs)
    have "l1_ok gm' (D c \<union> (if ?c = c then {} else written_line req)) c m'" if "c < NUM_CUS" for c
      using storeWord_spec(1) [OF l2 l1 [OF that], where a = ?a and v = "rq_write_data req"]
        storeWord_spec(5) [OF l2 _ l1 [OF that], where cu = ?c and a = ?a and v = "rq_write_data req"]
      by (cases "?c = c") (simp_all add: e)
    then show ?thesis using st(2)
      by (simp add: mem_inv_def e)
  next
    case load
    then have e: "m' = snd (loadWord ?a ?c gm m)" "gm' = gm" "written_line req = {}"
      using step by (auto simp: defs)
    have "l1_ok gm (D c) c m'" if "c < NUM_CUS" for c
      using ld(1) ld(5) [of c] l1 [OF that] l1_ok_frame [of m' c m] by (cases "c = ?c") (auto simp: e)
    then show ?thesis using ld(2) by (simp add: mem_inv_def e)
  qed
qed

lemma memory_pipeline_inv:
  assumes "mem_inv gm D m" "memory_pipeline reqs (m, gm) = (resps, m', gm')"
  shows "mem_inv gm' (\<lambda>c. D c \<union> remote_lines c reqs) m' \<and>
    (ms_shared_mem m', gm') = fold flat_request reqs (ms_shared_mem m, gm)"
  using assms
proof (induction reqs arbitrary: gm D m resps)
  case Nil
  then show ?case by simp
next
  case (Cons req reqs)
  obtain resp m1 gm1 where h: "handleRequest req (m, gm) = (resp, m1, gm1)"
    by (cases "handleRequest req (m, gm)") auto
  obtain resps1 where r: "memory_pipeline reqs (m1, gm1) = (resps1, m', gm')"
    using Cons.prems(2) h by (auto simp: Let_def split: prod.splits)
  note step = handleRequest_step [OF Cons.prems(1) h]
  from Cons.IH [OF step(1) r] show ?case by (simp add: step(2) Un_assoc)
qed

text \<open>With all units on the memory, a load returns the value of the flat memory whenever no other unit
  has stored to its 128-byte line before; stores of the unit itself and shared memory never matter.\<close>

theorem loads_flat_without_remote_stores:
  assumes "mem_inv gm (\<lambda>_. {}) m"
    and "memory_pipeline reqs (m, gm) = (resps, s)"
    and "\<not> rq_is_write req"
    and "line_of (rq_address req) \<notin> remote_lines (unat (rq_cu_id req)) reqs"
  shows "rp_data (fst (handleRequest req s))
    = flat_view (unat (rq_cu_id req)) (fold flat_request reqs (ms_shared_mem m, gm))
        (alignAddress (rq_address req))"
proof -
  obtain m' gm' where s: "s = (m', gm')" by (cases s)
  note inv = memory_pipeline_inv [OF assms(1) assms(2) [unfolded s]]
  obtain resp m2 gm2 where h: "handleRequest req (m', gm') = (resp, m2, gm2)"
    by (cases "handleRequest req (m', gm')") auto
  have "rp_data resp = flat_view (unat (rq_cu_id req)) (ms_shared_mem m', gm')
      (alignAddress (rq_address req))"
    using handleRequest_step(3) [OF conjunct1 [OF inv] h] assms(3,4) by simp
  then show ?thesis using inv by (simp add: s h)
qed

text \<open>Every request gets exactly one response, in order, tagged with the unit, warp and lane that
  asked.\<close>

theorem memory_pipeline_answers_in_order:
  assumes "memory_pipeline reqs s = (resps, s')"
  shows "map (\<lambda>r. (rp_cu_id r, rp_warp_id r, rp_lane_id r)) resps
       = map (\<lambda>q. (rq_cu_id q, rq_warp_id q, rq_lane_id q)) reqs"
  using assms
proof (induction reqs arbitrary: s resps)
  case Nil
  then show ?case by simp
next
  case (Cons req reqs)
  have tag: "(rp_cu_id (fst (handleRequest req s)), rp_warp_id (fst (handleRequest req s)),
      rp_lane_id (fst (handleRequest req s))) = (rq_cu_id req, rq_warp_id req, rq_lane_id req)"
    by (simp add: handleRequest_def mem_response_def Let_def split_def)
  obtain resps1 s1 where r: "memory_pipeline reqs (snd (handleRequest req s)) = (resps1, s1)"
    by (cases "memory_pipeline reqs (snd (handleRequest req s))")
  then have e: "resps = fst (handleRequest req s) # resps1" "s' = s1"
    using Cons.prems by (simp_all add: split_def Let_def)
  show ?case using Cons.IH [OF r [folded e(2)]] tag by (simp add: e(1))
qed

text \<open>An L1 line is not invalidated by another unit's store: a load that hits in its own L1 returns the
  cached word, whatever another unit has stored to that address in between.\<close>

theorem remote_store_not_seen:
  assumes "c \<noteq> c'" "c < NUM_CUS" "c' < NUM_CUS"
    and "\<not> isSharedMemoryAddress (alignAddress a)"
    and "lr_hit (lookup L1Cache (alignAddress a) (ms_l1_caches m c))"
  shows "fst (cu_load c a (cu_store c' b v (m, gm)))
    = lr_data (lookup L1Cache (alignAddress a) (ms_l1_caches m c))"
proof -
  have "ms_l1_caches (fst (cu_store c' b v (m, gm))) c = ms_l1_caches m c"
    using assms(1,3)
    by (auto simp: cu_store_def handleRequest_def cu_req_def storeWord_def Let_def split_def)
  then show ?thesis using assms(2,4,5)
    by (simp add: cu_load_def handleRequest_def cu_req_def loadWord_def mem_response_def Let_def split_def)
qed

section \<open>Witnesses\<close>

definition subsystem0 :: MemorySubsystem where
  "subsystem0 = mem_reset \<lparr> ms_shared_mem = (\<lambda>_ _. 0), ms_l1_caches = (\<lambda>_. cache0),
     ms_l2_cache = cache0, ms_l1_hits = 0, ms_l1_misses = 0, ms_l2_hits = 0, ms_l2_misses = 0,
     ms_global_writes = 0 \<rparr>"

lemma subsystem0_inv: "mem_inv gm D subsystem0"
  by (simp add: mem_inv_def l1_ok_def l2_ok_def subsystem0_def mem_reset_def reset_wf reset_agrees)

lemma subsystem0_cu_inv: "c < NUM_CUS \<Longrightarrow> cu_inv c (subsystem0, gm)"
  using subsystem0_inv [of gm "\<lambda>_. {}"] by (simp add: mem_inv_def cu_inv_def)

lemmas addr_eval = isSharedMemoryAddress_def alignAddress_def line_of_def word_less_nat_alt

theorem caches_transparent_for_one_unit_witness:
  "fst (run_ops (cu_load 0) (cu_store 0) [Load 0x10000, Store 0x10004 7, Load 0x10006, Store 4 9, Load 4]
     (subsystem0, \<lambda>w. w)) = [0x4000, 7, 9]"
proof -
  have "\<not> isSharedMemoryAddress (alignAddress 0x10000)" "\<not> isSharedMemoryAddress (alignAddress 0x10004)"
    "alignAddress 0x10006 = alignAddress 0x10004" "alignAddress 0x10000 \<noteq> alignAddress 0x10004"
    "drop_bit 2 (alignAddress 0x10000) = 0x4000"
    by (simp_all add: addr_eval)
  moreover have "cu_view 0 (subsystem0, \<lambda>w. w) (alignAddress 0x10000)
      = drop_bit 2 (alignAddress 0x10000)"
    using calculation(1) by (simp add: cu_view_def flat_view_def)
  ultimately show ?thesis
    using caches_transparent_for_one_unit [OF subsystem0_cu_inv, of 0
        "[Load 0x10000, Store 0x10004 7, Load 0x10006, Store 4 9, Load 4]" "\<lambda>w. w"]
    by simp
qed

theorem loads_flat_without_remote_stores_witness:
  "rp_data (fst (handleRequest (cu_req 1 0x10000 False 0)
     (snd (memory_pipeline [cu_req 0 0x20000 True 5] (subsystem0, \<lambda>w. w))))) = 0x4000"
proof -
  let ?reqs = "[cu_req 0 0x20000 True 5]"
  have m: "memory_pipeline ?reqs (subsystem0, \<lambda>w. w)
      = (fst (memory_pipeline ?reqs (subsystem0, \<lambda>w. w)), snd (memory_pipeline ?reqs (subsystem0, \<lambda>w. w)))"
    by simp
  have facts: "line_of 0x10000 \<noteq> line_of 0x20000" "\<not> isSharedMemoryAddress (alignAddress 0x10000)"
    "\<not> isSharedMemoryAddress (alignAddress 0x20000)" "drop_bit 2 (alignAddress 0x10000) = 0x4000"
    "drop_bit 2 (alignAddress 0x20000) = 0x8000"
    by (simp_all add: addr_eval)
  have "line_of (rq_address (cu_req 1 0x10000 False 0))
      \<notin> remote_lines (unat (rq_cu_id (cu_req 1 0x10000 False 0))) ?reqs"
    using facts(1) by (simp add: cu_req_def written_line_def)
  from loads_flat_without_remote_stores [OF subsystem0_inv m _ this] show ?thesis
    using facts by (simp add: cu_req_def flat_request_def flat_view_def)
qed

theorem memory_pipeline_answers_in_order_witness:
  "map rp_lane_id (fst (memory_pipeline [cu_req 0 0x20000 True 5, (cu_req 1 0 False 0)\<lparr> rq_lane_id := 3 \<rparr>]
     (subsystem0, \<lambda>w. w))) = [0, 3]"
proof -
  let ?reqs = "[cu_req 0 0x20000 True 5, (cu_req 1 0 False 0)\<lparr> rq_lane_id := 3 \<rparr>]"
  obtain resps s' where m: "memory_pipeline ?reqs (subsystem0, \<lambda>w. w) = (resps, s')"
    by (cases "memory_pipeline ?reqs (subsystem0, \<lambda>w. w)")
  have "map (\<lambda>r. (rp_cu_id r, rp_warp_id r, rp_lane_id r)) resps = [(0, 0, 0), (1, 0, 3)]"
    using memory_pipeline_answers_in_order [OF m] by (simp add: cu_req_def)
  then have "map (\<lambda>p. snd (snd p)) (map (\<lambda>r. (rp_cu_id r, rp_warp_id r, rp_lane_id r)) resps) = [0, 3]"
    by (simp only:) simp
  then have "map rp_lane_id resps = [0, 3]" by (simp add: o_def)
  then show ?thesis by (simp only: m fst_conv)
qed

lemma loadWord_hits:
  assumes "l1_ok gm L cu m"
  shows "lr_hit (lookup L1Cache a (ms_l1_caches (snd (loadWord a cu gm m)) cu))"
  using lookup_fillLine [OF good_L1, of "ms_l1_caches m cu" "lineBaseAddr a" a] assms
    lookup_hit(1) [of L1Cache "lineBaseAddr a" "ms_l1_caches m cu"] lookup_miss [of L1Cache a]
    holds_same_line [OF good_L1 line_of_base, of "ms_l1_caches m cu" _ a]
  by (auto simp: loadWord_def Let_def fillBothCaches_def l1_ok_def)

theorem remote_store_not_seen_witness:
  "fst (cu_load 1 0x10000 (cu_store 0 0x10000 99 (snd (cu_load 1 0x10000 (subsystem0, \<lambda>w. w))))) = 0x4000"
proof -
  let ?a = "alignAddress 0x10000"
  have ns: "\<not> isSharedMemoryAddress ?a" by (simp add: addr_eval)
  have "drop_bit 2 ?a = 0x4000" by (simp add: addr_eval)
  have ok: "l1_ok (\<lambda>w. w) {} 1 subsystem0" "l2_ok (\<lambda>w. w) subsystem0"
    using subsystem0_inv [of "\<lambda>w. w" "\<lambda>_. {}"] by (simp_all add: mem_inv_def)
  define m where "m = snd (loadWord ?a 1 (\<lambda>w. w) subsystem0)"
  have s: "snd (cu_load 1 0x10000 (subsystem0, \<lambda>w. w)) = (m, \<lambda>w. w)"
    using ns by (simp add: m_def cu_load_def handleRequest_def cu_req_def Let_def split_def)
  have hit: "lr_hit (lookup L1Cache ?a (ms_l1_caches m 1))"
    unfolding m_def by (rule loadWord_hits [OF ok(1)])
  have "l1_ok (\<lambda>w. w) {} 1 m" unfolding m_def by (rule loadWord_spec(1) [OF ok])
  then have "lr_data (lookup L1Cache ?a (ms_l1_caches m 1)) = 0x4000"
    using lookup_agrees [OF _ hit, of "\<lambda>w. w" "{}"] \<open>drop_bit 2 ?a = 0x4000\<close>
    by (simp add: l1_ok_def)
  then show ?thesis unfolding s
    using remote_store_not_seen [of 1 0 "0x10000" m "0x10000" 99 "\<lambda>w. w"] ns hit by simp
qed

end
