(* ===== verification/GMem.thy ===== *)
theory GMem
  imports MemPipeline
begin

text \<open>
  The memory of the golden model: \<open>models/systemc/src/memory/memory_hierarchy.cpp\<close>. Word-granular maps
  stand for L1, L2 and global memory; shared memory is a byte vector per thread block. Addresses are
  64 bits wide here (\<open>Address\<close> is \<open>uint64_t\<close>). A load that fails leaves its \<open>data\<close> argument as it was, so
  the caller's old value is an argument of the model. The bulk byte access used by the loaders is modelled
  with its read-modify-write loop.
\<close>

section \<open>State and helpers\<close>

datatype CacheStatus = L1_HIT | L2_HIT | MISS

record gmemory =
  gm_shared_size :: u32
  gm_shared_memory :: "u32 \<rightharpoonup> u8 list"
  gm_global_memory :: "u64 \<rightharpoonup> u32"
  gm_l1_cache :: "u64 \<rightharpoonup> u32"
  gm_l2_cache :: "u64 \<rightharpoonup> u32"
  gm_l1_hits :: u64
  gm_l1_misses :: u64
  gm_l2_hits :: u64
  gm_l2_misses :: u64

definition SHARED_MEM_BASE :: u64 where "SHARED_MEM_BASE = 0x00400000"

definition gAlignAddress :: "u64 \<Rightarrow> u64" where
  "gAlignAddress a = a AND NOT 3"

definition gIsSharedMemoryAddress :: "gmemory \<Rightarrow> u64 \<Rightarrow> bool" where
  "gIsSharedMemoryAddress m a \<longleftrightarrow> a \<ge> SHARED_MEM_BASE \<and> a < SHARED_MEM_BASE + ucast (gm_shared_size m)"

definition gCalculateLatency :: "CacheStatus \<Rightarrow> u32" where
  "gCalculateLatency st = (case st of L1_HIT \<Rightarrow> 1 | L2_HIT \<Rightarrow> 10 | MISS \<Rightarrow> 100)"

section \<open>Shared memory\<close>

definition gAllocateSharedMemory :: "u32 \<Rightarrow> u32 \<Rightarrow> gmemory \<Rightarrow> bool \<times> gmemory" where
  "gAllocateSharedMemory block size_bytes m =
     (if size_bytes > gm_shared_size m then (False, m)
      else (True, m\<lparr> gm_shared_memory := (gm_shared_memory m)(block \<mapsto> replicate (unat size_bytes) 0) \<rparr>))"

definition gReleaseSharedMemory :: "u32 \<Rightarrow> gmemory \<Rightarrow> gmemory" where
  "gReleaseSharedMemory block m = m\<lparr> gm_shared_memory := (gm_shared_memory m)(block := None) \<rparr>"

definition gHasSharedMemory :: "u32 \<Rightarrow> gmemory \<Rightarrow> bool" where
  "gHasSharedMemory block m \<longleftrightarrow> gm_shared_memory m block \<noteq> None"

definition join_word :: "u8 \<Rightarrow> u8 \<Rightarrow> u8 \<Rightarrow> u8 \<Rightarrow> u32" where
  "join_word b0 b1 b2 b3 = ucast b0 OR push_bit 8 (ucast b1) OR push_bit 16 (ucast b2) OR push_bit 24 (ucast b3)"

definition word_byte :: "nat \<Rightarrow> u32 \<Rightarrow> u8" where
  "word_byte i w = ucast (drop_bit (8 * i) w AND 0xFF)"

definition shared_offset :: "u32 \<Rightarrow> u64 \<Rightarrow> nat \<Rightarrow> gmemory \<Rightarrow> (nat \<times> u8 list) option" where
  "shared_offset block a n m =
     (if a < SHARED_MEM_BASE then None
      else case gm_shared_memory m block of None \<Rightarrow> None
        | Some bytes \<Rightarrow> let offset = unat (a - SHARED_MEM_BASE) in
            if offset + n > length bytes then None else Some (offset, bytes))"

definition gLoadSharedMemory :: "u32 \<Rightarrow> u64 \<Rightarrow> gmemory \<Rightarrow> u32 option" where
  "gLoadSharedMemory block a m = map_option (\<lambda>(off, bs).
     join_word (bs ! off) (bs ! (off + 1)) (bs ! (off + 2)) (bs ! (off + 3))) (shared_offset block a 4 m)"

definition gStoreSharedMemory :: "u32 \<Rightarrow> u64 \<Rightarrow> u32 \<Rightarrow> gmemory \<Rightarrow> bool \<times> gmemory" where
  "gStoreSharedMemory block a v m =
     (case shared_offset block a 4 m of None \<Rightarrow> (False, m)
      | Some (off, bs) \<Rightarrow> (True, m\<lparr> gm_shared_memory := (gm_shared_memory m)(block \<mapsto>
          bs[off := word_byte 0 v, off + 1 := word_byte 1 v, off + 2 := word_byte 2 v, off + 3 := word_byte 3 v]) \<rparr>))"

section \<open>Loads and stores\<close>

text \<open>The result is the returned flag, the \<open>data\<close> and the \<open>latency\<close> argument after the call.\<close>

definition gLoadWord :: "u64 \<Rightarrow> u32 \<Rightarrow> u32 \<Rightarrow> gmemory \<Rightarrow> (bool \<times> u32 \<times> u32) \<times> gmemory" where
  "gLoadWord addr data block m =
     (let a = gAlignAddress addr in
      if gIsSharedMemoryAddress m a then
        (case gLoadSharedMemory block a m of
           None \<Rightarrow> ((False, data, 1), m) | Some v \<Rightarrow> ((True, v, 1), m))
      else case gm_l1_cache m a of
        Some v \<Rightarrow> ((True, v, gCalculateLatency L1_HIT), m\<lparr> gm_l1_hits := gm_l1_hits m + 1 \<rparr>)
      | None \<Rightarrow>
          let m = m\<lparr> gm_l1_misses := gm_l1_misses m + 1 \<rparr> in
          (case gm_l2_cache m a of
             Some v \<Rightarrow> ((True, v, gCalculateLatency L2_HIT),
               m\<lparr> gm_l1_cache := (gm_l1_cache m)(a \<mapsto> v), gm_l2_hits := gm_l2_hits m + 1 \<rparr>)
           | None \<Rightarrow>
               let v = (case gm_global_memory m a of Some v \<Rightarrow> v | None \<Rightarrow> 0) in
               ((True, v, gCalculateLatency MISS),
                m\<lparr> gm_l2_misses := gm_l2_misses m + 1, gm_l2_cache := (gm_l2_cache m)(a \<mapsto> v),
                   gm_l1_cache := (gm_l1_cache m)(a \<mapsto> v) \<rparr>)))"

definition update_present :: "u64 \<Rightarrow> u32 \<Rightarrow> (u64 \<rightharpoonup> u32) \<Rightarrow> (u64 \<rightharpoonup> u32)" where
  "update_present a v c = (if c a = None then c else c(a \<mapsto> v))"

definition gStoreWord :: "u64 \<Rightarrow> u32 \<Rightarrow> u32 \<Rightarrow> gmemory \<Rightarrow> (bool \<times> u32) \<times> gmemory" where
  "gStoreWord addr data block m =
     (let a = gAlignAddress addr in
      if gIsSharedMemoryAddress m a then
        (let (ok, m) = gStoreSharedMemory block a data m in ((ok, 1), m))
      else
        ((True, gCalculateLatency MISS),
         m\<lparr> gm_l1_cache := update_present a data (gm_l1_cache m),
            gm_l2_cache := update_present a data (gm_l2_cache m),
            gm_global_memory := (gm_global_memory m)(a \<mapsto> data) \<rparr>))"

definition gCacheHit :: "u64 \<Rightarrow> gmemory \<Rightarrow> bool \<times> CacheStatus" where
  "gCacheHit addr m =
     (let a = gAlignAddress addr in
      if gm_l1_cache m a \<noteq> None then (True, L1_HIT)
      else if gm_l2_cache m a \<noteq> None then (True, L2_HIT) else (False, MISS))"

definition gInvalidateCache :: "gmemory \<Rightarrow> gmemory" where
  "gInvalidateCache m = m\<lparr> gm_l1_cache := Map.empty, gm_l2_cache := Map.empty \<rparr>"

section \<open>Bulk byte access\<close>

definition gStartsShared :: "u64 \<Rightarrow> gmemory \<Rightarrow> bool" where
  "gStartsShared addr m \<longleftrightarrow> gIsSharedMemoryAddress m addr"

text \<open>The offset of a byte range that starts in shared memory; \<open>None\<close> when it is refused.\<close>

definition shared_range :: "u32 \<Rightarrow> u64 \<Rightarrow> nat \<Rightarrow> gmemory \<Rightarrow> (nat \<times> u8 list) option" where
  "shared_range block addr len m =
     (if addr + of_nat len > SHARED_MEM_BASE + ucast (gm_shared_size m) then None
      else shared_offset block addr len m)"

definition byte_shift :: "u64 \<Rightarrow> nat" where
  "byte_shift a = unat (a AND 3) * 8"

definition gWriteByte :: "u64 \<Rightarrow> u8 \<Rightarrow> gmemory \<Rightarrow> gmemory" where
  "gWriteByte byte_addr b m =
     (let word_addr = byte_addr AND NOT 3; shift = byte_shift byte_addr;
          w = (case gm_global_memory m word_addr of Some w \<Rightarrow> w | None \<Rightarrow> 0)
      in m\<lparr> gm_global_memory := (gm_global_memory m)(word_addr \<mapsto>
               ((w AND NOT (push_bit shift 0xFF)) OR push_bit shift (ucast b))),
            gm_l1_cache := (gm_l1_cache m)(word_addr := None),
            gm_l2_cache := (gm_l2_cache m)(word_addr := None) \<rparr>)"

definition gReadByte :: "u64 \<Rightarrow> gmemory \<Rightarrow> u8" where
  "gReadByte byte_addr m =
     (case gm_global_memory m (byte_addr AND NOT 3) of
        Some w \<Rightarrow> ucast (drop_bit (byte_shift byte_addr) w AND 0xFF) | None \<Rightarrow> 0)"

definition gWriteBytes :: "u64 \<Rightarrow> u8 list \<Rightarrow> u32 \<Rightarrow> gmemory \<Rightarrow> gmemory" where
  "gWriteBytes addr data block m =
     (if gStartsShared addr m then
        (case shared_range block addr (length data) m of None \<Rightarrow> m
         | Some (off, bs) \<Rightarrow> m\<lparr> gm_shared_memory := (gm_shared_memory m)
             (block \<mapsto> take off bs @ data @ drop (off + length data) bs) \<rparr>)
      else fold (\<lambda>i. gWriteByte (addr + of_nat i) (data ! i)) [0..<length data] m)"

definition gReadBytes :: "u64 \<Rightarrow> nat \<Rightarrow> u32 \<Rightarrow> gmemory \<Rightarrow> u8 list" where
  "gReadBytes addr len block m =
     (if gStartsShared addr m then
        (case shared_range block addr len m of None \<Rightarrow> replicate len 0
         | Some (off, bs) \<Rightarrow> take len (drop off bs))
      else map (\<lambda>i. gReadByte (addr + of_nat i) m) [0..<len])"

section \<open>Coherence\<close>

definition global_word :: "gmemory \<Rightarrow> u64 \<Rightarrow> u32" where
  "global_word m a = (case gm_global_memory m a of Some v \<Rightarrow> v | None \<Rightarrow> 0)"

definition coherent :: "gmemory \<Rightarrow> bool" where
  "coherent m \<longleftrightarrow> (\<forall>a v. gm_l1_cache m a = Some v \<or> gm_l2_cache m a = Some v \<longrightarrow> v = global_word m a)"

lemma coherent_ops:
  assumes "coherent m"
  shows "coherent (snd (gLoadWord a d block m))" "coherent (snd (gStoreWord a v block m))"
    "coherent (gWriteByte b x m)" "coherent (gInvalidateCache m)"
  using assms
  by (auto simp: coherent_def global_word_def gLoadWord_def gStoreWord_def gStoreSharedMemory_def gWriteByte_def
      gInvalidateCache_def update_present_def Let_def split: option.splits prod.splits if_splits)

lemma coherentD:
  "coherent m \<Longrightarrow> gm_l1_cache m a = Some v \<Longrightarrow> v = global_word m a"
  "coherent m \<Longrightarrow> gm_l2_cache m a = Some v \<Longrightarrow> v = global_word m a"
  by (simp_all add: coherent_def)

lemma global_word_load [simp]: "global_word (snd (gLoadWord a d block m)) b = global_word m b"
  by (auto simp: global_word_def gLoadWord_def Let_def split: option.splits)

lemma load_global:
  assumes "coherent m" "\<not> gIsSharedMemoryAddress m (gAlignAddress a)"
  shows "fst (gLoadWord a d block m) = (True, global_word m (gAlignAddress a), snd (snd (fst (gLoadWord a d block m))))"
  using assms(2) coherentD [OF assms(1), of "gAlignAddress a"]
  by (auto simp: gLoadWord_def Let_def global_word_def split: option.splits)

lemma shared_ops [simp]:
  "gm_shared_memory (snd (gLoadWord a d block m)) = gm_shared_memory m"
  "gm_shared_size (snd (gLoadWord a d block m)) = gm_shared_size m"
  "gm_shared_size (snd (gStoreWord a v block m)) = gm_shared_size m"
  by (auto simp: gLoadWord_def gStoreWord_def gStoreSharedMemory_def Let_def split: option.splits prod.splits)

section \<open>Bytes and words\<close>

lemma word_byte_bit: "bit (word_byte i w) n \<longleftrightarrow> n < 8 \<and> bit w (8 * i + n)"
proof -
  have "x AND 0xFF = take_bit 8 x" for x :: u32 by (simp add: take_bit_eq_mask mask_eq_exp_minus_1)
  then show ?thesis by (auto simp: word_byte_def bit_simps)
qed

lemma join_word_bytes: "join_word (word_byte 0 w) (word_byte 1 w) (word_byte 2 w) (word_byte 3 w) = w"
proof (rule bit_word_eqI)
  fix n assume "n < LENGTH(32)"
  then consider "n < 8" | "8 \<le> n" "n < 16" | "16 \<le> n" "n < 24" | "24 \<le> n" "n < 32" by fastforce
  then show "bit (join_word (word_byte 0 w) (word_byte 1 w) (word_byte 2 w) (word_byte 3 w)) n = bit w n"
    by cases (auto simp: join_word_def bit_simps word_byte_bit)
qed

lemma shared_store_load:
  assumes "shared_offset block a 4 m = Some (off, bs)"
  shows "gLoadSharedMemory block a (snd (gStoreSharedMemory block a v m)) = Some v"
proof -
  have "off + 4 \<le> length bs" using assms by (auto simp: shared_offset_def Let_def split: if_splits option.splits)
  moreover from this have "shared_offset block a 4 (snd (gStoreSharedMemory block a v m)) = Some (off,
      bs[off := word_byte 0 v, off + 1 := word_byte 1 v, off + 2 := word_byte 2 v, off + 3 := word_byte 3 v])"
    using assms by (auto simp: gStoreSharedMemory_def shared_offset_def Let_def split: if_splits option.splits)
  ultimately show ?thesis
    using join_word_bytes [of v] by (simp add: gLoadSharedMemory_def)
qed

section \<open>The golden memory as a word memory\<close>

definition golden_load :: "u32 \<Rightarrow> addr_t \<Rightarrow> gmemory \<Rightarrow> u32 \<times> gmemory" where
  "golden_load block a m = (let ((ok, v, lat), m') = gLoadWord (ucast a) 0 block m in (v, m'))"

definition golden_store :: "u32 \<Rightarrow> addr_t \<Rightarrow> u32 \<Rightarrow> gmemory \<Rightarrow> gmemory" where
  "golden_store block a v m = snd (gStoreWord (ucast a) v block m)"

definition golden_view :: "u32 \<Rightarrow> gmemory \<Rightarrow> addr_t \<Rightarrow> u32" where
  "golden_view block m a =
     (if gIsSharedMemoryAddress m (ucast a) then
        (case gLoadSharedMemory block (ucast a) m of Some v \<Rightarrow> v | None \<Rightarrow> 0)
      else global_word m (ucast a))"

text \<open>An address has storage behind it when it lies outside the shared window, or when the memory allocated
  to the block covers its word.\<close>

definition golden_backed :: "u32 \<Rightarrow> gmemory \<Rightarrow> addr_t \<Rightarrow> bool" where
  "golden_backed block m a \<longleftrightarrow> \<not> gIsSharedMemoryAddress m (gAlignAddress (ucast a)) \<or>
     shared_offset block (gAlignAddress (ucast a)) 4 m \<noteq> None"

lemma bit_3_u64: "bit (3 :: u64) n \<longleftrightarrow> n < 2"
  using bit_mask_iff [of 2 n, where 'a = u64] by (auto simp: mask_eq_exp_minus_1)

lemma bit_gAlign: "bit (gAlignAddress x) n \<longleftrightarrow> 2 \<le> n \<and> bit x n"
proof -
  have "n < 64 \<Longrightarrow> bit (gAlignAddress x) n \<longleftrightarrow> 2 \<le> n \<and> bit x n"
    unfolding gAlignAddress_def
    by (simp only: bit_and_iff bit_not_iff_eq possible_bit_word bit_3_u64) auto
  then show ?thesis using bit_imp_le_length [of x n] bit_imp_le_length [of "gAlignAddress x" n] by auto
qed

lemma gAlign_ucast: "gAlignAddress (ucast (a :: addr_t)) = ucast (alignAddress a)"
  by (rule bit_word_eqI) (auto simp: bit_simps bit_gAlign bit_align)

lemma gAlign_idem [simp]: "gAlignAddress (gAlignAddress a) = gAlignAddress a"
  by (rule bit_word_eqI) (auto simp: bit_gAlign)

lemma unat_ucast_64 [simp]: "unat (ucast (x :: u32) :: u64) = unat x"
proof -
  have "unat x < 2 ^ LENGTH(32)" by (rule unsigned_less)
  then show ?thesis by (simp add: unsigned_ucast_eq take_bit_nat_eq_self)
qed

lemma align_mod4: "unat (gAlignAddress a) mod 4 = 0"
proof -
  have "take_bit 2 (gAlignAddress a) = 0"
    by (rule bit_word_eqI) (auto simp: bit_simps bit_gAlign)
  then have "take_bit 2 (unat (gAlignAddress a)) = 0" by (metis unsigned_take_bit_eq unsigned_0)
  then show ?thesis by (simp add: take_bit_eq_mod)
qed

lemma shared_offset_aligned:
  assumes "shared_offset block (gAlignAddress a) 4 m = Some (off, bs)"
  shows "gm_shared_memory m block = Some bs" "off mod 4 = 0" "off + 4 \<le> length bs"
    "off = unat (gAlignAddress a) - unat SHARED_MEM_BASE" "unat SHARED_MEM_BASE \<le> unat (gAlignAddress a)"
proof -
  have o: "off = unat (gAlignAddress a - SHARED_MEM_BASE)" "SHARED_MEM_BASE \<le> gAlignAddress a"
    and bs: "gm_shared_memory m block = Some bs" "off + 4 \<le> length bs"
    using assms by (auto simp: shared_offset_def Let_def split: if_splits option.splits)
  show le: "unat SHARED_MEM_BASE \<le> unat (gAlignAddress a)" using o(2) by (simp add: word_le_nat_alt)
  show off: "off = unat (gAlignAddress a) - unat SHARED_MEM_BASE" using o by (simp add: unat_sub)
  have "unat SHARED_MEM_BASE = 0x400000" by (simp add: SHARED_MEM_BASE_def)
  then show "off mod 4 = 0" using le off align_mod4 [of a] by presburger
  show "gm_shared_memory m block = Some bs" "off + 4 \<le> length bs" using bs .
qed

lemma shared_offset_store:
  assumes "shared_offset block a 4 m = Some (off, bs)"
  shows "shared_offset block b 4 (snd (gStoreSharedMemory block a v m)) =
    map_option (\<lambda>(k, _). (k, bs[off := word_byte 0 v, off + 1 := word_byte 1 v, off + 2 := word_byte 2 v,
       off + 3 := word_byte 3 v])) (shared_offset block b 4 m)"
  using assms by (auto simp: gStoreSharedMemory_def shared_offset_def Let_def split: if_splits option.splits)

text \<open>An aligned store changes no other aligned word of the block.\<close>

lemma shared_store_other:
  assumes "shared_offset block (gAlignAddress a) 4 m = Some (i, bs)" "gAlignAddress b \<noteq> gAlignAddress a"
  shows "gLoadSharedMemory block (gAlignAddress b) (snd (gStoreSharedMemory block (gAlignAddress a) v m))
    = gLoadSharedMemory block (gAlignAddress b) m"
proof (cases "shared_offset block (gAlignAddress b) 4 m")
  case None
  then show ?thesis using shared_offset_store [OF assms(1), of "gAlignAddress b" v]
    by (simp add: gLoadSharedMemory_def)
next
  case (Some jb)
  then obtain j bs' where j: "shared_offset block (gAlignAddress b) 4 m = Some (j, bs')" by (cases jb) simp
  note i = shared_offset_aligned [OF assms(1)] and k = shared_offset_aligned [OF j]
  have "unat (gAlignAddress b) \<noteq> unat (gAlignAddress a)" using assms(2) by (simp add: word_unat_eq_iff)
  then have "i \<noteq> j" using i(4,5) k(4,5) by simp
  then have far: "i + 4 \<le> j \<or> j + 4 \<le> i" using i(2) k(2) by presburger
  have "gLoadSharedMemory block (gAlignAddress b) (snd (gStoreSharedMemory block (gAlignAddress a) v m))
      = Some (join_word (bs ! j) (bs ! (j + 1)) (bs ! (j + 2)) (bs ! (j + 3)))"
    using far j shared_offset_store [OF assms(1), of "gAlignAddress b" v]
    by (auto simp: gLoadSharedMemory_def)
  then show ?thesis using j k(1) i(1) by (simp add: gLoadSharedMemory_def)
qed

lemma golden_view_aligned:
  "golden_view block m (alignAddress a) =
     (if gIsSharedMemoryAddress m (gAlignAddress (ucast a)) then
        (case gLoadSharedMemory block (gAlignAddress (ucast a)) m of Some v \<Rightarrow> v | None \<Rightarrow> 0)
      else global_word m (gAlignAddress (ucast a)))"
  by (simp add: golden_view_def gAlign_ucast)

lemma is_shared_ops [simp]:
  "gIsSharedMemoryAddress (snd (gLoadWord a d block m)) x = gIsSharedMemoryAddress m x"
  "gIsSharedMemoryAddress (snd (gStoreWord a v block m)) x = gIsSharedMemoryAddress m x"
  by (simp_all add: gIsSharedMemoryAddress_def)

lemma store_shared_frame [simp]:
  "gIsSharedMemoryAddress (snd (gStoreSharedMemory block a v m)) x = gIsSharedMemoryAddress m x"
  "global_word (snd (gStoreSharedMemory block a v m)) y = global_word m y"
  by (simp_all add: gIsSharedMemoryAddress_def global_word_def gStoreSharedMemory_def split: option.splits prod.splits)

lemma load_shared_ops:
  "gLoadSharedMemory block b (snd (gLoadWord a d block m)) = gLoadSharedMemory block b m"
  "\<not> gIsSharedMemoryAddress m (gAlignAddress a) \<Longrightarrow>
   gLoadSharedMemory block b (snd (gStoreWord a v block m)) = gLoadSharedMemory block b m"
  by (simp_all add: gLoadSharedMemory_def shared_offset_def gStoreWord_def Let_def)

lemma global_store:
  "global_word (snd (gStoreWord a v block m)) b =
     (if \<not> gIsSharedMemoryAddress m (gAlignAddress a) \<and> b = gAlignAddress a then v else global_word m b)"
  by (auto simp: global_word_def gStoreWord_def gStoreSharedMemory_def Let_def split: prod.splits option.splits)

lemma offset_none_ops [simp]:
  "shared_offset block b n (snd (gLoadWord a d blk m)) = shared_offset block b n m"
  "(shared_offset block b 4 (snd (gStoreWord a v block m)) = None) = (shared_offset block b 4 m = None)"
  by (auto simp: shared_offset_def gStoreWord_def gStoreSharedMemory_def Let_def split: option.splits prod.splits if_splits)

interpretation golden_memory:
  word_memory "golden_load block" "golden_store block" "golden_view block" coherent "golden_backed block"
  for block
proof
  fix m :: gmemory and a b :: addr_t and v :: u32
  assume coh: "coherent m"
  let ?a = "gAlignAddress (ucast a)" and ?b = "gAlignAddress (ucast b)"
  have same: "?b = ?a \<longleftrightarrow> alignAddress b = alignAddress a"
    unfolding gAlign_ucast by (metis unat_ucast_64 word_unat_eq_iff)
  note defs = golden_load_def golden_store_def golden_view_aligned split_def Let_def
  show "golden_view block (snd (golden_load block a m)) (alignAddress b) = golden_view block m (alignAddress b)"
    by (simp add: defs load_shared_ops)
  show "coherent (snd (golden_load block a m))" "coherent (golden_store block a v m)"
    using coherent_ops [OF coh] by (simp_all add: defs)
  show "golden_backed block (snd (golden_load block a m)) b = golden_backed block m b"
    "golden_backed block (golden_store block a v m) b = golden_backed block m b"
    by (simp_all add: golden_backed_def defs)
next
  fix m :: gmemory and a b :: addr_t and v :: u32
  assume coh: "coherent m" and backed: "golden_backed block m a"
  let ?a = "gAlignAddress (ucast a)" and ?b = "gAlignAddress (ucast b)"
  have same: "?b = ?a \<longleftrightarrow> alignAddress b = alignAddress a"
    unfolding gAlign_ucast by (metis unat_ucast_64 word_unat_eq_iff)
  note defs = golden_load_def golden_store_def golden_view_aligned split_def Let_def
  show "fst (golden_load block a m) = golden_view block m (alignAddress a)"
  proof (cases "gIsSharedMemoryAddress m ?a")
    case True
    then obtain bs off where "shared_offset block ?a 4 m = Some (off, bs)"
      using backed by (auto simp: golden_backed_def)
    with True show ?thesis by (simp add: defs gLoadWord_def gLoadSharedMemory_def Let_def)
  next
    case False
    then show ?thesis using load_global [OF coh False, of 0 block]
      by (cases "gLoadWord (ucast a) 0 block m") (auto simp: defs Let_def)
  qed
  show "golden_view block (golden_store block a v m) (alignAddress b)
      = (if alignAddress b = alignAddress a then v else golden_view block m (alignAddress b))"
  proof (cases "gIsSharedMemoryAddress m ?a")
    case False
    then show ?thesis using same by (auto simp: defs load_shared_ops global_store)
  next
    case True
    then obtain bs off where off: "shared_offset block ?a 4 m = Some (off, bs)"
      using backed by (auto simp: golden_backed_def)
    have st: "snd (gStoreWord (ucast a) v block m) = snd (gStoreSharedMemory block ?a v m)"
      using True by (simp add: gStoreWord_def Let_def split_def)
    show ?thesis
    proof (cases "?b = ?a")
      case True
      then show ?thesis
        using same shared_store_load [OF off, of v] \<open>gIsSharedMemoryAddress m ?a\<close>
        by (simp add: defs st [symmetric])
    next
      case False
      then show ?thesis
        using same shared_store_other [OF off False, of v] True
        by (auto simp: defs global_store st)
    qed
  qed
qed

text \<open>Where nothing is allocated the window has no storage: a store is dropped and a load of a fresh variable gives 0.\<close>

lemma unallocated_shared_dropped:
  assumes "gm_shared_memory m block = None" "gIsSharedMemoryAddress m (gAlignAddress (ucast a))"
  shows "golden_store block a v m = m" "golden_load block a m = (0, m)"
  using assms
  by (simp_all add: golden_store_def golden_load_def gStoreWord_def gLoadWord_def gStoreSharedMemory_def
      gLoadSharedMemory_def shared_offset_def Let_def)

text \<open>A block that was allocated the whole window backs every address.\<close>

lemma full_window_backed:
  assumes "gm_shared_memory m block = Some bs" "length bs = unat (gm_shared_size m)" "unat (gm_shared_size m) mod 4 = 0"
  shows "golden_backed block m a"
proof -
  let ?a = "gAlignAddress (ucast a)"
  have "shared_offset block ?a 4 m \<noteq> None" if sh: "gIsSharedMemoryAddress m ?a"
  proof -
    have le: "SHARED_MEM_BASE \<le> ?a" and lt: "?a < SHARED_MEM_BASE + ucast (gm_shared_size m)"
      using sh by (auto simp: gIsSharedMemoryAddress_def)
    have base: "unat SHARED_MEM_BASE = 0x400000" by (simp add: SHARED_MEM_BASE_def)
    have "unat (gm_shared_size m) < 2 ^ 32" using unsigned_less [of "gm_shared_size m"] by simp
    then have "unat (SHARED_MEM_BASE + ucast (gm_shared_size m)) = unat SHARED_MEM_BASE + unat (gm_shared_size m)"
      by (simp add: unat_word_ariths base)
    then have bound: "unat ?a < unat SHARED_MEM_BASE + unat (gm_shared_size m)"
      using lt by (simp add: word_less_nat_alt)
    have ge: "unat SHARED_MEM_BASE \<le> unat ?a" using le by (simp add: word_le_nat_alt)
    have off: "unat (?a - SHARED_MEM_BASE) = unat ?a - unat SHARED_MEM_BASE" using le by (simp add: unat_sub)
    have "(unat ?a - unat SHARED_MEM_BASE) mod 4 = 0" using ge align_mod4 [of "ucast a"] base by presburger
    then have "unat (?a - SHARED_MEM_BASE) + 4 \<le> length bs" using bound assms(2,3) ge off by presburger
    then show ?thesis using le assms(1) by (simp add: shared_offset_def Let_def not_less)
  qed
  then show ?thesis by (auto simp: golden_backed_def)
qed

section \<open>Byte access\<close>

lemma byte_shift_cases: "byte_shift a \<in> {0, 8, 16, 24}"
proof -
  have "a AND 3 = take_bit 2 a" by (simp add: take_bit_eq_mask mask_eq_exp_minus_1)
  then have "unat (a AND 3) < 4" using unat_take_bit_less [of 2 a] by simp
  then have "unat (a AND 3) \<in> {0, 1, 2, 3}" by auto
  then show ?thesis by (auto simp: byte_shift_def)
qed

lemma byte_address: "byte_shift a = byte_shift b \<Longrightarrow> a AND NOT 3 = b AND NOT 3 \<Longrightarrow> a = b"
proof -
  assume "byte_shift a = byte_shift b" and w: "a AND NOT 3 = b AND NOT 3"
  then have "a AND 3 = b AND 3" by (simp add: byte_shift_def word_unat_eq_iff)
  then have "(a AND NOT 3) OR (a AND 3) = (b AND NOT 3) OR (b AND 3)" using w by simp
  moreover have "(x AND NOT 3) OR (x AND 3) = x" for x :: u64
    by (rule bit_word_eqI) (auto simp: bit_simps bit_3_u64)
  ultimately show ?thesis by simp
qed

lemma bit_gReadByte:
  "bit (gReadByte b m) n \<longleftrightarrow> n < 8 \<and> bit (global_word m (b AND NOT 3)) (byte_shift b + n)"
proof -
  have "x AND 0xFF = take_bit 8 x" for x :: u32 by (simp add: take_bit_eq_mask mask_eq_exp_minus_1)
  then show ?thesis by (auto simp: gReadByte_def global_word_def bit_simps split: option.splits)
qed

lemma bit_insert_byte:
  fixes w :: u32 and x :: u8
  shows "bit ((w AND NOT (push_bit s 0xFF)) OR push_bit s (ucast x)) k \<longleftrightarrow>
    k < 32 \<and> (if s \<le> k \<and> k < s + 8 then bit x (k - s) else bit w k)"
proof -
  have eq: "(0xFF :: u32) = mask 8" by (simp add: mask_eq_exp_minus_1)
  have ff: "bit (0xFF :: u32) n \<longleftrightarrow> n < 8" for n
    unfolding eq bit_mask_iff by auto
  show ?thesis
    unfolding bit_or_iff bit_and_iff bit_not_iff_eq bit_push_bit_iff bit_ucast_iff ff
    using bit_imp_le_length [of x "k - s"] bit_imp_le_length [of w k] by auto
qed

lemma global_word_write_byte:
  "global_word (gWriteByte a x m) y =
     (if y = a AND NOT 3 then (global_word m y AND NOT (push_bit (byte_shift a) 0xFF)) OR push_bit (byte_shift a) (ucast x)
      else global_word m y)"
  by (simp add: gWriteByte_def global_word_def Let_def)

lemma read_write_byte: "gReadByte b (gWriteByte a x m) = (if a = b then x else gReadByte b m)"
proof (rule bit_word_eqI)
  fix n assume n: "n < LENGTH(8)"
  have b24: "byte_shift b + n < 32" using byte_shift_cases [of b] n by auto
  show "bit (gReadByte b (gWriteByte a x m)) n = bit (if a = b then x else gReadByte b m) n"
  proof (cases "b AND NOT 3 = a AND NOT 3")
    case False
    then show ?thesis by (auto simp: bit_gReadByte global_word_write_byte)
  next
    case True
    show ?thesis
    proof (cases "a = b")
      case True
      then show ?thesis using n b24
        by (simp add: bit_gReadByte global_word_write_byte bit_insert_byte)
    next
      case False
      then have "byte_shift a \<noteq> byte_shift b" using byte_address True by metis
      then have "byte_shift b + n < byte_shift a \<or> byte_shift a + 8 \<le> byte_shift b + n"
        using byte_shift_cases [of a] byte_shift_cases [of b] n by auto
      then show ?thesis using False True n b24
        by (auto simp: bit_gReadByte global_word_write_byte bit_insert_byte)
    qed
  qed
qed

lemma read_write_loop:
  assumes "n \<le> length data" "length data < 2 ^ 64" "k < length data"
  shows "gReadByte (addr + of_nat k) (fold (\<lambda>i. gWriteByte (addr + of_nat i) (data ! i)) [0..<n] m)
    = (if k < n then data ! k else gReadByte (addr + of_nat k) m)"
  using assms(1)
proof (induction n)
  case 0
  then show ?case by simp
next
  case (Suc n)
  have "(of_nat n :: u64) = of_nat k \<longleftrightarrow> n = k"
    using assms(2,3) Suc.prems by (simp add: word_unat_eq_iff unat_of_nat)
  then show ?case using Suc by (auto simp: read_write_byte less_Suc_eq)
qed

lemma write_loop_shared:
  "gStartsShared a (fold (\<lambda>i. gWriteByte (addr + of_nat i) (data ! i)) is m) = gStartsShared a m"
  by (induction "is" arbitrary: m) (simp_all add: gStartsShared_def gIsSharedMemoryAddress_def gWriteByte_def Let_def)

lemma write_loop_coherent:
  "coherent m \<Longrightarrow> coherent (fold (\<lambda>i. gWriteByte (addr + of_nat i) (data ! i)) is m)"
  by (induction "is" arbitrary: m) (simp_all add: coherent_ops)

section \<open>Properties\<close>

text \<open>C20: the synthesizable memory pipeline and the golden memory hierarchy are observationally equal on the
  words the golden model has storage for: when the golden caches are coherent and both memories hold the same
  word at every backed address, any sequence of loads and stores of one unit whose addresses are backed reads
  the same values from both, whatever lines the caches of either side hold. An address is backed when it lies
  outside the golden shared window or when the memory allocated to the block covers its word. Every address
  outside the window is backed without any allocation; inside it, an access the allocation does not cover is
  excluded, because there the golden model drops the store and loads nothing.\<close>

theorem memory_parity:
  assumes "cu_inv c s" "coherent m" "\<forall>x \<in> set ops. golden_backed block m (op_addr x)"
    and "\<And>a. golden_backed block m a \<Longrightarrow> cu_view c s (alignAddress a) = golden_view block m (alignAddress a)"
  shows "fst (run_ops (cu_load c) (cu_store c) ops s) = fst (run_ops (golden_load block) (golden_store block) ops m)"
  using hls_memory.run_values [OF assms(1), of ops]
    golden_memory.run_refines_flat [OF assms(2,3,4)] by simp

text \<open>Bytes written in bulk are read back unchanged, for every byte range outside shared memory, and the
  write leaves no stale word in either cache.\<close>

theorem bytes_round_trip:
  assumes "\<not> gStartsShared addr m" "length data < 2 ^ 64" "coherent m"
  shows "gReadBytes addr (length data) block (gWriteBytes addr data block m) = data \<and>
    coherent (gWriteBytes addr data block m)"
proof
  let ?m = "fold (\<lambda>i. gWriteByte (addr + of_nat i) (data ! i)) [0..<length data] m"
  have w: "gWriteBytes addr data block m = ?m" using assms(1) by (simp add: gWriteBytes_def)
  have "gReadBytes addr (length data) block ?m = map (\<lambda>i. gReadByte (addr + of_nat i) ?m) [0..<length data]"
    using assms(1) by (simp add: gReadBytes_def write_loop_shared)
  also have "\<dots> = map (\<lambda>i. data ! i) [0..<length data]"
    using read_write_loop [OF order_refl assms(2)] by (intro map_cong) simp_all
  finally show "gReadBytes addr (length data) block (gWriteBytes addr data block m) = data"
    by (simp add: w map_nth)
  show "coherent (gWriteBytes addr data block m)" using assms(3) by (simp add: w write_loop_coherent)
qed

section \<open>Witnesses\<close>

definition gmemory0 :: gmemory where
  "gmemory0 = \<lparr> gm_shared_size = 0x4000, gm_shared_memory = [0 \<mapsto> replicate 0x4000 0],
     gm_global_memory = Map.empty, gm_l1_cache = Map.empty, gm_l2_cache = Map.empty,
     gm_l1_hits = 0, gm_l1_misses = 0, gm_l2_hits = 0, gm_l2_misses = 0 \<rparr>"

lemma gmemory0_inv: "golden_backed 0 gmemory0 a" "coherent gmemory0"
proof -
  show "golden_backed 0 gmemory0 a"
    by (rule full_window_backed [of _ _ "replicate 0x4000 0"]) (simp_all add: gmemory0_def)
qed (simp add: coherent_def gmemory0_def)

lemma gmemory0_view: "golden_view 0 gmemory0 a = 0"
proof -
  have ls: "gLoadSharedMemory 0 x gmemory0 \<in> {None, Some 0}" for x
    by (auto simp: gLoadSharedMemory_def shared_offset_def gmemory0_def Let_def join_word_def split: if_splits)
  have "global_word gmemory0 x = 0" for x by (simp add: global_word_def gmemory0_def)
  then show ?thesis using ls [of "ucast a"] by (auto simp: golden_view_def)
qed

theorem memory_parity_witness:
  "fst (run_ops (golden_load 0) (golden_store 0) [Load 0x10000, Store 0x10004 7, Load 0x10006] gmemory0) = [0, 7]"
proof -
  have "cu_inv 0 (subsystem0, \<lambda>_. 0)"
    using subsystem0_inv [of "\<lambda>_. 0" "\<lambda>_. {}"] by (simp add: cu_inv_def mem_inv_def)
  moreover have v: "cu_view 0 (subsystem0, \<lambda>_. 0) a = 0" for a
    by (simp add: cu_view_def flat_view_def subsystem0_def mem_reset_def)
  ultimately have "fst (run_ops (golden_load 0) (golden_store 0) [Load 0x10000, Store 0x10004 7, Load 0x10006] gmemory0)
      = fst (run_ops (cu_load 0) (cu_store 0) [Load 0x10000, Store 0x10004 7, Load 0x10006] (subsystem0, \<lambda>_. 0))"
    by (intro memory_parity [symmetric] gmemory0_inv(2) ballI gmemory0_inv(1)) (simp_all add: gmemory0_view)
  also have "\<dots> = fst (flat_run [Load 0x10000, Store 0x10004 7, Load 0x10006] (cu_view 0 (subsystem0, \<lambda>_. 0)))"
    using \<open>cu_inv 0 (subsystem0, \<lambda>_. 0)\<close> by (intro hls_memory.run_values) simp_all
  also have "\<dots> = [0, 7]"
  proof -
    have "alignAddress 0x10006 = alignAddress 0x10004" by (simp add: addr_eval)
    then show ?thesis by (simp add: v)
  qed
  finally show ?thesis .
qed

theorem bytes_round_trip_witness:
  "gReadBytes 0x1002 5 0 (gWriteBytes 0x1002 [1, 2, 3, 4, 5] 0 gmemory0) = [1, 2, 3, 4, 5]"
proof -
  have l: "length [1, 2, 3, 4, 5 :: u8] = 5" by simp
  have "\<not> gStartsShared 0x1002 gmemory0"
    by (simp add: gStartsShared_def gIsSharedMemoryAddress_def SHARED_MEM_BASE_def word_le_nat_alt)
  from bytes_round_trip [OF this _ gmemory0_inv(2), of "[1, 2, 3, 4, 5]" 0, unfolded l]
  show ?thesis by simp
qed

end
