(* ===== verification/RV32Exec.thy ===== *)
theory RV32Exec
  imports RV32 GMem "HOL-Library.Signed_Division"
begin

text \<open>
  The binary mode of the golden compute unit: \<open>executeRV32\<close>, \<open>ComputeUnit::step\<close> and the binary
  execution API of \<open>models/systemc/src/compute_unit/compute_unit.cpp\<close>. Floating-point registers hold
  their bit patterns and the host's float operations are the parameter \<open>rv_fpu\<close>. The host's 32-bit
  signed division traps on \<open>INT_MIN / -1\<close> (and \<open>%\<close>): the result is \<open>None\<close> there. Other signed
  overflow is wrap-around.
\<close>

section \<open>Execution of one instruction\<close>

record rv_fpu =
  rf_add :: "u32 \<Rightarrow> u32 \<Rightarrow> u32"
  rf_sub :: "u32 \<Rightarrow> u32 \<Rightarrow> u32"
  rf_mul :: "u32 \<Rightarrow> u32 \<Rightarrow> u32"
  rf_div :: "u32 \<Rightarrow> u32 \<Rightarrow> u32"
  rf_sqrt :: "u32 \<Rightarrow> u32"
  rf_neg :: "u32 \<Rightarrow> u32"
  rf_eq :: "u32 \<Rightarrow> u32 \<Rightarrow> bool"
  rf_lt :: "u32 \<Rightarrow> u32 \<Rightarrow> bool"
  rf_le :: "u32 \<Rightarrow> u32 \<Rightarrow> bool"
  rf_to_w :: "u32 \<Rightarrow> u32"
  rf_to_wu :: "u32 \<Rightarrow> u32"
  rf_of_w :: "u32 \<Rightarrow> u32"
  rf_of_wu :: "u32 \<Rightarrow> u32"

definition div_traps :: "u32 \<Rightarrow> u32 \<Rightarrow> bool" where
  "div_traps a b \<longleftrightarrow> a = 0x80000000 \<and> b = - 1"

definition rv_shamt :: "u32 \<Rightarrow> nat" where
  "rv_shamt b = unat (b AND 0x1F)"

text \<open>R-type operations on the source values; \<open>None\<close> is the host trap.\<close>

definition rv_alu_r :: "RVOp \<Rightarrow> u32 \<Rightarrow> u32 \<Rightarrow> u32 option" where
  "rv_alu_r opc a b = (case opc of
       RV_ADD \<Rightarrow> Some (a + b)
     | RV_SUB \<Rightarrow> Some (a - b)
     | RV_AND \<Rightarrow> Some (a AND b)
     | RV_OR \<Rightarrow> Some (a OR b)
     | RV_XOR \<Rightarrow> Some (a XOR b)
     | RV_SLL \<Rightarrow> Some (push_bit (rv_shamt b) a)
     | RV_SRL \<Rightarrow> Some (drop_bit (rv_shamt b) a)
     | RV_SRA \<Rightarrow> Some (signed_drop_bit (rv_shamt b) a)
     | RV_SLT \<Rightarrow> Some (if sint a < sint b then 1 else 0)
     | RV_SLTU \<Rightarrow> Some (if a < b then 1 else 0)
     | RV_MUL \<Rightarrow> Some (ucast (scast a * scast b :: u64))
     | RV_MULH \<Rightarrow> Some (ucast (drop_bit 32 (scast a * scast b :: u64)))
     | RV_MULHSU \<Rightarrow> Some (ucast (drop_bit 32 (scast a * ucast b :: u64)))
     | RV_MULHU \<Rightarrow> Some (ucast (drop_bit 32 (ucast a * ucast b :: u64)))
     | RV_DIV \<Rightarrow> if b = 0 then Some 0xFFFFFFFF else if div_traps a b then None
                 else Some (word_of_int (sint a sdiv sint b))
     | RV_DIVU \<Rightarrow> Some (if b = 0 then 0xFFFFFFFF else a div b)
     | RV_REM \<Rightarrow> if b = 0 then Some a else if div_traps a b then None
                 else Some (word_of_int (sint a smod sint b))
     | RV_REMU \<Rightarrow> Some (if b = 0 then a else a mod b)
     | _ \<Rightarrow> Some 0)"

definition rv_alu_i :: "RVOp \<Rightarrow> u32 \<Rightarrow> u32 \<Rightarrow> u32 \<Rightarrow> u32" where
  "rv_alu_i opc a im cur_pc = (case opc of
       RV_ADDI \<Rightarrow> a + im
     | RV_SLTI \<Rightarrow> if sint a < sint im then 1 else 0
     | RV_SLTIU \<Rightarrow> if a < im then 1 else 0
     | RV_XORI \<Rightarrow> a XOR im
     | RV_ORI \<Rightarrow> a OR im
     | RV_ANDI \<Rightarrow> a AND im
     | RV_SLLI \<Rightarrow> push_bit (rv_shamt im) a
     | RV_SRLI \<Rightarrow> drop_bit (rv_shamt im) a
     | RV_SRAI \<Rightarrow> signed_drop_bit (rv_shamt im) a
     | RV_LUI \<Rightarrow> im
     | RV_AUIPC \<Rightarrow> cur_pc + im
     | _ \<Rightarrow> 0)"

text \<open>\<open>static_cast<Address>(static_cast<int32_t>(r[rs1]) + imm)\<close>: the 32-bit sum, sign-extended.\<close>

definition rv_addr :: "u32 \<Rightarrow> u32 \<Rightarrow> u64" where
  "rv_addr a im = scast (a + im)"

definition rv_load :: "RVOp \<Rightarrow> u64 \<Rightarrow> u32 \<Rightarrow> gmemory \<Rightarrow> u32 \<times> gmemory" where
  "rv_load opc addr block m =
     (let b = gReadBytes addr 1 block m; h = gReadBytes addr 2 block m in
      case opc of
        RV_LW \<Rightarrow> (let ((ok, v, lat), m') = gLoadWord addr 0 block m in (v, m'))
      | RV_LB \<Rightarrow> (scast (b ! 0), m)
      | RV_LBU \<Rightarrow> (ucast (b ! 0), m)
      | RV_LH \<Rightarrow> (scast ((ucast (h ! 0) OR push_bit 8 (ucast (h ! 1))) :: u16), m)
      | RV_LHU \<Rightarrow> (ucast (h ! 0) OR push_bit 8 (ucast (h ! 1)), m)
      | _ \<Rightarrow> (0, m))"

definition rv_store :: "RVOp \<Rightarrow> u64 \<Rightarrow> u32 \<Rightarrow> u32 \<Rightarrow> gmemory \<Rightarrow> gmemory" where
  "rv_store opc addr v block m = (case opc of
       RV_SW \<Rightarrow> snd (gStoreWord addr v block m)
     | RV_SB \<Rightarrow> gWriteBytes addr [ucast v] block m
     | RV_SH \<Rightarrow> gWriteBytes addr [ucast v, ucast (drop_bit 8 v)] block m
     | _ \<Rightarrow> m)"

definition rv_branch_taken :: "RVOp \<Rightarrow> u32 \<Rightarrow> u32 \<Rightarrow> bool" where
  "rv_branch_taken opc a b = (case opc of
       RV_BEQ \<Rightarrow> a = b
     | RV_BNE \<Rightarrow> a \<noteq> b
     | RV_BLT \<Rightarrow> sint a < sint b
     | RV_BGE \<Rightarrow> sint a \<ge> sint b
     | RV_BLTU \<Rightarrow> a < b
     | RV_BGEU \<Rightarrow> a \<ge> b
     | _ \<Rightarrow> False)"

text \<open>Results for a floating-point destination.\<close>

definition rv_fp_f :: "rv_fpu \<Rightarrow> RVOp \<Rightarrow> u32 \<Rightarrow> u32 \<Rightarrow> u32 \<Rightarrow> u32 \<Rightarrow> u32" where
  "rv_fp_f fp opc a b c x = (case opc of
       RV_FADD_S \<Rightarrow> rf_add fp a b
     | RV_FSUB_S \<Rightarrow> rf_sub fp a b
     | RV_FMUL_S \<Rightarrow> rf_mul fp a b
     | RV_FDIV_S \<Rightarrow> rf_div fp a b
     | RV_FSQRT_S \<Rightarrow> rf_sqrt fp a
     | RV_FMADD_S \<Rightarrow> rf_add fp (rf_mul fp a b) c
     | RV_FMSUB_S \<Rightarrow> rf_sub fp (rf_mul fp a b) c
     | RV_FNMSUB_S \<Rightarrow> rf_add fp (rf_mul fp (rf_neg fp a) b) c
     | RV_FNMADD_S \<Rightarrow> rf_sub fp (rf_mul fp (rf_neg fp a) b) c
     | RV_FCVT_S_W \<Rightarrow> rf_of_w fp x
     | RV_FCVT_S_WU \<Rightarrow> rf_of_wu fp x
     | RV_FMV_W_X \<Rightarrow> x
     | _ \<Rightarrow> 0)"

text \<open>Results of floating-point operations with an integer destination.\<close>

definition rv_fp_x :: "rv_fpu \<Rightarrow> RVOp \<Rightarrow> u32 \<Rightarrow> u32 \<Rightarrow> u32" where
  "rv_fp_x fp opc a b = (case opc of
       RV_FEQ_S \<Rightarrow> if rf_eq fp a b then 1 else 0
     | RV_FLT_S \<Rightarrow> if rf_lt fp a b then 1 else 0
     | RV_FLE_S \<Rightarrow> if rf_le fp a b then 1 else 0
     | RV_FCVT_W_S \<Rightarrow> rf_to_w fp a
     | RV_FCVT_WU_S \<Rightarrow> rf_to_wu fp a
     | RV_FMV_X_W \<Rightarrow> a
     | _ \<Rightarrow> 0)"

record rv_state =
  rs_next_pc :: u32
  rs_r :: "u32 list"
  rs_fr :: "u32 list"
  rs_mem :: gmemory

definition is_alu_r :: "RVOp \<Rightarrow> bool" where
  "is_alu_r opc \<longleftrightarrow> opc \<in> {RV_ADD, RV_SUB, RV_SLL, RV_SLT, RV_SLTU, RV_XOR, RV_SRL, RV_SRA, RV_OR, RV_AND,
     RV_MUL, RV_MULH, RV_MULHSU, RV_MULHU, RV_DIV, RV_DIVU, RV_REM, RV_REMU}"
definition is_alu_i :: "RVOp \<Rightarrow> bool" where
  "is_alu_i opc \<longleftrightarrow> opc \<in> {RV_ADDI, RV_SLTI, RV_SLTIU, RV_XORI, RV_ORI, RV_ANDI, RV_SLLI, RV_SRLI, RV_SRAI,
     RV_LUI, RV_AUIPC}"
definition is_load :: "RVOp \<Rightarrow> bool" where
  "is_load opc \<longleftrightarrow> opc \<in> {RV_LB, RV_LH, RV_LW, RV_LBU, RV_LHU}"
definition is_store :: "RVOp \<Rightarrow> bool" where
  "is_store opc \<longleftrightarrow> opc \<in> {RV_SB, RV_SH, RV_SW}"
definition is_branch :: "RVOp \<Rightarrow> bool" where
  "is_branch opc \<longleftrightarrow> opc \<in> {RV_BEQ, RV_BNE, RV_BLT, RV_BGE, RV_BLTU, RV_BGEU}"
definition is_fp_f :: "RVOp \<Rightarrow> bool" where
  "is_fp_f opc \<longleftrightarrow> opc \<in> {RV_FADD_S, RV_FSUB_S, RV_FMUL_S, RV_FDIV_S, RV_FSQRT_S, RV_FMADD_S, RV_FMSUB_S,
     RV_FNMADD_S, RV_FNMSUB_S, RV_FCVT_S_W, RV_FCVT_S_WU, RV_FMV_W_X}"
definition is_fp_x :: "RVOp \<Rightarrow> bool" where
  "is_fp_x opc \<longleftrightarrow> opc \<in> {RV_FEQ_S, RV_FLT_S, RV_FLE_S, RV_FCVT_W_S, RV_FCVT_WU_S, RV_FMV_X_W}"

lemmas op_groups = is_alu_r_def is_alu_i_def is_load_def is_store_def is_branch_def is_fp_f_def is_fp_x_def

text \<open>The switch of \<open>executeRV32\<close>, after \<open>r[0] = 0\<close> and before the final \<open>r[0] = 0\<close>.\<close>

definition rv_switch :: "rv_fpu \<Rightarrow> RV32Instr \<Rightarrow> u32 \<Rightarrow> u32 \<Rightarrow> u32 \<Rightarrow> rv_state \<Rightarrow> (bool \<times> rv_state) option" where
  "rv_switch fp instr cur_pc sentinel block s =
     (let opc = rv_op instr; r = rs_r s; fr = rs_fr s; rd = unat (rv_rd instr);
          a = r ! unat (rv_rs1 instr); b = r ! unat (rv_rs2 instr);
          fa = fr ! unat (rv_rs1 instr); fb = fr ! unat (rv_rs2 instr); fc = fr ! unat (rv_rs3 instr);
          im = rv_imm instr; addr = rv_addr a im
      in
      if is_alu_r opc then map_option (\<lambda>v. (False, s\<lparr> rs_r := r[rd := v] \<rparr>)) (rv_alu_r opc a b)
      else if is_alu_i opc then Some (False, s\<lparr> rs_r := r[rd := rv_alu_i opc a im cur_pc] \<rparr>)
      else if is_load opc then
        (let (v, m) = rv_load opc addr block (rs_mem s) in Some (False, s\<lparr> rs_r := r[rd := v], rs_mem := m \<rparr>))
      else if is_store opc then Some (False, s\<lparr> rs_mem := rv_store opc addr b block (rs_mem s) \<rparr>)
      else if opc = RV_JAL then Some (False, s\<lparr> rs_r := r[rd := rs_next_pc s], rs_next_pc := cur_pc + im \<rparr>)
      else if opc = RV_JALR then
        (let target = (a + im) AND NOT 1 in
         Some (target = sentinel AND NOT 1, s\<lparr> rs_r := r[rd := rs_next_pc s], rs_next_pc := target \<rparr>))
      else if is_branch opc then
        Some (False, if rv_branch_taken opc a b then s\<lparr> rs_next_pc := cur_pc + im \<rparr> else s)
      else if opc = RV_ECALL \<or> opc = RV_EBREAK then Some (True, s)
      else if opc = RV_FLW then
        (let ((ok, v, lat), m) = gLoadWord addr 0 block (rs_mem s) in Some (False, s\<lparr> rs_fr := fr[rd := v], rs_mem := m \<rparr>))
      else if opc = RV_FSW then Some (False, s\<lparr> rs_mem := snd (gStoreWord addr fb block (rs_mem s)) \<rparr>)
      else if is_fp_f opc then Some (False, s\<lparr> rs_fr := fr[rd := rv_fp_f fp opc fa fb fc a] \<rparr>)
      else if is_fp_x opc then Some (False, s\<lparr> rs_r := r[rd := rv_fp_x fp opc fa fb] \<rparr>)
      else Some (False, s))"

definition zero_x0 :: "rv_state \<Rightarrow> rv_state" where
  "zero_x0 s = s\<lparr> rs_r := (rs_r s)[0 := 0] \<rparr>"

definition executeRV32 :: "rv_fpu \<Rightarrow> RV32Instr \<Rightarrow> u32 \<Rightarrow> u32 \<Rightarrow> u32 \<Rightarrow> rv_state \<Rightarrow> (bool \<times> rv_state) option" where
  "executeRV32 fp instr cur_pc sentinel block s =
     map_option (\<lambda>(halt, s). (halt, zero_x0 s)) (rv_switch fp instr cur_pc sentinel block (zero_x0 s))"

section \<open>The binary mode of a compute unit\<close>

text \<open>\<open>config_.max_cycles\<close> and the fields of the binary mode; \<open>ext_memory_\<close> may be absent.\<close>

record binary_cu =
  bu_max_cycles :: u32
  bu_binary_mode :: bool
  bu_pc :: u32
  bu_return_sentinel :: u32
  bu_halted :: bool
  bu_regs :: "u32 list"
  bu_fregs :: "u32 list"
  bu_block_id :: u32
  bu_blocked :: bool
  bu_barrier_id :: u32
  bu_total_cycles :: u64
  bu_total_instructions :: u64
  bu_ext_memory :: "gmemory option"

definition setMemory :: "gmemory option \<Rightarrow> binary_cu \<Rightarrow> binary_cu" where
  "setMemory m s = s\<lparr> bu_ext_memory := m \<rparr>"

definition setEntryPoint :: "u32 \<Rightarrow> binary_cu \<Rightarrow> binary_cu" where
  "setEntryPoint pc s = s\<lparr> bu_pc := pc, bu_binary_mode := True, bu_halted := False, bu_blocked := False \<rparr>"

definition setInitialRegisters :: "u32 list \<Rightarrow> binary_cu \<Rightarrow> binary_cu" where
  "setInitialRegisters regs s = s\<lparr> bu_regs := regs[0 := 0] \<rparr>"

definition setInitialFloatRegisters :: "u32 list \<Rightarrow> binary_cu \<Rightarrow> binary_cu" where
  "setInitialFloatRegisters fregs s = s\<lparr> bu_fregs := fregs \<rparr>"

definition setReturnSentinel :: "u32 \<Rightarrow> binary_cu \<Rightarrow> binary_cu" where
  "setReturnSentinel sentinel_pc s = s\<lparr> bu_return_sentinel := sentinel_pc \<rparr>"

definition setBlockID :: "u32 \<Rightarrow> binary_cu \<Rightarrow> binary_cu" where
  "setBlockID block s = s\<lparr> bu_block_id := block \<rparr>"

definition isBlocked :: "binary_cu \<Rightarrow> bool" where
  "isBlocked s \<longleftrightarrow> bu_binary_mode s \<and> bu_blocked s"

definition releaseBarrier :: "u32 \<Rightarrow> binary_cu \<Rightarrow> bool \<times> binary_cu" where
  "releaseBarrier bid s =
     (if \<not> bu_blocked s \<or> bu_barrier_id s \<noteq> bid then (False, s) else (True, s\<lparr> bu_blocked := False \<rparr>))"

definition getRegister :: "binary_cu \<Rightarrow> u32 \<Rightarrow> u32" where
  "getRegister s reg_id = (if reg_id \<ge> 32 then 0 else bu_regs s ! unat reg_id)"

definition getFloatRegister :: "binary_cu \<Rightarrow> u32 \<Rightarrow> u32" where
  "getFloatRegister s reg_id = (if reg_id \<ge> 32 then 0 else bu_fregs s ! unat reg_id)"

definition getCurrentPC :: "binary_cu \<Rightarrow> u32" where
  "getCurrentPC s = (if bu_binary_mode s then bu_pc s else 0)"

definition fetch_raw :: "u32 \<Rightarrow> u32 \<Rightarrow> gmemory \<Rightarrow> u32" where
  "fetch_raw pc block m =
     (let bs = gReadBytes (ucast pc) 4 block m in join_word (bs ! 0) (bs ! 1) (bs ! 2) (bs ! 3))"

definition decode_raw :: "u32 \<Rightarrow> RV32Instr \<times> u32" where
  "decode_raw raw =
     (if raw AND 3 \<noteq> 3 then
        let expanded = expandRVC (ucast (raw AND 0xFFFF)) in
        (if expanded \<noteq> 0 then decodeRV32 expanded else RV32Instr_default, 2)
      else (decodeRV32 raw, 4))"

text \<open>\<open>step()\<close> in binary mode. \<open>None\<close>: the host process trapped.\<close>

definition binary_step :: "rv_fpu \<Rightarrow> binary_cu \<Rightarrow> binary_cu option" where
  "binary_step fp s =
     (if bu_halted s \<or> bu_blocked s then Some s
      else if bu_max_cycles s > 0 \<and> bu_total_cycles s \<ge> ucast (bu_max_cycles s) then Some (s\<lparr> bu_halted := True \<rparr>)
      else case bu_ext_memory s of None \<Rightarrow> Some (s\<lparr> bu_halted := True \<rparr>)
      | Some m \<Rightarrow>
          let (instr, instr_len) = decode_raw (fetch_raw (bu_pc s) (bu_block_id s) m);
              next_pc = bu_pc s + instr_len
          in if rv_op instr = RV_BAR_SYNC then
               Some (s\<lparr> bu_pc := next_pc, bu_barrier_id := rv_imm instr, bu_blocked := True,
                        bu_total_cycles := bu_total_cycles s + 1, bu_total_instructions := bu_total_instructions s + 1 \<rparr>)
             else map_option (\<lambda>(halt, r).
                 s\<lparr> bu_pc := rs_next_pc r, bu_regs := rs_r r, bu_fregs := rs_fr r, bu_ext_memory := Some (rs_mem r),
                    bu_total_cycles := bu_total_cycles s + 1, bu_total_instructions := bu_total_instructions s + 1,
                    bu_halted := halt \<or> bu_halted s \<rparr>)
               (executeRV32 fp instr (bu_pc s) (bu_return_sentinel s) (bu_block_id s)
                  \<lparr> rs_next_pc = next_pc, rs_r = bu_regs s, rs_fr = bu_fregs s, rs_mem = m \<rparr>))"

fun binary_run :: "rv_fpu \<Rightarrow> nat \<Rightarrow> binary_cu \<Rightarrow> binary_cu option" where
  "binary_run fp 0 s = Some s"
| "binary_run fp (Suc n) s = Option.bind (binary_step fp s) (binary_run fp n)"

section \<open>Lemmas\<close>

lemma rv_switch_lengths:
  assumes "rv_switch fp instr cur_pc sentinel block s = Some (halt, s')"
  shows "length (rs_r s') = length (rs_r s)" "length (rs_fr s') = length (rs_fr s)"
  using assms by (auto simp: rv_switch_def Let_def split: if_splits prod.splits)

lemma rv_switch_none:
  "rv_switch fp instr cur_pc sentinel block s = None \<longleftrightarrow>
     rv_op instr \<in> {RV_DIV, RV_REM} \<and>
     div_traps (rs_r s ! unat (rv_rs1 instr)) (rs_r s ! unat (rv_rs2 instr))"
proof (cases "is_alu_r (rv_op instr)")
  case True
  then show ?thesis
    by (cases "rv_op instr") (auto simp: rv_switch_def Let_def rv_alu_r_def div_traps_def op_groups)
next
  case False
  then show ?thesis
    by (auto simp: rv_switch_def Let_def op_groups split: prod.splits)
qed

definition unit_wf :: "binary_cu \<Rightarrow> bool" where
  "unit_wf s \<longleftrightarrow> length (bu_regs s) = 32 \<and> length (bu_fregs s) = 32 \<and> bu_regs s ! 0 = 0 \<and>
     (case bu_ext_memory s of None \<Rightarrow> True | Some m \<Rightarrow> coherent m)"

lemma gWriteBytes_coherent: "coherent m \<Longrightarrow> coherent (gWriteBytes a bs block m)"
proof (cases "gStartsShared a m")
  case True
  moreover assume "coherent m"
  ultimately show ?thesis
    by (auto simp: gWriteBytes_def coherent_def global_word_def split: option.splits)
next
  case False
  moreover assume "coherent m"
  ultimately show ?thesis by (simp add: gWriteBytes_def write_loop_coherent)
qed

lemma rv_load_coherent: "coherent m \<Longrightarrow> coherent (snd (rv_load opc addr block m))"
  using coherent_ops(1) [of m addr 0 block]
  by (cases opc) (auto simp: rv_load_def Let_def split: prod.splits)

lemma rv_store_coherent: "coherent m \<Longrightarrow> coherent (rv_store opc addr v block m)"
  by (cases opc) (auto simp: rv_store_def coherent_ops gWriteBytes_coherent)

lemma rv_switch_mem:
  assumes "rv_switch fp instr cur_pc sentinel block s = Some (halt, s')"
  shows "\<exists>addr v. rs_mem s' \<in> {rs_mem s, snd (rv_load (rv_op instr) addr block (rs_mem s)),
     rv_store (rv_op instr) addr v block (rs_mem s), snd (gLoadWord addr 0 block (rs_mem s)),
     snd (gStoreWord addr v block (rs_mem s))}"
proof -
  define ld where "ld = snd (rv_load (rv_op instr) (rv_addr (rs_r s ! unat (rv_rs1 instr)) (rv_imm instr)) block (rs_mem s))"
  define lw where "lw = snd (gLoadWord (rv_addr (rs_r s ! unat (rv_rs1 instr)) (rv_imm instr)) 0 block (rs_mem s))"
  have "rs_mem s' \<in> {rs_mem s, ld, rv_store (rv_op instr) (rv_addr (rs_r s ! unat (rv_rs1 instr)) (rv_imm instr))
      (rs_r s ! unat (rv_rs2 instr)) block (rs_mem s), lw,
      snd (gStoreWord (rv_addr (rs_r s ! unat (rv_rs1 instr)) (rv_imm instr)) (rs_fr s ! unat (rv_rs2 instr)) block (rs_mem s))}"
    using assms by (auto simp: rv_switch_def Let_def ld_def lw_def split_def split: if_splits)
  then show ?thesis unfolding ld_def lw_def by blast
qed

lemma rv_switch_coherent:
  assumes "rv_switch fp instr cur_pc sentinel block s = Some (halt, s')" "coherent (rs_mem s)"
  shows "coherent (rs_mem s')"
  using rv_switch_mem [OF assms(1)] assms(2)
  by (auto simp: rv_load_coherent rv_store_coherent coherent_ops)

lemma executeRV32_wf:
  assumes "executeRV32 fp instr cur_pc sentinel block s = Some (halt, s')"
  shows "length (rs_r s') = length (rs_r s)" "length (rs_fr s') = length (rs_fr s)"
    "rs_r s \<noteq> [] \<Longrightarrow> rs_r s' ! 0 = 0" "coherent (rs_mem s) \<Longrightarrow> coherent (rs_mem s')"
proof -
  obtain s1 where s1: "rv_switch fp instr cur_pc sentinel block (zero_x0 s) = Some (halt, s1)" and s': "s' = zero_x0 s1"
    using assms by (auto simp: executeRV32_def)
  note l = rv_switch_lengths [OF s1]
  show "length (rs_r s') = length (rs_r s)" "length (rs_fr s') = length (rs_fr s)"
    using l by (simp_all add: s' zero_x0_def)
  show "rs_r s \<noteq> [] \<Longrightarrow> rs_r s' ! 0 = 0"
    using l by (simp add: s' zero_x0_def)
  show "coherent (rs_mem s) \<Longrightarrow> coherent (rs_mem s')"
    using rv_switch_coherent [OF s1] by (simp add: s' zero_x0_def)
qed

lemma executeRV32_none:
  "executeRV32 fp instr cur_pc sentinel block s = None \<longleftrightarrow>
     rv_op instr \<in> {RV_DIV, RV_REM} \<and>
     div_traps ((rs_r s)[0 := 0] ! unat (rv_rs1 instr)) ((rs_r s)[0 := 0] ! unat (rv_rs2 instr))"
  by (simp add: executeRV32_def rv_switch_none zero_x0_def)

section \<open>Properties\<close>

text \<open>C39: a binary-mode step keeps the register files at 32 entries with \<open>x0 = 0\<close> and the memory's
  caches coherent, whatever word the program counter fetches.\<close>

theorem binary_step_wf:
  assumes "binary_step fp s = Some s'" "unit_wf s"
  shows "unit_wf s'"
proof (cases "bu_halted s \<or> bu_blocked s \<or> (bu_max_cycles s > 0 \<and> bu_total_cycles s \<ge> ucast (bu_max_cycles s)) \<or>
    bu_ext_memory s = None")
  case True
  then show ?thesis using assms by (auto simp: binary_step_def unit_wf_def split: if_splits option.splits)
next
  case False
  then obtain m where m: "bu_ext_memory s = Some m" by auto
  obtain instr len where d: "decode_raw (fetch_raw (bu_pc s) (bu_block_id s) m) = (instr, len)" by fastforce
  show ?thesis
  proof (cases "rv_op instr = RV_BAR_SYNC")
    case True
    then show ?thesis using assms False d m by (auto simp: binary_step_def unit_wf_def Let_def)
  next
    case no_bar: False
    let ?r = "\<lparr> rs_next_pc = bu_pc s + len, rs_r = bu_regs s, rs_fr = bu_fregs s, rs_mem = m \<rparr>"
    obtain halt r where e: "executeRV32 fp instr (bu_pc s) (bu_return_sentinel s) (bu_block_id s) ?r = Some (halt, r)"
      and s': "bu_regs s' = rs_r r" "bu_fregs s' = rs_fr r" "bu_ext_memory s' = Some (rs_mem r)"
      using assms(1) False d m no_bar by (auto simp: binary_step_def Let_def)
    show ?thesis
      using executeRV32_wf [OF e] assms(2) m
      by (cases "bu_regs s") (auto simp: unit_wf_def s')
  qed
qed

text \<open>The only way a step fails to return is the host's division overflow: the unit is running, has memory,
  and the fetched instruction is DIV or REM of \<open>INT_MIN\<close> by \<open>-1\<close>, for which RISC-V
  defines a result.\<close>

theorem binary_step_traps:
  "binary_step fp s = None \<longleftrightarrow>
     \<not> bu_halted s \<and> \<not> bu_blocked s \<and> (bu_max_cycles s = 0 \<or> bu_total_cycles s < ucast (bu_max_cycles s)) \<and>
     (\<exists>m. bu_ext_memory s = Some m \<and>
       (let instr = fst (decode_raw (fetch_raw (bu_pc s) (bu_block_id s) m)); r = (bu_regs s)[0 := 0] in
        rv_op instr \<in> {RV_DIV, RV_REM} \<and> r ! unat (rv_rs1 instr) = 0x80000000 \<and> r ! unat (rv_rs2 instr) = - 1))"
proof (cases "bu_ext_memory s")
  case None
  then show ?thesis by (simp add: binary_step_def)
next
  case (Some m)
  then show ?thesis
    by (auto simp: binary_step_def executeRV32_none div_traps_def Let_def not_le word_gt_0
        split: prod.splits)
qed

lemma binary_step_counts:
  assumes "binary_step fp s = Some s'" "\<not> bu_halted s'" "\<not> bu_blocked s'" "bu_max_cycles s > 0"
  shows "bu_max_cycles s' = bu_max_cycles s" "\<not> bu_halted s" "\<not> bu_blocked s"
    "unat (bu_total_cycles s) < unat (bu_max_cycles s)" "unat (bu_total_cycles s') = unat (bu_total_cycles s) + 1"
proof -
  have run: "\<not> bu_halted s \<and> \<not> bu_blocked s \<and> bu_total_cycles s < ucast (bu_max_cycles s) \<and>
      bu_max_cycles s' = bu_max_cycles s \<and> bu_total_cycles s' = bu_total_cycles s + 1"
    using assms by (auto simp: binary_step_def Let_def not_le split: if_splits option.splits prod.splits)
  then show "bu_max_cycles s' = bu_max_cycles s" "\<not> bu_halted s" "\<not> bu_blocked s" by simp_all
  show lt: "unat (bu_total_cycles s) < unat (bu_max_cycles s)"
    using run by (simp add: word_less_nat_alt)
  have "unat (bu_max_cycles s) < 2 ^ LENGTH(32)" by (rule unsigned_less)
  then have "unat (bu_total_cycles s) + 1 < 2 ^ 64" using lt by simp
  then show "unat (bu_total_cycles s') = unat (bu_total_cycles s) + 1"
    using run by (simp add: unat_word_ariths)
qed

lemma binary_step_still: "bu_halted s \<or> bu_blocked s \<Longrightarrow> binary_step fp s = Some s"
  by (auto simp: binary_step_def)

lemma binary_run_still: "bu_halted s \<or> bu_blocked s \<Longrightarrow> binary_run fp n s = Some s"
  by (induction n) (auto simp: binary_step_still)

text \<open>The watchdog bounds a kernel: with \<open>max_cycles\<close> set, after one step more than the cycles left
  the unit is halted or waits at a barrier (or the host trapped), whatever program it runs.\<close>

theorem watchdog_stops_the_unit:
  assumes "bu_max_cycles s > 0" "n > unat (bu_max_cycles s) - unat (bu_total_cycles s)"
  shows "case binary_run fp n s of None \<Rightarrow> True | Some s' \<Rightarrow> bu_halted s' \<or> bu_blocked s'"
  using assms
proof (induction n arbitrary: s)
  case 0
  then show ?case by simp
next
  case (Suc n)
  show ?case
  proof (cases "binary_step fp s")
    case None
    then show ?thesis by simp
  next
    case (Some s')
    show ?thesis
    proof (cases "bu_halted s' \<or> bu_blocked s'")
      case True
      then show ?thesis using Some by (auto simp: binary_run_still)
    next
      case False
      then show ?thesis
        using Suc.IH [of s'] binary_step_counts [OF Some] Suc.prems Some by simp
    qed
  qed
qed

section \<open>Witnesses\<close>

text \<open>A unit whose memory holds \<open>addi x5, x0, 7; jalr x0, 0(x1)\<close> at address 0x1000.\<close>

definition kernel_words :: "u64 \<rightharpoonup> u32" where
  "kernel_words = [0x1000 \<mapsto> 0x00700293, 0x1004 \<mapsto> 0x00008067]"

definition binary0 :: binary_cu where
  "binary0 = \<lparr> bu_max_cycles = 0, bu_binary_mode = True, bu_pc = 0x1000, bu_return_sentinel = 1, bu_halted = False,
     bu_regs = replicate 32 0, bu_fregs = replicate 32 0, bu_block_id = 0, bu_blocked = False, bu_barrier_id = 0,
     bu_total_cycles = 0, bu_total_instructions = 0,
     bu_ext_memory = Some (gmemory0\<lparr> gm_global_memory := kernel_words \<rparr>) \<rparr>"

lemma binary0_wf: "unit_wf binary0"
  by (simp add: unit_wf_def binary0_def coherent_def gmemory0_def)

lemma binary0_fetch:
  "fetch_raw 0x1000 0 (gmemory0\<lparr> gm_global_memory := kernel_words \<rparr>) = 0x00700293"
  by code_simp

lemma binary0_decode:
  "decode_raw 0x00700293 = (\<lparr> rv_op = RV_ADDI, rv_rd = 5, rv_rs1 = 0, rv_rs2 = 7, rv_rs3 = 0, rv_imm = 7 \<rparr>, 4)"
  by code_simp

theorem binary_step_wf_witness:
  "\<forall>fp. \<exists>s'. binary_step fp binary0 = Some s' \<and> unit_wf s' \<and> bu_regs s' ! 5 = 7 \<and> bu_pc s' = 0x1004"
proof
  fix fp
  let ?s = "binary_step fp binary0"
  have "?s \<noteq> None \<and> bu_regs (the ?s) ! 5 = 7 \<and> bu_pc (the ?s) = 0x1004"
    using binary0_fetch binary0_decode
    by (simp add: binary_step_def binary0_def executeRV32_def rv_switch_def op_groups rv_alu_i_def zero_x0_def Let_def)
  moreover then have "unit_wf (the ?s)" by (intro binary_step_wf [OF _ binary0_wf, of fp]) auto
  ultimately show "\<exists>s'. ?s = Some s' \<and> unit_wf s' \<and> bu_regs s' ! 5 = 7 \<and> bu_pc s' = 0x1004" by auto
qed

theorem watchdog_stops_the_unit_witness:
  "\<forall>fp. case binary_run fp 6 (binary0\<lparr> bu_max_cycles := 5 \<rparr>) of None \<Rightarrow> True | Some s' \<Rightarrow> bu_halted s' \<or> bu_blocked s'"
  by (intro allI watchdog_stops_the_unit) (simp_all add: binary0_def)

end
