(* ===== verification/DivStack.thy ===== *)
theory DivStack
  imports HlsTypes
begin

text \<open>
  SIMT divergence: \<open>hls/src/simt_controller/divergence_stack.h\<close> (one warp, a bounded stack of
  masks) and the interface it shares with the golden SIMT controller of theory \<open>GoldenSimt\<close>.

  The abstract machine is a pair of the active mask and the stack of masked-off lane sets. The
  locale \<open>simt_unit\<close> states that an implementation refines it while its stack has room; the facts
  about lanes (none is lost, a properly nested region gives back the mask) are proved once there.
\<close>

section \<open>The class \<open>DivergenceStack\<close>\<close>

record DivergenceStack =
  ds_active_mask :: thread_mask_t
  ds_threads_per_warp :: u8
  ds_not_taken_stack :: "thread_mask_t list"
  ds_sp :: u8
  ds_overflow :: bool
  ds_divergence_events :: u32
  ds_wasted_cycles :: u32

definition DivergenceStack_default :: DivergenceStack where
  "DivergenceStack_default = \<lparr> ds_active_mask = 0, ds_threads_per_warp = 32,
     ds_not_taken_stack = replicate MAX_DIVERGENCE_DEPTH 0, ds_sp = 0, ds_overflow = False,
     ds_divergence_events = 0, ds_wasted_cycles = 0 \<rparr>"

definition initializeWarp :: "thread_mask_t \<Rightarrow> DivergenceStack \<Rightarrow> DivergenceStack" where
  "initializeWarp m s = s\<lparr> ds_active_mask := m, ds_sp := 0, ds_overflow := False,
     ds_divergence_events := 0, ds_wasted_cycles := 0 \<rparr>"

definition initializeWarpFromThreadCount :: "u8 \<Rightarrow> DivergenceStack \<Rightarrow> DivergenceStack" where
  "initializeWarpFromThreadCount n s =
     (let m = (if unat n = MAX_THREADS_PER_WARP then - 1 else push_bit (unat n) 1 - 1)
      in initializeWarp m (s\<lparr> ds_threads_per_warp := n \<rparr>))"

definition getActiveMask :: "DivergenceStack \<Rightarrow> thread_mask_t" where
  "getActiveMask s = ds_active_mask s"

definition isThreadActive :: "DivergenceStack \<Rightarrow> lane_id_t \<Rightarrow> bool" where
  "isThreadActive s t = bit (ds_active_mask s) (unat t)"

definition hasPendingDivergence :: "DivergenceStack \<Rightarrow> bool" where
  "hasPendingDivergence s \<longleftrightarrow> ds_sp s \<noteq> 0"

definition pushDivergence :: "thread_mask_t \<Rightarrow> DivergenceStack \<Rightarrow> DivergenceStack" where
  "pushDivergence nt s =
     (if unat (ds_sp s) \<ge> MAX_DIVERGENCE_DEPTH then s\<lparr> ds_overflow := True \<rparr>
      else s\<lparr> ds_not_taken_stack := (ds_not_taken_stack s)[unat (ds_sp s) := nt],
              ds_sp := ds_sp s + 1 \<rparr>)"

definition branch_taken :: "nat \<Rightarrow> thread_mask_t \<Rightarrow> bool list \<Rightarrow> thread_mask_t" where
  "branch_taken n m conditions = mask_of n (\<lambda>t. bit m t \<and> conditions ! t)"

definition branch_not_taken :: "nat \<Rightarrow> thread_mask_t \<Rightarrow> bool list \<Rightarrow> thread_mask_t" where
  "branch_not_taken n m conditions = mask_of n (\<lambda>t. bit m t \<and> \<not> conditions ! t)"

definition handleBranch :: "bool list \<Rightarrow> DivergenceStack \<Rightarrow> DivergenceStack" where
  "handleBranch conditions s =
     (let taken = branch_taken MAX_THREADS_PER_WARP (ds_active_mask s) conditions;
          not_taken = branch_not_taken MAX_THREADS_PER_WARP (ds_active_mask s) conditions
      in if taken \<noteq> 0 \<and> not_taken \<noteq> 0 then
           let s1 = (pushDivergence not_taken s)\<lparr> ds_active_mask := taken \<rparr>
           in s1\<lparr> ds_divergence_events := ds_divergence_events s1 + 1,
                  ds_wasted_cycles := ds_wasted_cycles s1 + popcount_loop not_taken \<rparr>
         else if taken = 0 \<and> not_taken \<noteq> 0 then
           (pushDivergence not_taken s)\<lparr> ds_active_mask := 0 \<rparr>
         else s\<lparr> ds_active_mask := (if taken \<noteq> 0 then taken else not_taken) \<rparr>)"

definition handleJoin :: "DivergenceStack \<Rightarrow> DivergenceStack" where
  "handleJoin s =
     (if ds_sp s = 0 then s
      else let sp = ds_sp s - 1 in
        s\<lparr> ds_sp := sp,
           ds_active_mask := ds_active_mask s OR ds_not_taken_stack s ! unat sp \<rparr>)"

definition wf_div :: "DivergenceStack \<Rightarrow> bool" where
  "wf_div s \<longleftrightarrow> length (ds_not_taken_stack s) = MAX_DIVERGENCE_DEPTH \<and>
     unat (ds_sp s) \<le> MAX_DIVERGENCE_DEPTH"

section \<open>The abstract machine\<close>

type_synonym simt_abs = "thread_mask_t \<times> thread_mask_t list"

definition spec_branch :: "bool list \<Rightarrow> simt_abs \<Rightarrow> simt_abs" where
  "spec_branch c = (\<lambda>(m, st).
     let taken = branch_taken 32 m c; not_taken = branch_not_taken 32 m c
     in if not_taken \<noteq> 0 then (taken, not_taken # st) else (taken, st))"

definition spec_join :: "simt_abs \<Rightarrow> simt_abs" where
  "spec_join = (\<lambda>(m, st). case st of [] \<Rightarrow> (m, []) | nt # st' \<Rightarrow> (m OR nt, st'))"

datatype simt_event = Branch "bool list" | Join

text \<open>A structured region: \<open>VBRANCH\<close>, nested regions, \<open>VJOIN\<close>.\<close>

datatype region = Region "bool list" "region list"

fun events_of :: "region \<Rightarrow> simt_event list" where
  "events_of (Region c rs) = Branch c # concat (map events_of rs) @ [Join]"

text \<open>Every branch of the region masks off at least one lane, and the stack has room for it.\<close>

fun region_ok :: "(nat \<Rightarrow> bool) \<Rightarrow> nat \<Rightarrow> thread_mask_t \<Rightarrow> region \<Rightarrow> bool" where
  "region_ok room d m (Region c rs) \<longleftrightarrow> room d \<and> branch_not_taken 32 m c \<noteq> 0 \<and>
     list_all (region_ok room (Suc d) (branch_taken 32 m c)) rs"

fun or_all :: "thread_mask_t list \<Rightarrow> thread_mask_t" where
  "or_all [] = 0"
| "or_all (m # ms) = m OR or_all ms"

fun disjoint_masks :: "thread_mask_t list \<Rightarrow> bool" where
  "disjoint_masks [] = True"
| "disjoint_masks (m # ms) \<longleftrightarrow> m AND or_all ms = 0 \<and> disjoint_masks ms"

definition spec_lanes :: "simt_abs \<Rightarrow> thread_mask_t" where
  "spec_lanes a = or_all (fst a # snd a)"

lemma branch_split:
  "branch_taken 32 m c OR branch_not_taken 32 m c = m"
  "branch_taken 32 m c AND branch_not_taken 32 m c = 0"
  by (rule bit_word_eqI; auto simp: branch_taken_def branch_not_taken_def bit_simps)+

lemma branch_taken_all: "branch_not_taken 32 m c = 0 \<Longrightarrow> branch_taken 32 m c = m"
  using branch_split(1) [of m c] by simp

lemma spec_branch_lanes:
  "spec_lanes (spec_branch c a) = spec_lanes a"
  using branch_split(1) [of "fst a" c]
  by (auto simp: spec_lanes_def spec_branch_def Let_def branch_taken_all split: prod.splits
      simp flip: or.assoc)

lemma spec_join_lanes: "spec_lanes (spec_join a) = spec_lanes a"
  by (auto simp: spec_lanes_def spec_join_def or.assoc split: prod.splits list.splits)

lemma and_or_eq_0: "(a :: u32) AND (b OR c) = 0 \<longleftrightarrow> a AND b = 0 \<and> a AND c = 0"
  by (auto simp: bit_eq_iff bit_simps)

lemma or_and_eq_0: "(b OR c) AND (a :: u32) = 0 \<longleftrightarrow> b AND a = 0 \<and> c AND a = 0"
  by (auto simp: bit_eq_iff bit_simps)

lemma branch_part_disjoint:
  assumes "m AND x = 0"
  shows "branch_taken 32 m c AND x = 0" "branch_not_taken 32 m c AND x = 0"
  using assms by (auto simp: bit_eq_iff bit_simps branch_taken_def branch_not_taken_def)

lemma spec_branch_disjoint:
  "disjoint_masks (fst a # snd a) \<Longrightarrow>
   disjoint_masks (fst (spec_branch c a) # snd (spec_branch c a))"
  by (auto simp: spec_branch_def Let_def and_or_eq_0 branch_split branch_part_disjoint
      split: prod.splits)

lemma spec_join_disjoint:
  "disjoint_masks (fst a # snd a) \<Longrightarrow>
   disjoint_masks (fst (spec_join a) # snd (spec_join a))"
  by (auto simp: spec_join_def and_or_eq_0 or_and_eq_0 split: prod.splits list.splits)

lemma spec_branch_length: "length (snd (spec_branch c a)) \<le> Suc (length (snd a))"
  by (auto simp: spec_branch_def Let_def split: prod.splits)

lemma spec_join_length: "length (snd (spec_join a)) \<le> length (snd a)"
  by (auto simp: spec_join_def split: prod.splits list.splits)

section \<open>The interface\<close>

fun simt_run :: "(bool list \<Rightarrow> 's \<Rightarrow> 's) \<Rightarrow> ('s \<Rightarrow> 's) \<Rightarrow> simt_event list \<Rightarrow> 's \<Rightarrow> 's" where
  "simt_run br jn [] s = s"
| "simt_run br jn (Branch c # es) s = simt_run br jn es (br c s)"
| "simt_run br jn (Join # es) s = simt_run br jn es (jn s)"

lemma simt_run_append:
  "simt_run br jn (es @ fs) s = simt_run br jn fs (simt_run br jn es s)"
proof (induction es arbitrary: s)
  case (Cons e es)
  then show ?case by (cases e) auto
qed simp

lemma spec_run_lanes:
  "disjoint_masks (fst a # snd a) \<Longrightarrow>
   spec_lanes (simt_run spec_branch spec_join es a) = spec_lanes a \<and>
   disjoint_masks (fst (simt_run spec_branch spec_join es a) # snd (simt_run spec_branch spec_join es a))"
proof (induction es arbitrary: a)
  case (Cons e es)
  then show ?case
    using spec_branch_disjoint [of a] spec_join_disjoint [of a]
    by (cases e) (simp_all only: simt_run.simps spec_branch_lanes spec_join_lanes)
qed simp

fun branches :: "simt_event list \<Rightarrow> nat" where
  "branches [] = 0"
| "branches (Branch c # es) = Suc (branches es)"
| "branches (Join # es) = branches es"

text \<open>
  \<open>room d\<close>: a stack that holds \<open>d\<close> entries takes one more. \<open>ovf s\<close>: a push met a full stack; the flag
  stays raised. A branch refines the abstract one when there is room, and also when it raised no
  overflow, as a branch that masks off no lane does at a full stack.
\<close>

locale simt_unit =
  fixes abs :: "'s \<Rightarrow> simt_abs" and ok :: "'s \<Rightarrow> bool" and room :: "nat \<Rightarrow> bool" and ovf :: "'s \<Rightarrow> bool"
    and br :: "bool list \<Rightarrow> 's \<Rightarrow> 's" and jn :: "'s \<Rightarrow> 's"
  assumes branch_refines:
      "ok s \<Longrightarrow> room (length (snd (abs s))) \<or> \<not> ovf (br c s) \<Longrightarrow> abs (br c s) = spec_branch c (abs s)"
    and join_refines: "ok s \<Longrightarrow> abs (jn s) = spec_join (abs s)"
    and branch_ok: "ok s \<Longrightarrow> ok (br c s)"
    and join_ok: "ok s \<Longrightarrow> ok (jn s)"
    and branch_ovf: "ovf s \<Longrightarrow> ovf (br c s)"
    and room_ovf: "ok s \<Longrightarrow> room (length (snd (abs s))) \<Longrightarrow> ovf (br c s) = ovf s"
    and join_ovf: "ovf (jn s) = ovf s"
begin

lemma run_ok: "ok s \<Longrightarrow> ok (simt_run br jn es s)"
proof (induction es arbitrary: s)
  case (Cons e es)
  then show ?case by (cases e) (auto intro: branch_ok join_ok)
qed simp

lemma run_ovf: "ovf s \<Longrightarrow> ovf (simt_run br jn es s)"
proof (induction es arbitrary: s)
  case (Cons e es)
  then show ?case by (cases e) (auto intro: branch_ovf simp: join_ovf)
qed simp

lemma run_abs:
  assumes "ok s" "\<not> ovf (simt_run br jn es s)"
  shows "abs (simt_run br jn es s) = simt_run spec_branch spec_join es (abs s)"
  using assms
proof (induction es arbitrary: s rule: branches.induct)
  case (2 c es)
  then have "\<not> ovf (br c s)" using run_ovf by auto
  then have "abs (br c s) = spec_branch c (abs s)" using 2(2) by (intro branch_refines) simp_all
  with 2(1) [of "br c s"] 2(2,3) show ?case by (simp add: branch_ok)
next
  case (3 es)
  with 3(1) [of "jn s"] show ?case by (simp add: join_ok join_refines)
qed simp

text \<open>No lane is lost and none is in two sets, as long as no push meets a full stack.\<close>

lemma lanes_kept:
  assumes "ok s" "\<not> ovf (simt_run br jn es s)" "disjoint_masks (fst (abs s) # snd (abs s))"
  shows "spec_lanes (abs (simt_run br jn es s)) = spec_lanes (abs s) \<and>
    disjoint_masks (fst (abs (simt_run br jn es s)) # snd (abs (simt_run br jn es s)))"
  unfolding run_abs [OF assms(1,2)] using assms(3) by (rule spec_run_lanes)

text \<open>A bound on the number of branches is enough for that.\<close>

lemma few_branches:
  assumes "ok s" "\<And>d. d < length (snd (abs s)) + branches es \<Longrightarrow> room d"
  shows "ovf (simt_run br jn es s) = ovf s"
  using assms
proof (induction es arbitrary: s rule: branches.induct)
  case (2 c es)
  have r: "room (length (snd (abs s)))" using 2(3) by simp
  have abs: "abs (br c s) = spec_branch c (abs s)" using 2(2) r by (intro branch_refines) auto
  have "\<And>d. d < length (snd (abs (br c s))) + branches es \<Longrightarrow> room d"
    using 2(3) spec_branch_length [of c "abs s"] abs by fastforce
  with 2(1) [of "br c s"] 2(2) r show ?case by (simp add: branch_ok room_ovf)
next
  case (3 es)
  have abs: "abs (jn s) = spec_join (abs s)" using 3 by (intro join_refines) auto
  have "\<And>d. d < length (snd (abs (jn s))) + branches es \<Longrightarrow> room d"
    using 3(3) spec_join_length [of "abs s"] abs by fastforce
  with 3(1) [of "jn s"] 3(2) show ?case by (simp add: join_ok join_ovf)
qed simp

text \<open>A region whose branches all mask off a lane gives back mask and stack.\<close>

lemma region_restores:
  assumes "ok s" "region_ok room (length (snd (abs s))) (fst (abs s)) r"
  shows "abs (simt_run br jn (events_of r) s) = abs s"
  using assms
proof (induction r arbitrary: s)
  case (Region c rs)
  obtain m st where a: "abs s = (m, st)" by (cases "abs s")
  define t where "t = br c s"
  have room: "room (length st)" and nt: "branch_not_taken 32 m c \<noteq> 0"
    and sub: "list_all (region_ok room (Suc (length st)) (branch_taken 32 m c)) rs"
    using Region.prems a by auto
  have t: "abs t = (branch_taken 32 m c, branch_not_taken 32 m c # st)" "ok t"
    using Region.prems a room nt branch_refines [of s c] branch_ok
    by (auto simp: t_def spec_branch_def Let_def)
  have body: "abs (simt_run br jn (concat (map events_of rs)) u) = abs u
      \<and> ok (simt_run br jn (concat (map events_of rs)) u)"
    if "ok u" "abs u = abs t" for u
    using Region.IH sub that
  proof (induction rs arbitrary: u)
    case Nil
    then show ?case by simp
  next
    case (Cons r rs)
    have r: "abs (simt_run br jn (events_of r) u) = abs u"
      using Cons.prems t by (intro Cons.prems(1)) auto
    have "ok (simt_run br jn (events_of r) u)" using Cons.prems(3) by (rule run_ok)
    with Cons.IH [of "simt_run br jn (events_of r) u"] Cons.prems r show ?case
      by (simp add: simt_run_append)
  qed
  define v where "v = simt_run br jn (concat (map events_of rs)) t"
  have "abs v = abs t" "ok v" using body [of t] t(2) by (auto simp: v_def)
  then have "abs (jn v) = (m, st)"
    using join_refines [of v] branch_split(1) [of m c] by (simp add: t spec_join_def)
  then show ?case by (simp add: simt_run_append a flip: t_def v_def)
qed

end

section \<open>\<open>DivergenceStack\<close> implements it\<close>

definition div_abs :: "DivergenceStack \<Rightarrow> simt_abs" where
  "div_abs s = (ds_active_mask s, rev (take (unat (ds_sp s)) (ds_not_taken_stack s)))"

definition div_room :: "nat \<Rightarrow> bool" where
  "div_room d \<longleftrightarrow> d < MAX_DIVERGENCE_DEPTH"

lemma unat_sp_Suc: "unat (w :: u8) < 8 \<Longrightarrow> unat (w + 1) = Suc (unat w)"
  by (subst unat_add_lem [THEN iffD1]) simp_all

lemma unat_sp_pred: "(w :: u8) \<noteq> 0 \<Longrightarrow> unat w = Suc (unat (w - 1))"
  by (metis Suc_pred' unat_gt_0 unat_minus_one)

lemma push_abs:
  assumes "wf_div s" "unat (ds_sp s) < MAX_DIVERGENCE_DEPTH"
  shows "div_abs (pushDivergence nt s) = (ds_active_mask s, nt # snd (div_abs s))"
  using assms
  by (simp add: div_abs_def pushDivergence_def wf_div_def unat_sp_Suc take_Suc_conv_app_nth)

lemma push_wf: "wf_div s \<Longrightarrow> wf_div (pushDivergence nt s)"
  by (auto simp: wf_div_def pushDivergence_def unat_sp_Suc)

lemma handleBranch_wf: "wf_div s \<Longrightarrow> wf_div (handleBranch c s)"
  using push_wf [of s] by (auto simp: handleBranch_def Let_def wf_div_def)

lemma handleJoin_wf: "wf_div s \<Longrightarrow> wf_div (handleJoin s)"
  using unat_sp_pred [of "ds_sp s"] by (auto simp: handleJoin_def Let_def wf_div_def)

lemma div_abs_length: "wf_div s \<Longrightarrow> length (snd (div_abs s)) = unat (ds_sp s)"
  by (simp add: div_abs_def wf_div_def)

lemma div_abs_mask_update [simp]:
  "div_abs (s\<lparr> ds_active_mask := m \<rparr>) = (m, snd (div_abs s))"
  "div_abs (s\<lparr> ds_divergence_events := e, ds_wasted_cycles := w \<rparr>) = div_abs s"
  by (simp_all add: div_abs_def)

lemma handleBranch_overflow:
  "ds_overflow (handleBranch c s) \<longleftrightarrow> ds_overflow s \<or>
     unat (ds_sp s) \<ge> MAX_DIVERGENCE_DEPTH \<and> branch_not_taken 32 (ds_active_mask s) c \<noteq> 0"
  by (auto simp: handleBranch_def pushDivergence_def Let_def)

lemma handleJoin_overflow [simp]: "ds_overflow (handleJoin s) = ds_overflow s"
  by (simp add: handleJoin_def Let_def)

lemma handleBranch_abs:
  assumes "wf_div s" "unat (ds_sp s) < MAX_DIVERGENCE_DEPTH \<or> \<not> ds_overflow (handleBranch c s)"
  shows "div_abs (handleBranch c s) = spec_branch c (div_abs s)"
proof -
  obtain m st where a: "div_abs s = (m, st)" "ds_active_mask s = m" by (simp add: div_abs_def)
  show ?thesis
  proof (cases "unat (ds_sp s) < MAX_DIVERGENCE_DEPTH")
    case True
    then show ?thesis using a
      by (auto simp: handleBranch_def spec_branch_def Let_def push_abs [OF assms(1) True])
  next
    case False
    then have "branch_not_taken 32 m c = 0" using assms(2) a(2) by (auto simp: handleBranch_overflow)
    then show ?thesis using a by (auto simp: handleBranch_def spec_branch_def Let_def)
  qed
qed

lemma handleJoin_abs:
  assumes "wf_div s"
  shows "div_abs (handleJoin s) = spec_join (div_abs s)"
proof (cases "ds_sp s = 0")
  case True
  then show ?thesis by (simp add: handleJoin_def div_abs_def spec_join_def)
next
  case False
  let ?k = "unat (ds_sp s - 1)"
  have "?k < length (ds_not_taken_stack s)"
    using assms unat_sp_pred [OF False] by (simp add: wf_div_def)
  then have "take (unat (ds_sp s)) (ds_not_taken_stack s)
      = take ?k (ds_not_taken_stack s) @ [ds_not_taken_stack s ! ?k]"
    using unat_sp_pred [OF False] by (simp add: take_Suc_conv_app_nth)
  with False show ?thesis by (simp add: handleJoin_def div_abs_def spec_join_def Let_def)
qed

interpretation hls_simt: simt_unit div_abs wf_div div_room ds_overflow handleBranch handleJoin
proof
  show "div_abs (handleBranch c s) = spec_branch c (div_abs s)"
    if "wf_div s" "div_room (length (snd (div_abs s))) \<or> \<not> ds_overflow (handleBranch c s)" for s c
    using that by (intro handleBranch_abs) (auto simp: div_abs_length div_room_def)
  show "ds_overflow (handleBranch c s) = ds_overflow s"
    if "wf_div s" "div_room (length (snd (div_abs s)))" for s c
    using that by (auto simp: handleBranch_overflow div_abs_length div_room_def)
qed (auto intro: handleBranch_wf handleJoin_wf handleJoin_abs simp: handleBranch_overflow)

lemma initializeWarp_abs: "div_abs (initializeWarp m s) = (m, [])"
  by (simp add: div_abs_def initializeWarp_def)

lemma initializeWarp_wf: "wf_div s \<Longrightarrow> wf_div (initializeWarp m s)"
  by (simp add: wf_div_def initializeWarp_def)

lemma wf_div_default [simp]: "wf_div DivergenceStack_default"
  by (simp add: wf_div_def DivergenceStack_default_def)

section \<open>Properties of \<open>DivergenceStack\<close>\<close>

definition div_run :: "simt_event list \<Rightarrow> DivergenceStack \<Rightarrow> DivergenceStack" where
  "div_run = simt_run handleBranch handleJoin"

lemma div_abs_mask: "fst (div_abs s) = ds_active_mask s"
  by (simp add: div_abs_def)

text \<open>C9: a properly nested \<open>VBRANCH\<close>/\<open>VJOIN\<close> region whose branches all mask off at least one active
  lane, nested at most \<open>MAX_DIVERGENCE_DEPTH\<close> deep, gives back the active mask and the stack.\<close>

theorem divergence_region_restores:
  assumes "wf_div s"
    and "region_ok (\<lambda>d. d < MAX_DIVERGENCE_DEPTH) (unat (ds_sp s)) (getActiveMask s) r"
  shows "getActiveMask (div_run (events_of r) s) = getActiveMask s \<and>
         ds_sp (div_run (events_of r) s) = ds_sp s"
proof -
  have *: "div_abs (div_run (events_of r) s) = div_abs s"
    unfolding div_run_def using assms
    by (intro hls_simt.region_restores)
       (auto simp: div_abs_length div_abs_mask getActiveMask_def div_room_def [abs_def])
  have "wf_div (div_run (events_of r) s)"
    unfolding div_run_def by (rule hls_simt.run_ok [OF assms(1)])
  then have "unat (ds_sp (div_run (events_of r) s)) = unat (ds_sp s)"
    using * by (metis div_abs_length assms(1))
  then have "ds_sp (div_run (events_of r) s) = ds_sp s" by (simp add: word_unat_eq_iff)
  then show ?thesis using * by (simp add: div_abs_def getActiveMask_def)
qed

text \<open>C34: the lane sets held by the active mask and the live stack entries stay a partition of the
  same lanes through any sequence of branches and joins, however long, that never meets a full stack,
  which is what a clear overflow flag at its end says: the flag is sticky and raised by such a push only.\<close>

theorem divergence_lanes_partition:
  assumes "wf_div s" "\<not> ds_overflow (div_run es s)"
    and "disjoint_masks (fst (div_abs s) # snd (div_abs s))"
  shows "spec_lanes (div_abs (div_run es s)) = spec_lanes (div_abs s) \<and>
    disjoint_masks (fst (div_abs (div_run es s)) # snd (div_abs (div_run es s)))"
  using assms unfolding div_run_def by (intro hls_simt.lanes_kept)

text \<open>A sequence with no more branches than the free entries of the stack raises no overflow.\<close>

lemma few_branches_fit:
  assumes "wf_div s" "unat (ds_sp s) + branches es \<le> MAX_DIVERGENCE_DEPTH"
  shows "ds_overflow (div_run es s) = ds_overflow s"
  unfolding div_run_def using assms
  by (intro hls_simt.few_branches) (auto simp: div_abs_length div_room_def)

text \<open>A push on a full stack is dropped but the mask is still narrowed: the lanes that did not
  take the branch are in no set any more, so no later join can bring them back.\<close>

theorem divergence_overflow_loses_lanes:
  assumes "wf_div s" "unat (ds_sp s) = MAX_DIVERGENCE_DEPTH"
    and "disjoint_masks (fst (div_abs s) # snd (div_abs s))"
    and "branch_not_taken 32 (getActiveMask s) c \<noteq> 0"
  shows "ds_overflow (handleBranch c s) \<and>
    spec_lanes (div_abs (handleBranch c s))
      = spec_lanes (div_abs s) AND NOT (branch_not_taken 32 (getActiveMask s) c)"
proof -
  obtain m st where a: "div_abs s = (m, st)" "ds_active_mask s = m" by (simp add: div_abs_def)
  let ?t = "branch_taken 32 m c" and ?n = "branch_not_taken 32 m c"
  have h: "div_abs (handleBranch c s) = (?t, st)" "ds_overflow (handleBranch c s)"
    using assms(2,4) a
    by (auto simp: handleBranch_def Let_def pushDivergence_def getActiveMask_def div_abs_def)
  have "m AND or_all st = 0" using assms(3) a by simp
  then have "?n AND or_all st = 0" by (rule branch_part_disjoint)
  moreover have "?t = m AND NOT ?n"
    by (rule bit_word_eqI) (auto simp: branch_taken_def branch_not_taken_def bit_simps)
  ultimately have "?t OR or_all st = (m OR or_all st) AND NOT ?n"
    by (auto simp: bit_eq_iff bit_simps)
  with h a show ?thesis by (simp add: spec_lanes_def getActiveMask_def)
qed

text \<open>A branch that masks off no lane pushes nothing, so the \<open>VJOIN\<close> of its region pops the entry
  of the enclosing region and re-enables that region's lanes inside it.\<close>

theorem uniform_branch_join_pops_outer:
  assumes "wf_div s" "div_abs s = (m, nt # st)" "branch_not_taken 32 m c = 0"
  shows "div_abs (handleJoin (handleBranch c s)) = (m OR nt, st)"
proof -
  have m: "ds_active_mask s = m" using assms(2) by (simp add: div_abs_def)
  have "handleBranch c s = s\<lparr> ds_active_mask := m \<rparr>"
    using assms(3) m by (simp add: handleBranch_def branch_taken_all)
  then have "handleBranch c s = s" using m by simp
  then show ?thesis using handleJoin_abs [OF assms(1)] assms(2) by (simp add: spec_join_def)
qed

definition lanes_lt :: "nat \<Rightarrow> bool list" where
  "lanes_lt k = map (\<lambda>t. t < k) [0..<32]"

definition div0 :: DivergenceStack where
  "div0 = initializeWarpFromThreadCount 32 DivergenceStack_default"


lemma wf_div0: "wf_div div0"
  by (simp add: div0_def initializeWarpFromThreadCount_def wf_div_def initializeWarp_def
      DivergenceStack_default_def)

lemma div0_fields: "ds_active_mask div0 = - 1" "ds_sp div0 = 0"
  by (simp_all add: div0_def initializeWarpFromThreadCount_def initializeWarp_def)

definition nested_region :: region where
  "nested_region = Region (lanes_lt 16) [Region (lanes_lt 8) []]"

lemma nested_region_ok:
  "region_ok (\<lambda>d. d < MAX_DIVERGENCE_DEPTH) (unat (ds_sp div0)) (getActiveMask div0) nested_region"
  by code_simp

theorem divergence_region_restores_witness:
  "getActiveMask (div_run (events_of nested_region) div0) = getActiveMask div0"
  using divergence_region_restores [OF wf_div0 nested_region_ok] by simp

text \<open>Twelve branches, more than the stack has entries, in a sequence that never fills it.\<close>

definition many_branches :: "simt_event list" where
  "many_branches = concat (replicate 6 [Branch (lanes_lt 16), Branch (lanes_lt 8), Join, Join])"

lemma many_branches_fit: "\<not> ds_overflow (div_run many_branches div0)" "branches many_branches = 12"
  by code_simp+

theorem divergence_lanes_partition_witness:
  "spec_lanes (div_abs (div_run many_branches div0)) = - 1"
proof -
  have "spec_lanes (div_abs div0) = - 1" "disjoint_masks (fst (div_abs div0) # snd (div_abs div0))"
    by (simp_all add: div_abs_def div0_fields spec_lanes_def)
  then show ?thesis using divergence_lanes_partition [OF wf_div0 many_branches_fit(1)] by simp
qed

definition div_full :: DivergenceStack where
  "div_full = div0\<lparr> ds_active_mask := 3,
     ds_not_taken_stack := [4, 8, 16, 32, 64, 128, 256, 512], ds_sp := 8 \<rparr>"

theorem divergence_overflow_loses_lanes_witness:
  "ds_overflow (handleBranch (lanes_lt 1) div_full) \<and>
   spec_lanes (div_abs (handleBranch (lanes_lt 1) div_full)) = 1021"
proof -
  have pre: "wf_div div_full" "unat (ds_sp div_full) = MAX_DIVERGENCE_DEPTH"
    "disjoint_masks (fst (div_abs div_full) # snd (div_abs div_full))"
    "branch_not_taken 32 (getActiveMask div_full) (lanes_lt 1) \<noteq> 0"
    by code_simp+
  have "spec_lanes (div_abs div_full) AND NOT (branch_not_taken 32 (getActiveMask div_full)
      (lanes_lt 1)) = 1021"
    by code_simp
  then show ?thesis using divergence_overflow_loses_lanes [OF pre] by simp
qed

theorem uniform_branch_join_pops_outer_witness:
  "div_abs (handleJoin (handleBranch (lanes_lt 32) (handleBranch (lanes_lt 16) div0))) = (- 1, [])"
proof -
  have "wf_div (handleBranch (lanes_lt 16) div0)"
    "div_abs (handleBranch (lanes_lt 16) div0) = (0xFFFF, [0xFFFF0000])"
    "branch_not_taken 32 0xFFFF (lanes_lt 32) = 0"
    by code_simp+
  from uniform_branch_join_pops_outer [OF this] show ?thesis by simp
qed

end
