(* ===== verification/ComputePipeline.thy ===== *)
theory ComputePipeline
  imports DivStack Codec
begin

text \<open>
  One compute unit: \<open>hls/src/compute_unit/compute_pipeline.cpp\<close>. The helpers \<open>executeALU\<close> ...
  \<open>executeJoin\<close>, the per-warp loop \<open>executeOneWarp\<close> and the free-running \<open>compute_pipeline\<close>.

  \<^item> \<open>fpu\<close> is the IEEE single-precision arithmetic of the platform on register bit patterns
    (\<open>floatAsReg(regAsFloat(a) + regAsFloat(b))\<close> ...), a parameter;
  \<^item> \<open>memf\<close> is whatever answers the request stream: \<open>mem_req_out.write(req)\<close> followed by the
    blocking \<open>mem_resp_in.read()\<close> is \<open>memf req m\<close>, which returns the response and its next state;
  \<^item> \<open>vec\<close> is the build flag \<open>RISCV_GPGPU_ENABLE_VECTOR_OPS\<close>.
\<close>

record fpu =
  fp_add :: "u32 \<Rightarrow> u32 \<Rightarrow> u32"
  fp_sub :: "u32 \<Rightarrow> u32 \<Rightarrow> u32"
  fp_mul :: "u32 \<Rightarrow> u32 \<Rightarrow> u32"
  fp_mul_add :: "u32 \<Rightarrow> u32 \<Rightarrow> u32 \<Rightarrow> u32"

type_synonym 'm responder = "mem_req_t \<Rightarrow> 'm \<Rightarrow> mem_resp_t \<times> 'm"

section \<open>Lane operations\<close>

definition alu_lane :: "fpu \<Rightarrow> Instruction \<Rightarrow> RegRow \<Rightarrow> RegRow" where
  "alu_lane fp instr row = (let
     opc = i_opcode instr;
     a = row ! unat (i_rs1 instr);
     b = (if opc = Op_ADDI \<or> opc = Op_LUI then i_imm instr else row ! unat (i_rs2 instr));
     rd = unat (i_rd instr)
   in case opc of
       Op_ADD \<Rightarrow> row[rd := a + b]
     | Op_ADDI \<Rightarrow> row[rd := a + b]
     | Op_SUB \<Rightarrow> row[rd := a - b]
     | Op_AND \<Rightarrow> row[rd := a AND b]
     | Op_OR \<Rightarrow> row[rd := a OR b]
     | Op_XOR \<Rightarrow> row[rd := a XOR b]
     | Op_SLT \<Rightarrow> row[rd := (if sint a < sint b then 1 else 0)]
     | Op_LUI \<Rightarrow> row[rd := push_bit 12 b]
     | Op_FADD \<Rightarrow> row[rd := fp_add fp a b]
     | Op_FMUL \<Rightarrow> row[rd := fp_mul fp a b]
     | _ \<Rightarrow> row)"

definition executeALU :: "fpu \<Rightarrow> Instruction \<Rightarrow> thread_mask_t \<Rightarrow> RegisterFile \<Rightarrow> RegisterFile" where
  "executeALU fp instr msk regs =
     lane_loop MAX_THREADS_PER_WARP (bit msk) (\<lambda>_. alu_lane fp instr) regs"

definition vector_lane :: "fpu \<Rightarrow> Instruction \<Rightarrow> RegRow \<Rightarrow> RegRow" where
  "vector_lane fp instr row = (let
     a = row ! unat (i_rs1 instr);
     b = row ! unat (i_rs2 instr);
     c = row ! unat (i_rd instr);
     rd = unat (i_rd instr)
   in case i_opcode instr of
       Op_VADD \<Rightarrow> row[rd := a + b]
     | Op_VSUB \<Rightarrow> row[rd := a - b]
     | Op_VMUL \<Rightarrow> row[rd := a * b]
     | Op_VFMADD \<Rightarrow> row[rd := a * b + c]
     | Op_VFADD \<Rightarrow> row[rd := fp_add fp a b]
     | Op_VFSUB \<Rightarrow> row[rd := fp_sub fp a b]
     | Op_VFMUL \<Rightarrow> row[rd := fp_mul fp a b]
     | Op_VFFMADD \<Rightarrow> row[rd := fp_mul_add fp a b c]
     | _ \<Rightarrow> row)"

definition executeVector ::
  "bool \<Rightarrow> fpu \<Rightarrow> Instruction \<Rightarrow> thread_mask_t \<Rightarrow> RegisterFile \<Rightarrow> RegisterFile" where
  "executeVector vec fp instr msk regs =
     (if vec then lane_loop MAX_THREADS_PER_WARP (bit msk) (\<lambda>_. vector_lane fp instr) regs
      else regs)"

section \<open>Memory, branch and join\<close>

definition mem_lane_req ::
  "cu_id_t \<Rightarrow> warp_id_t \<Rightarrow> Instruction \<Rightarrow> nat \<Rightarrow> RegRow \<Rightarrow> mem_req_t" where
  "mem_lane_req cu wid instr t row =
     \<lparr> rq_cu_id = cu, rq_warp_id = wid, rq_lane_id = of_nat t,
       rq_address = row ! unat (i_rs1 instr) + i_imm instr,
       rq_is_write = (i_opcode instr = Op_SW),
       rq_write_data = (if i_opcode instr = Op_SW then row ! unat (i_rs2 instr) else 0) \<rparr>"

definition mem_lane ::
  "'m responder \<Rightarrow> cu_id_t \<Rightarrow> warp_id_t \<Rightarrow> Instruction \<Rightarrow> thread_mask_t \<Rightarrow> nat \<Rightarrow>
   RegisterFile \<times> 'm \<Rightarrow> RegisterFile \<times> 'm" where
  "mem_lane memf cu wid instr msk t rm =
     (if \<not> bit msk t then rm
      else let regs = fst rm; row = regs ! t;
               (resp, m') = memf (mem_lane_req cu wid instr t row) (snd rm)
           in (if i_opcode instr = Op_LW then regs[t := row[unat (i_rd instr) := rp_data resp]]
               else regs, m'))"

definition executeMemOp ::
  "'m responder \<Rightarrow> cu_id_t \<Rightarrow> warp_id_t \<Rightarrow> Instruction \<Rightarrow> thread_mask_t \<Rightarrow>
   RegisterFile \<times> 'm \<Rightarrow> RegisterFile \<times> 'm" where
  "executeMemOp memf cu wid instr msk rm =
     fold (mem_lane memf cu wid instr msk) [0..<MAX_THREADS_PER_WARP] rm"

definition branch_conditions :: "Instruction \<Rightarrow> thread_mask_t \<Rightarrow> RegisterFile \<Rightarrow> bool list" where
  "branch_conditions instr msk regs =
     map (\<lambda>t. if bit msk t then regs ! t ! unat (i_rs1 instr) = 0 else False)
       [0..<MAX_THREADS_PER_WARP]"

definition executeBranch ::
  "DivergenceStack \<Rightarrow> RegisterFile \<Rightarrow> Instruction \<Rightarrow> thread_mask_t \<Rightarrow> DivergenceStack" where
  "executeBranch simt regs instr msk = handleBranch (branch_conditions instr msk regs) simt"

definition executeJoin :: "DivergenceStack \<Rightarrow> DivergenceStack" where
  "executeJoin simt = handleJoin simt"

section \<open>One warp\<close>

record 'm warp_run =
  wr_simt :: DivergenceStack
  wr_regs :: RegisterFile
  wr_mem :: 'm

definition execute_instr ::
  "bool \<Rightarrow> fpu \<Rightarrow> 'm responder \<Rightarrow> cu_id_t \<Rightarrow> warp_id_t \<Rightarrow> Instruction \<Rightarrow> 'm warp_run \<Rightarrow> 'm warp_run"
where
  "execute_instr vec fp memf cu wid instr s =
     (let msk = getActiveMask (wr_simt s); opc = i_opcode instr in
      if opc = Op_VBRANCH then
        s\<lparr> wr_simt := executeBranch (wr_simt s) (wr_regs s) instr msk \<rparr>
      else if opc = Op_VJOIN then s\<lparr> wr_simt := executeJoin (wr_simt s) \<rparr>
      else if i_is_memory instr then
        let (regs', m') = executeMemOp memf cu wid instr msk (wr_regs s, wr_mem s)
        in s\<lparr> wr_regs := regs', wr_mem := m' \<rparr>
      else if vec \<and> i_is_vector instr then
        s\<lparr> wr_regs := executeVector vec fp instr msk (wr_regs s) \<rparr>
      else s\<lparr> wr_regs := executeALU fp instr msk (wr_regs s) \<rparr>)"

definition stalled_status :: "Instruction \<Rightarrow> nat \<Rightarrow> u32 \<Rightarrow> warp_status_t" where
  "stalled_status instr i n = warp_status_default\<lparr> ws_code := STALLED_AT_BARRIER,
     ws_barrier_id := i_imm instr, ws_resume_pc := of_nat (i + 1), ws_instr_count := n \<rparr>"

definition complete_status :: "u32 \<Rightarrow> warp_status_t" where
  "complete_status n = warp_status_default\<lparr> ws_code := COMPLETE, ws_barrier_id := 0,
     ws_instr_count := n \<rparr>"

function warp_loop ::
  "bool \<Rightarrow> fpu \<Rightarrow> 'm responder \<Rightarrow> cu_id_t \<Rightarrow> warp_id_t \<Rightarrow> instr_word_t list \<Rightarrow> u32 \<Rightarrow>
   nat \<Rightarrow> u32 \<Rightarrow> 'm warp_run \<Rightarrow> warp_status_t \<times> 'm warp_run"
where
  "warp_loop vec fp memf cu wid program program_len i n s =
     (if \<not> i < unat program_len \<or> i \<ge> MAX_PROGRAM_LEN then (complete_status n, s)
      else let instr = decodeInstruction (program ! i); opc = i_opcode instr in
        if opc = Op_HALT then (complete_status n, s)
        else if opc = Op_BARRIER then (stalled_status instr i (n + 1), s)
        else warp_loop vec fp memf cu wid program program_len (i + 1) (n + 1)
               (execute_instr vec fp memf cu wid instr s))"
  by pat_completeness auto
termination
  by (relation "measure (\<lambda>(_, _, _, _, _, _, _, i, _). MAX_PROGRAM_LEN - i)") auto

declare warp_loop.simps [simp del]

definition executeOneWarp ::
  "bool \<Rightarrow> fpu \<Rightarrow> 'm responder \<Rightarrow> cu_id_t \<Rightarrow> warp_dispatch_t \<Rightarrow> instr_word_t list \<Rightarrow> u32 \<Rightarrow>
   RegisterFile \<Rightarrow> 'm \<Rightarrow> warp_status_t \<times> RegisterFile \<times> 'm"
where
  "executeOneWarp vec fp memf cu d program program_len regs m =
     (let simt = initializeWarp (wd_active_mask_init d) DivergenceStack_default;
          (st, s) = warp_loop vec fp memf cu (wd_warp_id d) program program_len
                      (unat (wd_resume_pc d)) 0
                      \<lparr> wr_simt = simt, wr_regs = regs, wr_mem = m \<rparr>
      in (st, wr_regs s, wr_mem s))"

section \<open>The free-running kernel\<close>

record cp_state =
  cp_dispatch_in :: "warp_dispatch_t list"
  cp_reg_seed_in :: "reg_seed_t list"
  cp_regs :: "RegisterFile list"
  cp_status_out :: "warp_status_t list"

definition seed_write :: "reg_seed_t \<Rightarrow> RegisterFile list \<Rightarrow> RegisterFile list" where
  "seed_write s regs =
     (let k = unat (sd_slot_id s); t = unat (drop_bit 5 (sd_flat_i s));
          r = unat (sd_flat_i s AND 31)
      in regs[k := (regs ! k)[t := (regs ! k ! t)[r := sd_value s]]])"

text \<open>One iteration of \<open>while (true)\<close>; the streams are FIFO queues with the head first.\<close>

definition compute_pipeline_step ::
  "bool \<Rightarrow> fpu \<Rightarrow> 'm responder \<Rightarrow> cu_id_t \<Rightarrow> instr_word_t list \<Rightarrow> u32 \<Rightarrow>
   cp_state \<times> 'm \<Rightarrow> cp_state \<times> 'm"
where
  "compute_pipeline_step vec fp memf cu program program_len sm =
     (let s = fst sm; m = snd sm in
      case cp_reg_seed_in s of
        sd # sds \<Rightarrow> (s\<lparr> cp_reg_seed_in := sds, cp_regs := seed_write sd (cp_regs s) \<rparr>, m)
      | [] \<Rightarrow>
         (case cp_dispatch_in s of
            d # ds \<Rightarrow>
              let k = unat (wd_slot_id d);
                  (st, rf, m') = executeOneWarp vec fp memf cu d program program_len
                                   (cp_regs s ! k) m
              in (s\<lparr> cp_dispatch_in := ds, cp_regs := (cp_regs s)[k := rf],
                     cp_status_out := cp_status_out s @ [st\<lparr> ws_slot_id := wd_slot_id d \<rparr>] \<rparr>, m')
          | [] \<Rightarrow> (s, m)))"

section \<open>Type invariant and frame of each helper\<close>

lemma length_alu_lane [simp]: "length (alu_lane fp instr row) = length row"
  by (simp add: alu_lane_def Let_def split: Opcode.split)

lemma length_vector_lane [simp]: "length (vector_lane fp instr row) = length row"
  by (simp add: vector_lane_def Let_def split: Opcode.split)

lemma executeALU_row:
  "t < length regs \<Longrightarrow> executeALU fp instr msk regs ! t
     = (if t < 32 \<and> bit msk t then alu_lane fp instr (regs ! t) else regs ! t)"
  by (simp add: executeALU_def lane_simps)

lemma executeVector_row:
  "t < length regs \<Longrightarrow> executeVector vec fp instr msk regs ! t
     = (if vec \<and> t < 32 \<and> bit msk t then vector_lane fp instr (regs ! t) else regs ! t)"
  by (simp add: executeVector_def lane_simps)

lemma executeALU_wf [intro]: "wf_regs regs \<Longrightarrow> wf_regs (executeALU fp instr msk regs)"
  by (auto simp: wf_regs_def executeALU_def intro: list_all_lane_loop)

lemma executeVector_wf [intro]: "wf_regs regs \<Longrightarrow> wf_regs (executeVector vec fp instr msk regs)"
  by (auto simp: wf_regs_def executeVector_def intro: list_all_lane_loop)

lemma mem_lane_regs:
  "fst (mem_lane memf cu wid instr msk t rm) =
     (if bit msk t \<and> i_opcode instr = Op_LW
      then (fst rm)[t := (fst rm ! t)[unat (i_rd instr) :=
             rp_data (fst (memf (mem_lane_req cu wid instr t (fst rm ! t)) (snd rm)))]]
      else fst rm)"
  by (simp add: mem_lane_def Let_def split: prod.split)

lemma mem_lane_wf: "wf_regs (fst rm) \<Longrightarrow> t < 32 \<Longrightarrow> wf_regs (fst (mem_lane memf cu wid instr msk t rm))"
  by (auto simp: mem_lane_regs wf_regs_def list_all_length intro!: list_all_update)
     (metis list_all_length nth_list_update_eq nth_list_update_neq length_list_update)

lemma executeMemOp_wf:
  "wf_regs (fst rm) \<Longrightarrow> wf_regs (fst (executeMemOp memf cu wid instr msk rm))"
  unfolding executeMemOp_def
  by (rule fold_invariant_nat [where P = "\<lambda>rm. wf_regs (fst rm)"]) (auto intro: mem_lane_wf)

lemma executeMemOp_inactive:
  assumes "\<not> bit msk u"
  shows "fst (executeMemOp memf cu wid instr msk rm) ! u = fst rm ! u"
  unfolding executeMemOp_def
proof (rule fold_invariant_nat [where P = "\<lambda>rm'. fst rm' ! u = fst rm ! u"])
  fix t and s :: "RegisterFile \<times> 'a" assume "fst s ! u = fst rm ! u"
  then show "fst (mem_lane memf cu wid instr msk t s) ! u = fst rm ! u"
    using assms by (cases "t = u") (simp_all add: mem_lane_regs)
qed simp

section \<open>Invariants of the per-warp loop\<close>

lemma warp_loop_invariant:
  assumes "P s" "\<And>w s. P s \<Longrightarrow> P (execute_instr vec fp memf cu wid (decodeInstruction w) s)"
  shows "P (snd (warp_loop vec fp memf cu wid program program_len i n s))"
  using assms
proof (induction vec fp memf cu wid program program_len i n s rule: warp_loop.induct)
  case (1 vec fp memf cu wid program program_len i n s)
  show ?case
    using 1 by (subst warp_loop.simps) (simp add: Let_def)
qed

definition lanes_sub :: "thread_mask_t \<Rightarrow> thread_mask_t \<Rightarrow> bool" where
  "lanes_sub a b \<longleftrightarrow> a AND NOT b = 0"

lemma lanes_sub_bit: "lanes_sub a b \<longleftrightarrow> (\<forall>k. bit a k \<longrightarrow> bit b k)"
proof
  assume "\<forall>k. bit a k \<longrightarrow> bit b k"
  then show "lanes_sub a b" unfolding lanes_sub_def
    by (intro bit_word_eqI) (auto simp: bit_simps)
next
  assume sub: "lanes_sub a b"
  show "\<forall>k. bit a k \<longrightarrow> bit b k"
  proof (intro allI impI)
    fix k assume a: "bit a k"
    then have "k < 32" using bit_imp_le_length [of a k] by simp
    moreover have "\<not> bit (a AND NOT b) k" using sub by (simp add: lanes_sub_def)
    ultimately show "bit b k" using a by (simp add: bit_simps)
  qed
qed

lemma lanes_sub_trans: "lanes_sub a b \<Longrightarrow> lanes_sub b c \<Longrightarrow> lanes_sub a c"
  by (auto simp: lanes_sub_bit)

lemma handleBranch_full:
  assumes "wf_div s" "\<not> unat (ds_sp s) < MAX_DIVERGENCE_DEPTH"
  shows "div_abs (handleBranch c s) = (branch_taken 32 (ds_active_mask s) c, snd (div_abs s))"
  using assms by (auto simp: handleBranch_def Let_def pushDivergence_def div_abs_def branch_taken_all)

lemma handleBranch_lanes_sub:
  assumes "wf_div s"
  shows "lanes_sub (spec_lanes (div_abs (handleBranch c s))) (spec_lanes (div_abs s))"
proof (cases "unat (ds_sp s) < MAX_DIVERGENCE_DEPTH")
  case True
  then show ?thesis by (simp add: handleBranch_abs [OF assms] spec_branch_lanes lanes_sub_bit)
next
  case False
  then show ?thesis using handleBranch_full [OF assms False, of c]
    by (auto simp: spec_lanes_def lanes_sub_bit bit_simps branch_taken_def div_abs_mask)
qed

lemma handleJoin_lanes_sub:
  "wf_div s \<Longrightarrow> lanes_sub (spec_lanes (div_abs (handleJoin s))) (spec_lanes (div_abs s))"
  by (simp add: handleJoin_abs spec_join_lanes lanes_sub_bit)

text \<open>What every instruction of a warp keeps, relative to the state at dispatch.\<close>

definition warp_inv :: "thread_mask_t \<Rightarrow> RegisterFile \<Rightarrow> 'm warp_run \<Rightarrow> bool" where
  "warp_inv msk regs0 s \<longleftrightarrow> wf_div (wr_simt s) \<and> wf_regs (wr_regs s) \<and>
     lanes_sub (spec_lanes (div_abs (wr_simt s))) msk \<and>
     (\<forall>t<32. \<not> bit msk t \<longrightarrow> wr_regs s ! t = regs0 ! t)"

lemma active_within: "warp_inv msk regs0 s \<Longrightarrow> \<not> bit msk t \<Longrightarrow> \<not> bit (ds_active_mask (wr_simt s)) t"
  by (auto simp: warp_inv_def lanes_sub_bit spec_lanes_def div_abs_def bit_simps)

lemma execute_instr_inv:
  assumes "warp_inv msk regs0 s"
  shows "warp_inv msk regs0 (execute_instr vec fp memf cu wid instr s)"
proof -
  have wf: "wf_div (wr_simt s)" "wf_regs (wr_regs s)" "length (wr_regs s) = 32"
    and sub: "lanes_sub (spec_lanes (div_abs (wr_simt s))) msk"
    and same: "\<And>t. t < 32 \<Longrightarrow> \<not> bit msk t \<Longrightarrow> wr_regs s ! t = regs0 ! t"
    using assms by (auto simp: warp_inv_def wf_regs_def)
  show ?thesis
    using wf sub same active_within [OF assms]
    by (auto simp: warp_inv_def execute_instr_def Let_def executeBranch_def executeJoin_def
        getActiveMask_def handleBranch_wf handleJoin_wf executeALU_row executeVector_row
        executeMemOp_inactive executeMemOp_wf split_def
        intro: lanes_sub_trans [OF handleBranch_lanes_sub] lanes_sub_trans [OF handleJoin_lanes_sub])
qed

lemma warp_loop_inv:
  "warp_inv msk regs0 s \<Longrightarrow>
   warp_inv msk regs0 (snd (warp_loop vec fp memf cu wid program program_len i n s))"
  by (rule warp_loop_invariant) (auto intro: execute_instr_inv)

section \<open>Properties\<close>

text \<open>C36: whatever the program does, a dispatch keeps the shape of the register file and never writes a
  register of a lane outside \<open>active_mask_init\<close>, even after a divergence-stack overflow.\<close>

theorem warp_touches_only_its_lanes:
  assumes "wf_regs regs"
    and "executeOneWarp vec fp memf cu d program program_len regs m = (st, regs', m')"
  shows "wf_regs regs' \<and>
    (\<forall>t<32. \<not> bit (wd_active_mask_init d) t \<longrightarrow> regs' ! t = regs ! t)"
proof -
  let ?s = "\<lparr> wr_simt = initializeWarp (wd_active_mask_init d) DivergenceStack_default,
    wr_regs = regs, wr_mem = m \<rparr>"
  have "warp_inv (wd_active_mask_init d) regs ?s"
    using assms(1) by (simp add: warp_inv_def initializeWarp_abs initializeWarp_wf spec_lanes_def
        lanes_sub_bit)
  from warp_loop_inv [OF this] have "warp_inv (wd_active_mask_init d) regs
      (snd (warp_loop vec fp memf cu (wd_warp_id d) program program_len
        (unat (wd_resume_pc d)) 0 ?s))" .
  then show ?thesis using assms(2)
    by (auto simp: executeOneWarp_def warp_inv_def Let_def split: prod.splits)
qed

subsection \<open>Immediate loads\<close>

lemma decode_lui: "decodeInstruction (encodeInstruction Op_LUI rd rs1 rs2 im)
    = mk_instr Op_LUI (reg5 rd) 0 0 (take_bit 20 im)"
  by (simp add: decode_encode carried_def)

lemma decode_addi: "decodeInstruction (encodeInstruction Op_ADDI rd rs1 rs2 im)
    = mk_instr Op_ADDI (reg5 rd) (reg5 rs1) 0 (signed_take_bit 11 im)"
  by (simp add: decode_encode carried_def)

lemma alu_lane_lui:
  "alu_lane fp (mk_instr Op_LUI rd rs1 rs2 im) row = row[unat rd := push_bit 12 im]"
  by (simp add: alu_lane_def mk_instr_def)

lemma alu_lane_addi:
  "alu_lane fp (mk_instr Op_ADDI rd rs1 rs2 im) row = row[unat rd := row ! unat rs1 + im]"
  by (simp add: alu_lane_def mk_instr_def)

text \<open>The words emitted for \<open>ADDI rd, x0, imm\<close>, one or two, leave exactly \<open>imm\<close> in \<open>rd\<close> of every
  active lane whose \<open>x0\<close> holds 0, for every 32-bit immediate, and no other register changes.\<close>

theorem li_expansion_loads_immediate:
  assumes "wf_regs regs" "t < 32" "bit msk t" "rd < 32" "regs ! t ! 0 = 0"
  shows "fold (\<lambda>w. executeALU fp (decodeInstruction w) msk)
      (encodeInstructionExpanded Op_ADDI rd 0 rs2 im) regs ! t = (regs ! t)[unat rd := im]"
proof -
  have len: "length regs = 32" "length (regs ! t) = 32"
    using assms(1,2) wf_regs_row by (auto simp: wf_regs_def)
  have rd: "unat rd < 32" using assms(4) by (simp add: word_less_nat_alt)
  show ?thesis
  proof (cases "needsExpansion Op_ADDI 0 im")
    case True
    then show ?thesis using len assms(2,3) rd li_split [of im]
      by (simp add: encodeInstructionExpanded_def Let_def decode_lui decode_addi executeALU_row
          executeALU_def [THEN arg_cong, of length] alu_lane_lui alu_lane_addi
          reg5_id [OF assms(4)])
  next
    case False
    then have "signed_take_bit 11 im = im"
      by (intro signed_take_bit_id) (auto simp: needsExpansion_def)
    with False show ?thesis using len assms
      by (simp add: encodeInstructionExpanded_def decode_addi executeALU_row alu_lane_addi
          reg5_id [OF assms(4)] reg5_id [of 0])
  qed
qed

subsection \<open>Memory requests\<close>

text \<open>The requests answered one after the other, tagged with their lane.\<close>

fun answer_all :: "'m responder \<Rightarrow> (nat \<Rightarrow> mem_req_t) \<Rightarrow> nat list \<Rightarrow> 'm \<Rightarrow> (nat \<times> mem_resp_t) list \<times> 'm"
where
  "answer_all memf req [] m = ([], m)"
| "answer_all memf req (t # ts) m =
     (let (r, m1) = memf (req t) m; (rs, m2) = answer_all memf req ts m1 in ((t, r) # rs, m2))"

lemma answer_all_keys: "map fst (fst (answer_all memf req ts m)) = ts"
  by (induction ts arbitrary: m) (simp_all add: split_def Let_def)

lemma answer_all_cong:
  "(\<And>t. t \<in> set ts \<Longrightarrow> f t = g t) \<Longrightarrow> answer_all memf f ts m = answer_all memf g ts m"
  by (induction ts arbitrary: m) (auto simp: Let_def)

definition lane_result :: "Instruction \<Rightarrow> RegRow \<Rightarrow> mem_resp_t option \<Rightarrow> RegRow" where
  "lane_result instr row r = (case r of None \<Rightarrow> row
     | Some r \<Rightarrow> if i_opcode instr = Op_LW then row[unat (i_rd instr) := rp_data r] else row)"

lemma fold_mem_lane:
  assumes "distinct ts" "\<forall>t \<in> set ts. t < length regs"
  shows "(let (rs, m') = answer_all memf (\<lambda>t. mem_lane_req cu wid instr t (regs ! t))
                           (filter (bit msk) ts) m
          in snd (fold (mem_lane memf cu wid instr msk) ts (regs, m)) = m' \<and>
             (\<forall>u < length regs. fst (fold (mem_lane memf cu wid instr msk) ts (regs, m)) ! u
                = lane_result instr (regs ! u) (map_of rs u)))"
  using assms
proof (induction ts arbitrary: regs m)
  case Nil
  then show ?case by (simp add: lane_result_def)
next
  case (Cons t ts)
  show ?case
  proof (cases "bit msk t")
    case False
    then show ?thesis using Cons by (simp add: mem_lane_def)
  next
    case True
    obtain r m1 where r: "memf (mem_lane_req cu wid instr t (regs ! t)) m = (r, m1)"
      by (cases "memf (mem_lane_req cu wid instr t (regs ! t)) m")
    define regs1 where "regs1 = regs[t := lane_result instr (regs ! t) (Some r)]"
    have step: "mem_lane memf cu wid instr msk t (regs, m) = (regs1, m1)"
      using True by (simp add: mem_lane_def r regs1_def lane_result_def)
    have len1: "length regs1 = length regs" by (simp add: regs1_def)
    have keep: "\<And>u. u \<in> set ts \<Longrightarrow> regs1 ! u = regs ! u"
      using Cons.prems(1) by (metis distinct.simps(2) nth_list_update_neq regs1_def)
    have eq: "answer_all memf (\<lambda>t. mem_lane_req cu wid instr t (regs1 ! t)) (filter (bit msk) ts) m1
      = answer_all memf (\<lambda>t. mem_lane_req cu wid instr t (regs ! t)) (filter (bit msk) ts) m1"
      by (intro answer_all_cong) (simp add: keep)
    obtain rs m2 where rs: "answer_all memf (\<lambda>t. mem_lane_req cu wid instr t (regs ! t))
        (filter (bit msk) ts) m1 = (rs, m2)"
      by (cases "answer_all memf (\<lambda>t. mem_lane_req cu wid instr t (regs ! t))
        (filter (bit msk) ts) m1")
    have keys: "map fst rs = filter (bit msk) ts"
      using answer_all_keys rs by (metis fst_conv)
    then have none: "map_of rs t = None"
      using Cons.prems(1) by (auto simp: map_of_eq_None_iff image_image simp flip: set_map)
    have IH: "snd (fold (mem_lane memf cu wid instr msk) ts (regs1, m1)) = m2"
      "\<And>u. u < length regs \<Longrightarrow> fst (fold (mem_lane memf cu wid instr msk) ts (regs1, m1)) ! u
         = lane_result instr (regs1 ! u) (map_of rs u)"
      using Cons.IH [of regs1 m1] Cons.prems len1 by (auto simp: eq rs)
    show ?thesis
      using True Cons.prems(2) IH none
      by (auto simp: r rs step regs1_def nth_list_update lane_result_def [of instr _ None])
  qed
qed

text \<open>A load or store issues one request per active lane in lane order, with the address and
  data of that lane's registers before the instruction, and a load writes each answer to \<open>rd\<close> of
  the lane that asked; nothing else changes.\<close>

theorem memory_op_requests:
  assumes "wf_regs regs"
    and "answer_all memf (\<lambda>t. mem_lane_req cu wid instr t (regs ! t))
           (filter (bit msk) [0..<32]) m = (rs, m')"
    and "t < 32"
  shows "snd (executeMemOp memf cu wid instr msk (regs, m)) = m' \<and>
    fst (executeMemOp memf cu wid instr msk (regs, m)) ! t = lane_result instr (regs ! t) (map_of rs t)"
proof -
  have "length regs = 32" using assms(1) by (simp add: wf_regs_def)
  then show ?thesis
    using fold_mem_lane [of "[0..<32]" regs memf cu wid instr msk m] assms(2,3)
    by (simp add: executeMemOp_def)
qed

subsection \<open>Barriers and completion\<close>

lemma status_fields [simp]:
  "ws_code (complete_status n) = COMPLETE"
  "ws_code (stalled_status instr i n) = STALLED_AT_BARRIER"
  "ws_barrier_id (stalled_status instr i n) = i_imm instr"
  "ws_resume_pc (stalled_status instr i n) = of_nat (i + 1)"
  "ws_instr_count (stalled_status instr i n) = n"
  by (simp_all add: complete_status_def stalled_status_def)

lemma warp_loop_stop:
  "\<not> i < unat program_len \<or> i \<ge> MAX_PROGRAM_LEN \<or>
     i_opcode (decodeInstruction (program ! i)) = Op_HALT \<Longrightarrow>
   warp_loop vec fp memf cu wid program program_len i n s = (complete_status n, s)"
  by (subst warp_loop.simps) (auto simp: Let_def)

lemma warp_loop_barrier:
  "i < unat program_len \<Longrightarrow> i < MAX_PROGRAM_LEN \<Longrightarrow>
   i_opcode (decodeInstruction (program ! i)) = Op_BARRIER \<Longrightarrow>
   warp_loop vec fp memf cu wid program program_len i n s =
     (stalled_status (decodeInstruction (program ! i)) i (n + 1), s)"
  by (subst warp_loop.simps) (auto simp: Let_def)

lemma warp_loop_next:
  "i < unat program_len \<Longrightarrow> i < MAX_PROGRAM_LEN \<Longrightarrow>
   i_opcode (decodeInstruction (program ! i)) \<notin> {Op_HALT, Op_BARRIER} \<Longrightarrow>
   warp_loop vec fp memf cu wid program program_len i n s =
     warp_loop vec fp memf cu wid program program_len (i + 1) (n + 1)
       (execute_instr vec fp memf cu wid (decodeInstruction (program ! i)) s)"
  by (subst warp_loop.simps) (auto simp: Let_def)

text \<open>How the loop can end: at a \<open>BARRIER\<close> it reached (index \<open>j\<close>), or by completing.\<close>

lemma warp_loop_ends:
  "warp_loop vec fp memf cu wid program program_len i n s = (st, s') \<Longrightarrow>
   ws_code st = COMPLETE \<or>
   (\<exists>j. i \<le> j \<and> j < unat program_len \<and> j < MAX_PROGRAM_LEN \<and>
      i_opcode (decodeInstruction (program ! j)) = Op_BARRIER \<and>
      st = stalled_status (decodeInstruction (program ! j)) j (n + of_nat (j - i) + 1))"
proof (induction vec fp memf cu wid program program_len i n s rule: warp_loop.induct)
  case (1 vec fp memf cu wid program program_len i n s)
  define instr where "instr = decodeInstruction (program ! i)"
  let ?s1 = "execute_instr vec fp memf cu wid instr s"
  consider (stop) "\<not> i < unat program_len \<or> i \<ge> MAX_PROGRAM_LEN \<or> i_opcode instr = Op_HALT"
    | (barrier) "i < unat program_len" "i < MAX_PROGRAM_LEN" "i_opcode instr = Op_BARRIER"
    | (other) "i < unat program_len" "i < MAX_PROGRAM_LEN" "i_opcode instr \<noteq> Op_HALT"
        "i_opcode instr \<noteq> Op_BARRIER"
    by fastforce
  then show ?case
  proof cases
    case stop
    then have "(st, s') = (complete_status n, s)"
      using 1(2) warp_loop_stop unfolding instr_def by metis
    then show ?thesis by simp
  next
    case barrier
    then have "(st, s') = (stalled_status instr i (n + 1), s)"
      using 1(2) warp_loop_barrier unfolding instr_def by metis
    with barrier show ?thesis by (auto simp: instr_def intro!: exI [of _ i])
  next
    case other
    then have rec: "warp_loop vec fp memf cu wid program program_len (i + 1) (n + 1) ?s1 = (st, s')"
      using 1(2) warp_loop_next [of i program_len program vec fp memf cu wid n s]
      unfolding instr_def by simp
    have "ws_code st = COMPLETE \<or> (\<exists>j. i + 1 \<le> j \<and> j < unat program_len \<and> j < MAX_PROGRAM_LEN \<and>
        i_opcode (decodeInstruction (program ! j)) = Op_BARRIER \<and>
        st = stalled_status (decodeInstruction (program ! j)) j
               (n + 1 + of_nat (j - (i + 1)) + 1))"
    proof (rule 1(1) [OF _ refl refl _ _ rec [unfolded instr_def]])
      show "\<not> (\<not> i < unat program_len \<or> MAX_PROGRAM_LEN \<le> i)" using other by linarith
    qed (use other in \<open>auto simp: instr_def\<close>)
    then consider "ws_code st = COMPLETE"
      | j where "i + 1 \<le> j" "j < unat program_len" "j < MAX_PROGRAM_LEN"
          "i_opcode (decodeInstruction (program ! j)) = Op_BARRIER"
          "st = stalled_status (decodeInstruction (program ! j)) j (n + 1 + of_nat (j - (i + 1)) + 1)"
      by blast
    then show ?thesis
    proof cases
      case (2 j)
      have "(of_nat (j - i) :: u32) = 1 + of_nat (j - (i + 1))"
        using 2(1) by (metis Suc_diff_le add.commute diff_Suc_Suc of_nat_Suc plus_1_eq_Suc)
      with 2 show ?thesis by (intro disjI2 exI [of _ j]) (simp add: add.assoc)
    qed blast
  qed
qed

text \<open>A stall names a \<open>BARRIER\<close> of the program at or after the resume point, with its id, resumes
  right after it, and counts every instruction up to and including it.\<close>

theorem stall_reports_barrier:
  assumes "executeOneWarp vec fp memf cu d program program_len regs m = (st, regs', m')"
    and "ws_code st = STALLED_AT_BARRIER"
  shows "\<exists>j. unat (wd_resume_pc d) \<le> j \<and> j < unat program_len \<and> j < MAX_PROGRAM_LEN \<and>
    i_opcode (decodeInstruction (program ! j)) = Op_BARRIER \<and>
    ws_barrier_id st = i_imm (decodeInstruction (program ! j)) \<and>
    unat (ws_resume_pc st) = j + 1 \<and>
    unat (ws_instr_count st) = j + 1 - unat (wd_resume_pc d)"
proof -
  obtain s' where loop: "warp_loop vec fp memf cu (wd_warp_id d) program program_len
      (unat (wd_resume_pc d)) 0 \<lparr> wr_simt = initializeWarp (wd_active_mask_init d)
      DivergenceStack_default, wr_regs = regs, wr_mem = m \<rparr> = (st, s')"
    using assms(1) by (auto simp: executeOneWarp_def Let_def split: prod.splits)
  from warp_loop_ends [OF loop] assms(2) obtain j where
    j: "unat (wd_resume_pc d) \<le> j" "j < unat program_len" "j < MAX_PROGRAM_LEN"
      "i_opcode (decodeInstruction (program ! j)) = Op_BARRIER"
      "st = stalled_status (decodeInstruction (program ! j)) j (of_nat (j - unat (wd_resume_pc d)) + 1)"
    by force
  have "unat (of_nat (j + 1) :: u16) = j + 1"
    using j(3) by (simp only: unat_of_nat) simp
  moreover have "unat (of_nat (j - unat (wd_resume_pc d)) + 1 :: u32) = j + 1 - unat (wd_resume_pc d)"
  proof -
    have "(of_nat (j - unat (wd_resume_pc d)) + 1 :: u32) = of_nat (j - unat (wd_resume_pc d) + 1)"
      by simp
    then show ?thesis using j(1,3) by (simp only: unat_of_nat) simp
  qed
  ultimately show ?thesis using j
    by (intro exI [of _ j]) simp
qed

text \<open>A warp that is dispatched again after every stall, as \<open>CuDispatchUnit\<close> does.\<close>

fun run_warp ::
  "nat \<Rightarrow> bool \<Rightarrow> fpu \<Rightarrow> 'm responder \<Rightarrow> cu_id_t \<Rightarrow> warp_dispatch_t \<Rightarrow> instr_word_t list \<Rightarrow> u32 \<Rightarrow>
   RegisterFile \<Rightarrow> 'm \<Rightarrow> (RegisterFile \<times> 'm) option"
where
  "run_warp 0 vec fp memf cu d program program_len regs m = None"
| "run_warp (Suc k) vec fp memf cu d program program_len regs m =
     (let (st, regs', m') = executeOneWarp vec fp memf cu d program program_len regs m in
      if ws_code st = COMPLETE then Some (regs', m')
      else run_warp k vec fp memf cu (d\<lparr> wd_resume_pc := ws_resume_pc st \<rparr>) program program_len
             regs' m')"

lemma stall_advances:
  assumes "executeOneWarp vec fp memf cu d program program_len regs m = (st, regs', m')"
    and "ws_code st \<noteq> COMPLETE"
  shows "unat (wd_resume_pc d) < unat (ws_resume_pc st)" "unat (ws_resume_pc st) \<le> MAX_PROGRAM_LEN"
proof -
  obtain s' where loop: "warp_loop vec fp memf cu (wd_warp_id d) program program_len
      (unat (wd_resume_pc d)) 0 \<lparr> wr_simt = initializeWarp (wd_active_mask_init d)
      DivergenceStack_default, wr_regs = regs, wr_mem = m \<rparr> = (st, s')"
    using assms(1) by (auto simp: executeOneWarp_def Let_def split: prod.splits)
  from warp_loop_ends [OF loop] assms(2) obtain j where
    j: "unat (wd_resume_pc d) \<le> j" "j < MAX_PROGRAM_LEN" "ws_resume_pc st = of_nat (j + 1)"
    by (metis status_fields(4))
  have "unat (of_nat (j + 1) :: u16) = j + 1"
    using j(2) by (simp only: unat_of_nat) simp
  with j show "unat (wd_resume_pc d) < unat (ws_resume_pc st)"
    "unat (ws_resume_pc st) \<le> MAX_PROGRAM_LEN"
    by simp_all
qed

lemma run_warp_enough:
  "MAX_PROGRAM_LEN + 1 - unat (wd_resume_pc d) < k \<Longrightarrow>
   run_warp k vec fp memf cu d program program_len regs m \<noteq> None"
proof (induction k arbitrary: d regs m)
  case (Suc k)
  obtain st regs' m' where
    e: "executeOneWarp vec fp memf cu d program program_len regs m = (st, regs', m')"
    by (cases "executeOneWarp vec fp memf cu d program program_len regs m")
  show ?case
  proof (cases "ws_code st = COMPLETE")
    case False
    then have "MAX_PROGRAM_LEN + 1 - unat (ws_resume_pc st) < k"
      using stall_advances [OF e False] Suc.prems by simp
    then show ?thesis using Suc.IH e False by simp
  qed (simp add: e)
qed simp

text \<open>C19: a warp that is released after each stall completes after at most
  \<open>MAX_PROGRAM_LEN + 1\<close> further dispatches, whatever the program and the memory.\<close>

theorem warp_completes:
  "\<exists>regs' m'. run_warp (MAX_PROGRAM_LEN + 2) vec fp memf cu d program program_len regs m
     = Some (regs', m')"
  using run_warp_enough [of d "MAX_PROGRAM_LEN + 2" vec fp memf cu program program_len regs m]
  by auto

subsection \<open>The dispatch loop\<close>

definition compute_pipeline ::
  "nat \<Rightarrow> bool \<Rightarrow> fpu \<Rightarrow> 'm responder \<Rightarrow> cu_id_t \<Rightarrow> instr_word_t list \<Rightarrow> u32 \<Rightarrow>
   cp_state \<times> 'm \<Rightarrow> cp_state \<times> 'm"
where
  "compute_pipeline k vec fp memf cu program program_len =
     compute_pipeline_step vec fp memf cu program program_len ^^ k"

lemma compute_pipeline_Suc:
  "compute_pipeline (Suc k) vec fp memf cu program program_len sm =
   compute_pipeline k vec fp memf cu program program_len
     (compute_pipeline_step vec fp memf cu program program_len sm)"
  by (simp add: compute_pipeline_def funpow_swap1)

lemma compute_pipeline_add:
  "compute_pipeline (a + b) vec fp memf cu program program_len sm =
   compute_pipeline b vec fp memf cu program program_len
     (compute_pipeline a vec fp memf cu program program_len sm)"
  by (simp add: compute_pipeline_def add.commute [of a] funpow_add)

lemma compute_pipeline_seeds:
  "cp_reg_seed_in s = sds \<Longrightarrow>
   compute_pipeline (length sds) vec fp memf cu program program_len (s, m) =
     (s\<lparr> cp_reg_seed_in := [], cp_regs := fold seed_write sds (cp_regs s) \<rparr>, m)"
proof (induction sds arbitrary: s)
  case Nil
  then show ?case by (simp add: compute_pipeline_def)
next
  case (Cons sd sds)
  then show ?case
    by (simp add: compute_pipeline_Suc compute_pipeline_step_def)
qed

lemma compute_pipeline_dispatches:
  "cp_reg_seed_in s = [] \<Longrightarrow> cp_dispatch_in s = ds \<Longrightarrow>
   (let s' = fst (compute_pipeline (length ds) vec fp memf cu program program_len (s, m)) in
    cp_dispatch_in s' = [] \<and> cp_reg_seed_in s' = [] \<and>
    map ws_slot_id (cp_status_out s') = map ws_slot_id (cp_status_out s) @ map wd_slot_id ds)"
proof (induction ds arbitrary: s m)
  case Nil
  then show ?case by (simp add: compute_pipeline_def)
next
  case (Cons d ds)
  obtain st rf m' where e: "executeOneWarp vec fp memf cu d program program_len
      (cp_regs s ! unat (wd_slot_id d)) m = (st, rf, m')"
    by (cases "executeOneWarp vec fp memf cu d program program_len
      (cp_regs s ! unat (wd_slot_id d)) m")
  then show ?case
    using Cons.prems Cons.IH [of "s\<lparr> cp_dispatch_in := ds,
        cp_regs := (cp_regs s)[unat (wd_slot_id d) := rf],
        cp_status_out := cp_status_out s @ [st\<lparr> ws_slot_id := wd_slot_id d \<rparr>] \<rparr>" m']
    by (simp add: compute_pipeline_Suc compute_pipeline_step_def Let_def)
qed

text \<open>Every register seed in the stream is written before the first dispatch runs; then each
  queued dispatch is answered by exactly one status, in order, tagged with its slot, and both input
  streams end empty.\<close>

theorem pipeline_seeds_then_answers:
  assumes "cp_reg_seed_in s = sds" "cp_dispatch_in s = ds"
  shows "compute_pipeline (length sds) vec fp memf cu program program_len (s, m)
      = (s\<lparr> cp_reg_seed_in := [], cp_regs := fold seed_write sds (cp_regs s) \<rparr>, m) \<and>
    (let s' = fst (compute_pipeline (length sds + length ds) vec fp memf cu program program_len (s, m))
     in cp_dispatch_in s' = [] \<and> cp_reg_seed_in s' = [] \<and>
        map ws_slot_id (cp_status_out s') = map ws_slot_id (cp_status_out s) @ map wd_slot_id ds)"
proof -
  let ?s1 = "s\<lparr> cp_reg_seed_in := [], cp_regs := fold seed_write sds (cp_regs s) \<rparr>"
  have 1: "compute_pipeline (length sds) vec fp memf cu program program_len (s, m) = (?s1, m)"
    by (rule compute_pipeline_seeds [OF assms(1)])
  have "compute_pipeline (length sds + length ds) vec fp memf cu program program_len (s, m)
      = compute_pipeline (length ds) vec fp memf cu program program_len (?s1, m)"
    by (simp only: compute_pipeline_add 1)
  moreover have "let s' = fst (compute_pipeline (length ds) vec fp memf cu program program_len (?s1, m))
     in cp_dispatch_in s' = [] \<and> cp_reg_seed_in s' = [] \<and>
        map ws_slot_id (cp_status_out s') = map ws_slot_id (cp_status_out s) @ map wd_slot_id ds"
    using compute_pipeline_dispatches [of ?s1 ds vec fp memf cu program program_len m] assms(2)
    by simp
  ultimately show ?thesis using 1 by simp
qed

section \<open>Witnesses\<close>

definition fpu0 :: fpu where
  "fpu0 = \<lparr> fp_add = (\<lambda>a b. a + b), fp_sub = (\<lambda>a b. a - b), fp_mul = (\<lambda>a b. a * b),
            fp_mul_add = (\<lambda>a b c. a * b + c) \<rparr>"

definition mem0 :: "(u32 \<Rightarrow> u32) responder" where
  "mem0 r m = (\<lparr> rp_cu_id = rq_cu_id r, rp_warp_id = rq_warp_id r, rp_lane_id = rq_lane_id r,
       rp_data = (if rq_is_write r then 0 else m (rq_address r)) \<rparr>,
     if rq_is_write r then m(rq_address r := rq_write_data r) else m)"

definition regs0 :: RegisterFile where
  "regs0 = replicate 32 (replicate 32 0)"

definition dispatch0 :: warp_dispatch_t where
  "dispatch0 = \<lparr> wd_slot_id = 2, wd_warp_id = 5, wd_active_mask_init = 0xFF, wd_resume_pc = 0,
     wd_fresh_launch = True \<rparr>"

definition barrier_program :: "instr_word_t list" where
  "barrier_program = [encodeInstruction Op_ADDI 1 0 0 5, encodeInstruction Op_BARRIER 0 0 0 7,
     encodeInstruction Op_HALT 0 0 0 0]"

lemma wf_regs0: "wf_regs regs0"
  by (simp add: wf_regs_def regs0_def list_all_iff)

theorem warp_touches_only_its_lanes_witness:
  "fst (snd (executeOneWarp False fpu0 mem0 0 dispatch0 barrier_program 3 regs0 (\<lambda>_. 0))) ! 9
     = replicate 32 0"
proof -
  obtain st regs' m' where e: "executeOneWarp False fpu0 mem0 0 dispatch0 barrier_program 3 regs0
      (\<lambda>_. 0) = (st, regs', m')"
    by (cases "executeOneWarp False fpu0 mem0 0 dispatch0 barrier_program 3 regs0 (\<lambda>_. 0)")
  have "\<not> bit (wd_active_mask_init dispatch0) 9" "regs0 ! 9 = replicate 32 0" by code_simp+
  with warp_touches_only_its_lanes [OF wf_regs0 e] have "regs' ! 9 = replicate 32 0" by simp
  then show ?thesis by (simp add: e)
qed

theorem li_expansion_loads_immediate_witness:
  "fold (\<lambda>w. executeALU fpu0 (decodeInstruction w) 1)
     (encodeInstructionExpanded Op_ADDI 3 0 0 0xDEADBEEF) regs0 ! 0 = (regs0 ! 0)[3 := 0xDEADBEEF]"
  using li_expansion_loads_immediate [OF wf_regs0, where t = 0 and msk = 1 and rd = 3
      and fp = fpu0 and ?rs2.0 = 0 and im = "0xDEADBEEF"]
  by (simp add: regs0_def)

theorem memory_op_requests_witness:
  "snd (executeMemOp mem0 0 0 (mk_instr Op_SW 0 1 2 8) 1 (regs0, \<lambda>_. 3)) 8 = 0"
proof -
  define ins where "ins = mk_instr Op_SW 0 1 2 8"
  obtain rs m' where a: "answer_all mem0 (\<lambda>t. mem_lane_req 0 0 ins t (regs0 ! t))
      (filter (bit (1 :: u32)) [0..<32]) (\<lambda>_. 3) = (rs, m')"
    by (cases "answer_all mem0 (\<lambda>t. mem_lane_req 0 0 ins t (regs0 ! t))
      (filter (bit (1 :: u32)) [0..<32]) (\<lambda>_. 3)")
  have "filter (bit (1 :: u32)) [0..<32] = [0]" by code_simp
  then have "m' 8 = 0"
    using a by (auto simp: ins_def mem_lane_req_def mem0_def mk_instr_def regs0_def Let_def)
  with memory_op_requests [OF wf_regs0 a, of 0] show ?thesis by (simp add: ins_def)
qed

theorem stall_reports_barrier_witness:
  "\<exists>j. j < 3 \<and> i_opcode (decodeInstruction (barrier_program ! j)) = Op_BARRIER"
proof -
  obtain st regs' m' where e: "executeOneWarp False fpu0 mem0 0 dispatch0 barrier_program 3 regs0
      (\<lambda>_. 0) = (st, regs', m')"
    by (cases "executeOneWarp False fpu0 mem0 0 dispatch0 barrier_program 3 regs0 (\<lambda>_. 0)")
  have dec: "decodeInstruction (barrier_program ! 0) = mk_instr Op_ADDI 1 0 0 5"
    "i_opcode (decodeInstruction (barrier_program ! Suc 0)) = Op_BARRIER"
    by code_simp+
  have "ws_code st = STALLED_AT_BARRIER"
    using e by (auto simp: executeOneWarp_def dispatch0_def Let_def warp_loop_next warp_loop_barrier
        dec mk_instr_def split: prod.splits)
  from stall_reports_barrier [OF e this] show ?thesis by auto
qed

theorem pipeline_seeds_then_answers_witness:
  "map ws_slot_id (cp_status_out (fst (compute_pipeline 3 False fpu0 mem0 0 barrier_program 3
     (\<lparr> cp_dispatch_in = [dispatch0, dispatch0\<lparr> wd_slot_id := 4 \<rparr>],
        cp_reg_seed_in = [\<lparr> sd_slot_id = 2, sd_flat_i = 33, sd_value = 7 \<rparr>],
        cp_regs = replicate 8 regs0, cp_status_out = [] \<rparr>, \<lambda>_. 0)))) = [2, 4]"
  using pipeline_seeds_then_answers [OF refl refl, where vec = False and fp = fpu0 and memf = mem0
     and cu = 0 and program = barrier_program and program_len = 3 and m = "\<lambda>_. 0" and s = "\<lparr> cp_dispatch_in = [dispatch0, dispatch0\<lparr> wd_slot_id := 4 \<rparr>],
        cp_reg_seed_in = [\<lparr> sd_slot_id = 2, sd_flat_i = 33, sd_value = 7 \<rparr>],
        cp_regs = replicate 8 regs0, cp_status_out = [] \<rparr>"]
  by (simp add: Let_def dispatch0_def numeral_eq_Suc)

end
