(* ===== verification/GoldenSimt.thy ===== *)
theory GoldenSimt
  imports DivStack
begin

text \<open>
  The SIMT controller of the SystemC golden model
  (\<open>models/systemc/src/simt_controller/simt_controller.{h,cpp}\<close>): per-warp masks and unbounded
  divergence stacks in vectors indexed by the warp id, and the barrier table. It is a second
  instance of \<open>simt_unit\<close>, which gives the parity with the synthesizable \<open>DivergenceStack\<close>.
\<close>

section \<open>State\<close>

record SimtStack =
  ss_pc_stack :: "u32 list"
  ss_mask_stack :: "u32 list"
  ss_thread_masks :: "u32 list"

definition SimtStack_default :: SimtStack where
  "SimtStack_default = \<lparr> ss_pc_stack = [], ss_mask_stack = [], ss_thread_masks = [] \<rparr>"

record SIMTController =
  sc_divergence_stacks :: "SimtStack list"
  sc_active_masks :: "u32 list"
  sc_threads_per_warp :: "u32 list"
  sc_barrier_table :: "u32 \<rightharpoonup> u32 set"
  sc_divergence_events :: u32
  sc_wasted_cycles :: u32

definition SIMTController_default :: SIMTController where
  "SIMTController_default = \<lparr> sc_divergence_stacks = [], sc_active_masks = [],
     sc_threads_per_warp = [], sc_barrier_table = Map.empty, sc_divergence_events = 0,
     sc_wasted_cycles = 0 \<rparr>"

section \<open>Operations\<close>

definition gEnsureWarpExists :: "u32 \<Rightarrow> SIMTController \<Rightarrow> SIMTController" where
  "gEnsureWarpExists w s =
     (if unat w \<ge> length (sc_active_masks s) then
        s\<lparr> sc_active_masks := resize (unat (w + 1)) 0 (sc_active_masks s),
           sc_threads_per_warp := resize (unat (w + 1)) 0 (sc_threads_per_warp s),
           sc_divergence_stacks := resize (unat (w + 1)) SimtStack_default
              (sc_divergence_stacks s) \<rparr>
      else s)"

definition gInitializeWarp :: "u32 \<Rightarrow> u32 \<Rightarrow> SIMTController \<Rightarrow> SIMTController" where
  "gInitializeWarp w tpw s0 =
     (let s = gEnsureWarpExists w s0 in
      s\<lparr> sc_threads_per_warp := (sc_threads_per_warp s)[unat w := tpw],
         sc_active_masks := (sc_active_masks s)[unat w :=
           (if tpw = 32 then 0xFFFFFFFF else push_bit (unat tpw) 1 - 1)] \<rparr>)"

definition gPushDivergenceState :: "u32 \<Rightarrow> u32 \<Rightarrow> u32 \<Rightarrow> SIMTController \<Rightarrow> SIMTController" where
  "gPushDivergenceState w nt rpc s =
     (let ds = sc_divergence_stacks s ! unat w in
      s\<lparr> sc_divergence_stacks := (sc_divergence_stacks s)[unat w :=
           ds\<lparr> ss_mask_stack := nt # ss_mask_stack ds, ss_pc_stack := rpc # ss_pc_stack ds \<rparr>] \<rparr>)"

definition gPopDivergenceState :: "u32 \<Rightarrow> SIMTController \<Rightarrow> SIMTController" where
  "gPopDivergenceState w s =
     (let ds = sc_divergence_stacks s ! unat w in
      if ss_mask_stack ds \<noteq> [] then
        s\<lparr> sc_divergence_stacks := (sc_divergence_stacks s)[unat w :=
             ds\<lparr> ss_mask_stack := tl (ss_mask_stack ds), ss_pc_stack := tl (ss_pc_stack ds) \<rparr>] \<rparr>
      else s)"

definition gComputeActiveMask :: "u32 \<Rightarrow> bool list \<Rightarrow> SIMTController \<Rightarrow> SIMTController" where
  "gComputeActiveMask w conditions s =
     (let tpw = sc_threads_per_warp s ! unat w; ds = sc_divergence_stacks s ! unat w in
      s\<lparr> sc_divergence_stacks := (sc_divergence_stacks s)[unat w :=
           ds\<lparr> ss_thread_masks := map (\<lambda>t. if conditions ! t then 1 else 0) [0..<unat tpw] \<rparr>] \<rparr>)"

definition gHandleBranch :: "u32 \<Rightarrow> bool list \<Rightarrow> u32 \<Rightarrow> SIMTController \<Rightarrow> SIMTController" where
  "gHandleBranch w conditions rpc s0 =
     (let s = gEnsureWarpExists w s0;
          current = sc_active_masks s ! unat w;
          tpw = unat (sc_threads_per_warp s ! unat w);
          taken = branch_taken tpw current conditions;
          not_taken = branch_not_taken tpw current conditions
      in if taken \<noteq> 0 \<and> not_taken \<noteq> 0 then
           let s1 = gComputeActiveMask w conditions (gPushDivergenceState w not_taken rpc s)
           in s1\<lparr> sc_active_masks := (sc_active_masks s1)[unat w := taken],
                  sc_divergence_events := sc_divergence_events s1 + 1,
                  sc_wasted_cycles := sc_wasted_cycles s1 + popcount not_taken \<rparr>
         else if taken = 0 \<and> not_taken \<noteq> 0 then
           let s1 = gPushDivergenceState w not_taken rpc s
           in s1\<lparr> sc_active_masks := (sc_active_masks s1)[unat w := 0] \<rparr>
         else s\<lparr> sc_active_masks := (sc_active_masks s)[unat w :=
                   (if taken \<noteq> 0 then taken else not_taken)] \<rparr>)"

definition gHandleJoin :: "u32 \<Rightarrow> SIMTController \<Rightarrow> SIMTController" where
  "gHandleJoin w s0 =
     (let s = gEnsureWarpExists w s0; ds = sc_divergence_stacks s ! unat w in
      if ss_mask_stack ds = [] then s
      else let not_taken = hd (ss_mask_stack ds); s1 = gPopDivergenceState w s
           in s1\<lparr> sc_active_masks := (sc_active_masks s1)[unat w :=
                    sc_active_masks s1 ! unat w OR not_taken] \<rparr>)"

definition gGetActiveMask :: "SIMTController \<Rightarrow> u32 \<Rightarrow> u32" where
  "gGetActiveMask s w =
     (if unat w \<ge> length (sc_active_masks s) then 0 else sc_active_masks s ! unat w)"

definition gIsThreadActive :: "SIMTController \<Rightarrow> u32 \<Rightarrow> u32 \<Rightarrow> bool" where
  "gIsThreadActive s w t =
     (if unat w \<ge> length (sc_active_masks s) then False
      else bit (drop_bit (unat t) (sc_active_masks s ! unat w)) 0)"

definition gHasPendingDivergence :: "SIMTController \<Rightarrow> u32 \<Rightarrow> bool" where
  "gHasPendingDivergence s w =
     (if unat w \<ge> length (sc_divergence_stacks s) then False
      else ss_mask_stack (sc_divergence_stacks s ! unat w) \<noteq> [])"

definition gGetReconvergencePC :: "SIMTController \<Rightarrow> u32 \<Rightarrow> u32" where
  "gGetReconvergencePC s w =
     (if unat w \<ge> length (sc_divergence_stacks s) then 0
      else let ds = sc_divergence_stacks s ! unat w
           in if ss_pc_stack ds = [] then 0 else hd (ss_pc_stack ds))"

definition gThreadHitBarrier :: "u32 \<Rightarrow> u32 \<Rightarrow> SIMTController \<Rightarrow> SIMTController" where
  "gThreadHitBarrier w bid s =
     (let ws = (case sc_barrier_table s bid of None \<Rightarrow> {} | Some ws \<Rightarrow> ws)
      in s\<lparr> sc_barrier_table := (sc_barrier_table s)(bid \<mapsto> insert w ws) \<rparr>)"

definition gAllWarpsAtBarrier :: "SIMTController \<Rightarrow> u32 \<Rightarrow> u32 \<Rightarrow> bool" where
  "gAllWarpsAtBarrier s bid total_warps =
     (case sc_barrier_table s bid of None \<Rightarrow> False | Some ws \<Rightarrow> card ws \<ge> unat total_warps)"

definition gClearBarrier :: "u32 \<Rightarrow> SIMTController \<Rightarrow> SIMTController" where
  "gClearBarrier bid s = s\<lparr> sc_barrier_table := (sc_barrier_table s)(bid := None) \<rparr>"

section \<open>Well-formedness\<close>

text \<open>The three vectors grow together; \<open>w\<close> is known and its mask stays inside its lanes.\<close>

definition wf_simt :: "SIMTController \<Rightarrow> bool" where
  "wf_simt s \<longleftrightarrow> length (sc_active_masks s) = length (sc_threads_per_warp s) \<and>
     length (sc_divergence_stacks s) = length (sc_active_masks s)"

definition simt_knows :: "u32 \<Rightarrow> SIMTController \<Rightarrow> bool" where
  "simt_knows w s \<longleftrightarrow> wf_simt s \<and> unat w < length (sc_active_masks s) \<and>
     drop_bit (unat (sc_threads_per_warp s ! unat w))
       (sc_active_masks s ! unat w OR or_all (ss_mask_stack (sc_divergence_stacks s ! unat w))) = 0"

definition simt_abs_of :: "u32 \<Rightarrow> SIMTController \<Rightarrow> simt_abs" where
  "simt_abs_of w s =
     (sc_active_masks s ! unat w, ss_mask_stack (sc_divergence_stacks s ! unat w))"

lemma simt_knows_within:
  "simt_knows w s \<Longrightarrow> drop_bit (unat (sc_threads_per_warp s ! unat w)) (spec_lanes (simt_abs_of w s)) = 0"
  by (simp add: simt_knows_def simt_abs_of_def spec_lanes_def)

lemma drop_bit_eq_0_iff:
  "drop_bit n (m :: u32) = 0 \<longleftrightarrow> (\<forall>k. n \<le> k \<longrightarrow> \<not> bit m k)"
proof
  assume z: "drop_bit n m = 0"
  show "\<forall>k. n \<le> k \<longrightarrow> \<not> bit m k"
  proof (intro allI impI notI)
    fix k assume "n \<le> k" "bit m k"
    then have "bit (drop_bit n m) (k - n)" by (simp add: bit_drop_bit_eq)
    with z show False by simp
  qed
next
  assume "\<forall>k. n \<le> k \<longrightarrow> \<not> bit m k"
  then show "drop_bit n m = 0" by (intro bit_word_eqI) (simp add: bit_drop_bit_eq)
qed

lemma branch_within:
  assumes "drop_bit n (m OR x) = 0"
  shows "branch_taken n m c = branch_taken 32 m c" "branch_not_taken n m c = branch_not_taken 32 m c"
  using assms unfolding drop_bit_eq_0_iff branch_taken_def branch_not_taken_def
  by (auto intro!: bit_word_eqI simp: bit_simps) (metis linorder_not_le)+

lemma ensure_known [simp]:
  "unat w < length (sc_active_masks s) \<Longrightarrow> gEnsureWarpExists w s = s"
  by (simp add: gEnsureWarpExists_def)

lemma push_simt [simp]:
  "sc_active_masks (gPushDivergenceState w nt rpc s) = sc_active_masks s"
  "sc_threads_per_warp (gPushDivergenceState w nt rpc s) = sc_threads_per_warp s"
  "length (sc_divergence_stacks (gPushDivergenceState w nt rpc s)) = length (sc_divergence_stacks s)"
  "unat w < length (sc_divergence_stacks s) \<Longrightarrow>
   ss_mask_stack (sc_divergence_stacks (gPushDivergenceState w nt rpc s) ! unat w)
     = nt # ss_mask_stack (sc_divergence_stacks s ! unat w)"
  by (simp_all add: gPushDivergenceState_def Let_def)

lemma computeActiveMask_simt [simp]:
  "sc_active_masks (gComputeActiveMask w c s) = sc_active_masks s"
  "sc_threads_per_warp (gComputeActiveMask w c s) = sc_threads_per_warp s"
  "length (sc_divergence_stacks (gComputeActiveMask w c s)) = length (sc_divergence_stacks s)"
  "unat w < length (sc_divergence_stacks s) \<Longrightarrow>
   ss_mask_stack (sc_divergence_stacks (gComputeActiveMask w c s) ! unat w)
     = ss_mask_stack (sc_divergence_stacks s ! unat w)"
  by (simp_all add: gComputeActiveMask_def Let_def)

lemma pop_simt [simp]:
  "sc_active_masks (gPopDivergenceState w s) = sc_active_masks s"
  "sc_threads_per_warp (gPopDivergenceState w s) = sc_threads_per_warp s"
  "length (sc_divergence_stacks (gPopDivergenceState w s)) = length (sc_divergence_stacks s)"
  "unat w < length (sc_divergence_stacks s) \<Longrightarrow>
   ss_mask_stack (sc_divergence_stacks (gPopDivergenceState w s) ! unat w)
     = tl (ss_mask_stack (sc_divergence_stacks s ! unat w))"
  by (simp_all add: gPopDivergenceState_def Let_def)

lemma gHandleBranch_shape [simp]:
  assumes "unat w < length (sc_active_masks s)"
  shows "length (sc_active_masks (gHandleBranch w c rpc s)) = length (sc_active_masks s)"
    "sc_threads_per_warp (gHandleBranch w c rpc s) = sc_threads_per_warp s"
    "length (sc_divergence_stacks (gHandleBranch w c rpc s)) = length (sc_divergence_stacks s)"
  using assms by (simp_all add: gHandleBranch_def Let_def)

lemma gHandleJoin_shape [simp]:
  assumes "unat w < length (sc_active_masks s)"
  shows "length (sc_active_masks (gHandleJoin w s)) = length (sc_active_masks s)"
    "sc_threads_per_warp (gHandleJoin w s) = sc_threads_per_warp s"
    "length (sc_divergence_stacks (gHandleJoin w s)) = length (sc_divergence_stacks s)"
  using assms by (simp_all add: gHandleJoin_def Let_def)

lemma gHandleBranch_abs:
  assumes "simt_knows w s"
  shows "simt_abs_of w (gHandleBranch w c rpc s) = spec_branch c (simt_abs_of w s)"
proof -
  let ?m = "sc_active_masks s ! unat w" and ?n = "unat (sc_threads_per_warp s ! unat w)"
  have len: "unat w < length (sc_active_masks s)" "unat w < length (sc_divergence_stacks s)"
    and z: "drop_bit ?n (?m OR or_all (ss_mask_stack (sc_divergence_stacks s ! unat w))) = 0"
    using assms by (simp_all add: simt_knows_def wf_simt_def)
  show ?thesis
    unfolding simt_abs_of_def gHandleBranch_def spec_branch_def
    by (simp add: Let_def len branch_within [OF z])
qed

lemma gHandleJoin_abs:
  assumes "simt_knows w s"
  shows "simt_abs_of w (gHandleJoin w s) = spec_join (simt_abs_of w s)"
  using assms
  by (auto simp: simt_knows_def wf_simt_def simt_abs_of_def gHandleJoin_def spec_join_def Let_def
      neq_Nil_conv split: list.split)

lemma gHandleBranch_knows:
  assumes "simt_knows w s" shows "simt_knows w (gHandleBranch w c rpc s)"
proof -
  have "spec_lanes (simt_abs_of w (gHandleBranch w c rpc s)) = spec_lanes (simt_abs_of w s)"
    by (simp add: gHandleBranch_abs [OF assms] spec_branch_lanes)
  with assms show ?thesis
    by (simp add: simt_knows_def wf_simt_def simt_abs_of_def spec_lanes_def)
qed

lemma gHandleJoin_knows:
  assumes "simt_knows w s" shows "simt_knows w (gHandleJoin w s)"
proof -
  have "spec_lanes (simt_abs_of w (gHandleJoin w s)) = spec_lanes (simt_abs_of w s)"
    by (simp add: gHandleJoin_abs [OF assms] spec_join_lanes)
  with assms show ?thesis
    by (simp add: simt_knows_def wf_simt_def simt_abs_of_def spec_lanes_def)
qed

interpretation golden_simt: simt_unit "simt_abs_of w" "simt_knows w" "\<lambda>_. True" "\<lambda>_. False"
  "\<lambda>c. gHandleBranch w c 0" "gHandleJoin w" for w
  by unfold_locales (auto intro: gHandleBranch_abs gHandleJoin_abs gHandleBranch_knows gHandleJoin_knows)

section \<open>Properties of the golden controller\<close>

definition gsimt_run :: "u32 \<Rightarrow> simt_event list \<Rightarrow> SIMTController \<Rightarrow> SIMTController" where
  "gsimt_run w = simt_run (\<lambda>c. gHandleBranch w c 0) (gHandleJoin w)"

text \<open>C35: from equal masks and stacks, the synthesizable stack and the golden controller compute the
  same active mask after any sequence of branches and joins that never meets a full stack of the bounded one (its sticky
  overflow flag is still clear at the end); the number of branches is not bounded.\<close>

theorem simt_parity:
  assumes "wf_div s" "simt_knows w g" "simt_abs_of w g = div_abs s"
    and "\<not> ds_overflow (div_run es s)"
  shows "gGetActiveMask (gsimt_run w es g) w = getActiveMask (div_run es s)"
proof -
  have "div_abs (div_run es s) = simt_run spec_branch spec_join es (div_abs s)"
    using assms(1,4) unfolding div_run_def by (intro hls_simt.run_abs)
  moreover have "simt_abs_of w (gsimt_run w es g) = simt_run spec_branch spec_join es (simt_abs_of w g)"
    unfolding gsimt_run_def using assms(2) by (intro golden_simt.run_abs) auto
  moreover have "simt_knows w (gsimt_run w es g)"
    unfolding gsimt_run_def using assms(2) by (rule golden_simt.run_ok)
  ultimately have "fst (simt_abs_of w (gsimt_run w es g)) = fst (div_abs (div_run es s))"
    and "unat w < length (sc_active_masks (gsimt_run w es g))"
    using assms(3) by (simp_all add: simt_knows_def)
  then show ?thesis
    by (simp add: gGetActiveMask_def simt_abs_of_def div_abs_mask getActiveMask_def)
qed

text \<open>A branch or a join of one warp leaves the mask, the stack and the lane count of every other
  warp as they are.\<close>

theorem golden_warps_independent:
  assumes "wf_simt s" "unat v < length (sc_active_masks s)" "unat w < length (sc_active_masks s)"
    and "v \<noteq> w"
  shows "simt_abs_of v (gHandleBranch w c rpc s) = simt_abs_of v s \<and>
         simt_abs_of v (gHandleJoin w s) = simt_abs_of v s"
proof -
  have "unat v \<noteq> unat w" using assms(4) by (simp add: word_unat_eq_iff)
  then show ?thesis using assms(1-3)
    by (simp add: simt_abs_of_def gHandleBranch_def gHandleJoin_def gPushDivergenceState_def
        gComputeActiveMask_def gPopDivergenceState_def Let_def)
qed

text \<open>Re-initialising a warp keeps its divergence stack, whereas \<open>initializeWarp\<close> of the
  synthesizable stack empties it.\<close>

theorem golden_init_keeps_stack:
  assumes "wf_simt s" "unat w < length (sc_active_masks s)"
  shows "snd (simt_abs_of w (gInitializeWarp w n s)) = snd (simt_abs_of w s) \<and>
    snd (div_abs (initializeWarp m d)) = []"
  using assms
  by (simp add: simt_abs_of_def gInitializeWarp_def initializeWarp_abs Let_def)


definition simt0 :: SIMTController where
  "simt0 = gInitializeWarp 0 32 (gInitializeWarp 1 32 SIMTController_default)"

lemma simt0_knows: "simt_knows 0 simt0"
  by code_simp

lemma simt0_abs: "simt_abs_of 0 simt0 = div_abs div0"
  by code_simp

theorem simt_parity_witness:
  "gGetActiveMask (gsimt_run 0 (many_branches @ [Branch (lanes_lt 4)]) simt0) 0
     = getActiveMask (div_run (many_branches @ [Branch (lanes_lt 4)]) div0)"
proof -
  have "\<not> ds_overflow (div_run (many_branches @ [Branch (lanes_lt 4)]) div0)" by code_simp
  from simt_parity [OF wf_div0 simt0_knows simt0_abs this] show ?thesis .
qed

theorem golden_warps_independent_witness:
  "simt_abs_of 1 (gHandleBranch 0 (lanes_lt 16) 0 simt0) = simt_abs_of 1 simt0"
proof -
  have "wf_simt simt0" "unat (1 :: u32) < length (sc_active_masks simt0)"
    "unat (0 :: u32) < length (sc_active_masks simt0)" "(1 :: u32) \<noteq> 0"
    by code_simp+
  from golden_warps_independent [OF this] show ?thesis by simp
qed

theorem golden_init_keeps_stack_witness:
  "snd (simt_abs_of 0 (gInitializeWarp 0 32 (gHandleBranch 0 (lanes_lt 16) 0 simt0))) = [0xFFFF0000]
   \<and> snd (div_abs (initializeWarp (- 1) (handleBranch (lanes_lt 16) div0))) = []"
proof -
  let ?s = "gHandleBranch 0 (lanes_lt 16) 0 simt0"
  have "wf_simt ?s" "unat (0 :: u32) < length (sc_active_masks ?s)" by code_simp+
  moreover have "snd (simt_abs_of 0 ?s) = [0xFFFF0000]" by code_simp
  ultimately show ?thesis
    using golden_init_keeps_stack [of ?s 0 32 "- 1" "handleBranch (lanes_lt 16) div0"] by simp
qed

end
