(* ===== verification/GoldenCU.thy ===== *)
theory GoldenCU
  imports RV32Exec ComputePipeline GoldenSimt
begin

text \<open>
  The compute unit of the golden model: \<open>models/systemc/src/compute_unit/compute_unit.cpp\<close>. The functional
  path (\<open>executeWarp\<close> and its helpers), the clock-driven stub path and the choice between them and the
  binary mode. The lane bodies of \<open>executeALU\<close> and \<open>executeVector\<close> are the same code as in the
  synthesizable unit and share its definitions. A warp executes until it halts, falls off its program
  or stalls at a barrier.
\<close>

section \<open>State\<close>

datatype WarpState = W_IDLE | W_READY | W_RUNNING | W_STALLED | W_WAITING_MEM | W_COMPLETE

record WarpContext =
  wc_warp_id :: u32
  wc_kernel_id :: u32
  wc_block_id_x :: u32
  wc_block_id_y :: u32
  wc_pc :: u32
  wc_active_mask :: u32
  wc_state :: WarpState
  wc_regs :: RegisterFile
  wc_vregs :: "u32 list list"
  wc_program :: "Instruction list"

definition WarpContext_default :: WarpContext where
  "WarpContext_default = \<lparr> wc_warp_id = 0, wc_kernel_id = 0, wc_block_id_x = 0, wc_block_id_y = 0, wc_pc = 0,
     wc_active_mask = 0, wc_state = W_IDLE, wc_regs = [], wc_vregs = [], wc_program = [] \<rparr>"

text \<open>The opcodes of \<open>types.h\<close> with their values, a second list beside that of \<open>hls_types.h\<close>. The two agree, so an
  opcode is one datatype and its classes are shared.\<close>

fun gOpcode_value :: "Opcode \<Rightarrow> u32" where
  "gOpcode_value Op_ADD = 0x00" | "gOpcode_value Op_SUB = 0x01" | "gOpcode_value Op_AND = 0x02"
| "gOpcode_value Op_OR = 0x03" | "gOpcode_value Op_XOR = 0x04" | "gOpcode_value Op_SLT = 0x05"
| "gOpcode_value Op_FADD = 0x06" | "gOpcode_value Op_FMUL = 0x08"
| "gOpcode_value Op_ADDI = 0x10" | "gOpcode_value Op_LUI = 0x11"
| "gOpcode_value Op_LW = 0x20" | "gOpcode_value Op_SW = 0x21"
| "gOpcode_value Op_BEQ = 0x30" | "gOpcode_value Op_BNE = 0x31"
| "gOpcode_value Op_VBRANCH = 0x32" | "gOpcode_value Op_VJOIN = 0x33"
| "gOpcode_value Op_VADD = 0x40" | "gOpcode_value Op_VSUB = 0x41"
| "gOpcode_value Op_VMUL = 0x42" | "gOpcode_value Op_VFMADD = 0x43"
| "gOpcode_value Op_VFADD = 0x48" | "gOpcode_value Op_VFSUB = 0x49"
| "gOpcode_value Op_VFMUL = 0x4A" | "gOpcode_value Op_VFFMADD = 0x4B"
| "gOpcode_value Op_JAL = 0x60" | "gOpcode_value Op_JALR = 0x61"
| "gOpcode_value Op_BARRIER = 0x70" | "gOpcode_value Op_HALT = 0xFF"

lemma opcode_values_agree: "gOpcode_value opc = ucast (opcode_value opc)"
  by (cases opc) simp_all

definition makeInstr :: "Opcode \<Rightarrow> u8 \<Rightarrow> u8 \<Rightarrow> u8 \<Rightarrow> u32 \<Rightarrow> Instruction" where
  "makeInstr opc rd rs1 rs2 im = Instruction_default\<lparr> i_opcode := opc, i_rd := rd, i_rs1 := rs1, i_rs2 := rs2,
     i_imm := im, i_is_vector := isVectorOp opc, i_is_memory := isMemoryOp opc, i_is_branch := isBranchOp opc \<rparr>"

lemma unat_gOpcode_value: "unat (gOpcode_value opc) = unat (opcode_value opc)"
  by (cases opc) simp_all

lemma makeInstr_flags:
  "i_is_vector (makeInstr opc rd rs1 rs2 im) \<longleftrightarrow> gOpcode_value opc \<ge> 0x40 \<and> gOpcode_value opc < 0x60"
  "i_is_memory (makeInstr opc rd rs1 rs2 im) \<longleftrightarrow> gOpcode_value opc \<ge> 0x20 \<and> gOpcode_value opc < 0x30"
  "i_is_branch (makeInstr opc rd rs1 rs2 im) \<longleftrightarrow> gOpcode_value opc \<ge> 0x30 \<and> gOpcode_value opc < 0x40"
proof -
  have "i_is_vector (makeInstr opc rd rs1 rs2 im) = isVectorOp opc" "i_is_memory (makeInstr opc rd rs1 rs2 im) = isMemoryOp opc"
    "i_is_branch (makeInstr opc rd rs1 rs2 im) = isBranchOp opc"
    by (simp_all add: makeInstr_def del: isMemoryOp_iff)
  then show
    "i_is_vector (makeInstr opc rd rs1 rs2 im) \<longleftrightarrow> gOpcode_value opc \<ge> 0x40 \<and> gOpcode_value opc < 0x60"
    "i_is_memory (makeInstr opc rd rs1 rs2 im) \<longleftrightarrow> gOpcode_value opc \<ge> 0x20 \<and> gOpcode_value opc < 0x30"
    "i_is_branch (makeInstr opc rd rs1 rs2 im) \<longleftrightarrow> gOpcode_value opc \<ge> 0x30 \<and> gOpcode_value opc < 0x40"
    by (simp_all only: op_class_defs Let_def word_le_nat_alt word_less_nat_alt unat_gOpcode_value) simp_all
qed

text \<open>\<open>gc_threads_per_warp\<close> is \<open>config_.threads_per_warp\<close>; the counters, the memory pointer and the block id, shared with
  the binary mode, are fields of \<open>gc_binary\<close>.\<close>

record ComputeUnit =
  gc_threads_per_warp :: u32
  gc_warp_states :: "WarpState list"
  gc_ready_warps :: "u32 list"
  gc_registers :: "u32 list list"
  gc_simt :: SIMTController
  gc_sim_memory :: "u64 \<rightharpoonup> u32"
  gc_current_warp :: u32
  gc_is_running :: bool
  gc_binary :: binary_cu

definition binary_reset :: "u32 \<Rightarrow> binary_cu" where
  "binary_reset max_cycles = \<lparr> bu_max_cycles = max_cycles, bu_binary_mode = False, bu_pc = 0, bu_return_sentinel = 0,
     bu_halted = False, bu_regs = replicate 32 0, bu_fregs = replicate 32 0, bu_block_id = 0, bu_blocked = False,
     bu_barrier_id = 0, bu_total_cycles = 0, bu_total_instructions = 0, bu_ext_memory = None \<rparr>"

definition ComputeUnit_init :: "u32 \<Rightarrow> u32 \<Rightarrow> u32 \<Rightarrow> ComputeUnit" where
  "ComputeUnit_init tpw max_warps max_cycles = \<lparr> gc_threads_per_warp = tpw,
     gc_warp_states = replicate (unat max_warps) W_IDLE, gc_ready_warps = [],
     gc_registers = replicate (unat max_warps) (replicate (unat (tpw * 32)) 0),
     gc_simt = SIMTController_default, gc_sim_memory = Map.empty, gc_current_warp = 0, gc_is_running = False,
     gc_binary = binary_reset max_cycles \<rparr>"

definition count_instr :: "ComputeUnit \<Rightarrow> ComputeUnit" where
  "count_instr cu = cu\<lparr> gc_binary := (gc_binary cu)\<lparr> bu_total_instructions := bu_total_instructions (gc_binary cu) + 1 \<rparr> \<rparr>"

definition put_mem :: "gmemory \<Rightarrow> ComputeUnit \<Rightarrow> ComputeUnit" where
  "put_mem m cu = cu\<lparr> gc_binary := (gc_binary cu)\<lparr> bu_ext_memory := Some m \<rparr> \<rparr>"

section \<open>Instructions of a warp\<close>

definition gExecuteALU :: "fpu \<Rightarrow> nat \<Rightarrow> Instruction \<Rightarrow> u32 \<Rightarrow> RegisterFile \<Rightarrow> RegisterFile" where
  "gExecuteALU fp tpw instr msk regs = lane_loop tpw (bit msk) (\<lambda>_. alu_lane fp instr) regs"

definition gExecuteVector :: "fpu \<Rightarrow> nat \<Rightarrow> Instruction \<Rightarrow> u32 \<Rightarrow> RegisterFile \<Rightarrow> RegisterFile" where
  "gExecuteVector fp tpw instr msk regs = lane_loop tpw (bit msk) (\<lambda>_. vector_lane fp instr) regs"

text \<open>The address is a 64-bit sum of the zero-extended register and the sign-extended immediate.\<close>

definition golden_addr :: "Instruction \<Rightarrow> RegRow \<Rightarrow> u64" where
  "golden_addr instr row = ucast (row ! unat (i_rs1 instr)) + scast (i_imm instr)"

definition gMemLane ::
  "Instruction \<Rightarrow> u32 \<Rightarrow> nat \<Rightarrow> RegisterFile \<times> ComputeUnit \<Rightarrow> RegisterFile \<times> ComputeUnit" where
  "gMemLane instr msk t = (\<lambda>(regs, cu).
     if \<not> bit msk t then (regs, cu)
     else let row = regs ! t; a = golden_addr instr row; rd = unat (i_rd instr); v2 = row ! unat (i_rs2 instr) in
       if i_opcode instr = Op_LW then
         (case bu_ext_memory (gc_binary cu) of
            Some m \<Rightarrow> (let ((ok, v, lat), m') = gLoadWord a (row ! rd) 0 m in (regs[t := row[rd := v]], put_mem m' cu))
          | None \<Rightarrow> (regs[t := row[rd := (case gc_sim_memory cu a of Some v \<Rightarrow> v | None \<Rightarrow> 0)]], cu))
       else
         (case bu_ext_memory (gc_binary cu) of
            Some m \<Rightarrow> (regs, put_mem (snd (gStoreWord a v2 0 m)) cu)
          | None \<Rightarrow> (regs, cu\<lparr> gc_sim_memory := (gc_sim_memory cu)(a \<mapsto> v2) \<rparr>)))"

definition gExecuteMemOp ::
  "Instruction \<Rightarrow> u32 \<Rightarrow> RegisterFile \<times> ComputeUnit \<Rightarrow> RegisterFile \<times> ComputeUnit" where
  "gExecuteMemOp instr msk rc = fold (gMemLane instr msk) [0..<unat (gc_threads_per_warp (snd rc))] rc"

definition gConditions :: "nat \<Rightarrow> Instruction \<Rightarrow> u32 \<Rightarrow> RegisterFile \<Rightarrow> bool list" where
  "gConditions tpw instr msk regs =
     map (\<lambda>t. t < tpw \<and> bit msk t \<and> regs ! t ! unat (i_rs1 instr) = 0) [0..<32]"

definition gExecuteBranch :: "u32 \<Rightarrow> Instruction \<Rightarrow> u32 \<Rightarrow> RegisterFile \<Rightarrow> ComputeUnit \<Rightarrow> ComputeUnit" where
  "gExecuteBranch w instr msk regs cu =
     cu\<lparr> gc_simt := gHandleBranch w (gConditions (unat (gc_threads_per_warp cu)) instr msk regs) 0 (gc_simt cu) \<rparr>"

definition gExecuteJoin :: "u32 \<Rightarrow> ComputeUnit \<Rightarrow> ComputeUnit" where
  "gExecuteJoin w cu = cu\<lparr> gc_simt := gHandleJoin w (gc_simt cu) \<rparr>"

definition gExecuteInstr ::
  "fpu \<Rightarrow> u32 \<Rightarrow> Instruction \<Rightarrow> RegisterFile \<times> ComputeUnit \<Rightarrow> RegisterFile \<times> ComputeUnit" where
  "gExecuteInstr fp w instr = (\<lambda>(regs, cu).
     let msk = gGetActiveMask (gc_simt cu) w; opc = i_opcode instr; tpw = unat (gc_threads_per_warp cu) in
     if opc = Op_VBRANCH then (regs, gExecuteBranch w instr msk regs cu)
     else if opc = Op_VJOIN then (regs, gExecuteJoin w cu)
     else if i_is_memory instr then gExecuteMemOp instr msk (regs, cu)
     else if i_is_vector instr then (gExecuteVector fp tpw instr msk regs, cu)
     else (gExecuteALU fp tpw instr msk regs, cu))"

section \<open>A warp\<close>

text \<open>The loop of \<open>executeWarp\<close>: the barrier id when the warp stalls, the program counter, the registers and the unit
  it leaves.\<close>

function gWarpLoop ::
  "fpu \<Rightarrow> u32 \<Rightarrow> Instruction list \<Rightarrow> u32 \<Rightarrow> RegisterFile \<times> ComputeUnit \<Rightarrow> (u32 option \<times> u32) \<times> RegisterFile \<times> ComputeUnit"
where
  "gWarpLoop fp w program pc rc =
     (if \<not> pc < of_nat (length program) then ((None, pc), rc)
      else let instr = program ! unat pc; opc = i_opcode instr in
        if opc = Op_HALT then ((None, pc), apsnd count_instr rc)
        else if opc = Op_BARRIER then
          ((Some (i_imm instr), pc + 1),
           apsnd (\<lambda>cu. count_instr (cu\<lparr> gc_simt := gThreadHitBarrier w (i_imm instr) (gc_simt cu) \<rparr>)) rc)
        else gWarpLoop fp w program (pc + 1) (apsnd count_instr (gExecuteInstr fp w instr rc)))"
  by pat_completeness auto
termination
proof (relation "measure (\<lambda>(_, _, program, pc, _). unat (of_nat (length program) :: u32) - unat pc)", goal_cases)
  case 1
  then show ?case by simp
next
  case (2 fp w program pc rc instr opc)
  then have lt: "unat pc < unat (of_nat (length program) :: u32)" by (simp add: word_less_nat_alt)
  have "unat (of_nat (length program) :: u32) < 2 ^ LENGTH(32)" by (rule unsigned_less)
  then have "unat (pc + 1) = unat pc + 1" using lt by (simp add: unat_word_ariths)
  then show ?case using lt by simp
qed

declare gWarpLoop.simps [simp del]

definition ctx_regs :: "u32 \<Rightarrow> RegisterFile \<Rightarrow> RegisterFile" where
  "ctx_regs tpw regs =
     map (\<lambda>row. if length row < 32 then resize 32 0 row else row)
       (if length regs < unat tpw then resize (unat tpw) (replicate 32 0) regs else regs)"

text \<open>\<open>executeWarp(ctx, barrier_id_out)\<close>: the option is what it writes to \<open>*barrier_id_out\<close>.\<close>

definition executeWarp :: "fpu \<Rightarrow> WarpContext \<times> ComputeUnit \<Rightarrow> u32 option \<times> WarpContext \<times> ComputeUnit" where
  "executeWarp fp = (\<lambda>(ctx, cu).
     let w = wc_warp_id ctx; tpw = gc_threads_per_warp cu;
         cu0 = cu\<lparr> gc_simt := gInitializeWarp w tpw (gc_simt cu) \<rparr>;
         ((bid, pc), regs, cu1) = gWarpLoop fp w (wc_program ctx) (wc_pc ctx) (ctx_regs tpw (wc_regs ctx), cu0)
     in (bid, ctx\<lparr> wc_pc := pc, wc_regs := regs,
                   wc_state := (if bid = None then W_COMPLETE else W_STALLED) \<rparr>, cu1))"

section \<open>The clock-driven path\<close>

definition gcInitializeWarp :: "u32 \<Rightarrow> ComputeUnit \<Rightarrow> ComputeUnit" where
  "gcInitializeWarp w cu = cu\<lparr> gc_warp_states := (gc_warp_states cu)[unat w := W_READY],
     gc_registers := (gc_registers cu)[unat w := replicate (length (gc_registers cu ! unat w)) 0] \<rparr>"

definition finalizeWarp :: "u32 \<Rightarrow> ComputeUnit \<Rightarrow> ComputeUnit" where
  "finalizeWarp w cu = cu\<lparr> gc_warp_states := (gc_warp_states cu)[unat w := W_COMPLETE] \<rparr>"

definition cuLaunchKernel :: "u32 \<Rightarrow> ComputeUnit \<Rightarrow> ComputeUnit" where
  "cuLaunchKernel block_id cu0 =
     (let cu = cu0\<lparr> gc_binary := (gc_binary cu0)\<lparr> bu_block_id := block_id \<rparr>, gc_is_running := True \<rparr>
      in if bu_binary_mode (gc_binary cu) then cu
         else let cu1 = gcInitializeWarp 0 cu in cu1\<lparr> gc_ready_warps := gc_ready_warps cu1 @ [0] \<rparr>)"

definition getWarpState :: "ComputeUnit \<Rightarrow> u32 \<Rightarrow> WarpState" where
  "getWarpState cu w = (if unat w < length (gc_warp_states cu) then gc_warp_states cu ! unat w else W_IDLE)"

definition executeInstruction :: "u32 \<Rightarrow> ComputeUnit \<Rightarrow> ComputeUnit" where
  "executeInstruction w cu =
     (if gc_warp_states cu ! unat w \<noteq> W_RUNNING \<and> gc_warp_states cu ! unat w \<noteq> W_READY then cu
      else count_instr (cu\<lparr> gc_warp_states := (gc_warp_states cu)[unat w := W_RUNNING] \<rparr>))"

definition updateWarpState :: "ComputeUnit \<Rightarrow> ComputeUnit" where
  "updateWarpState cu =
     fold (\<lambda>i cu. if gc_warp_states cu ! i = W_RUNNING \<and> bu_total_cycles (gc_binary cu) > 100
                  then finalizeWarp (of_nat i) cu else cu) [0..<length (gc_warp_states cu)] cu"

definition legacy_step :: "ComputeUnit \<Rightarrow> ComputeUnit" where
  "legacy_step cu =
     (if \<not> gc_is_running cu then cu
      else let cu1 = (case gc_ready_warps cu of [] \<Rightarrow> cu
                 | w # ws \<Rightarrow> (let cu' = executeInstruction w (cu\<lparr> gc_current_warp := w, gc_ready_warps := ws \<rparr>)
                             in cu'\<lparr> gc_ready_warps := gc_ready_warps cu' @ [w] \<rparr>));
               cu2 = cu1\<lparr> gc_binary := (gc_binary cu1)\<lparr> bu_total_cycles := bu_total_cycles (gc_binary cu1) + 1 \<rparr> \<rparr>
           in updateWarpState cu2)"

definition cuStep :: "rv_fpu \<Rightarrow> ComputeUnit \<Rightarrow> ComputeUnit option" where
  "cuStep rvfp cu =
     (if bu_binary_mode (gc_binary cu) then map_option (\<lambda>b. cu\<lparr> gc_binary := b \<rparr>) (binary_step rvfp (gc_binary cu))
      else Some (legacy_step cu))"

definition cuIsComplete :: "ComputeUnit \<Rightarrow> bool" where
  "cuIsComplete cu =
     (if bu_binary_mode (gc_binary cu) then bu_halted (gc_binary cu)
      else list_all (\<lambda>s. \<not> (s \<noteq> W_IDLE \<and> s \<noteq> W_COMPLETE)) (gc_warp_states cu))"

definition scheduleWarp :: "ComputeUnit \<Rightarrow> ComputeUnit" where
  "scheduleWarp cu = (case List.find (\<lambda>i. gc_warp_states cu ! i = W_READY) [0..<length (gc_warp_states cu)] of
     None \<Rightarrow> cu | Some i \<Rightarrow> cu\<lparr> gc_current_warp := of_nat i \<rparr>)"

definition cuGetDivergenceEvents :: "ComputeUnit \<Rightarrow> u32" where
  "cuGetDivergenceEvents cu = sc_divergence_events (gc_simt cu)"

definition cuAllWarpsAtBarrier :: "u32 \<Rightarrow> u32 \<Rightarrow> ComputeUnit \<Rightarrow> bool" where
  "cuAllWarpsAtBarrier bid total_warps cu = gAllWarpsAtBarrier (gc_simt cu) bid total_warps"

definition cuClearBarrier :: "u32 \<Rightarrow> ComputeUnit \<Rightarrow> ComputeUnit" where
  "cuClearBarrier bid cu = cu\<lparr> gc_simt := gClearBarrier bid (gc_simt cu) \<rparr>"

definition clockProcess :: "rv_fpu \<Rightarrow> ComputeUnit \<Rightarrow> ComputeUnit option" where
  "clockProcess rvfp cu = (if gc_is_running cu then cuStep rvfp cu else Some cu)"

end
