(* ===== verification/WarpParity.thy ===== *)
theory WarpParity
  imports GoldenCU
begin

text \<open>
  The synthesizable compute unit against the golden one: a dispatch of \<open>executeOneWarp\<close> on an encoded program
  and \<open>executeWarp\<close> on the decoded program are related by a simulation, instruction by instruction.
  The relation pairs the divergence stack with the SIMT controller (\<open>simt_unit\<close>), the memory pipeline
  with the golden hierarchy (\<open>word_memory\<close>) and keeps the registers equal. The side conditions are on
  the instructions that the dispatch executes (\<open>step_fits\<close>): addresses that do not leave the 32-bit
  address space (the golden model adds in 64 bits) and have storage on the golden side, no branch that
  overflows the bounded divergence stack, and vector operations only in a build that has them (the
  default build of the pipeline leaves them out, the golden model always executes them).
\<close>

section \<open>Memory\<close>

text \<open>The memories agree on the addresses \<open>B\<close> that the golden memory has storage for.\<close>

definition mem_rel :: "(addr_t \<Rightarrow> bool) \<Rightarrow> nat \<Rightarrow> MemorySubsystem \<times> gmem \<Rightarrow> gmemory \<Rightarrow> bool" where
  "mem_rel B c s m \<longleftrightarrow> cu_inv c s \<and> coherent m \<and> golden_backed 0 m = B \<and>
     (\<forall>a. B a \<longrightarrow> cu_view c s (alignAddress a) = golden_view 0 m (alignAddress a))"

lemma request_load:
  assumes "rq_cu_id req = of_nat c" "\<not> rq_is_write req"
  shows "rp_data (fst (handleRequest req s)) = fst (cu_load c (rq_address req) s)"
    "snd (handleRequest req s) = snd (cu_load c (rq_address req) s)"
  using assms
  by (cases s; simp add: handleRequest_def cu_load_def cu_req_def mem_response_def Let_def split_def)+

lemma request_store:
  assumes "rq_cu_id req = of_nat c" "rq_is_write req"
  shows "snd (handleRequest req s) = cu_store c (rq_address req) (rq_write_data req) s"
  using assms
  by (cases s) (simp add: handleRequest_def cu_store_def cu_req_def mem_response_def Let_def split_def)

lemma gLoad_old_data:
  assumes "golden_backed block m a"
  shows "fst (snd (fst (gLoadWord (ucast a) old block m))) = fst (golden_load block a m)"
    "snd (gLoadWord (ucast a) old block m) = snd (golden_load block a m)"
proof -
  let ?a = "gAlignAddress (ucast a)"
  show "snd (gLoadWord (ucast a) old block m) = snd (golden_load block a m)"
    by (auto simp: golden_load_def gLoadWord_def Let_def split: option.splits)
  show "fst (snd (fst (gLoadWord (ucast a) old block m))) = fst (golden_load block a m)"
  proof (cases "gIsSharedMemoryAddress m ?a")
    case True
    then obtain bs off where "shared_offset block ?a 4 m = Some (off, bs)"
      using assms by (auto simp: golden_backed_def)
    with True show ?thesis
      by (simp add: golden_load_def gLoadWord_def gLoadSharedMemory_def Let_def)
  next
    case False
    then show ?thesis by (auto simp: golden_load_def gLoadWord_def Let_def split: option.splits)
  qed
qed

lemma mem_rel_load:
  assumes "mem_rel B c s m" "rq_cu_id req = of_nat c" "\<not> rq_is_write req" "B (rq_address req)"
  shows "rp_data (fst (handleRequest req s)) = fst (snd (fst (gLoadWord (ucast (rq_address req)) old 0 m)))"
    "mem_rel B c (snd (handleRequest req s)) (snd (gLoadWord (ucast (rq_address req)) old 0 m))"
proof -
  have inv: "cu_inv c s" "coherent m" and B: "golden_backed 0 m = B"
    and v: "\<And>a. B a \<Longrightarrow> cu_view c s (alignAddress a) = golden_view 0 m (alignAddress a)"
    using assms(1) by (auto simp: mem_rel_def)
  have ba: "golden_backed 0 m (rq_address req)" using assms(4) B by simp
  note h = hls_memory.ld_value [OF inv(1)] hls_memory.ld_view [OF inv(1)] hls_memory.ld_inv [OF inv(1)]
  note g = golden_memory.ld_value [OF inv(2) ba] golden_memory.ld_view [OF inv(2)] golden_memory.ld_inv [OF inv(2)]
  show "rp_data (fst (handleRequest req s)) = fst (snd (fst (gLoadWord (ucast (rq_address req)) old 0 m)))"
    using h(1) g(1) v assms(4) by (simp add: request_load assms(2,3) gLoad_old_data [OF ba])
  have "golden_backed 0 (snd (golden_load 0 (rq_address req) m)) = B"
    using golden_memory.ld_backed [OF inv(2), of 0] B by (auto simp: fun_eq_iff)
  then show "mem_rel B c (snd (handleRequest req s)) (snd (gLoadWord (ucast (rq_address req)) old 0 m))"
    using h(2,3) g(2,3) v by (simp add: request_load assms(2,3) gLoad_old_data [OF ba] mem_rel_def)
qed

lemma mem_rel_store:
  assumes "mem_rel B c s m" "rq_cu_id req = of_nat c" "rq_is_write req" "B (rq_address req)"
  shows "mem_rel B c (snd (handleRequest req s)) (snd (gStoreWord (ucast (rq_address req)) (rq_write_data req) 0 m))"
proof -
  have inv: "cu_inv c s" "coherent m" and B: "golden_backed 0 m = B"
    and v: "\<And>a. B a \<Longrightarrow> cu_view c s (alignAddress a) = golden_view 0 m (alignAddress a)"
    using assms(1) by (auto simp: mem_rel_def)
  have ba: "golden_backed 0 m (rq_address req)" using assms(4) B by simp
  have "golden_backed 0 (golden_store 0 (rq_address req) (rq_write_data req) m) = B"
    using golden_memory.st_backed [OF inv(2), of 0] B by (auto simp: fun_eq_iff)
  then have "mem_rel B c (cu_store c (rq_address req) (rq_write_data req) s)
      (golden_store 0 (rq_address req) (rq_write_data req) m)"
    using hls_memory.st_view [OF inv(1)] hls_memory.st_inv [OF inv(1)]
      golden_memory.st_view [OF inv(2) ba] golden_memory.st_inv [OF inv(2)] v
    by (simp add: mem_rel_def)
  then show ?thesis by (simp add: request_store assms(2,3) golden_store_def)
qed

section \<open>Addresses\<close>

definition addr_in_range :: "(addr_t \<Rightarrow> bool) \<Rightarrow> Instruction \<Rightarrow> RegRow \<Rightarrow> bool" where
  "addr_in_range B instr row \<longleftrightarrow> 0 \<le> uint (row ! unat (i_rs1 instr)) + sint (i_imm instr) \<and>
     uint (row ! unat (i_rs1 instr)) + sint (i_imm instr) < 2 ^ 32 \<and>
     B (row ! unat (i_rs1 instr) + i_imm instr)"

lemma ucast_add_in_range:
  fixes r im :: u32
  assumes "0 \<le> uint r + sint im" "uint r + sint im < 2 ^ 32"
  shows "(ucast r + scast im :: u64) = ucast (r + im)"
proof -
  have "uint im = sint im mod 2 ^ 32"
    using uint_sint [of im] by (simp add: take_bit_eq_mod)
  then have "(uint r + uint im) mod 2 ^ 32 = (uint r + sint im) mod 2 ^ 32" by (simp add: mod_simps)
  then have u: "uint (r + im) = uint r + sint im" using assms by (simp add: uint_word_ariths)
  have "(ucast r :: u64) = word_of_int (uint r)" "(scast im :: u64) = word_of_int (sint im)"
    "(ucast (r + im) :: u64) = word_of_int (uint (r + im))"
    by (simp_all)
  then have "(ucast (r + im) :: u64) = word_of_int (uint r) + word_of_int (sint im)" by (simp add: u)
  also have "\<dots> = ucast r + scast im" by (simp only: word_of_int_uint flip: scast_eq unsigned_of_int) simp
  finally show ?thesis by simp
qed

lemma golden_addr_in_range:
  "addr_in_range B instr row \<Longrightarrow> golden_addr instr row = ucast (row ! unat (i_rs1 instr) + i_imm instr)"
  by (simp add: golden_addr_def addr_in_range_def ucast_add_in_range)

section \<open>Memory instructions\<close>

lemma mem_lane_sim:
  assumes rel: "mem_rel B c s m" and ext: "bu_ext_memory (gc_binary cu) = Some m"
    and op: "i_opcode instr = Op_LW \<or> i_opcode instr = Op_SW"
    and range: "bit msk t \<Longrightarrow> addr_in_range B instr (regs ! t)"
  shows "\<exists>m'. gMemLane instr msk t (regs, cu)
        = (fst (mem_lane handleRequest (of_nat c) wid instr msk t (regs, s)), put_mem m' cu) \<and>
      mem_rel B c (snd (mem_lane handleRequest (of_nat c) wid instr msk t (regs, s))) m'"
proof (cases "bit msk t")
  case False
  have "put_mem m cu = cu" using ext by (simp add: put_mem_def)
  with False rel show ?thesis by (intro exI [of _ m]) (simp add: gMemLane_def mem_lane_def)
next
  case True
  let ?req = "mem_lane_req (of_nat c) wid instr t (regs ! t)"
  have a: "golden_addr instr (regs ! t) = ucast (rq_address ?req)"
    using golden_addr_in_range [OF range [OF True]] by (simp add: mem_lane_req_def)
  have ba: "B (rq_address ?req)" using range [OF True] by (simp add: addr_in_range_def mem_lane_req_def)
  have cu: "rq_cu_id ?req = of_nat c" by (simp add: mem_lane_req_def)
  show ?thesis
  proof (cases "i_opcode instr = Op_LW")
    case lw: True
    then have w: "\<not> rq_is_write ?req" by (simp add: mem_lane_req_def)
    note ld = mem_rel_load [OF rel cu w ba, of "regs ! t ! unat (i_rd instr)"]
    show ?thesis using True lw ext ld
      by (intro exI [of _ "snd (gLoadWord (ucast (rq_address ?req)) (regs ! t ! unat (i_rd instr)) 0 m)"])
        (simp add: gMemLane_def mem_lane_def a Let_def split_def)
  next
    case sw: False
    then have w: "rq_is_write ?req" "rq_write_data ?req = regs ! t ! unat (i_rs2 instr)"
      using op by (simp_all add: mem_lane_req_def)
    note st = mem_rel_store [OF rel cu w(1) ba]
    show ?thesis using True sw ext st w(2)
      by (intro exI [of _ "snd (gStoreWord (ucast (rq_address ?req)) (regs ! t ! unat (i_rs2 instr)) 0 m)"])
        (simp add: gMemLane_def mem_lane_def a Let_def split_def)
  qed
qed

lemma put_mem_simps [simp]:
  "put_mem m' (put_mem m cu) = put_mem m' cu"
  "bu_ext_memory (gc_binary (put_mem m cu)) = Some m"
  "gc_simt (put_mem m cu) = gc_simt cu" "gc_threads_per_warp (put_mem m cu) = gc_threads_per_warp cu"
  by (simp_all add: put_mem_def)

lemma memop_sim:
  assumes rel: "mem_rel B c s m" and ext: "bu_ext_memory (gc_binary cu) = Some m"
    and op: "i_opcode instr = Op_LW \<or> i_opcode instr = Op_SW" and len: "length regs = 32"
    and range: "\<And>t. t < 32 \<Longrightarrow> bit msk t \<Longrightarrow> addr_in_range B instr (regs ! t)" and n: "n \<le> 32"
    and hls: "\<And>k. hls k = fold (mem_lane handleRequest (of_nat c) wid instr msk) [0..<k] (regs, s)"
  shows "(\<exists>m'. fold (gMemLane instr msk) [0..<n] (regs, cu) = (fst (hls n), put_mem m' cu) \<and> mem_rel B c (snd (hls n)) m')
    \<and> length (fst (hls n)) = 32 \<and> (\<forall>t. n \<le> t \<longrightarrow> fst (hls n) ! t = regs ! t)"
  using n
proof (induction n)
  case 0
  have "put_mem m cu = cu" using ext by (simp add: put_mem_def)
  then show ?case using rel len by (intro conjI exI [of _ m]) (simp_all add: hls)
next
  case (Suc n)
  obtain r1 s1 where h: "hls n = (r1, s1)" by (cases "hls n") blast
  obtain m1 where g: "fold (gMemLane instr msk) [0..<n] (regs, cu) = (r1, put_mem m1 cu)"
    and r: "mem_rel B c s1 m1" "length r1 = 32" "\<And>t. n \<le> t \<Longrightarrow> r1 ! t = regs ! t"
    using Suc h by auto
  have S: "hls (Suc n) = mem_lane handleRequest (of_nat c) wid instr msk n (r1, s1)"
    using h by (simp add: hls)
  obtain m2 where "gMemLane instr msk n (r1, put_mem m1 cu) = (fst (hls (Suc n)), put_mem m2 cu)"
    "mem_rel B c (snd (hls (Suc n))) m2"
    using mem_lane_sim [OF r(1) _ op, of "put_mem m1 cu" msk n r1 wid] range [of n] r(3) [of n] Suc.prems
    unfolding S by auto
  then show ?case using g r
    by (auto simp: S mem_lane_regs)
qed

section \<open>One instruction\<close>

definition warp_rel :: "(addr_t \<Rightarrow> bool) \<Rightarrow> nat \<Rightarrow> u32 \<Rightarrow> (MemorySubsystem \<times> gmem) warp_run \<Rightarrow> RegisterFile \<times> ComputeUnit \<Rightarrow> bool" where
  "warp_rel B c w s = (\<lambda>(regs, cu). wr_regs s = regs \<and> length regs = 32 \<and> wf_div (wr_simt s) \<and>
     simt_knows w (gc_simt cu) \<and> simt_abs_of w (gc_simt cu) = div_abs (wr_simt s) \<and>
     gc_threads_per_warp cu = 32 \<and>
     (\<exists>m. bu_ext_memory (gc_binary cu) = Some m \<and> mem_rel B c (wr_mem s) m))"

definition vector_op :: "Instruction \<Rightarrow> bool" where
  "vector_op instr \<longleftrightarrow> i_is_vector instr \<and> \<not> i_is_memory instr \<and>
     i_opcode instr \<noteq> Op_VBRANCH \<and> i_opcode instr \<noteq> Op_VJOIN"

text \<open>What the parity asks of an instruction in the state that executes it.\<close>

definition step_fits :: "bool \<Rightarrow> (addr_t \<Rightarrow> bool) \<Rightarrow> Instruction \<Rightarrow> 'm warp_run \<Rightarrow> bool" where
  "step_fits vec B instr s \<longleftrightarrow>
     (i_is_memory instr \<longrightarrow>
       (\<forall>t < 32. bit (getActiveMask (wr_simt s)) t \<longrightarrow> addr_in_range B instr (wr_regs s ! t))) \<and>
     (i_opcode instr = Op_VBRANCH \<longrightarrow>
       \<not> ds_overflow (executeBranch (wr_simt s) (wr_regs s) instr (getActiveMask (wr_simt s)))) \<and>
     (vector_op instr \<longrightarrow> vec)"

lemma gConditions_eq: "gConditions 32 instr msk regs = branch_conditions instr msk regs"
  by (simp add: gConditions_def branch_conditions_def)

lemma execute_instr_sim:
  assumes rel: "warp_rel B c w s rc" and range: "step_fits vec B instr s"
    and mem: "i_is_memory instr \<Longrightarrow> i_opcode instr = Op_LW \<or> i_opcode instr = Op_SW"
  shows "warp_rel B c w (execute_instr vec fp handleRequest (of_nat c) wid instr s) (gExecuteInstr fp w instr rc)"
proof -
  obtain regs cu where rc: "rc = (regs, cu)" by fastforce
  obtain m where r: "wr_regs s = regs" "length regs = 32" "wf_div (wr_simt s)" "simt_knows w (gc_simt cu)"
    "simt_abs_of w (gc_simt cu) = div_abs (wr_simt s)" "gc_threads_per_warp cu = 32"
    "bu_ext_memory (gc_binary cu) = Some m" "mem_rel B c (wr_mem s) m"
    using rel by (auto simp: warp_rel_def rc)
  have msk: "gGetActiveMask (gc_simt cu) w = getActiveMask (wr_simt s)"
    using r(4) arg_cong [OF r(5), of fst] div_abs_mask [of "wr_simt s"]
    by (simp add: gGetActiveMask_def simt_knows_def simt_abs_of_def getActiveMask_def)
  consider (br) "i_opcode instr = Op_VBRANCH" | (jn) "i_opcode instr = Op_VJOIN"
    | (mem) "i_is_memory instr" "i_opcode instr \<noteq> Op_VBRANCH" "i_opcode instr \<noteq> Op_VJOIN"
    | (lane) "\<not> i_is_memory instr" "i_opcode instr \<noteq> Op_VBRANCH" "i_opcode instr \<noteq> Op_VJOIN"
    by blast
  then show ?thesis
  proof cases
    case br
    then have "\<not> ds_overflow (handleBranch (branch_conditions instr (getActiveMask (wr_simt s)) regs) (wr_simt s))"
      using range r(1) by (simp add: step_fits_def executeBranch_def)
    then have "div_abs (handleBranch (branch_conditions instr (getActiveMask (wr_simt s)) regs) (wr_simt s))
        = spec_branch (branch_conditions instr (getActiveMask (wr_simt s)) regs) (div_abs (wr_simt s))"
      by (intro handleBranch_abs [OF r(3)] disjI2)
    with br show ?thesis
      using r handleBranch_wf gHandleBranch_abs gHandleBranch_knows
      by (simp add: warp_rel_def rc execute_instr_def gExecuteInstr_def gExecuteBranch_def executeBranch_def
          gConditions_eq msk Let_def)
  next
    case jn
    then show ?thesis
      using r handleJoin_wf gHandleJoin_abs gHandleJoin_knows handleJoin_abs
      by (simp add: warp_rel_def rc execute_instr_def gExecuteInstr_def gExecuteJoin_def executeJoin_def Let_def)
  next
    case mem': mem
    have "\<exists>m'. gExecuteMemOp instr (getActiveMask (wr_simt s)) (regs, cu)
        = (fst (executeMemOp handleRequest (of_nat c) wid instr (getActiveMask (wr_simt s)) (regs, wr_mem s)), put_mem m' cu) \<and>
      mem_rel B c (snd (executeMemOp handleRequest (of_nat c) wid instr (getActiveMask (wr_simt s)) (regs, wr_mem s))) m'"
      and l: "length (fst (executeMemOp handleRequest (of_nat c) wid instr (getActiveMask (wr_simt s)) (regs, wr_mem s))) = 32"
      using memop_sim [OF r(8,7) mem [OF mem'(1)] r(2) _ order_refl refl, of "getActiveMask (wr_simt s)" wid] range mem'(1) r(1,6)
      by (simp_all add: gExecuteMemOp_def executeMemOp_def step_fits_def)
    then show ?thesis using mem' r
      by (auto simp: warp_rel_def rc execute_instr_def gExecuteInstr_def msk Let_def split_def)
  next
    case lane
    then have "i_is_vector instr \<Longrightarrow> vec" using range by (simp add: step_fits_def vector_op_def)
    with lane show ?thesis using r
      by (simp add: warp_rel_def rc execute_instr_def gExecuteInstr_def gExecuteALU_def gExecuteVector_def
          executeALU_def executeVector_def msk Let_def)
  qed
qed

section \<open>A dispatch\<close>

text \<open>The instructions that the rest of the program executes fit.\<close>

fun run_fits ::
  "bool \<Rightarrow> (addr_t \<Rightarrow> bool) \<Rightarrow> fpu \<Rightarrow> cu_id_t \<Rightarrow> warp_id_t \<Rightarrow> instr_word_t list \<Rightarrow> (MemorySubsystem \<times> gmem) warp_run \<Rightarrow> bool"
where
  "run_fits vec B fp c wid [] s = True"
| "run_fits vec B fp c wid (x # xs) s =
     (let instr = decodeInstruction x in
      i_opcode instr = Op_HALT \<or> i_opcode instr = Op_BARRIER \<or>
      step_fits vec B instr s \<and> run_fits vec B fp c wid xs (execute_instr vec fp handleRequest c wid instr s))"

definition branch_words :: "instr_word_t list \<Rightarrow> nat" where
  "branch_words xs = length (filter (\<lambda>x. i_opcode (decodeInstruction x) = Op_VBRANCH) xs)"

lemma decoded_memory: "i_is_memory (decodeInstruction x) \<Longrightarrow> i_opcode (decodeInstruction x) = Op_LW \<or> i_opcode (decodeInstruction x) = Op_SW"
  by (auto simp: decodeInstruction_def Let_def split: if_splits)

lemma handleBranch_sp: "wf_div s \<Longrightarrow> unat (ds_sp (handleBranch cs s)) \<le> unat (ds_sp s) + 1"
  by (auto simp: handleBranch_def Let_def pushDivergence_def wf_div_def unat_sp_Suc)

lemma handleJoin_sp: "wf_div s \<Longrightarrow> unat (ds_sp (handleJoin s)) \<le> unat (ds_sp s)"
  using unat_sp_pred [of "ds_sp s"] by (simp add: handleJoin_def Let_def)

lemma execute_instr_sp:
  "wf_div (wr_simt s) \<Longrightarrow> unat (ds_sp (wr_simt (execute_instr vec fp memf c wid instr s)))
     \<le> unat (ds_sp (wr_simt s)) + (if i_opcode instr = Op_VBRANCH then 1 else 0)"
  using handleBranch_sp handleJoin_sp
  by (simp add: execute_instr_def Let_def executeBranch_def executeJoin_def split_def)

lemma execute_instr_simt:
  "wf_div (wr_simt s) \<Longrightarrow> wf_div (wr_simt (execute_instr vec fp memf c wid instr s))"
  "i_opcode instr \<noteq> Op_VBRANCH \<Longrightarrow>
   ds_overflow (wr_simt (execute_instr vec fp memf c wid instr s)) = ds_overflow (wr_simt s)"
  "i_opcode instr = Op_VBRANCH \<Longrightarrow> unat (ds_sp (wr_simt s)) < MAX_DIVERGENCE_DEPTH \<Longrightarrow>
   ds_overflow (wr_simt (execute_instr vec fp memf c wid instr s)) = ds_overflow (wr_simt s)"
  using handleBranch_wf [of "wr_simt s"] handleJoin_wf [of "wr_simt s"]
  by (auto simp: execute_instr_def Let_def executeBranch_def executeJoin_def split_def handleBranch_overflow)

text \<open>The condition on branches holds on its own where no more than eight of them lie ahead: then only the
  addresses and the vector operations are left to check.\<close>

fun ops_fit ::
  "bool \<Rightarrow> (addr_t \<Rightarrow> bool) \<Rightarrow> fpu \<Rightarrow> cu_id_t \<Rightarrow> warp_id_t \<Rightarrow> instr_word_t list \<Rightarrow> (MemorySubsystem \<times> gmem) warp_run \<Rightarrow> bool"
where
  "ops_fit vec B fp c wid [] s = True"
| "ops_fit vec B fp c wid (x # xs) s =
     (let instr = decodeInstruction x in
      i_opcode instr = Op_HALT \<or> i_opcode instr = Op_BARRIER \<or>
      (i_is_memory instr \<longrightarrow>
        (\<forall>t < 32. bit (getActiveMask (wr_simt s)) t \<longrightarrow> addr_in_range B instr (wr_regs s ! t))) \<and>
      (vector_op instr \<longrightarrow> vec) \<and> ops_fit vec B fp c wid xs (execute_instr vec fp handleRequest c wid instr s))"

lemma few_branches_run_fits:
  assumes "ops_fit vec B fp c wid xs s" "wf_div (wr_simt s)" "\<not> ds_overflow (wr_simt s)"
    and "unat (ds_sp (wr_simt s)) + branch_words xs \<le> MAX_DIVERGENCE_DEPTH"
  shows "run_fits vec B fp c wid xs s"
  using assms
proof (induction xs arbitrary: s)
  case (Cons x xs)
  let ?i = "decodeInstruction x" and ?s = "execute_instr vec fp handleRequest c wid (decodeInstruction x) s"
  show ?case
  proof (cases "i_opcode ?i = Op_HALT \<or> i_opcode ?i = Op_BARRIER")
    case True
    then show ?thesis by (auto simp: Let_def)
  next
    case False
    have room: "unat (ds_sp (wr_simt s)) < MAX_DIVERGENCE_DEPTH" if "i_opcode ?i = Op_VBRANCH"
      using Cons.prems(4) that by (simp add: branch_words_def)
    have ovf: "ds_overflow (wr_simt ?s) = ds_overflow (wr_simt s)"
      using execute_instr_simt(2,3) room by metis
    have fits: "step_fits vec B ?i s" and rest: "ops_fit vec B fp c wid xs ?s"
      using Cons.prems(1,3) False ovf
      by (auto simp: Let_def step_fits_def execute_instr_def)
    have "unat (ds_sp (wr_simt ?s)) + branch_words xs \<le> MAX_DIVERGENCE_DEPTH"
      using execute_instr_sp [OF Cons.prems(2), of vec fp handleRequest c wid ?i] Cons.prems(4)
      by (simp add: branch_words_def split: if_splits)
    then have "run_fits vec B fp c wid xs ?s"
      using Cons.IH [OF rest execute_instr_simt(1) [OF Cons.prems(2)]] ovf Cons.prems(3) by blast
    with fits show ?thesis by (simp add: Let_def)
  qed
qed simp

text \<open>The statuses of the two units.\<close>

definition same_status :: "warp_status_t \<Rightarrow> u32 option \<times> u32 \<Rightarrow> bool" where
  "same_status st = (\<lambda>(bid, pc). case bid of
       None \<Rightarrow> ws_code st = COMPLETE
     | Some b \<Rightarrow> ws_code st = STALLED_AT_BARRIER \<and> ws_barrier_id st = b \<and> unat (ws_resume_pc st) = unat pc)"

lemma warp_rel_count: "warp_rel B c w s rc \<Longrightarrow> warp_rel B c w s (apsnd count_instr rc)"
  by (cases rc) (simp add: warp_rel_def count_instr_def)

lemma warp_rel_barrier:
  "warp_rel B c w s rc \<Longrightarrow> warp_rel B c w s (apsnd (\<lambda>cu. count_instr (cu\<lparr> gc_simt := gThreadHitBarrier w b (gc_simt cu) \<rparr>)) rc)"
  by (cases rc)
    (simp add: warp_rel_def count_instr_def gThreadHitBarrier_def simt_knows_def wf_simt_def simt_abs_of_def Let_def)

lemma warp_loop_sim:
  assumes "drop i program = xs" "i \<le> length program" "length program \<le> MAX_PROGRAM_LEN"
    and "warp_rel B c w s rc" "run_fits vec B fp (of_nat c) wid xs s"
  shows "case warp_loop vec fp handleRequest (of_nat c) wid program (of_nat (length program)) i n s of (st, s') \<Rightarrow>
    case gWarpLoop fp w (map decodeInstruction program) (of_nat i) rc of (stop, rc') \<Rightarrow>
      same_status st stop \<and> warp_rel B c w s' rc'"
  using assms(1,2,4-)
proof (induction xs arbitrary: i n s rc)
  case Nil
  then have "i = length program" by simp
  moreover have "unat (of_nat (length program) :: u32) = length program" using assms(3) by (simp add: unat_of_nat)
  ultimately show ?case using Nil.prems
    by (subst gWarpLoop.simps) (simp add: warp_loop_stop same_status_def split_def complete_status_def)
next
  case (Cons x xs)
  let ?instr = "decodeInstruction x"
  have i: "i < length program" "program ! i = x" "drop (Suc i) program = xs"
    using Cons.prems(1,2) by (metis drop_all le_neq_implies_less list.distinct(1) order_refl nth_via_drop tl_drop list.sel(3) drop_Suc)+
  have small: "length program < 2 ^ 32" "length program \<le> 256" using assms(3) by simp_all
  then have u: "unat (of_nat (length program) :: u32) = length program" "unat (of_nat i :: u32) = i"
    "unat (of_nat (i + 1) :: u32) = i + 1" "unat (of_nat (i + 1) :: u16) = i + 1"
    using i(1) by (simp_all add: unat_of_nat del: of_nat_add of_nat_Suc)
  have lt: "i < unat (of_nat (length program) :: u32)" "i < MAX_PROGRAM_LEN" using i(1) u(1) small by simp_all
  have glt: "(of_nat i :: u32) < of_nat (length program)" using u i(1) by (simp add: word_less_nat_alt)
  have g: "map decodeInstruction program ! unat (of_nat i :: u32) = ?instr" using i u by simp
  consider (halt) "i_opcode ?instr = Op_HALT" | (bar) "i_opcode ?instr = Op_BARRIER"
    | (other) "i_opcode ?instr \<noteq> Op_HALT" "i_opcode ?instr \<noteq> Op_BARRIER" by blast
  then show ?case
  proof cases
    case halt
    then show ?thesis using Cons.prems warp_rel_count i glt g
      by (subst gWarpLoop.simps) (simp add: warp_loop_stop same_status_def complete_status_def)
  next
    case bar
    have wl: "warp_loop vec fp handleRequest (of_nat c) wid program (of_nat (length program)) i n s
        = (stalled_status ?instr i (n + 1), s)"
      using warp_loop_barrier [OF lt, of program] bar i(2) by simp
    have gl: "gWarpLoop fp w (map decodeInstruction program) (of_nat i) rc = ((Some (i_imm ?instr), of_nat (i + 1)),
        apsnd (\<lambda>cu. count_instr (cu\<lparr> gc_simt := gThreadHitBarrier w (i_imm ?instr) (gc_simt cu) \<rparr>)) rc)"
      using bar glt g by (subst gWarpLoop.simps) (simp add: Let_def add.commute)
    show ?thesis
      unfolding wl gl using u(3,4) warp_rel_barrier [OF Cons.prems(3)]
      by (simp add: same_status_def stalled_status_def)
  next
    case other
    have ok: "step_fits vec B ?instr s"
      "run_fits vec B fp (of_nat c) wid xs (execute_instr vec fp handleRequest (of_nat c) wid ?instr s)"
      using Cons.prems(4) other by (auto simp: Let_def)
    from Cons.IH [OF i(3) _ warp_rel_count [OF execute_instr_sim [OF Cons.prems(3) ok(1) decoded_memory]] ok(2)]
    have "case warp_loop vec fp handleRequest (of_nat c) wid program (of_nat (length program)) (Suc i) (n + 1)
          (execute_instr vec fp handleRequest (of_nat c) wid ?instr s) of (st, s') \<Rightarrow>
        case gWarpLoop fp w (map decodeInstruction program) (of_nat (Suc i)) (apsnd count_instr (gExecuteInstr fp w ?instr rc))
          of (stop, rc') \<Rightarrow> same_status st stop \<and> warp_rel B c w s' rc'"
      using i(1) by simp
    moreover have "gWarpLoop fp w (map decodeInstruction program) (of_nat i) rc
        = gWarpLoop fp w (map decodeInstruction program) (of_nat (Suc i)) (apsnd count_instr (gExecuteInstr fp w ?instr rc))"
      using other glt g by (subst gWarpLoop.simps) (simp add: add.commute)
    ultimately show ?thesis
      using warp_loop_next [OF lt, of program vec fp handleRequest "of_nat c" wid n s] other i(2) by simp
  qed
qed

section \<open>Properties\<close>

lemma gInitializeWarp_fresh:
  assumes "wf_simt g" "\<not> gHasPendingDivergence g w" "w \<noteq> - 1"
  shows "simt_knows w (gInitializeWarp w 32 g)" "simt_abs_of w (gInitializeWarp w 32 g) = (- 1, [])"
proof -
  have w: "unat (w + 1) = unat w + 1"
    using assms(3) by (metis add.commute eq_neg_iff_add_eq_0 unatSuc Suc_eq_plus1)
  have m1: "(0xFFFFFFFF :: u32) = - 1" by simp
  define g1 where "g1 = gEnsureWarpExists w g"
  have len: "length (sc_threads_per_warp g1) = length (sc_active_masks g1)"
      "length (sc_divergence_stacks g1) = length (sc_active_masks g1)" "unat w < length (sc_active_masks g1)"
    using assms(1) by (auto simp: g1_def gEnsureWarpExists_def wf_simt_def w)
  have st: "ss_mask_stack (sc_divergence_stacks g1 ! unat w) = []"
    using assms(1,2)
    by (auto simp: g1_def gEnsureWarpExists_def wf_simt_def w gHasPendingDivergence_def SimtStack_default_def
        not_less resize_nth_new)
  have i: "gInitializeWarp w 32 g = g1\<lparr> sc_threads_per_warp := (sc_threads_per_warp g1)[unat w := 32],
      sc_active_masks := (sc_active_masks g1)[unat w := - 1] \<rparr>"
    unfolding gInitializeWarp_def g1_def m1 by (simp add: Let_def)
  have "drop_bit 32 (x :: u32) = 0" for x
    by (rule bit_word_eqI) (auto simp: bit_simps dest: bit_imp_le_length)
  then show "simt_knows w (gInitializeWarp w 32 g)" "simt_abs_of w (gInitializeWarp w 32 g) = (- 1, [])"
    using len st by (simp_all add: i simt_knows_def wf_simt_def simt_abs_of_def)
qed

lemma ctx_regs_wf: "wf_regs regs \<Longrightarrow> ctx_regs 32 regs = regs"
  by (auto simp: ctx_regs_def wf_regs_def list_all_iff intro!: map_idI)

text \<open>C1: a warp does the same on the synthesizable compute unit and on the golden model: dispatched on an encoded
  program of at most 256 words, at the same resume point inside it, with equal registers and with memories that agree on the addresses the golden memory has storage for,
  both stop in the same way (completed, or stalled at the same barrier with the same resume point), with
  equal registers and memories that agree again, whatever their caches hold. This holds for a build with
  or without vector operations (\<open>vec\<close>; the default build has none), under these conditions on the run
  (\<open>run_fits\<close>), each of which a known difference of the two models makes necessary: a build without vector
  operations executes none; a lane that loads or stores uses an address that stays within 32 bits (the golden
  model adds in 64) and is backed on the golden side, that is, outside the shared window or covered by an
  allocation; no branch overflows the bounded divergence stack (at most eight branches ahead are enough, by
  \<open>few_branches_run_fits\<close>). The dispatch enables all 32 lanes, the golden unit runs 32 threads per warp on a memory
  of its device, its controller holds no divergence left over from an earlier run of that warp id, and the warp id is
  not the largest 32-bit value.\<close>

theorem warp_parity:
  assumes "length program \<le> MAX_PROGRAM_LEN" "unat (wd_resume_pc d) \<le> length program"
    and "wd_active_mask_init d = - 1" "gc_threads_per_warp cu = 32" "wf_regs regs"
    and "wf_simt (gc_simt cu)" "\<not> gHasPendingDivergence (gc_simt cu) w" "w \<noteq> - 1"
    and "bu_ext_memory (gc_binary cu) = Some m" "mem_rel B c s m"
    and "run_fits vec B fp (of_nat c) (wd_warp_id d) (drop (unat (wd_resume_pc d)) program)
      \<lparr> wr_simt = initializeWarp (- 1) DivergenceStack_default, wr_regs = regs, wr_mem = s \<rparr>"
    and "wc_warp_id ctx = w" "wc_pc ctx = ucast (wd_resume_pc d)" "wc_regs ctx = regs"
    and "wc_program ctx = map decodeInstruction program"
  shows "case executeOneWarp vec fp handleRequest (of_nat c) d program (of_nat (length program)) regs s of (st, regs', s') \<Rightarrow>
    case executeWarp fp (ctx, cu) of (bid, ctx', cu') \<Rightarrow>
      same_status st (bid, wc_pc ctx') \<and> wc_regs ctx' = regs' \<and>
      (\<exists>m'. bu_ext_memory (gc_binary cu') = Some m' \<and> mem_rel B c s' m')"
proof -
  let ?i = "unat (wd_resume_pc d)" and ?cu = "cu\<lparr> gc_simt := gInitializeWarp w 32 (gc_simt cu) \<rparr>"
  let ?s = "\<lparr> wr_simt = initializeWarp (- 1) DivergenceStack_default, wr_regs = regs, wr_mem = s \<rparr>"
  have "warp_rel B c w ?s (regs, ?cu)"
    using assms(4,5,9,10) gInitializeWarp_fresh [OF assms(6-8)]
    by (simp add: warp_rel_def wf_regs_def initializeWarp_wf initializeWarp_abs)
  moreover have "wc_pc ctx = of_nat ?i" using assms(13) by (simp add: unsigned_ucast_eq)
  ultimately show ?thesis
    using warp_loop_sim [OF refl assms(2,1) _ assms(11), of w "(regs, ?cu)" 0] assms
    by (auto simp: executeOneWarp_def executeWarp_def Let_def ctx_regs_wf warp_rel_def split: prod.splits)
qed

section \<open>Witness\<close>

definition parity_program :: "instr_word_t list" where
  "parity_program = [encodeInstruction Op_SW 0 0 5 16, encodeInstruction Op_BARRIER 0 0 0 3]"

definition parity_dispatch :: warp_dispatch_t where
  "parity_dispatch = \<lparr> wd_slot_id = 0, wd_warp_id = 4, wd_active_mask_init = - 1, wd_resume_pc = 0, wd_fresh_launch = True \<rparr>"

text \<open>A memory of the golden device as it starts: no block has shared memory.\<close>

definition gmemory_top :: gmemory where
  "gmemory_top = gmemory0\<lparr> gm_shared_memory := Map.empty \<rparr>"

lemma gmemory_top_rel:
  "coherent gmemory_top" "golden_view 0 gmemory_top a = 0"
  "golden_backed 0 gmemory_top a \<longleftrightarrow> \<not> gIsSharedMemoryAddress gmemory0 (gAlignAddress (ucast a))"
  by (auto simp: gmemory_top_def gmemory0_def coherent_def golden_view_def gLoadSharedMemory_def shared_offset_def
      global_word_def golden_backed_def gIsSharedMemoryAddress_def)

definition parity_cu :: ComputeUnit where
  "parity_cu = put_mem gmemory_top (ComputeUnit_init 32 8 0)"

definition parity_ctx :: WarpContext where
  "parity_ctx = WarpContext_default\<lparr> wc_warp_id := 4, wc_regs := replicate 32 (replicate 32 9),
     wc_program := map decodeInstruction parity_program \<rparr>"

lemma parity_decoded:
  "map decodeInstruction parity_program = [makeInstr Op_SW 0 0 5 16, makeInstr Op_BARRIER 0 0 0 3]"
  by code_simp

theorem warp_parity_witness:
  "\<forall>fp. case executeOneWarp False fp handleRequest 0 parity_dispatch parity_program 2 (replicate 32 (replicate 32 9))
      (subsystem0, \<lambda>_. 0) of (st, regs', s') \<Rightarrow>
    case executeWarp fp (parity_ctx, parity_cu) of (bid, ctx', cu') \<Rightarrow>
      same_status st (bid, wc_pc ctx') \<and> wc_regs ctx' = regs'"
proof
  fix fp
  let ?regs = "replicate 32 (replicate 32 9) :: RegisterFile"
  obtain w1 w2 where p: "parity_program = [w1, w2]" by (simp add: parity_program_def)
  have d: "decodeInstruction w1 = makeInstr Op_SW 0 0 5 16" "decodeInstruction w2 = makeInstr Op_BARRIER 0 0 0 3"
    using parity_decoded by (simp_all add: p)
  have "cu_inv 0 (subsystem0, \<lambda>_. 0)"
    using subsystem0_inv [of "\<lambda>_. 0" "\<lambda>_. {}"] by (simp add: cu_inv_def mem_inv_def)
  moreover have "cu_view 0 (subsystem0, \<lambda>_. 0) a = 0" for a
    by (simp add: cu_view_def flat_view_def subsystem0_def mem_reset_def)
  ultimately have rel: "mem_rel (golden_backed 0 gmemory_top) 0 (subsystem0, \<lambda>_. 0) gmemory_top"
    by (simp add: mem_rel_def gmemory_top_rel)
  have "golden_backed 0 gmemory_top 25"
    by (simp add: gmemory_top_rel gIsSharedMemoryAddress_def SHARED_MEM_BASE_def gAlignAddress_def word_le_nat_alt)
  then have ok: "run_fits False (golden_backed 0 gmemory_top) fp (of_nat 0) 4 parity_program
      \<lparr> wr_simt = initializeWarp (- 1) DivergenceStack_default, wr_regs = ?regs, wr_mem = (subsystem0, \<lambda>_. 0) \<rparr>"
    by (simp add: p d makeInstr_def Let_def step_fits_def addr_in_range_def vector_op_def Instruction_default_def)
  note inst = warp_parity [where program = parity_program and d = parity_dispatch and cu = parity_cu and w = 4
      and regs = ?regs and m = gmemory_top and c = 0 and s = "(subsystem0, \<lambda>_. 0)" and ctx = parity_ctx and fp = fp
      and vec = False and B = "golden_backed 0 gmemory_top"]
  show "case executeOneWarp False fp handleRequest 0 parity_dispatch parity_program 2 ?regs (subsystem0, \<lambda>_. 0) of
      (st, regs', s') \<Rightarrow> case executeWarp fp (parity_ctx, parity_cu) of (bid, ctx', cu') \<Rightarrow>
        same_status st (bid, wc_pc ctx') \<and> wc_regs ctx' = regs'"
    using inst rel ok d
    by (auto simp: p makeInstr_def parity_dispatch_def parity_cu_def ComputeUnit_init_def put_mem_def
        wf_regs_def list_all_iff SIMTController_default_def wf_simt_def gHasPendingDivergence_def parity_ctx_def
        WarpContext_default_def split: prod.splits)
qed

end
