(* ===== verification/GoldenSched.thy ===== *)
theory GoldenSched
  imports HlsTypes "HOL-Library.Multiset"
begin

text \<open>
  The warp scheduler of the golden model: \<open>models/systemc/src/scheduler/warp_scheduler.cpp\<close>. One ready and one
  stalled queue per compute unit, filled round robin and then rebalanced by a loop that moves one
  warp at a time. A configuration has at least one unit and room for one warp (the code takes
  remainders by both).
\<close>

section \<open>State and operations\<close>

datatype SchedulingPolicy = ROUND_ROBIN | PRIORITY | FIFO

record WarpScheduler =
  gs_num_compute_units :: u32
  gs_max_warps_per_cu :: u32
  gs_policy :: SchedulingPolicy
  gs_ready_queues :: "u32 list list"
  gs_stalled_queues :: "u32 list list"
  gs_round_robin_indices :: "u32 list"
  gs_kernel_warp_counter :: u32
  gs_total_warps_dispatched :: u32
  gs_total_kernels_completed :: u32

definition WarpScheduler_init :: "u32 \<Rightarrow> u32 \<Rightarrow> SchedulingPolicy \<Rightarrow> WarpScheduler" where
  "WarpScheduler_init num_cus max_warps policy = \<lparr> gs_num_compute_units = num_cus, gs_max_warps_per_cu = max_warps,
     gs_policy = policy, gs_ready_queues = replicate (unat num_cus) [], gs_stalled_queues = replicate (unat num_cus) [],
     gs_round_robin_indices = replicate (unat num_cus) 0, gs_kernel_warp_counter = 0,
     gs_total_warps_dispatched = 0, gs_total_kernels_completed = 0 \<rparr>"

definition INVALID_WARP_ID :: u32 where "INVALID_WARP_ID = 0xFFFFFFFF"

definition push_queue :: "nat \<Rightarrow> u32 \<Rightarrow> u32 list list \<Rightarrow> u32 list list" where
  "push_queue c w qs = qs[c := qs ! c @ [w]]"

definition generate_warp :: "nat \<Rightarrow> WarpScheduler \<Rightarrow> WarpScheduler" where
  "generate_warp i s = s\<lparr> gs_kernel_warp_counter := gs_kernel_warp_counter s + 1,
     gs_ready_queues := push_queue (unat (of_nat i mod gs_num_compute_units s)) (gs_kernel_warp_counter s) (gs_ready_queues s) \<rparr>"

definition generateWarps :: "u32 \<Rightarrow> u32 \<Rightarrow> WarpScheduler \<Rightarrow> WarpScheduler" where
  "generateWarps grid_x grid_y s = fold generate_warp [0..<unat (grid_x * grid_y)] s"

text \<open>The scan of one pass of the balancing loop: the first longest and the first shortest queue.\<close>

definition max_cu :: "u32 list list \<Rightarrow> nat" where
  "max_cu qs = fold (\<lambda>i m. if length (qs ! i) > length (qs ! m) then i else m) [1..<length qs] 0"

definition min_cu :: "u32 list list \<Rightarrow> nat" where
  "min_cu qs = fold (\<lambda>i m. if length (qs ! i) < length (qs ! m) then i else m) [1..<length qs] 0"

definition move_warp :: "nat \<Rightarrow> nat \<Rightarrow> u32 list list \<Rightarrow> u32 list list" where
  "move_warp a b qs = push_queue b (hd (qs ! a)) (qs[a := tl (qs ! a)])"

definition unbalanced :: "u32 list list \<Rightarrow> bool" where
  "unbalanced qs \<longleftrightarrow> length (qs ! max_cu qs) > length (qs ! min_cu qs) + 1"

text \<open>The sum of the squared lengths decreases with every move.\<close>

definition imbalance :: "u32 list list \<Rightarrow> nat" where
  "imbalance qs = sum_list (map (\<lambda>q. length q * length q) qs)"

lemma fold_choice_less:
  "\<lbrakk> set is \<subseteq> {..<n}; m < n \<rbrakk> \<Longrightarrow> fold (\<lambda>i m. if P i m then i else m) is m < (n :: nat)"
  by (induction "is" arbitrary: m) auto

lemma cu_less: "qs \<noteq> [] \<Longrightarrow> max_cu qs < length qs" "qs \<noteq> [] \<Longrightarrow> min_cu qs < length qs"
  unfolding max_cu_def min_cu_def by (rule fold_choice_less; auto)+

lemma sum_list_upd:
  "k < length xs \<Longrightarrow> sum_list (xs[k := y]) + xs ! k = sum_list xs + (y :: nat)"
  by (induction xs arbitrary: k) (auto split: nat.split)

lemma move_imbalance:
  assumes "a < length qs" "b < length qs" "length (qs ! a) > length (qs ! b) + 1"
  shows "imbalance (move_warp a b qs) < imbalance qs"
proof -
  let ?f = "\<lambda>q :: u32 list. length q * length q" and ?ta = "tl (qs ! a)" and ?tb = "qs ! b @ [hd (qs ! a)]"
  have "a \<noteq> b" using assms(3) by auto
  then have m: "move_warp a b qs = qs[a := ?ta, b := ?tb]" by (simp add: move_warp_def push_queue_def)
  have "sum_list (map ?f (qs[a := ?ta, b := ?tb])) + ?f (qs ! a) + ?f (qs ! b) = sum_list (map ?f qs) + ?f ?ta + ?f ?tb"
    using sum_list_upd [of a "map ?f qs" "?f ?ta"] sum_list_upd [of b "(map ?f qs)[a := ?f ?ta]" "?f ?tb"] assms(1,2) \<open>a \<noteq> b\<close>
    by (simp add: map_update)
  moreover obtain la lb where l: "length (qs ! a) = Suc la" "length (qs ! b) = lb" "lb + 1 \<le> la"
    using assms(3) by (cases "length (qs ! a)") auto
  then have "?f ?ta + ?f ?tb < ?f (qs ! a) + ?f (qs ! b)" by (simp add: algebra_simps)
  ultimately show ?thesis unfolding imbalance_def m by linarith
qed

lemma unbalanced_move: "unbalanced qs \<Longrightarrow> imbalance (move_warp (max_cu qs) (min_cu qs) qs) < imbalance qs"
proof -
  assume u: "unbalanced qs"
  then have "qs \<noteq> []" by (auto simp: unbalanced_def max_cu_def min_cu_def)
  with u show ?thesis using cu_less by (intro move_imbalance) (auto simp: unbalanced_def)
qed

function balance_loop :: "u32 list list \<Rightarrow> u32 list list" where
  "balance_loop qs = (if unbalanced qs then balance_loop (move_warp (max_cu qs) (min_cu qs) qs) else qs)"
  by pat_completeness auto
termination
  by (relation "measure imbalance") (auto intro: unbalanced_move)

declare balance_loop.simps [simp del]

definition balanceLoadAcrossUnits :: "WarpScheduler \<Rightarrow> WarpScheduler" where
  "balanceLoadAcrossUnits s =
     (if gs_num_compute_units s < 2 then s else s\<lparr> gs_ready_queues := balance_loop (gs_ready_queues s) \<rparr>)"

definition submitKernel :: "u32 \<Rightarrow> u32 \<Rightarrow> WarpScheduler \<Rightarrow> WarpScheduler" where
  "submitKernel grid_x grid_y s = balanceLoadAcrossUnits (generateWarps grid_x grid_y s)"

definition selectWarpRoundRobin :: "u32 \<Rightarrow> WarpScheduler \<Rightarrow> u32 \<times> WarpScheduler" where
  "selectWarpRoundRobin c s =
     (case gs_ready_queues s ! unat c of [] \<Rightarrow> (INVALID_WARP_ID, s)
      | w # ws \<Rightarrow> (w, s\<lparr> gs_ready_queues := (gs_ready_queues s)[unat c := ws],
          gs_round_robin_indices := (gs_round_robin_indices s)[unat c :=
            (gs_round_robin_indices s ! unat c + 1) mod gs_max_warps_per_cu s] \<rparr>))"

definition selectWarpFIFO :: "u32 \<Rightarrow> WarpScheduler \<Rightarrow> u32 \<times> WarpScheduler" where
  "selectWarpFIFO c s = selectWarpRoundRobin c s"

definition selectWarpPriority :: "u32 \<Rightarrow> WarpScheduler \<Rightarrow> u32 \<times> WarpScheduler" where
  "selectWarpPriority c s = selectWarpRoundRobin c s"

definition selectWarp :: "u32 \<Rightarrow> WarpScheduler \<Rightarrow> u32 \<times> WarpScheduler" where
  "selectWarp c s =
     (if c \<ge> gs_num_compute_units s then (INVALID_WARP_ID, s)
      else let (w, s1) = (case gs_policy s of ROUND_ROBIN \<Rightarrow> selectWarpRoundRobin c s
                 | FIFO \<Rightarrow> selectWarpFIFO c s | PRIORITY \<Rightarrow> selectWarpPriority c s)
           in (w, if w \<noteq> INVALID_WARP_ID
                  then s1\<lparr> gs_total_warps_dispatched := gs_total_warps_dispatched s1 + 1 \<rparr> else s1))"

definition markWarpComplete :: "u32 \<Rightarrow> u32 \<Rightarrow> WarpScheduler \<Rightarrow> WarpScheduler" where
  "markWarpComplete c w s = s\<lparr> gs_total_kernels_completed := gs_total_kernels_completed s + 1 \<rparr>"

definition markWarpStalled :: "u32 \<Rightarrow> u32 \<Rightarrow> WarpScheduler \<Rightarrow> WarpScheduler" where
  "markWarpStalled c w s = (if c \<ge> gs_num_compute_units s then s
     else s\<lparr> gs_stalled_queues := push_queue (unat c) w (gs_stalled_queues s) \<rparr>)"

definition hasReadyWarps :: "WarpScheduler \<Rightarrow> u32 \<Rightarrow> bool" where
  "hasReadyWarps s c = (if c \<ge> gs_num_compute_units s then False else gs_ready_queues s ! unat c \<noteq> [])"

definition sched_isComplete :: "WarpScheduler \<Rightarrow> bool" where
  "sched_isComplete s = list_all (\<lambda>i. gs_ready_queues s ! i = [] \<and> gs_stalled_queues s ! i = [])
     [0..<unat (gs_num_compute_units s)]"

section \<open>Well-formedness\<close>

definition wf_sched :: "WarpScheduler \<Rightarrow> bool" where
  "wf_sched s \<longleftrightarrow> gs_num_compute_units s > 0 \<and> gs_max_warps_per_cu s > 0 \<and>
     length (gs_ready_queues s) = unat (gs_num_compute_units s) \<and>
     length (gs_stalled_queues s) = unat (gs_num_compute_units s) \<and>
     length (gs_round_robin_indices s) = unat (gs_num_compute_units s)"

definition queued :: "WarpScheduler \<Rightarrow> u32 multiset" where
  "queued s = mset (concat (gs_ready_queues s))"

lemma length_push [simp]: "length (push_queue c w qs) = length qs"
  by (simp add: push_queue_def)

lemma mset_concat_update:
  "k < length qs \<Longrightarrow> mset (concat (qs[k := q])) + mset (qs ! k) = mset (concat qs) + mset q"
  by (induction qs arbitrary: k) (auto split: nat.split simp: add_ac)

lemma mset_push: "c < length qs \<Longrightarrow> mset (concat (push_queue c w qs)) = add_mset w (mset (concat qs))"
  using mset_concat_update [of c qs "qs ! c @ [w]"] by (simp add: push_queue_def)

lemma mset_move:
  assumes "a < length qs" "b < length qs" "length (qs ! a) > length (qs ! b) + 1"
  shows "mset (concat (move_warp a b qs)) = mset (concat qs)"
proof -
  obtain w ws where q: "qs ! a = w # ws" using assms(3) by (cases "qs ! a") auto
  have "mset (concat (qs[a := ws])) + mset (w # ws) = mset (concat qs) + mset ws"
    using mset_concat_update [OF assms(1), of ws] q by simp
  then show ?thesis using assms(2) q by (simp add: move_warp_def mset_push)
qed

lemma balance_loop_mset: "mset (concat (balance_loop qs)) = mset (concat qs) \<and> length (balance_loop qs) = length qs"
proof (induction qs rule: balance_loop.induct)
  case (1 qs)
  show ?case
  proof (cases "unbalanced qs")
    case True
    then have "qs \<noteq> []" by (auto simp: unbalanced_def max_cu_def min_cu_def)
    then have "mset (concat (move_warp (max_cu qs) (min_cu qs) qs)) = mset (concat qs)"
      using True cu_less by (intro mset_move) (auto simp: unbalanced_def)
    moreover have "balance_loop qs = balance_loop (move_warp (max_cu qs) (min_cu qs) qs)"
      using True by (subst balance_loop.simps) simp
    ultimately show ?thesis using 1 [OF True] by (simp add: move_warp_def)
  next
    case False
    then have "balance_loop qs = qs" by (subst balance_loop.simps) simp
    then show ?thesis by simp
  qed
qed

lemma fold_extremum:
  fixes f :: "nat \<Rightarrow> int"
  shows "\<forall>j \<in> insert m (set is). f j \<le> f (fold (\<lambda>i m. if f m < f i then i else m) is m)"
proof (induction "is" arbitrary: m)
  case (Cons a "is")
  define m' where "m' = (if f m < f a then a else m)"
  have "f m \<le> f m'" "f a \<le> f m'" by (simp_all add: m'_def)
  with Cons.IH [of m'] show ?case unfolding fold_Cons o_def m'_def [symmetric] by (fastforce intro: order_trans)
qed simp

lemma max_cu_max: "j < length qs \<Longrightarrow> length (qs ! j) \<le> length (qs ! max_cu qs)"
  using fold_extremum [of 0 "[1..<length qs]" "\<lambda>i. int (length (qs ! i))"]
  by (cases "j = 0") (auto simp: max_cu_def)

lemma min_cu_min: "j < length qs \<Longrightarrow> length (qs ! min_cu qs) \<le> length (qs ! j)"
  using fold_extremum [of 0 "[1..<length qs]" "\<lambda>i. - int (length (qs ! i))"]
  by (cases "j = 0") (auto simp: min_cu_def)

lemma balance_loop_balanced: "\<not> unbalanced (balance_loop qs)"
  by (induction qs rule: balance_loop.induct) (subst balance_loop.simps, simp)

lemma balanced_lengths:
  "\<lbrakk> \<not> unbalanced qs; i < length qs; j < length qs \<rbrakk> \<Longrightarrow> length (qs ! i) \<le> length (qs ! j) + 1"
  using max_cu_max [of i qs] min_cu_min [of j qs] by (simp add: unbalanced_def)

lemma generate_warp_step:
  assumes "wf_sched s"
  shows "wf_sched (generate_warp i s)" "queued (generate_warp i s) = add_mset (gs_kernel_warp_counter s) (queued s)"
    "gs_kernel_warp_counter (generate_warp i s) = gs_kernel_warp_counter s + 1"
    "gs_num_compute_units (generate_warp i s) = gs_num_compute_units s"
proof -
  have "unat (of_nat i mod gs_num_compute_units s) < length (gs_ready_queues s)"
    using assms by (simp add: wf_sched_def unat_mod word_less_nat_alt)
  then show "wf_sched (generate_warp i s)" "queued (generate_warp i s) = add_mset (gs_kernel_warp_counter s) (queued s)"
    "gs_kernel_warp_counter (generate_warp i s) = gs_kernel_warp_counter s + 1"
    "gs_num_compute_units (generate_warp i s) = gs_num_compute_units s"
    using assms by (simp_all add: wf_sched_def queued_def generate_warp_def mset_push)
qed

lemma generate_fold:
  assumes "wf_sched s"
  shows "wf_sched (fold generate_warp is s) \<and>
    queued (fold generate_warp is s) = queued s + mset (map (\<lambda>k. gs_kernel_warp_counter s + of_nat k) [0..<length is]) \<and>
    gs_kernel_warp_counter (fold generate_warp is s) = gs_kernel_warp_counter s + of_nat (length is)
    \<and> gs_num_compute_units (fold generate_warp is s) = gs_num_compute_units s"
proof (induction "is" rule: rev_induct)
  case Nil
  then show ?case using assms by simp
next
  case (snoc i "is")
  then show ?case using generate_warp_step [of "fold generate_warp is s" i] by (simp add: add_ac)
qed

lemma submit_facts:
  assumes "wf_sched s"
  shows "wf_sched (submitKernel gx gy s)"
    "queued (submitKernel gx gy s) = queued s + mset (map (\<lambda>k. gs_kernel_warp_counter s + of_nat k) [0..<unat (gx * gy)])"
    "gs_kernel_warp_counter (submitKernel gx gy s) = gs_kernel_warp_counter s + gx * gy"
    "gs_num_compute_units (submitKernel gx gy s) = gs_num_compute_units s"
  using generate_fold [OF assms, of "[0..<unat (gx * gy)]"]
    balance_loop_mset [of "gs_ready_queues (generateWarps gx gy s)"]
  by (auto simp: submitKernel_def balanceLoadAcrossUnits_def generateWarps_def wf_sched_def queued_def)

lemma submit_spread:
  assumes "wf_sched s" "i < unat (gs_num_compute_units s)" "j < unat (gs_num_compute_units s)"
  shows "length (gs_ready_queues (submitKernel gx gy s) ! i) \<le> length (gs_ready_queues (submitKernel gx gy s) ! j) + 1"
proof (cases "gs_num_compute_units s < 2")
  case True
  then have "i = j" using assms(2,3) by (simp add: word_less_nat_alt)
  then show ?thesis by simp
next
  case False
  have wf: "wf_sched (submitKernel gx gy s)" "gs_num_compute_units (submitKernel gx gy s) = gs_num_compute_units s"
    using submit_facts [OF assms(1)] by simp_all
  then have "\<not> gs_num_compute_units (generateWarps gx gy s) < 2"
    using False by (simp add: submitKernel_def balanceLoadAcrossUnits_def split: if_splits)
  then have "gs_ready_queues (submitKernel gx gy s) = balance_loop (gs_ready_queues (generateWarps gx gy s))"
    by (simp add: submitKernel_def balanceLoadAcrossUnits_def)
  then show ?thesis
    using balanced_lengths [OF balance_loop_balanced] wf assms(2,3) by (metis wf_sched_def)
qed

lemma select_queued:
  assumes "wf_sched s" "c < gs_num_compute_units s" "gs_ready_queues s ! unat c = w # ws" "w \<noteq> INVALID_WARP_ID"
  shows "fst (selectWarp c s) = w" "queued s = add_mset w (queued (snd (selectWarp c s)))"
proof -
  have c: "unat c < length (gs_ready_queues s)" using assms(1,2) by (simp add: wf_sched_def word_less_nat_alt)
  have r: "selectWarp c s = (w, (snd (selectWarpRoundRobin c s))\<lparr> gs_total_warps_dispatched := gs_total_warps_dispatched s + 1 \<rparr>)"
    using assms(2-4)
    by (cases "gs_policy s") (simp_all add: selectWarp_def selectWarpRoundRobin_def selectWarpFIFO_def selectWarpPriority_def)
  then show "fst (selectWarp c s) = w" by simp
  show "queued s = add_mset w (queued (snd (selectWarp c s)))"
    using mset_concat_update [OF c, of ws] assms(3) by (simp add: r queued_def selectWarpRoundRobin_def)
qed

section \<open>Properties\<close>

text \<open>C27: submitting a kernel queues exactly one new warp per grid cell, numbered on from the warp counter, loses none
  that were queued, and leaves the ready queues of any two compute units within one warp of each
  other, however they were filled before; the balancing loop always ends.\<close>

theorem submit_balances:
  assumes "wf_sched s" "s' = submitKernel gx gy s"
  shows "wf_sched s' \<and>
    queued s' = queued s + mset (map (\<lambda>k. gs_kernel_warp_counter s + of_nat k) [0..<unat (gx * gy)]) \<and>
    gs_kernel_warp_counter s' = gs_kernel_warp_counter s + gx * gy \<and>
    (\<forall>i < unat (gs_num_compute_units s). \<forall>j < unat (gs_num_compute_units s).
       length (gs_ready_queues s' ! i) \<le> length (gs_ready_queues s' ! j) + 1)"
  using submit_facts [OF assms(1)] submit_spread [OF assms(1)] by (simp add: assms(2))

section \<open>Witness\<close>

theorem submit_balances_witness:
  "gs_kernel_warp_counter (submitKernel 3 4 (WarpScheduler_init 5 8 ROUND_ROBIN)) = 12 \<and>
   length (gs_ready_queues (submitKernel 3 4 (WarpScheduler_init 5 8 ROUND_ROBIN)) ! 0)
     \<le> length (gs_ready_queues (submitKernel 3 4 (WarpScheduler_init 5 8 ROUND_ROBIN)) ! 4) + 1"
proof -
  have "wf_sched (WarpScheduler_init 5 8 ROUND_ROBIN)" by (simp add: wf_sched_def WarpScheduler_init_def)
  from submit_balances [OF this refl, of 3 4] show ?thesis by (simp add: WarpScheduler_init_def)
qed

end
