(* ===== verification/GoldenTop.thy ===== *)
theory GoldenTop
  imports GoldenCU GoldenSched
begin

text \<open>
  The golden device: \<open>models/systemc/src/top/top.cpp\<close>. \<open>simulationProcess\<close> is a loop over passes: every pass
  dispatches one warp per compute unit and then, when no warp is queued, checks the barrier that all
  warps of the kernel must have reached. The compute units share one \<open>MemoryHierarchy\<close> object by
  pointer; the model hands it to the unit that executes and takes it back. The loop runs with fuel,
  because a kernel in which only some warps reach a barrier never leaves it.
\<close>

section \<open>State\<close>

record gpgpu_top =
  gt_num_compute_units :: u32
  gt_threads_per_warp :: u32
  gt_kernel_program :: "Instruction list"
  gt_warp_id_offset :: u32
  gt_kernel_start_warp_id :: u32
  gt_total_warps :: u32
  gt_scheduler :: WarpScheduler
  gt_memory :: gmemory
  gt_compute_units :: "ComputeUnit list"

definition MemoryHierarchy_init :: "u32 \<Rightarrow> gmemory" where
  "MemoryHierarchy_init shared_size = \<lparr> gm_shared_size = shared_size, gm_shared_memory = Map.empty,
     gm_global_memory = Map.empty, gm_l1_cache = Map.empty, gm_l2_cache = Map.empty,
     gm_l1_hits = 0, gm_l1_misses = 0, gm_l2_hits = 0, gm_l2_misses = 0 \<rparr>"

definition GPGPUTop_init :: "u32 \<Rightarrow> u32 \<Rightarrow> u32 \<Rightarrow> u32 \<Rightarrow> gpgpu_top" where
  "GPGPUTop_init num_cus max_warps tpw shared_size = \<lparr> gt_num_compute_units = num_cus, gt_threads_per_warp = tpw,
     gt_kernel_program = [], gt_warp_id_offset = 0, gt_kernel_start_warp_id = 0, gt_total_warps = 0,
     gt_scheduler = WarpScheduler_init num_cus max_warps ROUND_ROBIN,
     gt_memory = MemoryHierarchy_init shared_size,
     gt_compute_units = replicate (unat num_cus) (ComputeUnit_init tpw max_warps 0) \<rparr>"

section \<open>Launch\<close>

definition topLaunchKernel :: "u32 \<Rightarrow> u32 \<Rightarrow> Instruction list \<Rightarrow> u32 \<Rightarrow> gpgpu_top \<Rightarrow> gpgpu_top" where
  "topLaunchKernel grid_x grid_y program offset t =
     t\<lparr> gt_kernel_program := program,
        gt_kernel_start_warp_id := gs_kernel_warp_counter (gt_scheduler t),
        gt_warp_id_offset := offset,
        gt_total_warps := grid_x * grid_y,
        gt_scheduler := submitKernel grid_x grid_y (gt_scheduler t) \<rparr>"

definition global_tid :: "gpgpu_top \<Rightarrow> u32 \<Rightarrow> nat \<Rightarrow> u32" where
  "global_tid t warp_id lane = (warp_id + gt_warp_id_offset t) * gt_threads_per_warp t + of_nat lane"

definition buildWarpContext :: "gpgpu_top \<Rightarrow> u32 \<Rightarrow> WarpContext" where
  "buildWarpContext t warp_id = WarpContext_default\<lparr>
     wc_warp_id := warp_id, wc_kernel_id := 0, wc_pc := 0, wc_state := W_READY,
     wc_program := gt_kernel_program t,
     wc_active_mask := (if gt_threads_per_warp t = 32 then 0xFFFFFFFF
                        else push_bit (unat (gt_threads_per_warp t)) 1 - 1),
     wc_regs := map (\<lambda>k. (replicate 32 0)[1 := global_tid t warp_id k, 2 := 0x10000 + global_tid t warp_id k * 4,
                           3 := warp_id - gt_kernel_start_warp_id t]) [0..<unat (gt_threads_per_warp t)] \<rparr>"

section \<open>The simulation loop\<close>

record stalled_warp =
  sw_id :: u32
  sw_cu_id :: u32
  sw_bid :: u32
  sw_ctx :: WarpContext

definition execute_on :: "fpu \<Rightarrow> nat \<Rightarrow> WarpContext \<Rightarrow> gpgpu_top \<Rightarrow> u32 \<times> WarpContext \<times> gpgpu_top" where
  "execute_on fp c ctx t =
     (let (bid, ctx', cu) = executeWarp fp (ctx, put_mem (gt_memory t) (gt_compute_units t ! c))
      in ((case bid of Some b \<Rightarrow> b | None \<Rightarrow> 0), ctx',
          t\<lparr> gt_compute_units := (gt_compute_units t)[c := cu],
             gt_memory := (case bu_ext_memory (gc_binary cu) of Some m \<Rightarrow> m | None \<Rightarrow> gt_memory t) \<rparr>))"

definition dispatch_unit :: "fpu \<Rightarrow> nat \<Rightarrow> gpgpu_top \<times> stalled_warp list \<Rightarrow> gpgpu_top \<times> stalled_warp list" where
  "dispatch_unit fp c = (\<lambda>(t0, q).
     let (w, sched) = selectWarp (of_nat c) (gt_scheduler t0); t = t0\<lparr> gt_scheduler := sched \<rparr> in
     if w = INVALID_WARP_ID then (t, q)
     else let (bid, ctx, t1) = execute_on fp c (buildWarpContext t w) t;
              t2 = t1\<lparr> gt_scheduler := markWarpComplete (of_nat c) w (gt_scheduler t1) \<rparr>
          in if wc_state ctx = W_COMPLETE then (t2, q)
             else (t2, q @ [\<lparr> sw_id = w, sw_cu_id = of_nat c, sw_bid = bid, sw_ctx = ctx \<rparr>]))"

definition fan_out :: "fpu \<Rightarrow> gpgpu_top \<times> stalled_warp list \<Rightarrow> gpgpu_top \<times> stalled_warp list" where
  "fan_out fp tq = fold (dispatch_unit fp) [0..<unat (gt_num_compute_units (fst tq))] tq"

definition clear_barriers :: "u32 \<Rightarrow> gpgpu_top \<Rightarrow> gpgpu_top" where
  "clear_barriers bid t = t\<lparr> gt_compute_units :=
     map (cuClearBarrier bid) (gt_compute_units t) \<rparr>"

definition resume_warp :: "fpu \<Rightarrow> stalled_warp \<Rightarrow> gpgpu_top \<times> stalled_warp list \<Rightarrow> gpgpu_top \<times> stalled_warp list" where
  "resume_warp fp sw = (\<lambda>(t, next_queue).
     let (bid, ctx, t1) = execute_on fp (unat (sw_cu_id sw)) (sw_ctx sw) t in
     (t1, if wc_state ctx = W_STALLED then next_queue @ [sw\<lparr> sw_bid := bid, sw_ctx := ctx \<rparr>] else next_queue))"

definition barrier_check :: "fpu \<Rightarrow> gpgpu_top \<times> stalled_warp list \<Rightarrow> gpgpu_top \<times> stalled_warp list" where
  "barrier_check fp = (\<lambda>(t, q).
     if sched_isComplete (gt_scheduler t) \<and> q \<noteq> [] \<and> length q = unat (gt_total_warps t)
     then fold (resume_warp fp) q (clear_barriers (sw_bid (hd q)) t, []) else (t, q))"

definition sim_pass :: "fpu \<Rightarrow> gpgpu_top \<times> stalled_warp list \<Rightarrow> gpgpu_top \<times> stalled_warp list" where
  "sim_pass fp tq = barrier_check fp (fan_out fp tq)"

definition sim_done :: "gpgpu_top \<times> stalled_warp list \<Rightarrow> bool" where
  "sim_done tq \<longleftrightarrow> sched_isComplete (gt_scheduler (fst tq)) \<and> snd tq = []"

fun sim_loop :: "fpu \<Rightarrow> nat \<Rightarrow> gpgpu_top \<times> stalled_warp list \<Rightarrow> (gpgpu_top \<times> stalled_warp list) option" where
  "sim_loop fp 0 tq = (if sim_done tq then Some tq else None)"
| "sim_loop fp (Suc n) tq = (if sim_done tq then Some tq else sim_loop fp n (sim_pass fp tq))"

section \<open>Status\<close>

definition isKernelComplete :: "gpgpu_top \<Rightarrow> bool" where
  "isKernelComplete t = sched_isComplete (gt_scheduler t)"

definition topGetTotalCycles :: "gpgpu_top \<Rightarrow> u64" where
  "topGetTotalCycles t = (case gt_compute_units t of [] \<Rightarrow> 0 | cu # _ \<Rightarrow> bu_total_cycles (gc_binary cu))"

definition topGetTotalInstructions :: "gpgpu_top \<Rightarrow> u64" where
  "topGetTotalInstructions t = foldl (\<lambda>total cu. total + bu_total_instructions (gc_binary cu)) 0 (gt_compute_units t)"

definition topGetL1CacheHits :: "gpgpu_top \<Rightarrow> u64" where "topGetL1CacheHits t = gm_l1_hits (gt_memory t)"
definition topGetL1CacheMisses :: "gpgpu_top \<Rightarrow> u64" where "topGetL1CacheMisses t = gm_l1_misses (gt_memory t)"

definition topGetDivergenceEvents :: "gpgpu_top \<Rightarrow> u32" where
  "topGetDivergenceEvents t = foldl (\<lambda>total cu. total + cuGetDivergenceEvents cu) 0 (gt_compute_units t)"

definition readWord :: "u64 \<Rightarrow> gpgpu_top \<Rightarrow> u32 \<times> gpgpu_top" where
  "readWord addr t = (let ((ok, v, lat), m) = gLoadWord addr 0 0 (gt_memory t) in (v, t\<lparr> gt_memory := m \<rparr>))"

definition topGetNextWarpId :: "gpgpu_top \<Rightarrow> u32" where
  "topGetNextWarpId t = gs_kernel_warp_counter (gt_scheduler t)"

section \<open>Lemmas\<close>

definition wf_top :: "gpgpu_top \<Rightarrow> bool" where
  "wf_top t \<longleftrightarrow> wf_sched (gt_scheduler t) \<and> gs_num_compute_units (gt_scheduler t) = gt_num_compute_units t"

text \<open>A complete scheduler hands out nothing.\<close>

lemma select_complete:
  assumes "sched_isComplete s" shows "selectWarp c s = (INVALID_WARP_ID, s)"
proof (cases "c < gs_num_compute_units s")
  case True
  then have "gs_ready_queues s ! unat c = []"
    using assms by (simp add: sched_isComplete_def list_all_iff word_less_nat_alt)
  then show ?thesis
    by (cases "gs_policy s") (simp_all add: selectWarp_def selectWarpRoundRobin_def selectWarpFIFO_def selectWarpPriority_def)
qed (simp add: selectWarp_def not_less)

lemma fan_out_complete: "sched_isComplete (gt_scheduler t) \<Longrightarrow> fan_out fp (t, q) = (t, q)"
proof -
  assume "sched_isComplete (gt_scheduler t)"
  then have "dispatch_unit fp c (t, q) = (t, q)" for c by (simp add: dispatch_unit_def select_complete)
  then have "fold (dispatch_unit fp) cs (t, q) = (t, q)" for cs by (induction cs) simp_all
  then show ?thesis by (simp add: fan_out_def)
qed

lemma no_barrier_completes:
  "\<forall>i \<in> set program. i_opcode i \<noteq> Op_BARRIER \<Longrightarrow> fst (fst (gWarpLoop fp w program pc rc)) = None"
proof (induction fp w program pc rc rule: gWarpLoop.induct)
  case (1 fp w program pc rc)
  show ?case
  proof (cases "pc < of_nat (length program)")
    case True
    have "unat (of_nat (length program) :: u32) \<le> length program" by (simp add: unat_of_nat)
    then have "unat pc < length program" using True by (simp add: word_less_nat_alt)
    then have "i_opcode (program ! unat pc) \<noteq> Op_BARRIER" using 1(2) by simp
    then show ?thesis using 1 True by (subst gWarpLoop.simps) (simp add: Let_def)
  next
    case False
    then show ?thesis by (subst gWarpLoop.simps) simp
  qed
qed

lemma execute_on_frame:
  "gt_scheduler (snd (snd (execute_on fp c ctx t))) = gt_scheduler t"
  "gt_kernel_program (snd (snd (execute_on fp c ctx t))) = gt_kernel_program t"
  "gt_num_compute_units (snd (snd (execute_on fp c ctx t))) = gt_num_compute_units t"
  by (simp_all add: execute_on_def Let_def split_def)

lemma execute_on_completes:
  "\<forall>i \<in> set (wc_program ctx). i_opcode i \<noteq> Op_BARRIER \<Longrightarrow> wc_state (fst (snd (execute_on fp c ctx t))) = W_COMPLETE"
  using no_barrier_completes by (simp add: execute_on_def executeWarp_def Let_def split_def)

lemma select_pops:
  assumes "wf_sched s" "c < unat (gs_num_compute_units s)"
  defines "s' \<equiv> snd (selectWarp (of_nat c) s)"
  shows "gs_ready_queues s ! c = [] \<Longrightarrow> selectWarp (of_nat c) s = (INVALID_WARP_ID, s)"
    and "gs_ready_queues s ! c = w # ws \<Longrightarrow> fst (selectWarp (of_nat c) s) = w \<and> queued s = add_mset w (queued s') \<and>
      gs_ready_queues s' = (gs_ready_queues s)[c := ws] \<and> gs_stalled_queues s' = gs_stalled_queues s \<and>
      gs_num_compute_units s' = gs_num_compute_units s \<and> wf_sched s' \<and>
      gs_total_kernels_completed s' = gs_total_kernels_completed s"
proof -
  have "unat (gs_num_compute_units s) < 2 ^ LENGTH(32)" by (rule unsigned_less)
  then have c: "unat (of_nat c :: u32) = c" using assms(2) by (simp add: unat_of_nat)
  then have "\<not> gs_num_compute_units s \<le> of_nat c" using assms(2) by (simp add: word_le_nat_alt)
  note c = c this
  have sel: "selectWarp (of_nat c) s = (let (w, s1) = selectWarpRoundRobin (of_nat c) s in (w, if w \<noteq> INVALID_WARP_ID
      then s1\<lparr> gs_total_warps_dispatched := gs_total_warps_dispatched s1 + 1 \<rparr> else s1))"
    using c(2) by (cases "gs_policy s") (simp_all add: selectWarp_def selectWarpFIFO_def selectWarpPriority_def)
  show "gs_ready_queues s ! c = [] \<Longrightarrow> selectWarp (of_nat c) s = (INVALID_WARP_ID, s)"
    by (simp add: sel selectWarpRoundRobin_def c)
  assume q: "gs_ready_queues s ! c = w # ws"
  have "c < length (gs_ready_queues s)" using assms by (simp add: wf_sched_def)
  from mset_concat_update [OF this, of ws] q
  show "fst (selectWarp (of_nat c) s) = w \<and> queued s = add_mset w (queued s') \<and>
      gs_ready_queues s' = (gs_ready_queues s)[c := ws] \<and> gs_stalled_queues s' = gs_stalled_queues s \<and>
      gs_num_compute_units s' = gs_num_compute_units s \<and> wf_sched s' \<and>
      gs_total_kernels_completed s' = gs_total_kernels_completed s"
    using assms(1) by (auto simp: s'_def sel selectWarpRoundRobin_def c queued_def wf_sched_def)
qed

text \<open>A device whose program has no barrier, with warps to run.\<close>

definition running :: "gpgpu_top \<Rightarrow> bool" where
  "running t \<longleftrightarrow> wf_top t \<and> (\<forall>i \<in> set (gt_kernel_program t). i_opcode i \<noteq> Op_BARRIER) \<and>
     (\<forall>q \<in> set (gs_stalled_queues (gt_scheduler t)). q = []) \<and> INVALID_WARP_ID \<notin># queued (gt_scheduler t)"

definition left :: "gpgpu_top \<Rightarrow> nat" where
  "left t = size (queued (gt_scheduler t))"

definition work :: "gpgpu_top \<Rightarrow> u32" where
  "work t = gs_total_kernels_completed (gt_scheduler t) + of_nat (left t)"

lemma dispatch_running:
  assumes "running t" "c < unat (gt_num_compute_units t)"
  shows "\<exists>t'. dispatch_unit fp c (t, []) = (t', []) \<and> running t' \<and> gt_num_compute_units t' = gt_num_compute_units t \<and>
    work t' = work t \<and> left t' \<le> left t \<and>
    (gs_ready_queues (gt_scheduler t) ! c \<noteq> [] \<longrightarrow> left t' < left t) \<and>
    (\<forall>k. k \<noteq> c \<longrightarrow> gs_ready_queues (gt_scheduler t') ! k = gs_ready_queues (gt_scheduler t) ! k)"
proof (cases "gs_ready_queues (gt_scheduler t) ! c")
  have wf: "wf_sched (gt_scheduler t)" "c < unat (gs_num_compute_units (gt_scheduler t))"
    using assms by (simp_all add: running_def wf_top_def)
  {
    case Nil
    then show ?thesis using assms select_pops(1) [OF wf]
      by (intro exI [of _ t]) (simp add: dispatch_unit_def)
  next
    case (Cons w ws)
    let ?s = "snd (selectWarp (of_nat c) (gt_scheduler t))" and ?t = "t\<lparr> gt_scheduler := snd (selectWarp (of_nat c) (gt_scheduler t)) \<rparr>"
    note sel = select_pops(2) [OF wf Cons]
    then have w: "w \<noteq> INVALID_WARP_ID" using assms(1) by (auto simp: running_def)
    let ?e = "execute_on fp c (buildWarpContext ?t w) ?t"
    let ?t2 = "(snd (snd ?e))\<lparr> gt_scheduler := markWarpComplete (of_nat c) w ?s \<rparr>"
    have "wc_state (fst (snd ?e)) = W_COMPLETE"
      using assms(1) by (intro execute_on_completes) (simp add: running_def buildWarpContext_def)
    then have d: "dispatch_unit fp c (t, []) = (?t2, [])"
      using sel w execute_on_frame(1) [of fp c "buildWarpContext ?t w" ?t]
      by (simp add: dispatch_unit_def split_def Let_def)
    have q: "queued (markWarpComplete (of_nat c) w ?s) = queued ?s" by (simp add: queued_def markWarpComplete_def)
    show ?thesis
      using assms(1) sel d execute_on_frame [of fp c "buildWarpContext ?t w" ?t] q
      by (intro exI [of _ ?t2])
        (auto simp: running_def wf_top_def left_def work_def markWarpComplete_def wf_sched_def)
  }
qed

lemma fan_running:
  assumes "running t" "set cs \<subseteq> {..<unat (gt_num_compute_units t)}"
  shows "\<exists>t'. fold (dispatch_unit fp) cs (t, []) = (t', []) \<and> running t' \<and> work t' = work t \<and> left t' \<le> left t \<and>
    ((\<exists>c \<in> set cs. gs_ready_queues (gt_scheduler t) ! c \<noteq> []) \<longrightarrow> left t' < left t)"
  using assms
proof (induction cs arbitrary: t)
  case Nil
  then show ?case by simp
next
  case (Cons c cs)
  obtain t1 where t1: "dispatch_unit fp c (t, []) = (t1, [])" "running t1" "gt_num_compute_units t1 = gt_num_compute_units t"
    "work t1 = work t" "left t1 \<le> left t" "gs_ready_queues (gt_scheduler t) ! c \<noteq> [] \<Longrightarrow> left t1 < left t"
    "\<And>k. k \<noteq> c \<Longrightarrow> gs_ready_queues (gt_scheduler t1) ! k = gs_ready_queues (gt_scheduler t) ! k"
    using dispatch_running [OF Cons.prems(1), of c fp] Cons.prems(2) by auto
  obtain t' where t': "fold (dispatch_unit fp) cs (t1, []) = (t', [])" "running t'" "work t' = work t1" "left t' \<le> left t1"
    "(\<exists>c \<in> set cs. gs_ready_queues (gt_scheduler t1) ! c \<noteq> []) \<Longrightarrow> left t' < left t1"
    using Cons.IH [OF t1(2)] Cons.prems(2) t1(3) by auto
  have "left t' < left t" if "\<exists>k \<in> set (c # cs). gs_ready_queues (gt_scheduler t) ! k \<noteq> []"
    using that t1(5-7) t'(4,5) by (metis le_less_trans less_le_trans set_ConsD)
  then show ?case using t1 t' by (intro exI [of _ t']) auto
qed

lemma pass_running:
  assumes "running t" "\<not> sim_done (t, [])"
  obtains t' where "sim_pass fp (t, []) = (t', [])" "running t'" "work t' = work t" "left t' < left t"
proof -
  obtain c where c: "c < unat (gt_num_compute_units t)" "gs_ready_queues (gt_scheduler t) ! c \<noteq> []"
    using assms by (auto simp: sim_done_def sched_isComplete_def list_all_iff running_def wf_top_def wf_sched_def)
  obtain t' where "fold (dispatch_unit fp) [0..<unat (gt_num_compute_units t)] (t, []) = (t', [])" "running t'"
    "work t' = work t" "left t' < left t"
    using fan_running [OF assms(1), of "[0..<unat (gt_num_compute_units t)]" fp] c by (auto simp: atLeast0LessThan)
  then show thesis by (intro that) (simp_all add: sim_pass_def fan_out_def barrier_check_def)
qed

lemma sim_loop_running:
  "running t \<Longrightarrow> left t \<le> n \<Longrightarrow>
   \<exists>t'. sim_loop fp n (t, []) = Some (t', []) \<and> sim_done (t', []) \<and> work t' = work t \<and> running t'"
proof (induction n arbitrary: t)
  case 0
  then have "sim_done (t, [])" using pass_running [OF 0(1)] by fastforce
  then show ?case using 0 by simp
next
  case (Suc n)
  show ?case
  proof (cases "sim_done (t, [])")
    case False
    obtain t' where "sim_pass fp (t, []) = (t', [])" "running t'" "work t' = work t" "left t' < left t"
      by (rule pass_running [OF Suc.prems(1) False])
    then show ?thesis using Suc.IH [of t'] Suc.prems(2) False by auto
  qed (use Suc.prems in simp)
qed

lemma balance_frame [simp]:
  "gs_stalled_queues (balanceLoadAcrossUnits s) = gs_stalled_queues s"
  "gs_total_kernels_completed (balanceLoadAcrossUnits s) = gs_total_kernels_completed s"
  "gs_num_compute_units (balanceLoadAcrossUnits s) = gs_num_compute_units s"
  by (simp_all add: balanceLoadAcrossUnits_def)

lemma generate_frame [simp]:
  "gs_stalled_queues (generateWarps gx gy s) = gs_stalled_queues s"
  "gs_total_kernels_completed (generateWarps gx gy s) = gs_total_kernels_completed s"
  "gs_num_compute_units (generateWarps gx gy s) = gs_num_compute_units s"
proof -
  have "gs_stalled_queues (fold generate_warp is s) = gs_stalled_queues s \<and>
      gs_total_kernels_completed (fold generate_warp is s) = gs_total_kernels_completed s \<and>
      gs_num_compute_units (fold generate_warp is s) = gs_num_compute_units s" for "is"
    by (induction "is" rule: rev_induct) (simp_all add: generate_warp_def)
  then show "gs_stalled_queues (generateWarps gx gy s) = gs_stalled_queues s"
    "gs_total_kernels_completed (generateWarps gx gy s) = gs_total_kernels_completed s"
    "gs_num_compute_units (generateWarps gx gy s) = gs_num_compute_units s"
    by (simp_all add: generateWarps_def)
qed

lemma complete_queues:
  assumes "wf_sched s" "sched_isComplete s"
  shows "queued s = {#}" "\<forall>q \<in> set (gs_stalled_queues s). q = []"
proof -
  have "\<forall>q \<in> set (gs_ready_queues s). q = []" "\<forall>q \<in> set (gs_stalled_queues s). q = []"
    using assms by (auto simp: wf_sched_def sched_isComplete_def list_all_iff in_set_conv_nth)
  then show "queued s = {#}" "\<forall>q \<in> set (gs_stalled_queues s). q = []"
    by (simp_all add: queued_def)
qed

lemma launch_running:
  assumes "wf_top t" "isKernelComplete t" "\<forall>i \<in> set program. i_opcode i \<noteq> Op_BARRIER"
    and "unat (gs_kernel_warp_counter (gt_scheduler t)) + unat (gx * gy) < 2 ^ 32"
  shows "running (topLaunchKernel gx gy program off t)" "left (topLaunchKernel gx gy program off t) = unat (gx * gy)"
    "work (topLaunchKernel gx gy program off t) = gs_total_kernels_completed (gt_scheduler t) + gx * gy"
proof -
  let ?s = "gt_scheduler t" and ?s' = "submitKernel gx gy (gt_scheduler t)"
  have wf: "wf_sched ?s" "sched_isComplete ?s" using assms(1,2) by (simp_all add: wf_top_def isKernelComplete_def)
  note sub = submit_facts [OF wf(1), of gx gy]
  have q: "queued ?s' = mset (map (\<lambda>k. gs_kernel_warp_counter ?s + of_nat k) [0..<unat (gx * gy)])"
    using sub complete_queues(1) [OF wf] by simp
  have "gs_kernel_warp_counter ?s + of_nat k \<noteq> INVALID_WARP_ID" if "k < unat (gx * gy)" for k
  proof
    assume "gs_kernel_warp_counter ?s + of_nat k = INVALID_WARP_ID"
    then have "unat (gs_kernel_warp_counter ?s + of_nat k) = 2 ^ 32 - 1" by (simp add: INVALID_WARP_ID_def)
    moreover have "unat (gs_kernel_warp_counter ?s + of_nat k) = unat (gs_kernel_warp_counter ?s) + k"
      using that assms(4) by (simp add: unat_word_ariths unat_of_nat)
    ultimately show False using that assms(4) by simp
  qed
  then have "INVALID_WARP_ID \<notin># queued ?s'" unfolding q by (auto simp: image_iff) metis
  then show "running (topLaunchKernel gx gy program off t)"
    using sub assms(1,3) complete_queues(2) [OF wf]
    by (simp add: running_def wf_top_def topLaunchKernel_def submitKernel_def)
  show left: "left (topLaunchKernel gx gy program off t) = unat (gx * gy)"
    by (simp add: left_def topLaunchKernel_def q)
  show "work (topLaunchKernel gx gy program off t) = gs_total_kernels_completed ?s + gx * gy"
    unfolding work_def left by (simp add: topLaunchKernel_def submitKernel_def)
qed

section \<open>Properties\<close>

text \<open>C13: a kernel whose program has no barrier always finishes: launched on an idle device, the simulation loop ends
  within one pass per warp, every warp of the grid has been completed exactly once and the device
  reports the kernel as complete.\<close>

theorem barrier_free_kernel_terminates:
  assumes "wf_top t" "isKernelComplete t" "\<forall>i \<in> set program. i_opcode i \<noteq> Op_BARRIER"
    and "unat (gs_kernel_warp_counter (gt_scheduler t)) + unat (gx * gy) < 2 ^ 32"
  shows "\<exists>t'. sim_loop fp (unat (gx * gy)) (topLaunchKernel gx gy program off t, []) = Some (t', []) \<and>
    isKernelComplete t' \<and>
    gs_total_kernels_completed (gt_scheduler t') = gs_total_kernels_completed (gt_scheduler t) + gx * gy"
proof -
  note l = launch_running [OF assms, of off]
  obtain t' where t': "sim_loop fp (unat (gx * gy)) (topLaunchKernel gx gy program off t, []) = Some (t', [])"
    "sim_done (t', [])" "work t' = work (topLaunchKernel gx gy program off t)" "running t'"
    using sim_loop_running [OF l(1), of "unat (gx * gy)" fp] l(2) by auto
  have "left t' = 0"
    using t'(2,4) complete_queues(1) [of "gt_scheduler t'"] by (simp add: sim_done_def left_def running_def wf_top_def)
  then show ?thesis using t' l(3) by (auto simp: sim_done_def isKernelComplete_def work_def)
qed

text \<open>A kernel in which some warps wait at a barrier and the others have completed hangs the golden model while it
  reports completion: once no warp is queued and fewer warps wait than the kernel has, the kernel
  counts as complete, yet no number of passes ends the simulation loop.\<close>

theorem partial_barrier_hangs:
  assumes "isKernelComplete t" "q \<noteq> []" "length q \<noteq> unat (gt_total_warps t)"
  shows "sim_pass fp (t, q) = (t, q) \<and> sim_loop fp n (t, q) = None"
proof -
  have pass: "sim_pass fp (t, q) = (t, q)"
    using assms fan_out_complete [of t fp q] by (simp add: sim_pass_def barrier_check_def isKernelComplete_def)
  have "sim_loop fp n (t, q) = None"
    by (induction n) (use assms(2) pass in \<open>simp_all add: sim_done_def\<close>)
  with pass show ?thesis by simp
qed

section \<open>Witnesses\<close>

definition top0 :: gpgpu_top where
  "top0 = GPGPUTop_init 2 4 32 0x4000"

lemma top0_wf: "wf_top top0" "isKernelComplete top0"
  by (auto simp: top0_def wf_top_def GPGPUTop_init_def wf_sched_def WarpScheduler_init_def isKernelComplete_def
      sched_isComplete_def list_all_iff)

theorem barrier_free_kernel_terminates_witness:
  "\<forall>fp. \<exists>t'. sim_loop fp 6 (topLaunchKernel 3 2 [makeInstr Op_ADDI 5 0 0 1, makeInstr Op_HALT 0 0 0 0] 0 top0, []) = Some (t', []) \<and>
     isKernelComplete t' \<and> gs_total_kernels_completed (gt_scheduler t') = 6"
proof -
  have "\<forall>i \<in> set [makeInstr Op_ADDI 5 0 0 1, makeInstr Op_HALT 0 0 0 0]. i_opcode i \<noteq> Op_BARRIER"
    by (simp add: makeInstr_def)
  from barrier_free_kernel_terminates [OF top0_wf this, of 3 2 _ 0]
  show ?thesis by (simp add: top0_def GPGPUTop_init_def WarpScheduler_init_def)
qed

theorem partial_barrier_hangs_witness:
  "\<forall>fp n. sim_loop fp n (top0\<lparr> gt_total_warps := 2 \<rparr>, [\<lparr> sw_id = 0, sw_cu_id = 0, sw_bid = 1, sw_ctx = WarpContext_default \<rparr>]) = None"
proof -
  have "isKernelComplete (top0\<lparr> gt_total_warps := 2 \<rparr>)" using top0_wf(2) by (simp add: isKernelComplete_def)
  from partial_barrier_hangs [OF this, of "[\<lparr> sw_id = 0, sw_cu_id = 0, sw_bid = 1, sw_ctx = WarpContext_default \<rparr>]"]
  show ?thesis by simp
qed

end
