(* ===== verification/SystemTop.thy ===== *)
theory SystemTop
  imports GoldenTop
begin

text \<open>
  Several devices: \<open>models/systemc/src/system_top/system_top.cpp\<close> and its hardware counterpart
  \<open>hls/src/system_top/system_top.h\<close>. Both split the warps of a kernel over the devices with the same
  arithmetic. Both divide by the number of devices, so a launch without devices is \<open>None\<close>. A
  hardware device is the control registers that \<open>DeviceInterface\<close> reads and writes.
\<close>

section \<open>The golden system\<close>

record system_top =
  st_gpus :: "gpgpu_top list"

definition SystemTop_init :: "nat \<Rightarrow> gpgpu_top \<Rightarrow> system_top" where
  "SystemTop_init num_gpus gpu = \<lparr> st_gpus = replicate num_gpus gpu \<rparr>"

definition warps_for :: "u32 \<Rightarrow> nat \<Rightarrow> nat \<Rightarrow> u32" where
  "warps_for total_warps n i = total_warps div of_nat n + (if of_nat i < total_warps mod of_nat n then 1 else 0)"

definition launch_gpu :: "u32 \<Rightarrow> Instruction list \<Rightarrow> nat \<Rightarrow> u32 \<times> gpgpu_top list \<Rightarrow> u32 \<times> gpgpu_top list" where
  "launch_gpu total_warps program i = (\<lambda>(offset, gpus).
     let n = warps_for total_warps (length gpus) i in
     (offset + n, if n > 0 then gpus[i := topLaunchKernel n 1 program offset (gpus ! i)] else gpus))"

definition systemLaunchKernel :: "u32 \<Rightarrow> u32 \<Rightarrow> Instruction list \<Rightarrow> system_top \<Rightarrow> system_top option" where
  "systemLaunchKernel grid_x grid_y program s =
     (if st_gpus s = [] then None
      else Some (s\<lparr> st_gpus := snd (fold (launch_gpu (grid_x * grid_y) program) [0..<length (st_gpus s)] (0, st_gpus s)) \<rparr>))"

definition systemIsComplete :: "system_top \<Rightarrow> bool" where
  "systemIsComplete s = list_all isKernelComplete (st_gpus s)"

definition systemTotalInstructions :: "system_top \<Rightarrow> u64" where
  "systemTotalInstructions s = foldl (\<lambda>tot g. tot + topGetTotalInstructions g) 0 (st_gpus s)"
definition systemL1CacheHits :: "system_top \<Rightarrow> u64" where
  "systemL1CacheHits s = foldl (\<lambda>tot g. tot + topGetL1CacheHits g) 0 (st_gpus s)"
definition systemL1CacheMisses :: "system_top \<Rightarrow> u64" where
  "systemL1CacheMisses s = foldl (\<lambda>tot g. tot + topGetL1CacheMisses g) 0 (st_gpus s)"
definition systemDivergenceEvents :: "system_top \<Rightarrow> u32" where
  "systemDivergenceEvents s = foldl (\<lambda>tot g. tot + topGetDivergenceEvents g) 0 (st_gpus s)"

section \<open>The hardware system\<close>

record device_regs =
  di_warp_id_offset :: u32
  di_total_warps :: u32
  di_program_len :: u32
  di_start :: bool
  di_busy :: bool
  di_done :: bool
  di_fault :: bool
  di_instructions_retired :: u64

definition launch_device :: "u32 \<Rightarrow> u32 \<Rightarrow> nat \<Rightarrow> u32 \<times> device_regs list \<Rightarrow> u32 \<times> device_regs list" where
  "launch_device total_warps program_len d = (\<lambda>(offset, devs).
     let n = warps_for total_warps (length devs) d in
     if n = 0 then (offset, devs)
     else (offset + n, devs[d := (devs ! d)\<lparr> di_warp_id_offset := offset, di_total_warps := n,
                                 di_program_len := program_len, di_start := True \<rparr>]))"

definition hlsLaunchKernel :: "u32 \<Rightarrow> u32 \<Rightarrow> device_regs list \<Rightarrow> device_regs list option" where
  "hlsLaunchKernel total_warps program_len devs =
     (if devs = [] then None
      else Some (snd (fold (launch_device total_warps program_len) [0..<length devs] (0, devs))))"

definition hlsIsComplete :: "device_regs list \<Rightarrow> bool" where "hlsIsComplete devs = list_all di_done devs"
definition hlsIsFault :: "device_regs list \<Rightarrow> bool" where "hlsIsFault devs = list_ex di_fault devs"
definition hlsTotalInstructions :: "device_regs list \<Rightarrow> u64" where
  "hlsTotalInstructions devs = foldl (\<lambda>tot d. tot + di_instructions_retired d) 0 devs"

section \<open>The split\<close>

definition share :: "nat \<Rightarrow> nat \<Rightarrow> nat \<Rightarrow> nat" where
  "share T n i = T div n + (if i < T mod n then 1 else 0)"

definition share_start :: "nat \<Rightarrow> nat \<Rightarrow> nat \<Rightarrow> nat" where
  "share_start T n i = (\<Sum>k<i. share T n k)"

lemma share_start_closed: "share_start T n i = i * (T div n) + min i (T mod n)"
  by (induction i) (auto simp: share_start_def share_def min_def)

lemma share_start_all: "0 < n \<Longrightarrow> share_start T n n = T"
  using min.absorb2 [OF less_imp_le [OF mod_less_divisor [of n T]]] by (simp add: share_start_closed)

lemma share_start_mono: "i \<le> j \<Longrightarrow> share_start T n i \<le> share_start T n j"
  by (auto simp: share_start_def intro: sum_mono2)

lemma warps_for_share:
  assumes "0 < n" "n < 2 ^ 32" "i < n"
  shows "unat (warps_for T n i) = share (unat T) n i"
proof -
  have n: "unat (of_nat n :: u32) = n" "unat (of_nat i :: u32) = i" using assms by (simp_all add: unat_of_nat)
  have "share (unat T) n i \<le> unat T"
    using share_start_mono [of "Suc i" n "unat T" n] share_start_all [OF assms(1), of "unat T"] assms(3)
    by (simp add: share_start_def)
  moreover have "unat T < 2 ^ LENGTH(32)" by (rule unsigned_less)
  ultimately show ?thesis using n
    by (auto simp: warps_for_def share_def word_less_nat_alt unat_div unat_mod unat_word_ariths)
qed

lemma warps_for_nat:
  assumes "0 < n" "n < 2 ^ 32" "i < n"
  shows "warps_for T n i = of_nat (share (unat T) n i)"
  unfolding warps_for_share [OF assms, symmetric] by simp

text \<open>What the launch leaves in device \<open>i\<close>, for both systems.\<close>

lemma gpus_after:
  assumes "length gpus = n" "0 < n" "n < 2 ^ 32" "k \<le> n"
  shows "fst (fold (launch_gpu T program) [0..<k] (0, gpus)) = of_nat (share_start (unat T) n k) \<and>
    length (snd (fold (launch_gpu T program) [0..<k] (0, gpus))) = n \<and>
    (\<forall>i < n. snd (fold (launch_gpu T program) [0..<k] (0, gpus)) ! i =
      (if i < k \<and> warps_for T n i > 0
       then topLaunchKernel (warps_for T n i) 1 program (of_nat (share_start (unat T) n i)) (gpus ! i) else gpus ! i))"
  using assms(4)
proof (induction k)
  case 0
  then show ?case by (simp add: share_start_def assms(1))
next
  case (Suc k)
  have w: "warps_for T n k = of_nat (share (unat T) n k)"
    using warps_for_nat [OF assms(2,3)] Suc.prems by simp
  show ?case using Suc w
    by (auto simp: launch_gpu_def Let_def split_def nth_list_update less_Suc_eq share_start_def)
qed

lemma devices_after:
  assumes "length devs = n" "0 < n" "n < 2 ^ 32" "k \<le> n"
  shows "fst (fold (launch_device T len) [0..<k] (0, devs)) = of_nat (share_start (unat T) n k) \<and>
    length (snd (fold (launch_device T len) [0..<k] (0, devs))) = n \<and>
    (\<forall>i < n. snd (fold (launch_device T len) [0..<k] (0, devs)) ! i =
      (if i < k \<and> warps_for T n i > 0
       then (devs ! i)\<lparr> di_warp_id_offset := of_nat (share_start (unat T) n i), di_total_warps := warps_for T n i,
                       di_program_len := len, di_start := True \<rparr> else devs ! i))"
  using assms(4)
proof (induction k)
  case 0
  then show ?case by (simp add: share_start_def assms(1))
next
  case (Suc k)
  have w: "warps_for T n k = of_nat (share (unat T) n k)"
    using warps_for_nat [OF assms(2,3)] Suc.prems by simp
  show ?case using Suc w
    by (auto simp: launch_device_def Let_def split_def nth_list_update less_Suc_eq share_start_def word_gt_0)
qed

section \<open>Warp numbers\<close>

text \<open>The global numbers of the warps that wait on a device, from which \<open>buildWarpContext\<close> takes the thread ids.\<close>

definition numbers :: "gpgpu_top \<Rightarrow> u32 multiset" where
  "numbers g = image_mset (\<lambda>w. w + gt_warp_id_offset g) (queued (gt_scheduler g))"

definition idle_gpu :: "gpgpu_top \<Rightarrow> bool" where
  "idle_gpu g \<longleftrightarrow> wf_top g \<and> isKernelComplete g"

lemma idle_numbers: "idle_gpu g \<Longrightarrow> numbers g = {#}"
  using complete_queues [of "gt_scheduler g"] by (simp add: numbers_def idle_gpu_def wf_top_def isKernelComplete_def)

lemma launch_numbers:
  assumes "idle_gpu g"
  shows "numbers (topLaunchKernel n 1 program (of_nat a) g)
    = mset (map of_nat [unat (gs_kernel_warp_counter (gt_scheduler g)) + a
        ..<unat (gs_kernel_warp_counter (gt_scheduler g)) + a + unat n])"
proof -
  let ?c = "gs_kernel_warp_counter (gt_scheduler g)"
  have q: "queued (submitKernel n 1 (gt_scheduler g)) = mset (map (\<lambda>k. ?c + of_nat k) [0..<unat n])"
    using submit_facts [of "gt_scheduler g" n 1] complete_queues [of "gt_scheduler g"] assms
    by (simp add: idle_gpu_def wf_top_def isKernelComplete_def)
  have "map of_nat [unat ?c + a..<unat ?c + a + unat n] = map (\<lambda>k. (?c + of_nat k) + of_nat a) [0..<unat n]"
    by (intro nth_equalityI) (simp_all add: add_ac)
  then have "mset (map of_nat [unat ?c + a..<unat ?c + a + unat n])
      = image_mset (\<lambda>w. w + of_nat a) (mset (map (\<lambda>k. ?c + of_nat k) [0..<unat n]))"
    by (simp only: mset_map image_mset.compositionality o_def)
  then show ?thesis by (simp add: numbers_def topLaunchKernel_def q)
qed

lemma system_launch_gpu:
  assumes "systemLaunchKernel gx gy program s = Some s'" "length (st_gpus s) < 2 ^ 32" "i < length (st_gpus s)"
    and "\<And>g. g \<in> set (st_gpus s) \<Longrightarrow> idle_gpu g"
  defines "a \<equiv> unat (gs_kernel_warp_counter (gt_scheduler (st_gpus s ! i))) + share_start (unat (gx * gy)) (length (st_gpus s)) i"
  shows "length (st_gpus s') = length (st_gpus s) \<and>
    numbers (st_gpus s' ! i) = mset (map of_nat [a..<a + share (unat (gx * gy)) (length (st_gpus s)) i]) \<and>
    gs_kernel_warp_counter (gt_scheduler (st_gpus s' ! i)) =
      gs_kernel_warp_counter (gt_scheduler (st_gpus s ! i)) + warps_for (gx * gy) (length (st_gpus s)) i"
proof -
  let ?n = "length (st_gpus s)" and ?w = "warps_for (gx * gy) (length (st_gpus s)) i" and ?g = "st_gpus s ! i"
  have n: "0 < ?n" using assms(3) by linarith
  have idle: "idle_gpu ?g" using assms(3,4) by simp
  have w: "unat ?w = share (unat (gx * gy)) ?n i" using warps_for_share [OF n assms(2,3)] .
  have s': "st_gpus s' = snd (fold (launch_gpu (gx * gy) program) [0..<?n] (0, st_gpus s))"
    using assms(1) n by (auto simp: systemLaunchKernel_def)
  note after = gpus_after [OF refl n assms(2) order_refl, of "gx * gy" program, folded s']
  show ?thesis
  proof (cases "?w > 0")
    case True
    then have g: "st_gpus s' ! i = topLaunchKernel ?w 1 program (of_nat (share_start (unat (gx * gy)) ?n i)) ?g"
      using after assms(3) by simp
    have "wf_sched (gt_scheduler ?g)" using idle by (simp add: idle_gpu_def wf_top_def)
    then show ?thesis
      using launch_numbers [OF idle, of ?w program] submit_facts [of "gt_scheduler ?g" ?w 1] after w
      by (simp add: g a_def topLaunchKernel_def)
  next
    case False
    then have "?w = 0" by (simp add: word_gt_0)
    then show ?thesis using after assms(3) w idle_numbers [OF idle] by simp
  qed
qed

section \<open>Properties\<close>

text \<open>C28: on a fresh system a launch gives every warp of the grid to exactly one device: the global numbers of the warps
  queued on all devices together are 0 to the number of warps, each once, however many devices there
  are, including devices that get none.\<close>

theorem system_partitions_warps:
  assumes "systemLaunchKernel gx gy program s = Some s'" "length (st_gpus s) < 2 ^ 32"
    and "\<forall>g \<in> set (st_gpus s). idle_gpu g \<and> gs_kernel_warp_counter (gt_scheduler g) = 0"
  shows "sum_list (map numbers (st_gpus s')) = mset (map of_nat [0..<unat (gx * gy)])"
proof -
  let ?n = "length (st_gpus s)" and ?T = "unat (gx * gy)"
  have n: "0 < ?n" using assms(1) by (auto simp: systemLaunchKernel_def split: if_splits)
  have i: "length (st_gpus s') = ?n \<and> numbers (st_gpus s' ! i)
      = mset (map of_nat [share_start ?T ?n i..<share_start ?T ?n (Suc i)])" if "i < ?n" for i
  proof -
    have "gs_kernel_warp_counter (gt_scheduler (st_gpus s ! i)) = 0" using assms(3) that by simp
    then show ?thesis using system_launch_gpu [OF assms(1,2) that] assms(3) by (simp add: share_start_def)
  qed
  have "(\<Sum>k<m. numbers (st_gpus s' ! k)) = mset (map of_nat [0..<share_start ?T ?n m])" if "m \<le> ?n" for m
    using that
  proof (induction m)
    case (Suc m)
    have le: "share_start ?T ?n m \<le> share_start ?T ?n (Suc m)" by (simp add: share_start_mono)
    have "[0..<share_start ?T ?n (Suc m)] = [0..<share_start ?T ?n m] @ [share_start ?T ?n m..<share_start ?T ?n (Suc m)]"
      using upt_add_eq_append [of 0 "share_start ?T ?n m" "share_start ?T ?n (Suc m) - share_start ?T ?n m"] le by simp
    then show ?case using Suc i [of m] by simp
  qed (simp add: share_start_def)
  from this [of ?n] have "(\<Sum>k<?n. numbers (st_gpus s' ! k)) = mset (map of_nat [0..<?T])"
    by (simp only: share_start_all [OF n] order_refl)
  moreover have "length (st_gpus s') = ?n" using i n by blast
  ultimately show ?thesis by (simp add: sum_list_sum_nth atLeast0LessThan)
qed

text \<open>A second launch repeats warp numbers. The warp counters of the devices run on from the first launch while the
  offsets start again, so after an odd number of warps, at least three, was run on two devices, running
  the same grid again gives both devices a warp with the same global number (and its threads the
  same global ids).\<close>

theorem relaunch_repeats_numbers:
  assumes "st_gpus s = [g0, g1]" "idle_gpu g0" "idle_gpu g1"
    and "gs_kernel_warp_counter (gt_scheduler g0) = 0" "gs_kernel_warp_counter (gt_scheduler g1) = 0"
    and "systemLaunchKernel T 1 program s = Some s1" "unat T = 2 * m + 1" "0 < m"
    and "st_gpus s2 = [h0, h1]" "idle_gpu h0" "idle_gpu h1"
    and "map (\<lambda>g. gs_kernel_warp_counter (gt_scheduler g)) (st_gpus s2) = map (\<lambda>g. gs_kernel_warp_counter (gt_scheduler g)) (st_gpus s1)"
    and "systemLaunchKernel T 1 program s2 = Some s3"
  shows "of_nat (2 * m + 1) \<in># numbers (st_gpus s3 ! 0) \<and> of_nat (2 * m + 1) \<in># numbers (st_gpus s3 ! 1)"
proof -
  have sh: "share (unat T) 2 0 = m + 1" "share (unat T) 2 1 = m" "share_start (unat T) 2 0 = 0" "share_start (unat T) 2 1 = m + 1"
    using assms(7) by (simp_all add: share_def share_start_def)
  have T: "unat T < 2 ^ LENGTH(32)" by (rule unsigned_less)
  have wf: "warps_for T 2 0 = of_nat (m + 1)" "warps_for T 2 1 = of_nat m"
    using warps_for_nat [of 2 0 T] warps_for_nat [of 2 1 T] sh(1,2) by simp_all
  have len: "length (st_gpus s) = 2" "length (st_gpus s2) = 2" using assms(1,9) by simp_all
  have idle: "\<And>g. g \<in> set (st_gpus s) \<Longrightarrow> idle_gpu g" "\<And>g. g \<in> set (st_gpus s2) \<Longrightarrow> idle_gpu g"
    using assms(1-3,9-11) by auto
  note L1 = system_launch_gpu [OF assms(6) _ _ idle(1), unfolded len mult_1_right]
    and L2 = system_launch_gpu [OF assms(13) _ _ idle(2), unfolded len mult_1_right]
  have c: "length (st_gpus s1) = 2" "gs_kernel_warp_counter (gt_scheduler (st_gpus s1 ! 0)) = of_nat (m + 1)"
    "gs_kernel_warp_counter (gt_scheduler (st_gpus s1 ! 1)) = of_nat m"
    using L1 [of 0] L1 [of 1] assms(1,4,5) wf by simp_all
  have h: "gs_kernel_warp_counter (gt_scheduler h0) = of_nat (m + 1)" "gs_kernel_warp_counter (gt_scheduler h1) = of_nat m"
    using arg_cong [OF assms(12), of "\<lambda>xs. xs ! 0"] arg_cong [OF assms(12), of "\<lambda>xs. xs ! 1"] c assms(9)
    by simp_all
  have "unat (of_nat (m + 1) :: u32) = (m + 1) mod 2 ^ LENGTH(32)" "unat (of_nat m :: u32) = m mod 2 ^ LENGTH(32)"
    by (rule unat_of_nat)+
  then have u: "unat (of_nat (m + 1) :: u32) = m + 1" "unat (of_nat m :: u32) = m"
    using T assms(7) by simp_all
  have "numbers (st_gpus s3 ! 0) = mset (map of_nat [m + 1..<m + 1 + (m + 1)])"
    "numbers (st_gpus s3 ! 1) = mset (map of_nat [m + (m + 1)..<m + (m + 1) + m])"
    using L2 [of 0] L2 [of 1] assms(9) h u sh by (simp_all del: of_nat_add of_nat_Suc set_upt mset_upt mset_map)
  moreover have "2 * m + 1 \<in> set [m + 1..<m + 1 + (m + 1)]" "2 * m + 1 \<in> set [m + (m + 1)..<m + (m + 1) + m]"
    using assms(8) by auto
  ultimately show ?thesis by (metis imageI set_map set_mset_mset)
qed

text \<open>The hardware and the golden system split a kernel alike: every device that gets warps gets the same offset
  and the same number of warps from both.\<close>

theorem splits_agree:
  assumes "systemLaunchKernel gx gy program s = Some s'" "hlsLaunchKernel (gx * gy) len devs = Some devs'"
    and "length devs = length (st_gpus s)" "length devs < 2 ^ 32" "i < length devs"
    and "warps_for (gx * gy) (length devs) i > 0"
  shows "di_start (devs' ! i) \<and> di_warp_id_offset (devs' ! i) = gt_warp_id_offset (st_gpus s' ! i) \<and>
    di_total_warps (devs' ! i) = gt_total_warps (st_gpus s' ! i)"
proof -
  let ?n = "length devs"
  have n: "0 < ?n" using assms(5) by linarith
  have "st_gpus s' = snd (fold (launch_gpu (gx * gy) program) [0..<?n] (0, st_gpus s))"
    "devs' = snd (fold (launch_device (gx * gy) len) [0..<?n] (0, devs))"
    using assms(1-3) n by (cases devs; auto simp: systemLaunchKernel_def hlsLaunchKernel_def)+
  then show ?thesis
    using gpus_after [OF assms(3) [symmetric] n assms(4) order_refl, of "gx * gy" program]
      devices_after [OF refl n assms(4) order_refl, of "gx * gy" len] assms(5,6)
    by (simp add: topLaunchKernel_def)
qed

text \<open>With fewer warps than devices the hardware system never completes: a launch does not touch the devices that
  get no warp, so a device that was not done before stays not done, and completion asks for all
  devices (the golden system, in contrast, counts an idle device as complete).\<close>

theorem skipped_device_never_done:
  assumes "hlsLaunchKernel T len devs = Some devs'" "length devs < 2 ^ 32"
    and "unat T \<le> i" "i < length devs" "\<not> di_done (devs ! i)"
  shows "devs' ! i = devs ! i \<and> \<not> hlsIsComplete devs'"
proof -
  let ?n = "length devs"
  have n: "0 < ?n" using assms(4) by linarith
  have d: "devs' = snd (fold (launch_device T len) [0..<?n] (0, devs))" using assms(1) n by (auto simp: hlsLaunchKernel_def)
  have "unat (warps_for T ?n i) = 0"
    using warps_for_share [OF n assms(2,4), of T] assms(3,4) by (simp add: share_def)
  then have "devs' ! i = devs ! i" "length devs' = ?n"
    using devices_after [OF refl n assms(2) order_refl, of T len] assms(4) by (simp_all add: d unat_eq_zero)
  then show ?thesis using assms(4,5) by (auto simp: hlsIsComplete_def list_all_length)
qed

section \<open>Witnesses\<close>

lemma top0_idle: "idle_gpu top0" "gs_kernel_warp_counter (gt_scheduler top0) = 0"
  using top0_wf by (simp_all add: idle_gpu_def top0_def GPGPUTop_init_def WarpScheduler_init_def)

definition system2 :: system_top where "system2 = SystemTop_init 2 top0"

lemma system2_gpus: "st_gpus system2 = [top0, top0]"
  by (simp add: system2_def SystemTop_init_def numeral_2_eq_2)

theorem system_partitions_warps_witness:
  "\<exists>s'. systemLaunchKernel 5 1 [] system2 = Some s' \<and> sum_list (map numbers (st_gpus s')) = {#0, 1, 2, 3, 4#}"
proof -
  obtain s' where s': "systemLaunchKernel 5 1 [] system2 = Some s'" by (simp add: systemLaunchKernel_def system2_gpus)
  have "sum_list (map numbers (st_gpus s')) = mset (map of_nat [0..<unat (5 * 1 :: u32)])"
    by (rule system_partitions_warps [OF s']) (simp_all add: system2_gpus top0_idle)
  also have "\<dots> = {#0, 1, 2, 3, 4#}"
    by (simp add: upt_rec del: upt_Suc)
  finally show ?thesis using s' by blast
qed

text \<open>The device after its queue has been emptied.\<close>

definition drained :: "gpgpu_top \<Rightarrow> gpgpu_top" where
  "drained g = g\<lparr> gt_scheduler := (gt_scheduler g)\<lparr> gs_ready_queues := map (\<lambda>_. []) (gs_ready_queues (gt_scheduler g)) \<rparr> \<rparr>"

lemma drained_idle:
  "wf_top g \<Longrightarrow> (\<forall>q \<in> set (gs_stalled_queues (gt_scheduler g)). q = []) \<Longrightarrow> idle_gpu (drained g)"
  by (auto simp: drained_def idle_gpu_def wf_top_def wf_sched_def isKernelComplete_def sched_isComplete_def list_all_iff)

lemma launch_drained: "idle_gpu (drained (topLaunchKernel n 1 program off top0))"
proof (rule drained_idle)
  have "wf_sched (gt_scheduler top0)" using top0_wf(1) by (simp add: wf_top_def)
  then show "wf_top (topLaunchKernel n 1 program off top0)"
    using top0_wf(1) submit_facts [of "gt_scheduler top0" n 1] by (simp add: wf_top_def topLaunchKernel_def)
  show "\<forall>q \<in> set (gs_stalled_queues (gt_scheduler (topLaunchKernel n 1 program off top0))). q = []"
    by (simp add: topLaunchKernel_def submitKernel_def top0_def GPGPUTop_init_def WarpScheduler_init_def)
qed

theorem relaunch_repeats_numbers_witness:
  "\<exists>s1 s3. systemLaunchKernel 5 1 [] system2 = Some s1 \<and>
     systemLaunchKernel 5 1 [] (s1\<lparr> st_gpus := map drained (st_gpus s1) \<rparr>) = Some s3 \<and>
     5 \<in># numbers (st_gpus s3 ! 0) \<and> 5 \<in># numbers (st_gpus s3 ! 1)"
proof -
  let ?g0 = "topLaunchKernel 3 1 [] 0 top0" and ?g1 = "topLaunchKernel 2 1 [] 3 top0"
  have s1: "systemLaunchKernel 5 1 [] system2 = Some (system2\<lparr> st_gpus := [?g0, ?g1] \<rparr>)"
    by (simp add: systemLaunchKernel_def system2_gpus launch_gpu_def warps_for_def Let_def)
  let ?s2 = "system2\<lparr> st_gpus := [drained ?g0, drained ?g1] \<rparr>"
  obtain s3 where s3: "systemLaunchKernel 5 1 [] ?s2 = Some s3" by (simp add: systemLaunchKernel_def)
  have "of_nat (2 * 2 + 1) \<in># numbers (st_gpus s3 ! 0) \<and> of_nat (2 * 2 + 1) \<in># numbers (st_gpus s3 ! 1)"
    by (rule relaunch_repeats_numbers [OF system2_gpus top0_idle(1) top0_idle(1) top0_idle(2) top0_idle(2) s1 _ _ _
          launch_drained launch_drained _ s3]) (simp_all add: drained_def)
  then show ?thesis using s1 s3 by simp
qed

definition device0 :: device_regs where
  "device0 = \<lparr> di_warp_id_offset = 0, di_total_warps = 0, di_program_len = 0, di_start = False, di_busy = False,
     di_done = False, di_fault = False, di_instructions_retired = 0 \<rparr>"

theorem splits_agree_witness:
  "\<exists>s' devs'. systemLaunchKernel 5 1 [] system2 = Some s' \<and> hlsLaunchKernel 5 4 [device0, device0] = Some devs' \<and>
     di_warp_id_offset (devs' ! 1) = gt_warp_id_offset (st_gpus s' ! 1)"
proof -
  obtain s' where s': "systemLaunchKernel 5 1 [] system2 = Some s'" by (simp add: systemLaunchKernel_def system2_gpus)
  obtain devs' where d: "hlsLaunchKernel (5 * 1) 4 [device0, device0] = Some devs'" by (simp add: hlsLaunchKernel_def)
  from splits_agree [OF s' d, of 1] show ?thesis using s' d
    by (simp add: system2_gpus warps_for_def)
qed

theorem skipped_device_never_done_witness:
  "\<exists>devs'. hlsLaunchKernel 1 4 [device0, device0] = Some devs' \<and> \<not> hlsIsComplete devs'"
proof -
  obtain devs' where d: "hlsLaunchKernel 1 4 [device0, device0] = Some devs'" by (simp add: hlsLaunchKernel_def)
  from skipped_device_never_done [OF d, of 1] d show ?thesis by (simp add: device0_def)
qed

end
