(* ===== verification/Dispatch.thy ===== *)
theory Dispatch
  imports HlsTypes
begin

text \<open>
  Warp-slot bookkeeping of one compute unit: \<open>hls/src/scheduler/cu_dispatch_unit.h\<close>. A unit holds
  \<open>MAX_WARPS_PER_CU\<close> slots; warp \<open>w\<close> of a launch lives in slot \<open>w div NUM_CUS\<close> of unit
  \<open>w mod NUM_CUS\<close>. The lemmas give the effect of each operation on the number of slots per state, the
  form in which the system invariant uses them.
\<close>

section \<open>Model\<close>

definition INVALID_SLOT :: nat where "INVALID_SLOT = MAX_WARPS_PER_CU"

definition assignSlot_n :: "nat \<Rightarrow> nat \<Rightarrow> cu_id_t \<Rightarrow> warp_id_t \<Rightarrow> warp_id_t \<Rightarrow> WarpSlot \<Rightarrow> WarpSlot" where
  "assignSlot_n NCU slot cu total_warps offset sl =
     (let local_w = ucast cu + of_nat slot * of_nat NCU in
      if local_w < total_warps then
        sl\<lparr> sl_warp_id := offset + local_w, sl_resume_pc := 0, sl_barrier_id := 0,
            sl_state := READY, sl_fresh := True \<rparr>
      else sl\<lparr> sl_state := EMPTY \<rparr>)"

definition launchSlots_n :: "nat \<Rightarrow> cu_id_t \<Rightarrow> warp_id_t \<Rightarrow> warp_id_t \<Rightarrow> WarpSlot list \<Rightarrow> WarpSlot list" where
  "launchSlots_n NCU cu total_warps offset slots =
     lane_loop MAX_WARPS_PER_CU (\<lambda>_. True) (\<lambda>slot. assignSlot_n NCU slot cu total_warps offset) slots"

definition launchSlots :: "cu_id_t \<Rightarrow> warp_id_t \<Rightarrow> warp_id_t \<Rightarrow> WarpSlot list \<Rightarrow> WarpSlot list" where
  "launchSlots = launchSlots_n NUM_CUS"

definition nextReadySlot :: "WarpSlot list \<Rightarrow> slot_id_t" where
  "nextReadySlot slots =
     (case find (\<lambda>slot. sl_state (slots ! slot) = READY) [0..<MAX_WARPS_PER_CU] of
        Some slot \<Rightarrow> of_nat slot | None \<Rightarrow> of_nat INVALID_SLOT)"

definition buildDispatch :: "slot_id_t \<Rightarrow> WarpSlot list \<Rightarrow> warp_dispatch_t \<times> WarpSlot list" where
  "buildDispatch slot slots =
     (let sl = slots ! unat slot in
      (\<lparr> wd_slot_id = slot, wd_warp_id = sl_warp_id sl, wd_active_mask_init = - 1,
         wd_resume_pc = sl_resume_pc sl, wd_fresh_launch = sl_fresh sl \<rparr>,
       slots[unat slot := sl\<lparr> sl_fresh := False \<rparr>]))"

definition recordResult :: "slot_id_t \<Rightarrow> warp_status_t \<Rightarrow> WarpSlot list \<Rightarrow> WarpSlot list" where
  "recordResult slot status slots =
     (let sl = slots ! unat slot in
      if ws_code status = COMPLETE then slots[unat slot := sl\<lparr> sl_state := DONE \<rparr>]
      else slots[unat slot := sl\<lparr> sl_state := STALLED, sl_barrier_id := ws_barrier_id status,
                               sl_resume_pc := ws_resume_pc status \<rparr>])"

definition releaseBarrierSlots :: "WarpSlot list \<Rightarrow> WarpSlot list" where
  "releaseBarrierSlots slots =
     lane_loop MAX_WARPS_PER_CU (\<lambda>slot. sl_state (slots ! slot) = STALLED)
       (\<lambda>_ sl. sl\<lparr> sl_state := READY \<rparr>) slots"

definition allSlotsDone :: "WarpSlot list \<Rightarrow> bool" where
  "allSlotsDone slots \<longleftrightarrow>
     list_all (\<lambda>slot. sl_state (slots ! slot) \<noteq> READY \<and> sl_state (slots ! slot) \<noteq> STALLED)
       [0..<MAX_WARPS_PER_CU]"

record CuDispatchUnit =
  du_regs :: "RegisterFile list"
  du_program :: "instr_word_t list"

definition loadProgram :: "(nat \<Rightarrow> instr_word_t) \<Rightarrow> u32 \<Rightarrow> CuDispatchUnit \<Rightarrow> CuDispatchUnit" where
  "loadProgram program_ptr program_len cu =
     cu\<lparr> du_program := lane_loop (min (unat program_len) MAX_PROGRAM_LEN) (\<lambda>_. True)
                         (\<lambda>i _. program_ptr i) (du_program cu) \<rparr>"

section \<open>Effect of each operation\<close>

definition count_state :: "SlotState \<Rightarrow> WarpSlot list \<Rightarrow> nat" where
  "count_state st slots = length (filter (\<lambda>sl. sl_state sl = st) slots)"

lemma count_state_simps [simp]:
  "count_state st [] = 0"
  "count_state st (sl # slots) = of_bool (sl_state sl = st) + count_state st slots"
  "count_state st (xs @ ys) = count_state st xs + count_state st ys"
  by (simp_all add: count_state_def)

lemma count_state_zero:
  "count_state st slots = 0 \<longleftrightarrow> (\<forall>i < length slots. sl_state (slots ! i) \<noteq> st)"
  by (simp add: count_state_def filter_empty_conv all_set_conv_all_nth)

text \<open>The number of warps of a launch of \<open>T\<close> warps that live in unit \<open>c\<close>.\<close>

definition cu_warps :: "nat \<Rightarrow> nat \<Rightarrow> nat" where
  "cu_warps T c = length (filter (\<lambda>slot. c + slot * NUM_CUS < T) [0..<MAX_WARPS_PER_CU])"

lemma launchSlots_length [simp]: "length (launchSlots cu T off slots) = length slots"
  by (simp add: launchSlots_def launchSlots_n_def)

lemma releaseBarrierSlots_length [simp]: "length (releaseBarrierSlots slots) = length slots"
  by (simp add: releaseBarrierSlots_def)

lemma recordResult_length [simp]: "length (recordResult k st slots) = length slots"
  by (simp add: recordResult_def Let_def)

lemma buildDispatch_length [simp]: "length (snd (buildDispatch k slots)) = length slots"
  by (simp add: buildDispatch_def Let_def)

lemma local_warp_unat:
  "slot < 8 \<Longrightarrow> unat (ucast (cu :: cu_id_t) + of_nat slot * of_nat NUM_CUS :: u32) = unat cu + slot * 8"
proof -
  assume s: "slot < 8"
  have c: "unat cu < 8" using unsigned_less [of cu] by simp
  have "(ucast cu + of_nat slot * of_nat NUM_CUS :: u32) = of_nat (unat cu + slot * 8)"
    by simp
  then show ?thesis using s c by (simp only: unat_of_nat) simp
qed

lemma launchSlots_nth:
  assumes "length slots = 8" "slot < 8"
  shows "launchSlots cu T off slots ! slot =
    (if unat cu + slot * 8 < unat T
     then \<lparr> sl_warp_id = off + of_nat (unat cu + slot * 8), sl_resume_pc = 0, sl_barrier_id = 0,
            sl_state = READY, sl_fresh = True \<rparr>
     else (slots ! slot)\<lparr> sl_state := EMPTY \<rparr>)"
proof -
  have "(ucast cu + of_nat slot * of_nat NUM_CUS :: u32) = of_nat (unat cu + slot * 8)"
    by simp
  with assms local_warp_unat [OF assms(2), of cu] show ?thesis
    by (auto simp: launchSlots_def launchSlots_n_def lane_simps assignSlot_n_def Let_def word_less_nat_alt)
qed

lemma filter_index: "length (filter P xs) = length (filter (\<lambda>i. P (xs ! i)) [0..<length xs])"
proof -
  have "filter P (map (\<lambda>i. xs ! i) [0..<length xs]) = map (\<lambda>i. xs ! i) (filter (\<lambda>i. P (xs ! i)) [0..<length xs])"
    by (simp add: filter_map o_def)
  then show ?thesis by (simp add: map_nth)
qed

lemma launch_counts:
  assumes "length slots = 8"
  shows "count_state READY (launchSlots cu T off slots) = cu_warps (unat T) (unat cu)"
    "count_state STALLED (launchSlots cu T off slots) = 0"
    "count_state DONE (launchSlots cu T off slots) = 0"
proof -
  let ?l = "launchSlots cu T off slots"
  have nth: "sl_state (?l ! i) = (if unat cu + i * 8 < unat T then READY else EMPTY)" if "i < 8" for i
    using launchSlots_nth [OF assms that] by simp
  have "filter (\<lambda>i. sl_state (?l ! i) = READY) [0..<8] = filter (\<lambda>i. unat cu + i * 8 < unat T) [0..<8]"
    by (rule filter_cong) (auto simp: nth)
  then show "count_state READY ?l = cu_warps (unat T) (unat cu)"
    unfolding count_state_def cu_warps_def by (subst filter_index) (simp add: assms)
  show "count_state STALLED ?l = 0" "count_state DONE ?l = 0"
    unfolding count_state_zero using nth by (auto simp: assms split: if_splits)
qed

lemma count_update:
  assumes "k < length slots" "sl_state (slots ! k) = a"
  shows "count_state st (slots[k := sl]) + of_bool (a = st)
    = count_state st slots + of_bool (sl_state sl = st)"
proof -
  have "count_state st slots = count_state st (take k slots) + of_bool (a = st)
      + count_state st (drop (Suc k) slots)"
    by (subst id_take_nth_drop [OF assms(1)]) (simp only: count_state_simps assms(2) add.assoc)
  moreover have "count_state st (slots[k := sl]) = count_state st (take k slots)
      + of_bool (sl_state sl = st) + count_state st (drop (Suc k) slots)"
    by (subst upd_conv_take_nth_drop [OF assms(1)]) (simp only: count_state_simps add.assoc)
  ultimately show ?thesis by simp
qed

lemma buildDispatch_counts:
  "unat k < length slots \<Longrightarrow> count_state st (snd (buildDispatch k slots)) = count_state st slots"
  using count_update [of "unat k" slots _ st "(slots ! unat k)\<lparr> sl_fresh := False \<rparr>"]
  by (simp add: buildDispatch_def Let_def)

lemma buildDispatch_state:
  "sl_state (snd (buildDispatch k slots) ! i) = sl_state (slots ! i)" if "i < length slots"
  using that by (cases "i = unat k") (simp_all add: buildDispatch_def Let_def)

lemma recordResult_counts:
  assumes "unat k < length slots" "sl_state (slots ! unat k) = READY"
  shows "count_state st' (recordResult k st slots) + of_bool (st' = READY)
    = count_state st' slots + of_bool (st' = (if ws_code st = COMPLETE then DONE else STALLED))"
proof (cases "ws_code st = COMPLETE")
  case True
  then show ?thesis
    using count_update [OF assms, of st' "(slots ! unat k)\<lparr> sl_state := DONE \<rparr>"]
    by (simp add: recordResult_def Let_def eq_commute)
next
  case False
  then show ?thesis
    using count_update [OF assms, of st' "(slots ! unat k)\<lparr> sl_state := STALLED,
      sl_barrier_id := ws_barrier_id st, sl_resume_pc := ws_resume_pc st \<rparr>"]
    by (simp add: recordResult_def Let_def eq_commute)
qed

lemma release_map:
  "length slots = 8 \<Longrightarrow> releaseBarrierSlots slots
     = map (\<lambda>sl. if sl_state sl = STALLED then sl\<lparr> sl_state := READY \<rparr> else sl) slots"
  by (rule nth_equalityI) (simp_all add: releaseBarrierSlots_def lane_simps)

lemma release_map_counts:
  "count_state READY (map (\<lambda>sl. if sl_state sl = STALLED then sl\<lparr> sl_state := READY \<rparr> else sl) slots)
     = count_state READY slots + count_state STALLED slots"
  "count_state STALLED (map (\<lambda>sl. if sl_state sl = STALLED then sl\<lparr> sl_state := READY \<rparr> else sl) slots) = 0"
  "count_state DONE (map (\<lambda>sl. if sl_state sl = STALLED then sl\<lparr> sl_state := READY \<rparr> else sl) slots)
     = count_state DONE slots"
  by (induction slots) auto

lemma release_counts:
  assumes "length slots = 8"
  shows "count_state READY (releaseBarrierSlots slots) = count_state READY slots + count_state STALLED slots"
    "count_state STALLED (releaseBarrierSlots slots) = 0"
    "count_state DONE (releaseBarrierSlots slots) = count_state DONE slots"
  unfolding release_map [OF assms] by (rule release_map_counts)+

lemma nextReadySlot_cases:
  assumes "length slots = 8"
  shows "(nextReadySlot slots = of_nat INVALID_SLOT \<and> count_state READY slots = 0) \<or>
    (unat (nextReadySlot slots) < 8 \<and> sl_state (slots ! unat (nextReadySlot slots)) = READY)"
proof (cases "find (\<lambda>slot. sl_state (slots ! slot) = READY) [0..<MAX_WARPS_PER_CU]")
  case None
  then have "\<forall>i<8. sl_state (slots ! i) \<noteq> READY" by (simp add: find_None_iff)
  then have "count_state READY slots = 0" by (simp add: count_state_zero assms)
  with None show ?thesis by (simp add: nextReadySlot_def)
next
  case (Some k)
  then have k: "k < 8" "sl_state (slots ! k) = READY" by (auto simp: find_Some_iff)
  then have "unat (of_nat k :: slot_id_t) = k" by (simp add: unat_of_nat)
  with k Some show ?thesis by (simp add: nextReadySlot_def)
qed

lemma invalid_slot_not_ready: "unat (of_nat INVALID_SLOT :: slot_id_t) = 8"
  by (simp add: INVALID_SLOT_def)

lemma allSlotsDone_counts:
  assumes "length slots = 8"
  shows "allSlotsDone slots \<longleftrightarrow> count_state READY slots = 0 \<and> count_state STALLED slots = 0"
  by (auto simp: allSlotsDone_def list_all_iff count_state_zero assms)

lemma sum_cu_warps:
  assumes "T \<le> NUM_CUS * MAX_WARPS_PER_CU" shows "(\<Sum>c<NUM_CUS. cu_warps T c) = T"
proof -
  have "list_all (\<lambda>T. sum_list (map (cu_warps T) [0..<8]) = T) [0..<65]"
    by code_simp
  then have "sum_list (map (cu_warps T) [0..<8]) = T"
    using assms by (simp add: list_all_iff del: upt_Suc)
  then show ?thesis by (simp add: sum_list_sum_nth atLeast0LessThan interv_sum_list_conv_sum_set_nat)
qed

section \<open>Properties\<close>

text \<open>The slot of a unit that holds warp \<open>w\<close> of the launch.\<close>

definition holds_warp :: "WarpSlot \<Rightarrow> warp_id_t \<Rightarrow> nat \<Rightarrow> bool" where
  "holds_warp sl off w \<longleftrightarrow> sl_state sl = READY \<and> sl_warp_id sl = off + of_nat w \<and> sl_fresh sl \<and> sl_resume_pc sl = 0"

text \<open>A launch within the resident capacity puts every warp into exactly one slot of exactly one unit,
  ready and fresh, and leaves all other slots empty.\<close>

theorem launch_places_each_warp_once:
  assumes "unat T \<le> NUM_CUS * MAX_WARPS_PER_CU" "w < unat T"
    and "\<And>c. length (slots c) = MAX_WARPS_PER_CU"
  shows "\<exists>!(c, k). c < NUM_CUS \<and> k < MAX_WARPS_PER_CU \<and>
           holds_warp (launchSlots (of_nat c) T off (slots c) ! k) off w"
proof -
  have cu: "unat (of_nat c :: cu_id_t) = c" if "c < 8" for c using that by (simp add: unat_of_nat)
  have inj: "off + of_nat x = off + of_nat w \<longleftrightarrow> x = w" if "x < 64" for x
  proof -
    have "w < 64" using assms(1,2) by simp
    then have "unat (of_nat x :: u32) = x" "unat (of_nat w :: u32) = w"
      using that by (simp_all add: unat_of_nat)
    then show ?thesis by (metis add_left_cancel)
  qed
  have iff: "holds_warp (launchSlots (of_nat c) T off (slots c) ! k) off w \<longleftrightarrow> c + k * 8 = w"
    if "c < 8" "k < 8" for c k
  proof -
    have e: "launchSlots (of_nat c) T off (slots c) ! k =
      (if c + k * 8 < unat T
       then \<lparr> sl_warp_id = off + of_nat (c + k * 8), sl_resume_pc = 0, sl_barrier_id = 0,
              sl_state = READY, sl_fresh = True \<rparr>
       else (slots c ! k)\<lparr> sl_state := EMPTY \<rparr>)"
      using launchSlots_nth [of "slots c" k "of_nat c" T off] assms(3) that cu by simp
    have i: "off + of_nat (c + k * 8) = off + of_nat w \<longleftrightarrow> c + k * 8 = w"
      using that by (intro inj) simp
    show ?thesis unfolding e holds_warp_def using i assms(2) by auto
  qed
  show ?thesis
  proof (rule ex1I [of _ "(w mod 8, w div 8)"])
    have "w div 8 < 8" using assms(1,2) by simp
    then show "case (w mod 8, w div 8) of (c, k) \<Rightarrow> c < NUM_CUS \<and> k < MAX_WARPS_PER_CU \<and>
        holds_warp (launchSlots (of_nat c) T off (slots c) ! k) off w"
      using iff [of "w mod 8" "w div 8"] by simp
  next
    fix p assume "case p of (c, k) \<Rightarrow> c < NUM_CUS \<and> k < MAX_WARPS_PER_CU \<and>
        holds_warp (launchSlots (of_nat c) T off (slots c) ! k) off w"
    then obtain c k where "p = (c, k)" "c < 8" "k < 8" "c + k * 8 = w"
      using iff by (auto simp del: of_nat_add)
    then show "p = (w mod 8, w div 8)" by auto
  qed
qed

theorem launch_places_each_warp_once_witness:
  "\<exists>!(c, k). c < NUM_CUS \<and> k < MAX_WARPS_PER_CU \<and>
     holds_warp (launchSlots (of_nat c) 20 100 (replicate 8 WarpSlot_default) ! k) 100 13"
  by (rule launch_places_each_warp_once) simp_all

text \<open>The result of a warp moves exactly its slot from ready to done or stalled, keeping the resume
  point and barrier id of the status; a release then makes exactly the stalled slots ready again
  with those resume points.\<close>

theorem stalled_slot_resumes_where_it_stopped:
  assumes "length slots = MAX_WARPS_PER_CU" "unat k < MAX_WARPS_PER_CU"
    and "ws_code st = STALLED_AT_BARRIER"
  shows "let slots' = releaseBarrierSlots (recordResult k st slots);
             d = fst (buildDispatch k slots')
         in sl_state (slots' ! unat k) = READY \<and> wd_resume_pc d = ws_resume_pc st \<and>
            wd_warp_id d = sl_warp_id (slots ! unat k) \<and>
            (\<forall>i < MAX_WARPS_PER_CU. i \<noteq> unat k \<longrightarrow> sl_state (slots ! i) \<noteq> STALLED \<longrightarrow>
               slots' ! i = slots ! i)"
  using assms
  by (simp add: Let_def release_map recordResult_def buildDispatch_def nth_list_update)

theorem stalled_slot_resumes_where_it_stopped_witness:
  "wd_resume_pc (fst (buildDispatch 2 (releaseBarrierSlots (recordResult 2
     (warp_status_default\<lparr> ws_code := STALLED_AT_BARRIER, ws_resume_pc := 9 \<rparr>)
     (launchSlots 0 64 0 (replicate 8 WarpSlot_default)))))) = 9"
  using stalled_slot_resumes_where_it_stopped
    [of "launchSlots 0 64 0 (replicate 8 WarpSlot_default)" 2
      "warp_status_default\<lparr> ws_code := STALLED_AT_BARRIER, ws_resume_pc := 9 \<rparr>"]
  by (simp add: Let_def)

end
