(* ===== verification/MemArb.thy ===== *)
theory MemArb
  imports HlsTypes
begin

text \<open>
  The N:1 / 1:N memory arbiter: \<open>hls/src/scheduler/mem_arbiter.h\<close>. Streams are lists with the head
  first; \<open>N\<close> is the template parameter. Results: no request is lost, duplicated or reordered within
  a unit, a waiting unit is served after at most \<open>N\<close> grants, and a response goes to the stream of
  the unit that asked.
\<close>

section \<open>Model\<close>

record arb_state =
  ar_next_cu :: nat
  ar_req_in :: "nat \<Rightarrow> mem_req_t list"
  ar_mem_req_out :: "mem_req_t list"
  ar_mem_resp_in :: "mem_resp_t list"
  ar_resp_out :: "nat \<Rightarrow> mem_resp_t list"

definition arb_pick :: "nat \<Rightarrow> arb_state \<Rightarrow> nat option" where
  "arb_pick N s = map_option (\<lambda>i. (ar_next_cu s + i) mod N)
     (find (\<lambda>i. ar_req_in s ((ar_next_cu s + i) mod N) \<noteq> []) [0..<N])"

definition arbitrateOnce :: "nat \<Rightarrow> arb_state \<Rightarrow> bool \<times> arb_state" where
  "arbitrateOnce N s =
     (case arb_pick N s of
        None \<Rightarrow> (False, s)
      | Some idx \<Rightarrow> (True,
          s\<lparr> ar_mem_req_out := ar_mem_req_out s @ [hd (ar_req_in s idx)],
             ar_req_in := (ar_req_in s)(idx := tl (ar_req_in s idx)),
             ar_next_cu := (idx + 1) mod N \<rparr>))"

definition routeResponse :: "nat \<Rightarrow> arb_state \<Rightarrow> bool \<times> arb_state" where
  "routeResponse N s =
     (case ar_mem_resp_in s of
        [] \<Rightarrow> (False, s)
      | resp # resps \<Rightarrow>
          let k = unat (rp_cu_id resp) mod N in
          (True, s\<lparr> ar_mem_resp_in := resps,
                    ar_resp_out := (ar_resp_out s)(k := ar_resp_out s k @ [resp]) \<rparr>))"

text \<open>One pass of the free-running \<open>mem_arbiter_n\<close>.\<close>

definition mem_arbiter_pass :: "nat \<Rightarrow> arb_state \<Rightarrow> arb_state" where
  "mem_arbiter_pass N s = snd (routeResponse N (snd (arbitrateOnce N s)))"

definition mem_arbiter :: "nat \<Rightarrow> arb_state \<Rightarrow> arb_state" where
  "mem_arbiter k = mem_arbiter_pass NUM_CUS ^^ k"

section \<open>The grant\<close>

lemma arb_pick_None:
  assumes "0 < N" "ar_next_cu s < N"
  shows "arb_pick N s = None \<longleftrightarrow> (\<forall>c<N. ar_req_in s c = [])"
proof -
  have "(\<exists>i<N. (ar_next_cu s + i) mod N = c)" if "c < N" for c
  proof (cases "ar_next_cu s \<le> c")
    case True
    then have "(ar_next_cu s + (c - ar_next_cu s)) mod N = c" "c - ar_next_cu s < N"
      using that by simp_all
    then show ?thesis by blast
  next
    case False
    then have "(ar_next_cu s + (c + N - ar_next_cu s)) mod N = c" "c + N - ar_next_cu s < N"
      using that assms by simp_all
    then show ?thesis by blast
  qed
  then show ?thesis using assms
    by (auto simp: arb_pick_def find_None_iff)
qed

lemma arb_pick_Some:
  assumes "0 < N" "arb_pick N s = Some idx"
  shows "idx < N" "ar_req_in s idx \<noteq> []"
  using assms by (auto simp: arb_pick_def find_Some_iff)

text \<open>How far the scan is from unit \<open>c\<close>.\<close>

definition arb_dist :: "nat \<Rightarrow> arb_state \<Rightarrow> nat \<Rightarrow> nat" where
  "arb_dist N s c = (c + N - ar_next_cu s) mod N"

lemma arb_dist_less: "0 < N \<Longrightarrow> arb_dist N s c < N"
  by (simp add: arb_dist_def)

lemma arb_dist_reach:
  assumes "c < N" "ar_next_cu s < N" shows "(ar_next_cu s + arb_dist N s c) mod N = c"
proof -
  have "(ar_next_cu s + (c + N - ar_next_cu s) mod N) mod N = (ar_next_cu s + (c + N - ar_next_cu s)) mod N"
    by (rule mod_add_right_eq)
  also have "\<dots> = c" using assms by simp
  finally show ?thesis by (simp add: arb_dist_def)
qed

lemma mod_distance:
  assumes "m < N" "k < N" "(m + k) mod N = c" shows "(c + N - m) mod N = (k :: nat)"
proof -
  have "(c + N - m) mod N = ((m + k) mod N + (N - m)) mod N" using assms by simp
  also have "\<dots> = (m + k + (N - m)) mod N" by (rule mod_add_left_eq)
  finally show ?thesis using assms(1,2) by simp
qed

lemma grant_progress:
  assumes "c < N" "ar_next_cu s < N" "ar_req_in s c \<noteq> []"
  obtains idx where "arb_pick N s = Some idx"
    "idx = c \<or> arb_dist N (snd (arbitrateOnce N s)) c < arb_dist N s c"
proof -
  have N: "0 < N" using assms(1) by simp
  obtain idx where idx: "arb_pick N s = Some idx"
    using arb_pick_None [OF N assms(2)] assms(1,3) by fastforce
  then obtain i where i: "find (\<lambda>i. ar_req_in s ((ar_next_cu s + i) mod N) \<noteq> []) [0..<N] = Some i"
    "idx = (ar_next_cu s + i) mod N"
    by (auto simp: arb_pick_def)
  have "i < N" and first: "\<And>j. j < i \<Longrightarrow> ar_req_in s ((ar_next_cu s + j) mod N) = []"
    using i(1) by (auto simp: find_Some_iff)
  let ?d = "arb_dist N s c"
  have "i \<le> ?d"
    using first [of ?d] arb_dist_reach [OF assms(1,2)] assms(3) by (metis not_le)
  show thesis
  proof (cases "i = ?d")
    case True
    then have "idx = c" using i(2) arb_dist_reach [OF assms(1,2)] by simp
    with idx that show thesis by blast
  next
    case False
    then have lt: "i < ?d" using \<open>i \<le> ?d\<close> by simp
    have next': "ar_next_cu (snd (arbitrateOnce N s)) = (ar_next_cu s + i + 1) mod N"
      by (simp add: arbitrateOnce_def idx i(2) mod_Suc_eq)
    have "(c + N - (ar_next_cu s + i + 1) mod N) mod N = ?d - (i + 1)"
    proof (rule mod_distance)
      show "(ar_next_cu s + i + 1) mod N < N" "?d - (i + 1) < N"
        using N arb_dist_less [OF N, of s c] by simp_all
      have "(ar_next_cu s + i + 1 + (?d - (i + 1))) mod N = c"
        using arb_dist_reach [OF assms(1,2)] lt by simp
      then show "((ar_next_cu s + i + 1) mod N + (?d - (i + 1))) mod N = c"
        by (simp add: mod_add_left_eq)
    qed
    then have "arb_dist N (snd (arbitrateOnce N s)) c < ?d"
      using lt by (simp add: arb_dist_def next')
    with idx that show thesis by blast
  qed
qed

lemma arbitrate_next_less: "0 < N \<Longrightarrow> ar_next_cu s < N \<Longrightarrow> ar_next_cu (snd (arbitrateOnce N s)) < N"
  by (auto simp: arbitrateOnce_def split: option.split)

section \<open>Properties\<close>

definition arbitrate_n :: "nat \<Rightarrow> nat \<Rightarrow> arb_state \<Rightarrow> arb_state" where
  "arbitrate_n N k = (\<lambda>s. snd (arbitrateOnce N s)) ^^ k"

lemma arbitrate_n_Suc: "arbitrate_n N (Suc k) s = arbitrate_n N k (snd (arbitrateOnce N s))"
  by (simp add: arbitrate_n_def funpow_Suc_right del: funpow.simps)

lemma served_within_distance:
  assumes "c < N" "ar_next_cu s < N" "ar_req_in s c = r # rs" "arb_dist N s c < k"
  shows "\<exists>j<k. arb_pick N (arbitrate_n N j s) = Some c \<and> ar_req_in (arbitrate_n N j s) c = r # rs"
  using assms
proof (induction k arbitrary: s)
  case (Suc k)
  obtain idx where g: "arb_pick N s = Some idx"
    "idx = c \<or> arb_dist N (snd (arbitrateOnce N s)) c < arb_dist N s c"
    using grant_progress [OF Suc.prems(1,2)] Suc.prems(3) by (metis list.distinct(1))
  show ?case
  proof (cases "idx = c")
    case True
    with g(1) Suc.prems(3) show ?thesis by (intro exI [of _ 0]) (simp add: arbitrate_n_def)
  next
    case False
    let ?s = "snd (arbitrateOnce N s)"
    have "ar_req_in ?s c = r # rs" using g(1) False Suc.prems(3) by (simp add: arbitrateOnce_def)
    moreover have "arb_dist N ?s c < k" using g(2) False Suc.prems(4) by simp
    moreover have "ar_next_cu ?s < N" using Suc.prems(1,2) by (intro arbitrate_next_less) auto
    ultimately obtain j where "j < k" "arb_pick N (arbitrate_n N j ?s) = Some c"
      "ar_req_in (arbitrate_n N j ?s) c = r # rs"
      using Suc.IH [of ?s] Suc.prems(1) by blast
    then show ?thesis by (intro exI [of _ "Suc j"]) (simp add: arbitrate_n_Suc)
  qed
qed simp

text \<open>C37: a unit with a waiting request is granted within \<open>N\<close> arbitration steps, whatever the other units
  send, and it is its oldest request that is forwarded.\<close>

theorem arbiter_serves_every_unit:
  assumes "c < N" "ar_next_cu s < N" "ar_req_in s c = r # rs"
  shows "\<exists>j<N. arb_pick N (arbitrate_n N j s) = Some c \<and> ar_req_in (arbitrate_n N j s) c = r # rs \<and>
    last (ar_mem_req_out (arbitrate_n N (Suc j) s)) = r"
proof -
  obtain j where j: "j < N" "arb_pick N (arbitrate_n N j s) = Some c"
    "ar_req_in (arbitrate_n N j s) c = r # rs"
    using served_within_distance [OF assms arb_dist_less] assms(1) by auto
  have "arbitrate_n N (Suc j) s = snd (arbitrateOnce N (arbitrate_n N j s))"
    by (simp add: arbitrate_n_def)
  then have "last (ar_mem_req_out (arbitrate_n N (Suc j) s)) = r"
    using j by (simp add: arbitrateOnce_def)
  with j show ?thesis by blast
qed

text \<open>Requests of unit \<open>c\<close>: those forwarded followed by those still waiting.\<close>

definition sent_by :: "nat \<Rightarrow> mem_req_t list \<Rightarrow> mem_req_t list" where
  "sent_by c rs = filter (\<lambda>r. unat (rq_cu_id r) = c) rs"

definition tagged :: "nat \<Rightarrow> arb_state \<Rightarrow> bool" where
  "tagged N s \<longleftrightarrow> (\<forall>c<N. \<forall>r\<in>set (ar_req_in s c). unat (rq_cu_id r) = c)"

lemma arbitrateOnce_keeps:
  assumes "0 < N" "tagged N s" "c < N"
  shows "tagged N (snd (arbitrateOnce N s)) \<and>
    sent_by c (ar_mem_req_out (snd (arbitrateOnce N s))) @ ar_req_in (snd (arbitrateOnce N s)) c
      = sent_by c (ar_mem_req_out s) @ ar_req_in s c"
proof (cases "arb_pick N s")
  case None
  then show ?thesis using assms by (simp add: arbitrateOnce_def)
next
  case (Some idx)
  note p = arb_pick_Some [OF assms(1) Some]
  then obtain r rs where r: "ar_req_in s idx = r # rs" by (cases "ar_req_in s idx") auto
  have "unat (rq_cu_id r) = idx" using assms(2) p(1) r by (simp add: tagged_def)
  with Some r assms show ?thesis
    by (auto simp: arbitrateOnce_def sent_by_def tagged_def)
qed

text \<open>Over any number of arbitration steps the requests a unit has had forwarded, followed by those
  it still has queued, stay the same list: nothing is lost, repeated or reordered.\<close>

theorem arbiter_keeps_unit_order:
  assumes "0 < N" "tagged N s" "c < N"
  shows "sent_by c (ar_mem_req_out (arbitrate_n N k s)) @ ar_req_in (arbitrate_n N k s) c
    = sent_by c (ar_mem_req_out s) @ ar_req_in s c"
  using assms
proof (induction k arbitrary: s)
  case 0
  then show ?case by (simp add: arbitrate_n_def)
next
  case (Suc k)
  then show ?case
    using arbitrateOnce_keeps [OF Suc.prems] by (simp add: arbitrate_n_Suc)
qed

text \<open>With one stream per unit, the oldest response goes to the stream of its own unit and to no
  other.\<close>

theorem response_reaches_its_unit:
  assumes "ar_mem_resp_in s = resp # resps"
  shows "ar_resp_out (snd (routeResponse NUM_CUS s)) c =
    (if c = unat (rp_cu_id resp) then ar_resp_out s c @ [resp] else ar_resp_out s c)"
proof -
  have "unat (rp_cu_id resp) < 8" using unsigned_less [of "rp_cu_id resp"] by simp
  then show ?thesis using assms by (simp add: routeResponse_def Let_def)
qed

section \<open>Witnesses\<close>

definition req_of :: "cu_id_t \<Rightarrow> addr_t \<Rightarrow> mem_req_t" where
  "req_of c a = \<lparr> rq_cu_id = c, rq_warp_id = 0, rq_lane_id = 0, rq_address = a,
     rq_is_write = False, rq_write_data = 0 \<rparr>"

definition arb0 :: arb_state where
  "arb0 = \<lparr> ar_next_cu = 0, ar_req_in = (\<lambda>c. if c = 2 then [req_of 2 8, req_of 2 12]
       else if c = 5 then [req_of 5 16] else []), ar_mem_req_out = [],
     ar_mem_resp_in = [\<lparr> rp_cu_id = 5, rp_warp_id = 0, rp_lane_id = 0, rp_data = 7 \<rparr>],
     ar_resp_out = (\<lambda>_. []) \<rparr>"

lemma arb0_tagged: "tagged 8 arb0"
  by (simp add: tagged_def arb0_def req_of_def)

theorem arbiter_serves_every_unit_witness:
  "\<exists>j<8. arb_pick 8 (arbitrate_n 8 j arb0) = Some 5"
  using arbiter_serves_every_unit [of 5 8 arb0 "req_of 5 16" "[]"] by (auto simp: arb0_def)

theorem arbiter_keeps_unit_order_witness:
  "sent_by 2 (ar_mem_req_out (arbitrate_n 8 2 arb0)) @ ar_req_in (arbitrate_n 8 2 arb0) 2
     = [req_of 2 8, req_of 2 12]"
  using arbiter_keeps_unit_order [OF _ arb0_tagged, of 2 2] by (simp add: arb0_def sent_by_def)

theorem response_reaches_its_unit_witness:
  "ar_resp_out (snd (routeResponse NUM_CUS arb0)) 5
     = [\<lparr> rp_cu_id = 5, rp_warp_id = 0, rp_lane_id = 0, rp_data = 7 \<rparr>]"
  using response_reaches_its_unit [of arb0 _ "[]" 5] by (simp add: arb0_def)

end
