(* ===== verification/BarrierArb.thy ===== *)
theory BarrierArb
  imports HlsTypes
begin

text \<open>
  The kernel-wide barrier and completion arbiter: \<open>hls/src/scheduler/barrier_arbiter.h\<close>. One state
  counts the stalls and completions reported by every unit; the free-running \<open>barrierCoreN\<close> turns
  the counts into release and done broadcasts. \<open>barrier_core_step\<close> is one pass of its loop, \<open>N\<close>
  the template parameter (units, or clusters in the hierarchical build).
\<close>

section \<open>Counters\<close>

record BarrierState =
  ba_total_warps :: warp_id_t
  ba_stalled_count :: warp_id_t
  ba_done_count :: warp_id_t
  ba_launch_fault :: bool

definition BarrierState_default :: BarrierState where
  "BarrierState_default = \<lparr> ba_total_warps = 0, ba_stalled_count = 0, ba_done_count = 0,
     ba_launch_fault = False \<rparr>"

definition barrierLaunch_n :: "nat \<Rightarrow> warp_id_t \<Rightarrow> BarrierState \<Rightarrow> BarrierState" where
  "barrierLaunch_n NCU T b = b\<lparr> ba_total_warps := T, ba_stalled_count := 0, ba_done_count := 0,
     ba_launch_fault := T > of_nat (NCU * MAX_WARPS_PER_CU) \<rparr>"

definition barrierLaunch :: "warp_id_t \<Rightarrow> BarrierState \<Rightarrow> BarrierState" where
  "barrierLaunch = barrierLaunch_n NUM_CUS"

definition barrierLaunchFault :: "BarrierState \<Rightarrow> bool" where
  "barrierLaunchFault b = ba_launch_fault b"

definition barrierOnEvent :: "WarpStatusCode \<Rightarrow> BarrierState \<Rightarrow> BarrierState" where
  "barrierOnEvent code b =
     (if code = COMPLETE then b\<lparr> ba_done_count := ba_done_count b + 1 \<rparr>
      else b\<lparr> ba_stalled_count := ba_stalled_count b + 1 \<rparr>)"

definition barrierReleaseReady :: "BarrierState \<Rightarrow> bool" where
  "barrierReleaseReady b \<longleftrightarrow> ba_total_warps b \<noteq> 0 \<and> ba_stalled_count b = ba_total_warps b"

definition barrierAcknowledgeRelease :: "BarrierState \<Rightarrow> BarrierState" where
  "barrierAcknowledgeRelease b = b\<lparr> ba_stalled_count := 0 \<rparr>"

definition barrierKernelComplete :: "BarrierState \<Rightarrow> bool" where
  "barrierKernelComplete b \<longleftrightarrow> ba_total_warps b \<noteq> 0 \<and> ba_done_count b = ba_total_warps b"

section \<open>The free-running core\<close>

record barrier_signal_t =
  sg_release :: bool
  sg_kernel_done :: bool

definition release_signal :: barrier_signal_t where
  "release_signal = \<lparr> sg_release = True, sg_kernel_done = False \<rparr>"
definition done_signal :: barrier_signal_t where
  "done_signal = \<lparr> sg_release = False, sg_kernel_done = True \<rparr>"

record barrier_core =
  bc_barrier :: BarrierState
  bc_busy :: bool
  bc_done :: bool
  bc_fault :: bool

definition barrier_core_default :: barrier_core where
  "barrier_core_default = \<lparr> bc_barrier = BarrierState_default, bc_busy = False, bc_done = False,
     bc_fault = False \<rparr>"

type_synonym event_streams = "nat \<Rightarrow> WarpStatusCode list"
type_synonym signal_streams = "nat \<Rightarrow> barrier_signal_t list"

definition poll_event :: "nat \<Rightarrow> BarrierState \<times> event_streams \<Rightarrow> BarrierState \<times> event_streams" where
  "poll_event c = (\<lambda>(b, ev). case ev c of [] \<Rightarrow> (b, ev)
     | code # codes \<Rightarrow> (barrierOnEvent code b, ev(c := codes)))"

definition poll_events :: "nat \<Rightarrow> BarrierState \<times> event_streams \<Rightarrow> BarrierState \<times> event_streams" where
  "poll_events N = fold poll_event [0..<N]"

definition broadcast :: "nat \<Rightarrow> barrier_signal_t \<Rightarrow> signal_streams \<Rightarrow> signal_streams" where
  "broadcast N sig sg = (\<lambda>c. if c < N then sg c @ [sig] else sg c)"

definition barrierCore_n ::
  "nat \<Rightarrow> nat \<Rightarrow> warp_id_t \<Rightarrow> bool \<Rightarrow> barrier_core \<times> event_streams \<times> signal_streams \<Rightarrow>
   barrier_core \<times> event_streams \<times> signal_streams"
where
  "barrierCore_n NCU N T start = (\<lambda>(s, ev, sg).
     if \<not> bc_busy s then
       if \<not> start then (s, ev, sg)
       else let b = barrierLaunch_n NCU T (bc_barrier s) in
         if barrierLaunchFault b then (s\<lparr> bc_barrier := b, bc_fault := True \<rparr>, ev, sg)
         else (s\<lparr> bc_barrier := b, bc_busy := True \<rparr>, ev, sg)
     else
       let (b1, ev1) = poll_events N (bc_barrier s, ev);
           (b2, sg2) = (if barrierReleaseReady b1
                        then (barrierAcknowledgeRelease b1, broadcast N release_signal sg)
                        else (b1, sg));
           (s3, sg3) = (if barrierKernelComplete b2
                        then (s\<lparr> bc_barrier := b2, bc_busy := False, bc_done := True \<rparr>,
                              broadcast N done_signal sg2)
                        else (s\<lparr> bc_barrier := b2 \<rparr>, sg2))
       in (s3, ev1, sg3))"

definition barrierCoreN ::
  "nat \<Rightarrow> warp_id_t \<Rightarrow> bool \<Rightarrow> barrier_core \<times> event_streams \<times> signal_streams \<Rightarrow>
   barrier_core \<times> event_streams \<times> signal_streams"
where
  "barrierCoreN = barrierCore_n NUM_CUS"

definition barrierCore ::
  "warp_id_t \<Rightarrow> bool \<Rightarrow> barrier_core \<times> event_streams \<times> signal_streams \<Rightarrow>
   barrier_core \<times> event_streams \<times> signal_streams"
where
  "barrierCore = barrierCoreN NUM_CUS"

section \<open>Polling\<close>

definition count_code :: "WarpStatusCode \<Rightarrow> WarpStatusCode list \<Rightarrow> nat" where
  "count_code k codes = length (filter ((=) k) codes)"

lemma count_code_simps [simp]:
  "count_code k [] = 0"
  "count_code k (x # xs) = of_bool (k = x) + count_code k xs"
  "count_code k (xs @ ys) = count_code k xs + count_code k ys"
  by (simp_all add: count_code_def)

lemma poll_events_Suc: "poll_events (Suc n) s = poll_event n (poll_events n s)"
  by (simp add: poll_events_def)

lemma poll_event_total: "ba_total_warps (fst (poll_event c s)) = ba_total_warps (fst s)"
  by (auto simp: poll_event_def barrierOnEvent_def split: prod.splits list.splits)

lemma poll_events_total: "ba_total_warps (fst (poll_events n s)) = ba_total_warps (fst s)"
  by (induction n) (simp_all add: poll_events_def poll_event_total)

lemma poll_events_beyond: "n \<le> c \<Longrightarrow> snd (poll_events n s) c = snd s c"
proof (induction n)
  case (Suc n)
  then show ?case
    by (auto simp: poll_events_Suc poll_event_def split: prod.splits list.splits)
qed (simp add: poll_events_def)

lemma sum_upd:
  fixes f :: "nat \<Rightarrow> nat"
  assumes "c < n" shows "(\<Sum>i<n. (f(c := v)) i) + f c = (\<Sum>i<n. f i) + v"
proof -
  have "(\<Sum>i<n. g i) = g c + (\<Sum>i\<in>{..<n} - {c}. g i)" for g :: "nat \<Rightarrow> nat"
    using assms by (simp add: sum.remove)
  moreover have "(\<Sum>i\<in>{..<n} - {c}. (f(c := v)) i) = (\<Sum>i\<in>{..<n} - {c}. f i)"
    by (rule sum.cong) auto
  ultimately show ?thesis by simp
qed

text \<open>Reading an event moves it from the stream into its counter: the sum of both is kept.\<close>

lemma poll_event_count:
  assumes "c < N"
    and "unat (ba_done_count b) + (\<Sum>i<N. count_code COMPLETE (ev i)) < 2 ^ 32"
    and "unat (ba_stalled_count b) + (\<Sum>i<N. count_code STALLED_AT_BARRIER (ev i)) < 2 ^ 32"
    and "poll_event c (b, ev) = (b', ev')"
  shows "unat (ba_done_count b') + (\<Sum>i<N. count_code COMPLETE (ev' i))
        = unat (ba_done_count b) + (\<Sum>i<N. count_code COMPLETE (ev i)) \<and>
    unat (ba_stalled_count b') + (\<Sum>i<N. count_code STALLED_AT_BARRIER (ev' i))
        = unat (ba_stalled_count b) + (\<Sum>i<N. count_code STALLED_AT_BARRIER (ev i))"
proof (cases "ev c")
  case Nil
  then show ?thesis using assms(4) by (simp add: poll_event_def)
next
  case (Cons code codes)
  have e: "b' = barrierOnEvent code b" "ev' = ev(c := codes)"
    using assms(4) Cons by (auto simp: poll_event_def)
  have sums: "(\<Sum>i<N. count_code k (ev' i)) + of_bool (k = code) = (\<Sum>i<N. count_code k (ev i))" for k
  proof -
    have "(\<Sum>i<N. count_code k (ev' i)) = (\<Sum>i<N. ((\<lambda>i. count_code k (ev i))(c := count_code k codes)) i)"
      by (rule sum.cong) (auto simp: e)
    with sum_upd [OF assms(1), of "\<lambda>i. count_code k (ev i)" "count_code k codes"] Cons
    show ?thesis by simp
  qed
  have inc: "unat (x + 1 :: u32) = unat x + 1" if "unat x + 1 < 2 ^ 32" for x
    using that by (simp add: unat_word_ariths)
  show ?thesis
  proof (cases code)
    case COMPLETE
    then show ?thesis
      using sums [of COMPLETE] sums [of STALLED_AT_BARRIER] assms(2) inc [of "ba_done_count b"]
      by (simp add: e barrierOnEvent_def)
  next
    case STALLED_AT_BARRIER
    then show ?thesis
      using sums [of COMPLETE] sums [of STALLED_AT_BARRIER] assms(3) inc [of "ba_stalled_count b"]
      by (simp add: e barrierOnEvent_def)
  qed
qed

lemma poll_events_count:
  assumes "n \<le> N"
    and "unat (ba_done_count b) + (\<Sum>i<N. count_code COMPLETE (ev i)) < 2 ^ 32"
    and "unat (ba_stalled_count b) + (\<Sum>i<N. count_code STALLED_AT_BARRIER (ev i)) < 2 ^ 32"
    and "poll_events n (b, ev) = (b', ev')"
  shows "unat (ba_done_count b') + (\<Sum>i<N. count_code COMPLETE (ev' i))
        = unat (ba_done_count b) + (\<Sum>i<N. count_code COMPLETE (ev i)) \<and>
    unat (ba_stalled_count b') + (\<Sum>i<N. count_code STALLED_AT_BARRIER (ev' i))
        = unat (ba_stalled_count b) + (\<Sum>i<N. count_code STALLED_AT_BARRIER (ev i))"
  using assms(1,4)
proof (induction n arbitrary: b' ev')
  case 0
  then show ?case by (simp add: poll_events_def)
next
  case (Suc n)
  obtain b1 ev1 where p: "poll_events n (b, ev) = (b1, ev1)" by (cases "poll_events n (b, ev)")
  with Suc.prems(2) have "poll_event n (b1, ev1) = (b', ev')" by (simp add: poll_events_Suc)
  with Suc.IH [OF _ p] Suc.prems(1) assms(2,3) poll_event_count [of n N b1 ev1 b' ev']
  show ?case by simp
qed

section \<open>Properties\<close>

definition barrier_run ::
  "nat \<Rightarrow> warp_id_t \<Rightarrow> bool list \<Rightarrow> barrier_core \<times> event_streams \<times> signal_streams \<Rightarrow>
   barrier_core \<times> event_streams \<times> signal_streams"
where
  "barrier_run N T starts = fold (barrierCoreN N T) starts"

text \<open>A launch beyond the resident capacity raises the fault, stays idle and signals nothing, for as
  long as it is requested.\<close>

theorem over_capacity_faults:
  assumes "T > of_nat (NUM_CUS * MAX_WARPS_PER_CU)" "\<not> bc_busy s"
  shows "(case barrier_run N T (replicate (Suc k) True) (s, ev, sg) of
    (s', ev', sg') \<Rightarrow> bc_fault s' \<and> \<not> bc_busy s' \<and> bc_done s' = bc_done s \<and> ev' = ev \<and> sg' = sg)"
  using assms(2)
proof (induction k arbitrary: s)
  case 0
  then show ?case
    using assms(1) by (simp add: barrier_run_def barrierCoreN_def barrierCore_n_def Let_def barrierLaunch_def barrierLaunch_n_def barrierLaunchFault_def)
next
  case (Suc k)
  obtain s1 where s1: "barrierCoreN N T True (s, ev, sg) = (s1, ev, sg)" "\<not> bc_busy s1"
    "bc_done s1 = bc_done s"
    using assms(1) Suc.prems
    by (simp add: barrierCoreN_def barrierCore_n_def Let_def barrierLaunch_def barrierLaunch_n_def barrierLaunchFault_def)
  have "barrier_run N T (replicate (Suc (Suc k)) True) (s, ev, sg)
      = barrier_run N T (replicate (Suc k) True) (s1, ev, sg)"
    by (simp add: barrier_run_def s1(1))
  with Suc.IH [OF s1(2)] s1(3) show ?case by simp
qed

lemma zero_step:
  assumes "bc_busy s" "ba_total_warps (bc_barrier s) = 0"
    and "barrierCoreN N T start (s, ev, sg) = (s', ev', sg')"
  shows "bc_busy s' \<and> ba_total_warps (bc_barrier s') = 0 \<and> bc_done s' = bc_done s \<and> sg' = sg"
proof -
  obtain b1 ev1 where p: "poll_events N (bc_barrier s, ev) = (b1, ev1)"
    by (cases "poll_events N (bc_barrier s, ev)")
  have "ba_total_warps b1 = 0" using poll_events_total [of N "(bc_barrier s, ev)"] assms(2) p by simp
  then show ?thesis using assms(1,3) p
    by (auto simp: barrierCoreN_def barrierCore_n_def barrierReleaseReady_def barrierKernelComplete_def)
qed

text \<open>A launch of zero warps makes the arbiter busy for ever: no later pass, whatever \<open>start\<close> does and
  whatever events arrive in its streams, completes it.\<close>

theorem zero_warp_launch_never_completes:
  assumes "\<not> bc_busy s"
  shows "(case barrier_run N 0 (True # starts) (s, ev, sg) of
    (s', ev', sg') \<Rightarrow> bc_busy s' \<and> bc_done s' = bc_done s \<and> sg' = sg)"
proof -
  have run: "case barrier_run N 0 starts (s, ev, sg) of
      (s', ev', sg') \<Rightarrow> bc_busy s' \<and> bc_done s' = bc_done s \<and> sg' = sg"
    if "bc_busy s" "ba_total_warps (bc_barrier s) = 0" for s ev
    using that
  proof (induction starts arbitrary: s ev)
    case Nil
    then show ?case by (simp add: barrier_run_def)
  next
    case (Cons x starts)
    obtain s1 ev1 sg1 where b: "barrierCoreN N 0 x (s, ev, sg) = (s1, ev1, sg1)"
      by (cases "barrierCoreN N 0 x (s, ev, sg)")
    note z = zero_step [OF Cons.prems b]
    have "barrier_run N 0 (x # starts) (s, ev, sg) = barrier_run N 0 starts (s1, ev1, sg)"
      using b z by (simp add: barrier_run_def)
    with Cons.IH [of s1 ev1] z show ?case by simp
  qed
  have "barrierCoreN N 0 True (s, ev, sg)
      = (s\<lparr> bc_barrier := barrierLaunch 0 (bc_barrier s), bc_busy := True \<rparr>, ev, sg)"
    using assms by (simp add: barrierCoreN_def barrierCore_n_def Let_def barrierLaunch_def barrierLaunch_n_def barrierLaunchFault_def)
  then show ?thesis
    using run [of "s\<lparr> bc_barrier := barrierLaunch 0 (bc_barrier s), bc_busy := True \<rparr>" ev]
    by (simp add: barrier_run_def barrierLaunch_def barrierLaunch_n_def)
qed

text \<open>Once raised, the \<open>done\<close> and \<open>fault\<close> outputs are never lowered again, by no launch and no event,
  and a pass that finds \<open>start\<close> still high after completion launches again at once.\<close>

theorem status_outputs_are_sticky:
  assumes "bc_done s" "\<not> bc_busy s" "T \<le> of_nat (NUM_CUS * MAX_WARPS_PER_CU)"
  shows "(case barrierCoreN N T True (s, ev, sg) of (s1, ev1, sg1) \<Rightarrow> bc_busy s1 \<and> bc_done s1) \<and>
    (case barrier_run N T starts (s, ev, sg) of (s', ev', sg') \<Rightarrow> bc_done s' \<and> (bc_fault s \<longrightarrow> bc_fault s'))"
proof
  show "case barrierCoreN N T True (s, ev, sg) of (s1, ev1, sg1) \<Rightarrow> bc_busy s1 \<and> bc_done s1"
    using assms by (simp add: barrierCoreN_def barrierCore_n_def Let_def barrierLaunch_def barrierLaunch_n_def barrierLaunchFault_def not_less)
  have step: "bc_done s1 \<and> (bc_fault s \<longrightarrow> bc_fault s1)"
    if "bc_done s" "barrierCoreN N T x (s, ev, sg) = (s1, ev1, sg1)" for s s1 x ev sg ev1 sg1
    using that by (auto simp: barrierCoreN_def barrierCore_n_def Let_def split: prod.splits if_splits)
  show "case barrier_run N T starts (s, ev, sg) of
      (s', ev', sg') \<Rightarrow> bc_done s' \<and> (bc_fault s \<longrightarrow> bc_fault s')"
    using assms(1)
  proof (induction starts arbitrary: s ev sg)
    case Nil
    then show ?case by (simp add: barrier_run_def)
  next
    case (Cons x starts)
    obtain s1 ev1 sg1 where b: "barrierCoreN N T x (s, ev, sg) = (s1, ev1, sg1)"
      by (cases "barrierCoreN N T x (s, ev, sg)")
    with Cons.IH [of s1 ev1 sg1] step [OF Cons.prems b] show ?case
      by (auto simp: barrier_run_def)
  qed
qed

theorem over_capacity_faults_witness:
  "bc_fault (fst (barrier_run NUM_CUS 65 [True, True] (barrier_core_default, \<lambda>_. [], \<lambda>_. [])))"
  using over_capacity_faults [where T=65 and s=barrier_core_default and N=NUM_CUS and k="Suc 0"
      and ev="\<lambda>_. []" and sg="\<lambda>_. []"]
  by (simp add: barrier_core_default_def word_less_nat_alt split: prod.splits)

theorem zero_warp_launch_never_completes_witness:
  "bc_busy (fst (barrier_run NUM_CUS 0 [True, False, False] (barrier_core_default, \<lambda>_. [], \<lambda>_. [])))"
  using zero_warp_launch_never_completes [where s=barrier_core_default and N=NUM_CUS
      and starts="[False, False]" and ev="\<lambda>_. []" and sg="\<lambda>_. []"]
  by (simp add: barrier_core_default_def split: prod.splits)

theorem status_outputs_are_sticky_witness:
  "bc_busy (fst (barrierCoreN NUM_CUS 3 True (barrier_core_default\<lparr> bc_done := True \<rparr>, \<lambda>_. [], \<lambda>_. [])))"
  using status_outputs_are_sticky [of "barrier_core_default\<lparr> bc_done := True \<rparr>" 3 NUM_CUS
      "\<lambda>_. []" "\<lambda>_. []" "[]"]
  by (simp add: barrier_core_default_def word_le_nat_alt split: prod.splits)

end
