(* ===== verification/ProgramLoader.thy ===== *)
theory ProgramLoader
  imports ComputePipeline Dispatch
begin

text \<open>
  The program and register loader of one device: \<open>programLoader\<close> of \<open>hls/src/scheduler/gpgpu_top.h\<close>.
  One pass of its \<open>while (true)\<close> is \<open>programLoader_step\<close>. The seeding phase (\<open>seed_c\<close>, \<open>seed_slot\<close>,
  \<open>seed_i\<close> and the two families of output streams) is \<open>seed_pass\<close>, which the cluster loader of the
  hierarchical build repeats with its own warp numbering and register port. A pointer argument is
  the function from word index to the word the AXI port reads there.
\<close>

section \<open>Model\<close>

record seeder =
  se_c :: u8
  se_slot :: u8
  se_i :: u32
  se_seed_out :: "nat \<Rightarrow> reg_seed_t list"
  se_loaded_out :: "nat \<Rightarrow> bool list"

definition seed_reset :: "seeder \<Rightarrow> seeder" where
  "seed_reset s = s\<lparr> se_c := 0, se_slot := 0, se_i := 0 \<rparr>"

definition seed_write_out :: "warp_id_t \<Rightarrow> (warp_id_t \<Rightarrow> nat \<Rightarrow> reg_t) \<Rightarrow> warp_id_t \<Rightarrow> warp_id_t \<Rightarrow> seeder \<Rightarrow> seeder" where
  "seed_write_out local_w ptr T off s =
     (if local_w < T then
        let global_w = off + local_w;
            base = unat global_w * MAX_THREADS_PER_WARP * NUM_REGS_PER_THREAD;
            sd = \<lparr> sd_slot_id = ucast (se_slot s), sd_flat_i = ucast (se_i s),
                   sd_value = ptr global_w (base + unat (se_i s)) \<rparr>
        in s\<lparr> se_seed_out := (se_seed_out s)(unat (se_c s) := se_seed_out s (unat (se_c s)) @ [sd]) \<rparr>
      else s)"

definition seed_advance :: "seeder \<Rightarrow> seeder" where
  "seed_advance s =
     (let s = s\<lparr> se_i := se_i s + 1 \<rparr> in
      if se_i s \<ge> of_nat (MAX_THREADS_PER_WARP * NUM_REGS_PER_THREAD) then
        let s = s\<lparr> se_i := 0, se_slot := se_slot s + 1 \<rparr> in
        if se_slot s \<ge> of_nat MAX_WARPS_PER_CU then
          s\<lparr> se_slot := 0,
             se_loaded_out := (se_loaded_out s)(unat (se_c s) := se_loaded_out s (unat (se_c s)) @ [True]),
             se_c := se_c s + 1 \<rparr>
        else s
      else s)"

definition seed_pass ::
  "(u8 \<Rightarrow> u8 \<Rightarrow> warp_id_t) \<Rightarrow> (warp_id_t \<Rightarrow> nat \<Rightarrow> reg_t) \<Rightarrow> warp_id_t \<Rightarrow> warp_id_t \<Rightarrow> seeder \<Rightarrow> seeder"
where
  "seed_pass local_w ptr T off s =
     seed_advance (seed_write_out (local_w (se_c s) (se_slot s)) ptr T off s)"

record loader =
  pl_loaded :: bool
  pl_load_idx :: u32
  pl_regs_done :: bool
  pl_seeder :: seeder
  pl_programs :: "instr_word_t list list"

text \<open>The port a warp's registers are read from, and the number of the warp in slot \<open>slot\<close> of unit \<open>c\<close>.\<close>

definition regs_port :: "(nat \<Rightarrow> reg_t) \<Rightarrow> (nat \<Rightarrow> reg_t) \<Rightarrow> warp_id_t \<Rightarrow> nat \<Rightarrow> reg_t" where
  "regs_port ptr0 ptr1 global_w = (if global_w AND 1 = 0 then ptr0 else ptr1)"

definition flat_warp :: "u8 \<Rightarrow> u8 \<Rightarrow> warp_id_t" where
  "flat_warp c slot = ucast c + ucast slot * of_nat NUM_CUS"

definition programLoader_step ::
  "(nat \<Rightarrow> instr_word_t) \<Rightarrow> (nat \<Rightarrow> reg_t) \<Rightarrow> (nat \<Rightarrow> reg_t) \<Rightarrow> u32 \<Rightarrow> warp_id_t \<Rightarrow> warp_id_t \<Rightarrow> bool \<Rightarrow>
   loader \<Rightarrow> loader"
where
  "programLoader_step program_ptr ptr0 ptr1 program_len T off start s =
     (if \<not> start then
        s\<lparr> pl_loaded := False, pl_load_idx := 0, pl_regs_done := False,
           pl_seeder := seed_reset (pl_seeder s) \<rparr>
      else if \<not> pl_loaded s then
        if pl_load_idx s < of_nat MAX_PROGRAM_LEN then
          let k = unat (pl_load_idx s);
              s = (if pl_load_idx s < program_len
                   then s\<lparr> pl_programs := map (\<lambda>p. p[k := program_ptr k]) (pl_programs s) \<rparr> else s)
          in s\<lparr> pl_load_idx := pl_load_idx s + 1 \<rparr>
        else s\<lparr> pl_loaded := True \<rparr>
      else if \<not> pl_regs_done s then
        if se_c (pl_seeder s) < of_nat NUM_CUS then
          s\<lparr> pl_seeder := seed_pass flat_warp (regs_port ptr0 ptr1) T off (pl_seeder s) \<rparr>
        else s\<lparr> pl_regs_done := True, pl_seeder := seed_reset (pl_seeder s) \<rparr>
      else s)"

definition loader_default :: loader where
  "loader_default = \<lparr> pl_loaded = False, pl_load_idx = 0, pl_regs_done = False,
     pl_seeder = \<lparr> se_c = 0, se_slot = 0, se_i = 0, se_seed_out = (\<lambda>_. []), se_loaded_out = (\<lambda>_. []) \<rparr>,
     pl_programs = replicate NUM_CUS (replicate MAX_PROGRAM_LEN 0) \<rparr>"

section \<open>The seeding phase in closed form\<close>

text \<open>Pass \<open>n\<close> of the phase sends word \<open>n mod 1024\<close> of slot \<open>n div 1024 mod 8\<close> of unit \<open>n div 8192\<close>.\<close>

definition seed_at :: "(u8 \<Rightarrow> u8 \<Rightarrow> warp_id_t) \<Rightarrow> (warp_id_t \<Rightarrow> nat \<Rightarrow> reg_t) \<Rightarrow> warp_id_t \<Rightarrow> nat \<Rightarrow> reg_seed_t" where
  "seed_at local_w ptr off n =
     (let w = off + local_w (of_nat (n div 8192)) (of_nat (n div 1024 mod 8)) in
      \<lparr> sd_slot_id = of_nat (n div 1024 mod 8), sd_flat_i = of_nat (n mod 1024),
        sd_value = ptr w (unat w * 1024 + n mod 1024) \<rparr>)"

definition seeds_upto ::
  "(u8 \<Rightarrow> u8 \<Rightarrow> warp_id_t) \<Rightarrow> (warp_id_t \<Rightarrow> nat \<Rightarrow> reg_t) \<Rightarrow> warp_id_t \<Rightarrow> warp_id_t \<Rightarrow> nat \<Rightarrow> nat \<Rightarrow> reg_seed_t list"
where
  "seeds_upto local_w ptr T off n c = map (seed_at local_w ptr off)
     (filter (\<lambda>j. j div 8192 = c \<and> local_w (of_nat c) (of_nat (j div 1024 mod 8)) < T) [0..<n])"

definition seeder_after ::
  "(u8 \<Rightarrow> u8 \<Rightarrow> warp_id_t) \<Rightarrow> (warp_id_t \<Rightarrow> nat \<Rightarrow> reg_t) \<Rightarrow> warp_id_t \<Rightarrow> warp_id_t \<Rightarrow> nat \<Rightarrow> seeder \<Rightarrow> seeder"
where
  "seeder_after local_w ptr T off n s =
     \<lparr> se_c = of_nat (n div 8192), se_slot = of_nat (n div 1024 mod 8), se_i = of_nat (n mod 1024),
       se_seed_out = (\<lambda>c. se_seed_out s c @ seeds_upto local_w ptr T off n c),
       se_loaded_out = (\<lambda>c. se_loaded_out s c @ (if (c + 1) * 8192 \<le> n then [True] else [])) \<rparr>"

lemma digits_Suc:
  "Suc n mod 1024 = (if n mod 1024 = 1023 then 0 else Suc (n mod 1024))"
  "Suc n div 1024 = (if n mod 1024 = 1023 then Suc (n div 1024) else n div 1024)"
  for n :: nat
  by (simp_all add: mod_Suc div_Suc)

lemma slot_digits_Suc:
  "Suc j mod 8 = (if j mod 8 = 7 then 0 else Suc (j mod 8))"
  "Suc j div 8 = (if j mod 8 = 7 then Suc (j div 8) else j div 8)"
  for j :: nat
  by (simp_all add: mod_Suc div_Suc)

lemma unit_digit: "n div 8192 = n div 1024 div 8" for n :: nat
  by (simp add: div_mult2_eq [symmetric])

lemma seeds_upto_Suc:
  "seeds_upto local_w ptr T off (Suc n) c = seeds_upto local_w ptr T off n c @
     (if c = n div 8192 \<and> local_w (of_nat c) (of_nat (n div 1024 mod 8)) < T
      then [seed_at local_w ptr off n] else [])"
  by (auto simp: seeds_upto_def)

lemma small_digits:
  fixes n :: nat
  assumes "n div 8192 < 255"
  shows "unat (of_nat (n div 8192) :: u8) = n div 8192"
    "unat (of_nat (n div 1024 mod 8) :: u8) = n div 1024 mod 8"
    "unat (of_nat (n mod 1024) :: u32) = n mod 1024"
    "ucast (of_nat (n div 1024 mod 8) :: u8) = (of_nat (n div 1024 mod 8) :: slot_id_t)"
    "ucast (of_nat (n mod 1024) :: u32) = (of_nat (n mod 1024) :: 10 word)"
  using assms by (simp_all add: unat_of_nat unsigned_of_nat take_bit_nat_eq_self)

lemma seed_write_out_after:
  assumes "n div 8192 < 255"
  shows "seed_write_out (local_w (of_nat (n div 8192)) (of_nat (n div 1024 mod 8))) ptr T off
      (seeder_after local_w ptr T off n s)
    = (seeder_after local_w ptr T off n s)
        \<lparr> se_seed_out := \<lambda>c. se_seed_out s c @ seeds_upto local_w ptr T off (Suc n) c \<rparr>"
proof (cases "local_w (of_nat (n div 8192)) (of_nat (n div 1024 mod 8)) < T")
  case True
  then show ?thesis
    by (simp add: seed_write_out_def seeder_after_def seeds_upto_Suc small_digits [OF assms]
        seed_at_def Let_def fun_eq_iff mult.commute)
next
  case False
  then show ?thesis
    by (auto simp: seed_write_out_def seeder_after_def seeds_upto_Suc fun_eq_iff)
qed

lemma seed_advance_word:
  assumes "se_i s = of_nat i" "i < 1023"
  shows "seed_advance s = s\<lparr> se_i := of_nat (Suc i) \<rparr>"
proof -
  have "\<not> (of_nat (Suc i) :: u32) \<ge> 1024"
    using assms(2) by (simp only: word_le_nat_alt unat_of_nat) simp
  with assms(1) show ?thesis by (simp add: seed_advance_def Let_def add.commute)
qed

lemma seed_advance_slot:
  assumes "se_i s = of_nat 1023" "se_slot s = of_nat k" "k < 7"
  shows "seed_advance s = s\<lparr> se_i := 0, se_slot := of_nat (Suc k) \<rparr>"
proof -
  have "\<not> (of_nat (Suc k) :: u8) \<ge> 8"
    using assms(3) by (simp only: word_le_nat_alt unat_of_nat) simp
  with assms(1,2) show ?thesis by (simp add: seed_advance_def Let_def add.commute)
qed

lemma seed_advance_unit:
  assumes "se_i s = of_nat 1023" "se_slot s = of_nat 7"
  shows "seed_advance s = s\<lparr> se_i := 0, se_slot := 0, se_c := se_c s + 1,
    se_loaded_out := (se_loaded_out s)(unat (se_c s) := se_loaded_out s (unat (se_c s)) @ [True]) \<rparr>"
  using assms by (simp add: seed_advance_def Let_def)

lemma unit_boundary:
  fixes n :: nat
  assumes "n mod 1024 \<noteq> 1023 \<or> n div 1024 mod 8 \<noteq> 7"
  shows "(c + 1) * 8192 \<le> Suc n \<longleftrightarrow> (c + 1) * 8192 \<le> n"
proof -
  have "Suc n \<noteq> (c + 1) * 8192"
  proof
    assume e: "Suc n = (c + 1) * 8192"
    have "(c + 1) * 8192 mod 1024 = 0" "(c + 1) * 8192 div 1024 = (c + 1) * 8"
      by (simp_all add: mod_mult_eq [of _ 8192, symmetric] div_mult_swap [symmetric])
    then have "Suc n mod 1024 = 0" "Suc n div 1024 mod 8 = 0"
      unfolding e by simp_all
    then show False using assms by (simp add: digits_Suc slot_digits_Suc split: if_splits)
  qed
  then show ?thesis by linarith
qed

lemma last_word:
  fixes n :: nat
  assumes "n mod 1024 = 1023" "n div 1024 mod 8 = 7"
  shows "Suc n = (n div 8192 + 1) * 8192"
proof -
  have arith: "Suc n = (p + 1) * 8192" if "q * 1024 + 1023 = n" "p * 8 + 7 = q" for p q
    using that by simp
  show ?thesis
    using arith [of "n div 1024" "n div 8192"] div_mult_mod_eq [of n 1024]
      div_mult_mod_eq [of "n div 1024" 8] assms unit_digit [of n] by simp
qed

lemma seed_advance_after:
  assumes "n div 8192 < 255"
  shows "seed_advance ((seeder_after local_w ptr T off n s)
        \<lparr> se_seed_out := \<lambda>c. se_seed_out s c @ seeds_upto local_w ptr T off (Suc n) c \<rparr>)
    = seeder_after local_w ptr T off (Suc n) s"
    (is "seed_advance ?a = _")
proof -
  have a: "se_i ?a = of_nat (n mod 1024)" "se_slot ?a = of_nat (n div 1024 mod 8)"
    "se_c ?a = of_nat (n div 8192)"
    by (simp_all add: seeder_after_def)
  consider (word) "n mod 1024 < 1023" | (slot) "n mod 1024 = 1023" "n div 1024 mod 8 < 7"
    | (unit) "n mod 1024 = 1023" "n div 1024 mod 8 = 7"
    by linarith
  then show ?thesis
  proof cases
    case word
    then have "(c + 1) * 8192 \<le> Suc n \<longleftrightarrow> (c + 1) * 8192 \<le> n" for c
      by (intro unit_boundary) simp
    then show ?thesis
      using word seed_advance_word [OF a(1) word]
      by (simp add: seeder_after_def digits_Suc unit_digit del: of_nat_Suc)
  next
    case slot
    then have "(c + 1) * 8192 \<le> Suc n \<longleftrightarrow> (c + 1) * 8192 \<le> n" for c
      by (intro unit_boundary) simp
    then show ?thesis
      using slot seed_advance_slot [OF _ a(2) slot(2)] a(1)
      by (simp add: seeder_after_def digits_Suc slot_digits_Suc unit_digit del: of_nat_Suc)
  next
    case unit
    note n = last_word [OF this]
    have arith: "((c + 1) * 8192 \<le> Suc n \<longleftrightarrow> c \<le> p) \<and> ((c + 1) * 8192 \<le> n \<longleftrightarrow> c < p)"
      if "Suc n = (p + 1) * 8192" for c p
      using that by auto
    note le = arith [OF n, THEN conjunct1] arith [OF n, THEN conjunct2]
    have d: "Suc n div 8192 = Suc (n div 8192)" "Suc n div 1024 mod 8 = 0" "Suc n mod 1024 = 0"
      using unit by (simp_all add: unit_digit digits_Suc slot_digits_Suc)
    have "seed_advance ?a = ?a\<lparr> se_i := 0, se_slot := 0, se_c := of_nat (Suc (n div 8192)),
        se_loaded_out := (se_loaded_out ?a)(n div 8192 := se_loaded_out ?a (n div 8192) @ [True]) \<rparr>"
      using seed_advance_unit [of ?a] a unit small_digits(1) [OF assms] by simp
    then show ?thesis
      unfolding seeder_after_def le d by (auto simp: fun_eq_iff)
  qed
qed

lemma seed_pass_after:
  assumes "n div 8192 < 255"
  shows "seed_pass local_w ptr T off (seeder_after local_w ptr T off n s)
    = seeder_after local_w ptr T off (Suc n) s"
proof -
  have "se_c (seeder_after local_w ptr T off n s) = of_nat (n div 8192)"
    "se_slot (seeder_after local_w ptr T off n s) = of_nat (n div 1024 mod 8)"
    by (simp_all add: seeder_after_def)
  then show ?thesis
    by (simp only: seed_pass_def seed_write_out_after [OF assms] seed_advance_after [OF assms])
qed

lemma seed_passes:
  assumes "n \<le> 255 * 8192" "se_c s = 0" "se_slot s = 0" "se_i s = 0"
  shows "(seed_pass local_w ptr T off ^^ n) s = seeder_after local_w ptr T off n s"
  using assms(1)
proof (induction n)
  case 0
  then show ?case using assms by (simp add: seeder_after_def seeds_upto_def)
next
  case (Suc n)
  then show ?case by (simp add: seed_pass_after)
qed

section \<open>The whole pass sequence\<close>

definition loader_run ::
  "(nat \<Rightarrow> instr_word_t) \<Rightarrow> (nat \<Rightarrow> reg_t) \<Rightarrow> (nat \<Rightarrow> reg_t) \<Rightarrow> u32 \<Rightarrow> warp_id_t \<Rightarrow> warp_id_t \<Rightarrow>
   bool list \<Rightarrow> loader \<Rightarrow> loader"
where
  "loader_run program_ptr ptr0 ptr1 program_len T off starts =
     fold (programLoader_step program_ptr ptr0 ptr1 program_len T off) starts"

lemma loader_run_append:
  "loader_run pp p0 p1 len T off (a @ b) s = loader_run pp p0 p1 len T off b (loader_run pp p0 p1 len T off a s)"
  by (simp add: loader_run_def)

lemma loader_run_replicate:
  "loader_run pp p0 p1 len T off (replicate n b) = programLoader_step pp p0 p1 len T off b ^^ n"
  by (induction n) (simp_all add: loader_run_def funpow_Suc_right del: funpow.simps)

definition copy_words :: "(nat \<Rightarrow> instr_word_t) \<Rightarrow> u32 \<Rightarrow> nat \<Rightarrow> instr_word_t list \<Rightarrow> instr_word_t list" where
  "copy_words pp len k = lane_loop k (\<lambda>i. i < unat len) (\<lambda>i _. pp i)"

lemma copy_words_Suc:
  "copy_words pp len (Suc k) p =
     (if k < unat len then (copy_words pp len k p)[k := pp k] else copy_words pp len k p)"
  by (simp add: copy_words_def lane_loop_Suc Let_def)

definition fresh_loader :: "loader \<Rightarrow> bool" where
  "fresh_loader s \<longleftrightarrow> \<not> pl_loaded s \<and> pl_load_idx s = 0 \<and> \<not> pl_regs_done s \<and>
     se_c (pl_seeder s) = 0 \<and> se_slot (pl_seeder s) = 0 \<and> se_i (pl_seeder s) = 0"

lemma loader_words:
  assumes "fresh_loader s" "k \<le> 256"
  shows "(programLoader_step pp p0 p1 len T off True ^^ k) s
    = s\<lparr> pl_load_idx := of_nat k, pl_programs := map (copy_words pp len k) (pl_programs s) \<rparr>"
  using assms(2)
proof (induction k)
  case 0
  have "copy_words pp len 0 = id" by (simp add: copy_words_def lane_loop_def fun_eq_iff)
  then show ?case using assms(1) by (simp add: fresh_loader_def)
next
  case (Suc k)
  then have k: "unat (of_nat k :: u32) = k" "(of_nat k :: u32) < 256"
    by (simp_all add: word_less_nat_alt unat_of_nat)
  have "\<not> pl_loaded s" using assms(1) by (simp add: fresh_loader_def)
  then show ?case
    using Suc k by (simp add: programLoader_step_def Let_def word_less_nat_alt copy_words_Suc o_def add.commute)
qed

lemma loader_seeding:
  assumes "pl_loaded s" "\<not> pl_regs_done s" "n \<le> 65536"
    "se_c (pl_seeder s) = 0" "se_slot (pl_seeder s) = 0" "se_i (pl_seeder s) = 0"
  shows "(programLoader_step pp p0 p1 len T off True ^^ n) s
    = s\<lparr> pl_seeder := seeder_after flat_warp (regs_port p0 p1) T off n (pl_seeder s) \<rparr>"
  using assms(3)
proof (induction n)
  case 0
  then show ?case using assms(4-6) by (simp add: seeder_after_def seeds_upto_def)
next
  case (Suc n)
  then have n: "n div 8192 < 8" by simp
  then have "(of_nat (n div 8192) :: u8) < 8" by (simp add: word_less_nat_alt unat_of_nat)
  then have "se_c (seeder_after flat_warp (regs_port p0 p1) T off n (pl_seeder s)) < 8"
    by (simp add: seeder_after_def)
  with Suc assms(1,2) n show ?case by (simp add: programLoader_step_def seed_pass_after)
qed

text \<open>The state after the 257 passes that copy the program and \<open>n\<close> passes of seeding.\<close>

lemma loader_progress:
  assumes "fresh_loader s" "n \<le> 65536"
  shows "(programLoader_step pp p0 p1 len T off True ^^ (257 + n)) s
    = s\<lparr> pl_loaded := True, pl_load_idx := 256, pl_programs := map (copy_words pp len 256) (pl_programs s),
         pl_seeder := seeder_after flat_warp (regs_port p0 p1) T off n (pl_seeder s) \<rparr>"
proof -
  let ?f = "programLoader_step pp p0 p1 len T off True"
  let ?s1 = "s\<lparr> pl_load_idx := 256, pl_programs := map (copy_words pp len 256) (pl_programs s) \<rparr>"
  let ?s2 = "?s1\<lparr> pl_loaded := True \<rparr>"
  have "(?f ^^ 256) s = ?s1" using loader_words [OF assms(1), of 256] by simp
  moreover have "?f ?s1 = ?s2" using assms(1) by (simp add: programLoader_step_def fresh_loader_def)
  ultimately have 2: "(?f ^^ 257) s = ?s2"
    using funpow.simps(2) [of 256 ?f] by simp
  have "(?f ^^ (257 + n)) s = (?f ^^ n) ((?f ^^ 257) s)"
    by (simp only: add.commute [of 257] funpow_add o_def)
  also have "\<dots> = ?s2\<lparr> pl_seeder := seeder_after flat_warp (regs_port p0 p1) T off n (pl_seeder ?s2) \<rparr>"
    unfolding 2 using assms by (intro loader_seeding) (simp_all add: fresh_loader_def)
  finally show ?thesis by simp
qed

section \<open>The register image\<close>

definition seed_loc :: "reg_seed_t \<Rightarrow> nat \<times> nat \<times> nat" where
  "seed_loc s = (unat (sd_slot_id s), unat (drop_bit 5 (sd_flat_i s)), unat (sd_flat_i s AND 31))"

definition wf_files :: "RegisterFile list \<Rightarrow> bool" where
  "wf_files regs \<longleftrightarrow> length regs = MAX_WARPS_PER_CU \<and> list_all wf_regs regs"

lemma wf_files_dims:
  assumes "wf_files regs" "k < 8" "t < 32"
  shows "length regs = 8" "length (regs ! k) = 32" "length (regs ! k ! t) = 32"
proof -
  have "wf_regs (regs ! k)" using assms by (simp add: wf_files_def list_all_length)
  then show "length regs = 8" "length (regs ! k) = 32" "length (regs ! k ! t) = 32"
    using assms wf_regs_row by (simp_all add: wf_files_def wf_regs_def)
qed

lemma flat_lane_bound: "unat (drop_bit 5 (x :: 10 word)) < 32"
proof -
  have "unat (drop_bit 5 x) = unat x div 32" by (simp add: drop_bit_eq_div unat_div)
  moreover have "unat x < 2 ^ LENGTH(10)" by (rule unsigned_less)
  ultimately show ?thesis by (simp add: less_mult_imp_div_less)
qed

lemma flat_reg_bound: "unat ((x :: 10 word) AND 31) < 32"
proof -
  have "x AND 31 = take_bit 5 x" by (simp add: take_bit_eq_mask mask_eq_exp_minus_1)
  then show ?thesis using unat_take_bit_less [of 5 x] by simp
qed

lemma wf_files_seed_write: "wf_files regs \<Longrightarrow> wf_files (seed_write s regs)"
proof (cases "unat (sd_slot_id s) < length regs")
  case True
  assume wf: "wf_files regs"
  let ?k = "unat (sd_slot_id s)" and ?t = "unat (drop_bit 5 (sd_flat_i s))"
  have k: "?k < 8" "wf_regs (regs ! ?k)" using wf True by (simp_all add: wf_files_def list_all_length)
  have "length (regs ! ?k ! ?t) = 32" by (rule wf_regs_row [OF k(2) flat_lane_bound])
  then have "wf_regs ((regs ! ?k)[?t := (regs ! ?k ! ?t)[unat (sd_flat_i s AND 31) := sd_value s]])"
    using k(2) by (simp add: wf_regs_def list_all_update)
  then show ?thesis using wf by (simp add: wf_files_def seed_write_def Let_def list_all_update)
next
  case False
  assume "wf_files regs"
  then show ?thesis using False by (simp add: seed_write_def Let_def list_update_beyond)
qed

lemma seed_write_at:
  assumes "wf_files regs" "k < 8" "t < 32" "r < 32"
  shows "seed_write s regs ! k ! t ! r = (if seed_loc s = (k, t, r) then sd_value s else regs ! k ! t ! r)"
  using assms wf_files_dims [OF assms(1-3)]
  by (cases "unat (sd_slot_id s) = k"; cases "unat (drop_bit 5 (sd_flat_i s)) = t";
      cases "unat (sd_flat_i s AND 31) = r")
    (simp_all add: seed_write_def seed_loc_def Let_def)

lemma wf_files_fold: "wf_files regs \<Longrightarrow> wf_files (fold seed_write ss regs)"
  by (induction ss arbitrary: regs) (simp_all add: wf_files_seed_write)

lemma seeds_image:
  assumes "wf_files regs" "k < 8" "t < 32" "r < 32"
  shows "(\<forall>s \<in> set ss. seed_loc s = (k, t, r) \<longrightarrow> sd_value s = v) \<Longrightarrow>
    fold seed_write ss regs ! k ! t ! r
      = (if \<exists>s \<in> set ss. seed_loc s = (k, t, r) then v else regs ! k ! t ! r)"
proof (induction ss rule: rev_induct)
  case Nil
  then show ?case by simp
next
  case (snoc s ss)
  then show ?case
    using seed_write_at [OF wf_files_fold [OF assms(1)] assms(2-4)] by auto
qed

lemma seed_at_loc: "seed_loc (seed_at local_w ptr off n) = (n div 1024 mod 8, n mod 1024 div 32, n mod 32)"
proof -
  have i: "unat (of_nat (n mod 1024) :: 10 word) = n mod 1024" by (simp add: unat_of_nat)
  have "(of_nat (n mod 1024) :: 10 word) AND 31 = take_bit 5 (of_nat (n mod 1024))"
    by (simp add: take_bit_eq_mask mask_eq_exp_minus_1)
  then have "unat ((of_nat (n mod 1024) :: 10 word) AND 31) = n mod 1024 mod 32"
    by (simp add: unat_mod i take_bit_eq_mod)
  moreover have "n mod 1024 mod 32 = n mod 32"
    using mod_mod_cancel [of 32 1024 n] by simp
  moreover have "unat (drop_bit 5 (of_nat (n mod 1024) :: 10 word)) = n mod 1024 div 32"
    by (simp add: drop_bit_eq_div unat_div i)
  moreover have "unat (of_nat (n div 1024 mod 8) :: slot_id_t) = n div 1024 mod 8"
    by (simp add: unat_of_nat)
  ultimately show ?thesis by (simp add: seed_loc_def seed_at_def Let_def)
qed

text \<open>The register words a unit's seeds write, for any numbering of its warps.\<close>

lemma seeds_upto_image:
  assumes "wf_files regs" "k < 8" "t < 32" "r < 32" "(c + 1) * 8192 \<le> n"
    and "w = off + local_w (of_nat c) (of_nat k)"
  shows "fold seed_write (seeds_upto local_w ptr T off n c) regs ! k ! t ! r =
    (if local_w (of_nat c) (of_nat k) < T then ptr w (unat w * 1024 + (t * 32 + r)) else regs ! k ! t ! r)"
proof -
  let ?v = "ptr w (unat w * 1024 + (t * 32 + r))" and ?ss = "seeds_upto local_w ptr T off n c"
  let ?j = "c * 8192 + k * 1024 + (t * 32 + r)"
  have digits: "j = ?j" if "j div 8192 = c" "seed_loc (seed_at local_w ptr off j) = (k, t, r)" for j
  proof -
    have "j div 1024 mod 8 = k" "j mod 1024 div 32 = t" "j mod 1024 mod 32 = r"
      using that(2) mod_mod_cancel [of 32 1024 j] by (simp_all add: seed_at_loc)
    then have "j mod 1024 = t * 32 + r" "j div 1024 = c * 8 + k"
      using div_mult_mod_eq [of "j mod 1024" 32] div_mult_mod_eq [of "j div 1024" 8] that(1)
      by (simp_all add: unit_digit)
    then show ?thesis using div_mult_mod_eq [of j 1024] by simp
  qed
  have j: "?j div 1024 = c * 8 + k" "?j mod 1024 = t * 32 + r"
  proof -
    have "t * 32 + r < 1024" using assms(3,4) by simp
    moreover have "?j = (c * 8 + k) * 1024 + (t * 32 + r)" by simp
    ultimately show "?j div 1024 = c * 8 + k" "?j mod 1024 = t * 32 + r"
      by (metis div_mult_self3 div_less add_0_right zero_neq_numeral) (metis \<open>t * 32 + r < 1024\<close> \<open>?j = (c * 8 + k) * 1024 + (t * 32 + r)\<close> mod_less mod_mult_self3)
  qed
  then have dj: "?j div 8192 = c" "?j div 1024 mod 8 = k" "?j mod 1024 div 32 = t" "?j mod 32 = r"
    using assms(2,4) mod_mod_cancel [of 32 1024 ?j] by (simp_all add: unit_digit)
  have val: "sd_value (seed_at local_w ptr off ?j) = ?v"
    unfolding seed_at_def dj(1,2) j(2) assms(6) Let_def by simp
  have in_range: "?j < n" using assms(2-5) unfolding add_mult_distrib by simp
  let ?valid = "local_w (of_nat c) (of_nat k) < T"
  have mem: "seed_at local_w ptr off ?j \<in> set ?ss" if ?valid
    using that in_range dj by (auto simp: seeds_upto_def intro!: image_eqI [of _ _ ?j])
  have uniq: "\<exists>j. s = seed_at local_w ptr off j \<and> j = ?j \<and> ?valid"
    if in_ss: "s \<in> set ?ss" and loc: "seed_loc s = (k, t, r)" for s
  proof -
    obtain j where j: "s = seed_at local_w ptr off j" "j div 8192 = c"
      "local_w (of_nat c) (of_nat (j div 1024 mod 8)) < T"
      using in_ss unfolding seeds_upto_def set_map set_filter by blast
    have "j div 1024 mod 8 = k" using loc j(1) by (simp add: seed_at_loc)
    then show ?thesis using j digits [OF j(2)] loc by auto
  qed
  have "seed_loc (seed_at local_w ptr off ?j) = (k, t, r)"
    unfolding seed_at_loc dj by simp
  then have "(\<exists>s \<in> set ?ss. seed_loc s = (k, t, r)) = ?valid"
    using mem uniq by blast
  moreover have "\<forall>s \<in> set ?ss. seed_loc s = (k, t, r) \<longrightarrow> sd_value s = ?v"
    using uniq val by blast
  ultimately show ?thesis using seeds_image [OF assms(1-4), of ?ss ?v] by simp
qed

section \<open>Properties\<close>

lemma flat_warp_value:
  assumes "c < 8" "k < 8"
  shows "flat_warp (of_nat c) (of_nat k) = of_nat (c + k * 8)"
proof -
  have "ucast (of_nat n :: u8) = (of_nat n :: u32)" if "n < 8" for n
    using that by (simp add: unsigned_of_nat take_bit_nat_eq_self)
  with assms show ?thesis by (simp add: flat_warp_def)
qed

text \<open>C29: with \<open>start\<close> held high, the loader gives every unit the program that \<open>loadProgram\<close> copies, exactly
  one loaded token, and seeds that write into the register file of each slot the 1024 words of that
  slot's warp in the initial register image, and leave the slots without a warp alone.\<close>

theorem loader_fills_units:
  assumes "c < NUM_CUS" "wf_files regs" "k < MAX_WARPS_PER_CU" "t < MAX_THREADS_PER_WARP"
    "r < NUM_REGS_PER_THREAD"
    and "s = loader_run pp p0 p1 len T off (replicate (257 + 65536) True) loader_default"
    and "w = off + of_nat (c + k * NUM_CUS)"
  shows "pl_programs s ! c
      = du_program (loadProgram pp len \<lparr> du_regs = regs, du_program = replicate MAX_PROGRAM_LEN 0 \<rparr>) \<and>
    se_loaded_out (pl_seeder s) c = [True] \<and>
    fold seed_write (se_seed_out (pl_seeder s) c) regs ! k ! t ! r =
      (if c + k * NUM_CUS < unat T
       then regs_port p0 p1 w (unat w * 1024 + (t * 32 + r)) else regs ! k ! t ! r)"
proof -
  have fresh: "fresh_loader loader_default" by (simp add: fresh_loader_def loader_default_def)
  have s: "s = loader_default\<lparr> pl_loaded := True, pl_load_idx := 256,
      pl_programs := map (copy_words pp len 256) (pl_programs loader_default),
      pl_seeder := seeder_after flat_warp (regs_port p0 p1) T off 65536 (pl_seeder loader_default) \<rparr>"
    unfolding assms(6) loader_run_replicate by (rule loader_progress [OF fresh]) simp
  have "copy_words pp len 256 p = lane_loop (min (unat len) 256) (\<lambda>_. True) (\<lambda>i _. pp i) p" if "length p = 256" for p
    by (rule nth_equalityI) (simp_all add: that copy_words_def lane_simps)
  then have 1: "pl_programs s ! c
      = du_program (loadProgram pp len \<lparr> du_regs = regs, du_program = replicate MAX_PROGRAM_LEN 0 \<rparr>)"
    using assms(1) by (simp add: s loader_default_def loadProgram_def)
  have 2: "se_loaded_out (pl_seeder s) c = [True]"
    using assms(1) by (simp add: s loader_default_def seeder_after_def)
  have lt: "(of_nat (c + k * 8) :: u32) < T \<longleftrightarrow> c + k * 8 < unat T"
  proof -
    have "unat (of_nat (c + k * 8) :: u32) = c + k * 8"
      using assms(1,3) by (simp only: unat_of_nat) simp
    then show ?thesis by (simp only: word_less_nat_alt)
  qed
  have "fold seed_write (seeds_upto flat_warp (regs_port p0 p1) T off 65536 c) regs ! k ! t ! r =
      (if flat_warp (of_nat c) (of_nat k) < T
       then regs_port p0 p1 w (unat w * 1024 + (t * 32 + r)) else regs ! k ! t ! r)"
    using assms(1-5) flat_warp_value [of c k] by (intro seeds_upto_image) (simp_all add: assms(7))
  then have 3: "fold seed_write (se_seed_out (pl_seeder s) c) regs ! k ! t ! r =
      (if c + k * NUM_CUS < unat T
       then regs_port p0 p1 w (unat w * 1024 + (t * 32 + r)) else regs ! k ! t ! r)"
    using assms(1,3) flat_warp_value [of c k] lt by (simp add: s loader_default_def seeder_after_def)
  from 1 2 3 show ?thesis by simp
qed

text \<open>When \<open>start\<close> is lowered before the loader has made 8449 passes (the time to copy the program and to
  seed the first unit), no unit ever receives a loaded token, however long the loader runs on.\<close>

theorem early_start_drop_loads_nothing:
  assumes "n < 257 + 8192"
  shows "se_loaded_out (pl_seeder (loader_run pp p0 p1 len T off (replicate n True @ replicate m False)
    loader_default)) = (\<lambda>_. [])"
proof -
  have fresh: "fresh_loader loader_default" by (simp add: fresh_loader_def loader_default_def)
  let ?run = "\<lambda>k. (programLoader_step pp p0 p1 len T off True ^^ k) loader_default"
  have "se_loaded_out (pl_seeder (?run n)) = (\<lambda>_. [])"
  proof (cases "n \<le> 256")
    case True
    then show ?thesis using loader_words [OF fresh True] by (simp add: loader_default_def)
  next
    case False
    then obtain j where j: "n = 257 + j" using le_Suc_ex [of 257 n] by auto
    with assms have "j < 8192" by simp
    then show ?thesis
      unfolding j using loader_progress [OF fresh, of j]
      by (simp add: loader_default_def seeder_after_def fun_eq_iff)
  qed
  moreover have "se_loaded_out (pl_seeder ((programLoader_step pp p0 p1 len T off False ^^ m) s))
      = se_loaded_out (pl_seeder s)" for s
    by (induction m) (simp_all add: programLoader_step_def seed_reset_def)
  ultimately show ?thesis by (simp add: loader_run_append loader_run_replicate)
qed

section \<open>Witnesses\<close>

theorem loader_fills_units_witness:
  "fold seed_write (se_seed_out (pl_seeder (loader_run (\<lambda>i. of_nat i) (\<lambda>i. of_nat i) (\<lambda>i. of_nat i) 3 20 100
     (replicate (257 + 65536) True) loader_default)) 5) (replicate 8 (replicate 32 (replicate 32 0))) ! 1 ! 2 ! 3
   = 115779"
proof -
  have "wf_files (replicate 8 (replicate 32 (replicate 32 0)))"
    by (simp add: wf_files_def wf_regs_def list_all_iff)
  moreover have "(113 :: u32) AND 1 = 1" by simp
  ultimately show ?thesis
    using loader_fills_units [OF _ _ _ _ _ refl refl, where c = 5 and k = 1 and t = 2 and r = 3
        and regs = "replicate 8 (replicate 32 (replicate 32 0))" and pp = "\<lambda>i. of_nat i"
        and ?p0.0 = "\<lambda>i. of_nat i" and ?p1.0 = "\<lambda>i. of_nat i" and len = 3 and T = 20 and off = 100]
    by (simp add: regs_port_def)
qed

theorem early_start_drop_loads_nothing_witness:
  "se_loaded_out (pl_seeder (loader_run (\<lambda>i. of_nat i) (\<lambda>_. 0) (\<lambda>_. 0) 12 4 0
     (replicate 20 True @ replicate 5 False) loader_default)) 0 = []"
  using early_start_drop_loads_nothing [where n = 20 and pp = "\<lambda>i. of_nat i" and ?p0.0 = "\<lambda>_. 0"
      and ?p1.0 = "\<lambda>_. 0" and len = 12 and T = 4 and off = 0 and m = 5] by simp

end
