(* ===== verification/GpgpuTop.thy ===== *)
theory GpgpuTop
  imports ProgramLoader BarrierArb
begin

text \<open>
  One device: \<open>schedulerCore\<close> of \<open>hls/src/scheduler/gpgpu_top.h\<close> and the flat process network that
  \<open>gpgpu_scheduler\<close> (\<open>gpgpu_top.cpp\<close>) builds from it. \<open>schedulerCore_step\<close> is one pass of the loop of
  one unit's scheduler. The network is the step relation \<open>device_step\<close>: any process may make its next
  pass at any time. A compute pipeline appears through what the pipeline theory proves of it (each
  dispatch is answered by one status with the same slot), with an arbitrary result; the loader through
  the one token it sends each unit; the FIFO depths are not bounds of the model.
\<close>

section \<open>The scheduler of one unit\<close>

record sched_cu =
  sc_slots :: "WarpSlot list"
  sc_busy_cu_scheduler :: bool
  sc_busy_cu :: bool
  sc_dispatch_out :: "warp_dispatch_t list"
  sc_status_in :: "warp_status_t list"
  sc_barrier_events_out :: "WarpStatusCode list"
  sc_barrier_signal_in :: "barrier_signal_t list"
  sc_loaded_in :: "bool list"

definition sched_idle_n :: "nat \<Rightarrow> cu_id_t \<Rightarrow> warp_id_t \<Rightarrow> warp_id_t \<Rightarrow> bool \<Rightarrow> sched_cu \<Rightarrow> sched_cu" where
  "sched_idle_n NCU cu_id T off start s =
     (if \<not> start then s
      else if T > of_nat (NCU * MAX_WARPS_PER_CU) then s
      else case sc_loaded_in s of [] \<Rightarrow> s
        | _ # tokens \<Rightarrow> s\<lparr> sc_loaded_in := tokens, sc_slots := launchSlots_n NCU cu_id T off (sc_slots s),
            sc_busy_cu := False, sc_busy_cu_scheduler := True \<rparr>)"

definition sched_idle :: "cu_id_t \<Rightarrow> warp_id_t \<Rightarrow> warp_id_t \<Rightarrow> bool \<Rightarrow> sched_cu \<Rightarrow> sched_cu" where
  "sched_idle = sched_idle_n NUM_CUS"

definition sched_dispatch :: "sched_cu \<Rightarrow> sched_cu" where
  "sched_dispatch s =
     (if \<not> sc_busy_cu s then
        let slot = nextReadySlot (sc_slots s) in
        if slot \<noteq> of_nat INVALID_SLOT then
          let (d, slots) = buildDispatch slot (sc_slots s) in
          s\<lparr> sc_slots := slots, sc_dispatch_out := sc_dispatch_out s @ [d], sc_busy_cu := True \<rparr>
        else s
      else s)"

definition sched_status :: "sched_cu \<Rightarrow> sched_cu" where
  "sched_status s =
     (case sc_status_in s of [] \<Rightarrow> s
      | st # sts \<Rightarrow> s\<lparr> sc_status_in := sts, sc_slots := recordResult (ws_slot_id st) st (sc_slots s),
          sc_barrier_events_out := sc_barrier_events_out s @ [ws_code st], sc_busy_cu := False \<rparr>)"

definition sched_signal :: "sched_cu \<Rightarrow> sched_cu" where
  "sched_signal s =
     (case sc_barrier_signal_in s of [] \<Rightarrow> s
      | sig # sigs \<Rightarrow>
          s\<lparr> sc_barrier_signal_in := sigs,
             sc_slots := (if sg_release sig then releaseBarrierSlots (sc_slots s) else sc_slots s),
             sc_busy_cu_scheduler := (if sg_kernel_done sig then False else sc_busy_cu_scheduler s) \<rparr>)"

definition schedulerCore_n :: "nat \<Rightarrow> cu_id_t \<Rightarrow> warp_id_t \<Rightarrow> warp_id_t \<Rightarrow> bool \<Rightarrow> sched_cu \<Rightarrow> sched_cu" where
  "schedulerCore_n NCU cu_id T off start s =
     (if \<not> sc_busy_cu_scheduler s then sched_idle_n NCU cu_id T off start s
      else sched_signal (sched_status (sched_dispatch s)))"

definition schedulerCore_step :: "cu_id_t \<Rightarrow> warp_id_t \<Rightarrow> warp_id_t \<Rightarrow> bool \<Rightarrow> sched_cu \<Rightarrow> sched_cu" where
  "schedulerCore_step = schedulerCore_n NUM_CUS"

section \<open>The process network\<close>

record device =
  dv_cu :: "nat \<Rightarrow> sched_cu"
  dv_barrier :: barrier_core
  dv_unloaded :: "nat \<Rightarrow> bool"
  dv_start :: bool

definition barrier_pass :: "warp_id_t \<Rightarrow> device \<Rightarrow> device" where
  "barrier_pass T S =
     (let (b, ev, sg) = barrierCore T (dv_start S) (dv_barrier S,
            \<lambda>c. sc_barrier_events_out (dv_cu S c), \<lambda>c. sc_barrier_signal_in (dv_cu S c))
      in S\<lparr> dv_barrier := b,
            dv_cu := \<lambda>c. (dv_cu S c)\<lparr> sc_barrier_events_out := ev c, sc_barrier_signal_in := sg c \<rparr> \<rparr>)"

text \<open>\<open>start\<close> is high when the run begins, and is lowered by the host at any time, but before the barrier
  core's pass that follows completion.\<close>

inductive device_step :: "warp_id_t \<Rightarrow> warp_id_t \<Rightarrow> device \<Rightarrow> device \<Rightarrow> bool" for T off where
  Sched: "c < NUM_CUS \<Longrightarrow>
    device_step T off S (S\<lparr> dv_cu := (dv_cu S)(c := schedulerCore_step (of_nat c) T off (dv_start S) (dv_cu S c)) \<rparr>)"
| Pipe: "c < NUM_CUS \<Longrightarrow> sc_dispatch_out (dv_cu S c) = d # ds \<Longrightarrow> ws_slot_id st = wd_slot_id d \<Longrightarrow>
    device_step T off S (S\<lparr> dv_cu := (dv_cu S)(c := (dv_cu S c)
      \<lparr> sc_dispatch_out := ds, sc_status_in := sc_status_in (dv_cu S c) @ [st] \<rparr>) \<rparr>)"
| Load: "c < NUM_CUS \<Longrightarrow> dv_unloaded S c \<Longrightarrow> dv_start S \<Longrightarrow>
    device_step T off S (S\<lparr> dv_unloaded := (dv_unloaded S)(c := False),
      dv_cu := (dv_cu S)(c := (dv_cu S c)\<lparr> sc_loaded_in := sc_loaded_in (dv_cu S c) @ [True] \<rparr>) \<rparr>)"
| Barrier: "\<not> dv_start S \<or> bc_busy (dv_barrier S) \<or> \<not> bc_done (dv_barrier S) \<Longrightarrow>
    device_step T off S (barrier_pass T S)"
| Host: "device_step T off S (S\<lparr> dv_start := False \<rparr>)"

inductive_cases device_stepE: "device_step T off S S'"

definition sched_default :: sched_cu where
  "sched_default = \<lparr> sc_slots = replicate MAX_WARPS_PER_CU WarpSlot_default, sc_busy_cu_scheduler = False,
     sc_busy_cu = False, sc_dispatch_out = [], sc_status_in = [], sc_barrier_events_out = [],
     sc_barrier_signal_in = [], sc_loaded_in = [] \<rparr>"

definition device_init :: device where
  "device_init = \<lparr> dv_cu = (\<lambda>_. sched_default), dv_barrier = barrier_core_default,
     dv_unloaded = (\<lambda>_. True), dv_start = True \<rparr>"

abbreviation reachable :: "warp_id_t \<Rightarrow> warp_id_t \<Rightarrow> device \<Rightarrow> bool" where
  "reachable T off S \<equiv> (device_step T off)\<^sup>*\<^sup>* device_init S"

lemma schedulerCore_step_unfold:
  "schedulerCore_step cu_id T off start s =
     (if \<not> sc_busy_cu_scheduler s then sched_idle cu_id T off start s
      else sched_signal (sched_status (sched_dispatch s)))"
  unfolding schedulerCore_step_def schedulerCore_n_def sched_idle_def by (rule refl)

lemma sched_idle_unfold:
  "sched_idle cu_id T off start s =
     (if \<not> start then s
      else if T > of_nat (NUM_CUS * MAX_WARPS_PER_CU) then s
      else case sc_loaded_in s of [] \<Rightarrow> s
        | _ # tokens \<Rightarrow> s\<lparr> sc_loaded_in := tokens, sc_slots := launchSlots cu_id T off (sc_slots s),
            sc_busy_cu := False, sc_busy_cu_scheduler := True \<rparr>)"
  unfolding sched_idle_def sched_idle_n_def launchSlots_def by (rule refl)

section \<open>The invariant of one unit\<close>

text \<open>\<open>p\<close>: the unit has not launched yet. Its warps then count as ready.\<close>

definition n_ready :: "nat \<Rightarrow> bool \<Rightarrow> sched_cu \<Rightarrow> nat" where
  "n_ready W p u = (if p then W else count_state READY (sc_slots u))"
definition n_stalled :: "bool \<Rightarrow> sched_cu \<Rightarrow> nat" where
  "n_stalled p u = (if p then 0 else count_state STALLED (sc_slots u))"
definition n_done :: "bool \<Rightarrow> sched_cu \<Rightarrow> nat" where
  "n_done p u = (if p then 0 else count_state DONE (sc_slots u))"

definition in_flight :: "sched_cu \<Rightarrow> slot_id_t list" where
  "in_flight u = map wd_slot_id (sc_dispatch_out u) @ map ws_slot_id (sc_status_in u)"

definition releases :: "sched_cu \<Rightarrow> nat" where
  "releases u = length (filter sg_release (sc_barrier_signal_in u))"

definition unit_inv :: "nat \<Rightarrow> bool \<Rightarrow> sched_cu \<Rightarrow> bool" where
  "unit_inv W p u \<longleftrightarrow>
     length (sc_slots u) = 8 \<and> n_ready W p u + n_stalled p u + n_done p u = W \<and>
     (if sc_busy_cu u then \<exists>k. in_flight u = [k] \<and> unat k < 8 \<and> sl_state (sc_slots u ! unat k) = READY
      else in_flight u = []) \<and>
     (p \<longrightarrow> \<not> sc_busy_cu_scheduler u \<and> \<not> sc_busy_cu u \<and> sc_barrier_events_out u = []) \<and>
     (\<not> p \<longrightarrow> sc_loaded_in u = []) \<and> length (sc_loaded_in u) \<le> 1 \<and>
     (\<not> p \<and> \<not> sc_busy_cu_scheduler u \<longrightarrow> n_done p u = W) \<and>
     (0 < releases u \<and> 0 < W \<longrightarrow> releases u = 1 \<and> n_stalled p u = W \<and> sc_barrier_events_out u = []) \<and>
     ((\<exists>sig \<in> set (sc_barrier_signal_in u). sg_kernel_done sig) \<longrightarrow> n_done p u = W)"

text \<open>The stalls and completions of the unit that the barrier core has already counted.\<close>

definition seen_done :: "bool \<Rightarrow> sched_cu \<Rightarrow> int" where
  "seen_done p u = int (n_done p u) - int (count_code COMPLETE (sc_barrier_events_out u))"
definition seen_stalled :: "bool \<Rightarrow> sched_cu \<Rightarrow> int" where
  "seen_stalled p u = (if 0 < releases u then 0 else int (n_stalled p u))
     - int (count_code STALLED_AT_BARRIER (sc_barrier_events_out u))"

lemmas unit_defs = n_ready_def n_stalled_def n_done_def seen_done_def seen_stalled_def

lemma unit_dispatch:
  assumes "unit_inv W False u"
  shows "unit_inv W False (sched_dispatch u) \<and> seen_done False (sched_dispatch u) = seen_done False u \<and>
    seen_stalled False (sched_dispatch u) = seen_stalled False u \<and>
    sc_busy_cu_scheduler (sched_dispatch u) = sc_busy_cu_scheduler u"
proof (cases "sc_busy_cu u \<or> nextReadySlot (sc_slots u) = of_nat INVALID_SLOT")
  case True
  then have "sched_dispatch u = u" by (auto simp: sched_dispatch_def Let_def)
  then show ?thesis using assms by simp
next
  case False
  let ?k = "nextReadySlot (sc_slots u)"
  have len: "length (sc_slots u) = 8" using assms by (simp add: unit_inv_def)
  have k: "unat ?k < 8" "sl_state (sc_slots u ! unat ?k) = READY"
    using nextReadySlot_cases [OF len] False by auto
  obtain d slots where d: "buildDispatch ?k (sc_slots u) = (d, slots)" by (cases "buildDispatch ?k (sc_slots u)")
  have "wd_slot_id d = ?k" using d by (auto simp: buildDispatch_def Let_def)
  moreover have "length slots = 8" "count_state st slots = count_state st (sc_slots u)"
    "sl_state (slots ! unat ?k) = READY" for st
    using buildDispatch_length [of ?k "sc_slots u"] buildDispatch_counts [of ?k "sc_slots u" st]
      buildDispatch_state [of "unat ?k" "sc_slots u" ?k] len k d by simp_all
  moreover have "sched_dispatch u = u\<lparr> sc_slots := slots, sc_dispatch_out := sc_dispatch_out u @ [d], sc_busy_cu := True \<rparr>"
    using False d by (simp add: sched_dispatch_def Let_def)
  ultimately show ?thesis
    using assms False k(1) by (simp add: unit_inv_def in_flight_def releases_def unit_defs)
qed

lemma unit_status:
  assumes "unit_inv W False u"
  shows "unit_inv W False (sched_status u) \<and> seen_done False (sched_status u) = seen_done False u \<and>
    seen_stalled False (sched_status u) = seen_stalled False u \<and>
    sc_busy_cu_scheduler (sched_status u) = sc_busy_cu_scheduler u"
proof (cases "sc_status_in u")
  case Nil
  then show ?thesis using assms by (simp add: sched_status_def)
next
  case (Cons st sts)
  let ?k = "ws_slot_id st" and ?n = "\<lambda>x. count_state x (sc_slots u)"
  have len: "length (sc_slots u) = 8" using assms by (simp add: unit_inv_def)
  have "sc_busy_cu u" using assms Cons by (auto simp: unit_inv_def in_flight_def split: if_splits)
  then have k: "unat ?k < 8" "sl_state (sc_slots u ! unat ?k) = READY" "sts = []" "sc_dispatch_out u = []"
    using assms Cons by (auto simp: unit_inv_def in_flight_def Cons_eq_append_conv append_eq_Cons_conv)
  note cnt = recordResult_counts [of ?k "sc_slots u" _ st, unfolded len, OF k(1,2)]
  have pos: "0 < ?n READY" using k len count_state_zero [of READY "sc_slots u"] by (metis gr0I)
  with assms have "\<not> (0 < releases u \<and> 0 < W)" "0 < W" "sc_busy_cu_scheduler u"
    by (auto simp: unit_inv_def unit_defs)
  then have rel: "releases u = 0" by simp
  show ?thesis
    using assms Cons k len rel pos \<open>sc_busy_cu_scheduler u\<close> cnt [of READY] cnt [of STALLED] cnt [of DONE]
    by (cases "ws_code st")
      (auto simp: sched_status_def unit_inv_def in_flight_def releases_def unit_defs)
qed

lemma unit_signal:
  assumes "unit_inv W False u"
  shows "unit_inv W False (sched_signal u) \<and> seen_done False (sched_signal u) = seen_done False u \<and>
    seen_stalled False (sched_signal u) = seen_stalled False u \<and>
    (sc_busy_cu_scheduler u \<longrightarrow> sc_busy_cu_scheduler (sched_signal u) \<or> n_done False u = W)"
proof (cases "sc_barrier_signal_in u")
  case Nil
  then show ?thesis using assms by (simp add: sched_signal_def)
next
  case (Cons sig sigs)
  have len: "length (sc_slots u) = 8" using assms by (simp add: unit_inv_def)
  have ready: "sl_state (releaseBarrierSlots (sc_slots u) ! k) = READY"
    if "k < 8" "sl_state (sc_slots u ! k) = READY" for k
    using that len by (simp add: release_map)
  show ?thesis
  proof (cases "sg_release sig")
    case False
    then show ?thesis using assms Cons
      by (auto simp: sched_signal_def unit_inv_def in_flight_def releases_def unit_defs)
  next
    case True
    then have rel: "releases u = Suc (releases (sched_signal u))"
      using Cons by (simp add: releases_def sched_signal_def)
    show ?thesis
    proof (cases "W = 0")
      case True
      with assms have "count_state READY (sc_slots u) = 0" "count_state STALLED (sc_slots u) = 0"
        "count_state DONE (sc_slots u) = 0"
        by (auto simp: unit_inv_def unit_defs)
      then show ?thesis using assms Cons True \<open>sg_release sig\<close> ready
        by (auto simp: sched_signal_def unit_inv_def in_flight_def releases_def unit_defs release_counts [OF len])
    next
      case False
      with assms rel have u: "releases (sched_signal u) = 0" "n_stalled False u = W" "sc_barrier_events_out u = []"
        by (auto simp: unit_inv_def)
      with False assms have "\<not> (\<exists>sig \<in> set (sc_barrier_signal_in u). sg_kernel_done sig)"
        by (auto simp: unit_inv_def unit_defs)
      then show ?thesis using assms Cons True u rel ready False
        by (auto simp: sched_signal_def unit_inv_def in_flight_def releases_def unit_defs release_counts [OF len])
    qed
  qed
qed

lemma unit_idle:
  assumes "unit_inv W p u" "\<not> sc_busy_cu_scheduler u" "W = cu_warps (unat T) (unat cu)"
  shows "unit_inv W (p \<and> sc_loaded_in (sched_idle cu T off start u) = sc_loaded_in u) (sched_idle cu T off start u) \<and>
    (seen_done (p \<and> sc_loaded_in (sched_idle cu T off start u) = sc_loaded_in u) (sched_idle cu T off start u)
      = seen_done p u) \<and>
    (seen_stalled (p \<and> sc_loaded_in (sched_idle cu T off start u) = sc_loaded_in u) (sched_idle cu T off start u)
      = seen_stalled p u)"
proof (cases "sched_idle cu T off start u = u")
  case True
  then show ?thesis using assms by simp
next
  case False
  then obtain tok toks where l: "sc_loaded_in u = tok # toks"
    and s: "sched_idle cu T off start u = u\<lparr> sc_loaded_in := toks, sc_slots := launchSlots cu T off (sc_slots u),
            sc_busy_cu := False, sc_busy_cu_scheduler := True \<rparr>"
    by (auto simp: sched_idle_unfold split: list.splits if_splits)
  have len: "length (sc_slots u) = 8" using assms by (simp add: unit_inv_def)
  have p: p "toks = []" using assms(1) l by (auto simp: unit_inv_def)
  show ?thesis using assms p l
    by (auto simp: s unit_inv_def in_flight_def releases_def unit_defs launch_counts [OF len])
qed

section \<open>The invariant of the device\<close>

definition pending :: "device \<Rightarrow> nat \<Rightarrow> bool" where
  "pending S c \<longleftrightarrow> dv_unloaded S c \<or> sc_loaded_in (dv_cu S c) \<noteq> []"

definition counted_done :: "barrier_core \<Rightarrow> int" where
  "counted_done b = (if bc_busy b \<or> bc_done b then int (unat (ba_done_count (bc_barrier b))) else 0)"
definition counted_stalled :: "barrier_core \<Rightarrow> int" where
  "counted_stalled b = (if bc_busy b \<or> bc_done b then int (unat (ba_stalled_count (bc_barrier b))) else 0)"

definition device_inv :: "warp_id_t \<Rightarrow> device \<Rightarrow> bool" where
  "device_inv T S \<longleftrightarrow>
     (\<forall>c<8. unit_inv (cu_warps (unat T) c) (pending S c) (dv_cu S c) \<and>
            (dv_unloaded S c \<longrightarrow> sc_loaded_in (dv_cu S c) = [])) \<and>
     (\<Sum>c<8. seen_done (pending S c) (dv_cu S c)) = counted_done (dv_barrier S) \<and>
     (\<Sum>c<8. seen_stalled (pending S c) (dv_cu S c)) = counted_stalled (dv_barrier S) \<and>
     (bc_busy (dv_barrier S) \<longrightarrow> ba_total_warps (bc_barrier (dv_barrier S)) = T \<and> \<not> bc_done (dv_barrier S)) \<and>
     (bc_done (dv_barrier S) \<longrightarrow> (\<forall>c<8. n_done (pending S c) (dv_cu S c) = cu_warps (unat T) c))"

text \<open>A step of one process of unit \<open>c\<close> keeps the invariant when it keeps the unit's.\<close>

lemma device_inv_unit:
  assumes inv: "device_inv T S" and c: "c < 8"
    and S': "dv_cu S' = (dv_cu S)(c := u)" "dv_barrier S' = dv_barrier S"
      "\<And>i. i \<noteq> c \<Longrightarrow> dv_unloaded S' i = dv_unloaded S i"
    and u: "unit_inv (cu_warps (unat T) c) (pending S' c) u" "dv_unloaded S' c \<longrightarrow> sc_loaded_in u = []"
      "seen_done (pending S' c) u = seen_done (pending S c) (dv_cu S c)"
      "seen_stalled (pending S' c) u = seen_stalled (pending S c) (dv_cu S c)"
      "count_code COMPLETE (sc_barrier_events_out (dv_cu S c)) \<le> count_code COMPLETE (sc_barrier_events_out u)"
  shows "device_inv T S'"
proof -
  have p: "pending S' i = pending S i" if "i \<noteq> c" for i
    using that S' by (simp add: pending_def)
  have "(\<Sum>i<8. seen_done (pending S' i) (dv_cu S' i)) = (\<Sum>i<8. seen_done (pending S i) (dv_cu S i))"
    "(\<Sum>i<8. seen_stalled (pending S' i) (dv_cu S' i)) = (\<Sum>i<8. seen_stalled (pending S i) (dv_cu S i))"
    by (rule sum.cong; simp add: S'(1) p u)+
  moreover have "unit_inv (cu_warps (unat T) i) (pending S' i) (dv_cu S' i) \<and>
      (dv_unloaded S' i \<longrightarrow> sc_loaded_in (dv_cu S' i) = [])" if "i < 8" for i
    using inv that u(1,2) S' p by (cases "i = c") (auto simp: device_inv_def)
  moreover have "n_done (pending S' c) u = cu_warps (unat T) c" if "n_done (pending S c) (dv_cu S c) = cu_warps (unat T) c"
  proof -
    have "n_done (pending S c) (dv_cu S c) \<le> n_done (pending S' c) u"
      using u(3,5) by (simp add: seen_done_def)
    with that u(1) show ?thesis by (simp add: unit_inv_def)
  qed
  then have "n_done (pending S' i) (dv_cu S' i) = cu_warps (unat T) i"
    if "i < 8" "bc_done (dv_barrier S)" for i
    using inv that S'(1) p by (cases "i = c") (auto simp: device_inv_def)
  ultimately show ?thesis using inv S'(2) by (simp add: device_inv_def)
qed

lemma sched_events:
  "count_code k (sc_barrier_events_out u) \<le> count_code k (sc_barrier_events_out (sched_dispatch u))"
  "count_code k (sc_barrier_events_out u) \<le> count_code k (sc_barrier_events_out (sched_status u))"
  "count_code k (sc_barrier_events_out u) \<le> count_code k (sc_barrier_events_out (sched_signal u))"
  "count_code k (sc_barrier_events_out u) \<le> count_code k (sc_barrier_events_out (sched_idle cu T off start u))"
  by (auto simp: sched_dispatch_def sched_status_def sched_signal_def sched_idle_unfold Let_def
      split: list.splits prod.splits)

lemma device_inv_sched:
  assumes "device_inv T S" "c < 8" "unat T \<le> 64"
  shows "device_inv T (S\<lparr> dv_cu := (dv_cu S)(c := schedulerCore_step (of_nat c) T off (dv_start S) (dv_cu S c)) \<rparr>)"
    (is "device_inv T ?S")
proof -
  let ?u = "dv_cu S c" and ?W = "cu_warps (unat T) c" and ?p = "pending S c"
  have u: "unit_inv ?W ?p ?u" "dv_unloaded S c \<longrightarrow> sc_loaded_in ?u = []"
    using assms(1,2) by (auto simp: device_inv_def)
  have cu: "unat (of_nat c :: cu_id_t) = c" using assms(2) by (simp add: unat_of_nat)
  show ?thesis
  proof (cases "sc_busy_cu_scheduler ?u")
    case False
    let ?v = "sched_idle (of_nat c) T off (dv_start S) ?u"
    have step: "schedulerCore_step (of_nat c) T off (dv_start S) ?u = ?v"
      using False by (simp add: schedulerCore_step_unfold)
    have p: "pending ?S c = (?p \<and> sc_loaded_in ?v = sc_loaded_in ?u)"
      using u by (auto simp: step pending_def sched_idle_unfold unit_inv_def split: list.splits)
    note idle = unit_idle [OF u(1) False, of T "of_nat c" off "dv_start S", unfolded cu, OF refl]
    show ?thesis
    proof (rule device_inv_unit [OF assms(1,2), where u = ?v])
      show "dv_cu ?S = (dv_cu S)(c := ?v)" by (simp add: step)
      show "dv_unloaded ?S c \<longrightarrow> sc_loaded_in ?v = []"
        using u(2) by (auto simp: sched_idle_unfold split: list.splits)
    qed (use idle p sched_events(4) in simp_all)
  next
    case True
    then have np: "\<not> ?p" using u by (auto simp: unit_inv_def)
    let ?v = "sched_signal (sched_status (sched_dispatch ?u))"
    have step: "schedulerCore_step (of_nat c) T off (dv_start S) ?u = ?v"
      using True by (simp add: schedulerCore_step_unfold)
    have l: "sc_loaded_in ?v = sc_loaded_in ?u"
      by (auto simp: sched_signal_def sched_status_def sched_dispatch_def Let_def split: list.splits prod.splits)
    have p: "pending ?S c = False" using np by (simp add: pending_def step l)
    have 1: "unit_inv ?W False ?u" using u np by simp
    note 2 = unit_dispatch [OF 1]
    note 3 = unit_status [OF conjunct1 [OF 2]]
    note 4 = unit_signal [OF conjunct1 [OF 3]]
    show ?thesis
    proof (rule device_inv_unit [OF assms(1,2), where u = ?v])
      show "dv_cu ?S = (dv_cu S)(c := ?v)" by (simp add: step)
      show "dv_unloaded ?S c \<longrightarrow> sc_loaded_in ?v = []" using u(2) l by simp
      show "count_code COMPLETE (sc_barrier_events_out ?u) \<le> count_code COMPLETE (sc_barrier_events_out ?v)"
        by (rule order_trans [OF sched_events(1) order_trans [OF sched_events(2) sched_events(3)]])
    qed (use 2 3 4 np p in simp_all)
  qed
qed

lemma device_inv_pipe:
  assumes "device_inv T S" "c < 8" "sc_dispatch_out (dv_cu S c) = d # ds" "ws_slot_id st = wd_slot_id d"
  shows "device_inv T (S\<lparr> dv_cu := (dv_cu S)(c := (dv_cu S c)
      \<lparr> sc_dispatch_out := ds, sc_status_in := sc_status_in (dv_cu S c) @ [st] \<rparr>) \<rparr>)"
    (is "device_inv T ?S")
proof (rule device_inv_unit [OF assms(1,2)])
  let ?u = "(dv_cu S c)\<lparr> sc_dispatch_out := ds, sc_status_in := sc_status_in (dv_cu S c) @ [st] \<rparr>"
  show "dv_cu ?S = (dv_cu S)(c := ?u)" by simp
  have u: "unit_inv (cu_warps (unat T) c) (pending S c) (dv_cu S c)"
    using assms(1,2) by (simp add: device_inv_def)
  have "in_flight ?u = in_flight (dv_cu S c)" if "\<exists>k. in_flight (dv_cu S c) = [k]"
    using that assms(3,4) by (auto simp: in_flight_def)
  moreover have "sc_busy_cu (dv_cu S c)"
    using u assms(3) by (auto simp: unit_inv_def in_flight_def split: if_splits)
  moreover have p: "pending ?S c = pending S c" by (simp add: pending_def)
  ultimately show "unit_inv (cu_warps (unat T) c) (pending ?S c) ?u"
    using u by (auto simp: unit_inv_def unit_defs releases_def)
  show "seen_done (pending ?S c) ?u = seen_done (pending S c) (dv_cu S c)"
    "seen_stalled (pending ?S c) ?u = seen_stalled (pending S c) (dv_cu S c)"
    by (simp_all add: p unit_defs releases_def)
qed (use assms in \<open>auto simp: device_inv_def\<close>)

lemma device_inv_load:
  assumes "device_inv T S" "c < 8" "dv_unloaded S c"
  shows "device_inv T (S\<lparr> dv_unloaded := (dv_unloaded S)(c := False),
      dv_cu := (dv_cu S)(c := (dv_cu S c)\<lparr> sc_loaded_in := sc_loaded_in (dv_cu S c) @ [True] \<rparr>) \<rparr>)"
    (is "device_inv T ?S")
proof (rule device_inv_unit [OF assms(1,2)])
  let ?u = "(dv_cu S c)\<lparr> sc_loaded_in := sc_loaded_in (dv_cu S c) @ [True] \<rparr>"
  show "dv_cu ?S = (dv_cu S)(c := ?u)" by simp
  have u: "unit_inv (cu_warps (unat T) c) True (dv_cu S c)" "sc_loaded_in (dv_cu S c) = []"
    using assms by (auto simp: device_inv_def pending_def)
  have p: "pending ?S c" "pending S c" using assms(3) by (simp_all add: pending_def)
  then show "unit_inv (cu_warps (unat T) c) (pending ?S c) ?u"
    using u by (auto simp: unit_inv_def unit_defs releases_def in_flight_def)
  show "seen_done (pending ?S c) ?u = seen_done (pending S c) (dv_cu S c)"
    "seen_stalled (pending ?S c) ?u = seen_stalled (pending S c) (dv_cu S c)"
    using p by (simp_all add: unit_defs releases_def)
qed (use assms in \<open>auto simp: device_inv_def\<close>)

subsection \<open>The barrier core's pass\<close>

definition with_events :: "sched_cu \<Rightarrow> WarpStatusCode list \<Rightarrow> sched_cu" where
  "with_events u e = u\<lparr> sc_barrier_events_out := e \<rparr>"

definition with_signal :: "sched_cu \<Rightarrow> barrier_signal_t list \<Rightarrow> sched_cu" where
  "with_signal u sigs = u\<lparr> sc_barrier_signal_in := sc_barrier_signal_in u @ sigs \<rparr>"

lemma we:
  "releases (with_events u e) = releases u" "n_done p (with_events u e) = n_done p u"
  "n_stalled p (with_events u e) = n_stalled p u" "sc_barrier_events_out (with_events u e) = e"
  "sc_slots (with_events u e) = sc_slots u"
  by (simp_all add: with_events_def releases_def unit_defs)

lemma unit_inv_events:
  "unit_inv W p u \<Longrightarrow> (sc_barrier_events_out u = [] \<Longrightarrow> e = []) \<Longrightarrow> unit_inv W p (with_events u e)"
  by (auto simp: unit_inv_def with_events_def in_flight_def releases_def unit_defs)

lemma unit_inv_release:
  assumes "unit_inv W p u" "n_stalled p u = W" "sc_barrier_events_out u = []" "0 < W \<Longrightarrow> releases u = 0"
  shows "unit_inv W p (with_signal u [release_signal]) \<and>
    seen_stalled p (with_signal u [release_signal]) = 0 \<and>
    seen_done p (with_signal u [release_signal]) = seen_done p u"
  using assms by (auto simp: unit_inv_def with_signal_def in_flight_def releases_def unit_defs release_signal_def)

lemma unit_inv_done:
  assumes "unit_inv W p u" "n_done p u = W"
  shows "unit_inv W p (with_signal u [done_signal]) \<and>
    seen_stalled p (with_signal u [done_signal]) = seen_stalled p u \<and>
    seen_done p (with_signal u [done_signal]) = seen_done p u"
  using assms by (auto simp: unit_inv_def with_signal_def in_flight_def releases_def unit_defs done_signal_def)

lemma poll_events_nil: "snd s c = [] \<Longrightarrow> snd (poll_events n s) c = []"
proof (induction n)
  case 0
  then show ?case by (simp add: poll_events_def)
next
  case (Suc n)
  then show ?case by (auto simp: poll_events_Suc poll_event_def split: prod.splits list.splits)
qed

lemma seen_bounds:
  assumes "unit_inv W p u"
  shows "n_done p u \<le> W" "n_stalled p u \<le> W" "seen_stalled p u \<le> int W"
  using assms by (auto simp: unit_inv_def seen_stalled_def)

text \<open>After polling, the counters are the stalls and completions that have left the streams.\<close>

lemma poll_counts:
  assumes inv: "device_inv T S" and T: "unat T \<le> 64" and busy: "bc_busy (dv_barrier S)"
    and poll: "poll_events 8 (bc_barrier (dv_barrier S), \<lambda>c. sc_barrier_events_out (dv_cu S c)) = (b, ev)"
  shows "int (unat (ba_done_count b)) = (\<Sum>c<8. seen_done (pending S c) (with_events (dv_cu S c) (ev c)))"
    "int (unat (ba_stalled_count b)) = (\<Sum>c<8. seen_stalled (pending S c) (with_events (dv_cu S c) (ev c)))"
    "ba_total_warps b = T"
    "\<And>c. c < 8 \<Longrightarrow> unit_inv (cu_warps (unat T) c) (pending S c) (with_events (dv_cu S c) (ev c))"
proof -
  let ?b = "bc_barrier (dv_barrier S)" and ?ev = "\<lambda>c. sc_barrier_events_out (dv_cu S c)"
  let ?D = "\<lambda>c. n_done (pending S c) (dv_cu S c)"
  let ?R = "\<lambda>c. if 0 < releases (dv_cu S c) then 0 else n_stalled (pending S c) (dv_cu S c)"
  have u: "unit_inv (cu_warps (unat T) c) (pending S c) (dv_cu S c)" if "c < 8" for c
    using inv that by (simp add: device_inv_def)
  have W: "(\<Sum>c<8. cu_warps (unat T) c) = unat T" using sum_cu_warps [of "unat T"] T by simp
  have "(\<Sum>c<8. ?D c) \<le> (\<Sum>c<8. cu_warps (unat T) c)" "(\<Sum>c<8. ?R c) \<le> (\<Sum>c<8. cu_warps (unat T) c)"
    using seen_bounds [OF u] by (auto intro!: sum_mono)
  then have small: "(\<Sum>c<8. ?D c) < 2 ^ 32" "(\<Sum>c<8. ?R c) < 2 ^ 32" using T unfolding W by simp_all
  have D: "unat (ba_done_count ?b) + (\<Sum>c<8. count_code COMPLETE (?ev c)) = (\<Sum>c<8. ?D c)"
  proof -
    have "(\<Sum>c<8. int (?D c) - int (count_code COMPLETE (?ev c))) = int (unat (ba_done_count ?b))"
      using inv busy by (simp add: device_inv_def seen_done_def counted_done_def)
    then show ?thesis unfolding sum_subtractf of_nat_sum [symmetric] by linarith
  qed
  have St: "unat (ba_stalled_count ?b) + (\<Sum>c<8. count_code STALLED_AT_BARRIER (?ev c)) = (\<Sum>c<8. ?R c)"
  proof -
    have "(\<Sum>c<8. int (?R c) - int (count_code STALLED_AT_BARRIER (?ev c))) = int (unat (ba_stalled_count ?b))"
      using inv busy by (simp add: device_inv_def seen_stalled_def counted_stalled_def if_distrib cong: if_cong)
    then show ?thesis unfolding sum_subtractf of_nat_sum [symmetric] by linarith
  qed
  note cnt = poll_events_count [OF order_refl _ _ poll, unfolded D St, OF small]
  show "int (unat (ba_done_count b)) = (\<Sum>c<8. seen_done (pending S c) (with_events (dv_cu S c) (ev c)))"
    using cnt by (simp only: seen_done_def we sum_subtractf of_nat_sum [symmetric]) linarith
  have "(\<Sum>c<8. seen_stalled (pending S c) (with_events (dv_cu S c) (ev c)))
      = (\<Sum>c<8. int (?R c) - int (count_code STALLED_AT_BARRIER (ev c)))"
    by (rule sum.cong) (simp_all add: seen_stalled_def we)
  then show "int (unat (ba_stalled_count b)) = (\<Sum>c<8. seen_stalled (pending S c) (with_events (dv_cu S c) (ev c)))"
    using cnt by (simp only: sum_subtractf of_nat_sum [symmetric]) linarith
  show "ba_total_warps b = T"
    using poll_events_total [of 8 "(?b, ?ev)"] poll inv busy by (simp add: device_inv_def)
  show "unit_inv (cu_warps (unat T) c) (pending S c) (with_events (dv_cu S c) (ev c))" if "c < 8" for c
    using u [OF that] poll_events_nil [of "(?b, ?ev)" c 8] poll by (auto intro!: unit_inv_events)
qed

lemma sum_tight:
  fixes f g :: "nat \<Rightarrow> int"
  assumes "(\<Sum>c<n. f c) = (\<Sum>c<n. g c)" "\<And>c. c < n \<Longrightarrow> f c \<le> g c" "c < n"
  shows "f c = g c"
  using sum_mono_inv [OF assms(1), of c] assms(2,3) by simp

text \<open>The barrier core releases only when every warp of the launch is stalled and no event is left.\<close>

lemma release_means_all_stalled:
  assumes inv: "device_inv T S" and T: "unat T \<le> 64" and busy: "bc_busy (dv_barrier S)"
    and poll: "poll_events 8 (bc_barrier (dv_barrier S), \<lambda>c. sc_barrier_events_out (dv_cu S c)) = (b, ev)"
    and ready: "barrierReleaseReady b" and c: "c < 8"
  shows "n_stalled (pending S c) (dv_cu S c) = cu_warps (unat T) c \<and> ev c = [] \<and>
    (0 < cu_warps (unat T) c \<longrightarrow> releases (dv_cu S c) = 0)"
proof -
  let ?v = "\<lambda>c. with_events (dv_cu S c) (ev c)" and ?p = "pending S" and ?W = "cu_warps (unat T)"
  note poll_counts [OF inv T busy poll]
  note cnt = this
  have W: "(\<Sum>c<8. int (?W c)) = int (unat T)"
    using sum_cu_warps [of "unat T"] T by (simp flip: of_nat_sum)
  have "(\<Sum>c<8. seen_stalled (?p c) (?v c)) = (\<Sum>c<8. int (?W c))"
    using cnt(2,3) ready W by (simp add: barrierReleaseReady_def)
  then have tight: "seen_stalled (?p c) (?v c) = int (?W c)" if "c < 8" for c
    by (rule sum_tight [OF _ _ that]) (use seen_bounds(3) [OF cnt(4)] in simp_all)
  have st: "n_stalled (?p c) (dv_cu S c) = ?W c \<and> count_code STALLED_AT_BARRIER (ev c) = 0 \<and>
      (0 < ?W c \<longrightarrow> releases (dv_cu S c) = 0)" if "c < 8" for c
    using tight [OF that] seen_bounds(2) [OF cnt(4) [OF that]]
    by (simp add: seen_stalled_def we split: if_splits)
  have "n_done (?p c) (dv_cu S c) = 0" if "c < 8" for c
    using st [OF that] cnt(4) [OF that] by (simp add: unit_inv_def we)
  then have "(\<Sum>c<8. seen_done (?p c) (?v c)) = - (\<Sum>c<8. int (count_code COMPLETE (ev c)))"
    by (simp add: seen_done_def we sum_negf)
  then have "(\<Sum>c<8. int (count_code COMPLETE (ev c))) = 0"
    using cnt(1) sum_nonneg [of "{..<8}" "\<lambda>c. int (count_code COMPLETE (ev c))"] by linarith
  then have "count_code COMPLETE (ev c) = 0" using c by (simp add: sum_nonneg_eq_0_iff)
  moreover have "ev c = []" if "count_code COMPLETE (ev c) = 0" "count_code STALLED_AT_BARRIER (ev c) = 0"
    using that by (cases "ev c"; cases "hd (ev c)") auto
  ultimately show ?thesis using st [OF c] by simp
qed

lemma complete_means_all_done:
  assumes inv: "device_inv T S" and T: "unat T \<le> 64" and busy: "bc_busy (dv_barrier S)"
    and poll: "poll_events 8 (bc_barrier (dv_barrier S), \<lambda>c. sc_barrier_events_out (dv_cu S c)) = (b, ev)"
    and ready: "barrierKernelComplete b" and c: "c < 8"
  shows "n_done (pending S c) (dv_cu S c) = cu_warps (unat T) c"
proof -
  let ?v = "\<lambda>c. with_events (dv_cu S c) (ev c)" and ?p = "pending S" and ?W = "cu_warps (unat T)"
  note cnt = poll_counts [OF inv T busy poll]
  have W: "(\<Sum>c<8. int (?W c)) = int (unat T)"
    using sum_cu_warps [of "unat T"] T by (simp flip: of_nat_sum)
  have le: "seen_done (?p c) (?v c) \<le> int (?W c)" if "c < 8" for c
    using seen_bounds(1) [OF cnt(4) [OF that]] by (simp add: seen_done_def)
  have "(\<Sum>c<8. seen_done (?p c) (?v c)) = (\<Sum>c<8. int (?W c))"
    using cnt(1,3) ready W by (simp add: barrierKernelComplete_def)
  then have "seen_done (?p c) (?v c) = int (?W c)" using le c by (rule sum_tight)
  then show ?thesis
    using seen_bounds(1) [OF cnt(4) [OF c]] by (simp add: seen_done_def we)
qed

lemma device_inv_units:
  assumes "device_inv T S" "dv_unloaded S' = dv_unloaded S"
    "\<And>c. c < 8 \<Longrightarrow> sc_loaded_in (dv_cu S' c) = sc_loaded_in (dv_cu S c)"
    "\<And>c. c < 8 \<Longrightarrow> unit_inv (cu_warps (unat T) c) (pending S c) (dv_cu S' c)"
    "(\<Sum>c<8. seen_done (pending S c) (dv_cu S' c)) = counted_done (dv_barrier S')"
    "(\<Sum>c<8. seen_stalled (pending S c) (dv_cu S' c)) = counted_stalled (dv_barrier S')"
    "bc_busy (dv_barrier S') \<longrightarrow> ba_total_warps (bc_barrier (dv_barrier S')) = T \<and> \<not> bc_done (dv_barrier S')"
    "bc_done (dv_barrier S') \<longrightarrow> (\<forall>c<8. n_done (pending S c) (dv_cu S' c) = cu_warps (unat T) c)"
  shows "device_inv T S'"
proof -
  have p: "pending S' c = pending S c" if "c < 8" for c
    using assms(2,3) that by (simp add: pending_def)
  have "(\<Sum>c<8. seen_done (pending S' c) (dv_cu S' c)) = (\<Sum>c<8. seen_done (pending S c) (dv_cu S' c))"
    "(\<Sum>c<8. seen_stalled (pending S' c) (dv_cu S' c)) = (\<Sum>c<8. seen_stalled (pending S c) (dv_cu S' c))"
    by (rule sum.cong; simp add: p)+
  then show ?thesis using assms p by (simp add: device_inv_def)
qed

text \<open>A pass of the busy barrier core, by what it finds.\<close>

lemma barrier_pass_busy:
  assumes "bc_busy (dv_barrier S)"
    and "poll_events 8 (bc_barrier (dv_barrier S), \<lambda>c. sc_barrier_events_out (dv_cu S c)) = (b, ev)"
  shows "barrier_pass T S =
    (let rel = barrierReleaseReady b; b2 = (if rel then barrierAcknowledgeRelease b else b);
         fin = barrierKernelComplete b2
     in S\<lparr> dv_barrier := (if fin then (dv_barrier S)\<lparr> bc_barrier := b2, bc_busy := False, bc_done := True \<rparr>
                           else (dv_barrier S)\<lparr> bc_barrier := b2 \<rparr>),
           dv_cu := \<lambda>c. with_signal (with_events (dv_cu S c) (ev c))
             (if c < 8 then (if rel then [release_signal] else []) @ (if fin then [done_signal] else []) else []) \<rparr>)"
  using assms
  by (auto simp: barrier_pass_def barrierCore_def barrierCoreN_def barrierCore_n_def Let_def broadcast_def with_signal_def
      with_events_def fun_eq_iff split: prod.splits)

lemma with_signal_nil [simp]: "with_signal u [] = u"
  by (simp add: with_signal_def)

lemma with_signal_loaded [simp]:
  "sc_loaded_in (with_signal u sg) = sc_loaded_in u" "sc_loaded_in (with_events u e) = sc_loaded_in u"
  "n_done p (with_signal u sg) = n_done p u"
  by (simp_all add: with_signal_def with_events_def unit_defs)

lemma device_inv_barrier_busy:
  assumes inv: "device_inv T S" and T: "unat T \<le> 64" and busy: "bc_busy (dv_barrier S)"
  shows "device_inv T (barrier_pass T S)"
proof -
  obtain b ev where poll: "poll_events 8 (bc_barrier (dv_barrier S), \<lambda>c. sc_barrier_events_out (dv_cu S c)) = (b, ev)"
    by (cases "poll_events 8 (bc_barrier (dv_barrier S), \<lambda>c. sc_barrier_events_out (dv_cu S c))")
  note cnt = poll_counts [OF inv T busy poll]
  note pass = barrier_pass_busy [OF busy poll, of T]
  have nd: "\<not> bc_done (dv_barrier S)" using inv busy by (simp add: device_inv_def)
  let ?v = "\<lambda>c. with_events (dv_cu S c) (ev c)"
  consider (rel) "barrierReleaseReady b" | (fin) "\<not> barrierReleaseReady b" "barrierKernelComplete b"
    | (none) "\<not> barrierReleaseReady b" "\<not> barrierKernelComplete b" by blast
  then show ?thesis
  proof cases
    case none
    show ?thesis
      by (rule device_inv_units [OF inv])
        (use none cnt busy nd in \<open>simp_all add: pass Let_def counted_done_def counted_stalled_def\<close>)
  next
    case fin
    note all = complete_means_all_done [OF inv T busy poll fin(2)]
    have u: "unit_inv (cu_warps (unat T) c) (pending S c) (with_signal (?v c) [done_signal]) \<and>
      seen_stalled (pending S c) (with_signal (?v c) [done_signal]) = seen_stalled (pending S c) (?v c) \<and>
      seen_done (pending S c) (with_signal (?v c) [done_signal]) = seen_done (pending S c) (?v c)" if "c < 8" for c
      by (rule unit_inv_done [OF cnt(4) [OF that]]) (simp add: we all [OF that])
    then show ?thesis
      by (intro device_inv_units [OF inv])
        (use fin cnt busy nd all in \<open>simp_all add: pass Let_def counted_done_def counted_stalled_def we\<close>)
  next
    case rel
    note all = release_means_all_stalled [OF inv T busy poll rel]
    have u: "unit_inv (cu_warps (unat T) c) (pending S c) (with_signal (?v c) [release_signal]) \<and>
      seen_stalled (pending S c) (with_signal (?v c) [release_signal]) = 0 \<and>
      seen_done (pending S c) (with_signal (?v c) [release_signal]) = seen_done (pending S c) (?v c)" if "c < 8" for c
      by (rule unit_inv_release [OF cnt(4) [OF that]]) (use all [OF that] in \<open>simp_all add: we\<close>)
    have "n_done (pending S c) (dv_cu S c) = 0" if "c < 8" for c
      using all [OF that] cnt(4) [OF that] by (simp add: unit_inv_def we)
    then have "(\<Sum>c<8. seen_done (pending S c) (?v c)) = 0"
      using all by (simp add: seen_done_def we)
    then have nf: "\<not> barrierKernelComplete (barrierAcknowledgeRelease b)"
      using cnt(1) rel by (auto simp: uint_0_iff barrierKernelComplete_def barrierAcknowledgeRelease_def barrierReleaseReady_def)
    show ?thesis
      by (rule device_inv_units [OF inv])
        (use u rel nf cnt busy nd in \<open>simp_all add: pass Let_def counted_done_def counted_stalled_def
           barrierAcknowledgeRelease_def\<close>)
  qed
qed

lemma device_inv_barrier_idle:
  assumes inv: "device_inv T S" and T: "unat T \<le> 64" and idle: "\<not> bc_busy (dv_barrier S)"
    and fresh: "\<not> dv_start S \<or> \<not> bc_done (dv_barrier S)"
  shows "device_inv T (barrier_pass T S)"
proof (cases "dv_start S")
  case False
  then have "barrier_pass T S = S"
    using idle by (simp add: barrier_pass_def barrierCore_def barrierCoreN_def barrierCore_n_def)
  with inv show ?thesis by simp
next
  case True
  have "\<not> T > of_nat (NUM_CUS * MAX_WARPS_PER_CU)" using T by (simp add: word_less_nat_alt)
  then have "barrier_pass T S = S\<lparr> dv_barrier := (dv_barrier S)\<lparr> bc_barrier := barrierLaunch T (bc_barrier (dv_barrier S)),
      bc_busy := True \<rparr> \<rparr>"
    using True idle
    by (simp add: barrier_pass_def barrierCore_def barrierCoreN_def barrierCore_n_def Let_def barrierLaunch_def barrierLaunch_n_def barrierLaunchFault_def)
  moreover have "\<not> bc_done (dv_barrier S)" using fresh True by simp
  ultimately show ?thesis using inv idle
    by (simp add: device_inv_def pending_def counted_done_def counted_stalled_def barrierLaunch_def barrierLaunch_n_def)
qed

lemma device_inv_init: "device_inv T device_init"
  by (simp add: device_inv_def device_init_def pending_def unit_inv_def sched_default_def barrier_core_default_def
      counted_done_def counted_stalled_def unit_defs in_flight_def releases_def)

lemma device_inv_reachable:
  assumes "reachable T off S" "unat T \<le> 64"
  shows "device_inv T S"
  using assms(1)
proof (induction rule: rtranclp_induct)
  case base
  show ?case by (rule device_inv_init)
next
  case (step S S')
  from step.hyps(2) show ?case
  proof cases
    case (Sched c)
    then show ?thesis using device_inv_sched [OF step.IH _ assms(2), of c off] by simp
  next
    case (Pipe c d ds st)
    then show ?thesis using device_inv_pipe [OF step.IH] by simp
  next
    case (Load c)
    then show ?thesis using device_inv_load [OF step.IH] by simp
  next
    case Barrier
    then show ?thesis
      using device_inv_barrier_busy [OF step.IH assms(2)] device_inv_barrier_idle [OF step.IH assms(2)]
      by (cases "bc_busy (dv_barrier S)") auto
  next
    case Host
    then show ?thesis using step.IH by (simp add: device_inv_def pending_def)
  qed
qed

section \<open>Properties\<close>

text \<open>C10: in every interleaving of the device's processes, a pass of the barrier core broadcasts a release only
  in a state where every slot that holds a warp of the launch is stalled, on every unit.\<close>

theorem release_only_when_all_stalled:
  assumes "reachable T off S" "unat T \<le> NUM_CUS * MAX_WARPS_PER_CU" "bc_busy (dv_barrier S)"
    and "release_signal \<in> set (drop (length (sc_barrier_signal_in (dv_cu S i)))
           (sc_barrier_signal_in (dv_cu (barrier_pass T S) i)))"
    and "c < NUM_CUS"
  shows "count_state STALLED (sc_slots (dv_cu S c)) = cu_warps (unat T) c \<or> cu_warps (unat T) c = 0"
proof -
  have T: "unat T \<le> 64" using assms(2) by simp
  have inv: "device_inv T S" by (rule device_inv_reachable [OF assms(1) T])
  obtain b ev where poll: "poll_events 8 (bc_barrier (dv_barrier S), \<lambda>c. sc_barrier_events_out (dv_cu S c)) = (b, ev)"
    by (cases "poll_events 8 (bc_barrier (dv_barrier S), \<lambda>c. sc_barrier_events_out (dv_cu S c))")
  have "barrierReleaseReady b"
    using assms(4) by (auto simp: barrier_pass_busy [OF assms(3) poll] Let_def with_signal_def with_events_def
        release_signal_def done_signal_def split: if_splits)
  with release_means_all_stalled [OF inv T assms(3) poll] assms(5)
  have "n_stalled (pending S c) (dv_cu S c) = cu_warps (unat T) c" by simp
  then show ?thesis by (auto simp: n_stalled_def split: if_splits)
qed

text \<open>C18: in every interleaving, when the device reports done every warp of the launch has completed: each unit
  that holds warps has all of them in the done state and none ready or stalled.\<close>

theorem done_only_when_all_done:
  assumes "reachable T off S" "unat T \<le> NUM_CUS * MAX_WARPS_PER_CU" "bc_done (dv_barrier S)"
    and "c < NUM_CUS" "cu_warps (unat T) c \<noteq> 0"
  shows "count_state DONE (sc_slots (dv_cu S c)) = cu_warps (unat T) c \<and> allSlotsDone (sc_slots (dv_cu S c))"
proof -
  have "device_inv T S" using device_inv_reachable [OF assms(1)] assms(2) by simp
  then have u: "unit_inv (cu_warps (unat T) c) (pending S c) (dv_cu S c)"
    "n_done (pending S c) (dv_cu S c) = cu_warps (unat T) c"
    using assms(3,4) by (simp_all add: device_inv_def)
  then have "\<not> pending S c" using assms(5) by (auto simp: n_done_def)
  moreover have "length (sc_slots (dv_cu S c)) = 8" using u(1) by (simp add: unit_inv_def)
  ultimately show ?thesis using u by (simp add: unit_inv_def unit_defs allSlotsDone_counts)
qed

subsection \<open>Deadlock\<close>

text \<open>No process can change the state: every scheduler and the barrier core repeat their pass, no dispatch waits
  for a pipeline, and the loader has loaded every unit.\<close>

definition quiescent :: "warp_id_t \<Rightarrow> warp_id_t \<Rightarrow> device \<Rightarrow> bool" where
  "quiescent T off S \<longleftrightarrow> dv_barrier (barrier_pass T S) = dv_barrier S \<and>
     list_all (\<lambda>c. \<not> dv_unloaded S c \<and> sc_dispatch_out (dv_cu S c) = [] \<and>
        schedulerCore_step (of_nat c) T off (dv_start S) (dv_cu S c) = dv_cu S c \<and>
        dv_cu (barrier_pass T S) c = dv_cu S c) [0..<NUM_CUS]"

text \<open>The launch has reached the device: \<open>start\<close> is still high, or the barrier core and every unit have taken it
  (only a launch whose \<open>start\<close> falls before that leaves processes behind that never see it).\<close>

definition launch_seen :: "device \<Rightarrow> bool" where
  "launch_seen S \<longleftrightarrow> dv_start S \<or>
     bc_busy (dv_barrier S) \<and> list_all (\<lambda>c. \<not> pending S c) [0..<NUM_CUS]"

lemma tl_fixed: "tl xs = xs \<Longrightarrow> xs = []"
  by (cases xs) auto

lemma sched_fixed:
  assumes "sc_busy_cu_scheduler u" "schedulerCore_step cu T off start u = u"
  shows "sc_status_in u = []" "sc_barrier_signal_in u = []" "sched_dispatch u = u"
proof -
  have eq: "sched_signal (sched_status (sched_dispatch u)) = u"
    using assms by (simp add: schedulerCore_step_unfold)
  have "sc_status_in (sched_signal (sched_status (sched_dispatch u))) = tl (sc_status_in u)"
    by (auto simp: sched_dispatch_def sched_status_def sched_signal_def Let_def split: list.splits prod.splits)
  then have "tl (sc_status_in u) = sc_status_in u" unfolding eq by simp
  then show st: "sc_status_in u = []" by (rule tl_fixed)
  have "sc_barrier_signal_in (sched_signal (sched_status (sched_dispatch u))) = tl (sc_barrier_signal_in u)"
    by (auto simp: sched_dispatch_def sched_status_def sched_signal_def Let_def split: list.splits prod.splits)
  then have "tl (sc_barrier_signal_in u) = sc_barrier_signal_in u" unfolding eq by simp
  then show sg: "sc_barrier_signal_in u = []" by (rule tl_fixed)
  have "sc_status_in (sched_dispatch u) = []" "sc_barrier_signal_in (sched_dispatch u) = []"
    using st sg by (auto simp: sched_dispatch_def Let_def split: prod.splits)
  with eq show "sched_dispatch u = u" by (simp add: sched_status_def sched_signal_def)
qed

lemma sched_dispatch_fixed:
  assumes "sched_dispatch u = u" "length (sc_slots u) = 8"
  shows "sc_busy_cu u \<or> count_state READY (sc_slots u) = 0"
proof (rule disjCI)
  assume ready: "count_state READY (sc_slots u) \<noteq> 0"
  have "unat (nextReadySlot (sc_slots u)) < 8" using nextReadySlot_cases [OF assms(2)] ready by blast
  then have "nextReadySlot (sc_slots u) \<noteq> of_nat INVALID_SLOT" using invalid_slot_not_ready by auto
  then have "sc_busy_cu u \<or> sc_busy_cu (sched_dispatch u)"
    by (auto simp: sched_dispatch_def Let_def split: prod.splits)
  then show "sc_busy_cu u" using assms(1) by simp
qed

lemma poll_events_pop: "c < n \<Longrightarrow> snd (poll_events n s) c = tl (snd s c)"
proof (induction n)
  case (Suc n)
  have "snd (poll_event n r) c = (if c = n then tl (snd r c) else snd r c)" for r
    by (cases "snd r n") (auto simp: poll_event_def split_def)
  then show ?case
    using Suc poll_events_beyond [of n n s] by (auto simp: poll_events_Suc)
qed simp

lemma quiescent_unit:
  assumes inv: "device_inv T S" and T: "unat T \<le> 64" and q: "quiescent T off S" and seen: "launch_seen S" and c: "c < 8"
  shows "\<not> pending S c" "count_state READY (sc_slots (dv_cu S c)) = 0"
    "0 < releases (dv_cu S c) \<Longrightarrow> count_state STALLED (sc_slots (dv_cu S c)) = 0"
proof -
  have qc: "\<not> dv_unloaded S c" "sc_dispatch_out (dv_cu S c) = []"
    "schedulerCore_step (of_nat c) T off (dv_start S) (dv_cu S c) = dv_cu S c"
    using q c by (simp_all add: quiescent_def list_all_iff)
  have T_ok: "\<not> T > of_nat (NUM_CUS * MAX_WARPS_PER_CU)" using T by (simp add: word_less_nat_alt)
  have u: "unit_inv (cu_warps (unat T) c) (pending S c) (dv_cu S c)"
    using inv c by (simp add: device_inv_def)
  show np: "\<not> pending S c"
  proof
    assume p: "pending S c"
    then have l: "sc_loaded_in (dv_cu S c) \<noteq> []" "\<not> sc_busy_cu_scheduler (dv_cu S c)"
      using qc(1) u by (auto simp: pending_def unit_inv_def)
    have "dv_start S" using seen p c by (auto simp: launch_seen_def list_all_iff)
    then have "sc_busy_cu_scheduler (schedulerCore_step (of_nat c) T off (dv_start S) (dv_cu S c))"
      using T_ok l by (auto simp: schedulerCore_step_unfold sched_idle_unfold split: list.splits)
    with l(2) qc(3) show False by simp
  qed
  have "count_state READY (sc_slots (dv_cu S c)) = 0 \<and>
      (0 < releases (dv_cu S c) \<longrightarrow> count_state STALLED (sc_slots (dv_cu S c)) = 0)"
  proof (cases "sc_busy_cu_scheduler (dv_cu S c)")
    case True
    note f = sched_fixed [OF True qc(3)]
    have "\<not> sc_busy_cu (dv_cu S c)" using u f(1) qc(2) by (auto simp: unit_inv_def in_flight_def)
    then show ?thesis
      using sched_dispatch_fixed [OF f(3)] u f(2) by (auto simp: unit_inv_def releases_def)
  next
    case False
    then show ?thesis using u np by (simp add: unit_inv_def unit_defs)
  qed
  then show "count_state READY (sc_slots (dv_cu S c)) = 0"
    "0 < releases (dv_cu S c) \<Longrightarrow> count_state STALLED (sc_slots (dv_cu S c)) = 0" by simp_all
qed

lemma quiescent_busy:
  assumes "unat T \<le> 64" "quiescent T off S" "launch_seen S"
  shows "bc_busy (dv_barrier S)"
proof (rule ccontr)
  assume idle: "\<not> bc_busy (dv_barrier S)"
  have T_ok: "\<not> T > of_nat (NUM_CUS * MAX_WARPS_PER_CU)" using assms(1) by (simp add: word_less_nat_alt)
  have qb: "dv_start S" "dv_barrier (barrier_pass T S) = dv_barrier S"
    using assms(2,3) idle by (auto simp: quiescent_def launch_seen_def)
  from idle have "bc_busy (dv_barrier (barrier_pass T S))"
    using T_ok qb(1) by (simp add: barrier_pass_def barrierCore_def barrierCoreN_def barrierCore_n_def Let_def
        barrierLaunch_def barrierLaunch_n_def barrierLaunchFault_def)
  with qb(2) idle show False by simp
qed

text \<open>A barrier core that finds nothing to do has no event left and neither counter at the number of warps.\<close>

lemma quiescent_events:
  assumes T: "unat T \<le> 64" and q: "quiescent T off S" and seen: "launch_seen S"
    and poll: "poll_events 8 (bc_barrier (dv_barrier S), \<lambda>c. sc_barrier_events_out (dv_cu S c)) = (b, ev)"
  shows "\<not> barrierReleaseReady b" "\<not> barrierKernelComplete b" "c < 8 \<Longrightarrow> ev c = []"
proof -
  note busy = quiescent_busy [OF T q seen] and pass = barrier_pass_busy [OF quiescent_busy [OF T q seen] poll, of T]
  have fixed: "with_signal (with_events (dv_cu S c) (ev c))
        ((if barrierReleaseReady b then [release_signal] else []) @
         (if barrierKernelComplete (if barrierReleaseReady b then barrierAcknowledgeRelease b else b)
          then [done_signal] else [])) = dv_cu S c" if "c < 8" for c
  proof -
    have "dv_cu (barrier_pass T S) c = dv_cu S c" using q that by (simp add: quiescent_def list_all_iff)
    then show ?thesis using that by (simp add: pass Let_def)
  qed
  have "sc_barrier_signal_in (with_signal (with_events u e) sg) = sc_barrier_signal_in u @ sg" for u e sg
    by (simp add: with_signal_def with_events_def)
  with arg_cong [OF fixed [of 0], of sc_barrier_signal_in]
  show quiet: "\<not> barrierReleaseReady b" "\<not> barrierKernelComplete b" by (simp_all split: if_splits)
  show "ev c = []" if "c < 8"
  proof -
    have "ev c = tl (sc_barrier_events_out (dv_cu S c))"
      using poll_events_pop [OF that, of "(bc_barrier (dv_barrier S), \<lambda>c. sc_barrier_events_out (dv_cu S c))"] poll by simp
    moreover have "ev c = sc_barrier_events_out (dv_cu S c)"
      using arg_cong [OF fixed [OF that], of sc_barrier_events_out] quiet by (simp add: we)
    ultimately show ?thesis using tl_fixed [of "ev c"] by simp
  qed
qed

lemma stuck_state:
  assumes inv: "device_inv T S" and T: "unat T \<le> 64" "T \<noteq> 0" and q: "quiescent T off S" and seen: "launch_seen S"
  shows "(\<exists>c < 8. count_state STALLED (sc_slots (dv_cu S c)) > 0) \<and> (\<exists>c < 8. count_state DONE (sc_slots (dv_cu S c)) > 0)"
proof -
  let ?st = "\<lambda>c. count_state STALLED (sc_slots (dv_cu S c))" and ?dn = "\<lambda>c. count_state DONE (sc_slots (dv_cu S c))"
  note unit = quiescent_unit [OF inv T(1) q seen]
  obtain b ev where poll: "poll_events 8 (bc_barrier (dv_barrier S), \<lambda>c. sc_barrier_events_out (dv_cu S c)) = (b, ev)"
    by (cases "poll_events 8 (bc_barrier (dv_barrier S), \<lambda>c. sc_barrier_events_out (dv_cu S c))")
  note cnt = poll_counts [OF inv T(1) quiescent_busy [OF T(1) q seen] poll]
    and quiet = quiescent_events [OF T(1) q seen poll]
  have "int (unat (ba_stalled_count b)) = (\<Sum>c<8. int (?st c))" "int (unat (ba_done_count b)) = (\<Sum>c<8. int (?dn c))"
    unfolding cnt(1,2) using unit quiet(3)
    by (auto intro!: sum.cong simp: seen_stalled_def seen_done_def we n_stalled_def n_done_def)
  then have "unat (ba_stalled_count b) = (\<Sum>c<8. ?st c)" "unat (ba_done_count b) = (\<Sum>c<8. ?dn c)"
    by (simp_all only: of_nat_sum [symmetric] of_nat_eq_iff)
  then have "(\<Sum>c<8. ?st c) \<noteq> unat T" "(\<Sum>c<8. ?dn c) \<noteq> unat T"
    using quiet(1,2) cnt(3) T(2)
    by (auto simp: barrierReleaseReady_def barrierKernelComplete_def word_unat_eq_iff)
  moreover have "(\<Sum>c<8. ?st c) + (\<Sum>c<8. ?dn c) = unat T"
  proof -
    have "?st c + ?dn c = cu_warps (unat T) c" if "c < 8" for c
      using inv unit [OF that] that by (auto simp: device_inv_def unit_inv_def unit_defs)
    then have "(\<Sum>c<8. ?st c + ?dn c) = (\<Sum>c<8. cu_warps (unat T) c)" by (intro sum.cong) simp_all
    then show ?thesis using sum_cu_warps [of "unat T"] T(1) by (simp add: sum.distrib)
  qed
  ultimately have "(\<Sum>c<8. ?st c) \<noteq> 0" "(\<Sum>c<8. ?dn c) \<noteq> 0" by linarith+
  then show ?thesis by auto
qed

text \<open>C17: a device that was launched with at least one warp (and at most the 64 it holds), is not done and cannot make
  any progress is stuck at a barrier that not every warp reaches: no warp is ready, some warp waits at a barrier and
  some other warp has completed. The launch must have reached the device, that is, \<open>start\<close> is still high or the
  barrier core and every unit have taken the launch. The two cases left out do hang without any barrier: a launch
  of no warps, whose units never see a warp complete, and a \<open>start\<close> that falls while the units are loaded.\<close>

theorem stuck_only_at_partial_barrier:
  assumes "reachable T off S" "unat T \<le> NUM_CUS * MAX_WARPS_PER_CU" "T \<noteq> 0"
    and "launch_seen S" "quiescent T off S" "\<not> bc_done (dv_barrier S)"
  shows "(\<forall>c < NUM_CUS. count_state READY (sc_slots (dv_cu S c)) = 0) \<and>
    (\<exists>c < NUM_CUS. count_state STALLED (sc_slots (dv_cu S c)) > 0) \<and>
    (\<exists>c < NUM_CUS. count_state DONE (sc_slots (dv_cu S c)) > 0)"
proof -
  have T: "unat T \<le> 64" using assms(2) by simp
  have inv: "device_inv T S" by (rule device_inv_reachable [OF assms(1) T])
  show ?thesis
    using stuck_state [OF inv T assms(3,5,4)] quiescent_unit(2) [OF inv T assms(5,4)] by simp
qed

section \<open>Witnesses\<close>

text \<open>Concrete runs, as lists of process passes.\<close>

datatype pass = P_Sched nat | P_Pipe nat WarpStatusCode | P_Load nat | P_Barrier

definition run_pass :: "warp_id_t \<Rightarrow> pass \<Rightarrow> device \<Rightarrow> device" where
  "run_pass T p S = (case p of
     P_Sched c \<Rightarrow> if c < NUM_CUS then S\<lparr> dv_cu := (dv_cu S)(c := schedulerCore_step (of_nat c) T 0 (dv_start S) (dv_cu S c)) \<rparr> else S
   | P_Pipe c code \<Rightarrow> (case sc_dispatch_out (dv_cu S c) of
       d # ds \<Rightarrow> if c < NUM_CUS then S\<lparr> dv_cu := (dv_cu S)(c := (dv_cu S c)\<lparr> sc_dispatch_out := ds,
           sc_status_in := sc_status_in (dv_cu S c) @ [warp_status_default\<lparr> ws_code := code, ws_slot_id := wd_slot_id d \<rparr>] \<rparr>) \<rparr> else S
     | [] \<Rightarrow> S)
   | P_Load c \<Rightarrow> if c < NUM_CUS \<and> dv_unloaded S c \<and> dv_start S then S\<lparr> dv_unloaded := (dv_unloaded S)(c := False),
       dv_cu := (dv_cu S)(c := (dv_cu S c)\<lparr> sc_loaded_in := sc_loaded_in (dv_cu S c) @ [True] \<rparr>) \<rparr> else S
   | P_Barrier \<Rightarrow> if bc_busy (dv_barrier S) \<or> \<not> bc_done (dv_barrier S) then barrier_pass T S else S)"

lemma run_pass_step: "run_pass T p S = S \<or> device_step T 0 S (run_pass T p S)"
  by (cases p) (auto simp: run_pass_def warp_status_default_def split: list.splits
      intro: device_step.intros)

lemma run_pass_reachable: "reachable T 0 S \<Longrightarrow> reachable T 0 (run_pass T p S)"
  using run_pass_step [of T p S] rtranclp.rtrancl_into_rtrancl [of "device_step T 0" device_init S] by auto

lemma run_passes_reachable: "reachable T 0 (fold (run_pass T) ps device_init)"
proof -
  have "reachable T 0 S \<Longrightarrow> reachable T 0 (fold (run_pass T) ps S)" for S
    by (induction ps arbitrary: S) (simp_all add: run_pass_reachable)
  then show ?thesis by simp
qed

definition stalled_run :: "pass list" where
  "stalled_run = [P_Load 0, P_Sched 0, P_Sched 0, P_Pipe 0 STALLED_AT_BARRIER, P_Sched 0, P_Barrier]"
definition done_run :: "pass list" where
  "done_run = [P_Load 0, P_Sched 0, P_Sched 0, P_Pipe 0 COMPLETE, P_Sched 0, P_Barrier, P_Barrier]"
definition stuck_run :: "pass list" where
  "stuck_run = map P_Load [0..<8] @ map P_Sched [0..<8] @ [P_Sched 0, P_Sched 1, P_Pipe 0 COMPLETE,
     P_Pipe 1 STALLED_AT_BARRIER, P_Sched 0, P_Sched 1, P_Barrier, P_Barrier]"

lemma stalled_run_facts:
  "bc_busy (dv_barrier (fold (run_pass 1) stalled_run device_init)) \<and>
   sc_barrier_signal_in (dv_cu (fold (run_pass 1) stalled_run device_init) 0) = [] \<and>
   sc_barrier_signal_in (dv_cu (barrier_pass 1 (fold (run_pass 1) stalled_run device_init)) 0) = [release_signal] \<and>
   cu_warps (unat (1::u32)) 0 = 1"
  by code_simp

lemma done_run_facts:
  "bc_done (dv_barrier (fold (run_pass 1) done_run device_init)) \<and> cu_warps (unat (1::u32)) 0 = 1"
  by code_simp

lemma stuck_run_facts:
  "quiescent 2 0 (fold (run_pass 2) stuck_run device_init) \<and> launch_seen (fold (run_pass 2) stuck_run device_init) \<and>
   \<not> bc_done (dv_barrier (fold (run_pass 2) stuck_run device_init))"
  by code_simp

theorem release_only_when_all_stalled_witness:
  "count_state STALLED (sc_slots (dv_cu (fold (run_pass 1) stalled_run device_init) 0)) = 1"
  using release_only_when_all_stalled [OF run_passes_reachable [of 1 stalled_run], of 0 0] stalled_run_facts
  by simp

theorem done_only_when_all_done_witness:
  "count_state DONE (sc_slots (dv_cu (fold (run_pass 1) done_run device_init) 0)) = 1"
  using done_only_when_all_done [OF run_passes_reachable [of 1 done_run], of 0] done_run_facts by simp

theorem stuck_only_at_partial_barrier_witness:
  "\<exists>c < NUM_CUS. count_state STALLED (sc_slots (dv_cu (fold (run_pass 2) stuck_run device_init) c)) > 0"
  using stuck_only_at_partial_barrier [OF run_passes_reachable [of 2 stuck_run]] stuck_run_facts by simp

end
