(* ===== verification/Cluster.thy ===== *)
theory Cluster
  imports GpgpuTop MemArb
begin

text \<open>
  The hierarchical build (13 compute units and more): \<open>hls/src/scheduler/cu_cluster.h\<close> and the second
  branch of \<open>gpgpu_scheduler\<close>. Two clusters of \<open>CS\<close> units each stand between the units and the device's
  barrier core and memory. The constants of this build are arguments: \<open>NCU\<close> units, clusters of \<open>CS\<close>
  (\<open>NCU div 2\<close>); \<open>cu_id_t\<close> keeps the three bits that \<open>hls_types.h\<close> gives it.
\<close>

section \<open>The relay\<close>

record relay =
  rl_sched_events :: "nat \<Rightarrow> WarpStatusCode list"
  rl_cluster_events_out :: "WarpStatusCode list"
  rl_cluster_signal_in :: "barrier_signal_t list"
  rl_sched_signal :: "nat \<Rightarrow> barrier_signal_t list"

definition relay_event :: "nat \<Rightarrow> relay \<Rightarrow> relay" where
  "relay_event c s = (case rl_sched_events s c of [] \<Rightarrow> s
     | e # es \<Rightarrow> s\<lparr> rl_sched_events := (rl_sched_events s)(c := es),
                   rl_cluster_events_out := rl_cluster_events_out s @ [e] \<rparr>)"

definition clusterBarrierRelay_step :: "nat \<Rightarrow> relay \<Rightarrow> relay" where
  "clusterBarrierRelay_step CS s =
     (let s = fold relay_event [0..<CS] s in
      case rl_cluster_signal_in s of [] \<Rightarrow> s
      | sig # sigs \<Rightarrow> s\<lparr> rl_cluster_signal_in := sigs,
          rl_sched_signal := (\<lambda>c. if c < CS then rl_sched_signal s c @ [sig] else rl_sched_signal s c) \<rparr>)"

section \<open>The register loader of a cluster\<close>

record cluster_loader =
  cl_done :: bool
  cl_seeder :: seeder

definition cluster_warp :: "nat \<Rightarrow> cu_id_t \<Rightarrow> u8 \<Rightarrow> u8 \<Rightarrow> warp_id_t" where
  "cluster_warp NCU base c slot = of_nat (unat base + unat c) + ucast slot * of_nat NCU"

definition clusterRegLoader_step ::
  "nat \<Rightarrow> nat \<Rightarrow> (nat \<Rightarrow> reg_t) \<Rightarrow> cu_id_t \<Rightarrow> warp_id_t \<Rightarrow> warp_id_t \<Rightarrow> bool \<Rightarrow> cluster_loader \<Rightarrow> cluster_loader"
where
  "clusterRegLoader_step NCU CS ptr base T off start s =
     (if \<not> start then s\<lparr> cl_done := False, cl_seeder := seed_reset (cl_seeder s) \<rparr>
      else if \<not> cl_done s then
        if unat (se_c (cl_seeder s)) < CS
        then s\<lparr> cl_seeder := seed_pass (cluster_warp NCU base) (\<lambda>_. ptr) T off (cl_seeder s) \<rparr>
        else s\<lparr> cl_done := True, cl_seeder := seed_reset (cl_seeder s) \<rparr>
      else s)"

section \<open>The program loader of the hierarchical build\<close>

record loader_hier =
  lh_loaded :: bool
  lh_load_idx :: u32
  lh_cu_a :: "instr_word_t list list"
  lh_cu_b :: "instr_word_t list list"

definition programLoaderHier_step :: "(nat \<Rightarrow> instr_word_t) \<Rightarrow> u32 \<Rightarrow> bool \<Rightarrow> loader_hier \<Rightarrow> loader_hier" where
  "programLoaderHier_step program_ptr program_len start s =
     (if \<not> start then s\<lparr> lh_loaded := False, lh_load_idx := 0 \<rparr>
      else if \<not> lh_loaded s then
        if lh_load_idx s < of_nat MAX_PROGRAM_LEN then
          let k = unat (lh_load_idx s);
              s = (if lh_load_idx s < program_len
                   then s\<lparr> lh_cu_a := map (\<lambda>p. p[k := program_ptr k]) (lh_cu_a s),
                           lh_cu_b := map (\<lambda>p. p[k := program_ptr k]) (lh_cu_b s) \<rparr> else s)
          in s\<lparr> lh_load_idx := lh_load_idx s + 1 \<rparr>
        else s\<lparr> lh_loaded := True \<rparr>
      else s)"

section \<open>The memory router between the clusters\<close>

definition superMemArbiter_pass :: "nat \<Rightarrow> arb_state \<Rightarrow> arb_state" where
  "superMemArbiter_pass CS s =
     (let s = snd (arbitrateOnce 2 s) in
      case ar_mem_resp_in s of [] \<Rightarrow> s
      | resp # resps \<Rightarrow>
          let k = (if unat (rp_cu_id resp) < CS then 0 else 1) in
          s\<lparr> ar_mem_resp_in := resps, ar_resp_out := (ar_resp_out s)(k := ar_resp_out s k @ [resp]) \<rparr>)"

section \<open>Lemmas\<close>

lemma relay_event_count:
  assumes "c < CS"
  shows "(\<Sum>i<CS. count_code k (rl_sched_events (relay_event c s) i)) + count_code k (rl_cluster_events_out (relay_event c s))
    = (\<Sum>i<CS. count_code k (rl_sched_events s i)) + count_code k (rl_cluster_events_out s)"
proof (cases "rl_sched_events s c")
  case Nil
  then show ?thesis by (simp add: relay_event_def)
next
  case (Cons e es)
  have "(\<Sum>i<CS. count_code k (((rl_sched_events s)(c := es)) i))
      = (\<Sum>i<CS. ((\<lambda>i. count_code k (rl_sched_events s i))(c := count_code k es)) i)"
    by (rule sum.cong) auto
  with sum_upd [OF assms, of "\<lambda>i. count_code k (rl_sched_events s i)" "count_code k es"] Cons
  show ?thesis by (simp add: relay_event_def)
qed

lemma relay_events_count:
  assumes "set cs \<subseteq> {..<CS}"
  shows "(\<Sum>i<CS. count_code k (rl_sched_events (fold relay_event cs s) i))
      + count_code k (rl_cluster_events_out (fold relay_event cs s))
    = (\<Sum>i<CS. count_code k (rl_sched_events s i)) + count_code k (rl_cluster_events_out s)"
  using assms
proof (induction cs arbitrary: s)
  case (Cons c cs)
  then show ?case using relay_event_count [of c CS k s] by simp
qed simp

lemma relay_event_signals [simp]:
  "rl_cluster_signal_in (relay_event c s) = rl_cluster_signal_in s"
  "rl_sched_signal (relay_event c s) = rl_sched_signal s"
  by (simp_all add: relay_event_def split: list.splits)

lemma relay_events_signals:
  "rl_cluster_signal_in (fold relay_event cs s) = rl_cluster_signal_in s \<and>
   rl_sched_signal (fold relay_event cs s) = rl_sched_signal s"
  by (induction cs arbitrary: s) simp_all

lemma relay_step_signals:
  "rl_sched_signal (clusterBarrierRelay_step CS s) c @ rl_cluster_signal_in (clusterBarrierRelay_step CS s)
     = rl_sched_signal s c @ rl_cluster_signal_in s" if "c < CS"
  using that relay_events_signals [of "[0..<CS]" s]
  by (auto simp: clusterBarrierRelay_step_def Let_def split: list.splits)

lemma relay_step_count:
  "(\<Sum>i<CS. count_code k (rl_sched_events (clusterBarrierRelay_step CS s) i))
     + count_code k (rl_cluster_events_out (clusterBarrierRelay_step CS s))
   = (\<Sum>i<CS. count_code k (rl_sched_events s i)) + count_code k (rl_cluster_events_out s)"
proof -
  have "set [0..<CS] \<subseteq> {..<CS}" by auto
  from relay_events_count [OF this, of k s] show ?thesis
    by (auto simp: clusterBarrierRelay_step_def Let_def split: list.splits)
qed

lemma cluster_seeding:
  assumes "n \<le> CS * 8192" "CS \<le> 255" "\<not> cl_done s"
    "se_c (cl_seeder s) = 0" "se_slot (cl_seeder s) = 0" "se_i (cl_seeder s) = 0"
  shows "(clusterRegLoader_step NCU CS ptr base T off True ^^ n) s
    = s\<lparr> cl_seeder := seeder_after (cluster_warp NCU base) (\<lambda>_. ptr) T off n (cl_seeder s) \<rparr>"
  using assms(1)
proof (induction n)
  case 0
  then show ?case using assms(4-6) by (simp add: seeder_after_def seeds_upto_def)
next
  case (Suc n)
  then have n: "n div 8192 < CS" by (simp add: less_mult_imp_div_less)
  then have "unat (of_nat (n div 8192) :: u8) < CS" using assms(2) by (simp add: unat_of_nat)
  then have "unat (se_c (seeder_after (cluster_warp NCU base) (\<lambda>_. ptr) T off n (cl_seeder s))) < CS"
    by (simp add: seeder_after_def)
  with Suc assms(2,3) n show ?case by (simp add: clusterRegLoader_step_def seed_pass_after)
qed

section \<open>Properties\<close>

text \<open>The relay of a cluster neither loses nor invents events or signals: after any number of passes, the events
  still queued in the units and those passed on add up to the ones that were queued, for each code, and
  every unit has received, in order, exactly the signals taken from the device's stream.\<close>

theorem relay_conserves:
  "(\<Sum>i<CS. count_code k (rl_sched_events ((clusterBarrierRelay_step CS ^^ n) s) i))
     + count_code k (rl_cluster_events_out ((clusterBarrierRelay_step CS ^^ n) s))
   = (\<Sum>i<CS. count_code k (rl_sched_events s i)) + count_code k (rl_cluster_events_out s) \<and>
   (\<forall>c \<in> {..<CS}. rl_sched_signal ((clusterBarrierRelay_step CS ^^ n) s) c
       @ rl_cluster_signal_in ((clusterBarrierRelay_step CS ^^ n) s) = rl_sched_signal s c @ rl_cluster_signal_in s)"
  by (induction n) (simp_all add: relay_step_count relay_step_signals)

text \<open>With 16 units in two clusters of 8, the base unit id of the second cluster does not fit \<open>cu_id_t\<close>: the
  second cluster loads exactly the warps of the first (so no unit ever holds a warp whose number is 8 to
  15 modulo 16), and the router never answers it.\<close>

theorem second_cluster_repeats_first:
  assumes "n \<le> 8 * 8192" "\<not> cl_done s" "se_c (cl_seeder s) = 0" "se_slot (cl_seeder s) = 0"
    "se_i (cl_seeder s) = 0"
  shows "(clusterRegLoader_step 16 8 ptr (of_nat 8) T off True ^^ n) s
       = (clusterRegLoader_step 16 8 ptr (of_nat 0) T off True ^^ n) s \<and>
    (let s' = (clusterRegLoader_step 16 8 ptr (of_nat 8) T off True ^^ n) s in
     \<forall>c. se_seed_out (cl_seeder s') c = se_seed_out (cl_seeder s) c @
       map (seed_at (cluster_warp 16 0) (\<lambda>_. ptr) off)
         (filter (\<lambda>j. j div 8192 = c \<and> cluster_warp 16 0 (of_nat c) (of_nat (j div 1024 mod 8)) < T) [0..<n])) \<and>
    ar_resp_out (superMemArbiter_pass 8 r) 1 = ar_resp_out r 1"
proof -
  have base: "(of_nat 8 :: cu_id_t) = of_nat 0" by simp
  have "(clusterRegLoader_step 16 8 ptr (of_nat 0) T off True ^^ n) s
    = s\<lparr> cl_seeder := seeder_after (cluster_warp 16 0) (\<lambda>_. ptr) T off n (cl_seeder s) \<rparr>"
    using cluster_seeding [of n 8 s 16 ptr 0 T off] assms by simp
  moreover have "ar_resp_out (superMemArbiter_pass 8 r) 1 = ar_resp_out r 1"
  proof -
    have "unat (i :: cu_id_t) < 8" for i
    proof -
      have "unat i < 2 ^ LENGTH(3)" by (rule unsigned_less)
      then show ?thesis by simp
    qed
    then show ?thesis
      by (auto simp: superMemArbiter_pass_def arbitrateOnce_def Let_def split: option.splits list.splits)
  qed
  ultimately show ?thesis unfolding base by (simp add: Let_def seeder_after_def seeds_upto_def)
qed

section \<open>Witnesses\<close>

definition cluster_loader0 :: cluster_loader where
  "cluster_loader0 = \<lparr> cl_done = False,
     cl_seeder = \<lparr> se_c = 0, se_slot = 0, se_i = 0, se_seed_out = (\<lambda>_. []), se_loaded_out = (\<lambda>_. []) \<rparr> \<rparr>"

theorem second_cluster_repeats_first_witness:
  "(clusterRegLoader_step 16 8 (\<lambda>i. of_nat i) 8 32 0 True ^^ 2000) cluster_loader0
     = (clusterRegLoader_step 16 8 (\<lambda>i. of_nat i) 0 32 0 True ^^ 2000) cluster_loader0"
  using second_cluster_repeats_first [of 2000 cluster_loader0 "\<lambda>i. of_nat i" 32 0]
  by (simp add: cluster_loader0_def)

definition relay0 :: relay where
  "relay0 = \<lparr> rl_sched_events = (\<lambda>c. if c = 1 then [COMPLETE, STALLED_AT_BARRIER] else []),
     rl_cluster_events_out = [], rl_cluster_signal_in = [release_signal], rl_sched_signal = (\<lambda>_. []) \<rparr>"

theorem relay_conserves_witness:
  "rl_sched_signal ((clusterBarrierRelay_step 2 ^^ 1) relay0) 1 @ rl_cluster_signal_in ((clusterBarrierRelay_step 2 ^^ 1) relay0)
     = [release_signal]"
  using relay_conserves [where CS = 2 and n = 1 and s = relay0 and k = COMPLETE] by (simp add: relay0_def)

end
