(* ===== verification/PtxLexer.thy ===== *)
theory PtxLexer
  imports Prelude
begin

text \<open>
  The tokenizer of the PTX front end: \<open>PtxParser::tokenize\<close> of
  \<open>driver/src/ptx_transpiler/ptx_parser.cpp\<close> and the token types of \<open>ptx_parser.h\<close>. The position
  \<open>i\<close> in the text is the remaining text. Characters are bytes, classified as in the C locale.
  \<open>std::stoll\<close> with base 0 is modelled; \<open>std::stod\<close>, whose result is a \<open>double\<close>, is the
  argument \<open>stod\<close>, and a double is its bit pattern. Both throw \<open>std::out_of_range\<close>: the result
  \<open>None\<close>, which no caller catches. An \<open>int64_t\<close> is an integer.
\<close>

section \<open>Model\<close>

type_synonym double = u64

datatype TK = TK_WORD | TK_PERCENT | TK_DOLLAR | TK_INT | TK_FLOAT
  | TK_LPAREN | TK_RPAREN | TK_LBRACE | TK_RBRACE | TK_LANGLE | TK_RANGLE | TK_LBRACKET | TK_RBRACKET
  | TK_COMMA | TK_SEMICOLON | TK_COLON | TK_AT | TK_BANG | TK_PLUS | TK_MINUS | TK_END

record Token =
  tok_type :: TK
  tok_text :: string
  tok_ival :: int
  tok_fval :: double

definition mk_token :: "TK \<Rightarrow> string \<Rightarrow> Token" where
  "mk_token ty s = \<lparr> tok_type = ty, tok_text = s, tok_ival = 0, tok_fval = 0 \<rparr>"

definition char_in :: "nat \<Rightarrow> nat \<Rightarrow> char \<Rightarrow> bool" where
  "char_in a b c \<longleftrightarrow> a \<le> of_char c \<and> of_char c \<le> b"

definition isdigit :: "char \<Rightarrow> bool" where "isdigit c = char_in 48 57 c"
definition isalpha :: "char \<Rightarrow> bool" where "isalpha c \<longleftrightarrow> char_in 65 90 c \<or> char_in 97 122 c"
definition isalnum :: "char \<Rightarrow> bool" where "isalnum c \<longleftrightarrow> isalpha c \<or> isdigit c"
definition isxdigit :: "char \<Rightarrow> bool" where "isxdigit c \<longleftrightarrow> isdigit c \<or> char_in 65 70 c \<or> char_in 97 102 c"
definition isspace :: "char \<Rightarrow> bool" where "isspace c \<longleftrightarrow> char_in 9 13 c \<or> c = CHR '' ''"

definition isWordChar :: "char \<Rightarrow> bool" where
  "isWordChar c \<longleftrightarrow> isalnum c \<or> c = CHR ''_'' \<or> c = CHR ''.''"

definition isLabelChar :: "char \<Rightarrow> bool" where
  "isLabelChar c \<longleftrightarrow> isalnum c \<or> c = CHR ''_''"

text \<open>The loop that looks for the end of a block comment. Without one it stops at the last character.\<close>

fun skip_block :: "string \<Rightarrow> string" where
  "skip_block (c # d # r) = (if c = CHR ''*'' \<and> d = CHR ''/'' then r else skip_block (d # r))"
| "skip_block r = r"

definition scan_fraction :: "string \<Rightarrow> bool \<times> string \<times> string" where
  "scan_fraction s = (case s of
       c # r \<Rightarrow> if c = CHR ''.'' then (True, c # takeWhile isdigit r, dropWhile isdigit r) else (False, [], s)
     | [] \<Rightarrow> (False, [], s))"

definition scan_exp_sign :: "string \<Rightarrow> string \<times> string" where
  "scan_exp_sign s = (case s of
       c # r \<Rightarrow> if c = CHR ''+'' \<or> c = CHR ''-'' then ([c], r) else ([], s)
     | [] \<Rightarrow> ([], s))"

definition scan_exponent :: "string \<Rightarrow> bool \<times> string \<times> string" where
  "scan_exponent s = (case s of
       c # r \<Rightarrow> if c = CHR ''e'' \<or> c = CHR ''E'' then
                  let (sg, r1) = scan_exp_sign r
                  in (True, c # sg @ takeWhile isdigit r1, dropWhile isdigit r1)
                else (False, [], s)
     | [] \<Rightarrow> (False, [], s))"

definition scan_decimal :: "string \<Rightarrow> bool \<times> string \<times> string" where
  "scan_decimal s =
     (let ds = takeWhile isdigit s;
          (fl1, t1, s1) = scan_fraction (dropWhile isdigit s);
          (fl2, t2, s2) = scan_exponent s1
      in (fl1 \<or> fl2, ds @ t1 @ t2, s2))"

definition scan_unsigned :: "string \<Rightarrow> bool \<times> string \<times> string" where
  "scan_unsigned s = (case s of
       z # x # r \<Rightarrow>
         if z = CHR ''0'' \<and> (x = CHR ''x'' \<or> x = CHR ''X'')
         then (False, z # x # takeWhile isxdigit r, dropWhile isxdigit r)
         else scan_decimal s
     | _ \<Rightarrow> scan_decimal s)"

definition scan_number :: "string \<Rightarrow> bool \<times> string \<times> string" where
  "scan_number s = (case s of
       c # r \<Rightarrow> if c = CHR ''-'' then let (fl, t, rest) = scan_unsigned r in (fl, c # t, rest)
                else scan_unsigned s
     | [] \<Rightarrow> scan_unsigned s)"

definition digit_val :: "char \<Rightarrow> int" where
  "digit_val c = (let n = of_char c :: nat in if n \<le> 57 then int n - 48 else if n \<le> 70 then int n - 55 else int n - 87)"

definition of_digits :: "int \<Rightarrow> string \<Rightarrow> int" where
  "of_digits b ds = foldl (\<lambda>v c. b * v + digit_val c) 0 ds"

definition strtoll_magnitude :: "string \<Rightarrow> int" where
  "strtoll_magnitude s = (case s of
       z # x # h # r \<Rightarrow>
         if z = CHR ''0'' \<and> (x = CHR ''x'' \<or> x = CHR ''X'') \<and> isxdigit h
         then of_digits 16 (takeWhile isxdigit (h # r))
         else if z = CHR ''0'' then of_digits 8 (takeWhile (char_in 48 55) s)
         else of_digits 10 (takeWhile isdigit s)
     | z # r \<Rightarrow> if z = CHR ''0'' then of_digits 8 (takeWhile (char_in 48 55) s)
                else of_digits 10 (takeWhile isdigit s)
     | [] \<Rightarrow> 0)"

definition stoll :: "string \<Rightarrow> int option" where
  "stoll s =
     (let v = (case s of c # r \<Rightarrow> if c = CHR ''-'' then - strtoll_magnitude r else strtoll_magnitude s
               | [] \<Rightarrow> 0)
      in if - (2 ^ 63) \<le> v \<and> v < 2 ^ 63 then Some v else None)"

definition punct :: "char \<Rightarrow> TK option" where
  "punct c = map_of
     [(CHR ''('', TK_LPAREN), (CHR '')'', TK_RPAREN), (CHR ''{'', TK_LBRACE), (CHR ''}'', TK_RBRACE),
      (CHR ''<'', TK_LANGLE), (CHR ''>'', TK_RANGLE), (CHR ''['', TK_LBRACKET), (CHR '']'', TK_RBRACKET),
      (CHR '','', TK_COMMA), (CHR '';'', TK_SEMICOLON), (CHR '':'', TK_COLON), (CHR ''@'', TK_AT),
      (CHR ''!'', TK_BANG), (CHR ''+'', TK_PLUS), (CHR ''-'', TK_MINUS)] c"

definition starts_number :: "char \<Rightarrow> string \<Rightarrow> bool" where
  "starts_number c r \<longleftrightarrow> isdigit c \<or> c = CHR ''-'' \<and> r \<noteq> [] \<and> isdigit (hd r)"

text \<open>One token at \<open>c # r\<close> (no token for an unknown character), and the text behind it.\<close>

definition next_token :: "(string \<Rightarrow> double option) \<Rightarrow> char \<Rightarrow> string \<Rightarrow> (Token option \<times> string) option" where
  "next_token stod c r =
     (if c = CHR ''%'' then Some (Some (mk_token TK_PERCENT (takeWhile isWordChar r)), dropWhile isWordChar r)
      else if c = CHR ''$'' then Some (Some (mk_token TK_DOLLAR (takeWhile isLabelChar r)), dropWhile isLabelChar r)
      else if isalpha c \<or> c = CHR ''_'' then
        Some (Some (mk_token TK_WORD (takeWhile isWordChar (c # r))), dropWhile isWordChar (c # r))
      else if c = CHR ''.'' then
        Some (Some (mk_token TK_WORD (c # takeWhile isWordChar r)), dropWhile isWordChar r)
      else if starts_number c r then
        (let (is_float, numstr, rest) = scan_number (c # r) in
         if is_float then
           (case stod numstr of None \<Rightarrow> None
            | Some v \<Rightarrow> Some (Some ((mk_token TK_FLOAT numstr)\<lparr> tok_fval := v \<rparr>), rest))
         else
           (case stoll numstr of None \<Rightarrow> None
            | Some v \<Rightarrow> Some (Some ((mk_token TK_INT numstr)\<lparr> tok_ival := v \<rparr>), rest)))
      else
        (case punct c of None \<Rightarrow> Some (None, r) | Some ty \<Rightarrow> Some (Some (mk_token ty [c]), r)))"

lemma scan_decimal_shorter: "length (snd (snd (scan_decimal s))) \<le> length (dropWhile isdigit s)"
proof -
  have fr: "length (snd (snd (scan_fraction t))) \<le> length t" for t
    by (auto simp: scan_fraction_def le_Suc_eq length_dropWhile_le split: list.splits)
  have sg: "length (snd (scan_exp_sign t)) \<le> length t" for t
    by (auto simp: scan_exp_sign_def split: list.splits)
  have ex: "length (snd (snd (scan_exponent t))) \<le> length t" for t
  proof (cases t)
    case (Cons c r)
    have "length (dropWhile isdigit (snd (scan_exp_sign r))) \<le> length r"
      using sg [of r] length_dropWhile_le [of isdigit "snd (scan_exp_sign r)"] by linarith
    then show ?thesis by (auto simp: scan_exponent_def Cons split_beta Let_def)
  qed (simp add: scan_exponent_def)
  show ?thesis
    using fr [of "dropWhile isdigit s"] by (auto simp: scan_decimal_def split_beta Let_def intro: order_trans [OF ex])
qed

lemma scan_unsigned_shorter: "isdigit c \<Longrightarrow> length (snd (snd (scan_unsigned (c # r)))) \<le> length r"
  using scan_decimal_shorter [of "c # r"] length_dropWhile_le [of isdigit r] length_dropWhile_le [of isxdigit]
  by (auto simp: scan_unsigned_def le_Suc_eq split: list.splits)

lemma scan_number_shorter:
  assumes "starts_number c r" shows "length (snd (snd (scan_number (c # r)))) \<le> length r"
proof (cases "c = CHR ''-''")
  case True
  then obtain d q where "r = d # q" "isdigit d"
    using assms by (cases r) (auto simp: starts_number_def isdigit_def char_in_def)
  then show ?thesis using scan_unsigned_shorter [of d q] True by (simp add: scan_number_def split_beta)
next
  case False
  then show ?thesis using assms scan_unsigned_shorter by (auto simp: starts_number_def scan_number_def)
qed

lemma next_token_shorter: "next_token stod c r = Some (t, rest) \<Longrightarrow> length rest \<le> length r"
  using scan_number_shorter [of c r] length_dropWhile_le [of isWordChar r] length_dropWhile_le [of isLabelChar r]
  by (auto simp: next_token_def isWordChar_def isalnum_def split: if_splits option.splits prod.splits)

lemma skip_block_shorter: "length (skip_block s) \<le> length s"
  by (induction s rule: skip_block.induct) auto

function tokenize :: "(string \<Rightarrow> double option) \<Rightarrow> string \<Rightarrow> Token list option" where
  "tokenize stod s = (case s of [] \<Rightarrow> Some [mk_token TK_END []]
     | c # r \<Rightarrow>
         if isspace c then tokenize stod r
         else if c = CHR ''/'' \<and> r \<noteq> [] \<and> hd r = CHR ''/'' then
           tokenize stod (dropWhile (\<lambda>d. d \<noteq> CHR 0x0A) r)
         else if c = CHR ''/'' \<and> r \<noteq> [] \<and> hd r = CHR ''*'' then tokenize stod (skip_block (tl r))
         else (case next_token stod c r of None \<Rightarrow> None
               | Some (t, rest) \<Rightarrow>
                   (case tokenize stod rest of None \<Rightarrow> None
                    | Some ts \<Rightarrow> Some (case t of None \<Rightarrow> ts | Some t' \<Rightarrow> t' # ts))))"
  by pat_completeness auto
termination
proof (relation "measure (\<lambda>(_, s). length s)", goal_cases)
  case (3 stod s c r)
  then show ?case using length_dropWhile_le [of _ r] by (simp add: less_Suc_eq_le)
next
  case (4 stod s c r)
  then show ?case using skip_block_shorter [of "tl r"] by (simp add: less_Suc_eq_le)
next
  case (5 stod s c r)
  then show ?case using next_token_shorter by (fastforce simp: less_Suc_eq_le)
qed simp_all

declare tokenize.simps [simp del]

end
