(* ===== verification/PtxParser.thy ===== *)
theory PtxParser
  imports PtxLexer
begin

text \<open>
  The PTX front end: the syntax tree of \<open>driver/src/ptx_transpiler/ptx_parser.h\<close> and the recursive-descent
  parser of \<open>ptx_parser.cpp\<close>. The token list and the position in it are the list of the remaining
  tokens: \<open>cur\<close> is its head, or \<open>END\<close> when there is none. A parse function that returns
  \<open>false\<close> after setting \<open>error_\<close> returns \<open>Inl\<close> of the message; otherwise
  \<open>Inr\<close> of what it filled in and the remaining tokens.
\<close>

section \<open>Model\<close>

datatype OperandKind = K_Reg | K_SpecialReg | K_IntImm | K_FltImm | K_Label | K_MemRef

record PtxOperand =
  op_kind :: OperandKind
  op_name :: string
  op_int_val :: int
  op_flt_val :: double
  op_mem_base :: string
  op_param_name :: string
  op_mem_offset :: int

record PtxParam =
  pp_space :: string
  pp_name :: string
  pp_pointer_space :: string
  pp_index :: u32
  pp_alignment :: u32
  pp_is_pointer :: bool

record PtxRegDecl =
  rd_prefix :: string
  rd_type :: string
  rd_count :: u32

record PtxInstr =
  pi_label :: string
  pi_pred :: string
  pi_pred_not :: bool
  pi_op :: string
  pi_operands :: "PtxOperand list"

record PtxKernel =
  pk_name :: string
  pk_address_size :: u32
  pk_address_size_seen :: bool
  pk_params :: "PtxParam list"
  pk_reg_decls :: "PtxRegDecl list"
  pk_body :: "PtxInstr list"

definition PtxOperand_default :: PtxOperand where
  "PtxOperand_default = \<lparr> op_kind = K_IntImm, op_name = [], op_int_val = 0, op_flt_val = 0,
     op_mem_base = [], op_param_name = [], op_mem_offset = 0 \<rparr>"
definition PtxParam_default :: PtxParam where
  "PtxParam_default = \<lparr> pp_space = [], pp_name = [], pp_pointer_space = [], pp_index = 0,
     pp_alignment = 0, pp_is_pointer = False \<rparr>"
definition PtxInstr_default :: PtxInstr where
  "PtxInstr_default = \<lparr> pi_label = [], pi_pred = [], pi_pred_not = False, pi_op = [], pi_operands = [] \<rparr>"
definition PtxKernel_default :: PtxKernel where
  "PtxKernel_default = \<lparr> pk_name = [], pk_address_size = 32, pk_address_size_seen = False,
     pk_params = [], pk_reg_decls = [], pk_body = [] \<rparr>"

type_synonym 'a parsed = "string + 'a \<times> Token list"

definition cur :: "Token list \<Rightarrow> Token" where
  "cur ts = (case ts of [] \<Rightarrow> mk_token TK_END [] | t # _ \<Rightarrow> t)"
definition peek :: "Token list \<Rightarrow> Token" where "peek ts = cur (tl ts)"
definition cur_is :: "TK \<Rightarrow> Token list \<Rightarrow> bool" where "cur_is ty ts \<longleftrightarrow> tok_type (cur ts) = ty"
definition cur_word :: "string \<Rightarrow> Token list \<Rightarrow> bool" where
  "cur_word w ts \<longleftrightarrow> cur_is TK_WORD ts \<and> tok_text (cur ts) = w"

text \<open>The message with the text of the current token between quotes.\<close>

definition got :: "string \<Rightarrow> Token list \<Rightarrow> string" where
  "got msg ts = msg @ CHR 0x27 # tok_text (cur ts) @ [CHR 0x27]"

definition parse_expect :: "TK \<Rightarrow> string \<Rightarrow> Token list \<Rightarrow> unit parsed" where
  "parse_expect ty hint ts =
     (if \<not> cur_is ty ts then Inl (got (''Expected '' @ hint @ '' but got '') ts) else Inr ((), tl ts))"

definition starts_with :: "string \<Rightarrow> string \<Rightarrow> bool" where
  "starts_with p s \<longleftrightarrow> take (length p) s = p"

definition special_reg_name :: "string \<Rightarrow> bool" where
  "special_reg_name name \<longleftrightarrow> starts_with ''tid.'' name \<or> starts_with ''ctaid.'' name \<or>
     starts_with ''ntid.'' name \<or> name = ''warpid'' \<or> name = ''laneid'' \<or> name = ''nwarpid''"

subsection \<open>Operands\<close>

definition offset_msg :: string where "offset_msg = ''Expected immediate memory offset''"

text \<open>The optional offset behind a base register and behind a parameter name.\<close>

definition parse_reg_offset :: "PtxOperand \<Rightarrow> Token list \<Rightarrow> PtxOperand parsed" where
  "parse_reg_offset opd ts =
     (if cur_is TK_PLUS ts then
        let ts = tl ts in
        if \<not> cur_is TK_INT ts then Inl offset_msg
        else Inr (opd\<lparr> op_mem_offset := tok_ival (cur ts) \<rparr>, tl ts)
      else if cur_is TK_MINUS ts then
        let ts = tl ts in
        if \<not> cur_is TK_INT ts then Inl offset_msg
        else Inr (opd\<lparr> op_mem_offset := - tok_ival (cur ts) \<rparr>, tl ts)
      else if cur_is TK_INT ts \<and> tok_ival (cur ts) < 0 then
        Inr (opd\<lparr> op_mem_offset := tok_ival (cur ts) \<rparr>, tl ts)
      else Inr (opd, ts))"

definition parse_param_offset :: "PtxOperand \<Rightarrow> Token list \<Rightarrow> PtxOperand parsed" where
  "parse_param_offset opd ts =
     (if cur_is TK_PLUS ts then
        let ts = tl ts in
        if \<not> cur_is TK_INT ts then Inl offset_msg
        else Inr (opd\<lparr> op_mem_offset := tok_ival (cur ts) \<rparr>, tl ts)
      else Inr (opd, ts))"

definition parseMemRef :: "PtxOperand \<Rightarrow> Token list \<Rightarrow> PtxOperand parsed" where
  "parseMemRef opd ts =
     (let opd = opd\<lparr> op_kind := K_MemRef \<rparr>; ts = tl ts in
      case (if cur_is TK_PERCENT ts then parse_reg_offset (opd\<lparr> op_mem_base := tok_text (cur ts) \<rparr>) (tl ts)
            else if cur_is TK_WORD ts then parse_param_offset (opd\<lparr> op_param_name := tok_text (cur ts) \<rparr>) (tl ts)
            else Inl ''Expected register or symbol in memory reference'') of
        Inl e \<Rightarrow> Inl e
      | Inr (opd, ts) \<Rightarrow>
          if \<not> cur_is TK_RBRACKET ts then
            Inl (''Expected closing '' @ CHR 0x27 # '']'' @ CHR 0x27 # '' in memory reference'')
          else Inr (opd, tl ts))"

definition parseOperand :: "PtxOperand \<Rightarrow> Token list \<Rightarrow> PtxOperand parsed" where
  "parseOperand opd ts =
     (if cur_is TK_PERCENT ts then
        let name = tok_text (cur ts) in
        Inr (opd\<lparr> op_kind := (if special_reg_name name then K_SpecialReg else K_Reg), op_name := name \<rparr>, tl ts)
      else if cur_is TK_DOLLAR ts then Inr (opd\<lparr> op_kind := K_Label, op_name := tok_text (cur ts) \<rparr>, tl ts)
      else if cur_is TK_LBRACKET ts then parseMemRef opd ts
      else if cur_is TK_INT ts then Inr (opd\<lparr> op_kind := K_IntImm, op_int_val := tok_ival (cur ts) \<rparr>, tl ts)
      else if cur_is TK_FLOAT ts then Inr (opd\<lparr> op_kind := K_FltImm, op_flt_val := tok_fval (cur ts) \<rparr>, tl ts)
      else if cur_is TK_MINUS ts then
        let ts = tl ts in
        if cur_is TK_INT ts then Inr (opd\<lparr> op_kind := K_IntImm, op_int_val := - tok_ival (cur ts) \<rparr>, tl ts)
        else if cur_is TK_FLOAT ts then
          Inr (opd\<lparr> op_kind := K_FltImm, op_flt_val := tok_fval (cur ts) XOR 0x8000000000000000 \<rparr>, tl ts)
        else Inr (opd, ts)
      else if cur_is TK_WORD ts then Inr (opd\<lparr> op_kind := K_Label, op_name := tok_text (cur ts) \<rparr>, tl ts)
      else Inl (''Unsupported operand token: '' @ tok_text (cur ts)))"

lemma cur_is_cons: "cur_is ty ts \<Longrightarrow> ty \<noteq> TK_END \<Longrightarrow> \<exists>t r. ts = t # r \<and> tok_type t = ty"
  by (cases ts) (simp_all add: cur_is_def cur_def mk_token_def)

lemma cur_is_shorter: "cur_is ty ts \<Longrightarrow> ty \<noteq> TK_END \<Longrightarrow> length (tl ts) < length ts"
  by (auto dest!: cur_is_cons)

lemma tl_shorter: "length (tl ts) \<le> length ts"
  by simp

lemma parse_offset_shorter:
  "parse_reg_offset opd ts = Inr (opd', ts') \<Longrightarrow> length ts' \<le> length ts"
  "parse_param_offset opd ts = Inr (opd', ts') \<Longrightarrow> length ts' \<le> length ts"
  by (auto simp: parse_reg_offset_def parse_param_offset_def Let_def split: if_splits)

lemma parseMemRef_shorter:
  assumes "parseMemRef opd ts = Inr (opd', ts')" "cur_is TK_LBRACKET ts" shows "length ts' < length ts"
proof -
  have "length (tl ts) < length ts" using assms(2) cur_is_shorter by blast
  then show ?thesis
    using assms(1) by (auto simp: parseMemRef_def Let_def split: if_splits sum.splits dest!: parse_offset_shorter)
qed

lemma parseOperand_shorter:
  assumes "parseOperand opd ts = Inr (opd', ts')" shows "length ts' < length ts"
  using assms parseMemRef_shorter [of opd ts]
  by (auto simp: parseOperand_def Let_def split: if_splits dest!: cur_is_cons)

subsection \<open>Instructions\<close>

definition operands_end :: "Token list \<Rightarrow> bool" where
  "operands_end ts \<longleftrightarrow> cur_is TK_SEMICOLON ts \<or> cur_is TK_RBRACE ts \<or> cur_is TK_END ts"

definition skip_if :: "TK \<Rightarrow> Token list \<Rightarrow> Token list" where
  "skip_if ty ts = (if cur_is ty ts then tl ts else ts)"

lemma skip_if_shorter: "length (skip_if ty ts) \<le> length ts"
  by (simp add: skip_if_def)

function parse_operands :: "Token list \<Rightarrow> PtxOperand list parsed" where
  "parse_operands ts =
     (if operands_end ts then Inr ([], ts)
      else (case parseOperand PtxOperand_default ts of Inl e \<Rightarrow> Inl e
            | Inr (opd, ts1) \<Rightarrow>
                (case parse_operands (skip_if TK_COMMA ts1) of Inl e \<Rightarrow> Inl e
                 | Inr (opds, ts2) \<Rightarrow> Inr (opd # opds, ts2))))"
  by pat_completeness auto
termination
proof (relation "measure length", goal_cases)
  case (2 ts y x z)
  then show ?case using parseOperand_shorter [of PtxOperand_default ts x z] skip_if_shorter [of TK_COMMA z] by simp
qed simp

declare parse_operands.simps [simp del]

text \<open>The optional guard \<open>@%p\<close> or \<open>@!%p\<close>.\<close>

definition parse_pred :: "PtxInstr \<Rightarrow> Token list \<Rightarrow> PtxInstr parsed" where
  "parse_pred out ts =
     (if cur_is TK_AT ts then
        let ts = tl ts; neg = cur_is TK_BANG ts;
            out = (if neg then out\<lparr> pi_pred_not := True \<rparr> else out); ts = (if neg then tl ts else ts) in
        if \<not> cur_is TK_PERCENT ts then Inl ''Expected predicate register after @''
        else Inr (out\<lparr> pi_pred := tok_text (cur ts) \<rparr>, tl ts)
      else Inr (out, ts))"

definition parseInstr :: "PtxInstr \<Rightarrow> Token list \<Rightarrow> PtxInstr parsed" where
  "parseInstr out ts =
     (case parse_pred out ts of Inl e \<Rightarrow> Inl e
      | Inr (out, ts) \<Rightarrow>
          if \<not> cur_is TK_WORD ts then Inl (got ''Expected opcode, got '' ts)
          else
            let out = out\<lparr> pi_op := tok_text (cur ts) \<rparr> in
            (case parse_operands (tl ts) of Inl e \<Rightarrow> Inl e
             | Inr (opds, ts) \<Rightarrow> Inr (out\<lparr> pi_operands := opds \<rparr>, skip_if TK_SEMICOLON ts)))"

lemma parse_operands_shorter: "parse_operands ts = Inr (opds, ts') \<Longrightarrow> length ts' \<le> length ts"
proof (induction ts arbitrary: opds ts' rule: parse_operands.induct)
  case (1 ts)
  show ?case
  proof (cases "operands_end ts")
    case False
    then obtain opd ts1 opds' where a: "parseOperand PtxOperand_default ts = Inr (opd, ts1)"
        "parse_operands (skip_if TK_COMMA ts1) = Inr (opds', ts')"
      using "1.prems" by (subst (asm) parse_operands.simps) (auto split: sum.splits)
    have "length ts' \<le> length (skip_if TK_COMMA ts1)" using "1.IH" [OF False a(1) refl a(2)] .
    with parseOperand_shorter [OF a(1)] skip_if_shorter [of TK_COMMA ts1] show ?thesis by linarith
  qed (use "1.prems" in \<open>simp add: parse_operands.simps\<close>)
qed

lemma parse_pred_shorter: "parse_pred out ts = Inr (out', ts') \<Longrightarrow> length ts' \<le> length ts"
  by (auto simp: parse_pred_def Let_def split: if_splits)

lemma parseInstr_shorter:
  assumes "parseInstr out ts = Inr (out', ts')" shows "length ts' < length ts"
proof -
  obtain o1 ts1 opds ts2 where a: "parse_pred out ts = Inr (o1, ts1)" "cur_is TK_WORD ts1"
      "parse_operands (tl ts1) = Inr (opds, ts2)" "ts' = skip_if TK_SEMICOLON ts2"
    using assms by (auto simp: parseInstr_def Let_def split: sum.splits if_splits)
  then show ?thesis
    using parse_pred_shorter [OF a(1)] cur_is_shorter [OF a(2)] parse_operands_shorter [OF a(3)]
      skip_if_shorter [of TK_SEMICOLON ts2] by simp
qed

subsection \<open>Parameters and declarations\<close>

function parse_param_attrs :: "PtxParam \<Rightarrow> Token list \<Rightarrow> PtxParam parsed" where
  "parse_param_attrs p ts =
     (if \<not> (cur_is TK_WORD ts \<and> tok_text (cur ts) \<noteq> [] \<and> hd (tok_text (cur ts)) = CHR ''.'') then Inr (p, ts)
      else let t = tok_text (cur ts) in
        if t = ''.ptr'' then parse_param_attrs (p\<lparr> pp_is_pointer := True \<rparr>) (tl ts)
        else if t = ''.global'' \<or> t = ''.shared'' \<or> t = ''.local'' \<or> t = ''.const'' then
          parse_param_attrs (p\<lparr> pp_pointer_space := t \<rparr>) (tl ts)
        else if t = ''.align'' then
          let ts = tl ts in
          if \<not> cur_is TK_INT ts \<or> tok_ival (cur ts) \<le> 0 then Inl ''Expected positive parameter alignment''
          else parse_param_attrs (p\<lparr> pp_alignment := of_int (tok_ival (cur ts)) \<rparr>) (tl ts)
        else Inl (''Unsupported parameter attribute: '' @ t))"
  by pat_completeness auto
termination
  by (relation "measure (length \<circ> snd)") (auto dest!: cur_is_cons)

declare parse_param_attrs.simps [simp del]

lemma parse_param_attrs_shorter: "parse_param_attrs p ts = Inr (p', ts') \<Longrightarrow> length ts' \<le> length ts"
proof (induction "length ts" arbitrary: p ts rule: less_induct)
  case less
  note prem = less.prems [unfolded parse_param_attrs.simps [of p ts] Let_def]
  have IH: "length ts' \<le> length r" if "parse_param_attrs q r = Inr (p', ts')" "length r < length ts" for q r
    using less.hyps that by blast
  show ?case
  proof (cases "cur_is TK_WORD ts")
    case True
    then obtain t r where ts: "ts = t # r" by (auto dest!: cur_is_cons)
    have "length ts' \<le> length r" if "parse_param_attrs q (tl r) = Inr (p', ts')" "r \<noteq> []" for q
      using IH [OF that(1)] that(2) ts by (cases r) auto
    then show ?thesis
      using prem ts IH [of _ r] by (auto simp: le_Suc_eq split: if_splits dest!: cur_is_cons)
  qed (use prem in auto)
qed

definition parse_param :: "u32 \<Rightarrow> Token list \<Rightarrow> PtxParam parsed" where
  "parse_param idx ts =
     (let p = PtxParam_default\<lparr> pp_index := idx \<rparr>; ts = (if cur_word ''.param'' ts then tl ts else ts) in
      if \<not> cur_is TK_WORD ts then Inl ''Expected parameter type''
      else (case parse_param_attrs (p\<lparr> pp_space := tok_text (cur ts) \<rparr>) (tl ts) of Inl e \<Rightarrow> Inl e
            | Inr (p, ts) \<Rightarrow>
                if \<not> cur_is TK_WORD ts then Inl ''Expected param name''
                else Inr (p\<lparr> pp_name := tok_text (cur ts) \<rparr>, tl ts)))"

lemma parse_param_shorter: "parse_param idx ts = Inr (p, ts') \<Longrightarrow> length ts' < length ts"
  by (cases ts) (auto simp: parse_param_def cur_word_def Let_def split: if_splits sum.splits dest!: cur_is_cons parse_param_attrs_shorter)

function parse_params :: "u32 \<Rightarrow> Token list \<Rightarrow> PtxParam list parsed" where
  "parse_params idx ts =
     (if cur_is TK_RPAREN ts \<or> cur_is TK_END ts then Inr ([], ts)
      else (case parse_param idx ts of Inl e \<Rightarrow> Inl e
            | Inr (p, ts1) \<Rightarrow>
                (case parse_params (idx + 1) (skip_if TK_COMMA ts1) of Inl e \<Rightarrow> Inl e
                 | Inr (ps, ts2) \<Rightarrow> Inr (p # ps, ts2))))"
  by pat_completeness auto
termination
proof (relation "measure (length \<circ> snd)", goal_cases)
  case (2 idx ts y x z)
  then show ?case using parse_param_shorter [of idx ts x z] skip_if_shorter [of TK_COMMA z] by simp
qed simp

declare parse_params.simps [simp del]

definition parseParams :: "Token list \<Rightarrow> PtxParam list parsed" where
  "parseParams ts = parse_params 0 ts"

definition reg_type :: "string \<Rightarrow> string option" where
  "reg_type t =
     (if t = ''.pred'' then Some ''pred''
      else if t = ''.u32'' \<or> t = ''.b32'' then Some ''u32''
      else if t = ''.s32'' then Some ''s32''
      else if t = ''.f32'' then Some ''f32''
      else if t = ''.u64'' \<or> t = ''.b64'' \<or> t = ''.s64'' then Some ''b64''
      else None)"

text \<open>The optional count \<open><n>\<close>: without angle brackets it is 1, with nothing between them 0.\<close>

definition parse_count :: "Token list \<Rightarrow> u32 \<times> Token list" where
  "parse_count ts =
     (if cur_is TK_LANGLE ts then
        let ts = tl ts; n = (if cur_is TK_INT ts then of_int (tok_ival (cur ts)) else 0) in
        (n, skip_if TK_RANGLE (skip_if TK_INT ts))
      else (1, ts))"

definition parseRegDecl :: "PtxKernel \<Rightarrow> Token list \<Rightarrow> PtxKernel parsed" where
  "parseRegDecl k ts =
     (let ts = tl ts in
      if \<not> cur_is TK_WORD ts then Inl ''Expected type in .reg decl''
      else let type_str = tok_text (cur ts); ts = tl ts in
        (case reg_type type_str of None \<Rightarrow> Inl (''Unsupported register type: '' @ type_str)
         | Some ty \<Rightarrow>
             if \<not> cur_is TK_PERCENT ts then Inl ''Expected %reg in .reg decl''
             else let prefix = CHR ''%'' # tok_text (cur ts); (n, ts) = parse_count (tl ts) in
               Inr (k\<lparr> pk_reg_decls := pk_reg_decls k @ [\<lparr> rd_prefix = prefix, rd_type = ty, rd_count = n \<rparr>] \<rparr>,
                    skip_if TK_SEMICOLON ts)))"

lemma parse_count_shorter: "parse_count ts = (n, ts') \<Longrightarrow> length ts' \<le> length ts"
  using skip_if_shorter [of TK_RANGLE "skip_if TK_INT (tl ts)"] skip_if_shorter [of TK_INT "tl ts"]
  by (auto simp: parse_count_def Let_def split: if_splits)

lemma parseRegDecl_shorter:
  assumes "parseRegDecl k ts = Inr (k', ts')" shows "length ts' < length ts"
proof -
  obtain n r where "cur_is TK_WORD (tl ts)" "parse_count (tl (tl (tl ts))) = (n, r)" "ts' = skip_if TK_SEMICOLON r"
    using assms by (auto simp: parseRegDecl_def Let_def split: if_splits option.splits prod.splits)
  then show ?thesis
    using parse_count_shorter [of "tl (tl (tl ts))" n r] skip_if_shorter [of TK_SEMICOLON r]
    by (cases ts) (auto dest!: cur_is_cons)
qed

subsection \<open>The kernel\<close>

definition skip_directive :: "Token list \<Rightarrow> Token list" where
  "skip_directive ts =
     skip_if TK_SEMICOLON (dropWhile (\<lambda>t. tok_type t \<notin> {TK_SEMICOLON, TK_RBRACE, TK_END}) ts)"

definition push_instr :: "PtxInstr \<Rightarrow> PtxKernel \<Rightarrow> PtxKernel" where
  "push_instr i k = k\<lparr> pk_body := pk_body k @ [i] \<rparr>"

function parseBody :: "PtxKernel \<Rightarrow> Token list \<Rightarrow> PtxKernel parsed" where
  "parseBody k ts =
     (if cur_is TK_RBRACE ts \<or> cur_is TK_END ts then Inr (k, ts)
      else if cur_word ''.reg'' ts then
        (case parseRegDecl k ts of Inl e \<Rightarrow> Inl e | Inr (k', ts') \<Rightarrow> parseBody k' ts')
      else if cur_is TK_WORD ts \<and> tok_text (cur ts) \<noteq> [] \<and> hd (tok_text (cur ts)) = CHR ''.'' then
        parseBody k (skip_directive ts)
      else if (cur_is TK_DOLLAR ts \<or> cur_is TK_WORD ts) \<and> tok_type (peek ts) = TK_COLON then
        parseBody (push_instr (PtxInstr_default\<lparr> pi_label := tok_text (cur ts) \<rparr>) k) (tl (tl ts))
      else
        (case parseInstr PtxInstr_default ts of Inl e \<Rightarrow> Inl e
         | Inr (i, ts') \<Rightarrow> parseBody (push_instr i k) ts'))"
  by pat_completeness auto
termination
proof (relation "measure (length \<circ> snd)", goal_cases)
  case (2 k ts y x z)
  then show ?case using parseRegDecl_shorter [of k ts x z] by auto
next
  case (3 k ts)
  then obtain t r where ts: "ts = t # r" "tok_type t = TK_WORD" by (auto dest!: cur_is_cons)
  then have "length (skip_directive ts) \<le> length r"
    using length_dropWhile_le [of "\<lambda>t. tok_type t \<notin> {TK_SEMICOLON, TK_RBRACE, TK_END}" r]
      skip_if_shorter [of TK_SEMICOLON "dropWhile (\<lambda>t. tok_type t \<notin> {TK_SEMICOLON, TK_RBRACE, TK_END}) r"]
    by (simp add: skip_directive_def)
  with ts show ?case by simp
next
  case (4 k ts)
  then show ?case by (auto dest!: cur_is_cons)
next
  case (5 k ts y x z)
  then show ?case using parseInstr_shorter [of PtxInstr_default ts x z] by auto
qed simp

declare parseBody.simps [simp del]

definition parse_kernel_params :: "PtxKernel \<Rightarrow> Token list \<Rightarrow> PtxKernel parsed" where
  "parse_kernel_params k ts =
     (if cur_is TK_LPAREN ts then
        (case parseParams (tl ts) of Inl e \<Rightarrow> Inl e
         | Inr (ps, ts) \<Rightarrow>
             (case parse_expect TK_RPAREN [CHR 0x27, CHR '')'', CHR 0x27] ts of Inl e \<Rightarrow> Inl e
              | Inr (_, ts) \<Rightarrow> Inr (k\<lparr> pk_params := pk_params k @ ps \<rparr>, ts)))
      else Inr (k, ts))"

definition skip_to_lbrace :: "Token list \<Rightarrow> Token list" where
  "skip_to_lbrace ts = dropWhile (\<lambda>t. tok_type t \<notin> {TK_LBRACE, TK_END}) ts"

definition parseKernel :: "PtxKernel \<Rightarrow> Token list \<Rightarrow> PtxKernel parsed" where
  "parseKernel k ts =
     (if \<not> cur_is TK_WORD ts then Inl (got ''Expected kernel name after .entry, got '' ts)
      else
        (case parse_kernel_params (k\<lparr> pk_name := tok_text (cur ts) \<rparr>) (tl ts) of Inl e \<Rightarrow> Inl e
         | Inr (k, ts) \<Rightarrow>
             let ts = skip_to_lbrace ts in
             if \<not> cur_is TK_LBRACE ts then Inl (''Expected '' @ [CHR 0x27, CHR ''{'', CHR 0x27])
             else
               (case parseBody k (tl ts) of Inl e \<Rightarrow> Inl e
                | Inr (k, ts) \<Rightarrow>
                    (case parse_expect TK_RBRACE [CHR 0x27, CHR ''}'', CHR 0x27] ts of Inl e \<Rightarrow> Inl e
                     | Inr (_, ts) \<Rightarrow> Inr (k, ts)))))"

text \<open>The scan for the first \<open>.entry\<close>.\<close>

function parse_scan :: "PtxKernel \<Rightarrow> Token list \<Rightarrow> string + PtxKernel" where
  "parse_scan k ts =
     (if cur_is TK_END ts then Inl ''No .entry found in PTX''
      else if cur_word ''.address_size'' ts then
        let ts = tl ts in
        if \<not> cur_is TK_INT ts \<or> tok_ival (cur ts) \<noteq> 32 \<and> tok_ival (cur ts) \<noteq> 64
        then Inl ''.address_size must be 32 or 64''
        else parse_scan (k\<lparr> pk_address_size := of_int (tok_ival (cur ts)), pk_address_size_seen := True \<rparr>) (tl ts)
      else if cur_word ''.entry'' ts then
        (case parseKernel k (tl ts) of Inl e \<Rightarrow> Inl e | Inr (k, _) \<Rightarrow> Inr k)
      else parse_scan k (tl ts))"
  by pat_completeness auto
termination
proof (relation "measure (length \<circ> snd)", goal_cases)
  case (2 k ts x)
  then show ?case by (cases ts) (auto simp: cur_is_def cur_def mk_token_def)
next
  case (3 k ts)
  then show ?case by (cases ts) (simp_all add: cur_is_def cur_def mk_token_def)
qed simp

declare parse_scan.simps [simp del]

text \<open>\<open>PtxParser::parse\<close>: \<open>Inl\<close> is \<open>lastError()\<close> with an empty kernel.\<close>

definition ptx_parse :: "(string \<Rightarrow> double option) \<Rightarrow> string \<Rightarrow> (string + PtxKernel) option" where
  "ptx_parse stod ptx_text =
     (case tokenize stod ptx_text of None \<Rightarrow> None | Some ts \<Rightarrow> Some (parse_scan PtxKernel_default ts))"

end
