(* ===== verification/PtxPrint.thy ===== *)
theory PtxPrint
  imports PtxParser
begin

text \<open>
  The PTX front end reads back what is written down: a printer for syntax trees, and the proof that the tokenizer
  and the parser of \<open>ptx_parser.cpp\<close> recover the tree from its text. The printer separates tokens by
  single spaces. Float literals are left out, since their value is that of \<open>std::stod\<close>.
\<close>

section \<open>Numbers\<close>

fun show_nat :: "nat \<Rightarrow> string" where
  "show_nat n = (if n < 10 then [char_of (48 + n)] else show_nat (n div 10) @ [char_of (48 + n mod 10)])"

declare show_nat.simps [simp del]

text \<open>\<open>std::to_string\<close> and the printing of an \<open>int64_t\<close>.\<close>

definition show_int :: "int \<Rightarrow> string" where
  "show_int i = (if i < 0 then CHR ''-'' # show_nat (nat (- i)) else show_nat (nat i))"

lemma of_char_digit: "n < 10 \<Longrightarrow> of_char (char_of (48 + n :: nat)) = (48 + n :: nat)"
  by simp

lemma isdigit_digit: "n < 10 \<Longrightarrow> isdigit (char_of (48 + n :: nat))"
  by (simp add: isdigit_def char_in_def)

lemma show_nat_digits: "list_all isdigit (show_nat n)"
  by (induction n rule: show_nat.induct) (subst show_nat.simps, simp add: isdigit_digit)

lemma show_nat_ne: "show_nat n \<noteq> []"
  by (subst show_nat.simps) simp

lemma digit_val_digit: "n < 10 \<Longrightarrow> digit_val (char_of (48 + n :: nat)) = int n"
  by (simp add: digit_val_def Let_def)

lemma of_digits_snoc: "of_digits b (ds @ [c]) = b * of_digits b ds + digit_val c"
  by (simp add: of_digits_def)

lemma of_digits_show: "of_digits 10 (show_nat n) = int n"
proof (induction n rule: show_nat.induct)
  case (1 n)
  show ?case
  proof (cases "n < 10")
    case True
    then show ?thesis by (subst show_nat.simps) (simp add: of_digits_def digit_val_digit)
  next
    case False
    have "10 * int (n div 10) + int (n mod 10) = int n" using mult_div_mod_eq [of 10 n] by linarith
    with 1 False show ?thesis
      by (subst show_nat.simps) (simp add: of_digits_snoc digit_val_digit)
  qed
qed

lemma hd_show_nat: "0 < n \<Longrightarrow> hd (show_nat n) \<noteq> CHR ''0''"
proof (induction n rule: show_nat.induct)
  case (1 n)
  show ?case
  proof (cases "n < 10")
    case True
    have "char_of (48 + n) \<noteq> CHR ''0''"
    proof
      assume "char_of (48 + n) = CHR ''0''"
      from arg_cong [OF this, of "of_char :: char \<Rightarrow> nat"] True "1.prems" show False by simp
    qed
    with True show ?thesis by (subst show_nat.simps) simp
  next
    case False
    with 1 show ?thesis by (subst show_nat.simps) (simp add: show_nat_ne)
  qed
qed


lemma takeWhile_stop: "list_all P xs \<Longrightarrow> \<not> P c \<Longrightarrow> takeWhile P (xs @ c # r) = xs"
  by (induction xs) auto

lemma dropWhile_stop: "list_all P xs \<Longrightarrow> \<not> P c \<Longrightarrow> dropWhile P (xs @ c # r) = c # r"
  by (induction xs) auto

lemma takeWhile_all: "list_all P xs \<Longrightarrow> takeWhile P xs = xs"
  by (induction xs) auto

lemma show_nat_Cons: "show_nat n = c # r \<Longrightarrow> isdigit c \<and> list_all isdigit r \<and> (c = CHR ''0'' \<longrightarrow> n = 0 \<and> r = [])"
proof -
  assume s: "show_nat n = c # r"
  have "n = 0 \<and> r = []" if "c = CHR ''0''"
  proof -
    have "n = 0" using hd_show_nat [of n] s that by (cases "0 < n") auto
    with s show ?thesis by (simp add: show_nat.simps)
  qed
  with s show_nat_digits [of n] show ?thesis by simp
qed

lemma strtoll_show: "strtoll_magnitude (show_nat n) = int n"
proof -
  obtain c r where s: "show_nat n = c # r" using show_nat_ne [of n] by (cases "show_nat n") auto
  show ?thesis
  proof (cases "c = CHR ''0''")
    case True
    with show_nat_Cons [OF s] s show ?thesis
      by (simp add: strtoll_magnitude_def of_digits_def char_in_def digit_val_def)
  next
    case False
    have "takeWhile isdigit (c # r) = show_nat n" using show_nat_digits [of n] s by (metis takeWhile_all)
    moreover have "of_digits 10 (c # r) = int n" using of_digits_show [of n] s by simp
    ultimately show ?thesis using False s by (auto simp: strtoll_magnitude_def split: list.splits)
  qed
qed

definition int64_ok :: "int \<Rightarrow> bool" where
  "int64_ok v \<longleftrightarrow> - (2 ^ 63) \<le> v \<and> v < 2 ^ 63"

lemma isdigit_neqs [simp]:
  "\<not> isdigit (CHR '' '')" "\<not> isdigit (CHR ''-'')" "\<not> isdigit (CHR ''/'')" "\<not> isdigit (CHR ''%'')"
  "\<not> isdigit (CHR ''$'')" "\<not> isdigit (CHR ''_'')" "\<not> isdigit (CHR ''.'')" "\<not> isdigit (CHR ''x'')"
  "\<not> isdigit (CHR ''X'')"
  by (simp_all add: isdigit_def char_in_def)

lemma stoll_show: "int64_ok v \<Longrightarrow> stoll (show_int v) = Some v"
proof -
  assume v: "int64_ok v"
  obtain c r where s: "show_nat (nat v) = c # r" using show_nat_ne [of "nat v"] by (cases "show_nat (nat v)") auto
  then have "c \<noteq> CHR ''-''" using show_nat_Cons [OF s] by auto
  with v s strtoll_show [of "nat v"] show ?thesis
    by (auto simp: stoll_def show_int_def strtoll_show int64_ok_def Let_def)
qed

lemma scan_decimal_show: "scan_decimal (show_nat n @ CHR '' '' # r) = (False, show_nat n, CHR '' '' # r)"
  using show_nat_digits [of n]
  by (simp add: scan_decimal_def takeWhile_stop dropWhile_stop scan_fraction_def scan_exponent_def)

lemma scan_unsigned_show: "scan_unsigned (show_nat n @ CHR '' '' # r) = (False, show_nat n, CHR '' '' # r)"
proof -
  obtain c q where s: "show_nat n = c # q" using show_nat_ne [of n] by (cases "show_nat n") auto
  then have "hd (q @ CHR '' '' # r) \<noteq> CHR ''x'' \<and> hd (q @ CHR '' '' # r) \<noteq> CHR ''X''"
    using show_nat_Cons [OF s] by (cases q) auto
  then have "scan_unsigned (show_nat n @ CHR '' '' # r) = scan_decimal (show_nat n @ CHR '' '' # r)"
    using s by (cases q) (auto simp: scan_unsigned_def)
  then show ?thesis by (simp add: scan_decimal_show)
qed

lemma scan_number_show: "scan_number (show_int v @ CHR '' '' # r) = (False, show_int v, CHR '' '' # r)"
proof -
  obtain c q where s: "show_nat (nat v) = c # q" using show_nat_ne [of "nat v"] by (cases "show_nat (nat v)") auto
  then have "c \<noteq> CHR ''-''" using show_nat_Cons [OF s] by auto
  then show ?thesis
    using s scan_unsigned_show [of "nat v" r] scan_unsigned_show [of "nat (- v)" r]
    by (simp add: scan_number_def show_int_def)
qed

section \<open>Tokens\<close>

definition tok_chars :: "Token \<Rightarrow> string" where
  "tok_chars t = (case tok_type t of TK_PERCENT \<Rightarrow> CHR ''%'' # tok_text t | TK_DOLLAR \<Rightarrow> CHR ''$'' # tok_text t
     | _ \<Rightarrow> tok_text t)"

definition unlex :: "Token list \<Rightarrow> string" where
  "unlex ts = concat (map (\<lambda>t. tok_chars t @ '' '') ts)"

definition int_token :: "int \<Rightarrow> Token" where
  "int_token v = (mk_token TK_INT (show_int v))\<lparr> tok_ival := v \<rparr>"

definition is_word :: "string \<Rightarrow> bool" where
  "is_word w \<longleftrightarrow> w \<noteq> [] \<and> (isalpha (hd w) \<or> hd w = CHR ''_'' \<or> hd w = CHR ''.'') \<and> list_all isWordChar w"

definition wf_token :: "Token \<Rightarrow> bool" where
  "wf_token t \<longleftrightarrow>
     (t = mk_token TK_WORD (tok_text t) \<and> is_word (tok_text t)) \<or>
     (t = mk_token TK_PERCENT (tok_text t) \<and> list_all isWordChar (tok_text t)) \<or>
     (t = mk_token TK_DOLLAR (tok_text t) \<and> list_all isLabelChar (tok_text t)) \<or>
     (t = int_token (tok_ival t) \<and> int64_ok (tok_ival t)) \<or>
     (\<exists>c ty. punct c = Some ty \<and> t = mk_token ty [c])"

lemma space_neqs [simp]:
  "isspace (CHR '' '')" "\<not> isWordChar (CHR '' '')" "\<not> isLabelChar (CHR '' '')"
  "\<not> isspace (CHR ''%'')" "\<not> isspace (CHR ''$'')" "\<not> isspace (CHR ''-'')"
  by (simp_all add: isspace_def isWordChar_def isLabelChar_def isalnum_def isalpha_def isdigit_def char_in_def)


lemma char_classes:
  "isalpha c \<or> c = CHR ''_'' \<Longrightarrow> \<not> isspace c \<and> c \<noteq> CHR ''/'' \<and> c \<noteq> CHR ''%'' \<and> c \<noteq> CHR ''$'' \<and> isWordChar c"
  "isdigit c \<Longrightarrow> \<not> isspace c \<and> c \<noteq> CHR ''/'' \<and> c \<noteq> CHR ''%'' \<and> c \<noteq> CHR ''$'' \<and> c \<noteq> CHR ''.'' \<and> c \<noteq> CHR ''_'' \<and> \<not> isalpha c"
  "\<not> isspace (CHR ''.'')" "isWordChar (CHR ''.'')" "\<not> isalpha (CHR ''.'')" "\<not> isalpha (CHR ''-'')"
  by (auto simp: isalpha_def isdigit_def isspace_def isWordChar_def isalnum_def char_in_def)

lemma word_token_lex:
  assumes "is_word w" "w = c # r"
  shows "next_token stod c (r @ CHR '' '' # s) = Some (Some (mk_token TK_WORD w), CHR '' '' # s)"
  using assms char_classes(1) [of c] takeWhile_stop [of isWordChar r] dropWhile_stop [of isWordChar r]
  by (auto simp: is_word_def next_token_def char_classes)

lemma int_token_lex:
  assumes "int64_ok v" "show_int v = c # r"
  shows "\<not> isspace c \<and> c \<noteq> CHR ''/'' \<and>
    next_token stod c (r @ CHR '' '' # s) = Some (Some (int_token v), CHR '' '' # s)"
proof -
  have st: "starts_number c (r @ CHR '' '' # s) \<and> \<not> isspace c \<and> c \<noteq> CHR ''/'' \<and> c \<noteq> CHR ''%'' \<and> c \<noteq> CHR ''$'' \<and>
      \<not> isalpha c \<and> c \<noteq> CHR ''_'' \<and> c \<noteq> CHR ''.''"
  proof (cases "v < 0")
    case True
    then have c: "c = CHR ''-''" "show_nat (nat (- v)) = r" using assms(2) by (auto simp: show_int_def)
    obtain d q where "r = d # q" "isdigit d"
      using show_nat_ne [of "nat (- v)"] show_nat_Cons [of "nat (- v)"] c(2) by (cases r) auto
    with c show ?thesis by (simp add: starts_number_def char_classes)
  next
    case False
    then have "isdigit c" using assms(2) show_nat_Cons [of "nat v"] by (simp add: show_int_def)
    with char_classes(2) [OF this] show ?thesis by (simp add: starts_number_def)
  qed
  have "scan_number (c # r @ CHR '' '' # s) = (False, show_int v, CHR '' '' # s)"
    using scan_number_show [of v s] assms(2) by simp
  with st assms stoll_show [of v] show ?thesis by (simp add: next_token_def int_token_def)
qed

lemma punct_facts:
  assumes "punct c = Some ty"
  shows "\<not> isspace c" "\<not> isalpha c" "\<not> isdigit c" "c \<notin> {CHR ''/'', CHR ''%'', CHR ''$'', CHR ''_'', CHR ''.''}"
    "ty \<noteq> TK_PERCENT" "ty \<noteq> TK_DOLLAR"
  using assms
  by (auto simp: punct_def isspace_def isalpha_def isdigit_def char_in_def split: if_splits)

lemma punct_lex:
  assumes "punct c = Some ty"
  shows "\<not> isspace c \<and> c \<noteq> CHR ''/'' \<and> next_token stod c (CHR '' '' # s) = Some (Some (mk_token ty [c]), CHR '' '' # s)"
  using assms punct_facts [OF assms] by (simp add: next_token_def starts_number_def)

lemma punct_chars: "punct c = Some ty \<Longrightarrow> tok_chars (mk_token ty [c]) = [c]"
  using punct_facts(5,6) [of c ty] by (cases ty) (simp_all add: tok_chars_def mk_token_def)

lemma token_lex:
  assumes "wf_token t"
  shows "\<exists>c r. tok_chars t = c # r \<and> \<not> isspace c \<and> c \<noteq> CHR ''/'' \<and>
    next_token stod c (r @ CHR '' '' # s) = Some (Some t, CHR '' '' # s)"
  using assms unfolding wf_token_def
proof (elim disjE conjE exE)
  assume a: "t = mk_token TK_WORD (tok_text t)" "is_word (tok_text t)"
  then obtain c r where "tok_text t = c # r" by (cases "tok_text t") (auto simp: is_word_def)
  moreover have "tok_chars t = tok_text t" by (subst a(1), subst (2) a(1)) (simp add: tok_chars_def mk_token_def)
  ultimately show ?thesis
    using a word_token_lex [OF a(2), of c r stod s] char_classes(1) [of c] char_classes(3) by (auto simp: is_word_def)
next
  assume a: "t = mk_token TK_PERCENT (tok_text t)" "list_all isWordChar (tok_text t)"
  have "tok_chars t = CHR ''%'' # tok_text t" by (subst a(1), subst (2) a(1)) (simp add: tok_chars_def mk_token_def)
  with a show ?thesis by (simp add: next_token_def takeWhile_stop dropWhile_stop)
next
  assume a: "t = mk_token TK_DOLLAR (tok_text t)" "list_all isLabelChar (tok_text t)"
  have "tok_chars t = CHR ''$'' # tok_text t" by (subst a(1), subst (2) a(1)) (simp add: tok_chars_def mk_token_def)
  with a show ?thesis by (simp add: next_token_def takeWhile_stop dropWhile_stop)
next
  assume a: "t = int_token (tok_ival t)" "int64_ok (tok_ival t)"
  have "tok_chars t = show_int (tok_ival t)"
    by (subst a(1), subst (2) a(1)) (simp add: tok_chars_def mk_token_def int_token_def)
  moreover obtain c r where "show_int (tok_ival t) = c # r"
    using show_nat_ne by (cases "show_int (tok_ival t)") (auto simp: show_int_def split: if_splits)
  ultimately show ?thesis using int_token_lex [OF a(2), of c r stod s] a(1) by simp
next
  fix c ty assume "punct c = Some ty" "t = mk_token ty [c]"
  then show ?thesis using punct_lex [of c ty stod s] by (simp add: punct_chars)
qed

lemma tokenize_unlex: "list_all wf_token ts \<Longrightarrow> tokenize stod (unlex ts) = Some (ts @ [mk_token TK_END []])"
proof (induction ts)
  case Nil
  then show ?case by (simp add: unlex_def tokenize.simps)
next
  case (Cons t ts)
  obtain c r where c: "tok_chars t = c # r" "\<not> isspace c" "c \<noteq> CHR ''/''"
      "next_token stod c (r @ CHR '' '' # unlex ts) = Some (Some t, CHR '' '' # unlex ts)"
    using token_lex [of t stod "unlex ts"] Cons.prems by auto
  have "tokenize stod (CHR '' '' # unlex ts) = tokenize stod (unlex ts)" by (subst tokenize.simps) simp
  moreover have "unlex (t # ts) = c # r @ CHR '' '' # unlex ts" using c(1) by (simp add: unlex_def)
  ultimately show ?case using c Cons by (subst tokenize.simps) simp
qed


section \<open>Syntax trees\<close>

definition reg_token :: "string \<Rightarrow> Token" where "reg_token r = mk_token TK_PERCENT r"
definition word_token :: "string \<Rightarrow> Token" where "word_token w = mk_token TK_WORD w"
definition label_token :: "string \<Rightarrow> Token" where "label_token l = mk_token TK_DOLLAR l"
definition sym :: "TK \<Rightarrow> char \<Rightarrow> Token" where "sym ty c = mk_token ty [c]"

definition operand_tokens :: "PtxOperand \<Rightarrow> Token list" where
  "operand_tokens p = (case op_kind p of
       K_Reg \<Rightarrow> [reg_token (op_name p)]
     | K_SpecialReg \<Rightarrow> [reg_token (op_name p)]
     | K_IntImm \<Rightarrow> [int_token (op_int_val p)]
     | K_FltImm \<Rightarrow> []
     | K_Label \<Rightarrow> [label_token (op_name p)]
     | K_MemRef \<Rightarrow>
         sym TK_LBRACKET (CHR ''['') #
         (if op_mem_base p \<noteq> [] then reg_token (op_mem_base p) else word_token (op_param_name p)) #
         (if op_mem_offset p \<noteq> 0 then [sym TK_PLUS (CHR ''+''), int_token (op_mem_offset p)] else []) @
         [sym TK_RBRACKET (CHR '']'')])"

fun sep_by_comma :: "Token list list \<Rightarrow> Token list" where
  "sep_by_comma [] = []"
| "sep_by_comma [x] = x"
| "sep_by_comma (x # xs) = x @ sym TK_COMMA (CHR '','') # sep_by_comma xs"

definition instr_tokens :: "PtxInstr \<Rightarrow> Token list" where
  "instr_tokens i =
     (if pi_label i \<noteq> [] then [label_token (pi_label i), sym TK_COLON (CHR '':'')]
      else (if pi_pred i \<noteq> [] then sym TK_AT (CHR ''@'') #
              (if pi_pred_not i then [sym TK_BANG (CHR ''!'')] else []) @ [reg_token (pi_pred i)] else []) @
        word_token (pi_op i) # sep_by_comma (map operand_tokens (pi_operands i)) @ [sym TK_SEMICOLON (CHR '';'')])"

definition decl_tokens :: "PtxRegDecl \<Rightarrow> Token list" where
  "decl_tokens d = [word_token ''.reg'', word_token (CHR ''.'' # rd_type d), reg_token (tl (rd_prefix d)),
     sym TK_LANGLE (CHR ''<''), int_token (int (unat (rd_count d))), sym TK_RANGLE (CHR ''>''),
     sym TK_SEMICOLON (CHR '';'')]"

definition param_tokens :: "PtxParam \<Rightarrow> Token list" where
  "param_tokens p = [word_token ''.param'', word_token (pp_space p)] @
     (if pp_is_pointer p then [word_token ''.ptr''] else []) @
     (if pp_pointer_space p \<noteq> [] then [word_token (pp_pointer_space p)] else []) @
     (if pp_alignment p \<noteq> 0 then [word_token ''.align'', int_token (int (unat (pp_alignment p)))] else []) @
     [word_token (pp_name p)]"

definition kernel_tokens :: "PtxKernel \<Rightarrow> Token list" where
  "kernel_tokens k =
     (if pk_address_size_seen k
      then [word_token ''.address_size'', int_token (int (unat (pk_address_size k)))] else []) @
     [word_token ''.entry'', word_token (pk_name k), sym TK_LPAREN (CHR ''('')] @
     sep_by_comma (map param_tokens (pk_params k)) @ [sym TK_RPAREN (CHR '')''), sym TK_LBRACE (CHR ''{'')] @
     concat (map decl_tokens (pk_reg_decls k)) @ concat (map instr_tokens (pk_body k)) @ [sym TK_RBRACE (CHR ''}'')]"

definition print_kernel :: "PtxKernel \<Rightarrow> string" where
  "print_kernel k = unlex (kernel_tokens k)"

text \<open>The trees that the printer writes faithfully: names are in the token classes they are printed as, and a field that
  the kind does not use has its default.\<close>

definition wf_operand :: "PtxOperand \<Rightarrow> bool" where
  "wf_operand p \<longleftrightarrow> (case op_kind p of
       K_Reg \<Rightarrow> p = PtxOperand_default\<lparr> op_kind := K_Reg, op_name := op_name p \<rparr> \<and>
         list_all isWordChar (op_name p) \<and> \<not> special_reg_name (op_name p)
     | K_SpecialReg \<Rightarrow> p = PtxOperand_default\<lparr> op_kind := K_SpecialReg, op_name := op_name p \<rparr> \<and>
         list_all isWordChar (op_name p) \<and> special_reg_name (op_name p)
     | K_IntImm \<Rightarrow> p = PtxOperand_default\<lparr> op_int_val := op_int_val p \<rparr> \<and> int64_ok (op_int_val p)
     | K_FltImm \<Rightarrow> False
     | K_Label \<Rightarrow> p = PtxOperand_default\<lparr> op_kind := K_Label, op_name := op_name p \<rparr> \<and>
         list_all isLabelChar (op_name p)
     | K_MemRef \<Rightarrow> int64_ok (op_mem_offset p) \<and>
         (if op_mem_base p \<noteq> []
          then list_all isWordChar (op_mem_base p) \<and>
            p = PtxOperand_default\<lparr> op_kind := K_MemRef, op_mem_base := op_mem_base p, op_mem_offset := op_mem_offset p \<rparr>
          else is_word (op_param_name p) \<and>
            p = PtxOperand_default\<lparr> op_kind := K_MemRef, op_param_name := op_param_name p, op_mem_offset := op_mem_offset p \<rparr>))"

definition is_plain_word :: "string \<Rightarrow> bool" where
  "is_plain_word w \<longleftrightarrow> is_word w \<and> hd w \<noteq> CHR ''.''"

definition wf_instr :: "PtxInstr \<Rightarrow> bool" where
  "wf_instr i \<longleftrightarrow>
     (if pi_label i \<noteq> [] then i = PtxInstr_default\<lparr> pi_label := pi_label i \<rparr> \<and> list_all isLabelChar (pi_label i)
      else is_plain_word (pi_op i) \<and> list_all wf_operand (pi_operands i) \<and> list_all isWordChar (pi_pred i) \<and>
        (pi_pred i = [] \<longrightarrow> \<not> pi_pred_not i))"

definition wf_decl :: "PtxRegDecl \<Rightarrow> bool" where
  "wf_decl d \<longleftrightarrow> rd_prefix d \<noteq> [] \<and> hd (rd_prefix d) = CHR ''%'' \<and> list_all isWordChar (tl (rd_prefix d)) \<and>
     rd_type d \<in> {''pred'', ''u32'', ''s32'', ''f32'', ''b64''}"

definition wf_param :: "PtxParam \<Rightarrow> bool" where
  "wf_param p \<longleftrightarrow> is_word (pp_space p) \<and> pp_space p \<noteq> ''.param'' \<and> is_plain_word (pp_name p) \<and>
     pp_pointer_space p \<in> {[], ''.global'', ''.shared'', ''.local'', ''.const''}"

definition wf_kernel :: "PtxKernel \<Rightarrow> bool" where
  "wf_kernel k \<longleftrightarrow> is_word (pk_name k) \<and> list_all wf_decl (pk_reg_decls k) \<and> list_all wf_instr (pk_body k) \<and>
     list_all wf_param (pk_params k) \<and> map pp_index (pk_params k) = map of_nat [0..<length (pk_params k)] \<and>
     (if pk_address_size_seen k then pk_address_size k = 32 \<or> pk_address_size k = 64 else pk_address_size k = 32)"

section \<open>Parsing what was printed\<close>

lemma cur_simps [simp]: "cur (t # ts) = t" "peek (t # ts) = cur ts" "cur_is ty (t # ts) = (tok_type t = ty)"
  by (simp_all add: cur_def peek_def cur_is_def)

lemma cur_word_Cons [simp]: "cur_word w (t # ts) = (tok_type t = TK_WORD \<and> tok_text t = w)"
  by (simp add: cur_word_def)

lemma tok_simps [simp]:
  "tok_type (mk_token ty s) = ty" "tok_text (mk_token ty s) = s" "tok_type (int_token v) = TK_INT"
  "tok_ival (int_token v) = v" "tok_type (reg_token s) = TK_PERCENT" "tok_text (reg_token s) = s"
  "tok_type (word_token s) = TK_WORD" "tok_text (word_token s) = s" "tok_type (label_token s) = TK_DOLLAR"
  "tok_text (label_token s) = s" "tok_type (sym ty c) = ty" "tok_text (sym ty c) = [c]"
  by (simp_all add: mk_token_def int_token_def reg_token_def word_token_def label_token_def sym_def)

lemma parse_operand_print:
  assumes "wf_operand p"
  shows "parseOperand PtxOperand_default (operand_tokens p @ ts) = Inr (p, ts)"
  using assms
  by (cases "op_kind p")
    (auto simp: wf_operand_def operand_tokens_def parseOperand_def parseMemRef_def parse_reg_offset_def
      parse_param_offset_def PtxOperand_default_def Let_def split: if_splits)


lemma operand_tokens_head:
  assumes "wf_operand p"
  shows "\<exists>t r. operand_tokens p = t # r \<and>
    tok_type t \<in> {TK_PERCENT, TK_INT, TK_DOLLAR, TK_LBRACKET}"
  using assms by (cases "op_kind p") (simp_all add: operand_tokens_def wf_operand_def)

lemma skip_if_Cons [simp]: "skip_if ty (t # ts) = (if tok_type t = ty then ts else t # ts)"
  by (simp add: skip_if_def)

lemma operands_end_Cons [simp]:
  "operands_end (t # ts) \<longleftrightarrow> tok_type t \<in> {TK_SEMICOLON, TK_RBRACE, TK_END}"
  by (auto simp: operands_end_def)

lemma parse_operands_print:
  "list_all wf_operand ps \<Longrightarrow>
   parse_operands (sep_by_comma (map operand_tokens ps) @ sym TK_SEMICOLON c # ts) =
     Inr (ps, sym TK_SEMICOLON c # ts)"
proof (induction ps)
  case Nil
  then show ?case by (simp add: parse_operands.simps)
next
  case (Cons p ps)
  obtain t r where t: "operand_tokens p = t # r" "\<not> operands_end (t # q)" for q
    using operand_tokens_head [of p] Cons.prems by auto
  define tail where "tail = (if ps = [] then sym TK_SEMICOLON c # ts
    else sym TK_COMMA (CHR '','') # sep_by_comma (map operand_tokens ps) @ sym TK_SEMICOLON c # ts)"
  have "sep_by_comma (map operand_tokens (p # ps)) @ sym TK_SEMICOLON c # ts = operand_tokens p @ tail"
    by (cases ps) (simp_all add: tail_def)
  moreover have "parseOperand PtxOperand_default (operand_tokens p @ tail) = Inr (p, tail)"
    using Cons.prems by (simp add: parse_operand_print)
  moreover have "parse_operands (skip_if TK_COMMA tail) = Inr (ps, sym TK_SEMICOLON c # ts)"
    using Cons by (cases ps) (simp_all add: tail_def parse_operands.simps)
  ultimately show ?case using t by (subst parse_operands.simps) simp
qed

lemma parseInstr_print:
  assumes "wf_instr i" "pi_label i = []"
  shows "parseInstr PtxInstr_default (instr_tokens i @ ts) = Inr (i, ts)"
  using assms parse_operands_print [of "pi_operands i" "CHR '';''" ts]
  by (auto simp: wf_instr_def instr_tokens_def parseInstr_def parse_pred_def PtxInstr_default_def Let_def)

lemma operand_first_not_colon:
  assumes "list_all wf_operand ps"
  shows "tok_type (cur (sep_by_comma (map operand_tokens ps) @ sym TK_SEMICOLON c # ts)) \<noteq> TK_COLON"
proof (cases ps)
  case (Cons p qs)
  then show ?thesis using operand_tokens_head [of p] assms by (cases qs) auto
qed simp

lemma plain_word_facts: "is_plain_word w \<Longrightarrow> w \<noteq> [] \<and> hd w \<noteq> CHR ''.'' \<and> w \<noteq> ''.reg''"
  by (auto simp: is_plain_word_def is_word_def)

lemma parseBody_print_instr:
  assumes "wf_instr i"
  shows "parseBody k (instr_tokens i @ ts) = parseBody (push_instr i k) ts"
proof (cases "pi_label i = []")
  case False
  then have "i = PtxInstr_default\<lparr> pi_label := pi_label i \<rparr>" using assms by (simp add: wf_instr_def)
  then show ?thesis using False by (subst parseBody.simps) (simp add: instr_tokens_def cur_word_def)
next
  case True
  then have w: "is_plain_word (pi_op i)" and ops: "list_all wf_operand (pi_operands i)"
    using assms by (simp_all add: wf_instr_def)
  show ?thesis
  proof (cases "pi_pred i = []")
    case True
    then show ?thesis
      using parseInstr_print [OF assms \<open>pi_label i = []\<close>, of ts] plain_word_facts [OF w] \<open>pi_label i = []\<close>
        operand_first_not_colon [OF ops, of "CHR '';''" ts]
      by (subst parseBody.simps) (simp add: instr_tokens_def cur_word_def)
  next
    case False
    then show ?thesis
      using parseInstr_print [OF assms \<open>pi_label i = []\<close>, of ts] \<open>pi_label i = []\<close>
      by (subst parseBody.simps) (simp add: instr_tokens_def cur_word_def)
  qed
qed

lemma parseBody_print_instrs:
  "list_all wf_instr is \<Longrightarrow>
   parseBody k (concat (map instr_tokens is) @ ts) = parseBody (k\<lparr> pk_body := pk_body k @ is \<rparr>) ts"
proof (induction "is" arbitrary: k)
  case (Cons i "is")
  then show ?case by (simp add: parseBody_print_instr push_instr_def)
qed simp

lemma parseRegDecl_print:
  assumes "wf_decl d"
  shows "parseRegDecl k (decl_tokens d @ ts) = Inr (k\<lparr> pk_reg_decls := pk_reg_decls k @ [d] \<rparr>, ts)"
proof -
  have "CHR ''%'' # tl (rd_prefix d) = rd_prefix d"
    using assms by (cases "rd_prefix d") (simp_all add: wf_decl_def)
  moreover have "reg_type (CHR ''.'' # rd_type d) = Some (rd_type d)"
    using assms by (auto simp: wf_decl_def reg_type_def)
  ultimately show ?thesis by (simp add: parseRegDecl_def decl_tokens_def parse_count_def)
qed

lemma parseBody_print_decls:
  "list_all wf_decl ds \<Longrightarrow>
   parseBody k (concat (map decl_tokens ds) @ ts) = parseBody (k\<lparr> pk_reg_decls := pk_reg_decls k @ ds \<rparr>) ts"
proof (induction ds arbitrary: k)
  case (Cons d ds)
  have "parseBody k (decl_tokens d @ us) = parseBody (k\<lparr> pk_reg_decls := pk_reg_decls k @ [d] \<rparr>) us" for us
    using parseRegDecl_print [of d k us] Cons.prems by (subst parseBody.simps) (simp add: decl_tokens_def)
  with Cons show ?case by simp
qed simp

lemma parse_param_print:
  assumes "wf_param p" "pp_index p = idx" "tok_type t \<noteq> TK_WORD"
  shows "parse_param idx (param_tokens p @ t # ts) = Inr (p, t # ts)"
proof -
  have "parse_param_attrs q (word_token (pp_name p) # t # ts) = Inr (q, word_token (pp_name p) # t # ts)" for q
    using assms plain_word_facts [of "pp_name p"] by (simp add: wf_param_def parse_param_attrs.simps)
  then show ?thesis
    using assms
    by (auto simp: wf_param_def param_tokens_def parse_param_def PtxParam_default_def Let_def uint_0_iff
      parse_param_attrs.simps [of _ "word_token ''.ptr'' # _"] parse_param_attrs.simps [of _ "word_token ''.align'' # _"]
      parse_param_attrs.simps [of _ "word_token ''.global'' # _"] parse_param_attrs.simps [of _ "word_token ''.shared'' # _"]
      parse_param_attrs.simps [of _ "word_token ''.local'' # _"] parse_param_attrs.simps [of _ "word_token ''.const'' # _"])
qed


lemma parse_params_print:
  "list_all wf_param ps \<Longrightarrow> map pp_index ps = map (\<lambda>j. idx + of_nat j) [0..<length ps] \<Longrightarrow>
   parse_params idx (sep_by_comma (map param_tokens ps) @ sym TK_RPAREN c # ts) = Inr (ps, sym TK_RPAREN c # ts)"
proof (induction ps arbitrary: idx)
  case Nil
  then show ?case by (simp add: parse_params.simps)
next
  case (Cons p ps)
  define tail where "tail = (if ps = [] then sym TK_RPAREN c # ts
    else sym TK_COMMA (CHR '','') # sep_by_comma (map param_tokens ps) @ sym TK_RPAREN c # ts)"
  have ix: "pp_index p = idx" "map pp_index ps = map (\<lambda>j. (idx + 1) + of_nat j) [0..<length ps]"
    using Cons.prems(2) by (simp_all add: upt_conv_Cons map_Suc_upt [symmetric] algebra_simps del: upt_Suc)
  have "sep_by_comma (map param_tokens (p # ps)) @ sym TK_RPAREN c # ts = param_tokens p @ tail"
    by (cases ps) (simp_all add: tail_def)
  moreover obtain t r where "tail = t # r" "tok_type t \<noteq> TK_WORD" by (cases ps) (simp_all add: tail_def)
  then have "parse_param idx (param_tokens p @ tail) = Inr (p, tail)"
    using parse_param_print [of p idx t r] Cons.prems(1) ix(1) by simp
  moreover have "parse_params (idx + 1) (skip_if TK_COMMA tail) = Inr (ps, sym TK_RPAREN c # ts)"
  proof (cases "ps = []")
    case False
    then show ?thesis using Cons.IH [OF _ ix(2)] Cons.prems(1) by (simp add: tail_def)
  qed (simp add: tail_def parse_params.simps)
  moreover have "\<exists>u. param_tokens p @ tail = word_token ''.param'' # u" by (simp add: param_tokens_def)
  ultimately show ?case by (subst parse_params.simps) auto
qed

lemma parseKernel_print:
  assumes "wf_kernel k" "pk_params k0 = []" "pk_reg_decls k0 = []" "pk_body k0 = []"
    "pk_address_size k0 = pk_address_size k" "pk_address_size_seen k0 = pk_address_size_seen k"
  shows "parseKernel k0 (word_token (pk_name k) # sym TK_LPAREN (CHR ''('') #
      sep_by_comma (map param_tokens (pk_params k)) @ sym TK_RPAREN (CHR '')'') # sym TK_LBRACE (CHR ''{'') #
      concat (map decl_tokens (pk_reg_decls k)) @ concat (map instr_tokens (pk_body k)) @
      sym TK_RBRACE (CHR ''}'') # ts) = Inr (k, ts)"
proof -
  have "parse_params 0 (sep_by_comma (map param_tokens (pk_params k)) @ sym TK_RPAREN (CHR '')'') # us) =
      Inr (pk_params k, sym TK_RPAREN (CHR '')'') # us)" for us
    using assms(1) by (intro parse_params_print) (simp_all add: wf_kernel_def)
  then show ?thesis
    using assms
    by (simp add: parseKernel_def parse_kernel_params_def parseParams_def parse_expect_def skip_to_lbrace_def
      parseBody_print_decls parseBody_print_instrs wf_kernel_def parseBody.simps [of _ "sym TK_RBRACE _ # _"])
qed

lemma parse_scan_print:
  assumes "wf_kernel k" shows "parse_scan PtxKernel_default (kernel_tokens k @ ts) = Inr k"
proof (cases "pk_address_size_seen k")
  case True
  then have "uint (pk_address_size k) = 32 \<or> uint (pk_address_size k) = 64"
    using assms by (auto simp: wf_kernel_def)
  with True assms show ?thesis
    by (simp add: kernel_tokens_def PtxKernel_default_def parse_scan.simps parseKernel_print Let_def)
next
  case False
  with assms show ?thesis
    by (simp add: kernel_tokens_def PtxKernel_default_def parse_scan.simps parseKernel_print wf_kernel_def)
qed

subsection \<open>The printed tokens are in their classes\<close>

lemma wf_tokens [simp]:
  "is_word w \<Longrightarrow> wf_token (word_token w)" "list_all isWordChar w \<Longrightarrow> wf_token (reg_token w)"
  "list_all isLabelChar w \<Longrightarrow> wf_token (label_token w)" "int64_ok v \<Longrightarrow> wf_token (int_token v)"
  "punct c = Some ty \<Longrightarrow> wf_token (sym ty c)"
  by (simp_all add: wf_token_def word_token_def reg_token_def label_token_def sym_def tok_simps)
    (auto simp: word_token_def reg_token_def label_token_def sym_def)

lemma u32_int64 [simp]: "int64_ok (uint (w :: u32))"
  using uint_bounded [of w] by (auto simp: int64_ok_def intro: order_trans [of _ 0])

lemma sep_by_comma_all: "list_all P (sep_by_comma xss) \<longleftrightarrow> list_all (list_all P) xss \<and> (2 \<le> length xss \<longrightarrow> P (sym TK_COMMA (CHR '','')))"
  by (induction xss rule: sep_by_comma.induct) auto

lemma literal_words [simp]:
  "is_word ''.reg''" "is_word ''.param''" "is_word ''.ptr''" "is_word ''.align''" "is_word ''.entry''"
  "is_word ''.address_size''" "is_word ''.global''" "is_word ''.shared''" "is_word ''.local''" "is_word ''.const''"
  "is_word ''.pred''" "is_word ''.u32''" "is_word ''.s32''" "is_word ''.f32''" "is_word ''.b64''"
  by (simp_all add: is_word_def isWordChar_def isalnum_def isalpha_def isdigit_def char_in_def)

lemma punct_simps [simp]:
  "punct (CHR ''('') = Some TK_LPAREN" "punct (CHR '')'') = Some TK_RPAREN" "punct (CHR ''{'') = Some TK_LBRACE"
  "punct (CHR ''}'') = Some TK_RBRACE" "punct (CHR ''<'') = Some TK_LANGLE" "punct (CHR ''>'') = Some TK_RANGLE"
  "punct (CHR ''['') = Some TK_LBRACKET" "punct (CHR '']'') = Some TK_RBRACKET" "punct (CHR '','') = Some TK_COMMA"
  "punct (CHR '';'') = Some TK_SEMICOLON" "punct (CHR '':'') = Some TK_COLON" "punct (CHR ''@'') = Some TK_AT"
  "punct (CHR ''!'') = Some TK_BANG" "punct (CHR ''+'') = Some TK_PLUS"
  by (simp_all add: punct_def)

lemma wf_operand_tokens: "wf_operand p \<Longrightarrow> list_all wf_token (operand_tokens p)"
  by (cases "op_kind p") (auto simp: wf_operand_def operand_tokens_def split: if_splits)

lemma sep_by_comma_wf:
  "list_all Q xs \<Longrightarrow> (\<And>x. Q x \<Longrightarrow> list_all wf_token (f x)) \<Longrightarrow> list_all wf_token (sep_by_comma (map f xs))"
  unfolding sep_by_comma_all by (auto simp: list_all_iff)

lemma wf_instr_tokens: "wf_instr i \<Longrightarrow> list_all wf_token (instr_tokens i)"
  using sep_by_comma_wf [of wf_operand "pi_operands i" operand_tokens, OF _ wf_operand_tokens]
  by (auto simp: wf_instr_def instr_tokens_def is_plain_word_def split: if_splits)

lemma wf_decl_tokens: "wf_decl d \<Longrightarrow> list_all wf_token (decl_tokens d)"
  by (auto simp: wf_decl_def decl_tokens_def)

lemma wf_param_tokens: "wf_param p \<Longrightarrow> list_all wf_token (param_tokens p)"
  by (auto simp: wf_param_def param_tokens_def is_plain_word_def)

lemma concat_wf:
  "list_all Q xs \<Longrightarrow> (\<And>x. Q x \<Longrightarrow> list_all wf_token (f x)) \<Longrightarrow> list_all wf_token (concat (map f xs))"
  by (auto simp: list_all_iff)

lemma wf_kernel_tokens: "wf_kernel k \<Longrightarrow> list_all wf_token (kernel_tokens k)"
  using sep_by_comma_wf [of wf_param "pk_params k" param_tokens, OF _ wf_param_tokens]
    concat_wf [of wf_instr "pk_body k" instr_tokens, OF _ wf_instr_tokens]
    concat_wf [of wf_decl "pk_reg_decls k" decl_tokens, OF _ wf_decl_tokens]
  by (auto simp: wf_kernel_def kernel_tokens_def)

section \<open>The property\<close>

text \<open>C12: the front end recovers every well-formed kernel from its text: name, address size,
  parameters with their attributes, register declarations, labels, predicates and operands.\<close>

theorem parse_print_kernel:
  assumes "wf_kernel k"
  shows "ptx_parse stod (print_kernel k) = Some (Inr k)"
  using tokenize_unlex [OF wf_kernel_tokens [OF assms], of stod] parse_scan_print [OF assms]
  by (simp add: ptx_parse_def print_kernel_def)

definition reg_opd :: "string \<Rightarrow> PtxOperand" where
  "reg_opd r = PtxOperand_default\<lparr> op_kind := K_Reg, op_name := r \<rparr>"
definition mem_opd :: "string \<Rightarrow> int \<Rightarrow> PtxOperand" where
  "mem_opd r n = PtxOperand_default\<lparr> op_kind := K_MemRef, op_mem_base := r, op_mem_offset := n \<rparr>"
definition ins :: "string \<Rightarrow> PtxOperand list \<Rightarrow> PtxInstr" where
  "ins opc ops = PtxInstr_default\<lparr> pi_op := opc, pi_operands := ops \<rparr>"

definition sample_kernel :: PtxKernel where
  "sample_kernel = \<lparr> pk_name = ''k'', pk_address_size = 64, pk_address_size_seen = True,
     pk_params = [PtxParam_default\<lparr> pp_space := ''.u64'', pp_name := ''p0'', pp_is_pointer := True,
                    pp_pointer_space := ''.global'', pp_alignment := 4 \<rparr>,
                  PtxParam_default\<lparr> pp_space := ''.u32'', pp_name := ''p1'', pp_index := 1 \<rparr>],
     pk_reg_decls = [\<lparr> rd_prefix = ''%rd'', rd_type = ''b64'', rd_count = 3 \<rparr>],
     pk_body = [ins ''add.u32'' [reg_opd ''r1'', reg_opd ''r2'', PtxOperand_default\<lparr> op_int_val := - 5 \<rparr>],
                PtxInstr_default\<lparr> pi_label := ''L1'' \<rparr>,
                ins ''ld.global.u32'' [reg_opd ''r3'', mem_opd ''rd1'' (- 8)],
                (ins ''bra'' [PtxOperand_default\<lparr> op_kind := K_Label, op_name := ''L1'' \<rparr>])
                  \<lparr> pi_pred := ''p1'', pi_pred_not := True \<rparr>,
                ins ''ret'' []] \<rparr>"

lemma sample_kernel_wf: "wf_kernel sample_kernel"
  by (simp add: wf_kernel_def sample_kernel_def ins_def reg_opd_def mem_opd_def PtxInstr_default_def PtxParam_default_def
    PtxOperand_default_def wf_decl_def wf_instr_def wf_param_def wf_operand_def is_plain_word_def is_word_def isWordChar_def
    isLabelChar_def isalnum_def isalpha_def isdigit_def char_in_def special_reg_name_def starts_with_def int64_ok_def)

theorem parse_print_kernel_witness:
  "ptx_parse (\<lambda>_. None) (print_kernel sample_kernel) = Some (Inr sample_kernel)"
  by (rule parse_print_kernel [OF sample_kernel_wf])

end
