(* ===== verification/RvEmitter.thy ===== *)
theory RvEmitter
  imports PtxPrint "HOL-Library.State_Monad"
begin

text \<open>
  The PTX back end: \<open>RvEmitter\<close> of \<open>driver/src/ptx_transpiler/rv_emitter.{h,cpp}\<close>, which turns
  a kernel into RV32IMF assembly text. The members of the class are the state of a state monad; the
  output stream is the field \<open>em_out\<close>, a list of lines whose text is \<open>render\<close>. An instruction line
  keeps its mnemonic (with the padding the code writes), its operands and its comment apart. A signed
  overflow or an endless shift, where the behaviour of the C++ code is undefined, sets
  \<open>em_undefined\<close>, which is not in the code.
\<close>

section \<open>Assembly text\<close>

datatype asm_arg = RegA string | ImmA int | MemA int string | SymA string | SharedBaseA

datatype asm_line = Ins string "asm_arg list" string | LabelL string | WordL u32 | TextL string

fun show_hex :: "nat \<Rightarrow> string" where
  "show_hex n = (let d = char_of (if n mod 16 < 10 then 48 + n mod 16 else 87 + n mod 16)
                 in if n < 16 then [d] else show_hex (n div 16) @ [d])"

declare show_hex.simps [simp del]

fun render_arg :: "asm_arg \<Rightarrow> string" where
  "render_arg (RegA r) = r"
| "render_arg (ImmA i) = show_int i"
| "render_arg (MemA off b) = show_int off @ ''('' @ b @ '')''"
| "render_arg (SymA s) = s"
| "render_arg SharedBaseA = ''0x00400000''"

fun join_args :: "string list \<Rightarrow> string" where
  "join_args [] = []"
| "join_args [x] = x"
| "join_args (x # xs) = x @ '', '' @ join_args xs"

fun render :: "asm_line \<Rightarrow> string" where
  "render (Ins m args cmt) = ''    '' @ m @ (if args = [] then [] else '' '') @ join_args (map render_arg args) @ cmt @ [CHR 0x0A]"
| "render (LabelL l) = l @ '':'' @ [CHR 0x0A]"
| "render (WordL w) = ''    .4byte 0x'' @ show_hex (unat w) @ [CHR 0x0A]"
| "render (TextL s) = s @ [CHR 0x0A]"

section \<open>The emitter\<close>

record RvEmitter =
  em_error :: string
  em_ireg_map :: "string \<rightharpoonup> string"
  em_freg_map :: "string \<rightharpoonup> string"
  em_wide_regs :: "string list"
  em_next_ireg :: nat
  em_next_freg :: nat
  em_address_size :: u32
  em_params :: "PtxParam list"
  em_out :: "asm_line list"
  em_undefined :: bool

type_synonym 'a emit = "(RvEmitter, 'a) state"

definition kIRegs :: "string list" where
  "kIRegs = [''t0'',''t1'',''t2'',''t3'',''t4'',''t5'',
     ''s0'',''s1'',''s2'',''s3'',''s4'',''s5'',''s6'',''s7'',''s8'',''s9'',''s10'',''s11'']"
definition kFRegs :: "string list" where
  "kFRegs = [''fa0'',''fa1'',''fa2'',''fa3'',''fa4'',''fa5'',''fa6'',''fa7'',
     ''ft0'',''ft1'',''ft2'',''ft3'',''ft4'',''ft5'',''ft6'',''ft7'',''ft8'',''ft9'',''ft10'',''ft11'']"
definition kParamRegs :: "string list" where
  "kParamRegs = [''a0'',''a1'',''a2'',''a3'',''a4'',''a5'',''a6'',''a7'']"

definition specialRegOffset :: "string \<Rightarrow> int" where
  "specialRegOffset name =
     (if name = ''tid.x'' then 0
      else if name = ''tid.y'' then 4
      else if name = ''tid.z'' then 8
      else if name = ''ctaid.x'' then 12
      else if name = ''ctaid.y'' then 16
      else if name = ''ctaid.z'' then 20
      else if name = ''ntid.x'' then 24
      else if name = ''ntid.y'' then 28
      else if name = ''ntid.z'' then 32
      else - 1)"

definition strip_percent :: "string \<Rightarrow> string" where
  "strip_percent p = (if p \<noteq> [] \<and> hd p = CHR ''%'' then tl p else p)"

definition wide_reg_names :: "PtxRegDecl list \<Rightarrow> string list" where
  "wide_reg_names ds = concat (map (\<lambda>d. if rd_type d \<noteq> ''b64'' then []
     else map (\<lambda>i. strip_percent (rd_prefix d) @ show_nat i) [0..<unat (rd_count d)]) ds)"

definition buildRegMaps :: "PtxKernel \<Rightarrow> RvEmitter \<Rightarrow> RvEmitter" where
  "buildRegMaps k s = s\<lparr> em_ireg_map := Map.empty, em_freg_map := Map.empty,
     em_wide_regs := wide_reg_names (pk_reg_decls k), em_next_ireg := 0, em_next_freg := 0,
     em_address_size := pk_address_size k, em_params := pk_params k \<rparr>"

definition emit_line :: "asm_line \<Rightarrow> unit emit" where
  "emit_line l = State (\<lambda>s. ((), s\<lparr> em_out := em_out s @ [l] \<rparr>))"

definition reject :: "string \<Rightarrow> unit emit" where
  "reject message = State (\<lambda>s. ((), if em_error s = [] then s\<lparr> em_error := message \<rparr> else s))"

definition set_error :: "string \<Rightarrow> unit emit" where
  "set_error message = State (\<lambda>s. ((), s\<lparr> em_error := message \<rparr>))"

definition undefined_behaviour :: "unit emit" where
  "undefined_behaviour = State (\<lambda>s. ((), s\<lparr> em_undefined := True \<rparr>))"

definition skip :: "unit emit" where
  "skip = State_Monad.return ()"

definition out_of_regs :: "string \<Rightarrow> string \<Rightarrow> string" where
  "out_of_regs kind name =
     ''Ran out of '' @ kind @ '' registers (needed for '' @ CHR 0x27 # name @ CHR 0x27 # '')''"

definition ireg :: "string \<Rightarrow> string emit" where
  "ireg name = State (\<lambda>s. case em_ireg_map s name of
       Some r \<Rightarrow> (r, s)
     | None \<Rightarrow>
         if em_next_ireg s \<ge> length kIRegs then (''t0'', s\<lparr> em_error := out_of_regs ''integer'' name \<rparr>)
         else let rv = kIRegs ! em_next_ireg s in
           (rv, s\<lparr> em_next_ireg := em_next_ireg s + 1, em_ireg_map := (em_ireg_map s)(name \<mapsto> rv) \<rparr>))"

definition freg :: "string \<Rightarrow> string emit" where
  "freg name = State (\<lambda>s. case em_freg_map s name of
       Some r \<Rightarrow> (r, s)
     | None \<Rightarrow>
         if em_next_freg s \<ge> length kFRegs then (''fa0'', s\<lparr> em_error := out_of_regs ''float'' name \<rparr>)
         else let rv = kFRegs ! em_next_freg s in
           (rv, s\<lparr> em_next_freg := em_next_freg s + 1, em_freg_map := (em_freg_map s)(name \<mapsto> rv) \<rparr>))"

fun contains :: "string \<Rightarrow> string \<Rightarrow> bool" where
  "contains p [] \<longleftrightarrow> p = []"
| "contains p (c # s) \<longleftrightarrow> starts_with p (c # s) \<or> contains p s"

text \<open>\<open>startsWith(s, p)\<close>: \<open>s\<close> is \<open>p\<close>, or \<open>p\<close> followed by a dot.\<close>

definition startsWith :: "string \<Rightarrow> string \<Rightarrow> bool" where
  "startsWith s p \<longleftrightarrow> s = p \<or> (length s > length p \<and> take (length p) s = p \<and> s ! length p = CHR ''.'')"

definition isWideRegister :: "RvEmitter \<Rightarrow> string \<Rightarrow> bool" where
  "isWideRegister s name \<longleftrightarrow> name \<in> set (em_wide_regs s)"

definition wide_reg :: "string \<Rightarrow> bool emit" where
  "wide_reg name = State (\<lambda>s. (isWideRegister s name, s))"

definition address_size :: "u32 emit" where
  "address_size = State (\<lambda>s. (em_address_size s, s))"

definition is_f_name :: "string \<Rightarrow> bool" where
  "is_f_name name \<longleftrightarrow> name \<noteq> [] \<and> hd name = CHR ''f''"

definition remark :: "string \<Rightarrow> string" where
  "remark c = ''  # '' @ c"

section \<open>Validation\<close>

definition validateInstruction :: "PtxInstr \<Rightarrow> bool emit" where
  "validateInstruction i =
     (let opc = pi_op i;
          wide_memory = contains ''.u64'' opc \<or> contains ''.s64'' opc \<or> contains ''.b64'' opc \<or> contains ''.f64'' opc
      in if pi_pred i \<noteq> [] \<and> opc \<noteq> ''bra'' then
           do { reject (''predication is only supported for bra: '' @ opc); State_Monad.return False }
         else if (startsWith opc ''ld.global'' \<or> startsWith opc ''st.global'' \<or>
              startsWith opc ''ld.shared'' \<or> startsWith opc ''st.shared'') \<and> wide_memory then
           do { reject (''64-bit memory elements are not supported on RV32: '' @ opc); State_Monad.return False }
         else if startsWith opc ''mad.wide'' \<or> startsWith opc ''mul.lo.u64'' \<or> startsWith opc ''mul.lo.s64'' \<or>
              startsWith opc ''div.u64'' \<or> startsWith opc ''div.s64'' \<or> startsWith opc ''rem.u64'' \<or>
              startsWith opc ''rem.s64'' then
           do { reject (''general 64-bit arithmetic is not supported on RV32: '' @ opc); State_Monad.return False }
         else State_Monad.return True)"

fun validate_body :: "PtxInstr list \<Rightarrow> bool emit" where
  "validate_body [] = State_Monad.return True"
| "validate_body (i # instrs) =
     (if pi_label i \<noteq> [] \<or> pi_op i = [] then validate_body instrs
      else do { ok \<leftarrow> validateInstruction i; if ok then validate_body instrs else State_Monad.return False })"

definition validateKernel :: "PtxKernel \<Rightarrow> bool emit" where
  "validateKernel k =
     (if pk_address_size k \<noteq> 32 \<and> pk_address_size k \<noteq> 64 then
        do { reject ''unsupported PTX address size''; State_Monad.return False }
      else validate_body (pk_body k))"


section \<open>Loads and stores\<close>

definition is_reg :: "PtxOperand \<Rightarrow> bool" where "is_reg p \<longleftrightarrow> op_kind p = K_Reg"
definition is_imm :: "PtxOperand \<Rightarrow> bool" where "is_imm p \<longleftrightarrow> op_kind p = K_IntImm"

text \<open>\<open>is_float\<close> of \<open>emitLdParam\<close>: the opcode's type overrides the register map, the name overrides both.\<close>

definition ld_param_is_float :: "RvEmitter \<Rightarrow> string \<Rightarrow> string \<Rightarrow> bool" where
  "ld_param_is_float s opc name =
     (is_f_name name \<or>
      (if contains ''.f32'' opc \<or> contains ''.f64'' opc then True
       else if contains ''.u32'' opc \<or> contains ''.u64'' opc \<or> contains ''.b32'' opc \<or> contains ''.b64'' opc \<or>
         contains ''.s32'' opc then False
       else em_freg_map s name \<noteq> None))"

definition param_index :: "PtxParam \<Rightarrow> int" where "param_index p = sint (pp_index p)"

definition find_param :: "string \<Rightarrow> PtxParam list \<Rightarrow> PtxParam option" where
  "find_param name ps = (if name = [] then None else find (\<lambda>p. pp_name p = name) ps)"

definition emitLdParam :: "PtxInstr \<Rightarrow> unit emit" where
  "emitLdParam i = (case pi_operands i of
       [dst, src] \<Rightarrow>
         if op_kind dst \<noteq> K_Reg \<or> op_kind src \<noteq> K_MemRef then
           reject ''ld.param requires a register and a parameter reference''
         else do {
           s \<leftarrow> State_Monad.get;
           (case find_param (op_param_name src) (em_params s) of
              None \<Rightarrow> reject (''ld.param references an unknown or unsupported parameter: '' @ op_param_name src)
            | Some p \<Rightarrow>
                if param_index p < 0 \<or> param_index p \<ge> 8 then
                  reject (''ld.param references an unknown or unsupported parameter: '' @ op_param_name src)
                else if op_mem_offset src \<noteq> 0 then
                  reject ''ld.param offsets are not supported by the RV32 argument ABI''
                else if (contains ''.u64'' (pi_op i) \<or> contains ''.b64'' (pi_op i)) \<and>
                  (em_address_size s \<noteq> 64 \<or> \<not> isWideRegister s (op_name dst) \<or>
                   (pp_space p \<noteq> ''.u64'' \<and> pp_space p \<noteq> ''.b64'')) then
                  reject ''ld.param.u64 requires PTX64 pointer lowering into a declared wide register''
                else let a = kParamRegs ! nat (param_index p) in
                  if ld_param_is_float s (pi_op i) (op_name dst) then do {
                    rd \<leftarrow> freg (op_name dst);
                    emit_line (Ins ''fmv.w.x'' [RegA rd, RegA a]
                      (remark (''ld.param.f32 '' @ op_name dst @ '' = '' @ op_param_name src))) }
                  else do {
                    rd \<leftarrow> ireg (op_name dst);
                    emit_line (Ins ''mv'' [RegA rd, RegA a]
                      (remark (''ld.param '' @ op_name dst @ '' = '' @ op_param_name src))) }) }
     | _ \<Rightarrow> reject ''ld.param requires a register and a parameter reference'')"

definition emitLdGlobal :: "PtxInstr \<Rightarrow> unit emit" where
  "emitLdGlobal i = (case pi_operands i of
       [dst, src] \<Rightarrow>
         if op_kind dst \<noteq> K_Reg \<or> op_kind src \<noteq> K_MemRef \<or> op_mem_base src = [] then
           reject ''ld.global requires a destination register and register-based address''
         else do {
           base \<leftarrow> ireg (op_mem_base src);
           if contains ''.f32'' (pi_op i) then do {
             rd \<leftarrow> freg (op_name dst);
             emit_line (Ins ''flw'' [RegA rd, MemA (op_mem_offset src) base] (remark (pi_op i))) }
           else do {
             rd \<leftarrow> ireg (op_name dst);
             emit_line (Ins ''lw'' [RegA rd, MemA (op_mem_offset src) base] (remark (pi_op i))) } }
     | _ \<Rightarrow> reject ''ld.global requires a destination register and register-based address'')"

definition emitStGlobal :: "PtxInstr \<Rightarrow> unit emit" where
  "emitStGlobal i = (case pi_operands i of
       [addr, val] \<Rightarrow>
         if op_kind addr \<noteq> K_MemRef \<or> op_mem_base addr = [] \<or> op_kind val \<noteq> K_Reg then
           reject ''st.global requires a register-based address and source register''
         else do {
           base \<leftarrow> ireg (op_mem_base addr);
           if contains ''.f32'' (pi_op i) then do {
             rs \<leftarrow> freg (op_name val);
             emit_line (Ins ''fsw'' [RegA rs, MemA (op_mem_offset addr) base] (remark (pi_op i))) }
           else do {
             rs \<leftarrow> ireg (op_name val);
             emit_line (Ins ''sw'' [RegA rs, MemA (op_mem_offset addr) base] (remark (pi_op i))) } }
     | _ \<Rightarrow> reject ''st.global requires a register-based address and source register'')"

text \<open>\<open>t6\<close>, outside the pool, holds the shared address.\<close>

definition emit_shared_base :: "PtxOperand \<Rightarrow> unit emit" where
  "emit_shared_base m = do {
     emit_line (Ins ''li'' [RegA ''t6'', SharedBaseA] []);
     if op_mem_base m \<noteq> [] then do {
       off \<leftarrow> ireg (op_mem_base m);
       emit_line (Ins ''add'' [RegA ''t6'', RegA ''t6'', RegA off] []) }
     else skip }"

definition emitLdShared :: "PtxInstr \<Rightarrow> unit emit" where
  "emitLdShared i = (case pi_operands i of
       [dst, src] \<Rightarrow>
         if op_kind dst \<noteq> K_Reg \<or> op_kind src \<noteq> K_MemRef then
           reject ''ld.shared requires a destination register and shared-memory reference''
         else do {
           emit_shared_base src;
           if contains ''.f32'' (pi_op i) then do {
             rd \<leftarrow> freg (op_name dst);
             emit_line (Ins ''flw'' [RegA rd, MemA (op_mem_offset src) ''t6''] []) }
           else do {
             rd \<leftarrow> ireg (op_name dst);
             emit_line (Ins ''lw'' [RegA rd, MemA (op_mem_offset src) ''t6''] []) } }
     | _ \<Rightarrow> reject ''ld.shared requires a destination register and shared-memory reference'')"

definition emitStShared :: "PtxInstr \<Rightarrow> unit emit" where
  "emitStShared i = (case pi_operands i of
       [dst, src] \<Rightarrow>
         if op_kind dst \<noteq> K_MemRef \<or> op_kind src \<noteq> K_Reg then
           reject ''st.shared requires a shared-memory reference and source register''
         else do {
           emit_shared_base dst;
           if contains ''.f32'' (pi_op i) then do {
             rs \<leftarrow> freg (op_name src);
             emit_line (Ins ''fsw'' [RegA rs, MemA (op_mem_offset dst) ''t6''] []) }
           else do {
             rs \<leftarrow> ireg (op_name src);
             emit_line (Ins ''sw'' [RegA rs, MemA (op_mem_offset dst) ''t6''] []) } }
     | _ \<Rightarrow> reject ''st.shared requires a shared-memory reference and source register'')"

section \<open>Moves and conversions\<close>

definition emit_mv :: "string \<Rightarrow> string \<Rightarrow> string \<Rightarrow> unit emit" where
  "emit_mv rd rs cmt = (if rd \<noteq> rs then emit_line (Ins ''mv'' [RegA rd, RegA rs] cmt) else skip)"

definition emitMov :: "PtxInstr \<Rightarrow> unit emit" where
  "emitMov i = (case pi_operands i of
       [dst, src] \<Rightarrow>
         if op_kind dst \<noteq> K_Reg then reject ''mov requires a destination register and one source operand''
         else if op_kind src = K_SpecialReg then
           let off = specialRegOffset (op_name src) in
           if off \<ge> 0 then do {
             rd \<leftarrow> ireg (op_name dst);
             emit_line (Ins ''lw'' [RegA rd, MemA off ''gp'']
               (remark (''mov '' @ op_name dst @ '', %'' @ op_name src))) }
           else emit_line (TextL (''    # Unsupported special reg %'' @ op_name src))
         else if op_kind src = K_Reg then
           if is_f_name (op_name dst) then do {
             rd \<leftarrow> freg (op_name dst); rs \<leftarrow> freg (op_name src);
             emit_line (Ins ''fmv.s'' [RegA rd, RegA rs] (remark (pi_op i))) }
           else do {
             rs \<leftarrow> ireg (op_name src); rd \<leftarrow> ireg (op_name dst);
             emit_mv rd rs (remark (pi_op i)) }
         else if op_kind src = K_IntImm then do {
           rd \<leftarrow> ireg (op_name dst);
           emit_line (Ins ''li'' [RegA rd, ImmA (op_int_val src)] (remark (pi_op i))) }
         else reject (''unsupported mov operand: '' @ pi_op i)
     | _ \<Rightarrow> reject ''mov requires a destination register and one source operand'')"

definition emit_cvta :: "string \<Rightarrow> PtxOperand \<Rightarrow> PtxOperand \<Rightarrow> unit emit" where
  "emit_cvta opc dst src = do {
     s \<leftarrow> State_Monad.get;
     if em_address_size s \<noteq> 64 \<or> \<not> isWideRegister s (op_name dst) \<or> \<not> isWideRegister s (op_name src) then
       reject ''cvta.u64 requires PTX64 declared wide registers''
     else do { rd \<leftarrow> ireg (op_name dst); rs \<leftarrow> ireg (op_name src); emit_mv rd rs (remark (opc @ '' narrowed'')) } }"

definition emit_cvt64 :: "string \<Rightarrow> PtxOperand \<Rightarrow> PtxOperand \<Rightarrow> unit emit" where
  "emit_cvt64 opc dst src = do {
     sz \<leftarrow> address_size;
     if sz \<noteq> 64 then reject ''64-bit conversion requires PTX64 narrowing mode''
     else do { rd \<leftarrow> ireg (op_name dst); rs \<leftarrow> ireg (op_name src); emit_mv rd rs (remark (opc @ '' narrowed'')) } }"

definition emit_cvt32 :: "string \<Rightarrow> PtxOperand \<Rightarrow> PtxOperand \<Rightarrow> unit emit" where
  "emit_cvt32 opc dst src =
     (let df = is_f_name (op_name dst); sf = is_f_name (op_name src) in
      if contains ''f32'' opc \<and> contains ''s32'' opc then
        if df then do { rd \<leftarrow> freg (op_name dst); rs \<leftarrow> ireg (op_name src);
                        emit_line (Ins ''fcvt.s.w'' [RegA rd, RegA rs] (remark opc)) }
        else do { rd \<leftarrow> ireg (op_name dst); rs \<leftarrow> freg (op_name src);
                  emit_line (Ins ''fcvt.w.s'' [RegA rd, RegA rs] (remark opc)) }
      else if df \<and> \<not> sf then
        do { rd \<leftarrow> freg (op_name dst); rs \<leftarrow> ireg (op_name src);
             emit_line (Ins ''fmv.w.x'' [RegA rd, RegA rs] (remark opc)) }
      else if \<not> df \<and> sf then
        do { rd \<leftarrow> ireg (op_name dst); rs \<leftarrow> freg (op_name src);
             emit_line (Ins ''fmv.x.w'' [RegA rd, RegA rs] (remark opc)) }
      else if df \<and> sf then
        do { rd \<leftarrow> freg (op_name dst); rs \<leftarrow> freg (op_name src);
             emit_line (Ins ''fmv.s'' [RegA rd, RegA rs] (remark opc)) }
      else do { rd \<leftarrow> ireg (op_name dst); rs \<leftarrow> ireg (op_name src); emit_mv rd rs (remark opc) })"

definition emitCvt :: "PtxInstr \<Rightarrow> unit emit" where
  "emitCvt i = (let opc = pi_op i in case pi_operands i of
       [dst, src] \<Rightarrow>
         if op_kind dst \<noteq> K_Reg \<or> op_kind src \<noteq> K_Reg then reject ''cvt/cvta requires two register operands''
         else if startsWith opc ''cvta'' then emit_cvta opc dst src
         else if opc = ''cvt.u64.u32'' \<or> opc = ''cvt.s64.s32'' \<or> opc = ''cvt.u32.u64'' then emit_cvt64 opc dst src
         else if contains ''.u64'' opc \<or> contains ''.s64'' opc \<or> contains ''.b64'' opc \<or> contains ''.f64'' opc then
           reject (''unsupported 64-bit conversion: '' @ opc)
         else emit_cvt32 opc dst src
     | _ \<Rightarrow> reject ''cvt/cvta requires two register operands'')"


section \<open>Predicates and control flow\<close>

definition emit_setp_float :: "string \<Rightarrow> string \<Rightarrow> string \<Rightarrow> string \<Rightarrow> unit emit" where
  "emit_setp_float opc pr fa fb =
     (if contains ''.lt'' opc then emit_line (Ins ''flt.s'' [RegA pr, RegA fa, RegA fb] (remark opc))
      else if contains ''.gt'' opc then emit_line (Ins ''flt.s'' [RegA pr, RegA fb, RegA fa] (remark opc @ '' (swapped)''))
      else if contains ''.le'' opc then emit_line (Ins ''fle.s'' [RegA pr, RegA fa, RegA fb] (remark opc))
      else if contains ''.ge'' opc then emit_line (Ins ''fle.s'' [RegA pr, RegA fb, RegA fa] (remark opc @ '' (swapped)''))
      else if contains ''.eq'' opc then emit_line (Ins ''feq.s'' [RegA pr, RegA fa, RegA fb] (remark opc))
      else if contains ''.ne'' opc then do {
        emit_line (Ins ''feq.s'' [RegA pr, RegA fa, RegA fb] []);
        emit_line (Ins ''xori '' [RegA pr, RegA pr, ImmA 1] (remark opc)) }
      else skip)"

text \<open>\<open>b.int_val + 1\<close> and \<open>- b.int_val\<close> are \<open>int64_t\<close> arithmetic.\<close>

definition int64_arith :: "int \<Rightarrow> unit emit" where
  "int64_arith v = (if int64_ok v then skip else undefined_behaviour)"

definition emit_setp_imm :: "string \<Rightarrow> string \<Rightarrow> string \<Rightarrow> int \<Rightarrow> unit emit" where
  "emit_setp_imm opc pr ra b =
     (let sgn = contains ''.s32'' opc in
      if contains ''.lt'' opc then emit_line (Ins (if sgn then ''slti'' else ''sltiu'') [RegA pr, RegA ra, ImmA b] [])
      else if contains ''.ge'' opc then do {
        emit_line (Ins (if sgn then ''slti '' else ''sltiu'') [RegA pr, RegA ra, ImmA b] []);
        emit_line (Ins ''xori '' [RegA pr, RegA pr, ImmA 1] (remark ''invert for ge'')) }
      else if contains ''.gt'' opc then do {
        int64_arith (b + 1);
        emit_line (Ins (if sgn then ''slti '' else ''sltiu'') [RegA pr, RegA ra, ImmA (b + 1)] []);
        emit_line (Ins ''xori '' [RegA pr, RegA pr, ImmA 1] (remark ''invert for gt'')) }
      else if contains ''.le'' opc then do {
        int64_arith (b + 1);
        emit_line (Ins (if sgn then ''slti '' else ''sltiu'') [RegA pr, RegA ra, ImmA (b + 1)] []) }
      else if contains ''.eq'' opc then do {
        int64_arith (- b);
        emit_line (Ins ''addi '' [RegA pr, RegA ra, ImmA (- b)] []);
        emit_line (Ins ''seqz '' [RegA pr, RegA pr] (remark opc)) }
      else if contains ''.ne'' opc then do {
        int64_arith (- b);
        emit_line (Ins ''addi '' [RegA pr, RegA ra, ImmA (- b)] []);
        emit_line (Ins ''snez '' [RegA pr, RegA pr] (remark opc)) }
      else reject (''unsupported setp opcode: '' @ opc))"

definition emit_setp_reg :: "string \<Rightarrow> string \<Rightarrow> string \<Rightarrow> string \<Rightarrow> unit emit" where
  "emit_setp_reg opc pr ra rb =
     (let slt = (if contains ''.s32'' opc then ''slt'' else ''sltu'') in
      if contains ''.lt'' opc then emit_line (Ins slt [RegA pr, RegA ra, RegA rb] [])
      else if contains ''.ge'' opc then do {
        emit_line (Ins slt [RegA pr, RegA ra, RegA rb] []);
        emit_line (Ins ''xori '' [RegA pr, RegA pr, ImmA 1] (remark ''invert for ge'')) }
      else if contains ''.gt'' opc then emit_line (Ins slt [RegA pr, RegA rb, RegA ra] [])
      else if contains ''.le'' opc then do {
        emit_line (Ins slt [RegA pr, RegA rb, RegA ra] []);
        emit_line (Ins ''xori '' [RegA pr, RegA pr, ImmA 1] (remark ''invert for le'')) }
      else if contains ''.eq'' opc then do {
        emit_line (Ins ''xor  '' [RegA pr, RegA ra, RegA rb] []);
        emit_line (Ins ''seqz '' [RegA pr, RegA pr] (remark opc)) }
      else if contains ''.ne'' opc then do {
        emit_line (Ins ''xor  '' [RegA pr, RegA ra, RegA rb] []);
        emit_line (Ins ''snez '' [RegA pr, RegA pr] (remark opc)) }
      else reject (''unsupported setp opcode: '' @ opc))"

definition emitSetp :: "PtxInstr \<Rightarrow> unit emit" where
  "emitSetp i = (let opc = pi_op i in case pi_operands i of
       [dst, a, b] \<Rightarrow>
         if op_kind dst \<noteq> K_Reg \<or> op_kind a \<noteq> K_Reg then
           reject ''setp requires a predicate destination and two comparable operands''
         else do {
           pr \<leftarrow> ireg (op_name dst);
           if contains ''.f32'' opc \<or> contains ''.f64'' opc then do {
             fa \<leftarrow> freg (op_name a); fb \<leftarrow> freg (op_name b); emit_setp_float opc pr fa fb }
           else do {
             ra \<leftarrow> ireg (op_name a);
             if is_imm b then emit_setp_imm opc pr ra (op_int_val b)
             else do { rb \<leftarrow> ireg (op_name b); emit_setp_reg opc pr ra rb } } }
     | _ \<Rightarrow> reject ''setp requires a predicate destination and two comparable operands'')"

definition emitBra :: "PtxInstr \<Rightarrow> unit emit" where
  "emitBra i =
     (if pi_op i = ''ret'' then emit_line (Ins ''ret'' [] [])
      else if pi_pred i = [] then
        (case pi_operands i of
           t # _ \<Rightarrow> if op_kind t = K_Label then emit_line (Ins ''j'' [SymA (op_name t)] [])
                    else reject ''bra requires a label target''
         | [] \<Rightarrow> reject ''bra requires a label target'')
      else do {
        pr \<leftarrow> ireg (pi_pred i);
        let label = (case pi_operands i of t # _ \<Rightarrow> op_name t | [] \<Rightarrow> []);
        if pi_pred_not i then
          emit_line (Ins ''beqz'' [RegA pr, SymA label] (remark (''@!'' @ pi_pred i @ '' bra'')))
        else emit_line (Ins ''bnez'' [RegA pr, SymA label] (remark (''@'' @ pi_pred i @ '' bra''))) })"

definition emitBarSync :: "PtxInstr \<Rightarrow> unit emit" where
  "emitBarSync i =
     (case pi_operands i of
        [p] \<Rightarrow>
          if pi_pred i \<noteq> [] \<or> op_kind p \<noteq> K_IntImm \<or> op_int_val p < 0 \<or> op_int_val p > 15 then
            set_error ''bar.sync requires one unpredicated immediate ID in range 0..15''
          else emit_line (WordL (push_bit 20 (of_int (op_int_val p)) OR 0x0B))
      | _ \<Rightarrow> set_error ''bar.sync requires one unpredicated immediate ID in range 0..15'')"


section \<open>Arithmetic\<close>

text \<open>Operand \<open>idx\<close> of an instruction, by name; an instruction that is too short is a case of its own.\<close>

definition fp3 :: "string \<Rightarrow> string \<Rightarrow> PtxOperand list \<Rightarrow> unit emit" where
  "fp3 m rd ops = do {
     fa \<leftarrow> freg (op_name (ops ! 1)); fb \<leftarrow> freg (op_name (ops ! 2));
     emit_line (Ins m [RegA rd, RegA fa, RegA fb] []) }"

definition fp2 :: "string \<Rightarrow> string \<Rightarrow> PtxOperand list \<Rightarrow> unit emit" where
  "fp2 m rd ops = do {
     fa \<leftarrow> freg (op_name (ops ! 1));
     emit_line (Ins m [RegA rd, RegA fa] []) }"

definition emitFloat :: "string \<Rightarrow> PtxOperand list \<Rightarrow> unit emit" where
  "emitFloat opc ops =
     (if length ops < 3 \<and> \<not> contains ''fma'' opc then
        emit_line (TextL (''    # FP operand count mismatch: '' @ opc))
      else do {
        rd \<leftarrow> freg (op_name (ops ! 0));
        if startsWith opc ''fma'' then
          (if length ops < 4 then emit_line (TextL ''    # fma missing operands'')
           else do {
             fa \<leftarrow> freg (op_name (ops ! 1)); fb \<leftarrow> freg (op_name (ops ! 2)); fc \<leftarrow> freg (op_name (ops ! 3));
             emit_line (Ins ''fmadd.s'' [RegA rd, RegA fa, RegA fb, RegA fc] (remark opc)) })
        else if startsWith opc ''add'' then fp3 ''fadd.s'' rd ops
        else if startsWith opc ''sub'' then fp3 ''fsub.s'' rd ops
        else if startsWith opc ''mul'' then fp3 ''fmul.s'' rd ops
        else if startsWith opc ''div'' then fp3 ''fdiv.s'' rd ops
        else if startsWith opc ''neg'' then
          (if length ops < 2 then emit_line (TextL ''    # neg missing operands'') else fp2 ''fneg.s'' rd ops)
        else if startsWith opc ''abs'' then
          (if length ops < 2 then emit_line (TextL ''    # abs missing operands'') else fp2 ''fabs.s'' rd ops)
        else if startsWith opc ''sqrt'' then
          (if length ops < 2 then emit_line (TextL ''    # sqrt missing operands'') else fp2 ''fsqrt.s'' rd ops)
        else reject (''unsupported FP opcode: '' @ opc) })"

definition rarg :: "PtxOperand list \<Rightarrow> nat \<Rightarrow> string emit" where
  "rarg ops idx =
     (if idx \<ge> length ops then State_Monad.return ''x0''
      else if is_reg (ops ! idx) then ireg (op_name (ops ! idx))
      else State_Monad.return ''x0'')"

definition immarg :: "PtxOperand list \<Rightarrow> nat \<Rightarrow> int" where
  "immarg ops idx = (if idx \<ge> length ops then 0 else op_int_val (ops ! idx))"

definition imm_at :: "PtxOperand list \<Rightarrow> nat \<Rightarrow> bool" where
  "imm_at ops idx \<longleftrightarrow> idx < length ops \<and> is_imm (ops ! idx)"

definition emit_rr :: "string \<Rightarrow> string \<Rightarrow> PtxOperand list \<Rightarrow> string \<Rightarrow> unit emit" where
  "emit_rr m rd ops cmt = do {
     ra \<leftarrow> rarg ops 1; rb \<leftarrow> rarg ops 2; emit_line (Ins m [RegA rd, RegA ra, RegA rb] cmt) }"

definition emit_ri :: "string \<Rightarrow> string \<Rightarrow> PtxOperand list \<Rightarrow> int \<Rightarrow> string \<Rightarrow> unit emit" where
  "emit_ri m rd ops v cmt = do {
     ra \<leftarrow> rarg ops 1; emit_line (Ins m [RegA rd, RegA ra, ImmA v] cmt) }"

text \<open>An immediate loaded into \<open>t6\<close> first.\<close>

definition emit_via_t6 :: "string \<Rightarrow> string \<Rightarrow> PtxOperand list \<Rightarrow> int \<Rightarrow> string \<Rightarrow> unit emit" where
  "emit_via_t6 m rd ops v cmt = do {
     emit_line (Ins ''li'' [RegA ''t6'', ImmA v] []);
     ra \<leftarrow> rarg ops 1;
     emit_line (Ins m [RegA rd, RegA ra, RegA ''t6''] cmt) }"

definition emit_add_imm :: "string \<Rightarrow> string \<Rightarrow> PtxOperand list \<Rightarrow> int \<Rightarrow> unit emit" where
  "emit_add_imm opc rd ops v =
     (if v < - 2048 \<or> v > 2047 then emit_via_t6 ''add'' rd ops v (remark opc)
      else emit_ri ''addi'' rd ops v (remark opc))"

text \<open>The loop \<open>while ((1 << shift) < imm) ++shift\<close>: \<open>1 << 31\<close> is negative, and past it the shift is undefined.\<close>

definition shift_for :: "int \<Rightarrow> nat option" where
  "shift_for imm = find (\<lambda>s. imm \<le> 2 ^ s) [0..<31]"

definition emit_mul_imm :: "string \<Rightarrow> string \<Rightarrow> PtxOperand list \<Rightarrow> int \<Rightarrow> unit emit" where
  "emit_mul_imm opc rd ops imm =
     (if imm > 0 \<and> imm AND (imm - 1) = 0 then
        (case shift_for imm of
           None \<Rightarrow> undefined_behaviour
         | Some sh \<Rightarrow> emit_ri ''slli'' rd ops (int sh) (remark opc @ '' *'' @ show_int imm))
      else emit_via_t6 ''mul'' rd ops imm (remark opc))"

definition emit_logic :: "string \<Rightarrow> string \<Rightarrow> string \<Rightarrow> PtxOperand list \<Rightarrow> unit emit" where
  "emit_logic m opc rd ops =
     (if length ops \<ge> 3 \<and> imm_at ops 2 then emit_via_t6 m rd ops (immarg ops 2) (remark opc)
      else if length ops \<ge> 3 then emit_rr m rd ops (remark opc)
      else skip)"

definition emit_unary :: "string \<Rightarrow> string \<Rightarrow> string \<Rightarrow> PtxOperand list \<Rightarrow> unit emit" where
  "emit_unary m opc rd ops =
     (if length ops \<ge> 2 then do { ra \<leftarrow> rarg ops 1; emit_line (Ins m [RegA rd, RegA ra] (remark opc)) }
      else skip)"

definition emit_mad :: "string \<Rightarrow> string \<Rightarrow> PtxOperand list \<Rightarrow> unit emit" where
  "emit_mad opc rd ops =
     (if length ops \<ge> 4 then do {
        emit_rr ''mul'' rd ops [];
        rc \<leftarrow> rarg ops 3;
        emit_line (Ins ''add'' [RegA rd, RegA rd, RegA rc] (remark opc)) }
      else skip)"

definition emit_shift :: "string \<Rightarrow> string \<Rightarrow> string \<Rightarrow> string \<Rightarrow> PtxOperand list \<Rightarrow> unit emit" where
  "emit_shift mi mr cmt rd ops =
     (if length ops \<ge> 3 \<and> imm_at ops 2 then emit_ri mi rd ops (immarg ops 2) cmt
      else if length ops \<ge> 3 then emit_rr mr rd ops cmt
      else skip)"

definition emitInteger :: "string \<Rightarrow> PtxOperand list \<Rightarrow> unit emit" where
  "emitInteger opc ops =
     (if length ops < 2 then emit_line (TextL (''    # Integer op with too few operands: '' @ opc))
      else do {
        rd \<leftarrow> ireg (op_name (ops ! 0));
        let sgn = contains ''.s32'' opc;
        if startsWith opc ''add'' then
          (if length ops \<ge> 3 \<and> imm_at ops 2 then emit_add_imm opc rd ops (immarg ops 2)
           else if length ops \<ge> 3 then emit_rr ''add'' rd ops (remark opc) else skip)
        else if startsWith opc ''sub'' then
          (if length ops \<ge> 3 \<and> imm_at ops 2 then
             do { int64_arith (- immarg ops 2); emit_add_imm opc rd ops (- immarg ops 2) }
           else if length ops \<ge> 3 then emit_rr ''sub'' rd ops (remark opc) else skip)
        else if startsWith opc ''mul.lo'' \<or> startsWith opc ''mul.wide'' then
          (if length ops \<ge> 3 \<and> imm_at ops 2 then emit_mul_imm opc rd ops (immarg ops 2)
           else if length ops \<ge> 3 then emit_rr ''mul'' rd ops (remark opc) else skip)
        else if startsWith opc ''mad.lo'' then emit_mad opc rd ops
        else if startsWith opc ''div'' then
          (if length ops \<ge> 3 then emit_rr (if sgn then ''div'' else ''divu'') rd ops (remark opc) else skip)
        else if startsWith opc ''rem'' \<or> startsWith opc ''mod'' then
          (if length ops \<ge> 3 then emit_rr (if sgn then ''rem'' else ''remu'') rd ops (remark opc) else skip)
        else if startsWith opc ''shl'' then emit_shift ''slli'' ''sll'' (remark opc) rd ops
        else if startsWith opc ''shr'' then
          emit_shift (if sgn then ''srai'' else ''srli'') (if sgn then ''sra'' else ''srl'') [] rd ops
        else if startsWith opc ''and'' then emit_logic ''and'' opc rd ops
        else if startsWith opc ''or'' then emit_logic ''or'' opc rd ops
        else if startsWith opc ''xor'' then emit_logic ''xor'' opc rd ops
        else if startsWith opc ''not'' then emit_unary ''not'' opc rd ops
        else if startsWith opc ''neg'' then emit_unary ''neg'' opc rd ops
        else if opc = ''membar.gl'' \<or> opc = ''membar.cta'' then emit_line (Ins ''fence'' [] (remark opc))
        else reject (''unsupported opcode: '' @ opc) })"

definition emitArith :: "PtxInstr \<Rightarrow> unit emit" where
  "emitArith i =
     (let opc = pi_op i; ops = pi_operands i in
      if ops = [] then reject (''unsupported opcode: '' @ opc)
      else if contains ''.f32'' opc \<or> contains ''.f64'' opc then emitFloat opc ops
      else emitInteger opc ops)"

section \<open>Dispatch and the kernel\<close>

definition emitInstr :: "PtxInstr \<Rightarrow> unit emit" where
  "emitInstr i =
     (let opc = pi_op i in
      if startsWith opc ''ld.param'' then emitLdParam i
      else if startsWith opc ''ld.global'' then emitLdGlobal i
      else if startsWith opc ''st.global'' then emitStGlobal i
      else if startsWith opc ''st.shared'' then emitStShared i
      else if startsWith opc ''ld.shared'' then emitLdShared i
      else if startsWith opc ''mov'' then emitMov i
      else if startsWith opc ''cvta'' \<or> startsWith opc ''cvt'' then emitCvt i
      else if startsWith opc ''setp'' then emitSetp i
      else if opc = ''bar.sync'' then emitBarSync i
      else if opc = ''bra'' \<or> opc = ''ret'' then emitBra i
      else emitArith i)"

text \<open>The loop over the body; it stops at the first error.\<close>

fun emit_body :: "PtxInstr list \<Rightarrow> bool emit" where
  "emit_body [] = State_Monad.return True"
| "emit_body (i # instrs) =
     (if pi_label i \<noteq> [] then do { emit_line (LabelL (pi_label i)); emit_body instrs }
      else if pi_op i = [] then emit_body instrs
      else do {
        emitInstr i;
        s \<leftarrow> State_Monad.get;
        if em_error s \<noteq> [] then State_Monad.return False else emit_body instrs })"

definition emit_header :: "string \<Rightarrow> asm_line list" where
  "emit_header name =
     [TextL ''    .section .text'', TextL (''    .globl '' @ name), TextL (''    .type '' @ name @ '', @function''),
      LabelL name, TextL ''    # RV32IMF kernel generated from PTX by RvEmitter'',
      TextL ''    # gp = THREAD_CTX_BASE (set by KernelBridge before entry)'']"

text \<open>\<open>RvEmitter::emit\<close>: the text, empty on error, and the emitter, whose \<open>em_error\<close> is \<open>lastError()\<close>.\<close>

definition rv_emit :: "PtxKernel \<Rightarrow> RvEmitter \<Rightarrow> string \<times> RvEmitter" where
  "rv_emit k s0 =
     (let s1 = buildRegMaps k (s0\<lparr> em_error := [] \<rparr>); (ok, s2) = run_state (validateKernel k) s1 in
      if \<not> ok then ([], s2)
      else let (done, s3) = run_state (emit_body (pk_body k)) (s2\<lparr> em_out := emit_header (pk_name k) \<rparr>) in
        if \<not> done then ([], s3)
        else let out = em_out s3 @ [TextL (''    .size '' @ pk_name k @ '', . - '' @ pk_name k)] in
          (if em_error s3 = [] then concat (map render out) else [], s3\<lparr> em_out := out \<rparr>))"

definition RvEmitter_default :: RvEmitter where
  "RvEmitter_default = \<lparr> em_error = [], em_ireg_map = Map.empty, em_freg_map = Map.empty, em_wide_regs = [],
     em_next_ireg = 0, em_next_freg = 0, em_address_size = 32, em_params = [], em_out = [], em_undefined = False \<rparr>"

text \<open>\<open>PtxTranspiler::toAssembly\<close>: the assembly text and the kernel name, both empty on error.\<close>

definition toAssembly :: "(string \<Rightarrow> double option) \<Rightarrow> string \<Rightarrow> (string \<times> string) option" where
  "toAssembly stod ptx_text =
     (case ptx_parse stod ptx_text of None \<Rightarrow> None
      | Some (Inl e) \<Rightarrow> Some ([], [])
      | Some (Inr k) \<Rightarrow>
          if pk_name k = [] then Some ([], [])
          else let (txt, s) = rv_emit k RvEmitter_default in
            if em_error s \<noteq> [] then Some ([], []) else Some (txt, pk_name k))"

end
