(* ===== verification/RvLowering.thy ===== *)
theory RvLowering
  imports RvEmitter RV32Exec
begin

text \<open>
  What the emitted assembly computes. The integer fragment of PTX has a reference semantics (\<open>ptx_exec\<close>,
  after the PTX ISA manual); a line of assembly has the meaning of the instructions it stands for, by the functions
  with which the golden compute unit executes them (\<open>rv_alu_r\<close>, \<open>rv_alu_i\<close>). The emitter is
  analysed by strongest postconditions (\<open>produces\<close>): what it adds to the output, relative to any register
  map that extends the final one. The main lemmas say that the lines emitted for an instruction of the fragment
  compute what the instruction does.
\<close>

section \<open>Register allocation\<close>

text \<open>Every PTX register has a hardware register of its own, the next one of the pool.\<close>

definition alloc_ok :: "RvEmitter \<Rightarrow> bool" where
  "alloc_ok s \<longleftrightarrow> em_next_ireg s \<le> length kIRegs \<and> inj_on (em_ireg_map s) (dom (em_ireg_map s)) \<and>
     ran (em_ireg_map s) \<subseteq> set (take (em_next_ireg s) kIRegs) \<and>
     em_next_freg s \<le> length kFRegs \<and> inj_on (em_freg_map s) (dom (em_freg_map s)) \<and>
     ran (em_freg_map s) \<subseteq> set (take (em_next_freg s) kFRegs)"

text \<open>What any emission does to the emitter.\<close>

definition grows :: "RvEmitter \<Rightarrow> RvEmitter \<Rightarrow> bool" where
  "grows s s' \<longleftrightarrow> em_ireg_map s \<subseteq>\<^sub>m em_ireg_map s' \<and> em_freg_map s \<subseteq>\<^sub>m em_freg_map s' \<and> (alloc_ok s \<longrightarrow> alloc_ok s') \<and>
     (em_error s' = [] \<longrightarrow> em_error s = []) \<and> em_params s' = em_params s \<and>
     em_wide_regs s' = em_wide_regs s \<and> em_address_size s' = em_address_size s"

lemma grows_refl [simp, intro]: "grows s s"
  by (simp add: grows_def)

lemma grows_trans: "grows s t \<Longrightarrow> grows t u \<Longrightarrow> grows s u"
  by (auto simp: grows_def intro: map_le_trans)

text \<open>\<open>produces ps m Q\<close>: without an error, \<open>m\<close> appends lines \<open>L\<close> with \<open>Q a L mm\<close>
  for its result \<open>a\<close> and every register map \<open>mm\<close> that extends the one it leaves.\<close>

definition produces :: "PtxParam list \<Rightarrow> 'a emit \<Rightarrow> ('a \<Rightarrow> asm_line list \<Rightarrow> (string \<rightharpoonup> string) \<Rightarrow> bool) \<Rightarrow> bool" where
  "produces ps m Q \<longleftrightarrow> (\<forall>s a s'. em_params s = ps \<longrightarrow> run_state m s = (a, s') \<longrightarrow> grows s s' \<and>
     (em_error s' = [] \<longrightarrow> (\<forall>mm. em_ireg_map s' \<subseteq>\<^sub>m mm \<longrightarrow> (\<exists>L. em_out s' = em_out s @ L \<and> Q a L mm))))"

lemma producesD:
  assumes "produces ps m Q" "run_state m s = (a, s')" "em_params s = ps"
  shows "grows s s'" "em_error s' = [] \<Longrightarrow> em_ireg_map s' \<subseteq>\<^sub>m mm \<Longrightarrow> \<exists>L. em_out s' = em_out s @ L \<and> Q a L mm"
  using assms by (auto simp: produces_def)

lemma produces_conseq: "produces ps m P \<Longrightarrow> (\<And>a L mm. P a L mm \<Longrightarrow> Q a L mm) \<Longrightarrow> produces ps m Q"
  unfolding produces_def by blast

lemma produces_return: "produces ps (State_Monad.return a) (\<lambda>b L mm. b = a \<and> L = [])"
  by (simp add: produces_def)

lemma produces_bind:
  assumes "produces ps m P" "\<And>a. produces ps (f a) (Q a)"
  shows "produces ps (m \<bind> f) (\<lambda>b L mm. \<exists>a L1 L2. L = L1 @ L2 \<and> P a L1 mm \<and> Q a b L2 mm)"
  unfolding produces_def
proof (intro allI impI)
  fix s b s2 assume ps: "em_params s = ps" and "run_state (m \<bind> f) s = (b, s2)"
  then obtain a s1 where r: "run_state m s = (a, s1)" "run_state (f a) s1 = (b, s2)"
    by (auto split: prod.splits)
  note p = producesD [OF assms(1) r(1) ps]
  have "em_params s1 = ps" using p(1) ps by (simp add: grows_def)
  note q = producesD [OF assms(2) r(2) this]
  show "grows s s2 \<and> (em_error s2 = [] \<longrightarrow> (\<forall>mm. em_ireg_map s2 \<subseteq>\<^sub>m mm \<longrightarrow>
      (\<exists>L. em_out s2 = em_out s @ L \<and> (\<exists>a L1 L2. L = L1 @ L2 \<and> P a L1 mm \<and> Q a b L2 mm))))"
  proof (intro conjI impI allI)
    show "grows s s2" using p(1) q(1) by (rule grows_trans)
    fix mm assume e: "em_error s2 = []" "em_ireg_map s2 \<subseteq>\<^sub>m mm"
    then have "em_error s1 = []" "em_ireg_map s1 \<subseteq>\<^sub>m mm"
      using q(1) by (auto simp: grows_def intro: map_le_trans)
    then obtain L1 where "em_out s1 = em_out s @ L1" "P a L1 mm" using p(2) by blast
    moreover obtain L2 where "em_out s2 = em_out s1 @ L2" "Q a b L2 mm" using q(2) e by blast
    ultimately show "\<exists>L. em_out s2 = em_out s @ L \<and> (\<exists>a L1 L2. L = L1 @ L2 \<and> P a L1 mm \<and> Q a b L2 mm)"
      by auto
  qed
qed

lemma produces_if:
  "(c \<Longrightarrow> produces ps m P) \<Longrightarrow> (\<not> c \<Longrightarrow> produces ps m' P') \<Longrightarrow>
   produces ps (if c then m else m') (\<lambda>a L mm. if c then P a L mm else P' a L mm)"
  by simp

lemma produces_emit_line: "produces ps (emit_line l) (\<lambda>_ L mm. L = [l])"
  by (simp add: produces_def emit_line_def grows_def alloc_ok_def)

lemma produces_skip: "produces ps skip (\<lambda>_ L mm. L = [])"
  by (simp add: produces_def skip_def)

lemma produces_reject: "message \<noteq> [] \<Longrightarrow> produces ps (reject message) (\<lambda>_ L mm. False)"
  by (auto simp: produces_def reject_def grows_def alloc_ok_def)

lemma produces_set_error: "message \<noteq> [] \<Longrightarrow> produces ps (set_error message) (\<lambda>_ L mm. False)"
  by (auto simp: produces_def set_error_def grows_def alloc_ok_def)

lemma produces_undefined: "produces ps undefined_behaviour (\<lambda>_ L mm. L = [])"
  by (simp add: produces_def undefined_behaviour_def grows_def alloc_ok_def)

lemma produces_get_fields:
  "produces ps State_Monad.get (\<lambda>_ L mm. L = [])" "produces ps address_size (\<lambda>_ L mm. L = [])"
  by (simp_all add: produces_def address_size_def)

text \<open>One step of either pool.\<close>

lemma fresh_register:
  assumes "n \<le> length pool" "inj_on f (dom f)" "ran f \<subseteq> set (take n pool)" "n < length pool" "distinct pool" "f x = None"
  shows "inj_on (f(x \<mapsto> pool ! n)) (dom (f(x \<mapsto> pool ! n)))" "ran (f(x \<mapsto> pool ! n)) \<subseteq> set (take (Suc n) pool)"
proof -
  have "pool ! n \<notin> set (take n pool)"
    using assms(4,5) by (auto simp: in_set_conv_nth nth_eq_iff_index_eq)
  then have "\<forall>y. f y \<noteq> Some (pool ! n)" using assms(3) by (auto simp: ran_def)
  moreover have "x \<notin> dom f" using assms(6) by (simp add: domIff)
  ultimately show "inj_on (f(x \<mapsto> pool ! n)) (dom (f(x \<mapsto> pool ! n)))"
    using assms(2) by (auto simp: inj_on_def)
  show "ran (f(x \<mapsto> pool ! n)) \<subseteq> set (take (Suc n) pool)"
    using assms(3,4,6) by (auto simp: take_Suc_conv_app_nth)
qed

lemma distinct_pools: "distinct kIRegs" "distinct kFRegs"
  by (simp_all add: kIRegs_def kFRegs_def)

lemma ireg_alloc_ok: "alloc_ok s \<Longrightarrow> alloc_ok (snd (run_state (ireg name) s))"
  using fresh_register [of "em_next_ireg s" kIRegs "em_ireg_map s" name] distinct_pools
  by (auto simp: ireg_def alloc_ok_def Let_def split: option.splits)

lemma freg_alloc_ok: "alloc_ok s \<Longrightarrow> alloc_ok (snd (run_state (freg name) s))"
  using fresh_register [of "em_next_freg s" kFRegs "em_freg_map s" name] distinct_pools
  by (auto simp: freg_def alloc_ok_def Let_def split: option.splits)

lemma map_le_fresh: "f x = None \<Longrightarrow> f \<subseteq>\<^sub>m f(x \<mapsto> y)"
  by (auto simp: map_le_def)

lemma map_le_SomeD: "f \<subseteq>\<^sub>m g \<Longrightarrow> f x = Some y \<Longrightarrow> g x = Some y"
  by (auto simp: map_le_def dom_def)

lemma produces_ireg: "produces ps (ireg name) (\<lambda>r L mm. L = [] \<and> mm name = Some r)"
  unfolding produces_def
proof (intro allI impI)
  fix s a s' assume r: "run_state (ireg name) s = (a, s')"
  then have "alloc_ok s \<longrightarrow> alloc_ok s'" using ireg_alloc_ok [of s name] by simp
  then have "grows s s'" "em_error s' = [] \<Longrightarrow> em_ireg_map s' name = Some a \<and> em_out s' = em_out s"
    using r by (auto simp: ireg_def grows_def Let_def out_of_regs_def map_le_fresh split: option.splits if_splits)
  then show "grows s s' \<and> (em_error s' = [] \<longrightarrow> (\<forall>mm. em_ireg_map s' \<subseteq>\<^sub>m mm \<longrightarrow>
      (\<exists>L. em_out s' = em_out s @ L \<and> L = [] \<and> mm name = Some a)))"
    by (auto dest: map_le_SomeD)
qed

lemma produces_freg: "produces ps (freg name) (\<lambda>r L mm. L = [])"
  unfolding produces_def
proof (intro allI impI)
  fix s a s' assume r: "run_state (freg name) s = (a, s')"
  then have "alloc_ok s \<longrightarrow> alloc_ok s'" using freg_alloc_ok [of s name] by simp
  then show "grows s s' \<and> (em_error s' = [] \<longrightarrow> (\<forall>mm. em_ireg_map s' \<subseteq>\<^sub>m mm \<longrightarrow>
      (\<exists>L. em_out s' = em_out s @ L \<and> L = [])))"
    using r by (auto simp: freg_def grows_def Let_def out_of_regs_def map_le_fresh split: option.splits if_splits)
qed

subsection \<open>Every emission keeps the allocation\<close>

definition no_label :: "asm_line \<Rightarrow> bool" where
  "no_label l \<longleftrightarrow> (\<forall>n. l \<noteq> LabelL n)"

definition emits :: "'a emit \<Rightarrow> bool" where
  "emits m \<longleftrightarrow> (\<forall>ps. produces ps m (\<lambda>_ L mm. list_all no_label L))"

lemma no_label_simps [simp]: "no_label (Ins mn args c)" "no_label (WordL w)" "no_label (TextL t)" "\<not> no_label (LabelL n)"
  by (simp_all add: no_label_def)

lemma emits_produces:
  "(\<And>ps. produces ps m (P ps)) \<Longrightarrow> (\<And>ps a L mm. P ps a L mm \<Longrightarrow> list_all no_label L) \<Longrightarrow> emits m"
  unfolding emits_def by (blast intro: produces_conseq)

lemma emits_bind [intro]: "emits m \<Longrightarrow> (\<And>a. emits (f a)) \<Longrightarrow> emits (m \<bind> f)"
  unfolding emits_def by (intro allI, rule produces_conseq [OF produces_bind]) auto

lemma emits_if [intro]: "(c \<Longrightarrow> emits m) \<Longrightarrow> (\<not> c \<Longrightarrow> emits m') \<Longrightarrow> emits (if c then m else m')"
  by simp

lemma emits_case: "emits m \<Longrightarrow> (\<And>a. emits (f a)) \<Longrightarrow> emits (case x of None \<Rightarrow> m | Some a \<Rightarrow> f a)"
  "emits (g v) \<Longrightarrow> emits (Let v g)"
  by (simp_all split: option.split)

lemma emits_prims [intro, simp]:
  "emits (State_Monad.return a)" "no_label l \<Longrightarrow> emits (emit_line l)" "emits skip" "emits undefined_behaviour"
  "emits State_Monad.get" "emits address_size" "emits (ireg name)" "emits (freg name)"
  by (rule emits_produces, rule produces_return produces_emit_line produces_skip produces_undefined
      produces_get_fields produces_ireg produces_freg, simp)+

lemma emits_errors [intro]: "message \<noteq> [] \<Longrightarrow> emits (reject message)" "message \<noteq> [] \<Longrightarrow> emits (set_error message)"
  by (rule emits_produces, erule produces_reject produces_set_error, simp)+

lemma emits_helpers [intro]:
  "emits (rarg ops k)" "emits (emit_mv rd rs c)" "emits (emit_shared_base q)" "emits (int64_arith v)"
  "emits (fp2 mn rd ops)" "emits (fp3 mn rd ops)"
  by (auto simp: rarg_def emit_mv_def emit_shared_base_def int64_arith_def fp2_def fp3_def intro!: emits_bind emits_if)

lemma emits_helpers2 [intro]:
  "emits (emit_rr mn rd ops c)" "emits (emit_ri mn rd ops v c)" "emits (emit_via_t6 mn rd ops v c)"
  "emits (emit_unary mn opc rd ops)"
  by (auto simp: emit_rr_def emit_ri_def emit_via_t6_def emit_unary_def intro!: emits_bind emits_if)

lemma emits_helpers3 [intro]:
  "emits (emit_add_imm opc rd ops v)" "emits (emit_mul_imm opc rd ops v)" "emits (emit_logic mn opc rd ops)"
  "emits (emit_mad opc rd ops)" "emits (emit_shift mi mr c rd ops)"
  by (auto simp: emit_add_imm_def emit_mul_imm_def emit_logic_def emit_mad_def emit_shift_def split: option.split
    intro!: emits_bind emits_if)

lemma emits_cvts [intro]: "emits (emit_cvta opc d a)" "emits (emit_cvt64 opc d a)" "emits (emit_cvt32 opc d a)"
  unfolding emit_cvta_def emit_cvt64_def emit_cvt32_def Let_def
  by (intro emits_if emits_bind emits_prims emits_helpers emits_errors; simp)+

lemma emits_setps [intro]:
  "emits (emit_setp_float opc pr fa fb)" "emits (emit_setp_imm opc pr ra b)" "emits (emit_setp_reg opc pr ra rb)"
  by (auto simp: emit_setp_float_def emit_setp_imm_def emit_setp_reg_def Let_def intro!: emits_bind emits_if)

lemma emits_memory [intro]:
  "emits (emitLdParam i)" "emits (emitLdGlobal i)" "emits (emitStGlobal i)" "emits (emitLdShared i)" "emits (emitStShared i)"
  by (auto simp: emitLdParam_def emitLdGlobal_def emitStGlobal_def emitLdShared_def emitStShared_def
    split: list.split intro!: emits_if emits_bind emits_case)

lemma emits_list:
  "emits m \<Longrightarrow> (\<And>a as. emits (f a as)) \<Longrightarrow> emits (case xs of [] \<Rightarrow> m | a # as \<Rightarrow> f a as)"
  by (simp split: list.split)

lemma emits_mov [intro]: "emits (emitMov i)"
  unfolding emitMov_def by (intro emits_list emits_if emits_bind emits_case emits_prims emits_helpers emits_errors) simp_all

lemma emits_cvt [intro]: "emits (emitCvt i)"
  unfolding emitCvt_def by (intro emits_list emits_if emits_bind emits_case emits_prims emits_cvts emits_errors) simp_all

lemma emits_setp [intro]: "emits (emitSetp i)"
  unfolding emitSetp_def by (intro emits_list emits_if emits_bind emits_case emits_prims emits_setps emits_errors) simp_all

lemma emits_control [intro]: "emits (emitBra i)" "emits (emitBarSync i)"
  unfolding emitBra_def emitBarSync_def
  by (intro emits_list emits_if emits_bind emits_case emits_prims emits_errors; simp)+

lemma emits_arith [intro]: "emits (emitFloat opc ops)" "emits (emitInteger opc ops)" "emits (emitArith i)"
proof -
  show f: "emits (emitFloat opc ops)" for opc ops
    unfolding emitFloat_def by (intro emits_if emits_bind emits_prims emits_helpers emits_errors) simp_all
  show g: "emits (emitInteger opc ops)" for opc ops
    unfolding emitInteger_def Let_def
    by (intro emits_if emits_bind emits_prims emits_helpers emits_helpers2 emits_helpers3 emits_errors) simp_all
  show "emits (emitArith i)"
    unfolding emitArith_def Let_def by (intro emits_if emits_errors f g) simp
qed

lemma emits_instr: "emits (emitInstr i)"
  unfolding emitInstr_def Let_def by (intro emits_if emits_memory emits_mov emits_cvt emits_setp emits_control emits_arith)

lemma emitsD:
  assumes "emits m" "run_state m s = (a, s')"
  shows "grows s s'" "em_error s' = [] \<Longrightarrow> \<exists>L. em_out s' = em_out s @ L \<and> list_all no_label L"
  using assms producesD [of "em_params s" m "\<lambda>_ L mm. list_all no_label L" s a s']
  by (auto simp: emits_def intro: map_le_refl)

lemma emit_body_grows: "run_state (emit_body is) s = (b, s') \<Longrightarrow> grows s s'"
proof (induction "is" arbitrary: s)
  case Nil
  then show ?case by auto
next
  case (Cons i "is")
  have l: "grows s (s\<lparr> em_out := em_out s @ [LabelL l] \<rparr>)" for l by (simp add: grows_def alloc_ok_def)
  obtain s1 where s1: "run_state (emitInstr i) s = ((), s1)" by (cases "run_state (emitInstr i) s") simp
  note g = emitsD(1) [OF emits_instr s1]
  show ?case
    using Cons.prems Cons.IH s1 g l grows_trans by (auto simp: emit_line_def split: if_splits) blast+
qed

lemma emits_validate: "emits (validateKernel k)"
proof -
  have "emits (validateInstruction i)" for i
    unfolding validateInstruction_def Let_def by (intro emits_if emits_bind emits_prims emits_errors) simp_all
  then have "emits (validate_body is)" for "is" by (induction "is") auto
  then show ?thesis by (auto simp: validateKernel_def)
qed

end
