(* ===== verification/PtxSemantics.thy ===== *)
theory PtxSemantics
  imports RvLowering
begin

text \<open>
  The integer fragment of PTX and of the emitted assembly, and one instruction of it from the first to the second.
  Registers that have not been written have no value, and an instruction whose meaning PTX leaves open (division by
  zero) has none.
\<close>

section \<open>The PTX fragment\<close>

type_synonym ptx_regs = "string \<rightharpoonup> u32"
type_synonym word_mem = "u32 \<Rightarrow> u32"

text \<open>The two-operand operations. A shift by more than the width, which PTX clamps, is outside of the fragment.\<close>

definition ptx_binops :: "(string \<times> (u32 \<Rightarrow> u32 \<Rightarrow> u32 option)) list" where
  "ptx_binops =
     [(''add.u32'', \<lambda>a b. Some (a + b)), (''add.s32'', \<lambda>a b. Some (a + b)),
      (''sub.u32'', \<lambda>a b. Some (a - b)), (''sub.s32'', \<lambda>a b. Some (a - b)),
      (''mul.lo.u32'', \<lambda>a b. Some (a * b)), (''mul.lo.s32'', \<lambda>a b. Some (a * b)),
      (''and.b32'', \<lambda>a b. Some (a AND b)), (''or.b32'', \<lambda>a b. Some (a OR b)), (''xor.b32'', \<lambda>a b. Some (a XOR b)),
      (''shl.b32'', \<lambda>a b. if b < 32 then Some (push_bit (unat b) a) else None),
      (''shr.u32'', \<lambda>a b. if b < 32 then Some (drop_bit (unat b) a) else None),
      (''shr.s32'', \<lambda>a b. if b < 32 then Some (signed_drop_bit (unat b) a) else None),
      (''div.u32'', \<lambda>a b. if b = 0 then None else Some (a div b)),
      (''rem.u32'', \<lambda>a b. if b = 0 then None else Some (a mod b)),
      (''div.s32'', \<lambda>a b. if b = 0 \<or> div_traps a b then None else Some (word_of_int (sint a sdiv sint b))),
      (''rem.s32'', \<lambda>a b. if b = 0 \<or> div_traps a b then None else Some (word_of_int (sint a smod sint b)))]"

definition ptx_cmps :: "(string \<times> (u32 \<Rightarrow> u32 \<Rightarrow> bool)) list" where
  "ptx_cmps =
     [(''setp.lt.u32'', \<lambda>a b. a < b), (''setp.le.u32'', \<lambda>a b. a \<le> b),
      (''setp.gt.u32'', \<lambda>a b. b < a), (''setp.ge.u32'', \<lambda>a b. b \<le> a),
      (''setp.eq.u32'', \<lambda>a b. a = b), (''setp.ne.u32'', \<lambda>a b. a \<noteq> b),
      (''setp.lt.s32'', \<lambda>a b. sint a < sint b), (''setp.le.s32'', \<lambda>a b. sint a \<le> sint b),
      (''setp.gt.s32'', \<lambda>a b. sint b < sint a), (''setp.ge.s32'', \<lambda>a b. sint b \<le> sint a),
      (''setp.eq.s32'', \<lambda>a b. a = b), (''setp.ne.s32'', \<lambda>a b. a \<noteq> b)]"

definition ptx_mads :: "string list" where "ptx_mads = [''mad.lo.u32'', ''mad.lo.s32'']"
definition ptx_movs :: "string list" where "ptx_movs = [''mov.u32'', ''mov.s32'', ''mov.b32'']"
definition ptx_loads :: "string list" where "ptx_loads = [''ld.global.u32'', ''ld.global.s32'', ''ld.global.b32'']"
definition ptx_stores :: "string list" where "ptx_stores = [''st.global.u32'', ''st.global.s32'', ''st.global.b32'']"

definition src_val :: "ptx_regs \<Rightarrow> PtxOperand \<Rightarrow> u32 option" where
  "src_val R p = (case op_kind p of K_Reg \<Rightarrow> R (op_name p) | K_IntImm \<Rightarrow> Some (of_int (op_int_val p)) | _ \<Rightarrow> None)"

text \<open>The launch: the kernel's parameters and its arguments, the address of the thread context and the values of the special
  registers that it holds.\<close>

record ptx_env =
  pe_params :: "PtxParam list"
  pe_args :: "nat \<Rightarrow> u32"
  pe_ctx :: u32
  pe_special :: "string \<Rightarrow> u32"

definition special_names :: "string list" where
  "special_names = [''tid.x'', ''tid.y'', ''tid.z'', ''ctaid.x'', ''ctaid.y'', ''ctaid.z'', ''ntid.x'', ''ntid.y'', ''ntid.z'']"

definition ctx_addr :: "ptx_env \<Rightarrow> string \<Rightarrow> u32" where
  "ctx_addr env name = pe_ctx env + of_int (specialRegOffset name)"

definition ctx_ok :: "ptx_env \<Rightarrow> word_mem \<Rightarrow> bool" where
  "ctx_ok env M \<longleftrightarrow> list_all (\<lambda>name. M (ctx_addr env name) = pe_special env name) special_names"

definition param_val :: "ptx_env \<Rightarrow> string \<Rightarrow> u32 option" where
  "param_val env name = (case find_param name (pe_params env) of
       Some p \<Rightarrow> if 0 \<le> param_index p \<and> param_index p < 8 then Some (pe_args env (nat (param_index p))) else None
     | None \<Rightarrow> None)"

definition ptx_params :: "string list" where "ptx_params = [''ld.param.u32'', ''ld.param.s32'', ''ld.param.b32'']"

text \<open>A predicate register holds 1 or 0. A store into the thread context is outside of the fragment.\<close>

definition ptx_exec :: "ptx_env \<Rightarrow> PtxInstr \<Rightarrow> ptx_regs \<times> word_mem \<Rightarrow> (ptx_regs \<times> word_mem) option" where
  "ptx_exec env i = (\<lambda>(R, M). let opc = pi_op i in
     case pi_operands i of
       [d, a] \<Rightarrow>
         if opc \<in> set ptx_movs then
           do { v \<leftarrow> (if op_kind a = K_SpecialReg then Some (pe_special env (op_name a)) else src_val R a);
                Some (R(op_name d \<mapsto> v), M) }
         else if opc \<in> set ptx_params then do { v \<leftarrow> param_val env (op_param_name a); Some (R(op_name d \<mapsto> v), M) }
         else if opc \<in> set ptx_loads then
           do { v \<leftarrow> R (op_mem_base a); Some (R(op_name d \<mapsto> M (v + of_int (op_mem_offset a))), M) }
         else if opc \<in> set ptx_stores then
           do { v \<leftarrow> R (op_mem_base d); w \<leftarrow> R (op_name a);
                if v + of_int (op_mem_offset d) \<in> ctx_addr env ` set special_names then None
                else Some (R, M(v + of_int (op_mem_offset d) := w)) }
         else None
     | [d, a, b] \<Rightarrow>
         (case map_of ptx_binops opc of
            Some f \<Rightarrow> do { v \<leftarrow> src_val R a; w \<leftarrow> src_val R b; r \<leftarrow> f v w; Some (R(op_name d \<mapsto> r), M) }
          | None \<Rightarrow>
              (case map_of ptx_cmps opc of
                 Some g \<Rightarrow> do { v \<leftarrow> src_val R a; w \<leftarrow> src_val R b;
                               Some (R(op_name d \<mapsto> (if g v w then 1 else 0)), M) }
               | None \<Rightarrow> None))
     | [d, a, b, c] \<Rightarrow>
         if opc \<in> set ptx_mads then do { v \<leftarrow> src_val R a; w \<leftarrow> src_val R b; u \<leftarrow> src_val R c;
                                        Some (R(op_name d \<mapsto> v * w + u), M) }
         else None
     | _ \<Rightarrow> None)"

section \<open>The assembly fragment\<close>

type_synonym asm_state = "(string \<Rightarrow> u32) \<times> word_mem"

definition mnemonic :: "string \<Rightarrow> string" where
  "mnemonic m = takeWhile (\<lambda>c. c \<noteq> CHR '' '') m"

definition asm_rr :: "(string \<times> RVOp) list" where
  "asm_rr = [(''add'', RV_ADD), (''sub'', RV_SUB), (''mul'', RV_MUL), (''and'', RV_AND), (''or'', RV_OR), (''xor'', RV_XOR),
     (''sll'', RV_SLL), (''srl'', RV_SRL), (''sra'', RV_SRA), (''slt'', RV_SLT), (''sltu'', RV_SLTU),
     (''div'', RV_DIV), (''divu'', RV_DIVU), (''rem'', RV_REM), (''remu'', RV_REMU)]"

text \<open>The immediate operations, with the range that the instruction has room for.\<close>

definition asm_ri :: "(string \<times> RVOp \<times> int \<times> int) list" where
  "asm_ri = [(''addi'', RV_ADDI, - 2048, 2047), (''slti'', RV_SLTI, - 2048, 2047), (''sltiu'', RV_SLTIU, - 2048, 2047),
     (''xori'', RV_XORI, - 2048, 2047), (''slli'', RV_SLLI, 0, 31), (''srli'', RV_SRLI, 0, 31), (''srai'', RV_SRAI, 0, 31)]"

definition xval :: "(string \<Rightarrow> u32) \<Rightarrow> string \<Rightarrow> u32" where
  "xval x r = (if r = ''x0'' then 0 else x r)"

definition exec_rr :: "RVOp \<Rightarrow> string \<Rightarrow> u32 \<Rightarrow> u32 \<Rightarrow> asm_state \<Rightarrow> asm_state option" where
  "exec_rr opc rd a b = (\<lambda>(x, M). map_option (\<lambda>v. (x(rd := v), M)) (rv_alu_r opc a b))"

definition exec_ri :: "RVOp \<times> int \<times> int \<Rightarrow> string \<Rightarrow> u32 \<Rightarrow> int \<Rightarrow> asm_state \<Rightarrow> asm_state option" where
  "exec_ri = (\<lambda>(opc, lo, hi) rd a v (x, M).
     if lo \<le> v \<and> v \<le> hi then Some (x(rd := rv_alu_i opc a (of_int v) 0), M) else None)"

definition li_ok :: "int \<Rightarrow> bool" where "li_ok v \<longleftrightarrow> - (2 ^ 31) \<le> v \<and> v < 2 ^ 32"
definition off_ok :: "int \<Rightarrow> bool" where "off_ok v \<longleftrightarrow> - 2048 \<le> v \<and> v \<le> 2047"

text \<open>\<open>mv\<close>, \<open>not\<close>, \<open>neg\<close>, \<open>seqz\<close> and \<open>snez\<close> are
  the pseudo-instructions of the assembler.\<close>

fun exec_line :: "asm_line \<Rightarrow> asm_state \<Rightarrow> asm_state option" where
  "exec_line (Ins m [RegA rd, RegA ra, RegA rb] _) (x, M) =
     (case map_of asm_rr (mnemonic m) of None \<Rightarrow> None | Some opc \<Rightarrow> exec_rr opc rd (xval x ra) (xval x rb) (x, M))"
| "exec_line (Ins m [RegA rd, RegA ra, ImmA v] _) (x, M) =
     (case map_of asm_ri (mnemonic m) of None \<Rightarrow> None | Some opc \<Rightarrow> exec_ri opc rd (xval x ra) v (x, M))"
| "exec_line (Ins m [RegA rd, RegA ra] _) (x, M) =
     (let n = mnemonic m; a = xval x ra in
      if n = ''mv'' then exec_ri (RV_ADDI, 0, 0) rd a 0 (x, M)
      else if n = ''not'' then exec_ri (RV_XORI, - 1, - 1) rd a (- 1) (x, M)
      else if n = ''neg'' then exec_rr RV_SUB rd 0 a (x, M)
      else if n = ''seqz'' then exec_ri (RV_SLTIU, 1, 1) rd a 1 (x, M)
      else if n = ''snez'' then exec_rr RV_SLTU rd 0 a (x, M)
      else None)"
| "exec_line (Ins m [RegA rd, ImmA v] _) (x, M) =
     (if mnemonic m = ''li'' \<and> li_ok v then Some (x(rd := of_int v), M) else None)"
| "exec_line (Ins m [RegA r, MemA off b] _) (x, M) =
     (let addr = xval x b + of_int off in
      if \<not> off_ok off then None
      else if mnemonic m = ''lw'' then Some (x(r := M addr), M)
      else if mnemonic m = ''sw'' then Some (x, M(addr := xval x r))
      else None)"
| "exec_line _ s = None"

fun exec_lines :: "asm_line list \<Rightarrow> asm_state \<Rightarrow> asm_state option" where
  "exec_lines [] s = Some s"
| "exec_lines (l # ls) s = (case exec_line l s of None \<Rightarrow> None | Some s' \<Rightarrow> exec_lines ls s')"

lemma exec_lines_append:
  "exec_lines (L1 @ L2) s = (case exec_lines L1 s of None \<Rightarrow> None | Some s' \<Rightarrow> exec_lines L2 s')"
  by (induction L1 arbitrary: s) (simp_all split: option.split)

section \<open>Simulation of one instruction\<close>

text \<open>The register file against the hardware registers, by a map into the pool. The arguments are in \<open>a0\<close>
  to \<open>a7\<close> and the address of the thread context is in \<open>gp\<close>, which nothing overwrites.\<close>

definition pool_map :: "(string \<rightharpoonup> string) \<Rightarrow> bool" where
  "pool_map mm \<longleftrightarrow> inj_on mm (dom mm) \<and> ran mm \<subseteq> set kIRegs"

definition reg_rel :: "ptx_env \<Rightarrow> (string \<rightharpoonup> string) \<Rightarrow> ptx_regs \<Rightarrow> (string \<Rightarrow> u32) \<Rightarrow> bool" where
  "reg_rel env mm R x \<longleftrightarrow> (\<forall>name v. R name = Some v \<longrightarrow> (\<exists>r. mm name = Some r \<and> x r = v)) \<and>
     x ''gp'' = pe_ctx env \<and> list_all (\<lambda>k. x (kParamRegs ! k) = pe_args env k) [0..<8]"

lemma pool_reg: "pool_map mm \<Longrightarrow> mm name = Some r \<Longrightarrow>
  r \<noteq> ''x0'' \<and> r \<noteq> ''t6'' \<and> r \<noteq> ''gp'' \<and> r \<notin> set kParamRegs"
proof -
  assume "pool_map mm" "mm name = Some r"
  then have "r \<in> set kIRegs" by (auto simp: pool_map_def ran_def)
  then show ?thesis by (auto simp: kIRegs_def kParamRegs_def)
qed

lemma param_reg: "k < 8 \<Longrightarrow> kParamRegs ! k \<in> set kParamRegs \<and> kParamRegs ! k \<noteq> ''t6'' \<and> kParamRegs ! k \<noteq> ''x0''"
proof -
  assume "k < 8"
  then have "kParamRegs ! k \<in> set kParamRegs" by (intro nth_mem) (simp add: kParamRegs_def)
  then show ?thesis by (auto simp: kParamRegs_def)
qed

lemma pool_inj: "pool_map mm \<Longrightarrow> mm n1 = Some r \<Longrightarrow> mm n2 = Some r \<Longrightarrow> n1 = n2"
  unfolding pool_map_def inj_on_def by (metis domI)

lemma reg_rel_val: "pool_map mm \<Longrightarrow> reg_rel env mm R x \<Longrightarrow> mm name = Some r \<Longrightarrow> R name = Some v \<Longrightarrow> xval x r = v"
  using pool_reg [of mm name r] by (fastforce simp: reg_rel_def xval_def)

lemma reg_rel_upd:
  assumes "pool_map mm" "reg_rel env mm R x" "mm name = Some r"
  shows "reg_rel env mm (R(name \<mapsto> v)) (x(r := v))"
proof -
  have r: "r \<noteq> ''gp''" "r \<notin> set kParamRegs" using pool_reg [OF assms(1,3)] by auto
  have "\<forall>n w. (R(name \<mapsto> v)) n = Some w \<longrightarrow> (\<exists>q. mm n = Some q \<and> (x(r := v)) q = w)"
  proof (intro allI impI)
    fix n w assume w: "(R(name \<mapsto> v)) n = Some w"
    show "\<exists>q. mm n = Some q \<and> (x(r := v)) q = w"
    proof (cases "n = name")
      case False
      then obtain q where "mm n = Some q" "x q = w" using w assms(2) by (auto simp: reg_rel_def)
      moreover have "q \<noteq> r" using pool_inj [OF assms(1)] assms(3) \<open>mm n = Some q\<close> False by blast
      ultimately show ?thesis by auto
    qed (use w assms(3) in auto)
  qed
  moreover have "list_all (\<lambda>k. (x(r := v)) (kParamRegs ! k) = pe_args env k) [0..<8]"
    using assms(2) r(2) param_reg by (auto simp: reg_rel_def list_all_iff)
  ultimately show ?thesis using assms(2) r(1) by (auto simp: reg_rel_def)
qed

lemma reg_rel_t6: "pool_map mm \<Longrightarrow> reg_rel env mm R x \<Longrightarrow> reg_rel env mm R (x(''t6'' := v))"
  using pool_reg [of mm] param_reg by (fastforce simp: reg_rel_def list_all_iff)

definition sim_post :: "ptx_env \<Rightarrow> PtxInstr \<Rightarrow> asm_line list \<Rightarrow> (string \<rightharpoonup> string) \<Rightarrow> bool" where
  "sim_post env i L mm \<longleftrightarrow> (\<forall>R M R' M' x. pool_map mm \<longrightarrow> reg_rel env mm R x \<longrightarrow> ptx_exec env i (R, M) = Some (R', M') \<longrightarrow> ctx_ok env M \<longrightarrow>
     (\<exists>x'. exec_lines L (x, M) = Some (x', M') \<and> reg_rel env mm R' x'))"

lemma produces_rarg:
  "op_kind (ops ! k) = K_Reg \<Longrightarrow> k < length ops \<Longrightarrow>
   produces ps (rarg ops k) (\<lambda>r L mm. L = [] \<and> mm (op_name (ops ! k)) = Some r)"
  using produces_ireg by (simp add: rarg_def is_reg_def)

text \<open>The postcondition of a three-register line, of one with an immediate, and of the detour by \<open>t6\<close>.\<close>

lemma produces_rr:
  assumes "op_kind a = K_Reg" "op_kind b = K_Reg"
  shows "produces ps (do { rd \<leftarrow> ireg n; emit_rr mn rd (d # a # b # r) c })
    (\<lambda>_ L mm. \<exists>rd ra rb. L = [Ins mn [RegA rd, RegA ra, RegA rb] c] \<and> mm n = Some rd \<and>
       mm (op_name a) = Some ra \<and> mm (op_name b) = Some rb)"
  unfolding emit_rr_def
  by (rule produces_conseq [OF produces_bind [OF produces_ireg produces_bind [OF produces_rarg
      produces_bind [OF produces_rarg produces_emit_line]]]]) (use assms in auto)

lemma produces_ri:
  assumes "op_kind a = K_Reg"
  shows "produces ps (do { rd \<leftarrow> ireg n; emit_ri mn rd (d # a # r) v c })
    (\<lambda>_ L mm. \<exists>rd ra. L = [Ins mn [RegA rd, RegA ra, ImmA v] c] \<and> mm n = Some rd \<and> mm (op_name a) = Some ra)"
  unfolding emit_ri_def
  by (rule produces_conseq [OF produces_bind [OF produces_ireg produces_bind [OF produces_rarg
      produces_emit_line]]]) (use assms in auto)

lemma produces_t6:
  assumes "op_kind a = K_Reg"
  shows "produces ps (do { rd \<leftarrow> ireg n; emit_via_t6 mn rd (d # a # r) v c })
    (\<lambda>_ L mm. \<exists>rd ra. L = [Ins ''li'' [RegA ''t6'', ImmA v] [], Ins mn [RegA rd, RegA ra, RegA ''t6''] c] \<and>
       mm n = Some rd \<and> mm (op_name a) = Some ra)"
  unfolding emit_via_t6_def
  by (rule produces_conseq [OF produces_bind [OF produces_ireg produces_bind [OF produces_emit_line produces_bind
      [OF produces_rarg produces_emit_line]]]]) (use assms in auto)

lemma produces_int64 [intro]: "produces ps (int64_arith v) (\<lambda>_ L mm. L = [])"
  using produces_skip produces_undefined by (simp add: int64_arith_def)

lemma sim_rr:
  assumes "pi_operands i = [d, a, b]" "op_kind a = K_Reg" "op_kind b = K_Reg" "map_of ptx_binops (pi_op i) = Some f"
    "map_of asm_rr (mnemonic mn) = Some alu" "\<And>v w r. f v w = Some r \<Longrightarrow> rv_alu_r alu v w = Some r"
  shows "produces ps (do { rd \<leftarrow> ireg (op_name d); emit_rr mn rd [d, a, b] c }) (\<lambda>_. sim_post env i)"
  by (rule produces_conseq [OF produces_rr])
    (use assms in \<open>auto simp: sim_post_def ptx_exec_def src_val_def exec_rr_def reg_rel_val bind_eq_Some_conv
      intro!: reg_rel_upd\<close>)

lemma sim_ri:
  assumes "pi_operands i = [d, a, b]" "op_kind a = K_Reg" "op_kind b = K_IntImm" "map_of ptx_binops (pi_op i) = Some f"
    "map_of asm_ri (mnemonic mn) = Some (alu, lo, hi)" "lo \<le> v" "v \<le> hi"
    "\<And>u r. f u (of_int (op_int_val b)) = Some r \<Longrightarrow> rv_alu_i alu u (of_int v) 0 = r"
  shows "produces ps (do { rd \<leftarrow> ireg (op_name d); emit_ri mn rd [d, a, b] v c }) (\<lambda>_. sim_post env i)"
  by (rule produces_conseq [OF produces_ri])
    (use assms in \<open>auto simp: sim_post_def ptx_exec_def src_val_def exec_ri_def reg_rel_val bind_eq_Some_conv
      intro!: reg_rel_upd\<close>)

lemma sim_t6:
  assumes "pi_operands i = [d, a, b]" "op_kind a = K_Reg" "op_kind b = K_IntImm" "map_of ptx_binops (pi_op i) = Some f"
    "map_of asm_rr (mnemonic mn) = Some alu" "li_ok v"
    "\<And>u r. f u (of_int (op_int_val b)) = Some r \<Longrightarrow> rv_alu_r alu u (of_int v) = Some r"
  shows "produces ps (do { rd \<leftarrow> ireg (op_name d); emit_via_t6 mn rd [d, a, b] v c }) (\<lambda>_. sim_post env i)"
proof (rule produces_conseq [OF produces_t6 [OF assms(2)]], elim exE conjE)
  fix L mm rd ra
  assume L: "L = [Ins ''li'' [RegA ''t6'', ImmA v] [], Ins mn [RegA rd, RegA ra, RegA ''t6''] c]"
    "mm (op_name d) = Some rd" "mm (op_name a) = Some ra"
  show "sim_post env i L mm"
    unfolding sim_post_def
  proof (intro allI impI)
    fix R M R' M' x
    assume p: "pool_map mm" "reg_rel env mm R x" "ptx_exec env i (R, M) = Some (R', M')"
    have t6: "reg_rel env mm R (x(''t6'' := word_of_int v))" using p(1,2) by (rule reg_rel_t6)
    obtain u r where u: "R (op_name a) = Some u" "f u (of_int (op_int_val b)) = Some r" "R' = R(op_name d \<mapsto> r)" "M' = M"
      using p(3) assms(1-4) by (auto simp: ptx_exec_def src_val_def bind_eq_Some_conv)
    have "xval (x(''t6'' := word_of_int v)) ra = u" using p(1) t6 L(3) u(1) by (rule reg_rel_val)
    moreover have "mnemonic ''li'' = ''li''" by (simp add: mnemonic_def)
    moreover have "xval (x(''t6'' := word_of_int v)) ''t6'' = word_of_int v" by (simp add: xval_def)
    ultimately have "exec_lines L (x, M) = Some (x(''t6'' := word_of_int v, rd := r), M)"
      using assms(5,6) assms(7) [OF u(2)] by (simp add: L(1) exec_rr_def)
    with reg_rel_upd [OF p(1) t6 L(2), of r] u
    show "\<exists>x'. exec_lines L (x, M) = Some (x', M') \<and> reg_rel env mm R' x'" by auto
  qed
qed


subsection \<open>The two-operand operations\<close>

lemma startsWith_simps [simp]:
  "startsWith s [] \<longleftrightarrow> s = [] \<or> hd s = CHR ''.''" "\<not> startsWith [] (d # p)"
  "startsWith (c # s) (d # p) \<longleftrightarrow> c = d \<and> startsWith s p"
  by (auto simp: startsWith_def hd_conv_nth)

lemma starts_with_simps [simp]:
  "starts_with [] s" "\<not> starts_with (d # p) []" "starts_with (d # p) (c # s) \<longleftrightarrow> c = d \<and> starts_with p s"
  by (auto simp: starts_with_def)

lemmas emit_eval = emitInteger_def imm_at_def immarg_def Let_def

definition integer_ops :: "string list" where
  "integer_ops = map fst ptx_binops @ ptx_mads"

text \<open>No earlier case of the dispatch takes an integer operation.\<close>

definition falls_through :: "string \<Rightarrow> bool" where
  "falls_through opc \<longleftrightarrow>
     \<not> startsWith opc ''ld.param'' \<and> \<not> startsWith opc ''ld.global'' \<and> \<not> startsWith opc ''st.global'' \<and>
     \<not> startsWith opc ''st.shared'' \<and> \<not> startsWith opc ''ld.shared'' \<and> \<not> startsWith opc ''mov'' \<and>
     \<not> startsWith opc ''cvta'' \<and> \<not> startsWith opc ''cvt'' \<and> \<not> startsWith opc ''setp'' \<and>
     opc \<noteq> ''bar.sync'' \<and> opc \<noteq> ''bra'' \<and> opc \<noteq> ''ret'' \<and> \<not> contains ''.f32'' opc \<and> \<not> contains ''.f64'' opc"

lemma integer_ops_fall_through: "list_all falls_through integer_ops"
  by (simp add: integer_ops_def ptx_binops_def ptx_mads_def falls_through_def)

lemma emitInstr_integer:
  assumes "pi_op i \<in> set integer_ops" "pi_operands i \<noteq> []"
  shows "emitInstr i = emitInteger (pi_op i) (pi_operands i)"
proof -
  have "falls_through (pi_op i)" using assms(1) integer_ops_fall_through by (auto simp: list_all_iff)
  with assms(2) show ?thesis by (simp add: falls_through_def emitInstr_def emitArith_def Let_def)
qed

lemma emit_add_sub:
  "emitInteger ''add.u32'' [d, a, b] = do { rd \<leftarrow> ireg (op_name d); if is_imm b then emit_add_imm ''add.u32'' rd [d, a, b] (op_int_val b)
      else emit_rr ''add'' rd [d, a, b] (remark ''add.u32'') }"
  "emitInteger ''add.s32'' [d, a, b] = do { rd \<leftarrow> ireg (op_name d); if is_imm b then emit_add_imm ''add.s32'' rd [d, a, b] (op_int_val b)
      else emit_rr ''add'' rd [d, a, b] (remark ''add.s32'') }"
  "emitInteger ''sub.u32'' [d, a, b] = do { rd \<leftarrow> ireg (op_name d); if is_imm b then do { int64_arith (- op_int_val b); emit_add_imm ''sub.u32'' rd [d, a, b] (- op_int_val b) }
      else emit_rr ''sub'' rd [d, a, b] (remark ''sub.u32'') }"
  "emitInteger ''sub.s32'' [d, a, b] = do { rd \<leftarrow> ireg (op_name d); if is_imm b then do { int64_arith (- op_int_val b); emit_add_imm ''sub.s32'' rd [d, a, b] (- op_int_val b) }
      else emit_rr ''sub'' rd [d, a, b] (remark ''sub.s32'') }"
  "emitInteger ''mul.lo.u32'' [d, a, b] = do { rd \<leftarrow> ireg (op_name d); if is_imm b then emit_mul_imm ''mul.lo.u32'' rd [d, a, b] (op_int_val b)
      else emit_rr ''mul'' rd [d, a, b] (remark ''mul.lo.u32'') }"
  "emitInteger ''mul.lo.s32'' [d, a, b] = do { rd \<leftarrow> ireg (op_name d); if is_imm b then emit_mul_imm ''mul.lo.s32'' rd [d, a, b] (op_int_val b)
      else emit_rr ''mul'' rd [d, a, b] (remark ''mul.lo.s32'') }"
  by (simp_all add: emit_eval cong: if_cong)

lemma emit_logic_shift:
  "emitInteger ''and.b32'' [d, a, b] = do { rd \<leftarrow> ireg (op_name d); emit_logic ''and'' ''and.b32'' rd [d, a, b] }"
  "emitInteger ''or.b32'' [d, a, b] = do { rd \<leftarrow> ireg (op_name d); emit_logic ''or'' ''or.b32'' rd [d, a, b] }"
  "emitInteger ''xor.b32'' [d, a, b] = do { rd \<leftarrow> ireg (op_name d); emit_logic ''xor'' ''xor.b32'' rd [d, a, b] }"
  "emitInteger ''shl.b32'' [d, a, b] = do { rd \<leftarrow> ireg (op_name d); emit_shift ''slli'' ''sll'' (remark ''shl.b32'') rd [d, a, b] }"
  "emitInteger ''shr.u32'' [d, a, b] = do { rd \<leftarrow> ireg (op_name d); emit_shift ''srli'' ''srl'' [] rd [d, a, b] }"
  "emitInteger ''shr.s32'' [d, a, b] = do { rd \<leftarrow> ireg (op_name d); emit_shift ''srai'' ''sra'' [] rd [d, a, b] }"
  by (simp_all add: emit_eval cong: if_cong)

lemma emit_div_rem:
  "emitInteger ''div.u32'' [d, a, b] = do { rd \<leftarrow> ireg (op_name d); emit_rr ''divu'' rd [d, a, b] (remark ''div.u32'') }"
  "emitInteger ''div.s32'' [d, a, b] = do { rd \<leftarrow> ireg (op_name d); emit_rr ''div'' rd [d, a, b] (remark ''div.s32'') }"
  "emitInteger ''rem.u32'' [d, a, b] = do { rd \<leftarrow> ireg (op_name d); emit_rr ''remu'' rd [d, a, b] (remark ''rem.u32'') }"
  "emitInteger ''rem.s32'' [d, a, b] = do { rd \<leftarrow> ireg (op_name d); emit_rr ''rem'' rd [d, a, b] (remark ''rem.s32'') }"
  by (simp_all add: emit_eval cong: if_cong)

definition imm_ok :: "string \<Rightarrow> int \<Rightarrow> bool" where
  "imm_ok opc v \<longleftrightarrow>
     opc \<in> {''add.u32'', ''add.s32'', ''and.b32'', ''or.b32'', ''xor.b32''} \<and> li_ok v \<or>
     opc \<in> {''sub.u32'', ''sub.s32''} \<and> li_ok (- v) \<or>
     opc \<in> {''mul.lo.u32'', ''mul.lo.s32''} \<and> li_ok v \<and> v \<noteq> 2 ^ 31 \<or>
     opc \<in> {''shl.b32'', ''shr.u32'', ''shr.s32''} \<and> 0 \<le> v \<and> v < 32"

text \<open>What the machine operations compute.\<close>

lemma rv_mul: "ucast (scast (a :: u32) * scast b :: u64) = (a * b :: u32)"
proof -
  have "(ucast (scast a * scast b :: u64) :: u32) = ucast (scast a :: u64) * ucast (scast b :: u64)"
    unfolding word_uint_eq_iff by (simp add: unsigned_ucast_eq uint_word_arith_bintrs take_bit_mult)
  moreover have "(ucast (scast a :: u64) :: u32) = a" "(ucast (scast b :: u64) :: u32) = b"
    by (rule bit_word_eqI, auto simp: bit_simps)+
  ultimately show ?thesis by simp
qed

lemma shamt_small: "(b :: u32) < 32 \<Longrightarrow> rv_shamt b = unat b"
proof -
  assume "b < 32"
  then have "unat b < 2 ^ 5" by (simp add: word_less_nat_alt)
  then have "unat (take_bit 5 b) = unat b" by (simp add: unsigned_take_bit_eq take_bit_nat_eq_self)
  moreover have "b AND 0x1F = take_bit 5 b" by (simp add: take_bit_eq_mask mask_eq_exp_minus_1)
  ultimately show ?thesis by (simp add: rv_shamt_def)
qed


lemma pow2_int: "0 < v \<Longrightarrow> v AND (v - 1) = 0 \<Longrightarrow> \<exists>k. v = (2 :: int) ^ k"
proof (induction "nat v" arbitrary: v rule: less_induct)
  case less
  note rec = and_int_rec [of v "v - 1"]
  show ?case
  proof (cases "even v")
    case True
    then obtain w where w: "v = 2 * w" by (elim evenE)
    then have d: "v div 2 = w" "(v - 1) div 2 = w - 1" by simp_all
    have "w AND (w - 1) = 0" using rec less.prems(2) True d by simp
    moreover have "0 < w" "nat w < nat v" using less.prems(1) w by auto
    ultimately obtain k where "w = 2 ^ k" using less.hyps by blast
    then have "v = 2 ^ Suc k" using w by simp
    then show ?thesis by blast
  next
    case False
    then have "v div 2 = (v - 1) div 2" by (elim oddE) simp
    then have "v div 2 = 0" using rec less.prems(2) False by simp
    then have "v = 2 ^ 0" using less.prems(1) by (simp add: zdiv_eq_0_iff)
    then show ?thesis by blast
  qed
qed

lemma shift_for_pow2:
  assumes "0 < v" "v AND (v - 1) = 0" "v < 2 ^ 32" "v \<noteq> 2 ^ 31" obtains sh where "shift_for v = Some sh" "v = 2 ^ sh" "sh < 31"
proof -
  obtain k where k: "v = 2 ^ k" using pow2_int assms(1,2) by blast
  then have "k < 32" using assms(3) power_strict_increasing_iff [of "2 :: int" k 32] by (simp only: k)
  moreover have "k \<noteq> 31" using assms(4) k by blast
  ultimately have "k < 31" by simp
  have "shift_for v = Some k"
    unfolding shift_for_def find_Some_iff
    by (rule exI [of _ k]) (use k \<open>k < 31\<close> in simp)
  then show thesis using that k \<open>k < 31\<close> by blast
qed

lemma slli_mul: "sh < 32 \<Longrightarrow> rv_alu_i RV_SLLI a (word_of_int (int sh)) c = a * word_of_int (2 ^ sh)"
proof -
  assume sh: "sh < 32"
  then have "(word_of_nat sh :: u32) < 32" by (simp add: word_less_nat_alt unat_of_nat take_bit_nat_eq_self)
  then have "rv_shamt (word_of_nat sh :: u32) = sh"
    using sh by (simp add: shamt_small unat_of_nat take_bit_nat_eq_self)
  then show ?thesis by (simp add: rv_alu_i_def push_bit_eq_mult mult.commute)
qed

lemma int_shift_amount:
  assumes "0 \<le> v" "v < 32" shows "(word_of_int v :: u32) < 32" "unat (word_of_int v :: u32) = nat v"
proof -
  have "uint (word_of_int v :: u32) = v" using assms by (simp add: uint_word_of_int take_bit_int_eq_self)
  then show "unat (word_of_int v :: u32) = nat v" by (simp add: unat_eq_nat_uint)
  then show "(word_of_int v :: u32) < 32" using assms by (simp add: word_less_nat_alt)
qed

lemma produces_bind_empty:
  assumes "produces ps m (\<lambda>_ L mm. L = [])" "produces ps m' Q" shows "produces ps (m \<bind> (\<lambda>_. m')) Q"
  by (rule produces_conseq [OF produces_bind [OF assms(1) assms(2)]]) simp


lemma skip_bind [simp]: "skip \<bind> f = f ()"
  by (simp add: skip_def)

lemma alu_add: "rv_alu_r RV_ADD u w = Some (u + w)" "rv_alu_i RV_ADDI u w c = u + w"
  by (simp_all add: rv_alu_r_def rv_alu_i_def)

lemma sim_add_imm:
  assumes "pi_operands i = [d, a, b]" "op_kind a = K_Reg" "op_kind b = K_IntImm" "map_of ptx_binops (pi_op i) = Some f"
    "li_ok v" "\<And>u r. f u (of_int (op_int_val b)) = Some r \<Longrightarrow> r = u + of_int v"
  shows "produces ps (do { rd \<leftarrow> ireg (op_name d); emit_add_imm opc rd [d, a, b] v }) (\<lambda>_. sim_post env i)"
proof (cases "v < - 2048 \<or> 2047 < v")
  case True
  have "produces ps (do { rd \<leftarrow> ireg (op_name d); emit_via_t6 ''add'' rd [d, a, b] v (remark opc) }) (\<lambda>_. sim_post env i)"
    by (rule sim_t6 [OF assms(1-4)]) (use assms(5) in \<open>auto simp: asm_rr_def mnemonic_def alu_add dest!: assms(6)\<close>)
  with True show ?thesis by (auto simp: emit_add_imm_def)
next
  case False
  have "produces ps (do { rd \<leftarrow> ireg (op_name d); emit_ri ''addi'' rd [d, a, b] v (remark opc) }) (\<lambda>_. sim_post env i)"
    by (rule sim_ri [OF assms(1-4)]) (use False in \<open>auto simp: asm_ri_def mnemonic_def alu_add dest!: assms(6)\<close>)
  with False show ?thesis by (auto simp: emit_add_imm_def)
qed

lemma sim_mul_imm:
  assumes "pi_operands i = [d, a, b]" "op_kind a = K_Reg" "op_kind b = K_IntImm" "map_of ptx_binops (pi_op i) = Some f"
    "f = (\<lambda>a b. Some (a * b))" "li_ok (op_int_val b)" "op_int_val b \<noteq> 2 ^ 31"
  shows "produces ps (do { rd \<leftarrow> ireg (op_name d); emit_mul_imm opc rd [d, a, b] (op_int_val b) }) (\<lambda>_. sim_post env i)"
proof (cases "op_int_val b > 0 \<and> op_int_val b AND (op_int_val b - 1) = 0")
  case True
  then obtain sh where sh: "shift_for (op_int_val b) = Some sh" "op_int_val b = 2 ^ sh" "sh < 31"
    using shift_for_pow2 [of "op_int_val b"] assms(6,7) by (auto simp: li_ok_def)
  have "produces ps (do { rd \<leftarrow> ireg (op_name d);
      emit_ri ''slli'' rd [d, a, b] (int sh) (remark opc @ '' *'' @ show_int (op_int_val b)) }) (\<lambda>_. sim_post env i)"
    by (rule sim_ri [OF assms(1-4)])
      (use sh assms(5) slli_mul [of sh] in \<open>auto simp: asm_ri_def mnemonic_def simp del: of_int_power\<close>)
  with True sh(1) show ?thesis by (simp add: emit_mul_imm_def)
next
  case False
  have "produces ps (do { rd \<leftarrow> ireg (op_name d); emit_via_t6 ''mul'' rd [d, a, b] (op_int_val b) (remark opc) }) (\<lambda>_. sim_post env i)"
    by (rule sim_t6 [OF assms(1-4)]) (use assms(5,6) in \<open>auto simp: asm_rr_def mnemonic_def rv_alu_r_def rv_mul\<close>)
  with False show ?thesis by (auto simp: emit_mul_imm_def)
qed

lemma int64_arith_li: "li_ok v \<Longrightarrow> int64_arith v = skip"
  by (simp add: int64_arith_def li_ok_def int64_ok_def)

lemma sim_binop:
  assumes ops: "pi_operands i = [d, a, b]" and a: "op_kind a = K_Reg" and f: "map_of ptx_binops (pi_op i) = Some f"
    and b: "op_kind b = K_Reg \<or> op_kind b = K_IntImm \<and> imm_ok (pi_op i) (op_int_val b)"
  shows "produces ps (emitInstr i) (\<lambda>_. sim_post env i)"
proof -
  have "pi_op i \<in> set integer_ops"
    using map_of_SomeD [OF f] by (force simp: integer_ops_def)
  then have e: "emitInstr i = emitInteger (pi_op i) [d, a, b]" using emitInstr_integer ops by simp
  note evals = emit_add_sub emit_logic_shift emit_div_rem emit_logic_def emit_shift_def
    is_imm_def imm_at_def immarg_def int64_arith_li
  show ?thesis
  proof (cases "op_kind b = K_Reg")
    case True
    note rr = sim_rr [OF ops a True f]
    show ?thesis
      unfolding e using f True
      by (auto simp: ptx_binops_def evals rv_mul rv_alu_r_def shamt_small mnemonic_def asm_rr_def
        intro!: rr split: if_splits)
  next
    case False
    then have imm: "op_kind b = K_IntImm" "imm_ok (pi_op i) (op_int_val b)" using b by auto
    note ri = sim_ri [OF ops a imm(1) f] and t6 = sim_t6 [OF ops a imm(1) f]
      and add = sim_add_imm [OF ops a imm(1) f] and mul = sim_mul_imm [OF ops a imm(1) f]
    show ?thesis
      unfolding e using f imm
      by (auto simp: ptx_binops_def evals rv_mul rv_alu_r_def rv_alu_i_def shamt_small mnemonic_def asm_rr_def asm_ri_def
        imm_ok_def int_shift_amount intro!: ri t6 add mul split: if_splits)
  qed
qed


subsection \<open>Multiply-add, moves and memory\<close>

lemma move_ops:
  "list_all (\<lambda>opc. startsWith opc ''mov'' \<and> \<not> startsWith opc ''ld.param'' \<and> \<not> startsWith opc ''ld.global'' \<and>
     \<not> startsWith opc ''st.global'' \<and> \<not> startsWith opc ''st.shared'' \<and> \<not> startsWith opc ''ld.shared'') ptx_movs"
  "list_all (\<lambda>opc. startsWith opc ''ld.param'' \<and> opc \<notin> set ptx_movs \<and> \<not> contains ''.f32'' opc \<and> \<not> contains ''.f64'' opc \<and>
     \<not> contains ''.u64'' opc \<and> \<not> contains ''.b64'' opc \<and>
     (contains ''.u32'' opc \<or> contains ''.b32'' opc \<or> contains ''.s32'' opc)) ptx_params"
  "list_all (\<lambda>opc. startsWith opc ''ld.global'' \<and> \<not> startsWith opc ''ld.param'' \<and> \<not> contains ''.f32'' opc \<and>
     opc \<notin> set ptx_movs \<and> opc \<notin> set ptx_params) ptx_loads"
  "list_all (\<lambda>opc. startsWith opc ''st.global'' \<and> \<not> startsWith opc ''ld.global'' \<and> \<not> startsWith opc ''ld.param'' \<and>
     \<not> contains ''.f32'' opc \<and> opc \<notin> set ptx_movs \<and> opc \<notin> set ptx_params \<and> opc \<notin> set ptx_loads) ptx_stores"
  by (simp_all add: ptx_movs_def ptx_params_def ptx_loads_def ptx_stores_def)

lemmas move_op = move_ops [unfolded list_all_iff, rule_format]

lemma sim_mad:
  assumes ops: "pi_operands i = [d, a, b, c]" and regs: "op_kind a = K_Reg" "op_kind b = K_Reg" "op_kind c = K_Reg"
    and m: "pi_op i \<in> set ptx_mads" and ne: "op_name c \<noteq> op_name d"
  shows "produces ps (emitInstr i) (\<lambda>_. sim_post env i)"
proof -
  have "pi_op i \<in> set integer_ops" using m by (simp add: integer_ops_def)
  then have e: "emitInstr i = do { rd \<leftarrow> ireg (op_name d); emit_mad (pi_op i) rd [d, a, b, c] }"
    using m ops by (auto simp: emitInstr_integer ptx_mads_def emit_eval)
  have "produces ps (emit_mad opc rd [d, a, b, c]) (\<lambda>_ L mm. \<exists>ra rb rc. mm (op_name a) = Some ra \<and> mm (op_name b) = Some rb \<and>
      mm (op_name c) = Some rc \<and> L = [Ins ''mul'' [RegA rd, RegA ra, RegA rb] [],
        Ins ''add'' [RegA rd, RegA rd, RegA rc] (remark opc)])" for opc rd
    unfolding emit_mad_def emit_rr_def
    by (simp, rule produces_conseq [OF produces_bind [OF produces_rarg produces_bind [OF produces_rarg produces_bind
        [OF produces_emit_line produces_bind [OF produces_rarg produces_emit_line]]]]]) (use regs in auto)
  then have "produces ps (emitInstr i) (\<lambda>_ L mm. \<exists>rd ra rb rc. mm (op_name d) = Some rd \<and> mm (op_name a) = Some ra \<and>
      mm (op_name b) = Some rb \<and> mm (op_name c) = Some rc \<and> L = [Ins ''mul'' [RegA rd, RegA ra, RegA rb] [],
        Ins ''add'' [RegA rd, RegA rd, RegA rc] (remark (pi_op i))])"
    unfolding e by (intro produces_conseq [OF produces_bind [OF produces_ireg]]) auto
  then show ?thesis
  proof (rule produces_conseq, elim exE conjE)
    fix L mm rd ra rb rc
    assume L: "mm (op_name d) = Some rd" "mm (op_name a) = Some ra" "mm (op_name b) = Some rb" "mm (op_name c) = Some rc"
      "L = [Ins ''mul'' [RegA rd, RegA ra, RegA rb] [], Ins ''add'' [RegA rd, RegA rd, RegA rc] (remark (pi_op i))]"
    show "sim_post env i L mm"
      unfolding sim_post_def
    proof (intro allI impI)
      fix R M R' M' x
      assume p: "pool_map mm" "reg_rel env mm R x" "ptx_exec env i (R, M) = Some (R', M')"
      then obtain u v w where v: "R (op_name a) = Some u" "R (op_name b) = Some v" "R (op_name c) = Some w"
          "R' = R(op_name d \<mapsto> u * v + w)" "M' = M"
        using ops regs m by (auto simp: ptx_exec_def src_val_def bind_eq_Some_conv)
      have xs: "xval x ra = u" "xval x rb = v" "xval x rc = w"
        using reg_rel_val [OF p(1,2)] L v by blast+
      have "rc \<noteq> rd" using pool_inj [OF p(1) L(4)] L(1) ne by blast
      then have "xval (x(rd := u * v)) rc = w" using xs(3) by (auto simp: xval_def)
      moreover have "xval (x(rd := u * v)) rd = u * v" using pool_reg [OF p(1) L(1)] by (simp add: xval_def)
      ultimately have "exec_lines L (x, M) = Some (x(rd := u * v, rd := u * v + w), M)"
        using xs(1,2) L(5) by (simp add: mnemonic_def asm_rr_def exec_rr_def rv_alu_r_def rv_mul)
      with reg_rel_upd [OF p(1,2) L(1), of "u * v + w"] v
      show "\<exists>x'. exec_lines L (x, M) = Some (x', M') \<and> reg_rel env mm R' x'" by auto
    qed
  qed
qed

lemma sim_mov:
  assumes ops: "pi_operands i = [d, a]" and m: "pi_op i \<in> set ptx_movs" and d: "op_kind d = K_Reg" "\<not> is_f_name (op_name d)"
    and a: "op_kind a = K_Reg \<or> op_kind a = K_IntImm \<and> li_ok (op_int_val a)"
  shows "produces ps (emitInstr i) (\<lambda>_. sim_post env i)"
proof -
  have e: "emitInstr i = emitMov i" using move_op(1) [OF m] by (simp add: emitInstr_def Let_def)
  show ?thesis
  proof (cases "op_kind a = K_Reg")
    case True
    have "emitMov i = do { rs \<leftarrow> ireg (op_name a); rd \<leftarrow> ireg (op_name d); emit_mv rd rs (remark (pi_op i)) }"
      using ops d True by (simp add: emitMov_def)
    moreover have "produces ps (emit_mv rd rs c) (\<lambda>_ L mm. L = (if rd = rs then [] else [Ins ''mv'' [RegA rd, RegA rs] c]))" for rd rs c
      using produces_skip produces_emit_line by (simp add: emit_mv_def)
    ultimately have "produces ps (emitInstr i) (\<lambda>_ L mm. \<exists>rd rs. mm (op_name d) = Some rd \<and> mm (op_name a) = Some rs \<and>
        L = (if rd = rs then [] else [Ins ''mv'' [RegA rd, RegA rs] (remark (pi_op i))]))"
      unfolding e by (simp only:) (rule produces_conseq [OF produces_bind [OF produces_ireg produces_bind [OF produces_ireg]]], auto)
    then show ?thesis
    proof (rule produces_conseq, elim exE conjE)
      fix L mm rd rs
      assume L: "mm (op_name d) = Some rd" "mm (op_name a) = Some rs"
        "L = (if rd = rs then [] else [Ins ''mv'' [RegA rd, RegA rs] (remark (pi_op i))])"
      show "sim_post env i L mm"
        unfolding sim_post_def
      proof (intro allI impI)
        fix R M R' M' x
        assume p: "pool_map mm" "reg_rel env mm R x" "ptx_exec env i (R, M) = Some (R', M')"
        then obtain v where v: "R (op_name a) = Some v" "R' = R(op_name d \<mapsto> v)" "M' = M"
          using ops m True by (auto simp: ptx_exec_def src_val_def bind_eq_Some_conv)
        have xv: "xval x rs = v" using p(1,2) L(2) v(1) by (rule reg_rel_val)
        have "rs \<noteq> ''x0''" using pool_reg [OF p(1) L(2)] by simp
        then have "exec_lines L (x, M) = Some (x(rd := v), M)"
          using xv L(3) by (auto simp: xval_def mnemonic_def exec_ri_def rv_alu_i_def)
        with reg_rel_upd [OF p(1,2) L(1), of v] v
        show "\<exists>x'. exec_lines L (x, M) = Some (x', M') \<and> reg_rel env mm R' x'" by auto
      qed
    qed
  next
    case False
    have "emitMov i = do { rd \<leftarrow> ireg (op_name d); emit_line (Ins ''li'' [RegA rd, ImmA (op_int_val a)] (remark (pi_op i))) }"
      using ops d False a by (simp add: emitMov_def)
    then have "produces ps (emitInstr i) (\<lambda>_ L mm. \<exists>rd. mm (op_name d) = Some rd \<and>
        L = [Ins ''li'' [RegA rd, ImmA (op_int_val a)] (remark (pi_op i))])"
      unfolding e by (simp only:) (rule produces_conseq [OF produces_bind [OF produces_ireg produces_emit_line]], auto)
    then show ?thesis
      by (rule produces_conseq) (use ops m False a in \<open>auto simp: sim_post_def ptx_exec_def src_val_def mnemonic_def
        intro!: reg_rel_upd\<close>)
  qed
qed

lemma sim_special:
  assumes ops: "pi_operands i = [d, a]" and m: "pi_op i \<in> set ptx_movs" and d: "op_kind d = K_Reg"
    and a: "op_kind a = K_SpecialReg" "op_name a \<in> set special_names"
  shows "produces ps (emitInstr i) (\<lambda>_. sim_post env i)"
proof -
  have off: "0 \<le> specialRegOffset (op_name a)" "off_ok (specialRegOffset (op_name a))"
    using a(2) by (auto simp: special_names_def specialRegOffset_def off_ok_def)
  have "emitInstr i = do { rd \<leftarrow> ireg (op_name d); emit_line (Ins ''lw'' [RegA rd, MemA (specialRegOffset (op_name a)) ''gp'']
      (remark (''mov '' @ op_name d @ '', %'' @ op_name a))) }"
    using move_op(1) [OF m] ops d a(1) off(1) by (simp add: emitInstr_def emitMov_def Let_def)
  then have "produces ps (emitInstr i) (\<lambda>_ L mm. \<exists>rd. mm (op_name d) = Some rd \<and>
      L = [Ins ''lw'' [RegA rd, MemA (specialRegOffset (op_name a)) ''gp''] (remark (''mov '' @ op_name d @ '', %'' @ op_name a))])"
    by (simp only:) (rule produces_conseq [OF produces_bind [OF produces_ireg produces_emit_line]], auto)
  then show ?thesis
  proof (rule produces_conseq, elim exE conjE)
    fix L mm rd
    assume L: "mm (op_name d) = Some rd"
      "L = [Ins ''lw'' [RegA rd, MemA (specialRegOffset (op_name a)) ''gp''] (remark (''mov '' @ op_name d @ '', %'' @ op_name a))]"
    show "sim_post env i L mm"
      unfolding sim_post_def
    proof (intro allI impI)
      fix R M R' M' x
      assume p: "pool_map mm" "reg_rel env mm R x" "ptx_exec env i (R, M) = Some (R', M')" "ctx_ok env M"
      have "R' = R(op_name d \<mapsto> pe_special env (op_name a))" "M' = M" using p(3) ops m a(1) by (auto simp: ptx_exec_def)
      moreover have "M (xval x ''gp'' + of_int (specialRegOffset (op_name a))) = pe_special env (op_name a)"
        using p(2,4) a(2) by (auto simp: reg_rel_def ctx_ok_def ctx_addr_def xval_def list_all_iff)
      then have "exec_lines L (x, M) = Some (x(rd := pe_special env (op_name a)), M)"
        using L(2) off by (simp add: mnemonic_def)
      ultimately show "\<exists>x'. exec_lines L (x, M) = Some (x', M') \<and> reg_rel env mm R' x'"
        using reg_rel_upd [OF p(1,2) L(1)] by auto
    qed
  qed
qed

lemma sim_param:
  assumes ops: "pi_operands i = [d, a]" and m: "pi_op i \<in> set ptx_params" and d: "op_kind d = K_Reg" "\<not> is_f_name (op_name d)"
    and a: "op_kind a = K_MemRef" "op_mem_offset a = 0"
  shows "produces (pe_params env) (emitInstr i) (\<lambda>_. sim_post env i)"
proof (cases "find_param (op_param_name a) (pe_params env)")
  case None
  have "grows s s' \<and> em_error s' \<noteq> []" if "em_params s = pe_params env" "run_state (emitInstr i) s = (u, s')" for s u s'
    using that None ops d a(1) move_op(2) [OF m] emitsD(1) [OF emits_instr that(2)]
    by (auto simp: emitInstr_def emitLdParam_def reject_def Let_def split: if_splits)
  then show ?thesis unfolding produces_def by blast
next
  case (Some p)
  have eq: "emitLdParam i = do { s \<leftarrow> State_Monad.get;
      (case find_param (op_param_name a) (em_params s) of
         None \<Rightarrow> reject (''ld.param references an unknown or unsupported parameter: '' @ op_param_name a)
       | Some p \<Rightarrow> if param_index p < 0 \<or> param_index p \<ge> 8
           then reject (''ld.param references an unknown or unsupported parameter: '' @ op_param_name a)
           else do { rd \<leftarrow> ireg (op_name d); emit_line (Ins ''mv'' [RegA rd, RegA (kParamRegs ! nat (param_index p))]
             (remark (''ld.param '' @ op_name d @ '' = '' @ op_param_name a))) }) }"
    using ops d a move_op(2) [OF m]
    by (simp add: emitLdParam_def ld_param_is_float_def Let_def cong: if_cong option.case_cong)
  have e: "emitInstr i = emitLdParam i" using move_op(2) [OF m] by (simp add: emitInstr_def Let_def)
  show ?thesis
  proof (cases "0 \<le> param_index p \<and> param_index p < 8")
    case True
    define k where "k = nat (param_index p)"
    have k: "k < 8" using True unfolding k_def by linarith
    have "produces (pe_params env) (do { rd \<leftarrow> ireg (op_name d); emit_line (Ins ''mv'' [RegA rd, RegA (kParamRegs ! k)]
        (remark (''ld.param '' @ op_name d @ '' = '' @ op_param_name a))) })
      (\<lambda>_ L mm. \<exists>rd. mm (op_name d) = Some rd \<and> L = [Ins ''mv'' [RegA rd, RegA (kParamRegs ! k)]
        (remark (''ld.param '' @ op_name d @ '' = '' @ op_param_name a))])" (is "produces _ ?m ?Q")
      by (rule produces_conseq [OF produces_bind [OF produces_ireg produces_emit_line]], auto)
    moreover have "run_state (emitInstr i) s = run_state ?m s" if "em_params s = pe_params env" for s
      using that Some True unfolding e eq k_def by simp
    ultimately have "produces (pe_params env) (emitInstr i) ?Q" unfolding produces_def by simp
    then show ?thesis
    proof (rule produces_conseq, elim exE conjE)
      fix L mm rd
      assume L: "mm (op_name d) = Some rd" "L = [Ins ''mv'' [RegA rd, RegA (kParamRegs ! k)]
        (remark (''ld.param '' @ op_name d @ '' = '' @ op_param_name a))]"
      show "sim_post env i L mm"
        unfolding sim_post_def
      proof (intro allI impI)
        fix R M R' M' x
        assume q: "pool_map mm" "reg_rel env mm R x" "ptx_exec env i (R, M) = Some (R', M')"
        have "R' = R(op_name d \<mapsto> pe_args env k)" "M' = M"
          using q(3) ops move_op(2) [OF m] m Some True by (auto simp: ptx_exec_def param_val_def k_def)
        moreover have "xval x (kParamRegs ! k) = pe_args env k"
          using q(2) k param_reg [OF k] by (auto simp: reg_rel_def xval_def list_all_iff)
        then have "exec_lines L (x, M) = Some (x(rd := pe_args env k), M)"
          using L(2) by (simp add: mnemonic_def exec_ri_def rv_alu_i_def)
        ultimately show "\<exists>x'. exec_lines L (x, M) = Some (x', M') \<and> reg_rel env mm R' x'"
          using reg_rel_upd [OF q(1,2) L(1)] by auto
      qed
    qed
  next
    case False
    have "grows s s' \<and> em_error s' \<noteq> []" if "em_params s = pe_params env" "run_state (emitInstr i) s = (u, s')" for s u s'
      using that Some False emitsD(1) [OF emits_instr that(2)] unfolding e eq
      by (auto simp: reject_def not_le not_less split: if_splits)
    then show ?thesis unfolding produces_def by blast
  qed
qed

lemma sim_load:
  assumes ops: "pi_operands i = [d, a]" and m: "pi_op i \<in> set ptx_loads" and d: "op_kind d = K_Reg"
    and a: "op_kind a = K_MemRef" "op_mem_base a \<noteq> []" "off_ok (op_mem_offset a)"
  shows "produces ps (emitInstr i) (\<lambda>_. sim_post env i)"
proof -
  have "emitInstr i = do { base \<leftarrow> ireg (op_mem_base a); rd \<leftarrow> ireg (op_name d);
      emit_line (Ins ''lw'' [RegA rd, MemA (op_mem_offset a) base] (remark (pi_op i))) }"
    using move_op(3) [OF m] ops d a by (simp add: emitInstr_def emitLdGlobal_def Let_def)
  then have "produces ps (emitInstr i) (\<lambda>_ L mm. \<exists>rd base. mm (op_name d) = Some rd \<and> mm (op_mem_base a) = Some base \<and>
      L = [Ins ''lw'' [RegA rd, MemA (op_mem_offset a) base] (remark (pi_op i))])"
    by (simp only:)
      (rule produces_conseq [OF produces_bind [OF produces_ireg produces_bind [OF produces_ireg produces_emit_line]]], auto)
  then show ?thesis
    by (rule produces_conseq) (use ops m move_op(3) [OF m] a in \<open>auto simp: sim_post_def ptx_exec_def mnemonic_def
      Let_def reg_rel_val bind_eq_Some_conv intro!: reg_rel_upd\<close>)
qed

lemma sim_store:
  assumes ops: "pi_operands i = [d, a]" and m: "pi_op i \<in> set ptx_stores" and a: "op_kind a = K_Reg"
    and d: "op_kind d = K_MemRef" "op_mem_base d \<noteq> []" "off_ok (op_mem_offset d)"
  shows "produces ps (emitInstr i) (\<lambda>_. sim_post env i)"
proof -
  have "emitInstr i = do { base \<leftarrow> ireg (op_mem_base d); rs \<leftarrow> ireg (op_name a);
      emit_line (Ins ''sw'' [RegA rs, MemA (op_mem_offset d) base] (remark (pi_op i))) }"
    using move_op(4) [OF m] ops d a by (simp add: emitInstr_def emitStGlobal_def Let_def)
  then have "produces ps (emitInstr i) (\<lambda>_ L mm. \<exists>rs base. mm (op_name a) = Some rs \<and> mm (op_mem_base d) = Some base \<and>
      L = [Ins ''sw'' [RegA rs, MemA (op_mem_offset d) base] (remark (pi_op i))])"
    by (simp only:)
      (rule produces_conseq [OF produces_bind [OF produces_ireg produces_bind [OF produces_ireg produces_emit_line]]], auto)
  then show ?thesis
    by (rule produces_conseq) (use ops m move_op(4) [OF m] d in \<open>auto simp: sim_post_def ptx_exec_def mnemonic_def
      Let_def reg_rel_val bind_eq_Some_conv\<close>)
qed


subsection \<open>Comparisons\<close>

definition cmp_imm_ok :: "string \<Rightarrow> int \<Rightarrow> bool" where
  "cmp_imm_ok opc v \<longleftrightarrow>
     opc \<in> {''setp.lt.u32'', ''setp.ge.u32'', ''setp.lt.s32'', ''setp.ge.s32''} \<and> off_ok v \<or>
     opc \<in> {''setp.gt.u32'', ''setp.le.u32''} \<and> off_ok (v + 1) \<and> v \<noteq> - 1 \<or>
     opc \<in> {''setp.gt.s32'', ''setp.le.s32''} \<and> off_ok (v + 1) \<or>
     opc \<in> {''setp.eq.u32'', ''setp.ne.u32'', ''setp.eq.s32'', ''setp.ne.s32''} \<and> off_ok (- v)"

lemma cmp_ops:
  "list_all (\<lambda>opc. startsWith opc ''setp'' \<and> \<not> startsWith opc ''ld.param'' \<and> \<not> startsWith opc ''ld.global'' \<and>
     \<not> startsWith opc ''st.global'' \<and> \<not> startsWith opc ''st.shared'' \<and> \<not> startsWith opc ''ld.shared'' \<and>
     \<not> startsWith opc ''mov'' \<and> \<not> startsWith opc ''cvta'' \<and> \<not> startsWith opc ''cvt'' \<and>
     \<not> contains ''.f32'' opc \<and> \<not> contains ''.f64'' opc \<and> map_of ptx_binops opc = None) (map fst ptx_cmps)"
  by (simp add: ptx_cmps_def ptx_binops_def)

lemma cmp_op:
  "map_of ptx_cmps opc = Some g \<Longrightarrow> startsWith opc ''setp'' \<and> \<not> startsWith opc ''ld.param'' \<and> \<not> startsWith opc ''ld.global'' \<and>
     \<not> startsWith opc ''st.global'' \<and> \<not> startsWith opc ''st.shared'' \<and> \<not> startsWith opc ''ld.shared'' \<and>
     \<not> startsWith opc ''mov'' \<and> \<not> startsWith opc ''cvta'' \<and> \<not> startsWith opc ''cvt'' \<and>
     \<not> contains ''.f32'' opc \<and> \<not> contains ''.f64'' opc \<and> map_of ptx_binops opc = None"
  using cmp_ops map_of_SomeD [of ptx_cmps opc g] unfolding list_all_iff by fastforce

text \<open>The lines of a comparison, when the last one leaves the truth value.\<close>

definition cmp_lines :: "string \<Rightarrow> string \<Rightarrow> asm_arg \<Rightarrow> string \<Rightarrow> asm_line list \<Rightarrow> bool" where
  "cmp_lines opc pr b ra L \<longleftrightarrow> (\<forall>x M u w g. pr \<noteq> ''x0'' \<longrightarrow> map_of ptx_cmps opc = Some g \<longrightarrow> xval x ra = u \<longrightarrow>
     (case b of RegA rb \<Rightarrow> xval x rb = w | ImmA v \<Rightarrow> w = of_int v | _ \<Rightarrow> False) \<longrightarrow>
     exec_lines L (x, M) = Some (x(pr := if g u w then 1 else 0), M))"

lemma xor_one: "(if c then 1 else (0 :: u32)) XOR 1 = (if c then 0 else 1)"
  by simp

lemma word_xor_zero: "(a :: u32) XOR b = 0 \<longleftrightarrow> a = b" "a XOR b < 1 \<longleftrightarrow> a = b" "0 < a XOR b \<longleftrightarrow> a \<noteq> b"
proof -
  show "a XOR b = 0 \<longleftrightarrow> a = b" by (metis xor_self_eq xor.assoc xor.right_neutral xor.left_neutral)
  then show "a XOR b < 1 \<longleftrightarrow> a = b" "0 < a XOR b \<longleftrightarrow> a \<noteq> b"
    by (simp_all add: word_less_nat_alt unat_eq_0 unat_gt_0)
qed

lemma emit_setp_reg_eval:
  "emit_setp_reg ''setp.lt.u32'' pr ra rb =
    emit_line (Ins ''sltu'' [RegA pr, RegA ra, RegA rb] [])"
  "emit_setp_reg ''setp.ge.u32'' pr ra rb =
    do { emit_line (Ins ''sltu'' [RegA pr, RegA ra, RegA rb] []); emit_line (Ins ''xori '' [RegA pr, RegA pr, ImmA 1] (remark ''invert for ge'')) }"
  "emit_setp_reg ''setp.gt.u32'' pr ra rb =
    emit_line (Ins ''sltu'' [RegA pr, RegA rb, RegA ra] [])"
  "emit_setp_reg ''setp.le.u32'' pr ra rb =
    do { emit_line (Ins ''sltu'' [RegA pr, RegA rb, RegA ra] []); emit_line (Ins ''xori '' [RegA pr, RegA pr, ImmA 1] (remark ''invert for le'')) }"
  "emit_setp_reg ''setp.eq.u32'' pr ra rb =
    do { emit_line (Ins ''xor  '' [RegA pr, RegA ra, RegA rb] []); emit_line (Ins ''seqz '' [RegA pr, RegA pr] (remark ''setp.eq.u32'')) }"
  "emit_setp_reg ''setp.ne.u32'' pr ra rb =
    do { emit_line (Ins ''xor  '' [RegA pr, RegA ra, RegA rb] []); emit_line (Ins ''snez '' [RegA pr, RegA pr] (remark ''setp.ne.u32'')) }"
  "emit_setp_reg ''setp.lt.s32'' pr ra rb =
    emit_line (Ins ''slt'' [RegA pr, RegA ra, RegA rb] [])"
  "emit_setp_reg ''setp.ge.s32'' pr ra rb =
    do { emit_line (Ins ''slt'' [RegA pr, RegA ra, RegA rb] []); emit_line (Ins ''xori '' [RegA pr, RegA pr, ImmA 1] (remark ''invert for ge'')) }"
  "emit_setp_reg ''setp.gt.s32'' pr ra rb =
    emit_line (Ins ''slt'' [RegA pr, RegA rb, RegA ra] [])"
  "emit_setp_reg ''setp.le.s32'' pr ra rb =
    do { emit_line (Ins ''slt'' [RegA pr, RegA rb, RegA ra] []); emit_line (Ins ''xori '' [RegA pr, RegA pr, ImmA 1] (remark ''invert for le'')) }"
  "emit_setp_reg ''setp.eq.s32'' pr ra rb =
    do { emit_line (Ins ''xor  '' [RegA pr, RegA ra, RegA rb] []); emit_line (Ins ''seqz '' [RegA pr, RegA pr] (remark ''setp.eq.s32'')) }"
  "emit_setp_reg ''setp.ne.s32'' pr ra rb =
    do { emit_line (Ins ''xor  '' [RegA pr, RegA ra, RegA rb] []); emit_line (Ins ''snez '' [RegA pr, RegA pr] (remark ''setp.ne.s32'')) }"
  by (simp_all add: emit_setp_reg_def Let_def)

lemma emit_setp_imm_eval:
  "emit_setp_imm ''setp.lt.u32'' pr ra b =
    emit_line (Ins ''sltiu'' [RegA pr, RegA ra, ImmA (b)] [])"
  "emit_setp_imm ''setp.ge.u32'' pr ra b =
    do { emit_line (Ins ''sltiu'' [RegA pr, RegA ra, ImmA (b)] []); emit_line (Ins ''xori '' [RegA pr, RegA pr, ImmA 1] (remark ''invert for ge'')) }"
  "emit_setp_imm ''setp.gt.u32'' pr ra b =
    do { int64_arith (b + 1); emit_line (Ins ''sltiu'' [RegA pr, RegA ra, ImmA (b + 1)] []); emit_line (Ins ''xori '' [RegA pr, RegA pr, ImmA 1] (remark ''invert for gt'')) }"
  "emit_setp_imm ''setp.le.u32'' pr ra b =
    do { int64_arith (b + 1); emit_line (Ins ''sltiu'' [RegA pr, RegA ra, ImmA (b + 1)] []) }"
  "emit_setp_imm ''setp.eq.u32'' pr ra b =
    do { int64_arith (- b); emit_line (Ins ''addi '' [RegA pr, RegA ra, ImmA (- b)] []); emit_line (Ins ''seqz '' [RegA pr, RegA pr] (remark ''setp.eq.u32'')) }"
  "emit_setp_imm ''setp.ne.u32'' pr ra b =
    do { int64_arith (- b); emit_line (Ins ''addi '' [RegA pr, RegA ra, ImmA (- b)] []); emit_line (Ins ''snez '' [RegA pr, RegA pr] (remark ''setp.ne.u32'')) }"
  "emit_setp_imm ''setp.lt.s32'' pr ra b =
    emit_line (Ins ''slti'' [RegA pr, RegA ra, ImmA (b)] [])"
  "emit_setp_imm ''setp.ge.s32'' pr ra b =
    do { emit_line (Ins ''slti '' [RegA pr, RegA ra, ImmA (b)] []); emit_line (Ins ''xori '' [RegA pr, RegA pr, ImmA 1] (remark ''invert for ge'')) }"
  "emit_setp_imm ''setp.gt.s32'' pr ra b =
    do { int64_arith (b + 1); emit_line (Ins ''slti '' [RegA pr, RegA ra, ImmA (b + 1)] []); emit_line (Ins ''xori '' [RegA pr, RegA pr, ImmA 1] (remark ''invert for gt'')) }"
  "emit_setp_imm ''setp.le.s32'' pr ra b =
    do { int64_arith (b + 1); emit_line (Ins ''slti '' [RegA pr, RegA ra, ImmA (b + 1)] []) }"
  "emit_setp_imm ''setp.eq.s32'' pr ra b =
    do { int64_arith (- b); emit_line (Ins ''addi '' [RegA pr, RegA ra, ImmA (- b)] []); emit_line (Ins ''seqz '' [RegA pr, RegA pr] (remark ''setp.eq.s32'')) }"
  "emit_setp_imm ''setp.ne.s32'' pr ra b =
    do { int64_arith (- b); emit_line (Ins ''addi '' [RegA pr, RegA ra, ImmA (- b)] []); emit_line (Ins ''snez '' [RegA pr, RegA pr] (remark ''setp.ne.s32'')) }"
  by (simp_all add: emit_setp_imm_def Let_def)

lemma produces_lines:
  "P [l] \<Longrightarrow> produces ps (emit_line l) (\<lambda>_ L mm. P L)"
  "P [l, l'] \<Longrightarrow> produces ps (do { emit_line l; emit_line l' }) (\<lambda>_ L mm. P L)"
  by (rule produces_conseq [OF produces_emit_line], simp)
    (rule produces_conseq [OF produces_bind [OF produces_emit_line produces_emit_line]], auto)

lemmas exec_cmp = cmp_lines_def exec_rr_def exec_ri_def mnemonic_def asm_rr_def asm_ri_def rv_alu_r_def rv_alu_i_def
  ptx_cmps_def xval_def

lemma produces_setp_reg:
  assumes "map_of ptx_cmps opc = Some g"
  shows "produces ps (emit_setp_reg opc pr ra rb) (\<lambda>_ L mm. cmp_lines opc pr (RegA rb) ra L)"
  using assms
  by (auto simp: ptx_cmps_def emit_setp_reg_eval intro!: produces_lines split: if_splits)
    (auto simp: exec_cmp word_xor_zero not_less)


lemma less_plus_one: "(w :: u32) \<noteq> - 1 \<Longrightarrow> u < w + 1 \<longleftrightarrow> u \<le> w"
proof -
  assume "w \<noteq> - 1"
  then have "1 + w \<noteq> 0" by (metis add.commute add_eq_0_iff)
  then have "unat (w + 1) = Suc (unat w)" by (simp add: unatSuc add.commute)
  then show ?thesis by (simp add: word_less_nat_alt word_le_nat_alt less_Suc_eq_le)
qed

lemma minus_one_off: "off_ok (v + 1) \<Longrightarrow> v \<noteq> - 1 \<Longrightarrow> (word_of_int v :: u32) \<noteq> - 1"
proof
  assume a: "off_ok (v + 1)" "v \<noteq> - 1" "(word_of_int v :: u32) = - 1"
  have "sint (word_of_int v :: u32) = v"
    using a(1) by (simp add: sint_sbintrunc' off_ok_def signed_take_bit_int_eq_self)
  with a(2,3) show False by simp
qed

lemma sint_off: "off_ok v \<Longrightarrow> sint (word_of_int v :: u32) = v" "off_ok (v + 1) \<Longrightarrow> sint (word_of_int v :: u32) = v"
  by (simp_all add: sint_sbintrunc' off_ok_def signed_take_bit_int_eq_self)

lemma sint_off_Suc: "off_ok (v + 1) \<Longrightarrow> sint (word_of_int v + 1 :: u32) = v + 1"
  using sint_off(1) [of "v + 1"] by (simp add: of_int_add)

lemma off_lits: "off_ok 1" "off_ok 0"
  by (simp_all add: off_ok_def)

lemma sub_zero: "(u :: u32) - w < 1 \<longleftrightarrow> u = w" "0 < u - w \<longleftrightarrow> u \<noteq> w"
  by (simp_all add: word_less_nat_alt unat_eq_0 unat_gt_0)

lemma int64_arith_off: "off_ok v \<Longrightarrow> int64_arith v = skip"
  by (simp add: int64_arith_def off_ok_def int64_ok_def)

lemma off_range: "off_ok v \<longleftrightarrow> - 2048 \<le> v \<and> v \<le> 2047"
  by (simp add: off_ok_def)

lemma produces_setp_imm:
  assumes "map_of ptx_cmps opc = Some g" "cmp_imm_ok opc v"
  shows "produces ps (emit_setp_imm opc pr ra v) (\<lambda>_ L mm. cmp_lines opc pr (ImmA v) ra L)"
  using assms
  by (auto simp: ptx_cmps_def emit_setp_imm_eval cmp_imm_ok_def int64_arith_off intro!: produces_lines split: if_splits)
    (auto simp: exec_cmp off_range [symmetric] sub_zero not_less not_le less_plus_one minus_one_off sint_off
      sint_off_Suc off_lits)

lemma sim_setp:
  assumes ops: "pi_operands i = [d, a, b]" and regs: "op_kind d = K_Reg" "op_kind a = K_Reg"
    and g: "map_of ptx_cmps (pi_op i) = Some g"
    and b: "op_kind b = K_Reg \<or> op_kind b = K_IntImm \<and> cmp_imm_ok (pi_op i) (op_int_val b)"
  shows "produces ps (emitInstr i) (\<lambda>_. sim_post env i)"
proof -
  have "emitInstr i = emitSetp i" using cmp_op [OF g] by (simp add: emitInstr_def Let_def)
  also have "\<dots> = do { pr \<leftarrow> ireg (op_name d); ra \<leftarrow> ireg (op_name a);
      if is_imm b then emit_setp_imm (pi_op i) pr ra (op_int_val b)
      else do { rb \<leftarrow> ireg (op_name b); emit_setp_reg (pi_op i) pr ra rb } }"
    using cmp_op [OF g] ops regs by (simp add: emitSetp_def Let_def)
  finally have e: "emitInstr i = \<dots>" .
  have "produces ps (emitInstr i) (\<lambda>_ L mm. \<exists>pr ra v. mm (op_name d) = Some pr \<and> mm (op_name a) = Some ra \<and>
      cmp_lines (pi_op i) pr v ra L \<and>
      (if is_imm b then v = ImmA (op_int_val b) else \<exists>rb. mm (op_name b) = Some rb \<and> v = RegA rb))"
  proof (cases "op_kind b = K_Reg")
    case True
    then show ?thesis
      unfolding e
      by (simp add: is_imm_def) (rule produces_conseq [OF produces_bind [OF produces_ireg produces_bind [OF produces_ireg
        produces_bind [OF produces_ireg produces_setp_reg [OF g]]]]], auto)
  next
    case False
    then show ?thesis
      unfolding e using b
      by (simp add: is_imm_def) (rule produces_conseq [OF produces_bind [OF produces_ireg produces_bind [OF produces_ireg
        produces_setp_imm [OF g]]]], auto)
  qed
  then show ?thesis
  proof (rule produces_conseq, elim exE conjE)
    fix L mm pr ra v
    assume L: "mm (op_name d) = Some pr" "mm (op_name a) = Some ra" "cmp_lines (pi_op i) pr v ra L"
      "if is_imm b then v = ImmA (op_int_val b) else \<exists>rb. mm (op_name b) = Some rb \<and> v = RegA rb"
    show "sim_post env i L mm"
      unfolding sim_post_def
    proof (intro allI impI)
      fix R M R' M' x
      assume p: "pool_map mm" "reg_rel env mm R x" "ptx_exec env i (R, M) = Some (R', M')"
      then obtain u w where v: "R (op_name a) = Some u" "src_val R b = Some w"
          "R' = R(op_name d \<mapsto> (if g u w then 1 else 0))" "M' = M"
        using ops regs g cmp_op [OF g] by (auto simp: ptx_exec_def src_val_def bind_eq_Some_conv)
      have "case v of RegA rb \<Rightarrow> xval x rb = w | ImmA k \<Rightarrow> w = of_int k | _ \<Rightarrow> False"
        using L(4) v(2) b reg_rel_val [OF p(1,2)] by (auto simp: src_val_def is_imm_def)
      moreover have "xval x ra = u" using p(1,2) L(2) v(1) by (rule reg_rel_val)
      moreover have "pr \<noteq> ''x0''" using pool_reg [OF p(1) L(1)] by simp
      ultimately have "exec_lines L (x, M) = Some (x(pr := if g u w then 1 else 0), M)"
        using L(3) g unfolding cmp_lines_def by blast
      with reg_rel_upd [OF p(1,2) L(1)] v
      show "\<exists>x'. exec_lines L (x, M) = Some (x', M') \<and> reg_rel env mm R' x'" by auto
    qed
  qed
qed


subsection \<open>The fragment that is lowered faithfully\<close>

definition lowerable :: "PtxInstr \<Rightarrow> bool" where
  "lowerable i \<longleftrightarrow> (let opc = pi_op i in
     case pi_operands i of
       [d, a] \<Rightarrow>
         opc \<in> set ptx_movs \<and> op_kind d = K_Reg \<and>
           (op_kind a = K_SpecialReg \<and> op_name a \<in> set special_names \<or>
            \<not> is_f_name (op_name d) \<and> (op_kind a = K_Reg \<or> op_kind a = K_IntImm \<and> li_ok (op_int_val a))) \<or>
         opc \<in> set ptx_params \<and> op_kind d = K_Reg \<and> \<not> is_f_name (op_name d) \<and> op_kind a = K_MemRef \<and> op_mem_offset a = 0 \<or>
         opc \<in> set ptx_loads \<and> op_kind d = K_Reg \<and> op_kind a = K_MemRef \<and> op_mem_base a \<noteq> [] \<and> off_ok (op_mem_offset a) \<or>
         opc \<in> set ptx_stores \<and> op_kind a = K_Reg \<and> op_kind d = K_MemRef \<and> op_mem_base d \<noteq> [] \<and> off_ok (op_mem_offset d)
     | [d, a, b] \<Rightarrow>
         op_kind a = K_Reg \<and>
         (opc \<in> fst ` set ptx_binops \<and> (op_kind b = K_Reg \<or> op_kind b = K_IntImm \<and> imm_ok opc (op_int_val b)) \<or>
          opc \<in> fst ` set ptx_cmps \<and> op_kind d = K_Reg \<and>
            (op_kind b = K_Reg \<or> op_kind b = K_IntImm \<and> cmp_imm_ok opc (op_int_val b)))
     | [d, a, b, c] \<Rightarrow>
         opc \<in> set ptx_mads \<and> op_kind a = K_Reg \<and> op_kind b = K_Reg \<and> op_kind c = K_Reg \<and> op_name c \<noteq> op_name d
     | _ \<Rightarrow> False)"

lemma lowerable_sim:
  assumes "lowerable i" shows "produces (pe_params env) (emitInstr i) (\<lambda>_. sim_post env i)"
proof -
  consider d a where "pi_operands i = [d, a]" | d a b where "pi_operands i = [d, a, b]"
    | d a b c where "pi_operands i = [d, a, b, c]"
    using assms by (auto simp: lowerable_def Let_def split: list.splits)
  then show ?thesis
  proof cases
    case 1
    then show ?thesis
      using assms by (auto simp: lowerable_def Let_def intro: sim_mov sim_special sim_param sim_load sim_store)
  next
    case 2
    then have "\<exists>f. map_of ptx_binops (pi_op i) = Some f" if "pi_op i \<in> fst ` set ptx_binops"
      using that by (metis map_of_eq_None_iff not_Some_eq)
    moreover have "\<exists>g. map_of ptx_cmps (pi_op i) = Some g" if "pi_op i \<in> fst ` set ptx_cmps"
      using that by (metis map_of_eq_None_iff not_Some_eq)
    ultimately show ?thesis
      using assms 2 sim_binop [OF 2] sim_setp [OF 2] by (simp add: lowerable_def Let_def) blast
  next
    case 3
    then show ?thesis using assms by (auto simp: lowerable_def Let_def intro: sim_mad)
  qed
qed

lemma ptx_exec_ctx: "ptx_exec env i (R, M) = Some (R', M') \<Longrightarrow> ctx_ok env M \<Longrightarrow> ctx_ok env M'"
  by (auto simp: ptx_exec_def Let_def ctx_ok_def list_all_iff bind_eq_Some_conv split: list.splits if_splits option.splits)
    (metis imageI)

text \<open>The initial emitter and everything reached from it allocate within the pool.\<close>

lemma alloc_ok_pool: "alloc_ok s \<Longrightarrow> pool_map (em_ireg_map s)"
  using set_take_subset [of "em_next_ireg s" kIRegs] by (auto simp: alloc_ok_def pool_map_def)

lemma alloc_ok_build: "alloc_ok (buildRegMaps k s)"
  by (simp add: alloc_ok_def buildRegMaps_def)

end
