(* ===== verification/PtxProgram.thy ===== *)
theory PtxProgram
  imports PtxSemantics
begin

text \<open>
  Whole kernels: the emitted program runs as the PTX body does, branches and loops included. Both are programs with a
  counter and labels; a step of the PTX body is matched by a run of the lines emitted for the instruction at the counter.
\<close>

section \<open>Programs with labels\<close>

fun pos_of :: "('a \<Rightarrow> bool) \<Rightarrow> 'a list \<Rightarrow> nat option" where
  "pos_of p [] = None"
| "pos_of p (x # xs) = (if p x then Some 0 else map_option Suc (pos_of p xs))"

lemma pos_of_append:
  "pos_of p (xs @ ys) = (case pos_of p xs of Some n \<Rightarrow> Some n | None \<Rightarrow> map_option ((+) (length xs)) (pos_of p ys))"
  by (cases "pos_of p ys"; induction xs) (auto split: option.splits)

lemma pos_of_None: "\<forall>x \<in> set xs. \<not> p x \<Longrightarrow> pos_of p xs = None"
  by (induction xs) auto

type_synonym ptx_config = "nat \<times> ptx_regs \<times> word_mem"
type_synonym asm_config = "nat \<times> (string \<Rightarrow> u32) \<times> word_mem"

definition is_label :: "string \<Rightarrow> PtxInstr \<Rightarrow> bool" where
  "is_label l i \<longleftrightarrow> pi_label i \<noteq> [] \<and> pi_label i = l"

definition branch_target :: "PtxInstr \<Rightarrow> string" where
  "branch_target i = op_name (pi_operands i ! 0)"

definition ptx_step :: "ptx_env \<Rightarrow> PtxInstr list \<Rightarrow> ptx_config \<Rightarrow> ptx_config option" where
  "ptx_step env B = (\<lambda>(pc, R, M).
     if pc \<ge> length B then None
     else let i = B ! pc in
       if pi_label i \<noteq> [] \<or> pi_op i = [] then Some (pc + 1, R, M)
       else if pi_op i = ''ret'' then None
       else if pi_op i = ''bra'' then
         do { t \<leftarrow> pos_of (is_label (branch_target i)) B;
              if pi_pred i = [] then Some (t, R, M)
              else do { v \<leftarrow> R (pi_pred i);
                        Some (if (v \<noteq> 0) = (\<not> pi_pred_not i) then t else pc + 1, R, M) } }
       else do { (R', M') \<leftarrow> ptx_exec env i (R, M); Some (pc + 1, R', M') })"

definition at_ret :: "PtxInstr list \<Rightarrow> nat \<Rightarrow> bool" where
  "at_ret B pc \<longleftrightarrow> pc < length B \<and> pi_label (B ! pc) = [] \<and> pi_op (B ! pc) = ''ret''"

fun asm_branch :: "asm_line \<Rightarrow> (string \<Rightarrow> u32) \<Rightarrow> (bool \<times> string) option" where
  "asm_branch (Ins m [SymA l] _) x = (if mnemonic m = ''j'' then Some (True, l) else None)"
| "asm_branch (Ins m [RegA r, SymA l] _) x =
     (if mnemonic m = ''beqz'' then Some (xval x r = 0, l)
      else if mnemonic m = ''bnez'' then Some (xval x r \<noteq> 0, l) else None)"
| "asm_branch _ x = None"

definition asm_step :: "asm_line list \<Rightarrow> asm_config \<Rightarrow> asm_config option" where
  "asm_step P = (\<lambda>(pc, x, M).
     if pc \<ge> length P then None
     else case P ! pc of
       LabelL _ \<Rightarrow> Some (pc + 1, x, M)
     | TextL _ \<Rightarrow> Some (pc + 1, x, M)
     | l \<Rightarrow>
         (case exec_line l (x, M) of
            Some (x', M') \<Rightarrow> Some (pc + 1, x', M')
          | None \<Rightarrow>
              (case asm_branch l x of
                 Some (taken, t) \<Rightarrow> do { n \<leftarrow> pos_of ((=) (LabelL t)) P; Some (if taken then n else pc + 1, x, M) }
               | None \<Rightarrow> None)))"

inductive steps :: "('c \<Rightarrow> 'c option) \<Rightarrow> 'c \<Rightarrow> 'c \<Rightarrow> bool" for f where
  steps_refl: "steps f c c"
| steps_step: "f c = Some c' \<Longrightarrow> steps f c' c'' \<Longrightarrow> steps f c c''"

lemma steps_trans: "steps f a b \<Longrightarrow> steps f b c \<Longrightarrow> steps f a c"
  by (induction rule: steps.induct) (auto intro: steps.intros)

lemma steps_one: "f c = Some c' \<Longrightarrow> steps f c c'"
  by (auto intro: steps.intros)

text \<open>A block of plain lines.\<close>

lemma exec_line_ins: "exec_line l s = Some s' \<Longrightarrow> \<exists>m args c. l = Ins m args c"
  by (cases l) auto

lemma steps_block:
  "exec_lines L (x, M) = Some (x', M') \<Longrightarrow> steps (asm_step (A @ L @ C)) (length A, x, M) (length A + length L, x', M')"
proof (induction L arbitrary: A x M)
  case Nil
  then show ?case by (simp add: steps_refl)
next
  case (Cons l L)
  obtain y N where y: "exec_line l (x, M) = Some (y, N)" "exec_lines L (y, N) = Some (x', M')"
    using Cons.prems by (auto split: option.splits)
  obtain m args c where "l = Ins m args c" using exec_line_ins [OF y(1)] by blast
  then have "asm_step (A @ (l # L) @ C) (length A, x, M) = Some (length A + 1, y, N)"
    using y(1) by (simp add: asm_step_def nth_append)
  moreover have "steps (asm_step (A @ (l # L) @ C)) (length A + 1, y, N) (length A + length (l # L), x', M')"
    using Cons.IH [OF y(2), of "A @ [l]"] by simp
  ultimately show ?case by (auto intro: steps_step)
qed

section \<open>What the emitter writes for a body\<close>

text \<open>The instructions of a kernel in the fragment: the lowered ones, labels, branches to labels, and \<open>ret\<close>.\<close>

definition kernel_instr :: "PtxInstr \<Rightarrow> bool" where
  "kernel_instr i \<longleftrightarrow>
     pi_label i \<noteq> [] \<or> pi_op i = [] \<or>
     pi_op i = ''ret'' \<or>
     (pi_op i = ''bra'' \<and> pi_operands i \<noteq> [] \<and> op_kind (hd (pi_operands i)) = K_Label) \<or>
     (pi_op i \<noteq> ''ret'' \<and> pi_op i \<noteq> ''bra'' \<and> lowerable i)"

definition lines_for :: "ptx_env \<Rightarrow> PtxInstr \<Rightarrow> asm_line list \<Rightarrow> (string \<rightharpoonup> string) \<Rightarrow> bool" where
  "lines_for env i L mm \<longleftrightarrow>
     (if pi_label i \<noteq> [] then L = [LabelL (pi_label i)]
      else list_all no_label L \<and>
        (if pi_op i = [] then L = []
         else if pi_op i = ''ret'' then L = [Ins ''ret'' [] []]
         else if pi_op i = ''bra'' then
           (if pi_pred i = [] then L = [Ins ''j'' [SymA (branch_target i)] []]
            else \<exists>pr c. mm (pi_pred i) = Some pr \<and>
              L = [Ins (if pi_pred_not i then ''beqz'' else ''bnez'') [RegA pr, SymA (branch_target i)] c])
         else sim_post env i L mm))"

lemma produces_conj:
  assumes "produces ps m P" "produces ps m Q"
  shows "produces ps m (\<lambda>a L mm. P a L mm \<and> Q a L mm)"
  using assms unfolding produces_def by (metis same_append_eq)

lemma emit_instr_lines:
  assumes "kernel_instr i" "pi_label i = []" "pi_op i \<noteq> []"
  shows "produces (pe_params env) (emitInstr i) (\<lambda>_ L mm. lines_for env i L mm)"
proof -
  have nl: "produces (pe_params env) (emitInstr i) (\<lambda>_ L mm. list_all no_label L)"
    using emits_instr by (simp add: emits_def)
  consider "pi_op i = ''ret''" | t r where "pi_op i = ''bra''" "pi_operands i = t # r" "op_kind t = K_Label"
    | "pi_op i \<noteq> ''ret''" "pi_op i \<noteq> ''bra''" "lowerable i"
    using assms by (cases "pi_operands i") (auto simp: kernel_instr_def)
  then show ?thesis
  proof cases
    case 1
    then have "emitInstr i = emit_line (Ins ''ret'' [] [])" by (simp add: emitInstr_def emitBra_def Let_def)
    then show ?thesis
      using 1 assms by (simp only:) (rule produces_conseq [OF produces_emit_line], simp add: lines_for_def)
  next
    case 2
    then have e: "emitInstr i = emitBra i" by (simp add: emitInstr_def Let_def)
    show ?thesis
    proof (cases "pi_pred i = []")
      case True
      then have "emitInstr i = emit_line (Ins ''j'' [SymA (branch_target i)] [])"
        using 2 e by (simp add: emitBra_def branch_target_def)
      then show ?thesis
        using 2 True assms by (simp only:) (rule produces_conseq [OF produces_emit_line], simp add: lines_for_def)
    next
      case False
      have "emitBra i = do { pr \<leftarrow> ireg (pi_pred i);
          emit_line (Ins (if pi_pred_not i then ''beqz'' else ''bnez'') [RegA pr, SymA (branch_target i)]
            (remark ((if pi_pred_not i then ''@!'' else ''@'') @ pi_pred i @ '' bra''))) }"
        using 2 False by (simp add: emitBra_def branch_target_def Let_def)
      then show ?thesis
        unfolding e by (simp only:)
          (rule produces_conseq [OF produces_bind [OF produces_ireg produces_emit_line]],
            use 2 False assms in \<open>auto simp: lines_for_def\<close>)
    qed
  next
    case 3
    show ?thesis
      by (rule produces_conseq [OF produces_conj [OF lowerable_sim [OF 3(3)] nl]]) (use 3 assms in \<open>simp add: lines_for_def\<close>)
  qed
qed

lemma emit_body_lines:
  "run_state (emit_body B) s = (b, s') \<Longrightarrow> em_error s = [] \<Longrightarrow> em_error s' = [] \<Longrightarrow> b \<Longrightarrow>
   em_params s = pe_params env \<Longrightarrow>
   \<forall>i \<in> set B. kernel_instr i \<Longrightarrow> em_ireg_map s' \<subseteq>\<^sub>m mm \<Longrightarrow>
   \<exists>Ls. em_out s' = em_out s @ concat Ls \<and> list_all2 (\<lambda>i L. lines_for env i L mm) B Ls"
proof (induction B arbitrary: s)
  case Nil
  then show ?case by (intro exI [of _ "[]"]) simp
next
  case (Cons i B)
  consider "pi_label i \<noteq> []" | "pi_label i = []" "pi_op i = []" | "pi_label i = []" "pi_op i \<noteq> []" by blast
  then show ?case
  proof cases
    case 1
    define s1 where "s1 = s\<lparr> em_out := em_out s @ [LabelL (pi_label i)] \<rparr>"
    have "run_state (emit_body B) s1 = (b, s')" using Cons.prems(1) 1 by (simp add: s1_def emit_line_def)
    with Cons.IH [of s1] Cons.prems obtain Ls where
      "em_out s' = em_out s1 @ concat Ls" "list_all2 (\<lambda>i L. lines_for env i L mm) B Ls"
      by (auto simp: s1_def)
    with 1 show ?thesis by (intro exI [of _ "[LabelL (pi_label i)] # Ls"]) (simp add: s1_def lines_for_def)
  next
    case 2
    with Cons.IH [of s] Cons.prems obtain Ls where
      "em_out s' = em_out s @ concat Ls" "list_all2 (\<lambda>i L. lines_for env i L mm) B Ls"
      by auto
    with 2 show ?thesis by (intro exI [of _ "[] # Ls"]) (simp add: lines_for_def)
  next
    case 3
    obtain s1 where s1: "run_state (emitInstr i) s = ((), s1)" by (cases "run_state (emitInstr i) s") simp
    have e: "em_error s1 = []" "run_state (emit_body B) s1 = (b, s')"
      using Cons.prems(1,4) 3 s1 by (auto split: if_splits)
    note g = emitsD(1) [OF emits_instr s1] and gb = emit_body_grows [OF e(2)]
    have ps: "em_params s1 = pe_params env" using g Cons.prems(5) by (simp add: grows_def)
    obtain Ls where Ls: "em_out s' = em_out s1 @ concat Ls" "list_all2 (\<lambda>i L. lines_for env i L mm) B Ls"
      using Cons.IH [OF e(2,1) Cons.prems(3,4) ps _ Cons.prems(7)] Cons.prems(6) by auto
    have "em_ireg_map s1 \<subseteq>\<^sub>m mm" using gb Cons.prems(7) by (auto simp: grows_def intro: map_le_trans)
    then obtain L where "em_out s1 = em_out s @ L" "lines_for env i L mm"
      using producesD(2) [OF emit_instr_lines [OF _ 3] s1 Cons.prems(5) e(1)] Cons.prems(6) by auto
    with Ls show ?thesis by (intro exI [of _ "L # Ls"]) simp
  qed
qed


section \<open>Simulation\<close>

text \<open>Where the lines of instruction \<open>k\<close> start.\<close>

definition start_of :: "asm_line list list \<Rightarrow> nat \<Rightarrow> nat" where
  "start_of Ls k = length (concat (take k Ls))"

lemma label_position:
  assumes "list_all2 (\<lambda>i L. lines_for env i L mm) B Ls" "pos_of (is_label l) B = Some k"
  shows "pos_of ((=) (LabelL l)) (concat Ls) = Some (start_of Ls k)"
  using assms
proof (induction arbitrary: k rule: list_all2_induct)
  case (Cons i B L Ls)
  show ?case
  proof (cases "is_label l i")
    case True
    then show ?thesis using Cons by (auto simp: is_label_def lines_for_def start_of_def)
  next
    case False
    then obtain j where j: "k = Suc j" "pos_of (is_label l) B = Some j" using Cons.prems by auto
    have "\<forall>x \<in> set L. \<not> LabelL l = x"
      using Cons.hyps(1) False by (auto simp: lines_for_def is_label_def list_all_iff no_label_def split: if_splits)
    then have "pos_of ((=) (LabelL l)) L = None" by (rule pos_of_None)
    with Cons.IH [OF j(2)] j(1) show ?thesis by (simp add: pos_of_append start_of_def)
  qed
qed simp

lemma sim_step:
  assumes L: "list_all2 (\<lambda>i L. lines_for env i L mm) B Ls" and P: "P = hdr @ concat Ls @ ftr"
    and hdr: "\<forall>i \<in> set B. \<forall>l. is_label l i \<longrightarrow> LabelL l \<notin> set hdr"
    and rel: "pool_map mm" "reg_rel env mm R x" "ctx_ok env M"
    and step: "ptx_step env B (pc, R, M) = Some (pc', R', M')"
  shows "\<exists>x'. steps (asm_step P) (length hdr + start_of Ls pc, x, M) (length hdr + start_of Ls pc', x', M') \<and>
    reg_rel env mm R' x' \<and> ctx_ok env M'"
proof -
  define i where "i = B ! pc"
  define Lk where "Lk = Ls ! pc"
  have pc: "pc < length B" using step by (auto simp: ptx_step_def split: if_splits)
  have len: "length Ls = length B" using L by (simp add: list_all2_lengthD)
  have lf: "lines_for env i Lk mm" using list_all2_nthD [OF L pc] by (simp add: i_def Lk_def)
  define A where "A = hdr @ concat (take pc Ls)"
  define C where "C = concat (drop (Suc pc) Ls) @ ftr"
  have PA: "P = A @ Lk @ C"
    using id_take_nth_drop [of pc Ls] pc len unfolding P A_def C_def Lk_def by (metis append.assoc concat.simps(2) concat_append)
  have lA: "length A = length hdr + start_of Ls pc" by (simp add: A_def start_of_def)
  have next_start: "start_of Ls (pc + 1) = start_of Ls pc + length Lk"
    using pc len by (simp add: start_of_def Lk_def take_Suc_conv_app_nth)
  have fall: "steps (asm_step P) (length hdr + start_of Ls pc, x, M) (length hdr + start_of Ls (pc + 1), x', N)"
    if "exec_lines Lk (x, M) = Some (x', N)" for x' N
    using steps_block [OF that, of A C] unfolding PA lA next_start by (simp add: add.assoc)
  have target: "pos_of ((=) (LabelL l)) P = Some (length hdr + start_of Ls t)" if t: "pos_of (is_label l) B = Some t" for l t
  proof -
    obtain j where "j \<in> set B" "is_label l j" using t pos_of_None [of B "is_label l"] by (metis option.distinct(1))
    then have "LabelL l \<notin> set hdr" using hdr by blast
    then have "pos_of ((=) (LabelL l)) hdr = None" by (intro pos_of_None) auto
    then show ?thesis unfolding P by (simp add: pos_of_append label_position [OF L t])
  qed
  consider "pi_label i \<noteq> []" | "pi_label i = []" "pi_op i = []" | "pi_label i = []" "pi_op i = ''bra''"
    | "pi_label i = []" "pi_op i \<noteq> []" "pi_op i \<noteq> ''bra''" "pi_op i \<noteq> ''ret''"
    using step pc by (auto simp: ptx_step_def i_def Let_def split: if_splits)
  then show ?thesis
  proof cases
    case 1
    then have s: "pc' = pc + 1" "R' = R" "M' = M" using step pc by (auto simp: ptx_step_def i_def Let_def)
    have Lk: "Lk = [LabelL (pi_label i)]" using lf 1 by (simp add: lines_for_def)
    have "asm_step P (length A, x, M) = Some (length A + 1, x, M)" unfolding PA Lk by (simp add: asm_step_def)
    moreover have "length A + 1 = length hdr + start_of Ls (pc + 1)" using next_start lA Lk by simp
    ultimately have "steps (asm_step P) (length A, x, M) (length hdr + start_of Ls (pc + 1), x, M)"
      using steps_one [of "asm_step P"] by metis
    with s rel show ?thesis unfolding lA by auto
  next
    case 2
    then have s: "pc' = pc + 1" "R' = R" "M' = M" using step pc by (auto simp: ptx_step_def i_def Let_def)
    have "Lk = []" using lf 2 by (simp add: lines_for_def)
    then have "exec_lines Lk (x, M) = Some (x, M)" by simp
    from fall [OF this] s rel show ?thesis by auto
  next
    case 4
    then obtain e: "ptx_exec env i (R, M) = Some (R', M')" "pc' = pc + 1"
      using step pc by (auto simp: ptx_step_def i_def Let_def bind_eq_Some_conv)
    have "sim_post env i Lk mm" using lf 4 by (simp add: lines_for_def)
    then obtain x' where "exec_lines Lk (x, M) = Some (x', M')" "reg_rel env mm R' x'"
      using rel e(1) unfolding sim_post_def by blast
    with fall e(2) ptx_exec_ctx [OF e(1) rel(3)] show ?thesis by auto
  next
    case 3
    then obtain t where t: "pos_of (is_label (branch_target i)) B = Some t"
      using step pc by (auto simp: ptx_step_def i_def Let_def bind_eq_Some_conv)
    show ?thesis
    proof (cases "pi_pred i = []")
      case True
      then have s: "pc' = t" "R' = R" "M' = M" using step pc 3 t by (auto simp: ptx_step_def i_def Let_def)
      have "Lk = [Ins ''j'' [SymA (branch_target i)] []]" using lf 3 True by (simp add: lines_for_def)
      then have "asm_step P (length A, x, M) = Some (length hdr + start_of Ls t, x, M)"
        using target [OF t] unfolding PA by (simp add: asm_step_def mnemonic_def)
      from steps_one [of "asm_step P", OF this] s rel show ?thesis unfolding lA by auto
    next
      case False
      then obtain v where v: "R (pi_pred i) = Some v" "pc' = (if (v \<noteq> 0) = (\<not> pi_pred_not i) then t else pc + 1)"
          "R' = R" "M' = M"
        using step pc 3 t by (auto simp: ptx_step_def i_def Let_def bind_eq_Some_conv)
      obtain pr c where L1: "mm (pi_pred i) = Some pr"
          "Lk = [Ins (if pi_pred_not i then ''beqz'' else ''bnez'') [RegA pr, SymA (branch_target i)] c]"
        using lf 3 False by (auto simp: lines_for_def)
      have "xval x pr = v" using rel(1,2) L1(1) v(1) by (rule reg_rel_val)
      then have "asm_step P (length A, x, M) =
          Some (if (v \<noteq> 0) = (\<not> pi_pred_not i) then length hdr + start_of Ls t else length A + 1, x, M)"
        using target [OF t] L1(2) unfolding PA by (auto simp: asm_step_def mnemonic_def)
      from steps_one [of "asm_step P", OF this] v rel next_start show ?thesis unfolding lA L1(2) by (auto simp: add.assoc)
    qed
  qed
qed

lemma sim_steps:
  assumes "steps (ptx_step env B) (pc, R, M) c" "list_all2 (\<lambda>i L. lines_for env i L mm) B Ls" "P = hdr @ concat Ls @ ftr"
    "\<forall>i \<in> set B. \<forall>l. is_label l i \<longrightarrow> LabelL l \<notin> set hdr" "pool_map mm" "reg_rel env mm R x" "ctx_ok env M"
  shows "\<exists>x'. steps (asm_step P) (length hdr + start_of Ls pc, x, M) (length hdr + start_of Ls (fst c), x', snd (snd c)) \<and>
    reg_rel env mm (fst (snd c)) x' \<and> ctx_ok env (snd (snd c))"
  using assms(1,6,7)
proof (induction "(pc, R, M)" c arbitrary: pc R M x rule: steps.induct)
  case steps_refl
  then show ?case by (auto intro: steps.steps_refl)
next
  case (steps_step c' c'')
  obtain pc1 R1 M1 where c': "c' = (pc1, R1, M1)" by (cases c') auto
  then obtain x1 where "steps (asm_step P) (length hdr + start_of Ls pc, x, M) (length hdr + start_of Ls pc1, x1, M1)"
      "reg_rel env mm R1 x1" "ctx_ok env M1"
    using sim_step [OF assms(2-5) steps_step.prems] steps_step.hyps(1) by blast
  with steps_step.hyps(3) [OF c'] show ?case by (blast intro: steps_trans)
qed


section \<open>Properties of whole kernels\<close>

lemma rv_emit_parts:
  assumes "rv_emit k s0 = (txt, s)" "txt \<noteq> []"
  obtains s2 s3 where "run_state (validateKernel k) (buildRegMaps k (s0\<lparr> em_error := [] \<rparr>)) = (True, s2)"
    "run_state (emit_body (pk_body k)) (s2\<lparr> em_out := emit_header (pk_name k) \<rparr>) = (True, s3)" "em_error s3 = []"
    "s = s3\<lparr> em_out := em_out s3 @ [TextL (''    .size '' @ pk_name k @ '', . - '' @ pk_name k)] \<rparr>"
    "txt = concat (map render (em_out s))"
  using assms by (auto simp: rv_emit_def Let_def split: prod.splits if_splits)

lemma rv_emit_alloc:
  assumes "rv_emit k s0 = (txt, s)" shows "alloc_ok s"
proof -
  have up: "alloc_ok (t\<lparr> em_out := u \<rparr>) = alloc_ok t" for t u by (simp add: alloc_ok_def)
  obtain ok s2 where v: "run_state (validateKernel k) (buildRegMaps k (s0\<lparr> em_error := [] \<rparr>)) = (ok, s2)"
    by (cases "run_state (validateKernel k) (buildRegMaps k (s0\<lparr> em_error := [] \<rparr>))") auto
  obtain b s3 where e: "run_state (emit_body (pk_body k)) (s2\<lparr> em_out := emit_header (pk_name k) \<rparr>) = (b, s3)"
    by (cases "run_state (emit_body (pk_body k)) (s2\<lparr> em_out := emit_header (pk_name k) \<rparr>)") auto
  have "alloc_ok s2" using emitsD(1) [OF emits_validate v] alloc_ok_build by (simp add: grows_def)
  moreover from this have "alloc_ok s3" using emit_body_grows [OF e] up by (simp add: grows_def)
  ultimately show ?thesis using assms v e up by (auto simp: rv_emit_def Let_def split: if_splits)
qed

text \<open>C26: register allocation. In the emitter after any kernel, two PTX registers are never in the same hardware
  register, and no PTX register is in an argument register, in \<open>t6\<close>, \<open>gp\<close> or \<open>x0\<close>.\<close>

theorem registers_never_shared:
  assumes "rv_emit k s0 = (txt, s)"
  shows "inj_on (em_ireg_map s) (dom (em_ireg_map s)) \<and> inj_on (em_freg_map s) (dom (em_freg_map s)) \<and>
    ran (em_ireg_map s) \<inter> (set kParamRegs \<union> {''t6'', ''gp'', ''x0'', ''ra'', ''sp''}) = {}"
proof -
  have a: "alloc_ok s" using assms by (rule rv_emit_alloc)
  then have "ran (em_ireg_map s) \<subseteq> set kIRegs" using alloc_ok_pool by (auto simp: pool_map_def)
  moreover have "set kIRegs \<inter> (set kParamRegs \<union> {''t6'', ''gp'', ''x0'', ''ra'', ''sp''}) = {}"
    by (simp add: kIRegs_def kParamRegs_def)
  ultimately show ?thesis using a by (auto simp: alloc_ok_def)
qed

text \<open>C2: compiler correctness for the integer fragment. If the emitter accepts a kernel whose instructions are in the
  fragment, and the PTX body runs from the entry to a \<open>ret\<close> and leaves the memory \<open>M\<close>, then the
  emitted lines, started with the arguments in \<open>a0\<close> to \<open>a7\<close> and the thread context at
  \<open>gp\<close>, reach a \<open>ret\<close> with the same memory.\<close>

theorem kernel_runs_as_ptx:
  assumes emit: "rv_emit k s0 = (txt, s)" "txt \<noteq> []"
    and frag: "\<forall>i \<in> set (pk_body k). kernel_instr i \<and> pi_label i \<noteq> pk_name k"
    and init: "pe_params env = pk_params k" "x0 ''gp'' = pe_ctx env" "\<forall>j < 8. x0 (kParamRegs ! j) = pe_args env j"
      "ctx_ok env M0"
    and run: "steps (ptx_step env (pk_body k)) (0, Map.empty, M0) (pc, R, M)" "at_ret (pk_body k) pc"
  shows "txt = concat (map render (em_out s)) \<and>
    (\<exists>n x. steps (asm_step (em_out s)) (0, x0, M0) (n, x, M) \<and> n < length (em_out s) \<and> em_out s ! n = Ins ''ret'' [] [])"
proof -
  obtain s2 s3 where p: "run_state (validateKernel k) (buildRegMaps k (s0\<lparr> em_error := [] \<rparr>)) = (True, s2)"
      "run_state (emit_body (pk_body k)) (s2\<lparr> em_out := emit_header (pk_name k) \<rparr>) = (True, s3)" "em_error s3 = []"
      "s = s3\<lparr> em_out := em_out s3 @ [TextL (''    .size '' @ pk_name k @ '', . - '' @ pk_name k)] \<rparr>"
      "txt = concat (map render (em_out s))"
    using rv_emit_parts [OF emit] by blast
  define mm where "mm = em_ireg_map s3"
  have "pool_map mm" using rv_emit_alloc [OF emit(1)] alloc_ok_pool [of s] p(4) by (simp add: mm_def)
  have gv: "em_params s2 = pk_params k"
    using emitsD(1) [OF emits_validate p(1)] by (simp add: grows_def buildRegMaps_def)
  have "em_error s2 = []" using emit_body_grows [OF p(2)] p(3) by (simp add: grows_def)
  then obtain Ls where Ls: "em_out s3 = emit_header (pk_name k) @ concat Ls"
      "list_all2 (\<lambda>i L. lines_for env i L mm) (pk_body k) Ls"
    using emit_body_lines [OF p(2) _ p(3), of env mm] gv init(1) frag by (auto simp: mm_def)
  define hdr where "hdr = emit_header (pk_name k)"
  define ftr where "ftr = [TextL (''    .size '' @ pk_name k @ '', . - '' @ pk_name k)]"
  have P: "em_out s = hdr @ concat Ls @ ftr" using p(4) Ls(1) by (simp add: hdr_def ftr_def)
  have nolab: "\<forall>i \<in> set (pk_body k). \<forall>l. is_label l i \<longrightarrow> LabelL l \<notin> set hdr"
    using frag by (auto simp: is_label_def hdr_def emit_header_def)
  have lh: "length hdr = 6" by (simp add: hdr_def emit_header_def)
  have hdr_step: "asm_step (em_out s) (j, x0, M0) = Some (j + 1, x0, M0)" if "j < 6" for j
  proof -
    have "j = 0 \<or> j = 1 \<or> j = 2 \<or> j = 3 \<or> j = 4 \<or> j = 5" using that by linarith
    then show ?thesis unfolding P by (auto simp: asm_step_def hdr_def emit_header_def)
  qed
  have "j \<le> 6 \<Longrightarrow> steps (asm_step (em_out s)) (0, x0, M0) (j, x0, M0)" for j
  proof (induction j)
    case (Suc j)
    then show ?case using steps_one [of "asm_step (em_out s)", OF hdr_step [of j]] steps_trans by fastforce
  qed (rule steps_refl)
  then have start: "steps (asm_step (em_out s)) (0, x0, M0) (length hdr + start_of Ls 0, x0, M0)"
    by (simp add: lh start_of_def)
  have "reg_rel env mm Map.empty x0" using init by (auto simp: reg_rel_def list_all_iff)
  then obtain x where fin: "steps (asm_step (em_out s)) (length hdr + start_of Ls 0, x0, M0)
      (length hdr + start_of Ls pc, x, M)"
    using sim_steps [OF run(1) Ls(2) P nolab \<open>pool_map mm\<close>] init(4) by auto
  have pcB: "pc < length (pk_body k)" "length Ls = length (pk_body k)"
    using run(2) Ls(2) by (auto simp: at_ret_def list_all2_lengthD)
  have "Ls ! pc = [Ins ''ret'' [] []]"
    using list_all2_nthD [OF Ls(2) pcB(1)] run(2) by (auto simp: lines_for_def at_ret_def)
  then have "concat Ls = concat (take pc Ls) @ Ins ''ret'' [] [] # concat (drop (Suc pc) Ls)"
    using id_take_nth_drop [of pc Ls] pcB by (metis append_Cons append_Nil concat.simps(2) concat_append)
  then have "length hdr + start_of Ls pc < length (em_out s)" "em_out s ! (length hdr + start_of Ls pc) = Ins ''ret'' [] []"
    unfolding P by (simp_all add: nth_append start_of_def)
  with steps_trans [OF start fin] p(5) show ?thesis by blast
qed



section \<open>A kernel with a loop\<close>

fun run_n :: "('c \<Rightarrow> 'c option) \<Rightarrow> nat \<Rightarrow> 'c \<Rightarrow> 'c option" where
  "run_n f 0 c = Some c"
| "run_n f (Suc n) c = (case f c of None \<Rightarrow> None | Some c' \<Rightarrow> run_n f n c')"

lemma steps_run_n: "run_n f n c = Some c' \<Longrightarrow> steps f c c'"
  by (induction n arbitrary: c) (auto intro: steps.intros split: option.splits)

lemma run_n_numeral: "run_n f (numeral m) c = (case f c of None \<Rightarrow> None | Some c' \<Rightarrow> run_n f (pred_numeral m) c')"
  by (simp add: numeral_eq_Suc)

abbreviation imm_opd :: "int \<Rightarrow> PtxOperand" where
  "imm_opd n \<equiv> PtxOperand_default\<lparr> op_int_val := n \<rparr>"

abbreviation label_opd :: "string \<Rightarrow> PtxOperand" where
  "label_opd l \<equiv> PtxOperand_default\<lparr> op_kind := K_Label, op_name := l \<rparr>"

text \<open>Each thread counts to its argument plus one and stores the count plus its number.\<close>

definition loop_kernel :: PtxKernel where
  "loop_kernel = \<lparr> pk_name = ''count'', pk_address_size = 32, pk_address_size_seen = True,
     pk_params = [PtxParam_default\<lparr> pp_space := ''.u32'', pp_name := ''p0'' \<rparr>],
     pk_reg_decls = [],
     pk_body = [ins ''ld.param.u32'' [reg_opd ''r1'', PtxOperand_default\<lparr> op_kind := K_MemRef, op_param_name := ''p0'' \<rparr>],
                ins ''mov.u32'' [reg_opd ''r2'', PtxOperand_default\<lparr> op_kind := K_SpecialReg, op_name := ''tid.x'' \<rparr>],
                ins ''mov.u32'' [reg_opd ''r3'', imm_opd 0],
                PtxInstr_default\<lparr> pi_label := ''LOOP'' \<rparr>,
                ins ''setp.ge.u32'' [reg_opd ''p1'', reg_opd ''r3'', imm_opd 2],
                (ins ''bra'' [label_opd ''DONE''])\<lparr> pi_pred := ''p1'' \<rparr>,
                ins ''add.u32'' [reg_opd ''r3'', reg_opd ''r3'', imm_opd 1],
                ins ''bra'' [label_opd ''LOOP''],
                PtxInstr_default\<lparr> pi_label := ''DONE'' \<rparr>,
                ins ''add.u32'' [reg_opd ''r2'', reg_opd ''r2'', reg_opd ''r3''],
                ins ''st.global.u32'' [mem_opd ''r1'' 0, reg_opd ''r2''],
                ins ''ret'' []] \<rparr>"

definition loop_env :: ptx_env where
  "loop_env = \<lparr> pe_params = pk_params loop_kernel, pe_args = (\<lambda>_. 0x2000), pe_ctx = 0x100,
     pe_special = (\<lambda>name. if name = ''tid.x'' then 5 else 1) \<rparr>"

definition loop_mem :: word_mem where
  "loop_mem = (\<lambda>a. if a = 0x100 then 5 else 1)"

definition loop_regs :: "string \<Rightarrow> u32" where
  "loop_regs = (\<lambda>r. if r = ''gp'' then 0x100 else 0x2000)"

lemma loop_emitted: "fst (rv_emit loop_kernel RvEmitter_default) \<noteq> []"
  by code_simp

lemma loop_fragment: "\<forall>i \<in> set (pk_body loop_kernel). kernel_instr i \<and> pi_label i \<noteq> pk_name loop_kernel"
  by code_simp

lemma loop_ctx: "ctx_ok loop_env loop_mem"
  by code_simp

lemma loop_runs:
  "\<exists>R. run_n (ptx_step loop_env (pk_body loop_kernel)) 19 (0, Map.empty, loop_mem) = Some (11, R, loop_mem(0x2000 := 7))"
  by (simp add: loop_kernel_def loop_env_def loop_mem_def ins_def reg_opd_def mem_opd_def PtxInstr_default_def
    PtxOperand_default_def PtxParam_default_def ptx_step_def ptx_exec_def is_label_def branch_target_def run_n_numeral word_le_def
    ptx_movs_def ptx_params_def ptx_loads_def ptx_stores_def ptx_binops_def ptx_cmps_def src_val_def param_val_def
    param_index_def find_param_def ctx_addr_def special_names_def specialRegOffset_def fun_upd_twist)



theorem kernel_runs_as_ptx_witness:
  "\<exists>n x. steps (asm_step (em_out (snd (rv_emit loop_kernel RvEmitter_default)))) (0, loop_regs, loop_mem)
       (n, x, loop_mem(0x2000 := 7)) \<and>
     em_out (snd (rv_emit loop_kernel RvEmitter_default)) ! n = Ins ''ret'' [] []"
proof -
  obtain R where R: "run_n (ptx_step loop_env (pk_body loop_kernel)) 19 (0, Map.empty, loop_mem) =
      Some (11, R, loop_mem(0x2000 := 7))"
    using loop_runs by blast
  have init: "pe_params loop_env = pk_params loop_kernel" "loop_regs ''gp'' = pe_ctx loop_env"
    "\<forall>j < 8. loop_regs (kParamRegs ! j) = pe_args loop_env j"
    by (auto simp: loop_env_def loop_regs_def kParamRegs_def less_Suc_eq eval_nat_numeral)
  have "at_ret (pk_body loop_kernel) 11"
    by (simp add: at_ret_def loop_kernel_def ins_def PtxInstr_default_def)
  from kernel_runs_as_ptx [OF prod.collapse [symmetric] loop_emitted loop_fragment init loop_ctx steps_run_n [OF R] this]
  show ?thesis by blast
qed

theorem registers_never_shared_witness:
  "inj_on (em_ireg_map (snd (rv_emit loop_kernel RvEmitter_default)))
     (dom (em_ireg_map (snd (rv_emit loop_kernel RvEmitter_default)))) \<and>
   em_ireg_map (snd (rv_emit loop_kernel RvEmitter_default)) ''r1'' = Some ''t0'' \<and>
   em_ireg_map (snd (rv_emit loop_kernel RvEmitter_default)) ''p1'' = Some ''t3''"
proof -
  have "em_ireg_map (snd (rv_emit loop_kernel RvEmitter_default)) ''r1'' = Some ''t0'' \<and>
      em_ireg_map (snd (rv_emit loop_kernel RvEmitter_default)) ''p1'' = Some ''t3''"
    by code_simp
  with registers_never_shared [OF prod.collapse [symmetric], of loop_kernel RvEmitter_default] show ?thesis by blast
qed


section \<open>Where the lowering goes wrong\<close>

text \<open>The accumulator form of multiply-add. The emitter writes the product into the destination before it reads the
  addend, so \<open>mad.lo d, a, b, d\<close> leaves twice the product, whatever \<open>d\<close> held.\<close>

theorem mad_accumulator_lost:
  assumes "pi_operands i = [d, a, b, c]" "op_kind a = K_Reg" "op_kind b = K_Reg" "op_kind c = K_Reg"
    and "pi_op i = ''mad.lo.u32''" "op_name c = op_name d"
    and "run_state (emitInstr i) s = ((), s')" "em_error s' = []" "alloc_ok s"
    and "reg_rel env (em_ireg_map s') R x" "R (op_name a) = Some u" "R (op_name b) = Some v"
  shows "\<exists>L rd. em_out s' = em_out s @ L \<and> em_ireg_map s' (op_name d) = Some rd \<and>
    exec_lines L (x, M) = Some (x(rd := u * v, rd := u * v + u * v), M)"
proof -
  have e: "emitInstr i = do { rd \<leftarrow> ireg (op_name d); emit_mad (pi_op i) rd [d, a, b, c] }"
    using assms(1,5) by (simp add: emitInstr_integer integer_ops_def ptx_mads_def emit_eval)
  have pr: "produces (em_params s) (emitInstr i) (\<lambda>_ L mm. \<exists>rd ra rb rc. mm (op_name d) = Some rd \<and> mm (op_name a) = Some ra \<and>
      mm (op_name b) = Some rb \<and> mm (op_name c) = Some rc \<and> L = [Ins ''mul'' [RegA rd, RegA ra, RegA rb] [],
        Ins ''add'' [RegA rd, RegA rd, RegA rc] (remark (pi_op i))])"
    unfolding e emit_mad_def emit_rr_def
    by (simp, rule produces_conseq [OF produces_bind [OF produces_ireg produces_bind [OF produces_rarg produces_bind
        [OF produces_rarg produces_bind [OF produces_emit_line produces_bind [OF produces_rarg produces_emit_line]]]]]])
      (use assms(2-4) in auto)
  obtain L rd ra rb rc where L: "em_out s' = em_out s @ L" "em_ireg_map s' (op_name d) = Some rd"
      "em_ireg_map s' (op_name a) = Some ra" "em_ireg_map s' (op_name b) = Some rb" "em_ireg_map s' (op_name c) = Some rc"
      "L = [Ins ''mul'' [RegA rd, RegA ra, RegA rb] [], Ins ''add'' [RegA rd, RegA rd, RegA rc] (remark (pi_op i))]"
    using producesD(2) [OF pr assms(7) refl assms(8) map_le_refl] that by (elim exE conjE)
  have "pool_map (em_ireg_map s')"
    using assms(9) emitsD(1) [OF emits_instr assms(7)] alloc_ok_pool by (simp add: grows_def)
  then have "xval x ra = u" "xval x rb = v" "rd \<noteq> ''x0''"
    using reg_rel_val assms(10-12) L(3,4) pool_reg L(2) by blast+
  moreover have "rc = rd" using L(2,5) assms(6) by simp
  ultimately have "exec_lines L (x, M) = Some (x(rd := u * v, rd := u * v + u * v), M)"
    using L(6) by (simp add: mnemonic_def asm_rr_def exec_rr_def rv_alu_r_def rv_mul xval_def)
  with L(1,2) show ?thesis by blast
qed

text \<open>Division by a constant. An immediate divisor is not emitted: the instruction divides by \<open>x0\<close>, and
  the quotient has all bits set, for every dividend and constant.\<close>

theorem div_immediate_dropped:
  assumes "pi_operands i = [d, a, b]" "op_kind a = K_Reg" "op_kind b = K_IntImm" "pi_op i = ''div.u32''"
    and "run_state (emitInstr i) s = ((), s')" "em_error s' = []"
  shows "\<exists>L rd ra. em_out s' = em_out s @ L \<and> em_ireg_map s' (op_name d) = Some rd \<and>
    L = [Ins ''divu'' [RegA rd, RegA ra, RegA ''x0''] (remark ''div.u32'')] \<and>
    (\<forall>x M. exec_lines L (x, M) = Some (x(rd := 0xFFFFFFFF), M))"
proof -
  have "emitInstr i = do { rd \<leftarrow> ireg (op_name d); emit_rr ''divu'' rd [d, a, b] (remark ''div.u32'') }"
    using assms(1,4) by (simp add: emitInstr_integer integer_ops_def ptx_binops_def emit_div_rem)
  then have e: "emitInstr i = do { rd \<leftarrow> ireg (op_name d); ra \<leftarrow> ireg (op_name a);
      emit_line (Ins ''divu'' [RegA rd, RegA ra, RegA ''x0''] (remark ''div.u32'')) }"
    using assms(2,3) by (simp add: emit_rr_def rarg_def is_reg_def)
  have pr: "produces (em_params s) (emitInstr i) (\<lambda>_ L mm. \<exists>rd ra. mm (op_name d) = Some rd \<and>
      L = [Ins ''divu'' [RegA rd, RegA ra, RegA ''x0''] (remark ''div.u32'')])"
    unfolding e
    by (rule produces_conseq [OF produces_bind [OF produces_ireg produces_bind [OF produces_ireg produces_emit_line]]]) auto
  obtain L rd ra where "em_out s' = em_out s @ L" "em_ireg_map s' (op_name d) = Some rd"
      "L = [Ins ''divu'' [RegA rd, RegA ra, RegA ''x0''] (remark ''div.u32'')]"
    using producesD(2) [OF pr assms(5) refl assms(6) map_le_refl] that by (elim exE conjE)
  then show ?thesis by (auto simp: mnemonic_def asm_rr_def exec_rr_def rv_alu_r_def xval_def)
qed

text \<open>Unary floating point. A negation, absolute value or square root with its two operands is taken for an
  instruction with an operand missing: nothing but a comment is emitted, and there is no error.\<close>

theorem unary_float_dropped:
  assumes "pi_op i \<in> {''neg.f32'', ''abs.f32'', ''sqrt.rn.f32''}" "length (pi_operands i) = 2"
  shows "run_state (emitInstr i) s = ((), s\<lparr> em_out := em_out s @ [TextL (''    # FP operand count mismatch: '' @ pi_op i)] \<rparr>)"
proof -
  have "emitInstr i = emitArith i" using assms(1) by (elim insertE emptyE) (simp_all add: emitInstr_def Let_def)
  moreover have "emitArith i = emitFloat (pi_op i) (pi_operands i)"
    using assms by (elim insertE emptyE) (auto simp: emitArith_def Let_def)
  moreover have "emitFloat (pi_op i) (pi_operands i) = emit_line (TextL (''    # FP operand count mismatch: '' @ pi_op i))"
    using assms by (elim insertE emptyE) (simp_all add: emitFloat_def)
  ultimately show ?thesis by (simp add: emit_line_def)
qed

text \<open>Barriers. The word emitted for \<open>bar.sync n\<close> is the one that the golden decoder reads as the barrier
  \<open>n\<close>.\<close>

theorem bar_sync_decodes:
  assumes "pi_op i = ''bar.sync''" "pi_pred i = []" "pi_operands i = [p]" "op_kind p = K_IntImm"
    "0 \<le> op_int_val p" "op_int_val p \<le> 15"
  shows "\<exists>w. run_state (emitInstr i) s = ((), s\<lparr> em_out := em_out s @ [WordL w] \<rparr>) \<and>
    rv_op (decodeRV32 w) = RV_BAR_SYNC \<and> uint (rv_imm (decodeRV32 w)) = op_int_val p"
proof -
  define n where "n = op_int_val p"
  have "emitInstr i = emitBarSync i" using assms(1) by (simp add: emitInstr_def Let_def)
  also have "\<dots> = emit_line (WordL (push_bit 20 (of_int n) OR 0x0B))"
    using assms by (simp add: emitBarSync_def n_def)
  finally have "run_state (emitInstr i) s = ((), s\<lparr> em_out := em_out s @ [WordL (push_bit 20 (of_int n) OR 0x0B)] \<rparr>)"
    by (simp add: emit_line_def)
  moreover have "n \<in> {0, 1, 2, 3, 4, 5, 6, 7, 8, 9, 10, 11, 12, 13, 14, 15}"
    using assms(5,6) unfolding n_def insert_iff empty_iff by presburger
  then have "rv_op (decodeRV32 (push_bit 20 (of_int n) OR 0x0B)) = RV_BAR_SYNC \<and>
      uint (rv_imm (decodeRV32 (push_bit 20 (of_int n) OR 0x0B))) = n"
    by (elim insertE emptyE) (simp_all add: decodeRV32_def Let_def bits_def)
  ultimately show ?thesis unfolding n_def by blast
qed


definition mad_instr :: PtxInstr where
  "mad_instr = ins ''mad.lo.u32'' [reg_opd ''r3'', reg_opd ''r1'', reg_opd ''r2'', reg_opd ''r3'']"

definition mad_state :: RvEmitter where
  "mad_state = RvEmitter_default\<lparr> em_ireg_map := [''r1'' \<mapsto> ''t0'', ''r2'' \<mapsto> ''t1'', ''r3'' \<mapsto> ''t2''], em_next_ireg := 3 \<rparr>"

definition mad_regs :: "string \<Rightarrow> u32" where
  "mad_regs = (\<lambda>_. 0)(''t0'' := 3, ''t1'' := 4, ''t2'' := 100)"

theorem mad_accumulator_lost_witness:
  "\<exists>x. exec_lines (em_out (snd (run_state (emitInstr mad_instr) mad_state))) (mad_regs, \<lambda>_. 0) = Some (x, \<lambda>_. 0) \<and>
     x ''t2'' = 24"
proof -
  define s' where "s' = snd (run_state (emitInstr mad_instr) mad_state)"
  define env where "env = \<lparr> pe_params = [], pe_args = (\<lambda>_. 0), pe_ctx = 0, pe_special = (\<lambda>_. 0) \<rparr>"
  define R :: ptx_regs where "R = [''r1'' \<mapsto> 3, ''r2'' \<mapsto> 4, ''r3'' \<mapsto> 100]"
  have ok: "em_error s' = []" unfolding s'_def by code_simp
  have m: "em_ireg_map s' ''r1'' = Some ''t0'' \<and> em_ireg_map s' ''r2'' = Some ''t1'' \<and> em_ireg_map s' ''r3'' = Some ''t2''"
    unfolding s'_def by code_simp
  have r: "run_state (emitInstr mad_instr) mad_state = ((), s')" by (simp add: s'_def prod_eq_iff)
  have i: "pi_operands mad_instr = [reg_opd ''r3'', reg_opd ''r1'', reg_opd ''r2'', reg_opd ''r3'']"
    "op_kind (reg_opd ''r1'') = K_Reg" "op_kind (reg_opd ''r2'') = K_Reg" "op_kind (reg_opd ''r3'') = K_Reg"
    "pi_op mad_instr = ''mad.lo.u32''" "op_name (reg_opd ''r3'') = op_name (reg_opd ''r3'')"
    by (simp_all add: mad_instr_def ins_def reg_opd_def)
  have "alloc_ok mad_state"
    by (auto simp: alloc_ok_def mad_state_def RvEmitter_default_def kIRegs_def inj_on_def numeral_eq_Suc take_Suc split: if_splits)
  moreover have "reg_rel env (em_ireg_map s') R mad_regs"
    using m by (simp add: reg_rel_def R_def mad_regs_def env_def kParamRegs_def upt_rec)
  ultimately obtain L rd where "em_out s' = em_out mad_state @ L" "em_ireg_map s' ''r3'' = Some rd"
      "exec_lines L (mad_regs, \<lambda>_. 0) = Some (mad_regs(rd := 3 * 4, rd := 3 * 4 + 3 * 4), \<lambda>_. 0)"
    using mad_accumulator_lost [OF i r ok, of env R mad_regs 3 4 "\<lambda>_. 0"] by (auto simp: R_def reg_opd_def)
  then show ?thesis using m unfolding s'_def [symmetric] by (simp add: mad_state_def RvEmitter_default_def)
qed

theorem div_immediate_dropped_witness:
  "\<exists>rd. exec_lines (em_out (snd (run_state
       (emitInstr (ins ''div.u32'' [reg_opd ''r1'', reg_opd ''r2'', imm_opd 2])) RvEmitter_default))) (\<lambda>_. 100, \<lambda>_. 0) =
     Some ((\<lambda>_. 100)(rd := 0xFFFFFFFF), \<lambda>_. 0)"
proof -
  define i where "i = ins ''div.u32'' [reg_opd ''r1'', reg_opd ''r2'', imm_opd 2]"
  define s' where "s' = snd (run_state (emitInstr i) RvEmitter_default)"
  have ok: "em_error s' = []" unfolding s'_def i_def by code_simp
  have r: "run_state (emitInstr i) RvEmitter_default = ((), s')" by (simp add: s'_def prod_eq_iff)
  have i: "pi_operands i = [reg_opd ''r1'', reg_opd ''r2'', imm_opd 2]" "op_kind (reg_opd ''r2'') = K_Reg"
    "op_kind (imm_opd 2) = K_IntImm" "pi_op i = ''div.u32''"
    by (simp_all add: i_def ins_def reg_opd_def PtxOperand_default_def)
  from div_immediate_dropped [OF i r ok] show ?thesis
    unfolding s'_def i_def by (auto simp: RvEmitter_default_def)
qed

theorem unary_float_dropped_witness:
  "run_state (emitInstr (ins ''neg.f32'' [reg_opd ''f1'', reg_opd ''f2''])) RvEmitter_default =
     ((), RvEmitter_default\<lparr> em_out := [TextL ''    # FP operand count mismatch: neg.f32''] \<rparr>)"
  using unary_float_dropped [of "ins ''neg.f32'' [reg_opd ''f1'', reg_opd ''f2'']" RvEmitter_default]
  by (simp add: ins_def RvEmitter_default_def)

theorem bar_sync_decodes_witness:
  "\<exists>w. em_out (snd (run_state (emitInstr (ins ''bar.sync'' [imm_opd 3])) RvEmitter_default)) = [WordL w] \<and>
     uint (rv_imm (decodeRV32 w)) = 3"
proof -
  define i where "i = ins ''bar.sync'' [imm_opd 3]"
  have i: "pi_op i = ''bar.sync''" "pi_pred i = []" "pi_operands i = [imm_opd 3]" "op_kind (imm_opd 3) = K_IntImm"
    "0 \<le> op_int_val (imm_opd 3)" "op_int_val (imm_opd 3) \<le> 15" "op_int_val (imm_opd 3) = 3"
    by (simp_all add: i_def ins_def PtxInstr_default_def PtxOperand_default_def)
  from bar_sync_decodes [OF i(1-6), of RvEmitter_default] show ?thesis
    unfolding i(7) by (auto simp: i_def RvEmitter_default_def)
qed
end
