(* ===== verification/PtxCompile.thy ===== *)
theory PtxCompile
  imports RvEmitter
begin

text \<open>
  The transpiler as a whole: \<open>PtxTranspiler::compile\<close> and \<open>compileToFile\<close> of
  \<open>driver/src/ptx_transpiler/ptx_transpiler.cpp\<close>, which parse, emit and call an external assembler. The temporary
  directory and the assembler are the argument \<open>toolchain\<close>: \<open>tl_run\<close> maps the command and the text of
  \<open>kernel.s\<close> to the exit status, the output of the command and the ELF file it leaves. \<open>tl_what\<close> is the text of
  the exception that a number out of range raises in the tokenizer.
\<close>

section \<open>Model\<close>

record RiscvElf =
  re_bytes :: "u8 list"
  re_entry_symbol :: string
  re_asm_text :: string
  re_ok :: bool
  re_error :: string

definition RiscvElf_default :: RiscvElf where
  "RiscvElf_default = \<lparr> re_bytes = [], re_entry_symbol = [], re_asm_text = [], re_ok = False, re_error = [] \<rparr>"

record toolchain =
  tl_clang :: string
  tl_temp_dir :: "string option"
  tl_writable :: bool
  tl_run :: "string \<Rightarrow> string \<Rightarrow> int \<times> string \<times> u8 list option"
  tl_what :: string

datatype compile_outcome = Compiled RiscvElf | CompileException string | CompileUnknown

definition in_quotes :: "string \<Rightarrow> string" where
  "in_quotes s = CHR 0x22 # s @ [CHR 0x22]"

definition clang_command :: "string \<Rightarrow> string \<Rightarrow> string" where
  "clang_command clang dir =
     clang @ '' --target=riscv32-unknown-elf'' @ '' -march=rv32imf -mabi=ilp32f'' @ '' -fuse-ld=lld -nostdlib'' @
     '' '' @ in_quotes (dir @ ''/kernel.s'') @ '' -o '' @ in_quotes (dir @ ''/kernel.elf'') @ '' 2>&1''"

text \<open>From the assembly text to the ELF file.\<close>

definition assemble :: "toolchain \<Rightarrow> RiscvElf \<Rightarrow> RiscvElf" where
  "assemble tc r =
     (case tl_temp_dir tc of
        None \<Rightarrow> r\<lparr> re_error := ''Cannot create temporary compilation directory'' \<rparr>
      | Some dir \<Rightarrow>
          if \<not> tl_writable tc then r\<lparr> re_error := ''Cannot write temporary RISC-V assembly'' \<rparr>
          else
            let (rc, cmd_out, elf_file) = tl_run tc (clang_command (tl_clang tc) dir) (re_asm_text r) in
            if rc \<noteq> 0 then r\<lparr> re_error := ''clang error (rc='' @ show_int rc @ ''): '' @ cmd_out \<rparr>
            else (case elf_file of
                None \<Rightarrow> r\<lparr> re_error := ''Cannot read temporary ELF'' \<rparr>
              | Some bytes \<Rightarrow>
                  r\<lparr> re_bytes := bytes, re_ok := (bytes \<noteq> []),
                     re_error := (if bytes = [] then ''Assembler produced an empty ELF image'' else re_error r) \<rparr>))"

definition ptx_compile :: "(string \<Rightarrow> double option) \<Rightarrow> toolchain \<Rightarrow> string \<Rightarrow> compile_outcome" where
  "ptx_compile stod tc ptx_text =
     (case ptx_parse stod ptx_text of
        None \<Rightarrow> CompileException (tl_what tc)
      | Some (Inl e) \<Rightarrow> Compiled (RiscvElf_default\<lparr> re_error := ''PTX parse error: '' @ e \<rparr>)
      | Some (Inr k) \<Rightarrow>
          if pk_name k = [] then Compiled (RiscvElf_default\<lparr> re_error := ''PTX parse error: '' \<rparr>)
          else
            let r = RiscvElf_default\<lparr> re_entry_symbol := pk_name k \<rparr>;
                (txt, s) = rv_emit k RvEmitter_default;
                r = r\<lparr> re_asm_text := txt \<rparr>
            in if em_error s \<noteq> [] then Compiled (r\<lparr> re_error := ''RV emit error: '' @ em_error s \<rparr>)
               else Compiled (assemble tc r))"

text \<open>The bytes written to the output file; \<open>None\<close> when the call returns false.\<close>

definition compileToFile :: "(string \<Rightarrow> double option) \<Rightarrow> toolchain \<Rightarrow> bool \<Rightarrow> string \<Rightarrow> (string + u8 list option)" where
  "compileToFile stod tc writable ptx_text =
     (case ptx_compile stod tc ptx_text of
        Compiled r \<Rightarrow> Inr (if \<not> re_ok r then None else if \<not> writable then None else Some (re_bytes r))
      | CompileException what \<Rightarrow> Inl what
      | CompileUnknown \<Rightarrow> Inl [])"

section \<open>Lemmas\<close>

lemma assemble_asm [simp]:
  "re_asm_text (assemble tc r) = re_asm_text r" "re_entry_symbol (assemble tc r) = re_entry_symbol r"
  by (auto simp: assemble_def Let_def split: option.split prod.split)

text \<open>A compilation that succeeds assembles exactly the text of \<open>toAssembly\<close>, and its image is not empty.\<close>

lemma compiled_ok:
  assumes "ptx_compile stod tc src = Compiled r" "re_ok r"
  shows "toAssembly stod src = Some (re_asm_text r, re_entry_symbol r) \<and> re_entry_symbol r \<noteq> [] \<and> re_bytes r \<noteq> []"
proof -
  obtain k out s where "ptx_parse stod src = Some (Inr k)" "pk_name k \<noteq> []" "rv_emit k RvEmitter_default = (out, s)"
    "em_error s = []" "r = assemble tc (RiscvElf_default\<lparr> re_entry_symbol := pk_name k, re_asm_text := out \<rparr>)"
    using assms by (auto simp: ptx_compile_def RiscvElf_default_def Let_def split: option.splits sum.splits if_splits prod.splits)
  moreover have "re_bytes (assemble tc q) \<noteq> []" if "re_ok (assemble tc q)" "\<not> re_ok q" for q
    using that by (auto simp: assemble_def Let_def split: option.splits if_splits prod.splits)
  ultimately show ?thesis using assms(2) by (auto simp: toAssembly_def RiscvElf_default_def)
qed

text \<open>A compilation that fails says why.\<close>

lemma compiled_error: "ptx_compile stod tc src = Compiled r \<Longrightarrow> \<not> re_ok r \<Longrightarrow> re_error r \<noteq> []"
  by (auto simp: ptx_compile_def assemble_def Let_def split: option.splits sum.splits if_splits prod.splits)

end
