(* ===== verification/OrdMap.thy ===== *)
theory OrdMap
  imports Prelude "HOL-Library.List_Lexorder" "HOL-Library.Char_ord"
begin

text \<open>
  \<open>std::map\<close> and \<open>std::set\<close> of the host side: association lists in ascending key order, so that
  iteration is the list itself. A \<open>std::string\<close> key is compared byte by byte, which is the lexical order on
  character lists. Look-up is \<open>map_of\<close>; the lemmas relate the operations to maps.
\<close>

type_synonym ('k, 'v) omap = "('k \<times> 'v) list"

fun om_insert :: "'k::linorder \<Rightarrow> 'v \<Rightarrow> ('k, 'v) omap \<Rightarrow> ('k, 'v) omap" where
  "om_insert k v [] = [(k, v)]"
| "om_insert k v ((k', v') # m) =
     (if k < k' then (k, v) # (k', v') # m
      else if k = k' then (k, v) # m
      else (k', v') # om_insert k v m)"

definition om_erase :: "'k \<Rightarrow> ('k, 'v) omap \<Rightarrow> ('k, 'v) omap" where
  "om_erase k m = filter (\<lambda>p. fst p \<noteq> k) m"

definition om_sorted :: "('k::linorder, 'v) omap \<Rightarrow> bool" where
  "om_sorted m \<longleftrightarrow> sorted_wrt (<) (map fst m)"

lemma map_of_om_insert [simp]: "map_of (om_insert k v m) = (map_of m)(k \<mapsto> v)"
  by (induction m) (auto simp: fun_upd_twist)

lemma map_of_om_erase [simp]: "map_of (om_erase k m) = (map_of m)(k := None)"
  by (induction m) (auto simp: om_erase_def)

lemma set_keys_om_insert: "set (map fst (om_insert k v m)) = insert k (set (map fst m))"
proof (induction m)
  case (Cons p m)
  then show ?case by (cases p) (auto simp del: set_map simp: insert_commute)
qed simp

lemma om_sorted_Cons: "om_sorted (p # m) \<longleftrightarrow> (\<forall>k \<in> set (map fst m). fst p < k) \<and> om_sorted m"
  by (simp add: om_sorted_def)

lemma om_sorted_insert: "om_sorted m \<Longrightarrow> om_sorted (om_insert k v m)"
proof (induction m)
  case (Cons p m)
  obtain k' v' where p: "p = (k', v')" by (cases p)
  then show ?case
    using Cons set_keys_om_insert [of k v m] less_trans [of k k']
    by (auto simp: om_sorted_Cons simp del: set_map)
qed (simp add: om_sorted_def)

lemma om_sorted_erase: "om_sorted m \<Longrightarrow> om_sorted (om_erase k m)"
  unfolding om_sorted_def om_erase_def by (induction m) auto

lemma om_keys_distinct: "om_sorted m \<Longrightarrow> distinct (map fst m)"
  unfolding om_sorted_def by (simp add: strict_sorted_iff)

text \<open>\<open>find\<close> on a map in key order gives the least matching key.\<close>

lemma find_least:
  assumes "om_sorted m" "find (\<lambda>p. P (fst p)) m = Some (k, v)"
  shows "map_of m k = Some v" "P k" "\<And>k'. k' \<in> dom (map_of m) \<Longrightarrow> P k' \<Longrightarrow> k \<le> k'"
proof -
  obtain i where i: "i < length m" "m ! i = (k, v)" "P k" "\<forall>j < i. \<not> P (fst (m ! j))"
    using assms(2) unfolding find_Some_iff by (metis fst_conv)
  show "P k" by (fact i(3))
  show "map_of m k = Some v"
    using i(1,2) om_keys_distinct [OF assms(1)] by (metis map_of_is_SomeI nth_mem)
  fix k' assume "k' \<in> dom (map_of m)" "P k'"
  then obtain j where j: "j < length m" "fst (m ! j) = k'"
    by (auto dest!: map_of_SomeD simp: in_set_conv_nth)
  then have "\<not> j < i" using i(4) \<open>P k'\<close> by auto
  moreover have "k < k'" if "i < j"
    using assms(1) that i(1,2) j unfolding om_sorted_def sorted_wrt_iff_nth_less by fastforce
  ultimately show "k \<le> k'" using i(2) j(2) by (cases "i = j") auto
qed

end
