(* ===== verification/DeviceHeap.thy ===== *)
theory DeviceHeap
  imports OrdMap
begin

text \<open>
  The interface of device memory as the host API sees it (a locale): buffers that are allocated, filled, read and
  freed by address. The driver of the prototype (\<open>driver/src/loader.cpp\<close>) and the driver of the board
  (\<open>fpga_driver.cpp\<close>) both provide it. The client's lemmas say that buffers are independent of each other.
\<close>

text \<open>\<open>((size + 15) / 16) * 16\<close> on \<open>size_t\<close>.\<close>

definition align16 :: "u64 \<Rightarrow> u64" where
  "align16 sz = (sz + 15) div 16 * 16"

lemma align16_bounds:
  assumes "unat sz + 15 < 2 ^ 64"
  shows "unat sz \<le> unat (align16 sz)" "unat (align16 sz) < unat sz + 16"
proof -
  have s: "unat (sz + 15) = unat sz + 15"
    using assms by (subst unat_add_lem [THEN iffD1]) simp_all
  have d: "unat ((sz + 15) div 16) = (unat sz + 15) div 16"
    by (simp add: unat_div_distrib s)
  have "(unat sz + 15) div 16 * 16 < 2 ^ 64" using assms by simp
  then have "unat (align16 sz) = (unat sz + 15) div 16 * 16"
    by (simp add: align16_def unat_word_ariths d)
  then show "unat sz \<le> unat (align16 sz)" "unat (align16 sz) < unat sz + 16" by presburger+
qed

section \<open>Byte ranges\<close>

text \<open>\<open>memcpy(base + off, data, n)\<close> into an array.\<close>

definition overwrite :: "nat \<Rightarrow> 'a list \<Rightarrow> 'a list \<Rightarrow> 'a list" where
  "overwrite off data bs = take off bs @ data @ drop (off + length data) bs"

definition byte_range :: "nat \<Rightarrow> nat \<Rightarrow> 'a list \<Rightarrow> 'a list" where
  "byte_range off n bs = take n (drop off bs)"

lemma length_overwrite [simp]: "off + length data \<le> length bs \<Longrightarrow> length (overwrite off data bs) = length bs"
  by (simp add: overwrite_def)

lemma nth_overwrite:
  "off + length data \<le> length bs \<Longrightarrow> i < length bs \<Longrightarrow>
   overwrite off data bs ! i = (if off \<le> i \<and> i < off + length data then data ! (i - off) else bs ! i)"
  by (auto simp: overwrite_def nth_append)

lemma length_byte_range [simp]: "off + n \<le> length bs \<Longrightarrow> length (byte_range off n bs) = n"
  by (simp add: byte_range_def)

lemma nth_byte_range: "off + n \<le> length bs \<Longrightarrow> i < n \<Longrightarrow> byte_range off n bs ! i = bs ! (off + i)"
  by (simp add: byte_range_def)

lemma byte_range_overwrite_other:
  assumes "off + length data \<le> length bs" "k + n \<le> length bs" "off + length data \<le> k \<or> k + n \<le> off"
  shows "byte_range k n (overwrite off data bs) = byte_range k n bs"
  by (rule nth_equalityI) (use assms in \<open>auto simp: nth_byte_range nth_overwrite\<close>)

lemma byte_range_overwrite_same:
  assumes "off + n \<le> length bs" "length data \<le> n"
  shows "byte_range off n (overwrite off data bs) = data @ drop (length data) (byte_range off n bs)"
  by (rule nth_equalityI) (use assms in \<open>auto simp: nth_byte_range nth_overwrite nth_append\<close>)

lemma take_byte_range: "m \<le> n \<Longrightarrow> take m (byte_range off n bs) = byte_range off m bs"
  by (simp add: byte_range_def min_def)

section \<open>Ranges of a heap\<close>

text \<open>Every buffer lies below the next address and no two share a byte.\<close>

definition apart :: "(u64 \<rightharpoonup> nat) \<Rightarrow> bool" where
  "apart f \<longleftrightarrow> (\<forall>p q m n. f p = Some m \<longrightarrow> f q = Some n \<longrightarrow> p \<noteq> q \<longrightarrow> unat p + m \<le> unat q \<or> unat q + n \<le> unat p)"

definition below :: "nat \<Rightarrow> (u64 \<rightharpoonup> nat) \<Rightarrow> bool" where
  "below lim f \<longleftrightarrow> (\<forall>p n. f p = Some n \<longrightarrow> unat p + n \<le> lim \<and> unat p < lim)"

lemma apartD: "apart f \<Longrightarrow> f p = Some m \<Longrightarrow> f q = Some n \<Longrightarrow> p \<noteq> q \<Longrightarrow> unat p + m \<le> unat q \<or> unat q + n \<le> unat p"
  unfolding apart_def by blast

lemma apart_insert:
  assumes "apart f" "below (unat p) f" shows "apart (f(p \<mapsto> n))"
  using assms unfolding apart_def below_def by (auto split: if_splits)

lemma below_fresh: "below (unat p) (map_option h \<circ> m) \<Longrightarrow> m p = None"
  unfolding below_def by (cases "m p") auto

lemma apart_erase: "apart f \<Longrightarrow> apart (f(p := None))"
  unfolding apart_def by (auto split: if_splits)

lemma below_insert: "below lim f \<Longrightarrow> unat p + n \<le> lim' \<Longrightarrow> unat p < lim' \<Longrightarrow> lim \<le> lim' \<Longrightarrow> below lim' (f(p \<mapsto> n))"
  unfolding below_def by (auto split: if_splits intro: order_trans less_le_trans)

lemma below_erase: "below lim f \<Longrightarrow> below lim (f(p := None))"
  unfolding below_def by (auto split: if_splits)

lemma sizes_insert [simp]:
  "map_option length \<circ> (m(p \<mapsto> bs)) = (map_option length \<circ> m)(p \<mapsto> length bs)"
  "map_option length \<circ> (m(p := None)) = (map_option length \<circ> m)(p := None)"
  by auto

section \<open>The interface\<close>

datatype heap_op = Malloc u64 | Free u64 | CopyIn u64 "u8 list"

fun heap_step :: "(u64 \<Rightarrow> 's \<Rightarrow> u64 option \<times> 's) \<Rightarrow> (u64 \<Rightarrow> 's \<Rightarrow> bool \<times> 's) \<Rightarrow> (u64 \<Rightarrow> u8 list \<Rightarrow> 's \<Rightarrow> bool \<times> 's) \<Rightarrow>
    heap_op \<Rightarrow> 's \<Rightarrow> 's" where
  "heap_step alloc free h2d (Malloc n) s = snd (alloc n s)"
| "heap_step alloc free h2d (Free p) s = snd (free p s)"
| "heap_step alloc free h2d (CopyIn p data) s = snd (h2d p data s)"

text \<open>A sequence of operations; \<open>None\<close> if an allocation finds no room.\<close>

fun run_heap :: "(u64 \<Rightarrow> 's \<Rightarrow> bool) \<Rightarrow> (heap_op \<Rightarrow> 's \<Rightarrow> 's) \<Rightarrow> heap_op list \<Rightarrow> 's \<Rightarrow> 's option" where
  "run_heap room stp [] s = Some s"
| "run_heap room stp (x # xs) s =
     (if (case x of Malloc n \<Rightarrow> room n s | _ \<Rightarrow> True) then run_heap room stp xs (stp x s) else None)"

definition touches :: "u64 \<Rightarrow> heap_op \<Rightarrow> bool" where
  "touches p x \<longleftrightarrow> (case x of Malloc n \<Rightarrow> False | Free q \<Rightarrow> q = p | CopyIn q d \<Rightarrow> q = p)"

locale device_heap =
  fixes inv :: "'s \<Rightarrow> bool"
    and live :: "'s \<Rightarrow> u64 \<Rightarrow> u8 list option"
    and room :: "u64 \<Rightarrow> 's \<Rightarrow> bool"
    and alloc :: "u64 \<Rightarrow> 's \<Rightarrow> u64 option \<times> 's"
    and free :: "u64 \<Rightarrow> 's \<Rightarrow> bool \<times> 's"
    and h2d :: "u64 \<Rightarrow> u8 list \<Rightarrow> 's \<Rightarrow> bool \<times> 's"
    and d2h :: "u64 \<Rightarrow> nat \<Rightarrow> 's \<Rightarrow> u8 list option"
  assumes alloc_inv: "inv s \<Longrightarrow> room n s \<Longrightarrow> alloc n s = (r, s') \<Longrightarrow> inv s'"
    and alloc_some: "inv s \<Longrightarrow> room n s \<Longrightarrow> alloc n s = (Some p, s') \<Longrightarrow>
      live s p = None \<and> (\<exists>bs. length bs = unat n \<and> live s' = (live s)(p \<mapsto> bs))"
    and alloc_none: "inv s \<Longrightarrow> room n s \<Longrightarrow> alloc n s = (None, s') \<Longrightarrow> live s' = live s"
    and free_inv: "inv s \<Longrightarrow> free p s = (ok, s') \<Longrightarrow> inv s'"
    and free_live: "inv s \<Longrightarrow> free p s = (ok, s') \<Longrightarrow> ok = (live s p \<noteq> None) \<and> live s' = (live s)(p := None)"
    and h2d_inv: "inv s \<Longrightarrow> h2d p data s = (ok, s') \<Longrightarrow> inv s'"
    and h2d_live: "inv s \<Longrightarrow> h2d p data s = (ok, s') \<Longrightarrow>
      (case live s p of
         Some bs \<Rightarrow> ok = (length data \<le> length bs) \<and>
           live s' = (if ok then (live s)(p \<mapsto> data @ drop (length data) bs) else live s)
       | None \<Rightarrow> \<not> ok \<and> live s' = live s)"
    and d2h_live: "inv s \<Longrightarrow>
      d2h p k s = (case live s p of Some bs \<Rightarrow> if k \<le> length bs then Some (take k bs) else None | None \<Rightarrow> None)"

begin

abbreviation op_step where "op_step \<equiv> heap_step alloc free h2d"
abbreviation op_room where "op_room x s \<equiv> (case x of Malloc n \<Rightarrow> room n s | _ \<Rightarrow> True)"

lemma step_inv: "inv s \<Longrightarrow> op_room x s \<Longrightarrow> inv (op_step x s)"
  by (cases x) (auto intro: alloc_inv free_inv h2d_inv surjective_pairing)

lemma step_live:
  assumes "inv s" "op_room x s" "\<not> touches p x" "live s p = Some bs"
  shows "live (op_step x s) p = Some bs"
proof (cases x)
  case (Malloc n)
  then have r: "room n s" using assms(2) by simp
  obtain r s' where e: "alloc n s = (r, s')" by fastforce
  show ?thesis
  proof (cases r)
    case None
    then show ?thesis using alloc_none [OF assms(1) r] e assms(4) Malloc by simp
  next
    case (Some q)
    then show ?thesis using alloc_some [OF assms(1) r, of q s'] e assms(4) Malloc by auto
  qed
next
  case (Free q)
  obtain ok s' where "free q s = (ok, s')" by fastforce
  then show ?thesis using free_live [OF assms(1)] assms(3,4) Free by (auto simp: touches_def)
next
  case (CopyIn q d)
  obtain ok s' where e: "h2d q d s = (ok, s')" by fastforce
  show ?thesis using h2d_live [OF assms(1) e] assms(3,4) CopyIn e
    by (auto simp: touches_def split: option.splits if_splits)
qed

lemma run_live:
  "inv s \<Longrightarrow> run_heap room op_step xs s = Some s' \<Longrightarrow> \<forall>x \<in> set xs. \<not> touches p x \<Longrightarrow> live s p = Some bs \<Longrightarrow>
   inv s' \<and> live s' p = Some bs"
  by (induction xs arbitrary: s) (auto split: if_splits dest: step_inv step_live)

lemma run_inv: "inv s \<Longrightarrow> run_heap room op_step xs s = Some s' \<Longrightarrow> inv s'"
  by (induction xs arbitrary: s) (auto split: if_splits dest: step_inv)

text \<open>What is copied in is copied out, whatever happens to other buffers in between.\<close>

lemma copy_round_trip:
  assumes "inv s" "h2d p data s = (True, s1)" "run_heap room op_step xs s1 = Some s2" "\<forall>x \<in> set xs. \<not> touches p x"
  shows "d2h p (length data) s2 = Some data"
proof -
  obtain bs where bs: "live s1 p = Some (data @ drop (length data) bs)"
    using h2d_live [OF assms(1,2)] by (auto split: option.splits if_splits)
  have "inv s2 \<and> live s2 p = Some (data @ drop (length data) bs)"
    by (rule run_live [OF h2d_inv [OF assms(1,2)] assms(3,4) bs])
  then show ?thesis by (simp add: d2h_live)
qed

end

end
