(* ===== verification/ElfLoader.thy ===== *)
theory ElfLoader
  imports GMem DeviceHeap RvEmitter
begin

text \<open>
  The ELF32 loader of the simulator: \<open>models/systemc/integration/elf_loader.{h,cpp}\<close>. A file is the list of
  its bytes, \<open>None\<close> when it cannot be opened or read. The packed structures are records filled from the bytes of
  the file. A result \<open>None\<close> of the symbol parser is a read outside of the file's buffer. Offsets keep the
  width that the code gives them: the program header offset and the two string table sums are 32 bits wide.
  A symbol offset that wraps around is \<open>None\<close> as well: it needs an offset of 2 GiB or more, which is outside of
  every file smaller than that. Logging is left out.
\<close>

section \<open>The file format\<close>

record Elf32_Ehdr =
  e_ident :: "u8 list"
  e_type :: u16
  e_machine :: u16
  e_version :: u32
  e_entry :: u32
  e_phoff :: u32
  e_shoff :: u32
  e_flags :: u32
  e_ehsize :: u16
  e_phentsize :: u16
  e_phnum :: u16
  e_shentsize :: u16
  e_shnum :: u16
  e_shstrndx :: u16

record Elf32_Phdr =
  p_type :: u32
  p_offset :: u32
  p_vaddr :: u32
  p_paddr :: u32
  p_filesz :: u32
  p_memsz :: u32
  p_flags :: u32
  p_align :: u32

record Elf32_Shdr =
  sh_name :: u32
  sh_type :: u32
  sh_flags :: u32
  sh_addr :: u32
  sh_offset :: u32
  sh_size :: u32
  sh_link :: u32
  sh_info :: u32
  sh_addralign :: u32
  sh_entsize :: u32

record Elf32_Sym =
  st_name :: u32
  st_value :: u32
  st_size :: u32
  st_info :: u8
  st_other :: u8
  st_shndx :: u16

definition PT_LOAD :: u32 where "PT_LOAD = 1"
definition SHT_SYMTAB :: u32 where "SHT_SYMTAB = 2"
definition STT_FUNC :: u8 where "STT_FUNC = 2"
definition STT_OBJECT :: u8 where "STT_OBJECT = 1"
definition STB_GLOBAL :: u8 where "STB_GLOBAL = 1"

definition le16 :: "u8 list \<Rightarrow> nat \<Rightarrow> u16" where
  "le16 buf i = ucast (buf ! i) OR push_bit 8 (ucast (buf ! (i + 1)))"

definition le32 :: "u8 list \<Rightarrow> nat \<Rightarrow> u32" where
  "le32 buf i = join_word (buf ! i) (buf ! (i + 1)) (buf ! (i + 2)) (buf ! (i + 3))"

definition ehdr_size :: nat where "ehdr_size = 52"
definition phdr_size :: nat where "phdr_size = 32"
definition shdr_size :: nat where "shdr_size = 40"
definition sym_size :: nat where "sym_size = 16"

text \<open>\<open>memcpy\<close> of a structure out of the file.\<close>

definition ehdr_at :: "u8 list \<Rightarrow> Elf32_Ehdr" where
  "ehdr_at buf = \<lparr> e_ident = take 16 buf, e_type = le16 buf 16, e_machine = le16 buf 18, e_version = le32 buf 20,
     e_entry = le32 buf 24, e_phoff = le32 buf 28, e_shoff = le32 buf 32, e_flags = le32 buf 36,
     e_ehsize = le16 buf 40, e_phentsize = le16 buf 42, e_phnum = le16 buf 44, e_shentsize = le16 buf 46,
     e_shnum = le16 buf 48, e_shstrndx = le16 buf 50 \<rparr>"

definition phdr_at :: "u8 list \<Rightarrow> nat \<Rightarrow> Elf32_Phdr" where
  "phdr_at buf off = \<lparr> p_type = le32 buf off, p_offset = le32 buf (off + 4), p_vaddr = le32 buf (off + 8),
     p_paddr = le32 buf (off + 12), p_filesz = le32 buf (off + 16), p_memsz = le32 buf (off + 20),
     p_flags = le32 buf (off + 24), p_align = le32 buf (off + 28) \<rparr>"

definition shdr_at :: "u8 list \<Rightarrow> nat \<Rightarrow> Elf32_Shdr" where
  "shdr_at buf off = \<lparr> sh_name = le32 buf off, sh_type = le32 buf (off + 4), sh_flags = le32 buf (off + 8),
     sh_addr = le32 buf (off + 12), sh_offset = le32 buf (off + 16), sh_size = le32 buf (off + 20),
     sh_link = le32 buf (off + 24), sh_info = le32 buf (off + 28), sh_addralign = le32 buf (off + 32),
     sh_entsize = le32 buf (off + 36) \<rparr>"

definition shdr_zero :: Elf32_Shdr where
  "shdr_zero = \<lparr> sh_name = 0, sh_type = 0, sh_flags = 0, sh_addr = 0, sh_offset = 0, sh_size = 0, sh_link = 0,
     sh_info = 0, sh_addralign = 0, sh_entsize = 0 \<rparr>"

definition sym_at :: "u8 list \<Rightarrow> nat \<Rightarrow> Elf32_Sym" where
  "sym_at buf off = \<lparr> st_name = le32 buf off, st_value = le32 buf (off + 4), st_size = le32 buf (off + 8),
     st_info = buf ! (off + 12), st_other = buf ! (off + 13), st_shndx = le16 buf (off + 14) \<rparr>"

text \<open>The characters up to the terminating zero, which must lie in the file.\<close>

definition cstring_at :: "u8 list \<Rightarrow> nat \<Rightarrow> string option" where
  "cstring_at buf off =
     (if 0 \<in> set (drop off buf) then Some (map (\<lambda>b. char_of (unat b)) (takeWhile (\<lambda>b. b \<noteq> 0) (drop off buf)))
      else None)"

section \<open>The loader\<close>

record SymbolEntry =
  se_name :: string
  se_address :: u32
  se_size :: u32

record ElfLoader =
  el_entry_point :: u32
  el_text_base :: u32
  el_text_end :: u32
  el_symbols :: "(string, SymbolEntry) omap"

definition ElfLoader_init :: ElfLoader where
  "ElfLoader_init = \<lparr> el_entry_point = 0, el_text_base = 0, el_text_end = 0, el_symbols = [] \<rparr>"

definition elf_magic :: "u8 list \<Rightarrow> bool" where
  "elf_magic buf \<longleftrightarrow> buf ! 0 = 0x7F \<and> buf ! 1 = 0x45 \<and> buf ! 2 = 0x4C \<and> buf ! 3 = 0x46"

subsection \<open>Segments\<close>

definition bss_fill :: "u32 \<Rightarrow> u32 \<Rightarrow> u32 \<Rightarrow> gmemory \<Rightarrow> gmemory" where
  "bss_fill vaddr fsz msz =
     fold (\<lambda>b. gWriteBytes (ucast (vaddr + of_nat b)) [0] 0) [unat fsz ..< unat msz]"

definition load_segment :: "u8 list \<Rightarrow> Elf32_Phdr \<Rightarrow> ElfLoader \<times> gmemory \<Rightarrow> ElfLoader \<times> gmemory" where
  "load_segment buf ph = (\<lambda>(l, mem).
     if p_type ph \<noteq> PT_LOAD \<or> p_memsz ph = 0 then (l, mem)
     else
       let vaddr = p_vaddr ph; fsz = p_filesz ph; msz = p_memsz ph; seg_off = unat (p_offset ph);
           mem = (if fsz > 0 \<and> seg_off + unat fsz \<le> length buf
                  then gWriteBytes (ucast vaddr) (byte_range seg_off (unat fsz) buf) 0 mem else mem);
           mem = bss_fill vaddr fsz msz mem;
           l = (if p_flags ph AND 1 \<noteq> 0 then
                  let l = (if vaddr < el_text_base l then l\<lparr> el_text_base := vaddr \<rparr> else l)
                  in (if vaddr + msz > el_text_end l then l\<lparr> el_text_end := vaddr + msz \<rparr> else l)
                else l)
       in (l, mem))"

text \<open>The offset of program header \<open>i\<close>: a 32-bit sum.\<close>

definition phdr_offset :: "Elf32_Ehdr \<Rightarrow> nat \<Rightarrow> nat" where
  "phdr_offset eh i = unat (e_phoff eh + of_nat i * ucast (e_phentsize eh))"

fun load_segments :: "u8 list \<Rightarrow> Elf32_Ehdr \<Rightarrow> nat list \<Rightarrow> ElfLoader \<times> gmemory \<Rightarrow> ElfLoader \<times> gmemory" where
  "load_segments buf eh [] lm = lm"
| "load_segments buf eh (i # is) lm =
     (if phdr_offset eh i + phdr_size > length buf then lm
      else load_segments buf eh is (load_segment buf (phdr_at buf (phdr_offset eh i)) lm))"

subsection \<open>Symbols\<close>

definition shdr_offset :: "Elf32_Ehdr \<Rightarrow> nat \<Rightarrow> u64" where
  "shdr_offset eh i = ucast (e_shoff eh) + scast (of_nat i * ucast (e_shentsize eh) :: u32)"

text \<open>The section headers; those after the first that is not in the file stay zero.\<close>

fun read_shdrs :: "u8 list \<Rightarrow> Elf32_Ehdr \<Rightarrow> nat list \<Rightarrow> Elf32_Shdr list" where
  "read_shdrs buf eh [] = []"
| "read_shdrs buf eh (i # is) =
     (let off = shdr_offset eh i in
      if unat (off + of_nat shdr_size) > length buf then replicate (length (i # is)) shdr_zero
      else shdr_at buf (unat off) # read_shdrs buf eh is)"

definition wanted_symbol :: "Elf32_Sym \<Rightarrow> bool" where
  "wanted_symbol sy \<longleftrightarrow>
     (let typ = st_info sy AND 0xF; bind = drop_bit 4 (st_info sy) AND 0xF
      in typ = STT_FUNC \<or> typ = STT_OBJECT \<or> (typ = 0 \<and> bind = STB_GLOBAL))"

text \<open>One entry of the symbol table.\<close>

definition add_symbol :: "u8 list \<Rightarrow> Elf32_Shdr \<Rightarrow> Elf32_Sym \<Rightarrow> (string, SymbolEntry) omap \<Rightarrow>
    (string, SymbolEntry) omap option" where
  "add_symbol buf strsh sy syms =
     (if \<not> wanted_symbol sy then Some syms
      else if st_value sy = 0 then Some syms
      else if sh_offset strsh + st_name sy \<ge> sh_offset strsh + sh_size strsh then Some syms
      else map_option (\<lambda>name. if name = [] then syms
             else om_insert name \<lparr> se_name = name, se_address = st_value sy, se_size = st_size sy \<rparr> syms)
           (cstring_at buf (unat (sh_offset strsh) + unat (st_name sy))))"

function symbol_loop :: "u8 list \<Rightarrow> u32 \<Rightarrow> u32 \<Rightarrow> u32 \<Rightarrow> Elf32_Shdr \<Rightarrow> u32 \<Rightarrow> (string, SymbolEntry) omap \<Rightarrow>
    (string, SymbolEntry) omap option" where
  "symbol_loop buf sym_off sz ent strsh s syms =
     (if unat s + unat ent \<ge> 2 ^ 32 \<or> ent = 0 then None
      else if s + ent > sz then Some syms
      else
        let off = unat sym_off + unat s in
        if off + sym_size > length buf then None
        else Option.bind (add_symbol buf strsh (sym_at buf off) syms) (symbol_loop buf sym_off sz ent strsh (s + ent)))"
  by pat_completeness auto
termination
proof (relation "measure (\<lambda>(_, _, sz, _, _, s, _). unat sz - unat s)", goal_cases)
  case 1
  then show ?case by simp
next
  case (2 buf sym_off sz ent strsh s syms)
  then have "unat (s + ent) = unat s + unat ent" by (subst unat_add_lem [THEN iffD1]) simp_all
  moreover have "0 < unat ent" using 2 by (simp add: unat_gt_0)
  moreover have "unat (s + ent) \<le> unat sz" using 2 by (simp add: not_less word_le_nat_alt)
  ultimately show ?case by simp
qed

declare symbol_loop.simps [simp del]

definition load_section :: "u8 list \<Rightarrow> Elf32_Shdr list \<Rightarrow> Elf32_Shdr \<Rightarrow> (string, SymbolEntry) omap \<Rightarrow>
    (string, SymbolEntry) omap option" where
  "load_section buf shdrs sh syms =
     (if sh_type sh \<noteq> SHT_SYMTAB then Some syms
      else
        let ent = (if sh_entsize sh = 0 then of_nat sym_size else sh_entsize sh) in
        if unat (sh_link sh) \<ge> length shdrs then Some syms
        else symbol_loop buf (sh_offset sh) (sh_size sh) ent (shdrs ! unat (sh_link sh)) 0 syms)"

fun load_sections :: "u8 list \<Rightarrow> Elf32_Shdr list \<Rightarrow> Elf32_Shdr list \<Rightarrow> (string, SymbolEntry) omap \<Rightarrow>
    (string, SymbolEntry) omap option" where
  "load_sections buf shdrs [] syms = Some syms"
| "load_sections buf shdrs (sh # rest) syms =
     Option.bind (load_section buf shdrs sh syms) (load_sections buf shdrs rest)"

subsection \<open>Loading a file\<close>

definition elf_segments :: "u8 list \<Rightarrow> ElfLoader \<times> gmemory \<Rightarrow> ElfLoader \<times> gmemory" where
  "elf_segments buf = (\<lambda>(l, mem).
     let eh = ehdr_at buf;
         l = l\<lparr> el_entry_point := e_entry eh, el_text_base := 0xFFFFFFFF, el_text_end := 0 \<rparr>
     in load_segments buf eh [0..<unat (e_phnum eh)] (l, mem))"

definition elf_symbols :: "u8 list \<Rightarrow> (string, SymbolEntry) omap \<Rightarrow> (string, SymbolEntry) omap option" where
  "elf_symbols buf syms =
     (let eh = ehdr_at buf in
      if e_shoff eh = 0 \<or> e_shnum eh = 0 then Some syms
      else let shdrs = read_shdrs buf eh [0..<unat (e_shnum eh)] in load_sections buf shdrs shdrs syms)"

definition elf_load :: "u8 list option \<Rightarrow> ElfLoader \<times> gmemory \<Rightarrow> (bool \<times> ElfLoader \<times> gmemory) option" where
  "elf_load file lm =
     (case file of None \<Rightarrow> Some (False, lm)
     | Some buf \<Rightarrow>
         if length buf < ehdr_size \<or> \<not> elf_magic buf then Some (False, lm)
         else if buf ! 4 \<noteq> 1 then Some (False, lm)
         else let (l, mem) = elf_segments buf lm in
           map_option (\<lambda>syms. (True, l\<lparr> el_symbols := syms \<rparr>, mem)) (elf_symbols buf (el_symbols l)))"

text \<open>The first symbol in name order whose name contains the argument.\<close>

definition findSymbol :: "string \<Rightarrow> ElfLoader \<Rightarrow> SymbolEntry option" where
  "findSymbol partial l = map_option snd (find (\<lambda>p. contains partial (fst p)) (el_symbols l))"

section \<open>Lemmas\<close>

text \<open>Every symbol is stored under its own name, in name order.\<close>

definition symbols_ok :: "(string, SymbolEntry) omap \<Rightarrow> bool" where
  "symbols_ok syms \<longleftrightarrow> om_sorted syms \<and> (\<forall>k e. map_of syms k = Some e \<longrightarrow> se_name e = k)"

lemma add_symbol_ok: "add_symbol buf strsh sy syms = Some syms' \<Longrightarrow> symbols_ok syms \<Longrightarrow> symbols_ok syms'"
  by (auto simp: add_symbol_def symbols_ok_def om_sorted_insert split: if_splits)

lemma symbol_loop_ok:
  "symbol_loop buf sym_off sz ent strsh s syms = Some syms' \<Longrightarrow> symbols_ok syms \<Longrightarrow> symbols_ok syms'"
proof (induction buf sym_off sz ent strsh s syms rule: symbol_loop.induct)
  case (1 buf sym_off sz ent strsh s syms)
  from "1.prems" show ?case
    by (subst (asm) symbol_loop.simps)
      (auto simp: Let_def split: if_splits bind_splits intro: "1.IH" dest: add_symbol_ok)
qed

lemma load_sections_ok: "load_sections buf shdrs rest syms = Some syms' \<Longrightarrow> symbols_ok syms \<Longrightarrow> symbols_ok syms'"
  by (induction rest arbitrary: syms)
    (auto simp: load_section_def Let_def split: bind_splits if_splits dest: symbol_loop_ok)

lemma load_segments_symbols: "el_symbols (fst (load_segments buf eh is lm)) = el_symbols (fst lm)"
proof (induction "is" arbitrary: lm)
  case (Cons i "is")
  have "el_symbols (fst (load_segment buf ph lm)) = el_symbols (fst lm)" for ph
    by (cases lm) (simp add: load_segment_def Let_def)
  then show ?case using Cons by simp
qed simp

lemma elf_load_symbols:
  assumes "elf_load (Some buf) (l, mem) = Some (True, l', mem')" "symbols_ok (el_symbols l)"
  shows "symbols_ok (el_symbols l')"
proof -
  obtain l1 mem1 where s: "elf_segments buf (l, mem) = (l1, mem1)" by fastforce
  then have "el_symbols l1 = el_symbols l"
    using load_segments_symbols [of buf] by (fastforce simp: elf_segments_def Let_def dest: arg_cong [where f = "\<lambda>p. el_symbols (fst p)"])
  then show ?thesis
    using assms s by (auto simp: elf_load_def elf_symbols_def Let_def split: if_splits dest: load_sections_ok)
qed

text \<open>What a byte of global memory holds after a bulk write.\<close>

lemma read_write_bytes:
  assumes "length data < 2 ^ 64"
  shows "gReadByte x (gWriteBytes a data b m) =
    (if \<not> gStartsShared a m \<and> unat (x - a) < length data then data ! unat (x - a) else gReadByte x m)"
proof (cases "gStartsShared a m")
  case True
  then show ?thesis by (auto simp: gWriteBytes_def gReadByte_def split: option.splits)
next
  case False
  have "gReadByte x (fold (\<lambda>i. gWriteByte (a + of_nat i) (data ! i)) [0..<n] m) =
      (if unat (x - a) < n then data ! unat (x - a) else gReadByte x m)" if "n \<le> length data" for n
    using that
  proof (induction n)
    case (Suc n)
    have "a + of_nat n = x \<longleftrightarrow> (of_nat n :: u64) = x - a" by (auto simp: algebra_simps)
    also have "\<dots> \<longleftrightarrow> unat (x - a) = n"
      using Suc.prems assms by (auto simp: word_unat_eq_iff unat_of_nat)
    finally show ?case using Suc by (auto simp: read_write_byte)
  qed simp
  then show ?thesis using False by (simp add: gWriteBytes_def)
qed

lemma write_bytes_shared [simp]: "gIsSharedMemoryAddress (gWriteBytes a data b m) x = gIsSharedMemoryAddress m x"
proof (cases "gStartsShared a m")
  case True
  then show ?thesis by (auto simp: gWriteBytes_def gIsSharedMemoryAddress_def split: option.splits)
next
  case False
  then show ?thesis using write_loop_shared [of x a data "[0..<length data]" m]
    by (simp add: gWriteBytes_def gStartsShared_def)
qed

section \<open>Properties\<close>

text \<open>A symbol look-up takes the first name in byte order that contains the wanted name; the symbol of exactly that
  name is passed over whenever a smaller name contains it.\<close>

theorem findSymbol_least:
  assumes "elf_load (Some buf) (ElfLoader_init, mem) = Some (True, l, mem')" "findSymbol n l = Some e"
  shows "map_of (el_symbols l) (se_name e) = Some e \<and> contains n (se_name e) \<and>
    (\<forall>k \<in> dom (map_of (el_symbols l)). contains n k \<longrightarrow> se_name e \<le> k)"
proof -
  have ok: "symbols_ok (el_symbols l)"
    by (rule elf_load_symbols [OF assms(1)]) (simp add: symbols_ok_def ElfLoader_init_def om_sorted_def)
  obtain k where k: "find (\<lambda>p. contains n (fst p)) (el_symbols l) = Some (k, e)"
    using assms(2) by (auto simp: findSymbol_def)
  have "om_sorted (el_symbols l)" using ok by (simp add: symbols_ok_def)
  note least = find_least [OF this k]
  have "se_name e = k" using ok least(1) by (simp add: symbols_ok_def)
  then show ?thesis using least by simp
qed

section \<open>Witnesses\<close>

text \<open>An ELF file without segments and with the symbols \<open>mul\<close> and \<open>add_mul\<close>.\<close>

definition demo_header :: "u8 list" where
  "demo_header = [127, 69, 76, 70, 1, 1, 1, 0, 0, 0, 0, 0, 0, 0, 0, 0, 2, 0, 243, 0, 1, 0, 0, 0, 0, 0, 1, 0, 0, 0, 0, 0, 52, 0,
     0, 0, 0, 0, 0, 0, 52, 0, 32, 0, 0, 0, 40, 0, 2, 0, 0, 0]"
definition demo_sections :: "u8 list" where
  "demo_sections = [0, 0, 0, 0, 2, 0, 0, 0, 0, 0, 0, 0, 0, 0, 0, 0, 132, 0, 0, 0, 32, 0, 0, 0, 1, 0, 0, 0, 0, 0, 0, 0, 0, 0, 0,
     0, 16, 0, 0, 0, 0, 0, 0, 0, 3, 0, 0, 0, 0, 0, 0, 0, 0, 0, 0, 0, 164, 0, 0, 0, 13, 0, 0, 0, 0, 0, 0, 0, 0, 0,
     0, 0, 0, 0, 0, 0, 0, 0, 0, 0]"
definition demo_symbols :: "u8 list" where
  "demo_symbols = [1, 0, 0, 0, 0, 0, 1, 0, 64, 0, 0, 0, 18, 0, 1, 0, 5, 0, 0, 0, 64, 0, 1, 0, 64, 0, 0, 0, 18, 0, 1, 0, 0, 109,
     117, 108, 0, 97, 100, 100, 95, 109, 117, 108, 0]"

definition demo_elf :: "u8 list" where
  "demo_elf = demo_header @ demo_sections @ demo_symbols"

lemmas demo_elf_defs = demo_elf_def demo_header_def demo_sections_def demo_symbols_def

lemma demo_elf_shape: "length demo_elf = 177" "elf_magic demo_elf" "demo_elf ! 4 = 1" "e_phnum (ehdr_at demo_elf) = 0"
    "e_shoff (ehdr_at demo_elf) = 52" "e_shnum (ehdr_at demo_elf) = 2" "e_shentsize (ehdr_at demo_elf) = 40"
  by (simp_all add: demo_elf_defs elf_magic_def ehdr_at_def le16_def le32_def join_word_def)

lemma demo_elf_sections:
  "shdr_at demo_elf 52 = shdr_zero\<lparr> sh_type := 2, sh_offset := 132, sh_size := 32, sh_link := 1, sh_entsize := 16 \<rparr>"
  "shdr_at demo_elf 92 = shdr_zero\<lparr> sh_type := 3, sh_offset := 164, sh_size := 13 \<rparr>"
  by (simp_all add: demo_elf_defs shdr_at_def le32_def join_word_def shdr_zero_def)

lemma demo_elf_entries:
  "sym_at demo_elf 132 = \<lparr> st_name = 1, st_value = 0x10000, st_size = 64, st_info = 0x12, st_other = 0, st_shndx = 1 \<rparr>"
  "sym_at demo_elf 148 = \<lparr> st_name = 5, st_value = 0x10040, st_size = 64, st_info = 0x12, st_other = 0, st_shndx = 1 \<rparr>"
  "cstring_at demo_elf 165 = Some ''mul''" "cstring_at demo_elf 169 = Some ''add_mul''"
  by (simp_all add: demo_elf_defs sym_at_def le16_def le32_def join_word_def cstring_at_def char_of_def bit_Suc_0_iff)

lemma demo_elf_symbols:
  "elf_symbols demo_elf [] = Some [(''add_mul'', \<lparr> se_name = ''add_mul'', se_address = 0x10040, se_size = 64 \<rparr>),
     (''mul'', \<lparr> se_name = ''mul'', se_address = 0x10000, se_size = 64 \<rparr>)]"
proof -
  have "[0..<2] = [0, 1]" by (simp add: upt_rec)
  then have "read_shdrs demo_elf (ehdr_at demo_elf) [0..<2] = [shdr_at demo_elf 52, shdr_at demo_elf 92]"
    by (simp add: shdr_offset_def demo_elf_shape shdr_size_def)
  then show ?thesis
    by (simp add: elf_symbols_def Let_def demo_elf_shape demo_elf_sections load_section_def shdr_zero_def SHT_SYMTAB_def
        symbol_loop.simps demo_elf_entries sym_size_def add_symbol_def wanted_symbol_def STT_FUNC_def STT_OBJECT_def)
qed

lemma demo_elf_load:
  "\<exists>l. elf_load (Some demo_elf) (ElfLoader_init, mem) = Some (True, l, mem) \<and>
     findSymbol ''mul'' l = Some \<lparr> se_name = ''add_mul'', se_address = 0x10040, se_size = 64 \<rparr>"
proof -
  have "contains ''mul'' ''add_mul''" by code_simp
  then show ?thesis using demo_elf_shape
    by (simp add: elf_load_def ehdr_size_def elf_segments_def demo_elf_symbols ElfLoader_init_def findSymbol_def Let_def not_less
        del: contains.simps)
qed

theorem findSymbol_least_witness:
  "\<exists>l e. findSymbol ''mul'' l = Some e \<and> se_name e = ''add_mul'' \<and> map_of (el_symbols l) ''add_mul'' = Some e"
proof -
  obtain l where l: "elf_load (Some demo_elf) (ElfLoader_init, gmemory0) = Some (True, l, gmemory0)"
      "findSymbol ''mul'' l = Some \<lparr> se_name = ''add_mul'', se_address = 0x10040, se_size = 64 \<rparr>"
    using demo_elf_load [of gmemory0] by blast
  have "map_of (el_symbols l) ''add_mul'' = Some \<lparr> se_name = ''add_mul'', se_address = 0x10040, se_size = 64 \<rparr>"
    using findSymbol_least [OF l] by simp
  with l(2) show ?thesis by (intro exI conjI) simp_all
qed

end
