(* ===== verification/FpgaDriver.thy ===== *)
theory FpgaDriver
  imports DeviceHeap
begin

text \<open>
  The driver of the board: \<open>driver/src/fpga_driver.{h,cpp}\<close> and the register map \<open>fpga_regs.h\<close>. The two
  mapped windows are the words and the bytes behind them, \<open>None\<close> when not mapped. What the operating system
  answers in \<open>open\<close> (\<open>open\<close>, \<open>mmap\<close>) is the record \<open>os_answers\<close>, and the values that the
  device puts in its status register are a list of polls. A result \<open>None\<close> is an access through a null pointer
  or outside of a mapping.
\<close>

section \<open>Model\<close>

definition kRegBlockSize :: nat where "kRegBlockSize = 0x1000"
definition REG_ID :: u32 where "REG_ID = 0x00"
definition REG_CTRL :: u32 where "REG_CTRL = 0x04"
definition REG_STATUS :: u32 where "REG_STATUS = 0x08"
definition REG_PC_INIT :: u32 where "REG_PC_INIT = 0x0C"
definition REG_GRID_X :: u32 where "REG_GRID_X = 0x10"
definition REG_GRID_Y :: u32 where "REG_GRID_Y = 0x14"
definition REG_IRQ_ENABLE :: u32 where "REG_IRQ_ENABLE = 0x18"
definition kDeviceId :: u32 where "kDeviceId = 0x47505501"
definition CTRL_START :: u32 where "CTRL_START = 1"
definition CTRL_RESET :: u32 where "CTRL_RESET = 2"
definition CTRL_IRQ_CLEAR :: u32 where "CTRL_IRQ_CLEAR = 4"

datatype fpga_status = ST_IDLE | ST_RUNNING | ST_DONE | ST_ERROR

definition status_value :: "fpga_status \<Rightarrow> u32" where
  "status_value st = (case st of ST_IDLE \<Rightarrow> 0 | ST_RUNNING \<Rightarrow> 1 | ST_DONE \<Rightarrow> 2 | ST_ERROR \<Rightarrow> 3)"

definition kGlobalMemPhysBase :: u64 where "kGlobalMemPhysBase = 0x60000000"
definition kGlobalMemSize :: u64 where "kGlobalMemSize = 64 * 1024 * 1024"
definition kDataHeapOffset :: u64 where "kDataHeapOffset = 16 * 1024 * 1024"

record FpgaDriverConfig =
  fc_mem_map_offset :: u64
  fc_mem_map_size :: u64
  fc_skip_id_check :: bool

definition FpgaDriverConfig_default :: FpgaDriverConfig where
  "FpgaDriverConfig_default = \<lparr> fc_mem_map_offset = kGlobalMemPhysBase, fc_mem_map_size = kGlobalMemSize, fc_skip_id_check = False \<rparr>"

record os_answers =
  os_reg_fd :: bool
  os_reg_map :: "u32 list option"
  os_mem_fd :: bool
  os_mem_map :: "u8 list option"

record FpgaDriver =
  fd_reg_fd :: bool
  fd_mem_fd :: bool
  fd_regs :: "u32 list option"
  fd_mem :: "u8 list option"
  fd_mem_base :: u64
  fd_mem_size :: u64
  fd_next_alloc :: u64
  fd_buffers :: "(u64, u64) omap"

definition FpgaDriver_default :: FpgaDriver where
  "FpgaDriver_default = \<lparr> fd_reg_fd = False, fd_mem_fd = False, fd_regs = None, fd_mem = None, fd_mem_base = 0,
     fd_mem_size = 0, fd_next_alloc = 0, fd_buffers = [] \<rparr>"

subsection \<open>Registers\<close>

definition readReg :: "u32 \<Rightarrow> FpgaDriver \<Rightarrow> u32 option" where
  "readReg offset s =
     (case fd_regs s of None \<Rightarrow> None
      | Some w \<Rightarrow> if unat offset div 4 < length w then Some (w ! (unat offset div 4)) else None)"

definition writeReg :: "u32 \<Rightarrow> u32 \<Rightarrow> FpgaDriver \<Rightarrow> FpgaDriver option" where
  "writeReg offset v s =
     (case fd_regs s of None \<Rightarrow> None
      | Some w \<Rightarrow> if unat offset div 4 < length w then Some (s\<lparr> fd_regs := Some (w[unat offset div 4 := v]) \<rparr>) else None)"

definition isOpen :: "FpgaDriver \<Rightarrow> bool" where
  "isOpen s \<longleftrightarrow> fd_regs s \<noteq> None"

definition fd_close :: "FpgaDriver \<Rightarrow> FpgaDriver" where
  "fd_close s = s\<lparr> fd_regs := None, fd_mem := None, fd_reg_fd := False, fd_mem_fd := False, fd_buffers := [],
     fd_mem_base := 0, fd_mem_size := 0, fd_next_alloc := 0 \<rparr>"

definition fd_open :: "FpgaDriverConfig \<Rightarrow> os_answers \<Rightarrow> FpgaDriver \<Rightarrow> bool \<times> FpgaDriver" where
  "fd_open config os s =
     (let s = fd_close s in
      if \<not> os_reg_fd os then (False, s)
      else let s = s\<lparr> fd_reg_fd := True \<rparr> in
      if os_reg_map os = None then (False, fd_close s)
      else let s = s\<lparr> fd_regs := os_reg_map os \<rparr> in
      if \<not> os_mem_fd os then (False, fd_close s)
      else let s = s\<lparr> fd_mem_fd := True \<rparr> in
      if os_mem_map os = None then (False, fd_close s)
      else let s = s\<lparr> fd_mem := os_mem_map os, fd_mem_base := fc_mem_map_offset config,
             fd_mem_size := fc_mem_map_size config,
             fd_next_alloc := fc_mem_map_offset config + min kDataHeapOffset (fc_mem_map_size config div 2),
             fd_buffers := [] \<rparr> in
      if \<not> fc_skip_id_check config \<and> readReg REG_ID s \<noteq> Some kDeviceId then (False, fd_close s)
      else (True, s))"

text \<open>One poll is the status read and whether the deadline has passed by then. The value is \<open>None\<close> while the
  call still waits.\<close>

fun waitForStatus :: "fpga_status \<Rightarrow> (u32 \<times> bool) list \<Rightarrow> bool option" where
  "waitForStatus expected [] = None"
| "waitForStatus expected ((st, late) # polls) =
     (if st = status_value expected then Some True
      else if late then Some False else waitForStatus expected polls)"

definition fd_reset :: "(u32 \<times> bool) list \<Rightarrow> FpgaDriver \<Rightarrow> (bool option \<times> FpgaDriver) option" where
  "fd_reset polls s = map_option (\<lambda>s. (waitForStatus ST_IDLE polls, s)) (writeReg REG_CTRL CTRL_RESET s)"

definition fd_start :: "FpgaDriver \<Rightarrow> FpgaDriver option" where
  "fd_start s = writeReg REG_CTRL CTRL_START s"

subsection \<open>Device memory\<close>

definition memAt :: "u64 \<Rightarrow> u64 \<Rightarrow> FpgaDriver \<Rightarrow> nat option" where
  "memAt dev_addr n s =
     (if fd_mem s = None then None
      else if dev_addr < fd_mem_base s \<or> dev_addr + n > fd_mem_base s + fd_mem_size s then None
      else Some (unat (dev_addr - fd_mem_base s)))"

definition allocateBuffer :: "u64 \<Rightarrow> FpgaDriver \<Rightarrow> u64 option \<times> FpgaDriver" where
  "allocateBuffer n s =
     (if n = 0 then (None, s)
      else let aligned = align16 n in
        if fd_next_alloc s + aligned > fd_mem_base s + fd_mem_size s then (None, s)
        else (Some (fd_next_alloc s),
              s\<lparr> fd_next_alloc := fd_next_alloc s + aligned,
                 fd_buffers := om_insert (fd_next_alloc s) n (fd_buffers s) \<rparr>))"

definition freeBuffer :: "u64 \<Rightarrow> FpgaDriver \<Rightarrow> bool \<times> FpgaDriver" where
  "freeBuffer dev_addr s =
     (map_of (fd_buffers s) dev_addr \<noteq> None, s\<lparr> fd_buffers := om_erase dev_addr (fd_buffers s) \<rparr>)"

definition bufferSize :: "u64 \<Rightarrow> FpgaDriver \<Rightarrow> u64" where
  "bufferSize dev_addr s = (case map_of (fd_buffers s) dev_addr of Some n \<Rightarrow> n | None \<Rightarrow> 0)"

definition writeMem :: "u64 \<Rightarrow> u8 list \<Rightarrow> FpgaDriver \<Rightarrow> (bool \<times> FpgaDriver) option" where
  "writeMem dev_addr src s =
     (case memAt dev_addr (of_nat (length src)) s of
        None \<Rightarrow> Some (False, s)
      | Some off \<Rightarrow>
          (case fd_mem s of
             None \<Rightarrow> None
           | Some bs \<Rightarrow>
               if off + length src \<le> length bs then Some (True, s\<lparr> fd_mem := Some (overwrite off src bs) \<rparr>) else None))"

definition readMem :: "u64 \<Rightarrow> nat \<Rightarrow> FpgaDriver \<Rightarrow> u8 list option option" where
  "readMem dev_addr n s =
     (case memAt dev_addr (of_nat n) s of
        None \<Rightarrow> Some None
      | Some off \<Rightarrow>
          (case fd_mem s of
             None \<Rightarrow> None
           | Some bs \<Rightarrow> if off + n \<le> length bs then Some (Some (byte_range off n bs)) else None))"

definition copyToDevice :: "u64 \<Rightarrow> u8 list \<Rightarrow> FpgaDriver \<Rightarrow> (bool \<times> FpgaDriver) option" where
  "copyToDevice dst_dev src s =
     (case map_of (fd_buffers s) dst_dev of
        None \<Rightarrow> Some (False, s)
      | Some n \<Rightarrow> if length src > unat n then Some (False, s) else writeMem dst_dev src s)"

definition copyFromDevice :: "u64 \<Rightarrow> nat \<Rightarrow> FpgaDriver \<Rightarrow> u8 list option option" where
  "copyFromDevice src_dev k s =
     (case map_of (fd_buffers s) src_dev of
        None \<Rightarrow> Some None
      | Some n \<Rightarrow> if k > unat n then Some None else readMem src_dev k s)"

section \<open>The aperture as a heap\<close>

definition fpga_sizes :: "FpgaDriver \<Rightarrow> u64 \<rightharpoonup> nat" where
  "fpga_sizes s = map_option unat \<circ> map_of (fd_buffers s)"

definition fpga_inv :: "FpgaDriver \<Rightarrow> bool" where
  "fpga_inv s \<longleftrightarrow>
     (\<exists>bs. fd_mem s = Some bs \<and> length bs = unat (fd_mem_size s)) \<and>
     unat (fd_mem_base s) + unat (fd_mem_size s) < 2 ^ 64 \<and>
     unat (fd_next_alloc s) \<le> unat (fd_mem_base s) + unat (fd_mem_size s) \<and>
     fd_mem_base s \<le> fd_next_alloc s \<and>
     (\<forall>p. map_of (fd_buffers s) p \<noteq> None \<longrightarrow> fd_mem_base s \<le> p) \<and>
     apart (fpga_sizes s) \<and> below (unat (fd_next_alloc s)) (fpga_sizes s)"

definition fpga_room :: "u64 \<Rightarrow> FpgaDriver \<Rightarrow> bool" where
  "fpga_room n s \<longleftrightarrow> unat (fd_next_alloc s) + unat n + 15 < 2 ^ 64"

text \<open>A buffer is its range of the aperture.\<close>

definition fpga_live :: "FpgaDriver \<Rightarrow> u64 \<Rightarrow> u8 list option" where
  "fpga_live s p = (case (map_of (fd_buffers s) p, fd_mem s) of
       (Some n, Some bs) \<Rightarrow> Some (byte_range (unat (p - fd_mem_base s)) (unat n) bs)
     | _ \<Rightarrow> None)"

definition fpga_h2d :: "u64 \<Rightarrow> u8 list \<Rightarrow> FpgaDriver \<Rightarrow> bool \<times> FpgaDriver" where
  "fpga_h2d p data s = (case copyToDevice p data s of Some r \<Rightarrow> r | None \<Rightarrow> (False, s))"

definition fpga_d2h :: "u64 \<Rightarrow> nat \<Rightarrow> FpgaDriver \<Rightarrow> u8 list option" where
  "fpga_d2h p k s = (case copyFromDevice p k s of Some r \<Rightarrow> r | None \<Rightarrow> None)"

lemma unat_no_wrap: "unat a + unat b < 2 ^ 64 \<Longrightarrow> unat (a + b :: u64) = unat a + unat b"
  by (subst unat_add_lem [THEN iffD1]) simp_all

text \<open>Where a registered buffer lies in the mapping.\<close>

lemma buffer_range:
  assumes "fpga_inv s" "map_of (fd_buffers s) p = Some n" "k \<le> unat n"
  obtains bs off where "fd_mem s = Some bs" "length bs = unat (fd_mem_size s)" "memAt p (of_nat k) s = Some off"
    "off = unat (p - fd_mem_base s)" "off = unat p - unat (fd_mem_base s)" "off + unat n \<le> length bs"
    "unat (fd_mem_base s) \<le> unat p"
proof -
  note inv = assms(1) [unfolded fpga_inv_def]
  obtain bs where bs: "fd_mem s = Some bs" "length bs = unat (fd_mem_size s)" using inv by blast
  have base: "fd_mem_base s \<le> p" using inv assms(2) by fastforce
  have top: "unat p + unat n \<le> unat (fd_next_alloc s)"
    using inv assms(2) by (auto simp: below_def fpga_sizes_def)
  have "unat n < 2 ^ LENGTH(64)" by (rule unsigned_less)
  then have k: "unat (of_nat k :: u64) = k" using assms(3) by (simp add: unat_of_nat)
  have e: "unat (fd_mem_base s + fd_mem_size s) = unat (fd_mem_base s) + unat (fd_mem_size s)"
    using inv by (intro unat_no_wrap) simp
  have "unat (p + of_nat k) = unat p + k"
    using top assms(3) inv k by (subst unat_no_wrap) simp_all
  then have "p + of_nat k \<le> fd_mem_base s + fd_mem_size s"
    using top assms(3) inv by (simp add: word_le_nat_alt e)
  moreover have "unat (p - fd_mem_base s) = unat p - unat (fd_mem_base s)"
    using base by (simp add: unat_sub)
  ultimately have "memAt p (of_nat k) s = Some (unat p - unat (fd_mem_base s))"
    using base bs(1) by (simp add: memAt_def not_less)
  moreover have "unat p - unat (fd_mem_base s) + unat n \<le> length bs" "unat (fd_mem_base s) \<le> unat p"
    using base top inv bs(2) by (auto simp: word_le_nat_alt)
  ultimately show thesis
    using that [OF bs(1,2)] \<open>unat (p - fd_mem_base s) = unat p - unat (fd_mem_base s)\<close> by metis
qed

lemma copies_defined:
  assumes "fpga_inv s"
  shows "copyToDevice p data s =
      Some (case fpga_live s p of
        Some bs \<Rightarrow> if length data \<le> length bs
                   then (True, s\<lparr> fd_mem := Some (overwrite (unat (p - fd_mem_base s)) data (the (fd_mem s))) \<rparr>) else (False, s)
      | None \<Rightarrow> (False, s))"
    and "copyFromDevice p k s =
      Some (case fpga_live s p of Some bs \<Rightarrow> if k \<le> length bs then Some (take k bs) else None | None \<Rightarrow> None)"
proof -
  have inv: "\<exists>bs. fd_mem s = Some bs" using assms by (auto simp: fpga_inv_def)
  show "copyToDevice p data s =
      Some (case fpga_live s p of
        Some bs \<Rightarrow> if length data \<le> length bs
                   then (True, s\<lparr> fd_mem := Some (overwrite (unat (p - fd_mem_base s)) data (the (fd_mem s))) \<rparr>) else (False, s)
      | None \<Rightarrow> (False, s))"
  proof (cases "map_of (fd_buffers s) p")
    case (Some n)
    show ?thesis
    proof (cases "length data \<le> unat n")
      case True
      obtain bs off where "fd_mem s = Some bs" "memAt p (of_nat (length data)) s = Some off"
          "off = unat (p - fd_mem_base s)" "off + unat n \<le> length bs"
        by (rule buffer_range [OF assms Some True])
      then show ?thesis using Some True by (simp add: copyToDevice_def writeMem_def fpga_live_def)
    next
      case False
      obtain bs off where "fd_mem s = Some bs" "off = unat (p - fd_mem_base s)" "off + unat n \<le> length bs"
        by (rule buffer_range [OF assms Some order_refl])
      then show ?thesis using Some False by (simp add: copyToDevice_def fpga_live_def)
    qed
  qed (use inv in \<open>auto simp: copyToDevice_def fpga_live_def\<close>)
  show "copyFromDevice p k s =
      Some (case fpga_live s p of Some bs \<Rightarrow> if k \<le> length bs then Some (take k bs) else None | None \<Rightarrow> None)"
  proof (cases "map_of (fd_buffers s) p")
    case (Some n)
    show ?thesis
    proof (cases "k \<le> unat n")
      case True
      obtain bs off where "fd_mem s = Some bs" "memAt p (of_nat k) s = Some off"
          "off = unat (p - fd_mem_base s)" "off + unat n \<le> length bs"
        by (rule buffer_range [OF assms Some True])
      then show ?thesis using Some True by (simp add: copyFromDevice_def readMem_def fpga_live_def take_byte_range)
    next
      case False
      obtain bs off where "fd_mem s = Some bs" "off = unat (p - fd_mem_base s)" "off + unat n \<le> length bs"
        by (rule buffer_range [OF assms Some order_refl])
      then show ?thesis using Some False by (simp add: copyFromDevice_def fpga_live_def)
    qed
  qed (use inv in \<open>auto simp: copyFromDevice_def fpga_live_def\<close>)
qed


lemma fpga_next:
  assumes "fpga_room n s" "n \<noteq> 0"
  shows "unat (fd_next_alloc s + align16 n) = unat (fd_next_alloc s) + unat (align16 n)"
    "unat n \<le> unat (align16 n)" "0 < unat (align16 n)"
proof -
  have r: "unat (fd_next_alloc s) + unat n + 15 < 2 ^ 64" using assms(1) by (simp add: fpga_room_def)
  then have a: "unat n \<le> unat (align16 n)" "unat (align16 n) < unat n + 16"
    using align16_bounds [of n] by linarith+
  then show "unat (fd_next_alloc s + align16 n) = unat (fd_next_alloc s) + unat (align16 n)"
    using r by (intro unat_no_wrap) simp
  show "unat n \<le> unat (align16 n)" by (fact a(1))
  show "0 < unat (align16 n)" using a(1) assms(2) by (auto simp: word_unat_eq_iff)
qed

lemma allocate_inv:
  assumes "fpga_inv s" "fpga_room n s" "allocateBuffer n s = (Some p, s')"
  shows "fpga_inv s'" "map_of (fd_buffers s) p = None" "s' = s\<lparr> fd_next_alloc := p + align16 n, fd_buffers := om_insert p n (fd_buffers s) \<rparr>"
    "fd_mem_base s \<le> p" "unat p + unat n \<le> unat (fd_mem_base s) + unat (fd_mem_size s)"
proof -
  note inv = assms(1) [unfolded fpga_inv_def]
  have n0: "n \<noteq> 0" and p: "p = fd_next_alloc s" and fits: "fd_next_alloc s + align16 n \<le> fd_mem_base s + fd_mem_size s"
    and s': "s' = s\<lparr> fd_next_alloc := fd_next_alloc s + align16 n, fd_buffers := om_insert (fd_next_alloc s) n (fd_buffers s) \<rparr>"
    using assms(3) by (auto simp: allocateBuffer_def Let_def not_less split: if_splits)
  note nx = fpga_next [OF assms(2) n0]
  have e: "unat (fd_mem_base s + fd_mem_size s) = unat (fd_mem_base s) + unat (fd_mem_size s)"
    using inv by (intro unat_no_wrap) simp
  have top: "unat (fd_next_alloc s) + unat (align16 n) \<le> unat (fd_mem_base s) + unat (fd_mem_size s)"
    using fits by (simp add: word_le_nat_alt e nx(1))
  show "s' = s\<lparr> fd_next_alloc := p + align16 n, fd_buffers := om_insert p n (fd_buffers s) \<rparr>" "fd_mem_base s \<le> p"
    "unat p + unat n \<le> unat (fd_mem_base s) + unat (fd_mem_size s)"
    using s' p inv top nx(2) by auto
  show fresh: "map_of (fd_buffers s) p = None"
    using inv below_fresh [of p unat "map_of (fd_buffers s)"] by (simp add: p fpga_sizes_def)
  have sz: "fpga_sizes s' = (fpga_sizes s)(p \<mapsto> unat n)" by (simp add: fpga_sizes_def s' p)
  have "apart (fpga_sizes s')" "below (unat (fd_next_alloc s')) (fpga_sizes s')"
    unfolding sz using inv p nx s'
    by (auto intro!: apart_insert below_insert [of "unat (fd_next_alloc s)"])
  moreover have "fd_mem_base s \<le> fd_next_alloc s'"
    using inv nx(1) by (simp add: s' word_le_nat_alt)
  ultimately show "fpga_inv s'" using inv top nx(1) by (auto simp: fpga_inv_def s')
qed

lemma live_iff: "fpga_inv s \<Longrightarrow> fpga_live s p = None \<longleftrightarrow> map_of (fd_buffers s) p = None"
  by (auto simp: fpga_live_def fpga_inv_def split: option.splits)

text \<open>Writing a buffer leaves the others alone.\<close>

lemma live_write:
  assumes "fpga_inv s" "fpga_live s p = Some bs" "length data \<le> length bs"
  shows "fpga_live (s\<lparr> fd_mem := Some (overwrite (unat (p - fd_mem_base s)) data (the (fd_mem s))) \<rparr>)
    = (fpga_live s)(p \<mapsto> data @ drop (length data) bs)"
proof (rule ext)
  fix q
  obtain n where n: "map_of (fd_buffers s) p = Some n" using assms(2) by (auto simp: fpga_live_def split: option.splits)
  obtain mem off where m: "fd_mem s = Some mem" "off = unat (p - fd_mem_base s)" "off = unat p - unat (fd_mem_base s)"
      "off + unat n \<le> length mem" "unat (fd_mem_base s) \<le> unat p"
    by (rule buffer_range [OF assms(1) n order_refl])
  have bs: "bs = byte_range off (unat n) mem" using assms(2) n m by (simp add: fpga_live_def)
  then have len: "length data \<le> unat n" using assms(3) m(4) by simp
  show "fpga_live (s\<lparr> fd_mem := Some (overwrite (unat (p - fd_mem_base s)) data (the (fd_mem s))) \<rparr>) q
      = ((fpga_live s)(p \<mapsto> data @ drop (length data) bs)) q"
  proof (cases "map_of (fd_buffers s) q")
    case None
    then show ?thesis using n by (auto simp: fpga_live_def)
  next
    case (Some k)
    obtain mem' off' where q': "fd_mem s = Some mem'" "off' = unat (q - fd_mem_base s)" "off' = unat q - unat (fd_mem_base s)"
        "off' + unat k \<le> length mem'" "unat (fd_mem_base s) \<le> unat q"
      by (rule buffer_range [OF assms(1) Some order_refl])
    then have q: "off' = unat (q - fd_mem_base s)" "off' = unat q - unat (fd_mem_base s)" "off' + unat k \<le> length mem"
        "unat (fd_mem_base s) \<le> unat q"
      using m(1) by simp_all
    show ?thesis
    proof (cases "q = p")
      case True
      then show ?thesis using n m(1,4) len
        by (simp add: fpga_live_def bs m(2) [symmetric] byte_range_overwrite_same)
    next
      case False
      have "unat p + unat n \<le> unat q \<or> unat q + unat k \<le> unat p"
        using assms(1) n Some False by (intro apartD [of "fpga_sizes s"]) (auto simp: fpga_inv_def fpga_sizes_def)
      then have "off + length data \<le> off' \<or> off' + unat k \<le> off"
        using m(3,5) q(2,4) len by linarith
      then show ?thesis using False n Some m(1,4) q(3) len
        by (simp add: fpga_live_def m(2) [symmetric] q(1) [symmetric] byte_range_overwrite_other)
    qed
  qed
qed

interpretation fpga: device_heap fpga_inv fpga_live fpga_room allocateBuffer freeBuffer fpga_h2d fpga_d2h
proof
  fix s s' :: FpgaDriver and n p :: u64 and r ok data k
  assume inv: "fpga_inv s"
  show "fpga_inv s'" if "fpga_room n s" "allocateBuffer n s = (r, s')"
    using that inv allocate_inv(1) [OF inv]
    by (cases r) (auto simp: allocateBuffer_def Let_def split: if_splits)
  show "fpga_live s p = None \<and> (\<exists>bs. length bs = unat n \<and> fpga_live s' = (fpga_live s)(p \<mapsto> bs))"
    if room: "fpga_room n s" and e: "allocateBuffer n s = (Some p, s')"
  proof -
    note a = allocate_inv [OF inv room e]
    obtain bs off where m: "fd_mem s' = Some bs" "off = unat (p - fd_mem_base s')" "off + unat n \<le> length bs"
      by (rule buffer_range [OF a(1), of p n "unat n"]) (simp_all add: a(3))
    then have "fpga_live s' = (fpga_live s)(p \<mapsto> byte_range off (unat n) bs)"
      by (intro ext) (auto simp: fpga_live_def a(3) split: option.splits)
    with m a(2) show ?thesis by (intro conjI exI [of _ "byte_range off (unat n) bs"]) (simp_all add: fpga_live_def)
  qed
  show "fpga_live s' = fpga_live s" if "fpga_room n s" "allocateBuffer n s = (None, s')"
    using that by (auto simp: allocateBuffer_def Let_def split: if_splits)
  show "fpga_inv s'" if "freeBuffer p s = (ok, s')"
  proof -
    have "fpga_sizes s' = (fpga_sizes s)(p := None)" using that by (auto simp: freeBuffer_def fpga_sizes_def)
    then show ?thesis using that inv by (auto simp: freeBuffer_def fpga_inv_def apart_erase below_erase split: if_splits)
  qed
  show "ok = (fpga_live s p \<noteq> None) \<and> fpga_live s' = (fpga_live s)(p := None)" if "freeBuffer p s = (ok, s')"
  proof -
    have "fpga_live s' = (fpga_live s)(p := None)"
      by (rule ext) (use that in \<open>auto simp: freeBuffer_def fpga_live_def split: option.splits if_splits\<close>)
    then show ?thesis using that live_iff [OF inv] by (auto simp: freeBuffer_def)
  qed
  show "fpga_inv s'" if "fpga_h2d p data s = (ok, s')"
  proof (cases "fpga_live s p")
    case (Some bs)
    then obtain n where n: "map_of (fd_buffers s) p = Some n" by (auto simp: fpga_live_def split: option.splits)
    obtain mem off where m: "fd_mem s = Some mem" "off = unat (p - fd_mem_base s)" "off + unat n \<le> length mem"
      by (rule buffer_range [OF inv n order_refl])
    have "length bs = unat n" using Some n m by (auto simp: fpga_live_def)
    then show ?thesis
      using that inv Some m by (auto simp: fpga_h2d_def copies_defined(1) [OF inv] fpga_inv_def fpga_sizes_def split: if_splits)
  qed (use that inv in \<open>simp add: fpga_h2d_def copies_defined(1)\<close>)
  show "case fpga_live s p of
      None \<Rightarrow> \<not> ok \<and> fpga_live s' = fpga_live s
    | Some bs \<Rightarrow> ok = (length data \<le> length bs) \<and>
        fpga_live s' = (if ok then (fpga_live s)(p \<mapsto> data @ drop (length data) bs) else fpga_live s)"
    if "fpga_h2d p data s = (ok, s')"
    using that live_write [OF inv, of p _ data]
    by (auto simp: fpga_h2d_def copies_defined(1) [OF inv] split: option.splits if_splits)
  show "fpga_d2h p k s = (case fpga_live s p of
      None \<Rightarrow> None | Some bs \<Rightarrow> if k \<le> length bs then Some (take k bs) else None)"
    by (simp add: fpga_d2h_def copies_defined(2) [OF inv] split: option.splits)
qed


section \<open>Properties\<close>

lemma open_inv:
  assumes "fd_open config os s = (True, s')" "os_mem_map os = Some bs" "length bs = unat (fc_mem_map_size config)"
    and "unat (fc_mem_map_offset config) + unat (fc_mem_map_size config) < 2 ^ 64"
  shows "fpga_inv s'"
proof -
  have h: "unat (min kDataHeapOffset (fc_mem_map_size config div 2)) \<le> unat (fc_mem_map_size config)"
    by (auto simp: min_def unat_div_distrib word_le_nat_alt intro: order_trans [OF _ div_le_dividend])
  then have "unat (fc_mem_map_offset config + min kDataHeapOffset (fc_mem_map_size config div 2)) =
      unat (fc_mem_map_offset config) + unat (min kDataHeapOffset (fc_mem_map_size config div 2))"
    using assms(4) by (intro unat_no_wrap) simp
  then show ?thesis
    using assms h by (auto simp: fd_open_def fpga_inv_def fpga_sizes_def apart_def below_def word_le_nat_alt Let_def
        split: if_splits)
qed

definition fpga_run :: "heap_op list \<Rightarrow> FpgaDriver \<Rightarrow> FpgaDriver option" where
  "fpga_run = run_heap fpga_room (heap_step allocateBuffer freeBuffer fpga_h2d)"

text \<open>C31: on an aperture that does not wrap around the address space, after any history of releases, copies and
  allocations that do not wrap either, a copy to or from a buffer never leaves the mapped aperture, and a copy to a buffer
  changes no byte outside of it. An allocation does not wrap when its size, the next free address and the 15 bytes of
  rounding stay below \<open>2 ^ 64\<close> (\<open>fpga_room\<close>, which \<open>fpga_run\<close> asks of every allocation of the history): the driver
  checks a size only after rounding and adding it in 64 bits, and accepts one that wraps.\<close>

theorem fpga_copies_in_bounds:
  assumes "fd_open config os s0 = (True, s1)" "os_mem_map os = Some bs" "length bs = unat (fc_mem_map_size config)"
    and "unat (fc_mem_map_offset config) + unat (fc_mem_map_size config) < 2 ^ 64" "fpga_run ops s1 = Some s"
  shows "copyFromDevice p k s \<noteq> None \<and> copyToDevice p data s \<noteq> None \<and>
    (fst (the (copyToDevice p data s)) \<longrightarrow>
      (\<exists>n. map_of (fd_buffers s) p = Some n \<and> length data \<le> unat n \<and>
        (\<forall>i < length (the (fd_mem s)). i \<notin> {unat p - unat (fd_mem_base s) ..< unat p - unat (fd_mem_base s) + unat n} \<longrightarrow>
           the (fd_mem (snd (the (copyToDevice p data s)))) ! i = the (fd_mem s) ! i)))"
proof -
  have inv: "fpga_inv s"
    using fpga.run_inv [OF open_inv [OF assms(1-4)]] assms(5) unfolding fpga_run_def by blast
  have "\<exists>n. map_of (fd_buffers s) p = Some n \<and> length data \<le> unat n \<and>
      (\<forall>i < length (the (fd_mem s)). i \<notin> {unat p - unat (fd_mem_base s) ..< unat p - unat (fd_mem_base s) + unat n} \<longrightarrow>
         the (fd_mem (snd (the (copyToDevice p data s)))) ! i = the (fd_mem s) ! i)"
    if ok: "fst (the (copyToDevice p data s))"
  proof -
    obtain n where n: "map_of (fd_buffers s) p = Some n"
      using ok by (auto simp: copyToDevice_def split: option.splits)
    obtain mem off where m: "fd_mem s = Some mem" "off = unat (p - fd_mem_base s)" "off = unat p - unat (fd_mem_base s)"
        "off + unat n \<le> length mem"
      by (rule buffer_range [OF inv n order_refl])
    have len: "length data \<le> unat n" using ok n by (auto simp: copyToDevice_def split: if_splits)
    then have "the (fd_mem (snd (the (copyToDevice p data s)))) = overwrite off data mem"
      using n m by (simp add: copies_defined(1) [OF inv] fpga_live_def)
    then show ?thesis using n m len by (auto simp: nth_overwrite)
  qed
  then show ?thesis using copies_defined [OF inv] by simp
qed

text \<open>A request close to the size of the address space is rounded up to zero bytes: it is granted, and takes
  nothing from the aperture, so the next allocation gets the same address.\<close>

theorem huge_buffer_aliases:
  assumes "2 ^ 64 \<le> unat n + 15" "fpga_inv s"
  shows "fst (allocateBuffer n s) = Some (fd_next_alloc s) \<and>
    bufferSize (fd_next_alloc s) (snd (allocateBuffer n s)) = n \<and>
    fd_next_alloc (snd (allocateBuffer n s)) = fd_next_alloc s"
proof -
  have lt: "unat n < 2 ^ 64" using unsigned_less [of n] by simp
  have "unat (n + 15) = (unat n + 15) mod 2 ^ 64" by (simp add: unat_word_ariths)
  also have "\<dots> = (unat n + 15 - 2 ^ 64) mod 2 ^ 64" using assms(1) by (rule le_mod_geq)
  also have "\<dots> = unat n + 15 - 2 ^ 64" using lt by (intro mod_less) simp
  finally have "unat (n + 15) < 16" using lt by linarith
  then have "unat ((n + 15) div 16) = 0" by (simp add: unat_div_distrib)
  then have a: "align16 n = 0" by (simp add: align16_def unat_eq_0)
  have "n \<noteq> 0" using assms(1) by auto
  moreover have "unat (fd_mem_base s + fd_mem_size s) = unat (fd_mem_base s) + unat (fd_mem_size s)"
    using assms(2) by (intro unat_no_wrap) (simp add: fpga_inv_def)
  then have "fd_next_alloc s \<le> fd_mem_base s + fd_mem_size s"
    using assms(2) by (simp add: fpga_inv_def word_le_nat_alt)
  ultimately show ?thesis using a by (simp add: allocateBuffer_def bufferSize_def not_less)
qed

section \<open>Witnesses\<close>

definition small_window :: os_answers where
  "small_window = \<lparr> os_reg_fd = True, os_reg_map = Some (kDeviceId # replicate 7 0), os_mem_fd = True,
     os_mem_map = Some (replicate 64 0) \<rparr>"

definition small_config :: FpgaDriverConfig where
  "small_config = \<lparr> fc_mem_map_offset = 0x60000000, fc_mem_map_size = 64, fc_skip_id_check = False \<rparr>"

definition small_fpga :: FpgaDriver where
  "small_fpga = \<lparr> fd_reg_fd = True, fd_mem_fd = True, fd_regs = os_reg_map small_window, fd_mem = os_mem_map small_window,
     fd_mem_base = 0x60000000, fd_mem_size = 64, fd_next_alloc = 0x60000020, fd_buffers = [] \<rparr>"

lemma small_open: "fd_open small_config small_window FpgaDriver_default = (True, small_fpga)"
  by (simp add: fd_open_def small_config_def small_window_def small_fpga_def fd_close_def FpgaDriver_default_def Let_def
      readReg_def REG_ID_def kDataHeapOffset_def min_def)

lemma small_inv: "fpga_inv small_fpga"
  by (rule open_inv [OF small_open, of "replicate 64 0"]) (simp_all add: small_window_def small_config_def)

theorem fpga_copies_in_bounds_witness:
  "\<exists>s. fpga_run [Malloc 5] small_fpga = Some s \<and> copyToDevice 0x60000020 [1, 2, 3] s \<noteq> None \<and>
     fst (the (copyToDevice 0x60000020 [1, 2, 3] s))"
proof -
  define s where "s = small_fpga\<lparr> fd_next_alloc := 0x60000030, fd_buffers := [(0x60000020, 5)] \<rparr>"
  have r: "fpga_run [Malloc 5] small_fpga = Some s"
    by (simp add: fpga_run_def fpga_room_def small_fpga_def s_def allocateBuffer_def align16_def)
  have "copyToDevice 0x60000020 [1, 2, 3] s \<noteq> None"
    using fpga_copies_in_bounds [OF small_open _ _ _ r, of "replicate 64 0" "0x60000020" 0 "[1, 2, 3]"]
    by (simp add: small_window_def small_config_def)
  moreover have "fst (the (copyToDevice 0x60000020 [1, 2, 3] s))"
    by (simp add: copyToDevice_def writeMem_def memAt_def s_def small_fpga_def small_window_def)
  ultimately show ?thesis using r by blast
qed

theorem huge_buffer_aliases_witness:
  "fst (allocateBuffer 0xFFFFFFFFFFFFFFF8 small_fpga) = Some 0x60000020 \<and>
   fd_next_alloc (snd (allocateBuffer 0xFFFFFFFFFFFFFFF8 small_fpga)) = 0x60000020"
  using huge_buffer_aliases [OF _ small_inv, of "0xFFFFFFFFFFFFFFF8"] by (simp add: small_fpga_def)

end
