(* ===== verification/FpgaElf.thy ===== *)
theory FpgaElf
  imports ElfLoader FpgaDriver
begin

text \<open>
  The ELF loader of the board: \<open>driver/src/fpga_elf_loader.cpp\<close>. It writes the segments into the mapped aperture, reads
  the first bytes back and sets the start address. The structures are those of \<open>ElfLoader\<close>. A result \<open>None\<close> is an
  access outside of the mapping, and the inner option is the entry point, present when the call succeeds. The property
  compares it with the loader of the simulator.
\<close>

section \<open>Model\<close>

definition EM_RISCV :: u16 where "EM_RISCV = 243"
definition kVerifyBytes :: nat where "kVerifyBytes = 16"

definition fpga_read_back :: "u8 list \<Rightarrow> Elf32_Phdr \<Rightarrow> FpgaDriver \<Rightarrow> (bool \<times> FpgaDriver) option" where
  "fpga_read_back buf ph s =
     (let verify = min kVerifyBytes (unat (p_filesz ph)) in
      if verify > 0 then
        map_option (\<lambda>r. (r = Some (byte_range (unat (p_offset ph)) verify buf), s)) (readMem (ucast (p_vaddr ph)) verify s)
      else Some (True, s))"

definition fpga_zero_fill :: "Elf32_Phdr \<Rightarrow> FpgaDriver \<Rightarrow> (bool \<times> FpgaDriver) option" where
  "fpga_zero_fill ph s =
     (if p_memsz ph > p_filesz ph then
        writeMem (ucast (p_vaddr ph + p_filesz ph)) (replicate (unat (p_memsz ph - p_filesz ph)) 0) s
      else Some (True, s))"

definition fpga_file_bytes :: "u8 list \<Rightarrow> Elf32_Phdr \<Rightarrow> FpgaDriver \<Rightarrow> (bool \<times> FpgaDriver) option" where
  "fpga_file_bytes buf ph s =
     (if p_filesz ph > 0 then
        writeMem (ucast (p_vaddr ph)) (byte_range (unat (p_offset ph)) (unat (p_filesz ph)) buf) s
      else Some (True, s))"

text \<open>One step after the other; the first that fails ends the call.\<close>

definition and_then :: "(FpgaDriver \<Rightarrow> (bool \<times> FpgaDriver) option) \<Rightarrow> (FpgaDriver \<Rightarrow> (bool \<times> FpgaDriver) option) \<Rightarrow>
    FpgaDriver \<Rightarrow> (bool \<times> FpgaDriver) option" where
  "and_then f g s = Option.bind (f s) (\<lambda>(ok, s'). if ok then g s' else Some (False, s'))"

definition fpga_load_segment :: "u8 list \<Rightarrow> Elf32_Phdr \<Rightarrow> FpgaDriver \<Rightarrow> (bool \<times> FpgaDriver) option" where
  "fpga_load_segment buf ph s =
     (if p_type ph \<noteq> PT_LOAD \<or> p_memsz ph = 0 then Some (True, s)
      else if unat (p_offset ph) + unat (p_filesz ph) > length buf then Some (False, s)
      else and_then (fpga_file_bytes buf ph) (and_then (fpga_zero_fill ph) (fpga_read_back buf ph)) s)"

text \<open>The offset of program header \<open>i\<close>, on \<open>size_t\<close>.\<close>

definition fpga_phdr_offset :: "Elf32_Ehdr \<Rightarrow> nat \<Rightarrow> nat" where
  "fpga_phdr_offset eh i = unat (e_phoff eh) + i * unat (e_phentsize eh)"

fun fpga_load_segments :: "u8 list \<Rightarrow> Elf32_Ehdr \<Rightarrow> nat list \<Rightarrow> FpgaDriver \<Rightarrow> (bool \<times> FpgaDriver) option" where
  "fpga_load_segments buf eh [] s = Some (True, s)"
| "fpga_load_segments buf eh (i # is) s =
     (if fpga_phdr_offset eh i + phdr_size > length buf then Some (False, s)
      else and_then (fpga_load_segment buf (phdr_at buf (fpga_phdr_offset eh i))) (fpga_load_segments buf eh is) s)"

definition loadElfToFpga :: "u8 list \<Rightarrow> FpgaDriver \<Rightarrow> (u32 option \<times> FpgaDriver) option" where
  "loadElfToFpga buf s =
     (if \<not> isOpen s then Some (None, s)
      else if length buf < ehdr_size then Some (None, s)
      else let eh = ehdr_at buf in
        if \<not> elf_magic buf then Some (None, s)
        else if buf ! 4 \<noteq> 1 then Some (None, s)
        else if e_machine eh \<noteq> EM_RISCV then Some (None, s)
        else if e_phoff eh = 0 \<or> e_phnum eh = 0 then Some (None, s)
        else Option.bind (fpga_load_segments buf eh [0..<unat (e_phnum eh)] s) (\<lambda>(ok, s).
          if \<not> ok then Some (None, s)
          else map_option (\<lambda>s. (Some (e_entry eh), s)) (writeReg REG_PC_INIT (e_entry eh) s)))"

definition loadElfFileToFpga :: "u8 list option \<Rightarrow> FpgaDriver \<Rightarrow> (u32 option \<times> FpgaDriver) option" where
  "loadElfFileToFpga file s = (case file of None \<Rightarrow> Some (None, s) | Some buf \<Rightarrow> loadElfToFpga buf s)"

section \<open>The two loaders leave the same memory\<close>

text \<open>The aperture and the simulated memory hold the same bytes; no byte of the aperture is in the shared window.\<close>

definition mirrors :: "FpgaDriver \<Rightarrow> gmemory \<Rightarrow> bool" where
  "mirrors s m \<longleftrightarrow>
     (\<exists>bs. fd_mem s = Some bs \<and> length bs = unat (fd_mem_size s) \<and>
        (\<forall>i < length bs. gReadByte (fd_mem_base s + of_nat i) m = bs ! i \<and>
           \<not> gIsSharedMemoryAddress m (fd_mem_base s + of_nat i))) \<and>
     unat (fd_mem_base s) + unat (fd_mem_size s) < 2 ^ 32"

text \<open>A write that the board accepts.\<close>

lemma writeMem_range:
  assumes "writeMem a data s = Some (True, s')" "mirrors s m" "unat a < 2 ^ 32" "length data < 2 ^ 32"
  obtains bs where "fd_mem s = Some bs" "length bs = unat (fd_mem_size s)" "fd_mem_base s \<le> a"
    "unat (a - fd_mem_base s) = unat a - unat (fd_mem_base s)"
    "unat a + length data \<le> unat (fd_mem_base s) + length bs"
    "s' = s\<lparr> fd_mem := Some (overwrite (unat a - unat (fd_mem_base s)) data bs) \<rparr>"
proof -
  obtain bs where bs: "fd_mem s = Some bs" "length bs = unat (fd_mem_size s)"
      "unat (fd_mem_base s) + unat (fd_mem_size s) < 2 ^ 32"
    using assms(2) unfolding mirrors_def by blast
  obtain off where off: "memAt a (of_nat (length data)) s = Some off" "s' = s\<lparr> fd_mem := Some (overwrite off data bs) \<rparr>"
    using assms(1) bs(1) by (auto simp: writeMem_def split: option.splits if_splits)
  then have r: "fd_mem_base s \<le> a" "a + of_nat (length data) \<le> fd_mem_base s + fd_mem_size s"
      "off = unat (a - fd_mem_base s)"
    by (auto simp: memAt_def not_less split: if_splits)
  have l: "unat (of_nat (length data) :: u64) = length data" using assms(4) by (simp add: unat_of_nat)
  have "unat (a + of_nat (length data)) = unat a + length data"
    using assms(3,4) l by (subst unat_no_wrap) simp_all
  moreover have "unat (fd_mem_base s + fd_mem_size s) = unat (fd_mem_base s) + unat (fd_mem_size s)"
    using bs(3) by (intro unat_no_wrap) simp
  ultimately have "unat a + length data \<le> unat (fd_mem_base s) + length bs"
    using r(2) bs(2) by (simp add: word_le_nat_alt)
  moreover have "unat (a - fd_mem_base s) = unat a - unat (fd_mem_base s)" using r(1) by (simp add: unat_sub)
  ultimately show thesis using that [OF bs(1,2) r(1)] off(2) r(3) by simp
qed

lemma unat_diff_less:
  assumes "unat a < 2 ^ 32" "k \<le> 2 ^ 32"
  shows "unat (x - a :: u64) < k \<longleftrightarrow> unat a \<le> unat x \<and> unat x < unat a + k"
  using assms by (auto simp: unat_sub_if_size word_size)

text \<open>A write to the aperture and a write of the same bytes to the simulated memory.\<close>

lemma mirrors_write:
  assumes w: "writeMem a data s = Some (True, s')" and m: "mirrors s m" and a: "unat a < 2 ^ 32"
    and len: "length data < 2 ^ 32" and ne: "data \<noteq> []"
    and r: "\<And>x. gReadByte x m' = (if unat (x - a) < length data then data ! unat (x - a) else gReadByte x m)"
    and sh: "\<And>x. gIsSharedMemoryAddress m' x = gIsSharedMemoryAddress m x"
  shows "mirrors s' m'"
proof -
  obtain bs where bs: "fd_mem s = Some bs" "length bs = unat (fd_mem_size s)" "fd_mem_base s \<le> a"
      "unat (a - fd_mem_base s) = unat a - unat (fd_mem_base s)"
      "unat a + length data \<le> unat (fd_mem_base s) + length bs"
      "s' = s\<lparr> fd_mem := Some (overwrite (unat a - unat (fd_mem_base s)) data bs) \<rparr>"
    by (rule writeMem_range [OF w m a len])
  have ab: "unat (fd_mem_base s) \<le> unat a" using bs(3) by (simp add: word_le_nat_alt)
  have small: "unat (fd_mem_base s) + length bs < 2 ^ 32" using m bs(2) by (simp add: mirrors_def)
  have fits: "unat a - unat (fd_mem_base s) + length data \<le> length bs" using bs(5) ab by simp
  have byte: "gReadByte (fd_mem_base s + of_nat i) m' = overwrite (unat a - unat (fd_mem_base s)) data bs ! i"
    if i: "i < length bs" for i
  proof -
    let ?x = "fd_mem_base s + of_nat i"
    have ui: "unat (of_nat i :: u64) = i" using i small by (simp add: unat_of_nat)
    have x: "unat ?x = unat (fd_mem_base s) + i"
      using i small ui by (subst unat_no_wrap) simp_all
    have old: "gReadByte ?x m = bs ! i" using m i bs(1) by (auto simp: mirrors_def)
    show ?thesis
    proof (cases "unat (?x - a) < length data")
      case True
      then have "unat a \<le> unat ?x" "unat ?x < unat a + length data"
        using unat_diff_less [OF a, of "length data" ?x] len by simp_all
      moreover from this have "unat (?x - a) = unat ?x - unat a" by (simp add: unat_sub word_le_nat_alt)
      ultimately show ?thesis
        using True r [of ?x] x ab nth_overwrite [OF fits i] by (auto simp: le_diff_conv add.commute)
    next
      case False
      then have "\<not> (unat a \<le> unat ?x \<and> unat ?x < unat a + length data)"
        using unat_diff_less [OF a, of "length data" ?x] len by simp
      then have "\<not> (unat a - unat (fd_mem_base s) \<le> i \<and> i < unat a - unat (fd_mem_base s) + length data)"
        using x ab by linarith
      then show ?thesis using False r [of ?x] old nth_overwrite [OF fits i] by auto
    qed
  qed
  have "\<not> gIsSharedMemoryAddress m' (fd_mem_base s + of_nat i)" if "i < length bs" for i
    using m that bs(1) sh by (auto simp: mirrors_def)
  then show ?thesis
    unfolding mirrors_def using byte fits bs(2) small by (simp add: bs(6))
qed

text \<open>The start of an accepted write is not in the shared window.\<close>

lemma writeMem_not_shared:
  assumes w: "writeMem a data s = Some (True, s')" "mirrors s m" "unat a < 2 ^ 32" "length data < 2 ^ 32" "data \<noteq> []"
  shows "\<not> gStartsShared a m"
proof -
  obtain bs where bs: "fd_mem s = Some bs" "fd_mem_base s \<le> a"
      "unat (a - fd_mem_base s) = unat a - unat (fd_mem_base s)"
      "unat a + length data \<le> unat (fd_mem_base s) + length bs"
    by (rule writeMem_range [OF assms(1-4)])
  have "0 < length data" using assms(5) by simp
  moreover have "unat (fd_mem_base s) \<le> unat a" using bs(2) by (simp add: word_le_nat_alt)
  ultimately have "unat (a - fd_mem_base s) < length bs" using bs(3,4) by linarith
  moreover have "fd_mem_base s + of_nat (unat (a - fd_mem_base s)) = a" by simp
  ultimately have "\<not> gIsSharedMemoryAddress m a" using assms(2) bs(1) unfolding mirrors_def by (metis option.inject)
  then show ?thesis by (simp add: gStartsShared_def)
qed

lemma bss_fill_shared [simp]: "gIsSharedMemoryAddress (bss_fill v f n m) x = gIsSharedMemoryAddress m x"
proof -
  have "gIsSharedMemoryAddress (fold (\<lambda>b. gWriteBytes (ucast (v + of_nat b)) [0] 0) bl m) x = gIsSharedMemoryAddress m x" for bl
    by (induction bl arbitrary: m) simp_all
  then show ?thesis by (simp add: bss_fill_def)
qed

text \<open>Zero-filling byte by byte writes a range of zeros.\<close>

lemma bss_fill_read:
  assumes "unat (v + f) + (unat n - unat f) < 2 ^ 32" "f < n"
    and ns: "\<And>i. i < unat n - unat f \<Longrightarrow> \<not> gStartsShared (ucast (v + f) + of_nat i) m"
  shows "gReadByte x (bss_fill v f n m) = (if unat (x - ucast (v + f)) < unat (n - f) then 0 else gReadByte x m)"
proof -
  let ?w = "ucast (v + f) :: u64" and ?F = "\<lambda>k. fold (\<lambda>b. gWriteBytes (ucast (v + of_nat b)) [0] 0) [unat f ..< unat f + k] m"
  have fn: "unat f < unat n" using assms(2) by (simp add: word_less_nat_alt)
  have nf: "unat (n - f) = unat n - unat f" using fn by (simp add: unat_sub word_le_nat_alt)
  have small: "unat (of_nat k :: u32) = k" "unat (of_nat k :: u64) = k" if "k < unat n - unat f" for k
    using that assms(1) by (simp_all add: unat_of_nat)
  have at: "ucast (v + of_nat (unat f + k)) = ?w + of_nat k" "unat (?w + of_nat k) = unat (v + f) + k"
    if k: "k < unat n - unat f" for k
  proof -
    have "unat ((v + f) + of_nat k) = unat (v + f) + k"
      using k assms(1) small [OF k] by (subst unat_add_lem [THEN iffD1]) simp_all
    moreover show u: "unat (?w + of_nat k) = unat (v + f) + k"
      using k assms(1) small [OF k] by (subst unat_no_wrap) simp_all
    ultimately show "ucast (v + of_nat (unat f + k)) = ?w + of_nat k"
      by (simp add: word_unat_eq_iff add.assoc)
  qed
  have upto: "gReadByte x (?F k) = (if unat ?w \<le> unat x \<and> unat x < unat ?w + k then 0 else gReadByte x m)
      \<and> (\<forall>y. gIsSharedMemoryAddress (?F k) y = gIsSharedMemoryAddress m y)"
    if "k \<le> unat n - unat f" for k
    using that
  proof (induction k)
    case 0
    then show ?case by auto
  next
    case (Suc k)
    let ?a = "?w + of_nat k"
    have a: "unat ?a = unat ?w + k" "ucast (v + of_nat (unat f + k)) = ?a" using at Suc.prems by simp_all
    have "unat ?a < 2 ^ 32" using a Suc.prems assms(1) by simp
    then have eq: "unat (x - ?a) < 1 \<longleftrightarrow> unat x = unat ?w + k"
      using unat_diff_less [of ?a 1 x] a by auto
    have "\<not> gStartsShared ?a (?F k)"
      using ns [of k] Suc by (simp add: gStartsShared_def)
    then have "gReadByte x (gWriteBytes ?a [0] 0 (?F k)) = (if unat x = unat ?w + k then 0 else gReadByte x (?F k))"
      using eq by (auto simp: read_write_bytes)
    moreover have "?F (Suc k) = gWriteBytes ?a [0] 0 (?F k)" using a(2) by simp
    ultimately show ?case using Suc by (auto simp: less_Suc_eq)
  qed
  have "unat (x - ?w) < unat n - unat f \<longleftrightarrow> unat ?w \<le> unat x \<and> unat x < unat ?w + (unat n - unat f)"
    using assms(1) by (intro unat_diff_less) simp_all
  then show ?thesis using upto [of "unat n - unat f"] fn by (simp add: bss_fill_def nf)
qed

lemma u32_less: "unat (w :: u32) < 2 ^ 32"
proof -
  have "unat w < 2 ^ LENGTH(32)" by (rule unsigned_less)
  then show ?thesis by simp
qed

lemma file_bytes_mirror:
  assumes "fpga_file_bytes buf ph s = Some (True, s')" "mirrors s m"
    and "unat (p_offset ph) + unat (p_filesz ph) \<le> length buf"
  shows "mirrors s' (if p_filesz ph > 0
    then gWriteBytes (ucast (p_vaddr ph)) (byte_range (unat (p_offset ph)) (unat (p_filesz ph)) buf) 0 m else m)"
proof (cases "p_filesz ph > 0")
  case True
  let ?d = "byte_range (unat (p_offset ph)) (unat (p_filesz ph)) buf" and ?a = "ucast (p_vaddr ph) :: u64"
  have w: "writeMem ?a ?d s = Some (True, s')" using assms(1) True by (simp add: fpga_file_bytes_def)
  have len: "length ?d = unat (p_filesz ph)" using assms(3) by simp
  have l: "length ?d < 2 ^ 32" unfolding len by (rule u32_less)
  have ne: "?d \<noteq> []" using len True by (auto simp: word_gt_0 unat_eq_0 simp flip: length_0_conv)
  have a: "unat ?a < 2 ^ 32" unfolding unat_ucast_64 by (rule u32_less)
  have "\<not> gStartsShared ?a m" by (rule writeMem_not_shared [OF w assms(2) a l ne])
  then have "mirrors s' (gWriteBytes ?a ?d 0 m)"
    using l by (intro mirrors_write [OF w assms(2) a l ne]) (simp_all add: read_write_bytes)
  then show ?thesis using True by simp
next
  case False
  then show ?thesis using assms by (simp add: fpga_file_bytes_def)
qed

lemma zero_fill_mirror:
  assumes "fpga_zero_fill ph s = Some (True, s')" "mirrors s m"
  shows "mirrors s' (bss_fill (p_vaddr ph) (p_filesz ph) (p_memsz ph) m)"
proof (cases "p_memsz ph > p_filesz ph")
  case True
  let ?n = "unat (p_memsz ph - p_filesz ph)" and ?a = "ucast (p_vaddr ph + p_filesz ph) :: u64"
  have n: "?n = unat (p_memsz ph) - unat (p_filesz ph)" "0 < ?n"
    using True by (simp_all add: unat_sub word_less_nat_alt word_le_nat_alt)
  have w: "writeMem ?a (replicate ?n 0) s = Some (True, s')" using assms(1) True by (simp add: fpga_zero_fill_def)
  have l: "length (replicate ?n (0 :: u8)) < 2 ^ 32" using u32_less [of "p_memsz ph - p_filesz ph"] by simp
  have ne: "replicate ?n (0 :: u8) \<noteq> []" using n(2) by simp
  have a: "unat ?a < 2 ^ 32" unfolding unat_ucast_64 by (rule u32_less)
  obtain bs where bs: "fd_mem s = Some bs" "length bs = unat (fd_mem_size s)" "fd_mem_base s \<le> ?a"
      "unat (?a - fd_mem_base s) = unat ?a - unat (fd_mem_base s)"
      "unat ?a + length (replicate ?n (0 :: u8)) \<le> unat (fd_mem_base s) + length bs"
    by (rule writeMem_range [OF w assms(2) a l])
  have small: "unat (fd_mem_base s) + length bs < 2 ^ 32" using assms(2) bs(2) by (simp add: mirrors_def)
  have ab: "unat (fd_mem_base s) \<le> unat ?a" using bs(3) by (simp add: word_le_nat_alt)
  have "\<not> gStartsShared (?a + of_nat i) m" if i: "i < unat (p_memsz ph) - unat (p_filesz ph)" for i
  proof -
    have "unat ?a - unat (fd_mem_base s) + i < length bs" using i n bs(5) ab by simp
    then have "\<not> gIsSharedMemoryAddress m (fd_mem_base s + of_nat (unat (?a - fd_mem_base s) + i))"
      using assms(2) bs(1,4) by (auto simp: mirrors_def)
    moreover have "fd_mem_base s + of_nat (unat (?a - fd_mem_base s) + i) = ?a + of_nat i" by simp
    ultimately show ?thesis by (simp add: gStartsShared_def)
  qed
  moreover have "unat (p_vaddr ph + p_filesz ph) + (unat (p_memsz ph) - unat (p_filesz ph)) < 2 ^ 32"
    using bs(5) small n(1) by simp
  ultimately have "gReadByte x (bss_fill (p_vaddr ph) (p_filesz ph) (p_memsz ph) m) =
      (if unat (x - ?a) < ?n then 0 else gReadByte x m)" for x
    using True by (intro bss_fill_read) simp_all
  then show ?thesis by (intro mirrors_write [OF w assms(2) a l ne]) simp_all
next
  case False
  then have "unat (p_memsz ph) \<le> unat (p_filesz ph)" by (simp add: not_less word_le_nat_alt)
  then show ?thesis using assms False by (simp add: fpga_zero_fill_def bss_fill_def)
qed

lemma and_then_true: "and_then f g s = Some (True, s') \<longleftrightarrow> (\<exists>s1. f s = Some (True, s1) \<and> g s1 = Some (True, s'))"
  by (auto simp: and_then_def bind_eq_Some_conv split: if_splits)

lemma segment_mirror:
  assumes "fpga_load_segment buf ph s = Some (True, s')" "mirrors s m"
  shows "mirrors s' (snd (load_segment buf ph (l, m)))"
proof (cases "p_type ph \<noteq> PT_LOAD \<or> p_memsz ph = 0")
  case False
  then obtain s1 s2 where s: "fpga_file_bytes buf ph s = Some (True, s1)" "fpga_zero_fill ph s1 = Some (True, s2)"
      "fpga_read_back buf ph s2 = Some (True, s')" and r: "unat (p_offset ph) + unat (p_filesz ph) \<le> length buf"
    using assms(1) by (auto simp: fpga_load_segment_def and_then_true split: if_splits)
  have "s' = s2" using s(3) by (auto simp: fpga_read_back_def Let_def split: if_splits)
  then show ?thesis
    using zero_fill_mirror [OF s(2) file_bytes_mirror [OF s(1) assms(2) r]] False r
    by (auto simp: load_segment_def Let_def)
qed (use assms in \<open>auto simp: fpga_load_segment_def load_segment_def\<close>)

lemma segments_mirror:
  assumes "fpga_load_segments buf eh is s = Some (True, s')" "mirrors s (snd lm)" "length buf < 2 ^ 32"
  shows "mirrors s' (snd (load_segments buf eh is lm))"
  using assms(1,2)
proof (induction "is" arbitrary: s lm)
  case (Cons i "is")
  obtain s1 where b: "fpga_phdr_offset eh i + phdr_size \<le> length buf"
      and s1: "fpga_load_segment buf (phdr_at buf (fpga_phdr_offset eh i)) s = Some (True, s1)"
        "fpga_load_segments buf eh is s1 = Some (True, s')"
    using Cons.prems(1) by (auto simp: and_then_true split: if_splits)
  have "unat (e_phoff eh) + i * unat (e_phentsize eh) < 2 ^ 32" using b assms(3) by (simp add: fpga_phdr_offset_def)
  moreover have "unat (e_phentsize eh) < 2 ^ LENGTH(16)" by (rule unsigned_less)
  then have "unat (ucast (e_phentsize eh) :: u32) = unat (e_phentsize eh)"
    by (simp add: unsigned_ucast_eq take_bit_nat_eq_self)
  ultimately have "phdr_offset eh i = fpga_phdr_offset eh i"
    by (simp add: phdr_offset_def fpga_phdr_offset_def unat_word_ariths unat_of_nat mod_simps)
  then show ?case
    using Cons.IH [OF s1(2)] segment_mirror [OF s1(1), of "snd lm" "fst lm"] Cons.prems(2) b by simp
qed simp

lemma loadElfToFpga_success:
  assumes "loadElfToFpga buf s = Some (Some entry, s')"
  obtains s1 where "ehdr_size \<le> length buf" "elf_magic buf" "buf ! 4 = 1" "entry = e_entry (ehdr_at buf)"
    "fpga_load_segments buf (ehdr_at buf) [0..<unat (e_phnum (ehdr_at buf))] s = Some (True, s1)"
    "writeReg REG_PC_INIT (e_entry (ehdr_at buf)) s1 = Some s'"
proof -
  have hdr: "\<not> length buf < ehdr_size" "elf_magic buf" "buf ! 4 = 1"
    and b: "Option.bind (fpga_load_segments buf (ehdr_at buf) [0..<unat (e_phnum (ehdr_at buf))] s) (\<lambda>(ok, s).
          if \<not> ok then Some (None, s)
          else map_option (\<lambda>s. (Some (e_entry (ehdr_at buf)), s)) (writeReg REG_PC_INIT (e_entry (ehdr_at buf)) s))
      = Some (Some entry, s')"
    using assms unfolding loadElfToFpga_def Let_def by (simp_all split: if_split_asm)
  obtain ok s1 where s1: "fpga_load_segments buf (ehdr_at buf) [0..<unat (e_phnum (ehdr_at buf))] s = Some (ok, s1)"
    using b by (cases "fpga_load_segments buf (ehdr_at buf) [0..<unat (e_phnum (ehdr_at buf))] s") auto
  show thesis
    by (rule that [of s1]) (use hdr b s1 in \<open>auto split: if_splits\<close>)
qed

section \<open>Properties\<close>

text \<open>C15: a kernel that the board loads is the kernel that the simulator loads, up to its symbols. When the load of a file
  below 4 GiB into the aperture succeeds, then in the simulator, started from the same bytes over an aperture that ends
  below 4 GiB and lies outside of its shared window (\<open>mirrors\<close>), the file passes every check, its
  segments leave the same entry point and the same bytes at every address of the aperture, and the load succeeds with
  them exactly when its symbol parser gets through the file. The board does not look at symbols, and the parser has no
  error result: on a bad symbol table it reads outside of the file (\<open>elf_symbols\<close> is \<open>None\<close>, and then so is the load).\<close>

theorem elf_loaders_agree:
  assumes "loadElfToFpga buf s = Some (Some entry, s')" "mirrors s m" "length buf < 2 ^ 32"
  shows "case elf_segments buf (l, m) of (l1, m1) \<Rightarrow> el_entry_point l1 = entry \<and> mirrors s' m1 \<and>
    elf_load (Some buf) (l, m) = map_option (\<lambda>syms. (True, l1\<lparr> el_symbols := syms \<rparr>, m1)) (elf_symbols buf (el_symbols l))"
proof -
  define lm where "lm = (l\<lparr> el_entry_point := e_entry (ehdr_at buf), el_text_base := 0xFFFFFFFF, el_text_end := 0 \<rparr>, m)"
  let ?r = "load_segments buf (ehdr_at buf) [0..<unat (e_phnum (ehdr_at buf))] lm"
  obtain s1 where hdr: "ehdr_size \<le> length buf" "elf_magic buf" "buf ! 4 = 1" and e: "entry = e_entry (ehdr_at buf)"
      and s1: "fpga_load_segments buf (ehdr_at buf) [0..<unat (e_phnum (ehdr_at buf))] s = Some (True, s1)"
      and r: "writeReg REG_PC_INIT (e_entry (ehdr_at buf)) s1 = Some s'"
    by (rule loadElfToFpga_success [OF assms(1)])
  have "mirrors s1 (snd ?r)"
    using assms(2) by (intro segments_mirror [OF s1 _ assms(3)]) (simp add: lm_def)
  moreover have "mirrors s' = mirrors s1"
    using r by (auto simp: writeReg_def mirrors_def fun_eq_iff split: option.splits if_splits)
  moreover have "el_entry_point (fst (load_segments buf eh is lm)) = el_entry_point (fst lm)" for eh "is" lm
  proof (induction "is" arbitrary: lm)
    case (Cons i "is")
    have "el_entry_point (fst (load_segment buf ph lm)) = el_entry_point (fst lm)" for ph
      by (cases lm) (simp add: load_segment_def Let_def)
    then show ?case using Cons by simp
  qed simp
  moreover have "el_symbols (fst ?r) = el_symbols l" unfolding load_segments_symbols by (simp add: lm_def)
  moreover have "elf_segments buf (l, m) = ?r" by (simp add: elf_segments_def lm_def Let_def)
  ultimately show ?thesis using e hdr by (simp add: elf_load_def lm_def not_less split_def Let_def)
qed

section \<open>Witnesses\<close>

text \<open>A kernel of one instruction (\<open>ret\<close>) and four bytes of zeros at 0x60000010, for the board with 64 bytes.\<close>

definition tiny_elf :: "u8 list" where
  "tiny_elf = [127, 69, 76, 70, 1, 1, 1, 0, 0, 0, 0, 0, 0, 0, 0, 0, 2, 0, 243, 0, 1, 0, 0, 0, 16, 0, 0, 96, 52, 0, 0, 0, 0,
     0, 0, 0, 0, 0, 0, 0, 52, 0, 32, 0, 1, 0, 40, 0, 0, 0, 0, 0, 1, 0, 0, 0, 84, 0, 0, 0, 16, 0, 0, 96, 16, 0, 0,
     96, 4, 0, 0, 0, 8, 0, 0, 0, 5, 0, 0, 0, 4, 0, 0, 0, 103, 128, 0, 0]"

lemma tiny_header: "length tiny_elf = 88" "elf_magic tiny_elf" "tiny_elf ! 4 = 1" "e_machine (ehdr_at tiny_elf) = 243"
    "e_phoff (ehdr_at tiny_elf) = 52" "e_phnum (ehdr_at tiny_elf) = 1" "e_entry (ehdr_at tiny_elf) = 0x60000010"
    "e_shoff (ehdr_at tiny_elf) = 0"
  by (simp_all add: tiny_elf_def elf_magic_def ehdr_at_def le16_def le32_def join_word_def)

lemma tiny_segment: "phdr_at tiny_elf 52 = \<lparr> p_type = 1, p_offset = 84, p_vaddr = 0x60000010, p_paddr = 0x60000010,
    p_filesz = 4, p_memsz = 8, p_flags = 5, p_align = 4 \<rparr>"
  "byte_range 84 4 tiny_elf = [0x67, 0x80, 0, 0]"
  by (simp_all add: tiny_elf_def phdr_at_def le32_def join_word_def byte_range_def)

lemma small_mirrors: "mirrors small_fpga gmemory0"
proof -
  have "\<not> gIsSharedMemoryAddress gmemory0 (0x60000000 + of_nat i)" if "i < 64" for i
  proof -
    have "unat (of_nat i :: u64) = i" using that by (simp add: unat_of_nat)
    then have "unat (0x60000000 + of_nat i :: u64) = 0x60000000 + i"
      using that by (subst unat_no_wrap) simp_all
    then show ?thesis
      by (simp add: gIsSharedMemoryAddress_def gmemory0_def SHARED_MEM_BASE_def word_less_nat_alt)
  qed
  then show ?thesis
    by (simp add: mirrors_def small_fpga_def small_window_def gReadByte_def gmemory0_def)
qed

lemma tiny_load: "\<exists>s'. loadElfToFpga tiny_elf small_fpga = Some (Some 0x60000010, s')"
proof -
  have "[0..<Suc 0] = [0]" by simp
  then show ?thesis
    by (simp add: loadElfToFpga_def isOpen_def Let_def tiny_header tiny_segment ehdr_size_def EM_RISCV_def
        fpga_phdr_offset_def phdr_size_def and_then_def fpga_load_segment_def PT_LOAD_def fpga_file_bytes_def
        fpga_zero_fill_def fpga_read_back_def kVerifyBytes_def writeMem_def readMem_def memAt_def small_fpga_def
        small_window_def overwrite_def byte_range_def writeReg_def REG_PC_INIT_def)
qed

theorem elf_loaders_agree_witness:
  "\<exists>s' l' m'. loadElfToFpga tiny_elf small_fpga = Some (Some 0x60000010, s') \<and>
     elf_load (Some tiny_elf) (ElfLoader_init, gmemory0) = Some (True, l', m') \<and> el_entry_point l' = 0x60000010 \<and> mirrors s' m'"
proof -
  obtain s' where s': "loadElfToFpga tiny_elf small_fpga = Some (Some 0x60000010, s')" using tiny_load by blast
  have "elf_symbols tiny_elf syms = Some syms" for syms by (simp add: elf_symbols_def tiny_header Let_def)
  then show ?thesis
    using elf_loaders_agree [OF s' small_mirrors, of ElfLoader_init] tiny_header(1) s'
    by (cases "elf_segments tiny_elf (ElfLoader_init, gmemory0)") simp
qed

text \<open>The same file with a symbol table that lies outside of it: the board takes it, the simulator reads out of bounds.\<close>

definition bad_symbols_elf :: "u8 list" where
  "bad_symbols_elf = tiny_elf[32 := 88, 48 := 1] @
     [0, 0, 0, 0, 2, 0, 0, 0, 0, 0, 0, 0, 0, 0, 0, 0, 255, 255, 0, 0, 16, 0, 0, 0, 0, 0, 0, 0, 0, 0, 0, 0, 0, 0, 0, 0, 16, 0, 0, 0]"

lemma bad_symbols_shape:
  "length bad_symbols_elf = 128" "elf_magic bad_symbols_elf" "bad_symbols_elf ! 4 = 1"
  "e_machine (ehdr_at bad_symbols_elf) = 243" "e_phoff (ehdr_at bad_symbols_elf) = 52"
  "e_phnum (ehdr_at bad_symbols_elf) = 1" "e_entry (ehdr_at bad_symbols_elf) = 0x60000010"
  "phdr_at bad_symbols_elf 52 = phdr_at tiny_elf 52" "byte_range 84 4 bad_symbols_elf = [0x67, 0x80, 0, 0]"
  by (simp_all add: bad_symbols_elf_def tiny_elf_def elf_magic_def ehdr_at_def phdr_at_def le16_def le32_def join_word_def
      byte_range_def)

lemma bad_symbols_outside: "elf_symbols bad_symbols_elf syms = None"
proof -
  have h: "e_shoff (ehdr_at bad_symbols_elf) = 88" "e_shnum (ehdr_at bad_symbols_elf) = 1"
    by (simp_all add: bad_symbols_elf_def tiny_elf_def ehdr_at_def le16_def le32_def join_word_def)
  have s: "shdr_at bad_symbols_elf 88 = \<lparr> sh_name = 0, sh_type = 2, sh_flags = 0, sh_addr = 0, sh_offset = 65535,
      sh_size = 16, sh_link = 0, sh_info = 0, sh_addralign = 0, sh_entsize = 16 \<rparr>"
    by (simp add: bad_symbols_elf_def tiny_elf_def shdr_at_def le32_def join_word_def)
  have "[0..<Suc 0] = [0]" by simp
  then show ?thesis
    by (simp add: elf_symbols_def h s Let_def shdr_offset_def shdr_size_def bad_symbols_shape load_section_def
        SHT_SYMTAB_def symbol_loop.simps sym_size_def)
qed

lemma bad_symbols_disagree:
  "\<exists>s'. loadElfToFpga bad_symbols_elf small_fpga = Some (Some 0x60000010, s')"
  "elf_load (Some bad_symbols_elf) lm = None"
proof -
  have "[0..<Suc 0] = [0]" by simp
  then show "\<exists>s'. loadElfToFpga bad_symbols_elf small_fpga = Some (Some 0x60000010, s')"
    by (simp add: loadElfToFpga_def isOpen_def Let_def bad_symbols_shape tiny_segment ehdr_size_def EM_RISCV_def
        fpga_phdr_offset_def phdr_size_def and_then_def fpga_load_segment_def PT_LOAD_def fpga_file_bytes_def
        fpga_zero_fill_def fpga_read_back_def kVerifyBytes_def writeMem_def readMem_def memAt_def small_fpga_def
        small_window_def overwrite_def writeReg_def REG_PC_INIT_def) (simp add: byte_range_def)
  have "elf_symbols bad_symbols_elf syms = None" for syms by (rule bad_symbols_outside)
  then show "elf_load (Some bad_symbols_elf) lm = None"
    by (simp add: elf_load_def bad_symbols_shape ehdr_size_def split_def Let_def)
qed

end
