(* ===== verification/Driver.thy ===== *)
theory Driver
  imports DeviceHeap
begin

text \<open>
  The driver of the prototype: \<open>driver/src/loader.{h,cpp}\<close> in the build without \<open>FPGA_TARGET\<close>. The
  file-scope variables are the record \<open>driver\<close>. A host range of bytes is the list of its bytes. Whether the
  host grants the memory of a new buffer is the argument \<open>host_alloc\<close>; when it does not, the exception leaves the
  address assigned and an empty buffer behind, as in the code. Logging is left out.
\<close>

section \<open>Model\<close>

record KernelLaunchArgs =
  la_kernel_name :: string
  la_entry_symbol :: string
  la_grid_x :: u32
  la_grid_y :: u32
  la_grid_z :: u32
  la_block_x :: u32
  la_block_y :: u32
  la_block_z :: u32
  la_args :: "u64 list"
  la_shared_mem_bytes :: u32

definition KernelLaunchArgs_default :: KernelLaunchArgs where
  "KernelLaunchArgs_default = \<lparr> la_kernel_name = [], la_entry_symbol = [], la_grid_x = 1, la_grid_y = 1, la_grid_z = 1,
     la_block_x = 1, la_block_y = 1, la_block_z = 1, la_args = [], la_shared_mem_bytes = 0 \<rparr>"

definition gridCount :: "KernelLaunchArgs \<Rightarrow> u64" where
  "gridCount la = ucast (la_grid_x la) * ucast (la_grid_y la) * ucast (la_grid_z la)"
definition blockCount :: "KernelLaunchArgs \<Rightarrow> u64" where
  "blockCount la = ucast (la_block_x la) * ucast (la_block_y la) * ucast (la_block_z la)"
definition totalThreads :: "KernelLaunchArgs \<Rightarrow> u64" where
  "totalThreads la = gridCount la * blockCount la"

datatype ExecState = IDLE | CONFIGURED | RUNNING | COMPLETED | FAILED

record driver =
  dv_device_buffers :: "(u64, u8 list) omap"
  dv_next_dev_addr :: u64
  dv_kernel_binary_path :: string
  dv_launch_args :: KernelLaunchArgs
  dv_launch_configured :: bool
  dv_exec_state :: ExecState

definition driver_init :: driver where
  "driver_init = \<lparr> dv_device_buffers = [], dv_next_dev_addr = 0x10000000, dv_kernel_binary_path = [],
     dv_launch_args = KernelLaunchArgs_default, dv_launch_configured = False, dv_exec_state = IDLE \<rparr>"

definition loadKernelBinary :: "string \<Rightarrow> driver \<Rightarrow> bool \<times> driver" where
  "loadKernelBinary path d = (True, d\<lparr> dv_kernel_binary_path := path, dv_exec_state := IDLE \<rparr>)"

subsection \<open>Device buffers\<close>

datatype alloc_result = Allocated u64 | Refused | HostOutOfMemory

definition allocateDeviceBuffer :: "(u64 \<Rightarrow> bool) \<Rightarrow> u64 \<Rightarrow> driver \<Rightarrow> alloc_result \<times> driver" where
  "allocateDeviceBuffer host_alloc sz d =
     (if sz = 0 then (Refused, d)
      else
        let dev_ptr = dv_next_dev_addr d;
            d = d\<lparr> dv_next_dev_addr := dv_next_dev_addr d + align16 sz \<rparr>
        in if host_alloc sz then
             (Allocated dev_ptr,
              d\<lparr> dv_device_buffers := om_insert dev_ptr (replicate (unat sz) 0) (dv_device_buffers d) \<rparr>)
           else
             (HostOutOfMemory,
              d\<lparr> dv_device_buffers := om_insert dev_ptr
                   (case map_of (dv_device_buffers d) dev_ptr of Some bs \<Rightarrow> bs | None \<Rightarrow> []) (dv_device_buffers d) \<rparr>))"

definition freeDeviceBuffer :: "u64 \<Rightarrow> driver \<Rightarrow> bool \<times> driver" where
  "freeDeviceBuffer dev_ptr d =
     (if map_of (dv_device_buffers d) dev_ptr = None then (False, d)
      else (True, d\<lparr> dv_device_buffers := om_erase dev_ptr (dv_device_buffers d) \<rparr>))"

definition copyHostToDevice :: "u64 \<Rightarrow> u8 list \<Rightarrow> driver \<Rightarrow> bool \<times> driver" where
  "copyHostToDevice dst_dev src d =
     (case map_of (dv_device_buffers d) dst_dev of
        None \<Rightarrow> (False, d)
      | Some bs \<Rightarrow>
          if length src > length bs then (False, d)
          else (True, d\<lparr> dv_device_buffers := om_insert dst_dev (src @ drop (length src) bs) (dv_device_buffers d) \<rparr>))"

text \<open>The bytes copied to the host; \<open>None\<close> when the call returns false and leaves the host range alone.\<close>

definition copyDeviceToHost :: "u64 \<Rightarrow> nat \<Rightarrow> driver \<Rightarrow> u8 list option" where
  "copyDeviceToHost src_dev sz d =
     (case map_of (dv_device_buffers d) src_dev of
        None \<Rightarrow> None
      | Some bs \<Rightarrow> if sz > length bs then None else Some (take sz bs))"

definition getDeviceBufferContent :: "u64 \<Rightarrow> driver \<Rightarrow> u8 list option" where
  "getDeviceBufferContent dev_ptr d = map_of (dv_device_buffers d) dev_ptr"

definition setDeviceBufferContent :: "u64 \<Rightarrow> u8 list \<Rightarrow> driver \<Rightarrow> bool \<times> driver" where
  "setDeviceBufferContent dev_ptr data d =
     (case map_of (dv_device_buffers d) dev_ptr of
        None \<Rightarrow> (False, d)
      | Some bs \<Rightarrow>
          if length data \<noteq> length bs then (False, d)
          else (True, d\<lparr> dv_device_buffers := om_insert dev_ptr data (dv_device_buffers d) \<rparr>))"

definition getDeviceBufferSize :: "u64 \<Rightarrow> driver \<Rightarrow> nat" where
  "getDeviceBufferSize dev_ptr d = (case map_of (dv_device_buffers d) dev_ptr of Some bs \<Rightarrow> length bs | None \<Rightarrow> 0)"

definition getAllocatedDeviceBufferAddresses :: "driver \<Rightarrow> u64 list" where
  "getAllocatedDeviceBufferAddresses d = map fst (dv_device_buffers d)"

subsection \<open>Kernel launch\<close>

definition configureLaunch :: "KernelLaunchArgs \<Rightarrow> driver \<Rightarrow> bool \<times> driver" where
  "configureLaunch la d =
     (True, d\<lparr> dv_launch_args := la, dv_launch_configured := True, dv_exec_state := CONFIGURED \<rparr>)"

definition beginKernelExecution :: "driver \<Rightarrow> bool \<times> driver" where
  "beginKernelExecution d =
     (if \<not> dv_launch_configured d \<or> dv_exec_state d \<noteq> CONFIGURED then (False, d\<lparr> dv_exec_state := FAILED \<rparr>)
      else (True, d\<lparr> dv_exec_state := RUNNING \<rparr>))"

definition finishKernelExecution :: "bool \<Rightarrow> driver \<Rightarrow> bool \<times> driver" where
  "finishKernelExecution success d =
     (if dv_exec_state d \<noteq> RUNNING \<and> dv_exec_state d \<noteq> CONFIGURED then (False, d\<lparr> dv_exec_state := FAILED \<rparr>)
      else (success, d\<lparr> dv_exec_state := (if success then COMPLETED else FAILED) \<rparr>))"

definition startKernel :: "driver \<Rightarrow> bool \<times> driver" where
  "startKernel d =
     (let (ok, d) = beginKernelExecution d in if \<not> ok then (False, d) else finishKernelExecution True d)"

definition queryKernelStatus :: "driver \<Rightarrow> string" where
  "queryKernelStatus d = (case dv_exec_state d of
       IDLE \<Rightarrow> ''IDLE'' | CONFIGURED \<Rightarrow> ''CONFIGURED'' | RUNNING \<Rightarrow> ''RUNNING'' | COMPLETED \<Rightarrow> ''COMPLETED''
     | FAILED \<Rightarrow> ''FAILED'')"

definition pollKernelCompletion :: "driver \<Rightarrow> bool" where
  "pollKernelCompletion d \<longleftrightarrow> dv_exec_state d = COMPLETED"

definition configureKernel :: "string \<Rightarrow> u64 list \<Rightarrow> driver \<Rightarrow> bool \<times> driver" where
  "configureKernel name args d =
     configureLaunch (KernelLaunchArgs_default\<lparr> la_kernel_name := name, la_args := args \<rparr>) d"

definition getCurrentLaunchArgs :: "driver \<Rightarrow> KernelLaunchArgs option" where
  "getCurrentLaunchArgs d = (if \<not> dv_launch_configured d then None else Some (dv_launch_args d))"

section \<open>The buffers as a heap\<close>

definition buffer_sizes :: "driver \<Rightarrow> u64 \<rightharpoonup> nat" where
  "buffer_sizes d = map_option length \<circ> map_of (dv_device_buffers d)"

definition driver_inv :: "driver \<Rightarrow> bool" where
  "driver_inv d \<longleftrightarrow> om_sorted (dv_device_buffers d) \<and> apart (buffer_sizes d) \<and>
     below (unat (dv_next_dev_addr d)) (buffer_sizes d)"

definition driver_room :: "(u64 \<Rightarrow> bool) \<Rightarrow> u64 \<Rightarrow> driver \<Rightarrow> bool" where
  "driver_room host_alloc sz d \<longleftrightarrow> host_alloc sz \<and> unat (dv_next_dev_addr d) + unat sz + 15 < 2 ^ 64"

definition driver_alloc :: "(u64 \<Rightarrow> bool) \<Rightarrow> u64 \<Rightarrow> driver \<Rightarrow> u64 option \<times> driver" where
  "driver_alloc host_alloc sz d =
     (let (r, d') = allocateDeviceBuffer host_alloc sz d in (case r of Allocated p \<Rightarrow> Some p | _ \<Rightarrow> None, d'))"

lemma driver_next:
  assumes "driver_room host_alloc sz d"
  shows "unat (dv_next_dev_addr d) + unat sz \<le> unat (dv_next_dev_addr d + align16 sz)"
    "sz \<noteq> 0 \<Longrightarrow> unat (dv_next_dev_addr d) < unat (dv_next_dev_addr d + align16 sz)"
proof -
  have r: "unat (dv_next_dev_addr d) + unat sz + 15 < 2 ^ 64" using assms by (simp add: driver_room_def)
  then have a: "unat sz \<le> unat (align16 sz)" "unat (align16 sz) < unat sz + 16"
    using align16_bounds [of sz] by linarith+
  then have "unat (dv_next_dev_addr d + align16 sz) = unat (dv_next_dev_addr d) + unat (align16 sz)"
    using r by (subst unat_add_lem [THEN iffD1]) simp_all
  then show "unat (dv_next_dev_addr d) + unat sz \<le> unat (dv_next_dev_addr d + align16 sz)"
    "sz \<noteq> 0 \<Longrightarrow> unat (dv_next_dev_addr d) < unat (dv_next_dev_addr d + align16 sz)"
    using a by (auto simp: word_unat_eq_iff)
qed

interpretation drv: device_heap driver_inv "\<lambda>d. map_of (dv_device_buffers d)" "driver_room host_alloc"
    "driver_alloc host_alloc" freeDeviceBuffer copyHostToDevice copyDeviceToHost
  for host_alloc
proof
  fix d d' :: driver and n p :: u64 and r ok data k
  assume inv: "driver_inv d"
  note ub = inv [unfolded driver_inv_def buffer_sizes_def]
  show "driver_inv d'" if room: "driver_room host_alloc n d" and e: "driver_alloc host_alloc n d = (r, d')"
  proof (cases "n = 0")
    case False
    have "host_alloc n" using room by (simp add: driver_room_def)
    then have d': "dv_device_buffers d' = om_insert (dv_next_dev_addr d) (replicate (unat n) 0) (dv_device_buffers d)"
        "dv_next_dev_addr d' = dv_next_dev_addr d + align16 n"
      using e False by (auto simp: driver_alloc_def allocateDeviceBuffer_def Let_def)
    note nx = driver_next [OF room]
    show ?thesis
      using ub below_insert [of "unat (dv_next_dev_addr d)" _ "dv_next_dev_addr d" "unat n" "unat (dv_next_dev_addr d')"]
        nx(1) nx(2) [OF False]
      by (simp add: driver_inv_def buffer_sizes_def d' om_sorted_insert apart_insert)
  qed (use e inv in \<open>simp add: driver_alloc_def allocateDeviceBuffer_def\<close>)
  show "map_of (dv_device_buffers d) p = None \<and>
      (\<exists>bs. length bs = unat n \<and> map_of (dv_device_buffers d') = (map_of (dv_device_buffers d))(p \<mapsto> bs))"
    if room: "driver_room host_alloc n d" and e: "driver_alloc host_alloc n d = (Some p, d')"
  proof -
    have "host_alloc n" using room by (simp add: driver_room_def)
    then have d': "dv_device_buffers d' = om_insert p (replicate (unat n) 0) (dv_device_buffers d)" "p = dv_next_dev_addr d"
      using e by (auto simp: driver_alloc_def allocateDeviceBuffer_def Let_def split: if_splits)
    have "map_of (dv_device_buffers d) p = None"
      using ub below_fresh [of p length "map_of (dv_device_buffers d)"] by (simp add: d'(2))
    then show ?thesis using d'(1) by (auto intro!: exI [of _ "replicate (unat n) 0"])
  qed
  show "map_of (dv_device_buffers d') = map_of (dv_device_buffers d)"
    if "driver_room host_alloc n d" "driver_alloc host_alloc n d = (None, d')"
    using that by (auto simp: driver_alloc_def allocateDeviceBuffer_def driver_room_def Let_def split: if_splits)
  show "driver_inv d'" if "freeDeviceBuffer p d = (ok, d')"
    using that ub by (auto simp: freeDeviceBuffer_def driver_inv_def buffer_sizes_def om_sorted_erase apart_erase below_erase
        split: if_splits)
  show "ok = (map_of (dv_device_buffers d) p \<noteq> None) \<and> map_of (dv_device_buffers d') = (map_of (dv_device_buffers d))(p := None)"
    if "freeDeviceBuffer p d = (ok, d')"
    using that by (auto simp: freeDeviceBuffer_def split: if_splits)
  show "driver_inv d'" if "copyHostToDevice p data d = (ok, d')"
  proof (cases "map_of (dv_device_buffers d) p")
    case (Some bs)
    then have "(map_option length \<circ> map_of (dv_device_buffers d))(p \<mapsto> length bs) = map_option length \<circ> map_of (dv_device_buffers d)"
      by (intro ext) simp
    then show ?thesis
      using that ub Some
      by (auto simp: copyHostToDevice_def driver_inv_def buffer_sizes_def om_sorted_insert split: if_splits)
  qed (use that inv in \<open>simp add: copyHostToDevice_def\<close>)
  show "case map_of (dv_device_buffers d) p of
      None \<Rightarrow> \<not> ok \<and> map_of (dv_device_buffers d') = map_of (dv_device_buffers d)
    | Some bs \<Rightarrow> ok = (length data \<le> length bs) \<and> map_of (dv_device_buffers d') =
        (if ok then (map_of (dv_device_buffers d))(p \<mapsto> data @ drop (length data) bs) else map_of (dv_device_buffers d))"
    if "copyHostToDevice p data d = (ok, d')"
    using that by (auto simp: copyHostToDevice_def split: option.splits if_splits)
  show "copyDeviceToHost p k d = (case map_of (dv_device_buffers d) p of
      None \<Rightarrow> None | Some bs \<Rightarrow> if k \<le> length bs then Some (take k bs) else None)"
    by (auto simp: copyDeviceToHost_def split: option.splits)
qed


lemma driver_init_inv: "driver_inv driver_init"
  by (simp add: driver_inv_def driver_init_def om_sorted_def buffer_sizes_def apart_def below_def)

section \<open>Properties\<close>

text \<open>Any sequence of allocations, releases and copies of the prototype driver.\<close>

definition driver_run :: "(u64 \<Rightarrow> bool) \<Rightarrow> heap_op list \<Rightarrow> driver \<Rightarrow> driver option" where
  "driver_run host_alloc = run_heap (driver_room host_alloc)
     (heap_step (driver_alloc host_alloc) freeDeviceBuffer copyHostToDevice)"

text \<open>Device memory of the prototype. After any history of allocations, releases and copies, what a successful
  host-to-device copy wrote is what a device-to-host copy of the same length reads, whatever is allocated, freed or
  copied elsewhere in between.\<close>

theorem device_copy_round_trip:
  assumes "driver_run host_alloc before driver_init = Some d" "copyHostToDevice p data d = (True, d1)"
    and "driver_run host_alloc after d1 = Some d2" "list_all (\<lambda>x. \<not> touches p x) after"
  shows "copyDeviceToHost p (length data) d2 = Some data"
proof -
  have "driver_inv d"
    using drv.run_inv [OF driver_init_inv] assms(1) unfolding driver_run_def by blast
  then show ?thesis
    using drv.copy_round_trip [of d p data d1 host_alloc after d2] assms(2-4)
    by (simp add: driver_run_def list_all_iff)
qed

text \<open>The calls that drive a launch.\<close>

datatype launch_call = Load string | Configure KernelLaunchArgs | Begin | Finish bool | Start

fun launch_step :: "launch_call \<Rightarrow> driver \<Rightarrow> bool \<times> driver" where
  "launch_step (Load path) d = loadKernelBinary path d"
| "launch_step (Configure la) d = configureLaunch la d"
| "launch_step Begin d = beginKernelExecution d"
| "launch_step (Finish ok) d = finishKernelExecution ok d"
| "launch_step Start d = startKernel d"

fun launch_trace :: "launch_call list \<Rightarrow> driver \<Rightarrow> (launch_call \<times> bool) list \<times> driver" where
  "launch_trace [] d = ([], d)"
| "launch_trace (c # cs) d =
     (let (ok, d1) = launch_step c d; (tr, d2) = launch_trace cs d1 in ((c, ok) # tr, d2))"

definition configures :: "(launch_call \<times> bool) list \<Rightarrow> nat" where
  "configures tr = length (filter (\<lambda>(c, ok). case c of Configure la \<Rightarrow> True | _ \<Rightarrow> False) tr)"

definition executions :: "(launch_call \<times> bool) list \<Rightarrow> nat" where
  "executions tr = length (filter (\<lambda>(c, ok). ok \<and> (c = Begin \<or> c = Start)) tr)"

lemma launch_budget:
  "launch_trace cs d = (tr, d') \<Longrightarrow>
   executions tr + of_bool (dv_exec_state d' = CONFIGURED) \<le> configures tr + of_bool (dv_exec_state d = CONFIGURED)"
proof (induction cs arbitrary: d tr)
  case (Cons c cs)
  obtain ok d1 where s: "launch_step c d = (ok, d1)" by fastforce
  obtain tr1 where t: "launch_trace cs d1 = (tr1, d')" "tr = (c, ok) # tr1"
    using Cons.prems s by (auto split: prod.splits)
  have "of_bool (ok \<and> (c = Begin \<or> c = Start)) + of_bool (dv_exec_state d1 = CONFIGURED) \<le>
      (of_bool (case c of Configure la \<Rightarrow> True | _ \<Rightarrow> False) + of_bool (dv_exec_state d = CONFIGURED) :: nat)"
    using s by (cases c) (auto simp: loadKernelBinary_def configureLaunch_def beginKernelExecution_def
        finishKernelExecution_def startKernel_def Let_def split: if_splits)
  then show ?case using Cons.IH [OF t(1)] by (auto simp: t(2) executions_def configures_def split: if_splits)
qed (simp add: executions_def configures_def)

text \<open>A configured launch is executed at most once: over any sequence of calls, the successful starts are no more
  than the configurations.\<close>

theorem launch_executes_once:
  "executions (fst (launch_trace cs driver_init)) \<le> configures (fst (launch_trace cs driver_init))"
  using launch_budget [of cs driver_init] by (cases "launch_trace cs driver_init") (simp add: driver_init_def)

section \<open>Witnesses\<close>

theorem device_copy_round_trip_witness:
  "\<exists>d1 d2. copyHostToDevice 0x10000010 [1, 2, 3]
      (the (driver_run (\<lambda>_. True) [Malloc 4, Malloc 3] driver_init)) = (True, d1) \<and>
    driver_run (\<lambda>_. True) [CopyIn 0x10000000 [9, 9, 9, 9], Malloc 100, Free 0x10000000] d1 = Some d2 \<and>
    copyDeviceToHost 0x10000010 3 d2 = Some [1, 2, 3]"
proof -
  note defs = driver_run_def driver_room_def driver_alloc_def allocateDeviceBuffer_def align16_def copyHostToDevice_def
    freeDeviceBuffer_def om_erase_def
  have rep: "replicate 4 x = [x, x, x, x]" "replicate 3 x = [x, x, x]" for x :: u8 by (simp_all add: eval_nat_numeral)
  define d where "d = driver_init\<lparr> dv_device_buffers := [(0x10000000, [0, 0, 0, 0]), (0x10000010, [0, 0, 0])],
    dv_next_dev_addr := 0x10000020 \<rparr>"
  have d: "driver_run (\<lambda>_. True) [Malloc 4, Malloc 3] driver_init = Some d"
    by (simp add: d_def driver_init_def defs rep)
  define d1 where "d1 = d\<lparr> dv_device_buffers := [(0x10000000, [0, 0, 0, 0]), (0x10000010, [1, 2, 3])] \<rparr>"
  have d1: "copyHostToDevice 0x10000010 [1, 2, 3] d = (True, d1)"
    by (simp add: d1_def d_def defs)
  obtain d2 where d2: "driver_run (\<lambda>_. True) [CopyIn 0x10000000 [9, 9, 9, 9], Malloc 100, Free 0x10000000] d1 = Some d2"
    by (simp add: d1_def d_def defs)
  have "copyDeviceToHost 0x10000010 (length [1, 2, 3 :: u8]) d2 = Some [1, 2, 3]"
    by (rule device_copy_round_trip [OF d d1 d2]) (simp add: touches_def)
  with d d1 d2 show ?thesis by (auto simp: eval_nat_numeral)
qed

end
