(* ===== verification/KernelBridge.thy ===== *)
theory KernelBridge
  imports ElfLoader Driver GoldenTop
begin

text \<open>
  The bridge between the driver and the golden model: \<open>KernelBridge::runOnHardware\<close> of
  \<open>models/systemc/integration/kernel_bridge.{h,cpp}\<close>. It loads the ELF file and the device buffers into a fresh
  memory, makes one compute unit per thread, runs them step by step under one of two schedulers, releases barriers and
  copies the buffers back. The files of the host are an argument. A run is \<open>None\<close> when it never returns,
  \<open>HostTrap\<close> when the host process traps or reads outside of the file, and \<open>Finished\<close> otherwise. The messages of
  \<open>lastError\<close> are the values of \<open>bridge_error\<close>. A mean or a factor, which the code rounds to a double, is the
  pair of its two operands. Logging, the debug traces and the names of the simulation modules are left out.
\<close>

section \<open>Configuration and statistics\<close>

record BridgeConfig =
  bc_num_compute_units :: u32
  bc_threads_per_warp :: u32
  bc_max_warps_per_cu :: u32
  bc_shared_mem_size :: u32
  bc_l1_cache_size :: u32
  bc_l2_cache_size :: u32
  bc_max_sim_cycles :: u32
  bc_print_stats :: bool

definition BridgeConfig_default :: BridgeConfig where
  "BridgeConfig_default = \<lparr> bc_num_compute_units = 1, bc_threads_per_warp = 32, bc_max_warps_per_cu = 16,
     bc_shared_mem_size = 49152, bc_l1_cache_size = 16384, bc_l2_cache_size = 262144, bc_max_sim_cycles = 2000000,
     bc_print_stats = True \<rparr>"

datatype bridge_error = NoError | ElfFailed string | BufferNotFound u64 | TooManyArguments | ArgumentTooWide nat
  | SharedMemoryExceeded | SharedMemoryRefused u32 | WarpDeadlock | ScalarDeadlock | WriteBackFailed u64

record KernelBridge =
  kb_cfg :: BridgeConfig
  kb_cycles :: u64
  kb_instructions :: u64
  kb_l1_hits :: u32
  kb_l1_misses :: u32
  kb_grid :: "u32 \<times> u32 \<times> u32"
  kb_block :: "u32 \<times> u32 \<times> u32"
  kb_divergence_events :: u32
  kb_worker_count :: u32
  kb_active_units :: u32
  kb_worker_cycles_total :: u64
  kb_worker_cycles_mean :: "u64 \<times> u64"
  kb_worker_cycles_max :: u64
  kb_effective_cycles :: u64
  kb_parallelism_factor :: "u64 \<times> u64"
  kb_entry_symbol :: string
  kb_error :: bridge_error

definition KernelBridge_init :: "BridgeConfig \<Rightarrow> KernelBridge" where
  "KernelBridge_init cfg = \<lparr> kb_cfg = cfg, kb_cycles = 0, kb_instructions = 0, kb_l1_hits = 0, kb_l1_misses = 0,
     kb_grid = (1, 1, 1), kb_block = (1, 1, 1), kb_divergence_events = 0, kb_worker_count = 0, kb_active_units = 0,
     kb_worker_cycles_total = 0, kb_worker_cycles_mean = (0, 1), kb_worker_cycles_max = 0, kb_effective_cycles = 0,
     kb_parallelism_factor = (0, 1), kb_entry_symbol = [], kb_error = NoError \<rparr>"

text \<open>The statistics that are cleared before the workers are made.\<close>

definition clear_stats :: "u32 \<Rightarrow> KernelBridge \<Rightarrow> KernelBridge" where
  "clear_stats total_threads kb = kb\<lparr> kb_cycles := 0, kb_instructions := 0, kb_divergence_events := 0,
     kb_worker_count := total_threads, kb_active_units := 1, kb_worker_cycles_total := 0, kb_worker_cycles_mean := (0, 1),
     kb_worker_cycles_max := 0, kb_effective_cycles := 0, kb_parallelism_factor := (0, 1) \<rparr>"

section \<open>The launch\<close>

definition STACK_BASE :: u32 where "STACK_BASE = 0x30000000"
definition STACK_STRIDE :: u32 where "STACK_STRIDE = 0x10000"
definition STACK_TOP :: u32 where "STACK_TOP = 0x20000000"
definition RETURN_SENTINEL :: u32 where "RETURN_SENTINEL = 1"
definition THREAD_CTX_BASE :: u32 where "THREAD_CTX_BASE = 0x200000"
definition THREAD_CTX_STRIDE :: u32 where "THREAD_CTX_STRIDE = 64"

text \<open>The effective dimensions.\<close>

record launch_shape =
  sh_grid_x :: u32
  sh_grid_y :: u32
  sh_grid_z :: u32
  sh_block_x :: u32
  sh_block_y :: u32
  sh_block_z :: u32

definition effective_shape :: "KernelLaunchArgs option \<Rightarrow> launch_shape" where
  "effective_shape use_args = (case use_args of
       Some la \<Rightarrow> \<lparr> sh_grid_x = la_grid_x la, sh_grid_y = la_grid_y la, sh_grid_z = la_grid_z la,
         sh_block_x = la_block_x la, sh_block_y = la_block_y la, sh_block_z = la_block_z la \<rparr>
     | None \<Rightarrow> \<lparr> sh_grid_x = 1, sh_grid_y = 1, sh_grid_z = 1, sh_block_x = 1, sh_block_y = 1, sh_block_z = 1 \<rparr>)"

definition total_blocks :: "launch_shape \<Rightarrow> u32" where
  "total_blocks sh = max 1 (sh_grid_x sh * max 1 (sh_grid_y sh) * max 1 (sh_grid_z sh))"

definition threads_per_block :: "launch_shape \<Rightarrow> u32" where
  "threads_per_block sh = max 1 (sh_block_x sh * max 1 (sh_block_y sh) * max 1 (sh_block_z sh))"

definition total_threads :: "launch_shape \<Rightarrow> u32" where
  "total_threads sh = total_blocks sh * threads_per_block sh"

text \<open>The nine words of a thread's context slot, and the twelve of the CUDA compatibility variable. Two of the words
  divide by a 32-bit product of dimensions, which may wrap to zero: then making a worker traps (\<open>worker_traps\<close>), and
  the runs below end in \<open>HostTrap\<close> before any context is used.\<close>

definition worker_traps :: "launch_shape \<Rightarrow> bool" where
  "worker_traps sh \<longleftrightarrow> max 1 (sh_block_x sh) * max 1 (sh_block_y sh) = 0 \<or>
     max 1 (sh_grid_x sh) * max 1 (sh_grid_y sh) = 0"

definition thread_ctx :: "launch_shape \<Rightarrow> u32 \<Rightarrow> u32 list" where
  "thread_ctx sh g =
     (let blk_id = g div threads_per_block sh; thd_id = g mod threads_per_block sh;
          bx = max 1 (sh_block_x sh); by = max 1 (sh_block_y sh); bz = max 1 (sh_block_z sh);
          gx = max 1 (sh_grid_x sh); gy = max 1 (sh_grid_y sh)
      in [thd_id mod bx, (thd_id div bx) mod by, thd_id div (bx * by),
          blk_id mod gx, (blk_id div gx) mod gy, blk_id div (gx * gy), bx, by, bz])"

definition cuda_ctx :: "launch_shape \<Rightarrow> u32 \<Rightarrow> u32 list" where
  "cuda_ctx sh g = thread_ctx sh g @ [max 1 (sh_grid_x sh), max 1 (sh_grid_y sh), max 1 (sh_grid_z sh)]"

text \<open>The bytes of an array of words on the (little-endian) host.\<close>

definition word_bytes :: "u32 list \<Rightarrow> u8 list" where
  "word_bytes ws = concat (map (\<lambda>w. [word_byte 0 w, word_byte 1 w, word_byte 2 w, word_byte 3 w]) ws)"

definition ctx_base :: "u32 \<Rightarrow> u32" where
  "ctx_base g = THREAD_CTX_BASE + g * THREAD_CTX_STRIDE"

section \<open>Workers\<close>

record Worker =
  wk_cu :: ComputeUnit
  wk_simt :: SIMTController
  wk_block_id :: u32
  wk_thread_id :: u32
  wk_active :: bool
  wk_stalled_pc_steps :: u64
  wk_blocked_steps :: u64
  wk_last_pc :: u32
  wk_cuda_ctx :: "u32 list"

definition on_binary :: "(binary_cu \<Rightarrow> binary_cu) \<Rightarrow> ComputeUnit \<Rightarrow> ComputeUnit" where
  "on_binary f cu = cu\<lparr> gc_binary := f (gc_binary cu) \<rparr>"

definition worker_regs :: "u32 list \<Rightarrow> u32 \<Rightarrow> u32 list" where
  "worker_regs regs g = regs[3 := ctx_base g, 2 := STACK_BASE + g * STACK_STRIDE + (STACK_STRIDE - 16)]"

definition makeWorker :: "BridgeConfig \<Rightarrow> launch_shape \<Rightarrow> u32 \<Rightarrow> u32 list \<Rightarrow> u32 \<Rightarrow> gmemory \<Rightarrow> Worker \<times> gmemory" where
  "makeWorker cfg sh entry_pc regs g mem =
     (let block_id = g div threads_per_block sh; thread_id = g mod threads_per_block sh;
          cu = ComputeUnit_init 1 (max 1 (bc_max_warps_per_cu cfg)) (bc_max_sim_cycles cfg);
          cu = on_binary (setMemory (Some mem)) cu;
          cu = on_binary (setEntryPoint entry_pc) cu;
          cu = on_binary (setInitialRegisters (worker_regs regs g)) cu;
          mem = gWriteBytes (ucast (ctx_base g)) (word_bytes (thread_ctx sh g)) 0 mem;
          cu = on_binary (setReturnSentinel RETURN_SENTINEL) cu;
          cu = on_binary (setBlockID block_id) cu;
          cu = cuLaunchKernel block_id cu
      in (\<lparr> wk_cu = cu, wk_simt = SIMTController_default, wk_block_id = block_id, wk_thread_id = thread_id,
            wk_active = True, wk_stalled_pc_steps = 0, wk_blocked_steps = 0, wk_last_pc = entry_pc,
            wk_cuda_ctx = cuda_ctx sh g \<rparr>, mem))"

fun make_workers :: "BridgeConfig \<Rightarrow> launch_shape \<Rightarrow> u32 \<Rightarrow> u32 list \<Rightarrow> u32 list \<Rightarrow> gmemory \<Rightarrow> Worker list \<times> gmemory" where
  "make_workers cfg sh entry_pc regs [] mem = ([], mem)"
| "make_workers cfg sh entry_pc regs (g # gs) mem =
     (let (w, mem) = makeWorker cfg sh entry_pc regs g mem;
          (ws, mem) = make_workers cfg sh entry_pc regs gs mem
      in (w # ws, mem))"

definition worker_blocked :: "Worker \<Rightarrow> bool" where
  "worker_blocked w \<longleftrightarrow> isBlocked (gc_binary (wk_cu w))"
definition worker_complete :: "Worker \<Rightarrow> bool" where
  "worker_complete w \<longleftrightarrow> cuIsComplete (wk_cu w)"
definition worker_barrier :: "Worker \<Rightarrow> u32" where
  "worker_barrier w = bu_barrier_id (gc_binary (wk_cu w))"
definition worker_pc :: "Worker \<Rightarrow> u32" where
  "worker_pc w = getCurrentPC (gc_binary (wk_cu w))"
definition worker_cycles :: "Worker \<Rightarrow> u64" where
  "worker_cycles w = bu_total_cycles (gc_binary (wk_cu w))"

text \<open>A step of one worker on the shared memory; its CUDA context is written to the compatibility variable first.\<close>

definition step_worker :: "rv_fpu \<Rightarrow> u32 option \<Rightarrow> gmemory \<Rightarrow> Worker \<Rightarrow> (Worker \<times> gmemory) option" where
  "step_worker fp ctx_symbol mem w =
     (let mem = (case ctx_symbol of Some a \<Rightarrow> gWriteBytes (ucast a) (word_bytes (wk_cuda_ctx w)) 0 mem | None \<Rightarrow> mem)
      in map_option (\<lambda>cu. (w\<lparr> wk_cu := cu \<rparr>, case bu_ext_memory (gc_binary cu) of Some m \<Rightarrow> m | None \<Rightarrow> mem))
           (cuStep fp (put_mem mem (wk_cu w))))"

definition waits_at :: "u32 \<Rightarrow> u32 \<Rightarrow> Worker \<Rightarrow> bool" where
  "waits_at block bid w \<longleftrightarrow> wk_active w \<and> wk_block_id w = block \<and> worker_blocked w \<and> worker_barrier w = bid"

definition arrived :: "u32 \<Rightarrow> u32 \<Rightarrow> Worker list \<Rightarrow> u32" where
  "arrived block bid ws = of_nat (length (filter (waits_at block bid) ws))"

definition release_worker :: "u32 \<Rightarrow> u32 \<Rightarrow> Worker \<Rightarrow> Worker" where
  "release_worker block bid w =
     (if wk_active w \<and> wk_block_id w = block
      then w\<lparr> wk_cu := on_binary (\<lambda>b. snd (releaseBarrier bid b)) (wk_cu w) \<rparr> else w)"

text \<open>Statistics of a worker that has completed; it becomes inactive.\<close>

definition retire :: "Worker \<Rightarrow> KernelBridge \<Rightarrow> Worker \<times> KernelBridge" where
  "retire w kb =
     (if wk_active w \<and> worker_complete w then
        (w\<lparr> wk_active := False \<rparr>,
         kb\<lparr> kb_cycles := kb_cycles kb + worker_cycles w,
             kb_instructions := kb_instructions kb + bu_total_instructions (gc_binary (wk_cu w)),
             kb_worker_cycles_total := kb_worker_cycles_total kb + worker_cycles w,
             kb_worker_cycles_max := max (kb_worker_cycles_max kb) (worker_cycles w) \<rparr>)
      else (w, kb))"

datatype 'a run = HostTrap | Finished 'a

section \<open>The scalar scheduler\<close>

record scalar_sched =
  ss_workers :: "Worker list"
  ss_mem :: gmemory
  ss_cycle :: u64
  ss_bridge :: KernelBridge
  ss_selected :: nat
  ss_any_active :: bool
  ss_made_progress :: bool

definition note_pc :: "u32 \<Rightarrow> Worker \<Rightarrow> Worker" where
  "note_pc pc_before w =
     (let pc_after = worker_pc w in
      (if worker_complete w then w
       else w\<lparr> wk_stalled_pc_steps := (if pc_after = pc_before then wk_stalled_pc_steps w + 1 else 0) \<rparr>)
      \<lparr> wk_last_pc := pc_after \<rparr>)"

definition scalar_barrier :: "u32 \<Rightarrow> nat \<Rightarrow> Worker list \<Rightarrow> Worker list" where
  "scalar_barrier tpb idx ws =
     (let w = ws ! idx in
      if worker_blocked w \<and> arrived (wk_block_id w) (worker_barrier w) ws = tpb
      then map (release_worker (wk_block_id w) (worker_barrier w)) ws else ws)"

definition scalar_visit :: "rv_fpu \<Rightarrow> u32 option \<Rightarrow> u32 \<Rightarrow> nat \<Rightarrow> scalar_sched \<Rightarrow> scalar_sched option" where
  "scalar_visit fp ctx_symbol tpb idx st =
     (let w = ss_workers st ! idx in
      if \<not> wk_active w then Some st
      else
        let st = st\<lparr> ss_any_active := True \<rparr> in
        if worker_blocked w then
          Some (st\<lparr> ss_workers := (ss_workers st)[idx := w\<lparr> wk_blocked_steps := wk_blocked_steps w + 1 \<rparr>] \<rparr>)
        else map_option (\<lambda>(w', mem).
            let ws = scalar_barrier tpb idx ((ss_workers st)[idx := note_pc (worker_pc w) w']);
                (w'', kb) = retire (ws ! idx) (ss_bridge st)
            in st\<lparr> ss_workers := ws[idx := w''], ss_mem := mem, ss_cycle := ss_cycle st + 1, ss_bridge := kb,
                  ss_selected := ss_selected st + 1, ss_made_progress := True \<rparr>)
          (step_worker fp ctx_symbol (ss_mem st) w))"

fun scalar_scan :: "rv_fpu \<Rightarrow> u32 option \<Rightarrow> u32 \<Rightarrow> nat \<Rightarrow> nat list \<Rightarrow> scalar_sched \<Rightarrow> scalar_sched option" where
  "scalar_scan fp ctx_symbol tpb active_units [] st = Some st"
| "scalar_scan fp ctx_symbol tpb active_units (idx # rest) st =
     (if ss_selected st < active_units
      then Option.bind (scalar_visit fp ctx_symbol tpb idx st) (scalar_scan fp ctx_symbol tpb active_units rest)
      else Some st)"

definition scan_order :: "nat \<Rightarrow> nat \<Rightarrow> nat list" where
  "scan_order cursor n = map (\<lambda>scanned. (cursor + scanned) mod n) [0..<n]"

definition scalar_pass :: "rv_fpu \<Rightarrow> u32 option \<Rightarrow> u32 \<Rightarrow> nat \<Rightarrow> nat \<Rightarrow> scalar_sched \<Rightarrow> scalar_sched option" where
  "scalar_pass fp ctx_symbol tpb active_units cursor st =
     scalar_scan fp ctx_symbol tpb active_units (scan_order cursor (length (ss_workers st)))
       (st\<lparr> ss_selected := 0, ss_any_active := False, ss_made_progress := False \<rparr>)"

partial_function (option) bridge_scalar_loop ::
    "rv_fpu \<Rightarrow> u32 option \<Rightarrow> u32 \<Rightarrow> nat \<Rightarrow> nat \<Rightarrow> scalar_sched \<Rightarrow> (bool \<times> scalar_sched) run option" where
  "bridge_scalar_loop fp ctx_symbol tpb active_units cursor st =
     (case scalar_pass fp ctx_symbol tpb active_units cursor st of
        None \<Rightarrow> Some HostTrap
      | Some st' \<Rightarrow>
          if \<not> ss_any_active st' then Some (Finished (True, st'))
          else if \<not> ss_made_progress st' then Some (Finished (False, st'))
          else bridge_scalar_loop fp ctx_symbol tpb active_units
            (if length (ss_workers st') > 0 then (cursor + active_units) mod length (ss_workers st') else cursor) st')"

section \<open>The warp scheduler\<close>

record WarpGroup =
  wg_threads :: "Worker list"
  wg_active :: bool
  wg_diverged :: bool

record warp_sched =
  ws_groups :: "WarpGroup list"
  ws_mem :: gmemory
  ws_cycle :: u64
  ws_bridge :: KernelBridge
  ws_any_active :: bool
  ws_made_progress :: bool

definition worker_ready :: "Worker \<Rightarrow> bool" where
  "worker_ready w \<longleftrightarrow> wk_active w \<and> \<not> worker_complete w \<and> \<not> worker_blocked w"

fun step_threads :: "rv_fpu \<Rightarrow> u32 option \<Rightarrow> Worker list \<Rightarrow> gmemory \<Rightarrow> (Worker list \<times> gmemory) option" where
  "step_threads fp ctx_symbol [] mem = Some ([], mem)"
| "step_threads fp ctx_symbol (w # ws) mem =
     Option.bind (if worker_ready w then step_worker fp ctx_symbol mem w else Some (w, mem)) (\<lambda>(w', mem').
       map_option (\<lambda>(ws', m). (w' # ws', m)) (step_threads fp ctx_symbol ws mem'))"

definition all_workers :: "WarpGroup list \<Rightarrow> Worker list" where
  "all_workers gs = concat (map wg_threads gs)"

definition release_groups :: "u32 \<Rightarrow> u32 \<Rightarrow> WarpGroup list \<Rightarrow> WarpGroup list" where
  "release_groups block bid gs = map (\<lambda>g. g\<lparr> wg_threads := map (release_worker block bid) (wg_threads g) \<rparr>) gs"

definition warp_barrier :: "u32 \<Rightarrow> nat \<Rightarrow> nat \<Rightarrow> WarpGroup list \<times> bool \<Rightarrow> WarpGroup list \<times> bool" where
  "warp_barrier tpb gi ti = (\<lambda>(gs, progress).
     let w = wg_threads (gs ! gi) ! ti in
     if \<not> wk_active w \<or> \<not> worker_blocked w then (gs, progress)
     else if arrived (wk_block_id w) (worker_barrier w) (all_workers gs) = tpb
     then (release_groups (wk_block_id w) (worker_barrier w) gs, True) else (gs, progress))"

text \<open>The reference program counter and whether all agree with it, as the code scans them.\<close>

fun pc_scan :: "u32 \<Rightarrow> u32 list \<Rightarrow> u32 \<times> bool" where
  "pc_scan ref_pc [] = (ref_pc, True)"
| "pc_scan ref_pc (pc # pcs) =
     (if ref_pc = 0xFFFFFFFF then pc_scan pc pcs
      else if pc \<noteq> ref_pc then (ref_pc, False) else pc_scan ref_pc pcs)"

definition detect_divergence :: "WarpGroup \<Rightarrow> KernelBridge \<Rightarrow> WarpGroup \<times> KernelBridge" where
  "detect_divergence g kb =
     (let (ref_pc, uniform) = pc_scan 0xFFFFFFFF (map worker_pc (filter worker_ready (wg_threads g))) in
      if \<not> uniform \<and> \<not> wg_diverged g then
        (g\<lparr> wg_diverged := True \<rparr>, kb\<lparr> kb_divergence_events := kb_divergence_events kb + 1 \<rparr>)
      else if uniform \<and> ref_pc \<noteq> 0xFFFFFFFF then (g\<lparr> wg_diverged := False \<rparr>, kb)
      else (g, kb))"

fun retire_all :: "Worker list \<Rightarrow> KernelBridge \<Rightarrow> Worker list \<times> KernelBridge" where
  "retire_all [] kb = ([], kb)"
| "retire_all (w # ws) kb =
     (let (w', kb) = retire w kb; (ws', kb) = retire_all ws kb in (w' # ws', kb))"

definition collect_threads :: "WarpGroup \<Rightarrow> KernelBridge \<Rightarrow> WarpGroup \<times> KernelBridge" where
  "collect_threads g kb =
     (let (ws, kb) = retire_all (wg_threads g) kb;
          all_done = list_all (\<lambda>w. \<not> (wk_active w \<and> \<not> worker_complete w)) (wg_threads g)
      in (g\<lparr> wg_threads := ws, wg_active := (wg_active g \<and> \<not> all_done) \<rparr>, kb))"

definition warp_visit :: "rv_fpu \<Rightarrow> u32 option \<Rightarrow> u32 \<Rightarrow> nat \<Rightarrow> warp_sched \<Rightarrow> warp_sched option" where
  "warp_visit fp ctx_symbol tpb gi st =
     (let g = ws_groups st ! gi in
      if \<not> wg_active g then Some st
      else map_option (\<lambda>(threads, mem).
          let stepped = list_ex worker_ready (wg_threads g);
              gs = (ws_groups st)[gi := g\<lparr> wg_threads := threads \<rparr>];
              (gs, progress) = fold (warp_barrier tpb gi) [0..<length threads] (gs, ws_made_progress st \<or> stepped);
              (g, kb) = detect_divergence (gs ! gi) (ws_bridge st);
              (g, kb) = collect_threads g kb
          in st\<lparr> ws_groups := gs[gi := g], ws_mem := mem, ws_cycle := ws_cycle st + 1, ws_bridge := kb,
                ws_any_active := True, ws_made_progress := progress \<rparr>)
        (step_threads fp ctx_symbol (wg_threads g) (ws_mem st)))"

fun warp_scan :: "rv_fpu \<Rightarrow> u32 option \<Rightarrow> u32 \<Rightarrow> nat list \<Rightarrow> warp_sched \<Rightarrow> warp_sched option" where
  "warp_scan fp ctx_symbol tpb [] st = Some st"
| "warp_scan fp ctx_symbol tpb (gi # rest) st =
     Option.bind (warp_visit fp ctx_symbol tpb gi st) (warp_scan fp ctx_symbol tpb rest)"

partial_function (option) bridge_warp_loop ::
    "rv_fpu \<Rightarrow> u32 option \<Rightarrow> u32 \<Rightarrow> warp_sched \<Rightarrow> (bool \<times> warp_sched) run option" where
  "bridge_warp_loop fp ctx_symbol tpb st =
     (case warp_scan fp ctx_symbol tpb [0..<length (ws_groups st)] (st\<lparr> ws_any_active := False, ws_made_progress := False \<rparr>) of
        None \<Rightarrow> Some HostTrap
      | Some st' \<Rightarrow>
          if \<not> ws_any_active st' then Some (Finished (True, st'))
          else if \<not> ws_made_progress st' then Some (Finished (False, st'))
          else bridge_warp_loop fp ctx_symbol tpb st')"

definition warps_per_block :: "u32 \<Rightarrow> u32 \<Rightarrow> u32" where
  "warps_per_block warp_size tpb = (tpb + warp_size - 1) div warp_size"

text \<open>The global ids of the threads of a warp.\<close>

definition warp_thread_ids :: "u32 \<Rightarrow> u32 \<Rightarrow> u32 \<Rightarrow> u32 list" where
  "warp_thread_ids warp_size tpb warp_idx =
     (let block_id = warp_idx div warps_per_block warp_size tpb;
          local_base = (warp_idx mod warps_per_block warp_size tpb) * warp_size
      in map (\<lambda>t. block_id * tpb + local_base + of_nat t)
           (takeWhile (\<lambda>t. local_base + of_nat t < tpb) [0..<unat warp_size]))"

fun make_groups :: "BridgeConfig \<Rightarrow> launch_shape \<Rightarrow> u32 \<Rightarrow> u32 list \<Rightarrow> u32 list list \<Rightarrow> gmemory \<Rightarrow> WarpGroup list \<times> gmemory" where
  "make_groups cfg sh entry_pc regs [] mem = ([], mem)"
| "make_groups cfg sh entry_pc regs (ids # rest) mem =
     (let (ws, mem) = make_workers cfg sh entry_pc regs ids mem;
          (gs, mem) = make_groups cfg sh entry_pc regs rest mem
      in (\<lparr> wg_threads = ws, wg_active = True, wg_diverged = False \<rparr> # gs, mem))"

section \<open>A run\<close>

text \<open>What the first five steps of the run prepare.\<close>

record bridge_setup =
  bs_mem :: gmemory
  bs_ctx_symbol :: "u32 option"
  bs_entry_pc :: u32
  bs_entry_symbol :: string
  bs_regs :: "u32 list"
  bs_shape :: launch_shape

fun map_buffers :: "driver \<Rightarrow> u64 list \<Rightarrow> gmemory \<Rightarrow> bridge_error + gmemory" where
  "map_buffers d [] mem = Inr mem"
| "map_buffers d (p # ps) mem =
     (case getDeviceBufferContent p d of
        None \<Rightarrow> Inl (BufferNotFound p)
      | Some content \<Rightarrow> map_buffers d ps (gWriteBytes p content 0 mem))"

definition argument_registers :: "u64 list \<Rightarrow> bridge_error + u32 list" where
  "argument_registers args =
     (if length args > 8 then Inl TooManyArguments
      else case find (\<lambda>i. drop_bit 32 (args ! i) \<noteq> 0) [0..<length args] of
          Some i \<Rightarrow> Inl (ArgumentTooWide i)
        | None \<Rightarrow> Inr ((fold (\<lambda>i regs. regs[10 + i := ucast (args ! i)]) [0..<length args] (replicate 32 0))
            [2 := STACK_TOP, 1 := RETURN_SENTINEL]))"

fun allocate_blocks :: "u32 \<Rightarrow> u32 list \<Rightarrow> gmemory \<Rightarrow> bridge_error + gmemory" where
  "allocate_blocks shared_bytes [] mem = Inr mem"
| "allocate_blocks shared_bytes (b # bs) mem =
     (let (ok, mem) = gAllocateSharedMemory b shared_bytes mem in
      if ok then allocate_blocks shared_bytes bs mem else Inl (SharedMemoryRefused b))"

definition block_ids :: "launch_shape \<Rightarrow> u32 list" where
  "block_ids sh = map of_nat [0..<unat (total_blocks sh)]"

definition bridge_prepare :: "BridgeConfig \<Rightarrow> (string \<Rightarrow> u8 list option) \<Rightarrow> string \<Rightarrow> string \<Rightarrow> u64 list \<Rightarrow> u64 list \<Rightarrow>
    driver \<Rightarrow> (bridge_error + bridge_setup) option" where
  "bridge_prepare cfg files kernel_name binary_path kernel_args device_ptrs d =
     (let use_args = (case getCurrentLaunchArgs d of
              Some la \<Rightarrow> if la_kernel_name la = kernel_name then Some la else None | None \<Rightarrow> None);
          sh = effective_shape use_args;
          shared_bytes = (case use_args of Some la \<Rightarrow> la_shared_mem_bytes la | None \<Rightarrow> bc_shared_mem_size cfg)
      in map_option (\<lambda>(ok, elf, mem).
        if \<not> ok then Inl (ElfFailed binary_path)
        else case map_buffers d device_ptrs mem of
            Inl e \<Rightarrow> Inl e
          | Inr mem \<Rightarrow>
              let entry_name = (case use_args of
                      Some la \<Rightarrow> if la_entry_symbol la \<noteq> [] then la_entry_symbol la else kernel_name
                    | None \<Rightarrow> kernel_name);
                  (entry_pc, sym_name) = (case findSymbol entry_name elf of
                      Some e \<Rightarrow> (se_address e, se_name e) | None \<Rightarrow> (el_entry_point elf, []))
              in (case argument_registers kernel_args of
                    Inl e \<Rightarrow> Inl e
                  | Inr regs \<Rightarrow>
                      if shared_bytes > bc_shared_mem_size cfg then Inl SharedMemoryExceeded
                      else (case allocate_blocks shared_bytes (block_ids sh) mem of
                          Inl e \<Rightarrow> Inl e
                        | Inr mem \<Rightarrow> Inr \<lparr> bs_mem = mem,
                            bs_ctx_symbol = map_option se_address (findSymbol ''__gpgpu_thread_context'' elf),
                            bs_entry_pc = entry_pc,
                            bs_entry_symbol = (if sym_name = [] then entry_name else sym_name),
                            bs_regs = regs, bs_shape = sh \<rparr>)))
        (elf_load (files binary_path) (ElfLoader_init, MemoryHierarchy_init (bc_shared_mem_size cfg))))"

text \<open>The schedulers on a prepared run: whether it completed, the memory and the statistics.\<close>

definition warp_size_of :: "BridgeConfig \<Rightarrow> launch_shape \<Rightarrow> u32" where
  "warp_size_of cfg sh =
     (if bc_threads_per_warp cfg > 1 \<and> threads_per_block sh > 1 then min (bc_threads_per_warp cfg) (threads_per_block sh) else 1)"

definition warp_ids :: "BridgeConfig \<Rightarrow> launch_shape \<Rightarrow> u32 list list" where
  "warp_ids cfg sh =
     (let tpb = threads_per_block sh; warp_size = warp_size_of cfg sh;
          total_warps = total_blocks sh * warps_per_block warp_size tpb
      in map (\<lambda>i. warp_thread_ids warp_size tpb (of_nat i)) [0..<unat total_warps])"

definition run_warps :: "rv_fpu \<Rightarrow> BridgeConfig \<Rightarrow> bridge_setup \<Rightarrow> KernelBridge \<Rightarrow> (bool \<times> gmemory \<times> KernelBridge) run option" where
  "run_warps fp cfg bs kb =
     (let sh = bs_shape bs; ids = warp_ids cfg sh;
          (gs, mem) = make_groups cfg sh (bs_entry_pc bs) (bs_regs bs) ids (bs_mem bs)
      in if worker_traps sh \<and> concat ids \<noteq> [] then Some HostTrap
         else map_option (map_run (\<lambda>(ok, st). (ok, ws_mem st, ws_bridge st)))
           (bridge_warp_loop fp (bs_ctx_symbol bs) (threads_per_block sh)
              \<lparr> ws_groups = gs, ws_mem = mem, ws_cycle = 0, ws_bridge = kb\<lparr> kb_active_units := warp_size_of cfg sh \<rparr>,
                ws_any_active = False, ws_made_progress = False \<rparr>))"

definition thread_ids :: "launch_shape \<Rightarrow> u32 list" where
  "thread_ids sh = map of_nat [0..<unat (total_threads sh)]"

definition scalar_start :: "BridgeConfig \<Rightarrow> bridge_setup \<Rightarrow> KernelBridge \<Rightarrow> scalar_sched" where
  "scalar_start cfg bs kb =
     (let (workers, mem) = make_workers cfg (bs_shape bs) (bs_entry_pc bs) (bs_regs bs) (thread_ids (bs_shape bs)) (bs_mem bs);
          active_units = max 1 (min (bc_num_compute_units cfg) (of_nat (length workers)))
      in \<lparr> ss_workers = workers, ss_mem = mem, ss_cycle = 0, ss_bridge = kb\<lparr> kb_active_units := active_units \<rparr>,
           ss_selected = 0, ss_any_active = False, ss_made_progress = False \<rparr>)"

definition run_scalar :: "rv_fpu \<Rightarrow> BridgeConfig \<Rightarrow> bridge_setup \<Rightarrow> KernelBridge \<Rightarrow> (bool \<times> gmemory \<times> KernelBridge) run option" where
  "run_scalar fp cfg bs kb =
     (let st = scalar_start cfg bs kb
      in if worker_traps (bs_shape bs) \<and> thread_ids (bs_shape bs) \<noteq> [] then Some HostTrap
         else map_option (map_run (\<lambda>(ok, st). (ok, ss_mem st,
             if ok then fold (\<lambda>w kb. kb\<lparr> kb_divergence_events := kb_divergence_events kb + sc_divergence_events (wk_simt w) \<rparr>)
                          (ss_workers st) (ss_bridge st)
             else ss_bridge st)))
           (bridge_scalar_loop fp (bs_ctx_symbol bs) (threads_per_block (bs_shape bs))
              (unat (kb_active_units (ss_bridge st))) 0 st))"

definition bridge_metrics :: "KernelBridge \<Rightarrow> KernelBridge" where
  "bridge_metrics kb =
     (let total = kb_worker_cycles_total kb;
          kb = (if kb_worker_count kb > 0 then kb\<lparr> kb_worker_cycles_mean := (total, ucast (kb_worker_count kb)) \<rparr> else kb);
          kb = (if kb_active_units kb = 0 then kb\<lparr> kb_active_units := 1 \<rparr> else kb);
          kb = kb\<lparr> kb_effective_cycles := (total + ucast (kb_active_units kb) - 1) div ucast (kb_active_units kb) \<rparr>
      in if kb_worker_cycles_max kb > 0 then kb\<lparr> kb_parallelism_factor := (total, kb_worker_cycles_max kb) \<rparr> else kb)"

fun copy_back :: "u64 list \<Rightarrow> gmemory \<Rightarrow> driver \<Rightarrow> u64 option \<times> driver" where
  "copy_back [] mem d = (None, d)"
| "copy_back (p # ps) mem d =
     (let sz = getDeviceBufferSize p d in
      if sz = 0 then copy_back ps mem d
      else let (ok, d) = setDeviceBufferContent p (gReadBytes p sz 0 mem) d in
        if ok then copy_back ps mem d else (Some p, d))"

definition bridge_finish :: "bridge_setup \<Rightarrow> u64 list \<Rightarrow> gmemory \<Rightarrow> KernelBridge \<times> driver \<Rightarrow> bool \<times> KernelBridge \<times> driver" where
  "bridge_finish bs device_ptrs mem = (\<lambda>(kb, d).
     let sh = bs_shape bs;
         kb = (bridge_metrics kb)\<lparr> kb_l1_hits := ucast (gm_l1_hits mem), kb_l1_misses := ucast (gm_l1_misses mem) \<rparr>;
         mem = fold gReleaseSharedMemory (block_ids sh) mem;
         kb = kb\<lparr> kb_grid := (sh_grid_x sh, sh_grid_y sh, sh_grid_z sh),
                 kb_block := (sh_block_x sh, sh_block_y sh, sh_block_z sh), kb_entry_symbol := bs_entry_symbol bs \<rparr>;
         (failed, d) = copy_back device_ptrs mem d
     in case failed of
          Some p \<Rightarrow> (False, kb\<lparr> kb_error := WriteBackFailed p \<rparr>, d)
        | None \<Rightarrow> (True, kb, d))"

definition runOnHardware :: "rv_fpu \<Rightarrow> (string \<Rightarrow> u8 list option) \<Rightarrow> string \<Rightarrow> string \<Rightarrow> u64 list \<Rightarrow> u64 list \<Rightarrow>
    KernelBridge \<times> driver \<Rightarrow> (bool \<times> KernelBridge \<times> driver) run option" where
  "runOnHardware fp files kernel_name binary_path kernel_args device_ptrs = (\<lambda>(kb, d).
     let cfg = kb_cfg kb; kb = kb\<lparr> kb_error := NoError \<rparr> in
     case bridge_prepare cfg files kernel_name binary_path kernel_args device_ptrs d of
       None \<Rightarrow> Some HostTrap
     | Some (Inl e) \<Rightarrow> Some (Finished (False, kb\<lparr> kb_error := e \<rparr>, d))
     | Some (Inr bs) \<Rightarrow>
         let kb = clear_stats (total_threads (bs_shape bs)) kb;
             warps = warp_size_of cfg (bs_shape bs) > 1
         in map_option (\<lambda>r. case r of
                HostTrap \<Rightarrow> HostTrap
              | Finished (ok, mem, kb) \<Rightarrow>
                  Finished (if ok then bridge_finish bs device_ptrs mem (kb, d)
                            else (False, kb\<lparr> kb_error := (if warps then WarpDeadlock else ScalarDeadlock) \<rparr>, d)))
              (if warps then run_warps fp cfg bs kb else run_scalar fp cfg bs kb))"

end
