(* ===== verification/HostApi.thy ===== *)
theory HostApi
  imports PtxCompile FpgaElf KernelBridge
begin

text \<open>
  The host API: \<open>software/host_api/host_api.{h,cpp}\<close>, over the driver and, in the build with \<open>FPGA_TARGET\<close>, over
  the board. The globals of the file and the state of the two drivers are one record. A call returns what the code
  returns with the new state. The backend is a function in the state, as in the code, and the compiler of a PTX text is
  an argument of the launch; the build (\<open>Simulated\<close>, or \<open>Board\<close> with the answers of the hardware) is an argument
  too. A call is \<open>None\<close> when it never returns and \<open>HostTrap\<close> when the process dies.
\<close>

section \<open>State\<close>

datatype backend_answer = Answered bool string | RaisedException string | RaisedUnknown

type_synonym backend = "KernelLaunchArgs \<Rightarrow> u8 list \<Rightarrow> driver \<Rightarrow> (backend_answer \<times> driver) run option"

record host =
  ha_staged_args :: "u64 list"
  ha_registered_ptx :: "(string, string) omap"
  ha_required_ptx :: "string set"
  ha_last_error :: string
  ha_backend :: "backend option"
  ha_driver :: driver
  ha_fpga :: FpgaDriver

definition host_init :: host where
  "host_init = \<lparr> ha_staged_args = [], ha_registered_ptx = [], ha_required_ptx = {}, ha_last_error = [],
     ha_backend = None, ha_driver = driver_init, ha_fpga = FpgaDriver_default \<rparr>"

text \<open>What the board answers to a launch: the kernel file, the status register on each poll, and the status read
  after the wait.\<close>

record board =
  ba_files :: "string \<Rightarrow> u8 list option"
  ba_polls :: "(u32 \<times> bool) list"
  ba_status :: u32

datatype build = Simulated | Board board

definition failHostOperation :: "string \<Rightarrow> host \<Rightarrow> bool \<times> host" where
  "failHostOperation e h = (False, h\<lparr> ha_last_error := e \<rparr>)"

definition on_driver :: "(driver \<Rightarrow> bool \<times> driver) \<Rightarrow> host \<Rightarrow> bool \<times> host" where
  "on_driver f h = (let (ok, d) = f (ha_driver h) in (ok, h\<lparr> ha_driver := d \<rparr>))"

section \<open>Life cycle, memory and arguments\<close>

definition initializeHostAPI :: "host \<Rightarrow> bool \<times> host" where
  "initializeHostAPI h = (True, h\<lparr> ha_last_error := [] \<rparr>)"

definition shutdownHostAPI :: "host \<Rightarrow> bool \<times> host" where
  "shutdownHostAPI h = (True, h\<lparr> ha_staged_args := [], ha_registered_ptx := [], ha_required_ptx := {},
     ha_backend := None, ha_last_error := [] \<rparr>)"

text \<open>The four memory calls forward to the driver; these are the calls of the build without a board.\<close>

definition gpgpuMalloc :: "(u64 \<Rightarrow> bool) \<Rightarrow> u64 \<Rightarrow> host \<Rightarrow> alloc_result \<times> host" where
  "gpgpuMalloc host_alloc sz h =
     (let (r, d) = allocateDeviceBuffer host_alloc sz (ha_driver h) in (r, h\<lparr> ha_driver := d \<rparr>))"

definition gpgpuFree :: "u64 \<Rightarrow> host \<Rightarrow> bool \<times> host" where
  "gpgpuFree dev_ptr = on_driver (freeDeviceBuffer dev_ptr)"

definition gpgpuMemcpyH2D :: "u64 \<Rightarrow> u8 list \<Rightarrow> host \<Rightarrow> bool \<times> host" where
  "gpgpuMemcpyH2D dst_dev src = on_driver (copyHostToDevice dst_dev src)"

definition gpgpuMemcpyD2H :: "u64 \<Rightarrow> nat \<Rightarrow> host \<Rightarrow> u8 list option" where
  "gpgpuMemcpyD2H src_dev sz h = copyDeviceToHost src_dev sz (ha_driver h)"

definition setKernelArgument :: "string \<Rightarrow> u64 \<Rightarrow> host \<Rightarrow> bool \<times> host" where
  "setKernelArgument name v h = (True, h\<lparr> ha_staged_args := ha_staged_args h @ [v] \<rparr>)"

definition clearKernelArguments :: "host \<Rightarrow> bool \<times> host" where
  "clearKernelArguments h = (True, h\<lparr> ha_staged_args := [] \<rparr>)"

section \<open>PTX registry\<close>

definition gpgpuRegisterPtx :: "string \<Rightarrow> string \<Rightarrow> host \<Rightarrow> bool \<times> host" where
  "gpgpuRegisterPtx kernel_name src h =
     (if kernel_name = [] then failHostOperation ''PTX kernel name must not be empty'' h
      else if src = [] then failHostOperation ''PTX source must not be empty'' h
      else (True, h\<lparr> ha_registered_ptx := om_insert kernel_name src (ha_registered_ptx h), ha_last_error := [] \<rparr>))"

definition gpgpuUnregisterPtx :: "string \<Rightarrow> host \<Rightarrow> bool \<times> host" where
  "gpgpuUnregisterPtx kernel_name h =
     (if map_of (ha_registered_ptx h) kernel_name = None
      then failHostOperation (''PTX kernel is not registered: '' @ kernel_name) h
      else (True, h\<lparr> ha_registered_ptx := om_erase kernel_name (ha_registered_ptx h), ha_last_error := [] \<rparr>))"

definition gpgpuGetRegisteredPtx :: "string \<Rightarrow> host \<Rightarrow> string option" where
  "gpgpuGetRegisteredPtx kernel_name h = map_of (ha_registered_ptx h) kernel_name"

definition gpgpuRequireRegisteredPtx :: "string \<Rightarrow> bool \<Rightarrow> host \<Rightarrow> bool \<times> host" where
  "gpgpuRequireRegisteredPtx kernel_name required h =
     (if kernel_name = [] then (False, h)
      else (True, h\<lparr> ha_required_ptx :=
        (if required then insert kernel_name (ha_required_ptx h) else ha_required_ptx h - {kernel_name}) \<rparr>))"

definition gpgpuGetLastError :: "host \<Rightarrow> bool \<times> string" where
  "gpgpuGetLastError h = (ha_last_error h \<noteq> [], ha_last_error h)"

definition installKernelExecutionBackend :: "backend option \<Rightarrow> host \<Rightarrow> host" where
  "installKernelExecutionBackend b h = h\<lparr> ha_backend := b \<rparr>"

definition getKernelExecutionBackend :: "host \<Rightarrow> backend option" where
  "getKernelExecutionBackend h = ha_backend h"

section \<open>Launch\<close>

text \<open>A register access outside of the mapped block kills the process.\<close>

definition or_trap :: "'a option \<Rightarrow> ('a \<Rightarrow> 'b run option) \<Rightarrow> 'b run option" where
  "or_trap x f = (case x of None \<Rightarrow> Some HostTrap | Some y \<Rightarrow> f y)"

text \<open>The launch on the board: the error message, or \<open>None\<close> on success.\<close>

definition launchKernelOnFpga :: "board \<Rightarrow> string \<Rightarrow> KernelLaunchArgs \<Rightarrow> FpgaDriver \<Rightarrow> (string option \<times> FpgaDriver) run option" where
  "launchKernelOnFpga b elf_path launch f =
     (if \<not> isOpen f then Some (Finished (Some ''FPGA driver is not open'', f))
      else if elf_path = [] then Some (Finished (Some ''Failed to load kernel ELF into FPGA instruction memory'', f))
      else or_trap (loadElfFileToFpga (ba_files b elf_path) f) (\<lambda>(entry_point, f).
        if entry_point = None then Some (Finished (Some ''Failed to load kernel ELF into FPGA instruction memory'', f))
        else or_trap (writeReg REG_GRID_X (la_grid_x launch) f) (\<lambda>f.
          or_trap (writeReg REG_GRID_Y (la_grid_y launch) f) (\<lambda>f.
            or_trap (fd_start f) (\<lambda>f.
              case waitForStatus ST_RUNNING (ba_polls b) of
                None \<Rightarrow> None
              | Some seen \<Rightarrow>
                  if \<not> seen \<and> ba_status b \<noteq> status_value ST_DONE
                  then Some (Finished (Some ''FPGA did not transition to RUNNING within 10 ms'', f))
                  else Some (Finished (None, f)))))))"

text \<open>A kernel without a registered PTX text.\<close>

definition launch_loaded :: "build \<Rightarrow> KernelLaunchArgs \<Rightarrow> host \<Rightarrow> (bool \<times> host) run option" where
  "launch_loaded target launch h =
     (if la_kernel_name launch \<in> ha_required_ptx h
      then Some (Finished (failHostOperation (''Required PTX source is not registered: '' @ la_kernel_name launch) h))
      else let (ok, h) = on_driver (configureLaunch launch) h in
        if \<not> ok then Some (Finished (failHostOperation ''Failed to configure kernel launch'' h))
        else (case target of
            Simulated \<Rightarrow>
              let (ok, h) = on_driver startKernel h in
              Some (Finished (if \<not> ok then failHostOperation ''Failed to start kernel'' h
                              else (True, h\<lparr> ha_staged_args := [] \<rparr>)))
          | Board b \<Rightarrow>
              let (ok, h) = on_driver beginKernelExecution h in
              if \<not> ok then Some (Finished (failHostOperation ''Failed to begin FPGA kernel execution'' h))
              else map_option (map_run (\<lambda>(err, f). let h = h\<lparr> ha_fpga := f \<rparr> in
                  case err of
                    Some e \<Rightarrow> failHostOperation e (snd (on_driver (finishKernelExecution False) h))
                  | None \<Rightarrow> (True, h\<lparr> ha_staged_args := [] \<rparr>)))
                (launchKernelOnFpga b (dv_kernel_binary_path (ha_driver h)) launch (ha_fpga h))))"

text \<open>The error paths of a PTX launch up to the backend.\<close>

definition abort_launch :: "string \<Rightarrow> KernelLaunchArgs \<Rightarrow> host \<Rightarrow> bool \<times> host" where
  "abort_launch e launch h =
     (let h = snd (on_driver (configureLaunch launch) h);
          h = snd (on_driver (finishKernelExecution False) h)
      in failHostOperation e (h\<lparr> ha_staged_args := [] \<rparr>))"

definition finish_launch :: "bool \<Rightarrow> string \<Rightarrow> host \<Rightarrow> bool \<times> host" where
  "finish_launch executed backend_error h =
     (let h = (snd (on_driver (finishKernelExecution executed) h))\<lparr> ha_staged_args := [] \<rparr> in
      if \<not> executed
      then failHostOperation (if backend_error = [] then ''Kernel execution backend failed'' else backend_error) h
      else (True, h))"

definition run_backend :: "backend \<Rightarrow> KernelLaunchArgs \<Rightarrow> u8 list \<Rightarrow> host \<Rightarrow> (bool \<times> host) run option" where
  "run_backend backend launch elf h =
     map_option (map_run (\<lambda>(answer, d). let h = h\<lparr> ha_driver := d \<rparr> in
         case answer of
           Answered executed e \<Rightarrow> finish_launch executed e h
         | RaisedException what \<Rightarrow> finish_launch False (''Kernel execution backend exception: '' @ what) h
         | RaisedUnknown \<Rightarrow> finish_launch False ''Kernel execution backend raised an unknown exception'' h))
       (backend launch elf (ha_driver h))"

definition launch_image :: "KernelLaunchArgs \<Rightarrow> u8 list \<Rightarrow> host \<Rightarrow> (bool \<times> host) run option" where
  "launch_image launch elf h =
     (let (ok, h) = on_driver (configureLaunch launch) h in
      if \<not> ok then Some (Finished (failHostOperation ''Failed to configure transpiled kernel launch''
                            (h\<lparr> ha_staged_args := [] \<rparr>)))
      else (case getKernelExecutionBackend h of
          None \<Rightarrow>
            Some (Finished (failHostOperation ''No kernel execution backend is installed''
              ((snd (on_driver (finishKernelExecution False) h))\<lparr> ha_staged_args := [] \<rparr>)))
        | Some backend \<Rightarrow>
            let (ok, h) = on_driver beginKernelExecution h in
            if \<not> ok then Some (Finished (failHostOperation ''Failed to begin transpiled kernel execution''
                                 (h\<lparr> ha_staged_args := [] \<rparr>)))
            else run_backend backend launch elf h))"

definition launch_ptx :: "compile_outcome \<Rightarrow> KernelLaunchArgs \<Rightarrow> host \<Rightarrow> (bool \<times> host) run option" where
  "launch_ptx outcome launch h =
     (case outcome of
        CompileException what \<Rightarrow> Some (Finished (abort_launch (''PTX compilation exception: '' @ what) launch h))
      | CompileUnknown \<Rightarrow> Some (Finished (abort_launch ''PTX compilation raised an unknown exception'' launch h))
      | Compiled elf \<Rightarrow>
          if \<not> re_ok elf
          then Some (Finished (abort_launch (if re_error elf = [] then ''PTX compilation failed'' else re_error elf) launch h))
          else if re_bytes elf = [] \<or> re_entry_symbol elf = []
          then Some (Finished (abort_launch ''PTX compilation produced an incomplete ELF image'' launch h))
          else if re_entry_symbol elf \<noteq> la_kernel_name launch
          then Some (Finished (abort_launch
                 (''Registered kernel name does not match PTX entry symbol: '' @ re_entry_symbol elf) launch h))
          else launch_image (launch\<lparr> la_entry_symbol := re_entry_symbol elf \<rparr>) (re_bytes elf) h)"

text \<open>The launch arguments that the call builds; staged arguments stand in for an empty list.\<close>

definition launch_args :: "string \<Rightarrow> u32 \<times> u32 \<times> u32 \<Rightarrow> u32 \<times> u32 \<times> u32 \<Rightarrow> u64 list \<Rightarrow> u32 \<Rightarrow> host \<Rightarrow> KernelLaunchArgs" where
  "launch_args kernel_name = (\<lambda>(gx, gy, gz) (bx, by, bz) args shared_mem_bytes h.
     KernelLaunchArgs_default\<lparr> la_kernel_name := kernel_name, la_grid_x := gx, la_grid_y := gy, la_grid_z := gz,
       la_block_x := bx, la_block_y := by, la_block_z := bz, la_shared_mem_bytes := shared_mem_bytes,
       la_args := (if args = [] then ha_staged_args h else args) \<rparr>)"

definition has_zero :: "u32 \<times> u32 \<times> u32 \<Rightarrow> bool" where
  "has_zero = (\<lambda>(x, y, z). x = 0 \<or> y = 0 \<or> z = 0)"

definition gpgpuLaunchKernel :: "build \<Rightarrow> (string \<Rightarrow> compile_outcome) \<Rightarrow> string \<Rightarrow> u32 \<times> u32 \<times> u32 \<Rightarrow> u32 \<times> u32 \<times> u32 \<Rightarrow>
    u64 list \<Rightarrow> u32 \<Rightarrow> host \<Rightarrow> (bool \<times> host) run option" where
  "gpgpuLaunchKernel target compile kernel_name grid block args shared_mem_bytes h0 =
     (let h = h0\<lparr> ha_last_error := [] \<rparr> in
      if kernel_name = [] then Some (Finished (failHostOperation ''Kernel name must not be empty'' h))
      else if has_zero grid \<or> has_zero block
      then Some (Finished (failHostOperation ''Grid and block dimensions must be greater than zero'' h))
      else
        let launch = launch_args kernel_name grid block args shared_mem_bytes h in
        (case map_of (ha_registered_ptx h) kernel_name of
           None \<Rightarrow> launch_loaded target launch h
         | Some src \<Rightarrow> launch_ptx (compile src) launch h))"

section \<open>Synchronisation\<close>

text \<open>On the board: wait for \<open>DONE\<close>, with the status that is read after a timeout.\<close>

definition sync_board :: "board \<Rightarrow> host \<Rightarrow> (bool \<times> host) option" where
  "sync_board b h =
     (if \<not> isOpen (ha_fpga h) then Some (failHostOperation ''FPGA driver is not open'' h)
      else map_option (\<lambda>completed.
          if \<not> completed
          then failHostOperation
                 (if ba_status b = status_value ST_ERROR then ''FPGA reported ERROR during kernel execution''
                  else ''Timed out waiting for FPGA kernel completion'')
                 (snd (on_driver (finishKernelExecution False) h))
          else (True, snd (on_driver (finishKernelExecution True) h)))
        (waitForStatus ST_DONE (ba_polls b)))"

definition gpgpuSynchronize :: "build \<Rightarrow> host \<Rightarrow> (bool \<times> host) option" where
  "gpgpuSynchronize target h =
     (case target of
        Simulated \<Rightarrow> Some (pollKernelCompletion (ha_driver h), h)
      | Board b \<Rightarrow> sync_board b h)"

end
