(* ===== verification/BridgeRun.thy ===== *)
theory BridgeRun
  imports KernelBridge
begin

text \<open>
  The schedulers of the bridge: with a cycle limit every run ends, a barrier opens only when the whole block waits at it,
  and a launch of one thread is the run of its compute unit.
\<close>

section \<open>The energy of a worker\<close>

text \<open>Bounds the number of steps and releases a worker can still take.\<close>

definition energy :: "Worker \<Rightarrow> nat" where
  "energy w =
     (if \<not> wk_active w then 0
      else 1 + of_bool (worker_blocked w) +
        (if worker_complete w then 0 else 1 + 2 * (unat (bu_max_cycles (gc_binary (wk_cu w))) - unat (worker_cycles w))))"

definition limited :: "Worker \<Rightarrow> bool" where
  "limited w \<longleftrightarrow> bu_binary_mode (gc_binary (wk_cu w)) \<and> bu_max_cycles (gc_binary (wk_cu w)) > 0"

lemma binary_step_cases:
  assumes "binary_step fp b = Some b'" "\<not> bu_halted b" "\<not> bu_blocked b" "bu_max_cycles b > 0"
  shows "bu_max_cycles b' = bu_max_cycles b" "bu_binary_mode b' = bu_binary_mode b"
    "(bu_halted b' \<and> \<not> bu_blocked b') \<or>
     (unat (bu_total_cycles b) < unat (bu_max_cycles b) \<and> unat (bu_total_cycles b') = unat (bu_total_cycles b) + 1)"
proof -
  have run: "bu_max_cycles b' = bu_max_cycles b \<and> bu_binary_mode b' = bu_binary_mode b \<and>
      ((bu_halted b' \<and> \<not> bu_blocked b') \<or>
       (bu_total_cycles b < ucast (bu_max_cycles b) \<and> bu_total_cycles b' = bu_total_cycles b + 1))"
    using assms by (auto simp: binary_step_def Let_def not_le split: if_splits option.splits prod.splits)
  then show "bu_max_cycles b' = bu_max_cycles b" "bu_binary_mode b' = bu_binary_mode b" by simp_all
  show "(bu_halted b' \<and> \<not> bu_blocked b') \<or>
     (unat (bu_total_cycles b) < unat (bu_max_cycles b) \<and> unat (bu_total_cycles b') = unat (bu_total_cycles b) + 1)"
  proof (cases "bu_halted b' \<and> \<not> bu_blocked b'")
    case False
    then have r: "bu_total_cycles b < ucast (bu_max_cycles b)" "bu_total_cycles b' = bu_total_cycles b + 1" using run by auto
    then have lt: "unat (bu_total_cycles b) < unat (bu_max_cycles b)" by (simp add: word_less_nat_alt)
    moreover have "unat (bu_max_cycles b) < 2 ^ LENGTH(32)" by (rule unsigned_less)
    ultimately show ?thesis using r(2) by (simp add: unat_word_ariths)
  qed simp
qed

lemmas worker_defs = worker_blocked_def worker_complete_def worker_barrier_def worker_pc_def worker_cycles_def
  isBlocked_def cuIsComplete_def

text \<open>A step through the bridge is a step of the unit on the shared memory.\<close>

lemma step_worker_cases:
  assumes "step_worker fp cs mem w = Some (w', mem')" "limited w"
  obtains m b where "binary_step fp ((gc_binary (wk_cu w))\<lparr> bu_ext_memory := Some m \<rparr>) = Some b"
    "gc_binary (wk_cu w') = b" "wk_active w' = wk_active w" "wk_block_id w' = wk_block_id w"
  using assms by (auto simp: step_worker_def cuStep_def put_mem_def limited_def Let_def)

lemma step_worker_energy:
  assumes "step_worker fp cs mem w = Some (w', mem')" "limited w" "wk_active w" "\<not> worker_complete w" "\<not> worker_blocked w"
  shows "energy w' < energy w"
proof (rule step_worker_cases [OF assms(1,2)])
  fix m b
  let ?b0 = "(gc_binary (wk_cu w))\<lparr> bu_ext_memory := Some m \<rparr>"
  assume b: "binary_step fp ?b0 = Some b" "gc_binary (wk_cu w') = b" "wk_active w' = wk_active w" "wk_block_id w' = wk_block_id w"
  have pre: "\<not> bu_halted ?b0" "\<not> bu_blocked ?b0" "bu_max_cycles ?b0 > 0"
    using assms(2,4,5) by (simp_all add: limited_def worker_defs)
  note c = binary_step_cases [OF b(1) pre]
  have mode: "bu_binary_mode b" "bu_binary_mode (gc_binary (wk_cu w))" using c(2) assms(2) by (simp_all add: limited_def)
  show ?thesis
    using c(1,3) pre mode b(2,3) assms(3) by (auto simp: energy_def worker_defs)
qed

lemma step_worker_limited:
  assumes "step_worker fp cs mem w = Some (w', mem')" "limited w"
  shows "limited w'"
proof (rule step_worker_cases [OF assms])
  fix m b
  assume b: "binary_step fp ((gc_binary (wk_cu w))\<lparr> bu_ext_memory := Some m \<rparr>) = Some b" "gc_binary (wk_cu w') = b"
  have "bu_max_cycles b = bu_max_cycles (gc_binary (wk_cu w)) \<and> bu_binary_mode b = bu_binary_mode (gc_binary (wk_cu w))"
    using b(1) by (auto simp: binary_step_def Let_def split: if_splits option.splits prod.splits)
  then show ?thesis using assms(2) b(2) by (simp add: limited_def)
qed

text \<open>A completed worker does not move.\<close>

lemma step_worker_complete:
  assumes "step_worker fp cs mem w = Some (w', mem')" "limited w" "worker_complete w"
  shows "worker_complete w'" "wk_active w' = wk_active w"
  using assms by (auto simp: step_worker_def cuStep_def put_mem_def limited_def worker_defs binary_step_def Let_def
      split: option.splits)

lemma release_worker_energy: "energy (release_worker block bid w) \<le> energy w"
  by (auto simp: energy_def release_worker_def worker_defs on_binary_def releaseBarrier_def)

lemma release_worker_opens:
  "waits_at block bid w \<Longrightarrow> energy (release_worker block bid w) < energy w"
  by (auto simp: waits_at_def energy_def release_worker_def worker_defs on_binary_def releaseBarrier_def)

lemma release_worker_limited [simp]: "limited (release_worker block bid w) = limited w"
  by (simp add: limited_def release_worker_def on_binary_def releaseBarrier_def)

lemma release_worker_complete [simp]: "worker_complete (release_worker block bid w) = worker_complete w"
  by (simp add: worker_defs release_worker_def on_binary_def releaseBarrier_def)

lemma retire_energy: "energy (fst (retire w kb)) \<le> energy w" "worker_complete w \<Longrightarrow> energy (fst (retire w kb)) = 0"
  by (auto simp: retire_def energy_def)

lemma retire_limited [simp]: "limited (fst (retire w kb)) = limited w"
  by (simp add: retire_def limited_def)

lemma note_pc_simps [simp]: "wk_cu (note_pc pc w) = wk_cu w" "wk_active (note_pc pc w) = wk_active w"
    "wk_block_id (note_pc pc w) = wk_block_id w"
  by (simp_all add: note_pc_def Let_def)

lemma note_pc_keeps [simp]: "energy (note_pc pc w) = energy w" "limited (note_pc pc w) = limited w"
  by (simp_all add: energy_def limited_def worker_defs)

section \<open>The scalar scheduler ends\<close>

definition total_energy :: "Worker list \<Rightarrow> nat" where
  "total_energy ws = sum_list (map energy ws)"

lemma sum_map_update:
  fixes f :: "'a \<Rightarrow> nat"
  shows "i < length xs \<Longrightarrow> sum_list (map f (xs[i := x])) + f (xs ! i) = sum_list (map f xs) + f x"
  by (induction xs arbitrary: i) (auto split: nat.splits)

lemma total_energy_update:
  "i < length ws \<Longrightarrow> total_energy (ws[i := w]) + energy (ws ! i) = total_energy ws + energy w"
  unfolding total_energy_def by (rule sum_map_update)

lemma total_energy_release: "total_energy (map (release_worker block bid) ws) \<le> total_energy ws"
  unfolding total_energy_def by (simp add: comp_def) (intro sum_list_mono release_worker_energy)

lemma scalar_barrier_keeps:
  "total_energy (scalar_barrier tpb idx ws) \<le> total_energy ws" "length (scalar_barrier tpb idx ws) = length ws"
  "list_all limited ws \<Longrightarrow> list_all limited (scalar_barrier tpb idx ws)"
  by (auto simp: scalar_barrier_def Let_def total_energy_release list_all_iff)

lemma scalar_barrier_at:
  assumes "i < length ws"
  shows "energy (scalar_barrier tpb idx ws ! i) \<le> energy (ws ! i)"
    "worker_complete (scalar_barrier tpb idx ws ! i) = worker_complete (ws ! i)"
  using assms by (auto simp: scalar_barrier_def Let_def release_worker_energy)

text \<open>What a visit does to the workers.\<close>

lemma scalar_visit_cases:
  assumes "scalar_visit fp cs tpb idx st = Some st'"
  obtains (idle) "\<not> wk_active (ss_workers st ! idx)" "st' = st"
  | (waiting) "wk_active (ss_workers st ! idx)" "worker_blocked (ss_workers st ! idx)"
      "ss_workers st' = (ss_workers st)[idx := (ss_workers st ! idx)
         \<lparr> wk_blocked_steps := wk_blocked_steps (ss_workers st ! idx) + 1 \<rparr>]"
      "ss_made_progress st' = ss_made_progress st"
  | (step) w1 mem ws where "wk_active (ss_workers st ! idx)" "\<not> worker_blocked (ss_workers st ! idx)"
      "step_worker fp cs (ss_mem st) (ss_workers st ! idx) = Some (w1, mem)"
      "ws = scalar_barrier tpb idx ((ss_workers st)[idx := note_pc (worker_pc (ss_workers st ! idx)) w1])"
      "ss_workers st' = ws[idx := fst (retire (ws ! idx) (ss_bridge st))]"
proof -
  let ?w = "ss_workers st ! idx"
  consider "\<not> wk_active ?w" | "wk_active ?w" "worker_blocked ?w" | "wk_active ?w" "\<not> worker_blocked ?w" by blast
  then show thesis
  proof cases
    case 1
    then show thesis using assms by (intro idle) (simp_all add: scalar_visit_def)
  next
    case 2
    then have "st' = st\<lparr> ss_any_active := True, ss_workers := (ss_workers st)[idx := ?w
        \<lparr> wk_blocked_steps := wk_blocked_steps ?w + 1 \<rparr>] \<rparr>"
      using assms by (simp add: scalar_visit_def Let_def)
    then show thesis using 2 by (intro waiting) simp_all
  next
    case 3
    obtain w1 mem where s: "step_worker fp cs (ss_mem st) ?w = Some (w1, mem)"
      using assms(1) 3 by (auto simp: scalar_visit_def Let_def)
    show thesis
      by (rule step [OF 3 s refl]) (use assms(1) 3 s in \<open>auto simp: scalar_visit_def Let_def split_def\<close>)
  qed
qed

lemma scalar_visit_energy:
  assumes "scalar_visit fp cs tpb idx st = Some st'" "idx < length (ss_workers st)" "list_all limited (ss_workers st)"
  shows "length (ss_workers st') = length (ss_workers st) \<and> list_all limited (ss_workers st') \<and>
    (total_energy (ss_workers st') < total_energy (ss_workers st) \<or>
     (total_energy (ss_workers st') = total_energy (ss_workers st) \<and> ss_made_progress st' = ss_made_progress st))"
  using assms(1)
proof (cases rule: scalar_visit_cases)
  let ?w = "ss_workers st ! idx"
  have lim: "limited ?w" using assms(2,3) by (simp add: list_all_length)
  {
    case idle
    then show ?thesis using assms by simp
  next
    case waiting
    let ?w' = "?w\<lparr> wk_blocked_steps := wk_blocked_steps ?w + 1 \<rparr>"
    have "energy ?w' = energy ?w" "limited ?w'" using lim by (simp_all add: energy_def worker_defs limited_def)
    then show ?thesis
      using waiting assms total_energy_update [OF assms(2), of ?w'] by (auto simp: list_all_length nth_list_update)
  next
    case (step w1 mem ws)
    define w2 where "w2 = note_pc (worker_pc ?w) w1"
    define r where "r = retire (ws ! idx) (ss_bridge st)"
    have ws: "ws = scalar_barrier tpb idx ((ss_workers st)[idx := w2])" using step(4) by (simp add: w2_def)
    have lw2: "limited w2" using step_worker_limited [OF step(3) lim] by (simp add: w2_def)
    have len: "length ws = length (ss_workers st)" by (simp add: ws scalar_barrier_keeps)
    have lws: "list_all limited ws"
      unfolding ws using assms(2,3) lw2 by (intro scalar_barrier_keeps(3)) (auto simp: list_all_length nth_list_update)
    then have "limited (fst r)" unfolding r_def using len assms(2) by (simp add: list_all_length)
    then have lim': "list_all limited (ss_workers st')"
      using lws len assms(2) by (auto simp: step(5) r_def list_all_length nth_list_update)
    have at: "energy (ws ! idx) \<le> energy w2" "worker_complete (ws ! idx) = worker_complete w2"
      using scalar_barrier_at [of idx "(ss_workers st)[idx := w2]" tpb idx] assms(2) by (simp_all add: ws)
    have "energy (ws[idx := ?w] ! i) \<le> energy (ss_workers st ! i)" if "i < length (ss_workers st)" for i
      using that len scalar_barrier_at(1) [of i "(ss_workers st)[idx := w2]" tpb idx]
      by (cases "i = idx") (simp_all add: ws)
    then have "total_energy (ws[idx := ?w]) \<le> total_energy (ss_workers st)"
      unfolding total_energy_def by (intro sum_list_mono2) (simp_all add: len)
    moreover have "energy (fst r) < energy ?w"
    proof (cases "worker_complete w1")
      case True
      then have "energy (fst r) = 0" using at(2) by (simp add: r_def w2_def retire_energy worker_complete_def)
      then show ?thesis using step(1) by (simp add: energy_def)
    next
      case False
      then have "\<not> worker_complete ?w" using step_worker_complete [OF step(3) lim] by blast
      then have "energy w1 < energy ?w" using step_worker_energy [OF step(3) lim] step(1,2) by blast
      then show ?thesis using at(1) retire_energy(1) [of "ws ! idx" "ss_bridge st"] by (simp add: r_def w2_def)
    qed
    moreover have "total_energy (ws[idx := fst r]) + energy ?w = total_energy (ws[idx := ?w]) + energy (fst r)"
      using total_energy_update [of idx "ws[idx := ?w]" "fst r"] len assms(2) by simp
    ultimately have "total_energy (ss_workers st') < total_energy (ss_workers st)" by (simp add: step(5) r_def)
    then show ?thesis using lim' len by (simp add: step(5))
  }
qed

lemma scalar_scan_energy:
  "scalar_scan fp cs tpb n idxs st = Some st' \<Longrightarrow> list_all (\<lambda>i. i < length (ss_workers st)) idxs \<Longrightarrow>
   list_all limited (ss_workers st) \<Longrightarrow>
   length (ss_workers st') = length (ss_workers st) \<and> list_all limited (ss_workers st') \<and>
    (total_energy (ss_workers st') < total_energy (ss_workers st) \<or>
     (total_energy (ss_workers st') = total_energy (ss_workers st) \<and> ss_made_progress st' = ss_made_progress st))"
proof (induction idxs arbitrary: st)
  case (Cons i idxs)
  show ?case
  proof (cases "ss_selected st < n")
    case True
    then obtain s1 where s1: "scalar_visit fp cs tpb i st = Some s1" "scalar_scan fp cs tpb n idxs s1 = Some st'"
      using Cons.prems(1) by (auto simp: bind_eq_Some_conv)
    have i: "i < length (ss_workers st)" using Cons.prems(2) by simp
    note v = scalar_visit_energy [OF s1(1) i Cons.prems(3)]
    have "list_all (\<lambda>i. i < length (ss_workers s1)) idxs" using Cons.prems(2) v by simp
    from Cons.IH [OF s1(2) this] v show ?thesis by auto
  qed (use Cons.prems in auto)
qed auto

lemma bridge_scalar_loop_ends: "list_all limited (ss_workers st) \<Longrightarrow> \<exists>r. bridge_scalar_loop fp cs tpb n cursor st = Some r"
proof (induction "total_energy (ss_workers st)" arbitrary: st cursor rule: less_induct)
  case less
  show ?case
  proof (cases "scalar_pass fp cs tpb n cursor st")
    case None
    then show ?thesis by (subst bridge_scalar_loop.simps) simp
  next
    case (Some st')
    let ?st = "st\<lparr> ss_selected := 0, ss_any_active := False, ss_made_progress := False \<rparr>"
    have "list_all (\<lambda>i. i < length (ss_workers st)) (scan_order cursor (length (ss_workers st)))"
      by (auto simp: scan_order_def list_all_iff intro!: mod_less_divisor)
    then have "list_all limited (ss_workers st')" "total_energy (ss_workers st') < total_energy (ss_workers st) \<or> \<not> ss_made_progress st'"
      using scalar_scan_energy [of fp cs tpb n "scan_order cursor (length (ss_workers st))" ?st st'] Some less.prems
      by (auto simp: scalar_pass_def)
    then show ?thesis
      using less.hyps [of st'] Some by (subst bridge_scalar_loop.simps) auto
  qed
qed

section \<open>The warp scheduler ends\<close>

definition group_energy :: "WarpGroup list \<Rightarrow> nat" where
  "group_energy gs = sum_list (map (\<lambda>g. total_energy (wg_threads g)) gs)"

definition limited_groups :: "WarpGroup list \<Rightarrow> bool" where
  "limited_groups gs \<longleftrightarrow> list_all (\<lambda>g. list_all limited (wg_threads g)) gs"

lemma limited_groups_nth: "limited_groups gs \<Longrightarrow> i < length gs \<Longrightarrow> list_all limited (wg_threads (gs ! i))"
  by (simp add: limited_groups_def list_all_length)

lemma limited_groups_update: "limited_groups gs \<Longrightarrow> list_all limited (wg_threads g) \<Longrightarrow> limited_groups (gs[i := g])"
  by (cases "i < length gs") (auto simp: limited_groups_def list_all_length nth_list_update)

lemma group_energy_update:
  "i < length gs \<Longrightarrow>
   group_energy (gs[i := g]) + total_energy (wg_threads (gs ! i)) = group_energy gs + total_energy (wg_threads g)"
  unfolding group_energy_def by (rule sum_map_update)

lemma step_threads_energy:
  "step_threads fp cs ws mem = Some (ws', mem') \<Longrightarrow> list_all limited ws \<Longrightarrow>
   length ws' = length ws \<and> list_all limited ws' \<and> total_energy ws' \<le> total_energy ws \<and>
   (list_ex worker_ready ws \<longrightarrow> total_energy ws' < total_energy ws)"
proof (induction ws arbitrary: mem ws' mem')
  case (Cons w ws)
  obtain w1 m1 ws1 where s: "(if worker_ready w then step_worker fp cs mem w else Some (w, mem)) = Some (w1, m1)"
      "step_threads fp cs ws m1 = Some (ws1, mem')" "ws' = w1 # ws1"
    using Cons.prems(1) by (auto simp: bind_eq_Some_conv)
  have "list_all limited ws" using Cons.prems(2) by simp
  from Cons.IH [OF s(2) this] have ih: "length ws1 = length ws" "list_all limited ws1" "total_energy ws1 \<le> total_energy ws"
      "list_ex worker_ready ws \<Longrightarrow> total_energy ws1 < total_energy ws" by simp_all
  show ?case
  proof (cases "worker_ready w")
    case True
    then have sw: "step_worker fp cs mem w = Some (w1, m1)" using s(1) by simp
    have "limited w" using Cons.prems(2) by simp
    then have "energy w1 < energy w" "limited w1"
      using step_worker_energy [OF sw] step_worker_limited [OF sw] True by (simp_all add: worker_ready_def)
    then show ?thesis using ih s(3) by (simp add: total_energy_def)
  next
    case False
    then show ?thesis using s(1,3) ih Cons.prems(2) by (auto simp: total_energy_def)
  qed
qed simp

lemma release_list_strict:
  assumes "w \<in> set ws" "waits_at block bid w"
  shows "total_energy (map (release_worker block bid) ws) < total_energy ws"
  using assms
proof (induction ws)
  case (Cons x ws)
  then show ?case
    using total_energy_release [of block bid ws] release_worker_energy [of block bid x] release_worker_opens [of block bid x]
    by (auto simp: total_energy_def comp_def)
qed simp

lemma release_groups_energy:
  "group_energy (release_groups block bid gs) \<le> group_energy gs"
  "gi < length gs \<Longrightarrow> w \<in> set (wg_threads (gs ! gi)) \<Longrightarrow> waits_at block bid w \<Longrightarrow>
   group_energy (release_groups block bid gs) < group_energy gs"
proof -
  show le: "group_energy (release_groups block bid gs) \<le> group_energy gs" for gs
    unfolding group_energy_def release_groups_def by (simp add: comp_def) (intro sum_list_mono total_energy_release)
  assume "gi < length gs" "w \<in> set (wg_threads (gs ! gi))" "waits_at block bid w"
  then show "group_energy (release_groups block bid gs) < group_energy gs"
  proof (induction gs arbitrary: gi)
    case (Cons g gs)
    show ?case
    proof (cases gi)
      case 0
      then have "total_energy (map (release_worker block bid) (wg_threads g)) < total_energy (wg_threads g)"
        using Cons.prems by (intro release_list_strict) simp_all
      then show ?thesis using le [of gs] by (simp add: group_energy_def release_groups_def)
    next
      case (Suc j)
      then show ?thesis
        using Cons.IH [of j] Cons.prems total_energy_release [of block bid "wg_threads g"]
        by (simp add: group_energy_def release_groups_def)
    qed
  qed simp
qed

text \<open>The shape of the groups: how many threads each has.\<close>

definition group_sizes :: "WarpGroup list \<Rightarrow> nat list" where
  "group_sizes gs = map (\<lambda>g. length (wg_threads g)) gs"

lemma group_sizes_nth: "group_sizes gs = group_sizes gs' \<Longrightarrow> i < length gs \<Longrightarrow>
    length gs' = length gs \<and> length (wg_threads (gs' ! i)) = length (wg_threads (gs ! i))"
  unfolding group_sizes_def by (metis length_map nth_map)

lemma warp_barrier_energy:
  assumes "warp_barrier tpb gi ti (gs, p) = (gs', p')" "gi < length gs" "ti < length (wg_threads (gs ! gi))" "limited_groups gs"
  shows "group_sizes gs' = group_sizes gs \<and> limited_groups gs' \<and>
    (group_energy gs' < group_energy gs \<or> (group_energy gs' = group_energy gs \<and> p' = p))"
proof -
  let ?w = "wg_threads (gs ! gi) ! ti"
  show ?thesis
  proof (cases "wk_active ?w \<and> worker_blocked ?w \<and>
      arrived (wk_block_id ?w) (worker_barrier ?w) (all_workers gs) = tpb")
    case True
    then have "waits_at (wk_block_id ?w) (worker_barrier ?w) ?w" by (simp add: waits_at_def)
    then have "group_energy (release_groups (wk_block_id ?w) (worker_barrier ?w) gs) < group_energy gs"
      using assms(2,3) by (intro release_groups_energy(2) [of gi]) simp_all
    then show ?thesis
      using True assms(1,4)
      by (auto simp: warp_barrier_def Let_def group_sizes_def release_groups_def limited_groups_def list_all_iff)
  qed (use assms in \<open>auto simp: warp_barrier_def Let_def split: if_splits\<close>)
qed

lemma warp_barriers_energy:
  "fold (warp_barrier tpb gi) tis (gs, p) = (gs', p') \<Longrightarrow> gi < length gs \<Longrightarrow>
   list_all (\<lambda>ti. ti < length (wg_threads (gs ! gi))) tis \<Longrightarrow> limited_groups gs \<Longrightarrow>
   group_sizes gs' = group_sizes gs \<and> limited_groups gs' \<and>
    (group_energy gs' < group_energy gs \<or> (group_energy gs' = group_energy gs \<and> p' = p))"
proof (induction tis arbitrary: gs p)
  case (Cons ti tis)
  obtain g1 p1 where g1: "warp_barrier tpb gi ti (gs, p) = (g1, p1)" by fastforce
  have "ti < length (wg_threads (gs ! gi))" using Cons.prems(3) by simp
  note b = warp_barrier_energy [OF g1 Cons.prems(2) this Cons.prems(4)]
  have "gi < length g1" "length (wg_threads (g1 ! gi)) = length (wg_threads (gs ! gi))"
    using b Cons.prems(2) group_sizes_nth [of gs g1 gi] by simp_all
  then show ?case using Cons.IH [of g1 p1] Cons.prems b g1 by auto
qed auto

lemma retire_all_energy:
  "list_all limited ws \<Longrightarrow> length (fst (retire_all ws kb)) = length ws \<and> list_all limited (fst (retire_all ws kb)) \<and>
   total_energy (fst (retire_all ws kb)) \<le> total_energy ws"
proof (induction ws arbitrary: kb)
  case (Cons w ws)
  obtain w' kb' where r: "retire w kb = (w', kb')" by fastforce
  then have "energy w' \<le> energy w" "limited w' = limited w" using retire_energy(1) [of w kb] retire_limited [of w kb] by simp_all
  then show ?case using Cons r by (simp add: Let_def total_energy_def split_def add_mono)
qed simp

lemma warp_visit_energy:
  assumes "warp_visit fp cs tpb gi st = Some st'" "gi < length (ws_groups st)" "limited_groups (ws_groups st)"
  shows "length (ws_groups st') = length (ws_groups st) \<and> limited_groups (ws_groups st') \<and>
    group_energy (ws_groups st') \<le> group_energy (ws_groups st) \<and>
    (group_energy (ws_groups st') < group_energy (ws_groups st) \<or> ws_made_progress st' = ws_made_progress st)"
proof (cases "wg_active (ws_groups st ! gi)")
  case False
  then show ?thesis using assms by (simp add: warp_visit_def Let_def)
next
  case True
  let ?g = "ws_groups st ! gi"
  obtain threads mem where t: "step_threads fp cs (wg_threads ?g) (ws_mem st) = Some (threads, mem)"
    using assms(1) True by (auto simp: warp_visit_def Let_def)
  define g0 where "g0 = (ws_groups st)[gi := ?g\<lparr> wg_threads := threads \<rparr>]"
  define p0 where "p0 = (ws_made_progress st \<or> list_ex worker_ready (wg_threads ?g))"
  obtain g1 p1 where f: "fold (warp_barrier tpb gi) [0..<length threads] (g0, p0) = (g1, p1)" by fastforce
  obtain g2 kb2 where d: "detect_divergence (g1 ! gi) (ws_bridge st) = (g2, kb2)" by fastforce
  obtain g3 kb3 where c: "collect_threads g2 kb2 = (g3, kb3)" by fastforce
  have st': "ws_groups st' = g1[gi := g3]" "ws_made_progress st' = p1"
    using assms(1) True t f d c by (auto simp: warp_visit_def Let_def g0_def p0_def)
  have lt: "list_all limited (wg_threads ?g)" using assms(2,3) by (rule limited_groups_nth [rotated])
  from step_threads_energy [OF t lt] have te: "length threads = length (wg_threads ?g)" "list_all limited threads"
      "total_energy threads \<le> total_energy (wg_threads ?g)"
      "list_ex worker_ready (wg_threads ?g) \<Longrightarrow> total_energy threads < total_energy (wg_threads ?g)" by simp_all
  have g0: "length g0 = length (ws_groups st)" "limited_groups g0" "wg_threads (g0 ! gi) = threads"
    using assms(2,3) te(2) by (simp_all add: g0_def limited_groups_update)
  have e0: "group_energy g0 + total_energy (wg_threads ?g) = group_energy (ws_groups st) + total_energy threads"
    unfolding g0_def using group_energy_update [OF assms(2), of "?g\<lparr> wg_threads := threads \<rparr>"] by simp
  have b: "group_sizes g1 = group_sizes g0" "limited_groups g1"
      "group_energy g1 < group_energy g0 \<or> (group_energy g1 = group_energy g0 \<and> p1 = p0)"
    using warp_barriers_energy [OF f] assms(2) g0 by (simp_all add: list_all_iff)
  have gi1: "gi < length g1" using b(1) g0(1) assms(2) by (metis group_sizes_def length_map)
  have g2: "wg_threads g2 = wg_threads (g1 ! gi)"
    using d by (auto simp: detect_divergence_def Let_def split: prod.splits if_splits)
  have "g3 = g2\<lparr> wg_threads := fst (retire_all (wg_threads g2) kb2), wg_active := wg_active g3 \<rparr>"
    using c by (auto simp: collect_threads_def Let_def split: prod.splits)
  then have g3: "wg_threads g3 = fst (retire_all (wg_threads (g1 ! gi)) kb2)" by (metis WarpGroup.select_convs(1) WarpGroup.surjective WarpGroup.update_convs(1,2) g2)
  have r: "list_all limited (wg_threads g3)" "total_energy (wg_threads g3) \<le> total_energy (wg_threads (g1 ! gi))"
    using retire_all_energy [OF limited_groups_nth [OF b(2) gi1], of kb2] by (simp_all add: g3)
  have "group_energy (g1[gi := g3]) \<le> group_energy g1"
    using group_energy_update [OF gi1, of g3] r(2) by linarith
  moreover have "limited_groups (g1[gi := g3])" using b(2) r(1) by (rule limited_groups_update)
  moreover have "length g1 = length (ws_groups st)" using b(1) g0(1) by (metis group_sizes_def length_map)
  moreover have "group_energy g1 < group_energy (ws_groups st) \<or> p1 = ws_made_progress st"
    using e0 te(3,4) b(3) by (cases "list_ex worker_ready (wg_threads ?g)") (auto simp: p0_def)
  moreover have "group_energy g1 \<le> group_energy (ws_groups st)" using e0 te(3) b(3) by linarith
  ultimately show ?thesis using st' by auto
qed

lemma warp_scan_energy:
  "warp_scan fp cs tpb gis st = Some st' \<Longrightarrow> list_all (\<lambda>gi. gi < length (ws_groups st)) gis \<Longrightarrow>
   limited_groups (ws_groups st) \<Longrightarrow>
   length (ws_groups st') = length (ws_groups st) \<and> limited_groups (ws_groups st') \<and>
    group_energy (ws_groups st') \<le> group_energy (ws_groups st) \<and>
    (group_energy (ws_groups st') < group_energy (ws_groups st) \<or> ws_made_progress st' = ws_made_progress st)"
proof (induction gis arbitrary: st)
  case (Cons gi gis)
  obtain s1 where s1: "warp_visit fp cs tpb gi st = Some s1" "warp_scan fp cs tpb gis s1 = Some st'"
    using Cons.prems(1) by (auto simp: bind_eq_Some_conv)
  have "gi < length (ws_groups st)" using Cons.prems(2) by simp
  note v = warp_visit_energy [OF s1(1) this Cons.prems(3)]
  have "list_all (\<lambda>gi. gi < length (ws_groups s1)) gis" using Cons.prems(2) v by simp
  from Cons.IH [OF s1(2) this] v show ?case by auto
qed auto

lemma bridge_warp_loop_ends: "limited_groups (ws_groups st) \<Longrightarrow> \<exists>r. bridge_warp_loop fp cs tpb st = Some r"
proof (induction "group_energy (ws_groups st)" arbitrary: st rule: less_induct)
  case less
  let ?st = "st\<lparr> ws_any_active := False, ws_made_progress := False \<rparr>"
  show ?case
  proof (cases "warp_scan fp cs tpb [0..<length (ws_groups st)] ?st")
    case None
    then show ?thesis by (subst bridge_warp_loop.simps) simp
  next
    case (Some st')
    then have "limited_groups (ws_groups st')" "group_energy (ws_groups st') < group_energy (ws_groups st) \<or> \<not> ws_made_progress st'"
      using warp_scan_energy [of fp cs tpb "[0..<length (ws_groups st)]" ?st st'] less.prems by (auto simp: list_all_iff)
    then show ?thesis using less.hyps [of st'] Some by (subst bridge_warp_loop.simps) auto
  qed
qed

section \<open>Workers of a launch\<close>

lemma makeWorker_limited: "bc_max_sim_cycles cfg > 0 \<Longrightarrow> limited (fst (makeWorker cfg sh pc regs g mem))"
  by (simp add: makeWorker_def Let_def limited_def on_binary_def cuLaunchKernel_def ComputeUnit_init_def binary_reset_def
      setMemory_def setEntryPoint_def setInitialRegisters_def setReturnSentinel_def setBlockID_def)

lemma make_workers_limited:
  "bc_max_sim_cycles cfg > 0 \<Longrightarrow> list_all limited (fst (make_workers cfg sh pc regs gs mem))"
  by (induction gs arbitrary: mem) (auto simp: Let_def split_def makeWorker_limited)

lemma make_groups_limited:
  "bc_max_sim_cycles cfg > 0 \<Longrightarrow> limited_groups (fst (make_groups cfg sh pc regs ids mem))"
  by (induction ids arbitrary: mem) (simp_all add: limited_groups_def Let_def split_def make_workers_limited)

lemma run_returns:
  assumes "bc_max_sim_cycles (kb_cfg kb) > 0"
  shows "runOnHardware fp files kernel_name binary_path kernel_args device_ptrs (kb, d) \<noteq> None"
proof -
  have "run_warps fp (kb_cfg kb) bs k \<noteq> None" for bs k
    using make_groups_limited [OF assms] bridge_warp_loop_ends
    by (auto simp: run_warps_def Let_def split_def)
  moreover have "run_scalar fp (kb_cfg kb) bs k \<noteq> None" for bs k
    using make_workers_limited [OF assms] bridge_scalar_loop_ends by (auto simp: run_scalar_def scalar_start_def Let_def split_def)
  ultimately show ?thesis
    by (auto simp: runOnHardware_def Let_def split: option.splits sum.splits)
qed

section \<open>Properties\<close>

text \<open>C14: with a cycle limit, every run of the bridge returns (or the host traps), under both schedulers, whatever the
  kernel does: endless loops, barriers that not all threads reach, and barriers inside divergent code included.\<close>

theorem bridge_run_returns:
  assumes "bc_max_sim_cycles (kb_cfg kb) > 0"
  shows "runOnHardware fp files kernel_name binary_path kernel_args device_ptrs (kb, d) \<noteq> None"
  using assms by (rule run_returns)

section \<open>Witnesses\<close>

theorem bridge_run_returns_witness:
  "\<forall>fp. runOnHardware fp (\<lambda>_. Some demo_elf) ''mul'' ''mul.elf'' [] [] (KernelBridge_init BridgeConfig_default, driver_init) \<noteq> None"
  by (intro allI bridge_run_returns) (simp add: KernelBridge_init_def BridgeConfig_default_def)

end
