(* ===== verification/HostLaunch.thy ===== *)
theory HostLaunch
  imports HostApi BridgeRun
begin

text \<open>
  Launches through the host API: the SystemC backend \<open>executeWithSystemC\<close> of
  \<open>models/systemc/integration/systemc_host_backend.cpp\<close>, and what a launch does. What a launch needs from a
  backend (it returns, and leaves the execution state of the driver alone) is the locale \<open>kernel_backend\<close>; the
  backend of the repository is an instance, because the bridge returns under its cycle limit. Creating the temporary
  file is an argument: its path, or the message of the failure.
\<close>

section \<open>The SystemC backend\<close>

definition bridge_message :: "bridge_error \<Rightarrow> string" where
  "bridge_message e = (case e of
       NoError \<Rightarrow> []
     | ElfFailed p \<Rightarrow> ''Failed to load ELF: '' @ p
     | BufferNotFound p \<Rightarrow> ''Device buffer not found: '' @ show_nat (unat p)
     | TooManyArguments \<Rightarrow> ''RV32 ABI supports at most 8 kernel arguments''
     | ArgumentTooWide i \<Rightarrow> ''Kernel argument '' @ show_nat i @ '' does not fit RV32''
     | SharedMemoryExceeded \<Rightarrow> ''Requested shared memory exceeds configured capacity''
     | SharedMemoryRefused b \<Rightarrow> ''Failed to allocate shared memory for block '' @ show_nat (unat b)
     | WarpDeadlock \<Rightarrow> ''Barrier deadlock in warp scheduler''
     | ScalarDeadlock \<Rightarrow> ''Barrier deadlock in scalar scheduler''
     | WriteBackFailed p \<Rightarrow> ''Failed to write results to device buffer '' @ show_nat (unat p))"

definition systemc_config :: BridgeConfig where
  "systemc_config = BridgeConfig_default\<lparr> bc_threads_per_warp := 1, bc_print_stats := False \<rparr>"

definition executeWithSystemC :: "rv_fpu \<Rightarrow> (u8 list \<Rightarrow> string + string) \<Rightarrow> backend" where
  "executeWithSystemC fp temp_file launch elf d =
     (if elf = [] then Some (Finished (Answered False ''SystemC backend received an empty ELF image'', d))
      else case temp_file elf of
        Inl e \<Rightarrow> Some (Finished (Answered False e, d))
      | Inr path \<Rightarrow>
          map_option (map_run (\<lambda>(ok, kb, d).
              (if ok then Answered True []
               else Answered False (if kb_error kb = NoError then ''KernelBridge execution failed''
                                    else bridge_message (kb_error kb)), d)))
            (runOnHardware fp (\<lambda>p. if p = path then Some elf else None) (la_kernel_name launch) path (la_args launch)
               (getAllocatedDeviceBufferAddresses d) (KernelBridge_init systemc_config, d)))"

definition installSystemCKernelExecutionBackend :: "rv_fpu \<Rightarrow> (u8 list \<Rightarrow> string + string) \<Rightarrow> host \<Rightarrow> host" where
  "installSystemCKernelExecutionBackend fp temp_file = installKernelExecutionBackend (Some (executeWithSystemC fp temp_file))"

section \<open>What a launch needs from a backend\<close>

definition settled :: "host \<Rightarrow> bool \<times> host \<Rightarrow> bool" where
  "settled h = (\<lambda>(ok, h'). ha_staged_args h' = [] \<and> dv_exec_state (ha_driver h') = (if ok then COMPLETED else FAILED) \<and>
     (ha_last_error h' = [] \<longleftrightarrow> ok) \<and> ha_registered_ptx h' = ha_registered_ptx h \<and>
     ha_required_ptx h' = ha_required_ptx h \<and> ha_fpga h' = ha_fpga h)"

text \<open>The call returns a result with the property, or the process dies.\<close>

definition returns_with :: "('a \<Rightarrow> bool) \<Rightarrow> 'a run option \<Rightarrow> bool" where
  "returns_with P r = (case r of None \<Rightarrow> False | Some HostTrap \<Rightarrow> True | Some (Finished x) \<Rightarrow> P x)"

lemmas launch_simps = failHostOperation_def on_driver_def configureLaunch_def beginKernelExecution_def
  finishKernelExecution_def getKernelExecutionBackend_def

lemma settled_abort:
  "ha_last_error h = [] \<Longrightarrow> e \<noteq> [] \<Longrightarrow> settled h (abort_launch e launch h)"
  by (simp add: settled_def abort_launch_def launch_simps Let_def)

lemma settled_finish:
  assumes "dv_exec_state (ha_driver h') = RUNNING" "ha_last_error h' = []"
    "ha_registered_ptx h' = ha_registered_ptx h" "ha_required_ptx h' = ha_required_ptx h" "ha_fpga h' = ha_fpga h"
  shows "settled h (finish_launch executed e h')"
  using assms by (simp add: settled_def finish_launch_def launch_simps Let_def)

locale kernel_backend =
  fixes backend :: backend
  assumes returns: "backend launch elf d \<noteq> None"
    and keeps_state: "backend launch elf d = Some (Finished (answer, d')) \<Longrightarrow> dv_exec_state d' = dv_exec_state d"
begin

lemma run_settles:
  assumes "dv_exec_state (ha_driver h1) = RUNNING" "ha_last_error h1 = []" "ha_registered_ptx h1 = ha_registered_ptx h"
    "ha_required_ptx h1 = ha_required_ptx h" "ha_fpga h1 = ha_fpga h"
  shows "returns_with (settled h) (run_backend backend launch elf h1)"
proof (cases "backend launch elf (ha_driver h1)")
  case None
  then show ?thesis using returns by blast
next
  case (Some r)
  show ?thesis
  proof (cases r)
    case HostTrap
    then show ?thesis using Some by (simp add: run_backend_def returns_with_def)
  next
    case (Finished a)
    then obtain answer d where a: "r = Finished (answer, d)" by (cases a) simp
    then have st: "dv_exec_state d = RUNNING" using keeps_state Some assms(1) by simp
    have "settled h (finish_launch executed e (h1\<lparr> ha_driver := d \<rparr>))" for executed e
      using st assms(2-) by (intro settled_finish) simp_all
    then show ?thesis
      using Some a by (cases answer) (simp_all add: run_backend_def returns_with_def Let_def)
  qed
qed

lemma image_settles:
  assumes "ha_backend h = None \<or> ha_backend h = Some backend" "ha_last_error h = []"
  shows "returns_with (settled h) (launch_image launch elf h)"
proof (cases "ha_backend h")
  case None
  then show ?thesis by (simp add: launch_image_def launch_simps Let_def settled_def returns_with_def)
next
  case (Some b)
  then have "b = backend" using assms(1) by simp
  with Some assms(2) show ?thesis
    by (simp add: launch_image_def launch_simps Let_def) (rule run_settles; simp)
qed

lemma ptx_settles:
  assumes "ha_backend h = None \<or> ha_backend h = Some backend" "ha_last_error h = []"
  shows "returns_with (settled h) (launch_ptx outcome launch h)"
proof -
  have abort: "returns_with (settled h) (Some (Finished (abort_launch e launch h)))" if "e \<noteq> []" for e
    using settled_abort [OF assms(2) that] by (simp add: returns_with_def)
  show ?thesis
    using image_settles [OF assms] by (cases outcome) (simp_all add: launch_ptx_def abort)
qed

lemma launch_settles:
  assumes "ha_backend h = None \<or> ha_backend h = Some backend" "map_of (ha_registered_ptx h) name = Some src"
    "name \<noteq> []" "\<not> has_zero grid" "\<not> has_zero block"
  shows "returns_with (settled h) (gpgpuLaunchKernel target compile name grid block args shared h)"
proof -
  have "returns_with (settled (h\<lparr> ha_last_error := [] \<rparr>))
      (launch_ptx (compile src) (launch_args name grid block args shared (h\<lparr> ha_last_error := [] \<rparr>)) (h\<lparr> ha_last_error := [] \<rparr>))"
    using assms(1) by (intro ptx_settles) simp_all
  moreover have "settled (h\<lparr> ha_last_error := [] \<rparr>) = settled h" by (simp add: settled_def)
  ultimately show ?thesis using assms by (simp add: gpgpuLaunchKernel_def Let_def)
qed

end

section \<open>The backend of the repository\<close>

text \<open>A run changes only the contents of the buffers.\<close>

lemma set_content_keeps: "snd (setDeviceBufferContent p bs d) = d\<lparr> dv_device_buffers := dv_device_buffers (snd (setDeviceBufferContent p bs d)) \<rparr>"
  by (simp add: setDeviceBufferContent_def split: option.split)

lemma copy_back_keeps: "snd (copy_back ps mem d) = d\<lparr> dv_device_buffers := dv_device_buffers (snd (copy_back ps mem d)) \<rparr>"
proof (induction ps mem d rule: copy_back.induct)
  case (2 p ps mem d)
  let ?w = "setDeviceBufferContent p (gReadBytes p (getDeviceBufferSize p d) 0 mem) d"
  show ?case
  proof (cases "getDeviceBufferSize p d = 0")
    case True
    then show ?thesis using "2.IH"(1) by simp
  next
    case False
    obtain ok d1 where w: "?w = (ok, d1)" by (cases ?w)
    then have d1: "d1 = d\<lparr> dv_device_buffers := dv_device_buffers d1 \<rparr>" using set_content_keeps by (metis snd_conv)
    show ?thesis
    proof (cases ok)
      case True
      then have "snd (copy_back ps mem d1) = d1\<lparr> dv_device_buffers := dv_device_buffers (snd (copy_back ps mem d1)) \<rparr>"
        using "2.IH"(2) False w by simp
      then show ?thesis using True False w d1 by (simp add: Let_def) (metis driver.surjective driver.update_convs(1))
    next
      case ok: False
      then show ?thesis using False w d1 by (simp add: Let_def)
    qed
  qed
qed simp

lemma finish_keeps:
  "bridge_finish bs ps mem (kb, d) = (ok, kb', d') \<Longrightarrow> d' = d\<lparr> dv_device_buffers := dv_device_buffers d' \<rparr>"
  using copy_back_keeps [of ps _ d]
  by (auto simp: bridge_finish_def Let_def split: prod.splits option.splits) (metis snd_conv)+

lemma run_case_Finished:
  "(case r of HostTrap \<Rightarrow> HostTrap | Finished x \<Rightarrow> g x) = Finished y \<longleftrightarrow> (\<exists>x. r = Finished x \<and> g x = Finished y)"
  by (cases r) auto

lemma map_run_Finished: "map_run f r = Finished y \<longleftrightarrow> (\<exists>x. r = Finished x \<and> f x = y)"
  by (cases r) auto

lemma run_keeps:
  assumes "runOnHardware fp files kernel_name binary_path args ps (kb, d) = Some (Finished (ok, kb', d'))"
  shows "d' = d\<lparr> dv_device_buffers := dv_device_buffers d' \<rparr>"
  using assms
  by (auto simp: runOnHardware_def Let_def run_case_Finished split: option.splits sum.splits if_splits dest: finish_keeps)

interpretation systemc: kernel_backend "executeWithSystemC fp temp_file"
proof
  fix launch elf d answer d'
  show "executeWithSystemC fp temp_file launch elf d \<noteq> None"
  proof -
    have "bc_max_sim_cycles systemc_config > 0" by (simp add: systemc_config_def BridgeConfig_default_def)
    then have "runOnHardware fp files n path args ps (KernelBridge_init systemc_config, d) \<noteq> None" for files n path args ps
      by (intro run_returns) (simp add: KernelBridge_init_def)
    then show ?thesis by (auto simp: executeWithSystemC_def split: sum.splits)
  qed
  assume "executeWithSystemC fp temp_file launch elf d = Some (Finished (answer, d'))"
  then have "d' = d \<or> (\<exists>files n path args ps kb ok kb'. runOnHardware fp files n path args ps (kb, d) = Some (Finished (ok, kb', d')))"
    by (auto simp: executeWithSystemC_def map_run_Finished split: if_splits sum.splits)
  then show "dv_exec_state d' = dv_exec_state d"
  proof
    assume "\<exists>files n path args ps kb ok kb'. runOnHardware fp files n path args ps (kb, d) = Some (Finished (ok, kb', d'))"
    then have "d' = d\<lparr> dv_device_buffers := dv_device_buffers d' \<rparr>" using run_keeps by blast
    then show ?thesis by (metis driver.select_convs(6) driver.surjective driver.update_convs(1))
  qed simp
qed

end
