(* ===== verification/BridgeBarrier.thy ===== *)
theory BridgeBarrier
  imports BridgeRun
begin

text \<open>
  Barriers of the bridge's scalar scheduler as a state machine: the states a launch reaches by visits and passes, the
  blocks its workers belong to, and the condition under which a waiting worker is let go.
\<close>

section \<open>Reachable states\<close>

inductive scalar_reach :: "rv_fpu \<Rightarrow> u32 option \<Rightarrow> u32 \<Rightarrow> scalar_sched \<Rightarrow> scalar_sched \<Rightarrow> bool"
  for fp cs tpb st0 where
  start: "scalar_reach fp cs tpb st0 st0"
| visit: "scalar_reach fp cs tpb st0 st \<Longrightarrow> idx < length (ss_workers st) \<Longrightarrow>
    scalar_visit fp cs tpb idx st = Some st' \<Longrightarrow> scalar_reach fp cs tpb st0 st'"
| next_pass: "scalar_reach fp cs tpb st0 st \<Longrightarrow>
    scalar_reach fp cs tpb st0 (st\<lparr> ss_selected := 0, ss_any_active := False, ss_made_progress := False \<rparr>)"

text \<open>The states between the visits of a pass are reachable, so every state of the loop is.\<close>

lemma scan_length: "scalar_visit fp cs tpb idx st = Some st' \<Longrightarrow> length (ss_workers st') = length (ss_workers st)"
  by (erule scalar_visit_cases) (simp_all add: scalar_barrier_keeps(2))

lemma scan_reach:
  "scalar_scan fp cs tpb n idxs st = Some st' \<Longrightarrow> list_all (\<lambda>i. i < length (ss_workers st)) idxs \<Longrightarrow>
   scalar_reach fp cs tpb st0 st \<Longrightarrow> scalar_reach fp cs tpb st0 st'"
proof (induction idxs arbitrary: st)
  case (Cons i idxs)
  show ?case
  proof (cases "ss_selected st < n")
    case True
    then obtain s1 where s1: "scalar_visit fp cs tpb i st = Some s1" "scalar_scan fp cs tpb n idxs s1 = Some st'"
      using Cons.prems(1) by (auto simp: bind_eq_Some_conv)
    have "scalar_reach fp cs tpb st0 s1" using Cons.prems(2) by (intro visit [OF Cons.prems(3) _ s1(1)]) simp
    then show ?thesis using Cons.IH [OF s1(2)] Cons.prems(2) scan_length [OF s1(1)] by simp
  qed (use Cons.prems in simp)
qed simp

lemma pass_reach:
  assumes "scalar_pass fp cs tpb n cursor st = Some st'" "scalar_reach fp cs tpb st0 st"
  shows "scalar_reach fp cs tpb st0 st'"
proof (rule scan_reach [OF assms(1) [unfolded scalar_pass_def] _ next_pass [OF assms(2)]])
  show "list_all (\<lambda>i. i < length (ss_workers (st\<lparr> ss_selected := 0, ss_any_active := False, ss_made_progress := False \<rparr>)))
      (scan_order cursor (length (ss_workers st)))"
    by (auto simp: scan_order_def list_all_iff intro!: mod_less_divisor)
qed

section \<open>Blocks\<close>

lemma step_worker_block: "step_worker fp cs mem w = Some (w', mem') \<Longrightarrow> wk_block_id w' = wk_block_id w"
  by (auto simp: step_worker_def Let_def)

lemma release_worker_block [simp]: "wk_block_id (release_worker block bid w) = wk_block_id w"
  by (simp add: release_worker_def)

lemma retire_block [simp]: "wk_block_id (fst (retire w kb)) = wk_block_id w"
  by (simp add: retire_def)

lemma barrier_blocks [simp]: "map wk_block_id (scalar_barrier tpb idx ws) = map wk_block_id ws"
  by (simp add: scalar_barrier_def Let_def comp_def)

lemma list_update_map_same: "f x = f (xs ! i) \<Longrightarrow> map f (xs[i := x]) = map f xs"
  by (cases "i < length xs") (simp_all add: map_update list_update_same_conv list_update_beyond)

lemma visit_blocks:
  assumes "scalar_visit fp cs tpb idx st = Some st'" "idx < length (ss_workers st)"
  shows "map wk_block_id (ss_workers st') = map wk_block_id (ss_workers st)"
  using assms(1)
proof (cases rule: scalar_visit_cases)
  case (step w1 mem ws)
  have "wk_block_id (note_pc (worker_pc (ss_workers st ! idx)) w1) = wk_block_id (ss_workers st ! idx)"
    using step_worker_block [OF step(3)] by simp
  then have "map wk_block_id ws = map wk_block_id (ss_workers st)" unfolding step(4) by (simp add: list_update_map_same)
  then show ?thesis by (simp add: step(5) list_update_map_same)
qed (simp_all add: list_update_map_same)

lemma reach_blocks: "scalar_reach fp cs tpb st0 st \<Longrightarrow> map wk_block_id (ss_workers st) = map wk_block_id (ss_workers st0)"
  by (induction rule: scalar_reach.induct) (simp_all add: visit_blocks)

lemma make_workers_blocks:
  "map wk_block_id (fst (make_workers cfg sh pc regs gs mem)) = map (\<lambda>g. g div threads_per_block sh) gs"
  by (induction gs arbitrary: mem) (simp_all add: Let_def split_def makeWorker_def)

text \<open>A block of a launch has as many workers as threads.\<close>

lemma count_in_block:
  assumes "b < n" "0 < t" shows "length (filter (\<lambda>g. g div t = b) [0..<n * t]) = (t :: nat)"
proof -
  have "set (filter (\<lambda>g. g div t = b) [0..<n * t]) = {b * t..<b * t + t}"
  proof (intro set_eqI)
    fix g
    have "g div t = b \<longleftrightarrow> b * t \<le> g \<and> g < b * t + t"
      using assms(2) by (metis add.commute div_less_iff_less_mult le_antisym less_eq_div_iff_mult_less_eq less_Suc_eq_le
          mult_Suc order_refl less_or_eq_imp_le)
    moreover have "b * t + t \<le> n * t" using assms(1) by (metis Suc_leI add.commute mult_Suc mult_le_mono1)
    ultimately show "g \<in> set (filter (\<lambda>g. g div t = b) [0..<n * t]) \<longleftrightarrow> g \<in> {b * t..<b * t + t}" by auto
  qed
  moreover have "distinct (filter (\<lambda>g. g div t = b) [0..<n * t])" by simp
  ultimately show ?thesis by (metis add_diff_cancel_left' card_atLeastLessThan distinct_card)
qed

definition launch_fits :: "launch_shape \<Rightarrow> bool" where
  "launch_fits sh \<longleftrightarrow> unat (total_blocks sh) * unat (threads_per_block sh) < 2 ^ 32"

lemma threads_per_block_pos: "0 < unat (threads_per_block sh)"
proof -
  have "1 \<le> threads_per_block sh" by (simp add: threads_per_block_def)
  then show ?thesis by (simp add: word_le_nat_alt)
qed

lemma launch_fits_total: "launch_fits sh \<Longrightarrow> unat (total_threads sh) = unat (total_blocks sh) * unat (threads_per_block sh)"
  by (simp add: launch_fits_def total_threads_def unat_word_ariths)

lemma launch_block_size:
  assumes "launch_fits sh" "block < total_blocks sh"
  shows "length (filter (\<lambda>w. wk_block_id w = block) (fst (make_workers cfg sh pc regs (thread_ids sh) mem)))
    = unat (threads_per_block sh)"
proof -
  let ?n = "unat (total_blocks sh)" and ?t = "unat (threads_per_block sh)"
  let ?ws = "fst (make_workers cfg sh pc regs (thread_ids sh) mem)"
  have "length (filter (\<lambda>w. wk_block_id w = block) ?ws) = length (filter (\<lambda>b. b = block) (map wk_block_id ?ws))"
    by (simp add: filter_map comp_def)
  also have "map wk_block_id ?ws = map (\<lambda>g. of_nat g div threads_per_block sh) [0..<?n * ?t]"
    unfolding make_workers_blocks thread_ids_def launch_fits_total [OF assms(1)] by simp
  also have "length (filter (\<lambda>b. b = block) \<dots>) = length (filter (\<lambda>g. of_nat g div threads_per_block sh = block) [0..<?n * ?t])"
    by (simp add: filter_map comp_def)
  also have "filter (\<lambda>g. of_nat g div threads_per_block sh = block) [0..<?n * ?t] = filter (\<lambda>g. g div ?t = unat block) [0..<?n * ?t]"
  proof (rule filter_cong)
    fix g assume "g \<in> set [0..<?n * ?t]"
    then have "unat (of_nat g :: u32) = g" using assms(1) by (simp add: launch_fits_def unat_of_nat)
    then show "(of_nat g div threads_per_block sh = block) = (g div ?t = unat block)"
      by (simp add: word_unat_eq_iff unat_div_distrib)
  qed simp
  also have "length \<dots> = ?t"
    using assms(2) threads_per_block_pos by (intro count_in_block) (simp_all add: word_less_nat_alt)
  finally show ?thesis .
qed

lemma release_worker_opened:
  "worker_blocked w \<Longrightarrow> \<not> worker_blocked (release_worker block bid w) \<Longrightarrow> waits_at block bid w"
  by (auto simp: release_worker_def on_binary_def releaseBarrier_def worker_defs waits_at_def split: if_splits)

lemma filter_all:
  "length (filter P xs) = length (filter Q xs) \<Longrightarrow> (\<And>x. P x \<Longrightarrow> Q x) \<Longrightarrow> x \<in> set xs \<Longrightarrow> Q x \<Longrightarrow> P x"
proof (induction xs)
  case (Cons y ys)
  have "length (filter P ys) \<le> length (filter Q ys)"
    using Cons.prems(2) by (induction ys) auto
  then show ?case using Cons by (auto split: if_splits)
qed simp

section \<open>Properties\<close>

text \<open>C8: a barrier is safe. In any state that a launch reaches under the scalar scheduler, a worker that waits at a
  barrier is let go only when every other thread of its block waits at the same barrier, or is the one that arrives in
  this very step.\<close>

theorem barrier_opens_for_whole_block:
  assumes "launch_fits (bs_shape bs)"
    and "scalar_reach fp cs (threads_per_block (bs_shape bs)) (scalar_start cfg bs kb) st"
    and "scalar_visit fp cs (threads_per_block (bs_shape bs)) idx st = Some st'" "idx < length (ss_workers st)"
    and "j < length (ss_workers st)" "wk_block_id (ss_workers st ! j) < total_blocks (bs_shape bs)"
    and "worker_blocked (ss_workers st ! j)" "\<not> worker_blocked (ss_workers st' ! j)"
  shows "\<forall>i < length (ss_workers st). wk_block_id (ss_workers st ! i) = wk_block_id (ss_workers st ! j) \<longrightarrow>
    i = idx \<or> waits_at (wk_block_id (ss_workers st ! j)) (worker_barrier (ss_workers st ! j)) (ss_workers st ! i)"
  using assms(3)
proof (cases rule: scalar_visit_cases)
  let ?tpb = "threads_per_block (bs_shape bs)"
  {
    case idle
    then show ?thesis using assms(7,8) by simp
  next
    case waiting
    then show ?thesis using assms(5,7,8) by (cases "j = idx") (simp_all add: worker_defs)
  next
    case (step w1 mem ws)
    define l where "l = (ss_workers st)[idx := note_pc (worker_pc (ss_workers st ! idx)) w1]"
    define block where "block = wk_block_id (l ! idx)"
    define bid where "bid = worker_barrier (l ! idx)"
    have ji: "j \<noteq> idx" using step(2) assms(7) by auto
    have lj: "l ! j = ss_workers st ! j" using ji by (simp add: l_def)
    have ws: "ws = scalar_barrier ?tpb idx l" using step(4) by (simp add: l_def)
    have "ws ! j \<noteq> l ! j" using step(5) ji lj assms(7,8) by auto
    then have cond: "worker_blocked (l ! idx) \<and> arrived block bid l = ?tpb"
      by (rule contrapos_np) (auto simp: ws scalar_barrier_def Let_def block_def bid_def)
    have jl: "j < length l" using assms(5) by (simp add: l_def)
    have open_it: "arrived block bid l = ?tpb" "ws ! j = release_worker block bid (l ! j)"
      using cond jl by (simp_all add: ws scalar_barrier_def Let_def block_def bid_def)
    have "ss_workers st' ! j = ws ! j" using step(5) ji by simp
    then have "\<not> worker_blocked (release_worker block bid (l ! j))" "worker_blocked (l ! j)"
      using assms(7,8) open_it(2) lj by simp_all
    then have "waits_at block bid (l ! j)" by (rule release_worker_opened [rotated])
    then have rel: "wk_active (l ! j)" "wk_block_id (l ! j) = block" "worker_barrier (l ! j) = bid"
      by (simp_all add: waits_at_def)
    have blocks: "map wk_block_id l = map wk_block_id (ss_workers (scalar_start cfg bs kb))"
      using step_worker_block [OF step(3)] reach_blocks [OF assms(2)] by (simp add: l_def list_update_map_same)
    have len: "length l < 2 ^ 32"
    proof -
      have "length l = length (thread_ids (bs_shape bs))"
        using arg_cong [OF blocks, of length] arg_cong [OF make_workers_blocks, of length]
        by (simp add: scalar_start_def Let_def split_def)
      then show ?thesis using assms(1) by (simp add: thread_ids_def launch_fits_total launch_fits_def)
    qed
    have "length (filter (waits_at block bid) l) < 2 ^ 32" using len by (rule le_less_trans [OF length_filter_le])
    then have "length (filter (waits_at block bid) l) = unat ?tpb"
      unfolding open_it(1) [symmetric] arrived_def by (simp add: unat_of_nat)
    also have "\<dots> = length (filter (\<lambda>b. b = block) (map wk_block_id l))"
      using launch_block_size [OF assms(1), of block cfg "bs_entry_pc bs" "bs_regs bs" "bs_mem bs"] assms(6) rel(2) lj
      unfolding blocks by (simp add: scalar_start_def Let_def split_def filter_map comp_def)
    also have "\<dots> = length (filter (\<lambda>w. wk_block_id w = block) l)" by (simp add: filter_map comp_def)
    finally have eq: "length (filter (waits_at block bid) l) = length (filter (\<lambda>w. wk_block_id w = block) l)" .
    have "waits_at block bid (l ! i)" if "i < length l" "wk_block_id (l ! i) = block" for i
      by (rule filter_all [OF eq, of "l ! i"]) (use that in \<open>auto simp: waits_at_def\<close>)
    moreover have "l ! i = ss_workers st ! i" if "i \<noteq> idx" for i using that by (simp add: l_def)
    ultimately have "waits_at block bid (ss_workers st ! i)"
      if "i < length (ss_workers st)" "i \<noteq> idx" "wk_block_id (ss_workers st ! i) = block" for i
      using that by (metis l_def length_list_update)
    then show ?thesis using rel lj by metis
  }
qed

section \<open>Witnesses\<close>

text \<open>A block of two threads whose kernel starts with \<open>bar.sync 0\<close>.\<close>

definition pair_config :: BridgeConfig where
  "pair_config = BridgeConfig_default\<lparr> bc_max_sim_cycles := 0 \<rparr>"

definition pair_setup :: bridge_setup where
  "pair_setup = \<lparr> bs_mem = gmemory0\<lparr> gm_global_memory := [0x1000 \<mapsto> 0x0000000B] \<rparr>, bs_ctx_symbol = None,
     bs_entry_pc = 0x1000, bs_entry_symbol = ''k'', bs_regs = replicate 32 0,
     bs_shape = \<lparr> sh_grid_x = 1, sh_grid_y = 1, sh_grid_z = 1, sh_block_x = 2, sh_block_y = 1, sh_block_z = 1 \<rparr> \<rparr>"

definition pair_start :: scalar_sched where
  "pair_start = scalar_start pair_config pair_setup (KernelBridge_init pair_config)"

lemma pair_counts: "total_blocks (bs_shape pair_setup) = 1" "threads_per_block (bs_shape pair_setup) = 2"
    "launch_fits (bs_shape pair_setup)" "thread_ids (bs_shape pair_setup) = [0, 1]"
  by (simp_all add: total_blocks_def threads_per_block_def launch_fits_def pair_setup_def thread_ids_def total_threads_def
      upt_rec max_def)

lemma decode_bar: "decode_raw 0x0000000B = (RV32Instr_default\<lparr> rv_op := RV_BAR_SYNC \<rparr>, 4)"
  by code_simp

lemma step_at_barrier:
  assumes "bu_binary_mode (gc_binary (wk_cu w))" "\<not> bu_halted (gc_binary (wk_cu w))" "\<not> bu_blocked (gc_binary (wk_cu w))"
    "bu_max_cycles (gc_binary (wk_cu w)) = 0"
    "fetch_raw (bu_pc (gc_binary (wk_cu w))) (bu_block_id (gc_binary (wk_cu w))) mem = 0x0000000B"
  shows "\<exists>w'. step_worker fp None mem w = Some (w', mem) \<and> worker_blocked w' \<and> \<not> worker_complete w' \<and>
    worker_barrier w' = 0 \<and> wk_active w' = wk_active w \<and> wk_block_id w' = wk_block_id w"
  using assms
  by (simp add: step_worker_def cuStep_def put_mem_def binary_step_def decode_bar RV32Instr_default_def Let_def worker_defs)

text \<open>A write elsewhere does not change the fetched instruction.\<close>

lemma fetch_after_write:
  assumes "length d < 2 ^ 64" "\<not> gIsSharedMemoryAddress m 0x1000"
    "\<not> unat (0x1000 - a) < length d" "\<not> unat (0x1001 - a) < length d" "\<not> unat (0x1002 - a) < length d" "\<not> unat (0x1003 - a) < length d"
  shows "fetch_raw 0x1000 0 (gWriteBytes a d 0 m) = fetch_raw 0x1000 0 m"
proof -
  have "[0..<4] = [0, 1, 2, 3]" by (simp add: upt_rec)
  then show ?thesis using assms by (simp add: fetch_raw_def gReadBytes_def gStartsShared_def read_write_bytes)
qed

lemma pair_mem: "\<not> gIsSharedMemoryAddress (bs_mem pair_setup) 0x1000" "fetch_raw 0x1000 0 (bs_mem pair_setup) = 0x0000000B"
proof -
  show s: "\<not> gIsSharedMemoryAddress (bs_mem pair_setup) 0x1000"
    by (simp add: pair_setup_def gmemory0_def gIsSharedMemoryAddress_def SHARED_MEM_BASE_def)
  have "[0..<4] = [0, 1, 2, 3]" by (simp add: upt_rec)
  then show "fetch_raw 0x1000 0 (bs_mem pair_setup) = 0x0000000B"
    using s by (simp add: fetch_raw_def gReadBytes_def gStartsShared_def gReadByte_def byte_shift_def join_word_def)
      (simp add: pair_setup_def gmemory0_def byte_shift_def)
qed

lemma length_ctx_bytes: "length c = 9 \<Longrightarrow> length (word_bytes c) = 36"
  by (simp add: word_bytes_def length_concat comp_def sum_list_triv)

lemma pair_fetch:
  assumes "length c0 = 9" "length c1 = 9"
  shows "fetch_raw 0x1000 0 (gWriteBytes 0x200040 (word_bytes c1) 0 (gWriteBytes 0x200000 (word_bytes c0) 0 (bs_mem pair_setup))) = 0x0000000B"
    "fetch_raw 0x1000 0 (gWriteBytes 0x200000 (word_bytes c0) 0 (bs_mem pair_setup)) = 0x0000000B"
  using pair_mem length_ctx_bytes [OF assms(1)] length_ctx_bytes [OF assms(2)] by (simp_all add: fetch_after_write)

lemma pair_workers:
  "\<exists>w0 w1 mem. pair_start = \<lparr> ss_workers = [w0, w1], ss_mem = mem, ss_cycle = 0,
      ss_bridge = (KernelBridge_init pair_config)\<lparr> kb_active_units := 1 \<rparr>, ss_selected = 0, ss_any_active = False,
      ss_made_progress = False \<rparr> \<and>
    fetch_raw 0x1000 0 mem = 0x0000000B \<and>
    (\<forall>w \<in> {w0, w1}. wk_active w \<and> wk_block_id w = 0 \<and> bu_binary_mode (gc_binary (wk_cu w)) \<and>
      \<not> bu_halted (gc_binary (wk_cu w)) \<and> \<not> bu_blocked (gc_binary (wk_cu w)) \<and> bu_max_cycles (gc_binary (wk_cu w)) = 0 \<and>
      bu_pc (gc_binary (wk_cu w)) = 0x1000 \<and> bu_block_id (gc_binary (wk_cu w)) = 0)"
proof -
  have "thread_ctx (bs_shape pair_setup) 0 = [0, 0, 0, 0, 0, 0, 2, 1, 1]" "thread_ctx (bs_shape pair_setup) 1 = [1, 0, 0, 0, 0, 0, 2, 1, 1]"
    by (simp_all add: thread_ctx_def pair_counts Let_def) (simp_all add: pair_setup_def)
  then show ?thesis
    using pair_fetch [of "[0, 0, 0, 0, 0, 0, 2, 1, 1]" "[1, 0, 0, 0, 0, 0, 2, 1, 1]"]
    by (simp add: pair_start_def scalar_start_def pair_counts makeWorker_def Let_def ctx_base_def THREAD_CTX_BASE_def
        THREAD_CTX_STRIDE_def on_binary_def cuLaunchKernel_def ComputeUnit_init_def binary_reset_def setMemory_def
        setEntryPoint_def setInitialRegisters_def setReturnSentinel_def setBlockID_def pair_config_def BridgeConfig_default_def
        split del: if_split) (simp add: pair_setup_def)
qed

lemma note_pc_worker [simp]: "worker_blocked (note_pc pc w) = worker_blocked w" "worker_complete (note_pc pc w) = worker_complete w"
    "worker_barrier (note_pc pc w) = worker_barrier w"
  by (simp_all add: worker_defs)

theorem barrier_opens_for_whole_block_witness:
  "\<forall>fp. \<exists>st st'. scalar_visit fp None 2 1 st = Some st' \<and> worker_blocked (ss_workers st ! 0) \<and> \<not> worker_blocked (ss_workers st' ! 0) \<and>
     waits_at 0 0 (ss_workers st ! 0)"
proof
  fix fp
  obtain w0 w1 mem where p: "pair_start = \<lparr> ss_workers = [w0, w1], ss_mem = mem, ss_cycle = 0,
      ss_bridge = (KernelBridge_init pair_config)\<lparr> kb_active_units := 1 \<rparr>, ss_selected = 0, ss_any_active = False,
      ss_made_progress = False \<rparr>"
    and f: "fetch_raw 0x1000 0 mem = 0x0000000B"
    and w: "\<forall>w \<in> {w0, w1}. wk_active w \<and> wk_block_id w = 0 \<and> bu_binary_mode (gc_binary (wk_cu w)) \<and>
      \<not> bu_halted (gc_binary (wk_cu w)) \<and> \<not> bu_blocked (gc_binary (wk_cu w)) \<and> bu_max_cycles (gc_binary (wk_cu w)) = 0 \<and>
      bu_pc (gc_binary (wk_cu w)) = 0x1000 \<and> bu_block_id (gc_binary (wk_cu w)) = 0"
    using pair_workers by blast
  obtain v0 where v0: "step_worker fp None mem w0 = Some (v0, mem)" "worker_blocked v0" "\<not> worker_complete v0"
      "worker_barrier v0 = 0" "wk_active v0" "wk_block_id v0 = 0"
    using step_at_barrier [of w0 mem fp] w f by auto
  obtain v1 where v1: "step_worker fp None mem w1 = Some (v1, mem)" "worker_blocked v1" "\<not> worker_complete v1"
      "worker_barrier v1 = 0" "wk_active v1" "wk_block_id v1 = 0"
    using step_at_barrier [of w1 mem fp] w f by auto
  have b: "\<not> worker_blocked w0" "\<not> worker_blocked w1" "wk_active w0" "wk_active w1"
    using w by (simp_all add: worker_defs)
  obtain st where st: "scalar_visit fp None 2 0 pair_start = Some st" "ss_workers st = [note_pc (worker_pc w0) v0, w1]" "ss_mem st = mem"
    using v0 b by (simp add: p scalar_visit_def scalar_barrier_def arrived_def waits_at_def retire_def Let_def)
  have "scalar_visit fp None 2 1 st \<noteq> None"
    using st(2,3) v1 b by (simp add: scalar_visit_def Let_def)
  then obtain st' where st': "scalar_visit fp None 2 1 st = Some st'" by blast
  then have open_it: "\<not> worker_blocked (ss_workers st' ! 0)"
    using st(2,3) v0 v1 b
    by (auto simp: scalar_visit_def scalar_barrier_def arrived_def waits_at_def Let_def release_worker_def on_binary_def
        releaseBarrier_def worker_defs split: prod.splits)
  have "scalar_reach fp None 2 pair_start st"
    by (rule scalar_reach.visit [OF scalar_reach.start _ st(1)]) (simp add: p)
  then have "\<forall>i < length (ss_workers st). wk_block_id (ss_workers st ! i) = wk_block_id (ss_workers st ! 0) \<longrightarrow>
    i = 1 \<or> waits_at (wk_block_id (ss_workers st ! 0)) (worker_barrier (ss_workers st ! 0)) (ss_workers st ! i)"
    using barrier_opens_for_whole_block [of pair_setup fp None pair_config "KernelBridge_init pair_config" st 1 st' 0]
      st' st(2) v0 open_it by (simp add: pair_counts pair_start_def)
  then have "waits_at 0 0 (ss_workers st ! 0)" using st(2) v0 by (auto dest: spec [of _ 0])
  then show "\<exists>st st'. scalar_visit fp None 2 1 st = Some st' \<and> worker_blocked (ss_workers st ! 0) \<and>
     \<not> worker_blocked (ss_workers st' ! 0) \<and> waits_at 0 0 (ss_workers st ! 0)"
    using st' open_it st(2) v0 by (intro exI [of _ st] exI [of _ st']) simp
qed

end
