(* ===== verification/ThreadContexts.thy ===== *)
theory ThreadContexts
  imports Prelude
begin

text \<open>
  The thread identities of a launch: \<open>computeThreadContexts\<close> of \<open>runtime/src/host_runtime.cpp\<close>.
\<close>

record ThreadContext =
  tc_tid_x :: u32
  tc_tid_y :: u32
  tc_tid_z :: u32
  tc_ctaid_x :: u32
  tc_ctaid_y :: u32
  tc_ctaid_z :: u32
  tc_ntid_x :: u32
  tc_ntid_y :: u32
  tc_ntid_z :: u32
  tc_global_id :: u32

definition computeThreadContexts :: "u32 \<Rightarrow> u32 \<Rightarrow> u32 \<Rightarrow> u32 \<Rightarrow> u32 \<Rightarrow> u32 \<Rightarrow> ThreadContext list" where
  "computeThreadContexts gx gy gz bx by bz =
     (let gx = max 1 gx; gy = max 1 gy; gz = max 1 gz; bx = max 1 bx; by = max 1 by; bz = max 1 bz;
          total_blocks = gx * gy * gz; block_size = bx * by * bz; total_threads = total_blocks * block_size
      in map (\<lambda>t. let blk_id = t div block_size; thd_id = t mod block_size in
           \<lparr> tc_tid_x = thd_id mod bx, tc_tid_y = (thd_id div bx) mod by, tc_tid_z = thd_id div (bx * by),
             tc_ctaid_x = blk_id mod gx, tc_ctaid_y = (blk_id div gx) mod gy, tc_ctaid_z = blk_id div (gx * gy),
             tc_ntid_x = bx, tc_ntid_y = by, tc_ntid_z = bz, tc_global_id = t \<rparr>)
         (map of_nat [0..<unat total_threads]))"

text \<open>The nine words of a context in the order of the special registers.\<close>

definition context_words :: "ThreadContext \<Rightarrow> u32 list" where
  "context_words c = [tc_tid_x c, tc_tid_y c, tc_tid_z c, tc_ctaid_x c, tc_ctaid_y c, tc_ctaid_z c,
     tc_ntid_x c, tc_ntid_y c, tc_ntid_z c]"

end
