(* ===== verification/BridgeLaunch.thy ===== *)
theory BridgeLaunch
  imports BridgeBarrier ThreadContexts PtxSemantics
begin

text \<open>
  What a thread finds when the bridge starts it: its context slot, its registers, and that both are what the runtime
  computes and what the compiled kernels expect.
\<close>

section \<open>Words and bytes of memory\<close>

lemma aligned_add:
  assumes "(a :: u64) AND 3 = 0" "i < 4"
  shows "(a + of_nat i) AND NOT 3 = a" "(a + of_nat i) AND 3 = of_nat i"
proof -
  have m: "(of_nat i :: u64) AND 3 = of_nat i" "(of_nat i :: u64) AND NOT 3 = 0"
  proof -
    have "i \<in> {0, 1, 2, 3}" using assms(2) by auto
    then show "(of_nat i :: u64) AND 3 = of_nat i" "(of_nat i :: u64) AND NOT 3 = 0" by auto
  qed
  have "a AND (of_nat i AND 3) = (a AND 3) AND of_nat i" by (simp add: ac_simps)
  then have d: "a AND of_nat i = 0" by (simp add: m(1) assms(1))
  then have e: "a + of_nat i = a OR of_nat i" by (simp add: disjunctive_add_eq_or)
  have "a = (a AND 3) OR (a AND NOT 3)" by (rule bit_word_eqI) (auto simp: bit_simps)
  then have "a AND NOT 3 = a" using assms(1) by simp
  then show "(a + of_nat i) AND NOT 3 = a" "(a + of_nat i) AND 3 = of_nat i"
    using m assms(1) by (simp_all add: e bit.conj_disj_distrib2)
qed

lemma read_word_byte:
  assumes "a AND 3 = 0" "i < 4"
  shows "gReadByte (a + of_nat i) m = word_byte i (global_word m a)"
proof -
  have "unat (of_nat i :: u64) = i" using assms(2) by (simp add: unat_of_nat)
  then have "byte_shift (a + of_nat i) = 8 * i" by (simp add: byte_shift_def aligned_add [OF assms])
  then show ?thesis
    unfolding gReadByte_def aligned_add(1) [OF assms]
    by (simp add: global_word_def word_byte_def split: option.splits)
qed

lemma global_word_bytes:
  assumes "a AND 3 = 0" "\<And>i. i < 4 \<Longrightarrow> gReadByte (a + of_nat i) m = word_byte i w"
  shows "global_word m a = w"
proof -
  have "word_byte i (global_word m a) = word_byte i w" if "i < 4" for i
    using assms(2) [OF that] read_word_byte [OF assms(1) that] by simp
  then show ?thesis
    using join_word_bytes [of w] join_word_bytes [of "global_word m a"] by simp
qed

lemma u32_bound: "unat (w :: u32) < 2 ^ 32"
proof -
  have "unat w < 2 ^ LENGTH(32)" by (rule unsigned_less)
  then show ?thesis by simp
qed

section \<open>Context slots\<close>

lemma length_word_bytes [simp]: "length (word_bytes ws) = 4 * length ws"
  by (induction ws) (simp_all add: word_bytes_def)

lemma word_bytes_nth: "k < length ws \<Longrightarrow> i < 4 \<Longrightarrow> word_bytes ws ! (4 * k + i) = word_byte i (ws ! k)"
proof (induction ws arbitrary: k)
  case (Cons w ws)
  show ?case
  proof (cases k)
    case 0
    then show ?thesis using Cons.prems by (auto simp: word_bytes_def less_Suc_eq numeral_eq_Suc)
  next
    case (Suc k')
    have "word_bytes (w # ws) ! (4 * k + i) = word_bytes ws ! (4 * k' + i)"
      by (simp add: word_bytes_def Suc numeral_eq_Suc)
    then show ?thesis using Cons Suc by simp
  qed
qed simp

lemma length_thread_ctx [simp]: "length (thread_ctx sh g) = 9"
  by (simp add: thread_ctx_def Let_def)

lemma ctx_base_unat: "g < 32768 \<Longrightarrow> unat (ctx_base (of_nat g)) = 0x200000 + 64 * g"
  by (simp add: ctx_base_def THREAD_CTX_BASE_def THREAD_CTX_STRIDE_def unat_word_ariths unat_of_nat)

lemma slot_not_shared: "unat a < 0x400000 \<Longrightarrow> \<not> gIsSharedMemoryAddress m a"
  by (simp add: gIsSharedMemoryAddress_def SHARED_MEM_BASE_def word_le_nat_alt)

text \<open>A byte of slot \<open>g\<close> after the worker \<open>h\<close> has been made.\<close>

lemma makeWorker_slot:
  assumes "g < 32768" "h < 32768" "j < 36"
  shows "gReadByte (ucast (ctx_base (of_nat g)) + of_nat j) (snd (makeWorker cfg sh pc regs (of_nat h) mem)) =
    (if g = h then word_bytes (thread_ctx sh (of_nat h)) ! j
     else gReadByte (ucast (ctx_base (of_nat g)) + of_nat j) mem)"
proof -
  let ?a = "ucast (ctx_base (of_nat h)) :: u64" and ?x = "ucast (ctx_base (of_nat g)) + of_nat j :: u64"
  have a: "unat ?a = 0x200000 + 64 * h" using ctx_base_unat [OF assms(2)] by simp
  have j: "unat (of_nat j :: u64) = j" using assms(3) by (simp add: unat_of_nat)
  have x: "unat ?x = 0x200000 + 64 * g + j"
    using ctx_base_unat [OF assms(1)] j assms by (subst unat_add_lem [THEN iffD1]) simp_all
  have ns: "\<not> gStartsShared ?a mem" unfolding gStartsShared_def by (rule slot_not_shared) (use a assms(2) in simp)
  have "unat (?x - ?a) < 36 \<longleftrightarrow> unat ?a \<le> unat ?x \<and> unat ?x < unat ?a + 36"
    using a x assms by (auto simp: unat_sub_if_size word_size)
  also have "\<dots> \<longleftrightarrow> g = h" using a x assms(3) by auto
  finally have "unat (?x - ?a) < 36 \<longleftrightarrow> g = h" .
  moreover have "snd (makeWorker cfg sh pc regs (of_nat h) mem) = gWriteBytes ?a (word_bytes (thread_ctx sh (of_nat h))) 0 mem"
    by (simp add: makeWorker_def Let_def)
  moreover have "unat (?x - ?a) = j" if "g = h" using that j by simp
  ultimately show ?thesis using ns by (auto simp: read_write_bytes)
qed

lemma make_workers_slot:
  "g < 32768 \<Longrightarrow> j < 36 \<Longrightarrow> list_all (\<lambda>h. h < 32768) hs \<Longrightarrow>
   gReadByte (ucast (ctx_base (of_nat g)) + of_nat j) (snd (make_workers cfg sh pc regs (map of_nat hs) mem)) =
    (if g \<in> set hs then word_bytes (thread_ctx sh (of_nat g)) ! j
     else gReadByte (ucast (ctx_base (of_nat g)) + of_nat j) mem)"
proof (induction hs arbitrary: mem)
  case (Cons h hs)
  then have "h < 32768" by simp
  from makeWorker_slot [OF Cons.prems(1) this Cons.prems(2)] Cons show ?case by (auto simp: Let_def split_def)
qed simp

lemma make_workers_nth:
  "k < length gs \<Longrightarrow> \<exists>m. fst (make_workers cfg sh pc regs gs mem) ! k = fst (makeWorker cfg sh pc regs (gs ! k) m)"
proof (induction gs arbitrary: k mem)
  case (Cons g gs)
  then show ?case by (cases k) (auto simp: Let_def split_def)
qed simp

lemma length_make_workers [simp]: "length (fst (make_workers cfg sh pc regs gs mem)) = length gs"
  by (induction gs arbitrary: mem) (simp_all add: Let_def split_def)

lemma context_word:
  assumes "g < unat (total_threads sh)" "unat (total_threads sh) \<le> 32768" "k < 9"
  shows "global_word (snd (make_workers cfg sh pc regs (thread_ids sh) mem)) (ucast (ctx_base (of_nat g) + 4 * of_nat k))
    = thread_ctx sh (of_nat g) ! k"
proof -
  let ?a = "ucast (ctx_base (of_nat g) + 4 * of_nat k) :: u64"
  let ?m = "snd (make_workers cfg sh pc regs (thread_ids sh) mem)"
  have g: "g < 32768" using assms by simp
  have "unat (of_nat (4 * k) :: u32) = 4 * k" using assms(3) by (simp add: unat_of_nat del: of_nat_mult)
  then have u: "unat (ctx_base (of_nat g) + 4 * of_nat k) = 0x200000 + 64 * g + 4 * k"
    using ctx_base_unat [OF g] g assms(3) by (subst unat_add_lem [THEN iffD1]) simp_all
  have "unat (of_nat (4 * k) :: u64) = 4 * k" using assms(3) by (simp add: unat_of_nat del: of_nat_mult)
  then have "unat (ucast (ctx_base (of_nat g)) + of_nat (4 * k) :: u64) = 0x200000 + 64 * g + 4 * k"
    using ctx_base_unat [OF g] g assms(3) by (subst unat_add_lem [THEN iffD1]) simp_all
  then have a: "?a = ucast (ctx_base (of_nat g)) + of_nat (4 * k)" using u by (simp add: word_unat_eq_iff)
  have "unat (?a AND 3) = unat ?a mod 4"
  proof -
    have "?a AND 3 = take_bit 2 ?a" by (simp add: take_bit_eq_mask mask_eq_exp_minus_1)
    then show ?thesis by (simp add: take_bit_eq_mod unat_mod_distrib)
  qed
  then have al: "?a AND 3 = 0" using u by (simp add: unat_eq_0 mod_add_eq mod_mult_left_eq)
  have hs: "list_all (\<lambda>h. h < 32768) [0..<unat (total_threads sh)]" using assms(2) by (auto simp: list_all_iff)
  have "gReadByte (?a + of_nat i) ?m = word_byte i (thread_ctx sh (of_nat g) ! k)" if i: "i < 4" for i
  proof -
    have "?a + of_nat i = ucast (ctx_base (of_nat g)) + of_nat (4 * k + i)" by (simp add: a)
    moreover have "4 * k + i < 36" using assms(3) i by simp
    ultimately show ?thesis
      using make_workers_slot [OF g _ hs, of "4 * k + i" cfg sh pc regs mem] assms(1,3) i
      by (simp add: thread_ids_def word_bytes_nth add.assoc)
  qed
  with al show ?thesis by (rule global_word_bytes)
qed

section \<open>The contexts of the runtime\<close>

text \<open>The number of threads of a launch, without wrap-around.\<close>

definition launch_threads :: "launch_shape \<Rightarrow> nat" where
  "launch_threads sh =
     (unat (max 1 (sh_grid_x sh)) * unat (max 1 (sh_grid_y sh)) * unat (max 1 (sh_grid_z sh))) *
     (unat (max 1 (sh_block_x sh)) * unat (max 1 (sh_block_y sh)) * unat (max 1 (sh_block_z sh)))"

lemma max_1_pos: "0 < unat (max 1 (x :: u32))"
proof -
  have "1 \<le> max 1 x" by simp
  then show ?thesis by (simp add: word_le_nat_alt)
qed

lemma max_1_nonzero: "x \<noteq> 0 \<Longrightarrow> max 1 x = (x :: u32)"
proof -
  assume "x \<noteq> 0"
  then have "0 < unat x" by (simp add: unat_gt_0)
  then have "1 \<le> x" by (simp add: word_le_nat_alt)
  then show ?thesis by (rule max_absorb2)
qed

lemma unat_prod3:
  fixes a b c :: u32
  assumes "unat a * unat b * unat c < 2 ^ 32" "0 < unat c"
  shows "unat (a * b * c) = unat a * unat b * unat c"
proof -
  have "unat a * unat b \<le> unat a * unat b * unat c" using assms(2) by (cases "unat c") auto
  then have "unat a * unat b < 2 ^ 32" using assms(1) by linarith
  then have "unat (a * b) = unat a * unat b" by (simp add: unat_word_ariths)
  then show ?thesis using assms(1) by (simp add: unat_word_ariths)
qed

lemma shape_counts:
  assumes "sh_grid_x sh \<noteq> 0" "sh_block_x sh \<noteq> 0" "launch_threads sh < 2 ^ 32"
  shows "total_blocks sh = max 1 (sh_grid_x sh) * max 1 (sh_grid_y sh) * max 1 (sh_grid_z sh)"
    "threads_per_block sh = max 1 (sh_block_x sh) * max 1 (sh_block_y sh) * max 1 (sh_block_z sh)"
    "unat (total_threads sh) = launch_threads sh"
proof -
  let ?g = "max 1 (sh_grid_x sh) * max 1 (sh_grid_y sh) * max 1 (sh_grid_z sh)"
  let ?b = "max 1 (sh_block_x sh) * max 1 (sh_block_y sh) * max 1 (sh_block_z sh)"
  define gn where "gn = unat (max 1 (sh_grid_x sh)) * unat (max 1 (sh_grid_y sh)) * unat (max 1 (sh_grid_z sh))"
  define bn where "bn = unat (max 1 (sh_block_x sh)) * unat (max 1 (sh_block_y sh)) * unat (max 1 (sh_block_z sh))"
  have pos: "0 < gn" "0 < bn" by (simp_all add: gn_def bn_def max_1_pos)
  have lt: "gn * bn < 2 ^ 32" using assms(3) by (simp add: launch_threads_def gn_def bn_def)
  have "gn \<le> gn * bn" "bn \<le> gn * bn" using pos by simp_all
  then have small: "gn < 2 ^ 32" "bn < 2 ^ 32" using lt by linarith+
  have g: "unat ?g = gn" unfolding gn_def by (rule unat_prod3) (use small(1) max_1_pos in \<open>simp_all add: gn_def\<close>)
  have b: "unat ?b = bn" unfolding bn_def by (rule unat_prod3) (use small(2) max_1_pos in \<open>simp_all add: bn_def\<close>)
  have "1 \<le> ?g" "1 \<le> ?b" using pos g b by (simp_all add: word_le_nat_alt)
  moreover have "max 1 (sh_grid_x sh) = sh_grid_x sh" "max 1 (sh_block_x sh) = sh_block_x sh"
    using assms(1,2) max_1_nonzero by blast+
  ultimately show tb: "total_blocks sh = ?g" and tp: "threads_per_block sh = ?b"
    by (simp_all add: total_blocks_def threads_per_block_def max_absorb2)
  show "unat (total_threads sh) = launch_threads sh"
    using lt g b by (simp add: total_threads_def tb tp unat_word_ariths launch_threads_def gn_def bn_def)
qed

definition runtime_contexts :: "launch_shape \<Rightarrow> ThreadContext list" where
  "runtime_contexts sh = computeThreadContexts (sh_grid_x sh) (sh_grid_y sh) (sh_grid_z sh)
     (sh_block_x sh) (sh_block_y sh) (sh_block_z sh)"

lemma contexts_agree:
  assumes "sh_grid_x sh \<noteq> 0" "sh_block_x sh \<noteq> 0" "launch_threads sh < 2 ^ 32"
  shows "map context_words (runtime_contexts sh) = map (thread_ctx sh) (thread_ids sh)"
  using shape_counts(1,2) [OF assms]
  by (simp add: runtime_contexts_def computeThreadContexts_def context_words_def thread_ctx_def thread_ids_def
      total_threads_def Let_def)

text \<open>The value of a special register in a context, and the environment in which a thread's kernel runs.\<close>

definition special_value :: "ThreadContext \<Rightarrow> string \<Rightarrow> u32" where
  "special_value c name =
     (if name = ''tid.x'' then tc_tid_x c else if name = ''tid.y'' then tc_tid_y c else if name = ''tid.z'' then tc_tid_z c
      else if name = ''ctaid.x'' then tc_ctaid_x c else if name = ''ctaid.y'' then tc_ctaid_y c
      else if name = ''ctaid.z'' then tc_ctaid_z c else if name = ''ntid.x'' then tc_ntid_x c
      else if name = ''ntid.y'' then tc_ntid_y c else tc_ntid_z c)"

definition thread_env :: "PtxParam list \<Rightarrow> (nat \<Rightarrow> u32) \<Rightarrow> launch_shape \<Rightarrow> nat \<Rightarrow> ptx_env" where
  "thread_env params args sh g = \<lparr> pe_params = params, pe_args = args, pe_ctx = ctx_base (of_nat g),
     pe_special = special_value (runtime_contexts sh ! g) \<rparr>"

section \<open>The workers of both schedulers\<close>

text \<open>The warp scheduler makes its workers warp by warp; in order, they are the threads of the launch.\<close>

lemma make_workers_append:
  "make_workers cfg sh pc regs (xs @ ys) mem =
     (let (us, mem1) = make_workers cfg sh pc regs xs mem; (vs, mem2) = make_workers cfg sh pc regs ys mem1
      in (us @ vs, mem2))"
  by (induction xs arbitrary: mem) (simp_all add: Let_def split_def)

lemma make_groups_workers:
  "make_workers cfg sh pc regs (concat ids) mem =
     (concat (map wg_threads (fst (make_groups cfg sh pc regs ids mem))), snd (make_groups cfg sh pc regs ids mem))"
  by (induction ids arbitrary: mem) (simp_all add: make_workers_append Let_def split_def)

lemma takeWhile_bound: "takeWhile (\<lambda>t. b + t < n) [0..<s] = [0..<min s (n - b)]" for b n s :: nat
proof -
  let ?m = "min s (n - b)"
  have "[0..<s] = [0..<?m] @ [?m..<s]" using upt_add_eq_append [of 0 ?m "s - ?m"] by simp
  moreover have "takeWhile (\<lambda>t. b + t < n) [?m..<s] = []" by (cases "?m < s") (auto simp: upt_rec)
  moreover have "takeWhile (\<lambda>t. b + t < n) ([0..<?m] @ ys) = [0..<?m] @ takeWhile (\<lambda>t. b + t < n) ys" for ys
    by (rule takeWhile_append2) auto
  ultimately show ?thesis by simp
qed

lemma shift_upt: "map ((+) a) [0..<i] = [a..<a + i]" for a i :: nat
  by (induction i) simp_all

lemma upt_shift: "[0..<a + i] = [0..<a] @ map ((+) a) [0..<i]" for a i :: nat
  by (simp only: shift_upt upt_add_eq_append [of 0 a i] zero_le)

lemma concat_chunks:
  "concat (map (\<lambda>j. map (\<lambda>t. j * s + t) [0..<min s (n - j * s)]) [0..<k]) = [0..<min n (k * s)]" for s n k :: nat
proof (induction k)
  case (Suc k)
  have "[0..<min n (k * s)] @ map ((+) (k * s)) [0..<min s (n - k * s)] = [0..<min n (Suc k * s)]"
  proof (cases "k * s \<le> n")
    case True
    then have "min n (k * s) = k * s" "min n (Suc k * s) = k * s + min s (n - k * s)" by auto
    then show ?thesis by (simp only: upt_shift)
  next
    case False
    then have "min n (k * s) = n" "min n (Suc k * s) = n" "min s (n - k * s) = 0" by auto
    then show ?thesis by (simp only: upt_conv_Nil order_refl list.map append_Nil2)
  qed
  with Suc show ?case by (simp only: upt_Suc_append zero_le map_append concat_append list.map concat.simps append_Nil2)
qed simp

lemma concat_blocks:
  fixes W n :: nat
  assumes "0 < W" "\<And>b. concat (map (\<lambda>j. f b j) [0..<W]) = map ((+) (b * n)) [0..<n]"
  shows "concat (map (\<lambda>i. f (i div W) (i mod W)) [0..<B * W]) = [0..<B * n]"
proof (induction B)
  case (Suc B)
  have "Suc B * W = B * W + W" "Suc B * n = B * n + n" by simp_all
  moreover have "map (\<lambda>i. f (i div W) (i mod W)) (map ((+) (B * W)) [0..<W]) = map (f B) [0..<W]"
    using assms(1) by simp
  ultimately show ?case using Suc assms(2) [of B] by (simp only: upt_shift map_append concat_append)
qed simp

lemma warp_thread_ids_nat:
  assumes "0 < unat ws" "unat ws \<le> unat tpb" "unat tpb \<le> 32768" "unat i32 = i"
    and "W = (unat tpb + unat ws - 1) div unat ws"
  shows "warp_thread_ids ws tpb i32 = map of_nat (map (\<lambda>t. (i div W) * unat tpb + (i mod W * unat ws + t))
     [0..<min (unat ws) (unat tpb - i mod W * unat ws)])"
proof -
  let ?s = "unat ws" and ?n = "unat tpb"
  have one: "1 \<le> tpb + ws" "unat (tpb + ws) = ?n + ?s"
    using assms(1-3) by (simp_all add: word_le_nat_alt unat_word_ariths)
  have W: "unat (warps_per_block ws tpb) = W" "0 < W"
    using one assms by (simp_all add: warps_per_block_def unat_div unat_sub div_greater_zero_iff)
  have Ws: "(W - 1) * ?s < ?n"
  proof -
    have "W * ?s \<le> ?n + ?s - 1" unfolding assms(5) by (metis div_times_less_eq_dividend)
    then show ?thesis using assms(1,2) W(2) by (cases W) auto
  qed
  define j where "j = i mod W"
  have "j \<le> W - 1" using mod_less_divisor [OF W(2), of i] by (simp add: j_def)
  then have "j * ?s \<le> (W - 1) * ?s" by (rule mult_le_mono1)
  then have small: "j * ?s < ?n" using Ws by linarith
  have blk: "i32 div warps_per_block ws tpb = of_nat (i div W)"
    using word_arith_nat_div [of i32 "warps_per_block ws tpb"] assms(4) W(1) by simp
  have "i32 mod warps_per_block ws tpb = of_nat j"
    using word_arith_nat_mod [of i32 "warps_per_block ws tpb"] assms(4) W(1) by (simp add: j_def)
  then have base: "(i32 mod warps_per_block ws tpb) * ws = of_nat (j * ?s)" by simp
  have lt: "(of_nat (j * ?s) + of_nat t < tpb) = (j * ?s + t < ?n)" if "t < ?s" for t
  proof -
    have "unat (of_nat (j * ?s + t) :: u32) = j * ?s + t"
      using small that assms(2,3) by (simp add: unat_of_nat del: of_nat_add of_nat_mult)
    then show ?thesis by (simp only: word_less_nat_alt of_nat_add)
  qed
  have "takeWhile (\<lambda>t. of_nat (j * ?s) + of_nat t < tpb) [0..<?s] = takeWhile (\<lambda>t. j * ?s + t < ?n) [0..<?s]"
    by (rule takeWhile_cong [OF refl]) (simp add: lt del: of_nat_mult)
  then show ?thesis
    unfolding warp_thread_ids_def Let_def blk base takeWhile_bound
    by (simp add: j_def ac_simps)
qed

lemma warp_size_range:
  assumes "0 < unat (threads_per_block sh)"
  shows "0 < unat (warp_size_of cfg sh)" "unat (warp_size_of cfg sh) \<le> unat (threads_per_block sh)"
proof -
  show "0 < unat (warp_size_of cfg sh)"
    using assms by (auto simp: warp_size_of_def min_def word_less_nat_alt)
  show "unat (warp_size_of cfg sh) \<le> unat (threads_per_block sh)"
    using assms by (auto simp: warp_size_of_def min_def word_le_nat_alt Suc_le_eq)
qed

lemma warp_ids_threads:
  assumes "0 < unat (threads_per_block sh)" "unat (total_blocks sh) * unat (threads_per_block sh) \<le> 32768" "0 < unat (total_blocks sh)"
  shows "concat (warp_ids cfg sh) = thread_ids sh"
proof -
  let ?ws = "warp_size_of cfg sh" and ?tpb = "threads_per_block sh"
  let ?s = "unat ?ws" and ?n = "unat ?tpb" and ?B = "unat (total_blocks sh)"
  define W where "W = (?n + ?s - 1) div ?s"
  note s = warp_size_range [OF assms(1), of cfg]
  have n: "?n \<le> 32768" using assms(2,3) by (cases ?B) auto
  have "1 \<le> ?tpb + ?ws" "unat (?tpb + ?ws) = ?n + ?s" using s n assms(1) by (simp_all add: word_le_nat_alt unat_word_ariths)
  then have W: "unat (warps_per_block ?ws ?tpb) = W" "0 < W"
    using s assms(1) by (simp_all add: warps_per_block_def W_def unat_div unat_sub div_greater_zero_iff)
  have "W \<le> ?n"
  proof -
    have "?n + ?s - 1 \<le> ?n * ?s" using s(1) assms(1) by (cases ?n; cases ?s) auto
    then have "W \<le> (?n * ?s) div ?s" unfolding W_def by (rule div_le_mono)
    then show ?thesis using s(1) by simp
  qed
  then have "?B * W \<le> ?B * ?n" by simp
  then have BW: "?B * W \<le> 32768" using assms(2) by linarith
  then have tw: "unat (total_blocks sh * warps_per_block ?ws ?tpb) = ?B * W" using W(1) by (simp add: unat_word_ariths)
  have "?n \<le> W * ?s"
  proof -
    have "?n + ?s - 1 < W * ?s + ?s"
      using div_mult_mod_eq [of "?n + ?s - 1" ?s] mod_less_divisor [OF s(1), of "?n + ?s - 1"] unfolding W_def by linarith
    then show ?thesis by linarith
  qed
  then have chunk: "concat (map (\<lambda>j. map (\<lambda>t. b * ?n + (j * ?s + t)) [0..<min ?s (?n - j * ?s)]) [0..<W]) = map ((+) (b * ?n)) [0..<?n]" for b
    using arg_cong [OF concat_chunks [of ?s ?n W], of "map ((+) (b * ?n))"]
    by (simp add: map_concat comp_def min_absorb1)
  have "warp_ids cfg sh = map (map of_nat) (map (\<lambda>i. map (\<lambda>t. (i div W) * ?n + (i mod W * ?s + t)) [0..<min ?s (?n - i mod W * ?s)]) [0..<?B * W])"
  proof -
    have "warp_thread_ids ?ws ?tpb (of_nat i) = map of_nat (map (\<lambda>t. (i div W) * ?n + (i mod W * ?s + t)) [0..<min ?s (?n - i mod W * ?s)])"
      if "i < ?B * W" for i
      by (rule warp_thread_ids_nat [OF s n _ W_def]) (use that BW in \<open>simp add: unat_of_nat\<close>)
    then show ?thesis unfolding warp_ids_def Let_def tw by simp
  qed
  then have "concat (warp_ids cfg sh) = map of_nat [0..<?B * ?n]"
    using concat_blocks [OF W(2) chunk, of ?B] by (simp only: map_concat [symmetric])
  moreover have "unat (total_threads sh) = ?B * ?n" using assms(2) by (simp add: total_threads_def unat_word_ariths)
  ultimately show ?thesis by (simp add: thread_ids_def)
qed

text \<open>The workers a run starts with, under the scheduler that the configuration selects, and the memory then.\<close>

definition launch_workers ::
  "BridgeConfig \<Rightarrow> launch_shape \<Rightarrow> u32 \<Rightarrow> u32 list \<Rightarrow> gmemory \<Rightarrow> Worker list \<times> gmemory" where
  "launch_workers cfg sh pc regs mem =
     (if warp_size_of cfg sh > 1
      then (case make_groups cfg sh pc regs (warp_ids cfg sh) mem of (gs, mem) \<Rightarrow> (concat (map wg_threads gs), mem))
      else make_workers cfg sh pc regs (thread_ids sh) mem)"

lemma small_launch:
  assumes "sh_grid_x sh \<noteq> 0" "sh_block_x sh \<noteq> 0" "launch_threads sh \<le> 32768"
  shows "launch_workers cfg sh pc regs mem = make_workers cfg sh pc regs (thread_ids sh) mem" "\<not> worker_traps sh"
proof -
  let ?gx = "max 1 (sh_grid_x sh)" and ?gy = "max 1 (sh_grid_y sh)" and ?gz = "max 1 (sh_grid_z sh)"
  let ?bx = "max 1 (sh_block_x sh)" and ?by = "max 1 (sh_block_y sh)" and ?bz = "max 1 (sh_block_z sh)"
  have "launch_threads sh < 2 ^ 32" using assms(3) by simp
  note c = shape_counts [OF assms(1,2) this]
  define gn where "gn = unat ?gx * unat ?gy * unat ?gz"
  define bn where "bn = unat ?bx * unat ?by * unat ?bz"
  have pos: "0 < gn" "0 < bn" by (simp_all add: gn_def bn_def max_1_pos)
  have le: "gn * bn \<le> 32768" using assms(3) by (simp add: launch_threads_def gn_def bn_def)
  have "gn \<le> gn * bn" "bn \<le> gn * bn" using pos by simp_all
  then have small: "gn \<le> 32768" "bn \<le> 32768" using le by linarith+
  have g: "unat (total_blocks sh) = gn" unfolding c(1) gn_def
    by (rule unat_prod3) (use small(1) max_1_pos in \<open>simp_all add: gn_def\<close>)
  have b: "unat (threads_per_block sh) = bn" unfolding c(2) bn_def
    by (rule unat_prod3) (use small(2) max_1_pos in \<open>simp_all add: bn_def\<close>)
  show "launch_workers cfg sh pc regs mem = make_workers cfg sh pc regs (thread_ids sh) mem"
    using warp_ids_threads [of sh cfg] make_groups_workers [of cfg sh pc regs "warp_ids cfg sh" mem] pos le
    by (simp add: launch_workers_def g b split_def)
  have "?gx * ?gy \<noteq> 0" "?bx * ?by \<noteq> 0"
    using c(1,2) g b pos by auto
  then show "\<not> worker_traps sh" by (simp add: worker_traps_def)
qed

text \<open>A launch set up with a zero in its grid's first dimension: two contexts of the runtime, one worker.\<close>

lemma zero_grid_disagrees:
  "let sh = \<lparr> sh_grid_x = 0, sh_grid_y = 2, sh_grid_z = 1, sh_block_x = 1, sh_block_y = 1, sh_block_z = 1 \<rparr>
   in length (runtime_contexts sh) = 2 \<and> length (thread_ids sh) = 1"
  by (simp add: runtime_contexts_def computeThreadContexts_def thread_ids_def total_threads_def total_blocks_def
      threads_per_block_def max_def Let_def)

section \<open>Properties\<close>

text \<open>C6: every thread finds its identity. For a launch of at most 32768 threads whose first grid and block dimensions
  are not zero (the others may be), the bridge makes, under the scalar scheduler and under the warp scheduler that the
  default configuration selects, one worker per context that the runtime computes, in the same order and without a trap;
  the \<open>gp\<close> of each points to its slot, and the slots hold what the compiled kernels assume of the special registers
  (the premise of the compiler's correctness). The register file handed to the workers has 32 words. Outside these
  bounds it fails: the slot of thread 32768 lies in the window of the shared memory, and a grid of 0 by 2, which
  \<open>configureLaunch\<close> lets through, has two contexts and one worker.\<close>

theorem launch_establishes_contexts:
  assumes "sh_grid_x sh \<noteq> 0" "sh_block_x sh \<noteq> 0" "launch_threads sh \<le> 32768" "length regs = 32"
    and "launch_workers cfg sh pc regs mem = (ws, mem')" "g < launch_threads sh"
  shows "\<not> worker_traps sh \<and> length ws = length (runtime_contexts sh) \<and> length ws = launch_threads sh \<and>
    getRegister (gc_binary (wk_cu (ws ! g))) 3 = pe_ctx (thread_env params args sh g) \<and>
    ctx_ok (thread_env params args sh g) (golden_view block mem')"
proof -
  have lt: "launch_threads sh < 2 ^ 32" using assms(3) by simp
  note c = shape_counts [OF assms(1,2) lt]
  have ws: "ws = fst (make_workers cfg sh pc regs (thread_ids sh) mem)" "mem' = snd (make_workers cfg sh pc regs (thread_ids sh) mem)"
    using assms(5) small_launch(1) [OF assms(1-3)] by simp_all
  have lw: "length ws = launch_threads sh" using c(3) by (simp add: ws(1) thread_ids_def)
  have lc: "length (runtime_contexts sh) = launch_threads sh"
    using arg_cong [OF contexts_agree [OF assms(1,2) lt], of length] c(3) by (simp add: thread_ids_def)
  have g: "g < unat (total_threads sh)" "g < 32768" using assms(3,6) c(3) by simp_all
  have id: "thread_ids sh ! g = of_nat g" "g < length (thread_ids sh)" using g by (simp_all add: thread_ids_def)
  obtain m where "ws ! g = fst (makeWorker cfg sh pc regs (of_nat g) m)"
    using make_workers_nth [OF id(2), of cfg sh pc regs mem] id(1) ws(1) by auto
  then have gp: "getRegister (gc_binary (wk_cu (ws ! g))) 3 = ctx_base (of_nat g)"
    using assms(4)
    by (simp add: getRegister_def makeWorker_def Let_def on_binary_def cuLaunchKernel_def ComputeUnit_init_def
        binary_reset_def setMemory_def setEntryPoint_def setInitialRegisters_def setReturnSentinel_def setBlockID_def
        worker_regs_def)
  have words: "thread_ctx sh (of_nat g) = context_words (runtime_contexts sh ! g)"
    using arg_cong [OF contexts_agree [OF assms(1,2) lt], of "\<lambda>l. l ! g"] id lc assms(6) by simp
  have slot: "golden_view block mem' (ctx_base (of_nat g) + 4 * of_nat k) = context_words (runtime_contexts sh ! g) ! k"
    if k: "k < 9" for k
  proof -
    have "unat (of_nat (4 * k) :: u32) = 4 * k" using k by (simp add: unat_of_nat del: of_nat_mult)
    then have "unat (ctx_base (of_nat g) + 4 * of_nat k) = 0x200000 + 64 * g + 4 * k"
      using ctx_base_unat [OF g(2)] g k by (subst unat_add_lem [THEN iffD1]) simp_all
    then have "\<not> gIsSharedMemoryAddress mem' (ucast (ctx_base (of_nat g) + 4 * of_nat k))"
      using g(2) k by (intro slot_not_shared) simp
    then show ?thesis
      using context_word [OF g(1) _ k, of cfg pc regs mem] assms(3) c(3) words by (simp add: golden_view_def ws(2))
  qed
  have "ctx_ok (thread_env params args sh g) (golden_view block mem')"
    using slot [of 0] slot [of 1] slot [of 2] slot [of 3] slot [of 4] slot [of 5] slot [of 6] slot [of 7] slot [of 8]
    by (simp add: ctx_ok_def special_names_def ctx_addr_def thread_env_def special_value_def specialRegOffset_def
        context_words_def)
  then show ?thesis using lw lc gp small_launch(2) [OF assms(1-3)] by (simp add: thread_env_def)
qed

text \<open>Beyond 32768 threads the slots run into the window of the shared memory: the context of thread 32768 is never
  written to global memory, and its \<open>gp\<close> points to the block's own shared data.\<close>

theorem context_slot_in_shared_window:
  assumes "0 < gm_shared_size mem"
  shows "ctx_base 32768 = 0x400000 \<and> gIsSharedMemoryAddress mem (ucast (ctx_base 32768)) \<and>
    gm_global_memory (snd (makeWorker cfg sh pc regs 32768 mem)) = gm_global_memory mem"
proof -
  have b: "ctx_base 32768 = 0x400000" by (simp add: ctx_base_def THREAD_CTX_BASE_def THREAD_CTX_STRIDE_def)
  have "unat (gm_shared_size mem) < 2 ^ 32" by (rule u32_bound)
  then have s: "gIsSharedMemoryAddress mem 0x400000"
    using assms by (simp add: gIsSharedMemoryAddress_def SHARED_MEM_BASE_def word_less_nat_alt unat_word_ariths)
  then show ?thesis
    by (auto simp: b makeWorker_def Let_def gWriteBytes_def gStartsShared_def split: option.splits)
qed

section \<open>Witnesses\<close>

theorem launch_establishes_contexts_witness:
  "warp_size_of BridgeConfig_default (bs_shape pair_setup) = 2 \<and>
   (\<exists>ws mem'. launch_workers BridgeConfig_default (bs_shape pair_setup) 0x1000 (replicate 32 0) gmemory0 = (ws, mem') \<and>
     length ws = 2 \<and> getRegister (gc_binary (wk_cu (ws ! 1))) 3 = 0x200040 \<and>
     ctx_ok (thread_env [] (\<lambda>_. 0) (bs_shape pair_setup) 1) (golden_view 0 mem'))"
proof -
  obtain ws mem' where m: "launch_workers BridgeConfig_default (bs_shape pair_setup) 0x1000 (replicate 32 0) gmemory0 = (ws, mem')"
    by fastforce
  have n: "launch_threads (bs_shape pair_setup) = 2" by (simp add: launch_threads_def pair_setup_def max_def)
  have w: "warp_size_of BridgeConfig_default (bs_shape pair_setup) = 2"
    by (simp add: warp_size_of_def BridgeConfig_default_def threads_per_block_def pair_setup_def max_def min_def)
  have "sh_grid_x (bs_shape pair_setup) \<noteq> 0" "sh_block_x (bs_shape pair_setup) \<noteq> 0" by (simp_all add: pair_setup_def)
  from launch_establishes_contexts [OF this _ _ m, of 1 "[]" "\<lambda>_. 0" 0]
  have "length ws = 2 \<and> getRegister (gc_binary (wk_cu (ws ! 1))) 3 = 0x200040 \<and>
     ctx_ok (thread_env [] (\<lambda>_. 0) (bs_shape pair_setup) 1) (golden_view 0 mem')"
    by (simp add: n thread_env_def ctx_base_def THREAD_CTX_BASE_def THREAD_CTX_STRIDE_def)
  with m w show ?thesis by blast
qed

theorem context_slot_in_shared_window_witness:
  "gIsSharedMemoryAddress gmemory0 (ucast (ctx_base 32768))"
proof -
  have "0 < gm_shared_size gmemory0" by (simp add: gmemory0_def)
  from context_slot_in_shared_window [OF this] show ?thesis by blast
qed

end
