(* ===== verification/BridgeSolo.thy ===== *)
theory BridgeSolo
  imports BridgeLaunch
begin

text \<open>
  A launch of one thread: the bridge's scheduler, barriers and statistics come down to running the compute unit until it
  halts, with every barrier passed at once. Also what the bridge does when it has no thread to run.
\<close>

section \<open>One thread\<close>

text \<open>The unit on its own.\<close>

fun solo_run :: "rv_fpu \<Rightarrow> nat \<Rightarrow> binary_cu \<Rightarrow> binary_cu option" where
  "solo_run fp 0 b = Some b"
| "solo_run fp (Suc n) b =
     (if bu_halted b then Some b
      else Option.bind (binary_step fp b) (\<lambda>b'. solo_run fp n (b'\<lparr> bu_blocked := False \<rparr>)))"

definition solo_stats :: "binary_cu \<Rightarrow> KernelBridge \<Rightarrow> KernelBridge" where
  "solo_stats b kb = kb\<lparr> kb_cycles := kb_cycles kb + bu_total_cycles b,
     kb_instructions := kb_instructions kb + bu_total_instructions b,
     kb_worker_cycles_total := kb_worker_cycles_total kb + bu_total_cycles b,
     kb_worker_cycles_max := max (kb_worker_cycles_max kb) (bu_total_cycles b) \<rparr>"

lemma binary_step_keeps:
  assumes "binary_step fp b = Some b'" "bu_ext_memory b = Some m"
  shows "bu_ext_memory b' \<noteq> None" "bu_binary_mode b' = bu_binary_mode b" "bu_max_cycles b' = bu_max_cycles b"
  using assms by (auto simp: binary_step_def Let_def split: if_splits option.splits prod.splits)

text \<open>The unit of a worker, attached to the memory of the schedule.\<close>

definition unit_on :: "gmemory \<Rightarrow> Worker \<Rightarrow> binary_cu" where
  "unit_on mem w = (gc_binary (wk_cu w))\<lparr> bu_ext_memory := Some mem \<rparr>"

lemma solo_visit:
  assumes "ss_workers st = [w]" "wk_active w" "limited w" "\<not> bu_blocked (unit_on (ss_mem st) w)"
  shows "binary_step fp (unit_on (ss_mem st) w) = None \<Longrightarrow> scalar_visit fp None 1 0 st = None"
    "binary_step fp (unit_on (ss_mem st) w) = Some b \<Longrightarrow> \<exists>w'.
       scalar_visit fp None 1 0 st = Some (st\<lparr> ss_any_active := True, ss_workers := [w'], ss_mem := the (bu_ext_memory b),
         ss_cycle := ss_cycle st + 1, ss_bridge := (if bu_halted b then solo_stats b (ss_bridge st) else ss_bridge st),
         ss_selected := ss_selected st + 1, ss_made_progress := True \<rparr>) \<and>
       gc_binary (wk_cu w') = b\<lparr> bu_blocked := False \<rparr> \<and> wk_active w' = (\<not> bu_halted b) \<and> wk_simt w' = wk_simt w"
proof -
  have nb: "\<not> worker_blocked w" and mode: "bu_binary_mode (gc_binary (wk_cu w))"
    using assms(3,4) by (simp_all add: unit_on_def worker_defs limited_def)
  show "scalar_visit fp None 1 0 st = None" if "binary_step fp (unit_on (ss_mem st) w) = None"
    using that assms(1,2) nb mode
    by (simp add: scalar_visit_def step_worker_def cuStep_def put_mem_def unit_on_def Let_def)
  assume s: "binary_step fp (unit_on (ss_mem st) w) = Some b"
  obtain m where m: "bu_ext_memory b = Some m" and mb: "bu_binary_mode b"
    using binary_step_keeps [OF s, of "ss_mem st"] mode by (auto simp: unit_on_def)
  define w1 where "w1 = w\<lparr> wk_cu := (wk_cu w)\<lparr> gc_binary := b \<rparr> \<rparr>"
  have step: "step_worker fp None (ss_mem st) w = Some (w1, m)"
    using s m mode by (simp add: step_worker_def cuStep_def put_mem_def unit_on_def w1_def Let_def)
  define w2 where "w2 = note_pc (worker_pc w) w1"
  have w2: "gc_binary (wk_cu w2) = b" "wk_active w2" "wk_simt w2 = wk_simt w" "worker_complete w2 = bu_halted b"
      "worker_blocked w2 = bu_blocked b"
    using assms(2) mb by (simp_all add: w2_def w1_def note_pc_def Let_def worker_defs)
  define w3 where "w3 = scalar_barrier 1 0 [w2] ! 0"
  have bar: "scalar_barrier 1 0 [w2] = [w3]" by (simp add: w3_def scalar_barrier_def Let_def)
  have w3: "gc_binary (wk_cu w3) = b\<lparr> bu_blocked := False \<rparr>" "wk_active w3" "wk_simt w3 = wk_simt w"
    using w2 by (auto simp: w3_def scalar_barrier_def arrived_def waits_at_def release_worker_def on_binary_def
        releaseBarrier_def worker_defs Let_def)
  have c3: "worker_complete w3 = bu_halted b" using w3(1) mb by (simp add: worker_complete_def cuIsComplete_def)
  have "scalar_visit fp None 1 0 st = Some (st\<lparr> ss_any_active := True, ss_workers := [fst (retire w3 (ss_bridge st))],
      ss_mem := m, ss_cycle := ss_cycle st + 1, ss_bridge := snd (retire w3 (ss_bridge st)),
      ss_selected := ss_selected st + 1, ss_made_progress := True \<rparr>)"
    using assms(1,2) nb step bar by (simp add: scalar_visit_def Let_def w2_def split_def)
  then show "\<exists>w'. scalar_visit fp None 1 0 st = Some (st\<lparr> ss_any_active := True, ss_workers := [w'],
      ss_mem := the (bu_ext_memory b), ss_cycle := ss_cycle st + 1,
      ss_bridge := (if bu_halted b then solo_stats b (ss_bridge st) else ss_bridge st),
      ss_selected := ss_selected st + 1, ss_made_progress := True \<rparr>) \<and>
    gc_binary (wk_cu w') = b\<lparr> bu_blocked := False \<rparr> \<and> wk_active w' = (\<not> bu_halted b) \<and> wk_simt w' = wk_simt w"
    using w3 c3 m by (intro exI [of _ "fst (retire w3 (ss_bridge st))"]) (simp add: retire_def solo_stats_def worker_cycles_def)
qed

lemma solo_pass:
  assumes "ss_workers st = [w]"
  shows "scalar_pass fp None 1 1 c st =
    scalar_visit fp None 1 0 (st\<lparr> ss_selected := 0, ss_any_active := False, ss_made_progress := False \<rparr>)"
  using assms by (cases "scalar_visit fp None 1 0 (st\<lparr> ss_selected := 0, ss_any_active := False, ss_made_progress := False \<rparr>)")
    (simp_all add: scalar_pass_def scan_order_def)

lemma solo_loop:
  "ss_workers st = [w] \<Longrightarrow> wk_active w \<Longrightarrow> limited w \<Longrightarrow> \<not> bu_blocked (unit_on (ss_mem st) w) \<Longrightarrow>
   \<not> bu_halted (unit_on (ss_mem st) w) \<Longrightarrow>
   \<exists>n. case solo_run fp n (unit_on (ss_mem st) w) of
       None \<Rightarrow> bridge_scalar_loop fp None 1 1 c st = Some HostTrap
     | Some b \<Rightarrow> bu_halted b \<and> (\<exists>st' w'. bridge_scalar_loop fp None 1 1 c st = Some (Finished (True, st')) \<and>
         ss_mem st' = the (bu_ext_memory b) \<and> ss_bridge st' = solo_stats b (ss_bridge st) \<and>
         ss_workers st' = [w'] \<and> wk_simt w' = wk_simt w)"
proof (induction "energy w" arbitrary: st w c rule: less_induct)
  case less
  let ?st = "st\<lparr> ss_selected := 0, ss_any_active := False, ss_made_progress := False \<rparr>"
  let ?u = "unit_on (ss_mem st) w"
  have st: "ss_workers ?st = [w]" "ss_mem ?st = ss_mem st" using less.prems(1) by simp_all
  note visit = solo_visit [OF st(1) less.prems(2,3), unfolded st(2), OF less.prems(4), of fp]
  show ?case
  proof (cases "binary_step fp ?u")
    case None
    then have "bridge_scalar_loop fp None 1 1 c st = Some HostTrap"
      using visit(1) by (subst bridge_scalar_loop.simps) (simp add: solo_pass [OF less.prems(1)] del: One_nat_def)
    then show ?thesis using None less.prems(5) by (intro exI [of _ 1]) simp
  next
    case (Some b)
    obtain w' where w': "gc_binary (wk_cu w') = b\<lparr> bu_blocked := False \<rparr>" "wk_active w' = (\<not> bu_halted b)" "wk_simt w' = wk_simt w"
      and v: "scalar_visit fp None 1 0 ?st = Some (?st\<lparr> ss_any_active := True, ss_workers := [w'],
         ss_mem := the (bu_ext_memory b), ss_cycle := ss_cycle ?st + 1,
         ss_bridge := (if bu_halted b then solo_stats b (ss_bridge ?st) else ss_bridge ?st),
         ss_selected := ss_selected ?st + 1, ss_made_progress := True \<rparr>)"
      using visit(2) [OF Some] by blast
    define st1 where "st1 = ?st\<lparr> ss_any_active := True, ss_workers := [w'],
         ss_mem := the (bu_ext_memory b), ss_cycle := ss_cycle ?st + 1,
         ss_bridge := (if bu_halted b then solo_stats b (ss_bridge ?st) else ss_bridge ?st),
         ss_selected := ss_selected ?st + 1, ss_made_progress := True \<rparr>"
    have loop: "bridge_scalar_loop fp None 1 1 c st = bridge_scalar_loop fp None 1 1 ((c + 1) mod 1) st1"
      using v by (subst bridge_scalar_loop.simps) (simp add: solo_pass [OF less.prems(1)] st1_def del: One_nat_def)
    have keeps: "bu_ext_memory b \<noteq> None" "bu_binary_mode b" "bu_max_cycles b > 0"
      using binary_step_keeps [OF Some, of "ss_mem st"] less.prems(3) by (simp_all add: unit_on_def limited_def)
    have u1: "unit_on (ss_mem st1) w' = b\<lparr> bu_blocked := False \<rparr>"
      using keeps(1) by (cases b) (auto simp: unit_on_def w'(1) st1_def)
    show ?thesis
    proof (cases "bu_halted b")
      case True
      have p: "scalar_pass fp None 1 1 k st1 =
          Some (st1\<lparr> ss_selected := 0, ss_any_active := False, ss_made_progress := False \<rparr>)" for k
        using True w'(2) by (subst solo_pass) (simp_all add: st1_def scalar_visit_def Let_def)
      have "bridge_scalar_loop fp None 1 1 ((c + 1) mod 1) st1 =
          Some (Finished (True, st1\<lparr> ss_selected := 0, ss_any_active := False, ss_made_progress := False \<rparr>))"
        by (subst bridge_scalar_loop.simps) (simp add: p del: One_nat_def)
      moreover have "solo_run fp 1 ?u = Some (b\<lparr> bu_blocked := False \<rparr>)"
        using Some less.prems(5) by simp
      ultimately show ?thesis
        using True w'(3) loop by (intro exI [of _ 1]) (simp add: st1_def solo_stats_def)
    next
      case False
      have lim: "limited w'" using keeps by (simp add: limited_def w'(1))
      have "energy w' < energy w"
      proof -
        have "binary_step fp ?u = Some b" "\<not> bu_halted ?u" "\<not> bu_blocked ?u" "bu_max_cycles ?u > 0"
          using Some less.prems(3-5) by (simp_all add: unit_on_def limited_def)
        from binary_step_cases [OF this] False
        show ?thesis using less.prems w'(1,2) keeps
          by (auto simp: energy_def worker_defs unit_on_def limited_def)
      qed
      then obtain n where n: "case solo_run fp n (unit_on (ss_mem st1) w') of
          None \<Rightarrow> bridge_scalar_loop fp None 1 1 ((c + 1) mod 1) st1 = Some HostTrap
        | Some b \<Rightarrow> bu_halted b \<and> (\<exists>st' w''. bridge_scalar_loop fp None 1 1 ((c + 1) mod 1) st1 = Some (Finished (True, st')) \<and>
            ss_mem st' = the (bu_ext_memory b) \<and> ss_bridge st' = solo_stats b (ss_bridge st1) \<and>
            ss_workers st' = [w''] \<and> wk_simt w'' = wk_simt w')"
        using less.hyps [of w' st1 "(c + 1) mod 1"] lim w'(2) False u1 by (auto simp: st1_def)
      have "solo_run fp (Suc n) ?u = solo_run fp n (unit_on (ss_mem st1) w')"
        using Some less.prems(5) u1 by simp
      then show ?thesis
        using n loop w'(3) False by (intro exI [of _ "Suc n"]) (auto simp: st1_def split: option.splits)
    qed
  qed
qed

lemma solo_run_halted: "bu_halted b \<Longrightarrow> solo_run fp n b = Some b"
  by (cases n) simp_all

lemma solo_run_add: "solo_run fp (m + k) b = Option.bind (solo_run fp m b) (solo_run fp k)"
proof (induction m arbitrary: b)
  case (Suc m)
  then show ?case by (cases "binary_step fp b") (auto simp: solo_run_halted)
qed simp

lemma solo_run_cycles:
  "solo_run fp n b = Some b' \<Longrightarrow> \<not> bu_halted b' \<Longrightarrow> \<not> bu_blocked b \<Longrightarrow> bu_max_cycles b > 0 \<Longrightarrow>
   bu_max_cycles b' = bu_max_cycles b \<and> unat (bu_total_cycles b') = unat (bu_total_cycles b) + n \<and> \<not> bu_blocked b'"
proof (induction n arbitrary: b)
  case (Suc n)
  have nh: "\<not> bu_halted b" using Suc.prems(1,2) by auto
  obtain c where c: "binary_step fp b = Some c" "solo_run fp n (c\<lparr> bu_blocked := False \<rparr>) = Some b'"
    using Suc.prems(1) nh by (cases "binary_step fp b") auto
  have "\<not> bu_halted c" using c(2) Suc.prems(2) solo_run_halted [of "c\<lparr> bu_blocked := False \<rparr>" fp n] by auto
  with binary_step_cases [OF c(1) nh Suc.prems(3,4)]
  show ?case using Suc.IH [OF c(2) Suc.prems(2)] Suc.prems(4) by simp
qed simp

section \<open>The end of a run\<close>

lemma length_gReadBytes [simp]: "length (gReadBytes a n block m) = n"
  by (auto simp: gReadBytes_def shared_range_def shared_offset_def Let_def split: option.splits if_splits)

text \<open>The buffers are written back with their own length, so this never fails.\<close>

lemma copy_back_ok: "fst (copy_back ps mem d) = None"
proof (induction ps arbitrary: d)
  case (Cons p ps)
  show ?case
  proof (cases "getDeviceBufferSize p d = 0")
    case False
    then obtain bs where "map_of (dv_device_buffers d) p = Some bs" "getDeviceBufferSize p d = length bs"
      by (auto simp: getDeviceBufferSize_def split: option.splits)
    then show ?thesis using Cons False by (simp add: Let_def setDeviceBufferContent_def)
  qed (simp add: Cons Let_def)
qed simp

lemma bridge_finish_ok:
  obtains kb' d' where "bridge_finish bs ps mem (kb, d) = (True, kb', d')" "kb_instructions kb' = kb_instructions kb"
proof -
  obtain d' where d: "copy_back ps (fold gReleaseSharedMemory (block_ids (bs_shape bs)) mem) d = (None, d')"
    by (metis copy_back_ok prod.collapse)
  have "kb_instructions (bridge_metrics kb) = kb_instructions kb" by (simp add: bridge_metrics_def Let_def)
  then show thesis using that d by (auto simp: bridge_finish_def Let_def)
qed

section \<open>Properties\<close>

text \<open>The compute unit of a launch of one thread, as the bridge starts it.\<close>

definition solo_unit :: "BridgeConfig \<Rightarrow> bridge_setup \<Rightarrow> binary_cu" where
  "solo_unit cfg bs = (binary_reset (bc_max_sim_cycles cfg))\<lparr> bu_binary_mode := True, bu_pc := bs_entry_pc bs,
     bu_return_sentinel := RETURN_SENTINEL, bu_regs := (worker_regs (bs_regs bs) 0)[0 := 0],
     bu_ext_memory := Some (gWriteBytes (ucast THREAD_CTX_BASE) (word_bytes (thread_ctx (bs_shape bs) 0)) 0 (bs_mem bs)) \<rparr>"

lemma makeWorker_solo:
  assumes "makeWorker cfg (bs_shape bs) (bs_entry_pc bs) (bs_regs bs) 0 (bs_mem bs) = (w, mem)"
  shows "unit_on mem w = solo_unit cfg bs" "wk_active w" "wk_simt w = SIMTController_default"
  using assms by (auto simp: makeWorker_def Let_def unit_on_def solo_unit_def ctx_base_def on_binary_def cuLaunchKernel_def
      ComputeUnit_init_def binary_reset_def setMemory_def setEntryPoint_def setInitialRegisters_def
      setReturnSentinel_def setBlockID_def)

lemma single_thread_run_aux:
  assumes "total_blocks (bs_shape bs) = 1" "threads_per_block (bs_shape bs) = 1" "bs_ctx_symbol bs = None"
    and "bc_max_sim_cycles cfg > 0" "\<not> worker_traps (bs_shape bs)"
  shows "\<exists>n. case solo_run fp n (solo_unit cfg bs) of
      None \<Rightarrow> run_scalar fp cfg bs kb = Some HostTrap
    | Some b \<Rightarrow> bu_halted b \<and> run_scalar fp cfg bs kb =
        Some (Finished (True, the (bu_ext_memory b), solo_stats b (kb\<lparr> kb_active_units := 1 \<rparr>)))"
proof -
  obtain w mem where w: "makeWorker cfg (bs_shape bs) (bs_entry_pc bs) (bs_regs bs) 0 (bs_mem bs) = (w, mem)" by fastforce
  note ms = makeWorker_solo [OF w]
  define st where "st = scalar_start cfg bs kb"
  have ids: "thread_ids (bs_shape bs) = [0]" using assms(1,2) by (simp add: thread_ids_def total_threads_def)
  have st: "ss_workers st = [w]" "ss_mem st = mem" "ss_bridge st = kb\<lparr> kb_active_units := 1 \<rparr>"
    using max_absorb1 [of "min (bc_num_compute_units cfg) 1" 1] by (simp_all add: st_def scalar_start_def ids w Let_def)
  have lim: "limited w" using makeWorker_limited [OF assms(4)] w by (metis fst_conv)
  have run: "run_scalar fp cfg bs kb = map_option (map_run (\<lambda>(ok, st). (ok, ss_mem st,
             if ok then fold (\<lambda>w kb. kb\<lparr> kb_divergence_events := kb_divergence_events kb + sc_divergence_events (wk_simt w) \<rparr>)
                          (ss_workers st) (ss_bridge st)
             else ss_bridge st))) (bridge_scalar_loop fp None 1 1 0 st)"
    using st(3) by (simp add: run_scalar_def Let_def assms(2,3,5) flip: st_def)
  have "\<not> bu_blocked (unit_on (ss_mem st) w)" "\<not> bu_halted (unit_on (ss_mem st) w)"
    by (simp_all add: st(2) ms(1) solo_unit_def binary_reset_def)
  from solo_loop [OF st(1) ms(2) lim this, of fp 0] obtain n where
    n: "case solo_run fp n (unit_on (ss_mem st) w) of
       None \<Rightarrow> bridge_scalar_loop fp None 1 1 0 st = Some HostTrap
     | Some b \<Rightarrow> bu_halted b \<and> (\<exists>st' w'. bridge_scalar_loop fp None 1 1 0 st = Some (Finished (True, st')) \<and>
         ss_mem st' = the (bu_ext_memory b) \<and> ss_bridge st' = solo_stats b (ss_bridge st) \<and>
         ss_workers st' = [w'] \<and> wk_simt w' = wk_simt w)" by blast
  then show ?thesis
    unfolding st(2) ms(1) using st(3) ms(3)
    by (intro exI [of _ n]) (auto simp: run SIMTController_default_def split: option.splits)
qed

text \<open>C30: a launch of a single thread is the run of its compute unit: when the 32-bit numbers of blocks and of
  threads per block are both one, the simulator has a cycle limit, and the kernel's file has no symbol
  \<open>__gpgpu_thread_context\<close> (whose variable the bridge would rewrite before every step), the bridge returns what the
  unit, started at the kernel's entry with the arguments in its registers, leaves in memory when it halts, and its
  cycles and instructions; barriers do not stop it. Either run ends, and the host traps when the unit does. The one other
  way to trap is before the unit starts: where a product of dimensions wraps to zero, as for a block of 65536 by 65536
  (whose 32-bit number of threads also becomes one), making the worker divides by zero.\<close>

theorem single_thread_run:
  assumes "total_blocks (bs_shape bs) = 1" "threads_per_block (bs_shape bs) = 1" "bs_ctx_symbol bs = None"
    and "bc_max_sim_cycles cfg > 0"
  shows "if worker_traps (bs_shape bs) then run_scalar fp cfg bs kb = Some HostTrap
    else (\<exists>n. case solo_run fp n (solo_unit cfg bs) of
      None \<Rightarrow> run_scalar fp cfg bs kb = Some HostTrap
    | Some b \<Rightarrow> bu_halted b \<and> run_scalar fp cfg bs kb =
        Some (Finished (True, the (bu_ext_memory b), solo_stats b (kb\<lparr> kb_active_units := 1 \<rparr>))))"
proof (cases "worker_traps (bs_shape bs)")
  case True
  then show ?thesis using assms(1,2) by (simp add: run_scalar_def thread_ids_def total_threads_def)
next
  case False
  with single_thread_run_aux [OF assms False] show ?thesis by simp
qed

text \<open>A launch whose block is 65536 by 65536 threads: one thread by the 32-bit count, and a division by zero.\<close>

definition square_block :: launch_shape where
  "square_block = \<lparr> sh_grid_x = 1, sh_grid_y = 1, sh_grid_z = 1, sh_block_x = 65536, sh_block_y = 65536, sh_block_z = 1 \<rparr>"

lemma square_block_shape:
  "total_blocks square_block = 1 \<and> threads_per_block square_block = 1 \<and> worker_traps square_block"
  by code_simp

lemma square_block_traps:
  assumes "bs_shape bs = square_block"
  shows "total_threads (bs_shape bs) = 1" "run_scalar fp cfg bs kb = Some HostTrap"
  using assms square_block_shape by (simp_all add: run_scalar_def thread_ids_def total_threads_def)

text \<open>A kernel that the cycle limit stops is reported as a success: nothing in the result of the run tells that
  the thread did not finish.\<close>

theorem watchdog_reported_as_success:
  assumes "total_blocks (bs_shape bs) = 1" "threads_per_block (bs_shape bs) = 1" "bs_ctx_symbol bs = None"
    and "bc_max_sim_cycles cfg > 0" "\<not> worker_traps (bs_shape bs)" "solo_run fp (unat (bc_max_sim_cycles cfg)) (solo_unit cfg bs) = Some b" "\<not> bu_halted b"
  shows "\<exists>kb'. run_scalar fp cfg bs kb = Some (Finished (True, the (bu_ext_memory b), kb')) \<and>
    kb_cycles kb' = kb_cycles kb + ucast (bc_max_sim_cycles cfg)"
proof -
  let ?max = "unat (bc_max_sim_cycles cfg)" and ?u = "solo_unit cfg bs"
  have u: "\<not> bu_blocked ?u" "bu_max_cycles ?u = bc_max_sim_cycles cfg" "bu_total_cycles ?u = 0"
    by (simp_all add: solo_unit_def binary_reset_def)
  have c: "bu_max_cycles b = bc_max_sim_cycles cfg" "unat (bu_total_cycles b) = ?max" "\<not> bu_blocked b"
    using solo_run_cycles [OF assms(6,7) u(1)] u assms(4) by simp_all
  have tc: "bu_total_cycles b = ucast (bc_max_sim_cycles cfg)" using c(2) by (simp add: word_unat_eq_iff)
  define b1 where "b1 = b\<lparr> bu_halted := True, bu_blocked := False \<rparr>"
  have last: "solo_run fp (Suc k) b = Some b1" for k
    using assms(4,7) c(1,3) tc by (simp add: binary_step_def b1_def solo_run_halted)
  obtain n where n: "case solo_run fp n ?u of
      None \<Rightarrow> run_scalar fp cfg bs kb = Some HostTrap
    | Some b \<Rightarrow> bu_halted b \<and> run_scalar fp cfg bs kb =
        Some (Finished (True, the (bu_ext_memory b), solo_stats b (kb\<lparr> kb_active_units := 1 \<rparr>)))"
    using single_thread_run_aux [OF assms(1-5), of fp kb] by blast
  have "solo_run fp n ?u = Some b1"
  proof (cases "n \<le> ?max")
    case True
    then obtain k where k: "?max = n + k" using le_Suc_ex by blast
    then obtain b2 where b2: "solo_run fp n ?u = Some b2" "solo_run fp k b2 = Some b"
      using assms(6) by (auto simp: solo_run_add bind_eq_Some_conv)
    have "bu_halted b2" using n b2(1) by simp
    then show ?thesis using b2(2) assms(7) by (simp add: solo_run_halted)
  next
    case False
    then obtain k where "n = ?max + Suc k" by (metis less_imp_Suc_add not_le add_Suc_right)
    then have "solo_run fp n ?u = Option.bind (solo_run fp ?max ?u) (solo_run fp (Suc k))" by (simp only: solo_run_add)
    then show ?thesis using last assms(6) by (simp del: solo_run.simps)
  qed
  with n show ?thesis by (simp add: b1_def solo_stats_def tc)
qed

lemma wrapped_runs_nothing:
  assumes "bridge_prepare (kb_cfg kb) files kernel_name binary_path kernel_args device_ptrs d = Some (Inr bs)"
    and "total_threads (bs_shape bs) = 0" "bc_threads_per_warp (kb_cfg kb) \<le> 1"
  shows "\<exists>kb' d'. runOnHardware fp files kernel_name binary_path kernel_args device_ptrs (kb, d) =
      Some (Finished (True, kb', d')) \<and> kb_instructions kb' = 0"
proof -
  let ?kb = "clear_stats 0 (kb\<lparr> kb_error := NoError \<rparr>)"
  define st where "st = scalar_start (kb_cfg kb) bs ?kb"
  have ws: "ss_workers st = []" "ss_bridge st = ?kb\<lparr> kb_active_units := 1 \<rparr>"
    using assms(2) by (simp_all add: st_def scalar_start_def thread_ids_def Let_def max_absorb1)
  then have "bridge_scalar_loop fp cs tpb n 0 st = Some (Finished (True, st\<lparr> ss_selected := 0, ss_any_active := False, ss_made_progress := False \<rparr>))" for cs tpb n
    by (subst bridge_scalar_loop.simps) (simp add: scalar_pass_def scan_order_def)
  then have run: "run_scalar fp (kb_cfg kb) bs ?kb = Some (Finished (True, ss_mem st, ?kb\<lparr> kb_active_units := 1 \<rparr>))"
    using ws assms(2) by (simp add: run_scalar_def thread_ids_def Let_def flip: st_def)
  obtain kb' d' where f: "bridge_finish bs device_ptrs (ss_mem st) (?kb\<lparr> kb_active_units := 1 \<rparr>, d) = (True, kb', d')"
      "kb_instructions kb' = kb_instructions (?kb\<lparr> kb_active_units := 1 \<rparr>)"
    by (rule bridge_finish_ok)
  have "\<not> 1 < warp_size_of (kb_cfg kb) (bs_shape bs)" using assms(3) by (auto simp: warp_size_of_def not_less min_le_iff_disj)
  then have "runOnHardware fp files kernel_name binary_path kernel_args device_ptrs (kb, d) = Some (Finished (True, kb', d'))"
    using assms(1,2) run f(1) by (simp add: runOnHardware_def Let_def)
  then show ?thesis using f(2) by (simp add: clear_stats_def)
qed

text \<open>A launch whose number of threads is a multiple of \<open>2 ^ 32\<close> runs nothing and succeeds.\<close>

theorem wrapped_launch_runs_nothing:
  assumes "bridge_prepare (kb_cfg kb) files kernel_name binary_path kernel_args device_ptrs d = Some (Inr bs)"
    and "total_threads (bs_shape bs) = 0" "bc_threads_per_warp (kb_cfg kb) \<le> 1"
  shows "\<exists>kb' d'. runOnHardware fp files kernel_name binary_path kernel_args device_ptrs (kb, d) =
      Some (Finished (True, kb', d')) \<and> kb_instructions kb' = 0"
  using assms by (rule wrapped_runs_nothing)

section \<open>Witnesses\<close>

definition solo_config :: BridgeConfig where
  "solo_config = BridgeConfig_default\<lparr> bc_max_sim_cycles := 1 \<rparr>"

definition solo_setup :: bridge_setup where
  "solo_setup = pair_setup\<lparr> bs_shape := (bs_shape pair_setup)\<lparr> sh_block_x := 1 \<rparr> \<rparr>"

lemma solo_shape: "total_blocks (bs_shape solo_setup) = 1" "threads_per_block (bs_shape solo_setup) = 1"
    "bs_ctx_symbol solo_setup = None" "bc_max_sim_cycles solo_config > 0" "\<not> worker_traps (bs_shape solo_setup)"
  by (simp_all add: total_blocks_def threads_per_block_def solo_setup_def pair_setup_def solo_config_def worker_traps_def)

theorem single_thread_run_witness:
  "\<forall>fp. \<exists>n. case solo_run fp n (solo_unit solo_config solo_setup) of
      None \<Rightarrow> run_scalar fp solo_config solo_setup (KernelBridge_init solo_config) = Some HostTrap
    | Some b \<Rightarrow> bu_halted b \<and> run_scalar fp solo_config solo_setup (KernelBridge_init solo_config) =
        Some (Finished (True, the (bu_ext_memory b), solo_stats b ((KernelBridge_init solo_config)\<lparr> kb_active_units := 1 \<rparr>)))"
  using single_thread_run [OF solo_shape(1-4)] solo_shape(5) by simp

text \<open>One step of this kernel stops at a barrier, so the limit of one cycle ends it.\<close>

lemma solo_one_step:
  "\<exists>b. solo_run fp 1 (solo_unit solo_config solo_setup) = Some b \<and> \<not> bu_halted b"
proof -
  have "fetch_raw 0x1000 0 (gWriteBytes 0x200000 (word_bytes (thread_ctx (bs_shape solo_setup) 0)) 0 (bs_mem solo_setup)) = 0x0000000B"
    using pair_fetch(2) [of "thread_ctx (bs_shape solo_setup) 0" "replicate 9 0"] by (simp add: solo_setup_def)
  then show ?thesis
    by (simp add: solo_unit_def binary_reset_def binary_step_def decode_bar RV32Instr_default_def THREAD_CTX_BASE_def Let_def)
      (simp add: solo_setup_def pair_setup_def solo_config_def decode_bar RV32Instr_default_def)
qed

theorem watchdog_reported_as_success_witness:
  "\<forall>fp. \<exists>mem kb'. run_scalar fp solo_config solo_setup (KernelBridge_init solo_config) = Some (Finished (True, mem, kb')) \<and>
     kb_cycles kb' = 1"
proof
  fix fp
  obtain b where b: "solo_run fp 1 (solo_unit solo_config solo_setup) = Some b" "\<not> bu_halted b"
    using solo_one_step by blast
  have m: "unat (bc_max_sim_cycles solo_config) = 1" by (simp add: solo_config_def)
  from watchdog_reported_as_success [OF solo_shape, of fp b "KernelBridge_init solo_config"] b
  show "\<exists>mem kb'. run_scalar fp solo_config solo_setup (KernelBridge_init solo_config) = Some (Finished (True, mem, kb')) \<and>
     kb_cycles kb' = 1"
    unfolding m by (auto simp: KernelBridge_init_def) (simp add: solo_config_def)
qed

lemma allocate_blocks_ok: "sz \<le> gm_shared_size mem \<Longrightarrow> \<exists>mem'. allocate_blocks sz bl mem = Inr mem'"
  by (induction bl arbitrary: mem) (simp_all add: gAllocateSharedMemory_def not_less)

definition wrapped_driver :: driver where
  "wrapped_driver = snd (configureLaunch (KernelLaunchArgs_default
     \<lparr> la_kernel_name := ''mul'', la_grid_x := 65536, la_block_x := 65536 \<rparr>) driver_init)"

definition scalar_config :: BridgeConfig where
  "scalar_config = BridgeConfig_default\<lparr> bc_threads_per_warp := 1 \<rparr>"

text \<open>Preparing a launch of the symbol file.\<close>

lemma demo_prepare:
  assumes "getCurrentLaunchArgs d = Some la" "la_kernel_name la = ''mul''" "la_entry_symbol la \<in> {[], ''mul''}"
    "la_shared_mem_bytes la = 0" "files path = Some demo_elf"
  shows "\<exists>bs. bridge_prepare cfg files ''mul'' path [] [] d = Some (Inr bs) \<and> bs_shape bs = effective_shape (Some la)"
proof -
  let ?mem = "MemoryHierarchy_init (bc_shared_mem_size cfg)"
  obtain l where l: "elf_load (Some demo_elf) (ElfLoader_init, ?mem) = Some (True, l, ?mem)"
      "findSymbol ''mul'' l = Some \<lparr> se_name = ''add_mul'', se_address = 0x10040, se_size = 64 \<rparr>"
    using demo_elf_load by blast
  have "\<exists>m. allocate_blocks 0 bl ?mem = Inr m" for bl by (rule allocate_blocks_ok) simp
  then obtain m where m: "allocate_blocks 0 (block_ids (effective_shape (Some la))) ?mem = Inr m" by blast
  have e: "(if la_entry_symbol la \<noteq> [] then la_entry_symbol la else ''mul'') = ''mul''" using assms(3) by auto
  show ?thesis
    using l m assms(1,2,4,5) e by (simp add: bridge_prepare_def Let_def argument_registers_def)
qed

lemma wrapped_prepare:
  "\<exists>bs. bridge_prepare scalar_config (\<lambda>_. Some demo_elf) ''mul'' ''mul.elf'' [] [] wrapped_driver = Some (Inr bs) \<and>
     total_threads (bs_shape bs) = 0"
proof -
  obtain la where la: "getCurrentLaunchArgs wrapped_driver = Some la" "la_kernel_name la = ''mul''" "la_entry_symbol la = []"
      "la_shared_mem_bytes la = 0" "total_threads (effective_shape (Some la)) = 0"
    by (simp add: wrapped_driver_def configureLaunch_def getCurrentLaunchArgs_def effective_shape_def total_threads_def
        total_blocks_def threads_per_block_def KernelLaunchArgs_default_def max_def)
  show ?thesis using demo_prepare [of wrapped_driver la "\<lambda>_. Some demo_elf" "''mul.elf''" scalar_config] la by auto
qed

theorem wrapped_launch_runs_nothing_witness:
  "\<forall>fp. \<exists>kb' d'. runOnHardware fp (\<lambda>_. Some demo_elf) ''mul'' ''mul.elf'' [] [] (KernelBridge_init scalar_config, wrapped_driver) =
      Some (Finished (True, kb', d')) \<and> kb_instructions kb' = 0"
proof
  fix fp
  obtain bs where b: "bridge_prepare scalar_config (\<lambda>_. Some demo_elf) ''mul'' ''mul.elf'' [] [] wrapped_driver = Some (Inr bs)"
      "total_threads (bs_shape bs) = 0"
    using wrapped_prepare by blast
  have c: "kb_cfg (KernelBridge_init scalar_config) = scalar_config" by (simp add: KernelBridge_init_def)
  show "\<exists>kb' d'. runOnHardware fp (\<lambda>_. Some demo_elf) ''mul'' ''mul.elf'' [] [] (KernelBridge_init scalar_config, wrapped_driver) =
      Some (Finished (True, kb', d')) \<and> kb_instructions kb' = 0"
  proof (rule wrapped_launch_runs_nothing [OF _ b(2)])
    show "bridge_prepare (kb_cfg (KernelBridge_init scalar_config)) (\<lambda>_. Some demo_elf) ''mul'' ''mul.elf'' [] [] wrapped_driver = Some (Inr bs)"
      by (simp add: c b(1))
    show "bc_threads_per_warp (kb_cfg (KernelBridge_init scalar_config)) \<le> 1" unfolding c by (simp add: scalar_config_def)
  qed
qed

end
