(* ===== verification/HostProps.thy ===== *)
theory HostProps
  imports HostLaunch BridgeSolo
begin

text \<open>
  What a launch through the host API does: with a PTX kernel it runs the compiled image on the bridge and settles the
  state of the driver, on the simulated build without a PTX kernel it runs nothing, and on the board it passes only two
  of the six dimensions.
\<close>

section \<open>A successful launch\<close>

lemma launch_args_fields [simp]:
  "la_kernel_name (launch_args name grid block args shared h) = name"
  "la_args (launch_args name grid block args shared h) = (if args = [] then ha_staged_args h else args)"
  "la_grid_x (launch_args name (gx, gy, gz) block args shared h) = gx"
  "la_grid_y (launch_args name (gx, gy, gz) block args shared h) = gy"
  by (simp_all add: launch_args_def split_beta)

lemma launch_args_error [simp]:
  "launch_args name grid block args shared (h\<lparr> ha_last_error := e \<rparr>) = launch_args name grid block args shared h"
  by (simp add: launch_args_def split_beta)

lemma finish_launch_True: "finish_launch executed e h = (True, h') \<Longrightarrow>
    executed \<and> h' = (snd (on_driver (finishKernelExecution True) h))\<lparr> ha_staged_args := [] \<rparr>"
  by (auto simp: finish_launch_def failHostOperation_def Let_def split: if_splits)

lemma systemc_succeeds:
  assumes "executeWithSystemC fp temp_file launch elf d = Some (Finished (Answered True e, d'))"
  obtains path kb where "temp_file elf = Inr path"
    "runOnHardware fp (\<lambda>p. if p = path then Some elf else None) (la_kernel_name launch) path (la_args launch)
       (getAllocatedDeviceBufferAddresses d) (KernelBridge_init systemc_config, d) = Some (Finished (True, kb, d'))"
  using assms by (auto simp: executeWithSystemC_def map_run_Finished split: if_splits sum.splits)

definition launched :: "KernelLaunchArgs \<Rightarrow> driver \<Rightarrow> driver" where
  "launched la d = d\<lparr> dv_launch_args := la, dv_launch_configured := True, dv_exec_state := RUNNING \<rparr>"

lemma launch_image_True:
  assumes "launch_image la elf h = Some (Finished (True, h'))" "ha_backend h = Some backend"
  obtains e d' where "backend la elf (launched la (ha_driver h)) = Some (Finished (Answered True e, d'))"
    "dv_device_buffers (ha_driver h') = dv_device_buffers d'"
proof -
  define h1 where "h1 = h\<lparr> ha_driver := launched la (ha_driver h) \<rparr>"
  have "launch_image la elf h = run_backend backend la elf h1"
    using assms(2) by (simp add: launch_image_def launch_simps launched_def Let_def h1_def)
  with assms(1) have r: "run_backend backend la elf h1 = Some (Finished (True, h'))" by simp
  have driver: "ha_driver h1 = launched la (ha_driver h)" by (simp add: h1_def)
  obtain answer d' where b: "backend la elf (launched la (ha_driver h)) = Some (Finished (answer, d'))"
      "(case answer of
           Answered executed e \<Rightarrow> finish_launch executed e (h1\<lparr> ha_driver := d' \<rparr>)
         | RaisedException what \<Rightarrow> finish_launch False (''Kernel execution backend exception: '' @ what) (h1\<lparr> ha_driver := d' \<rparr>)
         | RaisedUnknown \<Rightarrow> finish_launch False ''Kernel execution backend raised an unknown exception'' (h1\<lparr> ha_driver := d' \<rparr>))
       = (True, h')"
    using r driver by (auto simp: run_backend_def map_run_Finished Let_def)
  have dead: "finish_launch False e q \<noteq> (True, h')" for e q using finish_launch_True by blast
  obtain e where "answer = Answered True e" and h': "finish_launch True e (h1\<lparr> ha_driver := d' \<rparr>) = (True, h')"
  proof (cases answer)
    case (Answered x e)
    with b(2) dead show thesis using that by (cases x) auto
  qed (use b(2) dead in auto)
  moreover have "dv_device_buffers (ha_driver h') = dv_device_buffers d'"
    using finish_launch_True [OF h'] by (auto simp: on_driver_def finishKernelExecution_def)
  ultimately show thesis using b(1) that by simp
qed

lemma launch_ptx_True:
  assumes "launch_ptx outcome launch h = Some (Finished (True, h'))"
  obtains elf where "outcome = Compiled elf" "re_ok elf" "re_entry_symbol elf = la_kernel_name launch"
    "launch_image (launch\<lparr> la_entry_symbol := la_kernel_name launch \<rparr>) (re_bytes elf) h = Some (Finished (True, h'))"
  using assms by (auto simp: launch_ptx_def abort_launch_def failHostOperation_def Let_def split: compile_outcome.splits if_splits)

section \<open>Properties\<close>

text \<open>The launch is refused: it returns false with a message, and nothing else of the state changes.\<close>

definition refused :: "host \<Rightarrow> bool \<times> host \<Rightarrow> bool" where
  "refused h = (\<lambda>(ok, h'). \<not> ok \<and> ha_last_error h' \<noteq> [] \<and> h' = h\<lparr> ha_last_error := ha_last_error h' \<rparr>)"

text \<open>C16: whatever the compiler and the kernel do, a launch of a registered kernel, with the SystemC backend installed or
  none, returns or the host process dies. A call with an empty name or a zero among its dimensions is refused at
  once: it fails with a message and leaves everything else as it was, the staged arguments and the state of the driver
  included. After any other call that returns the staged arguments are gone, the driver is in the state that the return
  value says, there is an error message exactly on failure, and the registrations and the board are untouched.\<close>

theorem ptx_launch_settles:
  assumes "ha_backend h = None \<or> ha_backend h = Some (executeWithSystemC fp temp_file)"
    and "map_of (ha_registered_ptx h) name = Some src"
  shows "returns_with (if name = [] \<or> has_zero grid \<or> has_zero block then refused h else settled h)
    (gpgpuLaunchKernel target compile name grid block args shared h)"
proof (cases "name = [] \<or> has_zero grid \<or> has_zero block")
  case True
  then have "\<exists>e. e \<noteq> [] \<and> gpgpuLaunchKernel target compile name grid block args shared h =
      Some (Finished (failHostOperation e (h\<lparr> ha_last_error := [] \<rparr>)))"
    by (cases "name = []") (auto simp: gpgpuLaunchKernel_def Let_def)
  with True show ?thesis by (auto simp: failHostOperation_def refused_def returns_with_def)
next
  case False
  then show ?thesis using systemc.launch_settles [OF assms] by simp
qed

text \<open>C7: a launch that succeeds has run the compiled image: the bridge, given the image, the arguments of the call (the
  staged ones when there are none), the dimensions of the call and every device buffer, completed, and the buffers are
  those that it left.\<close>

theorem ptx_launch_runs_image:
  assumes "ha_backend h = Some (executeWithSystemC fp temp_file)" "map_of (ha_registered_ptx h) name = Some src"
    and "gpgpuLaunchKernel target compile name grid block args shared h = Some (Finished (True, h'))"
  shows "\<exists>elf path kb d'. compile src = Compiled elf \<and> re_entry_symbol elf = name \<and> temp_file (re_bytes elf) = Inr path \<and>
    runOnHardware fp (\<lambda>p. if p = path then Some (re_bytes elf) else None) name path
      (if args = [] then ha_staged_args h else args) (getAllocatedDeviceBufferAddresses (ha_driver h))
      (KernelBridge_init systemc_config,
       launched ((launch_args name grid block args shared h)\<lparr> la_entry_symbol := name \<rparr>) (ha_driver h))
    = Some (Finished (True, kb, d')) \<and> dv_device_buffers (ha_driver h') = dv_device_buffers d'"
proof -
  let ?h = "h\<lparr> ha_last_error := [] \<rparr>"
  let ?launch = "launch_args name grid block args shared h"
  have "launch_ptx (compile src) ?launch ?h = Some (Finished (True, h'))"
    using assms(2,3) by (auto simp: gpgpuLaunchKernel_def failHostOperation_def Let_def split: if_splits)
  then obtain elf where elf: "compile src = Compiled elf" "re_entry_symbol elf = name"
      "launch_image (?launch\<lparr> la_entry_symbol := name \<rparr>) (re_bytes elf) ?h = Some (Finished (True, h'))"
    by (auto elim!: launch_ptx_True)
  obtain e d' where d': "executeWithSystemC fp temp_file (?launch\<lparr> la_entry_symbol := name \<rparr>) (re_bytes elf)
        (launched (?launch\<lparr> la_entry_symbol := name \<rparr>) (ha_driver h)) = Some (Finished (Answered True e, d'))"
      "dv_device_buffers (ha_driver h') = dv_device_buffers d'"
    using launch_image_True [OF elf(3), of "executeWithSystemC fp temp_file"] assms(1) by auto
  show ?thesis
    using elf(1,2) d' by (auto elim!: systemc_succeeds simp: launched_def getAllocatedDeviceBufferAddresses_def)
qed

text \<open>On the simulated build, launching a kernel that has no PTX text succeeds and does nothing: no buffer changes,
  although the driver reports the kernel as completed.\<close>

theorem unregistered_launch_runs_nothing:
  assumes "map_of (ha_registered_ptx h) name = None" "name \<notin> ha_required_ptx h" "name \<noteq> []" "\<not> has_zero grid"
    "\<not> has_zero block"
  shows "\<exists>h'. gpgpuLaunchKernel Simulated compile name grid block args shared h = Some (Finished (True, h')) \<and>
    dv_device_buffers (ha_driver h') = dv_device_buffers (ha_driver h) \<and> gpgpuSynchronize Simulated h' = Some (True, h')"
  using assms
  by (simp add: gpgpuLaunchKernel_def launch_loaded_def launch_simps startKernel_def Let_def
      gpgpuSynchronize_def pollKernelCompletion_def)

text \<open>The board learns of a launch only the first two dimensions of its grid: the depth of the grid, the
  block, the arguments and the shared memory change neither the registers nor the memory it sees, nor the result.\<close>

theorem board_ignores_block_and_arguments:
  assumes "map_of (ha_registered_ptx h) name = None" "gz \<noteq> 0" "gz' \<noteq> 0" "\<not> has_zero block" "\<not> has_zero block'"
  shows "map_option (map_run (\<lambda>(ok, h'). (ok, ha_fpga h')))
      (gpgpuLaunchKernel (Board b) compile name (gx, gy, gz) block args shared h) =
    map_option (map_run (\<lambda>(ok, h'). (ok, ha_fpga h')))
      (gpgpuLaunchKernel (Board b) compile name (gx, gy, gz') block' args' shared' h)"
proof -
  have same: "launchKernelOnFpga b path la f = launchKernelOnFpga b path la' f"
    if "la_grid_x la = la_grid_x la'" "la_grid_y la = la_grid_y la'" for path f la la'
    unfolding launchKernelOnFpga_def that by (rule refl)
  have loaded: "map_option (map_run (\<lambda>(ok, h'). (ok, ha_fpga h'))) (launch_loaded (Board b) la h) =
      (if la_kernel_name la \<in> ha_required_ptx h then Some (Finished (False, ha_fpga h))
       else map_option (map_run (\<lambda>(err, f). (err = None, f)))
         (launchKernelOnFpga b (dv_kernel_binary_path (ha_driver h)) la (ha_fpga h)))" for la h
    by (auto simp: launch_loaded_def launch_simps Let_def option.map_comp comp_def run.map_comp split: option.split
        intro!: option.map_cong0 run.map_cong0)
  show ?thesis
    using assms by (simp add: gpgpuLaunchKernel_def has_zero_def Let_def loaded failHostOperation_def
        same [of "launch_args name (gx, gy, gz) block args shared h" "launch_args name (gx, gy, gz') block' args' shared' h"])
qed

text \<open>Waiting twice for the board breaks the state of the driver: the second call succeeds as the first did, and the
  completed kernel counts as failed from then on.\<close>

theorem second_synchronize_fails_the_kernel:
  assumes "isOpen (ha_fpga h)" "dv_exec_state (ha_driver h) = RUNNING" "waitForStatus ST_DONE (ba_polls b) = Some True"
  shows "\<exists>h1 h2. gpgpuSynchronize (Board b) h = Some (True, h1) \<and> dv_exec_state (ha_driver h1) = COMPLETED \<and>
    gpgpuSynchronize (Board b) h1 = Some (True, h2) \<and> dv_exec_state (ha_driver h2) = FAILED"
  using assms by (simp add: gpgpuSynchronize_def sync_board_def launch_simps)

section \<open>Witnesses\<close>

definition demo_host :: "rv_fpu \<Rightarrow> host" where
  "demo_host fp = snd (gpgpuRegisterPtx ''mul'' ''.entry mul'' (installSystemCKernelExecutionBackend fp (\<lambda>_. Inr ''/tmp/k.elf'') host_init))"

definition demo_compile :: "string \<Rightarrow> compile_outcome" where
  "demo_compile src = Compiled \<lparr> re_bytes = demo_elf, re_entry_symbol = ''mul'', re_asm_text = [], re_ok = True, re_error = [] \<rparr>"

lemma demo_host_fields [simp]:
  "ha_backend (demo_host fp) = Some (executeWithSystemC fp (\<lambda>_. Inr ''/tmp/k.elf''))"
  "ha_registered_ptx (demo_host fp) = [(''mul'', ''.entry mul'')]" "ha_required_ptx (demo_host fp) = {}"
  "ha_staged_args (demo_host fp) = []" "ha_driver (demo_host fp) = driver_init" "ha_last_error (demo_host fp) = []"
  by (simp_all add: demo_host_def gpgpuRegisterPtx_def installSystemCKernelExecutionBackend_def
      installKernelExecutionBackend_def host_init_def)

theorem ptx_launch_settles_witness:
  "\<forall>fp. returns_with (settled (demo_host fp))
       (gpgpuLaunchKernel Simulated demo_compile ''mul'' (65536, 1, 1) (65536, 1, 1) [] 0 (demo_host fp)) \<and>
     returns_with (refused (demo_host fp))
       (gpgpuLaunchKernel Simulated demo_compile ''mul'' (0, 2, 1) (1, 1, 1) [] 0 (demo_host fp))"
proof
  fix fp
  note inst = ptx_launch_settles [where h = "demo_host fp" and name = "''mul''" and src = "''.entry mul''"
      and fp = fp and temp_file = "\<lambda>_. Inr ''/tmp/k.elf''"]
  show "returns_with (settled (demo_host fp))
       (gpgpuLaunchKernel Simulated demo_compile ''mul'' (65536, 1, 1) (65536, 1, 1) [] 0 (demo_host fp)) \<and>
     returns_with (refused (demo_host fp))
       (gpgpuLaunchKernel Simulated demo_compile ''mul'' (0, 2, 1) (1, 1, 1) [] 0 (demo_host fp))"
    using inst [of "(65536, 1, 1)" "(65536, 1, 1)" Simulated demo_compile "[]" 0]
      inst [of "(0, 2, 1)" "(1, 1, 1)" Simulated demo_compile "[]" 0]
    by (simp add: has_zero_def)
qed

lemma demo_elf_ne: "demo_elf \<noteq> []"
  using demo_elf_shape(1) by auto

lemma demo_launch:
  "\<exists>h'. gpgpuLaunchKernel Simulated demo_compile ''mul'' (65536, 1, 1) (65536, 1, 1) [] 0 (demo_host fp) =
     Some (Finished (True, h'))"
proof -
  let ?la = "(launch_args ''mul'' (65536, 1, 1) (65536, 1, 1) [] 0 (demo_host fp))\<lparr> la_entry_symbol := ''mul'' \<rparr>"
  let ?d = "launched ?la driver_init"
  let ?files = "\<lambda>p. if p = ''/tmp/k.elf'' then Some demo_elf else None"
  have la: "la_kernel_name ?la = ''mul''" "la_entry_symbol ?la = ''mul''" "la_shared_mem_bytes ?la = 0" "la_args ?la = []"
    "total_threads (effective_shape (Some ?la)) = 0"
    by (simp_all add: launch_args_def effective_shape_def total_threads_def total_blocks_def threads_per_block_def max_def)
  have "getCurrentLaunchArgs ?d = Some ?la" by (simp add: launched_def getCurrentLaunchArgs_def)
  then obtain bs where bs: "bridge_prepare systemc_config ?files ''mul'' ''/tmp/k.elf'' [] [] ?d = Some (Inr bs)"
      "bs_shape bs = effective_shape (Some ?la)"
    using demo_prepare [of ?d ?la ?files "''/tmp/k.elf''" systemc_config] la by auto
  have cfg: "kb_cfg (KernelBridge_init systemc_config) = systemc_config" by (simp add: KernelBridge_init_def)
  have "\<exists>kb' d'. runOnHardware fp ?files ''mul'' ''/tmp/k.elf'' [] [] (KernelBridge_init systemc_config, ?d) =
      Some (Finished (True, kb', d')) \<and> kb_instructions kb' = 0"
    using bs la(5) by (intro wrapped_runs_nothing [where bs = bs])
      (simp_all add: cfg, simp add: systemc_config_def BridgeConfig_default_def)
  then obtain kb' d' where run: "runOnHardware fp ?files ''mul'' ''/tmp/k.elf'' [] [] (KernelBridge_init systemc_config, ?d) =
      Some (Finished (True, kb', d'))" by blast
  have ex: "executeWithSystemC fp (\<lambda>_. Inr ''/tmp/k.elf'') ?la demo_elf ?d = Some (Finished (Answered True [], d'))"
    using run la by (simp add: executeWithSystemC_def demo_elf_ne getAllocatedDeviceBufferAddresses_def launched_def driver_init_def)
  show ?thesis
    using ex la by (simp add: gpgpuLaunchKernel_def has_zero_def launch_ptx_def demo_compile_def demo_elf_ne Let_def
        launch_image_def launch_simps run_backend_def launched_def driver_init_def finish_launch_def)
qed

theorem ptx_launch_runs_image_witness:
  "\<forall>fp. \<exists>kb d'. runOnHardware fp (\<lambda>p. if p = ''/tmp/k.elf'' then Some demo_elf else None) ''mul'' ''/tmp/k.elf'' [] []
     (KernelBridge_init systemc_config,
      launched ((launch_args ''mul'' (65536, 1, 1) (65536, 1, 1) [] 0 (demo_host fp))\<lparr> la_entry_symbol := ''mul'' \<rparr>) driver_init)
     = Some (Finished (True, kb, d'))"
proof
  fix fp
  obtain h' where h': "gpgpuLaunchKernel Simulated demo_compile ''mul'' (65536, 1, 1) (65536, 1, 1) [] 0 (demo_host fp) =
      Some (Finished (True, h'))"
    using demo_launch by blast
  obtain elf path kb d' where r: "demo_compile ''.entry mul'' = Compiled elf" "path = ''/tmp/k.elf''"
      "runOnHardware fp (\<lambda>p. if p = path then Some (re_bytes elf) else None) ''mul'' path [] []
        (KernelBridge_init systemc_config,
         launched ((launch_args ''mul'' (65536, 1, 1) (65536, 1, 1) [] 0 (demo_host fp))\<lparr> la_entry_symbol := ''mul'' \<rparr>) driver_init)
       = Some (Finished (True, kb, d'))"
    using ptx_launch_runs_image [OF demo_host_fields(1) _ h', of "''.entry mul''"]
    by (auto simp: getAllocatedDeviceBufferAddresses_def driver_init_def)
  have "re_bytes elf = demo_elf" using r(1) by (auto simp: demo_compile_def)
  show "\<exists>kb d'. runOnHardware fp (\<lambda>p. if p = ''/tmp/k.elf'' then Some demo_elf else None) ''mul'' ''/tmp/k.elf'' [] []
     (KernelBridge_init systemc_config,
      launched ((launch_args ''mul'' (65536, 1, 1) (65536, 1, 1) [] 0 (demo_host fp))\<lparr> la_entry_symbol := ''mul'' \<rparr>) driver_init)
     = Some (Finished (True, kb, d'))"
    using r(3) unfolding r(2) \<open>re_bytes elf = demo_elf\<close> by blast
qed

theorem unregistered_launch_runs_nothing_witness:
  "\<exists>h'. gpgpuLaunchKernel Simulated demo_compile ''add'' (1, 1, 1) (1, 1, 1) [] 0 host_init = Some (Finished (True, h')) \<and>
     gpgpuSynchronize Simulated h' = Some (True, h')"
  using unregistered_launch_runs_nothing [of host_init "''add''" "(1, 1, 1)" "(1, 1, 1)" demo_compile "[]" 0]
  by (auto simp: host_init_def has_zero_def)

theorem board_ignores_block_and_arguments_witness:
  "\<forall>b h. map_option (map_run (\<lambda>(ok, h'). (ok, ha_fpga h')))
      (gpgpuLaunchKernel (Board b) demo_compile ''add'' (4, 4, 1) (32, 1, 1) [7] 0 (h\<lparr> ha_registered_ptx := [] \<rparr>)) =
    map_option (map_run (\<lambda>(ok, h'). (ok, ha_fpga h')))
      (gpgpuLaunchKernel (Board b) demo_compile ''add'' (4, 4, 8) (1, 1, 1) [9] 64 (h\<lparr> ha_registered_ptx := [] \<rparr>))"
  by (intro allI board_ignores_block_and_arguments) (simp_all add: has_zero_def)

definition running_board :: host where
  "running_board = host_init\<lparr> ha_driver := driver_init\<lparr> dv_exec_state := RUNNING \<rparr>,
     ha_fpga := FpgaDriver_default\<lparr> fd_regs := Some (replicate 8 0) \<rparr> \<rparr>"

theorem second_synchronize_fails_the_kernel_witness:
  "\<exists>h1 h2. gpgpuSynchronize (Board \<lparr> ba_files = \<lambda>_. None, ba_polls = [(2, False)], ba_status = 2 \<rparr>) running_board = Some (True, h1) \<and>
     gpgpuSynchronize (Board \<lparr> ba_files = \<lambda>_. None, ba_polls = [(2, False)], ba_status = 2 \<rparr>) h1 = Some (True, h2) \<and>
     dv_exec_state (ha_driver h2) = FAILED"
  using second_synchronize_fails_the_kernel [of running_board "\<lparr> ba_files = \<lambda>_. None, ba_polls = [(2, False)], ba_status = 2 \<rparr>"]
  by (auto simp: running_board_def isOpen_def status_value_def)

end
