(* ===== verification/KernelBundle.thy ===== *)
theory KernelBundle
  imports RvEmitter
begin

text \<open>
  Kernel bundles: \<open>software/kernel_loader/kernel_loader.{h,cpp}\<close>. A bundle is a manifest, a small JSON text, beside a
  kernel file. The file system and the commands of the host are the record \<open>host_fs\<close>: what a path names, what is
  there, which files can be written, and what a shell command prints. The operations of \<open>std::filesystem::path\<close> are
  modelled on the text of a POSIX path. A call that leaves with an exception of \<open>std::filesystem\<close> is \<open>None\<close>.
\<close>

section \<open>Files and paths\<close>

datatype file_node = RegularFile string | Directory

record host_fs =
  hf_resolve :: "string \<Rightarrow> string"
  hf_nodes :: "string \<rightharpoonup> file_node"
  hf_cwd :: string
  hf_writable :: "string \<Rightarrow> bool"
  hf_run :: "string \<Rightarrow> string"

definition file_at :: "host_fs \<Rightarrow> string \<Rightarrow> file_node option" where
  "file_at fs p = hf_nodes fs (hf_resolve fs p)"

definition pathExists :: "string \<Rightarrow> host_fs \<Rightarrow> bool" where
  "pathExists p fs \<longleftrightarrow> file_at fs p \<noteq> None"

text \<open>\<open>file_size\<close> throws unless the path names a regular file.\<close>

definition file_size :: "host_fs \<Rightarrow> string \<Rightarrow> u64 option" where
  "file_size fs p = (case file_at fs p of Some (RegularFile s) \<Rightarrow> Some (of_nat (length s)) | _ \<Rightarrow> None)"

definition writeManifest :: "string \<Rightarrow> string \<Rightarrow> host_fs \<Rightarrow> bool \<times> host_fs" where
  "writeManifest p content fs =
     (if \<not> hf_writable fs p \<or> file_at fs p = Some Directory then (False, fs)
      else (True, fs\<lparr> hf_nodes := (hf_nodes fs)(hf_resolve fs p \<mapsto> RegularFile content) \<rparr>))"

definition is_relative :: "string \<Rightarrow> bool" where
  "is_relative p \<longleftrightarrow> (p = [] \<or> hd p \<noteq> CHR ''/'')"

definition path_append :: "string \<Rightarrow> string \<Rightarrow> string" where
  "path_append l r =
     (if \<not> is_relative r then r else if l \<noteq> [] \<and> last l \<noteq> CHR ''/'' then l @ ''/'' @ r else l @ r)"

definition parent_path :: "string \<Rightarrow> string" where
  "parent_path p =
     (let d = rev (dropWhile (\<lambda>c. c \<noteq> CHR ''/'') (rev p)); d' = rev (dropWhile (\<lambda>c. c = CHR ''/'') (rev d))
      in if d = [] then [] else if d' = [] then ''/'' else d')"

fun path_names :: "string \<Rightarrow> string list" where
  "path_names [] = []"
| "path_names (c # s) =
     (if c = CHR ''/'' then path_names s
      else case path_names s of
          [] \<Rightarrow> [[c]]
        | n # ns \<Rightarrow> if s \<noteq> [] \<and> hd s = CHR ''/'' then [c] # n # ns else (c # n) # ns)"

text \<open>The stack of names, last name first: a dot is skipped, a dot-dot takes a name away.\<close>

fun push_name :: "bool \<Rightarrow> string \<Rightarrow> string list \<Rightarrow> string list" where
  "push_name root n st =
     (if n = ''.'' then st
      else if n = ''..'' then (case st of [] \<Rightarrow> if root then [] else [''..''] | m # ms \<Rightarrow> if m = ''..'' then ''..'' # st else ms)
      else n # st)"

fun join_names :: "string list \<Rightarrow> string" where
  "join_names [] = []"
| "join_names [n] = n"
| "join_names (n # ns) = n @ ''/'' @ join_names ns"

definition lexically_normal :: "string \<Rightarrow> string" where
  "lexically_normal p =
     (if p = [] then []
      else
        let root = \<not> is_relative p; names = path_names p; st = fold (push_name root) names [];
            trailing = (last p = CHR ''/'' \<or> (names \<noteq> [] \<and> last names \<in> {''.'', ''..''}));
            q = (if root then ''/'' else []) @ join_names (rev st) @
                (if trailing \<and> st \<noteq> [] \<and> hd st \<noteq> ''..'' then ''/'' else [])
        in if q = [] then ''.'' else q)"

definition absolute_path :: "host_fs \<Rightarrow> string \<Rightarrow> string" where
  "absolute_path fs p = path_append (hf_cwd fs) p"

definition normal_path :: "host_fs \<Rightarrow> string \<Rightarrow> string" where
  "normal_path fs p = lexically_normal (absolute_path fs p)"

section \<open>Text\<close>

definition newline :: char where "newline = CHR 0x0A"
definition dquote :: char where "dquote = CHR 0x22"

text \<open>The lines that \<open>std::getline\<close> returns.\<close>

fun text_lines :: "string \<Rightarrow> string list" where
  "text_lines [] = []"
| "text_lines (c # s) =
     (if c = newline then [] # text_lines s
      else case text_lines s of [] \<Rightarrow> [[c]] | l # ls \<Rightarrow> (c # l) # ls)"

definition unlines :: "string list \<Rightarrow> string" where
  "unlines ls = concat (map (\<lambda>l. l @ [newline]) ls)"

text \<open>The words that \<open>operator>>\<close> reads one after the other.\<close>

fun text_words :: "string \<Rightarrow> string list" where
  "text_words [] = []"
| "text_words (c # s) =
     (if isspace c then text_words s
      else case text_words s of [] \<Rightarrow> [[c]] | w # ws \<Rightarrow> if s \<noteq> [] \<and> isspace (hd s) then [c] # w # ws else (c # w) # ws)"

definition trim :: "string \<Rightarrow> string" where
  "trim s = rev (dropWhile isspace (rev (dropWhile isspace s)))"

text \<open>\<open>find\<close>: the text from the first occurrence on.\<close>

fun find_text :: "string \<Rightarrow> string \<Rightarrow> string option" where
  "find_text pat [] = (if pat = [] then Some [] else None)"
| "find_text pat (c # s) = (if starts_with pat (c # s) then Some (c # s) else find_text pat s)"

definition find_char :: "char \<Rightarrow> string \<Rightarrow> string option" where
  "find_char c s = (case dropWhile (\<lambda>d. d \<noteq> c) s of [] \<Rightarrow> None | t \<Rightarrow> Some t)"

definition quoted :: "string \<Rightarrow> string" where
  "quoted s = dquote # s @ [dquote]"

text \<open>\<open>std::stoull\<close> in base 10; \<open>None\<close> when it throws.\<close>

definition stoull :: "string \<Rightarrow> u64 option" where
  "stoull s =
     (let s = dropWhile isspace s;
          neg = (s \<noteq> [] \<and> hd s = CHR ''-'');
          s = (if s \<noteq> [] \<and> (hd s = CHR ''-'' \<or> hd s = CHR ''+'') then tl s else s);
          ds = takeWhile isdigit s; v = nat (of_digits 10 ds)
      in if ds = [] \<or> v \<ge> 2 ^ 64 then None else Some (if neg then - of_nat v else of_nat v))"

section \<open>Manifest fields\<close>

definition parseJsonStringValue :: "string \<Rightarrow> string \<Rightarrow> string option" where
  "parseJsonStringValue line key =
     (case find_text (quoted key) line of None \<Rightarrow> None
      | Some s \<Rightarrow> (case find_char (CHR '':'') s of None \<Rightarrow> None
          | Some t \<Rightarrow> (case find_char dquote (tl t) of None \<Rightarrow> None
              | Some u \<Rightarrow> if dquote \<in> set (tl u) then Some (takeWhile (\<lambda>c. c \<noteq> dquote) (tl u)) else None)))"

definition parseJsonUint64Value :: "string \<Rightarrow> string \<Rightarrow> u64 option" where
  "parseJsonUint64Value line key =
     (case find_text (quoted key) line of None \<Rightarrow> None
      | Some s \<Rightarrow> (case find_char (CHR '':'') s of None \<Rightarrow> None | Some t \<Rightarrow> stoull (trim (tl t))))"

definition parseJsonUint32Value :: "string \<Rightarrow> string \<Rightarrow> u32 option" where
  "parseJsonUint32Value line key =
     (case parseJsonUint64Value line key of None \<Rightarrow> None
      | Some v \<Rightarrow> if v > 0xFFFFFFFF then None else Some (ucast v))"

section \<open>Symbols of a kernel file\<close>

definition detectNm :: "host_fs \<Rightarrow> string option" where
  "detectNm fs = find (\<lambda>candidate. hf_run fs (''which '' @ candidate @ '' 2>/dev/null'') \<noteq> [])
     [''riscv64-unknown-elf-nm'', ''riscv32-unknown-elf-nm'', ''nm'']"

definition nm_output :: "host_fs \<Rightarrow> string \<Rightarrow> string \<Rightarrow> string" where
  "nm_output fs nm binary_path = hf_run fs (nm @ '' --defined-only -f posix '' @ quoted binary_path @ '' 2>/dev/null'')"

definition function_symbol :: "string \<Rightarrow> string option" where
  "function_symbol line =
     (case text_words line of
        sy # typ # addr # rest \<Rightarrow> if typ \<in> {''T'', ''t'', ''W'', ''w''} then Some sy else None
      | _ \<Rightarrow> None)"

definition function_symbols :: "string \<Rightarrow> string list" where
  "function_symbols report = List.map_filter function_symbol (text_lines report)"

definition extractFirstFunctionSymbol :: "string \<Rightarrow> string option" where
  "extractFirstFunctionSymbol report = (case function_symbols report of [] \<Rightarrow> None | sy # _ \<Rightarrow> Some sy)"

definition resolveEntrySymbol :: "host_fs \<Rightarrow> string \<Rightarrow> string \<Rightarrow> string option" where
  "resolveEntrySymbol fs binary_path base =
     (if \<not> pathExists binary_path fs then None
      else case detectNm fs of None \<Rightarrow> None
        | Some nm \<Rightarrow> find (contains base) (function_symbols (nm_output fs nm binary_path)))"

text \<open>The result and the report.\<close>

definition listKernelSymbols :: "host_fs \<Rightarrow> string \<Rightarrow> string \<Rightarrow> bool \<times> string" where
  "listKernelSymbols fs binary_path report =
     (if \<not> pathExists binary_path fs then (False, report)
      else case detectNm fs of
          None \<Rightarrow> (False, ''<nm not found>'')
        | Some nm \<Rightarrow> (True, if nm_output fs nm binary_path = [] then ''<no symbols>'' else nm_output fs nm binary_path))"

section \<open>Bundles\<close>

datatype KernelBundleFormat = Elf | Ptx

record KernelBundleInfo =
  bi_kernel_name :: string
  bi_binary_path :: string
  bi_entry_symbol :: string
  bi_format :: KernelBundleFormat
  bi_binary_size :: u64
  bi_workgroup_x :: u32
  bi_workgroup_y :: u32
  bi_workgroup_z :: u32
  bi_shared_mem_bytes :: u64

definition KernelBundleInfo_default :: KernelBundleInfo where
  "KernelBundleInfo_default = \<lparr> bi_kernel_name = [], bi_binary_path = [], bi_entry_symbol = [], bi_format = Elf,
     bi_binary_size = 0, bi_workgroup_x = 1, bi_workgroup_y = 1, bi_workgroup_z = 1, bi_shared_mem_bytes = 0 \<rparr>"

definition string_field :: "string \<Rightarrow> string \<Rightarrow> string" where
  "string_field key v = ''  '' @ quoted key @ '': '' @ quoted v @ '',''"

definition number_field :: "string \<Rightarrow> nat \<Rightarrow> string \<Rightarrow> string" where
  "number_field key v end = ''  '' @ quoted key @ '': '' @ show_nat v @ end"

definition manifest_lines :: "string \<Rightarrow> string \<Rightarrow> string \<Rightarrow> string \<Rightarrow> u64 \<Rightarrow> u32 \<times> u32 \<times> u32 \<Rightarrow> u64 \<Rightarrow> string list" where
  "manifest_lines kernel_name path fmt entry sz = (\<lambda>(wx, wy, wz) shared.
     [''{'', string_field ''kernel_name'' kernel_name, string_field ''binary_path'' path,
      string_field ''binary_format'' fmt, string_field ''entry_symbol'' entry,
      number_field ''binary_size'' (unat sz) '','', number_field ''workgroup_x'' (unat wx) '','',
      number_field ''workgroup_y'' (unat wy) '','', number_field ''workgroup_z'' (unat wz) '','',
      number_field ''shared_mem_bytes'' (unat shared) [], ''}''])"

definition pack_entry_symbol :: "host_fs \<Rightarrow> string \<Rightarrow> string \<Rightarrow> string" where
  "pack_entry_symbol fs binary_path kernel_name =
     (case resolveEntrySymbol fs binary_path kernel_name of
        Some e \<Rightarrow> e
      | None \<Rightarrow>
          let (ok, report) = listKernelSymbols fs binary_path [];
              e = (if ok then case extractFirstFunctionSymbol report of Some sy \<Rightarrow> sy | None \<Rightarrow> [] else [])
          in if e = [] then kernel_name else e)"

definition packKernelBundle :: "string \<Rightarrow> string \<Rightarrow> string \<Rightarrow> u32 \<times> u32 \<times> u32 \<Rightarrow> u64 \<Rightarrow> host_fs \<Rightarrow> (bool \<times> host_fs) option" where
  "packKernelBundle kernel_name binary_path manifest_path wg shared fs =
     (if \<not> pathExists binary_path fs then Some (False, fs)
      else map_option (\<lambda>sz. writeManifest manifest_path
          (unlines (manifest_lines kernel_name (normal_path fs binary_path) ''elf''
             (pack_entry_symbol fs binary_path kernel_name) sz wg shared)) fs)
        (file_size fs binary_path))"

definition packPtxKernelBundle :: "string \<Rightarrow> string \<Rightarrow> string \<Rightarrow> u32 \<times> u32 \<times> u32 \<Rightarrow> u64 \<Rightarrow> host_fs \<Rightarrow> (bool \<times> host_fs) option" where
  "packPtxKernelBundle kernel_name ptx_path manifest_path wg shared fs =
     (if kernel_name = [] \<or> \<not> pathExists ptx_path fs \<or> fst wg = 0 \<or> fst (snd wg) = 0 \<or> snd (snd wg) = 0
      then Some (False, fs)
      else map_option (\<lambda>sz. writeManifest manifest_path
          (unlines (manifest_lines kernel_name ptx_path ''ptx'' kernel_name sz wg shared)) fs)
        (file_size fs ptx_path))"

text \<open>One line of the manifest: every field is looked for in it.\<close>

definition default_to :: "'a \<Rightarrow> 'a option \<Rightarrow> 'a" where
  "default_to d x = (case x of None \<Rightarrow> d | Some v \<Rightarrow> v)"

definition inspect_line :: "string \<Rightarrow> KernelBundleInfo \<times> string \<times> u64 \<Rightarrow> KernelBundleInfo \<times> string \<times> u64" where
  "inspect_line line = (\<lambda>(info, fmt, seen_size).
     (info\<lparr> bi_kernel_name := default_to (bi_kernel_name info) (parseJsonStringValue line ''kernel_name''),
            bi_binary_path := default_to (bi_binary_path info) (parseJsonStringValue line ''binary_path''),
            bi_entry_symbol := default_to (bi_entry_symbol info) (parseJsonStringValue line ''entry_symbol''),
            bi_workgroup_x := default_to (bi_workgroup_x info) (parseJsonUint32Value line ''workgroup_x''),
            bi_workgroup_y := default_to (bi_workgroup_y info) (parseJsonUint32Value line ''workgroup_y''),
            bi_workgroup_z := default_to (bi_workgroup_z info) (parseJsonUint32Value line ''workgroup_z''),
            bi_shared_mem_bytes := default_to (bi_shared_mem_bytes info) (parseJsonUint64Value line ''shared_mem_bytes'') \<rparr>,
      default_to fmt (parseJsonStringValue line ''binary_format''),
      default_to seen_size (parseJsonUint64Value line ''binary_size'')))"

definition bundle_format :: "string \<Rightarrow> KernelBundleFormat option" where
  "bundle_format fmt = (if fmt = ''elf'' then Some Elf else if fmt = ''ptx'' then Some Ptx else None)"

text \<open>The kernel file: a relative path is looked up beside the manifest first.\<close>

definition bundle_artifact :: "host_fs \<Rightarrow> string \<Rightarrow> string \<Rightarrow> string" where
  "bundle_artifact fs manifest_path p =
     (if is_relative p \<and> pathExists (path_append (parent_path manifest_path) p) fs
      then path_append (parent_path manifest_path) p else p)"

text \<open>The checks after reading; \<open>None\<close> when the call returns false.\<close>

definition check_bundle :: "host_fs \<Rightarrow> string \<Rightarrow> KernelBundleInfo \<times> string \<times> u64 \<Rightarrow> KernelBundleInfo option" where
  "check_bundle fs manifest_path = (\<lambda>(info, fmt, seen_size).
     if bi_kernel_name info = [] \<or> bi_binary_path info = [] then None
     else case bundle_format fmt of None \<Rightarrow> None
       | Some f \<Rightarrow>
           let info = info\<lparr> bi_format := f \<rparr>; artifact = bundle_artifact fs manifest_path (bi_binary_path info) in
           (case file_size fs artifact of
              None \<Rightarrow> None
            | Some sz \<Rightarrow>
                let info = info\<lparr> bi_binary_path := normal_path fs artifact \<rparr> in
                if bi_workgroup_x info = 0 \<or> bi_workgroup_y info = 0 \<or> bi_workgroup_z info = 0 then None
                else
                  let info = (if f = Ptx \<and> bi_entry_symbol info = [] then info\<lparr> bi_entry_symbol := bi_kernel_name info \<rparr> else info) in
                  if f = Ptx \<and> bi_entry_symbol info \<noteq> bi_kernel_name info then None
                  else if seen_size \<noteq> 0 \<and> seen_size \<noteq> sz then None
                  else Some (info\<lparr> bi_binary_size := sz \<rparr>)))"

definition inspectKernelBundleDetails :: "host_fs \<Rightarrow> string \<Rightarrow> KernelBundleInfo option" where
  "inspectKernelBundleDetails fs manifest_path =
     (case file_at fs manifest_path of
        Some (RegularFile s) \<Rightarrow>
          check_bundle fs manifest_path (fold inspect_line (text_lines s) (KernelBundleInfo_default, ''elf'', 0))
      | _ \<Rightarrow> None)"

definition inspectKernelBundle :: "host_fs \<Rightarrow> string \<Rightarrow> (string \<times> string \<times> u64) option" where
  "inspectKernelBundle fs manifest_path =
     map_option (\<lambda>info. (bi_kernel_name info, bi_binary_path info, bi_binary_size info))
       (inspectKernelBundleDetails fs manifest_path)"

definition loadKernelBundle :: "host_fs \<Rightarrow> string \<Rightarrow> bool" where
  "loadKernelBundle fs manifest_path \<longleftrightarrow> inspectKernelBundle fs manifest_path \<noteq> None"

end
