(* ===== verification/BundleTrip.thy ===== *)
theory BundleTrip
  imports KernelBundle GMem
begin

text \<open>
  Packing and inspecting a kernel bundle: the manifest that \<open>packKernelBundle\<close> writes is read back by
  \<open>inspectKernelBundleDetails\<close> field by field. The lemmas say where a quoted key is found in a line of the manifest.
\<close>

section \<open>Finding a field in a line\<close>

lemma find_text_skip:
  "dquote \<notin> set a \<Longrightarrow> find_text (quoted k) (a @ dquote # s) = find_text (quoted k) (dquote # s)"
  by (induction a) (auto simp: quoted_def starts_with_def)

lemma starts_with_quoted:
  assumes "dquote \<notin> set k" "dquote \<notin> set b"
  shows "starts_with (quoted k) (dquote # b @ dquote # s) \<longleftrightarrow> b = k"
proof -
  have "take (length k + 1) (b @ dquote # s) = k @ [dquote] \<longleftrightarrow> b = k" using assms
  proof (induction b arbitrary: k)
    case Nil
    then show ?case by (cases k) auto
  next
    case (Cons c b)
    then show ?case by (cases k) auto
  qed
  then show ?thesis by (simp add: quoted_def starts_with_def)
qed

lemma find_text_here:
  assumes "dquote \<notin> set k" "dquote \<notin> set b"
  shows "find_text (quoted k) (dquote # b @ dquote # s) =
    (if b = k then Some (dquote # b @ dquote # s) else find_text (quoted k) (dquote # s))"
  using assms by (simp add: starts_with_quoted find_text_skip)

lemma find_text_none: "dquote \<notin> set a \<Longrightarrow> find_text (quoted k) a = None"
  by (induction a) (auto simp: quoted_def starts_with_def)

lemma find_text_last: "dquote \<notin> set a \<Longrightarrow> find_text (quoted k) (dquote # a) = None"
proof -
  assume a: "dquote \<notin> set a"
  have "\<not> starts_with (quoted k) (dquote # a)"
  proof
    assume "starts_with (quoted k) (dquote # a)"
    then have "take (length k + 1) a = k @ [dquote]" by (simp add: quoted_def starts_with_def)
    then have "dquote \<in> set (take (length k + 1) a)" by simp
    then show False using a set_take_subset by fastforce
  qed
  then show ?thesis using a by (simp add: find_text_none)
qed

lemma find_char_at: "c \<notin> set a \<Longrightarrow> find_char c (a @ c # s) = Some (c # s)"
  by (simp add: find_char_def dropWhile_append3 dropWhile_append)

lemma find_char_none: "c \<notin> set a \<Longrightarrow> find_char c a = None"
  by (simp add: find_char_def dropWhile_eq_Nil_conv) (metis (mono_tags, lifting) dropWhile_eq_Nil_conv list.simps(4))

text \<open>What a manifest key looks like.\<close>

definition is_key :: "string \<Rightarrow> bool" where
  "is_key k \<longleftrightarrow> dquote \<notin> set k \<and> CHR '':'' \<notin> set k"

lemma find_in_string_field:
  assumes "is_key k" "is_key k'" "dquote \<notin> set v"
  shows "find_text (quoted k) (string_field k' v) =
    (if k' = k then Some (quoted k' @ '': '' @ quoted v @ '','') else if v = k then Some (quoted v @ '','') else None)"
proof -
  have d: "dquote \<notin> set ''  ''" "dquote \<notin> set '': ''" "dquote \<notin> set '',''" by (simp_all add: dquote_def)
  have c: "'': '' \<noteq> k" using assms(1) by (auto simp: is_key_def)
  have "string_field k' v = ''  '' @ dquote # k' @ dquote # '': '' @ dquote # v @ dquote # '',''"
    by (simp add: string_field_def quoted_def)
  then show ?thesis
    using assms c d find_text_here [of k k' "'': '' @ dquote # v @ dquote # '',''"]
      find_text_here [of k "'': ''" "v @ dquote # '',''"] find_text_here [of k v "'',''"] find_text_last [of "'',''" k]
      find_text_skip [of "''  ''" k]
    by (simp only: is_key_def) (auto simp: quoted_def)
qed

lemma find_in_number_field:
  assumes "is_key k" "is_key k'" "dquote \<notin> set end"
  shows "find_text (quoted k) (number_field k' n end) =
    (if k' = k then Some (quoted k' @ '': '' @ show_nat n @ end) else None)"
proof -
  have d: "dquote \<notin> set ''  ''" "dquote \<notin> set ('': '' @ show_nat n @ end)"
    using show_nat_digits [of n] assms(3) by (auto simp: dquote_def list_all_iff isdigit_def char_in_def)
  have "number_field k' n end = ''  '' @ dquote # k' @ dquote # ('': '' @ show_nat n @ end)"
    by (simp add: number_field_def quoted_def)
  then show ?thesis
    using assms d find_text_here [of k k' "'': '' @ show_nat n @ end"] find_text_last [OF d(2), of k] find_text_skip [of "''  ''" k]
    by (simp only: is_key_def) (auto simp: quoted_def)
qed

section \<open>Reading a field\<close>

lemma string_of_string_field:
  assumes "is_key k" "is_key k'" "dquote \<notin> set v"
  shows "parseJsonStringValue (string_field k' v) k = (if k' = k then Some v else None)"
proof -
  have "find_char (CHR '':'') (quoted k @ '','') = None"
    using assms(1) by (intro find_char_none) (auto simp: quoted_def is_key_def dquote_def)
  moreover have "find_char (CHR '':'') (quoted k @ '': '' @ quoted v @ '','') = Some ('': '' @ quoted v @ '','')"
    using assms(1) find_char_at [of "CHR '':''" "quoted k" "'' '' @ quoted v @ '',''"] by (auto simp: quoted_def is_key_def dquote_def)
  moreover have "find_char dquote ('' '' @ quoted v @ '','') = Some (quoted v @ '','')"
    using find_char_at [of dquote "'' ''" "v @ dquote # '',''"] by (simp add: quoted_def dquote_def)
  moreover have "takeWhile (\<lambda>c. c \<noteq> dquote) (x @ dquote # '','') = x" if "dquote \<notin> set x" for x
    using that by (subst takeWhile_append2) auto
  moreover have "dquote \<notin> set k" using assms(1) by (simp add: is_key_def)
  ultimately show ?thesis
    using assms find_in_string_field [OF assms] by (simp add: parseJsonStringValue_def) (simp add: quoted_def)
qed

lemma string_of_number_field:
  "is_key k \<Longrightarrow> is_key k' \<Longrightarrow> dquote \<notin> set end \<Longrightarrow> k' \<noteq> k \<Longrightarrow> parseJsonStringValue (number_field k' n end) k = None"
  by (simp add: parseJsonStringValue_def find_in_number_field)

lemma uint_of_string_field:
  assumes "is_key k" "is_key k'" "dquote \<notin> set v" "k' \<noteq> k"
  shows "parseJsonUint64Value (string_field k' v) k = None"
proof -
  have "find_char (CHR '':'') (quoted k @ '','') = None"
    using assms(1) by (intro find_char_none) (auto simp: quoted_def is_key_def dquote_def)
  then show ?thesis using assms by (simp add: parseJsonUint64Value_def find_in_string_field)
qed

lemma trim_number:
  assumes "end = [] \<or> end = '',''"
  shows "trim ('' '' @ show_nat n @ end) = show_nat n @ end"
proof -
  obtain c r where s: "show_nat n = c # r" using show_nat_ne by (cases "show_nat n") auto
  have sp: "\<not> isspace d" if "isdigit d" for d using that by (auto simp: isspace_def isdigit_def char_in_def)
  have "isdigit c" "isdigit (last (show_nat n))" using show_nat_digits [of n] s by (auto simp: list_all_iff)
  then have 1: "dropWhile isspace (show_nat n @ end) = show_nat n @ end" using s sp by simp
  have "\<not> isspace (last (show_nat n @ end))"
    using assms \<open>isdigit (last (show_nat n))\<close> sp by (auto simp: isspace_def char_in_def)
  then have "dropWhile isspace (rev (show_nat n @ end)) = rev (show_nat n @ end)"
    using s by (cases "rev (show_nat n @ end)") (auto simp: last_rev hd_rev [symmetric] simp flip: hd_rev)
  then show ?thesis using 1 by (simp add: trim_def isspace_def)
qed

lemma stoull_number:
  assumes "end = [] \<or> end = '',''" "n < 2 ^ 64"
  shows "stoull (show_nat n @ end) = Some (of_nat n)"
proof -
  obtain c r where s: "show_nat n = c # r" using show_nat_ne by (cases "show_nat n") auto
  have c: "isdigit c" using show_nat_digits [of n] s by simp
  then have "\<not> isspace c" "c \<noteq> CHR ''-''" "c \<noteq> CHR ''+''" by (auto simp: isspace_def isdigit_def char_in_def)
  moreover have "takeWhile isdigit (show_nat n @ end) = show_nat n"
    using assms(1) show_nat_digits [of n] by (auto simp: takeWhile_append list_all_iff isdigit_def char_in_def)
  moreover have "nat (of_digits 10 (show_nat n)) = n" by (simp add: of_digits_show)
  ultimately show ?thesis using s assms(2) by (simp add: stoull_def Let_def)
qed

lemma uint_of_number_field:
  assumes "is_key k" "is_key k'" "end = [] \<or> end = '',''" "n < 2 ^ 64"
  shows "parseJsonUint64Value (number_field k' n end) k = (if k' = k then Some (of_nat n) else None)"
proof -
  have "dquote \<notin> set end" using assms(3) by (auto simp: dquote_def)
  moreover have "find_char (CHR '':'') (quoted k @ '': '' @ show_nat n @ end) = Some ('': '' @ show_nat n @ end)"
    using assms(1) find_char_at [of "CHR '':''" "quoted k" "'' '' @ show_nat n @ end"] by (auto simp: quoted_def is_key_def dquote_def)
  ultimately show ?thesis
    using assms trim_number [of "end" n] by (simp add: parseJsonUint64Value_def find_in_number_field stoull_number)
qed

lemma brace_fields:
  "parseJsonStringValue ''{'' k = None" "parseJsonStringValue ''}'' k = None"
  "parseJsonUint64Value ''{'' k = None" "parseJsonUint64Value ''}'' k = None"
proof -
  have "find_text (quoted k) ''{'' = None" "find_text (quoted k) ''}'' = None"
    by (rule find_text_none; simp add: dquote_def)+
  then show "parseJsonStringValue ''{'' k = None" "parseJsonStringValue ''}'' k = None"
    "parseJsonUint64Value ''{'' k = None" "parseJsonUint64Value ''}'' k = None"
    by (simp_all add: parseJsonStringValue_def parseJsonUint64Value_def del: find_text.simps)
qed

section \<open>The manifest\<close>

lemma text_lines_line: "newline \<notin> set l \<Longrightarrow> text_lines (l @ newline # s) = l # text_lines s"
  by (induction l) auto

lemma text_lines_unlines: "list_all (\<lambda>l. newline \<notin> set l) ls \<Longrightarrow> text_lines (unlines ls) = ls"
  by (induction ls) (simp_all add: unlines_def text_lines_line)

definition plain :: "string \<Rightarrow> bool" where
  "plain s \<longleftrightarrow> dquote \<notin> set s \<and> newline \<notin> set s"

lemma plain_digits: "plain (show_nat n)"
  using show_nat_digits [of n] by (auto simp: plain_def dquote_def newline_def list_all_iff isdigit_def char_in_def)

lemma manifest_lines_plain:
  assumes "plain name" "plain path" "plain fmt" "plain entry"
  shows "list_all (\<lambda>l. newline \<notin> set l) (manifest_lines name path fmt entry sz wg shared)"
  using assms plain_digits
  by (auto simp: manifest_lines_def string_field_def number_field_def quoted_def plain_def split_beta newline_def dquote_def)

lemma keys: "is_key ''kernel_name''" "is_key ''binary_path''" "is_key ''binary_format''" "is_key ''entry_symbol''"
  "is_key ''binary_size''" "is_key ''workgroup_x''" "is_key ''workgroup_y''" "is_key ''workgroup_z''" "is_key ''shared_mem_bytes''"
  by (simp_all add: is_key_def dquote_def)

lemma plain_dquote: "plain s \<Longrightarrow> dquote \<notin> set s"
  by (simp add: plain_def)

lemma comma_plain: "dquote \<notin> set '',''" "dquote \<notin> set []" "'','' = [] \<or> '','' = '',''" "[] = [] \<or> [] = '',''" "dquote \<noteq> CHR '',''"
  by (simp_all add: dquote_def)

lemma word_bounds: "unat (w :: u32) < 2 ^ 64" "unat (v :: u64) < 2 ^ 64"
proof -
  have "unat w < 2 ^ LENGTH(32)" by (rule unsigned_less)
  then show "unat w < 2 ^ 64" by simp
  have "unat v < 2 ^ LENGTH(64)" by (rule unsigned_less)
  then show "unat v < 2 ^ 64" by simp
qed

lemma uint64_of_number_field:
  assumes "is_key k" "is_key k'" "end = [] \<or> end = '',''"
  shows "parseJsonUint64Value (number_field k' (unat (v :: u64)) end) k = (if k' = k then Some v else None)"
    "k' \<noteq> k \<Longrightarrow> parseJsonUint64Value (number_field k' (unat (w :: u32)) end) k = None"
  using uint_of_number_field [OF assms word_bounds(2), of v] uint_of_number_field [OF assms word_bounds(1), of w] by auto

lemma uint32_of_number_field:
  assumes "is_key k" "is_key k'" "end = [] \<or> end = '',''"
  shows "parseJsonUint32Value (number_field k' (unat (w :: u32)) end) k = (if k' = k then Some w else None)"
    "k' \<noteq> k \<Longrightarrow> parseJsonUint32Value (number_field k' (unat (v :: u64)) end) k = None"
proof -
  have "(of_nat (unat w) :: u64) = ucast w" by (simp add: unsigned_eq_0_iff)
  moreover have "\<not> (0xFFFFFFFF :: u64) < ucast w"
  proof -
    have "unat w < 2 ^ LENGTH(32)" by (rule unsigned_less)
    then show ?thesis by (simp add: word_less_nat_alt)
  qed
  moreover have "(ucast (ucast w :: u64) :: u32) = w" by (rule bit_word_eqI) (auto simp: bit_simps)
  ultimately show "parseJsonUint32Value (number_field k' (unat w) end) k = (if k' = k then Some w else None)"
    using uint_of_number_field [OF assms word_bounds(1), of w] by (simp add: parseJsonUint32Value_def)
  show "k' \<noteq> k \<Longrightarrow> parseJsonUint32Value (number_field k' (unat v) end) k = None"
    using uint64_of_number_field(1) [OF assms, of v] by (simp add: parseJsonUint32Value_def)
qed

lemmas field_simps = string_of_string_field string_of_number_field uint_of_string_field uint64_of_number_field
  uint32_of_number_field keys comma_plain

text \<open>Reading a manifest gives back what was written into it.\<close>

lemma read_manifest:
  assumes "plain name" "plain path" "plain fmt" "plain entry"
  shows "fold inspect_line (text_lines (unlines (manifest_lines name path fmt entry sz (wx, wy, wz) shared)))
      (KernelBundleInfo_default, f0, n0) =
    (KernelBundleInfo_default\<lparr> bi_kernel_name := name, bi_binary_path := path, bi_entry_symbol := entry,
       bi_workgroup_x := wx, bi_workgroup_y := wy, bi_workgroup_z := wz, bi_shared_mem_bytes := shared \<rparr>, fmt, sz)"
proof -
  have q: "dquote \<notin> set name" "dquote \<notin> set path" "dquote \<notin> set fmt" "dquote \<notin> set entry"
    using assms by (simp_all add: plain_dquote)
  have u: "parseJsonUint32Value (string_field k' v) k = None"
    if "is_key k" "is_key k'" "dquote \<notin> set v" "k' \<noteq> k" for k k' v
    using uint_of_string_field [OF that] by (simp add: parseJsonUint32Value_def)
  have b: "parseJsonUint32Value ''{'' k = None" "parseJsonUint32Value ''}'' k = None" for k
    by (simp_all add: parseJsonUint32Value_def brace_fields)
  show ?thesis
    unfolding text_lines_unlines [OF manifest_lines_plain [OF assms]]
    by (simp add: manifest_lines_def inspect_line_def default_to_def brace_fields b u q field_simps)
qed

section \<open>Normal paths\<close>

abbreviation slash :: char where "slash \<equiv> CHR ''/''"

definition good_name :: "string \<Rightarrow> bool" where
  "good_name n \<longleftrightarrow> n \<noteq> [] \<and> slash \<notin> set n"

lemma path_names_one: "good_name n \<Longrightarrow> path_names n = [n]"
proof (induction n)
  case (Cons c n)
  then show ?case by (cases n) (auto simp: good_name_def)
qed (simp add: good_name_def)

lemma path_names_cons: "good_name n \<Longrightarrow> path_names (n @ slash # s) = n # path_names s"
proof (induction n)
  case (Cons c n)
  then show ?case by (cases n) (auto simp: good_name_def split: list.split)
qed (simp add: good_name_def)

lemma path_names_good: "list_all good_name (path_names p)"
proof (induction p rule: path_names.induct)
  case (2 c s)
  then show ?case by (auto simp: good_name_def split: list.split)
qed simp

lemma path_names_join: "list_all good_name ns \<Longrightarrow> sep = [] \<or> sep = [slash] \<Longrightarrow> path_names (join_names ns @ sep) = ns"
proof (induction ns rule: join_names.induct)
  case (2 n)
  then show ?case using path_names_one path_names_cons [of n "[]"] by auto
next
  case (3 n m ns)
  then show ?case using path_names_cons [of n] by simp
qed auto

lemma join_names_last:
  "list_all good_name ns \<Longrightarrow> ns \<noteq> [] \<Longrightarrow> join_names ns \<noteq> [] \<and> last (join_names ns) \<noteq> slash"
  by (induction ns rule: join_names.induct) (auto simp: good_name_def dest: last_in_set)

text \<open>The names of an absolute path, dots removed.\<close>

definition dotless :: "string list \<Rightarrow> bool" where
  "dotless ns \<longleftrightarrow> list_all (\<lambda>n. good_name n \<and> n \<noteq> ''.'' \<and> n \<noteq> ''..'') ns"

lemma push_dotless: "good_name n \<Longrightarrow> dotless st \<Longrightarrow> dotless (push_name True n st)"
  by (auto simp: dotless_def split: list.split)

lemma fold_push_dotless: "list_all good_name ns \<Longrightarrow> dotless st \<Longrightarrow> dotless (fold (push_name True) ns st)"
  by (induction ns arbitrary: st) (simp_all add: push_dotless del: push_name.simps)

lemma fold_push_plain: "dotless ns \<Longrightarrow> fold (push_name root) ns st = rev ns @ st"
  by (induction ns arbitrary: st) (simp_all add: dotless_def)

lemma absolute_normal:
  assumes "\<not> is_relative p"
  obtains st sep where "lexically_normal p = slash # join_names (rev st) @ sep" "dotless st"
    "sep = [] \<or> sep = [slash] \<and> st \<noteq> []"
proof -
  define st where "st = fold (push_name True) (path_names p) []"
  define sep where "sep = (if (last p = slash \<or> (path_names p \<noteq> [] \<and> last (path_names p) \<in> {''.'', ''..''})) \<and>
    st \<noteq> [] \<and> hd st \<noteq> ''..'' then [slash] else [])"
  show thesis
  proof (rule that)
    show "dotless st" using path_names_good fold_push_dotless [of "path_names p" "[]"] by (simp add: dotless_def st_def)
    show "lexically_normal p = slash # join_names (rev st) @ sep"
      using assms by (auto simp: lexically_normal_def is_relative_def Let_def st_def [symmetric] sep_def)
    show "sep = [] \<or> sep = [slash] \<and> st \<noteq> []" by (simp add: sep_def)
  qed
qed

lemma normal_absolute: "\<not> is_relative p \<Longrightarrow> \<not> is_relative (lexically_normal p)"
  by (erule absolute_normal) (simp add: is_relative_def)

lemma normal_idem:
  assumes "\<not> is_relative p"
  shows "lexically_normal (lexically_normal p) = lexically_normal p"
proof -
  obtain st sep where n: "lexically_normal p = slash # join_names (rev st) @ sep" "dotless st"
    "sep = [] \<or> sep = [slash] \<and> st \<noteq> []"
    using assms by (rule absolute_normal)
  let ?q = "slash # join_names (rev st) @ sep"
  have d: "dotless (rev st)" and g: "list_all good_name (rev st)" using n(2) by (auto simp: dotless_def list_all_iff)
  have names: "path_names ?q = rev st" using path_names_join [OF g, of sep] n(3) by auto
  have st: "fold (push_name True) (rev st) [] = st" using fold_push_plain [OF d] by simp
  show ?thesis
  proof (cases "st = []")
    case True
    then show ?thesis using n names by (simp add: lexically_normal_def is_relative_def)
  next
    case False
    then have "hd st \<noteq> ''..''" "last (rev st) \<notin> {''.'', ''..''}"
      using n(2) by (cases st; simp add: dotless_def)+
    moreover have "last ?q = slash \<longleftrightarrow> sep = [slash]"
      using join_names_last [OF g] False n(3) by auto
    ultimately show ?thesis using False names st n by (auto simp: lexically_normal_def is_relative_def Let_def)
  qed
qed

lemma absolute_is_absolute: "\<not> is_relative (hf_cwd fs) \<Longrightarrow> \<not> is_relative (absolute_path fs p)"
  by (auto simp: absolute_path_def path_append_def is_relative_def)

lemma normal_path_idem:
  assumes "\<not> is_relative (hf_cwd fs)"
  shows "\<not> is_relative (normal_path fs p)" "normal_path fs (normal_path fs p) = normal_path fs p"
proof -
  show 1: "\<not> is_relative (normal_path fs p)"
    using assms by (simp add: normal_path_def normal_absolute absolute_is_absolute)
  show "normal_path fs (normal_path fs p) = normal_path fs p"
    using 1 normal_idem [OF absolute_is_absolute [OF assms]] by (simp add: normal_path_def absolute_path_def path_append_def)
qed

section \<open>Properties\<close>

text \<open>C33: a packed kernel is what the runtime finds. When packing an ELF kernel succeeds, inspecting the manifest gives the
  kernel name, the normal form of the path, the entry symbol, the size of the file, the workgroup and the shared memory
  that were packed, unless the name is empty or the workgroup has a zero, which packing lets through and inspection then
  rejects. The name, the entry symbol and the path have no quotes and no line ends; the working directory is absolute; the path
  and its normal form lead to the same file; and the manifest does not overwrite the kernel's file.\<close>

theorem bundle_round_trip:
  assumes "packKernelBundle name binary manifest (wx, wy, wz) shared fs = Some (True, fs')"
    and "plain name" "plain (normal_path fs binary)" "plain (pack_entry_symbol fs binary name)"
    and "\<not> is_relative (hf_cwd fs)"
    and "hf_resolve fs (normal_path fs binary) = hf_resolve fs binary" "hf_resolve fs manifest \<noteq> hf_resolve fs binary"
  shows "inspectKernelBundleDetails fs' manifest =
    (if name = [] \<or> wx = 0 \<or> wy = 0 \<or> wz = 0 then None
     else Some \<lparr> bi_kernel_name = name, bi_binary_path = normal_path fs binary,
       bi_entry_symbol = pack_entry_symbol fs binary name, bi_format = Elf, bi_binary_size = the (file_size fs binary),
       bi_workgroup_x = wx, bi_workgroup_y = wy, bi_workgroup_z = wz, bi_shared_mem_bytes = shared \<rparr>)"
proof -
  let ?path = "normal_path fs binary" and ?entry = "pack_entry_symbol fs binary name"
  obtain sz where sz: "file_size fs binary = Some sz"
    and w: "writeManifest manifest (unlines (manifest_lines name ?path ''elf'' ?entry sz (wx, wy, wz) shared)) fs = (True, fs')"
    using assms(1) by (auto simp: packKernelBundle_def split: if_splits)
  define content where "content = unlines (manifest_lines name ?path ''elf'' ?entry sz (wx, wy, wz) shared)"
  have fs': "fs' = fs\<lparr> hf_nodes := (hf_nodes fs)(hf_resolve fs manifest \<mapsto> RegularFile content) \<rparr>"
    using w by (simp add: writeManifest_def content_def split: if_splits)
  have elf: "plain ''elf''" by (simp add: plain_def dquote_def newline_def)
  have at: "file_at fs' manifest = Some (RegularFile content)" by (simp add: fs' file_at_def)
  have "file_size fs' ?path = Some sz" using sz assms(6,7) by (simp add: fs' file_size_def file_at_def)
  moreover have "normal_path fs' ?path = ?path"
    using normal_path_idem [OF assms(5)] by (simp add: fs' normal_path_def absolute_path_def)
  moreover have "?path \<noteq> []" "\<not> is_relative ?path" using normal_path_idem(1) [OF assms(5)] by (auto simp: is_relative_def)
  ultimately show ?thesis
    using at sz read_manifest [OF assms(2,3) elf assms(4), of sz wx wy wz shared "''elf''" 0]
    by (simp add: inspectKernelBundleDetails_def content_def [symmetric] check_bundle_def bundle_format_def bundle_artifact_def
        KernelBundleInfo_default_def Let_def)
qed

text \<open>A PTX bundle that was packed with a relative path can be bound to another file: the path was checked against the
  working directory, and is looked up beside the manifest.\<close>

theorem relative_ptx_rebinds:
  assumes "packPtxKernelBundle name ptx manifest (wx, wy, wz) shared fs = Some (True, fs')"
    and "plain name" "plain ptx" "ptx \<noteq> []" "is_relative ptx"
    and "other = path_append (parent_path manifest) ptx" "hf_resolve fs other \<noteq> hf_resolve fs manifest"
    and "file_size fs other = file_size fs ptx"
  shows "\<exists>info. inspectKernelBundleDetails fs' manifest = Some info \<and> bi_format info = Ptx \<and>
    bi_binary_path info = normal_path fs other"
proof -
  obtain sz where sz: "file_size fs ptx = Some sz" "name \<noteq> []" "wx \<noteq> 0" "wy \<noteq> 0" "wz \<noteq> 0"
    and w: "writeManifest manifest (unlines (manifest_lines name ptx ''ptx'' name sz (wx, wy, wz) shared)) fs = (True, fs')"
    using assms(1) by (auto simp: packPtxKernelBundle_def split: if_splits)
  define content where "content = unlines (manifest_lines name ptx ''ptx'' name sz (wx, wy, wz) shared)"
  have fs': "fs' = fs\<lparr> hf_nodes := (hf_nodes fs)(hf_resolve fs manifest \<mapsto> RegularFile content) \<rparr>"
    using w by (simp add: writeManifest_def content_def split: if_splits)
  have fmt: "plain ''ptx''" by (simp add: plain_def dquote_def newline_def)
  have at: "file_at fs' manifest = Some (RegularFile content)" by (simp add: fs' file_at_def)
  have same: "file_at fs' other = file_at fs other" "normal_path fs' other = normal_path fs other"
    using assms(7) by (simp_all add: fs' file_at_def normal_path_def absolute_path_def)
  have "file_size fs' other = Some sz" using assms(8) sz(1) same(1) by (simp add: file_size_def)
  moreover from this have "bundle_artifact fs' manifest ptx = other"
    using assms(5,6) by (auto simp: bundle_artifact_def pathExists_def file_size_def)
  ultimately show ?thesis
    using at assms(4) sz same(2) read_manifest [OF assms(2,3) fmt assms(2), of sz wx wy wz shared "''elf''" 0]
    by (simp add: inspectKernelBundleDetails_def content_def [symmetric] check_bundle_def bundle_format_def
        KernelBundleInfo_default_def Let_def)
qed

section \<open>Witnesses\<close>

definition bundle_fs :: host_fs where
  "bundle_fs = \<lparr> hf_resolve = (\<lambda>p. if is_relative p then ''/work/'' @ p else p),
     hf_nodes = [''/work/k.elf'' \<mapsto> RegularFile ''ELF'', ''/work/k.ptx'' \<mapsto> RegularFile ''one'',
                 ''/kernels/k.ptx'' \<mapsto> RegularFile ''two''],
     hf_cwd = ''/work'', hf_writable = (\<lambda>_. True), hf_run = (\<lambda>_. []) \<rparr>"

lemma bundle_fs_facts:
  "normal_path bundle_fs ''k.elf'' = ''/work/k.elf''" "pack_entry_symbol bundle_fs ''k.elf'' ''k'' = ''k''"
  "file_size bundle_fs ''k.elf'' = Some 3" "file_size bundle_fs ''k.ptx'' = Some 3" "file_size bundle_fs ''/kernels/k.ptx'' = Some 3"
  "path_append (parent_path ''/kernels/k.json'') ''k.ptx'' = ''/kernels/k.ptx''"
  "normal_path bundle_fs ''/kernels/k.ptx'' = ''/kernels/k.ptx''"
  by (simp_all add: bundle_fs_def normal_path_def absolute_path_def path_append_def is_relative_def lexically_normal_def
      parent_path_def pack_entry_symbol_def resolveEntrySymbol_def listKernelSymbols_def detectNm_def pathExists_def file_at_def
      file_size_def Let_def)

lemma bundle_fs_paths:
  "hf_resolve bundle_fs ''k.elf'' = ''/work/k.elf''" "hf_resolve bundle_fs ''k.ptx'' = ''/work/k.ptx''"
  "hf_resolve bundle_fs (slash # p) = slash # p" "is_relative ''k.ptx''" "\<not> is_relative (hf_cwd bundle_fs)"
  by (simp_all add: bundle_fs_def is_relative_def)

lemma bundle_fs_nodes:
  "file_at bundle_fs ''k.ptx'' = Some (RegularFile ''one'')" "file_at bundle_fs ''/kernels/k.ptx'' = Some (RegularFile ''two'')"
  "file_at bundle_fs ''/kernels/k.json'' = None" "hf_writable bundle_fs p"
  "file_at bundle_fs ''k.elf'' = Some (RegularFile ''ELF'')"
  by (simp_all add: bundle_fs_def file_at_def is_relative_def)

theorem bundle_round_trip_witness:
  "\<exists>fs'. packKernelBundle ''k'' ''k.elf'' ''/kernels/k.json'' (8, 8, 1) 512 bundle_fs = Some (True, fs') \<and>
     inspectKernelBundleDetails fs' ''/kernels/k.json'' = Some \<lparr> bi_kernel_name = ''k'', bi_binary_path = ''/work/k.elf'',
       bi_entry_symbol = ''k'', bi_format = Elf, bi_binary_size = 3, bi_workgroup_x = 8, bi_workgroup_y = 8, bi_workgroup_z = 1,
       bi_shared_mem_bytes = 512 \<rparr>"
proof -
  obtain content where p: "packKernelBundle ''k'' ''k.elf'' ''/kernels/k.json'' (8, 8, 1) 512 bundle_fs =
      Some (writeManifest ''/kernels/k.json'' content bundle_fs)"
    using bundle_fs_nodes(5) by (simp add: packKernelBundle_def bundle_fs_facts pathExists_def)
  define fs' where "fs' = snd (writeManifest ''/kernels/k.json'' content bundle_fs)"
  have w: "writeManifest ''/kernels/k.json'' content bundle_fs = (True, fs')"
    using bundle_fs_nodes by (simp add: fs'_def writeManifest_def)
  note p = p [unfolded w]
  have "plain ''k''" "plain ''/work/k.elf''" by (simp_all add: plain_def dquote_def newline_def)
  then have "inspectKernelBundleDetails fs' ''/kernels/k.json'' =
    (if ''k'' = [] \<or> (8 :: u32) = 0 \<or> (8 :: u32) = 0 \<or> (1 :: u32) = 0 then None
     else Some \<lparr> bi_kernel_name = ''k'',
      bi_binary_path = normal_path bundle_fs ''k.elf'', bi_entry_symbol = pack_entry_symbol bundle_fs ''k.elf'' ''k'', bi_format = Elf,
      bi_binary_size = the (file_size bundle_fs ''k.elf''), bi_workgroup_x = 8, bi_workgroup_y = 8, bi_workgroup_z = 1,
      bi_shared_mem_bytes = 512 \<rparr>)"
    by (intro bundle_round_trip [OF p]) (simp_all add: bundle_fs_facts bundle_fs_paths)
  with p show ?thesis by (simp add: bundle_fs_facts)
qed

theorem relative_ptx_rebinds_witness:
  "\<exists>fs' info. packPtxKernelBundle ''k'' ''k.ptx'' ''/kernels/k.json'' (1, 1, 1) 0 bundle_fs = Some (True, fs') \<and>
     inspectKernelBundleDetails fs' ''/kernels/k.json'' = Some info \<and> bi_binary_path info = ''/kernels/k.ptx'' \<and>
     file_at fs' ''k.ptx'' \<noteq> file_at fs' (bi_binary_path info)"
proof -
  obtain content where p: "packPtxKernelBundle ''k'' ''k.ptx'' ''/kernels/k.json'' (1, 1, 1) 0 bundle_fs =
      Some (writeManifest ''/kernels/k.json'' content bundle_fs)"
    using bundle_fs_nodes(1) by (simp add: packPtxKernelBundle_def bundle_fs_facts pathExists_def)
  define fs' where "fs' = snd (writeManifest ''/kernels/k.json'' content bundle_fs)"
  have w: "writeManifest ''/kernels/k.json'' content bundle_fs = (True, fs')"
    using bundle_fs_nodes by (simp add: fs'_def writeManifest_def)
  have n: "file_at fs' ''k.ptx'' \<noteq> file_at fs' ''/kernels/k.ptx''"
    using bundle_fs_nodes bundle_fs_paths by (simp add: fs'_def writeManifest_def) (simp add: file_at_def)
  note p = p [unfolded w]
  have "plain ''k''" "plain ''k.ptx''" by (simp_all add: plain_def dquote_def newline_def)
  then obtain info where "inspectKernelBundleDetails fs' ''/kernels/k.json'' = Some info" "bi_binary_path info = ''/kernels/k.ptx''"
    using relative_ptx_rebinds [OF p, of "''/kernels/k.ptx''"] by (auto simp: bundle_fs_facts bundle_fs_paths)
  with p n show ?thesis by auto
qed

end
