(* ===== verification/HostRuntime.thy ===== *)
theory HostRuntime
  imports HostApi BundleTrip
begin

text \<open>
  The host runtime: \<open>runtime/src/host_runtime.{h,cpp}\<close>. It keeps one kernel bundle loaded; a PTX bundle is registered
  with the host API, which the runtime owns while the bundle is loaded. The properties are about that ownership: the
  runtime never touches what somebody else registered, and a kernel that came as PTX never runs as something else.
\<close>

section \<open>Model\<close>

record runtime =
  rt_kernel_name :: string
  rt_binary_path :: string
  rt_entry_symbol :: string
  rt_binary_size :: u64
  rt_kernel_loaded :: bool
  rt_workgroup_x :: u32
  rt_workgroup_y :: u32
  rt_workgroup_z :: u32
  rt_shared_mem_bytes :: u64
  rt_format :: KernelBundleFormat
  rt_ptx_owned :: bool

definition runtime_init :: runtime where
  "runtime_init = \<lparr> rt_kernel_name = [], rt_binary_path = [], rt_entry_symbol = [], rt_binary_size = 0,
     rt_kernel_loaded = False, rt_workgroup_x = 1, rt_workgroup_y = 1, rt_workgroup_z = 1, rt_shared_mem_bytes = 0,
     rt_format = Elf, rt_ptx_owned = False \<rparr>"

subsection \<open>Bundles\<close>

definition is_blank :: "string \<Rightarrow> bool" where
  "is_blank s \<longleftrightarrow> list_all (\<lambda>c. c \<in> {CHR '' '', CHR 0x09, CHR 0x0D, CHR 0x0A}) s"

text \<open>Taking over the kernel file: PTX is registered, an ELF file becomes the driver's binary.\<close>

definition accept_bundle :: "host_fs \<Rightarrow> KernelBundleInfo \<Rightarrow> runtime \<Rightarrow> host \<Rightarrow> bool \<times> host" where
  "accept_bundle fs info r h =
     (case bi_format info of
        Ptx \<Rightarrow>
          (case file_at fs (bi_binary_path info) of
             Some (RegularFile src) \<Rightarrow>
               if is_blank src then (False, h)
               else if gpgpuGetRegisteredPtx (bi_kernel_name info) h \<noteq> None \<and>
                       \<not> (rt_ptx_owned r \<and> rt_kernel_name r = bi_kernel_name info)
               then (False, h)
               else gpgpuRegisterPtx (bi_kernel_name info) src h
           | _ \<Rightarrow> (False, h))
      | Elf \<Rightarrow> on_driver (loadKernelBinary (bi_binary_path info)) h)"

definition drop_registration :: "string \<Rightarrow> host \<Rightarrow> host" where
  "drop_registration name h = snd (gpgpuUnregisterPtx name (snd (gpgpuRequireRegisteredPtx name False h)))"

definition release_previous :: "KernelBundleInfo \<Rightarrow> runtime \<Rightarrow> host \<Rightarrow> host" where
  "release_previous info r h =
     (let h = (if rt_ptx_owned r \<and> rt_kernel_name r \<noteq> bi_kernel_name info then drop_registration (rt_kernel_name r) h else h)
      in if rt_ptx_owned r \<and> bi_format info = Elf then drop_registration (rt_kernel_name r) h else h)"

definition loaded_runtime :: "KernelBundleInfo \<Rightarrow> runtime" where
  "loaded_runtime info = \<lparr> rt_kernel_name = bi_kernel_name info, rt_binary_path = bi_binary_path info,
     rt_entry_symbol = bi_entry_symbol info, rt_binary_size = bi_binary_size info, rt_kernel_loaded = True,
     rt_workgroup_x = bi_workgroup_x info, rt_workgroup_y = bi_workgroup_y info, rt_workgroup_z = bi_workgroup_z info,
     rt_shared_mem_bytes = bi_shared_mem_bytes info, rt_format = bi_format info, rt_ptx_owned = (bi_format info = Ptx) \<rparr>"

definition uploadKernelBundle :: "host_fs \<Rightarrow> string \<Rightarrow> runtime \<times> host \<Rightarrow> bool \<times> runtime \<times> host" where
  "uploadKernelBundle fs manifest_path = (\<lambda>(r, h).
     case inspectKernelBundleDetails fs manifest_path of
       None \<Rightarrow> (False, r, h)
     | Some info \<Rightarrow>
         let (ok, h) = accept_bundle fs info r h in
         if \<not> ok then (False, r, h)
         else
           let h = release_previous info r h; r = loaded_runtime info in
           (True, r, snd (gpgpuRequireRegisteredPtx (rt_kernel_name r) (rt_ptx_owned r) h)))"

definition unloadKernelBundle :: "runtime \<times> host \<Rightarrow> bool \<times> runtime \<times> host" where
  "unloadKernelBundle = (\<lambda>(r, h).
     (True, runtime_init, if rt_ptx_owned r then drop_registration (rt_kernel_name r) h else h))"

subsection \<open>Launch and status\<close>

record KernelLaunchInfo =
  li_name :: string
  li_args :: "u64 list"
  li_workgroup_x :: u32
  li_workgroup_y :: u32
  li_workgroup_z :: u32
  li_grid_x :: u32
  li_grid_y :: u32
  li_grid_z :: u32

text \<open>A dimension that the caller leaves at 1 is the one of the bundle.\<close>

definition block_dim :: "u32 \<Rightarrow> u32 \<Rightarrow> u32" where
  "block_dim wanted bundled = (if wanted = 1 \<and> bundled \<noteq> 1 then bundled else wanted)"

definition runtime_launch_args :: "runtime \<Rightarrow> KernelLaunchInfo \<Rightarrow> KernelLaunchArgs" where
  "runtime_launch_args r info = \<lparr> la_kernel_name = li_name info, la_entry_symbol = rt_entry_symbol r,
     la_grid_x = li_grid_x info, la_grid_y = li_grid_y info, la_grid_z = li_grid_z info,
     la_block_x = block_dim (li_workgroup_x info) (rt_workgroup_x r),
     la_block_y = block_dim (li_workgroup_y info) (rt_workgroup_y r),
     la_block_z = block_dim (li_workgroup_z info) (rt_workgroup_z r),
     la_args = li_args info, la_shared_mem_bytes = ucast (rt_shared_mem_bytes r) \<rparr>"

definition launchKernel :: "build \<Rightarrow> (string \<Rightarrow> compile_outcome) \<Rightarrow> KernelLaunchInfo \<Rightarrow> runtime \<times> host \<Rightarrow>
    (bool \<times> runtime \<times> host) run option" where
  "launchKernel target compile info = (\<lambda>(r, h).
     if \<not> rt_kernel_loaded r then Some (Finished (False, r, h))
     else if li_name info \<noteq> rt_kernel_name r then Some (Finished (False, r, h))
     else
       let la = runtime_launch_args r info in
       if rt_format r = Ptx then
         if rt_shared_mem_bytes r > 0xFFFFFFFF then Some (Finished (False, r, h))
         else map_option (map_run (\<lambda>(ok, h). (ok, r, h)))
           (gpgpuLaunchKernel target compile (li_name info) (li_grid_x info, li_grid_y info, li_grid_z info)
              (la_block_x la, la_block_y la, la_block_z la) (li_args info) (ucast (rt_shared_mem_bytes r)) h)
       else
         let (ok, h) = on_driver (configureLaunch la) h in
         if \<not> ok then Some (Finished (False, r, h))
         else let (ok, h) = on_driver startKernel h in Some (Finished (ok, r, h)))"

definition pollKernelStatus :: "runtime \<times> host \<Rightarrow> string option" where
  "pollKernelStatus = (\<lambda>(r, h). if \<not> rt_kernel_loaded r then None else Some (queryKernelStatus (ha_driver h)))"

definition waitKernelCompletion :: "runtime \<times> host \<Rightarrow> bool" where
  "waitKernelCompletion = (\<lambda>(r, h). rt_kernel_loaded r \<and> pollKernelCompletion (ha_driver h))"

section \<open>Ownership of registrations\<close>

text \<open>A registration that the runtime does not own.\<close>

definition foreign :: "string \<Rightarrow> string \<Rightarrow> runtime \<times> host \<Rightarrow> bool" where
  "foreign n src = (\<lambda>(r, h). map_of (ha_registered_ptx h) n = Some src \<and> \<not> (rt_ptx_owned r \<and> rt_kernel_name r = n))"

lemma drop_registered:
  "map_of (ha_registered_ptx (drop_registration m h)) = (map_of (ha_registered_ptx h))(m := None)"
  by (auto simp: drop_registration_def gpgpuUnregisterPtx_def gpgpuRequireRegisteredPtx_def failHostOperation_def)

lemma require_registered [simp]: "ha_registered_ptx (snd (gpgpuRequireRegisteredPtx m b h)) = ha_registered_ptx h"
  by (simp add: gpgpuRequireRegisteredPtx_def)

lemma accept_registered:
  assumes "accept_bundle fs info r h = (ok, h')" "map_of (ha_registered_ptx h) n = Some src"
    "\<not> (rt_ptx_owned r \<and> rt_kernel_name r = n)"
  shows "map_of (ha_registered_ptx h') n = Some src \<and> (ok \<and> bi_format info = Ptx \<longrightarrow> bi_kernel_name info \<noteq> n)"
  using assms
  by (auto simp: accept_bundle_def gpgpuGetRegisteredPtx_def gpgpuRegisterPtx_def failHostOperation_def on_driver_def
      loadKernelBinary_def split: KernelBundleFormat.splits option.splits file_node.splits if_splits)

lemma upload_foreign:
  assumes "foreign n src (r, h)"
  shows "foreign n src (snd (uploadKernelBundle fs p (r, h)))"
proof (cases "inspectKernelBundleDetails fs p")
  case (Some info)
  obtain ok h1 where a: "accept_bundle fs info r h = (ok, h1)" by (cases "accept_bundle fs info r h")
  have keep: "map_of (ha_registered_ptx h1) n = Some src \<and> (ok \<and> bi_format info = Ptx \<longrightarrow> bi_kernel_name info \<noteq> n)"
    using accept_registered [OF a] assms by (simp add: foreign_def)
  then have "map_of (ha_registered_ptx (release_previous info r h1)) n = Some src"
    using assms by (auto simp: release_previous_def Let_def drop_registered foreign_def)
  then show ?thesis
    using Some a keep assms by (auto simp: uploadKernelBundle_def foreign_def loaded_runtime_def Let_def)
qed (use assms in \<open>simp add: uploadKernelBundle_def\<close>)

lemma unload_foreign: "foreign n src (r, h) \<Longrightarrow> foreign n src (snd (unloadKernelBundle (r, h)))"
  by (auto simp: unloadKernelBundle_def foreign_def drop_registered runtime_init_def)

datatype bundle_call = Upload host_fs string | Unload

fun bundle_step :: "bundle_call \<Rightarrow> runtime \<times> host \<Rightarrow> runtime \<times> host" where
  "bundle_step (Upload fs p) rh = snd (uploadKernelBundle fs p rh)"
| "bundle_step Unload rh = snd (unloadKernelBundle rh)"

lemma bundle_step_foreign: "foreign n src rh \<Longrightarrow> foreign n src (bundle_step c rh)"
  by (cases c; cases rh) (simp_all add: upload_foreign unload_foreign)

lemma bundle_steps_foreign: "foreign n src rh \<Longrightarrow> foreign n src (fold bundle_step cs rh)"
  by (induction cs arbitrary: rh) (simp_all add: bundle_step_foreign)

section \<open>A loaded PTX kernel\<close>

lemma accept_ptx:
  assumes "accept_bundle fs info r h = (True, h')" "bi_format info = Ptx"
  shows "bi_kernel_name info \<noteq> [] \<and> (\<exists>src. ha_registered_ptx h' = om_insert (bi_kernel_name info) src (ha_registered_ptx h)) \<and>
    ha_required_ptx h' = ha_required_ptx h \<and> ha_driver h' = ha_driver h"
  using assms
  by (auto simp: accept_bundle_def gpgpuRegisterPtx_def failHostOperation_def split: option.splits file_node.splits if_splits)

lemma upload_ptx_first:
  assumes "uploadKernelBundle fs p (r, h) = (True, r', h')" "rt_format r' = Ptx" "\<not> rt_ptx_owned r"
  shows "rt_kernel_name r' \<noteq> [] \<and> rt_ptx_owned r' \<and> rt_kernel_loaded r' \<and>
    (\<exists>src. ha_registered_ptx h' = om_insert (rt_kernel_name r') src (ha_registered_ptx h)) \<and>
    map_of (ha_registered_ptx h) (rt_kernel_name r') = None \<and>
    ha_required_ptx h' = insert (rt_kernel_name r') (ha_required_ptx h) \<and> ha_driver h' = ha_driver h"
proof -
  obtain info h1 where i: "inspectKernelBundleDetails fs p = Some info" "accept_bundle fs info r h = (True, h1)"
      "r' = loaded_runtime info" "h' = snd (gpgpuRequireRegisteredPtx (bi_kernel_name info) (bi_format info = Ptx) h1)"
    using assms(1,3) by (auto simp: uploadKernelBundle_def release_previous_def loaded_runtime_def Let_def
        split: option.splits prod.splits if_splits)
  have f: "bi_format info = Ptx" using assms(2) i(3) by (simp add: loaded_runtime_def)
  have "map_of (ha_registered_ptx h) (bi_kernel_name info) = None"
    using i(2) f assms(3) by (auto simp: accept_bundle_def gpgpuGetRegisteredPtx_def split: option.splits file_node.splits if_splits)
  then show ?thesis
    using accept_ptx [OF i(2) f] i(3,4) f by (auto simp: loaded_runtime_def gpgpuRequireRegisteredPtx_def)
qed

section \<open>Properties\<close>

text \<open>C32: the runtime leaves other owners' kernels alone. A PTX text that is registered with the host API and not owned by the
  runtime stays registered, with the same text, through any sequence of uploads and unloads, whatever files they name.\<close>

theorem foreign_ptx_survives:
  assumes "foreign n src rh"
  shows "map_of (ha_registered_ptx (snd (fold bundle_step cs rh))) n = Some src"
  using bundle_steps_foreign [OF assms] by (simp add: foreign_def split_beta)

text \<open>A kernel that was uploaded as PTX never falls back to another kernel. When its registration is taken away behind the
  runtime's back, a launch fails, says so, and touches neither the driver nor the board.\<close>

theorem missing_ptx_fails_closed:
  assumes "uploadKernelBundle fs p (r, h) = (True, r1, h1)" "rt_format r1 = Ptx" "\<not> rt_ptx_owned r"
    and "gpgpuUnregisterPtx (rt_kernel_name r1) h1 = (True, h2)" "launchKernel target compile info (r1, h2) = Some (Finished (ok, rh))"
  shows "\<not> ok \<and> ha_driver (snd rh) = ha_driver h \<and> ha_fpga (snd rh) = ha_fpga h2"
proof -
  note up = upload_ptx_first [OF assms(1-3)]
  have h2: "map_of (ha_registered_ptx h2) (rt_kernel_name r1) = None" "ha_required_ptx h2 = ha_required_ptx h1" "ha_driver h2 = ha_driver h1"
    using assms(4) by (auto simp: gpgpuUnregisterPtx_def failHostOperation_def split: if_splits)
  have "rt_kernel_name r1 \<in> ha_required_ptx h2" using up h2 by simp
  then show ?thesis
    using assms(2,5) up h2
    by (auto simp: launchKernel_def gpgpuLaunchKernel_def launch_loaded_def launch_args_def split_beta failHostOperation_def
        Let_def split: if_splits)
qed

text \<open>Uploading a PTX bundle and unloading it again leaves the registry of the host API as it was.\<close>

theorem upload_unload_restores:
  assumes "uploadKernelBundle fs p (r, h) = (True, r1, h1)" "rt_format r1 = Ptx" "\<not> rt_ptx_owned r"
    and "rt_kernel_name r1 \<notin> ha_required_ptx h" "unloadKernelBundle (r1, h1) = (ok, r2, h2)"
  shows "map_of (ha_registered_ptx h2) = map_of (ha_registered_ptx h) \<and> ha_required_ptx h2 = ha_required_ptx h \<and>
    r2 = runtime_init"
proof -
  note up = upload_ptx_first [OF assms(1-3)]
  have h2: "h2 = drop_registration (rt_kernel_name r1) h1" "r2 = runtime_init"
    using assms(5) up by (auto simp: unloadKernelBundle_def)
  have "ha_required_ptx h2 = ha_required_ptx h1 - {rt_kernel_name r1}"
    using up by (auto simp: h2 drop_registration_def gpgpuUnregisterPtx_def gpgpuRequireRegisteredPtx_def failHostOperation_def)
  then show ?thesis using up assms(4) by (auto simp: h2 drop_registered fun_upd_idem_iff)
qed

section \<open>Witnesses\<close>

definition ptx_fs :: host_fs where
  "ptx_fs = \<lparr> hf_resolve = (\<lambda>p. p),
     hf_nodes = [''/w/k.json'' \<mapsto> RegularFile (unlines (manifest_lines ''k'' ''/w/k.ptx'' ''ptx'' ''k'' 4 (1, 1, 1) 0)),
                 ''/w/k.ptx'' \<mapsto> RegularFile ''.ptx''],
     hf_cwd = ''/w'', hf_writable = (\<lambda>_. True), hf_run = (\<lambda>_. []) \<rparr>"

definition ptx_info :: KernelBundleInfo where
  "ptx_info = \<lparr> bi_kernel_name = ''k'', bi_binary_path = ''/w/k.ptx'', bi_entry_symbol = ''k'', bi_format = Ptx,
     bi_binary_size = 4, bi_workgroup_x = 1, bi_workgroup_y = 1, bi_workgroup_z = 1, bi_shared_mem_bytes = 0 \<rparr>"

lemma ptx_fs_files: "file_size ptx_fs ''/w/k.ptx'' = Some 4" "file_at ptx_fs ''/w/k.ptx'' = Some (RegularFile ''.ptx'')"
  "normal_path ptx_fs ''/w/k.ptx'' = ''/w/k.ptx''" "bundle_artifact ptx_fs m ''/w/k.ptx'' = ''/w/k.ptx''"
  "file_at ptx_fs ''/w/k.json'' = Some (RegularFile (unlines (manifest_lines ''k'' ''/w/k.ptx'' ''ptx'' ''k'' 4 (1, 1, 1) 0)))"
  by (simp_all add: ptx_fs_def file_size_def file_at_def normal_path_def absolute_path_def path_append_def is_relative_def
      lexically_normal_def bundle_artifact_def)

lemma ptx_fs_info: "inspectKernelBundleDetails ptx_fs ''/w/k.json'' = Some ptx_info"
proof -
  have "plain ''k''" "plain ''/w/k.ptx''" "plain ''ptx''" by (simp_all add: plain_def dquote_def newline_def)
  then show ?thesis
    using read_manifest [of "''k''" "''/w/k.ptx''" "''ptx''" "''k''" 4 1 1 1 0 "''elf''" 0]
    by (simp add: inspectKernelBundleDetails_def ptx_fs_files check_bundle_def bundle_format_def KernelBundleInfo_default_def
        ptx_info_def Let_def)
qed

lemma ptx_upload:
  "\<exists>r h. uploadKernelBundle ptx_fs ''/w/k.json'' (runtime_init, host_init) = (True, r, h) \<and> rt_format r = Ptx \<and>
     rt_kernel_name r = ''k'' \<and> rt_kernel_loaded r"
proof -
  have "\<exists>h. accept_bundle ptx_fs ptx_info runtime_init host_init = (True, h)"
    by (simp add: accept_bundle_def ptx_info_def ptx_fs_files is_blank_def gpgpuGetRegisteredPtx_def gpgpuRegisterPtx_def
        host_init_def)
  then show ?thesis by (auto simp: uploadKernelBundle_def ptx_fs_info loaded_runtime_def ptx_info_def Let_def)
qed

theorem foreign_ptx_survives_witness:
  "map_of (ha_registered_ptx (snd (fold bundle_step [Upload ptx_fs ''/w/k.json'', Unload]
     (runtime_init, host_init\<lparr> ha_registered_ptx := [(''k'', ''theirs'')] \<rparr>)))) ''k'' = Some ''theirs''"
  by (rule foreign_ptx_survives) (simp add: foreign_def runtime_init_def)

theorem missing_ptx_fails_closed_witness:
  "\<exists>r1 h1 h2 rh. uploadKernelBundle ptx_fs ''/w/k.json'' (runtime_init, host_init) = (True, r1, h1) \<and>
     gpgpuUnregisterPtx ''k'' h1 = (True, h2) \<and>
     launchKernel Simulated (\<lambda>_. CompileUnknown)
       \<lparr> li_name = ''k'', li_args = [], li_workgroup_x = 1, li_workgroup_y = 1, li_workgroup_z = 1,
         li_grid_x = 1, li_grid_y = 1, li_grid_z = 1 \<rparr> (r1, h2) = Some (Finished (False, rh)) \<and> ha_driver (snd rh) = driver_init"
proof -
  let ?li = "\<lparr> li_name = ''k'', li_args = [], li_workgroup_x = 1, li_workgroup_y = 1, li_workgroup_z = 1,
         li_grid_x = 1, li_grid_y = 1, li_grid_z = 1 \<rparr>"
  obtain r1 h1 where up: "uploadKernelBundle ptx_fs ''/w/k.json'' (runtime_init, host_init) = (True, r1, h1)"
      "rt_format r1 = Ptx" "rt_kernel_name r1 = ''k''" "rt_kernel_loaded r1"
    using ptx_upload by blast
  have own: "\<not> rt_ptx_owned runtime_init" by (simp add: runtime_init_def)
  note first = upload_ptx_first [OF up(1,2) own, unfolded up(3)]
  obtain h2 where h2: "gpgpuUnregisterPtx ''k'' h1 = (True, h2)" "map_of (ha_registered_ptx h2) ''k'' = None"
      "ha_required_ptx h2 = ha_required_ptx h1"
    using first by (auto simp: gpgpuUnregisterPtx_def)
  have "\<exists>ok rh. launchKernel Simulated (\<lambda>_. CompileUnknown) ?li (r1, h2) = Some (Finished (ok, rh))"
    using up h2 first by (auto simp: launchKernel_def gpgpuLaunchKernel_def launch_loaded_def launch_args_def failHostOperation_def Let_def)
  then obtain ok rh where l: "launchKernel Simulated (\<lambda>_. CompileUnknown) ?li (r1, h2) = Some (Finished (ok, rh))" by blast
  from missing_ptx_fails_closed [OF up(1,2) own h2(1) [folded up(3)] l]
  show ?thesis using up h2 l by (intro exI conjI) (auto simp: host_init_def)
qed

theorem upload_unload_restores_witness:
  "\<exists>r1 h1 h2. uploadKernelBundle ptx_fs ''/w/k.json'' (runtime_init, host_init) = (True, r1, h1) \<and>
     unloadKernelBundle (r1, h1) = (True, runtime_init, h2) \<and> ha_required_ptx h2 = {} \<and> map_of (ha_registered_ptx h2) = Map.empty"
proof -
  obtain r1 h1 where up: "uploadKernelBundle ptx_fs ''/w/k.json'' (runtime_init, host_init) = (True, r1, h1)"
      "rt_format r1 = Ptx" "rt_kernel_name r1 = ''k''"
    using ptx_upload by blast
  obtain h2 where u: "unloadKernelBundle (r1, h1) = (True, runtime_init, h2)" by (auto simp: unloadKernelBundle_def)
  from upload_unload_restores [OF up(1,2) _ _ u] up u show ?thesis by (auto simp: runtime_init_def host_init_def)
qed

end
