(* ===== verification/FlatDevice.thy ===== *)
theory FlatDevice
  imports GpgpuTop
begin

text \<open>
  The whole flat device: \<open>gpgpu_scheduler\<close> of \<open>hls/src/scheduler/gpgpu_top.cpp\<close> for at most 12 units, with the processes
  themselves in the network: the program loader, the schedulers, the compute pipelines with their register files, and the
  barrier core. \<open>GpgpuTop\<close> runs the same network with pipelines and a loader that may do anything their
  interfaces allow; here every one of their passes is the code's. The memory pipeline behind the arbiter is the argument
  \<open>memf\<close>, with its state. The pass of a pipeline that runs a warp is one step, so the memory requests of different
  units are interleaved warp by warp.
\<close>

section \<open>The network\<close>

record 'm flat_device =
  fd_cu :: "nat \<Rightarrow> sched_cu"
  fd_barrier :: barrier_core
  fd_loader :: loader
  fd_regs :: "nat \<Rightarrow> RegisterFile list"
  fd_mem :: 'm
  fd_start :: bool

record 'm flat_env =
  fe_vec :: bool
  fe_fpu :: fpu
  fe_memf :: "'m responder"
  fe_program_ptr :: "nat \<Rightarrow> instr_word_t"
  fe_ptr0 :: "nat \<Rightarrow> reg_t"
  fe_ptr1 :: "nat \<Rightarrow> reg_t"
  fe_program_len :: u32
  fe_total_warps :: warp_id_t
  fe_offset :: warp_id_t

definition flat_sched :: "'m flat_env \<Rightarrow> nat \<Rightarrow> 'm flat_device \<Rightarrow> 'm flat_device" where
  "flat_sched E c S = S\<lparr> fd_cu := (fd_cu S)(c :=
     schedulerCore_step (of_nat c) (fe_total_warps E) (fe_offset E) (fd_start S) (fd_cu S c)) \<rparr>"

definition flat_queue :: "'m flat_device \<Rightarrow> nat \<Rightarrow> reg_seed_t list" where
  "flat_queue S c = se_seed_out (pl_seeder (fd_loader S)) c"

definition set_queue :: "nat \<Rightarrow> reg_seed_t list \<Rightarrow> loader \<Rightarrow> loader" where
  "set_queue c q l = l\<lparr> pl_seeder := (pl_seeder l)\<lparr> se_seed_out := (se_seed_out (pl_seeder l))(c := q) \<rparr> \<rparr>"

definition flat_pipe :: "'m flat_env \<Rightarrow> nat \<Rightarrow> 'm flat_device \<Rightarrow> 'm flat_device" where
  "flat_pipe E c S =
     (let u = fd_cu S c;
          (p, m) = compute_pipeline_step (fe_vec E) (fe_fpu E) (fe_memf E) (of_nat c)
            (pl_programs (fd_loader S) ! c) (fe_program_len E)
            (\<lparr> cp_dispatch_in = sc_dispatch_out u, cp_reg_seed_in = flat_queue S c, cp_regs = fd_regs S c,
               cp_status_out = sc_status_in u \<rparr>, fd_mem S)
      in S\<lparr> fd_cu := (fd_cu S)(c := u\<lparr> sc_dispatch_out := cp_dispatch_in p, sc_status_in := cp_status_out p \<rparr>),
            fd_loader := set_queue c (cp_reg_seed_in p) (fd_loader S),
            fd_regs := (fd_regs S)(c := cp_regs p), fd_mem := m \<rparr>)"

definition set_tokens :: "(nat \<Rightarrow> bool list) \<Rightarrow> loader \<Rightarrow> loader" where
  "set_tokens f l = l\<lparr> pl_seeder := (pl_seeder l)\<lparr> se_loaded_out := f \<rparr> \<rparr>"

text \<open>The streams of tokens are kept with the units that read them.\<close>

definition load_pass :: "'m flat_env \<Rightarrow> 'm flat_device \<Rightarrow> loader" where
  "load_pass E S = programLoader_step (fe_program_ptr E) (fe_ptr0 E) (fe_ptr1 E) (fe_program_len E) (fe_total_warps E)
     (fe_offset E) (fd_start S) (set_tokens (\<lambda>c. sc_loaded_in (fd_cu S c)) (fd_loader S))"

definition flat_load :: "'m flat_env \<Rightarrow> 'm flat_device \<Rightarrow> 'm flat_device" where
  "flat_load E S = S\<lparr> fd_loader := set_tokens (\<lambda>_. []) (load_pass E S),
     fd_cu := \<lambda>c. (fd_cu S c)\<lparr> sc_loaded_in := se_loaded_out (pl_seeder (load_pass E S)) c \<rparr> \<rparr>"

definition flat_barrier :: "'m flat_env \<Rightarrow> 'm flat_device \<Rightarrow> 'm flat_device" where
  "flat_barrier E S =
     (let (b, ev, sg) = barrierCore (fe_total_warps E) (fd_start S) (fd_barrier S,
            \<lambda>c. sc_barrier_events_out (fd_cu S c), \<lambda>c. sc_barrier_signal_in (fd_cu S c))
      in S\<lparr> fd_barrier := b,
            fd_cu := \<lambda>c. (fd_cu S c)\<lparr> sc_barrier_events_out := ev c, sc_barrier_signal_in := sg c \<rparr> \<rparr>)"

text \<open>Any process makes its next pass, in any order. As in \<open>GpgpuTop\<close>, \<open>start\<close> is high at first and is lowered once,
  before the barrier core's pass that follows completion.\<close>

inductive flat_step :: "'m flat_env \<Rightarrow> 'm flat_device \<Rightarrow> 'm flat_device \<Rightarrow> bool" for E where
  F_Sched: "c < NUM_CUS \<Longrightarrow> flat_step E S (flat_sched E c S)"
| F_Pipe: "c < NUM_CUS \<Longrightarrow> flat_step E S (flat_pipe E c S)"
| F_Load: "flat_step E S (flat_load E S)"
| F_Barrier: "\<not> fd_start S \<or> bc_busy (fd_barrier S) \<or> \<not> bc_done (fd_barrier S) \<Longrightarrow> flat_step E S (flat_barrier E S)"
| F_Host: "flat_step E S (S\<lparr> fd_start := False \<rparr>)"

text \<open>The register files of the pipelines and the memory hold anything when the device starts.\<close>

definition flat_init :: "(nat \<Rightarrow> RegisterFile list) \<Rightarrow> 'm \<Rightarrow> 'm flat_device" where
  "flat_init files m = \<lparr> fd_cu = (\<lambda>_. sched_default), fd_barrier = barrier_core_default, fd_loader = loader_default,
     fd_regs = files, fd_mem = m, fd_start = True \<rparr>"

abbreviation flat_reachable ::
  "'m flat_env \<Rightarrow> (nat \<Rightarrow> RegisterFile list) \<Rightarrow> 'm \<Rightarrow> 'm flat_device \<Rightarrow> bool" where
  "flat_reachable E files m \<equiv> (flat_step E)\<^sup>*\<^sup>* (flat_init files m)"

section \<open>A pass of the loader at a given place\<close>

definition seed_digits :: "nat \<Rightarrow> seeder \<Rightarrow> bool" where
  "seed_digits n s \<longleftrightarrow> se_c s = of_nat (n div 8192) \<and> se_slot s = of_nat (n div 1024 mod 8) \<and> se_i s = of_nat (n mod 1024)"

definition seed_next ::
  "(u8 \<Rightarrow> u8 \<Rightarrow> warp_id_t) \<Rightarrow> (warp_id_t \<Rightarrow> nat \<Rightarrow> reg_t) \<Rightarrow> warp_id_t \<Rightarrow> warp_id_t \<Rightarrow> nat \<Rightarrow> nat \<Rightarrow> reg_seed_t list"
where
  "seed_next local_w ptr T off n c =
     (if c = n div 8192 \<and> local_w (of_nat c) (of_nat (n div 1024 mod 8)) < T then [seed_at local_w ptr off n] else [])"

lemma seeds_upto_next:
  "seeds_upto local_w ptr T off (Suc n) c = seeds_upto local_w ptr T off n c @ seed_next local_w ptr T off n c"
  by (simp add: seeds_upto_Suc seed_next_def)

lemma seed_write_out_digits:
  assumes "seed_digits n s" "n div 8192 < 255"
  shows "seed_write_out (local_w (se_c s) (se_slot s)) ptr T off s
    = s\<lparr> se_seed_out := \<lambda>c. se_seed_out s c @ seed_next local_w ptr T off n c \<rparr>"
proof (cases "local_w (of_nat (n div 8192)) (of_nat (n div 1024 mod 8)) < T")
  case True
  then show ?thesis using assms(1)
    by (simp add: seed_write_out_def seed_digits_def seed_next_def small_digits [OF assms(2)]
        seed_at_def Let_def fun_eq_iff mult.commute)
next
  case False
  then have "seed_next local_w ptr T off n c = []" for c by (simp add: seed_next_def)
  then show ?thesis using assms(1) False by (simp add: seed_write_out_def seed_digits_def)
qed

lemma seed_advance_digits:
  assumes "seed_digits n s" "n div 8192 < 255"
  shows "seed_digits (Suc n) (seed_advance s)" "se_seed_out (seed_advance s) = se_seed_out s"
    "se_loaded_out (seed_advance s) = (\<lambda>c. se_loaded_out s c @ (if Suc n = (c + 1) * 8192 then [True] else []))"
proof -
  consider (word) "n mod 1024 < 1023" | (slot) "n mod 1024 = 1023" "n div 1024 mod 8 < 7"
    | (unit) "n mod 1024 = 1023" "n div 1024 mod 8 = 7"
    by linarith
  then have "seed_digits (Suc n) (seed_advance s) \<and> se_seed_out (seed_advance s) = se_seed_out s \<and>
    se_loaded_out (seed_advance s) = (\<lambda>c. se_loaded_out s c @ (if Suc n = (c + 1) * 8192 then [True] else []))"
  proof cases
    case word
    then have "(c + 1) * 8192 \<le> Suc n \<longleftrightarrow> (c + 1) * 8192 \<le> n" for c
      by (intro unit_boundary) simp
    then have "Suc n \<noteq> (c + 1) * 8192" for c by (metis Suc_n_not_le_n order_refl)
    then show ?thesis
      using word assms(1) seed_advance_word [of s, OF _ word]
      by (simp add: seed_digits_def digits_Suc unit_digit del: of_nat_Suc)
  next
    case slot
    then have "(c + 1) * 8192 \<le> Suc n \<longleftrightarrow> (c + 1) * 8192 \<le> n" for c
      by (intro unit_boundary) simp
    then have "Suc n \<noteq> (c + 1) * 8192" for c by (metis Suc_n_not_le_n order_refl)
    then show ?thesis
      using slot assms(1) seed_advance_slot [of s, OF _ _ slot(2)]
      by (simp add: seed_digits_def digits_Suc slot_digits_Suc unit_digit del: of_nat_Suc)
  next
    case unit
    note n = last_word [OF this]
    have d: "Suc n div 8192 = Suc (n div 8192)" "Suc n div 1024 mod 8 = 0" "Suc n mod 1024 = 0"
      using unit by (simp_all add: unit_digit digits_Suc slot_digits_Suc)
    have c: "Suc n = (c + 1) * 8192 \<longleftrightarrow> c = n div 8192" for c unfolding n by auto
    have "seed_advance s = s\<lparr> se_i := 0, se_slot := 0, se_c := se_c s + 1,
        se_loaded_out := (se_loaded_out s)(n div 8192 := se_loaded_out s (n div 8192) @ [True]) \<rparr>"
      using seed_advance_unit [of s] assms(1) unit small_digits(1) [OF assms(2)] by (simp add: seed_digits_def)
    then show ?thesis
      using assms(1) unfolding c seed_digits_def d by (auto simp: fun_eq_iff add.commute)
  qed
  then show "seed_digits (Suc n) (seed_advance s)" "se_seed_out (seed_advance s) = se_seed_out s"
    "se_loaded_out (seed_advance s) = (\<lambda>c. se_loaded_out s c @ (if Suc n = (c + 1) * 8192 then [True] else []))"
    by simp_all
qed

lemma seed_pass_digits:
  assumes "seed_digits n s" "n div 8192 < 255"
  shows "seed_digits (Suc n) (seed_pass local_w ptr T off s)"
    "se_seed_out (seed_pass local_w ptr T off s) = (\<lambda>c. se_seed_out s c @ seed_next local_w ptr T off n c)"
    "se_loaded_out (seed_pass local_w ptr T off s)
      = (\<lambda>c. se_loaded_out s c @ (if Suc n = (c + 1) * 8192 then [True] else []))"
proof -
  let ?w = "s\<lparr> se_seed_out := \<lambda>c. se_seed_out s c @ seed_next local_w ptr T off n c \<rparr>"
  have p: "seed_pass local_w ptr T off s = seed_advance ?w"
    unfolding seed_pass_def seed_write_out_digits [OF assms] ..
  have "seed_digits n ?w" using assms(1) by (simp add: seed_digits_def)
  from seed_advance_digits [OF this assms(2)] show
    "seed_digits (Suc n) (seed_pass local_w ptr T off s)"
    "se_seed_out (seed_pass local_w ptr T off s) = (\<lambda>c. se_seed_out s c @ seed_next local_w ptr T off n c)"
    "se_loaded_out (seed_pass local_w ptr T off s)
      = (\<lambda>c. se_loaded_out s c @ (if Suc n = (c + 1) * 8192 then [True] else []))"
    by (simp_all add: p)
qed


section \<open>Where the loader stands\<close>

definition loaded_program :: "'m flat_env \<Rightarrow> nat \<Rightarrow> instr_word_t list" where
  "loaded_program E k = copy_words (fe_program_ptr E) (fe_program_len E) k (replicate MAX_PROGRAM_LEN 0)"

lemma loaded_program_nth:
  "i < 256 \<Longrightarrow> i < unat (fe_program_len E) \<Longrightarrow> loaded_program E 256 ! i = fe_program_ptr E i"
  by (simp add: loaded_program_def copy_words_def lane_simps)

text \<open>\<open>n\<close> passes of seeding are over. While \<open>start\<close> is high the counters of the loader say so; when it is low they are
  reset, and what has been sent remains.\<close>

definition loader_at :: "'m flat_env \<Rightarrow> nat \<Rightarrow> loader \<Rightarrow> bool" where
  "loader_at E n l \<longleftrightarrow>
     (if pl_loaded l then
        pl_programs l = replicate 8 (loaded_program E 256) \<and>
        (if pl_regs_done l then n = 65536 else n \<le> 65536 \<and> seed_digits n (pl_seeder l))
      else n = 0 \<and> \<not> pl_regs_done l \<and> seed_digits 0 (pl_seeder l) \<and> unat (pl_load_idx l) \<le> 256 \<and>
        pl_programs l = replicate 8 (loaded_program E (unat (pl_load_idx l))))"

lemma loader_at_start: "loader_at E 0 loader_default"
  by (simp add: loader_at_def loader_default_def seed_digits_def loaded_program_def copy_words_def lane_loop_def)

text \<open>What a pass of the loader adds to the streams when \<open>n\<close> seeds have been dealt with.\<close>

definition load_adds :: "'m flat_env \<Rightarrow> nat \<Rightarrow> nat \<Rightarrow> loader \<Rightarrow> loader \<Rightarrow> bool" where
  "load_adds E n n' l l' \<longleftrightarrow> loader_at E n' l' \<and>
     (n' = n \<and> se_seed_out (pl_seeder l') = se_seed_out (pl_seeder l) \<and>
        se_loaded_out (pl_seeder l') = se_loaded_out (pl_seeder l) \<or>
      n' = Suc n \<and> n < 65536 \<and> pl_loaded l \<and> pl_programs l' = pl_programs l \<and>
        se_seed_out (pl_seeder l') = (\<lambda>c. se_seed_out (pl_seeder l) c @
          seed_next flat_warp (regs_port (fe_ptr0 E) (fe_ptr1 E)) (fe_total_warps E) (fe_offset E) n c) \<and>
        se_loaded_out (pl_seeder l')
          = (\<lambda>c. se_loaded_out (pl_seeder l) c @ (if Suc n = (c + 1) * 8192 then [True] else [])))"

lemma load_idx_less: "x < of_nat MAX_PROGRAM_LEN \<longleftrightarrow> unat (x :: u32) < 256"
  by (simp add: word_less_nat_alt)

lemma load_step:
  assumes "loader_at E n l"
  shows "\<exists>n'. load_adds E n n' l
    (programLoader_step (fe_program_ptr E) (fe_ptr0 E) (fe_ptr1 E) (fe_program_len E) (fe_total_warps E) (fe_offset E) True l)"
proof -
  let ?step = "programLoader_step (fe_program_ptr E) (fe_ptr0 E) (fe_ptr1 E) (fe_program_len E) (fe_total_warps E)
    (fe_offset E) True l"
  consider (copy) "\<not> pl_loaded l" "unat (pl_load_idx l) < 256" | (copied) "\<not> pl_loaded l" "\<not> unat (pl_load_idx l) < 256"
    | (seed) "pl_loaded l" "\<not> pl_regs_done l" | (finished) "pl_loaded l" "pl_regs_done l" by blast
  then show ?thesis
  proof cases
    case copy
    let ?k = "unat (pl_load_idx l)"
    have k: "unat (pl_load_idx l + 1) = Suc ?k" using copy(2) by (simp add: unat_word_ariths)
    have ps: "pl_programs l = replicate 8 (loaded_program E ?k)" using assms copy by (simp add: loader_at_def)
    have l': "?step = l\<lparr> pl_programs := replicate 8 (loaded_program E (Suc ?k)), pl_load_idx := pl_load_idx l + 1 \<rparr>"
      by (cases "?k < unat (fe_program_len E)"; cases l)
        (use copy ps in \<open>simp_all add: programLoader_step_def load_idx_less Let_def word_less_nat_alt [of _ "fe_program_len E"]
          loaded_program_def copy_words_Suc del: MAX_PROGRAM_LEN_def\<close>)
    show ?thesis using assms copy k by (simp add: load_adds_def l' loader_at_def exI [of _ 0])
  next
    case copied
    then have l': "?step = l\<lparr> pl_loaded := True \<rparr>"
      by (simp add: programLoader_step_def load_idx_less del: MAX_PROGRAM_LEN_def)
    have "unat (pl_load_idx l) = 256" using assms copied by (simp add: loader_at_def)
    then show ?thesis
      using assms copied by (auto simp: load_adds_def l' loader_at_def intro!: exI [of _ 0])
  next
    case seed
    then have n: "n \<le> 65536" "seed_digits n (pl_seeder l)" using assms by (simp_all add: loader_at_def)
    then have "n div 8192 \<le> 8" by simp
    then have c: "se_c (pl_seeder l) < of_nat NUM_CUS \<longleftrightarrow> n < 65536"
      using n by (auto simp: seed_digits_def word_less_nat_alt unat_of_nat)
    show ?thesis
    proof (cases "n < 65536")
      case True
      then have "n div 8192 < 255" by simp
      note pass = seed_pass_digits [OF n(2) this]
      have l': "?step = l\<lparr> pl_seeder := seed_pass flat_warp (regs_port (fe_ptr0 E) (fe_ptr1 E)) (fe_total_warps E)
          (fe_offset E) (pl_seeder l) \<rparr>"
        using seed c True by (simp add: programLoader_step_def del: NUM_CUS_def)
      show ?thesis
        using assms seed True pass by (auto simp: load_adds_def l' loader_at_def intro!: exI [of _ "Suc n"])
    next
      case False
      then have l': "?step = l\<lparr> pl_regs_done := True, pl_seeder := seed_reset (pl_seeder l) \<rparr>"
        using seed c by (simp add: programLoader_step_def del: NUM_CUS_def)
      show ?thesis
        using assms seed False n by (auto simp: load_adds_def l' loader_at_def seed_reset_def intro!: exI [of _ n])
    qed
  next
    case finished
    then have "?step = l" by (simp add: programLoader_step_def)
    then show ?thesis using assms by (auto simp: load_adds_def intro!: exI [of _ n])
  qed
qed

section \<open>Warps without loads\<close>

text \<open>No instruction of the program reads memory. What a warp computes in its registers is then its own affair.\<close>

definition load_free :: "'m flat_env \<Rightarrow> bool" where
  "load_free E \<longleftrightarrow> list_all (\<lambda>i. i < unat (fe_program_len E) \<longrightarrow>
     i_opcode (decodeInstruction (fe_program_ptr E i)) \<noteq> Op_LW) [0..<MAX_PROGRAM_LEN]"

definition silent :: "unit responder" where
  "silent = (\<lambda>r m. (\<lparr> rp_cu_id = 0, rp_warp_id = 0, rp_lane_id = 0, rp_data = 0 \<rparr>, ()))"

definition solo_dispatch :: "u16 \<Rightarrow> warp_dispatch_t" where
  "solo_dispatch pc = \<lparr> wd_slot_id = 0, wd_warp_id = 0, wd_active_mask_init = - 1, wd_resume_pc = pc, wd_fresh_launch = False \<rparr>"

lemma memory_op_keeps_registers:
  "i_opcode instr \<noteq> Op_LW \<Longrightarrow> fst (executeMemOp memf cu wid instr msk rm) = fst rm"
  unfolding executeMemOp_def
  by (rule fold_invariant_nat [where P = "\<lambda>r. fst r = fst rm"]) (simp_all add: mem_lane_regs)

lemma execute_instr_agree:
  assumes "i_opcode instr \<noteq> Op_LW" "wr_simt s = wr_simt s'" "wr_regs s = wr_regs s'"
  shows "wr_simt (execute_instr vec fp memf cu wid instr s) = wr_simt (execute_instr vec fp memf' cu' wid' instr s') \<and>
    wr_regs (execute_instr vec fp memf cu wid instr s) = wr_regs (execute_instr vec fp memf' cu' wid' instr s')"
  using assms by (simp add: execute_instr_def Let_def split_def memory_op_keeps_registers)

lemma warp_loop_agree:
  assumes "\<And>j. j < 256 \<Longrightarrow> j < unat len \<Longrightarrow> i_opcode (decodeInstruction (program ! j)) \<noteq> Op_LW"
    and "wr_simt s = wr_simt s'" "wr_regs s = wr_regs s'"
  shows "fst (warp_loop vec fp memf cu wid program len i n s) = fst (warp_loop vec fp memf' cu' wid' program len i n s') \<and>
    wr_regs (snd (warp_loop vec fp memf cu wid program len i n s))
      = wr_regs (snd (warp_loop vec fp memf' cu' wid' program len i n s'))"
  using assms
proof (induction vec fp memf cu wid program len i n s arbitrary: s' rule: warp_loop.induct)
  case (1 vec fp memf cu wid program len i n s)
  consider (stop) "\<not> i < unat len \<or> i \<ge> MAX_PROGRAM_LEN \<or> i_opcode (decodeInstruction (program ! i)) = Op_HALT"
    | (barrier) "i < unat len" "i < MAX_PROGRAM_LEN" "i_opcode (decodeInstruction (program ! i)) = Op_BARRIER"
    | (other) "i < unat len" "i < MAX_PROGRAM_LEN" "i_opcode (decodeInstruction (program ! i)) \<notin> {Op_HALT, Op_BARRIER}"
    by force
  then show ?case
  proof cases
    case stop
    then show ?thesis using 1(3,4) by (simp add: warp_loop_stop)
  next
    case barrier
    then show ?thesis using 1(3,4) by (simp add: warp_loop_barrier)
  next
    case other
    have nl: "i_opcode (decodeInstruction (program ! i)) \<noteq> Op_LW" using 1(2) other by simp
    note agree = execute_instr_agree [OF nl 1(3,4), of vec fp memf cu wid memf' cu' wid']
    show ?thesis
      unfolding warp_loop_next [OF other]
      by (rule 1(1)) (use other agree 1(2) in auto)
  qed
qed

lemma warp_runs_alone:
  assumes "load_free E" "wd_active_mask_init d = - 1"
    and "executeOneWarp vec fp memf cu d (loaded_program E 256) (fe_program_len E) rf m = (st, rf', m')"
  shows "executeOneWarp vec fp silent 0 (solo_dispatch (wd_resume_pc d)) (loaded_program E 256) (fe_program_len E) rf ()
    = (st, rf', ())"
proof -
  have "i_opcode (decodeInstruction (loaded_program E 256 ! j)) \<noteq> Op_LW" if "j < 256" "j < unat (fe_program_len E)" for j
    using assms(1) that by (simp add: load_free_def loaded_program_nth list_all_iff)
  note agree = warp_loop_agree [OF this, where memf = memf and memf' = silent and cu = cu and wid = "wd_warp_id d"
      and cu' = 0 and wid' = 0 and vec = vec and fp = fp and i = "unat (wd_resume_pc d)" and n = 0
      and s = "\<lparr> wr_simt = initializeWarp (- 1) DivergenceStack_default, wr_regs = rf, wr_mem = m \<rparr>"
      and s' = "\<lparr> wr_simt = initializeWarp (- 1) DivergenceStack_default, wr_regs = rf, wr_mem = () \<rparr>"]
  show ?thesis using agree assms(2,3)
    by (auto simp: executeOneWarp_def solo_dispatch_def Let_def split_def prod_eq_iff)
qed

end
