(* ===== verification/FlatRun.thy ===== *)
theory FlatRun
  imports FlatDevice
begin

text \<open>
  What the flat device computes. Every run of the network is a run of the abstract network of \<open>GpgpuTop\<close>; and each slot's
  registers, with the seeds still queued for them, are always on the way to the result of the slot's warp.
\<close>

section \<open>The result of a warp\<close>

abbreviation solo_run ::
  "nat \<Rightarrow> 'm flat_env \<Rightarrow> u16 \<Rightarrow> RegisterFile \<Rightarrow> (RegisterFile \<times> unit) option" where
  "solo_run k E pc rf \<equiv> run_warp k (fe_vec E) (fe_fpu E) silent 0 (solo_dispatch pc) (loaded_program E 256)
     (fe_program_len E) rf ()"

definition kernel_result :: "'m flat_env \<Rightarrow> RegisterFile \<Rightarrow> RegisterFile" where
  "kernel_result E rf = fst (the (solo_run (MAX_PROGRAM_LEN + 2) E 0 rf))"

definition initial_regs :: "'m flat_env \<Rightarrow> nat \<Rightarrow> RegisterFile" where
  "initial_regs E w = (let g = fe_offset E + of_nat w in
     map (\<lambda>t. map (\<lambda>r. regs_port (fe_ptr0 E) (fe_ptr1 E) g (unat g * 1024 + (t * 32 + r))) [0..<32]) [0..<32])"

definition leads :: "'m flat_env \<Rightarrow> u16 \<Rightarrow> RegisterFile \<Rightarrow> RegisterFile \<Rightarrow> bool" where
  "leads E pc rf R \<longleftrightarrow> (\<exists>k. solo_run k E pc rf = Some (R, ()))"

lemma leads_start: "leads E 0 rf (kernel_result E rf)"
proof -
  obtain x where x: "solo_run (MAX_PROGRAM_LEN + 2) E 0 rf = Some x"
    using run_warp_enough [of "solo_dispatch 0" "MAX_PROGRAM_LEN + 2" "fe_vec E" "fe_fpu E" silent 0
        "loaded_program E 256" "fe_program_len E" rf "()"] by (auto simp: solo_dispatch_def)
  then have "solo_run (MAX_PROGRAM_LEN + 2) E 0 rf = Some (kernel_result E rf, ())"
    by (cases x) (simp add: kernel_result_def)
  then show ?thesis unfolding leads_def by blast
qed

lemma leads_step:
  assumes "leads E pc rf R"
    and "executeOneWarp (fe_vec E) (fe_fpu E) silent 0 (solo_dispatch pc) (loaded_program E 256) (fe_program_len E) rf ()
      = (st, rf', ())"
  shows "if ws_code st = COMPLETE then rf' = R else leads E (ws_resume_pc st) rf' R"
proof -
  obtain k where k: "solo_run k E pc rf = Some (R, ())" using assms(1) unfolding leads_def by blast
  then obtain j where "k = Suc j" by (cases k) auto
  moreover have "(solo_dispatch pc)\<lparr> wd_resume_pc := x \<rparr> = solo_dispatch x" for x by (simp add: solo_dispatch_def)
  ultimately show ?thesis using k assms(2) by (auto simp: leads_def split: if_splits)
qed

section \<open>One unit\<close>

definition status_sem :: "'m flat_env \<Rightarrow> RegisterFile \<Rightarrow> reg_seed_t list \<Rightarrow> RegisterFile \<Rightarrow> warp_status_t \<Rightarrow> bool" where
  "status_sem E R q rf st \<longleftrightarrow> q = [] \<and> (if ws_code st = COMPLETE then rf = R else leads E (ws_resume_pc st) rf R)"

definition waiting_sem :: "'m flat_env \<Rightarrow> RegisterFile \<Rightarrow> reg_seed_t list \<Rightarrow> RegisterFile list \<Rightarrow> nat \<Rightarrow> WarpSlot \<Rightarrow> bool" where
  "waiting_sem E R q V k sl = (case sl_state sl of
       EMPTY \<Rightarrow> False
     | DONE \<Rightarrow> q = [] \<and> V ! k = R
     | _ \<Rightarrow> leads E (sl_resume_pc sl) (fold seed_write q V ! k) R)"

definition slot_sem :: "'m flat_env \<Rightarrow> RegisterFile \<Rightarrow> sched_cu \<Rightarrow> reg_seed_t list \<Rightarrow> RegisterFile list \<Rightarrow> nat \<Rightarrow> bool" where
  "slot_sem E R u q V k \<longleftrightarrow>
     (\<forall>st \<in> set (sc_status_in u). unat (ws_slot_id st) = k \<longrightarrow> status_sem E R q (V ! k) st) \<and>
     ((\<forall>st \<in> set (sc_status_in u). unat (ws_slot_id st) \<noteq> k) \<longrightarrow> waiting_sem E R q V k (sc_slots u ! k))"

definition dispatch_sem :: "sched_cu \<Rightarrow> bool" where
  "dispatch_sem u \<longleftrightarrow> (\<forall>d \<in> set (sc_dispatch_out u). wd_active_mask_init d = - 1 \<and>
     wd_resume_pc d = sl_resume_pc (sc_slots u ! unat (wd_slot_id d)))"

definition slot_result :: "'m flat_env \<Rightarrow> nat \<Rightarrow> nat \<Rightarrow> RegisterFile" where
  "slot_result E c k = kernel_result E (initial_regs E (c + k * 8))"

abbreviation unit_seeds :: "'m flat_env \<Rightarrow> nat \<Rightarrow> nat \<Rightarrow> reg_seed_t list" where
  "unit_seeds E n c \<equiv> seeds_upto flat_warp (regs_port (fe_ptr0 E) (fe_ptr1 E)) (fe_total_warps E) (fe_offset E) n c"

abbreviation unit_next :: "'m flat_env \<Rightarrow> nat \<Rightarrow> nat \<Rightarrow> reg_seed_t list" where
  "unit_next E n c \<equiv> seed_next flat_warp (regs_port (fe_ptr0 E) (fe_ptr1 E)) (fe_total_warps E) (fe_offset E) n c"

text \<open>Before the launch (\<open>p\<close>) the seeds sent so far are in the register files or on their way; afterwards every slot
  that holds a warp is on the way to its result.\<close>

definition unit_sem ::
  "'m flat_env \<Rightarrow> RegisterFile list \<Rightarrow> nat \<Rightarrow> nat \<Rightarrow> bool \<Rightarrow> sched_cu \<Rightarrow> reg_seed_t list \<Rightarrow> RegisterFile list \<Rightarrow> bool" where
  "unit_sem E V0 n c p u q V \<longleftrightarrow> wf_files V \<and>
     (if p then fold seed_write q V = fold seed_write (unit_seeds E n c) V0
      else (c + 1) * 8192 \<le> n \<and> dispatch_sem u \<and>
        (\<forall>k<8. c + k * 8 < unat (fe_total_warps E) \<longrightarrow> slot_sem E (slot_result E c k) u q V k))"

lemma waiting_same:
  "sl_state a = sl_state b \<Longrightarrow> sl_resume_pc a = sl_resume_pc b \<Longrightarrow> waiting_sem E R q V k a = waiting_sem E R q V k b"
  unfolding waiting_sem_def by (cases "sl_state b") simp_all

lemma nextReady_slot: "length slots = 8 \<Longrightarrow> nextReadySlot slots \<noteq> of_nat INVALID_SLOT \<Longrightarrow> unat (nextReadySlot slots) < 8"
  using nextReadySlot_cases by blast

lemma sem_dispatch:
  assumes "unit_sem E V0 n c False u q V" "length (sc_slots u) = 8"
  shows "unit_sem E V0 n c False (sched_dispatch u) q V"
proof (cases "sc_busy_cu u \<or> nextReadySlot (sc_slots u) = of_nat INVALID_SLOT")
  case True
  then have "sched_dispatch u = u" by (auto simp: sched_dispatch_def Let_def)
  then show ?thesis using assms by simp
next
  case False
  let ?k = "nextReadySlot (sc_slots u)"
  have k: "unat ?k < 8" using nextReady_slot [OF assms(2)] False by blast
  obtain d slots where d: "buildDispatch ?k (sc_slots u) = (d, slots)" by (cases "buildDispatch ?k (sc_slots u)")
  then have ds: "d = \<lparr> wd_slot_id = ?k, wd_warp_id = sl_warp_id (sc_slots u ! unat ?k), wd_active_mask_init = - 1,
       wd_resume_pc = sl_resume_pc (sc_slots u ! unat ?k), wd_fresh_launch = sl_fresh (sc_slots u ! unat ?k) \<rparr>"
    "slots = (sc_slots u)[unat ?k := (sc_slots u ! unat ?k)\<lparr> sl_fresh := False \<rparr>]"
    by (simp_all add: buildDispatch_def Let_def)
  have u': "sched_dispatch u = u\<lparr> sc_slots := slots, sc_dispatch_out := sc_dispatch_out u @ [d], sc_busy_cu := True \<rparr>"
    using False d by (simp add: sched_dispatch_def Let_def)
  have same: "sl_resume_pc (slots ! i) = sl_resume_pc (sc_slots u ! i) \<and> sl_state (slots ! i) = sl_state (sc_slots u ! i)" for i
    using k assms(2) by (cases "i = unat ?k") (simp_all add: ds)
  have w: "waiting_sem E R q V k (slots ! i) = waiting_sem E R q V k (sc_slots u ! i)" for R k i
    by (rule waiting_same) (simp_all add: same)
  show ?thesis
    using assms(1) ds(1) same w by (auto simp: u' unit_sem_def slot_sem_def dispatch_sem_def)
qed

lemma sem_status:
  assumes "unit_sem E V0 n c False u q V" "length (sc_slots u) = 8" "sc_status_in u = st # sts"
    "sts = []" "sc_dispatch_out u = []" "unat (ws_slot_id st) < 8"
  shows "unit_sem E V0 n c False (sched_status u) q V"
proof -
  let ?j = "unat (ws_slot_id st)"
  have "slot_sem E R (sched_status u) q V k" if "slot_sem E R u q V k" "k < 8" for R k
  proof (cases "?j = k")
    case True
    then show ?thesis using that assms(2-6)
      by (auto simp: slot_sem_def sched_status_def status_sem_def waiting_sem_def recordResult_def Let_def)
  next
    case False
    then have "sc_slots (sched_status u) ! k = sc_slots u ! k"
      using assms(3) by (simp add: sched_status_def recordResult_def Let_def)
    then show ?thesis using that False assms(3,4) by (simp add: slot_sem_def sched_status_def)
  qed
  then show ?thesis using assms(1,3-5) by (auto simp: unit_sem_def dispatch_sem_def sched_status_def)
qed

lemma sem_signal:
  assumes "unit_sem E V0 n c False u q V" "length (sc_slots u) = 8"
    and "\<And>k. k \<in> set (in_flight u) \<Longrightarrow> unat k < 8"
  shows "unit_sem E V0 n c False (sched_signal u) q V"
proof -
  let ?s = "sc_slots (sched_signal u)"
  have slots: "?s = sc_slots u \<or> ?s = releaseBarrierSlots (sc_slots u)" "sc_status_in (sched_signal u) = sc_status_in u"
    "sc_dispatch_out (sched_signal u) = sc_dispatch_out u"
    by (auto simp: sched_signal_def split: list.splits)
  have nth: "?s ! k = sc_slots u ! k \<or> sl_state (sc_slots u ! k) = STALLED \<and>
      ?s ! k = (sc_slots u ! k)\<lparr> sl_state := READY \<rparr>" if "k < 8" for k
    using slots(1) assms(2) that by (auto simp: release_map split: if_splits)
  have "waiting_sem E R q V k (?s ! k)" if "waiting_sem E R q V k (sc_slots u ! k)" "k < 8" for R k
    using nth [OF that(2)] that(1) unfolding waiting_sem_def by (auto split: SlotState.splits)
  then have "slot_sem E R (sched_signal u) q V k" if "slot_sem E R u q V k" "k < 8" for R k
    using that by (auto simp: slot_sem_def slots)
  moreover have "dispatch_sem (sched_signal u)" if "dispatch_sem u"
  proof -
    have "unat (wd_slot_id d) < 8" if "d \<in> set (sc_dispatch_out u)" for d
      using assms(3) that by (simp add: in_flight_def)
    then show ?thesis using that nth by (fastforce simp: dispatch_sem_def slots)
  qed
  ultimately show ?thesis using assms(1) by (simp add: unit_sem_def)
qed


lemma seeds_give_initial:
  assumes "wf_files V0" "c < 8" "k < 8" "(c + 1) * 8192 \<le> n" "c + k * 8 < unat (fe_total_warps E)"
  shows "fold seed_write (unit_seeds E n c) V0 ! k = initial_regs E (c + k * 8)"
proof -
  let ?V = "fold seed_write (unit_seeds E n c) V0"
  have wf: "wf_files ?V" by (rule wf_files_fold [OF assms(1)])
  have w: "flat_warp (of_nat c) (of_nat k) = of_nat (c + k * 8)" using assms(2,3) by (rule flat_warp_value)
  have lt: "(of_nat (c + k * 8) :: u32) < fe_total_warps E"
  proof -
    have "c + k * 8 < 2 ^ 32" using assms(2,3) by simp
    then have "unat (of_nat (c + k * 8) :: u32) = c + k * 8" by (simp only: unat_of_nat) simp
    with assms(5) show ?thesis by (simp only: word_less_nat_alt)
  qed
  have "?V ! k ! t ! r = initial_regs E (c + k * 8) ! t ! r" if "t < 32" "r < 32" for t r
    using seeds_upto_image [OF assms(1,3) that assms(4) refl, where off = "fe_offset E" and local_w = flat_warp
        and ptr = "regs_port (fe_ptr0 E) (fe_ptr1 E)" and T = "fe_total_warps E"] that lt
    by (simp add: w initial_regs_def Let_def)
  moreover have "length (?V ! k) = 32" "\<And>t. t < 32 \<Longrightarrow> length (?V ! k ! t) = 32"
    using wf_files_dims [OF wf assms(3), of 0] wf_files_dims [OF wf assms(3)] by simp_all
  moreover have "length (initial_regs E w) = 32" "\<And>t. t < 32 \<Longrightarrow> length (initial_regs E w ! t) = 32" for w
    by (simp_all add: initial_regs_def Let_def)
  ultimately show ?thesis by (intro nth_equalityI) simp_all
qed

lemma sem_launch:
  assumes "unit_sem E V0 n c True u q V" "wf_files V0" "c < 8" "(c + 1) * 8192 \<le> n"
    and "length (sc_slots u) = 8" "in_flight u = []"
  shows "unit_sem E V0 n c False (u\<lparr> sc_loaded_in := tokens, sc_slots := launchSlots (of_nat c) (fe_total_warps E) off (sc_slots u),
    sc_busy_cu := b, sc_busy_cu_scheduler := b' \<rparr>) q V"
proof -
  have c: "unat (of_nat c :: cu_id_t) = c" using assms(3) by (simp add: unat_of_nat)
  have f: "sc_status_in u = []" "sc_dispatch_out u = []" using assms(6) by (simp_all add: in_flight_def)
  have "waiting_sem E (slot_result E c k) q V k (launchSlots (of_nat c) (fe_total_warps E) off (sc_slots u) ! k)"
    if "k < 8" "c + k * 8 < unat (fe_total_warps E)" for k
    using assms(1) that seeds_give_initial [OF assms(2,3) that(1) assms(4) that(2)] leads_start
    by (simp add: waiting_sem_def launchSlots_nth [OF assms(5) that(1)] c unit_sem_def slot_result_def)
  then show ?thesis using assms(1,4) f by (simp add: unit_sem_def slot_sem_def dispatch_sem_def)
qed

section \<open>Its pipeline\<close>

lemma sem_seed:
  assumes "unit_sem E V0 n c p u (sd # q) V"
  shows "unit_sem E V0 n c p u q (seed_write sd V)"
proof -
  have "waiting_sem E R q (seed_write sd V) k sl" if "waiting_sem E R (sd # q) V k sl" for R k sl
    using that unfolding waiting_sem_def by (cases "sl_state sl") simp_all
  then have "slot_sem E R u q (seed_write sd V) k" if "slot_sem E R u (sd # q) V k" for R k
    using that by (simp add: slot_sem_def status_sem_def)
  then show ?thesis using assms by (auto simp: unit_sem_def wf_files_seed_write split: if_splits)
qed

lemma executeOneWarp_wf:
  assumes "wf_regs rf" "executeOneWarp vec fp memf cu d prog len rf m = (st, rf', m')"
  shows "wf_regs rf'"
proof -
  let ?s = "\<lparr> wr_simt = initializeWarp (wd_active_mask_init d) DivergenceStack_default, wr_regs = rf, wr_mem = m \<rparr>"
  have "warp_inv (wd_active_mask_init d) rf ?s"
    using assms(1) by (simp add: warp_inv_def initializeWarp_abs initializeWarp_wf spec_lanes_def lanes_sub_bit)
  then have "warp_inv (wd_active_mask_init d) rf (snd (warp_loop vec fp memf cu (wd_warp_id d) prog len
      (unat (wd_resume_pc d)) 0 ?s))"
    by (rule warp_loop_inv)
  then show ?thesis using assms(2) by (auto simp: executeOneWarp_def warp_inv_def split_def Let_def)
qed

lemma sem_run:
  assumes sem: "unit_sem E V0 n c False u [] V" and free: "load_free E"
    and d: "sc_dispatch_out u = [d]" "sc_status_in u = []" "unat (wd_slot_id d) < 8"
      "sl_state (sc_slots u ! unat (wd_slot_id d)) = READY"
    and run: "executeOneWarp (fe_vec E) (fe_fpu E) (fe_memf E) cu d (loaded_program E 256) (fe_program_len E)
      (V ! unat (wd_slot_id d)) m = (st, rf, m')"
  shows "unit_sem E V0 n c False (u\<lparr> sc_dispatch_out := [], sc_status_in := [st\<lparr> ws_slot_id := wd_slot_id d \<rparr>] \<rparr>) []
    (V[unat (wd_slot_id d) := rf])"
proof -
  let ?j = "unat (wd_slot_id d)" and ?u = "u\<lparr> sc_dispatch_out := [], sc_status_in := [st\<lparr> ws_slot_id := wd_slot_id d \<rparr>] \<rparr>"
  have ds: "wd_active_mask_init d = - 1" "wd_resume_pc d = sl_resume_pc (sc_slots u ! ?j)"
    using sem d(1) by (simp_all add: unit_sem_def dispatch_sem_def)
  note solo = warp_runs_alone [OF free ds(1) run]
  have wf: "wf_files V" using sem by (simp add: unit_sem_def)
  then have len: "length V = 8" "wf_regs (V ! ?j)" using d(3) by (simp_all add: wf_files_def list_all_length)
  then have wf': "wf_files (V[?j := rf])"
    using wf executeOneWarp_wf [OF len(2) run] by (simp add: wf_files_def list_all_update)
  have "slot_sem E (slot_result E c k) ?u [] (V[?j := rf]) k" if k: "k < 8" "c + k * 8 < unat (fe_total_warps E)" for k
  proof (cases "k = ?j")
    case True
    have "slot_sem E (slot_result E c k) u [] V k" using sem k by (simp add: unit_sem_def)
    then have "leads E (wd_resume_pc d) (V ! ?j) (slot_result E c k)"
      using d True by (simp add: slot_sem_def waiting_sem_def ds)
    from leads_step [OF this solo] show ?thesis
      using len d(3) True by (auto simp: slot_sem_def status_sem_def)
  next
    case False
    have "slot_sem E (slot_result E c k) u [] V k" using sem k by (simp add: unit_sem_def)
    moreover have "waiting_sem E R [] (V[?j := rf]) k sl = waiting_sem E R [] V k sl" for R sl
      unfolding waiting_sem_def using False by (cases "sl_state sl") simp_all
    ultimately show ?thesis using False d(2) by (simp add: slot_sem_def)
  qed
  then show ?thesis using sem wf' by (simp add: unit_sem_def dispatch_sem_def)
qed

section \<open>Its loader\<close>

lemma sem_load_other:
  assumes "unit_sem E V0 n c p u q V" "c \<noteq> n div 8192"
  shows "unit_sem E V0 (Suc n) c p u q V"
  using assms by (auto simp: unit_sem_def seeds_upto_next seed_next_def)

lemma sem_load_this:
  assumes "unit_sem E V0 n c True u q V"
  shows "unit_sem E V0 (Suc n) c True u (q @ unit_next E n c) V"
  using assms by (simp add: unit_sem_def seeds_upto_next fun_eq_iff)

text \<open>Tokens, events and signals mean nothing to the registers.\<close>

lemma sem_frame:
  "unit_sem E V0 n c p (u\<lparr> sc_loaded_in := x \<rparr>) q V = unit_sem E V0 n c p u q V"
  "unit_sem E V0 n c p (u\<lparr> sc_barrier_events_out := e, sc_barrier_signal_in := g \<rparr>) q V = unit_sem E V0 n c p u q V"
  by (simp_all add: unit_sem_def slot_sem_def dispatch_sem_def)


section \<open>The whole device\<close>

text \<open>The state of the abstract network: the loader has still to send a token to the units whose seeds are not all sent.\<close>

definition absd :: "nat \<Rightarrow> 'm flat_device \<Rightarrow> device" where
  "absd n S = \<lparr> dv_cu = fd_cu S, dv_barrier = fd_barrier S, dv_unloaded = (\<lambda>c. n < (c + 1) * 8192), dv_start = fd_start S \<rparr>"

lemma absd_simps [simp]:
  "dv_cu (absd n S) = fd_cu S" "dv_barrier (absd n S) = fd_barrier S" "dv_start (absd n S) = fd_start S"
  "dv_unloaded (absd n S) c \<longleftrightarrow> n < (c + 1) * 8192"
  by (simp_all add: absd_def)

definition flat_sem :: "'m flat_env \<Rightarrow> (nat \<Rightarrow> RegisterFile list) \<Rightarrow> nat \<Rightarrow> 'm flat_device \<Rightarrow> bool" where
  "flat_sem E files n S \<longleftrightarrow> (\<forall>c<8. unit_sem E (files c) n c (pending (absd n S) c) (fd_cu S c) (flat_queue S c) (fd_regs S c))"

definition flat_inv :: "'m flat_env \<Rightarrow> (nat \<Rightarrow> RegisterFile list) \<Rightarrow> nat \<Rightarrow> 'm flat_device \<Rightarrow> bool" where
  "flat_inv E files n S \<longleftrightarrow> reachable (fe_total_warps E) (fe_offset E) (absd n S) \<and>
     (fd_start S \<longrightarrow> loader_at E n (fd_loader S)) \<and>
     (0 < n \<longrightarrow> pl_programs (fd_loader S) = replicate 8 (loaded_program E 256)) \<and>
     (load_free E \<longrightarrow> flat_sem E files n S)"

lemma flat_inv_unit:
  assumes "flat_inv E files n S" "unat (fe_total_warps E) \<le> 64" "c < 8"
  shows "unit_inv (cu_warps (unat (fe_total_warps E)) c) (pending (absd n S) c) (fd_cu S c)"
    "n < (c + 1) * 8192 \<longrightarrow> sc_loaded_in (fd_cu S c) = []"
    "load_free E \<Longrightarrow> unit_sem E (files c) n c (pending (absd n S) c) (fd_cu S c) (flat_queue S c) (fd_regs S c)"
proof -
  have "device_inv (fe_total_warps E) (absd n S)"
    by (rule device_inv_reachable [where off = "fe_offset E"]) (use assms in \<open>simp_all add: flat_inv_def\<close>)
  then show "unit_inv (cu_warps (unat (fe_total_warps E)) c) (pending (absd n S) c) (fd_cu S c)"
    "n < (c + 1) * 8192 \<longrightarrow> sc_loaded_in (fd_cu S c) = []"
    using assms(3) by (auto simp: device_inv_def)
  show "unit_sem E (files c) n c (pending (absd n S) c) (fd_cu S c) (flat_queue S c) (fd_regs S c)" if "load_free E"
    using assms that by (simp add: flat_inv_def flat_sem_def)
qed

lemma unit_inv_slots:
  assumes "unit_inv W p u"
  shows "length (sc_slots u) = 8" "p \<Longrightarrow> in_flight u = []"
    "\<And>k. k \<in> set (in_flight u) \<Longrightarrow> unat k < 8 \<and> sl_state (sc_slots u ! unat k) = READY"
    "sc_status_in u = st # sts \<Longrightarrow> sts = [] \<and> sc_dispatch_out u = []"
    "sc_dispatch_out u = d # ds \<Longrightarrow> ds = [] \<and> sc_status_in u = []"
  using assms by (auto simp: unit_inv_def in_flight_def append_eq_Cons_conv split: if_splits)

lemma reach_step: "reachable T off D \<Longrightarrow> device_step T off D D' \<Longrightarrow> reachable T off D'"
  by (rule rtranclp.rtrancl_into_rtrancl)

subsection \<open>Schedulers\<close>

lemma sem_sched:
  assumes u: "unit_inv W p u" and sem: "unit_sem E V0 n c p u q V" and c: "c < 8" "wf_files V0"
    and loaded: "sc_loaded_in u \<noteq> [] \<Longrightarrow> (c + 1) * 8192 \<le> n"
    and p': "p' \<longleftrightarrow> p \<and> sc_loaded_in (schedulerCore_step (of_nat c) (fe_total_warps E) off start u) = sc_loaded_in u"
  shows "unit_sem E V0 n c p' (schedulerCore_step (of_nat c) (fe_total_warps E) off start u) q V"
proof (cases "sc_busy_cu_scheduler u")
  case False
  let ?v = "sched_idle (of_nat c) (fe_total_warps E) off start u"
  have v: "schedulerCore_step (of_nat c) (fe_total_warps E) off start u = ?v"
    using False by (simp add: schedulerCore_step_unfold)
  show ?thesis
  proof (cases "?v = u")
    case True
    then show ?thesis using sem p' by (simp add: v)
  next
    case False
    then obtain tok toks where l: "sc_loaded_in u = tok # toks"
      and s: "?v = u\<lparr> sc_loaded_in := toks, sc_slots := launchSlots (of_nat c) (fe_total_warps E) off (sc_slots u),
              sc_busy_cu := False, sc_busy_cu_scheduler := True \<rparr>"
      by (auto simp: sched_idle_unfold split: list.splits if_splits)
    have p: p using u l by (auto simp: unit_inv_def)
    have np': "\<not> p'" using p' l by (simp add: v s)
    show ?thesis
      using sem_launch [of E V0 n c u q V] sem p c loaded l unit_inv_slots(1,2) [OF u] np' by (simp add: v s)
  qed
next
  case True
  let ?d = "sched_dispatch u"
  have np: "\<not> p" "\<not> p'" using u True p' by (auto simp: unit_inv_def)
  have v: "schedulerCore_step (of_nat c) (fe_total_warps E) off start u = sched_signal (sched_status ?d)"
    using True by (simp add: schedulerCore_step_unfold)
  have ud: "unit_inv W False u" using u np by simp
  have u1: "unit_inv W False ?d" using unit_dispatch [OF ud] by simp
  have u2: "unit_inv W False (sched_status ?d)" using unit_status [OF u1] by simp
  have s1: "unit_sem E V0 n c False ?d q V" using sem_dispatch [of E V0 n c u q V] sem np unit_inv_slots(1) [OF ud] by simp
  have s2: "unit_sem E V0 n c False (sched_status ?d) q V"
  proof (cases "sc_status_in ?d")
    case Nil
    then show ?thesis using s1 by (simp add: sched_status_def)
  next
    case (Cons st sts)
    have "ws_slot_id st \<in> set (in_flight ?d)" using Cons by (simp add: in_flight_def)
    then show ?thesis
      using sem_status [OF s1 unit_inv_slots(1) [OF u1] Cons] unit_inv_slots(3) [OF u1] unit_inv_slots(4) [OF u1 Cons] by blast
  qed
  show ?thesis unfolding v using np sem_signal [OF s2 unit_inv_slots(1) [OF u2]] unit_inv_slots(3) [OF u2] by simp
qed

lemma flat_inv_sched:
  assumes inv: "flat_inv E files n S" and T: "unat (fe_total_warps E) \<le> 64" and files: "\<And>c. c < 8 \<Longrightarrow> wf_files (files c)"
    and c: "c < 8"
  shows "flat_inv E files n (flat_sched E c S)"
proof -
  let ?T = "fe_total_warps E" and ?off = "fe_offset E" and ?u = "fd_cu S c"
  let ?v = "schedulerCore_step (of_nat c) ?T ?off (fd_start S) ?u"
  note unit = flat_inv_unit [OF inv T]
  have "absd n (flat_sched E c S) = (absd n S)\<lparr> dv_cu := (dv_cu (absd n S))(c :=
      schedulerCore_step (of_nat c) ?T ?off (dv_start (absd n S)) (dv_cu (absd n S) c)) \<rparr>"
    by (simp add: absd_def flat_sched_def)
  then have "device_step ?T ?off (absd n S) (absd n (flat_sched E c S))"
    using device_step.Sched [of c ?T ?off "absd n S"] c by simp
  with inv have reach: "reachable ?T ?off (absd n (flat_sched E c S))" using reach_step by (auto simp: flat_inv_def)
  have same: "flat_queue (flat_sched E c S) = flat_queue S" "fd_regs (flat_sched E c S) = fd_regs S"
    "fd_loader (flat_sched E c S) = fd_loader S" "fd_start (flat_sched E c S) = fd_start S"
    by (simp_all add: flat_sched_def flat_queue_def fun_eq_iff)
  have "unit_sem E (files i) n i (pending (absd n (flat_sched E c S)) i) (fd_cu (flat_sched E c S) i) (flat_queue S i) (fd_regs S i)"
    if i: "i < 8" and free: "load_free E" for i
  proof (cases "i = c")
    case True
    have cu: "fd_cu (flat_sched E c S) c = ?v" by (simp add: flat_sched_def)
    have idle: "sc_loaded_in ?v = sc_loaded_in ?u \<or> \<not> sc_busy_cu_scheduler ?u \<and> sc_loaded_in ?v = tl (sc_loaded_in ?u)"
      by (auto simp: schedulerCore_step_unfold sched_idle_unfold sched_signal_def sched_status_def sched_dispatch_def Let_def
          split: list.splits prod.splits)
    have "pending (absd n (flat_sched E c S)) c \<longleftrightarrow> pending (absd n S) c \<and> sc_loaded_in ?v = sc_loaded_in ?u"
      using idle unit(1,2) [OF c] unfolding pending_def absd_simps cu
      by (cases "sc_loaded_in ?u") (auto simp: unit_inv_def pending_def)
    moreover have "(c + 1) * 8192 \<le> n" if "sc_loaded_in ?u \<noteq> []" using unit(2) [OF c] that by linarith
    ultimately show ?thesis
      using sem_sched [OF unit(1) [OF c] unit(3) [OF c free] c files [OF c]] by (simp add: True cu)
  next
    case False
    then have cu: "fd_cu (flat_sched E c S) i = fd_cu S i" by (simp add: flat_sched_def)
    show ?thesis using unit(3) [OF i free] by (simp add: cu pending_def)
  qed
  with reach inv show ?thesis by (simp add: flat_inv_def flat_sem_def same)
qed


subsection \<open>Pipelines\<close>

lemma flat_pipe_cases:
  "flat_queue S c = sd # q \<Longrightarrow> flat_pipe E c S = S\<lparr> fd_loader := set_queue c q (fd_loader S),
     fd_regs := (fd_regs S)(c := seed_write sd (fd_regs S c)) \<rparr>"
  "flat_queue S c = [] \<Longrightarrow> sc_dispatch_out (fd_cu S c) = [] \<Longrightarrow> flat_pipe E c S = S"
  "flat_queue S c = [] \<Longrightarrow> sc_dispatch_out (fd_cu S c) = d # ds \<Longrightarrow>
    executeOneWarp (fe_vec E) (fe_fpu E) (fe_memf E) (of_nat c) d (pl_programs (fd_loader S) ! c) (fe_program_len E)
      (fd_regs S c ! unat (wd_slot_id d)) (fd_mem S) = (st, rf, m) \<Longrightarrow>
    flat_pipe E c S = S\<lparr> fd_cu := (fd_cu S)(c := (fd_cu S c)\<lparr> sc_dispatch_out := ds,
        sc_status_in := sc_status_in (fd_cu S c) @ [st\<lparr> ws_slot_id := wd_slot_id d \<rparr>] \<rparr>),
      fd_regs := (fd_regs S)(c := (fd_regs S c)[unat (wd_slot_id d) := rf]), fd_mem := m \<rparr>"
proof -
  have same: "set_queue c (flat_queue S c) (fd_loader S) = fd_loader S"
    by (simp add: set_queue_def flat_queue_def)
  have u: "u\<lparr> sc_dispatch_out := sc_dispatch_out u, sc_status_in := sc_status_in u \<rparr> = u" for u :: sched_cu by simp
  show "flat_pipe E c S = S\<lparr> fd_loader := set_queue c q (fd_loader S),
     fd_regs := (fd_regs S)(c := seed_write sd (fd_regs S c)) \<rparr>" if "flat_queue S c = sd # q"
    using that by (simp add: flat_pipe_def compute_pipeline_step_def Let_def u)
  show "flat_pipe E c S = S" if "flat_queue S c = []" "sc_dispatch_out (fd_cu S c) = []"
  proof -
    have e: "(fd_cu S c)\<lparr> sc_dispatch_out := [] \<rparr> = fd_cu S c" using that(2) by (cases "fd_cu S c") simp
    have "S\<lparr> fd_cu := (fd_cu S)(c := (fd_cu S c)\<lparr> sc_dispatch_out := [] \<rparr>) \<rparr> = S" unfolding e by simp
    then show ?thesis using that same by (simp add: flat_pipe_def compute_pipeline_step_def Let_def)
  qed
  show "flat_pipe E c S = S\<lparr> fd_cu := (fd_cu S)(c := (fd_cu S c)\<lparr> sc_dispatch_out := ds,
        sc_status_in := sc_status_in (fd_cu S c) @ [st\<lparr> ws_slot_id := wd_slot_id d \<rparr>] \<rparr>),
      fd_regs := (fd_regs S)(c := (fd_regs S c)[unat (wd_slot_id d) := rf]), fd_mem := m \<rparr>"
    if "flat_queue S c = []" "sc_dispatch_out (fd_cu S c) = d # ds"
      "executeOneWarp (fe_vec E) (fe_fpu E) (fe_memf E) (of_nat c) d (pl_programs (fd_loader S) ! c) (fe_program_len E)
        (fd_regs S c ! unat (wd_slot_id d)) (fd_mem S) = (st, rf, m)"
    using that same by (simp add: flat_pipe_def compute_pipeline_step_def Let_def)
qed

lemma set_queue_simps [simp]:
  "pl_programs (set_queue c q l) = pl_programs l" "loader_at E n (set_queue c q l) = loader_at E n l"
  "se_seed_out (pl_seeder (set_queue c q l)) = (se_seed_out (pl_seeder l))(c := q)"
  by (simp_all add: set_queue_def loader_at_def seed_digits_def)

lemma flat_inv_seed:
  assumes inv: "flat_inv E files n S" and q: "flat_queue S c = sd # q"
  shows "flat_inv E files n (S\<lparr> fd_loader := set_queue c q (fd_loader S),
     fd_regs := (fd_regs S)(c := seed_write sd (fd_regs S c)) \<rparr>)" (is "flat_inv E files n ?S")
proof -
  have abs: "absd n ?S = absd n S" by (simp add: absd_def)
  have "unit_sem E (files i) n i (pending (absd n S) i) (fd_cu S i) (flat_queue ?S i) (fd_regs ?S i)"
    if "i < 8" "load_free E" for i
  proof -
    have "unit_sem E (files i) n i (pending (absd n S) i) (fd_cu S i) (flat_queue S i) (fd_regs S i)"
      using inv that by (simp add: flat_inv_def flat_sem_def)
    then show ?thesis using q sem_seed [of E "files c" n c _ _ sd q] by (cases "i = c") (simp_all add: flat_queue_def)
  qed
  then show ?thesis using inv by (simp add: flat_inv_def flat_sem_def abs)
qed

lemma flat_inv_run:
  assumes inv: "flat_inv E files n S" and T: "unat (fe_total_warps E) \<le> 64" and c: "c < 8"
    and q: "flat_queue S c = []" and d: "sc_dispatch_out (fd_cu S c) = d # ds"
    and run: "executeOneWarp (fe_vec E) (fe_fpu E) (fe_memf E) (of_nat c) d (pl_programs (fd_loader S) ! c) (fe_program_len E)
        (fd_regs S c ! unat (wd_slot_id d)) (fd_mem S) = (st, rf, m)"
  shows "flat_inv E files n (S\<lparr> fd_cu := (fd_cu S)(c := (fd_cu S c)\<lparr> sc_dispatch_out := ds,
        sc_status_in := sc_status_in (fd_cu S c) @ [st\<lparr> ws_slot_id := wd_slot_id d \<rparr>] \<rparr>),
      fd_regs := (fd_regs S)(c := (fd_regs S c)[unat (wd_slot_id d) := rf]), fd_mem := m \<rparr>)" (is "flat_inv E files n ?S")
proof -
  let ?u = "fd_cu S c" and ?T = "fe_total_warps E" and ?off = "fe_offset E"
  note unit = flat_inv_unit [OF inv T]
  note u = unit_inv_slots [OF unit(1) [OF c]]
  have ds: "ds = []" "sc_status_in ?u = []" using u(5) [OF d] by simp_all
  have k: "unat (wd_slot_id d) < 8" "sl_state (sc_slots ?u ! unat (wd_slot_id d)) = READY"
    using u(3) [of "wd_slot_id d"] d by (simp_all add: in_flight_def)
  have np: "\<not> pending (absd n S) c" using u(2) d by (auto simp: in_flight_def)
  then have sem: "unit_sem E (files c) n c False ?u [] (fd_regs S c)" if "load_free E" using unit(3) [OF c that] q by simp
  have "0 < n" using np by (auto simp: pending_def)
  then have "pl_programs (fd_loader S) ! c = loaded_program E 256" using inv c by (simp add: flat_inv_def)
  note new = sem_run [OF sem _ _ ds(2) k run [unfolded this]]
  have abs: "absd n ?S = (absd n S)\<lparr> dv_cu := (dv_cu (absd n S))(c := (dv_cu (absd n S) c)\<lparr> sc_dispatch_out := ds,
      sc_status_in := sc_status_in (dv_cu (absd n S) c) @ [st\<lparr> ws_slot_id := wd_slot_id d \<rparr>] \<rparr>) \<rparr>"
    by (simp add: absd_def)
  have "device_step ?T ?off (absd n S) (absd n ?S)"
    unfolding abs by (rule device_step.Pipe) (use c d in simp_all)
  with inv have reach: "reachable ?T ?off (absd n ?S)" using reach_step by (auto simp: flat_inv_def)
  have p: "pending (absd n ?S) i = pending (absd n S) i" for i by (simp add: pending_def)
  have "unit_sem E (files i) n i (pending (absd n S) i) (fd_cu ?S i) (flat_queue ?S i) (fd_regs ?S i)"
    if i: "i < 8" and free: "load_free E" for i
    using new free unit(3) [OF i free] np q d ds by (cases "i = c") (simp_all add: flat_queue_def)
  with reach inv show ?thesis unfolding flat_inv_def flat_sem_def p by simp
qed

lemma flat_inv_pipe:
  assumes "flat_inv E files n S" "unat (fe_total_warps E) \<le> 64" "c < 8"
  shows "flat_inv E files n (flat_pipe E c S)"
proof (cases "flat_queue S c")
  case (Cons sd q)
  then show ?thesis using flat_inv_seed [OF assms(1) Cons] by (simp add: flat_pipe_cases)
next
  case Nil
  show ?thesis
  proof (cases "sc_dispatch_out (fd_cu S c)")
    case (Cons d ds)
    obtain st rf m where run: "executeOneWarp (fe_vec E) (fe_fpu E) (fe_memf E) (of_nat c) d (pl_programs (fd_loader S) ! c)
        (fe_program_len E) (fd_regs S c ! unat (wd_slot_id d)) (fd_mem S) = (st, rf, m)"
      by (metis prod_cases3)
    show ?thesis
      unfolding flat_pipe_cases(3) [OF Nil Cons run] by (rule flat_inv_run [OF assms Nil Cons run])
  qed (use assms Nil in \<open>simp add: flat_pipe_cases\<close>)
qed

subsection \<open>The loader\<close>

lemma set_tokens_simps [simp]:
  "loader_at E n (set_tokens f l) = loader_at E n l" "pl_programs (set_tokens f l) = pl_programs l"
  "pl_loaded (set_tokens f l) = pl_loaded l" "se_seed_out (pl_seeder (set_tokens f l)) = se_seed_out (pl_seeder l)"
  "se_loaded_out (pl_seeder (set_tokens f l)) = f"
  by (simp_all add: set_tokens_def loader_at_def seed_digits_def)

lemma flat_load_simps [simp]:
  "fd_loader (flat_load E S) = set_tokens (\<lambda>_. []) (load_pass E S)" "fd_barrier (flat_load E S) = fd_barrier S"
  "fd_start (flat_load E S) = fd_start S" "fd_regs (flat_load E S) = fd_regs S"
  "fd_cu (flat_load E S) c = (fd_cu S c)\<lparr> sc_loaded_in := se_loaded_out (pl_seeder (load_pass E S)) c \<rparr>"
  by (simp_all add: flat_load_def)

lemma flat_inv_load:
  assumes inv: "flat_inv E files n S" and T: "unat (fe_total_warps E) \<le> 64"
  shows "\<exists>n'. flat_inv E files n' (flat_load E S) \<and>
    (fd_start S \<longrightarrow> load_adds E n n' (set_tokens (\<lambda>c. sc_loaded_in (fd_cu S c)) (fd_loader S)) (load_pass E S))"
proof (cases "fd_start S")
  case False
  have cu: "fd_cu (flat_load E S) = fd_cu S" "flat_queue (flat_load E S) = flat_queue S"
    "pl_programs (load_pass E S) = pl_programs (fd_loader S)"
    using False by (simp_all add: flat_load_def load_pass_def programLoader_step_def seed_reset_def flat_queue_def fun_eq_iff
        set_tokens_def)
  then have "absd n (flat_load E S) = absd n S" by (simp add: absd_def)
  then have "flat_inv E files n (flat_load E S)" using inv cu False by (simp add: flat_inv_def flat_sem_def)
  then show ?thesis using False by blast
next
  case True
  let ?l = "fd_loader S" and ?in = "set_tokens (\<lambda>c. sc_loaded_in (fd_cu S c)) (fd_loader S)"
  let ?out = "load_pass E S" and ?S = "flat_load E S"
  note unit = flat_inv_unit [OF inv T]
  have "loader_at E n ?in" using inv True by (simp add: flat_inv_def)
  from load_step [OF this] obtain n' where n': "load_adds E n n' ?in ?out" using True by (auto simp: load_pass_def)
  have same: "fd_barrier ?S = fd_barrier S" "fd_start ?S" "fd_regs ?S = fd_regs S"
    "fd_cu ?S = (\<lambda>c. (fd_cu S c)\<lparr> sc_loaded_in := se_loaded_out (pl_seeder ?out) c \<rparr>)"
    using True by (simp_all add: fun_eq_iff)
  have at: "loader_at E n' ?out" using n' by (simp add: load_adds_def)
  consider (quiet) "n' = n" "flat_queue ?S = flat_queue S" "se_loaded_out (pl_seeder ?out) = (\<lambda>c. sc_loaded_in (fd_cu S c))"
    | (seed) "n' = Suc n" "n < 65536" "flat_queue ?S = (\<lambda>c. flat_queue S c @ unit_next E n c)"
      "se_loaded_out (pl_seeder ?out) = (\<lambda>c. sc_loaded_in (fd_cu S c) @ (if Suc n = (c + 1) * 8192 then [True] else []))"
      "pl_loaded ?l" "pl_programs ?out = pl_programs ?l"
    using n' by (auto simp: load_adds_def flat_queue_def fun_eq_iff)
  then show ?thesis
  proof cases
    case quiet
    then have "fd_cu ?S = fd_cu S" by (simp add: fun_eq_iff)
    moreover from this have "absd n ?S = absd n S" using same True by (simp add: absd_def)
    moreover have "0 < n \<longrightarrow> pl_programs ?out = replicate 8 (loaded_program E 256)"
      using at quiet by (auto simp: loader_at_def split: if_splits)
    ultimately have "flat_inv E files n ?S" using inv at quiet same by (simp add: flat_inv_def flat_sem_def)
    then show ?thesis using n' quiet(1) by blast
  next
    case seed
    let ?c = "n div 8192"
    have c: "?c < 8" using seed(2) by simp
    let ?D = "absd n S" and ?D' = "absd (Suc n) ?S"
    have below: "n < (?c + 1) * 8192" using div_less_iff_less_mult [of 8192 n "?c + 1"] by simp
    have token: "n div 8192 = i" if "Suc n = (i + 1) * 8192" for i
    proof -
      have "n = 8191 + i * 8192" using that by simp
      then show ?thesis by simp
    qed
    have loaded: "sc_loaded_in (fd_cu ?S i) = sc_loaded_in (fd_cu S i) @ (if Suc n = (i + 1) * 8192 then [True] else [])" for i
      by (simp add: same(4) seed(4))
    have cu: "fd_cu ?S i = (if Suc n = (i + 1) * 8192 then (fd_cu S i)\<lparr> sc_loaded_in := sc_loaded_in (fd_cu S i) @ [True] \<rparr>
        else fd_cu S i)" for i
      by (simp add: same(4) seed(4))
    have unl: "dv_unloaded ?D' i \<longleftrightarrow> dv_unloaded ?D i \<and> Suc n \<noteq> (i + 1) * 8192" for i by auto
    have p: "pending ?D' i = pending ?D i" for i
      using unl [of i] loaded [of i] by (auto simp: pending_def)
    have reach: "reachable (fe_total_warps E) (fe_offset E) ?D'"
    proof (cases "Suc n = (?c + 1) * 8192")
      case True
      have other: "Suc n \<noteq> (i + 1) * 8192" if "i \<noteq> ?c" for i using token that by blast
      have D': "?D' = ?D\<lparr> dv_unloaded := (dv_unloaded ?D)(?c := False),
          dv_cu := (dv_cu ?D)(?c := (dv_cu ?D ?c)\<lparr> sc_loaded_in := sc_loaded_in (dv_cu ?D ?c) @ [True] \<rparr>) \<rparr>"
      proof -
        have iff: "Suc n = (i + 1) * 8192 \<longleftrightarrow> i = ?c" for i
        proof
          show "Suc n = (i + 1) * 8192 \<Longrightarrow> i = ?c" using token by blast
          show "i = ?c \<Longrightarrow> Suc n = (i + 1) * 8192" using True by metis
        qed
        have "dv_unloaded ?D' i = ((dv_unloaded ?D)(?c := False)) i" for i
          unfolding unl iff fun_upd_apply by presburger
        then have "dv_unloaded ?D' = (dv_unloaded ?D)(?c := False)" by (rule ext)
        moreover have "fd_cu ?S = (fd_cu S)(?c := (fd_cu S ?c)\<lparr> sc_loaded_in := sc_loaded_in (fd_cu S ?c) @ [True] \<rparr>)"
          using cu other True by (simp add: fun_eq_iff)
        ultimately show ?thesis using same \<open>fd_start S\<close> by (simp add: absd_def)
      qed
      have "n < (?c + 1) * 8192" by (rule below)
      then have "device_step (fe_total_warps E) (fe_offset E) ?D ?D'"
        unfolding D' by (intro device_step.Load) (use c \<open>fd_start S\<close> in simp_all)
      with inv show ?thesis using reach_step by (auto simp: flat_inv_def)
    next
      case False
      then have other: "Suc n \<noteq> (i + 1) * 8192" for i using token by blast
      have "dv_unloaded ?D' i = dv_unloaded ?D i" for i unfolding unl using other [of i] by blast
      then have "dv_unloaded ?D' = dv_unloaded ?D" by (rule ext)
      moreover have "fd_cu ?S i = fd_cu S i" for i unfolding cu using other [of i] by simp
      then have "fd_cu ?S = fd_cu S" by (rule ext)
      ultimately have "?D' = ?D" using same \<open>fd_start S\<close> by (simp add: absd_def)
      with inv show ?thesis by (simp add: flat_inv_def)
    qed
    have frame: "unit_sem E V0 m i p (fd_cu ?S i) q V = unit_sem E V0 m i p (fd_cu S i) q V" for V0 m i p q V
      unfolding cu by (simp only: sem_frame split: if_split) blast
    have "unit_sem E (files i) (Suc n) i (pending ?D i) (fd_cu ?S i) (flat_queue ?S i) (fd_regs ?S i)"
      if i: "i < 8" and free: "load_free E" for i
    proof (cases "i = ?c")
      case True
      then have "n < (i + 1) * 8192" using below by simp
      then have "pending ?D i" by (simp add: pending_def)
      then show ?thesis
        using sem_load_this [of E "files i" n i] unit(3) [OF i free] unfolding frame same(3) seed(3) by simp
    next
      case False
      then have "unit_next E n i = []" by (simp add: seed_next_def)
      then show ?thesis
        using sem_load_other [OF unit(3) [OF i free] False] unfolding frame same(3) seed(3) by simp
    qed
    moreover have "pl_programs ?out = replicate 8 (loaded_program E 256)"
      using inv True seed(5,6) by (simp add: flat_inv_def loader_at_def)
    ultimately have "flat_inv E files (Suc n) ?S" using reach at seed(1) same by (simp add: flat_inv_def flat_sem_def p)
    then show ?thesis using n' seed(1) by blast
  qed
qed


subsection \<open>The barrier core and the host\<close>

lemma absd_barrier: "absd n (flat_barrier E S) = barrier_pass (fe_total_warps E) (absd n S)"
  by (simp add: absd_def flat_barrier_def barrier_pass_def split: prod.split)

lemma flat_inv_barrier:
  assumes inv: "flat_inv E files n S" and "\<not> fd_start S \<or> bc_busy (fd_barrier S) \<or> \<not> bc_done (fd_barrier S)"
  shows "flat_inv E files n (flat_barrier E S)"
proof -
  have "device_step (fe_total_warps E) (fe_offset E) (absd n S) (absd n (flat_barrier E S))"
    unfolding absd_barrier by (rule device_step.Barrier) (use assms(2) in simp)
  then have reach: "reachable (fe_total_warps E) (fe_offset E) (absd n (flat_barrier E S))"
    using inv reach_step by (auto simp: flat_inv_def)
  obtain b ev sg where b: "barrierCore (fe_total_warps E) (fd_start S) (fd_barrier S, \<lambda>c. sc_barrier_events_out (fd_cu S c),
      \<lambda>c. sc_barrier_signal_in (fd_cu S c)) = (b, ev, sg)"
    by (metis prod_cases3)
  have S': "flat_barrier E S = S\<lparr> fd_barrier := b,
      fd_cu := \<lambda>c. (fd_cu S c)\<lparr> sc_barrier_events_out := ev c, sc_barrier_signal_in := sg c \<rparr> \<rparr>"
    by (simp add: flat_barrier_def b)
  have p: "pending (absd n (flat_barrier E S)) i = pending (absd n S) i" for i by (simp add: pending_def S')
  have q: "flat_queue (flat_barrier E S) = flat_queue S" by (simp add: flat_queue_def fun_eq_iff S')
  show ?thesis
    using inv reach unfolding flat_inv_def flat_sem_def p q by (simp add: S' sem_frame)
qed

lemma flat_inv_host:
  assumes inv: "flat_inv E files n S"
  shows "flat_inv E files n (S\<lparr> fd_start := False \<rparr>)"
proof -
  have "device_step (fe_total_warps E) (fe_offset E) (absd n S) (absd n (S\<lparr> fd_start := False \<rparr>))"
    using device_step.Host [of "fe_total_warps E" "fe_offset E" "absd n S"] by (simp add: absd_def)
  then have "reachable (fe_total_warps E) (fe_offset E) (absd n (S\<lparr> fd_start := False \<rparr>))"
    using inv reach_step by (auto simp: flat_inv_def)
  then show ?thesis using inv by (simp add: flat_inv_def flat_sem_def pending_def flat_queue_def)
qed

lemma flat_inv_init: "(\<And>c. c < 8 \<Longrightarrow> wf_files (files c)) \<Longrightarrow> flat_inv E files 0 (flat_init files m)"
proof -
  assume "\<And>c. c < 8 \<Longrightarrow> wf_files (files c)"
  moreover have "absd 0 (flat_init files m) = device_init"
    by (simp add: absd_def device_init_def flat_init_def)
  moreover have "seeds_upto w ptr T off 0 c = []" for w ptr T off c by (simp add: seeds_upto_def)
  moreover have "flat_queue (flat_init files m) c = []" for c
    by (simp add: flat_queue_def flat_init_def loader_default_def)
  ultimately show ?thesis
    using loader_at_start
    by (simp add: flat_inv_def flat_sem_def unit_sem_def flat_init_def pending_def device_init_def)
qed

lemma flat_inv_reachable:
  assumes "flat_reachable E files m S" "unat (fe_total_warps E) \<le> 64" "\<And>c. c < 8 \<Longrightarrow> wf_files (files c)"
  shows "\<exists>n. flat_inv E files n S"
  using assms(1)
proof (induction rule: rtranclp_induct)
  case base
  show ?case using flat_inv_init [of files E m] assms(3) by blast
next
  case (step S S')
  then obtain n where n: "flat_inv E files n S" by blast
  from step.hyps(2) show ?case
  proof cases
    case (F_Sched c)
    then show ?thesis using flat_inv_sched [OF n assms(2,3)] by auto
  next
    case (F_Pipe c)
    then show ?thesis using flat_inv_pipe [OF n assms(2)] by auto
  next
    case F_Load
    then show ?thesis using flat_inv_load [OF n assms(2)] by auto
  next
    case F_Barrier
    then show ?thesis using flat_inv_barrier [OF n] by auto
  next
    case F_Host
    then show ?thesis using flat_inv_host [OF n] by auto
  qed
qed

end
