(* ===== verification/FlatLive.thy ===== *)
theory FlatLive
  imports FlatRun
begin

text \<open>
  The flat device finishes. For kernels without barriers a weight of the state goes down with every pass of a process that
  changes anything, so there is a bound on such passes, and until the device is done some pass changes something. With it
  stand the properties of the whole device.
\<close>

section \<open>Kernels without barriers\<close>

definition barrier_free :: "'m flat_env \<Rightarrow> bool" where
  "barrier_free E \<longleftrightarrow> list_all (\<lambda>i. i < unat (fe_program_len E) \<longrightarrow>
     i_opcode (decodeInstruction (fe_program_ptr E i)) \<noteq> Op_BARRIER) [0..<MAX_PROGRAM_LEN]"

lemma barrier_free_completes:
  assumes "barrier_free E"
    and "executeOneWarp vec fp memf cu d (loaded_program E 256) (fe_program_len E) rf m = (st, rf', m')"
  shows "ws_code st = COMPLETE"
proof -
  obtain s' where "warp_loop vec fp memf cu (wd_warp_id d) (loaded_program E 256) (fe_program_len E) (unat (wd_resume_pc d)) 0
      \<lparr> wr_simt = initializeWarp (wd_active_mask_init d) DivergenceStack_default, wr_regs = rf, wr_mem = m \<rparr> = (st, s')"
    using assms(2) by (auto simp: executeOneWarp_def Let_def split: prod.splits)
  from warp_loop_ends [OF this] show ?thesis
    using assms(1) by (auto simp: barrier_free_def loaded_program_nth list_all_iff)
qed

text \<open>No slot is ever stalled, and none is done before the launch.\<close>

definition calm :: "bool \<Rightarrow> sched_cu \<Rightarrow> bool" where
  "calm p u \<longleftrightarrow> (\<forall>st \<in> set (sc_status_in u). ws_code st = COMPLETE) \<and> count_state STALLED (sc_slots u) = 0 \<and>
     (p \<longrightarrow> count_state DONE (sc_slots u) = 0)"

section \<open>The weight of a unit\<close>

text \<open>A slot that is not done yet has four passes before it: dispatch, execution, result, event.\<close>

definition stage_weight :: "sched_cu \<Rightarrow> nat" where
  "stage_weight u = (if sc_status_in u \<noteq> [] then 0 else if sc_dispatch_out u \<noteq> [] then 1 else 2)"

definition unit_weight :: "nat \<Rightarrow> sched_cu \<Rightarrow> nat" where
  "unit_weight W u = length (sc_loaded_in u) + 4 * (W - count_state DONE (sc_slots u)) + stage_weight u +
     length (sc_barrier_events_out u) + length (sc_barrier_signal_in u)"

definition lighter :: "nat \<Rightarrow> sched_cu \<Rightarrow> sched_cu \<Rightarrow> bool" where
  "lighter W v u \<longleftrightarrow> v = u \<or> unit_weight W v < unit_weight W u"

lemma lighter_trans: "lighter W x v \<Longrightarrow> lighter W v u \<Longrightarrow> lighter W x u"
  by (auto simp: lighter_def)

lemma light_dispatch:
  assumes "unit_inv W False u" "calm False u"
  shows "lighter W (sched_dispatch u) u \<and> calm False (sched_dispatch u)"
proof (cases "sc_busy_cu u \<or> nextReadySlot (sc_slots u) = of_nat INVALID_SLOT")
  case True
  then have "sched_dispatch u = u" by (auto simp: sched_dispatch_def Let_def)
  then show ?thesis using assms(2) by (simp add: lighter_def)
next
  case False
  let ?k = "nextReadySlot (sc_slots u)"
  have len: "length (sc_slots u) = 8" using assms(1) by (simp add: unit_inv_def)
  have "unat ?k < 8" using nextReady_slot [OF len] False by blast
  then have cnt: "count_state st (snd (buildDispatch ?k (sc_slots u))) = count_state st (sc_slots u)" for st
    using buildDispatch_counts len by simp
  obtain d slots where d: "buildDispatch ?k (sc_slots u) = (d, slots)" by (cases "buildDispatch ?k (sc_slots u)")
  have idle: "sc_status_in u = []" "sc_dispatch_out u = []"
    using assms(1) False by (auto simp: unit_inv_def in_flight_def)
  have "sched_dispatch u = u\<lparr> sc_slots := slots, sc_dispatch_out := sc_dispatch_out u @ [d], sc_busy_cu := True \<rparr>"
    using False d by (simp add: sched_dispatch_def Let_def)
  then show ?thesis
    using assms(2) idle cnt d by (simp add: lighter_def unit_weight_def stage_weight_def calm_def)
qed

lemma light_status:
  assumes "unit_inv W False u" "calm False u"
  shows "lighter W (sched_status u) u \<and> calm False (sched_status u)"
proof (cases "sc_status_in u")
  case Nil
  then show ?thesis using assms(2) by (simp add: sched_status_def lighter_def)
next
  case (Cons st sts)
  note u = unit_inv_slots [OF assms(1)]
  have s: "sts = []" "sc_dispatch_out u = []" "ws_code st = COMPLETE"
    using u(4) [OF Cons] assms(2) Cons by (simp_all add: calm_def)
  have k: "unat (ws_slot_id st) < 8" "sl_state (sc_slots u ! unat (ws_slot_id st)) = READY"
    using u(3) [of "ws_slot_id st"] Cons by (simp_all add: in_flight_def)
  note cnt = recordResult_counts [of "ws_slot_id st" "sc_slots u" _ st, unfolded u(1), OF k]
  have pos: "0 < count_state READY (sc_slots u)" using k u(1) count_state_zero [of READY "sc_slots u"] by (metis gr0I)
  have "count_state READY (sc_slots u) + count_state STALLED (sc_slots u) + count_state DONE (sc_slots u) = W"
    using assms(1) by (simp add: unit_inv_def unit_defs)
  then show ?thesis
    using assms(2) Cons s pos cnt [of STALLED] cnt [of DONE]
    by (simp add: lighter_def unit_weight_def stage_weight_def calm_def sched_status_def) (rule disjI2, linarith)
qed

lemma light_signal:
  assumes "unit_inv W False u" "calm False u"
  shows "lighter W (sched_signal u) u \<and> calm False (sched_signal u)"
proof (cases "sc_barrier_signal_in u")
  case Nil
  then show ?thesis using assms(2) by (simp add: sched_signal_def lighter_def)
next
  case (Cons sig sigs)
  have len: "length (sc_slots u) = 8" using assms(1) by (simp add: unit_inv_def)
  show ?thesis
    using assms(2) Cons release_counts [OF len]
    by (auto simp: sched_signal_def lighter_def unit_weight_def stage_weight_def calm_def)
qed

lemma light_sched:
  assumes u: "unit_inv W p u" and calm: "calm p u" and W: "W = cu_warps (unat T) c" "c < 8"
    and p': "p' \<longleftrightarrow> p \<and> sc_loaded_in (schedulerCore_step (of_nat c) T off start u) = sc_loaded_in u"
  shows "lighter W (schedulerCore_step (of_nat c) T off start u) u \<and> calm p' (schedulerCore_step (of_nat c) T off start u)"
proof (cases "sc_busy_cu_scheduler u")
  case False
  let ?v = "sched_idle (of_nat c) T off start u"
  have v: "schedulerCore_step (of_nat c) T off start u = ?v" using False by (simp add: schedulerCore_step_unfold)
  show ?thesis
  proof (cases "?v = u")
    case True
    then show ?thesis using calm p' by (simp add: v lighter_def)
  next
    case False
    then obtain tok toks where l: "sc_loaded_in u = tok # toks"
      and s: "?v = u\<lparr> sc_loaded_in := toks, sc_slots := launchSlots (of_nat c) T off (sc_slots u),
              sc_busy_cu := False, sc_busy_cu_scheduler := True \<rparr>"
      by (auto simp: sched_idle_unfold split: list.splits if_splits)
    have p: p using u l by (auto simp: unit_inv_def)
    have "length (sc_slots u) = 8" using u by (simp add: unit_inv_def)
    note cnt = launch_counts [OF this, of "of_nat c" T off]
    show ?thesis using calm p cnt l by (simp add: v s lighter_def unit_weight_def stage_weight_def calm_def)
  qed
next
  case True
  have np: "\<not> p" "\<not> p'" using u True p' by (auto simp: unit_inv_def)
  have 0: "unit_inv W False u" "calm False u" using u calm np by simp_all
  have 1: "unit_inv W False (sched_dispatch u)" using unit_dispatch [OF 0(1)] by simp
  have 2: "unit_inv W False (sched_status (sched_dispatch u))" using unit_status [OF 1] by simp
  note d = light_dispatch [OF 0] note s = light_status [OF 1 conjunct2 [OF d]] note g = light_signal [OF 2 conjunct2 [OF s]]
  have v: "schedulerCore_step (of_nat c) T off start u = sched_signal (sched_status (sched_dispatch u))"
    using True by (simp add: schedulerCore_step_unfold)
  show ?thesis
    unfolding v using np lighter_trans [OF conjunct1 [OF g] lighter_trans [OF conjunct1 [OF s] conjunct1 [OF d]]] g by simp
qed


section \<open>The weight of the device\<close>

text \<open>The passes the loader has still to make.\<close>

definition loader_left :: "loader \<Rightarrow> nat" where
  "loader_left l =
     (if \<not> pl_loaded l then 256 - unat (pl_load_idx l) + 65538
      else if \<not> pl_regs_done l then
        65537 - (unat (se_c (pl_seeder l)) * 8192 + unat (se_slot (pl_seeder l)) * 1024 + unat (se_i (pl_seeder l)))
      else 0)"

lemma seed_digits_pos:
  assumes "seed_digits n s" "n \<le> 65536"
  shows "unat (se_c s) * 8192 + unat (se_slot s) * 1024 + unat (se_i s) = n"
proof -
  have "n div 8192 < 255" using assms(2) by simp
  note d = small_digits [OF this]
  have 1: "n div 1024 = n div 8192 * 8 + n div 1024 mod 8"
    using div_mult_mod_eq [of "n div 1024" 8] by (simp add: unit_digit)
  have 2: "n div 1024 * 1024 + n mod 1024 = n" by simp
  have "n div 8192 * 8192 + n div 1024 mod 8 * 1024 + n mod 1024 = (n div 8192 * 8 + n div 1024 mod 8) * 1024 + n mod 1024"
    by (simp add: add_mult_distrib)
  also have "\<dots> = n" using 2 unfolding 1 [symmetric] .
  finally show ?thesis using assms(1) by (simp only: seed_digits_def d)
qed

lemma loader_left_at:
  "loader_at E n l \<Longrightarrow> pl_loaded l \<Longrightarrow> \<not> pl_regs_done l \<Longrightarrow> loader_left l = 65537 - n"
  using seed_digits_pos [of n "pl_seeder l"] by (simp add: loader_at_def loader_left_def)

text \<open>A pass of the loader leaves fewer passes, unless the loader has finished.\<close>

lemma loader_step_left:
  assumes "loader_at E n l" "start"
  shows "pl_loaded l \<and> pl_regs_done l \<and> programLoader_step pp p0 p1 len T off start l = l \<or>
    loader_left (programLoader_step pp p0 p1 len T off start l) < loader_left l" (is "_ \<and> _ \<and> ?l = l \<or> _")
proof -
  consider (copy) "\<not> pl_loaded l" "unat (pl_load_idx l) < 256" | (copied) "\<not> pl_loaded l" "\<not> unat (pl_load_idx l) < 256"
    | (seed) "pl_loaded l" "\<not> pl_regs_done l" | (finished) "pl_loaded l" "pl_regs_done l" by blast
  then show ?thesis
  proof cases
    case copy
    have "unat (pl_load_idx l + 1) = Suc (unat (pl_load_idx l))" using copy(2) by (simp add: unat_word_ariths)
    moreover have "pl_load_idx ?l = pl_load_idx l + 1" "\<not> pl_loaded ?l"
      using copy assms(2) by (simp_all add: programLoader_step_def load_idx_less Let_def del: MAX_PROGRAM_LEN_def)
    ultimately have "loader_left ?l < loader_left l" using copy by (simp add: loader_left_def)
    then show ?thesis ..
  next
    case copied
    then show ?thesis using assms
      by (simp add: programLoader_step_def load_idx_less loader_left_def loader_at_def seed_digits_pos del: MAX_PROGRAM_LEN_def)
  next
    case seed
    then have n: "n \<le> 65536" "seed_digits n (pl_seeder l)" using assms(1) by (simp_all add: loader_at_def)
    have left: "loader_left l = 65537 - n" by (rule loader_left_at [OF assms(1) seed])
    have "n div 8192 \<le> 8" using n(1) by simp
    then have c: "se_c (pl_seeder l) < of_nat NUM_CUS \<longleftrightarrow> n < 65536"
      using n by (auto simp: seed_digits_def word_less_nat_alt unat_of_nat)
    show ?thesis
    proof (cases "n < 65536")
      case True
      then have "n div 8192 < 255" "Suc n \<le> 65536" by simp_all
      then have "loader_left (l\<lparr> pl_seeder := seed_pass flat_warp (regs_port p0 p1) T off (pl_seeder l) \<rparr>) = 65537 - Suc n"
        using seed seed_digits_pos [OF seed_pass_digits(1) [OF n(2)]] by (simp add: loader_left_def)
      moreover have "65537 - Suc n < 65537 - n" using True by linarith
      ultimately show ?thesis using seed c True assms(2) left by (simp add: programLoader_step_def del: NUM_CUS_def)
    next
      case False
      then show ?thesis using seed c assms(2) left n(1)
        by (simp add: programLoader_step_def loader_left_def del: NUM_CUS_def)
    qed
  next
    case finished
    then show ?thesis using assms(2) by (simp add: programLoader_step_def)
  qed
qed

definition flat_unit_weight :: "'m flat_env \<Rightarrow> 'm flat_device \<Rightarrow> nat \<Rightarrow> nat" where
  "flat_unit_weight E S c = length (flat_queue S c) + unit_weight (cu_warps (unat (fe_total_warps E)) c) (fd_cu S c)"

definition flat_weight :: "'m flat_env \<Rightarrow> 'm flat_device \<Rightarrow> nat" where
  "flat_weight E S = 3 * loader_left (fd_loader S) + (\<Sum>c<8. flat_unit_weight E S c) + of_bool (\<not> bc_busy (fd_barrier S))"

text \<open>When one unit gets lighter, or the barrier core's streams shrink, so does the sum.\<close>

lemma sum_one_less:
  fixes f g :: "nat \<Rightarrow> nat"
  assumes "c < 8" "f c < g c" "\<And>i. i < 8 \<Longrightarrow> i \<noteq> c \<Longrightarrow> f i = g i"
  shows "(\<Sum>i<8. f i) < (\<Sum>i<8. g i)"
proof (rule sum_strict_mono_ex1)
  show "\<forall>i \<in> {..<8}. f i \<le> g i" using assms by (metis lessThan_iff order.refl order_less_imp_le)
  show "\<exists>i \<in> {..<8}. f i < g i" using assms(1,2) by auto
qed simp

lemma weight_unit:
  assumes c: "c < 8" and less: "flat_unit_weight E S' c < flat_unit_weight E S c"
    and same: "\<And>i. i \<noteq> c \<Longrightarrow> fd_cu S' i = fd_cu S i \<and> flat_queue S' i = flat_queue S i"
    and rest: "loader_left (fd_loader S') = loader_left (fd_loader S)" "fd_barrier S' = fd_barrier S"
  shows "flat_weight E S' < flat_weight E S"
proof -
  have "(\<Sum>i<8. flat_unit_weight E S' i) < (\<Sum>i<8. flat_unit_weight E S i)"
    by (rule sum_one_less [where c = c and f = "flat_unit_weight E S'" and g = "flat_unit_weight E S", OF c less])
      (simp add: flat_unit_weight_def same)
  then show ?thesis by (simp add: flat_weight_def rest)
qed

definition calm_inv :: "'m flat_env \<Rightarrow> (nat \<Rightarrow> RegisterFile list) \<Rightarrow> nat \<Rightarrow> 'm flat_device \<Rightarrow> bool" where
  "calm_inv E files n S \<longleftrightarrow> flat_inv E files n S \<and> fd_start S \<and> se_loaded_out (pl_seeder (fd_loader S)) = (\<lambda>_. []) \<and>
     (\<forall>c<8. calm (pending (absd n S) c) (fd_cu S c))"

lemma calm_sched:
  assumes inv: "calm_inv E files n S" and T: "unat (fe_total_warps E) \<le> 64" and files: "\<And>c. c < 8 \<Longrightarrow> wf_files (files c)"
    and c: "c < 8"
  shows "calm_inv E files n (flat_sched E c S) \<and>
    (flat_sched E c S = S \<or> flat_weight E (flat_sched E c S) < flat_weight E S)"
proof -
  let ?T = "fe_total_warps E" and ?u = "fd_cu S c"
  let ?v = "schedulerCore_step (of_nat c) ?T (fe_offset E) (fd_start S) ?u" and ?W = "cu_warps (unat ?T) c"
  have flat: "flat_inv E files n S" using inv by (simp add: calm_inv_def)
  note unit = flat_inv_unit [OF flat T c]
  have cu: "fd_cu (flat_sched E c S) = (fd_cu S)(c := ?v)" by (simp add: flat_sched_def)
  have idle: "sc_loaded_in ?v = sc_loaded_in ?u \<or> \<not> sc_busy_cu_scheduler ?u \<and> sc_loaded_in ?v = tl (sc_loaded_in ?u)"
    by (auto simp: schedulerCore_step_unfold sched_idle_unfold sched_signal_def sched_status_def sched_dispatch_def Let_def
        split: list.splits prod.splits)
  have p: "pending (absd n (flat_sched E c S)) c \<longleftrightarrow> pending (absd n S) c \<and> sc_loaded_in ?v = sc_loaded_in ?u"
    using idle unit(1,2) unfolding pending_def absd_simps cu
    by (cases "sc_loaded_in ?u") (auto simp: unit_inv_def pending_def)
  have "calm (pending (absd n S) c) ?u" using inv c by (simp add: calm_inv_def)
  note light = light_sched [OF unit(1) this refl c p]
  have p': "pending (absd n (flat_sched E c S)) i = pending (absd n S) i" if "i \<noteq> c" for i
    using that by (simp add: pending_def cu)
  have "calm (pending (absd n (flat_sched E c S)) i) (fd_cu (flat_sched E c S) i)" if "i < 8" for i
    using inv light p' that by (cases "i = c") (simp_all add: calm_inv_def cu)
  moreover have "flat_sched E c S = S \<or> flat_weight E (flat_sched E c S) < flat_weight E S"
  proof (cases "?v = ?u")
    case True
    then show ?thesis by (simp add: flat_sched_def)
  next
    case False
    then have "flat_weight E (flat_sched E c S) < flat_weight E S"
      using light by (intro weight_unit [OF c]) (simp_all add: flat_unit_weight_def flat_queue_def flat_sched_def lighter_def)
    then show ?thesis ..
  qed
  moreover have "fd_start (flat_sched E c S)" "fd_loader (flat_sched E c S) = fd_loader S"
    using inv by (simp_all add: calm_inv_def flat_sched_def)
  ultimately show ?thesis
    using flat_inv_sched [OF flat T files c] inv by (simp add: calm_inv_def)
qed


lemma loader_left_queue [simp]:
  "loader_left (set_queue c q l) = loader_left l" "loader_left (set_tokens f l) = loader_left l"
  "se_loaded_out (pl_seeder (set_queue c q l)) = se_loaded_out (pl_seeder l)"
  by (simp_all add: set_queue_def set_tokens_def loader_left_def)

lemma calm_seed:
  assumes inv: "calm_inv E files n S" and c: "c < 8" and q: "flat_queue S c = sd # q"
  shows "calm_inv E files n (flat_pipe E c S) \<and> flat_weight E (flat_pipe E c S) < flat_weight E S"
proof -
  note S' = flat_pipe_cases(1) [OF q, of E]
  have flat: "flat_inv E files n S" using inv by (simp add: calm_inv_def)
  have "flat_weight E (flat_pipe E c S) < flat_weight E S"
    by (rule weight_unit [OF c]) (use q in \<open>simp_all add: S' flat_unit_weight_def flat_queue_def\<close>)
  moreover have "pending (absd n (flat_pipe E c S)) i = pending (absd n S) i" for i by (simp add: pending_def S')
  then have "calm_inv E files n (flat_pipe E c S)"
    using inv flat_inv_seed [OF flat q] by (simp add: calm_inv_def S')
  ultimately show ?thesis by simp
qed

lemma calm_run:
  assumes inv: "calm_inv E files n S" and T: "unat (fe_total_warps E) \<le> 64" and free: "barrier_free E" and c: "c < 8"
    and q: "flat_queue S c = []" and d: "sc_dispatch_out (fd_cu S c) = d # ds"
  shows "calm_inv E files n (flat_pipe E c S) \<and> flat_weight E (flat_pipe E c S) < flat_weight E S"
proof -
  have flat: "flat_inv E files n S" using inv by (simp add: calm_inv_def)
  note unit = flat_inv_unit [OF flat T c]
  obtain st rf m where run: "executeOneWarp (fe_vec E) (fe_fpu E) (fe_memf E) (of_nat c) d (pl_programs (fd_loader S) ! c)
      (fe_program_len E) (fd_regs S c ! unat (wd_slot_id d)) (fd_mem S) = (st, rf, m)"
    by (metis prod_cases3)
  note S' = flat_pipe_cases(3) [OF q d run]
  have u: "ds = []" "sc_status_in (fd_cu S c) = []" using unit_inv_slots(5) [OF unit(1) d] by simp_all
  have np: "\<not> pending (absd n S) c" using unit_inv_slots(2) [OF unit(1)] d by (auto simp: in_flight_def)
  then have "0 < n" by (auto simp: pending_def)
  then have "pl_programs (fd_loader S) ! c = loaded_program E 256" using flat c by (simp add: flat_inv_def)
  from barrier_free_completes [OF free run [unfolded this]] have st: "ws_code st = COMPLETE" .
  have p: "pending (absd n (flat_pipe E c S)) i = pending (absd n S) i" for i by (simp add: pending_def S')
  have "flat_weight E (flat_pipe E c S) < flat_weight E S"
    by (rule weight_unit [OF c])
      (use u d in \<open>simp_all add: S' flat_unit_weight_def unit_weight_def stage_weight_def flat_queue_def\<close>)
  moreover have "calm (pending (absd n S) i) (fd_cu (flat_pipe E c S) i)" if "i < 8" for i
  proof -
    have "calm (pending (absd n S) i) (fd_cu S i)" using inv that by (simp add: calm_inv_def)
    then show ?thesis using u st by (cases "i = c") (simp_all add: S' calm_def)
  qed
  ultimately show ?thesis
    using inv flat_inv_pipe [OF flat T c] p by (simp add: calm_inv_def S')
qed

lemma calm_pipe:
  assumes "calm_inv E files n S" "unat (fe_total_warps E) \<le> 64" "barrier_free E" "c < 8"
  shows "calm_inv E files n (flat_pipe E c S) \<and> (flat_pipe E c S = S \<or> flat_weight E (flat_pipe E c S) < flat_weight E S)"
proof (cases "flat_queue S c")
  case Nil
  then show ?thesis
    using assms calm_run [OF assms Nil] by (cases "sc_dispatch_out (fd_cu S c)") (simp_all add: flat_pipe_cases(2))
qed (use calm_seed [OF assms(1,4)] in blast)

lemma sum_two_more:
  fixes f g :: "nat \<Rightarrow> nat"
  assumes "\<And>i. i < 8 \<Longrightarrow> f i \<le> g i + (if i = k then 2 else 0)"
  shows "(\<Sum>i<8. f i) \<le> (\<Sum>i<8. g i) + 2"
proof -
  have "(\<Sum>i<8. f i) \<le> (\<Sum>i<8. g i + (if i = k then 2 else 0))" using assms by (intro sum_mono) simp
  also have "\<dots> \<le> (\<Sum>i<8. g i) + 2" by (simp add: sum.distrib)
  finally show ?thesis .
qed

lemma calm_load:
  assumes inv: "calm_inv E files n S" and T: "unat (fe_total_warps E) \<le> 64"
  shows "\<exists>n'. calm_inv E files n' (flat_load E S) \<and> (flat_load E S = S \<or> flat_weight E (flat_load E S) < flat_weight E S)"
proof -
  let ?in = "set_tokens (\<lambda>c. sc_loaded_in (fd_cu S c)) (fd_loader S)" and ?out = "load_pass E S" and ?S = "flat_load E S"
  have flat: "flat_inv E files n S" and start: "fd_start S" using inv by (simp_all add: calm_inv_def)
  obtain n' where n': "flat_inv E files n' ?S" "load_adds E n n' ?in ?out"
    using flat_inv_load [OF flat T] start by blast
  have at: "loader_at E n ?in" using flat start by (simp add: flat_inv_def)
  have u: "unit_weight W ((fd_cu S i)\<lparr> sc_loaded_in := x \<rparr>) + length (sc_loaded_in (fd_cu S i))
      = unit_weight W (fd_cu S i) + length x" for W i x
    by (simp add: unit_weight_def stage_weight_def)
  have grow: "flat_unit_weight E ?S i \<le> flat_unit_weight E S i + (if i = n div 8192 then 2 else 0)" for i
  proof -
    have tok: "n div 8192 = i" if "Suc n = (i + 1) * 8192"
    proof -
      have "n = 8191 + i * 8192" using that by simp
      then show ?thesis by simp
    qed
    have "length (se_seed_out (pl_seeder ?out) i) \<le> length (flat_queue S i) + (if i = n div 8192 then 1 else 0)"
      "length (se_loaded_out (pl_seeder ?out) i) \<le> length (sc_loaded_in (fd_cu S i)) + (if i = n div 8192 then 1 else 0)"
      using n'(2) tok by (auto simp: load_adds_def flat_queue_def seed_next_def)
    then show ?thesis
      using u [where W = "cu_warps (unat (fe_total_warps E)) i" and i = i and x = "se_loaded_out (pl_seeder ?out) i"]
      by (auto simp: flat_unit_weight_def flat_queue_def split: if_splits)
  qed
  have "?S = S \<or> flat_weight E ?S < flat_weight E S"
  proof (cases "?out = ?in")
    case True
    have "set_tokens (\<lambda>_. []) ?in = fd_loader S" using inv by (simp add: calm_inv_def set_tokens_def)
    moreover have "(fd_cu S c)\<lparr> sc_loaded_in := sc_loaded_in (fd_cu S c) \<rparr> = fd_cu S c" for c by simp
    ultimately have "?S = S" unfolding flat_load_def True by simp
    then show ?thesis ..
  next
    case False
    then have "loader_left ?out < loader_left ?in"
      using loader_step_left [OF at start, of "fe_program_ptr E" "fe_ptr0 E" "fe_ptr1 E" "fe_program_len E" "fe_total_warps E"
          "fe_offset E"] unfolding load_pass_def by blast
    moreover have "(\<Sum>i<8. flat_unit_weight E ?S i) \<le> (\<Sum>i<8. flat_unit_weight E S i) + 2"
      by (rule sum_two_more) (rule grow)
    ultimately have "flat_weight E ?S < flat_weight E S" by (simp add: flat_weight_def)
    then show ?thesis ..
  qed
  moreover have "pending (absd n' ?S) i \<longrightarrow> pending (absd n S) i" for i
    using n'(2) by (auto simp: load_adds_def pending_def split: if_splits)
  then have "calm (pending (absd n' ?S) i) (fd_cu ?S i)" if "i < 8" for i
    using inv that by (auto simp: calm_inv_def calm_def)
  ultimately show ?thesis using n'(1) start by (auto simp: calm_inv_def)
qed


lemma poll_events_idle: "(\<And>c. c < N \<Longrightarrow> ev c = []) \<Longrightarrow> poll_events N (b, ev) = (b, ev)"
proof (induction N)
  case 0
  then show ?case by (simp add: poll_events_def)
next
  case (Suc N)
  then show ?case by (simp add: poll_events_Suc poll_event_def)
qed

lemma calm_no_release:
  assumes inv: "calm_inv E files n S" and T: "unat (fe_total_warps E) \<le> 64" "fe_total_warps E \<noteq> 0"
    and busy: "bc_busy (fd_barrier S)"
    and poll: "poll_events 8 (bc_barrier (fd_barrier S), \<lambda>c. sc_barrier_events_out (fd_cu S c)) = (b, ev)"
  shows "\<not> barrierReleaseReady b"
proof
  assume ready: "barrierReleaseReady b"
  let ?T = "unat (fe_total_warps E)"
  have dev: "device_inv (fe_total_warps E) (absd n S)"
    by (rule device_inv_reachable [where off = "fe_offset E"]) (use inv T in \<open>simp_all add: calm_inv_def flat_inv_def\<close>)
  have "cu_warps ?T c = 0" if c: "c < 8" for c
  proof -
    have "n_stalled (pending (absd n S) c) (fd_cu S c) = cu_warps ?T c"
      using release_means_all_stalled [OF dev T(1) _ _ ready c, of ev] busy poll by simp
    moreover have "n_stalled (pending (absd n S) c) (fd_cu S c) = 0"
      using inv c by (simp add: calm_inv_def calm_def n_stalled_def)
    ultimately show ?thesis by simp
  qed
  then have "?T = 0" using sum_cu_warps [of ?T] T(1) by simp
  with T(2) show False by (simp add: unat_eq_0)
qed

lemma flat_barrier_idle:
  assumes "\<not> bc_busy (fd_barrier S)" "fd_start S" "unat (fe_total_warps E) \<le> 64"
  shows "flat_barrier E S = S\<lparr> fd_barrier := (fd_barrier S)\<lparr>
    bc_barrier := barrierLaunch (fe_total_warps E) (bc_barrier (fd_barrier S)), bc_busy := True \<rparr> \<rparr>"
proof -
  have "\<not> fe_total_warps E > of_nat (NUM_CUS * MAX_WARPS_PER_CU)" using assms(3) by (simp add: word_less_nat_alt)
  moreover have "u\<lparr> sc_barrier_events_out := sc_barrier_events_out u, sc_barrier_signal_in := sc_barrier_signal_in u \<rparr> = u"
    for u :: sched_cu by simp
  ultimately show ?thesis
    using assms(1,2) by (simp add: flat_barrier_def barrierCore_def barrierCoreN_def barrierCore_n_def Let_def barrierLaunch_def
        barrierLaunch_n_def barrierLaunchFault_def)
qed

lemma flat_barrier_busy:
  assumes inv: "calm_inv E files n S" and T: "unat (fe_total_warps E) \<le> 64" "fe_total_warps E \<noteq> 0"
    and busy: "bc_busy (fd_barrier S)" and nd: "\<not> bc_done (fd_barrier (flat_barrier E S))"
    and poll: "poll_events 8 (bc_barrier (fd_barrier S), \<lambda>c. sc_barrier_events_out (fd_cu S c)) = (b, ev)"
  shows "flat_barrier E S = S\<lparr> fd_barrier := (fd_barrier S)\<lparr> bc_barrier := b \<rparr>, fd_cu := \<lambda>c. with_events (fd_cu S c) (ev c) \<rparr>"
proof -
  note nrel = calm_no_release [OF inv T busy poll]
  note pass = barrier_pass_busy [of "absd n S", unfolded absd_simps, OF busy poll, of "fe_total_warps E", folded absd_barrier]
  have nfin: "\<not> barrierKernelComplete b"
    using nd nrel arg_cong [OF pass, of "\<lambda>D. bc_done (dv_barrier D)"] by (auto simp: Let_def)
  have "fd_barrier (flat_barrier E S) = (fd_barrier S)\<lparr> bc_barrier := b \<rparr>"
    "fd_cu (flat_barrier E S) = (\<lambda>c. with_events (fd_cu S c) (ev c))"
    using nrel nfin arg_cong [OF pass, of dv_barrier] arg_cong [OF pass, of dv_cu] by (simp_all add: Let_def fun_eq_iff)
  moreover have "flat_barrier E S = S\<lparr> fd_barrier := fd_barrier (flat_barrier E S), fd_cu := fd_cu (flat_barrier E S) \<rparr>"
    by (simp add: flat_barrier_def split: prod.split)
  ultimately show ?thesis by simp
qed

lemma unit_weight_events:
  "unit_weight W (with_events u e) + length (sc_barrier_events_out u) = unit_weight W u + length e"
  by (simp add: unit_weight_def stage_weight_def with_events_def)

lemma calm_barrier:
  assumes inv: "calm_inv E files n S" and T: "unat (fe_total_warps E) \<le> 64" "fe_total_warps E \<noteq> 0"
    and nd: "\<not> bc_done (fd_barrier S)" "\<not> bc_done (fd_barrier (flat_barrier E S))"
  shows "calm_inv E files n (flat_barrier E S) \<and> (flat_barrier E S = S \<or> flat_weight E (flat_barrier E S) < flat_weight E S)"
proof -
  have flat: "flat_inv E files n S" and start: "fd_start S" using inv by (simp_all add: calm_inv_def)
  have flat': "flat_inv E files n (flat_barrier E S)" by (rule flat_inv_barrier [OF flat]) (use nd in simp)
  show ?thesis
  proof (cases "bc_busy (fd_barrier S)")
    case False
    note S' = flat_barrier_idle [OF False start T(1)]
    have "pending (absd n (flat_barrier E S)) c = pending (absd n S) c" for c by (simp add: pending_def S')
    then have "calm_inv E files n (flat_barrier E S)" using inv flat' by (simp add: calm_inv_def S')
    moreover have "flat_weight E (flat_barrier E S) < flat_weight E S"
      using False by (simp add: flat_weight_def S' flat_unit_weight_def flat_queue_def)
    ultimately show ?thesis by simp
  next
    case True
    let ?ev = "\<lambda>c. sc_barrier_events_out (fd_cu S c)"
    obtain b ev where poll: "poll_events 8 (bc_barrier (fd_barrier S), ?ev) = (b, ev)"
      by (cases "poll_events 8 (bc_barrier (fd_barrier S), ?ev)")
    note S' = flat_barrier_busy [OF inv T True nd(2) poll]
    have ev: "ev c = tl (?ev c)" if "c < 8" for c
      using poll_events_pop [OF that, of "(bc_barrier (fd_barrier S), ?ev)"] poll by simp
    have w: "flat_unit_weight E (flat_barrier E S) c + length (?ev c) = flat_unit_weight E S c + length (ev c)" for c
      using unit_weight_events [of _ "fd_cu S c" "ev c"] by (simp add: flat_unit_weight_def flat_queue_def S' add.assoc)
    have p: "pending (absd n (flat_barrier E S)) c = pending (absd n S) c" for c by (simp add: pending_def S')
    have "calm (pending (absd n S) c) (fd_cu (flat_barrier E S) c)" if "c < 8" for c
      using inv that by (simp add: calm_inv_def calm_def S' with_events_def)
    then have "calm_inv E files n (flat_barrier E S)" using inv flat' p by (simp add: calm_inv_def S')
    moreover have "flat_barrier E S = S \<or> flat_weight E (flat_barrier E S) < flat_weight E S"
    proof (cases "\<forall>c<8. ?ev c = []")
      case True
      then have "b = bc_barrier (fd_barrier S)" "ev = ?ev" using poll_events_idle [of 8 ?ev] poll by auto
      then show ?thesis by (simp add: S' with_events_def)
    next
      case False
      then obtain c where c: "c < 8" "?ev c \<noteq> []" by blast
      have "flat_unit_weight E (flat_barrier E S) i \<le> flat_unit_weight E S i" if "i < 8" for i
        using w [of i] ev [OF that] by simp
      moreover have "flat_unit_weight E (flat_barrier E S) c < flat_unit_weight E S c"
        using w [of c] ev [OF c(1)] c(2) by (cases "?ev c") simp_all
      ultimately have "(\<Sum>i<8. flat_unit_weight E (flat_barrier E S) i) < (\<Sum>i<8. flat_unit_weight E S i)"
        using c(1) by (intro sum_strict_mono_ex1) auto
      then show ?thesis by (simp add: flat_weight_def S')
    qed
    ultimately show ?thesis by simp
  qed
qed


section \<open>Steps that change something\<close>

text \<open>A process makes a pass that is not without effect, and the host leaves \<open>start\<close> high.\<close>

definition flat_progress :: "'m flat_env \<Rightarrow> 'm flat_device \<Rightarrow> 'm flat_device \<Rightarrow> bool" where
  "flat_progress E S S' \<longleftrightarrow> flat_step E S S' \<and> S' \<noteq> S \<and> fd_start S'"

lemma calm_init:
  assumes "\<And>c. c < 8 \<Longrightarrow> wf_files (files c)"
  shows "calm_inv E files 0 (flat_init files m)"
proof -
  have "calm True sched_default" by (simp add: calm_def sched_default_def count_state_def WarpSlot_default_def)
  then show ?thesis
    using flat_inv_init [of files E m] assms
    by (simp add: calm_inv_def flat_init_def loader_default_def pending_def)
qed

lemma calm_step:
  assumes inv: "calm_inv E files n S" and step: "flat_step E S S'" "fd_start S'"
    and T: "unat (fe_total_warps E) \<le> 64" "fe_total_warps E \<noteq> 0" "barrier_free E" "\<And>c. c < 8 \<Longrightarrow> wf_files (files c)"
    and nd: "\<not> bc_done (fd_barrier S)" "\<not> bc_done (fd_barrier S')"
  shows "\<exists>n'. calm_inv E files n' S' \<and> (S' = S \<or> flat_weight E S' < flat_weight E S)"
  using step(1)
proof cases
  case (F_Sched c)
  then show ?thesis using calm_sched [OF inv T(1,4)] by auto
next
  case (F_Pipe c)
  then show ?thesis using calm_pipe [OF inv T(1,3)] by auto
next
  case F_Load
  then show ?thesis using calm_load [OF inv T(1)] by simp
next
  case F_Barrier
  then show ?thesis using calm_barrier [OF inv T(1,2) nd(1)] nd(2) by auto
next
  case F_Host
  then show ?thesis using step(2) by simp
qed

lemma done_stays:
  assumes "flat_step E S S'" "bc_done (fd_barrier S)"
  shows "bc_done (fd_barrier S')"
proof -
  have "bc_done (fst (barrierCore T x (s, ev, sg)))" if "bc_done s" for T x s ev sg
    using that by (auto simp: barrierCore_def barrierCoreN_def barrierCore_n_def Let_def split_def)
  note core = this
  from assms(1) show ?thesis
  proof cases
    case F_Barrier
    then show ?thesis using core [OF assms(2)] by (simp add: flat_barrier_def split_def Let_def)
  qed (use assms(2) in \<open>simp_all add: flat_sched_def flat_pipe_def split_def Let_def\<close>)
qed

text \<open>Until the device is done, some pass changes something.\<close>

lemma progress_possible:
  assumes inv: "calm_inv E files n S" and nd: "\<not> bc_done (fd_barrier S)"
    and T: "unat (fe_total_warps E) \<le> 64" "fe_total_warps E \<noteq> 0" and free: "barrier_free E"
  shows "\<exists>S'. flat_progress E S S'"
proof (rule ccontr)
  assume "\<not> ?thesis"
  then have stuck: "S' = S" if "flat_step E S S'" "fd_start S'" for S' using that by (auto simp: flat_progress_def)
  have flat: "flat_inv E files n S" and start: "fd_start S" using inv by (simp_all add: calm_inv_def)
  have load: "flat_load E S = S" by (rule stuck [OF F_Load]) (simp add: start)
  have barrier: "flat_barrier E S = S"
    by (rule stuck [OF F_Barrier]) (use nd start in \<open>simp_all add: flat_barrier_def split_def Let_def\<close>)
  have sched: "flat_sched E c S = S" if "c < 8" for c
    by (rule stuck [OF F_Sched]) (use start that in \<open>simp_all add: flat_sched_def\<close>)
  have pipe: "flat_pipe E c S = S" if "c < 8" for c
    by (rule stuck [OF F_Pipe]) (use start that in \<open>simp_all add: flat_pipe_def split_def Let_def\<close>)
  let ?in = "set_tokens (\<lambda>c. sc_loaded_in (fd_cu S c)) (fd_loader S)"
  have "n = 65536"
  proof -
    have at: "loader_at E n ?in" using flat start by (simp add: flat_inv_def)
    have "loader_left (load_pass E S) = loader_left (fd_loader S)"
      using arg_cong [OF load, of "\<lambda>S. loader_left (fd_loader S)"] by simp
    then have "pl_loaded ?in \<and> pl_regs_done ?in"
      using loader_step_left [OF at start, of "fe_program_ptr E" "fe_ptr0 E" "fe_ptr1 E" "fe_program_len E" "fe_total_warps E"
          "fe_offset E"] unfolding load_pass_def by auto
    then show ?thesis using at unfolding loader_at_def by simp
  qed
  moreover have "sc_dispatch_out (fd_cu S c) = []" if c: "c < 8" for c
  proof (cases "flat_queue S c")
    case Nil
    then show ?thesis using calm_run [OF inv T(1) free c Nil] pipe [OF c] by (cases "sc_dispatch_out (fd_cu S c)") auto
  qed (use calm_seed [OF inv c] pipe [OF c] in auto)
  moreover have "schedulerCore_step (of_nat c) (fe_total_warps E) (fe_offset E) True (fd_cu S c) = fd_cu S c" if "c < 8" for c
    using fun_cong [OF arg_cong [OF sched [OF that], of fd_cu], of c] start by (simp add: flat_sched_def)
  moreover have "barrier_pass (fe_total_warps E) (absd n S) = absd n S"
    using absd_barrier [of n E S] barrier by simp
  ultimately have q: "quiescent (fe_total_warps E) (fe_offset E) (absd n S)"
    using start by (simp add: quiescent_def list_all_iff)
  have seen: "launch_seen (absd n S)" using start by (simp add: launch_seen_def)
  have "device_inv (fe_total_warps E) (absd n S)"
    by (rule device_inv_reachable [where off = "fe_offset E"]) (use flat T in \<open>simp_all add: flat_inv_def\<close>)
  from conjunct1 [OF stuck_state [OF this T q seen]] have "\<exists>c<8. count_state STALLED (sc_slots (fd_cu S c)) > 0" by simp
  then show False using inv by (auto simp: calm_inv_def calm_def)
qed

lemma done_reachable:
  assumes "calm_inv E files n S"
    and T: "unat (fe_total_warps E) \<le> 64" "fe_total_warps E \<noteq> 0" "barrier_free E" "\<And>c. c < 8 \<Longrightarrow> wf_files (files c)"
  shows "\<exists>S'. (flat_step E)\<^sup>*\<^sup>* S S' \<and> bc_done (fd_barrier S')"
  using assms(1)
proof (induction "flat_weight E S" arbitrary: n S rule: less_induct)
  case less
  show ?case
  proof (cases "bc_done (fd_barrier S)")
    case False
    obtain S' where S': "flat_progress E S S'" using progress_possible [OF less.prems False T(1-3)] by blast
    then have step: "flat_step E S S'" "fd_start S'" "S' \<noteq> S" by (simp_all add: flat_progress_def)
    show ?thesis
    proof (cases "bc_done (fd_barrier S')")
      case True
      then show ?thesis using step(1) by blast
    next
      case False
      then obtain n' where "calm_inv E files n' S'" "flat_weight E S' < flat_weight E S"
        using calm_step [OF less.prems step(1,2) T \<open>\<not> bc_done (fd_barrier S)\<close>] step(3) by blast
      from less.hyps [OF this(2,1)] show ?thesis using step(1) by (meson converse_rtranclp_into_rtranclp)
    qed
  qed blast
qed

lemma progress_run:
  assumes "(flat_progress E ^^ k) (flat_init files m) S" "\<not> bc_done (fd_barrier S)"
    and T: "unat (fe_total_warps E) \<le> 64" "fe_total_warps E \<noteq> 0" "barrier_free E" "\<And>c. c < 8 \<Longrightarrow> wf_files (files c)"
  shows "\<exists>n. calm_inv E files n S \<and> flat_weight E S + k \<le> flat_weight E (flat_init files m)"
  using assms(1,2)
proof (induction k arbitrary: S)
  case 0
  then show ?case using calm_init [of files E m, OF T(4)] by auto
next
  case (Suc k)
  then obtain S1 where S1: "(flat_progress E ^^ k) (flat_init files m) S1" "flat_progress E S1 S" by (auto elim: relpowp_Suc_E)
  then have step: "flat_step E S1 S" "S \<noteq> S1" "fd_start S" by (simp_all add: flat_progress_def)
  have nd: "\<not> bc_done (fd_barrier S1)" using done_stays [OF step(1)] Suc.prems(2) by blast
  obtain n where "calm_inv E files n S1" "flat_weight E S1 + k \<le> flat_weight E (flat_init files m)"
    using Suc.IH [OF S1(1) nd] by blast
  with calm_step [OF this(1) step(1,3) T nd Suc.prems(2)] step(2) show ?case by auto
qed

lemma init_weight:
  assumes "unat (fe_total_warps E) \<le> 64"
  shows "flat_weight E (flat_init files m) = 197399 + 4 * unat (fe_total_warps E)"
proof -
  have "flat_unit_weight E (flat_init files m) c = 4 * cu_warps (unat (fe_total_warps E)) c + 2" for c
    by (simp add: flat_unit_weight_def flat_queue_def flat_init_def loader_default_def unit_weight_def stage_weight_def
        sched_default_def count_state_def WarpSlot_default_def)
  then have "(\<Sum>c<8. flat_unit_weight E (flat_init files m) c) = 4 * unat (fe_total_warps E) + 16"
    using sum_cu_warps [of "unat (fe_total_warps E)"] assms
    by (simp add: sum_distrib_left [symmetric] del: add_2_eq_Suc' add: sum.distrib)
  then show ?thesis
    by (simp add: flat_weight_def flat_init_def loader_default_def loader_left_def barrier_core_default_def)
qed

section \<open>Properties\<close>

lemma holds_a_warp: "c + k * 8 < T \<Longrightarrow> k < 8 \<Longrightarrow> 0 < cu_warps T c"
  unfolding cu_warps_def by (rule length_pos_if_in_set [of k]) simp

text \<open>C3: when the flat device reports done, in every interleaving of its processes, the register file of each slot holds what
  the slot's warp computes when it runs alone from its words of the initial register image, provided no instruction of the
  program loads from memory: loading, dispatching, barriers and the sharing of the pipelines do not show.\<close>

theorem device_computes_kernel:
  assumes "flat_reachable E files m S" "bc_done (fd_barrier S)"
    and "unat (fe_total_warps E) \<le> NUM_CUS * MAX_WARPS_PER_CU" "load_free E" "\<And>c. c < NUM_CUS \<Longrightarrow> wf_files (files c)"
    and "w < unat (fe_total_warps E)"
  shows "fd_regs S (w mod NUM_CUS) ! (w div NUM_CUS) = kernel_result E (initial_regs E w)"
proof -
  have T: "unat (fe_total_warps E) \<le> 64" and files: "\<And>c. c < 8 \<Longrightarrow> wf_files (files c)" using assms(3,5) by simp_all
  obtain n where inv: "flat_inv E files n S" using flat_inv_reachable [OF assms(1) T files] by blast
  let ?c = "w mod 8" and ?k = "w div 8"
  have c: "?c < 8" "?k < 8" "?c + ?k * 8 = w" using assms(6) T by (simp_all add: less_mult_imp_div_less)
  note unit = flat_inv_unit [OF inv T c(1)]
  have "device_inv (fe_total_warps E) (absd n S)"
    by (rule device_inv_reachable [where off = "fe_offset E"]) (use inv T in \<open>simp_all add: flat_inv_def\<close>)
  then have all_done: "n_done (pending (absd n S) ?c) (fd_cu S ?c) = cu_warps (unat (fe_total_warps E)) ?c"
    using assms(2) c(1) by (simp add: device_inv_def)
  moreover have W: "0 < cu_warps (unat (fe_total_warps E)) ?c" using holds_a_warp [of ?c ?k] c assms(6) by simp
  ultimately have np: "\<not> pending (absd n S) ?c" by (auto simp: n_done_def)
  have len: "length (sc_slots (fd_cu S ?c)) = 8" using unit(1) by (simp add: unit_inv_def)
  have "count_state READY (sc_slots (fd_cu S ?c)) = 0" "count_state STALLED (sc_slots (fd_cu S ?c)) = 0"
    using unit(1) all_done np by (simp_all add: unit_inv_def unit_defs)
  then have st: "sl_state (sc_slots (fd_cu S ?c) ! k) \<noteq> READY" "sl_state (sc_slots (fd_cu S ?c) ! k) \<noteq> STALLED" if "k < 8" for k
    using that len by (simp_all add: count_state_zero)
  have "sc_status_in (fd_cu S ?c) = []"
  proof (cases "sc_status_in (fd_cu S ?c)")
    case (Cons x xs)
    then have "ws_slot_id x \<in> set (in_flight (fd_cu S ?c))" by (simp add: in_flight_def)
    then show ?thesis using unit_inv_slots(3) [OF unit(1)] st by blast
  qed
  moreover have "slot_sem E (slot_result E ?c ?k) (fd_cu S ?c) (flat_queue S ?c) (fd_regs S ?c) ?k"
    using unit(3) assms(4) np c assms(6) by (simp add: unit_sem_def)
  ultimately have "waiting_sem E (slot_result E ?c ?k) (flat_queue S ?c) (fd_regs S ?c) ?k (sc_slots (fd_cu S ?c) ! ?k)"
    by (simp add: slot_sem_def)
  then have "fd_regs S ?c ! ?k = slot_result E ?c ?k"
    using st [OF c(2)] by (cases "sl_state (sc_slots (fd_cu S ?c) ! ?k)") (simp_all add: waiting_sem_def)
  then show ?thesis using c(3) by (simp add: slot_result_def)
qed

text \<open>One warp that runs one instruction, on register files of zeros and a memory nobody asks.\<close>

definition small_env :: "unit flat_env" where
  "small_env = \<lparr> fe_vec = False, fe_fpu = \<lparr> fp_add = (\<lambda>_ _. 0), fp_sub = (\<lambda>_ _. 0), fp_mul = (\<lambda>_ _. 0),
       fp_mul_add = (\<lambda>_ _ _. 0) \<rparr>,
     fe_memf = silent, fe_program_ptr = (\<lambda>_. 0), fe_ptr0 = (\<lambda>_. 7), fe_ptr1 = (\<lambda>_. 7),
     fe_program_len = 1, fe_total_warps = 1, fe_offset = 0 \<rparr>"

abbreviation zero_files :: "nat \<Rightarrow> RegisterFile list" where
  "zero_files \<equiv> \<lambda>_. replicate 8 (replicate 32 (replicate 32 0))"

lemma small_env_ok:
  "load_free small_env" "barrier_free small_env" "wf_files (zero_files c)" "unat (fe_total_warps small_env) = 1"
proof -
  have "i_opcode (decodeInstruction 0) \<noteq> Op_LW" "i_opcode (decodeInstruction 0) \<noteq> Op_BARRIER" by code_simp+
  then show "load_free small_env" "barrier_free small_env" "wf_files (zero_files c)" "unat (fe_total_warps small_env) = 1"
    by (simp_all add: load_free_def barrier_free_def list_all_iff small_env_def wf_files_def wf_regs_def)
qed

theorem device_computes_kernel_witness:
  "\<exists>S. flat_reachable small_env zero_files () S \<and> bc_done (fd_barrier S) \<and>
     fd_regs S 0 ! 0 = kernel_result small_env (initial_regs small_env 0)"
proof -
  have T: "unat (fe_total_warps small_env) \<le> 64" "fe_total_warps small_env \<noteq> 0" by (simp_all add: small_env_def)
  obtain S where S: "flat_reachable small_env zero_files () S" "bc_done (fd_barrier S)"
    using done_reachable [OF calm_init T small_env_ok(2), of zero_files] small_env_ok(3) by blast
  from device_computes_kernel [OF S _ small_env_ok(1), of 0] have "fd_regs S 0 ! 0 = kernel_result small_env (initial_regs small_env 0)"
    using small_env_ok(3,4) by simp
  with S show ?thesis by blast
qed

text \<open>C4: the flat device finishes a kernel without barriers, launched with 1 to 64 warps while \<open>start\<close> is held high and
  with register files of the right shape. In every interleaving of the processes in which \<open>start\<close> stays high, as long as
  the device is not done some process has a pass that changes something; and at most 197655 such passes fit into a run,
  three for each pass of the loader and four for each warp among them. So a device whose processes all keep making passes
  is done. A launch of no warps, or a \<open>start\<close> that falls while the loader works, is excluded: both hang.\<close>

theorem device_finishes:
  assumes "(flat_progress E ^^ k) (flat_init files m) S" "\<not> bc_done (fd_barrier S)"
    and "unat (fe_total_warps E) \<le> NUM_CUS * MAX_WARPS_PER_CU" "fe_total_warps E \<noteq> 0" "barrier_free E"
    and "\<And>c. c < NUM_CUS \<Longrightarrow> wf_files (files c)"
  shows "k \<le> 197655 \<and> (\<exists>S'. flat_progress E S S')"
proof -
  have T: "unat (fe_total_warps E) \<le> 64" and files: "\<And>c. c < 8 \<Longrightarrow> wf_files (files c)" using assms(3,6) by simp_all
  obtain n where "calm_inv E files n S" "flat_weight E S + k \<le> flat_weight E (flat_init files m)"
    using progress_run [OF assms(1,2) T assms(4,5) files] by blast
  then show ?thesis
    using progress_possible [OF _ assms(2) T assms(4,5)] init_weight [OF T, of files m] T by fastforce
qed

theorem device_finishes_witness:
  "(flat_progress small_env ^^ 0) (flat_init zero_files ()) (flat_init zero_files ()) \<and>
   (\<exists>S. flat_progress small_env (flat_init zero_files ()) S)"
proof -
  have 0: "(flat_progress small_env ^^ 0) (flat_init zero_files ()) (flat_init zero_files ())" by simp
  have "\<not> bc_done (fd_barrier (flat_init zero_files ()))" by (simp add: flat_init_def barrier_core_default_def)
  from device_finishes [OF 0 this] show ?thesis
    using 0 small_env_ok by (simp add: small_env_def)
qed

end
