(* ===== verification/ClusterTop.thy ===== *)
theory ClusterTop
  imports Cluster
begin

text \<open>
  The device of the hierarchical build: the branch of \<open>gpgpu_scheduler\<close> (\<open>gpgpu_top.cpp\<close>) for 13 units and
  more with \<open>cuCluster\<close> of \<open>cu_cluster.h\<close>. Two clusters of schedulers report through their relays to a barrier
  core with two streams. As in \<open>GpgpuTop\<close>, any process may make its next pass, a pipeline answers a dispatch with an
  arbitrary status for its slot, and a register loader is seen through the token it sends each unit.
\<close>

section \<open>The network\<close>

record cluster_device =
  ct_cu :: "nat \<Rightarrow> nat \<Rightarrow> sched_cu"
  ct_events :: "nat \<Rightarrow> WarpStatusCode list"
  ct_signal :: "nat \<Rightarrow> barrier_signal_t list"
  ct_barrier :: barrier_core
  ct_unloaded :: "nat \<Rightarrow> nat \<Rightarrow> bool"
  ct_start :: bool

text \<open>Unit \<open>j\<close> of cluster \<open>k\<close>. The base of the cluster is rounded to \<open>cu_id_t\<close> before the sum is.\<close>

definition cluster_cu_id :: "nat \<Rightarrow> nat \<Rightarrow> nat \<Rightarrow> cu_id_t" where
  "cluster_cu_id CS k j = of_nat (unat (of_nat (k * CS) :: cu_id_t) + j)"

text \<open>The pipelines of a cluster are written out one by one, all but the first under \<open>#if CLUSTER_SIZE >= j + 1\<close>. \<open>PS\<close> is
  what the preprocessor puts for \<open>CLUSTER_SIZE\<close>: a \<open>constexpr\<close> is not a macro, so it is 0.\<close>

definition has_pipeline :: "nat \<Rightarrow> nat \<Rightarrow> bool" where
  "has_pipeline PS j \<longleftrightarrow> j = 0 \<or> j < 8 \<and> PS \<ge> j + 1"

definition set_cu :: "nat \<Rightarrow> nat \<Rightarrow> sched_cu \<Rightarrow> cluster_device \<Rightarrow> cluster_device" where
  "set_cu k j u S = S\<lparr> ct_cu := (ct_cu S)(k := (ct_cu S k)(j := u)) \<rparr>"

definition cluster_relay :: "nat \<Rightarrow> nat \<Rightarrow> cluster_device \<Rightarrow> cluster_device" where
  "cluster_relay CS k S =
     (let r = clusterBarrierRelay_step CS \<lparr> rl_sched_events = (\<lambda>j. sc_barrier_events_out (ct_cu S k j)),
            rl_cluster_events_out = ct_events S k, rl_cluster_signal_in = ct_signal S k,
            rl_sched_signal = (\<lambda>j. sc_barrier_signal_in (ct_cu S k j)) \<rparr>
      in S\<lparr> ct_cu := (ct_cu S)(k := \<lambda>j. (ct_cu S k j)\<lparr> sc_barrier_events_out := rl_sched_events r j,
              sc_barrier_signal_in := rl_sched_signal r j \<rparr>),
            ct_events := (ct_events S)(k := rl_cluster_events_out r),
            ct_signal := (ct_signal S)(k := rl_cluster_signal_in r) \<rparr>)"

definition cluster_barrier :: "nat \<Rightarrow> warp_id_t \<Rightarrow> cluster_device \<Rightarrow> cluster_device" where
  "cluster_barrier NCU T S =
     (let (b, ev, sg) = barrierCore_n NCU 2 T (ct_start S) (ct_barrier S, ct_events S, ct_signal S)
      in S\<lparr> ct_barrier := b, ct_events := ev, ct_signal := sg \<rparr>)"

inductive cluster_step ::
  "nat \<Rightarrow> nat \<Rightarrow> nat \<Rightarrow> warp_id_t \<Rightarrow> warp_id_t \<Rightarrow> cluster_device \<Rightarrow> cluster_device \<Rightarrow> bool" for NCU CS PS T off where
  C_Sched: "k < 2 \<Longrightarrow> j < CS \<Longrightarrow> cluster_step NCU CS PS T off S
    (set_cu k j (schedulerCore_n NCU (cluster_cu_id CS k j) T off (ct_start S) (ct_cu S k j)) S)"
| C_Pipe: "k < 2 \<Longrightarrow> j < CS \<Longrightarrow> has_pipeline PS j \<Longrightarrow> sc_dispatch_out (ct_cu S k j) = d # ds \<Longrightarrow>
    ws_slot_id st = wd_slot_id d \<Longrightarrow> cluster_step NCU CS PS T off S
    (set_cu k j ((ct_cu S k j)\<lparr> sc_dispatch_out := ds, sc_status_in := sc_status_in (ct_cu S k j) @ [st] \<rparr>) S)"
| C_Load: "k < 2 \<Longrightarrow> j < CS \<Longrightarrow> ct_unloaded S k j \<Longrightarrow> ct_start S \<Longrightarrow> cluster_step NCU CS PS T off S
    ((set_cu k j ((ct_cu S k j)\<lparr> sc_loaded_in := sc_loaded_in (ct_cu S k j) @ [True] \<rparr>) S)
      \<lparr> ct_unloaded := (ct_unloaded S)(k := (ct_unloaded S k)(j := False)) \<rparr>)"
| C_Relay: "k < 2 \<Longrightarrow> cluster_step NCU CS PS T off S (cluster_relay CS k S)"
| C_Barrier: "cluster_step NCU CS PS T off S (cluster_barrier NCU T S)"
| C_Host: "cluster_step NCU CS PS T off S (S\<lparr> ct_start := False \<rparr>)"

definition cluster_init :: cluster_device where
  "cluster_init = \<lparr> ct_cu = (\<lambda>_ _. sched_default), ct_events = (\<lambda>_. []), ct_signal = (\<lambda>_. []),
     ct_barrier = barrier_core_default, ct_unloaded = (\<lambda>_ _. True), ct_start = True \<rparr>"

section \<open>The launch of a unit\<close>

text \<open>The warps that a unit with the id \<open>cu\<close> takes.\<close>

definition unit_warps :: "nat \<Rightarrow> nat \<Rightarrow> nat \<Rightarrow> nat" where
  "unit_warps NCU T cu = length (filter (\<lambda>slot. cu + slot * NCU < T) [0..<8])"

lemma unit_warps_bound:
  assumes "13 \<le> NCU" "3 \<le> T" shows "2 * unit_warps NCU T cu < T"
proof -
  let ?q = "(T - 1) div NCU"
  have "slot \<le> ?q" if "cu + slot * NCU < T" for slot
  proof -
    have "slot * NCU \<le> T - 1" using that by simp
    then have "slot * NCU div NCU \<le> (T - 1) div NCU" by (rule div_le_mono)
    then show ?thesis using assms(1) by simp
  qed
  then have "set (filter (\<lambda>slot. cu + slot * NCU < T) [0..<8]) \<subseteq> {..?q}" by auto
  then have "card (set (filter (\<lambda>slot. cu + slot * NCU < T) [0..<8])) \<le> card {..?q}" by (rule card_mono [OF finite_atMost])
  then have w: "unit_warps NCU T cu \<le> Suc ?q"
    unfolding unit_warps_def by (subst (asm) distinct_card) simp_all
  have "?q * 13 \<le> ?q * NCU" using assms(1) by (rule mult_le_mono2)
  also have "\<dots> \<le> T - 1" by simp
  finally show ?thesis using w assms(2) by linarith
qed

lemma launch_n_done:
  assumes "length slots = 8" "NCU \<le> 16"
  shows "count_state READY (launchSlots_n NCU cu T off slots) = unit_warps NCU (unat T) (unat cu)"
    "count_state STALLED (launchSlots_n NCU cu T off slots) = 0"
    "count_state DONE (launchSlots_n NCU cu T off slots) = 0" "length (launchSlots_n NCU cu T off slots) = 8"
proof -
  let ?l = "launchSlots_n NCU cu T off slots"
  show len: "length ?l = 8" using assms(1) by (simp add: launchSlots_n_def)
  have nth: "sl_state (?l ! i) = (if unat cu + i * NCU < unat T then READY else EMPTY)" if i: "i < 8" for i
  proof -
    have "unat cu < 8" using unsigned_less [of cu] by simp
    moreover have "i * NCU \<le> 7 * 16" using i assms(2) by (intro mult_le_mono) simp_all
    ultimately have "unat cu + i * NCU < 2 ^ LENGTH(32)" by simp
    then have "unat (of_nat (unat cu + i * NCU) :: u32) = unat cu + i * NCU" by (simp only: unat_of_nat mod_less)
    moreover have "ucast cu + of_nat i * of_nat NCU = (of_nat (unat cu + i * NCU) :: u32)" by simp
    ultimately have "unat (ucast cu + of_nat i * of_nat NCU :: u32) = unat cu + i * NCU" by (simp only:)
    then have "(ucast cu + of_nat i * of_nat NCU :: u32) < T \<longleftrightarrow> unat cu + i * NCU < unat T" by (simp only: word_less_nat_alt)
    then show ?thesis
      using i assms(1) by (simp add: launchSlots_n_def lane_simps assignSlot_n_def Let_def)
  qed
  have "filter (\<lambda>i. sl_state (?l ! i) = READY) [0..<8] = filter (\<lambda>i. unat cu + i * NCU < unat T) [0..<8]"
    by (rule filter_cong) (auto simp: nth)
  then show "count_state READY ?l = unit_warps NCU (unat T) (unat cu)"
    unfolding count_state_def unit_warps_def by (subst filter_index) (simp add: len)
  show "count_state STALLED ?l = 0" "count_state DONE ?l = 0"
    unfolding count_state_zero using nth by (auto simp: len split: if_splits)
qed

section \<open>The invariant of one unit\<close>

text \<open>\<open>p\<close>: the unit has not launched yet. \<open>W\<close> warps fit into it; without a pipeline none of them finishes.\<close>

definition worker_inv :: "nat \<Rightarrow> bool \<Rightarrow> bool \<Rightarrow> sched_cu \<Rightarrow> bool" where
  "worker_inv W pipeline p u \<longleftrightarrow> length (sc_slots u) = 8 \<and>
     (if sc_busy_cu u then \<exists>k. in_flight u = [k] \<and> unat k < 8 \<and> sl_state (sc_slots u ! unat k) = READY
      else in_flight u = []) \<and>
     (if p then \<not> sc_busy_cu_scheduler u \<and> \<not> sc_busy_cu u \<and> count_state DONE (sc_slots u) = 0
      else sc_loaded_in u = [] \<and>
        count_state READY (sc_slots u) + count_state STALLED (sc_slots u) + count_state DONE (sc_slots u) = W) \<and>
     (\<not> pipeline \<longrightarrow> sc_status_in u = [] \<and> count_state DONE (sc_slots u) = 0) \<and>
     list_all (\<lambda>sig. \<not> sg_kernel_done sig) (sc_barrier_signal_in u)"

text \<open>The completions of the unit that it has not reported yet stay the same.\<close>

definition reported :: "sched_cu \<Rightarrow> int" where
  "reported u = int (count_state DONE (sc_slots u)) - int (count_code COMPLETE (sc_barrier_events_out u))"

lemma worker_dispatch:
  assumes "worker_inv W pl False u"
  shows "worker_inv W pl False (sched_dispatch u) \<and> reported (sched_dispatch u) = reported u"
proof (cases "sc_busy_cu u \<or> nextReadySlot (sc_slots u) = of_nat INVALID_SLOT")
  case True
  then have "sched_dispatch u = u" by (auto simp: sched_dispatch_def Let_def)
  then show ?thesis using assms by simp
next
  case False
  let ?k = "nextReadySlot (sc_slots u)"
  have len: "length (sc_slots u) = 8" using assms by (simp add: worker_inv_def)
  have k: "unat ?k < 8" "sl_state (sc_slots u ! unat ?k) = READY"
    using nextReadySlot_cases [OF len] False by auto
  obtain d slots where d: "buildDispatch ?k (sc_slots u) = (d, slots)" by (cases "buildDispatch ?k (sc_slots u)")
  have "wd_slot_id d = ?k" using d by (auto simp: buildDispatch_def Let_def)
  moreover have "length slots = 8" "count_state st slots = count_state st (sc_slots u)"
    "sl_state (slots ! unat ?k) = READY" for st
    using buildDispatch_length [of ?k "sc_slots u"] buildDispatch_counts [of ?k "sc_slots u" st]
      buildDispatch_state [of "unat ?k" "sc_slots u" ?k] len k d by simp_all
  moreover have "sched_dispatch u = u\<lparr> sc_slots := slots, sc_dispatch_out := sc_dispatch_out u @ [d], sc_busy_cu := True \<rparr>"
    using False d by (simp add: sched_dispatch_def Let_def)
  ultimately show ?thesis
    using assms False k(1) by (simp add: worker_inv_def in_flight_def reported_def)
qed

lemma worker_status:
  assumes "worker_inv W pl False u"
  shows "worker_inv W pl False (sched_status u) \<and> reported (sched_status u) = reported u"
proof (cases "sc_status_in u")
  case Nil
  then show ?thesis using assms by (simp add: sched_status_def)
next
  case (Cons st sts)
  let ?k = "ws_slot_id st" and ?n = "\<lambda>x. count_state x (sc_slots u)"
  have len: "length (sc_slots u) = 8" and pl: pl using assms Cons by (auto simp: worker_inv_def)
  have "sc_busy_cu u" using assms Cons by (auto simp: worker_inv_def in_flight_def split: if_splits)
  then have k: "unat ?k < 8" "sl_state (sc_slots u ! unat ?k) = READY" "sts = []" "sc_dispatch_out u = []"
    using assms Cons by (auto simp: worker_inv_def in_flight_def Cons_eq_append_conv append_eq_Cons_conv)
  note cnt = recordResult_counts [of ?k "sc_slots u" _ st, unfolded len, OF k(1,2)]
  have pos: "0 < ?n READY" using k len count_state_zero [of READY "sc_slots u"] by (metis gr0I)
  show ?thesis
    using assms Cons k len pos pl cnt [of READY] cnt [of STALLED] cnt [of DONE]
    by (cases "ws_code st") (auto simp: sched_status_def worker_inv_def in_flight_def reported_def)
qed

lemma worker_signal:
  assumes "worker_inv W pl False u"
  shows "worker_inv W pl False (sched_signal u) \<and> reported (sched_signal u) = reported u"
proof (cases "sc_barrier_signal_in u")
  case Nil
  then show ?thesis using assms by (simp add: sched_signal_def)
next
  case (Cons sig sigs)
  have len: "length (sc_slots u) = 8" using assms by (simp add: worker_inv_def)
  have ready: "sl_state (releaseBarrierSlots (sc_slots u) ! k) = READY"
    if "k < 8" "sl_state (sc_slots u ! k) = READY" for k
    using that len by (simp add: release_map)
  show ?thesis using assms Cons ready
    by (auto simp: sched_signal_def worker_inv_def in_flight_def reported_def release_counts [OF len])
qed

lemma worker_sched:
  assumes u: "worker_inv (unit_warps NCU (unat T) (unat cu)) pl p u" and "NCU \<le> 16"
    and p: "\<not> p \<Longrightarrow> sc_loaded_in u = []" "p \<Longrightarrow> length (sc_loaded_in u) \<le> 1 \<and> sc_barrier_events_out u = []"
  shows "let v = schedulerCore_n NCU cu T off start u in
    worker_inv (unit_warps NCU (unat T) (unat cu)) pl (p \<and> sc_loaded_in v = sc_loaded_in u) v \<and> reported v = reported u \<and>
    (p \<and> sc_loaded_in v = sc_loaded_in u \<longrightarrow> v = u)"
proof (cases "sc_busy_cu_scheduler u")
  case True
  then have np: "\<not> p" using u by (auto simp: worker_inv_def)
  then have "worker_inv (unit_warps NCU (unat T) (unat cu)) pl False u" using u by simp
  note d = worker_dispatch [OF this]
  note s = worker_status [OF conjunct1 [OF d]]
  note g = worker_signal [OF conjunct1 [OF s]]
  show ?thesis using True np d s g by (simp add: schedulerCore_n_def Let_def)
next
  case False
  let ?v = "schedulerCore_n NCU cu T off start u"
  have v: "?v = sched_idle_n NCU cu T off start u" using False by (simp add: schedulerCore_n_def)
  show ?thesis
  proof (cases "?v = u")
    case True
    then show ?thesis using u by (simp add: Let_def)
  next
    case False
    then obtain tok toks where l: "sc_loaded_in u = tok # toks"
      and s: "?v = u\<lparr> sc_loaded_in := toks, sc_slots := launchSlots_n NCU cu T off (sc_slots u),
              sc_busy_cu := False, sc_busy_cu_scheduler := True \<rparr>"
      unfolding v by (auto simp: sched_idle_n_def split: list.splits if_splits)
    have p': p "toks = []" using p l by auto
    have "length (sc_slots u) = 8" using u by (simp add: worker_inv_def)
    note cnt = launch_n_done [OF this assms(2), of cu T off]
    show ?thesis using u p' p(2) l cnt by (auto simp: Let_def s worker_inv_def in_flight_def reported_def)
  qed
qed

section \<open>The invariant of the clusters\<close>

definition cluster_pending :: "cluster_device \<Rightarrow> nat \<Rightarrow> nat \<Rightarrow> bool" where
  "cluster_pending S k j \<longleftrightarrow> ct_unloaded S k j \<or> sc_loaded_in (ct_cu S k j) \<noteq> []"

definition seat_inv :: "nat \<Rightarrow> nat \<Rightarrow> nat \<Rightarrow> warp_id_t \<Rightarrow> cluster_device \<Rightarrow> nat \<Rightarrow> nat \<Rightarrow> bool" where
  "seat_inv NCU CS PS T S k j \<longleftrightarrow>
     worker_inv (unit_warps NCU (unat T) (unat (cluster_cu_id CS k j))) (has_pipeline PS j) (cluster_pending S k j) (ct_cu S k j) \<and>
     (cluster_pending S k j \<longrightarrow> length (sc_loaded_in (ct_cu S k j)) \<le> 1 \<and> sc_barrier_events_out (ct_cu S k j) = []) \<and>
     (ct_unloaded S k j \<longrightarrow> sc_loaded_in (ct_cu S k j) = [])"

definition cluster_inv :: "nat \<Rightarrow> nat \<Rightarrow> nat \<Rightarrow> warp_id_t \<Rightarrow> cluster_device \<Rightarrow> bool" where
  "cluster_inv NCU CS PS T S \<longleftrightarrow> (\<forall>k<2. \<forall>j<CS. seat_inv NCU CS PS T S k j) \<and>
     int (unat (ba_done_count (bc_barrier (ct_barrier S)))) + (\<Sum>k<2. int (count_code COMPLETE (ct_events S k)))
       \<le> (\<Sum>k<2. \<Sum>j<CS. reported (ct_cu S k j)) \<and>
     (ba_total_warps (bc_barrier (ct_barrier S)) = 0 \<or> ba_total_warps (bc_barrier (ct_barrier S)) = T) \<and>
     \<not> bc_done (ct_barrier S) \<and> (\<forall>k<2. list_all (\<lambda>sig. \<not> sg_kernel_done sig) (ct_signal S k))"

lemma cluster_inv_init: "cluster_inv NCU CS PS T cluster_init"
  by (simp add: cluster_inv_def cluster_init_def seat_inv_def worker_inv_def cluster_pending_def sched_default_def
      in_flight_def reported_def barrier_core_default_def BarrierState_default_def count_state_def WarpSlot_default_def)

text \<open>A step of one unit.\<close>

lemma cluster_inv_unit:
  assumes inv: "cluster_inv NCU CS PS T S" and k: "k < 2" "j < CS"
    and S': "ct_cu S' = (ct_cu S)(k := (ct_cu S k)(j := u))" "ct_events S' = ct_events S" "ct_signal S' = ct_signal S"
      "ct_barrier S' = ct_barrier S" "\<And>i l. (i, l) \<noteq> (k, j) \<Longrightarrow> ct_unloaded S' i l = ct_unloaded S i l"
    and u: "seat_inv NCU CS PS T S' k j" "reported u = reported (ct_cu S k j)"
  shows "cluster_inv NCU CS PS T S'"
proof -
  have same: "ct_cu S' i l = ct_cu S i l" if "(i, l) \<noteq> (k, j)" for i l using that by (auto simp: S')
  have "seat_inv NCU CS PS T S' i l" if "i < 2" "l < CS" for i l
  proof (cases "(i, l) = (k, j)")
    case False
    have "seat_inv NCU CS PS T S i l" using inv that by (simp add: cluster_inv_def)
    then show ?thesis unfolding seat_inv_def cluster_pending_def same [OF False] S'(5) [OF False] .
  qed (use u in simp)
  moreover have "reported (ct_cu S' i l) = reported (ct_cu S i l)" for i l
    using same [of i l] u(2) by (cases "(i, l) = (k, j)") (simp_all add: S')
  ultimately show ?thesis using inv by (simp add: cluster_inv_def S'(2-4))
qed

lemma cluster_inv_sched:
  assumes inv: "cluster_inv NCU CS PS T S" and k: "k < 2" "j < CS" and "NCU \<le> 16"
  shows "cluster_inv NCU CS PS T
    (set_cu k j (schedulerCore_n NCU (cluster_cu_id CS k j) T off (ct_start S) (ct_cu S k j)) S)" (is "cluster_inv _ _ _ _ ?S")
proof -
  let ?u = "ct_cu S k j" and ?v = "schedulerCore_n NCU (cluster_cu_id CS k j) T off (ct_start S) (ct_cu S k j)"
  have seat: "seat_inv NCU CS PS T S k j" using inv k by (simp add: cluster_inv_def)
  then have p: "\<not> cluster_pending S k j \<Longrightarrow> sc_loaded_in ?u = []"
    "cluster_pending S k j \<Longrightarrow> length (sc_loaded_in ?u) \<le> 1 \<and> sc_barrier_events_out ?u = []"
    by (simp_all add: seat_inv_def cluster_pending_def)
  note w = worker_sched [where u = ?u and p = "cluster_pending S k j" and cu = "cluster_cu_id CS k j" and pl = "has_pipeline PS j" and T = T and off = off
      and start = "ct_start S", OF _ assms(4) p]
  have "sc_loaded_in ?v = sc_loaded_in ?u \<or> sc_loaded_in ?v = tl (sc_loaded_in ?u)"
    by (auto simp: schedulerCore_n_def sched_idle_n_def sched_signal_def sched_status_def sched_dispatch_def Let_def
        split: list.splits prod.splits)
  then have pend: "cluster_pending ?S k j \<longleftrightarrow> cluster_pending S k j \<and> sc_loaded_in ?v = sc_loaded_in ?u"
    using seat p by (cases "sc_loaded_in ?u") (auto simp: cluster_pending_def set_cu_def seat_inv_def)
  have w': "worker_inv (unit_warps NCU (unat T) (unat (cluster_cu_id CS k j))) (has_pipeline PS j) (cluster_pending ?S k j) ?v"
    "reported ?v = reported ?u" "cluster_pending ?S k j \<longrightarrow> ?v = ?u"
    using w seat unfolding pend by (simp_all add: Let_def seat_inv_def)
  have "ct_unloaded ?S k j \<longrightarrow> sc_loaded_in ?v = []"
    using w'(3) seat by (auto simp: cluster_pending_def seat_inv_def set_cu_def)
  then have "seat_inv NCU CS PS T ?S k j"
    using w'(1,3) p(2) pend by (auto simp: seat_inv_def set_cu_def)
  then show ?thesis
    by (intro cluster_inv_unit [OF inv k, where u = ?v]) (simp_all add: set_cu_def w'(2))
qed

lemma cluster_inv_pipe:
  assumes inv: "cluster_inv NCU CS PS T S" and k: "k < 2" "j < CS" and pl: "has_pipeline PS j"
    and d: "sc_dispatch_out (ct_cu S k j) = d # ds" "ws_slot_id st = wd_slot_id d"
  shows "cluster_inv NCU CS PS T
    (set_cu k j ((ct_cu S k j)\<lparr> sc_dispatch_out := ds, sc_status_in := sc_status_in (ct_cu S k j) @ [st] \<rparr>) S)"
    (is "cluster_inv _ _ _ _ (set_cu k j ?u S)")
proof -
  have seat: "seat_inv NCU CS PS T S k j" using inv k by (simp add: cluster_inv_def)
  then have "in_flight ?u = in_flight (ct_cu S k j)"
    using d by (auto simp: in_flight_def seat_inv_def worker_inv_def Cons_eq_append_conv split: if_splits)
  then have "seat_inv NCU CS PS T (set_cu k j ?u S) k j"
    using seat pl by (simp add: seat_inv_def worker_inv_def cluster_pending_def set_cu_def)
  then show ?thesis
    by (intro cluster_inv_unit [OF inv k, where u = ?u]) (simp_all add: set_cu_def reported_def)
qed

lemma cluster_inv_load:
  assumes inv: "cluster_inv NCU CS PS T S" and k: "k < 2" "j < CS" and un: "ct_unloaded S k j"
  shows "cluster_inv NCU CS PS T ((set_cu k j ((ct_cu S k j)\<lparr> sc_loaded_in := sc_loaded_in (ct_cu S k j) @ [True] \<rparr>) S)
      \<lparr> ct_unloaded := (ct_unloaded S)(k := (ct_unloaded S k)(j := False)) \<rparr>)" (is "cluster_inv _ _ _ _ ?S")
proof -
  let ?u = "(ct_cu S k j)\<lparr> sc_loaded_in := sc_loaded_in (ct_cu S k j) @ [True] \<rparr>"
  have "seat_inv NCU CS PS T S k j" using inv k by (simp add: cluster_inv_def)
  then have "seat_inv NCU CS PS T ?S k j"
    using un by (auto simp: seat_inv_def worker_inv_def cluster_pending_def set_cu_def in_flight_def)
  then show ?thesis
    by (intro cluster_inv_unit [OF inv k, where u = ?u]) (auto simp: set_cu_def reported_def)
qed

text \<open>The relay of a cluster.\<close>

lemma relay_events_empty:
  "rl_sched_events s j = [] \<Longrightarrow> rl_sched_events (clusterBarrierRelay_step CS s) j = []"
proof -
  have "rl_sched_events (fold relay_event cs s) j = []" if "rl_sched_events s j = []" for cs s
    using that
  proof (induction cs arbitrary: s)
    case (Cons c cs)
    then have "rl_sched_events (relay_event c s) j = []" by (cases "c = j") (simp_all add: relay_event_def split: list.splits)
    then show ?case using Cons.IH by simp
  qed simp
  then show "rl_sched_events s j = [] \<Longrightarrow> rl_sched_events (clusterBarrierRelay_step CS s) j = []"
    by (simp add: clusterBarrierRelay_step_def Let_def split: list.splits)
qed

lemma relay_keeps_quiet:
  assumes "list_all P (rl_cluster_signal_in s)" "\<And>j. j < CS \<Longrightarrow> list_all P (rl_sched_signal s j)"
  shows "list_all P (rl_cluster_signal_in (clusterBarrierRelay_step CS s))"
    "j < CS \<Longrightarrow> list_all P (rl_sched_signal (clusterBarrierRelay_step CS s) j)"
proof -
  show "list_all P (rl_cluster_signal_in (clusterBarrierRelay_step CS s))"
    using assms(1) relay_events_signals [of "[0..<CS]" s]
    by (auto simp: clusterBarrierRelay_step_def Let_def split: list.splits)
  assume j: "j < CS"
  have "list_all P (rl_sched_signal (clusterBarrierRelay_step CS s) j @ rl_cluster_signal_in (clusterBarrierRelay_step CS s))"
    unfolding relay_step_signals [OF j] using assms j by simp
  then show "list_all P (rl_sched_signal (clusterBarrierRelay_step CS s) j)" by simp
qed

lemma two_sums:
  fixes f g f' g' :: "nat \<Rightarrow> int"
  assumes "k < 2" "f' k - f k = g' k - g k" "\<And>i. i \<noteq> k \<Longrightarrow> f' i = f i" "\<And>i. i \<noteq> k \<Longrightarrow> g' i = g i"
  shows "(\<Sum>i<2. f' i) - (\<Sum>i<2. g' i) = (\<Sum>i<2. f i) - (\<Sum>i<2. g i)"
proof -
  have "(\<Sum>i<2. h i) = h 0 + h 1" for h :: "nat \<Rightarrow> int" by (simp add: numeral_2_eq_2)
  then show ?thesis using assms(1,2) assms(3,4) [of 0] assms(3,4) [of 1] by (auto simp: less_2_cases_iff)
qed

lemma cluster_inv_relay:
  assumes inv: "cluster_inv NCU CS PS T S" and k: "k < 2"
  shows "cluster_inv NCU CS PS T (cluster_relay CS k S)" (is "cluster_inv _ _ _ _ ?S")
proof -
  let ?s = "\<lparr> rl_sched_events = (\<lambda>j. sc_barrier_events_out (ct_cu S k j)), rl_cluster_events_out = ct_events S k,
    rl_cluster_signal_in = ct_signal S k, rl_sched_signal = (\<lambda>j. sc_barrier_signal_in (ct_cu S k j)) \<rparr>"
  let ?r = "clusterBarrierRelay_step CS ?s"
  have cu: "ct_cu ?S i j = (if i = k then (ct_cu S k j)\<lparr> sc_barrier_events_out := rl_sched_events ?r j,
      sc_barrier_signal_in := rl_sched_signal ?r j \<rparr> else ct_cu S i j)" for i j
    by (simp add: cluster_relay_def Let_def)
  have rest: "ct_events ?S = (ct_events S)(k := rl_cluster_events_out ?r)" "ct_signal ?S = (ct_signal S)(k := rl_cluster_signal_in ?r)"
    "ct_barrier ?S = ct_barrier S" "ct_unloaded ?S = ct_unloaded S" by (simp_all add: cluster_relay_def Let_def)
  have seat: "seat_inv NCU CS PS T S i j" if "i < 2" "j < CS" for i j using inv that by (simp add: cluster_inv_def)
  have quiet: "list_all (\<lambda>sig. \<not> sg_kernel_done sig) (sc_barrier_signal_in (ct_cu S k j))" if "j < CS" for j
    using seat [OF k that] by (simp add: seat_inv_def worker_inv_def)
  have kd: "list_all (\<lambda>sig. \<not> sg_kernel_done sig) (rl_cluster_signal_in ?r)"
    "list_all (\<lambda>sig. \<not> sg_kernel_done sig) (rl_sched_signal ?r j)" if "j < CS" for j
    using relay_keeps_quiet [of "\<lambda>sig. \<not> sg_kernel_done sig" ?s CS] inv k quiet that by (simp_all add: cluster_inv_def)
  have kd0: "list_all (\<lambda>sig. \<not> sg_kernel_done sig) (rl_cluster_signal_in ?r)"
    by (rule relay_keeps_quiet(1)) (use inv k quiet in \<open>simp_all add: cluster_inv_def\<close>)
  have seats: "seat_inv NCU CS PS T ?S i j" if "i < 2" "j < CS" for i j
    using seat [OF that] kd(2) [OF that(2)] relay_events_empty [of ?s j CS]
    by (auto simp: seat_inv_def worker_inv_def cluster_pending_def cu rest in_flight_def)
  have "int (count_code COMPLETE (rl_cluster_events_out ?r)) - int (count_code COMPLETE (ct_events S k))
    = (\<Sum>j<CS. reported (ct_cu ?S k j)) - (\<Sum>j<CS. reported (ct_cu S k j))"
  proof -
    note relay_step_count [where k = COMPLETE and CS = CS and s = ?s]
    then have "int (\<Sum>j<CS. count_code COMPLETE (rl_sched_events ?r j)) + int (count_code COMPLETE (rl_cluster_events_out ?r))
      = int (\<Sum>j<CS. count_code COMPLETE (sc_barrier_events_out (ct_cu S k j))) + int (count_code COMPLETE (ct_events S k))"
      by (simp only: relay.simps of_nat_add [symmetric])
    then show ?thesis by (simp add: reported_def cu sum_subtractf)
  qed
  then have "(\<Sum>i<2. int (count_code COMPLETE (ct_events ?S i))) - (\<Sum>i<2. \<Sum>j<CS. reported (ct_cu ?S i j))
      = (\<Sum>i<2. int (count_code COMPLETE (ct_events S i))) - (\<Sum>i<2. \<Sum>j<CS. reported (ct_cu S i j))"
    by (intro two_sums [OF k]) (simp_all add: rest cu)
  moreover have "int (unat (ba_done_count (bc_barrier (ct_barrier S)))) + (\<Sum>i<2. int (count_code COMPLETE (ct_events S i)))
       \<le> (\<Sum>i<2. \<Sum>j<CS. reported (ct_cu S i j))" using inv by (simp only: cluster_inv_def)
  ultimately have "int (unat (ba_done_count (bc_barrier (ct_barrier S)))) + (\<Sum>i<2. int (count_code COMPLETE (ct_events ?S i)))
       \<le> (\<Sum>i<2. \<Sum>j<CS. reported (ct_cu ?S i j))" by linarith
  with inv kd0 seats show ?thesis by (simp add: cluster_inv_def rest)
qed

text \<open>The barrier core counts no more completions than the units have, and those are too few.\<close>

lemma poll_event_done:
  "c < N \<Longrightarrow> poll_event c (b, ev) = (b', ev') \<Longrightarrow>
     unat (ba_done_count b') + (\<Sum>i<N. count_code COMPLETE (ev' i)) \<le> unat (ba_done_count b) + (\<Sum>i<N. count_code COMPLETE (ev i))"
proof (cases "ev c")
  case (Cons code codes)
  assume c: "c < N" and poll: "poll_event c (b, ev) = (b', ev')"
  then have e: "b' = barrierOnEvent code b" "ev' = ev(c := codes)" using Cons by (simp_all add: poll_event_def)
  have "(\<Sum>i<N. count_code COMPLETE (ev' i)) = (\<Sum>i<N. ((\<lambda>i. count_code COMPLETE (ev i))(c := count_code COMPLETE codes)) i)"
    by (rule sum.cong) (simp_all add: e)
  with sum_upd [OF c, of "\<lambda>i. count_code COMPLETE (ev i)" "count_code COMPLETE codes"] Cons
  have "(\<Sum>i<N. count_code COMPLETE (ev' i)) + of_bool (COMPLETE = code) = (\<Sum>i<N. count_code COMPLETE (ev i))" by simp
  moreover have "unat (ba_done_count b') \<le> unat (ba_done_count b) + of_bool (COMPLETE = code)"
    by (simp add: e barrierOnEvent_def unat_word_ariths mod_less_eq_dividend)
  ultimately show ?thesis by linarith
qed (simp add: poll_event_def)

lemma poll_events_done:
  assumes "n \<le> N" "poll_events n (b, ev) = (b', ev')"
  shows "unat (ba_done_count b') + (\<Sum>i<N. count_code COMPLETE (ev' i)) \<le> unat (ba_done_count b) + (\<Sum>i<N. count_code COMPLETE (ev i))"
  using assms
proof (induction n arbitrary: b' ev')
  case (Suc n)
  obtain b1 ev1 where p: "poll_events n (b, ev) = (b1, ev1)" by (cases "poll_events n (b, ev)")
  with Suc.prems(2) have "poll_event n (b1, ev1) = (b', ev')" by (simp add: poll_events_Suc)
  from poll_event_done [OF _ this, of N] Suc.IH [OF _ p] Suc.prems(1) show ?case by simp
qed (simp add: poll_events_def)

lemma cluster_done_bound:
  assumes inv: "cluster_inv NCU CS 0 T S" and N: "13 \<le> NCU" "3 \<le> unat T"
  shows "(\<Sum>k<2. \<Sum>j<CS. reported (ct_cu S k j)) < int (unat T)"
proof -
  have seat: "seat_inv NCU CS 0 T S k j" if "k < 2" "j < CS" for k j using inv that by (simp add: cluster_inv_def)
  have r: "2 * reported (ct_cu S k j) \<le> (if j = 0 then int (unat T) - 1 else 0)" if "k < 2" "j < CS" for k j
  proof (cases "j = 0")
    case True
    have "count_state DONE (sc_slots (ct_cu S k j)) \<le> unit_warps NCU (unat T) (unat (cluster_cu_id CS k j))"
      using seat [OF that] by (auto simp: seat_inv_def worker_inv_def split: if_splits)
    with unit_warps_bound [OF N, of "unat (cluster_cu_id CS k j)"] have "2 * count_state DONE (sc_slots (ct_cu S k j)) < unat T"
      by linarith
    moreover have "2 * (int a - int b) \<le> int t - 1" if "2 * a < t" for a b t :: nat using that by presburger
    ultimately show ?thesis unfolding reported_def if_P [OF True] by blast
  next
    case False
    then show ?thesis using seat [OF that] by (simp add: seat_inv_def worker_inv_def has_pipeline_def reported_def)
  qed
  have "2 * (\<Sum>j<CS. reported (ct_cu S k j)) \<le> int (unat T) - 1" if "k < 2" for k
  proof -
    have "2 * (\<Sum>j<CS. reported (ct_cu S k j)) \<le> (\<Sum>j<CS. if j = 0 then int (unat T) - 1 else 0)"
      unfolding sum_distrib_left using r [OF that] by (intro sum_mono) simp
    also have "\<dots> \<le> int (unat T) - 1"
    proof -
      have "0 \<le> int (unat T) - 1" using N(2) by linarith
      then show ?thesis by (simp add: sum.delta del: of_nat_unat)
    qed
    finally show ?thesis .
  qed
  from this [of 0] this [of 1] show ?thesis by (simp add: numeral_2_eq_2)
qed

lemma cluster_inv_barrier:
  assumes inv: "cluster_inv NCU CS 0 T S" and N: "13 \<le> NCU" "3 \<le> unat T"
  shows "cluster_inv NCU CS 0 T (cluster_barrier NCU T S)"
proof (cases "bc_busy (ct_barrier S)")
  case False
  have "int (unat (ba_done_count (bc_barrier (ct_barrier S)))) + (\<Sum>k<2. int (count_code COMPLETE (ct_events S k)))
       \<le> (\<Sum>k<2. \<Sum>j<CS. reported (ct_cu S k j))" using inv by (simp only: cluster_inv_def)
  then have "(\<Sum>k<2. int (count_code COMPLETE (ct_events S k))) \<le> (\<Sum>k<2. \<Sum>j<CS. reported (ct_cu S k j))"
    by linarith
  then show ?thesis using inv False
    by (simp add: cluster_inv_def cluster_barrier_def barrierCore_n_def barrierLaunch_n_def Let_def seat_inv_def
        cluster_pending_def)
next
  case True
  obtain b ev where poll: "poll_events 2 (bc_barrier (ct_barrier S), ct_events S) = (b, ev)"
    by (cases "poll_events 2 (bc_barrier (ct_barrier S), ct_events S)")
  note cnt = poll_events_done [OF order_refl poll] and total = poll_events_total [of 2 "(bc_barrier (ct_barrier S), ct_events S)"]
  have "int (unat (ba_done_count b) + (\<Sum>k<2. count_code COMPLETE (ev k)))
      \<le> int (unat (ba_done_count (bc_barrier (ct_barrier S))) + (\<Sum>k<2. count_code COMPLETE (ct_events S k)))"
    using cnt by (simp only: of_nat_le_iff)
  also have "\<dots> \<le> (\<Sum>k<2. \<Sum>j<CS. reported (ct_cu S k j))" using inv by (simp add: cluster_inv_def)
  finally have le: "int (unat (ba_done_count b)) + (\<Sum>k<2. int (count_code COMPLETE (ev k)))
      \<le> (\<Sum>k<2. \<Sum>j<CS. reported (ct_cu S k j))" by simp
  have nonneg: "0 \<le> (\<Sum>k<2. int (count_code COMPLETE (ev k)))" by (simp add: sum_nonneg)
  have "unat (ba_done_count b) < unat T" using le nonneg cluster_done_bound [OF inv N] by linarith
  then have "\<not> barrierKernelComplete b" "\<not> barrierKernelComplete (barrierAcknowledgeRelease b)"
    using inv total poll by (auto simp: barrierKernelComplete_def barrierAcknowledgeRelease_def cluster_inv_def)
  then have S': "cluster_barrier NCU T S = S\<lparr> ct_barrier := (ct_barrier S)
      \<lparr> bc_barrier := (if barrierReleaseReady b then barrierAcknowledgeRelease b else b) \<rparr>, ct_events := ev,
      ct_signal := (if barrierReleaseReady b then broadcast 2 release_signal (ct_signal S) else ct_signal S) \<rparr>"
    using True poll by (simp add: cluster_barrier_def barrierCore_n_def)
  show ?thesis using inv le total poll unfolding S'
    by (simp add: cluster_inv_def seat_inv_def cluster_pending_def broadcast_def release_signal_def barrierAcknowledgeRelease_def)
qed

lemma cluster_inv_step:
  assumes "cluster_step NCU CS 0 T off S S'" "cluster_inv NCU CS 0 T S" "13 \<le> NCU" "NCU \<le> 16" "3 \<le> unat T"
  shows "cluster_inv NCU CS 0 T S'"
  using assms(1)
proof cases
  case C_Host
  then show ?thesis using assms(2) by (simp add: cluster_inv_def seat_inv_def cluster_pending_def)
next
  case (C_Sched k j)
  then show ?thesis using cluster_inv_sched [OF assms(2) _ _ assms(4)] by simp
next
  case (C_Pipe k j d ds st)
  then show ?thesis using cluster_inv_pipe [OF assms(2)] by simp
next
  case (C_Load k j)
  then show ?thesis using cluster_inv_load [OF assms(2)] by simp
next
  case (C_Relay k)
  then show ?thesis using cluster_inv_relay [OF assms(2)] by simp
next
  case C_Barrier
  then show ?thesis using cluster_inv_barrier [OF assms(2,3,5)] by simp
qed

lemma cluster_inv_reachable:
  assumes "(cluster_step NCU CS 0 T off)\<^sup>*\<^sup>* cluster_init S" "13 \<le> NCU" "NCU \<le> 16" "3 \<le> unat T"
  shows "cluster_inv NCU CS 0 T S"
  using assms(1)
proof induction
  case base
  show ?case by (rule cluster_inv_init)
next
  case (step S S')
  then show ?case using cluster_inv_step assms(2-4) by blast
qed

section \<open>Properties\<close>

text \<open>C22: the hierarchical build never finishes a kernel of three warps or more. As the preprocessor reads
  \<open>CLUSTER_SIZE\<close> as 0, only the first unit of each cluster has a pipeline: in every reachable state, whatever the order
  of the passes, no other unit has finished a warp, and the barrier core has not reported done.\<close>

theorem hierarchical_build_never_completes:
  assumes "(cluster_step NCU (NCU div 2) 0 T off)\<^sup>*\<^sup>* cluster_init S" "13 \<le> NCU" "NCU \<le> 16" "3 \<le> unat T"
    and "k < 2" "j < NCU div 2" "j \<noteq> 0"
  shows "\<not> bc_done (ct_barrier S) \<and> count_state DONE (sc_slots (ct_cu S k j)) = 0"
  using cluster_inv_reachable [OF assms(1-4)] assms(5-7)
  by (simp add: cluster_inv_def seat_inv_def worker_inv_def has_pipeline_def)

text \<open>The first unit of the second cluster gets its token and launches.\<close>

definition cluster_loaded :: cluster_device where
  "cluster_loaded = (set_cu 1 0 (sched_default\<lparr> sc_loaded_in := [True] \<rparr>) cluster_init)
     \<lparr> ct_unloaded := (ct_unloaded cluster_init)(1 := (ct_unloaded cluster_init 1)(0 := False)) \<rparr>"

theorem hierarchical_build_never_completes_witness:
  "(cluster_step 16 8 0 40 0)\<^sup>*\<^sup>* cluster_init
     (set_cu 1 0 (schedulerCore_n 16 (cluster_cu_id 8 1 0) 40 0 True (sched_default\<lparr> sc_loaded_in := [True] \<rparr>)) cluster_loaded) \<and>
   \<not> bc_done (ct_barrier
     (set_cu 1 0 (schedulerCore_n 16 (cluster_cu_id 8 1 0) 40 0 True (sched_default\<lparr> sc_loaded_in := [True] \<rparr>)) cluster_loaded))"
proof -
  have "cluster_step 16 8 0 40 0 cluster_init cluster_loaded"
    using C_Load [of 1 0 8 cluster_init 16 0 40 0]
    by (simp add: cluster_loaded_def cluster_init_def set_cu_def sched_default_def)
  moreover have "cluster_step 16 8 0 40 0 cluster_loaded
      (set_cu 1 0 (schedulerCore_n 16 (cluster_cu_id 8 1 0) 40 0 True (sched_default\<lparr> sc_loaded_in := [True] \<rparr>)) cluster_loaded)"
    using C_Sched [of 1 0 8 16 0 40 0 cluster_loaded] by (simp add: cluster_loaded_def cluster_init_def set_cu_def)
  ultimately have r: "(cluster_step 16 8 0 40 0)\<^sup>*\<^sup>* cluster_init
      (set_cu 1 0 (schedulerCore_n 16 (cluster_cu_id 8 1 0) 40 0 True (sched_default\<lparr> sc_loaded_in := [True] \<rparr>)) cluster_loaded)"
    by (meson rtranclp.rtrancl_into_rtrancl rtranclp.rtrancl_refl)
  from hierarchical_build_never_completes [of 16 40 0 _ 0 1] r show ?thesis by simp
qed

end
