(* ===== verification/Kernels.thy ===== *)
theory Kernels
  imports GoldenTop WarpParity
begin

text \<open>
  The kernels that the tests and benchmarks run: \<open>models/systemc/src/common/kernel_programs.h\<close>, as programs of the
  golden compute unit. In the golden unit no instruction jumps, so a warp runs through the list of its program;
  with that view the documented result of a kernel is a fact about each lane's row of registers. The floating-point kernels
  take the bits of their arguments (\<open>floatAsReg\<close> applied).
\<close>

section \<open>The programs\<close>

abbreviation halt_instr :: Instruction where
  "halt_instr \<equiv> makeInstr Op_HALT 0 0 0 0"

definition intSaxpy :: "u32 \<Rightarrow> u32 \<Rightarrow> Instruction list" where
  "intSaxpy alpha y = [
     makeInstr Op_ADDI 3 0 0 alpha,
     makeInstr Op_ADDI 4 1 0 1,
     makeInstr Op_ADDI 5 0 0 y,
     makeInstr Op_VMUL 6 4 3 0,
     makeInstr Op_VADD 6 6 5 0,
     halt_instr]"

definition fpUniformSaxpy :: "u32 \<Rightarrow> u32 \<Rightarrow> u32 \<Rightarrow> Instruction list" where
  "fpUniformSaxpy alpha x y = [
     makeInstr Op_ADDI 3 0 0 alpha,
     makeInstr Op_ADDI 4 0 0 x,
     makeInstr Op_ADDI 5 0 0 y,
     makeInstr Op_VFMUL 6 4 3 0,
     makeInstr Op_VFADD 6 6 5 0,
     halt_instr]"

definition memoryRoundTrip :: "Instruction list" where
  "memoryRoundTrip = [
     makeInstr Op_SW 0 2 1 0,
     makeInstr Op_LW 3 2 0 0,
     makeInstr Op_LW 4 2 0 0,
     halt_instr]"

definition divergentOddEven :: "Instruction list" where
  "divergentOddEven = [
     makeInstr Op_ADDI 3 0 0 1,
     makeInstr Op_AND 4 1 3 0,
     makeInstr Op_VBRANCH 0 4 0 2,
     makeInstr Op_ADDI 5 0 0 100,
     makeInstr Op_VJOIN 0 0 0 0,
     halt_instr]"

definition barrierRoundTrip :: "u32 \<Rightarrow> Instruction list" where
  "barrierRoundTrip barrier_id = [
     makeInstr Op_SW 0 2 1 0,
     makeInstr Op_BARRIER 0 0 0 barrier_id,
     makeInstr Op_LW 3 2 0 0,
     halt_instr]"

definition parallelReduction :: "Instruction list" where
  "parallelReduction = [
     makeInstr Op_ADDI 4 1 0 1,
     makeInstr Op_SW 0 2 4 0,
     makeInstr Op_BARRIER 0 0 0 0,
     makeInstr Op_ADDI 9 0 0 1,
     makeInstr Op_SLT 7 3 9 0,
     makeInstr Op_XOR 8 7 9 0,
     makeInstr Op_VBRANCH 0 7 0 2,
     makeInstr Op_LW 5 2 0 (- 128),
     makeInstr Op_VJOIN 0 0 0 0,
     makeInstr Op_VBRANCH 0 8 0 2,
     makeInstr Op_LW 5 2 0 128,
     makeInstr Op_VJOIN 0 0 0 0,
     makeInstr Op_VADD 6 4 5 0,
     makeInstr Op_SW 0 2 6 8,
     halt_instr]"

definition fpSaxpy :: "Instruction list" where
  "fpSaxpy = [makeInstr Op_VFMUL 6 4 3 0, makeInstr Op_VFADD 6 6 5 0, halt_instr]"

definition fpFmadd :: "Instruction list" where
  "fpFmadd = [makeInstr Op_VFFMADD 5 3 4 0, halt_instr]"

definition fpDivergentSaxpy :: "Instruction list" where
  "fpDivergentSaxpy = [
     makeInstr Op_ADDI 8 0 0 1,
     makeInstr Op_AND 7 0 8 0,
     makeInstr Op_VBRANCH 0 7 0 3,
     makeInstr Op_VFMUL 6 4 3 0,
     makeInstr Op_VFADD 6 6 5 0,
     makeInstr Op_VJOIN 0 0 0 0,
     halt_instr]"

definition fpGemm :: "Instruction list" where
  "fpGemm = [
     makeInstr Op_VFFMADD 7 3 8 0,
     makeInstr Op_VFFMADD 7 4 9 0,
     makeInstr Op_VFFMADD 7 5 10 0,
     makeInstr Op_VFFMADD 7 6 11 0,
     halt_instr]"

definition conv2d3x3 :: "Instruction list" where
  "conv2d3x3 = [
     makeInstr Op_VFMADD 21 3 12 0,
     makeInstr Op_VFMADD 21 4 13 0,
     makeInstr Op_VFMADD 21 5 14 0,
     makeInstr Op_VFMADD 21 6 15 0,
     makeInstr Op_VFMADD 21 7 16 0,
     makeInstr Op_VFMADD 21 8 17 0,
     makeInstr Op_VFMADD 21 9 18 0,
     makeInstr Op_VFMADD 21 10 19 0,
     makeInstr Op_VFMADD 21 11 20 0,
     halt_instr]"

lemmas kernel_defs = intSaxpy_def fpUniformSaxpy_def memoryRoundTrip_def divergentOddEven_def barrierRoundTrip_def
  parallelReduction_def fpSaxpy_def fpFmadd_def fpDivergentSaxpy_def fpGemm_def conv2d3x3_def

section \<open>A program as a list\<close>

fun run_list ::
  "fpu \<Rightarrow> u32 \<Rightarrow> Instruction list \<Rightarrow> u32 \<Rightarrow> RegisterFile \<times> ComputeUnit \<Rightarrow> (u32 option \<times> u32) \<times> RegisterFile \<times> ComputeUnit"
where
  "run_list fp w [] pc rc = ((None, pc), rc)"
| "run_list fp w (instr # rest) pc rc =
     (if i_opcode instr = Op_HALT then ((None, pc), apsnd count_instr rc)
      else if i_opcode instr = Op_BARRIER then
        ((Some (i_imm instr), pc + 1),
         apsnd (\<lambda>cu. count_instr (cu\<lparr> gc_simt := gThreadHitBarrier w (i_imm instr) (gc_simt cu) \<rparr>)) rc)
      else run_list fp w rest (pc + 1) (apsnd count_instr (gExecuteInstr fp w instr rc)))"

text \<open>No instruction jumps.\<close>

lemma warp_runs_list:
  assumes "length program < 2 ^ 32"
  shows "gWarpLoop fp w program pc rc = run_list fp w (drop (unat pc) program) pc rc"
  using assms
proof (induction fp w program pc rc rule: gWarpLoop.induct)
  case (1 fp w program pc rc)
  have len: "unat (of_nat (length program) :: u32) = length program"
    using 1(2) by (simp add: unat_of_nat)
  show ?case
  proof (cases "unat pc < length program")
    case True
    then have lt: "pc < of_nat (length program)" by (simp add: word_less_nat_alt len)
    have suc: "unat (pc + 1) = Suc (unat pc)" using True 1(2) by (simp add: unat_word_ariths)
    have d: "drop (unat pc) program = program ! unat pc # drop (Suc (unat pc)) program"
      using True by (simp add: Cons_nth_drop_Suc)
    show ?thesis
      unfolding d run_list.simps gWarpLoop.simps [of fp w program pc] Let_def
      using 1(1) [OF _ refl refl] lt suc 1(2) by simp
  next
    case False
    then have "\<not> pc < of_nat (length program)" by (simp add: word_less_nat_alt len)
    then show ?thesis using False by (simp add: gWarpLoop.simps [of fp w program pc])
  qed
qed

section \<open>Code that works in the lanes\<close>

definition lane_instr :: "Instruction \<Rightarrow> bool" where
  "lane_instr instr \<longleftrightarrow> i_opcode instr \<notin> {Op_HALT, Op_BARRIER, Op_VBRANCH, Op_VJOIN} \<and> \<not> i_is_memory instr"

definition lane_exec :: "fpu \<Rightarrow> Instruction \<Rightarrow> RegRow \<Rightarrow> RegRow" where
  "lane_exec fp instr row = (if i_is_vector instr then vector_lane fp instr row else alu_lane fp instr row)"

lemma lane_loop_comp:
  "lane_loop n p (\<lambda>_. f) (lane_loop n p (\<lambda>_. g) xs) = lane_loop n p (\<lambda>_ x. f (g x)) xs"
  by (rule nth_equalityI) (auto simp: lane_simps)

lemma count_instr_simt [simp]:
  "gc_simt (count_instr cu) = gc_simt cu" "gc_threads_per_warp (count_instr cu) = gc_threads_per_warp cu"
  "bu_ext_memory (gc_binary (count_instr cu)) = bu_ext_memory (gc_binary cu)"
  by (simp_all add: count_instr_def)

definition unit_loop ::
  "u32 \<Rightarrow> ComputeUnit \<Rightarrow> (RegRow \<Rightarrow> RegRow) \<Rightarrow> RegisterFile \<Rightarrow> RegisterFile" where
  "unit_loop w cu f regs = lane_loop (unat (gc_threads_per_warp cu)) (bit (gGetActiveMask (gc_simt cu) w)) (\<lambda>_. f) regs"

lemma unit_loop_count [simp]: "unit_loop w (count_instr cu) = unit_loop w cu"
  by (simp add: unit_loop_def fun_eq_iff)

declare run_list.simps(2) [simp del]

lemma run_lane:
  assumes "lane_instr instr"
  shows "run_list fp w (instr # rest) pc (regs, cu)
    = run_list fp w rest (pc + 1) (unit_loop w cu (lane_exec fp instr) regs, count_instr cu)"
proof -
  have "lane_exec fp instr = (if i_is_vector instr then vector_lane fp instr else alu_lane fp instr)"
    by (simp add: lane_exec_def fun_eq_iff)
  then show ?thesis using assms
    by (simp add: run_list.simps(2) lane_instr_def gExecuteInstr_def gExecuteVector_def gExecuteALU_def unit_loop_def Let_def)
qed

lemma run_lanes:
  assumes "list_all lane_instr code"
  shows "run_list fp w (code @ rest) pc (regs, cu)
    = run_list fp w rest (pc + of_nat (length code))
        (unit_loop w cu (fold (lane_exec fp) code) regs, (count_instr ^^ length code) cu)"
  using assms
proof (induction code arbitrary: pc regs cu)
  case Nil
  have "unit_loop w cu (\<lambda>row. row) regs = regs"
    by (rule nth_equalityI) (simp_all add: unit_loop_def lane_simps)
  then show ?case by (simp add: id_def)
next
  case (Cons i code)
  have "unit_loop w cu (fold (lane_exec fp) code) (unit_loop w cu (lane_exec fp i) regs)
    = unit_loop w cu (fold (lane_exec fp) (i # code)) regs"
    by (simp add: unit_loop_def lane_loop_comp comp_def)
  moreover have "(count_instr ^^ length (i # code)) cu = (count_instr ^^ length code) (count_instr cu)"
    by (simp add: funpow_swap1)
  ultimately show ?case using Cons.prems Cons.IH [of "pc + 1" _ "count_instr cu"]
    by (simp add: run_lane add.assoc comp_def)
qed

lemma run_halt:
  "run_list fp w (halt_instr # rest) pc rc = ((None, pc), apsnd count_instr rc)"
  by (simp add: run_list.simps(2) makeInstr_def)

section \<open>A run of a warp\<close>

text \<open>All 32 lanes, no divergence left over from an earlier run.\<close>

definition ready_unit :: "u32 \<Rightarrow> ComputeUnit \<Rightarrow> bool" where
  "ready_unit w cu \<longleftrightarrow> gc_threads_per_warp cu = 32 \<and> wf_simt (gc_simt cu) \<and> \<not> gHasPendingDivergence (gc_simt cu) w \<and> w \<noteq> - 1"

definition lanes_at :: "u32 \<Rightarrow> simt_abs \<Rightarrow> ComputeUnit \<Rightarrow> bool" where
  "lanes_at w a cu \<longleftrightarrow> gc_threads_per_warp cu = 32 \<and> simt_knows w (gc_simt cu) \<and> simt_abs_of w (gc_simt cu) = a"

abbreviation start_warp :: "u32 \<Rightarrow> ComputeUnit \<Rightarrow> ComputeUnit" where
  "start_warp w cu \<equiv> cu\<lparr> gc_simt := gInitializeWarp w 32 (gc_simt cu) \<rparr>"

lemma start_lanes: "ready_unit w cu \<Longrightarrow> lanes_at w (- 1, []) (start_warp w cu)"
  by (simp add: ready_unit_def lanes_at_def gInitializeWarp_fresh)

lemma lanes_mask: "lanes_at w a cu \<Longrightarrow> gGetActiveMask (gc_simt cu) w = fst a"
  by (auto simp: lanes_at_def gGetActiveMask_def simt_knows_def simt_abs_of_def)

lemma lanes_count [simp]: "lanes_at w a (count_instr cu) = lanes_at w a cu"
  by (simp add: lanes_at_def)

lemma lanes_counts [simp]: "lanes_at w a ((count_instr ^^ k) cu) = lanes_at w a cu"
  by (induction k) simp_all

lemma lanes_still_ready: "lanes_at w (m, []) cu \<Longrightarrow> w \<noteq> - 1 \<Longrightarrow> ready_unit w cu"
  by (auto simp: lanes_at_def ready_unit_def simt_knows_def simt_abs_of_def gHasPendingDivergence_def)

lemma init_unit_ready: "w \<noteq> - 1 \<Longrightarrow> ready_unit w (ComputeUnit_init 32 mw 0)"
  by (simp add: ready_unit_def ComputeUnit_init_def wf_simt_def SIMTController_default_def gHasPendingDivergence_def)

lemma unit_loop_lanes:
  "lanes_at w a cu \<Longrightarrow> unit_loop w cu f regs = lane_loop 32 (bit (fst a)) (\<lambda>_. f) regs"
  by (simp add: unit_loop_def lanes_mask) (simp add: lanes_at_def)

lemma executeWarp_list:
  assumes "ready_unit (wc_warp_id ctx) cu" "wf_regs (wc_regs ctx)" "length (wc_program ctx) < 2 ^ 32"
    and "run_list fp (wc_warp_id ctx) (drop (unat (wc_pc ctx)) (wc_program ctx)) (wc_pc ctx)
      (wc_regs ctx, start_warp (wc_warp_id ctx) cu) = ((bid, pc), regs, cu')"
  shows "executeWarp fp (ctx, cu) = (bid, ctx\<lparr> wc_pc := pc, wc_regs := regs,
    wc_state := (if bid = None then W_COMPLETE else W_STALLED) \<rparr>, cu')"
  using assms by (simp add: executeWarp_def ready_unit_def ctx_regs_wf warp_runs_list)

section \<open>Kernels without branches and memory\<close>

lemma straight_kernel:
  assumes "ready_unit (wc_warp_id ctx) cu" "wf_regs (wc_regs ctx)" "wc_pc ctx = 0"
    and "wc_program ctx = code @ [halt_instr]" "list_all lane_instr code" "length code < 1000"
  shows "executeWarp fp (ctx, cu) = (None, ctx\<lparr> wc_pc := of_nat (length code),
      wc_regs := map (fold (lane_exec fp) code) (wc_regs ctx), wc_state := W_COMPLETE \<rparr>,
    (count_instr ^^ Suc (length code)) (start_warp (wc_warp_id ctx) cu))"
proof -
  let ?w = "wc_warp_id ctx" and ?cu = "start_warp (wc_warp_id ctx) cu"
  have "length (wc_regs ctx) = 32" using assms(2) by (simp add: wf_regs_def)
  then have all: "unit_loop ?w ?cu f (wc_regs ctx) = map f (wc_regs ctx)" for f
    unfolding unit_loop_lanes [OF start_lanes [OF assms(1)]]
    by (intro nth_equalityI) (simp_all add: lane_simps)
  have "run_list fp ?w (drop (unat (wc_pc ctx)) (wc_program ctx)) (wc_pc ctx) (wc_regs ctx, ?cu)
    = ((None, of_nat (length code)), map (fold (lane_exec fp) code) (wc_regs ctx), (count_instr ^^ Suc (length code)) ?cu)"
    using assms(3-5) all by (simp add: run_lanes run_halt)
  from executeWarp_list [OF assms(1,2) _ this] assms(4,6) show ?thesis by simp
qed

text \<open>The lane code of a kernel and what it does to a row.\<close>

lemmas lane_defs = lane_instr_def lane_exec_def alu_lane_def vector_lane_def makeInstr_def Instruction_default_def op_class_defs

lemma saxpy_lane:
  assumes "length row = 32"
  shows "fold (lane_exec fp) (butlast (intSaxpy alpha y)) row ! 6 = (alpha + row ! 0) * (row ! 1 + 1) + (y + row ! 0)"
  using assms by (simp add: intSaxpy_def lane_defs Let_def) (simp add: ac_simps)

lemma convolution_lane:
  assumes "length row = 32"
  shows "fold (lane_exec fp) (butlast conv2d3x3) row ! 21 = (\<Sum>k<9. row ! (3 + k) * row ! (12 + k)) + row ! 21"
proof -
  have nine: "(\<Sum>k<9. f k) = f 0 + f 1 + f 2 + f 3 + f 4 + f 5 + f 6 + f 7 + f 8" for f :: "nat \<Rightarrow> u32"
    by (simp add: eval_nat_numeral add.assoc)
  show ?thesis unfolding nine
    using assms by (simp add: conv2d3x3_def lane_defs Let_def)
qed

lemma gemm_lane:
  assumes "length row = 32"
  shows "fold (lane_exec fp) (butlast fpGemm) row ! 7 = fp_mul_add fp (row ! 6) (row ! 11) (fp_mul_add fp (row ! 5) (row ! 10)
    (fp_mul_add fp (row ! 4) (row ! 9) (fp_mul_add fp (row ! 3) (row ! 8) (row ! 7))))"
  using assms by (simp add: fpGemm_def lane_defs Let_def)

lemma float_lanes:
  assumes "length row = 32"
  shows "fold (lane_exec fp) (butlast fpSaxpy) row ! 6 = fp_add fp (fp_mul fp (row ! 4) (row ! 3)) (row ! 5)"
    "fold (lane_exec fp) (butlast fpFmadd) row ! 5 = fp_mul_add fp (row ! 3) (row ! 4) (row ! 5)"
    "row ! 0 = 0 \<Longrightarrow> fold (lane_exec fp) (butlast (fpUniformSaxpy alpha x y)) row ! 6 = fp_add fp (fp_mul fp x alpha) y"
  using assms by (simp_all add: fpSaxpy_def fpFmadd_def fpUniformSaxpy_def lane_defs Let_def)

lemma straight_kernels:
  assumes "program \<in> {intSaxpy alpha y, conv2d3x3, fpGemm, fpSaxpy, fpFmadd, fpUniformSaxpy alpha' x' y'}"
  shows "program = butlast program @ [halt_instr]" "list_all lane_instr (butlast program)" "length program \<le> 10"
  using assms by (auto simp: kernel_defs lane_defs)

lemma total_instructions_counts [simp]:
  "bu_total_instructions (gc_binary ((count_instr ^^ k) cu)) = bu_total_instructions (gc_binary cu) + of_nat k"
  by (induction k) (simp_all add: count_instr_def)

section \<open>Branches\<close>

lemma run_branch:
  assumes "lanes_at w (m, st) cu" "i_opcode instr = Op_VBRANCH"
  obtains cu' where "run_list fp w (instr # rest) pc (regs, cu) = run_list fp w rest (pc + 1) (regs, cu')"
    "lanes_at w (let taken = mask_of 32 (\<lambda>t. bit m t \<and> regs ! t ! unat (i_rs1 instr) = 0);
        masked = mask_of 32 (\<lambda>t. bit m t \<and> regs ! t ! unat (i_rs1 instr) \<noteq> 0)
      in if masked \<noteq> 0 then (taken, masked # st) else (taken, st)) cu'"
    "gc_binary cu' = gc_binary (count_instr cu)"
proof
  let ?c = "gConditions 32 instr m regs" and ?cu = "count_instr (gExecuteBranch w instr m regs cu)"
  show "run_list fp w (instr # rest) pc (regs, cu) = run_list fp w rest (pc + 1) (regs, ?cu)"
    using assms(2) by (simp add: run_list.simps(2) gExecuteInstr_def Let_def lanes_mask [OF assms(1)])
  have tpw: "gc_threads_per_warp cu = 32" and known: "simt_knows w (gc_simt cu)"
    and abs: "simt_abs_of w (gc_simt cu) = (m, st)" using assms(1) by (simp_all add: lanes_at_def)
  have t: "branch_taken 32 m ?c = mask_of 32 (\<lambda>t. bit m t \<and> regs ! t ! unat (i_rs1 instr) = 0)"
    "branch_not_taken 32 m ?c = mask_of 32 (\<lambda>t. bit m t \<and> regs ! t ! unat (i_rs1 instr) \<noteq> 0)"
    by (rule bit_word_eqI; auto simp: branch_taken_def branch_not_taken_def gConditions_def)+
  show "lanes_at w (let taken = mask_of 32 (\<lambda>t. bit m t \<and> regs ! t ! unat (i_rs1 instr) = 0);
        masked = mask_of 32 (\<lambda>t. bit m t \<and> regs ! t ! unat (i_rs1 instr) \<noteq> 0)
      in if masked \<noteq> 0 then (taken, masked # st) else (taken, st)) ?cu"
    using gHandleBranch_abs [OF known, of ?c 0] gHandleBranch_knows [OF known, of ?c 0]
    by (simp add: lanes_at_def gExecuteBranch_def tpw abs spec_branch_def t Let_def)
  show "gc_binary ?cu = gc_binary (count_instr cu)" by (simp add: gExecuteBranch_def count_instr_def)
qed

lemma run_join:
  assumes "lanes_at w a cu" "i_opcode instr = Op_VJOIN"
  obtains cu' where "run_list fp w (instr # rest) pc (regs, cu) = run_list fp w rest (pc + 1) (regs, cu')"
    "lanes_at w (spec_join a) cu'" "gc_binary cu' = gc_binary (count_instr cu)"
proof
  let ?cu = "count_instr (gExecuteJoin w cu)"
  show "run_list fp w (instr # rest) pc (regs, cu) = run_list fp w rest (pc + 1) (regs, ?cu)"
    using assms(2) by (simp add: run_list.simps(2) gExecuteInstr_def Let_def)
  have known: "simt_knows w (gc_simt cu)" using assms(1) by (simp add: lanes_at_def)
  show "lanes_at w (spec_join a) ?cu"
    using assms(1) gHandleJoin_abs [OF known] gHandleJoin_knows [OF known] by (simp add: lanes_at_def gExecuteJoin_def)
  show "gc_binary ?cu = gc_binary (count_instr cu)" by (simp add: gExecuteJoin_def count_instr_def)
qed

section \<open>Loads and stores\<close>

text \<open>The unit's memory holds the words \<open>G\<close>, whatever its caches hold, beside shared memory of \<open>sz\<close> bytes.\<close>

definition has_memory :: "(u64 \<Rightarrow> u32) \<Rightarrow> u32 \<Rightarrow> ComputeUnit \<Rightarrow> bool" where
  "has_memory G sz cu \<longleftrightarrow> (\<exists>m. bu_ext_memory (gc_binary cu) = Some m \<and> coherent m \<and> global_word m = G \<and> gm_shared_size m = sz)"

definition in_shared :: "u32 \<Rightarrow> u64 \<Rightarrow> bool" where
  "in_shared sz a \<longleftrightarrow> gAlignAddress a \<ge> SHARED_MEM_BASE \<and> gAlignAddress a < SHARED_MEM_BASE + ucast sz"

definition store_words :: "(nat \<Rightarrow> bool) \<Rightarrow> (nat \<Rightarrow> u64) \<Rightarrow> (nat \<Rightarrow> u32) \<Rightarrow> nat \<Rightarrow> (u64 \<Rightarrow> u32) \<Rightarrow> u64 \<Rightarrow> u32" where
  "store_words p A v n G = fold (\<lambda>t G. if p t then G(A t := v t) else G) [0..<n] G"

lemma store_words_Suc: "store_words p A v (Suc n) G = (let G' = store_words p A v n G in if p n then G'(A n := v n) else G')"
  by (simp add: store_words_def Let_def)

lemma store_words_at:
  assumes "inj_on A {t. t < n \<and> p t}"
  shows "t < n \<Longrightarrow> p t \<Longrightarrow> store_words p A v n G (A t) = v t"
    "(\<And>t. t < n \<Longrightarrow> p t \<Longrightarrow> a \<noteq> A t) \<Longrightarrow> store_words p A v n G a = G a"
proof -
  show "store_words p A v n G (A t) = v t" if "t < n" "p t"
    using assms that
  proof (induction n)
    case (Suc n)
    show ?case
    proof (cases "t = n")
      case False
      have "A t \<noteq> A n" if "p n" using inj_onD [OF Suc.prems(1), of t n] Suc.prems(2,3) that False by auto
      moreover have "store_words p A v n G (A t) = v t"
        using Suc False by (auto intro!: Suc.IH elim: inj_on_subset)
      ultimately show ?thesis by (simp add: store_words_Suc Let_def)
    qed (use Suc.prems(3) in \<open>simp add: store_words_Suc Let_def\<close>)
  qed simp
  show "store_words p A v n G a = G a" if "\<And>t. t < n \<Longrightarrow> p t \<Longrightarrow> a \<noteq> A t"
    using that
  proof (induction n)
    case (Suc n)
    then have "store_words p A v n G a = G a" by simp
    then show ?case using Suc.prems [of n] by (simp add: store_words_Suc Let_def)
  qed (simp add: store_words_def)
qed

lemma put_memory_simps [simp]:
  "bu_total_instructions (gc_binary (put_mem m cu)) = bu_total_instructions (gc_binary cu)"
  "bu_ext_memory (gc_binary cu) = Some m \<Longrightarrow> put_mem m cu = cu"
  by (simp_all add: put_mem_def)

lemma mem_lanes_load:
  assumes "i_opcode instr = Op_LW" "bu_ext_memory (gc_binary cu) = Some m" "coherent m" "length regs = 32" "n \<le> 32"
    and "\<And>t. t < n \<Longrightarrow> bit msk t \<Longrightarrow> \<not> in_shared (gm_shared_size m) (golden_addr instr (regs ! t))"
  shows "\<exists>m'. fold (gMemLane instr msk) [0..<n] (regs, cu) = (lane_loop n (bit msk)
      (\<lambda>_ row. row[unat (i_rd instr) := global_word m (gAlignAddress (golden_addr instr row))]) regs, put_mem m' cu) \<and>
    coherent m' \<and> global_word m' = global_word m \<and> gm_shared_size m' = gm_shared_size m"
  using assms(5,6)
proof (induction n)
  case 0
  then show ?case using assms(2,3) by (intro exI [of _ m]) (simp add: lane_loop_def)
next
  case (Suc n)
  let ?row = "\<lambda>_ row. row[unat (i_rd instr) := global_word m (gAlignAddress (golden_addr instr row))]"
  obtain m' where m': "fold (gMemLane instr msk) [0..<n] (regs, cu) = (lane_loop n (bit msk) ?row regs, put_mem m' cu)"
    "coherent m'" "global_word m' = global_word m" "gm_shared_size m' = gm_shared_size m"
    using Suc by auto
  have nth: "lane_loop n (bit msk) ?row regs ! n = regs ! n" using Suc.prems(1) assms(4) by (simp add: lane_simps)
  show ?case
  proof (cases "bit msk n")
    case False
    then show ?thesis using m' by (intro exI [of _ m']) (simp add: gMemLane_def [of instr msk n] lane_loop_Suc Let_def)
  next
    case True
    let ?a = "golden_addr instr (regs ! n)" and ?d = "regs ! n ! unat (i_rd instr)"
    have "\<not> gIsSharedMemoryAddress m' (gAlignAddress ?a)"
      using Suc.prems(2) [of n] True m'(4) by (simp add: in_shared_def gIsSharedMemoryAddress_def)
    note ld = load_global [OF m'(2) this, of ?d 0]
    obtain r m'' where g: "gLoadWord ?a ?d 0 m' = (r, m'')" by (cases "gLoadWord ?a ?d 0 m'")
    have r: "fst (snd r) = global_word m (gAlignAddress ?a)" using ld g m'(3) by (cases r) auto
    have "coherent m''" "global_word m'' = global_word m" "gm_shared_size m'' = gm_shared_size m"
      using coherent_ops(1) [OF m'(2), of ?a ?d 0] global_word_load [of ?a ?d 0 m'] shared_ops(2) [of ?a ?d 0 m'] g m'(3,4)
      by (auto simp: fun_eq_iff)
    moreover have "fold (gMemLane instr msk) [0..<Suc n] (regs, cu) = (lane_loop (Suc n) (bit msk) ?row regs, put_mem m'' cu)"
      using m'(1) True assms(1) g r by (cases r) (simp add: gMemLane_def [of instr msk n] lane_loop_Suc Let_def nth)
    ultimately show ?thesis by blast
  qed
qed

lemma mem_lanes_store:
  assumes "i_opcode instr = Op_SW" "bu_ext_memory (gc_binary cu) = Some m" "coherent m"
    and "\<And>t. t < n \<Longrightarrow> bit msk t \<Longrightarrow> \<not> in_shared (gm_shared_size m) (golden_addr instr (regs ! t))"
  shows "\<exists>m'. fold (gMemLane instr msk) [0..<n] (regs, cu) = (regs, put_mem m' cu) \<and> coherent m' \<and>
    global_word m' = store_words (bit msk) (\<lambda>t. gAlignAddress (golden_addr instr (regs ! t)))
      (\<lambda>t. regs ! t ! unat (i_rs2 instr)) n (global_word m) \<and> gm_shared_size m' = gm_shared_size m"
  using assms(4)
proof (induction n)
  case 0
  then show ?case using assms(2,3) by (intro exI [of _ m]) (simp add: store_words_def)
next
  case (Suc n)
  let ?G = "\<lambda>n. store_words (bit msk) (\<lambda>t. gAlignAddress (golden_addr instr (regs ! t))) (\<lambda>t. regs ! t ! unat (i_rs2 instr)) n (global_word m)"
  obtain m' where m': "fold (gMemLane instr msk) [0..<n] (regs, cu) = (regs, put_mem m' cu)"
    "coherent m'" "global_word m' = ?G n" "gm_shared_size m' = gm_shared_size m"
    using Suc by auto
  show ?case
  proof (cases "bit msk n")
    case False
    then show ?thesis using m' by (intro exI [of _ m']) (simp add: gMemLane_def [of instr msk n] store_words_Suc Let_def)
  next
    case True
    let ?a = "golden_addr instr (regs ! n)" and ?v = "regs ! n ! unat (i_rs2 instr)"
    let ?m = "snd (gStoreWord ?a ?v 0 m')"
    have "\<not> gIsSharedMemoryAddress m' (gAlignAddress ?a)"
      using Suc.prems [of n] True m'(4) by (simp add: in_shared_def gIsSharedMemoryAddress_def)
    then have "global_word ?m = ?G (Suc n)"
      using m'(3) True by (simp add: store_words_Suc Let_def fun_eq_iff global_store)
    then show ?thesis
      using m' True assms(1) coherent_ops(2) [OF m'(2)] by (intro exI [of _ ?m]) (simp add: gMemLane_def [of instr msk n] Let_def)
  qed
qed

lemma has_memory_count [simp]: "has_memory G sz (count_instr cu) = has_memory G sz cu"
  by (simp add: has_memory_def)

lemma has_memory_binary: "gc_binary cu' = gc_binary cu \<Longrightarrow> has_memory G sz cu' = has_memory G sz cu"
  by (simp add: has_memory_def)

lemma run_memory:
  assumes "lanes_at w a cu" "i_opcode instr \<in> {Op_LW, Op_SW}" "i_is_memory instr"
  shows "run_list fp w (instr # rest) pc (regs, cu)
    = run_list fp w rest (pc + 1) (apsnd count_instr (fold (gMemLane instr (fst a)) [0..<32] (regs, cu)))"
proof -
  have "gc_threads_per_warp cu = 32" using assms(1) by (simp add: lanes_at_def)
  then show ?thesis
    using assms by (auto simp: run_list.simps(2) gExecuteInstr_def Let_def lanes_mask gExecuteMemOp_def)
qed

lemma run_load:
  assumes "lanes_at w a cu" "i_opcode instr = Op_LW" "i_is_memory instr" "has_memory G sz cu" "length regs = 32"
    and "\<And>t. t < 32 \<Longrightarrow> bit (fst a) t \<Longrightarrow> \<not> in_shared sz (golden_addr instr (regs ! t))"
  obtains cu' where "run_list fp w (instr # rest) pc (regs, cu) = run_list fp w rest (pc + 1)
      (lane_loop 32 (bit (fst a)) (\<lambda>_ row. row[unat (i_rd instr) := G (gAlignAddress (golden_addr instr row))]) regs, cu')"
    "lanes_at w a cu'" "has_memory G sz cu'"
    "bu_total_instructions (gc_binary cu') = bu_total_instructions (gc_binary cu) + 1"
proof -
  obtain m where m: "bu_ext_memory (gc_binary cu) = Some m" "coherent m" "global_word m = G" "gm_shared_size m = sz"
    using assms(4) by (auto simp: has_memory_def)
  obtain m' where m': "fold (gMemLane instr (fst a)) [0..<32] (regs, cu) = (lane_loop 32 (bit (fst a))
      (\<lambda>_ row. row[unat (i_rd instr) := global_word m (gAlignAddress (golden_addr instr row))]) regs, put_mem m' cu)"
    "coherent m'" "global_word m' = global_word m" "gm_shared_size m' = gm_shared_size m"
    using mem_lanes_load [OF assms(2) m(1,2) assms(5) order_refl, of "fst a"] assms(6) m(4) by auto
  have "bu_total_instructions (gc_binary (count_instr (put_mem m' cu))) = bu_total_instructions (gc_binary cu) + 1"
    by (simp add: count_instr_def)
  moreover have "lanes_at w a (count_instr (put_mem m' cu))" using assms(1) by (simp add: lanes_at_def)
  moreover have "has_memory G sz (count_instr (put_mem m' cu))" using m m' by (simp add: has_memory_def)
  ultimately show thesis using that [of "count_instr (put_mem m' cu)"] run_memory [OF assms(1) _ assms(3)] assms(2) m m' by simp
qed

lemma run_store:
  assumes "lanes_at w a cu" "i_opcode instr = Op_SW" "i_is_memory instr" "has_memory G sz cu"
    and "\<And>t. t < 32 \<Longrightarrow> bit (fst a) t \<Longrightarrow> \<not> in_shared sz (golden_addr instr (regs ! t))"
  obtains cu' where "run_list fp w (instr # rest) pc (regs, cu) = run_list fp w rest (pc + 1) (regs, cu')"
    "lanes_at w a cu'"
    "has_memory (store_words (bit (fst a)) (\<lambda>t. gAlignAddress (golden_addr instr (regs ! t)))
       (\<lambda>t. regs ! t ! unat (i_rs2 instr)) 32 G) sz cu'"
    "bu_total_instructions (gc_binary cu') = bu_total_instructions (gc_binary cu) + 1"
proof -
  obtain m where m: "bu_ext_memory (gc_binary cu) = Some m" "coherent m" "global_word m = G" "gm_shared_size m = sz"
    using assms(4) by (auto simp: has_memory_def)
  obtain m' where m': "fold (gMemLane instr (fst a)) [0..<32] (regs, cu) = (regs, put_mem m' cu)" "coherent m'"
    "global_word m' = store_words (bit (fst a)) (\<lambda>t. gAlignAddress (golden_addr instr (regs ! t)))
       (\<lambda>t. regs ! t ! unat (i_rs2 instr)) 32 (global_word m)" "gm_shared_size m' = gm_shared_size m"
    using mem_lanes_store [OF assms(2) m(1,2), of 32 "fst a" regs] assms(5) m(4) by auto
  have "bu_total_instructions (gc_binary (count_instr (put_mem m' cu))) = bu_total_instructions (gc_binary cu) + 1"
    by (simp add: count_instr_def)
  moreover have "lanes_at w a (count_instr (put_mem m' cu))" using assms(1) by (simp add: lanes_at_def)
  moreover have "has_memory (store_words (bit (fst a)) (\<lambda>t. gAlignAddress (golden_addr instr (regs ! t)))
       (\<lambda>t. regs ! t ! unat (i_rs2 instr)) 32 G) sz (count_instr (put_mem m' cu))" using m m' by (simp add: has_memory_def)
  ultimately show thesis using that [of "count_instr (put_mem m' cu)"] run_memory [OF assms(1) _ assms(3)] assms(2) m m' by simp
qed

lemma run_barrier:
  assumes "lanes_at w a cu" "i_opcode instr = Op_BARRIER"
  obtains cu' where "run_list fp w (instr # rest) pc (regs, cu) = ((Some (i_imm instr), pc + 1), regs, cu')"
    "lanes_at w a cu'" "gc_binary cu' = gc_binary (count_instr cu)"
proof
  let ?cu = "count_instr (cu\<lparr> gc_simt := gThreadHitBarrier w (i_imm instr) (gc_simt cu) \<rparr>)"
  show "run_list fp w (instr # rest) pc (regs, cu) = ((Some (i_imm instr), pc + 1), regs, ?cu)"
    using assms(2) by (simp add: run_list.simps(2))
  show "lanes_at w a ?cu"
    using assms(1) by (simp add: lanes_at_def gThreadHitBarrier_def Let_def simt_knows_def wf_simt_def simt_abs_of_def)
  show "gc_binary ?cu = gc_binary (count_instr cu)" by (simp add: count_instr_def)
qed

section \<open>All lanes at once\<close>

lemma unit_loop_all: "lanes_at w (- 1, st) cu \<Longrightarrow> length regs = 32 \<Longrightarrow> unit_loop w cu f regs = map f regs"
  by (intro nth_equalityI) (simp_all add: unit_loop_lanes lane_simps)

lemma lane_loop_all: "length regs = 32 \<Longrightarrow> lane_loop 32 (bit (- 1 :: u32)) (\<lambda>_. f) regs = map f regs"
  by (intro nth_equalityI) (simp_all add: lane_simps)

lemma mask_all: "(\<And>t. t < 32 \<Longrightarrow> P t) \<Longrightarrow> (mask_of 32 P :: u32) = - 1"
  by (rule bit_word_eqI) auto

lemma mask_none: "(\<And>t. t < 32 \<Longrightarrow> \<not> P t) \<Longrightarrow> (mask_of 32 P :: u32) = 0"
  by (simp add: mask_of_eq_0_iff)

lemma makeInstr_fields [simp]:
  "i_opcode (makeInstr opc rd rs1 rs2 im) = opc" "i_rd (makeInstr opc rd rs1 rs2 im) = rd"
  "i_rs1 (makeInstr opc rd rs1 rs2 im) = rs1" "i_rs2 (makeInstr opc rd rs1 rs2 im) = rs2"
  "i_imm (makeInstr opc rd rs1 rs2 im) = im" "i_is_memory (makeInstr opc rd rs1 rs2 im) = isMemoryOp opc"
  "i_is_vector (makeInstr opc rd rs1 rs2 im) = isVectorOp opc"
  by (simp_all add: makeInstr_def)

text \<open>A load between \<open>VBRANCH\<close> and \<open>VJOIN\<close> that all lanes skip, or that all lanes execute.\<close>

lemma run_skipped_load:
  assumes "lanes_at w (- 1, []) cu" "has_memory G sz cu" "length regs = 32" "\<And>t. t < 32 \<Longrightarrow> regs ! t ! unat rs \<noteq> 0"
  obtains cu' where "run_list fp w (makeInstr Op_VBRANCH 0 rs 0 2 # makeInstr Op_LW rd rb 0 im # makeInstr Op_VJOIN 0 0 0 0 # rest)
      pc (regs, cu) = run_list fp w rest (pc + 3) (regs, cu')"
    "lanes_at w (- 1, []) cu'" "has_memory G sz cu'"
    "bu_total_instructions (gc_binary cu') = bu_total_instructions (gc_binary cu) + 3"
proof -
  let ?b = "makeInstr Op_VBRANCH 0 rs 0 2" and ?l = "makeInstr Op_LW rd rb 0 im" and ?j = "makeInstr Op_VJOIN 0 0 0 0"
  obtain cu1 where cu1: "run_list fp w (?b # ?l # ?j # rest) pc (regs, cu) = run_list fp w (?l # ?j # rest) (pc + 1) (regs, cu1)"
    "lanes_at w (0, [- 1]) cu1" "gc_binary cu1 = gc_binary (count_instr cu)"
    by (rule run_branch [OF assms(1), of ?b fp "?l # ?j # rest" pc regs]) (use assms(4) in \<open>simp_all add: Let_def mask_all mask_none\<close>)
  have mem: "has_memory G sz cu1" using assms(2) cu1(3) by (simp add: has_memory_def)
  obtain cu2 where cu2: "run_list fp w (?l # ?j # rest) (pc + 1) (regs, cu1) = run_list fp w (?j # rest) (pc + 1 + 1) (regs, cu2)"
    "lanes_at w (0, [- 1]) cu2" "has_memory G sz cu2"
    "bu_total_instructions (gc_binary cu2) = bu_total_instructions (gc_binary cu1) + 1"
    by (rule run_load [OF cu1(2), of ?l G sz regs fp "?j # rest" "pc + 1"]) (use mem assms(3) in \<open>simp_all add: lane_loop_id\<close>)
  obtain cu3 where cu3: "run_list fp w (?j # rest) (pc + 1 + 1) (regs, cu2) = run_list fp w rest (pc + 1 + 1 + 1) (regs, cu3)"
    "lanes_at w (- 1, []) cu3" "gc_binary cu3 = gc_binary (count_instr cu2)"
    by (rule run_join [OF cu2(2), of ?j fp rest "pc + 1 + 1" regs]) (simp_all add: spec_join_def)
  have "has_memory G sz cu3" using cu2(3) cu3(3) by (simp add: has_memory_def)
  moreover have "bu_total_instructions (gc_binary cu3) = bu_total_instructions (gc_binary cu) + 3"
    using cu1(3) cu2(4) cu3(3) by (simp add: count_instr_def)
  ultimately show thesis using that [of cu3] cu1(1) cu2(1) cu3(1,2) by (simp add: add.assoc)
qed

lemma run_taken_load:
  assumes "lanes_at w (- 1, []) cu" "has_memory G sz cu" "length regs = 32" "\<And>t. t < 32 \<Longrightarrow> regs ! t ! unat rs = 0"
    and "\<And>t. t < 32 \<Longrightarrow> \<not> in_shared sz (golden_addr (makeInstr Op_LW rd rb 0 im) (regs ! t))"
  obtains cu' where "run_list fp w (makeInstr Op_VBRANCH 0 rs 0 2 # makeInstr Op_LW rd rb 0 im # makeInstr Op_VJOIN 0 0 0 0 # rest)
      pc (regs, cu) = run_list fp w rest (pc + 3)
      (map (\<lambda>row. row[unat rd := G (gAlignAddress (golden_addr (makeInstr Op_LW rd rb 0 im) row))]) regs, cu')"
    "lanes_at w (- 1, []) cu'" "has_memory G sz cu'"
    "bu_total_instructions (gc_binary cu') = bu_total_instructions (gc_binary cu) + 3"
proof -
  let ?b = "makeInstr Op_VBRANCH 0 rs 0 2" and ?l = "makeInstr Op_LW rd rb 0 im" and ?j = "makeInstr Op_VJOIN 0 0 0 0"
  let ?regs = "map (\<lambda>row. row[unat rd := G (gAlignAddress (golden_addr ?l row))]) regs"
  obtain cu1 where cu1: "run_list fp w (?b # ?l # ?j # rest) pc (regs, cu) = run_list fp w (?l # ?j # rest) (pc + 1) (regs, cu1)"
    "lanes_at w (- 1, []) cu1" "gc_binary cu1 = gc_binary (count_instr cu)"
    by (rule run_branch [OF assms(1), of ?b fp "?l # ?j # rest" pc regs]) (use assms(4) in \<open>simp_all add: Let_def mask_all mask_none\<close>)
  have mem: "has_memory G sz cu1" using assms(2) cu1(3) by (simp add: has_memory_def)
  obtain cu2 where cu2: "run_list fp w (?l # ?j # rest) (pc + 1) (regs, cu1) = run_list fp w (?j # rest) (pc + 1 + 1) (?regs, cu2)"
    "lanes_at w (- 1, []) cu2" "has_memory G sz cu2"
    "bu_total_instructions (gc_binary cu2) = bu_total_instructions (gc_binary cu1) + 1"
    by (rule run_load [OF cu1(2), of ?l G sz regs fp "?j # rest" "pc + 1"]) (use mem assms(3,5) in \<open>simp_all add: lane_loop_all\<close>)
  obtain cu3 where cu3: "run_list fp w (?j # rest) (pc + 1 + 1) (?regs, cu2) = run_list fp w rest (pc + 1 + 1 + 1) (?regs, cu3)"
    "lanes_at w (- 1, []) cu3" "gc_binary cu3 = gc_binary (count_instr cu2)"
    by (rule run_join [OF cu2(2), of ?j fp rest "pc + 1 + 1" ?regs]) (simp_all add: spec_join_def)
  have "has_memory G sz cu3" using cu2(3) cu3(3) by (simp add: has_memory_def)
  moreover have "bu_total_instructions (gc_binary cu3) = bu_total_instructions (gc_binary cu) + 3"
    using cu1(3) cu2(4) cu3(3) by (simp add: count_instr_def)
  ultimately show thesis using that [of cu3] cu1(1) cu2(1) cu3(1,2) by (simp add: add.assoc)
qed

section \<open>The words of the threads\<close>

text \<open>The word that \<open>buildWarpContext\<close> gives the thread with the global number \<open>k\<close>.\<close>

definition slot_of :: "nat \<Rightarrow> u64" where
  "slot_of k = of_nat (0x10000 + 4 * k)"

lemma slot_unat: "k < 1000 \<Longrightarrow> unat (slot_of k) = 0x10000 + 4 * k"
  unfolding slot_of_def by (simp only: unat_of_nat) simp

lemma slot_aligned: "gAlignAddress (slot_of k) = slot_of k"
proof -
  have "slot_of k = push_bit 2 (of_nat (0x4000 + k))"
    by (simp add: slot_of_def push_bit_eq_mult algebra_simps)
  then show ?thesis by (intro bit_word_eqI) (auto simp: bit_gAlign bit_simps)
qed

lemma slot_inj: "j < 1000 \<Longrightarrow> k < 1000 \<Longrightarrow> slot_of j = slot_of k \<longleftrightarrow> j = k"
proof
  assume "j < 1000" "k < 1000" "slot_of j = slot_of k"
  then have "0x10000 + 4 * j = 0x10000 + 4 * k" using slot_unat by metis
  then show "j = k" by simp
qed simp

lemma slot_global: "k < 1000 \<Longrightarrow> \<not> in_shared sz (slot_of k)"
  using slot_unat [of k] by (simp add: in_shared_def slot_aligned SHARED_MEM_BASE_def word_le_nat_alt)

lemma slot_address:
  assumes "row ! 2 = 0x10000 + of_nat k * 4" "k < 900"
  shows "golden_addr (makeInstr opc rd 2 rs2 0) row = slot_of k"
    "golden_addr (makeInstr opc rd 2 rs2 8) row = slot_of (k + 2)"
    "golden_addr (makeInstr opc rd 2 rs2 128) row = slot_of (k + 32)"
    "32 \<le> k \<Longrightarrow> golden_addr (makeInstr opc rd 2 rs2 (- 128)) row = slot_of (k - 32)"
proof -
  have "row ! 2 = of_nat (0x10000 + 4 * k)" using assms(1) by simp
  moreover have "take_bit LENGTH(32) (0x10000 + 4 * k) = 0x10000 + 4 * k"
    using assms(2) by (intro take_bit_nat_eq_self) simp
  ultimately have "ucast (row ! 2) = (of_nat (0x10000 + 4 * k) :: u64)" by (simp only: unsigned_of_nat)
  moreover have g: "golden_addr (makeInstr opc rd 2 rs2 im) row = ucast (row ! 2) + scast im" for im
    by (simp add: golden_addr_def)
  moreover have "scast (- 128 :: u32) = (- 128 :: u64)" "scast (128 :: u32) = (128 :: u64)" "scast (8 :: u32) = (8 :: u64)" by simp_all
  ultimately show "golden_addr (makeInstr opc rd 2 rs2 0) row = slot_of k"
    "golden_addr (makeInstr opc rd 2 rs2 8) row = slot_of (k + 2)"
    "golden_addr (makeInstr opc rd 2 rs2 128) row = slot_of (k + 32)"
    "32 \<le> k \<Longrightarrow> golden_addr (makeInstr opc rd 2 rs2 (- 128)) row = slot_of (k - 32)"
    by (simp_all add: g slot_of_def algebra_simps of_nat_diff)
qed

lemma store_words_cong:
  assumes "\<And>t. t < n \<Longrightarrow> p t = p' t" "\<And>t. t < n \<Longrightarrow> p t \<Longrightarrow> A t = A' t" "\<And>t. t < n \<Longrightarrow> p t \<Longrightarrow> v t = v' t"
  shows "store_words p A v n G = store_words p' A' v' n G"
  unfolding store_words_def using assms by (intro fold_cong) (auto simp: fun_eq_iff)

text \<open>Thirty-two threads in a row store a word each.\<close>

lemma store_slots:
  assumes "\<And>t. t < 32 \<Longrightarrow> A t = slot_of (base + t)" "base < 900" "k < 900"
  shows "store_words (bit (- 1 :: u32)) A v 32 G (slot_of k)
    = (if base \<le> k \<and> k < base + 32 then v (k - base) else G (slot_of k))"
proof -
  have inj: "inj_on A {t. t < 32 \<and> bit (- 1 :: u32) t}"
    using assms(1,2) by (auto intro!: inj_onI simp: slot_inj)
  show ?thesis
  proof (cases "base \<le> k \<and> k < base + 32")
    case True
    then have k: "k - base < 32" "bit (- 1 :: u32) (k - base)" "A (k - base) = slot_of k" using assms(1) [of "k - base"] by auto
    have "store_words (bit (- 1 :: u32)) A v 32 G (A (k - base)) = v (k - base)" by (rule store_words_at(1) [OF inj k(1,2)])
    then show ?thesis using True k(3) by simp
  next
    case False
    have "slot_of k \<noteq> A t" if "t < 32" for t using that assms False by (auto simp: slot_inj)
    then have "store_words (bit (- 1 :: u32)) A v 32 G (slot_of k) = G (slot_of k)" by (intro store_words_at(2) [OF inj]) simp
    then show ?thesis using False by auto
  qed
qed

text \<open>The rows of a warp whose threads are \<open>base\<close>, ..., \<open>base + 31\<close>, as \<open>buildWarpContext\<close> makes them.\<close>

definition thread_rows :: "nat \<Rightarrow> u32 \<Rightarrow> RegisterFile \<Rightarrow> bool" where
  "thread_rows base lw regs \<longleftrightarrow> wf_regs regs \<and> (\<forall>t<32. regs ! t ! 0 = 0 \<and> regs ! t ! 1 = of_nat (base + t) \<and>
     regs ! t ! 2 = 0x10000 + of_nat (base + t) * 4 \<and> regs ! t ! 3 = lw)"

lemma wf_regs_rows: "wf_regs regs \<longleftrightarrow> length regs = 32 \<and> (\<forall>t<32. length (regs ! t) = 32)"
  by (auto simp: wf_regs_def list_all_length)

section \<open>The memory kernel\<close>

lemma own_word_loads:
  assumes "length regs = 32" "\<And>i. i < 32 \<Longrightarrow> golden_addr (makeInstr Op_LW rd 2 0 0) (regs ! i) = slot_of (base + i)"
    and "\<And>i. i < 32 \<Longrightarrow> regs ! i ! 1 = of_nat (base + i)" "\<And>i. i < 32 \<Longrightarrow> H (slot_of (base + i)) = of_nat (base + i)"
  shows "lane_loop 32 (bit (- 1 :: u32)) (\<lambda>_ row. row[unat rd := H (gAlignAddress (golden_addr (makeInstr Op_LW rd 2 0 0) row))]) regs
    = map (\<lambda>row. row[unat rd := row ! 1]) regs"
proof (rule nth_equalityI)
  fix i assume "i < length (lane_loop 32 (bit (- 1 :: u32))
    (\<lambda>_ row. row[unat rd := H (gAlignAddress (golden_addr (makeInstr Op_LW rd 2 0 0) row))]) regs)"
  then have i: "i < 32" using assms(1) by simp
  have "H (gAlignAddress (golden_addr (makeInstr Op_LW rd 2 0 0) (regs ! i))) = regs ! i ! 1"
    by (simp only: assms(2-4) [OF i] slot_aligned)
  then show "lane_loop 32 (bit (- 1 :: u32)) (\<lambda>_ row. row[unat rd := H (gAlignAddress (golden_addr (makeInstr Op_LW rd 2 0 0) row))]) regs ! i
    = map (\<lambda>row. row[unat rd := row ! 1]) regs ! i" using i assms(1) by (simp add: lane_loop_nth)
qed (use assms(1) in simp)

text \<open>Store and load of the word of the thread: an \<open>L1\<close> that is cold or warm makes no difference to the value.\<close>

lemma memory_kernel:
  assumes "ready_unit (wc_warp_id ctx) cu" "has_memory G sz cu" "thread_rows base lw (wc_regs ctx)" "base \<le> 512"
    and "wc_pc ctx = 0" "wc_program ctx = memoryRoundTrip"
  obtains cu' where "executeWarp fp (ctx, cu) = (None, ctx\<lparr> wc_pc := 3,
      wc_regs := map (\<lambda>row. row[3 := row ! 1, 4 := row ! 1]) (wc_regs ctx), wc_state := W_COMPLETE \<rparr>, cu')"
    "has_memory (store_words (bit (- 1 :: u32)) (\<lambda>i. slot_of (base + i)) (\<lambda>i. of_nat (base + i)) 32 G) sz cu'"
    "bu_total_instructions (gc_binary cu') = bu_total_instructions (gc_binary cu) + 4"
proof -
  let ?w = "wc_warp_id ctx" and ?cu = "start_warp (wc_warp_id ctx) cu" and ?regs = "wc_regs ctx"
  let ?sw = "makeInstr Op_SW 0 2 1 0" and ?l = "\<lambda>rd. makeInstr Op_LW rd 2 0 0"
  let ?G = "store_words (bit (- 1 :: u32)) (\<lambda>i. slot_of (base + i)) (\<lambda>i. of_nat (base + i)) 32 G"
  let ?r3 = "map (\<lambda>row. row[3 := row ! 1]) ?regs" and ?r4 = "map (\<lambda>row. row[3 := row ! 1, 4 := row ! 1]) ?regs"
  have wf: "wf_regs ?regs" "length ?regs = 32" "\<And>i. i < 32 \<Longrightarrow> length (?regs ! i) = 32"
    using assms(3) by (simp_all add: thread_rows_def wf_regs_rows)
  have row: "?regs ! i ! 1 = of_nat (base + i)" "?regs ! i ! 2 = 0x10000 + of_nat (base + i) * 4" if "i < 32" for i
    using assms(3) that by (simp_all add: thread_rows_def)
  have at: "golden_addr (makeInstr opc rd 2 rs 0) (?regs ! i) = slot_of (base + i)"
    "golden_addr (makeInstr opc rd 2 rs 0) (?r3 ! i) = slot_of (base + i)" if "i < 32" for i opc rd rs
    using that assms(4) row [OF that] wf by (auto intro!: slot_address(1))
  have word: "?G (slot_of (base + i)) = of_nat (base + i)" if "i < 32" for i
    using that assms(4) store_slots [of "\<lambda>i. slot_of (base + i)" base "base + i"] by simp
  note loads = own_word_loads [where H = ?G and base = base, OF _ _ _ word]
  have mem: "has_memory G sz ?cu" using assms(2) by (simp add: has_memory_def)
  obtain cu1 where 1: "run_list fp ?w (?sw # [?l 3, ?l 4, halt_instr]) 0 (?regs, ?cu) = run_list fp ?w [?l 3, ?l 4, halt_instr] (0 + 1) (?regs, cu1)"
    "lanes_at ?w (- 1, []) cu1" "has_memory (store_words (bit (fst (- 1 :: u32, [] :: u32 list)))
       (\<lambda>t. gAlignAddress (golden_addr ?sw (?regs ! t))) (\<lambda>t. ?regs ! t ! unat (i_rs2 ?sw)) 32 G) sz cu1"
    "bu_total_instructions (gc_binary cu1) = bu_total_instructions (gc_binary ?cu) + 1"
    by (rule run_store [OF start_lanes [OF assms(1)], of ?sw G sz ?regs fp "[?l 3, ?l 4, halt_instr]" 0])
      (use mem assms(4) in \<open>simp_all add: at slot_global\<close>)
  have "store_words (bit (fst (- 1 :: u32, [] :: u32 list))) (\<lambda>t. gAlignAddress (golden_addr ?sw (?regs ! t)))
      (\<lambda>t. ?regs ! t ! unat (i_rs2 ?sw)) 32 G = ?G"
    by (rule store_words_cong) (use row in \<open>simp_all add: at slot_aligned\<close>)
  with 1(3) have m1: "has_memory ?G sz cu1" by simp
  obtain cu2 where 2: "run_list fp ?w (?l 3 # [?l 4, halt_instr]) 1 (?regs, cu1) = run_list fp ?w [?l 4, halt_instr] (1 + 1)
      (lane_loop 32 (bit (fst (- 1 :: u32, [] :: u32 list))) (\<lambda>_ row. row[unat (i_rd (?l 3)) := ?G (gAlignAddress (golden_addr (?l 3) row))]) ?regs, cu2)"
    "lanes_at ?w (- 1, []) cu2" "has_memory ?G sz cu2" "bu_total_instructions (gc_binary cu2) = bu_total_instructions (gc_binary cu1) + 1"
    by (rule run_load [OF 1(2) _ _ m1 wf(2), of "?l 3" fp "[?l 4, halt_instr]" 1]) (use assms(4) in \<open>simp_all add: at slot_global\<close>)
  have regs3: "lane_loop 32 (bit (fst (- 1 :: u32, [] :: u32 list))) (\<lambda>_ row. row[unat (i_rd (?l 3)) := ?G (gAlignAddress (golden_addr (?l 3) row))]) ?regs = ?r3"
    using loads [of ?regs "3 :: u8"] wf(2) at(1) row(1) by simp
  obtain cu3 where 3: "run_list fp ?w (?l 4 # [halt_instr]) 2 (?r3, cu2) = run_list fp ?w [halt_instr] (2 + 1)
      (lane_loop 32 (bit (fst (- 1 :: u32, [] :: u32 list))) (\<lambda>_ row. row[unat (i_rd (?l 4)) := ?G (gAlignAddress (golden_addr (?l 4) row))]) ?r3, cu3)"
    "lanes_at ?w (- 1, []) cu3" "has_memory ?G sz cu3" "bu_total_instructions (gc_binary cu3) = bu_total_instructions (gc_binary cu2) + 1"
    by (rule run_load [OF 2(2) _ _ 2(3), of "?l 4" ?r3 fp "[halt_instr]" 2]) (use wf(2) assms(4) in \<open>simp_all add: at(2) [unfolded One_nat_def] slot_global del: nth_map\<close>)
  have regs4: "lane_loop 32 (bit (fst (- 1 :: u32, [] :: u32 list))) (\<lambda>_ row. row[unat (i_rd (?l 4)) := ?G (gAlignAddress (golden_addr (?l 4) row))]) ?r3 = ?r4"
    using loads [of ?r3 "4 :: u8"] wf at(2) row(1) by simp
  have "run_list fp ?w (drop (unat (wc_pc ctx)) (wc_program ctx)) (wc_pc ctx) (?regs, ?cu) = ((None, 3), ?r4, count_instr cu3)"
    using 1(1) 2(1) 3(1) unfolding regs3 regs4 assms(5,6) by (simp add: memoryRoundTrip_def run_halt)
  note x = executeWarp_list [OF assms(1) wf(1) _ this]
  show thesis
    by (rule that [of "count_instr cu3"])
      (use x 1(4) 2(4) 3(3,4) assms(6) in \<open>simp_all add: memoryRoundTrip_def count_instr_def has_memory_def\<close>)
qed

section \<open>Kernels that diverge\<close>

text \<open>A region of lane code: the lanes whose register is 0 execute it.\<close>

lemma run_region:
  assumes "lanes_at w (m, []) cu" "list_all lane_instr code"
  obtains cu' where "run_list fp w (makeInstr Op_VBRANCH 0 rs 0 im # code @ makeInstr Op_VJOIN 0 0 0 0 # rest) pc (regs, cu)
      = run_list fp w rest (pc + 2 + of_nat (length code))
          (lane_loop 32 (\<lambda>t. bit m t \<and> regs ! t ! unat rs = 0) (\<lambda>_. fold (lane_exec fp) code) regs, cu')"
    "lanes_at w (m, []) cu'" "gc_binary cu' = gc_binary ((count_instr ^^ (length code + 2)) cu)"
proof -
  let ?b = "makeInstr Op_VBRANCH 0 rs 0 im" and ?j = "makeInstr Op_VJOIN 0 0 0 0"
  let ?taken = "mask_of 32 (\<lambda>t. bit m t \<and> regs ! t ! unat rs = 0) :: u32"
    and ?masked = "mask_of 32 (\<lambda>t. bit m t \<and> regs ! t ! unat rs \<noteq> 0) :: u32"
  let ?a = "if ?masked \<noteq> 0 then (?taken, [?masked]) else (?taken, [])"
  obtain cu1 where 1: "run_list fp w (?b # code @ ?j # rest) pc (regs, cu) = run_list fp w (code @ ?j # rest) (pc + 1) (regs, cu1)"
    "lanes_at w ?a cu1" "gc_binary cu1 = gc_binary (count_instr cu)"
    by (rule run_branch [OF assms(1), of ?b fp "code @ ?j # rest" pc regs]) (simp_all add: Let_def)
  have loop: "unit_loop w cu1 f regs = lane_loop 32 (\<lambda>t. bit m t \<and> regs ! t ! unat rs = 0) (\<lambda>_. f) regs" for f
    unfolding unit_loop_lanes [OF 1(2)] by (rule lane_loop_cong) (auto split: if_splits)
  let ?cu2 = "(count_instr ^^ length code) cu1"
  have or: "?taken OR ?masked = m" by (rule bit_word_eqI) (auto simp: bit_simps)
  have "?masked = 0 \<Longrightarrow> ?taken = m" using or by simp
  then have "spec_join ?a = (m, [])" using or by (simp add: spec_join_def)
  then obtain cu3 where 3: "run_list fp w (?j # rest) (pc + 1 + of_nat (length code)) (unit_loop w cu1 (fold (lane_exec fp) code) regs, ?cu2)
      = run_list fp w rest (pc + 1 + of_nat (length code) + 1) (unit_loop w cu1 (fold (lane_exec fp) code) regs, cu3)"
    "lanes_at w (m, []) cu3" "gc_binary cu3 = gc_binary (count_instr ?cu2)"
    using run_join [of w ?a ?cu2 ?j fp rest "pc + 1 + of_nat (length code)"] 1(2) by auto
  have binary: "gc_binary ((count_instr ^^ k) x) = gc_binary ((count_instr ^^ k) y)" if "gc_binary x = gc_binary y" for k x y
    using that by (induction k) (simp_all add: count_instr_def)
  have "gc_binary cu3 = gc_binary ((count_instr ^^ (length code + 2)) cu)"
    using 3(3) binary [OF 1(3), of "Suc (length code)"] by (simp add: funpow_swap1)
  then show thesis
    using that [of cu3] 1(1) 3(1,2) run_lanes [OF assms(2), of fp w "?j # rest" "pc + 1" regs cu1]
    by (simp add: loop add.assoc add.commute add.left_commute)
qed

lemma divergent_kernel:
  assumes "ready_unit (wc_warp_id ctx) cu" "wf_regs (wc_regs ctx)" "wc_pc ctx = 0"
    and "wc_program ctx = pre @ makeInstr Op_VBRANCH 0 rs 0 im # code @ [makeInstr Op_VJOIN 0 0 0 0, halt_instr]"
    and "list_all lane_instr pre" "list_all lane_instr code" "length pre + length code < 1000"
  obtains cu' where "executeWarp fp (ctx, cu) = (None, ctx\<lparr> wc_pc := of_nat (length pre + length code + 2),
      wc_regs := map (\<lambda>row. let row' = fold (lane_exec fp) pre row in
        if row' ! unat rs = 0 then fold (lane_exec fp) code row' else row') (wc_regs ctx), wc_state := W_COMPLETE \<rparr>, cu')"
    "ready_unit (wc_warp_id ctx) cu'"
    "bu_total_instructions (gc_binary cu') = bu_total_instructions (gc_binary cu) + of_nat (length pre + length code + 3)"
proof -
  let ?w = "wc_warp_id ctx" and ?cu = "start_warp (wc_warp_id ctx) cu"
  let ?j = "makeInstr Op_VJOIN 0 0 0 0" and ?regs = "map (fold (lane_exec fp) pre) (wc_regs ctx)"
  have len: "length (wc_regs ctx) = 32" using assms(2) by (simp add: wf_regs_def)
  note start = start_lanes [OF assms(1)]
  have lanes: "lanes_at ?w (- 1, []) ((count_instr ^^ length pre) ?cu)" using start by simp
  obtain cu1 where 1: "run_list fp ?w (makeInstr Op_VBRANCH 0 rs 0 im # code @ ?j # [halt_instr]) (of_nat (length pre))
      (?regs, (count_instr ^^ length pre) ?cu) = run_list fp ?w [halt_instr] (of_nat (length pre) + 2 + of_nat (length code))
      (lane_loop 32 (\<lambda>t. bit (- 1 :: u32) t \<and> ?regs ! t ! unat rs = 0) (\<lambda>_. fold (lane_exec fp) code) ?regs, cu1)"
    "lanes_at ?w (- 1, []) cu1" "gc_binary cu1 = gc_binary ((count_instr ^^ (length code + 2)) ((count_instr ^^ length pre) ?cu))"
    by (rule run_region [OF lanes assms(6), of fp rs im "[halt_instr]" "of_nat (length pre)" ?regs]) simp_all
  have regs: "lane_loop 32 (\<lambda>t. bit (- 1 :: u32) t \<and> ?regs ! t ! unat rs = 0) (\<lambda>_. fold (lane_exec fp) code) ?regs
    = map (\<lambda>row. let row' = fold (lane_exec fp) pre row in if row' ! unat rs = 0 then fold (lane_exec fp) code row' else row') (wc_regs ctx)"
    by (rule nth_equalityI) (simp_all add: lane_simps len Let_def)
  have "run_list fp ?w (drop (unat (wc_pc ctx)) (wc_program ctx)) (wc_pc ctx) (wc_regs ctx, ?cu)
    = ((None, of_nat (length pre + length code + 2)),
       map (\<lambda>row. let row' = fold (lane_exec fp) pre row in if row' ! unat rs = 0 then fold (lane_exec fp) code row' else row') (wc_regs ctx),
       count_instr cu1)"
    using assms(3,4) run_lanes [OF assms(5), of fp ?w "makeInstr Op_VBRANCH 0 rs 0 im # code @ ?j # [halt_instr]" 0 "wc_regs ctx" ?cu]
      1(1) [unfolded regs]
    by (simp add: unit_loop_all [OF start len] run_halt add.assoc add.commute add.left_commute)
  note x = executeWarp_list [OF assms(1,2) _ this]
  have "ready_unit ?w (count_instr cu1)"
    by (rule lanes_still_ready [of _ "- 1"]) (use 1(2) assms(1) in \<open>simp_all add: ready_unit_def\<close>)
  moreover have "bu_total_instructions (gc_binary (count_instr cu1))
    = bu_total_instructions (gc_binary cu) + of_nat (length pre + length code + 3)"
    using 1(3) total_instructions_counts [of "length code + 2" "(count_instr ^^ length pre) ?cu"] by (simp add: count_instr_def)
  ultimately show thesis using that x assms(4,7) by simp
qed

lemma odd_even_lane:
  assumes "length row = 32" "row ! 0 = 0"
  shows "(let row' = fold (lane_exec fp) [makeInstr Op_ADDI 3 0 0 1, makeInstr Op_AND 4 1 3 0] row in
     if row' ! unat (4 :: u8) = 0 then fold (lane_exec fp) [makeInstr Op_ADDI 5 0 0 100] row' else row') ! 5
    = (if even (row ! 1) then 100 else row ! 5)"
proof (cases "even (row ! 1)")
  case True
  then have "row ! 1 AND 1 = 0" by (simp only: and_one_eq even_iff_mod_2_eq_zero)
  then show ?thesis using assms True by (simp add: lane_defs Let_def)
next
  case False
  then have "row ! 1 AND 1 = 1" by (simp add: and_one_eq odd_iff_mod_2_eq_one)
  then show ?thesis using assms False by (simp add: lane_defs Let_def)
qed

section \<open>Properties\<close>

text \<open>C24: the kernel \<open>divergentOddEven\<close> does what it documents: the lanes with an even thread id end with 100 in register 5,
  the others keep what they had, and the warp completes after six instructions with no divergence left over.\<close>

theorem divergent_kernel_selects_lanes:
  assumes "ready_unit (wc_warp_id ctx) cu" "wf_regs (wc_regs ctx)" "wc_pc ctx = 0" "wc_program ctx = divergentOddEven"
    and "list_all (\<lambda>row. row ! 0 = 0) (wc_regs ctx)"
  shows "case executeWarp fp (ctx, cu) of (bid, ctx', cu') \<Rightarrow>
    bid = None \<and> map (\<lambda>row. row ! 5) (wc_regs ctx') = map (\<lambda>row. if even (row ! 1) then 100 else row ! 5) (wc_regs ctx) \<and>
    ready_unit (wc_warp_id ctx) cu' \<and>
    bu_total_instructions (gc_binary cu') = bu_total_instructions (gc_binary cu) + 6"
proof -
  let ?pre = "[makeInstr Op_ADDI 3 0 0 1, makeInstr Op_AND 4 1 3 0]" and ?code = "[makeInstr Op_ADDI 5 0 0 100]"
  have prog: "wc_program ctx = ?pre @ makeInstr Op_VBRANCH 0 4 0 2 # ?code @ [makeInstr Op_VJOIN 0 0 0 0, halt_instr]"
    using assms(4) by (simp add: divergentOddEven_def)
  have "list_all lane_instr ?pre" "list_all lane_instr ?code" by (simp_all add: lane_defs)
  from divergent_kernel [OF assms(1-3) prog this, of fp] obtain cu' where
    x: "executeWarp fp (ctx, cu) = (None, ctx\<lparr> wc_pc := of_nat (length ?pre + length ?code + 2),
      wc_regs := map (\<lambda>row. let row' = fold (lane_exec fp) ?pre row in
        if row' ! unat (4 :: u8) = 0 then fold (lane_exec fp) ?code row' else row') (wc_regs ctx), wc_state := W_COMPLETE \<rparr>, cu')"
    "ready_unit (wc_warp_id ctx) cu'"
    "bu_total_instructions (gc_binary cu') = bu_total_instructions (gc_binary cu) + of_nat (length ?pre + length ?code + 3)"
    by auto
  have "length row = 32" "row ! 0 = 0" if "row \<in> set (wc_regs ctx)" for row
    using assms(2,5) that by (auto simp: wf_regs_def list_all_iff)
  then have "map (\<lambda>row. row ! 5) (map (\<lambda>row. let row' = fold (lane_exec fp) ?pre row in
        if row' ! unat (4 :: u8) = 0 then fold (lane_exec fp) ?code row' else row') (wc_regs ctx))
    = map (\<lambda>row. if even (row ! 1) then 100 else row ! 5) (wc_regs ctx)"
    unfolding map_map comp_def by (intro map_cong refl odd_even_lane)
  with x show ?thesis by (simp del: fold_simps map_map)
qed

text \<open>C25: \<open>conv2d3x3\<close> computes the product of neighbourhood and filter in every lane: nine multiply-adds into register 21.\<close>

theorem convolution_computes_dot_product:
  assumes "ready_unit (wc_warp_id ctx) cu" "wf_regs (wc_regs ctx)" "wc_pc ctx = 0" "wc_program ctx = conv2d3x3"
  shows "case executeWarp fp (ctx, cu) of (bid, ctx', cu') \<Rightarrow> bid = None \<and>
    map (\<lambda>row. row ! 21) (wc_regs ctx') = map (\<lambda>row. (\<Sum>k<9. row ! (3 + k) * row ! (12 + k)) + row ! 21) (wc_regs ctx) \<and>
    bu_total_instructions (gc_binary cu') = bu_total_instructions (gc_binary cu) + 10"
proof -
  have k: "conv2d3x3 = butlast conv2d3x3 @ [halt_instr]" "list_all lane_instr (butlast conv2d3x3)" "length (butlast conv2d3x3) < 1000"
    using straight_kernels [of conv2d3x3] by simp_all
  have nine: "length (butlast conv2d3x3) = 9" by (simp add: conv2d3x3_def)
  have "length row = 32" if "row \<in> set (wc_regs ctx)" for row
    using assms(2) that by (auto simp: wf_regs_def list_all_iff)
  then have "map (\<lambda>row. row ! 21) (map (fold (lane_exec fp) (butlast conv2d3x3)) (wc_regs ctx))
    = map (\<lambda>row. (\<Sum>k<9. row ! (3 + k) * row ! (12 + k)) + row ! 21) (wc_regs ctx)"
    unfolding map_map comp_def by (intro map_cong refl convolution_lane)
  with straight_kernel [OF assms(1-3) trans [OF assms(4) k(1)] k(2,3), of fp] show ?thesis
    by (simp add: nine del: map_map fold_simps length_butlast)
qed

text \<open>The library's other lane kernels.\<close>

lemma saxpy_result:
  assumes "ready_unit (wc_warp_id ctx) cu" "wf_regs (wc_regs ctx)" "wc_pc ctx = 0" "wc_program ctx = intSaxpy alpha y"
    and "row \<in> set (wc_regs ctx)" "row ! 0 = 0"
  shows "fst (executeWarp fp (ctx, cu)) = None \<and> (\<exists>row' \<in> set (wc_regs (fst (snd (executeWarp fp (ctx, cu))))).
    row' ! 6 = alpha * (row ! 1 + 1) + y)"
proof -
  have k: "intSaxpy alpha y = butlast (intSaxpy alpha y) @ [halt_instr]" "list_all lane_instr (butlast (intSaxpy alpha y))"
    "length (butlast (intSaxpy alpha y)) < 1000" using straight_kernels [of "intSaxpy alpha y" alpha y] by simp_all
  have "length row = 32" using assms(2,5) by (auto simp: wf_regs_def list_all_iff)
  then have "fold (lane_exec fp) (butlast (intSaxpy alpha y)) row ! 6 = alpha * (row ! 1 + 1) + y"
    using saxpy_lane [of row fp alpha y] assms(6) by (simp del: fold_simps)
  with straight_kernel [OF assms(1-3) trans [OF assms(4) k(1)] k(2,3), of fp] assms(5) show ?thesis
    by (auto simp del: fold_simps)
qed

section \<open>Witnesses\<close>

definition kernel_ctx :: "Instruction list \<Rightarrow> WarpContext" where
  "kernel_ctx program = WarpContext_default\<lparr> wc_program := program,
     wc_regs := map (\<lambda>t. (replicate 32 0)[1 := of_nat t, 3 := of_nat t, 12 := 2]) [0..<32] \<rparr>"

definition kernel_unit :: ComputeUnit where
  "kernel_unit = ComputeUnit_init 32 4 0"

definition no_fpu :: fpu where
  "no_fpu = \<lparr> fp_add = (\<lambda>_ _. 0), fp_sub = (\<lambda>_ _. 0), fp_mul = (\<lambda>_ _. 0), fp_mul_add = (\<lambda>_ _ _. 0) \<rparr>"

lemma kernel_ctx_ok:
  "ready_unit (wc_warp_id (kernel_ctx program)) kernel_unit" "wf_regs (wc_regs (kernel_ctx program))"
  "wc_pc (kernel_ctx program) = 0" "wc_program (kernel_ctx program) = program"
  "list_all (\<lambda>row. row ! 0 = 0) (wc_regs (kernel_ctx program))"
  using init_unit_ready [of 0 4]
  by (simp_all add: kernel_ctx_def kernel_unit_def WarpContext_default_def wf_regs_def list_all_iff)

theorem divergent_kernel_selects_lanes_witness:
  "map (\<lambda>row. row ! 5) (wc_regs (fst (snd (executeWarp no_fpu (kernel_ctx divergentOddEven, kernel_unit)))))
     = map (\<lambda>t. if even (of_nat t :: u32) then 100 else 0) [0..<32]"
proof -
  have "map (\<lambda>row. if even (row ! 1) then 100 else row ! 5) (wc_regs (kernel_ctx divergentOddEven))
    = map (\<lambda>t. if even (of_nat t :: u32) then 100 else 0) [0..<32]"
    by (simp add: kernel_ctx_def comp_def del: upt_Suc)
  with divergent_kernel_selects_lanes [OF kernel_ctx_ok, of no_fpu] show ?thesis
    by (auto split: prod.splits simp del: upt_Suc)
qed

theorem convolution_computes_dot_product_witness:
  "map (\<lambda>row. row ! 21) (wc_regs (fst (snd (executeWarp no_fpu (kernel_ctx conv2d3x3, kernel_unit)))))
     = map (\<lambda>t. of_nat t * 2) [0..<32]"
proof -
  have nine: "(\<Sum>k<9. f k) = f 0 + f 1 + f 2 + f 3 + f 4 + f 5 + f 6 + f 7 + f 8" for f :: "nat \<Rightarrow> u32"
    by (simp add: eval_nat_numeral add.assoc)
  have "map (\<lambda>row. (\<Sum>k<9. row ! (3 + k) * row ! (12 + k)) + row ! 21) (wc_regs (kernel_ctx conv2d3x3))
    = map (\<lambda>t. of_nat t * 2) [0..<32]"
    by (simp add: kernel_ctx_def comp_def nine del: upt_Suc)
  with convolution_computes_dot_product [OF kernel_ctx_ok(1-4), of no_fpu] show ?thesis
    by (auto split: prod.splits simp del: upt_Suc)
qed

end
