(* ===== verification/KernelReduction.thy ===== *)
theory KernelReduction
  imports Kernels
begin

text \<open>
  The kernel \<open>parallelReduction\<close> of \<open>models/systemc/src/common/kernel_programs.h\<close> on a golden device with two
  compute units (\<open>models/systemc/src/top/top.cpp\<close>), from the launch to the end of the simulation loop: what each of its two phases
  does to the rows of a warp and to memory, and what the words hold in the end.
\<close>

section \<open>The parallel reduction\<close>

text \<open>Phase 1: the warp stores its values and stalls.\<close>

lemma reduction_phase1:
  assumes "lanes_at w (- 1, []) cu" "has_memory G sz cu" "thread_rows base lw regs" "base \<le> 512"
  obtains regs' cu' where "run_list fp w parallelReduction 0 (regs, cu) = ((Some 0, 3), regs', cu')"
    "thread_rows base lw regs'" "\<And>t. t < 32 \<Longrightarrow> regs' ! t ! 4 = of_nat (base + t) + 1"
    "lanes_at w (- 1, []) cu'"
    "has_memory (store_words (bit (- 1 :: u32)) (\<lambda>t. slot_of (base + t)) (\<lambda>t. regs' ! t ! 4) 32 G) sz cu'"
    "bu_total_instructions (gc_binary cu') = bu_total_instructions (gc_binary cu) + 3"
proof -
  let ?add = "makeInstr Op_ADDI 4 1 0 1" and ?sw = "makeInstr Op_SW 0 2 4 0" and ?bar = "makeInstr Op_BARRIER 0 0 0 0"
  let ?regs = "map (lane_exec fp ?add) regs" and ?cu = "count_instr cu"
  have len: "length regs = 32" "\<And>t. t < 32 \<Longrightarrow> length (regs ! t) = 32" using assms(3) by (simp_all add: thread_rows_def wf_regs_rows)
  have row: "lane_exec fp ?add r = r[4 := r ! 1 + 1]" for r by (simp add: lane_defs Let_def)
  have rows: "thread_rows base lw ?regs" "\<And>t. t < 32 \<Longrightarrow> ?regs ! t ! 4 = of_nat (base + t) + 1"
    using assms(3) by (simp_all add: thread_rows_def wf_regs_rows row)
  have addr: "golden_addr ?sw (?regs ! t) = slot_of (base + t)" if "t < 32" for t
    by (rule slot_address(1)) (use rows(1) that assms(4) in \<open>simp_all add: thread_rows_def\<close>)
  obtain rest where prog: "parallelReduction = ?add # ?sw # ?bar # rest" by (simp add: parallelReduction_def)
  have 1: "run_list fp w parallelReduction 0 (regs, cu) = run_list fp w (?sw # ?bar # rest) 1 (?regs, ?cu)"
    unfolding prog using unit_loop_all [OF assms(1) len(1)] by (subst run_lane) (simp_all add: lane_defs)
  obtain cu2 where 2: "run_list fp w (?sw # ?bar # rest) 1 (?regs, ?cu) = run_list fp w (?bar # rest) (1 + 1) (?regs, cu2)"
    "lanes_at w (- 1, []) cu2"
    "has_memory (store_words (bit (fst (- 1 :: u32, [] :: u32 list))) (\<lambda>t. gAlignAddress (golden_addr ?sw (?regs ! t)))
       (\<lambda>t. ?regs ! t ! unat (i_rs2 ?sw)) 32 G) sz cu2"
    "bu_total_instructions (gc_binary cu2) = bu_total_instructions (gc_binary ?cu) + 1"
    by (rule run_store [of w "(- 1, [])" ?cu ?sw G sz ?regs fp "?bar # rest" 1])
      (use assms(1,2,4) in \<open>simp_all add: addr slot_global op_class_defs\<close>)
  obtain cu3 where 3: "run_list fp w (?bar # rest) (1 + 1) (?regs, cu2) = ((Some (i_imm ?bar), 1 + 1 + 1), ?regs, cu3)"
    "lanes_at w (- 1, []) cu3" "gc_binary cu3 = gc_binary (count_instr cu2)"
    by (rule run_barrier [OF 2(2), of ?bar fp rest "1 + 1" ?regs]) simp_all
  have G: "store_words (bit (fst (- 1 :: u32, [] :: u32 list))) (\<lambda>t. gAlignAddress (golden_addr ?sw (?regs ! t)))
       (\<lambda>t. ?regs ! t ! unat (i_rs2 ?sw)) 32 G
     = store_words (bit (- 1 :: u32)) (\<lambda>t. slot_of (base + t)) (\<lambda>t. ?regs ! t ! 4) 32 G"
    by (intro store_words_cong) (simp_all add: addr slot_aligned)
  show thesis
  proof (rule that)
    show "run_list fp w parallelReduction 0 (regs, cu) = ((Some 0, 3), ?regs, cu3)" using 1 2(1) 3(1) by simp
    show "has_memory (store_words (bit (- 1 :: u32)) (\<lambda>t. slot_of (base + t)) (\<lambda>t. ?regs ! t ! 4) 32 G) sz cu3"
      using 2(3) 3(3) unfolding G by (simp add: has_memory_def)
    show "bu_total_instructions (gc_binary cu3) = bu_total_instructions (gc_binary cu) + 3"
      using 2(4) 3(3) by (simp add: count_instr_def)
  qed (use rows 3(2) in simp_all)
qed

text \<open>Phase 2: every thread reads the word of its partner in the other warp.\<close>

abbreviation flag_code :: "Instruction list" where
  "flag_code \<equiv> [makeInstr Op_ADDI 9 0 0 1, makeInstr Op_SLT 7 3 9 0, makeInstr Op_XOR 8 7 9 0]"

abbreviation load_code :: "u8 \<Rightarrow> u32 \<Rightarrow> Instruction list \<Rightarrow> Instruction list" where
  "load_code rs im rest \<equiv> makeInstr Op_VBRANCH 0 rs 0 2 # makeInstr Op_LW 5 2 0 im # makeInstr Op_VJOIN 0 0 0 0 # rest"

abbreviation sum_code :: "Instruction list" where
  "sum_code \<equiv> [makeInstr Op_VADD 6 4 5 0, makeInstr Op_SW 0 2 6 8, halt_instr]"

definition partner :: "u32 \<Rightarrow> nat \<Rightarrow> nat" where
  "partner lw k = (if lw = 0 then k + 32 else k - 32)"

lemma flag_rows:
  assumes "thread_rows base lw regs" "lw \<in> {0, 1}" "t < 32"
  shows "fold (lane_exec fp) flag_code (regs ! t) ! 7 = (if lw = 0 then 1 else 0)"
    "fold (lane_exec fp) flag_code (regs ! t) ! 8 = (if lw = 0 then 0 else 1)"
    "fold (lane_exec fp) flag_code (regs ! t) ! 4 = regs ! t ! 4"
    "fold (lane_exec fp) flag_code (regs ! t) ! 2 = 0x10000 + of_nat (base + t) * 4"
    "length (fold (lane_exec fp) flag_code (regs ! t)) = 32"
proof -
  have "length (regs ! t) = 32" "regs ! t ! 0 = 0" "regs ! t ! 3 = lw" "regs ! t ! 2 = 0x10000 + of_nat (base + t) * 4"
    using assms by (auto simp: thread_rows_def wf_regs_rows)
  then show "fold (lane_exec fp) flag_code (regs ! t) ! 7 = (if lw = 0 then 1 else 0)"
    "fold (lane_exec fp) flag_code (regs ! t) ! 8 = (if lw = 0 then 0 else 1)"
    "fold (lane_exec fp) flag_code (regs ! t) ! 4 = regs ! t ! 4"
    "fold (lane_exec fp) flag_code (regs ! t) ! 2 = 0x10000 + of_nat (base + t) * 4"
    "length (fold (lane_exec fp) flag_code (regs ! t)) = 32"
    using assms(2) by (auto simp: lane_defs Let_def)
qed

lemma partner_loads:
  assumes "lanes_at w (- 1, []) cu" "has_memory G sz cu" "length regs = 32" "lw \<in> {0, 1}" "base \<le> 512" "lw = 1 \<Longrightarrow> 32 \<le> base"
    and flags: "\<And>t. t < 32 \<Longrightarrow> regs ! t ! 7 = (if lw = 0 then 1 else 0)" "\<And>t. t < 32 \<Longrightarrow> regs ! t ! 8 = (if lw = 0 then 0 else 1)"
    and addr: "\<And>t. t < 32 \<Longrightarrow> regs ! t ! 2 = 0x10000 + of_nat (base + t) * 4" and len: "\<And>t. t < 32 \<Longrightarrow> length (regs ! t) = 32"
  obtains regs' cu' where "run_list fp w (load_code 7 (- 128) (load_code 8 128 rest)) pc (regs, cu) = run_list fp w rest (pc + 6) (regs', cu')"
    "length regs' = 32" "\<And>t. t < 32 \<Longrightarrow> regs' ! t = (regs ! t)[5 := G (slot_of (partner lw (base + t)))]"
    "lanes_at w (- 1, []) cu'" "has_memory G sz cu'"
    "bu_total_instructions (gc_binary cu') = bu_total_instructions (gc_binary cu) + 6"
proof -
  let ?im = "if lw = 0 then 128 else - 128 :: u32"
  let ?l = "makeInstr Op_LW 5 2 0 ?im"
  let ?regs = "map (\<lambda>row. row[unat (5 :: u8) := G (gAlignAddress (golden_addr ?l row))]) regs"
  have at: "golden_addr ?l (regs ! t) = slot_of (partner lw (base + t))" if t: "t < 32" for t
  proof (cases "lw = 0")
    case True
    then show ?thesis using slot_address(3) [OF addr [OF t], of Op_LW 5 0] assms(5) t by (simp add: partner_def)
  next
    case False
    then show ?thesis using slot_address(4) [OF addr [OF t], of Op_LW 5 0] assms(4-6) t by (auto simp: partner_def)
  qed
  have global: "\<not> in_shared sz (golden_addr ?l (regs ! t))" if "t < 32" for t
    using that assms(5) by (simp add: at slot_global partner_def)
  have row: "?regs ! t = (regs ! t)[5 := G (slot_of (partner lw (base + t)))]" if "t < 32" for t
    using that assms(3) by (simp add: at slot_aligned)
  have flags': "?regs ! t ! 7 = (if lw = 0 then 1 else 0)" "?regs ! t ! 8 = (if lw = 0 then 0 else 1)" if "t < 32" for t
    using that row [OF that] flags [OF that] len [OF that] by simp_all
  show thesis
  proof (cases "lw = 0")
    case True
    obtain cu1 where 1: "run_list fp w (load_code 7 (- 128) (load_code 8 128 rest)) pc (regs, cu)
        = run_list fp w (load_code 8 128 rest) (pc + 3) (regs, cu1)" "lanes_at w (- 1, []) cu1" "has_memory G sz cu1"
      "bu_total_instructions (gc_binary cu1) = bu_total_instructions (gc_binary cu) + 3"
      by (rule run_skipped_load [OF assms(1-3), of 7 fp 5 2 "- 128" "load_code 8 128 rest" pc]) (use flags True in simp_all)
    obtain cu2 where 2: "run_list fp w (load_code 8 128 rest) (pc + 3) (regs, cu1) = run_list fp w rest (pc + 3 + 3) (?regs, cu2)"
      "lanes_at w (- 1, []) cu2" "has_memory G sz cu2"
      "bu_total_instructions (gc_binary cu2) = bu_total_instructions (gc_binary cu1) + 3"
      by (rule run_taken_load [OF 1(2,3) assms(3), of 8 5 2 128 fp rest "pc + 3"]) (use flags global True in simp_all)
    show thesis by (rule that [of ?regs cu2]) (use 1 2 row assms(3) in \<open>simp_all add: add.assoc\<close>)
  next
    case False
    obtain cu1 where 1: "run_list fp w (load_code 7 (- 128) (load_code 8 128 rest)) pc (regs, cu)
        = run_list fp w (load_code 8 128 rest) (pc + 3) (?regs, cu1)" "lanes_at w (- 1, []) cu1" "has_memory G sz cu1"
      "bu_total_instructions (gc_binary cu1) = bu_total_instructions (gc_binary cu) + 3"
      by (rule run_taken_load [OF assms(1-3), of 7 5 2 "- 128" fp "load_code 8 128 rest" pc]) (use flags global False in simp_all)
    obtain cu2 where 2: "run_list fp w (load_code 8 128 rest) (pc + 3) (?regs, cu1) = run_list fp w rest (pc + 3 + 3) (?regs, cu2)"
      "lanes_at w (- 1, []) cu2" "has_memory G sz cu2"
      "bu_total_instructions (gc_binary cu2) = bu_total_instructions (gc_binary cu1) + 3"
      by (rule run_skipped_load [OF 1(2,3), of ?regs 8 fp 5 2 128 rest "pc + 3"]) (use flags' assms(3) False in simp_all)
    show thesis by (rule that [of ?regs cu2]) (use 1 2 row assms(3) in \<open>simp_all add: add.assoc\<close>)
  qed
qed

lemma sum_phase:
  assumes "lanes_at w (- 1, []) cu" "has_memory G sz cu" "length regs = 32" "\<And>t. t < 32 \<Longrightarrow> length (regs ! t) = 32"
    and addr: "\<And>t. t < 32 \<Longrightarrow> regs ! t ! 2 = 0x10000 + of_nat (base + t) * 4" and "base \<le> 512"
  obtains regs' cu' where "run_list fp w sum_code pc (regs, cu) = ((None, pc + 2), regs', cu')"
    "\<And>t. t < 32 \<Longrightarrow> regs' ! t ! 6 = regs ! t ! 4 + regs ! t ! 5"
    "lanes_at w (- 1, []) cu'"
    "has_memory (store_words (bit (- 1 :: u32)) (\<lambda>t. slot_of (base + 2 + t)) (\<lambda>t. regs' ! t ! 6) 32 G) sz cu'"
    "bu_total_instructions (gc_binary cu') = bu_total_instructions (gc_binary cu) + 3"
proof -
  let ?sw = "makeInstr Op_SW 0 2 6 8" and ?add = "makeInstr Op_VADD 6 4 5 0"
  let ?regs = "map (lane_exec fp ?add) regs" and ?cu = "count_instr cu"
  have row: "lane_exec fp ?add r = r[6 := r ! 4 + r ! 5]" for r by (simp add: lane_defs Let_def)
  have r: "?regs ! t ! 6 = regs ! t ! 4 + regs ! t ! 5" "?regs ! t ! 2 = 0x10000 + of_nat (base + t) * 4" if "t < 32" for t
    using that assms(3) assms(4) [OF that] addr [OF that] by (simp_all add: row)
  have 1: "run_list fp w sum_code pc (regs, cu) = run_list fp w [?sw, halt_instr] (pc + 1) (?regs, ?cu)"
    using unit_loop_all [OF assms(1,3)] by (subst run_lane) (simp_all add: lane_defs)
  have at: "golden_addr ?sw (?regs ! t) = slot_of (base + 2 + t)" if "t < 32" for t
    using slot_address(2) [OF r(2) [OF that], of Op_SW 0 6] that assms(6) by (simp add: add.commute add.left_commute)
  obtain cu' where 2: "run_list fp w [?sw, halt_instr] (pc + 1) (?regs, ?cu) = run_list fp w [halt_instr] (pc + 1 + 1) (?regs, cu')"
    "lanes_at w (- 1, []) cu'"
    "has_memory (store_words (bit (fst (- 1 :: u32, [] :: u32 list))) (\<lambda>t. gAlignAddress (golden_addr ?sw (?regs ! t)))
       (\<lambda>t. ?regs ! t ! unat (i_rs2 ?sw)) 32 G) sz cu'"
    "bu_total_instructions (gc_binary cu') = bu_total_instructions (gc_binary ?cu) + 1"
    by (rule run_store [of w "(- 1, [])" ?cu ?sw G sz ?regs fp "[halt_instr]" "pc + 1"])
      (use assms(1,2,6) in \<open>simp_all add: at slot_global op_class_defs del: nth_map\<close>)
  have G: "store_words (bit (fst (- 1 :: u32, [] :: u32 list))) (\<lambda>t. gAlignAddress (golden_addr ?sw (?regs ! t)))
       (\<lambda>t. ?regs ! t ! unat (i_rs2 ?sw)) 32 G
     = store_words (bit (- 1 :: u32)) (\<lambda>t. slot_of (base + 2 + t)) (\<lambda>t. ?regs ! t ! 6) 32 G"
    by (intro store_words_cong) (simp_all add: at slot_aligned del: nth_map)
  show thesis
  proof (rule that)
    show "run_list fp w sum_code pc (regs, cu) = ((None, pc + 2), ?regs, count_instr cu')"
      using 1 2(1) by (simp add: run_halt add.assoc)
    show "has_memory (store_words (bit (- 1 :: u32)) (\<lambda>t. slot_of (base + 2 + t)) (\<lambda>t. ?regs ! t ! 6) 32 G) sz (count_instr cu')"
      using 2(3) unfolding G by simp
    show "bu_total_instructions (gc_binary (count_instr cu')) = bu_total_instructions (gc_binary cu) + 3"
      using 2(4) by (simp add: count_instr_def)
  qed (use r 2(2) in simp_all)
qed

lemma reduction_phase2:
  assumes "lanes_at w (- 1, []) cu" "has_memory G sz cu" "thread_rows base lw regs" "lw \<in> {0, 1}" "base \<le> 512" "lw = 1 \<Longrightarrow> 32 \<le> base"
  obtains regs' cu' where "run_list fp w (drop 3 parallelReduction) 3 (regs, cu) = ((None, 14), regs', cu')"
    "\<And>t. t < 32 \<Longrightarrow> regs' ! t ! 6 = regs ! t ! 4 + G (slot_of (partner lw (base + t)))"
    "lanes_at w (- 1, []) cu'"
    "has_memory (store_words (bit (- 1 :: u32)) (\<lambda>t. slot_of (base + 2 + t)) (\<lambda>t. regs' ! t ! 6) 32 G) sz cu'"
    "bu_total_instructions (gc_binary cu') = bu_total_instructions (gc_binary cu) + 12"
proof -
  let ?regs1 = "map (fold (lane_exec fp) flag_code) regs" and ?cu1 = "(count_instr ^^ 3) cu"
  let ?rest = "load_code 7 (- 128) (load_code 8 128 sum_code)"
  have regs: "length regs = 32" using assms(3) by (simp add: thread_rows_def wf_regs_rows)
  note flags = flag_rows [OF assms(3,4), of _ fp]
  have prog: "drop 3 parallelReduction = flag_code @ ?rest" by (simp add: parallelReduction_def)
  have "list_all lane_instr flag_code" by (simp add: lane_defs)
  from run_lanes [OF this, of fp w ?rest 3 regs cu]
  have 1: "run_list fp w (drop 3 parallelReduction) 3 (regs, cu) = run_list fp w ?rest 6 (?regs1, ?cu1)"
    unfolding prog unit_loop_all [OF assms(1) regs] by (simp add: numeral_3_eq_3)
  have lanes1: "lanes_at w (- 1, []) ?cu1" "has_memory G sz ?cu1" using assms(1,2) by (simp_all add: eval_nat_numeral)
  obtain regs2 cu2 where 2: "run_list fp w ?rest 6 (?regs1, ?cu1) = run_list fp w sum_code (6 + 6) (regs2, cu2)"
    "length regs2 = 32" "\<And>t. t < 32 \<Longrightarrow> regs2 ! t = (?regs1 ! t)[5 := G (slot_of (partner lw (base + t)))]"
    "lanes_at w (- 1, []) cu2" "has_memory G sz cu2"
    "bu_total_instructions (gc_binary cu2) = bu_total_instructions (gc_binary ?cu1) + 6"
    by (rule partner_loads [OF lanes1, where regs = ?regs1 and lw = lw and base = base and fp = fp and rest = sum_code and pc = 6])
      (use regs flags assms(4-6) in \<open>simp_all del: fold_simps\<close>)
  have row2: "regs2 ! t ! 4 = regs ! t ! 4" "regs2 ! t ! 5 = G (slot_of (partner lw (base + t)))"
    "regs2 ! t ! 2 = 0x10000 + of_nat (base + t) * 4" "length (regs2 ! t) = 32" if t: "t < 32" for t
  proof -
    have "?regs1 ! t = fold (lane_exec fp) flag_code (regs ! t)" using t regs by (simp del: fold_simps)
    then show "regs2 ! t ! 4 = regs ! t ! 4" "regs2 ! t ! 5 = G (slot_of (partner lw (base + t)))"
      "regs2 ! t ! 2 = 0x10000 + of_nat (base + t) * 4" "length (regs2 ! t) = 32"
      using flags [OF t] by (simp_all add: 2(3) [OF t] del: fold_simps)
  qed
  obtain regs3 cu3 where 3: "run_list fp w sum_code (6 + 6) (regs2, cu2) = ((None, 6 + 6 + 2), regs3, cu3)"
    "\<And>t. t < 32 \<Longrightarrow> regs3 ! t ! 6 = regs2 ! t ! 4 + regs2 ! t ! 5" "lanes_at w (- 1, []) cu3"
    "has_memory (store_words (bit (- 1 :: u32)) (\<lambda>t. slot_of (base + 2 + t)) (\<lambda>t. regs3 ! t ! 6) 32 G) sz cu3"
    "bu_total_instructions (gc_binary cu3) = bu_total_instructions (gc_binary cu2) + 3"
    by (rule sum_phase [OF 2(4,5,2) row2(4,3) assms(5), of fp "6 + 6"]) simp_all
  show thesis
    by (rule that [of regs3 cu3]) (use 1 2(1,6) 3 row2 in \<open>simp_all add: eval_nat_numeral count_instr_def\<close>)
qed

section \<open>The reduction on a device\<close>

definition top_memory :: "(u64 \<Rightarrow> u32) \<Rightarrow> u32 \<Rightarrow> gpgpu_top \<Rightarrow> bool" where
  "top_memory G sz t \<longleftrightarrow> coherent (gt_memory t) \<and> global_word (gt_memory t) = G \<and> gm_shared_size (gt_memory t) = sz"

text \<open>One call of \<open>executeWarp\<close> from the simulation loop.\<close>

lemma execute_unit:
  assumes "c < length (gt_compute_units t)" "ready_unit (wc_warp_id ctx) (gt_compute_units t ! c)" "wf_regs (wc_regs ctx)"
    and "length (wc_program ctx) < 2 ^ 32"
    and run: "run_list fp (wc_warp_id ctx) (drop (unat (wc_pc ctx)) (wc_program ctx)) (wc_pc ctx)
        (wc_regs ctx, start_warp (wc_warp_id ctx) (put_mem (gt_memory t) (gt_compute_units t ! c))) = ((bid, pc), regs, cu)"
    and "lanes_at (wc_warp_id ctx) (- 1, []) cu" "has_memory G sz cu"
  obtains t' where "execute_on fp c ctx t = ((case bid of Some b \<Rightarrow> b | None \<Rightarrow> 0), ctx\<lparr> wc_pc := pc, wc_regs := regs,
      wc_state := (if bid = None then W_COMPLETE else W_STALLED) \<rparr>, t')"
    "t' = t\<lparr> gt_compute_units := (gt_compute_units t)[c := cu], gt_memory := gt_memory t' \<rparr>" "top_memory G sz t'"
    "ready_unit (wc_warp_id ctx) cu"
proof -
  let ?cu = "put_mem (gt_memory t) (gt_compute_units t ! c)"
  have "ready_unit (wc_warp_id ctx) ?cu" using assms(2) by (simp add: ready_unit_def)
  note x = executeWarp_list [OF this assms(3,4) run]
  obtain m where m: "bu_ext_memory (gc_binary cu) = Some m" "coherent m" "global_word m = G" "gm_shared_size m = sz"
    using assms(7) by (auto simp: has_memory_def)
  have "ready_unit (wc_warp_id ctx) cu"
    by (rule lanes_still_ready [OF assms(6)]) (use assms(2) in \<open>simp add: ready_unit_def\<close>)
  then show thesis
    using that [of "t\<lparr> gt_compute_units := (gt_compute_units t)[c := cu], gt_memory := m \<rparr>"] x m
    by (simp add: execute_on_def Let_def top_memory_def)
qed

lemma start_memory:
  "top_memory G sz t \<Longrightarrow> has_memory G sz (start_warp w (put_mem (gt_memory t) cu))"
  by (simp add: top_memory_def has_memory_def put_mem_def)

lemma ready_put_mem [simp]: "ready_unit w (put_mem m cu) = ready_unit w cu"
  by (simp add: ready_unit_def)

lemma total_start [simp]:
  "bu_total_instructions (gc_binary (start_warp w (put_mem m cu))) = bu_total_instructions (gc_binary cu)"
  by (simp add: put_mem_def)

lemma device_phase1:
  assumes "c < length (gt_compute_units t)" "ready_unit (wc_warp_id ctx) (gt_compute_units t ! c)" "top_memory G sz t"
    and "wc_pc ctx = 0" "wc_program ctx = parallelReduction" "thread_rows base lw (wc_regs ctx)" "base \<le> 512"
  obtains ctx' t' cu where "execute_on fp c ctx t = (0, ctx', t')"
    "t' = t\<lparr> gt_compute_units := (gt_compute_units t)[c := cu], gt_memory := gt_memory t' \<rparr>"
    "wc_state ctx' = W_STALLED" "wc_pc ctx' = 3" "wc_program ctx' = parallelReduction" "wc_warp_id ctx' = wc_warp_id ctx"
    "thread_rows base lw (wc_regs ctx')" "\<And>i. i < 32 \<Longrightarrow> wc_regs ctx' ! i ! 4 = of_nat (base + i) + 1"
    "top_memory (store_words (bit (- 1 :: u32)) (\<lambda>i. slot_of (base + i)) (\<lambda>i. of_nat (base + i) + 1) 32 G) sz t'"
    "ready_unit (wc_warp_id ctx) cu"
    "bu_total_instructions (gc_binary cu) = bu_total_instructions (gc_binary (gt_compute_units t ! c)) + 3"
proof -
  let ?w = "wc_warp_id ctx" and ?cu = "put_mem (gt_memory t) (gt_compute_units t ! c)"
  have "lanes_at ?w (- 1, []) (start_warp ?w ?cu)" using assms(2) by (intro start_lanes) simp
  from reduction_phase1 [OF this start_memory [OF assms(3)] assms(6,7), of fp]
  obtain regs' cu' where 1: "run_list fp ?w parallelReduction 0 (wc_regs ctx, start_warp ?w ?cu) = ((Some 0, 3), regs', cu')"
    "thread_rows base lw regs'" "\<And>i. i < 32 \<Longrightarrow> regs' ! i ! 4 = of_nat (base + i) + 1" "lanes_at ?w (- 1, []) cu'"
    "has_memory (store_words (bit (- 1 :: u32)) (\<lambda>i. slot_of (base + i)) (\<lambda>i. regs' ! i ! 4) 32 G) sz cu'"
    "bu_total_instructions (gc_binary cu') = bu_total_instructions (gc_binary (start_warp ?w ?cu)) + 3" by blast
  have wf: "wf_regs (wc_regs ctx)" "length (wc_program ctx) < 2 ^ 32"
    using assms(5,6) by (simp_all add: thread_rows_def parallelReduction_def)
  have run: "run_list fp ?w (drop (unat (wc_pc ctx)) (wc_program ctx)) (wc_pc ctx) (wc_regs ctx, start_warp ?w ?cu)
    = ((Some 0, 3), regs', cu')" using 1(1) assms(4,5) by simp
  obtain t' where t': "execute_on fp c ctx t = ((case Some 0 of Some b \<Rightarrow> b | None \<Rightarrow> 0), ctx\<lparr> wc_pc := 3, wc_regs := regs',
      wc_state := (if Some (0 :: u32) = None then W_COMPLETE else W_STALLED) \<rparr>, t')"
    "t' = t\<lparr> gt_compute_units := (gt_compute_units t)[c := cu'], gt_memory := gt_memory t' \<rparr>"
    "top_memory (store_words (bit (- 1 :: u32)) (\<lambda>i. slot_of (base + i)) (\<lambda>i. regs' ! i ! 4) 32 G) sz t'" "ready_unit ?w cu'"
    by (rule execute_unit [OF assms(1,2) wf run 1(4,5)])
  have "store_words (bit (- 1 :: u32)) (\<lambda>i. slot_of (base + i)) (\<lambda>i. regs' ! i ! 4) 32 G
    = store_words (bit (- 1 :: u32)) (\<lambda>i. slot_of (base + i)) (\<lambda>i. of_nat (base + i) + 1) 32 G"
    by (rule store_words_cong) (simp_all add: 1(3))
  then show thesis using that [OF _ t'(2)] t' 1(2,3,6) assms(5) by simp
qed

lemma device_phase2:
  assumes "c < length (gt_compute_units t)" "ready_unit (wc_warp_id ctx) (gt_compute_units t ! c)" "top_memory G sz t"
    and "wc_pc ctx = 3" "wc_program ctx = parallelReduction" "thread_rows base lw (wc_regs ctx)" "lw \<in> {0, 1}" "base \<le> 512"
    and "lw = 1 \<Longrightarrow> 32 \<le> base" "\<And>i. i < 32 \<Longrightarrow> wc_regs ctx ! i ! 4 = of_nat (base + i) + 1"
  obtains ctx' t' cu where "execute_on fp c ctx t = (0, ctx', t')"
    "t' = t\<lparr> gt_compute_units := (gt_compute_units t)[c := cu], gt_memory := gt_memory t' \<rparr>"
    "wc_state ctx' = W_COMPLETE"
    "top_memory (store_words (bit (- 1 :: u32)) (\<lambda>i. slot_of (base + 2 + i))
       (\<lambda>i. of_nat (base + i) + 1 + G (slot_of (partner lw (base + i)))) 32 G) sz t'"
    "bu_total_instructions (gc_binary cu) = bu_total_instructions (gc_binary (gt_compute_units t ! c)) + 12"
proof -
  let ?w = "wc_warp_id ctx" and ?cu = "put_mem (gt_memory t) (gt_compute_units t ! c)"
  have "lanes_at ?w (- 1, []) (start_warp ?w ?cu)" using assms(2) by (intro start_lanes) simp
  from reduction_phase2 [OF this start_memory [OF assms(3)] assms(6-9), of fp]
  obtain regs' cu' where 1: "run_list fp ?w (drop 3 parallelReduction) 3 (wc_regs ctx, start_warp ?w ?cu) = ((None, 14), regs', cu')"
    "\<And>i. i < 32 \<Longrightarrow> regs' ! i ! 6 = wc_regs ctx ! i ! 4 + G (slot_of (partner lw (base + i)))" "lanes_at ?w (- 1, []) cu'"
    "has_memory (store_words (bit (- 1 :: u32)) (\<lambda>i. slot_of (base + 2 + i)) (\<lambda>i. regs' ! i ! 6) 32 G) sz cu'"
    "bu_total_instructions (gc_binary cu') = bu_total_instructions (gc_binary (start_warp ?w ?cu)) + 12" by blast
  have wf: "wf_regs (wc_regs ctx)" "length (wc_program ctx) < 2 ^ 32"
    using assms(5,6) by (simp_all add: thread_rows_def parallelReduction_def)
  have run: "run_list fp ?w (drop (unat (wc_pc ctx)) (wc_program ctx)) (wc_pc ctx) (wc_regs ctx, start_warp ?w ?cu)
    = ((None, 14), regs', cu')" using 1(1) assms(4,5) by simp
  obtain t' where t': "execute_on fp c ctx t = ((case None of Some b \<Rightarrow> b | None \<Rightarrow> 0), ctx\<lparr> wc_pc := 14, wc_regs := regs',
      wc_state := (if (None :: u32 option) = None then W_COMPLETE else W_STALLED) \<rparr>, t')"
    "t' = t\<lparr> gt_compute_units := (gt_compute_units t)[c := cu'], gt_memory := gt_memory t' \<rparr>"
    "top_memory (store_words (bit (- 1 :: u32)) (\<lambda>i. slot_of (base + 2 + i)) (\<lambda>i. regs' ! i ! 6) 32 G) sz t'" "ready_unit ?w cu'"
    by (rule execute_unit [OF assms(1,2) wf run 1(3,4)])
  have "store_words (bit (- 1 :: u32)) (\<lambda>i. slot_of (base + 2 + i)) (\<lambda>i. regs' ! i ! 6) 32 G
    = store_words (bit (- 1 :: u32)) (\<lambda>i. slot_of (base + 2 + i))
       (\<lambda>i. of_nat (base + i) + 1 + G (slot_of (partner lw (base + i)))) 32 G"
    by (rule store_words_cong) (simp_all add: 1(2) assms(10))
  then show thesis using that [OF _ t'(2)] t' 1(5) by simp
qed

section \<open>The launch\<close>

definition reduction_launch :: "u32 \<Rightarrow> u32 \<Rightarrow> gpgpu_top" where
  "reduction_launch mw sz = topLaunchKernel 2 1 parallelReduction 0 (GPGPUTop_init 2 mw 32 sz)"

lemma balanced_pair: "balance_loop [[0], [1]] = [[0], [1 :: u32]]"
  by (subst balance_loop.simps) (simp add: unbalanced_def max_cu_def min_cu_def)

lemma pairs: "[0..<2] = [0, 1]" "replicate 2 x = [x, x]"
  by (simp_all add: numeral_2_eq_2)

lemma launch_scheduler:
  "gt_scheduler (reduction_launch mw sz) = \<lparr> gs_num_compute_units = 2, gs_max_warps_per_cu = mw, gs_policy = ROUND_ROBIN,
     gs_ready_queues = [[0], [1]], gs_stalled_queues = [[], []], gs_round_robin_indices = [0, 0],
     gs_kernel_warp_counter = 2, gs_total_warps_dispatched = 0, gs_total_kernels_completed = 0 \<rparr>"
  using balanced_pair
  by (simp add: reduction_launch_def topLaunchKernel_def GPGPUTop_init_def WarpScheduler_init_def submitKernel_def
      generateWarps_def generate_warp_def push_queue_def balanceLoadAcrossUnits_def pairs)

lemma select_first:
  "gs_num_compute_units s = 2 \<Longrightarrow> gs_policy s = ROUND_ROBIN \<Longrightarrow> c < 2 \<Longrightarrow> gs_ready_queues s ! c = w # ws \<Longrightarrow> w \<noteq> INVALID_WARP_ID \<Longrightarrow>
   \<exists>s'. selectWarp (of_nat c) s = (w, s') \<and> gs_ready_queues s' = (gs_ready_queues s)[c := ws] \<and> gs_num_compute_units s' = 2 \<and>
     gs_policy s' = ROUND_ROBIN \<and> gs_stalled_queues s' = gs_stalled_queues s"
  by (auto simp: selectWarp_def selectWarpRoundRobin_def Let_def word_le_nat_alt unat_of_nat less_2_cases_iff)

text \<open>A unit dispatches its warp, which stalls at the barrier.\<close>

lemma dispatch_phase1:
  assumes c: "c < 2" and q: "gs_ready_queues (gt_scheduler t) ! c = [of_nat c]"
    and sched: "gs_num_compute_units (gt_scheduler t) = 2" "gs_policy (gt_scheduler t) = ROUND_ROBIN"
    and t: "gt_threads_per_warp t = 32" "gt_kernel_program t = parallelReduction" "gt_warp_id_offset t = 0"
      "gt_kernel_start_warp_id t = 0" "length (gt_compute_units t) = 2" "ready_unit (of_nat c) (gt_compute_units t ! c)"
    and mem: "top_memory G sz t"
  obtains t' ctx cu s' where "dispatch_unit fp c (t, stalled) = (t', stalled @ [\<lparr> sw_id = of_nat c, sw_cu_id = of_nat c, sw_bid = 0, sw_ctx = ctx \<rparr>])"
    "t' = t\<lparr> gt_compute_units := (gt_compute_units t)[c := cu], gt_memory := gt_memory t', gt_scheduler := s' \<rparr>"
    "gs_ready_queues s' = (gs_ready_queues (gt_scheduler t))[c := []]" "gs_num_compute_units s' = 2" "gs_policy s' = ROUND_ROBIN"
    "gs_stalled_queues s' = gs_stalled_queues (gt_scheduler t)"
    "wc_pc ctx = 3" "wc_program ctx = parallelReduction" "wc_warp_id ctx = of_nat c"
    "thread_rows (32 * c) (of_nat c) (wc_regs ctx)" "\<And>i. i < 32 \<Longrightarrow> wc_regs ctx ! i ! 4 = of_nat (32 * c + i) + 1"
    "top_memory (store_words (bit (- 1 :: u32)) (\<lambda>i. slot_of (32 * c + i)) (\<lambda>i. of_nat (32 * c + i) + 1) 32 G) sz t'"
    "ready_unit (of_nat c) cu"
    "bu_total_instructions (gc_binary cu) = bu_total_instructions (gc_binary (gt_compute_units t ! c)) + 3"
proof -
  have inv: "(of_nat c :: u32) \<noteq> INVALID_WARP_ID" using c by (auto simp: INVALID_WARP_ID_def less_2_cases_iff)
  obtain s1 where s1: "selectWarp (of_nat c) (gt_scheduler t) = (of_nat c, s1)"
    "gs_ready_queues s1 = (gs_ready_queues (gt_scheduler t))[c := []]" "gs_num_compute_units s1 = 2" "gs_policy s1 = ROUND_ROBIN"
    "gs_stalled_queues s1 = gs_stalled_queues (gt_scheduler t)"
    using select_first [OF sched c q inv] by blast
  let ?t = "t\<lparr> gt_scheduler := s1 \<rparr>"
  let ?ctx = "buildWarpContext ?t (of_nat c)"
  have rows: "thread_rows (32 * c) (of_nat c) (wc_regs ?ctx)"
  proof -
    have "global_tid ?t (of_nat c) k = of_nat (32 * c + k)" for k using t by (simp add: global_tid_def mult.commute)
    moreover have "unat (gt_threads_per_warp ?t) = 32" using t by simp
    ultimately show ?thesis using t by (simp add: buildWarpContext_def thread_rows_def wf_regs_rows)
  qed
  have ctx: "wc_warp_id ?ctx = of_nat c" "wc_pc ?ctx = 0" "wc_program ?ctx = parallelReduction"
    using t(2) by (simp_all add: buildWarpContext_def)
  have unit: "c < length (gt_compute_units ?t)" "ready_unit (wc_warp_id ?ctx) (gt_compute_units ?t ! c)" "top_memory G sz ?t" "32 * c \<le> 512"
    using c t(5,6) mem by (simp_all add: ctx top_memory_def)
  from device_phase1 [OF unit(1-3) ctx(2,3) rows unit(4), of fp]
  obtain ctx' t1 cu where 1: "execute_on fp c ?ctx ?t = (0, ctx', t1)"
    "t1 = ?t\<lparr> gt_compute_units := (gt_compute_units ?t)[c := cu], gt_memory := gt_memory t1 \<rparr>"
    "wc_state ctx' = W_STALLED" "wc_pc ctx' = 3" "wc_program ctx' = parallelReduction" "wc_warp_id ctx' = wc_warp_id ?ctx"
    "thread_rows (32 * c) (of_nat c) (wc_regs ctx')" "\<And>i. i < 32 \<Longrightarrow> wc_regs ctx' ! i ! 4 = of_nat (32 * c + i) + 1"
    "top_memory (store_words (bit (- 1 :: u32)) (\<lambda>i. slot_of (32 * c + i)) (\<lambda>i. of_nat (32 * c + i) + 1) 32 G) sz t1"
    "ready_unit (wc_warp_id ?ctx) cu"
    "bu_total_instructions (gc_binary cu) = bu_total_instructions (gc_binary (gt_compute_units ?t ! c)) + 3" by blast
  have s': "gt_scheduler t1 = s1" by (subst 1(2)) simp
  let ?t' = "t1\<lparr> gt_scheduler := markWarpComplete (of_nat c) (of_nat c) s1 \<rparr>"
  have "dispatch_unit fp c (t, stalled) = (?t', stalled @ [\<lparr> sw_id = of_nat c, sw_cu_id = of_nat c, sw_bid = 0, sw_ctx = ctx' \<rparr>])"
    using inv by (simp add: dispatch_unit_def Let_def s1(1) 1(1,3) s')
  moreover have "?t' = t\<lparr> gt_compute_units := (gt_compute_units t)[c := cu], gt_memory := gt_memory ?t',
      gt_scheduler := markWarpComplete (of_nat c) (of_nat c) s1 \<rparr>"
    using 1(2) by (cases t; cases t1) simp
  ultimately show thesis
    by (rule that) (use s1(2-5) 1(4-11) ctx in \<open>simp_all add: markWarpComplete_def top_memory_def\<close>)
qed

lemma launch_facts:
  "gt_threads_per_warp (reduction_launch mw sz) = 32" "gt_kernel_program (reduction_launch mw sz) = parallelReduction"
  "gt_warp_id_offset (reduction_launch mw sz) = 0" "gt_kernel_start_warp_id (reduction_launch mw sz) = 0"
  "gt_total_warps (reduction_launch mw sz) = 2" "gt_num_compute_units (reduction_launch mw sz) = 2"
  "gt_compute_units (reduction_launch mw sz) = [ComputeUnit_init 32 mw 0, ComputeUnit_init 32 mw 0]"
  "top_memory (\<lambda>_. 0) sz (reduction_launch mw sz)"
  by (simp_all add: reduction_launch_def topLaunchKernel_def GPGPUTop_init_def WarpScheduler_init_def top_memory_def
      MemoryHierarchy_init_def coherent_def global_word_def fun_eq_iff pairs)

text \<open>A warp at the barrier of the reduction.\<close>

definition waiting_ctx :: "nat \<Rightarrow> WarpContext \<Rightarrow> bool" where
  "waiting_ctx c ctx \<longleftrightarrow> wc_pc ctx = 3 \<and> wc_program ctx = parallelReduction \<and> wc_warp_id ctx = of_nat c \<and>
     thread_rows (32 * c) (of_nat c) (wc_regs ctx) \<and> (\<forall>i<32. wc_regs ctx ! i ! 4 = of_nat (32 * c + i) + 1)"

definition phase1_words :: "u64 \<Rightarrow> u32" where
  "phase1_words = store_words (bit (- 1 :: u32)) (\<lambda>i. slot_of (32 + i)) (\<lambda>i. of_nat (32 + i) + 1) 32
     (store_words (bit (- 1 :: u32)) slot_of (\<lambda>i. of_nat i + 1) 32 (\<lambda>_. 0))"

text \<open>The first half of the pass: both warps stall.\<close>

lemma reduction_fan_out:
  obtains t ctx0 ctx1 cu0 cu1 where
    "fan_out fp (reduction_launch mw sz, []) = (t, [\<lparr> sw_id = 0, sw_cu_id = 0, sw_bid = 0, sw_ctx = ctx0 \<rparr>,
       \<lparr> sw_id = 1, sw_cu_id = 1, sw_bid = 0, sw_ctx = ctx1 \<rparr>])"
    "gt_compute_units t = [cu0, cu1]" "gt_total_warps t = 2" "sched_isComplete (gt_scheduler t)"
    "ready_unit 0 cu0" "ready_unit 1 cu1" "bu_total_instructions (gc_binary cu0) = 3" "bu_total_instructions (gc_binary cu1) = 3"
    "waiting_ctx 0 ctx0" "waiting_ctx 1 ctx1"
    "top_memory phase1_words sz t"
proof -
  let ?t0 = "reduction_launch mw sz"
  have two: "0 < (2 :: nat)" "1 < (2 :: nat)" by simp_all
  obtain t1 ctx0 cu0 s1 where 1: "dispatch_unit fp 0 (?t0, []) = (t1, [] @ [\<lparr> sw_id = of_nat 0, sw_cu_id = of_nat 0, sw_bid = 0, sw_ctx = ctx0 \<rparr>])"
    and t1: "t1 = ?t0\<lparr> gt_compute_units := (gt_compute_units ?t0)[0 := cu0], gt_memory := gt_memory t1, gt_scheduler := s1 \<rparr>"
    and s1: "gs_ready_queues s1 = (gs_ready_queues (gt_scheduler ?t0))[0 := []]" "gs_num_compute_units s1 = 2" "gs_policy s1 = ROUND_ROBIN"
      "gs_stalled_queues s1 = gs_stalled_queues (gt_scheduler ?t0)"
    and c0: "wc_pc ctx0 = 3" "wc_program ctx0 = parallelReduction" "wc_warp_id ctx0 = of_nat 0"
      "thread_rows (32 * 0) (of_nat 0) (wc_regs ctx0)" "\<And>i. i < 32 \<Longrightarrow> wc_regs ctx0 ! i ! 4 = of_nat (32 * 0 + i) + 1"
    and m1: "top_memory (store_words (bit (- 1 :: u32)) (\<lambda>i. slot_of (32 * 0 + i)) (\<lambda>i. of_nat (32 * 0 + i) + 1) 32 (\<lambda>_. 0)) sz t1"
    and u0: "ready_unit (of_nat 0) cu0" "bu_total_instructions (gc_binary cu0) = bu_total_instructions (gc_binary (gt_compute_units ?t0 ! 0)) + 3"
    by (rule dispatch_phase1 [OF two(1) _ _ _ launch_facts(1-4) _ _ launch_facts(8), of mw sz fp "[]"])
      (use init_unit_ready in \<open>simp_all add: launch_scheduler launch_facts\<close>)
  have f1: "gt_scheduler t1 = s1" "gt_threads_per_warp t1 = 32" "gt_kernel_program t1 = parallelReduction" "gt_warp_id_offset t1 = 0"
    "gt_kernel_start_warp_id t1 = 0" "gt_total_warps t1 = 2" "gt_compute_units t1 = [cu0, ComputeUnit_init 32 mw 0]"
    "gt_num_compute_units t1 = 2"
    by (subst t1; simp add: launch_facts)+
  obtain t2 ctx1 cu1 s2 where 2: "dispatch_unit fp 1 (t1, [\<lparr> sw_id = 0, sw_cu_id = 0, sw_bid = 0, sw_ctx = ctx0 \<rparr>])
      = (t2, [\<lparr> sw_id = 0, sw_cu_id = 0, sw_bid = 0, sw_ctx = ctx0 \<rparr>] @ [\<lparr> sw_id = of_nat 1, sw_cu_id = of_nat 1, sw_bid = 0, sw_ctx = ctx1 \<rparr>])"
    and t2: "t2 = t1\<lparr> gt_compute_units := (gt_compute_units t1)[1 := cu1], gt_memory := gt_memory t2, gt_scheduler := s2 \<rparr>"
    and s2: "gs_ready_queues s2 = (gs_ready_queues (gt_scheduler t1))[1 := []]" "gs_num_compute_units s2 = 2"
      "gs_stalled_queues s2 = gs_stalled_queues (gt_scheduler t1)"
    and c1: "wc_pc ctx1 = 3" "wc_program ctx1 = parallelReduction" "wc_warp_id ctx1 = of_nat 1"
      "thread_rows (32 * 1) (of_nat 1) (wc_regs ctx1)" "\<And>i. i < 32 \<Longrightarrow> wc_regs ctx1 ! i ! 4 = of_nat (32 * 1 + i) + 1"
    and m2: "top_memory (store_words (bit (- 1 :: u32)) (\<lambda>i. slot_of (32 * 1 + i)) (\<lambda>i. of_nat (32 * 1 + i) + 1) 32
      (store_words (bit (- 1 :: u32)) (\<lambda>i. slot_of (32 * 0 + i)) (\<lambda>i. of_nat (32 * 0 + i) + 1) 32 (\<lambda>_. 0))) sz t2"
    and u1: "ready_unit (of_nat 1) cu1" "bu_total_instructions (gc_binary cu1) = bu_total_instructions (gc_binary (gt_compute_units t1 ! 1)) + 3"
    by (rule dispatch_phase1 [OF two(2) _ _ _ f1(2-5) _ _ m1, of fp "[\<lparr> sw_id = 0, sw_cu_id = 0, sw_bid = 0, sw_ctx = ctx0 \<rparr>]"])
      (use init_unit_ready s1 in \<open>simp_all add: launch_scheduler f1\<close>)
  have f2: "gt_scheduler t2 = s2" "gt_total_warps t2 = 2" "gt_compute_units t2 = [cu0, cu1]"
    by (subst t2; simp add: f1)+
  have zero: "bu_total_instructions (gc_binary (ComputeUnit_init 32 mw 0)) = 0" by (simp add: ComputeUnit_init_def binary_reset_def)
  have "fan_out fp (?t0, []) = dispatch_unit fp 1 (dispatch_unit fp 0 (?t0, []))" by (simp add: fan_out_def launch_facts pairs)
  then have fan: "fan_out fp (?t0, []) = (t2, [\<lparr> sw_id = 0, sw_cu_id = 0, sw_bid = 0, sw_ctx = ctx0 \<rparr>,
      \<lparr> sw_id = 1, sw_cu_id = 1, sw_bid = 0, sw_ctx = ctx1 \<rparr>])" using 1 2 by simp
  have "sched_isComplete (gt_scheduler t2)" by (simp add: f2 sched_isComplete_def s2 s1 f1 launch_scheduler pairs)
  note complete = this
  show thesis
    by (rule that [OF fan f2(3,2) complete]) (use u0 u1 c0 c1 m2 in \<open>auto simp: launch_facts f1 zero waiting_ctx_def phase1_words_def\<close>)
qed

text \<open>The second half: the warps go on one after the other, the second on what the first has written.\<close>

definition warp_sums :: "nat \<Rightarrow> (u64 \<Rightarrow> u32) \<Rightarrow> u64 \<Rightarrow> u32" where
  "warp_sums c G = store_words (bit (- 1 :: u32)) (\<lambda>i. slot_of (32 * c + 2 + i))
     (\<lambda>i. of_nat (32 * c + i) + 1 + G (slot_of (partner (of_nat c) (32 * c + i)))) 32 G"

lemma resume_phase2:
  assumes "c < 2" "length (gt_compute_units t) = 2" "ready_unit (of_nat c) (gt_compute_units t ! c)" "top_memory G sz t"
    and "wc_pc ctx = 3" "wc_program ctx = parallelReduction" "wc_warp_id ctx = of_nat c"
    and "thread_rows (32 * c) (of_nat c) (wc_regs ctx)" "\<And>i. i < 32 \<Longrightarrow> wc_regs ctx ! i ! 4 = of_nat (32 * c + i) + 1"
  obtains t' cu where "resume_warp fp \<lparr> sw_id = of_nat c, sw_cu_id = of_nat c, sw_bid = 0, sw_ctx = ctx \<rparr> (t, []) = (t', [])"
    "t' = t\<lparr> gt_compute_units := (gt_compute_units t)[c := cu], gt_memory := gt_memory t' \<rparr>"
    "top_memory (warp_sums c G) sz t'"
    "bu_total_instructions (gc_binary cu) = bu_total_instructions (gc_binary (gt_compute_units t ! c)) + 12"
proof -
  have c: "c < length (gt_compute_units t)" "(of_nat c :: u32) \<in> {0, 1}" "32 * c \<le> 512" "(of_nat c :: u32) = 1 \<Longrightarrow> 32 \<le> 32 * c"
    "unat (of_nat c :: u32) = c"
    using assms(1,2) by (auto simp: less_2_cases_iff)
  have "ready_unit (wc_warp_id ctx) (gt_compute_units t ! c)" using assms(3,7) by simp
  from device_phase2 [OF c(1) this assms(4,5,6,8) c(2,3,4) assms(9), of fp]
  obtain ctx' t' cu where 1: "execute_on fp c ctx t = (0, ctx', t')"
    "t' = t\<lparr> gt_compute_units := (gt_compute_units t)[c := cu], gt_memory := gt_memory t' \<rparr>" "wc_state ctx' = W_COMPLETE"
    "top_memory (store_words (bit (- 1 :: u32)) (\<lambda>i. slot_of (32 * c + 2 + i))
       (\<lambda>i. of_nat (32 * c + i) + 1 + G (slot_of (partner (of_nat c) (32 * c + i)))) 32 G) sz t'"
    "bu_total_instructions (gc_binary cu) = bu_total_instructions (gc_binary (gt_compute_units t ! c)) + 12"
    by blast
  show thesis
    by (rule that [of t' cu]) (use 1(1,3-5) in \<open>simp_all add: resume_warp_def c(5) warp_sums_def 1(2) [symmetric]\<close>)
qed

lemma warp_sums_at:
  "k < 66 \<Longrightarrow> warp_sums 0 H (slot_of k) = (if 2 \<le> k \<and> k < 34 then of_nat (k - 2) + 1 + H (slot_of (k + 30)) else H (slot_of k))"
  "k < 66 \<Longrightarrow> warp_sums 1 H (slot_of k) = (if 34 \<le> k then of_nat (k - 34) + 33 + H (slot_of (k - 34)) else H (slot_of k))"
  using store_slots [of "\<lambda>i. slot_of (32 * 0 + 2 + i)" 2 k "\<lambda>i. of_nat (32 * 0 + i) + 1 + H (slot_of (partner (of_nat 0) (32 * 0 + i)))" H]
    store_slots [of "\<lambda>i. slot_of (32 * 1 + 2 + i)" 34 k "\<lambda>i. of_nat (32 * 1 + i) + 1 + H (slot_of (partner (of_nat 1) (32 * 1 + i)))" H]
  by (auto simp: warp_sums_def partner_def add.commute [of k])

lemma phase1_at: "k < 64 \<Longrightarrow> phase1_words (slot_of k) = of_nat k + 1"
  using store_slots [of "\<lambda>i. slot_of (32 + i)" 32 k "\<lambda>i. of_nat (32 + i) + 1"
      "store_words (bit (- 1 :: u32)) slot_of (\<lambda>i. of_nat i + 1) 32 (\<lambda>_. 0)"]
    store_slots [of slot_of 0 k "\<lambda>i. of_nat i + 1" "\<lambda>_. 0"]
  by (auto simp: phase1_words_def of_nat_diff)

lemma reduction_barrier:
  obtains t where "barrier_check fp (fan_out fp (reduction_launch mw sz, [])) = (t, [])" "sched_isComplete (gt_scheduler t)"
    "top_memory (warp_sums 1 (warp_sums 0 phase1_words)) sz t"
    "topGetTotalInstructions t = 30"
proof -
  obtain t ctx0 ctx1 cu0 cu1 where
    fan: "fan_out fp (reduction_launch mw sz, []) = (t, [\<lparr> sw_id = 0, sw_cu_id = 0, sw_bid = 0, sw_ctx = ctx0 \<rparr>,
       \<lparr> sw_id = 1, sw_cu_id = 1, sw_bid = 0, sw_ctx = ctx1 \<rparr>])"
    and t: "gt_compute_units t = [cu0, cu1]" "gt_total_warps t = 2" "sched_isComplete (gt_scheduler t)"
    and u: "ready_unit 0 cu0" "ready_unit 1 cu1" "bu_total_instructions (gc_binary cu0) = 3" "bu_total_instructions (gc_binary cu1) = 3"
    and ctx: "waiting_ctx 0 ctx0" "waiting_ctx 1 ctx1"
    and mem: "top_memory phase1_words sz t"
    by (rule reduction_fan_out [of fp mw sz])
  let ?t = "clear_barriers 0 t"
  have "wf_simt (gc_simt (cuClearBarrier b cu)) = wf_simt (gc_simt cu)" "gc_binary (cuClearBarrier b cu) = gc_binary cu"
    "ready_unit w (cuClearBarrier b cu) = ready_unit w cu" for b w cu
    by (simp_all add: cuClearBarrier_def gClearBarrier_def wf_simt_def ready_unit_def gHasPendingDivergence_def)
  then have t': "gt_compute_units ?t = [cuClearBarrier 0 cu0, cuClearBarrier 0 cu1]" "ready_unit 0 (cuClearBarrier 0 cu0)"
    "ready_unit 1 (cuClearBarrier 0 cu1)" "bu_total_instructions (gc_binary (cuClearBarrier 0 cu0)) = 3"
    "bu_total_instructions (gc_binary (cuClearBarrier 0 cu1)) = 3"
    using t(1) u by (simp_all add: clear_barriers_def)
  have mem': "top_memory phase1_words sz ?t"
    using mem by (simp add: top_memory_def clear_barriers_def)
  have two: "0 < (2 :: nat)" "1 < (2 :: nat)" by simp_all
  have c0: "wc_pc ctx0 = 3" "wc_program ctx0 = parallelReduction" "wc_warp_id ctx0 = of_nat 0" "thread_rows (32 * 0) (of_nat 0) (wc_regs ctx0)"
    "\<And>i. i < 32 \<Longrightarrow> wc_regs ctx0 ! i ! 4 = of_nat (32 * 0 + i) + 1" using ctx(1) by (simp_all add: waiting_ctx_def)
  have c1: "wc_pc ctx1 = 3" "wc_program ctx1 = parallelReduction" "wc_warp_id ctx1 = of_nat 1" "thread_rows (32 * 1) (of_nat 1) (wc_regs ctx1)"
    "\<And>i. i < 32 \<Longrightarrow> wc_regs ctx1 ! i ! 4 = of_nat (32 * 1 + i) + 1" using ctx(2) by (simp_all add: waiting_ctx_def)
  obtain t3 cu3 where 3: "resume_warp fp \<lparr> sw_id = of_nat 0, sw_cu_id = of_nat 0, sw_bid = 0, sw_ctx = ctx0 \<rparr> (?t, []) = (t3, [])"
    "t3 = ?t\<lparr> gt_compute_units := (gt_compute_units ?t)[0 := cu3], gt_memory := gt_memory t3 \<rparr>"
    "top_memory (warp_sums 0 phase1_words) sz t3"
    "bu_total_instructions (gc_binary cu3) = bu_total_instructions (gc_binary (gt_compute_units ?t ! 0)) + 12"
    by (rule resume_phase2 [OF two(1) _ _ mem' c0, of fp]) (use t' in simp_all)
  have f3: "gt_compute_units t3 = [cu3, cuClearBarrier 0 cu1]" "gt_scheduler t3 = gt_scheduler t" by (subst 3(2); simp add: t'(1); simp add: clear_barriers_def)+
  obtain t4 cu4 where 4: "resume_warp fp \<lparr> sw_id = of_nat 1, sw_cu_id = of_nat 1, sw_bid = 0, sw_ctx = ctx1 \<rparr> (t3, []) = (t4, [])"
    "t4 = t3\<lparr> gt_compute_units := (gt_compute_units t3)[1 := cu4], gt_memory := gt_memory t4 \<rparr>"
    "top_memory (warp_sums 1 (warp_sums 0 phase1_words)) sz t4"
    "bu_total_instructions (gc_binary cu4) = bu_total_instructions (gc_binary (gt_compute_units t3 ! 1)) + 12"
    by (rule resume_phase2 [OF two(2) _ _ 3(3) c1, of fp]) (use t' f3 in simp_all)
  have f4: "gt_compute_units t4 = [cu3, cu4]" "gt_scheduler t4 = gt_scheduler t" by (subst 4(2); simp add: f3)+
  have b: "barrier_check fp (fan_out fp (reduction_launch mw sz, [])) = (t4, [])"
    using t(2,3) 3(1) 4(1) by (simp add: fan barrier_check_def)
  show thesis
    by (rule that [OF b _ 4(3)]) (use f3 f4 t(3) t' 3(4) 4(4) in \<open>simp_all add: topGetTotalInstructions_def\<close>)
qed

lemma read_slot: "top_memory G sz t \<Longrightarrow> k < 1000 \<Longrightarrow> fst (readWord (slot_of k) t) = G (slot_of k)"
proof -
  assume t: "top_memory G sz t" and k: "k < 1000"
  then have "\<not> gIsSharedMemoryAddress (gt_memory t) (gAlignAddress (slot_of k))"
    using slot_global [of k sz] by (simp add: top_memory_def in_shared_def gIsSharedMemoryAddress_def)
  with load_global [of "gt_memory t" "slot_of k" 0 0] t show ?thesis
    by (cases "gLoadWord (slot_of k) 0 0 (gt_memory t)") (auto simp: readWord_def top_memory_def slot_aligned)
qed

section \<open>The property\<close>

text \<open>C23: \<open>parallelReduction\<close> races. On a device with two compute units, launched as its comment says, the first warp to
  go on after the barrier stores its sums eight bytes beyond its own words, that is over the words the second
  warp has still to read. The sums of the first warp are the documented ones, and so are the first two of the second warp, which the
  regression test looks at; every other thread \<open>t\<close> of the second warp gets \<open>3 * t + 63\<close> and not \<open>2 * t + 34\<close>. Each warp
  counts 15 instructions.\<close>

theorem parallel_reduction_races:
  "\<exists>t'. sim_loop fp (Suc n) (reduction_launch mw sz, []) = Some (t', []) \<and>
     map (\<lambda>t. fst (readWord (slot_of (t + 2)) t')) [0..<32] = map (\<lambda>t. 2 * of_nat t + 34) [0..<32] \<and>
     map (\<lambda>t. fst (readWord (slot_of (32 + t + 2)) t')) [0..<32]
       = map (\<lambda>t. if t < 2 then 2 * of_nat t + 34 else 3 * of_nat t + 63) [0..<32] \<and>
     topGetTotalInstructions t' = 30"
proof -
  let ?t = "reduction_launch mw sz"
  obtain t' where t': "barrier_check fp (fan_out fp (?t, [])) = (t', [])" "sched_isComplete (gt_scheduler t')"
    "top_memory (warp_sums 1 (warp_sums 0 phase1_words)) sz t'" "topGetTotalInstructions t' = 30"
    by (rule reduction_barrier [of fp mw sz])
  have "\<not> sim_done (?t, [])" by (simp add: sim_done_def sched_isComplete_def launch_scheduler pairs)
  moreover have "sim_done (t', [])" using t'(2) by (simp add: sim_done_def)
  ultimately have run: "sim_loop fp (Suc n) (?t, []) = Some (t', [])"
    using t'(1) by (cases n) (simp_all add: sim_pass_def)
  have "warp_sums 1 (warp_sums 0 phase1_words) (slot_of (t + 2)) = 2 * of_nat t + 34" if "t < 32" for t
    using that by (simp add: warp_sums_at [unfolded One_nat_def] phase1_at)
  moreover have "warp_sums 1 (warp_sums 0 phase1_words) (slot_of (32 + t + 2)) = (if t < 2 then 2 * of_nat t + 34 else 3 * of_nat t + 63)" if "t < 32" for t
    using that by (simp add: warp_sums_at [unfolded One_nat_def] phase1_at of_nat_diff)
  ultimately show ?thesis
    using run t'(4) read_slot [OF t'(3)] by (intro exI [of _ t'] conjI map_cong) simp_all
qed

end
