(* ===== verification/LlvmTools.thy ===== *)
theory LlvmTools
  imports KernelBundle
begin

text \<open>
  The compiler driver: \<open>software/llvm/backend/llvm_backend.cpp\<close>, which compiles and links a kernel source with the
  external clang, and \<open>software/llvm/mc/riscv_gpgpu_mc.cpp\<close>, which assembles a text and links object files through the
  temporary directory. The shell and the operating system are the record \<open>host_tools\<close>: the exit status of
  \<open>std::system\<close> with the files it leaves, the temporary directory, and the answers to \<open>create_directories\<close> and
  \<open>remove\<close>. \<open>None\<close> is a call that leaves with an exception of \<open>std::filesystem\<close> or of a stream. The files are those
  of \<open>KernelBundle\<close>.
\<close>

section \<open>Commands\<close>

record host_tools =
  ht_system :: "string \<Rightarrow> host_fs \<Rightarrow> int \<times> host_fs"
  ht_temp_dir :: "string option"
  ht_mkdirs :: "string \<Rightarrow> host_fs \<Rightarrow> host_fs option"
  ht_remove :: "string \<Rightarrow> host_fs \<Rightarrow> host_fs option"

definition apostrophe :: char where "apostrophe = CHR 0x27"

text \<open>The literal that replaces an apostrophe reads as three of them: in C++ a backslash before an apostrophe adds nothing.\<close>

definition shellEscape :: "string \<Rightarrow> string" where
  "shellEscape input = [apostrophe] @
     concat (map (\<lambda>c. if c = apostrophe then [apostrophe, apostrophe, apostrophe] else [c]) input) @ [apostrophe]"

definition runCommand :: "host_tools \<Rightarrow> string \<Rightarrow> host_fs \<Rightarrow> bool \<times> host_fs" where
  "runCommand tools cmd fs = (let (result, fs') = ht_system tools cmd fs in (result = 0, fs'))"

definition path_filename :: "string \<Rightarrow> string" where
  "path_filename p = rev (takeWhile (\<lambda>c. c \<noteq> CHR ''/'') (rev p))"

definition path_extension :: "string \<Rightarrow> string" where
  "path_extension p =
     (let n = path_filename p; e = rev (takeWhile (\<lambda>c. c \<noteq> CHR ''.'') (rev n))
      in if n \<in> {''.'', ''..''} \<or> CHR ''.'' \<notin> set n \<or> length n = length e + 1 then [] else CHR ''.'' # e)"

definition replace_extension :: "string \<Rightarrow> string \<Rightarrow> string" where
  "replace_extension p r = take (length p - length (path_extension p)) p @ (if r \<noteq> [] \<and> hd r \<noteq> CHR ''.'' then CHR ''.'' # r else r)"

definition to_lower :: "char \<Rightarrow> char" where
  "to_lower c = (if char_in 65 90 c then char_of (of_char c + 32 :: nat) else c)"

definition isCudaSource :: "string \<Rightarrow> bool" where
  "isCudaSource path \<longleftrightarrow> map to_lower (path_extension path) \<in> {''.cu'', ''.cuh''}"

definition getClangSourceOptions :: "string \<Rightarrow> string" where
  "getClangSourceOptions source_path =
     (if isCudaSource source_path then
        ''-x c++ -std=c++17 -D__global__= -D__device__= -D__host__= -D__shared__= -D__constant__= -D__restrict__=''
      else if map to_lower (path_extension source_path) \<in> {''.cpp'', ''.cc'', ''.cxx''} then ''-x c++ -std=c++17''
      else ''-x c'')"

definition clang_target :: string where
  "clang_target = ''clang -target riscv32-unknown-elf -march=rv32gc -mabi=ilp32 ''"

definition compile_command :: "string \<Rightarrow> string \<Rightarrow> string" where
  "compile_command source_path object_file =
     clang_target @ getClangSourceOptions source_path @ '' -O2 -c '' @ shellEscape source_path @ '' -o '' @ shellEscape object_file"

definition link_command :: "string \<Rightarrow> string list \<Rightarrow> string" where
  "link_command output_file objects =
     clang_target @ ''-fuse-ld=lld -nostdlib -Wl,--entry,0 -o '' @ shellEscape output_file @
     concat (map (\<lambda>p. '' '' @ shellEscape p) objects)"

definition assemble_command :: "string \<Rightarrow> string \<Rightarrow> string" where
  "assemble_command asm_file obj_file = clang_target @ ''-c '' @ shellEscape asm_file @ '' -o '' @ shellEscape obj_file"

section \<open>The backend\<close>

definition initializeLLVMBackend :: "host_tools \<Rightarrow> host_fs \<Rightarrow> bool \<times> host_fs" where
  "initializeLLVMBackend tools fs =
     (let (has_clang, fs1) = runCommand tools ''command -v clang >/dev/null 2>&1'' fs;
          (has_lld, fs2) = runCommand tools ''command -v ld.lld >/dev/null 2>&1 || command -v lld >/dev/null 2>&1'' fs1
      in (has_clang \<and> has_lld, fs2))"

definition emitKernelBinary_to :: "host_tools \<Rightarrow> string \<Rightarrow> string \<Rightarrow> host_fs \<Rightarrow> (bool \<times> host_fs) option" where
  "emitKernelBinary_to tools source_path output_file fs =
     (if \<not> pathExists source_path fs then Some (False, fs)
      else
        let object_file = replace_extension output_file ''.o'';
            (compiled, fs1) = runCommand tools (compile_command source_path object_file) fs
        in if \<not> compiled then Some (False, fs1)
           else do {
             fs2 \<leftarrow> ht_mkdirs tools (parent_path output_file) fs1;
             let (linked, fs3) = runCommand tools (link_command output_file [object_file]) fs2;
             if \<not> linked \<or> \<not> pathExists output_file fs3 then Some (False, fs3)
             else do { sz \<leftarrow> file_size fs3 output_file; Some (sz \<noteq> 0, fs3) }
           })"

definition emitKernelBinary :: "host_tools \<Rightarrow> string \<Rightarrow> host_fs \<Rightarrow> (bool \<times> host_fs) option" where
  "emitKernelBinary tools source_path fs =
     (if \<not> pathExists source_path fs then Some (False, fs)
      else emitKernelBinary_to tools source_path (replace_extension source_path ''.riscv.elf'') fs)"

section \<open>The assembler and the linker\<close>

definition mc_writeFile :: "string \<Rightarrow> string \<Rightarrow> host_fs \<Rightarrow> bool \<times> host_fs" where
  "mc_writeFile path content fs =
     (if \<not> hf_writable fs path \<or> file_at fs path = Some Directory then (False, fs)
      else (True, fs\<lparr> hf_nodes := (hf_nodes fs)(hf_resolve fs path \<mapsto> RegularFile content) \<rparr>))"

text \<open>A file that cannot be opened leaves the vector as it is; reading a directory raises.\<close>

definition readFileBytes :: "string \<Rightarrow> u8 list \<Rightarrow> host_fs \<Rightarrow> (bool \<times> u8 list) option" where
  "readFileBytes path out fs =
     (case file_at fs path of
        None \<Rightarrow> Some (False, out)
      | Some (RegularFile s) \<Rightarrow> Some (s \<noteq> [], map of_char s)
      | Some Directory \<Rightarrow> None)"

definition assembleKernelASM :: "host_tools \<Rightarrow> string \<Rightarrow> u8 list \<Rightarrow> host_fs \<Rightarrow> (bool \<times> u8 list \<times> host_fs) option" where
  "assembleKernelASM tools asm_text out fs =
     do {
       temp_dir \<leftarrow> ht_temp_dir tools;
       let asm_file = path_append temp_dir ''riscv_gpgpu_kernel.s'';
       let obj_file = path_append temp_dir ''riscv_gpgpu_kernel.o'';
       let (written, fs1) = mc_writeFile asm_file asm_text fs;
       if \<not> written then Some (False, out, fs1)
       else
         let (assembled, fs2) = runCommand tools (assemble_command asm_file obj_file) fs1 in
         if \<not> assembled then Some (False, out, fs2)
         else do {
           (result, out') \<leftarrow> readFileBytes obj_file out fs2;
           fs3 \<leftarrow> ht_remove tools asm_file fs2;
           fs4 \<leftarrow> ht_remove tools obj_file fs3;
           Some (result, out', fs4)
         }
     }"

definition object_path :: "string \<Rightarrow> nat \<Rightarrow> string" where
  "object_path temp_dir i = path_append temp_dir (''riscv_gpgpu_obj_'' @ show_nat i @ ''.o'')"

definition bytes_text :: "u8 list \<Rightarrow> string" where
  "bytes_text bs = map (\<lambda>b. char_of (unat b)) bs"

fun write_objects :: "string \<Rightarrow> nat \<Rightarrow> u8 list list \<Rightarrow> host_fs \<Rightarrow> bool \<times> host_fs" where
  "write_objects temp_dir i [] fs = (True, fs)"
| "write_objects temp_dir i (obj # objs) fs =
     (let (written, fs') = mc_writeFile (object_path temp_dir i) (bytes_text obj) fs
      in if \<not> written then (False, fs') else write_objects temp_dir (Suc i) objs fs')"

fun remove_all :: "host_tools \<Rightarrow> string list \<Rightarrow> host_fs \<Rightarrow> host_fs option" where
  "remove_all tools [] fs = Some fs"
| "remove_all tools (p # ps) fs = do { fs' \<leftarrow> ht_remove tools p fs; remove_all tools ps fs' }"

definition linkKernelObjects :: "host_tools \<Rightarrow> u8 list list \<Rightarrow> u8 list \<Rightarrow> host_fs \<Rightarrow> (bool \<times> u8 list \<times> host_fs) option" where
  "linkKernelObjects tools objects out fs =
     do {
       temp_dir \<leftarrow> ht_temp_dir tools;
       let object_paths = map (object_path temp_dir) [0..<length objects];
       let output_file = path_append temp_dir ''riscv_gpgpu_linked.elf'';
       let (written, fs1) = write_objects temp_dir 0 objects fs;
       if \<not> written then Some (False, out, fs1)
       else
         let (linked, fs2) = runCommand tools (link_command output_file object_paths) fs1 in
         if \<not> linked then Some (False, out, fs2)
         else do {
           (result, out') \<leftarrow> readFileBytes output_file out fs2;
           fs3 \<leftarrow> remove_all tools object_paths fs2;
           fs4 \<leftarrow> ht_remove tools output_file fs3;
           Some (result, out', fs4)
         }
     }"

section \<open>What the shell sees\<close>

text \<open>A shell keeps every character between two apostrophes as it is, and outside of them the character after a backslash.
  \<open>unquoted\<close> is the rest of the command, the text it interprets; \<open>quoted_now\<close> says whether the command starts inside
  such a pair.\<close>

definition backslash :: char where "backslash = CHR 0x5C"

abbreviation no_quoting :: "string \<Rightarrow> bool" where
  "no_quoting s \<equiv> apostrophe \<notin> set s \<and> backslash \<notin> set s"

fun unquoted :: "bool \<Rightarrow> string \<Rightarrow> string" where
  "unquoted quoted_now [] = []"
| "unquoted quoted_now (c # s) =
     (if c = apostrophe then unquoted (\<not> quoted_now) s
      else if quoted_now then unquoted quoted_now s
      else if c = backslash then unquoted quoted_now (drop 1 s)
      else c # unquoted quoted_now s)"

lemma unquoted_inside [simp]: "apostrophe \<notin> set s \<Longrightarrow> unquoted True (s @ t) = unquoted True t"
  by (induction s) auto

lemma unquoted_outside [simp]: "no_quoting s \<Longrightarrow> unquoted False (s @ t) = s @ unquoted False t"
  by (induction s) auto

text \<open>Three apostrophes change the state as one does: the escape does nothing.\<close>

lemma unquoted_tripled:
  "backslash \<notin> set s \<Longrightarrow> unquoted q (concat (map (\<lambda>c. if c = apostrophe then [apostrophe, apostrophe, apostrophe] else [c]) s) @ t) = unquoted q (s @ t)"
  by (induction s arbitrary: q) auto

lemma unquoted_escaped: "backslash \<notin> set s \<Longrightarrow> unquoted False (shellEscape s @ t) = unquoted True (s @ apostrophe # t)"
  using unquoted_tripled [of s True "apostrophe # t"] by (simp add: shellEscape_def)

lemma unquoted_escaped_end: "backslash \<notin> set s \<Longrightarrow> unquoted False (shellEscape s) = unquoted True (s @ [apostrophe])"
  using unquoted_escaped [of s "[]"] by simp

lemma command_texts:
  "no_quoting clang_target" "no_quoting (getClangSourceOptions p)" "no_quoting '' -O2 -c ''" "no_quoting '' -o ''"
  by (auto simp: clang_target_def getClangSourceOptions_def apostrophe_def backslash_def)

lemma unquoted_compile_command:
  assumes "no_quoting object_file" "backslash \<notin> set source_path"
    and "\<And>t. unquoted True (source_path @ apostrophe # t) = b @ unquoted False t"
  shows "unquoted False (compile_command source_path object_file) =
    clang_target @ getClangSourceOptions source_path @ '' -O2 -c '' @ b @ '' -o ''"
proof -
  have "unquoted False ('' -o '' @ shellEscape object_file) = '' -o '' @ unquoted True (object_file @ [apostrophe])"
    by (simp only: unquoted_outside [OF command_texts(4)] unquoted_escaped_end [OF conjunct2 [OF assms(1)]])
  also have "\<dots> = '' -o ''" using assms(1) by simp
  finally have "unquoted False (shellEscape source_path @ '' -o '' @ shellEscape object_file) = b @ '' -o ''"
    by (simp only: unquoted_escaped [OF assms(2)] assms(3))
  then show ?thesis
    by (simp only: compile_command_def unquoted_outside [OF command_texts(1)] unquoted_outside [OF command_texts(2)]
        unquoted_outside [OF command_texts(3)])
qed

lemma replace_extension_letters: "set (replace_extension p r) \<subseteq> set p \<union> set r \<union> {CHR ''.''}"
  using set_take_subset [of "length p - length (path_extension p)" p] by (auto simp: replace_extension_def)

text \<open>A path without apostrophes and backslashes adds nothing to what the shell interprets.\<close>

lemma plain_path_is_quoted:
  assumes "no_quoting source_path" "no_quoting object_file"
  shows "unquoted False (compile_command source_path object_file) =
    clang_target @ getClangSourceOptions source_path @ '' -O2 -c '' @ '' -o ''"
  using unquoted_compile_command [OF assms(2), of source_path "[]"] assms(1) by simp

text \<open>C21: the text between two apostrophes of a source path (without backslashes) is interpreted by the shell. \<open>emitKernelBinary\<close> runs a command in
  which that text stands outside of all quotes, between its own options, and with all the effects the shell gives it; when the
  command fails these effects are the state the call leaves.\<close>

theorem apostrophes_open_the_command:
  assumes "pathExists (a @ [apostrophe] @ b @ [apostrophe] @ c) fs" "no_quoting (a @ b @ c @ out)"
  shows "\<exists>cmd. unquoted False cmd = clang_target @ getClangSourceOptions (a @ [apostrophe] @ b @ [apostrophe] @ c) @
      '' -O2 -c '' @ b @ '' -o '' \<and>
    (fst (ht_system tools cmd fs) \<noteq> 0 \<longrightarrow>
      emitKernelBinary_to tools (a @ [apostrophe] @ b @ [apostrophe] @ c) out fs = Some (False, snd (ht_system tools cmd fs)))"
proof (intro exI conjI impI)
  let ?src = "a @ [apostrophe] @ b @ [apostrophe] @ c" and ?obj = "replace_extension out ''.o''"
  have "no_quoting ?obj"
    using replace_extension_letters [of out "''.o''"] assms(2) by (auto simp: apostrophe_def backslash_def)
  then show "unquoted False (compile_command ?src ?obj)
    = clang_target @ getClangSourceOptions ?src @ '' -O2 -c '' @ b @ '' -o ''"
    by (rule unquoted_compile_command) (use assms(2) in \<open>simp_all add: apostrophe_def backslash_def\<close>)
  assume "fst (ht_system tools (compile_command ?src ?obj) fs) \<noteq> 0"
  then show "emitKernelBinary_to tools ?src out fs = Some (False, snd (ht_system tools (compile_command ?src ?obj) fs))"
    using assms(1) by (cases "ht_system tools (compile_command ?src ?obj) fs") (simp add: emitKernelBinary_to_def runCommand_def)
qed

section \<open>The files of a link\<close>

lemma write_objects_files:
  assumes "\<And>j. j < length objs \<Longrightarrow> hf_writable fs (object_path d (i + j)) \<and> file_at fs (object_path d (i + j)) \<noteq> Some Directory"
    and "inj_on (\<lambda>j. hf_resolve fs (object_path d j)) {i..<i + length objs}"
  obtains fs' where "write_objects d i objs fs = (True, fs')" "hf_resolve fs' = hf_resolve fs"
    "\<And>j. j < length objs \<Longrightarrow> file_at fs' (object_path d (i + j)) = Some (RegularFile (bytes_text (objs ! j)))"
    "\<And>p. hf_resolve fs p \<notin> (\<lambda>j. hf_resolve fs (object_path d j)) ` {i..<i + length objs} \<Longrightarrow> file_at fs' p = file_at fs p"
proof -
  have "\<exists>fs'. write_objects d i objs fs = (True, fs') \<and> hf_resolve fs' = hf_resolve fs \<and>
    (\<forall>j < length objs. file_at fs' (object_path d (i + j)) = Some (RegularFile (bytes_text (objs ! j)))) \<and>
    (\<forall>p. hf_resolve fs p \<notin> (\<lambda>j. hf_resolve fs (object_path d j)) ` {i..<i + length objs} \<longrightarrow> file_at fs' p = file_at fs p)"
    using assms
  proof (induction objs arbitrary: i fs)
    case (Cons obj objs)
    let ?R = "hf_resolve fs" and ?p = "object_path d"
    let ?fs1 = "fs\<lparr> hf_nodes := (hf_nodes fs)(?R (?p i) \<mapsto> RegularFile (bytes_text obj)) \<rparr>"
    have w: "mc_writeFile (?p i) (bytes_text obj) fs = (True, ?fs1)"
      using Cons.prems(1) [of 0] by (simp add: mc_writeFile_def)
    have at: "file_at ?fs1 q = (if ?R q = ?R (?p i) then Some (RegularFile (bytes_text obj)) else file_at fs q)" for q
      by (simp add: file_at_def)
    have inj: "inj_on (\<lambda>j. hf_resolve ?fs1 (?p j)) {Suc i..<Suc i + length objs}"
      by (rule inj_on_subset [of _ "{i..<i + length (obj # objs)}"]) (use Cons.prems(2) in auto)
    have new: "?R (?p i) \<notin> (\<lambda>j. ?R (?p j)) ` {Suc i..<Suc i + length objs}"
    proof
      assume "?R (?p i) \<in> (\<lambda>j. ?R (?p j)) ` {Suc i..<Suc i + length objs}"
      then obtain j where "?R (?p i) = ?R (?p j)" "j \<in> {Suc i..<Suc i + length objs}" by blast
      then show False using inj_on_eq_iff [OF Cons.prems(2), of i j] by simp
    qed
    have ok: "hf_writable ?fs1 (?p (Suc i + j)) \<and> file_at ?fs1 (?p (Suc i + j)) \<noteq> Some Directory" if "j < length objs" for j
      using Cons.prems(1) [of "Suc j"] that by (simp add: at)
    from Cons.IH [OF ok inj] obtain fs' where fs': "write_objects d (Suc i) objs ?fs1 = (True, fs')" "hf_resolve fs' = ?R"
      "\<And>j. j < length objs \<Longrightarrow> file_at fs' (?p (Suc i + j)) = Some (RegularFile (bytes_text (objs ! j)))"
      "\<And>p. ?R p \<notin> (\<lambda>j. ?R (?p j)) ` {Suc i..<Suc i + length objs} \<Longrightarrow> file_at fs' p = file_at ?fs1 p"
      by auto
    have "file_at fs' (?p (i + j)) = Some (RegularFile (bytes_text ((obj # objs) ! j)))" if "j < length (obj # objs)" for j
      using that fs'(3) [of "j - 1"] fs'(4) [OF new] by (cases j) (simp_all add: at)
    moreover have "file_at fs' p = file_at fs p" if "?R p \<notin> (\<lambda>j. ?R (?p j)) ` {i..<i + length (obj # objs)}" for p
    proof -
      have "{i..<i + length (obj # objs)} = insert i {Suc i..<Suc i + length objs}" by auto
      then show ?thesis using that fs'(4) [of p] by (simp add: at)
    qed
    ultimately show ?case using w fs'(1,2) by auto
  qed simp
  then show thesis using that by blast
qed

lemma show_nat_inj: "show_nat i = show_nat j \<Longrightarrow> i = j"
  by (drule arg_cong [of _ _ "of_digits 10"]) (simp only: of_digits_show of_nat_eq_iff)

lemma object_path_inj: "object_path d i = object_path d j \<Longrightarrow> i = j"
  by (auto simp: object_path_def path_append_def is_relative_def dest: show_nat_inj split: if_splits)

lemma remove_all_append: "remove_all tools (ps @ qs) fs = do { fs' \<leftarrow> remove_all tools ps fs; remove_all tools qs fs' }"
  by (induction ps arbitrary: fs) (auto split: bind_splits)

text \<open>C40: \<open>linkKernelObjects\<close> hands its objects to the linker. When the command runs, every object is in its own file, the files are
  named in the order of the objects, and the result is the file the linker leaves; then the files are removed. When the
  command fails they stay in the temporary directory.\<close>

theorem linker_sees_objects:
  assumes "ht_temp_dir tools = Some d" "inj_on (hf_resolve fs) (object_path d ` {..<length objects})"
    and "list_all (\<lambda>j. hf_writable fs (object_path d j) \<and> file_at fs (object_path d j) \<noteq> Some Directory) [0..<length objects]"
  shows "\<exists>fs1. list_all (\<lambda>j. file_at fs1 (object_path d j) = Some (RegularFile (bytes_text (objects ! j)))) [0..<length objects] \<and>
    (let elf = path_append d ''riscv_gpgpu_linked.elf''; paths = map (object_path d) [0..<length objects];
         (result, fs2) = ht_system tools (link_command elf paths) fs1
     in if result \<noteq> 0 then linkKernelObjects tools objects out fs = Some (False, out, fs2)
        else linkKernelObjects tools objects out fs = do {
          (ok, bytes) \<leftarrow> readFileBytes elf out fs2; fs3 \<leftarrow> remove_all tools (paths @ [elf]) fs2; Some (ok, bytes, fs3) })"
proof -
  have inj: "inj_on (\<lambda>j. hf_resolve fs (object_path d j)) {0..<0 + length objects}"
    using comp_inj_on [of "object_path d" "{..<length objects}" "hf_resolve fs"] assms(2) object_path_inj
    by (simp add: inj_on_def lessThan_atLeast0)
  have "hf_writable fs (object_path d (0 + j)) \<and> file_at fs (object_path d (0 + j)) \<noteq> Some Directory" if "j < length objects" for j
    using assms(3) that by (simp add: list_all_iff)
  from write_objects_files [OF this inj] obtain fs1 where fs1: "write_objects d 0 objects fs = (True, fs1)"
    "\<And>j. j < length objects \<Longrightarrow> file_at fs1 (object_path d j) = Some (RegularFile (bytes_text (objects ! j)))"
    by (metis add_0)
  let ?elf = "path_append d ''riscv_gpgpu_linked.elf''"
  obtain r fs2 where "ht_system tools (link_command ?elf (map (object_path d) [0..<length objects])) fs1 = (r, fs2)" by force
  then show ?thesis
    using fs1 assms(1)
    by (intro exI [of _ fs1])
      (auto simp: linkKernelObjects_def runCommand_def Let_def list_all_iff remove_all_append readFileBytes_def
        split: option.split file_node.split bind_splits)
qed

section \<open>The output directory\<close>

lemma filename_split: "\<exists>d. p = d @ path_filename p \<and> (d = [] \<or> last d = CHR ''/'')"
proof (intro exI conjI)
  show "p = rev (dropWhile (\<lambda>c. c \<noteq> CHR ''/'') (rev p)) @ path_filename p"
    by (metis path_filename_def rev_append rev_rev_ident takeWhile_dropWhile_id)
  show "rev (dropWhile (\<lambda>c. c \<noteq> CHR ''/'') (rev p)) = [] \<or> last (rev (dropWhile (\<lambda>c. c \<noteq> CHR ''/'') (rev p))) = CHR ''/''"
    using hd_dropWhile [of "\<lambda>c. c \<noteq> CHR ''/''" "rev p"] by (auto simp: last_rev)
qed

lemma filename_no_slash: "CHR ''/'' \<notin> set (path_filename p)"
  by (auto simp: path_filename_def dest: set_takeWhileD)

lemma extension_short: "length (path_extension p) \<le> length (path_filename p)"
proof -
  let ?n = "path_filename p"
  have "length (takeWhile (\<lambda>c. c \<noteq> CHR ''.'') (rev ?n)) < length ?n" if "CHR ''.'' \<in> set ?n"
  proof (rule ccontr)
    assume "\<not> ?thesis"
    then have "takeWhile (\<lambda>c. c \<noteq> CHR ''.'') (rev ?n) = rev ?n"
      using length_takeWhile_le [of "\<lambda>c. c \<noteq> CHR ''.''" "rev ?n"] by (metis length_rev le_antisym linorder_not_less takeWhile_eq_take take_all_iff)
    then show False using that by (auto simp: takeWhile_eq_all_conv)
  qed
  then show ?thesis by (auto simp: path_extension_def Let_def Suc_le_eq)
qed

lemma parent_path_split:
  assumes "CHR ''/'' \<notin> set n" "d = [] \<or> last d = CHR ''/''"
  shows "parent_path (d @ n) = (let d' = rev (dropWhile (\<lambda>c. c = CHR ''/'') (rev d)) in if d = [] then [] else if d' = [] then ''/'' else d')"
proof -
  have "dropWhile (\<lambda>c. c \<noteq> CHR ''/'') (rev n @ rev d) = dropWhile (\<lambda>c. c \<noteq> CHR ''/'') (rev d)"
    by (rule dropWhile_append2) (use assms(1) in auto)
  also have "\<dots> = rev d" using assms(2) by (cases d rule: rev_cases) auto
  finally show ?thesis by (simp add: parent_path_def Let_def)
qed

lemma parent_replace_extension:
  assumes "CHR ''/'' \<notin> set r" shows "parent_path (replace_extension p r) = parent_path p"
proof -
  obtain d where d: "p = d @ path_filename p" "d = [] \<or> last d = CHR ''/''" using filename_split by blast
  let ?n = "path_filename p" and ?k = "length p - length (path_extension p)"
  have len: "length p = length d + length ?n" by (metis d(1) length_append)
  have "take ?k p = take ?k (d @ ?n)" using d(1) by simp
  also have "\<dots> = d @ take (?k - length d) ?n" using extension_short [of p] len by simp
  finally have "\<exists>n. replace_extension p r = d @ n \<and> CHR ''/'' \<notin> set n"
    using assms filename_no_slash [of p] in_set_takeD [of "CHR ''/''" _ ?n] by (auto simp: replace_extension_def)
  then show ?thesis using parent_path_split [OF _ d(2)] filename_no_slash [of p] d(1) by metis
qed

text \<open>The compiler has to write the object file into the directory of the output before that directory is created. With
  a compiler that cannot write into a missing directory the call fails and creates nothing.\<close>

lemma output_directory_too_late:
  assumes "pathExists source_path fs" "\<not> pathExists (parent_path output_file) fs"
    and "\<And>obj. \<not> pathExists (parent_path obj) fs \<Longrightarrow> ht_system tools (compile_command source_path obj) fs = (1, fs)"
  shows "emitKernelBinary_to tools source_path output_file fs = Some (False, fs)"
proof -
  have "parent_path (replace_extension output_file ''.o'') = parent_path output_file"
    by (rule parent_replace_extension) simp
  then show ?thesis using assms by (simp add: emitKernelBinary_to_def runCommand_def Let_def)
qed

section \<open>Examples\<close>

definition drop_file :: "string \<Rightarrow> host_fs \<Rightarrow> host_fs" where
  "drop_file p fs = fs\<lparr> hf_nodes := (hf_nodes fs)(hf_resolve fs p := None) \<rparr>"

definition demo_source :: string where
  "demo_source = ''k'' @ [apostrophe] @ '';rm x;'' @ [apostrophe] @ ''.c''"

definition demo_files :: host_fs where
  "demo_files = \<lparr> hf_resolve = (\<lambda>p. p), hf_nodes = [demo_source \<mapsto> RegularFile [], ''x'' \<mapsto> RegularFile ''data''], hf_cwd = ''/'',
     hf_writable = (\<lambda>_. True), hf_run = (\<lambda>_. []) \<rparr>"

text \<open>A shell that obeys an unquoted \<open>rm x\<close> and otherwise leaves a linked file.\<close>

definition demo_tools :: host_tools where
  "demo_tools = \<lparr> ht_system = (\<lambda>cmd fs. if find_text '';rm x;'' (unquoted False cmd) \<noteq> None then (127, drop_file ''x'' fs)
       else (0, fs\<lparr> hf_nodes := (hf_nodes fs)(hf_resolve fs ''/tmp/riscv_gpgpu_linked.elf'' \<mapsto> RegularFile ''ELF'') \<rparr>)),
     ht_temp_dir = Some ''/tmp'', ht_mkdirs = (\<lambda>p fs. Some fs), ht_remove = (\<lambda>p fs. Some (drop_file p fs)) \<rparr>"

theorem apostrophes_open_the_command_witness:
  "emitKernelBinary_to demo_tools demo_source ''k.elf'' demo_files = Some (False, drop_file ''x'' demo_files)"
proof -
  have e: "pathExists (''k'' @ [apostrophe] @ '';rm x;'' @ [apostrophe] @ ''.c'') demo_files"
    by (simp add: pathExists_def file_at_def demo_files_def demo_source_def)
  have "no_quoting (''k'' @ '';rm x;'' @ ''.c'' @ ''k.elf'')" by (simp add: apostrophe_def backslash_def)
  from apostrophes_open_the_command [OF e this, of demo_tools] obtain cmd where
    cmd: "unquoted False cmd = clang_target @ getClangSourceOptions demo_source @ '' -O2 -c '' @ '';rm x;'' @ '' -o ''"
    "fst (ht_system demo_tools cmd demo_files) \<noteq> 0 \<longrightarrow>
      emitKernelBinary_to demo_tools demo_source ''k.elf'' demo_files = Some (False, snd (ht_system demo_tools cmd demo_files))"
    unfolding demo_source_def by blast
  have "getClangSourceOptions demo_source = ''-x c''"
    by (simp add: demo_source_def getClangSourceOptions_def isCudaSource_def path_extension_def path_filename_def Let_def
        to_lower_def char_in_def of_char_def apostrophe_def)
  then have "find_text '';rm x;'' (unquoted False cmd) \<noteq> None"
    by (simp add: cmd(1) clang_target_def starts_with_def)
  then show ?thesis using cmd(2) by (simp add: demo_tools_def)
qed

theorem linker_sees_objects_witness:
  "linkKernelObjects demo_tools [[1, 2], [3]] [] demo_files \<noteq> None \<and>
   fst (the (linkKernelObjects demo_tools [[1, 2], [3]] [] demo_files))"
proof -
  have i: "inj_on (hf_resolve demo_files) (object_path ''/tmp'' ` {..<length [[1, 2], [3 :: u8]]})"
    by (simp add: demo_files_def inj_on_def)
  have p: "demo_source \<noteq> object_path ''/tmp'' j" "''x'' \<noteq> object_path ''/tmp'' j" for j
    by (simp_all add: demo_source_def object_path_def path_append_def is_relative_def)
  have w: "list_all (\<lambda>j. hf_writable demo_files (object_path ''/tmp'' j) \<and> file_at demo_files (object_path ''/tmp'' j) \<noteq> Some Directory)
    [0..<length [[1, 2], [3 :: u8]]]"
    using p [symmetric] by (auto simp: list_all_iff demo_files_def file_at_def)
  let ?elf = "''/tmp/riscv_gpgpu_linked.elf''"
  have q: "find_text '';rm x;'' (unquoted False (link_command ?elf (map (object_path ''/tmp'') [0..<2]))) = None"
    by code_simp
  have linked: "ht_system demo_tools (link_command ?elf (map (object_path ''/tmp'') [0..<2])) fs
    = (0, fs\<lparr> hf_nodes := (hf_nodes fs)(hf_resolve fs ?elf \<mapsto> RegularFile ''ELF'') \<rparr>)" for fs
    using q by (simp add: demo_tools_def)
  have removed: "\<exists>fs'. remove_all demo_tools ps fs = Some fs'" for ps fs
    by (induction ps arbitrary: fs) (simp_all add: demo_tools_def)
  have elf: "path_append ''/tmp'' ''riscv_gpgpu_linked.elf'' = ?elf" by (simp add: path_append_def is_relative_def)
  have two: "length [[1, 2], [3 :: u8]] = 2" by simp
  have tmp: "ht_temp_dir demo_tools = Some ''/tmp''" by (simp add: demo_tools_def)
  obtain fs1 where "linkKernelObjects demo_tools [[1, 2], [3]] [] demo_files = do {
      (ok, bytes) \<leftarrow> readFileBytes ?elf [] (fs1\<lparr> hf_nodes := (hf_nodes fs1)(hf_resolve fs1 ?elf \<mapsto> RegularFile ''ELF'') \<rparr>);
      fs3 \<leftarrow> remove_all demo_tools (map (object_path ''/tmp'') [0..<2] @ [?elf])
        (fs1\<lparr> hf_nodes := (hf_nodes fs1)(hf_resolve fs1 ?elf \<mapsto> RegularFile ''ELF'') \<rparr>);
      Some (ok, bytes, fs3) }"
    using linker_sees_objects [OF tmp i w, of "[]", unfolded elf two Let_def linked split_conv] by auto
  then show ?thesis
    using removed [of "map (object_path ''/tmp'') [0..<2] @ [?elf]"
        "fs1\<lparr> hf_nodes := (hf_nodes fs1)(hf_resolve fs1 ?elf \<mapsto> RegularFile ''ELF'') \<rparr>"]
    by (auto simp: readFileBytes_def file_at_def)
qed

end
