(* ===== verification/Spec2Isabelle.thy ===== *)
theory Spec2Isabelle
  imports WarpParity SystemTop Dispatch MemArb BarrierArb ProgramLoader GpgpuTop Cluster PtxProgram
    HostProps HostRuntime FlatLive ClusterTop KernelReduction LlvmTools
begin

text \<open>
  Verification library of the RISC-V GPGPU.

  The program. A kernel is a list of at most 256 instruction words that a grid of warps of 32 lanes executes in
  lockstep. The repository holds two implementations of the device. The synthesizable one (under
  \<open>hls/src\<close>) is a network of free-running processes joined by FIFO streams: a scheduler core
  per compute unit, the compute pipelines, a memory arbiter in front of one memory pipeline with its
  caches, a barrier arbiter and a program loader, either flat (8 units) or in clusters. The golden one
  (under \<open>models/systemc/src\<close>) is a functional model: a warp scheduler, compute units with a
  SIMT controller, and a memory hierarchy, driven by one simulation loop; its compute unit has a second mode that
  executes raw RV32IMF binaries (\<open>models/systemc/integration/riscv_isa.h\<close>). Both are documented to be
  functionally equal, which is the claim the development is organised around. Both can be put in a
  system of several devices. Kernels come from PTX: a transpiler (\<open>driver/src/ptx_transpiler\<close>) parses the text and
  emits RV32IMF assembly. Around the device stands the host software: the bundles of \<open>software/kernel_loader\<close>, the
  runtime (\<open>runtime/src\<close>), the host API (\<open>software/host_api\<close>), the drivers of the prototype and of the board
  (\<open>driver/src\<close>) and the bridge that runs a compiled kernel on the golden compute unit
  (\<open>models/systemc/integration\<close>).

  Theories, in the order of the code, with the source they model.

  \<^item> \<open>Prelude\<close>: words, lanes, loops over lanes, queues, the fact collections. \<open>HlsTypes\<close>:
    \<open>hls_config.h\<close> and \<open>hls_types.h\<close>. \<open>WordMemory\<close>: the interface (a locale) of
    a word-addressed memory with storage behind some of its addresses, which both memory systems instantiate.
  \<^item> \<open>Codec\<close>: \<open>rv32i_codec.h\<close>. Lemmas: each format's fields survive packing; decoding
    inverts encoding for every opcode.
  \<^item> \<open>DivStack\<close> (\<open>divergence_stack.h\<close>) and \<open>GoldenSimt\<close>
    (\<open>simt_controller.cpp\<close>): both refine one abstract machine of an active mask and a stack of
    masks; region restoration and the partition of the lanes are proved for the abstract machine, in a
    locale, and transported. The hardware stack holds 8 masks and drops the push that does not fit; the results
    hold for runs of any length whose overflow flag stays clear.
  \<^item> \<open>ComputePipeline\<close>: \<open>compute_pipeline.cpp\<close>. The warp loop ends because the program
    counter only grows, up to \<open>MAX_PROGRAM_LEN\<close> = 256.
  \<^item> \<open>CacheBank\<close>, \<open>MemPipeline\<close>: \<open>cache_bank.h\<close>, \<open>memory_pipeline.h\<close>.
    The invariant is that a valid line agrees with memory; from it, transparency for one unit, and
    the exact way it breaks when another unit stores.
  \<^item> \<open>Dispatch\<close>, \<open>MemArb\<close>, \<open>BarrierArb\<close>, \<open>ProgramLoader\<close>,
    \<open>GpgpuTop\<close>, \<open>Cluster\<close>: \<open>hls/src/scheduler\<close>. Each process is a function of one
    pass of its loop. \<open>GpgpuTop\<close> composes them in a step relation over all
    interleavings; one inductive invariant counts the warps in each place and gives the
    safety of release and completion and the absence of deadlock.
  \<^item> \<open>FlatDevice\<close>, \<open>FlatRun\<close>, \<open>FlatLive\<close>: the whole flat device (\<open>gpgpu_scheduler\<close> of
    \<open>gpgpu_top.cpp\<close>), in which the loader and the pipelines are the code's too. \<open>FlatDevice\<close> is the network and
    where its loader stands; \<open>FlatRun\<close> the abstraction onto the network of \<open>GpgpuTop\<close>, whose invariant it inherits, and
    what each register file holds at every moment; \<open>FlatLive\<close> a weight that every pass with an effect
    lowers. Together: in any order of passes, when \<open>done\<close> rises every warp has computed its kernel, and without
    barriers \<open>done\<close> rises.
  \<^item> \<open>ClusterTop\<close>: \<open>gpgpu_scheduler\<close> and \<open>cuCluster\<close> of the hierarchical build, with the pipelines that the
    preprocessor leaves in it. One invariant counts the completions that can still arrive: fewer than the barrier core waits for.
  \<^item> \<open>GMem\<close>, \<open>GoldenCU\<close>, \<open>GoldenSched\<close>, \<open>GoldenTop\<close>: the golden
    memory hierarchy, compute unit, scheduler and device. The simulation loop runs on fuel; the number of
    waiting warps is proved to be enough.
  \<^item> \<open>RV32\<close>, \<open>RV32Exec\<close>: the RV32IMF decoder, the compressed-instruction expander
    and the binary mode of the golden compute unit.
  \<^item> \<open>WarpParity\<close>: the synthesizable compute unit and its memory against the golden ones on
    one warp, for builds with and without vector operations. Its conditions are on the instructions that are executed
    (\<open>step_fits\<close>), and each stands for a difference of the two models: vector operations in a build without
    them, addresses beyond 32 bits, the shared window that the golden device never allocates, and the overflow of the
    divergence stack. \<open>SystemTop\<close>: both systems of several devices.
  \<^item> \<open>Kernels\<close>: the kernels of \<open>kernel_programs.h\<close> on the golden compute unit. A kernel without jumps runs as a list
    (\<open>run_list\<close>), each instruction a function of the lanes; what the SAXPY, the divergent and the convolution kernels leave in
    the registers. \<open>KernelReduction\<close>: the reduction of two warps across a barrier on the golden device.
  \<^item> \<open>PtxLexer\<close>, \<open>PtxParser\<close>: the tokenizer and the parser of \<open>ptx_parser.cpp\<close>, with the
    termination of every loop. \<open>PtxPrint\<close>: a printer of kernels, and the parser as its inverse.
  \<^item> \<open>RvEmitter\<close>: \<open>rv_emitter.cpp\<close> and \<open>toAssembly\<close>, in a state monad over the members of the
    class. \<open>RvLowering\<close>: a small program logic for it (\<open>produces\<close>) and the register allocator's
    invariant. \<open>PtxSemantics\<close>: what a PTX instruction and an assembly line do, and that each
    instruction of the fragment (\<open>lowerable\<close>) is emitted as lines that do the same. \<open>PtxProgram\<close>: the
    simulation of whole kernels, and the inputs on which the lowering is wrong.

  \<^item> \<open>OrdMap\<close>: \<open>std::map\<close> and \<open>std::set\<close>. \<open>DeviceHeap\<close>: the interface (a locale) of device
    memory, buffers that are allocated, filled, read and freed. \<open>Driver\<close> (\<open>driver/src/loader.cpp\<close>) and
    \<open>FpgaDriver\<close> (\<open>fpga_driver.cpp\<close>, \<open>fpga_regs.h\<close>) provide it; a copy read back is what was copied in, and the
    board's copies stay in the mapped aperture.
  \<^item> \<open>ElfLoader\<close> (\<open>integration/elf_loader.cpp\<close>) and \<open>FpgaElf\<close> (\<open>driver/src/fpga_elf_loader.cpp\<close>): the two ELF
    loaders; the bytes that both place at the same addresses are the same, and only the simulator's reads symbols,
    outside of the file when the symbol table is bad.
  \<^item> \<open>KernelBridge\<close> (\<open>kernel_bridge.cpp\<close>): a launch on the golden compute unit, one unit per thread. \<open>BridgeRun\<close>:
    with a cycle limit every run returns. \<open>BridgeBarrier\<close>: the invariant of its barriers, which open for whole blocks.
    \<open>ThreadContexts\<close>: \<open>computeThreadContexts\<close> of \<open>host_runtime.cpp\<close>. \<open>BridgeLaunch\<close>: the context slot and the
    registers each thread starts with are those the runtime computes and compiled kernels read, under both schedulers. \<open>BridgeSolo\<close>: a
    launch of one thread is the run of its unit.
  \<^item> \<open>PtxCompile\<close> (\<open>ptx_transpiler.cpp\<close>): parse, emit, assemble. \<open>HostApi\<close> (\<open>host_api.cpp\<close>): buffers,
    registrations, staged arguments, launches and their statistics over both drivers. \<open>HostLaunch\<close>
    (\<open>systemc_host_backend.cpp\<close>): what a launch asks of a backend (a locale) and the bridge as its instance.
    \<open>HostProps\<close>: what a launch through the host API runs and how it leaves the state.
  \<^item> \<open>KernelBundle\<close> (\<open>kernel_loader.cpp\<close>): packing, inspecting and loading bundles. \<open>BundleTrip\<close>: the manifest
    written is the manifest read. \<open>HostRuntime\<close> (\<open>host_runtime.cpp\<close>): one loaded bundle and the ownership of
    its PTX registration.
  \<^item> \<open>LlvmTools\<close> (\<open>llvm_backend.cpp\<close>, \<open>riscv_gpgpu_mc.cpp\<close>): the commands given to the external compiler and
    linker. What a shell reads of them outside of its quotes, and which files the linker finds.

  State and effects. A class or process is a record of its fields, and an operation takes and returns the
  record. A stream is a list with its head first. A loop that never returns is modelled one pass at a
  time. C++ integers are words of their width; \<open>int\<close> loop counters that stay
  small are \<open>nat\<close>. A failed operation returns what the code returns, and an undefined one
  (host division overflow) is \<open>None\<close>. A division of the host by a product of dimensions that wraps to zero
  (\<open>worker_traps\<close>) ends the run in \<open>HostTrap\<close>.

  Parameters. Floating point arithmetic (\<open>fpu\<close> of the compute units, \<open>rv_fpu\<close> of the binary
  mode) is the host's or the IP core's and is an argument of every definition that uses it. The compute
  pipeline takes its memory as an argument (\<open>memf\<close>), which \<open>MemPipeline\<close> instantiates. The tokenizer takes
  \<open>std::stod\<close> as an argument. The assembler is not in the repository: the semantics gives a mnemonic the meaning that
  \<open>RV32Exec\<close> gives to the operation of that name, and the pseudo-instructions their expansion in the RISC-V manual. On the host side the
  environment is passed in: the memory the host grants (\<open>host_alloc\<close>), the answers of \<open>open\<close> and \<open>mmap\<close>
  (\<open>os_answers\<close>) and the polls of the status register, the files by path, the file system and shell commands of the
  bundle loader (\<open>host_fs\<close>), the shell of the compiler driver (\<open>host_tools\<close>), the external assembler (\<open>toolchain\<close>), the temporary file of the backend
  (\<open>temp_file\<close>), and the build, simulated or for the board. There a result \<open>None\<close> is a call that never returns or
  that leaves with an exception, as each theory says, and \<open>HostTrap\<close> a host process that dies.

  Fuel and bounds. \<open>sim_loop\<close> needs one pass per waiting warp. \<open>binary_run\<close> runs a given
  number of steps, and the watchdog theorem bounds them by the code's own limit. A warp needs at most
  \<open>MAX_PROGRAM_LEN\<close> + 1 further dispatches. The program loader needs 256 passes for the program and
  8192 + 1 for the registers. The flat device makes at most 197655 passes that change something: 3 for each of the
  65538 + 256 of the loader (which may also let units start), 4 for each of its 64 slots and 17 of the cores. The bridge's schedulers are partial functions: with a cycle limit
  \<open>bridge_run_returns\<close> proves that they return, and without one a run may be \<open>None\<close>. The context slots are
  described for at most 32768 threads: from there on they lie in the window of the shared memory. In the flat device a
  dispatched warp runs in one step, so the requests of different units are interleaved warp by warp; its result is stated for
  kernels that do not load (\<open>load_free\<close>) and its completion for kernels without a barrier (\<open>barrier_free\<close>), launched with
  at least one warp and with \<open>start\<close> held high until it is done: a launch of no warps, or a \<open>start\<close> that falls while the
  loader works, hangs. The kernels of
  \<open>kernel_programs.h\<close> are run with 32 lanes.

  Not modelled. The AXI timing and the pragmas of the synthesizable design, SystemC events and delta cycles, logging
  and statistics printing have no functional content. The external assembler, \<open>nm\<close>, the shell and the operating
  system are arguments. In \<open>ClusterTop\<close> the pipelines answer anything their interface allows, the register loader is seen
  through its tokens, and the memory arbiters are left out. The tests and benchmarks, the
  configuration header, logging and the main program of the simulation are listed in the manifest with the reason for each.
\<close>

end
